(* ===== verification/Prelude.thy ===== *)
theory Prelude
  imports Main "HOL-Library.Word" "HOL-Library.Monad_Syntax"
begin

unbundle bit_operations_syntax

text \<open>
  Shared vocabulary of the development.  A failed \<open>ASSERT\<close>, a failed \<open>CHECK_CONDITION\<close>,
  a \<open>Log(kCrash, ...)\<close> and the dereference of a null pointer are all the value \<open>None\<close>; the
  operations that can fail in one of these ways run in the option monad.  Counters that the
  code keeps in unsigned 64-bit words are natural numbers with the wrap-around written out
  by \<open>add64\<close> and \<open>sub64\<close>.
\<close>

named_theorems crash_simps \<open>unfolding of the failure monad\<close>

subsection \<open>Failure\<close>

definition check :: "bool \<Rightarrow> unit option" where
  "check b = (if b then Some () else None)"

lemma check_simps [simp, crash_simps]:
  "check True = Some ()"
  "check False = None"
  "(check b = Some u) = b"
  "(check b = None) = (\<not> b)"
  by (auto simp: check_def)

lemma check_bind [simp, crash_simps]: "(check b \<bind> f) = (if b then f () else None)"
  by (simp add: check_def)

text \<open>
  The simplifier evaluates the first argument of a bind before it looks at the continuation, so
  that unfolding a loop written in the monad stops where the loop stops.
\<close>

lemma bind_weak_cong [cong]: "x = y \<Longrightarrow> (x \<bind> f) = (y \<bind> f)" for x :: "'a option"
  by simp

lemma bind_SomeE [elim!]:
  assumes "(x \<bind> f) = Some y"
  obtains z where "x = Some z" "f z = Some y"
  using assms by (cases x) auto

lemma bind_SomeI [intro]: "x = Some z \<Longrightarrow> f z = Some y \<Longrightarrow> (x \<bind> f) = Some y"
  by simp

subsection \<open>Unsigned 64-bit arithmetic on natural numbers\<close>

definition two64 :: nat where
  "two64 = 2 ^ 64"

definition add64 :: "nat \<Rightarrow> nat \<Rightarrow> nat" where
  "add64 a b = (a + b) mod two64"

definition sub64 :: "nat \<Rightarrow> nat \<Rightarrow> nat" where
  "sub64 a b = (a + (two64 - b mod two64)) mod two64"

lemma two64_pos [simp]: "0 < two64"
  by (simp add: two64_def)

lemma add64_exact: "a + b < two64 \<Longrightarrow> add64 a b = a + b"
  by (simp add: add64_def)

lemma sub64_exact:
  assumes "b \<le> a" "a < two64"
  shows "sub64 a b = a - b"
proof -
  from assms have "a + (two64 - b mod two64) = (a - b) + two64"
    by simp
  then have "sub64 a b = (a - b) mod two64"
    unfolding sub64_def by (simp only: mod_add_self2)
  then show ?thesis using assms by simp
qed

lemma add64_less [simp]: "add64 a b < two64"
  by (simp add: add64_def)

lemma sub64_less [simp]: "sub64 a b < two64"
  by (simp add: sub64_def)

text \<open>The conversion of a 64-bit value to a signed 32-bit \<open>int\<close> (two's complement).\<close>

definition to_int32 :: "int \<Rightarrow> int" where
  "to_int32 x = (x + 2 ^ 31) mod 2 ^ 32 - 2 ^ 31"

lemma to_int32_exact: "- (2 ^ 31) \<le> x \<Longrightarrow> x < 2 ^ 31 \<Longrightarrow> to_int32 x = x"
  by (simp add: to_int32_def)

lemma to_int32_range: "- (2 ^ 31) \<le> to_int32 x \<and> to_int32 x < 2 ^ 31"
proof -
  have "0 \<le> (x + 2 ^ 31) mod 2 ^ 32" "(x + 2 ^ 31) mod 2 ^ 32 < 2 ^ (32::nat)"
    by (simp_all add: pos_mod_bound)
  then show ?thesis unfolding to_int32_def by simp
qed

end
