(* ===== verification/SizeMap.thy ===== *)
theory SizeMap
  imports Prelude
begin

unbundle bit_operations_syntax

text \<open>
  Size classes: \<open>common.h\<close> and \<open>common.cc\<close>.  The constants are those of the default build
  (\<open>TCMALLOC_LARGE_PAGES\<close> and \<open>TCMALLOC_SMALL_BUT_SLOW\<close> not defined).  The arrays of
  \<open>class SizeMap\<close> are functions of the index, zero before \<open>Init\<close>; \<open>None\<close> is a crash.
\<close>

subsection \<open>Configuration\<close>

definition kPageShift :: nat where [simp]: "kPageShift = 13"
definition kNumClasses :: nat where [simp]: "kNumClasses = 86"
definition kMaxThreadCacheSize :: nat where [simp]: "kMaxThreadCacheSize = 4194304"
definition kPageSize :: nat where [simp]: "kPageSize = 8192"
definition kMaxSize :: nat where [simp]: "kMaxSize = 262144"
definition kAlignment :: nat where [simp]: "kAlignment = 8"
definition kMaxPages :: nat where [simp]: "kMaxPages = 128"
definition kDefaultOverallThreadCacheSize :: nat where
  [simp]: "kDefaultOverallThreadCacheSize = 33554432"
definition kMinThreadCacheSize :: nat where [simp]: "kMinThreadCacheSize = 524288"
definition kStealAmount :: nat where [simp]: "kStealAmount = 65536"
definition kMaxOverages :: nat where [simp]: "kMaxOverages = 3"
definition kMaxDynamicFreeListLength :: nat where [simp]: "kMaxDynamicFreeListLength = 8192"
definition kMaxValidPages :: nat where [simp]: "kMaxValidPages = (2 ^ 64 - 1) div 2 ^ 13"
definition kAddressBits :: nat where [simp]: "kAddressBits = 48"

lemma kPageSize_shift: "kPageSize = 2 ^ kPageShift"
  by simp

lemma kMaxPages_shift: "kMaxPages = 2 ^ (20 - kPageShift)"
  by simp

text \<open>\<open>pages(bytes)\<close>: the number of pages that hold the given number of bytes.\<close>

definition pages :: "nat \<Rightarrow> nat" where
  "pages bytes = bytes div 2 ^ kPageShift + (if bytes mod kPageSize > 0 then 1 else 0)"

lemma pages_least: "bytes \<le> pages bytes * kPageSize \<and> (\<forall>n. bytes \<le> n * kPageSize \<longrightarrow> pages bytes \<le> n)"
proof -
  have d: "bytes = bytes div 8192 * 8192 + bytes mod 8192" "bytes mod 8192 < 8192"
    by simp_all
  have "bytes div 8192 < n" if "bytes \<le> n * 8192" "0 < bytes mod 8192" for n
  proof -
    have "bytes div 8192 * 8192 < n * 8192" using that d by linarith
    then show ?thesis by simp
  qed
  moreover have "bytes div 8192 \<le> n" if "bytes \<le> n * 8192" for n
    using div_le_mono[OF that, of 8192] by simp
  ultimately have "\<forall>n. bytes \<le> n * kPageSize \<longrightarrow> pages bytes \<le> n"
    by (simp add: pages_def Suc_le_eq)
  moreover have "bytes \<le> pages bytes * kPageSize"
  proof (cases "0 < bytes mod 8192")
    case True
    then have "pages bytes = bytes div 8192 + 1" by (simp add: pages_def)
    with d show ?thesis unfolding kPageSize_def by linarith
  next
    case False
    then have "pages bytes = bytes div 8192" by (simp add: pages_def)
    with d False show ?thesis unfolding kPageSize_def by linarith
  qed
  ultimately show ?thesis by blast
qed

subsection \<open>Alignment of a size\<close>

definition lg_step :: "nat \<Rightarrow> nat \<times> nat \<Rightarrow> nat \<times> nat" where
  "lg_step i = (\<lambda>(n, log).
     let shift = 2 ^ i; x = n div 2 ^ shift
     in if x \<noteq> 0 then (x, log + shift) else (n, log))"

definition LgFloor :: "nat \<Rightarrow> nat option" where
  "LgFloor n = (let (n', log) = fold lg_step [4, 3, 2, 1, 0] (n, 0)
                in do { check (n' = 1); Some log })"

definition AlignmentForSize :: "nat \<Rightarrow> nat option" where
  "AlignmentForSize sz = do {
     alignment \<leftarrow>
       (if sz > kMaxSize then Some kPageSize
        else if sz \<ge> 128 then do { lg \<leftarrow> LgFloor sz; Some (2 ^ lg div 8) }
        else if sz \<ge> 16 then Some 16
        else Some kAlignment);
     let alignment = (if alignment > kPageSize then kPageSize else alignment);
     check (sz < 16 \<or> alignment \<ge> 16);
     check (alignment AND (alignment - 1) = 0);
     Some alignment }"

definition NumMoveSize :: "nat \<Rightarrow> nat" where
  "NumMoveSize sz =
     (if sz = 0 then 0
      else let num = 65536 div sz;
               num = (if num < 2 then 2 else num);
               num = (if num > 32 then 32 else num)
           in num)"

subsection \<open>The state of a size map\<close>

record sizemap =
  num_objects_to_move_arr :: "nat \<Rightarrow> nat"
  class_array :: "nat \<Rightarrow> nat"
  class_to_size_arr :: "nat \<Rightarrow> nat"
  class_to_pages_arr :: "nat \<Rightarrow> nat"

definition kMaxSmallSize :: nat where [simp]: "kMaxSmallSize = 1024"
definition kClassArraySize :: nat where
  "kClassArraySize = (kMaxSize + 127 + 120 * 128) div 128 + 1"

definition ClassIndex :: "nat \<Rightarrow> nat" where
  "ClassIndex s =
     (let big = (s > kMaxSmallSize);
          add_amount = (if big then 127 + 120 * 128 else 7);
          shift_amount = (if big then 7 else 3)
      in (s + add_amount) div 2 ^ shift_amount)"

definition SizeClass :: "sizemap \<Rightarrow> nat \<Rightarrow> nat" where
  "SizeClass m s = class_array m (ClassIndex s)"

definition ByteSizeForClass :: "sizemap \<Rightarrow> nat \<Rightarrow> nat" where
  "ByteSizeForClass m cl = class_to_size_arr m cl"

definition class_to_size :: "sizemap \<Rightarrow> nat \<Rightarrow> nat" where
  "class_to_size m cl = class_to_size_arr m cl"

definition class_to_pages :: "sizemap \<Rightarrow> nat \<Rightarrow> nat" where
  "class_to_pages m cl = class_to_pages_arr m cl"

definition num_objects_to_move :: "sizemap \<Rightarrow> nat \<Rightarrow> nat" where
  "num_objects_to_move m cl = num_objects_to_move_arr m cl"

subsection \<open>Init\<close>

text \<open>The inner \<open>while\<close> loop: add pages until the leftover is at most one eighth.\<close>

partial_function (option) waste_loop :: "nat \<Rightarrow> nat \<Rightarrow> nat option" where
  "waste_loop sz psize =
     (if psize mod sz > psize div 8 then waste_loop sz (psize + kPageSize) else Some psize)"

text \<open>The \<open>do ... while\<close> loop around it.\<close>

partial_function (option) psize_loop :: "nat \<Rightarrow> nat \<Rightarrow> nat \<Rightarrow> nat option" where
  "psize_loop sz blocks psize = do {
     psize \<leftarrow> waste_loop sz (psize + kPageSize);
     if psize div sz < blocks then psize_loop sz blocks psize else Some psize }"

text \<open>
  The end of the loop body: merge this size into the previous class or open a new one.  The state
  is \<open>(sc, class_to_pages_arr, class_to_size_arr)\<close>.
\<close>

definition add_class ::
  "nat \<Rightarrow> nat \<Rightarrow> nat \<times> (nat \<Rightarrow> nat) \<times> (nat \<Rightarrow> nat) \<Rightarrow> nat \<times> (nat \<Rightarrow> nat) \<times> (nat \<Rightarrow> nat)" where
  "add_class sz my_pages = (\<lambda>(sc, pgs, sizes).
     if sc > 1 \<and> my_pages = pgs (sc - 1)
        \<and> my_pages * 2 ^ kPageShift div sz = pgs (sc - 1) * 2 ^ kPageShift div sizes (sc - 1)
     then (sc, pgs, sizes(sc - 1 := sz))
     else (sc + 1, pgs(sc := my_pages), sizes(sc := sz)))"

partial_function (option) classes_loop ::
  "nat \<Rightarrow> nat \<times> (nat \<Rightarrow> nat) \<times> (nat \<Rightarrow> nat)
   \<Rightarrow> (nat \<times> (nat \<Rightarrow> nat) \<times> (nat \<Rightarrow> nat)) option" where
  "classes_loop sz st =
     (if sz \<le> kMaxSize then do {
        alignment \<leftarrow> AlignmentForSize sz;
        check (sz mod alignment = 0);
        psize \<leftarrow> psize_loop sz (NumMoveSize sz div 4) 0;
        classes_loop (sz + alignment) (add_class sz (psize div 2 ^ kPageShift) st) }
      else Some st)"

text \<open>The mapping array: for each class, all multiples of \<open>kAlignment\<close> up to its size.\<close>

function fill_class :: "nat \<Rightarrow> nat \<Rightarrow> nat \<Rightarrow> (nat \<Rightarrow> nat) \<Rightarrow> nat \<Rightarrow> nat" where
  "fill_class c max_size_in_class s arr =
     (if s \<le> max_size_in_class
      then fill_class c max_size_in_class (s + kAlignment) (arr(ClassIndex s := c))
      else arr)"
  by pat_completeness auto
termination
  by (relation "measure (\<lambda>(c, mx, s, arr). mx + 1 - s)") auto

function fill_classes :: "(nat \<Rightarrow> nat) \<Rightarrow> nat \<Rightarrow> nat \<Rightarrow> (nat \<Rightarrow> nat) \<Rightarrow> nat \<Rightarrow> nat" where
  "fill_classes sizes c next_size arr =
     (if c < kNumClasses
      then fill_classes sizes (c + 1) (sizes c + kAlignment)
             (fill_class c (sizes c) next_size arr)
      else arr)"
  by pat_completeness auto
termination
  by (relation "measure (\<lambda>(sizes, c, n, arr). kNumClasses - c)") auto

text \<open>The final double check of one size.\<close>

definition size_ok :: "sizemap \<Rightarrow> nat \<Rightarrow> bool" where
  "size_ok m sz = (let sc = SizeClass m sz in
     \<not> (sc \<le> 0 \<or> sc \<ge> kNumClasses)
     \<and> \<not> (sc > 1 \<and> sz \<le> class_to_size_arr m (sc - 1))
     \<and> (let s = class_to_size_arr m sc in \<not> (sz > s \<or> s = 0)))"

definition SizeMap_Init :: "sizemap option" where
  "SizeMap_Init = do {
     check (ClassIndex kMaxSize < kClassArraySize);
     check (kAlignment \<le> 16);
     (sc, pgs, sizes) \<leftarrow> classes_loop kAlignment (1, \<lambda>_. 0, \<lambda>_. 0);
     check (sc = kNumClasses);
     let arr = fill_classes sizes 1 0 (\<lambda>_. 0);
     let m = \<lparr>num_objects_to_move_arr = \<lambda>_. 0, class_array = arr,
              class_to_size_arr = sizes, class_to_pages_arr = pgs\<rparr>;
     check (list_all (size_ok m) [0..<kMaxSize + 1]);
     Some (m\<lparr>num_objects_to_move_arr :=
       (\<lambda>cl. if 1 \<le> cl \<and> cl < kNumClasses then NumMoveSize (ByteSizeForClass m cl) else 0)\<rparr>) }"

declare fill_class.simps [simp del] fill_classes.simps [simp del]

subsection \<open>Alignment and floor of the logarithm\<close>

lemma lg_step_inv:
  assumes "n < 2 ^ 2 ^ Suc i" "0 < n" "n = n0 div 2 ^ l"
  shows "let (n', l') = lg_step i (n, l) in n' < 2 ^ 2 ^ i \<and> 0 < n' \<and> n' = n0 div 2 ^ l'"
proof -
  have "n div 2 ^ 2 ^ i < 2 ^ 2 ^ i"
    using assms(1) by (simp add: less_mult_imp_div_less mult_2 power_add)
  moreover have "n div 2 ^ 2 ^ i = n0 div 2 ^ (l + 2 ^ i)"
    using assms(3) by (simp add: power_add div_mult2_eq)
  ultimately show ?thesis
    using assms by (auto simp: lg_step_def Let_def div_eq_0_iff)
qed

lemma LgFloor_correct:
  assumes "0 < n" "n < 2 ^ 32"
  shows "\<exists>k. LgFloor n = Some k \<and> 2 ^ k \<le> n \<and> n < 2 ^ Suc k"
proof -
  obtain n4 l4 where s4: "lg_step 4 (n, 0) = (n4, l4)" by fastforce
  obtain n3 l3 where s3: "lg_step 3 (n4, l4) = (n3, l3)" by fastforce
  obtain n2 l2 where s2: "lg_step 2 (n3, l3) = (n2, l2)" by fastforce
  obtain n1 l1 where s1: "lg_step 1 (n2, l2) = (n1, l1)" by fastforce
  obtain n0 l0 where s0: "lg_step 0 (n1, l1) = (n0, l0)" by fastforce
  have "n4 < 2 ^ 2 ^ 4 \<and> 0 < n4 \<and> n4 = n div 2 ^ l4"
    using lg_step_inv[of n 4 n 0] assms s4 by simp
  then have "n3 < 2 ^ 2 ^ 3 \<and> 0 < n3 \<and> n3 = n div 2 ^ l3"
    using lg_step_inv[of n4 3 n l4] s3 by simp
  then have "n2 < 2 ^ 2 ^ 2 \<and> 0 < n2 \<and> n2 = n div 2 ^ l2"
    using lg_step_inv[of n3 2 n l3] s2 by simp
  then have "n1 < 2 ^ 2 ^ 1 \<and> 0 < n1 \<and> n1 = n div 2 ^ l1"
    using lg_step_inv[of n2 1 n l2] s1 by (simp add: numeral_2_eq_2)
  then have "n0 < 2 ^ 2 ^ 0 \<and> 0 < n0 \<and> n0 = n div 2 ^ l0"
    using lg_step_inv[of n1 0 n l1] s0 by simp
  then have d: "n0 = 1" "n div 2 ^ l0 = 1" by auto
  have "LgFloor n = Some l0"
    using d s0 s1 s2 s3 s4 by (simp add: LgFloor_def)
  moreover have "2 ^ l0 \<le> n" using d(2) by (metis div_less less_one linorder_not_less nat_neq_iff)
  moreover have "n < 2 ^ Suc l0"
  proof -
    have "n < (n div 2 ^ l0 + 1) * 2 ^ l0" by (simp add: dividend_less_div_times)
    then show ?thesis using d(2) by simp
  qed
  ultimately show ?thesis by blast
qed

lemma pow2_AND_pred [simp]: "(2 ^ k :: nat) AND (2 ^ k - Suc 0) = 0"
proof -
  have "(2 ^ k :: nat) AND mask k = take_bit k (2 ^ k)" by (simp add: take_bit_eq_mask)
  then show ?thesis by (simp add: mask_eq_exp_minus_1 take_bit_eq_mod)
qed

lemma AlignmentForSize_correct:
  assumes "0 < s"
  shows "\<exists>k. AlignmentForSize s = Some (2 ^ k) \<and> 2 ^ k dvd kPageSize \<and> 3 \<le> k
    \<and> (16 \<le> s \<longrightarrow> 4 \<le> k) \<and> (128 \<le> s \<and> s \<le> kMaxSize \<longrightarrow> 8 * 2 ^ k \<le> s)"
proof -
  consider (large) "s > kMaxSize" | (mid) "128 \<le> s" "s \<le> kMaxSize" | (small) "16 \<le> s" "s < 128" | (tiny) "s < 16"
    by linarith
  then show ?thesis
  proof cases
    case large
    then have "AlignmentForSize s = Some (2 ^ 13)"
      using pow2_AND_pred[of 13] by (simp add: AlignmentForSize_def)
    with large show ?thesis by (intro exI[of _ 13]) simp
  next
    case mid
    then obtain lg where lg: "LgFloor s = Some lg" "2 ^ lg \<le> s" "s < 2 ^ Suc lg"
      using LgFloor_correct[of s] by auto
    have "7 \<le> lg"
    proof (rule ccontr)
      assume "\<not> 7 \<le> lg"
      then have "(2::nat) ^ Suc lg \<le> 2 ^ 7" by (intro power_increasing) auto
      with lg(3) mid(1) show False by simp
    qed
    define j where "j = lg - 3"
    have j: "lg = j + 3" "4 \<le> j" using \<open>7 \<le> lg\<close> by (simp_all add: j_def)
    define k where "k = min j 13"
    have dv: "(2::nat) ^ lg div 8 = 2 ^ j" using j by (simp add: power_add)
    have le: "(8192 < (2::nat) ^ j) = (13 < j)"
      using power_strict_increasing_iff[of "2::nat" 13 j] by simp
    have A: "AlignmentForSize s = Some (2 ^ k)"
      using lg mid le dv pow2_AND_pred[of 13] power_increasing[of 4 j "2::nat"] j(2)
      by (auto simp add: AlignmentForSize_def k_def min_def not_less)
    have "8 * (2::nat) ^ k \<le> 8 * 2 ^ j" by (simp add: k_def)
    also have "\<dots> = 2 ^ lg" using j by (simp add: power_add)
    finally have "8 * 2 ^ k \<le> s" using lg by simp
    moreover have "(2::nat) ^ k dvd 2 ^ 13" unfolding k_def by (intro le_imp_power_dvd) simp
    ultimately show ?thesis using A j by (intro exI[of _ k]) (auto simp: k_def)
  next
    case small
    then have "AlignmentForSize s = Some (2 ^ 4)"
      using pow2_AND_pred[of 4] by (simp add: AlignmentForSize_def)
    with small show ?thesis by (intro exI[of _ 4]) simp
  next
    case tiny
    then have "AlignmentForSize s = Some (2 ^ 3)"
      using pow2_AND_pred[of 3] by (simp add: AlignmentForSize_def)
    with tiny show ?thesis by (intro exI[of _ 3]) simp
  qed
qed

lemma ClassIndex_mono: "s \<le> t \<Longrightarrow> ClassIndex s \<le> ClassIndex t"
  unfolding ClassIndex_def Let_def kMaxSmallSize_def
  by (auto intro!: div_le_mono)

definition aligned_class_size :: "nat \<Rightarrow> bool" where
  "aligned_class_size x = (8 dvd x \<and> (x > 1024 \<longrightarrow> 128 dvd x))"

lemma ClassIndex_step:
  assumes "aligned_class_size m"
  shows "ClassIndex m < ClassIndex (m + 8)"
proof (cases "m > 1024")
  case True
  then obtain q where "m = 128 * q" using assms by (auto simp: aligned_class_size_def)
  then show ?thesis using True by (simp add: ClassIndex_def)
next
  case False
  then obtain q where "m = 8 * q" using assms by (auto simp: aligned_class_size_def)
  then show ?thesis using False by (simp add: ClassIndex_def Let_def) linarith
qed

lemma ClassIndex_after:
  assumes "aligned_class_size m" "s \<le> m" "m + 8 \<le> t"
  shows "ClassIndex s < ClassIndex t"
  using ClassIndex_step[OF assms(1)] ClassIndex_mono[OF assms(2)] ClassIndex_mono[OF assms(3)] by simp

lemma ClassIndex_ceil: "ClassIndex ((s + 7) div 8 * 8) = ClassIndex s"
proof (cases "s > 1024")
  case True
  define q where "q = (s + 7) div 8"
  have q: "s \<le> q * 8" "q * 8 < s + 8" unfolding q_def by linarith+
  have "(q * 8 + 15487) div 8 = q + 1935" "(s + 15487) div 8 = q + 1935"
    by (rule div_nat_eqI; use q in simp)+
  then have "(q * 8 + 15487) div (8 * 16) = (s + 15487) div (8 * 16)"
    by (simp only: div_mult2_eq)
  then show ?thesis using True q by (simp add: ClassIndex_def q_def[symmetric])
next
  case False
  have "(s + 7) div 8 * 8 \<le> 1024" using False div_le_mono[of "s + 7" 1031 8] by simp
  then show ?thesis using False by (simp add: ClassIndex_def)
qed

lemma fill_class_eq:
  "fill_class c mx s arr i =
     (if \<exists>k. s + 8 * k \<le> mx \<and> ClassIndex (s + 8 * k) = i then c else arr i)"
proof (induction c mx s arr rule: fill_class.induct)
  case (1 c mx s arr)
  show ?case
  proof (cases "s \<le> mx")
    case False
    then show ?thesis by (simp add: fill_class.simps[of c mx s arr])
  next
    case True
    have "(\<exists>k. s + 8 * k \<le> mx \<and> ClassIndex (s + 8 * k) = i) \<longleftrightarrow>
      ClassIndex s = i \<or> (\<exists>k. (s + 8) + 8 * k \<le> mx \<and> ClassIndex ((s + 8) + 8 * k) = i)" (is "?L = ?R")
    proof
      assume ?L
      then obtain k where "s + 8 * k \<le> mx" "ClassIndex (s + 8 * k) = i" by blast
      then show ?R by (cases k) (auto simp: algebra_simps intro!: exI[of _ "k - 1"])
    next
      assume ?R
      then show ?L
      proof
        assume "ClassIndex s = i"
        then show ?L using True by (intro exI[of _ 0]) simp
      next
        assume "\<exists>k. (s + 8) + 8 * k \<le> mx \<and> ClassIndex ((s + 8) + 8 * k) = i"
        then obtain k where "(s + 8) + 8 * k \<le> mx" "ClassIndex ((s + 8) + 8 * k) = i" by blast
        then show ?L by (intro exI[of _ "Suc k"]) (simp add: algebra_simps)
      qed
    qed
    moreover note "1.IH"[OF True]
    ultimately show ?thesis
      using True by (simp only: fill_class.simps[of c mx s arr] kAlignment_def if_True) auto
  qed
qed


lemma fill_classes_before:
  assumes "strict_mono_on {c..<kNumClasses} sizes" "\<And>i. c \<le> i \<Longrightarrow> i < kNumClasses \<Longrightarrow> aligned_class_size (sizes i)"
    and "aligned_class_size m" "m < sizes c" "s \<le> m"
  shows "fill_classes sizes c (m + kAlignment) arr (ClassIndex s) = arr (ClassIndex s)"
  using assms
proof (induction sizes c "m + kAlignment" arr arbitrary: m rule: fill_classes.induct)
  case (1 sizes c arr)
  show ?case
  proof (cases "c < kNumClasses")
    case False
    then show ?thesis by (simp add: fill_classes.simps)
  next
    case True
    have al: "aligned_class_size (sizes c)" using "1.prems"(2)[of c] True by simp
    have not_hit: "fill_class c (sizes c) (m + kAlignment) arr (ClassIndex s) = arr (ClassIndex s)"
    proof -
      have "ClassIndex (m + kAlignment + 8 * k) \<noteq> ClassIndex s" for k
        using ClassIndex_after[OF "1.prems"(3,5), of "m + kAlignment + 8 * k"] by simp
      then show ?thesis by (simp add: fill_class_eq)
    qed
    have "fill_classes sizes (c + 1) (sizes c + kAlignment)
        (fill_class c (sizes c) (m + kAlignment) arr) (ClassIndex s) = arr (ClassIndex s)"
    proof (cases "c + 1 < kNumClasses")
      case False
      then show ?thesis using not_hit by (simp add: fill_classes.simps)
    next
      case T: True
      have sm: "strict_mono_on {c + 1..<kNumClasses} sizes"
        using "1.prems"(1) by (rule monotone_on_subset) auto
      have lt: "sizes c < sizes (c + 1)"
        using "1.prems"(1) T by (auto simp: strict_mono_on_def)
      show ?thesis
        using "1.hyps"[OF True refl sm] "1.prems" al lt not_hit by simp
    qed
    then show ?thesis using True by (simp add: fill_classes.simps[of sizes c])
  qed
qed


text \<open>The class of \<open>s\<close>: the least class whose size is at least \<open>s\<close>.\<close>

lemma fill_classes_least:
  assumes "strict_mono_on {c..<kNumClasses} sizes" "\<And>i. c \<le> i \<Longrightarrow> i < kNumClasses \<Longrightarrow> aligned_class_size (sizes i)"
    and "8 dvd nx" "nx \<le> sizes c" "nx < s + 8" "c \<le> k" "k < kNumClasses" "s \<le> sizes k"
    and "\<And>i. c \<le> i \<Longrightarrow> i < k \<Longrightarrow> sizes i < s"
  shows "fill_classes sizes c nx arr (ClassIndex s) = k"
  using assms
proof (induction sizes c nx arr rule: fill_classes.induct)
  case (1 sizes c nx arr)
  have c: "c < kNumClasses" using "1.prems" by linarith
  have al: "aligned_class_size (sizes c)" using "1.prems"(2)[of c] c by simp
  let ?arr = "fill_class c (sizes c) nx arr"
  have unf: "fill_classes sizes c nx arr = fill_classes sizes (c + 1) (sizes c + kAlignment) ?arr"
    using c by (simp add: fill_classes.simps[of sizes c])
  show ?case
  proof (cases "k = c")
    case True
    let ?t = "(s + 7) div 8 * 8"
    have t: "s \<le> ?t" "?t < s + 8" by linarith+
    obtain a where a: "nx = 8 * a" using "1.prems"(3) by blast
    obtain b where b: "sizes c = 8 * b" using al by (auto simp: aligned_class_size_def)
    have "a \<le> (s + 7) div 8" using "1.prems"(5) a by linarith
    moreover have "(s + 7) div 8 \<le> b" using "1.prems"(8) True b div_le_mono[of "s + 7" "8 * b + 7" 8] by simp
    ultimately have "nx + 8 * ((s + 7) div 8 - a) = ?t" "?t \<le> sizes c"
      using a b by auto
    then have "\<exists>i. nx + 8 * i \<le> sizes c \<and> ClassIndex (nx + 8 * i) = ClassIndex s"
      by (intro exI[of _ "(s + 7) div 8 - a"]) (simp add: ClassIndex_ceil)
    then have "?arr (ClassIndex s) = c"
      by (simp add: fill_class_eq)
    moreover have "fill_classes sizes (c + 1) (sizes c + kAlignment) ?arr (ClassIndex s) = ?arr (ClassIndex s)"
    proof (cases "c + 1 < kNumClasses")
      case False
      then show ?thesis by (simp add: fill_classes.simps)
    next
      case T: True
      show ?thesis
      proof (rule fill_classes_before)
        show "strict_mono_on {c + 1..<kNumClasses} sizes"
          using "1.prems"(1) by (rule monotone_on_subset) auto
        show "sizes c < sizes (c + 1)"
          using "1.prems"(1) T by (auto simp: strict_mono_on_def)
      qed (use "1.prems" al True in auto)
    qed
    ultimately show ?thesis using unf True by simp
  next
    case False
    then have ck: "c < k" using "1.prems"(6) by simp
    then have "sizes c < s" using "1.prems"(9) by simp
    moreover have "sizes c < sizes (c + 1)"
      using "1.prems"(1,7) ck by (auto simp: strict_mono_on_def)
    moreover have "aligned_class_size (sizes (c + 1))" using "1.prems"(2)[of "c + 1"] "1.prems"(7) ck by simp
    moreover have "strict_mono_on {c + 1..<kNumClasses} sizes"
      using "1.prems"(1) by (rule monotone_on_subset) auto
    moreover have "8 dvd sizes c + kAlignment" "8 dvd sizes (c + 1)"
      using al calculation(3) by (simp_all add: aligned_class_size_def)
    moreover have "sizes c + kAlignment \<le> sizes (c + 1)"
      using calculation(2,5,6) by (auto simp: dvd_def)
    ultimately show ?thesis
      unfolding unf using "1.prems" ck by (intro "1.IH"[OF c]) auto
  qed
qed

subsection \<open>The classes that the loop finds\<close>

definition class_pages_table :: "nat \<Rightarrow> nat" where
  "class_pages_table = (\<lambda>_. 0)(1 := 1, 2 := 1, 3 := 1, 4 := 1, 5 := 1, 6 := 1, 7 := 1, 8 := 1, 9 := 1, 10
    := 1, 11 := 1, 12 := 1, 13 := 1, 14 := 1, 15 := 1, 16 := 1, 17 := 1, 18 := 1, 19 := 1, 20 :=
    1, 21 := 1, 22 := 1, 23 := 1, 24 := 1, 25 := 1, 26 := 1, 27 := 1, 28 := 1, 29 := 1, 30 := 1,
    31 := 1, 32 := 2, 33 := 2, 34 := 2, 35 := 2, 36 := 2, 37 := 2, 38 := 2, 39 := 2, 40 := 3, 41
    := 2, 42 := 3, 43 := 2, 44 := 3, 45 := 2, 46 := 3, 47 := 5, 48 := 2, 49 := 5, 50 := 4, 51 :=
    3, 52 := 5, 53 := 2, 54 := 5, 55 := 3, 56 := 7, 57 := 4, 58 := 5, 59 := 6, 60 := 7, 61 := 8,
    62 := 9, 63 := 10, 64 := 11, 65 := 12, 66 := 13, 67 := 14, 68 := 15, 69 := 16, 70 := 17, 71
    := 18, 72 := 19, 73 := 20, 74 := 21, 75 := 22, 76 := 23, 77 := 24, 78 := 25, 79 := 26, 80 :=
    27, 81 := 28, 82 := 29, 83 := 30, 84 := 31, 85 := 32)"

definition class_size_table :: "nat \<Rightarrow> nat" where
  "class_size_table = (\<lambda>_. 0)(1 := 8, 2 := 16, 3 := 32, 4 := 48, 5 := 64, 6 := 80, 7 := 96, 8 := 112, 9 :=
    128, 10 := 144, 11 := 160, 12 := 176, 13 := 192, 14 := 208, 15 := 224, 16 := 240, 17 := 256,
    18 := 288, 19 := 320, 20 := 352, 21 := 384, 22 := 416, 23 := 448, 24 := 480, 25 := 512, 26
    := 576, 27 := 640, 28 := 704, 29 := 768, 30 := 896, 31 := 1024, 32 := 1152, 33 := 1280, 34
    := 1408, 35 := 1536, 36 := 1792, 37 := 2048, 38 := 2304, 39 := 2560, 40 := 2816, 41 := 3072,
    42 := 3328, 43 := 4096, 44 := 4608, 45 := 5120, 46 := 6144, 47 := 6656, 48 := 8192, 49 :=
    9216, 50 := 10240, 51 := 12288, 52 := 13312, 53 := 16384, 54 := 20480, 55 := 24576, 56 :=
    26624, 57 := 32768, 58 := 40960, 59 := 49152, 60 := 57344, 61 := 65536, 62 := 73728, 63 :=
    81920, 64 := 90112, 65 := 98304, 66 := 106496, 67 := 114688, 68 := 122880, 69 := 131072, 70
    := 139264, 71 := 147456, 72 := 155648, 73 := 163840, 74 := 172032, 75 := 180224, 76 :=
    188416, 77 := 196608, 78 := 204800, 79 := 212992, 80 := 221184, 81 := 229376, 82 := 237568,
    83 := 245760, 84 := 253952, 85 := 262144)"

lemma classes_loop_result:
  "classes_loop kAlignment (1, \<lambda>_. 0, \<lambda>_. 0) = Some (86, class_pages_table, class_size_table)"
  by (simp add: class_pages_table_def class_size_table_def classes_loop.simps AlignmentForSize_def
      LgFloor_def lg_step_def psize_loop.simps waste_loop.simps NumMoveSize_def add_class_def
      flip: numeral_2_eq_2 cong: if_weak_cong)

lemma class_size_table_simps:
  "class_size_table (Suc 0) = 8" "class_size_table 2 = 16" "class_size_table 3 = 32"
  "class_size_table 4 = 48" "class_size_table 5 = 64" "class_size_table 6 = 80"
  "class_size_table 7 = 96" "class_size_table 8 = 112" "class_size_table 9 = 128"
  "class_size_table 10 = 144" "class_size_table 11 = 160" "class_size_table 12 = 176"
  "class_size_table 13 = 192" "class_size_table 14 = 208" "class_size_table 15 = 224"
  "class_size_table 16 = 240" "class_size_table 17 = 256" "class_size_table 18 = 288"
  "class_size_table 19 = 320" "class_size_table 20 = 352" "class_size_table 21 = 384"
  "class_size_table 22 = 416" "class_size_table 23 = 448" "class_size_table 24 = 480"
  "class_size_table 25 = 512" "class_size_table 26 = 576" "class_size_table 27 = 640"
  "class_size_table 28 = 704" "class_size_table 29 = 768" "class_size_table 30 = 896"
  "class_size_table 31 = 1024" "class_size_table 32 = 1152" "class_size_table 33 = 1280"
  "class_size_table 34 = 1408" "class_size_table 35 = 1536" "class_size_table 36 = 1792"
  "class_size_table 37 = 2048" "class_size_table 38 = 2304" "class_size_table 39 = 2560"
  "class_size_table 40 = 2816" "class_size_table 41 = 3072" "class_size_table 42 = 3328"
  "class_size_table 43 = 4096" "class_size_table 44 = 4608" "class_size_table 45 = 5120"
  "class_size_table 46 = 6144" "class_size_table 47 = 6656" "class_size_table 48 = 8192"
  "class_size_table 49 = 9216" "class_size_table 50 = 10240" "class_size_table 51 = 12288"
  "class_size_table 52 = 13312" "class_size_table 53 = 16384" "class_size_table 54 = 20480"
  "class_size_table 55 = 24576" "class_size_table 56 = 26624" "class_size_table 57 = 32768"
  "class_size_table 58 = 40960" "class_size_table 59 = 49152" "class_size_table 60 = 57344"
  "class_size_table 61 = 65536" "class_size_table 62 = 73728" "class_size_table 63 = 81920"
  "class_size_table 64 = 90112" "class_size_table 65 = 98304" "class_size_table 66 = 106496"
  "class_size_table 67 = 114688" "class_size_table 68 = 122880" "class_size_table 69 = 131072"
  "class_size_table 70 = 139264" "class_size_table 71 = 147456" "class_size_table 72 = 155648"
  "class_size_table 73 = 163840" "class_size_table 74 = 172032" "class_size_table 75 = 180224"
  "class_size_table 76 = 188416" "class_size_table 77 = 196608" "class_size_table 78 = 204800"
  "class_size_table 79 = 212992" "class_size_table 80 = 221184" "class_size_table 81 = 229376"
  "class_size_table 82 = 237568" "class_size_table 83 = 245760" "class_size_table 84 = 253952"
  "class_size_table 85 = 262144"
  by (simp_all add: class_size_table_def)

lemma class_pages_table_simps:
  "class_pages_table (Suc 0) = 1" "class_pages_table 2 = 1" "class_pages_table 3 = 1"
  "class_pages_table 4 = 1" "class_pages_table 5 = 1" "class_pages_table 6 = 1"
  "class_pages_table 7 = 1" "class_pages_table 8 = 1" "class_pages_table 9 = 1"
  "class_pages_table 10 = 1" "class_pages_table 11 = 1" "class_pages_table 12 = 1"
  "class_pages_table 13 = 1" "class_pages_table 14 = 1" "class_pages_table 15 = 1"
  "class_pages_table 16 = 1" "class_pages_table 17 = 1" "class_pages_table 18 = 1"
  "class_pages_table 19 = 1" "class_pages_table 20 = 1" "class_pages_table 21 = 1"
  "class_pages_table 22 = 1" "class_pages_table 23 = 1" "class_pages_table 24 = 1"
  "class_pages_table 25 = 1" "class_pages_table 26 = 1" "class_pages_table 27 = 1"
  "class_pages_table 28 = 1" "class_pages_table 29 = 1" "class_pages_table 30 = 1"
  "class_pages_table 31 = 1" "class_pages_table 32 = 2" "class_pages_table 33 = 2"
  "class_pages_table 34 = 2" "class_pages_table 35 = 2" "class_pages_table 36 = 2"
  "class_pages_table 37 = 2" "class_pages_table 38 = 2" "class_pages_table 39 = 2"
  "class_pages_table 40 = 3" "class_pages_table 41 = 2" "class_pages_table 42 = 3"
  "class_pages_table 43 = 2" "class_pages_table 44 = 3" "class_pages_table 45 = 2"
  "class_pages_table 46 = 3" "class_pages_table 47 = 5" "class_pages_table 48 = 2"
  "class_pages_table 49 = 5" "class_pages_table 50 = 4" "class_pages_table 51 = 3"
  "class_pages_table 52 = 5" "class_pages_table 53 = 2" "class_pages_table 54 = 5"
  "class_pages_table 55 = 3" "class_pages_table 56 = 7" "class_pages_table 57 = 4"
  "class_pages_table 58 = 5" "class_pages_table 59 = 6" "class_pages_table 60 = 7"
  "class_pages_table 61 = 8" "class_pages_table 62 = 9" "class_pages_table 63 = 10"
  "class_pages_table 64 = 11" "class_pages_table 65 = 12" "class_pages_table 66 = 13"
  "class_pages_table 67 = 14" "class_pages_table 68 = 15" "class_pages_table 69 = 16"
  "class_pages_table 70 = 17" "class_pages_table 71 = 18" "class_pages_table 72 = 19"
  "class_pages_table 73 = 20" "class_pages_table 74 = 21" "class_pages_table 75 = 22"
  "class_pages_table 76 = 23" "class_pages_table 77 = 24" "class_pages_table 78 = 25"
  "class_pages_table 79 = 26" "class_pages_table 80 = 27" "class_pages_table 81 = 28"
  "class_pages_table 82 = 29" "class_pages_table 83 = 30" "class_pages_table 84 = 31"
  "class_pages_table 85 = 32"
  by (simp_all add: class_pages_table_def)

text \<open>One pass over the table; the facts below are its projections.\<close>

definition class_entry_ok :: "nat \<Rightarrow> bool" where
  "class_entry_ok c =
     (let s = class_size_table c; p = class_pages_table c * kPageSize in
      (c < 85 \<longrightarrow> s < class_size_table (c + 1)) \<and> 8 dvd s \<and> (s \<ge> 16 \<longrightarrow> 16 dvd s)
      \<and> (s > 1024 \<longrightarrow> 128 dvd s) \<and> 8 * (p mod s) \<le> p \<and> NumMoveSize s div 4 \<le> p div s
      \<and> 8 \<le> s \<and> 0 < class_pages_table c)"

lemma class_table_ok: "list_all class_entry_ok [1..<86]"
  by (simp add: class_entry_ok_def class_size_table_simps class_pages_table_simps NumMoveSize_def
      upt_rec flip: numeral_2_eq_2)

lemma class_table_entry: "1 \<le> c \<Longrightarrow> c < kNumClasses \<Longrightarrow> class_entry_ok c"
  using class_table_ok by (simp add: list_all_iff)

lemma strict_mono_on_steps:
  fixes f :: "nat \<Rightarrow> nat"
  assumes "\<And>i. a \<le> i \<Longrightarrow> Suc i < b \<Longrightarrow> f i < f (Suc i)"
  shows "strict_mono_on {a..<b} f"
proof (rule strict_mono_onI)
  fix r s assume "r \<in> {a..<b}" "s \<in> {a..<b}" "r < s"
  from \<open>r < s\<close> \<open>s \<in> {a..<b}\<close> show "f r < f s"
  proof (induction s)
    case (Suc s)
    then show ?case
      using assms[of s] \<open>r \<in> {a..<b}\<close> by (cases "r = s") (auto simp: less_Suc_eq)
  qed simp
qed

lemma class_size_strict_mono: "strict_mono_on {1..<kNumClasses} class_size_table"
  using class_table_entry
  by (intro strict_mono_on_steps) (auto simp: class_entry_ok_def Let_def)

lemma class_size_aligned: "1 \<le> c \<Longrightarrow> c < kNumClasses \<Longrightarrow> aligned_class_size (class_size_table c)"
  using class_table_entry[of c] by (simp add: class_entry_ok_def aligned_class_size_def Let_def)

lemma class_size_last: "class_size_table 85 = kMaxSize"
  by (simp add: class_size_table_def)

lemma least_class_exists:
  assumes "s \<le> kMaxSize"
  obtains k where "1 \<le> k" "k < kNumClasses" "s \<le> class_size_table k"
    "\<And>i. 1 \<le> i \<Longrightarrow> i < k \<Longrightarrow> class_size_table i < s"
proof -
  let ?P = "\<lambda>k. 1 \<le> k \<and> k < kNumClasses \<and> s \<le> class_size_table k"
  have "?P 85" using assms class_size_last by simp
  then have "?P (LEAST k. ?P k)" by (rule LeastI)
  moreover have "class_size_table i < s" if "1 \<le> i" "i < (LEAST k. ?P k)" for i
    using not_less_Least[OF that(2)] that \<open>?P (LEAST k. ?P k)\<close> by auto
  ultimately show thesis using that by blast
qed

text \<open>The map that a successful \<open>Init\<close> builds.\<close>

definition init_sizemap :: sizemap where
  "init_sizemap = \<lparr>
     num_objects_to_move_arr =
       (\<lambda>cl. if 1 \<le> cl \<and> cl < kNumClasses then NumMoveSize (class_size_table cl) else 0),
     class_array = fill_classes class_size_table 1 0 (\<lambda>_. 0),
     class_to_size_arr = class_size_table,
     class_to_pages_arr = class_pages_table\<rparr>"

lemma SizeClass_least:
  assumes "1 \<le> k" "k < kNumClasses" "s \<le> class_size_table k"
    and "\<And>i. 1 \<le> i \<Longrightarrow> i < k \<Longrightarrow> class_size_table i < s"
    and "class_array m = fill_classes class_size_table 1 0 (\<lambda>_. 0)"
  shows "SizeClass m s = k"
  unfolding SizeClass_def assms(5)
  using assms class_size_strict_mono class_size_aligned by (intro fill_classes_least) auto

lemma size_ok_all:
  assumes "class_array m = fill_classes class_size_table 1 0 (\<lambda>_. 0)"
    and "class_to_size_arr m = class_size_table" "s \<le> kMaxSize"
  shows "size_ok m s"
proof -
  obtain k where k: "1 \<le> k" "k < kNumClasses" "s \<le> class_size_table k"
    "\<And>i. 1 \<le> i \<Longrightarrow> i < k \<Longrightarrow> class_size_table i < s"
    using least_class_exists[OF assms(3)] by blast
  have "0 < class_size_table k"
    using class_table_entry[OF k(1,2)] by (simp add: class_entry_ok_def Let_def)
  then show ?thesis
    using k(1-3) k(4)[of "k - 1"] SizeClass_least[OF k assms(1)] assms(2)
    by (simp add: size_ok_def Let_def not_le)
qed

lemma SizeMap_Init_eq: "SizeMap_Init = Some init_sizemap"
proof -
  let ?m = "\<lparr>num_objects_to_move_arr = \<lambda>_. 0, class_array = fill_classes class_size_table 1 0 (\<lambda>_. 0),
    class_to_size_arr = class_size_table, class_to_pages_arr = class_pages_table\<rparr>"
  have ok: "list_all (size_ok ?m) [0..<kMaxSize + 1]"
    unfolding list_all_iff by (intro ballI size_ok_all) auto
  have idx: "ClassIndex kMaxSize < kClassArraySize"
    by (simp add: ClassIndex_def kClassArraySize_def)
  show ?thesis
    using ok idx classes_loop_result
    by (simp add: SizeMap_Init_def init_sizemap_def ByteSizeForClass_def Let_def
        del: upt_rec_numeral cong: if_cong)
qed

lemma SizeMap_Init_iff: "SizeMap_Init = Some m \<longleftrightarrow> m = init_sizemap"
  unfolding SizeMap_Init_eq by auto

lemma init_sizemap_tables:
  "class_to_size init_sizemap c = class_size_table c"
  "class_to_pages init_sizemap c = class_pages_table c"
  "num_objects_to_move init_sizemap c =
    (if 1 \<le> c \<and> c < kNumClasses then NumMoveSize (class_size_table c) else 0)"
  by (simp_all add: init_sizemap_def class_to_size_def class_to_pages_def num_objects_to_move_def)

subsection \<open>Properties\<close>

text \<open>
  C29: \<open>SizeMap::Init\<close> reaches its end: none of its crash branches (class index out of range,
  misaligned size, failed \<open>CHECK_CONDITION\<close>, wrong number of classes, the double check of all
  262145 sizes) is taken, all its loops terminate, and the last class is \<open>kMaxSize\<close>.
\<close>

theorem SizeMap_Init_succeeds:
  "\<exists>m. SizeMap_Init = Some m \<and> class_to_size m (kNumClasses - 1) = kMaxSize
     \<and> list_all (size_ok m) [0..<kMaxSize + 1]"
proof -
  have "list_all (size_ok init_sizemap) [0..<kMaxSize + 1]"
    unfolding list_all_iff by (intro ballI size_ok_all) (auto simp: init_sizemap_def)
  then show ?thesis
    unfolding SizeMap_Init_iff using class_size_last
    by (simp add: init_sizemap_tables del: upt_rec_numeral)
qed

text \<open>
  C30: after \<open>Init\<close>, \<open>SizeClass\<close> maps every size up to \<open>kMaxSize\<close> to the smallest class whose
  objects are large enough.
\<close>

theorem SizeClass_is_least:
  assumes "SizeMap_Init = Some m" and "s \<le> kMaxSize"
  shows "1 \<le> SizeClass m s \<and> SizeClass m s < kNumClasses \<and> s \<le> class_to_size m (SizeClass m s)
    \<and> (\<forall>c. 1 \<le> c \<and> c < SizeClass m s \<longrightarrow> class_to_size m c < s)"
proof -
  have m: "m = init_sizemap" using assms(1) by (simp only: SizeMap_Init_iff)
  obtain k where k: "1 \<le> k" "k < kNumClasses" "s \<le> class_size_table k"
    "\<And>i. 1 \<le> i \<Longrightarrow> i < k \<Longrightarrow> class_size_table i < s"
    using least_class_exists[OF assms(2)] by blast
  have "SizeClass m s = k"
    using SizeClass_least[OF k, of m] by (simp add: m init_sizemap_def)
  then show ?thesis using k by (simp add: m init_sizemap_tables)
qed

theorem SizeClass_is_least_witness:
  "\<exists>m. SizeMap_Init = Some m \<and> (1000::nat) \<le> kMaxSize \<and> 1000 \<le> class_to_size m (SizeClass m 1000)"
  unfolding SizeMap_Init_iff
  using SizeClass_is_least[of init_sizemap 1000, OF SizeMap_Init_eq] by simp

text \<open>
  C38: the geometry of each class after \<open>Init\<close>: sizes strictly increase, sizes from 16 on are
  multiples of 16, at most one eighth of a span is lost behind its last object, and a span holds
  at least a quarter of the objects that move between the caches at once.
\<close>

theorem size_class_geometry:
  assumes "SizeMap_Init = Some m" and "1 \<le> c" and "c < kNumClasses"
  shows "0 < class_to_pages m c \<and> 8 \<le> class_to_size m c
    \<and> (c + 1 < kNumClasses \<longrightarrow> class_to_size m c < class_to_size m (c + 1))
    \<and> 8 dvd class_to_size m c
    \<and> (16 \<le> class_to_size m c \<longrightarrow> 16 dvd class_to_size m c)
    \<and> 8 * (class_to_pages m c * kPageSize mod class_to_size m c) \<le> class_to_pages m c * kPageSize
    \<and> num_objects_to_move m c div 4 \<le> class_to_pages m c * kPageSize div class_to_size m c
    \<and> 2 \<le> num_objects_to_move m c \<and> num_objects_to_move m c \<le> 32"
proof -
  have m: "m = init_sizemap" using assms(1) by (simp only: SizeMap_Init_iff)
  have "2 \<le> NumMoveSize s \<and> NumMoveSize s \<le> 32" if "8 \<le> s" for s
    using that by (auto simp: NumMoveSize_def Let_def)
  then show ?thesis
    using class_table_entry[OF assms(2,3)] assms(2,3)
    by (simp add: m init_sizemap_tables class_entry_ok_def Let_def)
qed

theorem size_class_geometry_witness:
  "\<exists>m. SizeMap_Init = Some m \<and> (1::nat) \<le> 43 \<and> (43::nat) < kNumClasses \<and> 16 dvd class_to_size m 43"
  unfolding SizeMap_Init_iff
  using size_class_geometry[of init_sizemap 43, OF SizeMap_Init_eq]
  by (simp add: init_sizemap_tables class_size_table_simps)

text \<open>
  \<open>AlignmentForSize\<close> never fails its checks; it returns a power of two, at least 8 and at most
  a page, at least 16 from 16 bytes on, and at most one eighth of the size from 128 bytes on.
\<close>

theorem AlignmentForSize_spec:
  "\<exists>k. AlignmentForSize s = Some (2 ^ k) \<and> 2 ^ k dvd kPageSize \<and> 3 \<le> k
    \<and> (16 \<le> s \<longrightarrow> 4 \<le> k) \<and> (128 \<le> s \<and> s \<le> kMaxSize \<longrightarrow> 8 * 2 ^ k \<le> s)"
proof (cases "0 < s")
  case False
  then show ?thesis using pow2_AND_pred[of 3]
    by (intro exI[of _ 3]) (simp add: AlignmentForSize_def)
qed (rule AlignmentForSize_correct)

theorem AlignmentForSize_spec_witness:
  "\<exists>k. AlignmentForSize 5000 = Some (2 ^ k) \<and> 2 ^ k dvd kPageSize \<and> 4 \<le> k \<and> 8 * 2 ^ k \<le> (5000::nat)"
  using AlignmentForSize_spec[of 5000] by auto

end
