(* ===== verification/PageMap.thy ===== *)
theory PageMap
  imports SizeMap
begin

text \<open>
  The maps from page numbers to pointers of \<open>pagemap.h\<close>: a flat array and radix trees of two and
  three levels.  The template parameter \<open>BITS\<close> is the first argument of every operation; a shift
  right by \<open>b\<close> is \<open>div 2 ^ b\<close> and a mask \<open>& (2^b - 1)\<close> is \<open>mod 2 ^ b\<close>.  A null pointer is
  \<open>None\<close>.  \<open>set\<close> returns \<open>None\<close> where the code would write through a null pointer, out of
  bounds, or fail its \<open>ASSERT\<close>.  The allocator passed to the constructor is code of another
  component; its results are a list of Booleans kept in the map (\<open>False\<close>, or the end of the list,
  is a null result).
\<close>

subsection \<open>The interface\<close>

locale page_store =
  fixes get :: "'m \<Rightarrow> nat \<Rightarrow> 'v option"
    and put :: "nat \<Rightarrow> 'v option \<Rightarrow> 'm \<Rightarrow> 'm option"
    and ensured :: "'m \<Rightarrow> nat \<Rightarrow> bool"
  assumes get_unensured: "\<not> ensured m k \<Longrightarrow> get m k = None"
    and put_defined: "(\<exists>m'. put k v m = Some m') \<longleftrightarrow> ensured m k"
    and get_put: "put k v m = Some m' \<Longrightarrow> get m' j = (if j = k then v else get m j)"
    and ensured_put: "put k v m = Some m' \<Longrightarrow> ensured m' j = ensured m j"
begin

text \<open>Writing the same value to a list of keys, as \<open>RegisterSizeClass\<close> does.\<close>

fun put_list :: "nat list \<Rightarrow> 'v option \<Rightarrow> 'm \<Rightarrow> 'm option" where
  "put_list [] v m = Some m"
| "put_list (k # ks) v m = put k v m \<bind> put_list ks v"

lemma put_list_defined:
  "(\<exists>m'. put_list ks v m = Some m') \<longleftrightarrow> (\<forall>k \<in> set ks. ensured m k)"
proof (induction ks arbitrary: m)
  case (Cons k ks)
  show ?case
  proof (cases "put k v m")
    case None
    then show ?thesis using put_defined[of k v m] by auto
  next
    case (Some m1)
    then show ?thesis using Cons.IH[of m1] put_defined[of k v m] ensured_put[OF Some] by auto
  qed
qed simp

lemma get_put_list:
  "put_list ks v m = Some m' \<Longrightarrow> get m' j = (if j \<in> set ks then v else get m j)"
proof (induction ks arbitrary: m)
  case (Cons k ks)
  then obtain m1 where m1: "put k v m = Some m1" "put_list ks v m1 = Some m'" by auto
  show ?case using Cons.IH[OF m1(2)] get_put[OF m1(1)] by auto
qed simp

lemma ensured_put_list: "put_list ks v m = Some m' \<Longrightarrow> ensured m' j = ensured m j"
proof (induction ks arbitrary: m)
  case (Cons k ks)
  then obtain m1 where m1: "put k v m = Some m1" "put_list ks v m1 = Some m'" by auto
  show ?case using Cons.IH[OF m1(2)] ensured_put[OF m1(1)] by auto
qed simp

end

text \<open>With \<open>Ensure\<close>, which prepares a range of keys and changes no entry.\<close>

locale page_map = page_store +
  fixes ensure :: "nat \<Rightarrow> nat \<Rightarrow> 'a \<Rightarrow> bool \<times> 'a"
  assumes get_ensure: "ensure s n m = (b, m') \<Longrightarrow> get m' j = get m j"
    and ensured_mono: "ensure s n m = (b, m') \<Longrightarrow> ensured m j \<Longrightarrow> ensured m' j"
    and ensure_ensures: "ensure s n m = (True, m') \<Longrightarrow> s \<le> j \<Longrightarrow> j < s + n \<Longrightarrow> s + n < two64
        \<Longrightarrow> ensured m' j"
begin

text \<open>What \<open>GrowHeap\<close> relies on: after a successful \<open>Ensure\<close> both ends of the range can be set.\<close>

lemma put_after_ensure:
  assumes "ensure s n m = (True, m')" "s \<le> k" "k < s + n" "s + n < two64"
  shows "\<exists>m''. put k v m' = Some m''"
  using ensure_ensures[OF assms] put_defined by blast

lemma get_put_ensure:
  assumes "ensure s n m = (b, m')" "put k v m' = Some m''"
  shows "get m'' j = (if j = k then v else get m j)"
  using get_ensure[OF assms(1)] get_put[OF assms(2)] by simp

end

text \<open>With \<open>Next\<close>: the first non-null entry at or after a key.\<close>

definition first_at :: "(nat \<Rightarrow> 'v option) \<Rightarrow> nat \<Rightarrow> 'v option \<Rightarrow> bool" where
  "first_at f k r = (case r of
      None \<Rightarrow> \<forall>j \<ge> k. f j = None
    | Some v \<Rightarrow> \<exists>j \<ge> k. f j = Some v \<and> (\<forall>i. k \<le> i \<and> i < j \<longrightarrow> f i = None))"

lemma first_at_unique: "first_at f k r \<Longrightarrow> first_at f k r' \<Longrightarrow> r = r'"
  unfolding first_at_def
  by (auto split: option.splits) (metis linorder_neqE_nat option.discI option.inject order_le_less_trans order_less_imp_le)+

lemma first_at_here: "f k = Some v \<Longrightarrow> first_at f k (Some v)"
  by (auto simp: first_at_def)

lemma first_at_skip:
  assumes "first_at f k' r" "k \<le> k'" "\<And>i. k \<le> i \<Longrightarrow> i < k' \<Longrightarrow> f i = None"
  shows "first_at f k r"
proof (cases r)
  case None
  then show ?thesis using assms unfolding first_at_def by (auto) (metis linorder_not_less)
next
  case (Some v)
  then obtain j where "j \<ge> k'" "f j = Some v" "\<forall>i. k' \<le> i \<and> i < j \<longrightarrow> f i = None"
    using assms(1) by (auto simp: first_at_def)
  then show ?thesis using assms(2,3) Some unfolding first_at_def
    by (auto intro!: exI[of _ j]) (metis linorder_not_less)
qed

locale page_map_next = page_store +
  fixes nxt :: "'a \<Rightarrow> nat \<Rightarrow> 'b option"
  assumes nxt_first: "first_at (get m) k (nxt m k)"
begin

lemma nxt_finds: "get m k = Some v \<Longrightarrow> nxt m k = Some v"
  using first_at_here[of "get m" k v] nxt_first[of m k] first_at_unique by blast

lemma nxt_determined: "get m = get m' \<Longrightarrow> nxt m k = nxt m' k"
  using nxt_first[of m k] nxt_first[of m' k] first_at_unique by metis

lemma nxt_put_here: "put k (Some v) m = Some m' \<Longrightarrow> nxt m' k = Some v"
  by (rule nxt_finds) (simp add: get_put)

end

subsection \<open>TCMalloc_PageMap1: a flat array\<close>

record 'v pagemap1 =
  array1 :: "nat \<Rightarrow> 'v option"

definition pm1_new :: "'v pagemap1" where
  "pm1_new = \<lparr>array1 = (\<lambda>_. None)\<rparr>"

text \<open>\<open>LENGTH - x\<close> is computed in \<open>uintptr_t\<close>, so it wraps around when \<open>x > LENGTH\<close>.\<close>

definition pm1_Ensure :: "nat \<Rightarrow> nat \<Rightarrow> nat \<Rightarrow> bool" where
  "pm1_Ensure BITS x n = (n \<le> sub64 (2 ^ BITS) x)"

definition pm1_get :: "nat \<Rightarrow> 'v pagemap1 \<Rightarrow> nat \<Rightarrow> 'v option" where
  "pm1_get BITS m k = (if k div 2 ^ BITS > 0 then None else array1 m k)"

definition pm1_set :: "nat \<Rightarrow> nat \<Rightarrow> 'v option \<Rightarrow> 'v pagemap1 \<Rightarrow> 'v pagemap1 option" where
  "pm1_set BITS k v m = do { check (k < 2 ^ BITS); Some (m\<lparr>array1 := (array1 m)(k := v)\<rparr>) }"

function pm1_Next :: "nat \<Rightarrow> 'v pagemap1 \<Rightarrow> nat \<Rightarrow> 'v option" where
  "pm1_Next BITS m k =
     (if k < 2 ^ BITS
      then (case array1 m k of Some v \<Rightarrow> Some v | None \<Rightarrow> pm1_Next BITS m (k + 1))
      else None)"
  by pat_completeness auto
termination
  by (relation "measure (\<lambda>(BITS, m, k). 2 ^ BITS - k)") (auto intro!: diff_less_mono2)

subsection \<open>TCMalloc_PageMap2: two levels\<close>

record 'v pagemap2 =
  root2 :: "nat \<Rightarrow> (nat \<Rightarrow> 'v option) option"
  allocator2 :: "bool list"

definition ROOT_BITS :: nat where [simp]: "ROOT_BITS = 5"

definition pm2_LEAF_BITS :: "nat \<Rightarrow> nat" where
  "pm2_LEAF_BITS BITS = BITS - ROOT_BITS"

definition pm2_new :: "bool list \<Rightarrow> 'v pagemap2" where
  "pm2_new al = \<lparr>root2 = (\<lambda>_. None), allocator2 = al\<rparr>"

definition pm2_get :: "nat \<Rightarrow> 'v pagemap2 \<Rightarrow> nat \<Rightarrow> 'v option" where
  "pm2_get BITS m k =
     (let i1 = k div 2 ^ pm2_LEAF_BITS BITS;
          i2 = k mod 2 ^ pm2_LEAF_BITS BITS
      in if k div 2 ^ BITS > 0 \<or> root2 m i1 = None then None else the (root2 m i1) i2)"

definition pm2_set :: "nat \<Rightarrow> nat \<Rightarrow> 'v option \<Rightarrow> 'v pagemap2 \<Rightarrow> 'v pagemap2 option" where
  "pm2_set BITS k v m = do {
     check (k div 2 ^ BITS = 0);
     let i1 = k div 2 ^ pm2_LEAF_BITS BITS;
     let i2 = k mod 2 ^ pm2_LEAF_BITS BITS;
     leaf \<leftarrow> root2 m i1;
     Some (m\<lparr>root2 := (root2 m)(i1 \<mapsto> leaf(i2 := v))\<rparr>) }"

text \<open>One call of the allocator.\<close>

definition take_alloc :: "bool list \<Rightarrow> bool \<times> bool list" where
  "take_alloc al = (case al of [] \<Rightarrow> (False, []) | b # bs \<Rightarrow> (b, bs))"

text \<open>The loop of \<open>Ensure\<close> up to the last key \<open>lst\<close>; the result says whether it returned true.\<close>

definition next_key :: "nat \<Rightarrow> nat \<Rightarrow> nat" where
  "next_key b key = (key div 2 ^ b + 1) * 2 ^ b"

lemma next_key_greater [simp]: "key < next_key b key"
  using dividend_less_div_times[of "2 ^ b" key] by (simp add: next_key_def algebra_simps)

lemma next_key_same_block: "key \<le> i \<Longrightarrow> i < next_key b key \<Longrightarrow> i div 2 ^ b = key div 2 ^ b"
  unfolding next_key_def
  by (metis Suc_eq_plus1 div_le_mono le_antisym less_Suc_eq_le less_mult_imp_div_less)

lemma next_key_decreases [simp]: "key \<le> lst \<Longrightarrow> Suc lst - next_key b key < Suc lst - key"
  using next_key_greater[of key b] by linarith

text \<open>Making the leaf of a key, if it is missing.\<close>

definition pm2_make_leaf :: "nat \<Rightarrow> 'v pagemap2 \<Rightarrow> bool \<times> 'v pagemap2" where
  "pm2_make_leaf i1 m =
     (if root2 m i1 = None then
        let (ok, al) = take_alloc (allocator2 m); m = m\<lparr>allocator2 := al\<rparr> in
        if ok then (True, m\<lparr>root2 := (root2 m)(i1 \<mapsto> (\<lambda>_. None))\<rparr>) else (False, m)
      else (True, m))"

function pm2_ensure_loop :: "nat \<Rightarrow> nat \<Rightarrow> nat \<Rightarrow> 'v pagemap2 \<Rightarrow> bool \<times> 'v pagemap2" where
  "pm2_ensure_loop BITS key lst m =
     (if key \<le> lst then
        let i1 = key div 2 ^ pm2_LEAF_BITS BITS in
        if i1 \<ge> 2 ^ ROOT_BITS then (False, m)
        else
          let (ok, m) = pm2_make_leaf i1 m in
          if \<not> ok then (False, m)
          else pm2_ensure_loop BITS (next_key (pm2_LEAF_BITS BITS) key) lst m
      else (True, m))"
  by pat_completeness auto
termination
  by (relation "measure (\<lambda>(BITS, key, lst, m). lst + 1 - key)") auto

definition pm2_Ensure :: "nat \<Rightarrow> nat \<Rightarrow> nat \<Rightarrow> 'v pagemap2 \<Rightarrow> bool \<times> 'v pagemap2" where
  "pm2_Ensure BITS start n m = pm2_ensure_loop BITS start (sub64 (add64 start n) 1) m"

definition pm2_PreallocateMoreMemory :: "nat \<Rightarrow> 'v pagemap2 \<Rightarrow> 'v pagemap2" where
  "pm2_PreallocateMoreMemory BITS m = snd (pm2_Ensure BITS 0 (2 ^ BITS) m)"

text \<open>The scan of a leaf from one slot to its end.\<close>

function leaf_scan :: "(nat \<Rightarrow> 'v option) \<Rightarrow> nat \<Rightarrow> nat \<Rightarrow> 'v option" where
  "leaf_scan vals i len =
     (if i < len
      then (case vals i of Some v \<Rightarrow> Some v | None \<Rightarrow> leaf_scan vals (i + 1) len)
      else None)"
  by pat_completeness auto
termination
  by (relation "measure (\<lambda>(vals, i, len). len - i)") auto

lemma next_key_decreases' [simp]: "key < n \<Longrightarrow> n - next_key b key < n - key"
  using next_key_greater[of key b] by linarith

function pm2_Next :: "nat \<Rightarrow> 'v pagemap2 \<Rightarrow> nat \<Rightarrow> 'v option" where
  "pm2_Next BITS m k =
     (if k < 2 ^ BITS then
        let i1 = k div 2 ^ pm2_LEAF_BITS BITS;
            found = (case root2 m i1 of
                None \<Rightarrow> None
              | Some leaf \<Rightarrow> leaf_scan leaf (k mod 2 ^ pm2_LEAF_BITS BITS) (2 ^ pm2_LEAF_BITS BITS))
        in (case found of Some v \<Rightarrow> Some v
            | None \<Rightarrow> pm2_Next BITS m (next_key (pm2_LEAF_BITS BITS) k))
      else None)"
  by pat_completeness auto
termination
  by (relation "measure (\<lambda>(BITS, m, k). 2 ^ BITS - k)") auto

subsection \<open>TCMalloc_PageMap3: three levels\<close>

record 'v pagemap3 =
  root3 :: "nat \<Rightarrow> (nat \<Rightarrow> (nat \<Rightarrow> 'v option) option) option"
  allocator3 :: "bool list"

definition INTERIOR_BITS :: "nat \<Rightarrow> nat" where
  "INTERIOR_BITS BITS = (BITS + 2) div 3"

definition pm3_LEAF_BITS :: "nat \<Rightarrow> nat" where
  "pm3_LEAF_BITS BITS = BITS - 2 * INTERIOR_BITS BITS"

text \<open>\<open>NewNode\<close> for the root; without it every access goes through a null pointer.\<close>

definition pm3_new :: "bool list \<Rightarrow> 'v pagemap3 option" where
  "pm3_new al = (let (ok, al') = take_alloc al
                 in do { check ok; Some \<lparr>root3 = (\<lambda>_. None), allocator3 = al'\<rparr> })"

definition ix1 :: "nat \<Rightarrow> nat \<Rightarrow> nat" where
  "ix1 BITS k = k div 2 ^ (pm3_LEAF_BITS BITS + INTERIOR_BITS BITS)"

definition ix2 :: "nat \<Rightarrow> nat \<Rightarrow> nat" where
  "ix2 BITS k = (k div 2 ^ pm3_LEAF_BITS BITS) mod 2 ^ INTERIOR_BITS BITS"

definition ix3 :: "nat \<Rightarrow> nat \<Rightarrow> nat" where
  "ix3 BITS k = k mod 2 ^ pm3_LEAF_BITS BITS"

definition pm3_get :: "nat \<Rightarrow> 'v pagemap3 \<Rightarrow> nat \<Rightarrow> 'v option" where
  "pm3_get BITS m k =
     (if k div 2 ^ BITS > 0 then None
      else case root3 m (ix1 BITS k) of
          None \<Rightarrow> None
        | Some node \<Rightarrow> (case node (ix2 BITS k) of
              None \<Rightarrow> None
            | Some leaf \<Rightarrow> leaf (ix3 BITS k)))"

definition pm3_set :: "nat \<Rightarrow> nat \<Rightarrow> 'v option \<Rightarrow> 'v pagemap3 \<Rightarrow> 'v pagemap3 option" where
  "pm3_set BITS k v m = do {
     check (k div 2 ^ BITS = 0);
     node \<leftarrow> root3 m (ix1 BITS k);
     leaf \<leftarrow> node (ix2 BITS k);
     Some (m\<lparr>root3 := (root3 m)(ix1 BITS k \<mapsto> node(ix2 BITS k \<mapsto> leaf(ix3 BITS k := v)))\<rparr>) }"

text \<open>Making the second level node and the leaf of a key, if they are missing.\<close>

definition pm3_make_node :: "nat \<Rightarrow> 'v pagemap3 \<Rightarrow> bool \<times> 'v pagemap3" where
  "pm3_make_node i1 m =
     (if root3 m i1 = None then
        let (ok, al) = take_alloc (allocator3 m); m = m\<lparr>allocator3 := al\<rparr> in
        if ok then (True, m\<lparr>root3 := (root3 m)(i1 \<mapsto> (\<lambda>_. None))\<rparr>) else (False, m)
      else (True, m))"

definition pm3_make_leaf :: "nat \<Rightarrow> nat \<Rightarrow> 'v pagemap3 \<Rightarrow> bool \<times> 'v pagemap3" where
  "pm3_make_leaf i1 i2 m =
     (let node = the (root3 m i1) in
      if node i2 = None then
        let (ok, al) = take_alloc (allocator3 m); m = m\<lparr>allocator3 := al\<rparr> in
        if ok then (True, m\<lparr>root3 := (root3 m)(i1 \<mapsto> node(i2 \<mapsto> (\<lambda>_. None)))\<rparr>) else (False, m)
      else (True, m))"

function pm3_ensure_loop :: "nat \<Rightarrow> nat \<Rightarrow> nat \<Rightarrow> 'v pagemap3 \<Rightarrow> bool \<times> 'v pagemap3" where
  "pm3_ensure_loop BITS key lst m =
     (if key \<le> lst then
        let i1 = ix1 BITS key; i2 = ix2 BITS key in
        if i1 \<ge> 2 ^ INTERIOR_BITS BITS \<or> i2 \<ge> 2 ^ INTERIOR_BITS BITS then (False, m)
        else
          let (ok, m) = pm3_make_node i1 m in
          if \<not> ok then (False, m)
          else
            let (ok, m) = pm3_make_leaf i1 i2 m in
            if \<not> ok then (False, m)
            else pm3_ensure_loop BITS (next_key (pm3_LEAF_BITS BITS) key) lst m
      else (True, m))"
  by pat_completeness auto
termination
  by (relation "measure (\<lambda>(BITS, key, lst, m). lst + 1 - key)") auto

definition pm3_Ensure :: "nat \<Rightarrow> nat \<Rightarrow> nat \<Rightarrow> 'v pagemap3 \<Rightarrow> bool \<times> 'v pagemap3" where
  "pm3_Ensure BITS start n m = pm3_ensure_loop BITS start (sub64 (add64 start n) 1) m"

definition pm3_PreallocateMoreMemory :: "'v pagemap3 \<Rightarrow> 'v pagemap3" where
  "pm3_PreallocateMoreMemory m = m"

function pm3_Next :: "nat \<Rightarrow> 'v pagemap3 \<Rightarrow> nat \<Rightarrow> 'v option" where
  "pm3_Next BITS m k =
     (if k < 2 ^ BITS then
        (case root3 m (ix1 BITS k) of
           None \<Rightarrow> pm3_Next BITS m (next_key (pm3_LEAF_BITS BITS + INTERIOR_BITS BITS) k)
         | Some node \<Rightarrow>
             let found = (case node (ix2 BITS k) of
                   None \<Rightarrow> None
                 | Some leaf \<Rightarrow> leaf_scan leaf (ix3 BITS k) (2 ^ pm3_LEAF_BITS BITS))
             in (case found of Some v \<Rightarrow> Some v
                 | None \<Rightarrow> pm3_Next BITS m (next_key (pm3_LEAF_BITS BITS) k)))
      else None)"
  by pat_completeness auto
termination
  by (relation "measure (\<lambda>(BITS, m, k). 2 ^ BITS - k)") auto

declare pm1_Next.simps [simp del] pm2_ensure_loop.simps [simp del] leaf_scan.simps [simp del]
  pm2_Next.simps [simp del] pm3_ensure_loop.simps [simp del] pm3_Next.simps [simp del]

subsection \<open>The flat array\<close>

lemma div_pow_pos [simp]: "(0 < k div 2 ^ b) = ((2::nat) ^ b \<le> k)"
  by (simp add: div_greater_zero_iff)

lemma div_pow_0 [simp]: "(k div 2 ^ b = 0) = (k < (2::nat) ^ b)"
  by (simp add: div_eq_0_iff)

definition pm1_ensured :: "nat \<Rightarrow> 'v pagemap1 \<Rightarrow> nat \<Rightarrow> bool" where
  "pm1_ensured BITS m k = (k < 2 ^ BITS)"

interpretation pm1: page_store "pm1_get BITS" "pm1_set BITS" "pm1_ensured BITS"
  by unfold_locales (auto simp: pm1_get_def pm1_set_def pm1_ensured_def check_def not_less split: if_splits)

lemma pm1_Next_first: "first_at (pm1_get BITS m) k (pm1_Next BITS m k)"
proof (induction BITS m k rule: pm1_Next.induct)
  case (1 BITS m k)
  show ?case
  proof (cases "k < 2 ^ BITS")
    case False
    then show ?thesis by (simp add: pm1_Next.simps[of BITS m k] first_at_def pm1_get_def)
  next
    case True
    show ?thesis
    proof (cases "array1 m k")
      case None
      have "first_at (pm1_get BITS m) k (pm1_Next BITS m (k + 1))"
      proof (rule first_at_skip[OF "1.IH"[OF True None]])
        fix i assume "k \<le> i" "i < k + 1"
        then have "i = k" by simp
        then show "pm1_get BITS m i = None" using None by (simp add: pm1_get_def)
      qed simp
      then show ?thesis using True None by (simp add: pm1_Next.simps[of BITS m k])
    next
      case (Some v)
      then show ?thesis using True
        by (simp add: pm1_Next.simps[of BITS m k] first_at_here pm1_get_def)
    qed
  qed
qed

interpretation pm1n: page_map_next "pm1_get BITS" "pm1_set BITS" "pm1_ensured BITS" "pm1_Next BITS"
  by unfold_locales (rule pm1_Next_first)

subsection \<open>Two levels\<close>

lemma same_block: "k div 2 ^ b = j div 2 ^ b \<Longrightarrow> k mod 2 ^ b = j mod 2 ^ b \<Longrightarrow> k = (j::nat)"
  by (metis div_mult_mod_eq)

definition pm2_ensured :: "nat \<Rightarrow> 'v pagemap2 \<Rightarrow> nat \<Rightarrow> bool" where
  "pm2_ensured BITS m k = (k < 2 ^ BITS \<and> root2 m (k div 2 ^ pm2_LEAF_BITS BITS) \<noteq> None)"

lemma pm2_get_set:
  assumes "pm2_set BITS k v m = Some m'"
  shows "pm2_get BITS m' j = (if j = k then v else pm2_get BITS m j)"
  using assms same_block[of k "pm2_LEAF_BITS BITS" j]
  by (auto simp: pm2_set_def pm2_get_def Let_def split: if_splits)

lemma pm2_make_leaf_root:
  assumes "pm2_make_leaf i m = (ok, m')"
  shows "root2 m' j = (if ok \<and> j = i \<and> root2 m i = None then Some (\<lambda>_. None) else root2 m j)"
    and "ok \<Longrightarrow> root2 m' i \<noteq> None"
  using assms by (auto simp: pm2_make_leaf_def Let_def split: if_splits prod.splits)

text \<open>The loop as a case analysis: it stops, or goes on from a map with the leaf in place.\<close>

lemma pm2_ensure_loop_cases:
  obtains (stop) m1 where "\<And>j. root2 m1 j = root2 m j" "pm2_ensure_loop BITS key lst m = (\<not> key \<le> lst, m1)"
  | (step) m1 where "key \<le> lst" "key div 2 ^ pm2_LEAF_BITS BITS < 2 ^ ROOT_BITS"
      "pm2_make_leaf (key div 2 ^ pm2_LEAF_BITS BITS) m = (True, m1)"
      "pm2_ensure_loop BITS key lst m = pm2_ensure_loop BITS (next_key (pm2_LEAF_BITS BITS) key) lst m1"
proof (cases "key \<le> lst \<and> key div 2 ^ pm2_LEAF_BITS BITS < 2 ^ ROOT_BITS")
  case False
  then show thesis
    by (intro stop[of m]) (auto simp: pm2_ensure_loop.simps[of BITS key lst m] Let_def not_le)
next
  case True
  obtain ok m1 where m1: "pm2_make_leaf (key div 2 ^ pm2_LEAF_BITS BITS) m = (ok, m1)" by fastforce
  show thesis
  proof (cases ok)
    case T: True
    with True m1 step show thesis
      by (simp add: pm2_ensure_loop.simps[of BITS key lst m] Let_def not_le)
  next
    case False
    with True m1 pm2_make_leaf_root(1)[OF m1] stop[of m1] show thesis
      by (simp add: pm2_ensure_loop.simps[of BITS key lst m] Let_def not_le)
  qed
qed

lemma pm2_get_make_leaf: "pm2_make_leaf i m = (ok, m') \<Longrightarrow> pm2_get BITS m' j = pm2_get BITS m j"
  using pm2_make_leaf_root(1)[of i m ok m'] by (auto simp: pm2_get_def Let_def split: if_splits)

lemma pm2_ensure_loop_get: "pm2_get BITS (snd (pm2_ensure_loop BITS key lst m)) j = pm2_get BITS m j"
proof (induction "Suc lst - key" arbitrary: key m rule: less_induct)
  case less
  show ?case
  proof (cases rule: pm2_ensure_loop_cases[where BITS = BITS and key = key and lst = lst and m = m])
    case (stop m1)
    then show ?thesis by (simp add: pm2_get_def Let_def)
  next
    case (step m1)
    then show ?thesis using less[of "next_key (pm2_LEAF_BITS BITS) key" m1] pm2_get_make_leaf by simp
  qed
qed

lemma pm2_ensure_loop_mono:
  "pm2_ensured BITS m j \<Longrightarrow> pm2_ensured BITS (snd (pm2_ensure_loop BITS key lst m)) j"
proof (induction "Suc lst - key" arbitrary: key m rule: less_induct)
  case less
  show ?case
  proof (cases rule: pm2_ensure_loop_cases[where BITS = BITS and key = key and lst = lst and m = m])
    case (stop m1)
    then show ?thesis using less.prems by (simp add: pm2_ensured_def)
  next
    case (step m1)
    have "pm2_ensured BITS m1 j"
      using less.prems pm2_make_leaf_root(1)[OF step(3)] by (auto simp: pm2_ensured_def)
    then show ?thesis using less.hyps[of "next_key (pm2_LEAF_BITS BITS) key" m1] step by simp
  qed
qed

lemma pm2_BITS_split: "ROOT_BITS \<le> BITS \<Longrightarrow> (2::nat) ^ BITS = 2 ^ ROOT_BITS * 2 ^ pm2_LEAF_BITS BITS"
  unfolding pm2_LEAF_BITS_def by (metis le_add_diff_inverse power_add)

lemma pm2_in_range:
  fixes j :: nat
  assumes "ROOT_BITS \<le> BITS" "j div 2 ^ pm2_LEAF_BITS BITS < 2 ^ ROOT_BITS"
  shows "j < 2 ^ BITS"
  using assms(2) unfolding pm2_BITS_split[OF assms(1)] by (simp add: div_less_iff_less_mult)

lemma pm2_ensure_loop_ensures:
  "fst (pm2_ensure_loop BITS key lst m) \<Longrightarrow> ROOT_BITS \<le> BITS \<Longrightarrow> key \<le> j \<Longrightarrow> j \<le> lst
     \<Longrightarrow> pm2_ensured BITS (snd (pm2_ensure_loop BITS key lst m)) j"
proof (induction "Suc lst - key" arbitrary: key m rule: less_induct)
  case less
  let ?L = "pm2_LEAF_BITS BITS"
  show ?case
  proof (cases rule: pm2_ensure_loop_cases[where BITS = BITS and key = key and lst = lst and m = m])
    case (stop m1)
    then show ?thesis using less.prems by simp
  next
    case (step m1)
    show ?thesis
    proof (cases "next_key ?L key \<le> j")
      case True
      then show ?thesis using less.hyps[of "next_key ?L key" m1] less.prems step by simp
    next
      case False
      then have jk: "j div 2 ^ ?L = key div 2 ^ ?L"
        using next_key_same_block[of key j ?L] less.prems by simp
      then have "pm2_ensured BITS m1 j"
        using step(2) pm2_make_leaf_root(2)[OF step(3)] pm2_in_range[of BITS j] less.prems(2)
        by (simp add: pm2_ensured_def)
      then show ?thesis unfolding step(4) by (rule pm2_ensure_loop_mono)
    qed
  qed
qed

lemma last_key: "s + n < two64 \<Longrightarrow> 0 < n \<Longrightarrow> sub64 (add64 s n) 1 = s + n - 1"
  by (subst add64_exact, simp, subst sub64_exact) auto

lemma pm2_set_defined: "(\<exists>m'. pm2_set BITS k v m = Some m') = pm2_ensured BITS m k"
  by (auto simp: pm2_ensured_def pm2_set_def Let_def)

lemma pm2_ensured_set: "pm2_set BITS k v m = Some m' \<Longrightarrow> pm2_ensured BITS m' j = pm2_ensured BITS m j"
  by (auto simp: pm2_ensured_def pm2_set_def Let_def split: if_splits)

lemma pm2_get_unensured: "\<not> pm2_ensured BITS m k \<Longrightarrow> pm2_get BITS m k = None"
  by (auto simp: pm2_ensured_def pm2_get_def Let_def)

lemma pm2_Ensure_laws:
  assumes "pm2_Ensure BITS s n m = (b, m')"
  shows "pm2_get BITS m' j = pm2_get BITS m j"
    and "pm2_ensured BITS m j \<Longrightarrow> pm2_ensured BITS m' j"
    and "b \<Longrightarrow> ROOT_BITS \<le> BITS \<Longrightarrow> s \<le> j \<Longrightarrow> j < s + n \<Longrightarrow> s + n < two64 \<Longrightarrow> pm2_ensured BITS m' j"
  using assms pm2_ensure_loop_get[of BITS s "sub64 (add64 s n) 1" m j]
    pm2_ensure_loop_mono[of BITS m j s "sub64 (add64 s n) 1"]
    pm2_ensure_loop_ensures[of BITS s "sub64 (add64 s n) 1" m j] last_key[of s n]
  by (auto simp: pm2_Ensure_def)

interpretation pm2: page_map "pm2_get 19" "pm2_set 19" "pm2_ensured 19" "pm2_Ensure 19"
proof (unfold_locales, goal_cases)
  case 1 then show ?case by (rule pm2_get_unensured)
next
  case 2 show ?case by (rule pm2_set_defined)
next
  case 3 then show ?case by (rule pm2_get_set)
next
  case 4 then show ?case by (rule pm2_ensured_set)
next
  case 5 then show ?case by (rule pm2_Ensure_laws(1))
next
  case 6 then show ?case by (rule pm2_Ensure_laws(2))
next
  case (7 s n m m' j)
  then show ?case using pm2_Ensure_laws(3)[OF 7(1) _ _ 7(2,3,4)] by simp
qed

text \<open>A leaf scan finds the first entry of its block.\<close>

lemma leaf_scan_first:
  "first_at (\<lambda>i. if i < len then vals i else None) i (leaf_scan vals i len)"
proof (induction vals i len rule: leaf_scan.induct)
  case (1 vals i len)
  let ?f = "\<lambda>i. if i < len then vals i else None"
  show ?case
  proof (cases "i < len \<and> vals i = None")
    case True
    have "first_at ?f i (leaf_scan vals (i + 1) len)"
      by (rule first_at_skip[of ?f "i + 1"]) (use "1.IH" True in \<open>auto simp: less_Suc_eq\<close>)
    then show ?thesis using True by (simp add: leaf_scan.simps[of vals i len])
  next
    case False
    then consider "\<not> i < len" | v where "i < len" "vals i = Some v" by auto
    then show ?thesis
    proof cases
      case 1
      then show ?thesis by (simp add: leaf_scan.simps[of vals i len] first_at_def)
    next
      case 2
      then show ?thesis using first_at_here[of ?f i v] by (simp add: leaf_scan.simps[of vals i len])
    qed
  qed
qed

text \<open>
  The shared step of both \<open>Next\<close> loops: a block of keys that agree with a leaf is scanned, and the
  search goes on behind the block.
\<close>

lemma block_bounds:
  fixes k b :: nat
  shows "k div 2 ^ b * 2 ^ b + k mod 2 ^ b = k" "k mod 2 ^ b < 2 ^ b"
    "next_key b k = k div 2 ^ b * 2 ^ b + 2 ^ b"
  by (rule div_mult_mod_eq, simp_all add: next_key_def)

lemma first_at_block:
  assumes leaf: "\<And>i. i < 2 ^ b \<Longrightarrow> f (k div 2 ^ b * 2 ^ b + i) = leaf i"
    and rest: "leaf_scan leaf (k mod 2 ^ b) (2 ^ b) = None \<Longrightarrow> first_at f (next_key b k) r"
  shows "first_at f k (case leaf_scan leaf (k mod 2 ^ b) (2 ^ b) of Some v \<Rightarrow> Some v | None \<Rightarrow> r)"
proof -
  let ?B = "k div 2 ^ b * 2 ^ b"
  have sc: "first_at (\<lambda>i. if i < 2 ^ b then leaf i else None) (k mod 2 ^ b) (leaf_scan leaf (k mod 2 ^ b) (2 ^ b))"
    by (rule leaf_scan_first)
  have inblock: "f i = leaf (i - ?B) \<and> k mod 2 ^ b \<le> i - ?B \<and> i - ?B < 2 ^ b"
    if "k \<le> i" "i < next_key b k" for i
    using that block_bounds[where k = k and b = b] leaf[of "i - ?B"] by auto
  show ?thesis
  proof (cases "leaf_scan leaf (k mod 2 ^ b) (2 ^ b)")
    case None
    have "first_at f k r"
    proof (rule first_at_skip[OF rest[OF None]])
      fix i assume "k \<le> i" "i < next_key b k"
      then show "f i = None" using inblock[of i] sc None by (force simp: first_at_def)
    qed (simp add: less_imp_le)
    then show ?thesis using None by simp
  next
    case (Some v)
    then obtain j where j: "k mod 2 ^ b \<le> j" "j < 2 ^ b" "leaf j = Some v"
      "\<And>i. k mod 2 ^ b \<le> i \<Longrightarrow> i < j \<Longrightarrow> leaf i = None"
      using sc by (force simp: first_at_def split: if_splits)
    have "f i = None" if "k \<le> i" "i < ?B + j" for i
      using inblock[of i] that j block_bounds[where k = k and b = b] by auto
    moreover have "f (?B + j) = Some v" "k \<le> ?B + j"
      using leaf[of j] j block_bounds[where k = k and b = b] by auto
    ultimately show ?thesis using Some by (auto simp: first_at_def)
  qed
qed

lemma first_at_none_block:
  assumes "\<And>i. k \<le> i \<Longrightarrow> i < next_key b k \<Longrightarrow> f i = None" "first_at f (next_key b k) r"
  shows "first_at f k r"
  by (rule first_at_skip[OF assms(2)]) (simp_all add: less_imp_le assms(1))

lemma pm2_Next_first:
  assumes "ROOT_BITS \<le> BITS"
  shows "first_at (pm2_get BITS m) k (pm2_Next BITS m k)"
  using assms
proof (induction BITS m k rule: pm2_Next.induct)
  case (1 BITS m k)
  let ?L = "pm2_LEAF_BITS BITS"
  show ?case
  proof (cases "k < 2 ^ BITS")
    case False
    then show ?thesis by (simp add: pm2_Next.simps[of BITS m k] first_at_def pm2_get_def)
  next
    case True
    have "k div 2 ^ ?L < 2 ^ ROOT_BITS"
      using True unfolding pm2_BITS_split[OF "1.prems"] by (simp add: less_mult_imp_div_less)
    then have inb: "i < 2 ^ BITS" if "i div 2 ^ ?L = k div 2 ^ ?L" for i
      using pm2_in_range[OF "1.prems"] that by simp
    show ?thesis
    proof (cases "root2 m (k div 2 ^ ?L)")
      case None
      have "first_at (pm2_get BITS m) k (pm2_Next BITS m (next_key ?L k))"
        by (rule first_at_none_block[where b = ?L, OF _ "1.IH"[OF True refl refl _ "1.prems"]])
          (use None in \<open>simp_all add: pm2_get_def Let_def next_key_same_block\<close>)
      then show ?thesis using None True by (simp add: pm2_Next.simps[of BITS m k] Let_def)
    next
      case (Some leaf)
      have "first_at (pm2_get BITS m) k
         (case leaf_scan leaf (k mod 2 ^ ?L) (2 ^ ?L) of Some v \<Rightarrow> Some v
          | None \<Rightarrow> pm2_Next BITS m (next_key ?L k))"
      proof (rule first_at_block)
        fix i :: nat assume i: "i < 2 ^ ?L"
        then have "(k div 2 ^ ?L * 2 ^ ?L + i) div 2 ^ ?L = k div 2 ^ ?L" by simp
        with i Some inb[of "k div 2 ^ ?L * 2 ^ ?L + i"]
        show "pm2_get BITS m (k div 2 ^ ?L * 2 ^ ?L + i) = leaf i"
          by (auto simp: pm2_get_def Let_def)
      next
        assume "leaf_scan leaf (k mod 2 ^ ?L) (2 ^ ?L) = None"
        then show "first_at (pm2_get BITS m) (next_key ?L k) (pm2_Next BITS m (next_key ?L k))"
          using "1.IH"[OF True refl] "1.prems" Some by simp
      qed
      then show ?thesis using Some True
        by (simp add: pm2_Next.simps[of BITS m k] Let_def)
    qed
  qed
qed

interpretation pm2n: page_map_next "pm2_get 19" "pm2_set 19" "pm2_ensured 19" "pm2_Next 19"
  by unfold_locales (rule pm2_Next_first, simp)

subsection \<open>Three levels\<close>

definition pm3_ensured :: "nat \<Rightarrow> 'v pagemap3 \<Rightarrow> nat \<Rightarrow> bool" where
  "pm3_ensured BITS m k =
     (k < 2 ^ BITS \<and> (\<exists>node. root3 m (ix1 BITS k) = Some node \<and> node (ix2 BITS k) \<noteq> None))"

lemma ix1_div: "ix1 BITS k = k div 2 ^ pm3_LEAF_BITS BITS div 2 ^ INTERIOR_BITS BITS"
  by (simp add: ix1_def power_add div_mult2_eq)

lemma ix12_block:
  "ix1 BITS j = ix1 BITS k \<and> ix2 BITS j = ix2 BITS k
     \<longleftrightarrow> j div 2 ^ pm3_LEAF_BITS BITS = k div 2 ^ pm3_LEAF_BITS BITS"
  unfolding ix1_div ix2_def using same_block by metis

lemma ix_inject:
  "ix1 BITS j = ix1 BITS k \<Longrightarrow> ix2 BITS j = ix2 BITS k \<Longrightarrow> ix3 BITS j = ix3 BITS k \<Longrightarrow> j = k"
  using ix12_block[of BITS j k] same_block[of j "pm3_LEAF_BITS BITS" k] by (simp add: ix3_def)

lemma ix2_less: "ix2 BITS k < 2 ^ INTERIOR_BITS BITS"
  by (simp add: ix2_def)

definition slot3 :: "'v pagemap3 \<Rightarrow> nat \<Rightarrow> nat \<Rightarrow> (nat \<Rightarrow> 'v option) option" where
  "slot3 m i1 i2 = (case root3 m i1 of None \<Rightarrow> None | Some node \<Rightarrow> node i2)"

lemma pm3_get_slot:
  "pm3_get BITS m k = (if k < 2 ^ BITS
     then case slot3 m (ix1 BITS k) (ix2 BITS k) of None \<Rightarrow> None | Some leaf \<Rightarrow> leaf (ix3 BITS k) else None)"
  by (auto simp: pm3_get_def slot3_def not_less split: option.splits)

lemma pm3_ensured_slot:
  "pm3_ensured BITS m k = (k < 2 ^ BITS \<and> slot3 m (ix1 BITS k) (ix2 BITS k) \<noteq> None)"
  by (auto simp: pm3_ensured_def slot3_def split: option.splits)

lemma pm3_get_unensured: "\<not> pm3_ensured BITS m k \<Longrightarrow> pm3_get BITS m k = None"
  by (auto simp: pm3_ensured_slot pm3_get_slot)

lemma pm3_set_defined: "(\<exists>m'. pm3_set BITS k v m = Some m') = pm3_ensured BITS m k"
  by (auto simp: pm3_ensured_def pm3_set_def)

lemma slot3_set:
  assumes "pm3_set BITS k v m = Some m'"
  shows "k < 2 ^ BITS" "\<exists>leaf. slot3 m (ix1 BITS k) (ix2 BITS k) = Some leaf
    \<and> (\<forall>i1 i2. slot3 m' i1 i2 = (if i1 = ix1 BITS k \<and> i2 = ix2 BITS k
          then Some (leaf(ix3 BITS k := v)) else slot3 m i1 i2))"
  using assms by (auto simp: pm3_set_def slot3_def split: if_splits)

lemma pm3_ensured_set:
  assumes "pm3_set BITS k v m = Some m'"
  shows "pm3_ensured BITS m' j = pm3_ensured BITS m j"
proof -
  obtain leaf where "slot3 m (ix1 BITS k) (ix2 BITS k) = Some leaf"
    "\<And>i1 i2. slot3 m' i1 i2 = (if i1 = ix1 BITS k \<and> i2 = ix2 BITS k
        then Some (leaf(ix3 BITS k := v)) else slot3 m i1 i2)"
    using slot3_set(2)[OF assms] by blast
  then show ?thesis by (auto simp: pm3_ensured_slot)
qed

lemma pm3_get_set:
  assumes "pm3_set BITS k v m = Some m'"
  shows "pm3_get BITS m' j = (if j = k then v else pm3_get BITS m j)"
  using slot3_set[OF assms] ix_inject[of BITS j k] by (auto simp: pm3_get_slot)

text \<open>Both allocating steps only replace a missing leaf by an empty one.\<close>

definition pm3_extends :: "'v pagemap3 \<Rightarrow> 'v pagemap3 \<Rightarrow> bool" where
  "pm3_extends m m' = (\<forall>i1 i2. slot3 m' i1 i2 = slot3 m i1 i2
       \<or> slot3 m i1 i2 = None \<and> slot3 m' i1 i2 = Some (\<lambda>_. None))"

lemma pm3_extends_refl: "pm3_extends m m"
  by (simp add: pm3_extends_def)

lemma pm3_extends_trans: "pm3_extends m1 m2 \<Longrightarrow> pm3_extends m2 m3 \<Longrightarrow> pm3_extends m1 m3"
  unfolding pm3_extends_def by metis

lemma pm3_make_node_facts:
  assumes "pm3_make_node i m = (ok, m')"
  shows "pm3_extends m m'" "ok \<Longrightarrow> root3 m' i \<noteq> None"
  using assms
  by (auto simp: pm3_make_node_def pm3_extends_def slot3_def Let_def split: if_splits prod.splits)

lemma pm3_make_leaf_facts:
  assumes "pm3_make_leaf i1 i2 m = (ok, m')" "root3 m i1 \<noteq> None"
  shows "pm3_extends m m'" "ok \<Longrightarrow> slot3 m' i1 i2 \<noteq> None"
  using assms
  by (auto simp: pm3_make_leaf_def pm3_extends_def slot3_def Let_def split: if_splits prod.splits)

lemma pm3_extends_slot:
  assumes "pm3_extends m m'"
  shows "slot3 m' i1 i2 = slot3 m i1 i2 \<or> slot3 m i1 i2 = None \<and> slot3 m' i1 i2 = Some (\<lambda>_. None)"
  using assms by (auto simp: pm3_extends_def)

lemma pm3_extends_get: "pm3_extends m m' \<Longrightarrow> pm3_get BITS m' j = pm3_get BITS m j"
  using pm3_extends_slot[of m m' "ix1 BITS j" "ix2 BITS j"] by (auto simp: pm3_get_slot)

lemma pm3_extends_ensured: "pm3_extends m m' \<Longrightarrow> pm3_ensured BITS m j \<Longrightarrow> pm3_ensured BITS m' j"
  using pm3_extends_slot[of m m' "ix1 BITS j" "ix2 BITS j"] by (auto simp: pm3_ensured_slot)

lemma pm3_ensure_loop_cases:
  obtains (stop) m1 where "pm3_extends m m1" "pm3_ensure_loop BITS key lst m = (\<not> key \<le> lst, m1)"
  | (step) m1 where "key \<le> lst" "ix1 BITS key < 2 ^ INTERIOR_BITS BITS" "pm3_extends m m1"
      "slot3 m1 (ix1 BITS key) (ix2 BITS key) \<noteq> None"
      "pm3_ensure_loop BITS key lst m = pm3_ensure_loop BITS (next_key (pm3_LEAF_BITS BITS) key) lst m1"
proof (cases "key \<le> lst \<and> ix1 BITS key < 2 ^ INTERIOR_BITS BITS")
  case False
  then show thesis
    by (intro stop[of m]) (auto simp: pm3_ensure_loop.simps[of BITS key lst m] pm3_extends_refl Let_def not_le)
next
  case True
  then have guards: "\<not> (ix1 BITS key \<ge> 2 ^ INTERIOR_BITS BITS \<or> ix2 BITS key \<ge> 2 ^ INTERIOR_BITS BITS)"
    "key \<le> lst" using ix2_less[of BITS key] by auto
  obtain ok1 m1 where m1: "pm3_make_node (ix1 BITS key) m = (ok1, m1)" by fastforce
  show thesis
  proof (cases ok1)
    case False
    with guards m1 have "pm3_ensure_loop BITS key lst m = (False, m1)"
      by (simp add: pm3_ensure_loop.simps[of BITS key lst m] Let_def)
    then show thesis using stop[OF pm3_make_node_facts(1)[OF m1]] guards(2) by simp
  next
    case T1: True
    obtain ok2 m2 where m2: "pm3_make_leaf (ix1 BITS key) (ix2 BITS key) m1 = (ok2, m2)" by fastforce
    note f1 = pm3_make_node_facts[OF m1]
    note f2 = pm3_make_leaf_facts[OF m2 f1(2)[OF T1]]
    have ext: "pm3_extends m m2" using f1(1) f2(1) by (rule pm3_extends_trans)
    have eq: "pm3_ensure_loop BITS key lst m = (if \<not> ok2 then (False, m2)
        else pm3_ensure_loop BITS (next_key (pm3_LEAF_BITS BITS) key) lst m2)"
      using guards m1 m2 T1 by (simp add: pm3_ensure_loop.simps[of BITS key lst m] Let_def)
    show thesis
    proof (cases ok2)
      case False
      then show thesis using stop[OF ext] eq guards(2) by simp
    next
      case T2: True
      then show thesis using step[OF guards(2) _ ext f2(2)] True eq by simp
    qed
  qed
qed

lemma pm3_ensure_loop_extends: "pm3_extends m (snd (pm3_ensure_loop BITS key lst m))"
proof (induction "Suc lst - key" arbitrary: key m rule: less_induct)
  case less
  show ?case
  proof (cases rule: pm3_ensure_loop_cases[where BITS = BITS and key = key and lst = lst and m = m])
    case (stop m1)
    then show ?thesis by simp
  next
    case (step m1)
    then show ?thesis
      using less[of "next_key (pm3_LEAF_BITS BITS) key" m1] pm3_extends_trans[OF step(3)] by simp
  qed
qed

lemma pm3_in_range:
  fixes j :: nat
  assumes "2 * INTERIOR_BITS BITS \<le> BITS" "ix1 BITS j < 2 ^ INTERIOR_BITS BITS"
  shows "j < 2 ^ BITS"
proof -
  have "BITS = INTERIOR_BITS BITS + (pm3_LEAF_BITS BITS + INTERIOR_BITS BITS)"
    using assms(1) by (simp add: pm3_LEAF_BITS_def)
  then have "(2::nat) ^ BITS = 2 ^ INTERIOR_BITS BITS * 2 ^ (pm3_LEAF_BITS BITS + INTERIOR_BITS BITS)"
    by (metis power_add)
  with assms(2) show ?thesis unfolding ix1_def by (simp add: div_less_iff_less_mult)
qed

lemma pm3_ensure_loop_ensures:
  "fst (pm3_ensure_loop BITS key lst m) \<Longrightarrow> 2 * INTERIOR_BITS BITS \<le> BITS \<Longrightarrow> key \<le> j \<Longrightarrow> j \<le> lst
     \<Longrightarrow> pm3_ensured BITS (snd (pm3_ensure_loop BITS key lst m)) j"
proof (induction "Suc lst - key" arbitrary: key m rule: less_induct)
  case less
  let ?L = "pm3_LEAF_BITS BITS"
  show ?case
  proof (cases rule: pm3_ensure_loop_cases[where BITS = BITS and key = key and lst = lst and m = m])
    case (stop m1)
    then show ?thesis using less.prems by simp
  next
    case (step m1)
    show ?thesis
    proof (cases "next_key ?L key \<le> j")
      case True
      then show ?thesis using less.hyps[of "next_key ?L key" m1] less.prems step by simp
    next
      case False
      then have "ix1 BITS j = ix1 BITS key \<and> ix2 BITS j = ix2 BITS key"
        using next_key_same_block[of key j ?L] less.prems ix12_block by simp
      then have "pm3_ensured BITS m1 j"
        using step(2,4) pm3_in_range[of BITS j] less.prems(2) by (simp add: pm3_ensured_slot)
      then show ?thesis unfolding step(5) using pm3_ensure_loop_extends by (rule pm3_extends_ensured[rotated])
    qed
  qed
qed

lemma pm3_Ensure_laws:
  assumes "pm3_Ensure BITS s n m = (b, m')"
  shows "pm3_get BITS m' j = pm3_get BITS m j"
    and "pm3_ensured BITS m j \<Longrightarrow> pm3_ensured BITS m' j"
    and "b \<Longrightarrow> 2 * INTERIOR_BITS BITS \<le> BITS \<Longrightarrow> s \<le> j \<Longrightarrow> j < s + n \<Longrightarrow> s + n < two64
      \<Longrightarrow> pm3_ensured BITS m' j"
proof -
  have ext: "pm3_extends m m'"
    using assms pm3_ensure_loop_extends[of m BITS s "sub64 (add64 s n) 1"] by (simp add: pm3_Ensure_def)
  show "pm3_get BITS m' j = pm3_get BITS m j" by (rule pm3_extends_get[OF ext])
  show "pm3_ensured BITS m j \<Longrightarrow> pm3_ensured BITS m' j" by (rule pm3_extends_ensured[OF ext])
  show "b \<Longrightarrow> 2 * INTERIOR_BITS BITS \<le> BITS \<Longrightarrow> s \<le> j \<Longrightarrow> j < s + n \<Longrightarrow> s + n < two64
      \<Longrightarrow> pm3_ensured BITS m' j"
    using assms pm3_ensure_loop_ensures[of BITS s "sub64 (add64 s n) 1" m j] last_key[of s n]
    by (auto simp: pm3_Ensure_def)
qed

interpretation pm3: page_map "pm3_get 35" "pm3_set 35" "pm3_ensured 35" "pm3_Ensure 35"
proof (unfold_locales, goal_cases)
  case 1 then show ?case by (rule pm3_get_unensured)
next
  case 2 show ?case by (rule pm3_set_defined)
next
  case 3 then show ?case by (rule pm3_get_set)
next
  case 4 then show ?case by (rule pm3_ensured_set)
next
  case 5 then show ?case by (rule pm3_Ensure_laws(1))
next
  case 6 then show ?case by (rule pm3_Ensure_laws(2))
next
  case (7 s n m m' j)
  then show ?case using pm3_Ensure_laws(3)[OF 7(1) _ _ 7(2,3,4)] by (simp add: INTERIOR_BITS_def)
qed

lemma pm3_Next_first: "first_at (pm3_get BITS m) k (pm3_Next BITS m k)"
proof (induction BITS m k rule: pm3_Next.induct)
  case (1 BITS m k)
  let ?L = "pm3_LEAF_BITS BITS" and ?I = "INTERIOR_BITS BITS"
  let ?f = "pm3_get BITS m"
  show ?case
  proof (cases "k < 2 ^ BITS")
    case False
    then show ?thesis by (simp add: pm3_Next.simps[of BITS m k] first_at_def pm3_get_def)
  next
    case True
    show ?thesis
    proof (cases "root3 m (ix1 BITS k)")
      case None
      have same: "ix1 BITS i = ix1 BITS k" if "k \<le> i" "i < next_key (?L + ?I) k" for i
        using next_key_same_block[OF that] by (simp add: ix1_def)
      have "first_at ?f k (pm3_Next BITS m (next_key (?L + ?I) k))"
      proof (rule first_at_none_block[where b = "?L + ?I", OF _ "1.IH"(1)[OF True None]])
        fix i assume "k \<le> i" "i < next_key (?L + ?I) k"
        then have "ix1 BITS i = ix1 BITS k" by (rule same)
        then show "?f i = None" using None by (simp add: pm3_get_def)
      qed
      then show ?thesis using None True by (simp add: pm3_Next.simps[of BITS m k])
    next
      case (Some node)
      have same: "ix1 BITS i = ix1 BITS k \<and> ix2 BITS i = ix2 BITS k" if "i div 2 ^ ?L = k div 2 ^ ?L" for i
        using that ix12_block by simp
      show ?thesis
      proof (cases "node (ix2 BITS k)")
        case None
        have "first_at ?f k (pm3_Next BITS m (next_key ?L k))"
        proof (rule first_at_none_block[where b = ?L, OF _ "1.IH"(2)[OF True Some refl]])
          fix i assume "k \<le> i" "i < next_key ?L k"
          then have "ix1 BITS i = ix1 BITS k \<and> ix2 BITS i = ix2 BITS k"
            by (intro same next_key_same_block)
          then show "?f i = None" using None Some by (simp add: pm3_get_def)
        qed (simp add: None)
        then show ?thesis using None Some True by (simp add: pm3_Next.simps[of BITS m k])
      next
        case leaf: (Some leaf)
        have "first_at ?f k (case leaf_scan leaf (k mod 2 ^ ?L) (2 ^ ?L) of Some v \<Rightarrow> Some v
          | None \<Rightarrow> pm3_Next BITS m (next_key ?L k))"
        proof (rule first_at_block)
          fix i :: nat assume i: "i < 2 ^ ?L"
          then have d: "(k div 2 ^ ?L * 2 ^ ?L + i) div 2 ^ ?L = k div 2 ^ ?L"
            "(k div 2 ^ ?L * 2 ^ ?L + i) mod 2 ^ ?L = i" by simp_all
          have "k div 2 ^ ?L * 2 ^ ?L + i < 2 ^ BITS"
          proof -
            have L: "?L \<le> BITS" by (simp add: pm3_LEAF_BITS_def)
            then have e: "(2::nat) ^ BITS = 2 ^ (BITS - ?L) * 2 ^ ?L" by (simp flip: power_add)
            have "k div 2 ^ ?L < 2 ^ (BITS - ?L)"
              using True unfolding e by (rule less_mult_imp_div_less)
            then have "(k div 2 ^ ?L + 1) * 2 ^ ?L \<le> 2 ^ (BITS - ?L) * 2 ^ ?L"
              by (intro mult_le_mono1) simp
            with i e show ?thesis by simp
          qed
          with d leaf Some same[OF d(1)] show "?f (k div 2 ^ ?L * 2 ^ ?L + i) = leaf i"
            by (simp add: pm3_get_def ix3_def)
        next
          assume "leaf_scan leaf (k mod 2 ^ ?L) (2 ^ ?L) = None"
          then show "first_at ?f (next_key ?L k) (pm3_Next BITS m (next_key ?L k))"
            using "1.IH"(2)[OF True Some refl] leaf by (simp add: ix3_def)
        qed
        then show ?thesis using leaf Some True
          by (simp add: pm3_Next.simps[of BITS m k] Let_def ix3_def)
      qed
    qed
  qed
qed

interpretation pm3n: page_map_next "pm3_get 35" "pm3_set 35" "pm3_ensured 35" "pm3_Next 35"
  by unfold_locales (rule pm3_Next_first)

subsection \<open>Properties\<close>

text \<open>
  C31: the three-level radix tree behaves like a partial map, also when allocation fails half way.
  Whatever \<open>Ensure\<close> returns, it changes no entry and every key that could be set before can be set
  after it; when it returns true, every key of its range can be set.  \<open>set\<close> afterwards is defined
  exactly on the ensured keys and changes the entry of that key only.
\<close>

theorem pagemap3_refines_map:
  fixes m m' :: "'v pagemap3"
  assumes "pm3_Ensure 35 s n m = (ok, m')" and "s + n < two64"
  shows "(\<forall>j. pm3_get 35 m' j = pm3_get 35 m j)
    \<and> (\<forall>j. pm3_ensured 35 m j \<or> ok \<and> s \<le> j \<and> j < s + n \<longrightarrow> pm3_ensured 35 m' j)
    \<and> (\<forall>k. case pm3_set 35 k v m' of
         None \<Rightarrow> \<not> pm3_ensured 35 m' k
       | Some m'' \<Rightarrow> pm3_ensured 35 m' k \<and> (\<forall>j. pm3_ensured 35 m'' j = pm3_ensured 35 m' j)
           \<and> (\<forall>j. pm3_get 35 m'' j = (if j = k then v else pm3_get 35 m j)))"
proof (intro conjI allI)
  show get: "pm3_get 35 m' j = pm3_get 35 m j" for j by (rule pm3.get_ensure[OF assms(1)])
  show "pm3_ensured 35 m j \<or> ok \<and> s \<le> j \<and> j < s + n \<longrightarrow> pm3_ensured 35 m' j" for j
    using pm3.ensured_mono[OF assms(1)] pm3.ensure_ensures[of s n m m' j] assms by auto
  show "case pm3_set 35 k v m' of
         None \<Rightarrow> \<not> pm3_ensured 35 m' k
       | Some m'' \<Rightarrow> pm3_ensured 35 m' k \<and> (\<forall>j. pm3_ensured 35 m'' j = pm3_ensured 35 m' j)
           \<and> (\<forall>j. pm3_get 35 m'' j = (if j = k then v else pm3_get 35 m j))" for k
    using pm3.put_defined[of k v m'] pm3.get_put_ensure[OF assms(1), of k v] pm3_ensured_set[of 35 k v m']
    by (auto split: option.split)
qed

theorem pagemap3_refines_map_witness:
  "(\<exists>m' m''. pm3_Ensure 35 7 2 \<lparr>root3 = (\<lambda>_. None), allocator3 = [True, True]\<rparr> = (True, m')
      \<and> pm3_set 35 8 (Some (5::nat)) m' = Some m'' \<and> pm3_get 35 m'' 8 = Some 5)
   \<and> (\<exists>m'. pm3_Ensure 35 2047 2 \<lparr>root3 = (\<lambda>_. None), allocator3 = [True, True, False]\<rparr> = (False, m')
      \<and> (\<forall>j. pm3_get 35 m' j = (None :: nat option)))"
proof
  let ?m = "\<lparr>root3 = (\<lambda>_. None), allocator3 = [True, True]\<rparr> :: nat pagemap3"
  have "fst (pm3_Ensure 35 7 2 ?m)"
    by (simp add: pm3_Ensure_def pm3_ensure_loop.simps add64_def sub64_def two64_def ix1_def ix2_def
        pm3_LEAF_BITS_def INTERIOR_BITS_def pm3_make_node_def pm3_make_leaf_def take_alloc_def next_key_def)
  then obtain m' where m': "pm3_Ensure 35 7 2 ?m = (True, m')"
    by (metis prod.collapse)
  have t: "(7::nat) + 2 < two64" by (simp add: two64_def)
  note R = pagemap3_refines_map[OF m' t, of "Some 5"]
  have "(7::nat) \<le> 8 \<and> (8::nat) < 7 + 2" by simp
  with R have e: "pm3_ensured 35 m' 8" by blast
  have "\<exists>m''. pm3_set 35 8 (Some 5) m' = Some m'' \<and> pm3_get 35 m'' 8 = Some 5"
    using spec[OF conjunct2[OF conjunct2[OF R]], of 8] e by (cases "pm3_set 35 8 (Some 5) m'") simp_all
  then show "\<exists>m' m''. pm3_Ensure 35 7 2 ?m = (True, m')
      \<and> pm3_set 35 8 (Some (5::nat)) m' = Some m'' \<and> pm3_get 35 m'' 8 = Some 5" using m' by blast
next
  let ?m = "\<lparr>root3 = (\<lambda>_. None), allocator3 = [True, True, False]\<rparr> :: nat pagemap3"
  have "\<not> fst (pm3_Ensure 35 2047 2 ?m)"
    by (simp add: pm3_Ensure_def pm3_ensure_loop.simps add64_def sub64_def two64_def ix1_def ix2_def
        pm3_LEAF_BITS_def INTERIOR_BITS_def pm3_make_node_def pm3_make_leaf_def take_alloc_def next_key_def)
  then obtain m' where m': "pm3_Ensure 35 2047 2 ?m = (False, m')"
    by (metis prod.collapse)
  have t: "(2047::nat) + 2 < two64" by (simp add: two64_def)
  have "pm3_get 35 ?m j = None" for j by (simp add: pm3_get_def)
  then show "\<exists>m'. pm3_Ensure 35 2047 2 ?m = (False, m') \<and> (\<forall>j. pm3_get 35 m' j = (None :: nat option))"
    using pagemap3_refines_map[OF m' t] m' by auto
qed

text \<open>
  C32: \<open>Next\<close> of all three maps returns the first non-null entry at or after the key.  So on maps
  with the same entries the flat array, the two-level and the three-level tree give the same answer,
  whatever nodes the trees have, for every width the two-level tree can split.
\<close>

theorem pagemap_Next_agree:
  assumes "ROOT_BITS \<le> BITS"
    and "\<forall>k. pm2_get BITS m2 k = pm1_get BITS m1 k" and "\<forall>k. pm3_get BITS m3 k = pm1_get BITS m1 k"
  shows "first_at (pm1_get BITS m1) k (pm1_Next BITS m1 k)
    \<and> pm2_Next BITS m2 k = pm1_Next BITS m1 k \<and> pm3_Next BITS m3 k = pm1_Next BITS m1 k"
proof (intro conjI)
  show f1: "first_at (pm1_get BITS m1) k (pm1_Next BITS m1 k)" by (rule pm1_Next_first)
  have "pm2_get BITS m2 = pm1_get BITS m1" using assms(2) by (intro ext) simp
  then have "first_at (pm1_get BITS m1) k (pm2_Next BITS m2 k)" using pm2_Next_first[OF assms(1), of m2 k] by simp
  then show "pm2_Next BITS m2 k = pm1_Next BITS m1 k" using f1 by (rule first_at_unique)
  have "pm3_get BITS m3 = pm1_get BITS m1" using assms(3) by (intro ext) simp
  then have "first_at (pm1_get BITS m1) k (pm3_Next BITS m3 k)" using pm3_Next_first[of BITS m3 k] by simp
  then show "pm3_Next BITS m3 k = pm1_Next BITS m1 k" using f1 by (rule first_at_unique)
qed

theorem pagemap_Next_agree_witness:
  "\<exists>(m1 :: nat pagemap1) (m2 :: nat pagemap2) (m3 :: nat pagemap3). pm1_Next 19 m1 3 = Some 7 \<and> pm2_Next 19 m2 3 = Some 7 \<and> pm3_Next 19 m3 3 = Some 7
     \<and> pm1_Next 19 m1 6 = None \<and> pm2_Next 19 m2 6 = None \<and> pm3_Next 19 m3 6 = None"
proof -
  let ?l = "(\<lambda>_. None)(5 := Some (7 :: nat))"
  let ?m1 = "\<lparr>array1 = ?l\<rparr>" and ?m2 = "\<lparr>root2 = [0 \<mapsto> ?l], allocator2 = []\<rparr>"
    and ?m3 = "\<lparr>root3 = [0 \<mapsto> [0 \<mapsto> ?l]], allocator3 = []\<rparr>"
  have g1: "pm1_get 19 ?m1 k = (if k = 5 then Some 7 else None)" for k
    by (simp add: pm1_get_def)
  have g2: "\<forall>k. pm2_get 19 ?m2 k = pm1_get 19 ?m1 k"
    unfolding g1 by (auto simp: pm2_get_def pm2_LEAF_BITS_def Let_def div_eq_0_iff)
  have g3: "\<forall>k. pm3_get 19 ?m3 k = pm1_get 19 ?m1 k"
  proof
    fix k :: nat
    have "k = 5" if "ix1 19 k = 0" "ix2 19 k = 0" "ix3 19 k = 5"
    proof -
      have k: "k div 4096 = 0" "k div 32 mod 128 = 0" "k mod 32 = 5"
        using that by (simp_all add: ix1_def ix2_def ix3_def pm3_LEAF_BITS_def INTERIOR_BITS_def)
      then have "k div 32 < 128" by linarith
      then have "k div 32 = 0" using k(2) by simp
      then show ?thesis using k(3) by (metis add_0 div_mult_mod_eq mult_0)
    qed
    moreover have "ix1 19 5 = 0 \<and> ix2 19 5 = 0 \<and> ix3 19 5 = 5"
      by (simp add: ix1_def ix2_def ix3_def pm3_LEAF_BITS_def INTERIOR_BITS_def)
    ultimately show "pm3_get 19 ?m3 k = pm1_get 19 ?m1 k" unfolding g1 by (auto simp: pm3_get_def)
  qed
  have r: "ROOT_BITS \<le> 19" by simp
  note A = pagemap_Next_agree[OF r g2 g3]
  have "pm1_Next 19 ?m1 3 = Some 7"
    using A[of 3] unfolding first_at_def g1 by (auto split: option.splits if_splits)
  moreover have "pm1_Next 19 ?m1 6 = None"
    using A[of 6] unfolding first_at_def g1 by (auto split: option.splits if_splits)
  ultimately show ?thesis using A[of 3] A[of 6] by (intro exI[of _ ?m1] exI[of _ ?m2] exI[of _ ?m3]) simp
qed

text \<open>
  The overflow check of the flat map's \<open>Ensure\<close> is exact for every start inside the array, but
  its subtraction wraps around for a start behind the array: there it accepts ranges whose keys
  \<open>set\<close> would write out of bounds.
\<close>

theorem pagemap1_Ensure_exact_inside_only:
  assumes "BITS < 64"
  shows "(\<forall>x n. x \<le> 2 ^ BITS \<longrightarrow> pm1_Ensure BITS x n = (x + n \<le> 2 ^ BITS))
    \<and> pm1_Ensure BITS (2 ^ BITS + 1) 1 \<and> pm1_set BITS (2 ^ BITS + 1) v m = None"
proof -
  have lt: "(2::nat) ^ BITS < two64"
    unfolding two64_def using assms by (intro power_strict_increasing) auto
  have "pm1_Ensure BITS x n = (x + n \<le> 2 ^ BITS)" if "x \<le> 2 ^ BITS" for x n
    using sub64_exact[OF that lt] that by (auto simp: pm1_Ensure_def)
  moreover have "1 \<le> sub64 (2 ^ BITS) (2 ^ BITS + 1)"
  proof -
    have b: "(2::nat) ^ BITS + 1 \<le> two64" using lt by simp
    show ?thesis
    proof (cases "(2::nat) ^ BITS + 1 = two64")
      case True
      then show ?thesis using lt by (simp add: sub64_def)
    next
      case False
      then have "((2::nat) ^ BITS + 1) mod two64 = 2 ^ BITS + 1"
        using b by (intro mod_less) linarith
      then have "(2::nat) ^ BITS + (two64 - (2 ^ BITS + 1) mod two64) = two64 - 1"
        using b by linarith
      then have "sub64 (2 ^ BITS) (2 ^ BITS + 1) = (two64 - 1) mod two64"
        unfolding sub64_def by (rule arg_cong)
      then show ?thesis by (simp add: two64_def)
    qed
  qed
  ultimately show ?thesis by (simp add: pm1_Ensure_def pm1_set_def)
qed

theorem pagemap1_Ensure_exact_inside_only_witness:
  "(20::nat) < 64 \<and> pm1_Ensure 20 1048577 1 \<and> pm1_set 20 1048577 (Some (1::nat)) pm1_new = None"
  using pagemap1_Ensure_exact_inside_only[of 20 "Some (1::nat)" pm1_new] by simp

end
