(* ===== verification/PackedCache.thy ===== *)
theory PackedCache
  imports SizeMap
begin

unbundle bit_operations_syntax

text \<open>
  The direct-mapped cache of \<open>packed-cache-inl.h\<close>.  The template parameters \<open>kKeybits\<close> and the
  width of the entry type \<open>T\<close> in bits (\<open>kTbits\<close>) are arguments; the entries are natural numbers
  below \<open>2 ^ kTbits\<close>, with the casts to \<open>T\<close> written as \<open>take_bit kTbits\<close>.  A failed \<open>ASSERT\<close> is
  \<open>None\<close>.
\<close>

subsection \<open>Constants\<close>

definition kHashbits :: nat where "kHashbits = 16"
definition kValuebits :: nat where "kValuebits = 7"

text \<open>The macro \<open>N_ONES_\<close>.\<close>

definition N_ONES :: "nat \<Rightarrow> nat" where
  "N_ONES n = (if n = 0 then 0 else 2 ^ (n - 1) - 1 + 2 ^ (n - 1))"

definition kUseWholeKeys :: "nat \<Rightarrow> nat \<Rightarrow> bool" where
  "kUseWholeKeys kKeybits kTbits = (kKeybits + kValuebits \<le> kTbits)"

definition kUpperbits :: "nat \<Rightarrow> nat \<Rightarrow> nat" where
  "kUpperbits kKeybits kTbits =
     (if kUseWholeKeys kKeybits kTbits then kKeybits else kKeybits - kHashbits)"

definition kKeyMask :: "nat \<Rightarrow> nat" where
  "kKeyMask kKeybits = N_ONES kKeybits"

definition kUpperMask :: "nat \<Rightarrow> nat \<Rightarrow> nat" where
  "kUpperMask kKeybits kTbits =
     take_bit kTbits (push_bit kValuebits (N_ONES (kUpperbits kKeybits kTbits)))"

definition kValueMask :: nat where
  "kValueMask = N_ONES kValuebits"

text \<open>The \<open>COMPILE_ASSERT\<close>s of the constructor (\<open>sizeof(K)\<close> is 8).\<close>

definition cache_params :: "nat \<Rightarrow> nat \<Rightarrow> bool" where
  "cache_params kKeybits kTbits \<longleftrightarrow>
     kKeybits \<le> 64 \<and> kValuebits \<le> 64 \<and> kHashbits \<le> kKeybits
     \<and> kKeybits - kHashbits + kValuebits \<le> kTbits"

subsection \<open>Operations\<close>

definition EntryToValue :: "nat \<Rightarrow> nat" where
  "EntryToValue t = t AND kValueMask"

definition KeyToUpper :: "nat \<Rightarrow> nat \<Rightarrow> nat \<Rightarrow> nat" where
  "KeyToUpper kKeybits kTbits k =
     (if kUseWholeKeys kKeybits kTbits
      then take_bit kTbits (push_bit kValuebits (take_bit kTbits k))
      else take_bit kTbits (drop_bit (kHashbits - kValuebits) k) AND kUpperMask kKeybits kTbits)"

definition Hash :: "nat \<Rightarrow> nat" where
  "Hash key = key AND N_ONES kHashbits"

definition KeyMatch :: "nat \<Rightarrow> nat \<Rightarrow> nat \<Rightarrow> nat \<Rightarrow> bool" where
  "KeyMatch kKeybits kTbits entry key =
     (if kUseWholeKeys kKeybits kTbits then drop_bit kValuebits entry = key
      else (KeyToUpper kKeybits kTbits key XOR entry) AND kUpperMask kKeybits kTbits = 0)"

type_synonym packed_cache = "nat \<Rightarrow> nat"

definition Put :: "nat \<Rightarrow> nat \<Rightarrow> nat \<Rightarrow> nat \<Rightarrow> packed_cache \<Rightarrow> packed_cache option" where
  "Put kKeybits kTbits key val c = do {
     check (key = key AND kKeyMask kKeybits);
     check (val = val AND kValueMask);
     Some (c(Hash key := take_bit kTbits (KeyToUpper kKeybits kTbits key OR val))) }"

definition Has :: "nat \<Rightarrow> nat \<Rightarrow> nat \<Rightarrow> packed_cache \<Rightarrow> bool option" where
  "Has kKeybits kTbits key c = do {
     check (key = key AND kKeyMask kKeybits);
     Some (KeyMatch kKeybits kTbits (c (Hash key)) key) }"

definition GetOrDefault :: "nat \<Rightarrow> nat \<Rightarrow> nat \<Rightarrow> nat \<Rightarrow> packed_cache \<Rightarrow> nat option" where
  "GetOrDefault kKeybits kTbits key default_value c = do {
     check (key = key AND kKeyMask kKeybits);
     let entry = c (Hash key);
     Some (if KeyMatch kKeybits kTbits entry key then EntryToValue entry else default_value) }"

text \<open>The loop of \<open>Clear\<close> writes every slot of the array.\<close>

definition Clear :: "nat \<Rightarrow> nat \<Rightarrow> nat \<Rightarrow> packed_cache \<Rightarrow> packed_cache option" where
  "Clear kKeybits kTbits val c = do {
     check (val = val AND kValueMask);
     check (\<forall>i \<in> {..<2 ^ kHashbits}. kUseWholeKeys kKeybits kTbits \<or> KeyToUpper kKeybits kTbits i = 0);
     Some (\<lambda>i. if i < 2 ^ kHashbits
               then take_bit kTbits
                      (if kUseWholeKeys kKeybits kTbits then val OR KeyToUpper kKeybits kTbits i else val)
               else c i) }"

subsection \<open>How an entry is laid out\<close>

lemma N_ONES_mask: "N_ONES n = mask n"
  by (cases n) (simp_all add: N_ONES_def mask_eq_exp_minus_1)

lemma AND_N_ONES: "k AND N_ONES n = take_bit n k"
  by (simp add: N_ONES_mask take_bit_eq_mask)

lemma masked_iff: "k = k AND N_ONES n \<longleftrightarrow> k < 2 ^ n"
  by (metis AND_N_ONES take_bit_nat_eq_self_iff)

lemma less_pow_bit: "(k::nat) < 2 ^ n \<Longrightarrow> bit k i \<Longrightarrow> i < n"
  by (metis bit_take_bit_iff take_bit_nat_eq_self)

text \<open>The part of a key that an entry stores.\<close>

definition stored_part :: "nat \<Rightarrow> nat \<Rightarrow> nat \<Rightarrow> nat" where
  "stored_part kKeybits kTbits k =
     (if kUseWholeKeys kKeybits kTbits then k else drop_bit kHashbits k)"

lemma stored_part_less:
  assumes "cache_params kb tb" "k < 2 ^ kb"
  shows "stored_part kb tb k < 2 ^ kUpperbits kb tb"
proof -
  have "(2::nat) ^ kb = 2 ^ (kb - kHashbits) * 2 ^ kHashbits"
    using assms(1) by (simp add: cache_params_def flip: power_add)
  then show ?thesis
    using assms(2)
    by (auto simp: stored_part_def kUpperbits_def drop_bit_eq_div intro!: less_mult_imp_div_less)
qed

lemma upper_fits: "cache_params kb tb \<Longrightarrow> kUpperbits kb tb + kValuebits \<le> tb"
  by (auto simp: cache_params_def kUpperbits_def kUseWholeKeys_def)

lemma KeyToUpper_eq:
  assumes "cache_params kb tb" "k < 2 ^ kb"
  shows "KeyToUpper kb tb k = push_bit kValuebits (stored_part kb tb k)"
proof (rule bit_eqI)
  fix n
  show "bit (KeyToUpper kb tb k) n = bit (push_bit kValuebits (stored_part kb tb k)) n"
    using assms less_pow_bit[OF assms(2), of "n - kValuebits"] less_pow_bit[OF assms(2), of "n + kHashbits - kValuebits"]
    by (auto simp: KeyToUpper_def stored_part_def kUpperMask_def N_ONES_mask bit_simps kUseWholeKeys_def
        kUpperbits_def cache_params_def kHashbits_def kValuebits_def ac_simps)
qed

definition entry_of :: "nat \<Rightarrow> nat \<Rightarrow> nat \<Rightarrow> nat" where
  "entry_of kTbits u v = take_bit kTbits (push_bit kValuebits u OR v)"

lemma entry_of_parts:
  assumes "cache_params kb tb" "u < 2 ^ kUpperbits kb tb" "v < 2 ^ kValuebits"
  shows "drop_bit kValuebits (entry_of tb u v) = u" "take_bit kValuebits (entry_of tb u v) = v"
proof -
  show "drop_bit kValuebits (entry_of tb u v) = u"
  proof (rule bit_eqI)
    fix n
    show "bit (drop_bit kValuebits (entry_of tb u v)) n = bit u n"
      using less_pow_bit[OF assms(2), of n] less_pow_bit[OF assms(3), of "kValuebits + n"] upper_fits[OF assms(1)]
      by (auto simp: entry_of_def bit_simps)
  qed
  show "take_bit kValuebits (entry_of tb u v) = v"
  proof (rule bit_eqI)
    fix n
    show "bit (take_bit kValuebits (entry_of tb u v)) n = bit v n"
      using less_pow_bit[OF assms(3), of n] upper_fits[OF assms(1)]
      by (auto simp: entry_of_def bit_simps)
  qed
qed

lemma KeyMatch_entry:
  assumes "cache_params kb tb" "u < 2 ^ kUpperbits kb tb" "v < 2 ^ kValuebits" "k < 2 ^ kb"
  shows "KeyMatch kb tb (entry_of tb u v) k \<longleftrightarrow> stored_part kb tb k = u"
proof (cases "kUseWholeKeys kb tb")
  case True
  then show ?thesis
    using entry_of_parts(1)[OF assms(1-3)] by (auto simp: KeyMatch_def stored_part_def)
next
  case False
  let ?s = "stored_part kb tb k" and ?U = "kUpperbits kb tb"
  have s: "?s < 2 ^ ?U" by (rule stored_part_less[OF assms(1,4)])
  have bits: "bit ((push_bit kValuebits ?s XOR entry_of tb u v) AND kUpperMask kb tb) n
      \<longleftrightarrow> kValuebits \<le> n \<and> n < kValuebits + ?U \<and> bit ?s (n - kValuebits) \<noteq> bit u (n - kValuebits)" for n
    using upper_fits[OF assms(1)] less_pow_bit[OF assms(3), of n]
    by (auto simp: kUpperMask_def N_ONES_mask entry_of_def bit_simps)
  have "(push_bit kValuebits ?s XOR entry_of tb u v) AND kUpperMask kb tb = 0 \<longleftrightarrow> ?s = u"
  proof
    assume z: "(push_bit kValuebits ?s XOR entry_of tb u v) AND kUpperMask kb tb = 0"
    show "?s = u"
    proof (rule bit_eqI)
      fix n
      show "bit ?s n = bit u n"
        using bits[of "n + kValuebits"] z less_pow_bit[OF s, of n] less_pow_bit[OF assms(2), of n]
        unfolding z by (cases "n < ?U") (simp, blast)
    qed
  next
    assume su: "?s = u"
    have "\<not> bit ((push_bit kValuebits ?s XOR entry_of tb u v) AND kUpperMask kb tb) n" for n
      unfolding bits using su by simp
    then have "\<forall>n. bit ((push_bit kValuebits ?s XOR entry_of tb u v) AND kUpperMask kb tb) n = bit 0 n"
      by (metis bit_0_eq bot_apply bot_bool_def)
    then show "(push_bit kValuebits ?s XOR entry_of tb u v) AND kUpperMask kb tb = 0"
      using bit_eqI by blast
  qed
  then show ?thesis using False KeyToUpper_eq[OF assms(1,4)] by (simp add: KeyMatch_def)
qed

lemma Hash_eq: "Hash k = take_bit kHashbits k"
  by (simp add: Hash_def AND_N_ONES)

lemma Hash_stored_inject:
  assumes "Hash k = Hash j" "stored_part kb tb k = stored_part kb tb j"
  shows "k = j"
proof (cases "kUseWholeKeys kb tb")
  case True
  then show ?thesis using assms(2) by (simp add: stored_part_def)
next
  case False
  then have "drop_bit kHashbits k = drop_bit kHashbits j"
    using assms(2) by (simp add: stored_part_def)
  moreover have "take_bit kHashbits k = take_bit kHashbits j"
    using assms(1) by (simp add: Hash_eq)
  ultimately show ?thesis by (metis bits_ident)
qed

lemma hash_index_less:
  assumes "cache_params kb tb" "i < (2::nat) ^ kHashbits"
  shows "i < 2 ^ kb"
  by (rule order_less_le_trans[OF assms(2)], rule power_increasing)
    (use assms(1) in \<open>simp_all add: cache_params_def\<close>)

subsection \<open>The cache as a partial map\<close>

text \<open>The pairs that the cache holds: \<open>Has\<close> and the value that \<open>GetOrDefault\<close> then returns.\<close>

definition cache_map :: "nat \<Rightarrow> nat \<Rightarrow> packed_cache \<Rightarrow> nat \<Rightarrow> nat option" where
  "cache_map kb tb c k = (if Has kb tb k c = Some True then GetOrDefault kb tb k 0 c else None)"

lemma cache_map_at:
  assumes "cache_params kb tb" "k < 2 ^ kb" "c (Hash k) = entry_of tb u v"
    and "u < 2 ^ kUpperbits kb tb" "v < 2 ^ kValuebits"
  shows "cache_map kb tb c k = (if stored_part kb tb k = u then Some v else None)"
proof -
  have k: "(k = k AND kKeyMask kb) = True" using assms(2) by (simp add: kKeyMask_def masked_iff)
  have e: "EntryToValue (entry_of tb u v) = v"
    using entry_of_parts(2)[OF assms(1,4,5)] by (simp add: EntryToValue_def kValueMask_def AND_N_ONES)
  show ?thesis
    using KeyMatch_entry[OF assms(1,4,5,2)] assms(3)
    by (simp only: cache_map_def Has_def GetOrDefault_def k e Let_def check_simps check_bind if_True
        bind.bind_lunit) (simp add: e)
qed

lemma GetOrDefault_cache_map:
  assumes "k < 2 ^ kb"
  shows "GetOrDefault kb tb k d c = Some (case cache_map kb tb c k of None \<Rightarrow> d | Some v \<Rightarrow> v)"
  using assms by (simp add: cache_map_def Has_def GetOrDefault_def kKeyMask_def masked_iff Let_def)

lemma Has_cache_map:
  assumes "k < 2 ^ kb"
  shows "Has kb tb k c = Some (cache_map kb tb c k \<noteq> None)"
  using assms by (simp add: cache_map_def Has_def GetOrDefault_def kKeyMask_def masked_iff Let_def)

lemma Put_defined:
  "(\<exists>c'. Put kb tb k v c = Some c') \<longleftrightarrow> k < 2 ^ kb \<and> v < 2 ^ kValuebits"
  by (auto simp: Put_def kKeyMask_def kValueMask_def masked_iff)

lemma Put_entry:
  assumes "cache_params kb tb" "Put kb tb k v c = Some c'"
  shows "c' = c(Hash k := entry_of tb (stored_part kb tb k) v)" "k < 2 ^ kb" "v < 2 ^ kValuebits"
proof -
  show kv: "k < 2 ^ kb" "v < 2 ^ kValuebits" using assms(2) Put_defined by blast+
  show "c' = c(Hash k := entry_of tb (stored_part kb tb k) v)"
    using assms(2) KeyToUpper_eq[OF assms(1) kv(1)]
    by (auto simp: Put_def entry_of_def split: if_splits)
qed

lemma cache_map_Put:
  assumes "cache_params kb tb" "Put kb tb k v c = Some c'" "j < 2 ^ kb"
  shows "cache_map kb tb c' j =
    (if j = k then Some v else if Hash j = Hash k then None else cache_map kb tb c j)"
proof (cases "Hash j = Hash k")
  case True
  note P = Put_entry[OF assms(1,2)]
  have "cache_map kb tb c' j = (if stored_part kb tb j = stored_part kb tb k then Some v else None)"
    using P(1) True by (intro cache_map_at[OF assms(1,3) _ stored_part_less[OF assms(1) P(2)] P(3)]) simp
  then show ?thesis using True Hash_stored_inject[of j k kb tb] by auto
next
  case False
  then show ?thesis using Put_entry(1)[OF assms(1,2)]
    by (auto simp: cache_map_def Has_def GetOrDefault_def)
qed

lemma Clear_entry:
  assumes "cache_params kb tb" "Clear kb tb v c = Some c'" "i < 2 ^ kHashbits"
  shows "c' i = entry_of tb (stored_part kb tb i) v" "v < 2 ^ kValuebits"
proof -
  have i: "i < 2 ^ kb"
    by (rule hash_index_less[OF assms(1,3)])
  show v: "v < 2 ^ kValuebits" using assms(2) by (auto simp: Clear_def kValueMask_def masked_iff split: if_splits)
  have "drop_bit kHashbits i = 0" using assms(3) by (simp add: drop_bit_eq_div)
  then show "c' i = entry_of tb (stored_part kb tb i) v"
    using assms(2,3) KeyToUpper_eq[OF assms(1) i]
    by (auto simp: Clear_def entry_of_def stored_part_def or.commute split: if_splits)
qed

lemma cache_map_Clear:
  assumes "cache_params kb tb" "Clear kb tb v c = Some c'" "j < 2 ^ kb"
  shows "cache_map kb tb c' j = (if j < 2 ^ kHashbits then Some v else None)"
proof -
  have h: "Hash j < 2 ^ kHashbits" by (simp add: Hash_eq)
  have hb: "Hash j < 2 ^ kb"
    by (rule hash_index_less[OF assms(1) h])
  have "cache_map kb tb c' j = (if stored_part kb tb j = stored_part kb tb (Hash j) then Some v else None)"
    using Clear_entry[OF assms(1,2) h] stored_part_less[OF assms(1) hb]
    by (intro cache_map_at[OF assms(1,3)]) auto
  moreover have "stored_part kb tb j = stored_part kb tb (Hash j) \<longleftrightarrow> j = Hash j"
    using Hash_stored_inject[of j "Hash j" kb tb] by (auto simp: Hash_eq)
  moreover have "j = Hash j \<longleftrightarrow> j < 2 ^ kHashbits"
    by (metis Hash_eq take_bit_nat_eq_self_iff)
  ultimately show ?thesis by simp
qed

lemma Clear_defined:
  assumes "cache_params kb tb" "v < 2 ^ kValuebits"
  shows "\<exists>c'. Clear kb tb v c = Some c'"
proof -
  have "KeyToUpper kb tb i = 0" if "i < 2 ^ kHashbits" "\<not> kUseWholeKeys kb tb" for i
  proof -
    have "i < 2 ^ kb"
      by (rule hash_index_less[OF assms(1) that(1)])
    then show ?thesis using that KeyToUpper_eq[OF assms(1), of i]
      by (simp add: stored_part_def drop_bit_eq_div)
  qed
  then show ?thesis using assms(2) by (auto simp: Clear_def kValueMask_def masked_iff)
qed

subsection \<open>Sequences of \<open>Put\<close>s against a lossy map\<close>

text \<open>
  What a client relies on: a \<open>put\<close> stores its pair, may drop other pairs of its slot, and changes
  nothing else.  \<open>look\<close> is the content of the cache.
\<close>

locale lossy_map =
  fixes key_ok :: "nat \<Rightarrow> bool" and slot :: "nat \<Rightarrow> nat"
    and put :: "nat \<Rightarrow> nat \<Rightarrow> 'c \<Rightarrow> 'c option"
    and look :: "'c \<Rightarrow> nat \<Rightarrow> nat option"
  assumes look_put: "put k v c = Some c' \<Longrightarrow> key_ok j \<Longrightarrow>
      look c' j = (if j = k then Some v else if slot j = slot k then None else look c j)"

primrec cache_puts :: "(nat \<Rightarrow> nat \<Rightarrow> 'c \<Rightarrow> 'c option) \<Rightarrow> (nat \<times> nat) list \<Rightarrow> 'c \<Rightarrow> 'c option" where
  "cache_puts put [] c = Some c"
| "cache_puts put (kv # kvs) c = put (fst kv) (snd kv) c \<bind> cache_puts put kvs"

text \<open>The last pair of a sequence that went to the slot of a key.\<close>

definition last_in_slot :: "(nat \<Rightarrow> nat) \<Rightarrow> nat \<Rightarrow> (nat \<times> nat) list \<Rightarrow> (nat \<times> nat) option" where
  "last_in_slot slot k kvs = List.find (\<lambda>kv. slot (fst kv) = slot k) (rev kvs)"

lemma find_append: "List.find P (xs @ ys) = (case List.find P xs of None \<Rightarrow> List.find P ys | Some x \<Rightarrow> Some x)"
  by (induction xs) auto

lemma last_in_slot_simps:
  "last_in_slot slot k [] = None"
  "last_in_slot slot k (kv # kvs) = (case last_in_slot slot k kvs of
      None \<Rightarrow> if slot (fst kv) = slot k then Some kv else None | Some x \<Rightarrow> Some x)"
  by (simp_all add: last_in_slot_def find_append split: option.split)

context lossy_map
begin

lemma look_puts:
  assumes "cache_puts put kvs c = Some c'" "key_ok k"
  shows "look c' k = (case last_in_slot slot k kvs of
           None \<Rightarrow> look c k | Some kv \<Rightarrow> if fst kv = k then Some (snd kv) else None)"
  using assms(1)
proof (induction kvs arbitrary: c)
  case Nil
  then show ?case by (simp add: last_in_slot_simps)
next
  case (Cons kv kvs)
  then obtain c1 where c1: "put (fst kv) (snd kv) c = Some c1" "cache_puts put kvs c1 = Some c'"
    by auto
  show ?case
    using Cons.IH[OF c1(2)] look_put[OF c1(1) assms(2)]
    by (auto simp: last_in_slot_simps split: option.splits)
qed

text \<open>If every pair put is true of \<open>f\<close>, then so is every pair found.\<close>

lemma puts_sound:
  assumes "cache_puts put kvs c = Some c'" "key_ok k"
    and "\<And>v. look c k = Some v \<Longrightarrow> v = f k" "\<forall>kv \<in> set kvs. snd kv = f (fst kv)"
    and "look c' k = Some v"
  shows "v = f k"
proof -
  have "kv \<in> set kvs" if "last_in_slot slot k kvs = Some kv" for kv
    using that unfolding last_in_slot_def find_Some_iff by (metis nth_mem set_rev)
  then show ?thesis
    using assms look_puts[OF assms(1,2)] by (fastforce split: option.splits if_splits)
qed

end

lemma Put_total:
  "k < 2 ^ kb \<Longrightarrow> v < 2 ^ kValuebits \<Longrightarrow> \<exists>c'. Put kb tb k v c = Some c'"
  by (simp add: Put_defined)

lemma cache_puts_total:
  "\<forall>kv \<in> set kvs. fst kv < 2 ^ kb \<and> snd kv < 2 ^ kValuebits \<Longrightarrow>
   \<exists>c'. cache_puts (Put kb tb) kvs c = Some c'"
proof (induction kvs arbitrary: c)
  case (Cons kv kvs)
  then obtain c1 where "Put kb tb (fst kv) (snd kv) c = Some c1" using Put_total[of "fst kv" kb "snd kv" tb c] by auto
  then show ?case using Cons by auto
qed simp

lemma cache_params_inst [simp]: "cache_params 35 64" "cache_params 19 16"
  by (simp_all add: cache_params_def kHashbits_def kValuebits_def)

text \<open>The cache of the 48-bit build and the cache of the 32-bit build.\<close>

interpretation cache64: lossy_map "\<lambda>k. k < 2 ^ 35" Hash "Put 35 64" "cache_map 35 64"
  by unfold_locales (rule cache_map_Put[OF cache_params_inst(1)])

interpretation cache32: lossy_map "\<lambda>k. k < 2 ^ 19" Hash "Put 19 16" "cache_map 19 16"
  by unfold_locales (rule cache_map_Put[OF cache_params_inst(2)])

lemma lossy_map_cache: "cache_params kb tb \<Longrightarrow> lossy_map (\<lambda>k. k < 2 ^ kb) Hash (Put kb tb) (cache_map kb tb)"
  by unfold_locales (rule cache_map_Put)

text \<open>
  C33: what a cache answers after \<open>Clear\<close> and any sequence of \<open>Put\<close>s, for every legal choice of the
  template parameters.  None of these calls fails an assertion when keys and values are in range.
  If some \<open>Put\<close> used the slot of the key, the last such \<open>Put\<close> decides: the value it stored if it
  was for this key, the caller's default otherwise.  With no such \<open>Put\<close>, the first
  \<open>2 ^ kHashbits\<close> keys still hold the initial value and every other key is absent.
\<close>

theorem PackedCache_answers:
  assumes "cache_params kb tb" "v < 2 ^ kValuebits" "k < 2 ^ kb"
    and "\<forall>kv \<in> set kvs. fst kv < 2 ^ kb \<and> snd kv < 2 ^ kValuebits"
  shows "\<exists>c0 c1. Clear kb tb v c = Some c0 \<and> cache_puts (Put kb tb) kvs c0 = Some c1
    \<and> GetOrDefault kb tb k d c1 = Some (case last_in_slot Hash k kvs of
         None \<Rightarrow> if k < 2 ^ kHashbits then v else d
       | Some kv \<Rightarrow> if fst kv = k then snd kv else d)"
proof -
  obtain c0 where c0: "Clear kb tb v c = Some c0" using Clear_defined[OF assms(1,2)] by blast
  obtain c1 where c1: "cache_puts (Put kb tb) kvs c0 = Some c1" using cache_puts_total[OF assms(4)] by blast
  show ?thesis
    using c0 c1 GetOrDefault_cache_map[OF assms(3)] cache_map_Clear[OF assms(1) c0 assms(3)]
      lossy_map.look_puts[OF lossy_map_cache[OF assms(1)] c1 assms(3)]
    by (auto split: option.splits)
qed

theorem PackedCache_answers_witness:
  "\<exists>c0 c1. Clear 19 16 0 (\<lambda>_. 0) = Some c0
     \<and> cache_puts (Put 19 16) [(65541, 3), (7, 9), (5, 4), (65541, 6)] c0 = Some c1
     \<and> GetOrDefault 19 16 65541 1 c1 = Some 6"
proof -
  let ?kvs = "[(65541, 3), (7, 9), (5, 4), (65541, 6)] :: (nat \<times> nat) list"
  have l: "last_in_slot Hash 65541 ?kvs = Some (65541, 6)"
    by (simp add: last_in_slot_simps)
  have r: "0 < (2::nat) ^ kValuebits" "65541 < (2::nat) ^ 19"
    "\<forall>kv \<in> set ?kvs. fst kv < 2 ^ 19 \<and> snd kv < 2 ^ kValuebits"
    by (simp_all add: kValuebits_def)
  show ?thesis
    using PackedCache_answers[OF cache_params_inst(2) r, of "\<lambda>_. 0" 1]
    unfolding l option.case fst_conv snd_conv by (simp only: simp_thms if_True)
qed

text \<open>
  A \<open>Put\<close> of one key can change what the cache holds for another key only by evicting it: for
  every other key the content is unchanged or the key is gone, and it is gone only when the two
  keys share a slot.
\<close>

theorem PackedCache_Put_only_evicts:
  assumes "cache_params kb tb" "Put kb tb k v c = Some c'" "j < 2 ^ kb" "j \<noteq> k"
  shows "(Has kb tb j c' = Some False \<and> Hash j = Hash k)
       \<or> (Has kb tb j c' = Has kb tb j c \<and> GetOrDefault kb tb j d c' = GetOrDefault kb tb j d c)"
proof (cases "Hash j = Hash k")
  case True
  then have "cache_map kb tb c' j = None" using cache_map_Put[OF assms(1-3)] assms(4) by simp
  then show ?thesis using True Has_cache_map[OF assms(3)] by simp
next
  case False
  then show ?thesis using Put_entry(1)[OF assms(1,2)] by (simp add: Has_def GetOrDefault_def)
qed

theorem PackedCache_Put_only_evicts_witness:
  "\<exists>c'. Put 35 64 65541 3 (\<lambda>_. 0) = Some c' \<and>
    ((Has 35 64 5 c' = Some False \<and> Hash 5 = Hash 65541)
     \<or> (Has 35 64 5 c' = Has 35 64 5 (\<lambda>_. 0) \<and> GetOrDefault 35 64 5 1 c' = GetOrDefault 35 64 5 1 (\<lambda>_. 0)))"
proof -
  obtain c' where c': "Put 35 64 65541 3 (\<lambda>_. 0) = Some c'"
    using Put_total[of 65541 35 3 64 "\<lambda>_. 0"] by (auto simp: kValuebits_def)
  then show ?thesis using PackedCache_Put_only_evicts[OF cache_params_inst(1) c', of 5 1] by auto
qed

end
