(* ===== verification/PageHeapAllocator.thy ===== *)
theory PageHeapAllocator
  imports PackedCache
begin

text \<open>
  The metadata allocator of \<open>page_heap_allocator.h\<close>: objects of one size carved from chunks of
  \<open>kAllocIncrement\<close> bytes, with a free list threaded through the first word of every freed object.
  Addresses are natural numbers and 0 is \<open>NULL\<close>.  The memory of a live object belongs to the
  client, so only the first words of freed objects are kept here (\<open>link\<close>).  The chunks that
  \<open>MetaDataAlloc\<close> will return are a list (\<open>None\<close>, or the end of the list, is \<open>NULL\<close>).
\<close>

section \<open>Model\<close>

definition kAllocIncrement :: nat where [simp]: "kAllocIncrement = 131072"

record allocator =
  free_area :: nat
  free_avail :: nat
  free_list :: nat
  inuse :: int
  link :: "nat \<Rightarrow> nat"
  chunks :: "nat option list"

text \<open>\<open>MetaDataAlloc(kAllocIncrement)\<close>.\<close>

definition next_chunk :: "allocator \<Rightarrow> nat option \<times> allocator" where
  "next_chunk a = (case chunks a of [] \<Rightarrow> (None, a) | c # cs \<Rightarrow> (c, a\<lparr>chunks := cs\<rparr>))"

text \<open>\<open>New\<close> for objects of \<open>sz\<close> bytes; running out of memory is \<open>Log(kCrash, ...)\<close>.\<close>

definition pha_New :: "nat \<Rightarrow> allocator \<Rightarrow> (nat \<times> allocator) option" where
  "pha_New sz a =
     (if free_list a \<noteq> 0
      then let result = free_list a in
           Some (result, a\<lparr>free_list := link a result, inuse := inuse a + 1\<rparr>)
      else do {
        a \<leftarrow> (if free_avail a < sz
             then (case next_chunk a of
                     (None, a) \<Rightarrow> None
                   | (Some c, a) \<Rightarrow> Some (a\<lparr>free_area := c, free_avail := kAllocIncrement\<rparr>))
             else Some a);
        let result = free_area a;
        Some (result, a\<lparr>free_area := free_area a + sz, free_avail := free_avail a - sz,
                        inuse := inuse a + 1\<rparr>) })"

definition pha_Delete :: "nat \<Rightarrow> allocator \<Rightarrow> allocator" where
  "pha_Delete p a = a\<lparr>link := (link a)(p := free_list a), free_list := p, inuse := inuse a - 1\<rparr>"

definition pha_Init :: "nat \<Rightarrow> allocator \<Rightarrow> allocator option" where
  "pha_Init sz a = do {
     check (sz \<le> kAllocIncrement);
     (p, a) \<leftarrow> pha_New sz (a\<lparr>inuse := 0, free_area := 0, free_avail := 0, free_list := 0\<rparr>);
     Some (pha_Delete p a) }"

section \<open>Invariant\<close>

text \<open>The free list: the links of the freed objects lead through \<open>fl\<close> to \<open>NULL\<close>.\<close>

fun chain :: "(nat \<Rightarrow> nat) \<Rightarrow> nat \<Rightarrow> nat list \<Rightarrow> bool" where
  "chain f p [] = (p = 0)"
| "chain f p (x # xs) = (p = x \<and> x \<noteq> 0 \<and> chain f (f x) xs)"

lemma chain_cong: "(\<And>x. x \<in> set xs \<Longrightarrow> f x = g x) \<Longrightarrow> chain f p xs = chain g p xs"
  by (induction xs arbitrary: p) auto

definition apart :: "nat \<Rightarrow> nat \<Rightarrow> nat \<Rightarrow> nat \<Rightarrow> bool" where
  "apart x m y n \<longleftrightarrow> x + m \<le> y \<or> y + n \<le> x"

lemma apart_commute: "apart x m y n \<longleftrightarrow> apart y n x m"
  by (auto simp: apart_def)

lemma apart_part:
  assumes "apart x m y n" "k \<le> n"
  shows "apart x m y k" "apart x m (y + k) (n - k)"
  using assms by (auto simp: apart_def)

text \<open>
  \<open>carved sz U a\<close>: the objects \<open>U\<close> carved so far do not overlap one another, the area still to be
  carved, or a chunk to come.
\<close>

definition carved :: "nat \<Rightarrow> nat set \<Rightarrow> allocator \<Rightarrow> bool" where
  "carved sz U a \<longleftrightarrow> finite U \<and> 0 < sz \<and> sz \<le> kAllocIncrement
     \<and> (\<forall>x \<in> U. 0 < x \<and> apart x sz (free_area a) (free_avail a))
     \<and> (\<forall>x \<in> U. \<forall>y \<in> U. x \<noteq> y \<longrightarrow> apart x sz y sz)
     \<and> (sz \<le> free_avail a \<longrightarrow> 0 < free_area a)
     \<and> (\<forall>c. Some c \<in> set (chunks a) \<longrightarrow> 0 < c
          \<and> (\<forall>x \<in> U. apart x sz c kAllocIncrement)
          \<and> apart (free_area a) (free_avail a) c kAllocIncrement)
     \<and> sorted_wrt (\<lambda>c d. \<forall>x y. c = Some x \<longrightarrow> d = Some y \<longrightarrow> apart x kAllocIncrement y kAllocIncrement)
         (chunks a)"

text \<open>\<open>pool sz Lv a\<close>: \<open>Lv\<close> is the set of live objects.\<close>

definition pool :: "nat \<Rightarrow> nat set \<Rightarrow> allocator \<Rightarrow> bool" where
  "pool sz Lv a \<longleftrightarrow> (\<exists>fl. chain (link a) (free_list a) fl \<and> distinct fl \<and> set fl \<inter> Lv = {}
     \<and> inuse a = int (card Lv) \<and> carved sz (set fl \<union> Lv) a)"

text \<open>How many more objects can be carved before \<open>MetaDataAlloc\<close> fails.\<close>

fun leading_chunks :: "nat option list \<Rightarrow> nat" where
  "leading_chunks (Some c # cs) = Suc (leading_chunks cs)"
| "leading_chunks _ = 0"

definition spare :: "nat \<Rightarrow> allocator \<Rightarrow> nat" where
  "spare sz a = free_avail a div sz + leading_chunks (chunks a) * (kAllocIncrement div sz)"

lemma pool_finite: "pool sz Lv a \<Longrightarrow> finite Lv"
  by (auto simp: pool_def carved_def)

lemma pool_apart: "pool sz Lv a \<Longrightarrow> x \<in> Lv \<Longrightarrow> y \<in> Lv \<Longrightarrow> x \<noteq> y \<Longrightarrow> apart x sz y sz"
  by (auto simp: pool_def carved_def)

lemma pool_nonzero: "pool sz Lv a \<Longrightarrow> x \<in> Lv \<Longrightarrow> 0 < x"
  by (auto simp: pool_def carved_def)

lemma carved_chunk:
  assumes "carved sz U a" "chunks a = Some c # cs"
  shows "carved sz U (a\<lparr>chunks := cs, free_area := c, free_avail := kAllocIncrement\<rparr>)"
  using assms by (auto simp: carved_def)

lemma carved_carve:
  assumes "carved sz U a" "sz \<le> free_avail a"
  shows "carved sz (insert (free_area a) U)
      (a\<lparr>free_area := free_area a + sz, free_avail := free_avail a - sz, inuse := i\<rparr>)"
    and "free_area a \<notin> U" "0 < free_area a"
proof -
  have U: "\<forall>x \<in> U. 0 < x \<and> apart x sz (free_area a) (free_avail a)" and sz: "0 < sz"
    using assms(1) by (auto simp: carved_def)
  show "free_area a \<notin> U" using U sz assms(2) by (auto simp: apart_def)
  show pos: "0 < free_area a" using assms by (auto simp: carved_def)
  have x: "apart x sz (free_area a) sz" "apart x sz (free_area a + sz) (free_avail a - sz)" if "x \<in> U" for x
  proof -
    have "apart x sz (free_area a) (free_avail a)" using U that by blast
    from apart_part[OF this assms(2)] show "apart x sz (free_area a) sz"
      "apart x sz (free_area a + sz) (free_avail a - sz)" .
  qed
  have c: "apart (free_area a) sz c kAllocIncrement"
    "apart (free_area a + sz) (free_avail a - sz) c kAllocIncrement" if "Some c \<in> set (chunks a)" for c
  proof -
    have "apart c kAllocIncrement (free_area a) (free_avail a)"
      using assms(1) that by (auto simp: carved_def apart_commute[of c])
    from apart_part[OF this assms(2)] show "apart (free_area a) sz c kAllocIncrement"
      "apart (free_area a + sz) (free_avail a - sz) c kAllocIncrement"
      by (simp_all only: apart_commute[of c])
  qed
  have "apart (free_area a) sz (free_area a + sz) (free_avail a - sz)" by (simp add: apart_def)
  moreover have "apart (free_area a) sz x sz" if "x \<in> U" for x
    using x(1)[OF that] apart_commute by blast
  moreover note x c pos
  ultimately show "carved sz (insert (free_area a) U)
      (a\<lparr>free_area := free_area a + sz, free_avail := free_avail a - sz, inuse := i\<rparr>)"
    using assms unfolding carved_def by simp
qed

text \<open>Only the free-list case leaves the carved objects alone; a link of a live object is its own.\<close>

lemma carved_link: "carved sz U (a\<lparr>link := f, free_list := p, inuse := i\<rparr>) = carved sz U a"
  by (simp add: carved_def)

lemma carved_list: "carved sz U (a\<lparr>free_list := p, inuse := i\<rparr>) = carved sz U a"
  by (simp add: carved_def)

lemma pha_New_pool:
  assumes "pool sz Lv a" "pha_New sz a = Some (p, a')"
  shows "p \<notin> Lv \<and> 0 < p \<and> pool sz (insert p Lv) a' \<and> spare sz a \<le> spare sz a' + 1"
proof -
  obtain fl where fl: "chain (link a) (free_list a) fl" "distinct fl" "set fl \<inter> Lv = {}"
    "inuse a = int (card Lv)" "carved sz (set fl \<union> Lv) a" using assms(1) by (auto simp: pool_def)
  have fin: "finite Lv" using assms(1) by (rule pool_finite)
  show ?thesis
  proof (cases fl)
    case (Cons x xs)
    then have x: "free_list a = x" "x \<noteq> 0" "chain (link a) (link a x) xs" "x \<notin> Lv"
      using fl(1,3) by auto
    then have p: "p = x" "a' = a\<lparr>free_list := link a x, inuse := inuse a + 1\<rparr>"
      using assms(2) by (auto simp: pha_New_def)
    have "carved sz (set xs \<union> insert x Lv) a'"
      using fl(5) Cons by (simp add: p(2) carved_list)
    then have "pool sz (insert p Lv) a'"
      using x fl(2,3,4) fin Cons unfolding pool_def
      by (intro exI[of _ xs]) (auto simp: p)
    then show ?thesis using x by (auto simp: p spare_def)
  next
    case Nil
    then have fl0: "free_list a = 0" using fl(1) by simp
    obtain a1 where a1: "a1 = a \<and> sz \<le> free_avail a \<or>
        (\<exists>c cs. chunks a = Some c # cs \<and> free_avail a < sz
          \<and> a1 = a\<lparr>chunks := cs, free_area := c, free_avail := kAllocIncrement\<rparr>)"
      and r: "p = free_area a1"
        "a' = a1\<lparr>free_area := free_area a1 + sz, free_avail := free_avail a1 - sz, inuse := inuse a1 + 1\<rparr>"
      using assms(2) fl0
      by (fastforce simp: pha_New_def next_chunk_def Let_def split: if_splits option.splits list.splits)
    have c1: "carved sz Lv a1" and av: "sz \<le> free_avail a1"
      using a1 fl(5) Nil carved_chunk[of sz Lv a] by (auto simp: carved_def)
    have same: "free_list a1 = 0" "inuse a1 = inuse a" using a1 fl0 by auto
    have sp: "spare sz a1 = spare sz a"
      using a1 fl(5) by (auto simp: spare_def)
    have "spare sz a1 = spare sz a' + 1"
      using av c1 by (simp add: r(2) spare_def carved_def le_div_geq)
    moreover have "pool sz (insert p Lv) a'"
      using carved_carve[OF c1 av] same fl(4) fin unfolding pool_def
      by (intro exI[of _ "[]"]) (auto simp: r)
    ultimately show ?thesis using carved_carve[OF c1 av] sp by (simp add: r(1))
  qed
qed

lemma pha_New_succeeds:
  assumes "pool sz Lv a" "0 < spare sz a"
  shows "\<exists>p a'. pha_New sz a = Some (p, a')"
proof (cases "free_list a \<noteq> 0 \<or> sz \<le> free_avail a")
  case True
  then show ?thesis by (auto simp: pha_New_def Let_def not_less)
next
  case False
  then have "free_avail a div sz = 0" by simp
  then have "0 < leading_chunks (chunks a)" using assms(2) by (auto simp: spare_def)
  then obtain c cs where "chunks a = Some c # cs" by (cases "chunks a" rule: leading_chunks.cases) auto
  then show ?thesis using False by (auto simp: pha_New_def next_chunk_def Let_def)
qed

lemma pha_Delete_pool:
  assumes "pool sz Lv a" "p \<in> Lv"
  shows "pool sz (Lv - {p}) (pha_Delete p a) \<and> spare sz (pha_Delete p a) = spare sz a"
proof -
  obtain fl where fl: "chain (link a) (free_list a) fl" "distinct fl" "set fl \<inter> Lv = {}"
    "inuse a = int (card Lv)" "carved sz (set fl \<union> Lv) a" using assms(1) by (auto simp: pool_def)
  have fin: "finite Lv" using assms(1) by (rule pool_finite)
  have "chain ((link a)(p := free_list a)) (free_list a) fl"
    using fl(1,3) assms(2) by (subst chain_cong[of fl _ "link a"]) auto
  moreover have "set (p # fl) \<union> (Lv - {p}) = set fl \<union> Lv" using assms(2) by auto
  ultimately have "pool sz (Lv - {p}) (pha_Delete p a)"
    using fl pool_nonzero[OF assms] assms(2) fin card_gt_0_iff[of Lv] unfolding pool_def pha_Delete_def
    by (intro exI[of _ "p # fl"]) (auto simp: carved_link)
  then show ?thesis by (simp add: pha_Delete_def spare_def)
qed

section \<open>The contract of an object pool\<close>

locale object_pool =
  fixes new :: "'a \<Rightarrow> (nat \<times> 'a) option" and delete :: "nat \<Rightarrow> 'a \<Rightarrow> 'a"
    and ok :: "nat set \<Rightarrow> 'a \<Rightarrow> bool" and room :: "'a \<Rightarrow> nat"
  assumes new_fresh: "ok Lv a \<Longrightarrow> new a = Some (p, a') \<Longrightarrow>
      p \<notin> Lv \<and> 0 < p \<and> ok (insert p Lv) a' \<and> room a \<le> room a' + 1"
    and new_succeeds: "ok Lv a \<Longrightarrow> 0 < room a \<Longrightarrow> \<exists>p a'. new a = Some (p, a')"
    and delete_ok: "ok Lv a \<Longrightarrow> p \<in> Lv \<Longrightarrow> ok (Lv - {p}) (delete p a) \<and> room (delete p a) = room a"

text \<open>A client's calls: \<open>None\<close> allocates and \<open>Some p\<close> frees \<open>p\<close>, when it is live.\<close>

fun pool_run :: "('a \<Rightarrow> (nat \<times> 'a) option) \<Rightarrow> (nat \<Rightarrow> 'a \<Rightarrow> 'a) \<Rightarrow> nat option list
    \<Rightarrow> nat set \<Rightarrow> 'a \<Rightarrow> (nat set \<times> 'a) option" where
  "pool_run new delete [] Lv a = Some (Lv, a)"
| "pool_run new delete (None # os) Lv a =
     do { (p, a) \<leftarrow> new a; pool_run new delete os (insert p Lv) a }"
| "pool_run new delete (Some p # os) Lv a =
     (if p \<in> Lv then pool_run new delete os (Lv - {p}) (delete p a) else pool_run new delete os Lv a)"

context object_pool
begin

lemma new_ok:
  assumes "ok Lv a" "0 < room a"
  obtains p a' where "new a = Some (p, a')" "p \<notin> Lv" "0 < p" "ok (insert p Lv) a'" "room a \<le> room a' + 1"
  using new_succeeds[OF assms] new_fresh[OF assms(1)] by blast

lemma run_ok:
  assumes "ok Lv a" "length (filter (\<lambda>c. c = None) os) \<le> room a"
  shows "\<exists>Lv' a'. pool_run new delete os Lv a = Some (Lv', a') \<and> ok Lv' a'"
  using assms
proof (induction os arbitrary: Lv a)
  case (Cons c os)
  show ?case
  proof (cases c)
    case None
    then obtain p a' where "new a = Some (p, a')" "ok (insert p Lv) a'" "room a \<le> room a' + 1"
      using Cons.prems by (auto elim: new_ok[of Lv a])
    then show ?thesis using Cons.IH[of "insert p Lv" a'] Cons.prems None by auto
  next
    case (Some p)
    then show ?thesis
      using Cons.IH[of Lv a] Cons.IH[of "Lv - {p}" "delete p a"] Cons.prems delete_ok[of Lv a p] by auto
  qed
qed simp

end

interpretation pha: object_pool "pha_New sz" pha_Delete "pool sz" "spare sz" for sz
  by unfold_locales (rule pha_New_pool pha_New_succeeds pha_Delete_pool; assumption)+

section \<open>From \<open>Init\<close> on\<close>

text \<open>Chunks as \<open>MetaDataAlloc\<close> returns them: not \<open>NULL\<close>, and no two overlap.\<close>

definition chunks_ok :: "nat option list \<Rightarrow> bool" where
  "chunks_ok cs \<longleftrightarrow> (\<forall>c. Some c \<in> set cs \<longrightarrow> 0 < c)
     \<and> sorted_wrt (\<lambda>c d. \<forall>x y. c = Some x \<longrightarrow> d = Some y \<longrightarrow> apart x kAllocIncrement y kAllocIncrement) cs"

lemma pha_Init_pool:
  assumes "0 < sz" "sz \<le> kAllocIncrement" "chunks_ok (chunks a)" "0 < leading_chunks (chunks a)"
  shows "\<exists>a'. pha_Init sz a = Some a' \<and> pool sz {} a'
    \<and> leading_chunks (chunks a) * (kAllocIncrement div sz) \<le> spare sz a' + 1"
proof -
  let ?a = "a\<lparr>inuse := 0, free_area := 0, free_avail := 0, free_list := 0\<rparr>"
  have p: "pool sz {} ?a"
    using assms unfolding pool_def carved_def
    by (intro exI[of _ "[]"]) (simp add: chunks_ok_def apart_def)
  have sp: "spare sz ?a = leading_chunks (chunks a) * (kAllocIncrement div sz)"
    by (simp add: spare_def)
  have "0 < kAllocIncrement div sz" using assms(1,2) by (simp only: div_greater_zero_iff)
  then have "0 < spare sz ?a" using sp assms(4) by (simp only: nat_0_less_mult_iff)
  then obtain q a1 where q: "pha_New sz ?a = Some (q, a1)" "pool sz {q} a1" "spare sz ?a \<le> spare sz a1 + 1"
    using pha.new_ok[OF p] by (metis insert_is_Un sup_bot.right_neutral)
  then have "pha_Init sz a = Some (pha_Delete q a1)" using assms(2) by (simp add: pha_Init_def)
  then show ?thesis using pha_Delete_pool[OF q(2), of q] q(3) sp by auto
qed

text \<open>
  C37: the metadata allocator.  \<open>Init\<close> succeeds when there is a first chunk; afterwards any sequence
  of \<open>New\<close> and \<open>Delete\<close> whose allocations fit in the chunks runs without a crash, and at its end
  the live objects are not null, overlap pairwise nowhere, and \<open>inuse\<close> counts them.
\<close>

theorem PageHeapAllocator_live_apart:
  assumes "0 < sz" "sz \<le> kAllocIncrement" "chunks_ok (chunks a)"
    and "length (filter (\<lambda>c. c = None) os) < leading_chunks (chunks a) * (kAllocIncrement div sz)"
  shows "\<exists>a0 Lv a1. pha_Init sz a = Some a0
    \<and> pool_run (pha_New sz) pha_Delete os {} a0 = Some (Lv, a1)
    \<and> finite Lv \<and> inuse a1 = int (card Lv) \<and> 0 \<notin> Lv
    \<and> (\<forall>x \<in> Lv. \<forall>y \<in> Lv. x \<noteq> y \<longrightarrow> x + sz \<le> y \<or> y + sz \<le> x)"
proof -
  have "0 < leading_chunks (chunks a)" using assms(4) by (cases "leading_chunks (chunks a)") auto
  from pha_Init_pool[OF assms(1-3) this] obtain a0 where a0: "pha_Init sz a = Some a0" "pool sz {} a0"
    "leading_chunks (chunks a) * (kAllocIncrement div sz) \<le> spare sz a0 + 1" by blast
  have "length (filter (\<lambda>c. c = None) os) \<le> spare sz a0" using a0(3) assms(4) by linarith
  from pha.run_ok[OF a0(2) this] obtain Lv a1 where
    r: "pool_run (pha_New sz) pha_Delete os {} a0 = Some (Lv, a1)" "pool sz Lv a1" by blast
  have "inuse a1 = int (card Lv)" using r(2) by (auto simp: pool_def)
  moreover have "x + sz \<le> y \<or> y + sz \<le> x" if "x \<in> Lv" "y \<in> Lv" "x \<noteq> y" for x y
    using pool_apart[OF r(2) that] by (simp add: apart_def)
  ultimately show ?thesis
    using a0(1) r pool_finite[OF r(2)] pool_nonzero[OF r(2), of 0] by blast
qed

theorem PageHeapAllocator_live_apart_witness:
  "\<exists>a0 Lv a1. pha_Init 48 \<lparr>free_area = 7, free_avail = 9, free_list = 11, inuse = 13, link = (\<lambda>_. 0),
        chunks = [Some 4096, Some 262144]\<rparr> = Some a0
    \<and> pool_run (pha_New 48) pha_Delete [None, None, Some 4144, None] {} a0 = Some (Lv, a1)
    \<and> inuse a1 = int (card Lv) \<and> 0 \<notin> Lv"
  using PageHeapAllocator_live_apart[of 48 "\<lparr>free_area = 7, free_avail = 9, free_list = 11, inuse = 13,
      link = (\<lambda>_. 0), chunks = [Some 4096, Some 262144]\<rparr>" "[None, None, Some 4144, None]"]
  by (auto simp: chunks_ok_def apart_def)

end
