(* ===== verification/Span.thy ===== *)
theory Span
  imports PageHeapAllocator
begin

text \<open>
  Spans (\<open>span.h\<close>, \<open>span.cc\<close>): the descriptors of runs of pages and the circular doubly linked
  lists through them.  The store maps span pointers to descriptors.  A pointer is the address of a
  descriptor from the span allocator or one of the list heads, which the code embeds in the page
  heap (\<open>free_\<close>, \<open>large_\<close>) and in the central free lists (\<open>empty_\<close>, \<open>nonempty_\<close>), and
  \<open>SampledObjects\<close>, the static \<open>sampled_objects_\<close> (\<open>static_vars.h\<close>).  A null
  pointer is \<open>None\<close>.
\<close>

section \<open>Model\<close>

datatype spanptr =
    Sp nat
  | FreeNormal nat | FreeReturned nat | LargeNormal | LargeReturned
  | CflEmpty nat | CflNonempty nat | SampledObjects

record span =
  sp_start :: nat
  sp_length :: nat
  sp_next :: "spanptr option"
  sp_prev :: "spanptr option"
  sp_objects :: nat
  sp_refcount :: nat
  sp_sizeclass :: nat
  sp_location :: nat
  sp_sample :: bool

definition IN_USE :: nat where [simp]: "IN_USE = 0"
definition ON_NORMAL_FREELIST :: nat where [simp]: "ON_NORMAL_FREELIST = 1"
definition ON_RETURNED_FREELIST :: nat where [simp]: "ON_RETURNED_FREELIST = 2"

definition sizeof_Span :: nat where [simp]: "sizeof_Span = 48"

type_synonym span_mem = "spanptr \<Rightarrow> span option"

text \<open>Writing a field of the span at a pointer; \<open>None\<close> when there is no span there.\<close>

definition upd :: "(span \<Rightarrow> span) \<Rightarrow> spanptr \<Rightarrow> span_mem \<Rightarrow> span_mem option" where
  "upd f p m = (case m p of None \<Rightarrow> None | Some s \<Rightarrow> Some (m(p \<mapsto> f s)))"

definition zero_span :: span where
  "zero_span = \<lparr>sp_start = 0, sp_length = 0, sp_next = None, sp_prev = None, sp_objects = 0,
     sp_refcount = 0, sp_sizeclass = 0, sp_location = 0, sp_sample = False\<rparr>"

definition NewSpan :: "nat \<Rightarrow> nat \<Rightarrow> span_mem \<times> allocator \<Rightarrow> (spanptr \<times> span_mem \<times> allocator) option" where
  "NewSpan p len = (\<lambda>(m, a). do {
     (r, a) \<leftarrow> pha_New sizeof_Span a;
     Some (Sp r, m(Sp r \<mapsto> zero_span\<lparr>sp_start := p, sp_length := len\<rparr>), a) })"

text \<open>The memory of a deleted span no longer holds one; only a span of the allocator can be deleted.\<close>

definition DeleteSpan :: "spanptr \<Rightarrow> span_mem \<times> allocator \<Rightarrow> (span_mem \<times> allocator) option" where
  "DeleteSpan p = (\<lambda>(m, a). case p of Sp r \<Rightarrow> Some (m(p := None), pha_Delete r a) | _ \<Rightarrow> None)"

definition DLL_Init :: "spanptr \<Rightarrow> span_mem \<Rightarrow> span_mem option" where
  "DLL_Init l m = do {
     m \<leftarrow> upd (\<lambda>s. s\<lparr>sp_next := Some l\<rparr>) l m;
     upd (\<lambda>s. s\<lparr>sp_prev := Some l\<rparr>) l m }"

definition DLL_Remove :: "spanptr \<Rightarrow> span_mem \<Rightarrow> span_mem option" where
  "DLL_Remove p m = do {
     s \<leftarrow> m p;
     q \<leftarrow> sp_prev s;
     m \<leftarrow> upd (\<lambda>t. t\<lparr>sp_next := sp_next s\<rparr>) q m;
     s \<leftarrow> m p;
     q \<leftarrow> sp_next s;
     m \<leftarrow> upd (\<lambda>t. t\<lparr>sp_prev := sp_prev s\<rparr>) q m;
     m \<leftarrow> upd (\<lambda>t. t\<lparr>sp_prev := None\<rparr>) p m;
     upd (\<lambda>t. t\<lparr>sp_next := None\<rparr>) p m }"

definition DLL_IsEmpty :: "spanptr \<Rightarrow> span_mem \<Rightarrow> bool option" where
  "DLL_IsEmpty l m = do { s \<leftarrow> m l; Some (sp_next s = Some l) }"

definition DLL_Prepend :: "spanptr \<Rightarrow> spanptr \<Rightarrow> span_mem \<Rightarrow> span_mem option" where
  "DLL_Prepend l p m = do {
     s \<leftarrow> m p;
     check (sp_next s = None);
     check (sp_prev s = None);
     h \<leftarrow> m l;
     m \<leftarrow> upd (\<lambda>t. t\<lparr>sp_next := sp_next h\<rparr>) p m;
     m \<leftarrow> upd (\<lambda>t. t\<lparr>sp_prev := Some l\<rparr>) p m;
     h \<leftarrow> m l;
     q \<leftarrow> sp_next h;
     m \<leftarrow> upd (\<lambda>t. t\<lparr>sp_prev := Some p\<rparr>) q m;
     upd (\<lambda>t. t\<lparr>sp_next := Some p\<rparr>) l m }"

text \<open>The traversals of the code: a fold over the spans of a list, from its head along \<open>next\<close>.\<close>

partial_function (option) dll_fold ::
  "spanptr \<Rightarrow> (spanptr \<Rightarrow> span \<Rightarrow> 'a \<Rightarrow> 'a option) \<Rightarrow> span_mem \<Rightarrow> spanptr option \<Rightarrow> 'a \<Rightarrow> 'a option" where
  "dll_fold l f m s x =
     (if s = Some l then Some x
      else case s of None \<Rightarrow> None | Some q \<Rightarrow>
        Option.bind (m q) (\<lambda>t. Option.bind (f q t x) (\<lambda>y. dll_fold l f m (sp_next t) y)))"

declare dll_fold.simps [code]

definition dll_for :: "spanptr \<Rightarrow> (spanptr \<Rightarrow> span \<Rightarrow> 'a \<Rightarrow> 'a option) \<Rightarrow> span_mem \<Rightarrow> 'a \<Rightarrow> 'a option" where
  "dll_for l f m x = do { h \<leftarrow> m l; dll_fold l f m (sp_next h) x }"

definition DLL_Length :: "spanptr \<Rightarrow> span_mem \<Rightarrow> nat option" where
  "DLL_Length l m = dll_for l (\<lambda>_ _ n. Some (n + 1)) m 0"

section \<open>Lists in the store\<close>

definition nxt :: "span_mem \<Rightarrow> spanptr \<Rightarrow> spanptr option" where
  "nxt m p = Option.bind (m p) sp_next"

definition prv :: "span_mem \<Rightarrow> spanptr \<Rightarrow> spanptr option" where
  "prv m p = Option.bind (m p) sp_prev"

text \<open>\<open>path m p xs q\<close>: from \<open>p\<close> along \<open>next\<close> through \<open>xs\<close> to \<open>q\<close>, with \<open>prev\<close> leading back.\<close>

definition linked :: "span_mem \<Rightarrow> spanptr \<Rightarrow> spanptr \<Rightarrow> bool" where
  "linked m p q \<longleftrightarrow> nxt m p = Some q \<and> prv m q = Some p"

fun path :: "span_mem \<Rightarrow> spanptr \<Rightarrow> spanptr list \<Rightarrow> spanptr \<Rightarrow> bool" where
  "path m p [] q = linked m p q"
| "path m p (x # xs) q = (linked m p x \<and> path m x xs q)"

definition dll :: "span_mem \<Rightarrow> spanptr \<Rightarrow> spanptr list \<Rightarrow> bool" where
  "dll m l xs \<longleftrightarrow> distinct (l # xs) \<and> path m l xs l"

text \<open>The parts of the descriptors that the list operations leave alone.\<close>

definition shape :: "span_mem \<Rightarrow> span_mem" where
  "shape m = (\<lambda>p. map_option (\<lambda>s. s\<lparr>sp_next := None, sp_prev := None\<rparr>) (m p))"

definition detached :: "span_mem \<Rightarrow> spanptr \<Rightarrow> bool" where
  "detached m p \<longleftrightarrow> m p \<noteq> None \<and> nxt m p = None \<and> prv m p = None"

lemma path_append: "path m p (xs @ y # ys) q \<longleftrightarrow> path m p xs y \<and> path m y ys q"
  by (induction xs arbitrary: p) auto

lemma path_cong:
  assumes "\<And>u. u \<in> insert p (set xs) \<Longrightarrow> nxt m' u = nxt m u" "\<And>v. v \<in> insert q (set xs) \<Longrightarrow> prv m' v = prv m v"
  shows "path m' p xs q = path m p xs q"
  using assms by (induction xs arbitrary: p) (auto simp: linked_def)

text \<open>Redirecting the end of a path, and its beginning.\<close>

lemma path_new_end:
  assumes "path m p xs q" "distinct (p # xs)"
    and "nxt m' (last (p # xs)) = Some r" "prv m' r = Some (last (p # xs))"
    and "\<And>u. u \<in> set (p # xs) \<Longrightarrow> u \<noteq> last (p # xs) \<Longrightarrow> nxt m' u = nxt m u"
    and "\<And>v. v \<in> set xs \<Longrightarrow> prv m' v = prv m v"
  shows "path m' p xs r"
  using assms
proof (induction xs arbitrary: p)
  case Nil
  then show ?case by (simp add: linked_def)
next
  case (Cons x xs)
  have "path m' x xs r"
    using Cons.prems by (intro Cons.IH) auto
  moreover have "p \<noteq> last (x # xs)" using Cons.prems(2) last_in_set[of "x # xs"] by auto
  ultimately show ?case using Cons.prems by (auto simp: linked_def)
qed

lemma path_new_begin:
  assumes "path m p xs q" "nxt m' r = Some (hd (xs @ [q]))" "prv m' (hd (xs @ [q])) = Some r"
    and "\<And>u. u \<in> set xs \<Longrightarrow> nxt m' u = nxt m u"
    and "\<And>v. v \<in> set (tl (xs @ [q])) \<Longrightarrow> prv m' v = prv m v"
  shows "path m' r xs q"
proof (cases xs)
  case (Cons x ys)
  then have "path m' x ys q = path m x ys q" using assms(4,5) by (intro path_cong) auto
  then show ?thesis using assms(1-3) Cons by (simp add: linked_def)
qed (use assms in \<open>simp add: linked_def\<close>)

lemma path_heads: "path m p xs q \<Longrightarrow> nxt m p = Some (hd (xs @ [q])) \<and> prv m q = Some (last (p # xs))"
  by (induction xs arbitrary: p) (auto simp: linked_def)

lemma nxt_live: "nxt m p = Some q \<Longrightarrow> \<exists>s. m p = Some s \<and> sp_next s = Some q"
  by (auto simp: nxt_def bind_eq_Some_conv)

lemma prv_live: "prv m p = Some q \<Longrightarrow> \<exists>s. m p = Some s \<and> sp_prev s = Some q"
  by (auto simp: prv_def bind_eq_Some_conv)

lemma path_live: "path m p xs q \<Longrightarrow> r \<in> insert p (insert q (set xs)) \<Longrightarrow> m r \<noteq> None"
  by (induction xs arbitrary: p) (auto simp: linked_def dest: nxt_live prv_live)

lemma upd_Some: "m p = Some s \<Longrightarrow> upd f p m = Some (m(p \<mapsto> f s))"
  by (simp add: upd_def)

lemma DLL_Remove_step:
  assumes "prv m p = Some q" "nxt m p = Some r" "q \<noteq> p" "r \<noteq> p" "m q \<noteq> None" "m r \<noteq> None"
  obtains m' where "DLL_Remove p m = Some m'" "shape m' = shape m" "detached m' p"
    "nxt m' q = Some r" "prv m' r = Some q"
    "\<And>u. u \<noteq> p \<Longrightarrow> u \<noteq> q \<Longrightarrow> nxt m' u = nxt m u" "\<And>v. v \<noteq> p \<Longrightarrow> v \<noteq> r \<Longrightarrow> prv m' v = prv m v"
    "\<And>u. u \<notin> {p, q, r} \<Longrightarrow> m' u = m u"
proof -
  obtain s where s: "m p = Some s" "sp_next s = Some r" "sp_prev s = Some q"
    using assms(1,2) by (auto simp: nxt_def prv_def bind_eq_Some_conv)
  obtain sq sr where sq: "m q = Some sq" "m r = Some sr" using assms(5,6) by auto
  define m1 where "m1 = m(q \<mapsto> sq\<lparr>sp_next := Some r\<rparr>)"
  obtain tr where tr: "m1 r = Some tr" using sq by (cases "r = q") (auto simp: m1_def)
  define m2 where "m2 = m1(r \<mapsto> tr\<lparr>sp_prev := Some q\<rparr>)"
  define m' where "m' = m2(p \<mapsto> s\<lparr>sp_prev := None, sp_next := None\<rparr>)"
  have p1: "m1 p = Some s" "m2 p = Some s" using s(1) assms(3,4) by (auto simp: m1_def m2_def)
  have R: "DLL_Remove p m = Some m'"
    using s sq p1 tr by (simp add: DLL_Remove_def upd_def m'_def fun_upd_upd flip: m1_def m2_def)
  show thesis
  proof (rule that[OF R])
    show "shape m' = shape m"
      using s sq tr by (auto simp: shape_def m'_def m2_def m1_def fun_eq_iff split: if_splits)
    show "detached m' p" by (simp add: detached_def m'_def nxt_def prv_def)
    show "nxt m' q = Some r" "prv m' r = Some q"
      using tr assms(3,4) by (auto simp: nxt_def prv_def m'_def m2_def m1_def split: if_splits)
    show "nxt m' u = nxt m u" if "u \<noteq> p" "u \<noteq> q" for u
      using that tr sq by (auto simp: nxt_def m'_def m2_def m1_def)
    show "prv m' v = prv m v" if "v \<noteq> p" "v \<noteq> r" for v
      using that tr sq by (auto simp: prv_def m'_def m2_def m1_def)
    show "m' u = m u" if "u \<notin> {p, q, r}" for u
      using that by (auto simp: m'_def m2_def m1_def)
  qed
qed

lemma DLL_Prepend_step:
  assumes "detached m p" "nxt m l = Some q" "q \<noteq> p" "l \<noteq> p" "m q \<noteq> None"
  obtains m' where "DLL_Prepend l p m = Some m'" "shape m' = shape m"
    "nxt m' l = Some p" "prv m' p = Some l" "nxt m' p = Some q" "prv m' q = Some p"
    "\<And>u. u \<noteq> p \<Longrightarrow> u \<noteq> l \<Longrightarrow> nxt m' u = nxt m u" "\<And>v. v \<noteq> p \<Longrightarrow> v \<noteq> q \<Longrightarrow> prv m' v = prv m v"
    "\<And>u. u \<notin> {p, q, l} \<Longrightarrow> m' u = m u"
proof -
  obtain s where s: "m p = Some s" "sp_next s = None" "sp_prev s = None"
    using assms(1) by (auto simp: detached_def nxt_def prv_def)
  obtain h where h: "m l = Some h" "sp_next h = Some q" using assms(2) nxt_live by blast
  obtain sq where sq: "m q = Some sq" using assms(5) by auto
  define m1 where "m1 = m(p \<mapsto> s\<lparr>sp_next := Some q, sp_prev := Some l\<rparr>)"
  define m2 where "m2 = m1(q \<mapsto> sq\<lparr>sp_prev := Some p\<rparr>)"
  obtain h2 where h2: "m2 l = Some h2" using h assms(4) by (cases "l = q") (auto simp: m2_def m1_def)
  define m' where "m' = m2(l \<mapsto> h2\<lparr>sp_next := Some p\<rparr>)"
  have l1: "m1 l = Some h" "m1 q = Some sq" using h(1) sq assms(3,4) by (auto simp: m1_def)
  have R: "DLL_Prepend l p m = Some m'"
    using s h l1 h2 by (simp add: DLL_Prepend_def upd_def m'_def fun_upd_upd flip: m1_def m2_def)
  show thesis
  proof (rule that[OF R])
    show "shape m' = shape m"
      using s sq h l1 h2 by (auto simp: shape_def m'_def m2_def m1_def fun_eq_iff split: if_splits)
    show "nxt m' l = Some p" "prv m' p = Some l" "nxt m' p = Some q" "prv m' q = Some p"
      using h2 assms(3,4) by (auto simp: nxt_def prv_def m'_def m2_def m1_def split: if_splits)
    show "nxt m' u = nxt m u" if "u \<noteq> p" "u \<noteq> l" for u
      using that sq by (auto simp: nxt_def m'_def m2_def m1_def)
    show "prv m' v = prv m v" if "v \<noteq> p" "v \<noteq> q" for v
      using that h h2 l1 by (auto simp: prv_def m'_def m2_def m1_def split: if_splits)
    show "m' u = m u" if "u \<notin> {p, q, l}" for u
      using that by (auto simp: m'_def m2_def m1_def)
  qed
qed

lemma dll_Remove:
  assumes "dll m l (xs @ p # ys)"
  obtains m' where "DLL_Remove p m = Some m'" "dll m' l (xs @ ys)" "shape m' = shape m" "detached m' p"
    "\<And>u. u \<notin> insert l (set (xs @ p # ys)) \<Longrightarrow> m' u = m u"
proof -
  let ?q = "last (l # xs)" and ?r = "hd (ys @ [l])"
  have d: "distinct (l # xs @ p # ys)" and P: "path m l xs p" "path m p ys l"
    using assms by (auto simp: dll_def path_append)
  have qr: "prv m p = Some ?q" "nxt m p = Some ?r" using path_heads[OF P(1)] path_heads[OF P(2)] by auto
  have q: "?q \<in> insert l (set xs)" using last_in_set[of "l # xs"] by auto
  have r: "?r \<in> insert l (set ys)" by (cases ys) auto
  have ne: "?q \<noteq> p" "?r \<noteq> p" using d q r by auto
  have lv: "m ?q \<noteq> None" "m ?r \<noteq> None"
    using path_live[OF P(1), of ?q] path_live[OF P(2), of ?r] q r by auto
  show thesis
  proof (rule DLL_Remove_step[OF qr ne lv])
    fix m'
    assume m': "DLL_Remove p m = Some m'" "shape m' = shape m" "detached m' p"
      "nxt m' ?q = Some ?r" "prv m' ?r = Some ?q"
      "\<And>u. u \<noteq> p \<Longrightarrow> u \<noteq> ?q \<Longrightarrow> nxt m' u = nxt m u" "\<And>v. v \<noteq> p \<Longrightarrow> v \<noteq> ?r \<Longrightarrow> prv m' v = prv m v"
      "\<And>u. u \<notin> {p, ?q, ?r} \<Longrightarrow> m' u = m u"
    have prv_xs: "prv m' v = prv m v" if "v \<in> set xs" for v
      using that d r by (intro m'(7)) auto
    have nxt_xs: "nxt m' u = nxt m u" if "u \<in> set (l # xs)" "u \<noteq> ?q" for u
      using that d by (intro m'(6)) auto
    have p1: "path m' l xs ?r"
      by (rule path_new_end[OF P(1) _ m'(4,5) nxt_xs prv_xs]) (use d in auto)
    have "path m' l (xs @ ys) l"
    proof (cases ys)
      case Nil
      then show ?thesis using p1 by simp
    next
      case (Cons y zs)
      have "path m y zs l" using P(2) Cons by simp
      then have "path m' y zs l"
        using d q Cons by (subst path_cong) (auto intro!: m'(6,7))
      then show ?thesis using p1 Cons by (simp add: path_append)
    qed
    moreover have "\<And>u. u \<notin> insert l (set (xs @ p # ys)) \<Longrightarrow> m' u = m u"
      using q r by (intro m'(8)) auto
    ultimately show thesis using that[OF m'(1) _ m'(2,3)] d by (auto simp: dll_def)
  qed
qed

lemma dll_Prepend:
  assumes "dll m l xs" "detached m p" "p \<notin> insert l (set xs)"
  obtains m' where "DLL_Prepend l p m = Some m'" "dll m' l (p # xs)" "shape m' = shape m"
    "\<And>u. u \<notin> insert l (set (p # xs)) \<Longrightarrow> m' u = m u"
proof -
  let ?q = "hd (xs @ [l])"
  have d: "distinct (l # xs)" and P: "path m l xs l" using assms(1) by (auto simp: dll_def)
  have q: "?q \<in> insert l (set xs)" by (cases xs) auto
  have nl: "nxt m l = Some ?q" using path_heads[OF P] by simp
  have lv: "?q \<noteq> p" "l \<noteq> p" "m ?q \<noteq> None" using q assms(3) path_live[OF P, of ?q] by auto
  show thesis
  proof (rule DLL_Prepend_step[OF assms(2) nl lv])
    fix m'
    assume m': "DLL_Prepend l p m = Some m'" "shape m' = shape m"
      "nxt m' l = Some p" "prv m' p = Some l" "nxt m' p = Some ?q" "prv m' ?q = Some p"
      "\<And>u. u \<noteq> p \<Longrightarrow> u \<noteq> l \<Longrightarrow> nxt m' u = nxt m u" "\<And>v. v \<noteq> p \<Longrightarrow> v \<noteq> ?q \<Longrightarrow> prv m' v = prv m v"
      "\<And>u. u \<notin> {p, ?q, l} \<Longrightarrow> m' u = m u"
    have "path m' p xs l"
    proof (rule path_new_begin[OF P m'(5,6)])
      show "nxt m' u = nxt m u" if "u \<in> set xs" for u using that d assms(3) by (intro m'(7)) auto
      show "prv m' v = prv m v" if "v \<in> set (tl (xs @ [l]))" for v
        using that d assms(3) by (intro m'(8)) (cases xs; auto)+
    qed
    then have "dll m' l (p # xs)" using d assms(3) m'(3,4) by (auto simp: dll_def linked_def)
    moreover have "\<And>u. u \<notin> insert l (set (p # xs)) \<Longrightarrow> m' u = m u" using q by (intro m'(9)) auto
    ultimately show thesis using that[OF m'(1) _ m'(2)] by blast
  qed
qed

lemma dll_Init:
  assumes "m l \<noteq> None"
  shows "\<exists>m'. DLL_Init l m = Some m' \<and> dll m' l [] \<and> shape m' = shape m \<and> (\<forall>u. u \<noteq> l \<longrightarrow> m' u = m u)"
proof -
  obtain s where s: "m l = Some s" using assms by auto
  let ?m = "m(l \<mapsto> s\<lparr>sp_next := Some l, sp_prev := Some l\<rparr>)"
  have "DLL_Init l m = Some ?m" using s by (simp add: DLL_Init_def upd_def)
  moreover have "dll ?m l []" by (simp add: dll_def linked_def nxt_def prv_def)
  moreover have "shape ?m = shape m" using s by (simp add: shape_def fun_eq_iff)
  ultimately show ?thesis by simp
qed

lemma dll_IsEmpty: "dll m l xs \<Longrightarrow> DLL_IsEmpty l m = Some (xs = [])"
  using path_heads[of m l xs l] by (cases xs) (auto simp: dll_def DLL_IsEmpty_def dest: nxt_live)

lemma dll_cong:
  assumes "\<And>u. u \<in> insert l (set xs) \<Longrightarrow> nxt m' u = nxt m u \<and> prv m' u = prv m u"
  shows "dll m' l xs = dll m l xs"
  using path_cong[of l xs m' m l] assms by (simp add: dll_def)

text \<open>A traversal visits the spans of the list in order.\<close>

primrec ofold :: "('b \<Rightarrow> 'a \<Rightarrow> 'a option) \<Rightarrow> 'b list \<Rightarrow> 'a \<Rightarrow> 'a option" where
  "ofold f [] x = Some x"
| "ofold f (b # bs) x = f b x \<bind> ofold f bs"

lemma path_fold:
  assumes "path m p xs l" "l \<notin> set xs"
  shows "dll_fold l f m (nxt m p) x = ofold (\<lambda>q. f q (the (m q))) xs x"
  using assms
proof (induction xs arbitrary: p x)
  case Nil
  then show ?case by (simp add: linked_def dll_fold.simps)
next
  case (Cons q xs)
  then obtain t where t: "m q = Some t" using path_live[of m q xs l q] by auto
  then have n: "sp_next t = nxt m q" by (simp add: nxt_def)
  have "dll_fold l f m (nxt m p) x = Option.bind (f q t x) (\<lambda>y. dll_fold l f m (sp_next t) y)"
    using Cons.prems t by (subst dll_fold.simps) (auto simp: linked_def)
  then have "dll_fold l f m (nxt m p) x = Option.bind (f q t x) (\<lambda>y. dll_fold l f m (nxt m q) y)"
    unfolding n .
  then show ?case using Cons t by (cases "f q t x") auto
qed

lemma dll_for_fold: "dll m l xs \<Longrightarrow> dll_for l f m x = ofold (\<lambda>q. f q (the (m q))) xs x"
  using path_fold[of m l xs l f x] path_live[of m l xs l l] by (auto simp: dll_def dll_for_def nxt_def)

lemma ofold_total:
  assumes "\<And>q y. q \<in> set xs \<Longrightarrow> f q y = Some (g q y)"
  shows "ofold f xs x = Some (fold g xs x)"
  using assms by (induction xs arbitrary: x) auto

lemma dll_Length: "dll m l xs \<Longrightarrow> DLL_Length l m = Some (length xs)"
proof -
  have "fold (\<lambda>_ n. n + 1) xs k = length xs + k" for k by (induction xs arbitrary: k) auto
  then show "dll m l xs \<Longrightarrow> DLL_Length l m = Some (length xs)"
    by (simp add: DLL_Length_def dll_for_fold ofold_total[where g = "\<lambda>_ n. n + 1"])
qed

section \<open>A family of lists\<close>

text \<open>
  \<open>dlls m H L\<close>: every head \<open>l\<close> of \<open>H\<close> holds the list \<open>L l\<close>, and no span is on two lists.
\<close>

definition on_lists :: "'p set \<Rightarrow> ('p \<Rightarrow> 'p list) \<Rightarrow> 'p set" where
  "on_lists H L = H \<union> (\<Union>l \<in> H. set (L l))"

definition dlls :: "span_mem \<Rightarrow> spanptr set \<Rightarrow> (spanptr \<Rightarrow> spanptr list) \<Rightarrow> bool" where
  "dlls m H L \<longleftrightarrow> (\<forall>l \<in> H. dll m l (L l)) \<and> (\<forall>l \<in> H. set (L l) \<inter> H = {})
     \<and> (\<forall>l \<in> H. \<forall>k \<in> H. l \<noteq> k \<longrightarrow> set (L l) \<inter> set (L k) = {})"

lemma dlls_dll: "dlls m H L \<Longrightarrow> l \<in> H \<Longrightarrow> dll m l (L l)"
  by (auto simp: dlls_def)

lemma dlls_cong:
  assumes "\<And>u. u \<in> on_lists H L \<Longrightarrow> nxt m' u = nxt m u \<and> prv m' u = prv m u"
  shows "dlls m' H L = dlls m H L"
proof -
  have "dll m' l (L l) = dll m l (L l)" if "l \<in> H" for l
    using that by (intro dll_cong assms) (auto simp: on_lists_def)
  then show ?thesis by (simp add: dlls_def)
qed

lemma dlls_step:
  assumes "dlls m H L" "l \<in> H" "dll m' l xs" "set xs \<subseteq> insert p (set (L l))"
    and "p \<notin> H" "\<And>k. k \<in> H \<Longrightarrow> k \<noteq> l \<Longrightarrow> p \<notin> set (L k)"
    and "\<And>u. u \<notin> insert l (insert p (set (L l))) \<Longrightarrow> m' u = m u"
  shows "dlls m' H (L(l := xs))"
proof -
  have D: "set (L k) \<inter> set (L l) = {}" "set (L k) \<inter> H = {}" "l \<notin> set (L k)" if "k \<in> H" "k \<noteq> l" for k
    using assms(1,2) that unfolding dlls_def by blast+
  have "dll m' k (L k)" if k: "k \<in> H" "k \<noteq> l" for k
  proof -
    have "m' u = m u" if "u \<in> insert k (set (L k))" for u
    proof (rule assms(7))
      show "u \<notin> insert l (insert p (set (L l)))"
        using that D[OF k] k assms(1,2,5,6) unfolding dlls_def by blast
    qed
    then have "dll m' k (L k) = dll m k (L k)" by (intro dll_cong) (simp add: nxt_def prv_def)
    then show ?thesis using assms(1) k by (simp add: dlls_def)
  qed
  then show ?thesis
    using assms(1-6) D unfolding dlls_def by (auto; blast)
qed

lemma dlls_Remove:
  assumes "dlls m H L" "l \<in> H" "p \<in> set (L l)"
  shows "\<exists>m'. DLL_Remove p m = Some m' \<and> dlls m' H (L(l := remove1 p (L l))) \<and> shape m' = shape m
     \<and> detached m' p \<and> (\<forall>u. u \<notin> on_lists H L \<longrightarrow> m' u = m u)"
proof -
  have d: "dll m l (L l)" "distinct (L l)" using assms(1,2) by (auto simp: dlls_def dll_def)
  obtain xs ys where xy: "L l = xs @ p # ys" using assms(3) split_list by metis
  then have r: "remove1 p (L l) = xs @ ys" using d(2) by (simp add: remove1_append)
  obtain m' where m': "DLL_Remove p m = Some m'" "dll m' l (xs @ ys)" "shape m' = shape m" "detached m' p"
    "\<And>u. u \<notin> insert l (set (xs @ p # ys)) \<Longrightarrow> m' u = m u" using dll_Remove d(1) xy by metis
  have "dlls m' H (L(l := xs @ ys))"
    by (rule dlls_step[OF assms(1,2) m'(2), of p])
      (use m'(5) xy assms in \<open>auto simp: dlls_def\<close>)
  moreover have "m' u = m u" if "u \<notin> on_lists H L" for u
    using that assms(2) xy by (intro m'(5)) (auto simp: on_lists_def)
  ultimately show ?thesis using m'(1,3,4) r by auto
qed

lemma dlls_Prepend:
  assumes "dlls m H L" "l \<in> H" "detached m p" "p \<notin> on_lists H L"
  shows "\<exists>m'. DLL_Prepend l p m = Some m' \<and> dlls m' H (L(l := p # L l)) \<and> shape m' = shape m
     \<and> (\<forall>u. u \<notin> insert p (on_lists H L) \<longrightarrow> m' u = m u)"
proof -
  have d: "dll m l (L l)" and p: "p \<notin> insert l (set (L l))" "p \<notin> H"
    using assms by (auto simp: dlls_def on_lists_def)
  obtain m' where m': "DLL_Prepend l p m = Some m'" "dll m' l (p # L l)" "shape m' = shape m"
    "\<And>u. u \<notin> insert l (set (p # L l)) \<Longrightarrow> m' u = m u" using dll_Prepend[OF d assms(3) p(1)] by metis
  have "dlls m' H (L(l := p # L l))"
    by (rule dlls_step[OF assms(1,2) m'(2), of p])
      (use m'(4) p assms(4) in \<open>auto simp: on_lists_def\<close>)
  moreover have "m' u = m u" if "u \<notin> insert p (on_lists H L)" for u
    using that assms(2) by (intro m'(4)) (auto simp: on_lists_def)
  ultimately show ?thesis using m'(1,3) by auto
qed

section \<open>The contract of a family of lists\<close>

text \<open>
  What the page heap and the central free lists rely on: removing an element of a list and adding a
  loose element at the front of one succeed, do to the lists what the names say, keep everything
  that \<open>view\<close> sees of the store, and touch no element off the lists.
\<close>

locale list_family =
  fixes fam :: "('p \<Rightarrow> 's option) \<Rightarrow> 'p set \<Rightarrow> ('p \<Rightarrow> 'p list) \<Rightarrow> bool"
    and remove :: "'p \<Rightarrow> ('p \<Rightarrow> 's option) \<Rightarrow> ('p \<Rightarrow> 's option) option"
    and prepend :: "'p \<Rightarrow> 'p \<Rightarrow> ('p \<Rightarrow> 's option) \<Rightarrow> ('p \<Rightarrow> 's option) option"
    and loose :: "('p \<Rightarrow> 's option) \<Rightarrow> 'p \<Rightarrow> bool"
    and view :: "('p \<Rightarrow> 's option) \<Rightarrow> 'v"
  assumes remove_law: "fam m H L \<Longrightarrow> l \<in> H \<Longrightarrow> p \<in> set (L l) \<Longrightarrow>
      \<exists>m'. remove p m = Some m' \<and> fam m' H (L(l := remove1 p (L l))) \<and> view m' = view m
        \<and> loose m' p \<and> (\<forall>u. u \<notin> on_lists H L \<longrightarrow> m' u = m u)"
    and prepend_law: "fam m H L \<Longrightarrow> l \<in> H \<Longrightarrow> loose m p \<Longrightarrow> p \<notin> on_lists H L \<Longrightarrow>
      \<exists>m'. prepend l p m = Some m' \<and> fam m' H (L(l := p # L l)) \<and> view m' = view m
        \<and> (\<forall>u. u \<notin> insert p (on_lists H L) \<longrightarrow> m' u = m u)"
    and once: "fam m H L \<Longrightarrow> l \<in> H \<Longrightarrow> p \<in> set (L l) \<Longrightarrow>
      p \<notin> H \<and> distinct (L l) \<and> (\<forall>k \<in> H. k \<noteq> l \<longrightarrow> p \<notin> set (L k))"

context list_family
begin

lemma removed_off_lists:
  assumes "fam m H L" "l \<in> H" "p \<in> set (L l)"
  shows "p \<notin> on_lists H (L(l := remove1 p (L l)))"
  using once[OF assms] by (auto simp: on_lists_def)

text \<open>Moving an element to the front of a list, possibly the one it is on.\<close>

lemma move_law:
  assumes "fam m H L" "l \<in> H" "p \<in> set (L l)" "k \<in> H"
  shows "\<exists>m1 m2. remove p m = Some m1 \<and> prepend k p m1 = Some m2 \<and> view m2 = view m
    \<and> fam m2 H ((L(l := remove1 p (L l)))(k := p # (L(l := remove1 p (L l))) k))
    \<and> (\<forall>u. u \<notin> on_lists H L \<longrightarrow> m2 u = m u)"
proof -
  obtain m1 where m1: "remove p m = Some m1" "fam m1 H (L(l := remove1 p (L l)))" "view m1 = view m"
    "loose m1 p" "\<forall>u. u \<notin> on_lists H L \<longrightarrow> m1 u = m u" using remove_law[OF assms(1-3)] by blast
  obtain m2 where m2: "prepend k p m1 = Some m2" "view m2 = view m1"
    "fam m2 H ((L(l := remove1 p (L l)))(k := p # (L(l := remove1 p (L l))) k))"
    "\<forall>u. u \<notin> insert p (on_lists H (L(l := remove1 p (L l)))) \<longrightarrow> m2 u = m1 u"
    using prepend_law[OF m1(2) assms(4) m1(4) removed_off_lists[OF assms(1-3)]] by blast
  have "insert p (on_lists H (L(l := remove1 p (L l)))) \<subseteq> on_lists H L"
    using assms(2,3) by (auto simp: on_lists_def dest: notin_set_remove1 split: if_splits)
  then have "m2 u = m u" if "u \<notin> on_lists H L" for u using that m1(5) m2(4) by auto
  then show ?thesis using m1(1,3) m2(1-3) by auto
qed

end

interpretation span_lists: list_family dlls DLL_Remove DLL_Prepend detached shape
proof
  show "p \<notin> H \<and> distinct (L l) \<and> (\<forall>k \<in> H. k \<noteq> l \<longrightarrow> p \<notin> set (L k))"
    if "dlls m H L" "l \<in> H" "p \<in> set (L l)" for m H L l and p :: spanptr
    using that unfolding dlls_def dll_def by (auto 0 3)
qed (rule dlls_Remove dlls_Prepend; assumption)+

text \<open>
  The doubly linked lists.  Removing a span from wherever it is on a list, and adding another one
  at the front, succeed and give the list one expects; the removed span has null links, the length
  and emptiness tests agree with the list, and no other field of any span changes.
\<close>

theorem DLL_operations:
  assumes "dll m l (xs @ p # ys)" "detached m q" "q \<notin> set (l # xs @ p # ys)"
  shows "\<exists>m1 m2. DLL_Remove p m = Some m1 \<and> detached m1 p \<and> dll m1 l (xs @ ys)
    \<and> DLL_IsEmpty l m1 = Some (xs = [] \<and> ys = [])
    \<and> DLL_Prepend l q m1 = Some m2 \<and> dll m2 l (q # xs @ ys)
    \<and> DLL_Length l m2 = Some (Suc (length xs + length ys)) \<and> shape m2 = shape m"
proof -
  obtain m1 where m1: "DLL_Remove p m = Some m1" "dll m1 l (xs @ ys)" "shape m1 = shape m" "detached m1 p"
    "\<And>u. u \<notin> insert l (set (xs @ p # ys)) \<Longrightarrow> m1 u = m u" using dll_Remove[OF assms(1)] by metis
  have "detached m1 q" using assms(2,3) m1(5)[of q] by (simp add: detached_def nxt_def prv_def)
  then obtain m2 where m2: "DLL_Prepend l q m1 = Some m2" "dll m2 l (q # xs @ ys)" "shape m2 = shape m1"
    using dll_Prepend[OF m1(2), of q] assms(3) by auto
  show ?thesis using m1 m2 dll_IsEmpty[OF m1(2)] dll_Length[OF m2(2)] by auto
qed

definition two_spans :: span_mem where
  "two_spans = [LargeNormal \<mapsto> zero_span\<lparr>sp_next := Some (Sp 8), sp_prev := Some (Sp 8)\<rparr>,
     Sp 8 \<mapsto> zero_span\<lparr>sp_next := Some LargeNormal, sp_prev := Some LargeNormal\<rparr>, Sp 56 \<mapsto> zero_span]"

theorem DLL_operations_witness:
  "\<exists>m1 m2. DLL_Remove (Sp 8) two_spans = Some m1 \<and> DLL_IsEmpty LargeNormal m1 = Some True
    \<and> DLL_Prepend LargeNormal (Sp 56) m1 = Some m2 \<and> DLL_Length LargeNormal m2 = Some 1"
  using DLL_operations[of two_spans LargeNormal "[]" "Sp 8" "[]" "Sp 56"]
  by (auto simp: two_spans_def dll_def linked_def nxt_def prv_def detached_def zero_span_def)

end
