(* ===== verification/PageHeap.thy ===== *)
theory PageHeap
  imports Complex_Main PageMap Span
begin

text \<open>
  The page-level allocator (\<open>page_heap.h\<close>, \<open>page_heap.cc\<close>) of the 64-bit build: the state of
  \<open>PageHeap\<close> and the statics it uses, and every operation.  Page numbers and span lengths are
  natural numbers; the byte counters wrap at 64 bits, \<open>extra\<close> is a 32-bit \<open>int\<close>, and
  \<open>scavenge_counter\<close> is an integer.  A failed \<open>ASSERT\<close>, a crash for want of metadata and an
  access through a null or dead pointer are \<open>None\<close>.

  The operating system is seen through two fields: \<open>os_grants\<close> holds the answers to the coming
  calls of \<open>TCMalloc_SystemAlloc\<close> (\<open>None\<close> for a refusal, otherwise the address and the size of the
  region it can give, which must be at least the size asked for), and \<open>os_released\<close> records the
  calls of \<open>TCMalloc_SystemRelease\<close>, the latest first.  \<open>GetStackTrace\<close> is the parameter
  \<open>stack_pcs\<close>, and the \<open>double\<close> arithmetic of the release rate is done with rational numbers.
\<close>

section \<open>State\<close>

record stack_trace =
  st_size :: nat
  st_depth :: nat
  st_stack :: "nat list"
  st_link :: nat

definition kMaxStackDepth :: nat where [simp]: "kMaxStackDepth = 31"
definition sizeof_StackTrace :: nat where [simp]: "sizeof_StackTrace = 264"

record pageheap =
  mem :: span_mem
  span_allocator :: allocator
  pagemap :: "spanptr pagemap3"
  pagemap_cache :: packed_cache
  system_bytes :: nat
  free_bytes :: nat
  unmapped_bytes :: nat
  scavenge_counter :: int
  release_index :: nat
  stacktrace_allocator :: allocator
  traces :: "nat \<Rightarrow> stack_trace option"
  growth_stacks :: nat
  os_grants :: "(nat \<times> nat) option list"
  os_released :: "(nat \<times> nat) list"

record env =
  release_rate :: rat
  stack_pcs :: "nat list"

definition kPageMapBigAllocationThreshold :: nat where [simp]: "kPageMapBigAllocationThreshold = 134217728"
definition kMinSystemAlloc :: nat where [simp]: "kMinSystemAlloc = kMaxPages"
definition kMaxReleaseDelay :: nat where [simp]: "kMaxReleaseDelay = 1048576"
definition kDefaultReleaseDelay :: nat where [simp]: "kDefaultReleaseDelay = 262144"

text \<open>The number of bits of a page number, \<open>BITS - kPageShift\<close> of \<open>MapSelector\<close>.\<close>

definition page_bits :: nat where [simp]: "page_bits = 35"

text \<open>\<open>length << kPageShift\<close> on 64 bits.\<close>

definition span_bytes :: "nat \<Rightarrow> nat" where
  "span_bytes len = (len * kPageSize) mod two64"

text \<open>The list for free spans of a length: \<open>&free_[length]\<close> or \<open>&large_\<close>.\<close>

definition normal_list :: "nat \<Rightarrow> spanptr" where
  "normal_list len = (if len < kMaxPages then FreeNormal len else LargeNormal)"

definition returned_list :: "nat \<Rightarrow> spanptr" where
  "returned_list len = (if len < kMaxPages then FreeReturned len else LargeReturned)"

section \<open>Access to spans and the page map\<close>

definition modify :: "spanptr \<Rightarrow> (span \<Rightarrow> span) \<Rightarrow> pageheap \<Rightarrow> pageheap option" where
  "modify p f h = do { m \<leftarrow> upd f p (mem h); Some (h\<lparr>mem := m\<rparr>) }"

definition GetDescriptor :: "pageheap \<Rightarrow> nat \<Rightarrow> spanptr option" where
  "GetDescriptor h p = pm3_get page_bits (pagemap h) p"

definition pagemap_set :: "nat \<Rightarrow> spanptr \<Rightarrow> pageheap \<Rightarrow> pageheap option" where
  "pagemap_set k p h = do { pm \<leftarrow> pm3_set page_bits k (Some p) (pagemap h); Some (h\<lparr>pagemap := pm\<rparr>) }"

definition RecordSpan :: "spanptr \<Rightarrow> pageheap \<Rightarrow> pageheap option" where
  "RecordSpan p h = do {
     s \<leftarrow> mem h p;
     h \<leftarrow> pagemap_set (sp_start s) p h;
     if sp_length s > 1 then pagemap_set (sp_start s + sp_length s - 1) p h else Some h }"

definition heap_NewSpan :: "nat \<Rightarrow> nat \<Rightarrow> pageheap \<Rightarrow> (spanptr \<times> pageheap) option" where
  "heap_NewSpan start len h = do {
     (p, m, a) \<leftarrow> NewSpan start len (mem h, span_allocator h);
     Some (p, h\<lparr>mem := m, span_allocator := a\<rparr>) }"

definition heap_DeleteSpan :: "spanptr \<Rightarrow> pageheap \<Rightarrow> pageheap option" where
  "heap_DeleteSpan p h = do {
     (m, a) \<leftarrow> DeleteSpan p (mem h, span_allocator h);
     Some (h\<lparr>mem := m, span_allocator := a\<rparr>) }"

definition GetSizeClassIfCached :: "pageheap \<Rightarrow> nat \<Rightarrow> nat option" where
  "GetSizeClassIfCached h p = GetOrDefault page_bits 64 p 0 (pagemap_cache h)"

definition CacheSizeClass :: "nat \<Rightarrow> nat \<Rightarrow> pageheap \<Rightarrow> pageheap option" where
  "CacheSizeClass p cl h = do { c \<leftarrow> Put page_bits 64 p cl (pagemap_cache h); Some (h\<lparr>pagemap_cache := c\<rparr>) }"

definition Check :: "pageheap \<Rightarrow> bool option" where
  "Check h = do {
     e \<leftarrow> DLL_IsEmpty (FreeNormal 0) (mem h);
     check e;
     e \<leftarrow> DLL_IsEmpty (FreeReturned 0) (mem h);
     check e;
     Some True }"

text \<open>\<open>ASSERT(Check())\<close>\<close>

definition assert_Check :: "pageheap \<Rightarrow> unit option" where
  "assert_Check h = do { b \<leftarrow> Check h; check b }"

section \<open>The free lists\<close>

definition PrependToFreeList :: "spanptr \<Rightarrow> pageheap \<Rightarrow> pageheap option" where
  "PrependToFreeList p h = do {
     s \<leftarrow> mem h p;
     check (sp_location s \<noteq> IN_USE);
     if sp_location s = ON_NORMAL_FREELIST then do {
       m \<leftarrow> DLL_Prepend (normal_list (sp_length s)) p (mem h);
       Some (h\<lparr>free_bytes := add64 (free_bytes h) (span_bytes (sp_length s)), mem := m\<rparr>) }
     else do {
       m \<leftarrow> DLL_Prepend (returned_list (sp_length s)) p (mem h);
       Some (h\<lparr>unmapped_bytes := add64 (unmapped_bytes h) (span_bytes (sp_length s)), mem := m\<rparr>) } }"

definition RemoveFromFreeList :: "spanptr \<Rightarrow> pageheap \<Rightarrow> pageheap option" where
  "RemoveFromFreeList p h = do {
     s \<leftarrow> mem h p;
     check (sp_location s \<noteq> IN_USE);
     let h = (if sp_location s = ON_NORMAL_FREELIST
              then h\<lparr>free_bytes := sub64 (free_bytes h) (span_bytes (sp_length s))\<rparr>
              else h\<lparr>unmapped_bytes := sub64 (unmapped_bytes h) (span_bytes (sp_length s))\<rparr>);
     m \<leftarrow> DLL_Remove p (mem h);
     Some (h\<lparr>mem := m\<rparr>) }"

text \<open>The two merging steps of \<open>MergeIntoFreeList\<close>; \<open>p\<close> and \<open>n\<close> are the original bounds.\<close>

definition merge_prev :: "spanptr \<Rightarrow> nat \<Rightarrow> pageheap \<Rightarrow> pageheap option" where
  "merge_prev spn p h = do {
     s \<leftarrow> mem h spn;
     case GetDescriptor h (p - 1) of
       None \<Rightarrow> Some h
     | Some prev \<Rightarrow> do {
         t \<leftarrow> mem h prev;
         if sp_location t = sp_location s then do {
           check (sp_start t + sp_length t = p);
           let len = sp_length t;
           h \<leftarrow> RemoveFromFreeList prev h;
           h \<leftarrow> heap_DeleteSpan prev h;
           h \<leftarrow> modify spn (\<lambda>s. s\<lparr>sp_start := sp_start s - len\<rparr>) h;
           h \<leftarrow> modify spn (\<lambda>s. s\<lparr>sp_length := sp_length s + len\<rparr>) h;
           s \<leftarrow> mem h spn;
           pagemap_set (sp_start s) spn h }
         else Some h } }"

definition merge_next :: "spanptr \<Rightarrow> nat \<Rightarrow> pageheap \<Rightarrow> pageheap option" where
  "merge_next spn e h = do {
     s \<leftarrow> mem h spn;
     case GetDescriptor h e of
       None \<Rightarrow> Some h
     | Some nx \<Rightarrow> do {
         t \<leftarrow> mem h nx;
         if sp_location t = sp_location s then do {
           check (sp_start t = e);
           let len = sp_length t;
           h \<leftarrow> RemoveFromFreeList nx h;
           h \<leftarrow> heap_DeleteSpan nx h;
           h \<leftarrow> modify spn (\<lambda>s. s\<lparr>sp_length := sp_length s + len\<rparr>) h;
           s \<leftarrow> mem h spn;
           pagemap_set (sp_start s + sp_length s - 1) spn h }
         else Some h } }"

definition MergeIntoFreeList :: "spanptr \<Rightarrow> pageheap \<Rightarrow> pageheap option" where
  "MergeIntoFreeList spn h = do {
     s \<leftarrow> mem h spn;
     check (sp_location s \<noteq> IN_USE);
     let p = sp_start s;
     let n = sp_length s;
     h \<leftarrow> merge_prev spn p h;
     h \<leftarrow> merge_next spn (p + n) h;
     PrependToFreeList spn h }"

section \<open>Carving and splitting\<close>

text \<open>The branch of \<open>Carve\<close> for a leftover of \<open>extra\<close> pages.\<close>

definition carve_leftover :: "spanptr \<Rightarrow> nat \<Rightarrow> nat \<Rightarrow> nat \<Rightarrow> pageheap \<Rightarrow> pageheap option" where
  "carve_leftover spn n old_location extra h = do {
     s \<leftarrow> mem h spn;
     (leftover, h) \<leftarrow> heap_NewSpan (sp_start s + n) extra h;
     h \<leftarrow> modify leftover (\<lambda>s. s\<lparr>sp_location := old_location\<rparr>) h;
     h \<leftarrow> RecordSpan leftover h;
     h \<leftarrow> PrependToFreeList leftover h;
     h \<leftarrow> modify spn (\<lambda>s. s\<lparr>sp_length := n\<rparr>) h;
     s \<leftarrow> mem h spn;
     pagemap_set (sp_start s + n - 1) spn h }"

definition Carve :: "spanptr \<Rightarrow> nat \<Rightarrow> pageheap \<Rightarrow> (spanptr \<times> pageheap) option" where
  "Carve spn n h = do {
     check (n > 0);
     s \<leftarrow> mem h spn;
     check (sp_location s \<noteq> IN_USE);
     let old_location = sp_location s;
     h \<leftarrow> RemoveFromFreeList spn h;
     h \<leftarrow> modify spn (\<lambda>s. s\<lparr>sp_location := IN_USE\<rparr>) h;
     s \<leftarrow> mem h spn;
     let extra = to_int32 (int (sp_length s) - int n);
     check (extra \<ge> 0);
     h \<leftarrow> (if extra > 0 then carve_leftover spn n old_location (nat extra) h else Some h);
     assert_Check h;
     Some (spn, h) }"

text \<open>The \<open>int\<close> \<open>extra\<close> is converted back to a 64-bit \<open>Length\<close> for \<open>NewSpan\<close>.\<close>

definition Split :: "spanptr \<Rightarrow> nat \<Rightarrow> pageheap \<Rightarrow> (spanptr \<times> pageheap) option" where
  "Split spn n h = do {
     check (0 < n);
     s \<leftarrow> mem h spn;
     check (n < sp_length s);
     check (sp_location s = IN_USE);
     check (sp_sizeclass s = 0);
     let extra = to_int32 (int (sp_length s) - int n);
     (leftover, h) \<leftarrow> heap_NewSpan (sp_start s + n) (nat (extra mod 2 ^ 64)) h;
     t \<leftarrow> mem h leftover;
     check (sp_location t = IN_USE);
     h \<leftarrow> RecordSpan leftover h;
     h \<leftarrow> pagemap_set (sp_start s + n - 1) spn h;
     h \<leftarrow> modify spn (\<lambda>s. s\<lparr>sp_length := n\<rparr>) h;
     Some (leftover, h) }"

text \<open>One step of the best-fit search through a large list.\<close>

definition best_fit_step :: "nat \<Rightarrow> nat \<Rightarrow> span_mem \<Rightarrow> spanptr \<Rightarrow> span \<Rightarrow> spanptr option \<Rightarrow> spanptr option option" where
  "best_fit_step n loc m q s best =
     (if sp_length s \<ge> n then do {
        better \<leftarrow> (case best of
            None \<Rightarrow> Some True
          | Some b \<Rightarrow> do {
              t \<leftarrow> m b;
              Some (sp_length s < sp_length t
                    \<or> (sp_length s = sp_length t \<and> sp_start s < sp_start t)) });
        if better then do { check (sp_location s = loc); Some (Some q) } else Some best }
      else Some best)"

definition AllocLarge :: "nat \<Rightarrow> pageheap \<Rightarrow> (spanptr option \<times> pageheap) option" where
  "AllocLarge n h = do {
     best \<leftarrow> dll_for LargeNormal (best_fit_step n ON_NORMAL_FREELIST (mem h)) (mem h) None;
     best \<leftarrow> dll_for LargeReturned (best_fit_step n ON_RETURNED_FREELIST (mem h)) (mem h) best;
     case best of
       None \<Rightarrow> Some (None, h)
     | Some b \<Rightarrow> do { (p, h) \<leftarrow> Carve b n h; Some (Some p, h) } }"

text \<open>Carving the first span of a non-empty list.\<close>

definition carve_first :: "spanptr \<Rightarrow> nat \<Rightarrow> nat \<Rightarrow> pageheap \<Rightarrow> (spanptr option \<times> pageheap) option" where
  "carve_first ll loc n h = do {
     l \<leftarrow> mem h ll;
     q \<leftarrow> sp_next l;
     t \<leftarrow> mem h q;
     check (sp_location t = loc);
     (p, h) \<leftarrow> Carve q n h;
     Some (Some p, h) }"

function search_lists :: "nat \<Rightarrow> nat \<Rightarrow> pageheap \<Rightarrow> (spanptr option \<times> pageheap) option" where
  "search_lists s n h =
     (if s < kMaxPages then
        Option.bind (DLL_IsEmpty (FreeNormal s) (mem h)) (\<lambda>e1.
          if \<not> e1 then carve_first (FreeNormal s) ON_NORMAL_FREELIST n h
          else Option.bind (DLL_IsEmpty (FreeReturned s) (mem h)) (\<lambda>e2.
            if \<not> e2 then carve_first (FreeReturned s) ON_RETURNED_FREELIST n h
            else search_lists (s + 1) n h))
      else AllocLarge n h)"
  by pat_completeness auto
termination
  by (relation "measure (\<lambda>(s, n, h). kMaxPages - s)") auto

declare search_lists.simps [simp del]

definition SearchFreeAndLargeLists :: "nat \<Rightarrow> pageheap \<Rightarrow> (spanptr option \<times> pageheap) option" where
  "SearchFreeAndLargeLists n h = do {
     assert_Check h;
     check (n > 0);
     search_lists n n h }"

section \<open>Releasing memory to the system\<close>

definition ReleaseLastNormalSpan :: "spanptr \<Rightarrow> pageheap \<Rightarrow> (nat \<times> pageheap) option" where
  "ReleaseLastNormalSpan normal h = do {
     l \<leftarrow> mem h normal;
     s \<leftarrow> sp_prev l;
     t \<leftarrow> mem h s;
     check (sp_location t = ON_NORMAL_FREELIST);
     h \<leftarrow> RemoveFromFreeList s h;
     t \<leftarrow> mem h s;
     let n = sp_length t;
     let h = h\<lparr>os_released := (span_bytes (sp_start t), span_bytes (sp_length t)) # os_released h\<rparr>;
     h \<leftarrow> modify s (\<lambda>s. s\<lparr>sp_location := ON_RETURNED_FREELIST\<rparr>) h;
     h \<leftarrow> MergeIntoFreeList s h;
     Some (n, h) }"

text \<open>The \<open>for\<close> loop: at most \<open>k\<close> more rounds, each over the list at \<open>release_index\<close>.\<close>

primrec release_pass :: "nat \<Rightarrow> nat \<Rightarrow> nat \<Rightarrow> pageheap \<Rightarrow> (nat \<times> pageheap) option" where
  "release_pass 0 num_pages released h = Some (released, h)"
| "release_pass (Suc k) num_pages released h =
     (if released < num_pages then do {
        let i = (if release_index h > kMaxPages then 0 else release_index h);
        let h = h\<lparr>release_index := i\<rparr>;
        let ll = (if i = kMaxPages then LargeNormal else FreeNormal i);
        e \<leftarrow> DLL_IsEmpty ll (mem h);
        (released, h) \<leftarrow> (if \<not> e then do {
             (n, h) \<leftarrow> ReleaseLastNormalSpan ll h;
             Some (released + n, h) }
           else Some (released, h));
        release_pass k num_pages released (h\<lparr>release_index := release_index h + 1\<rparr>) }
      else Some (released, h))"

partial_function (option) release_loop ::
  "nat \<Rightarrow> nat \<Rightarrow> nat \<Rightarrow> pageheap \<Rightarrow> (nat \<times> pageheap) option" where
  "release_loop num_pages released prev h =
     (if released < num_pages \<and> released \<noteq> prev then
        Option.bind (release_pass (kMaxPages + 1) num_pages released h)
          (\<lambda>(r, h). release_loop num_pages r released h)
      else Some (released, h))"

declare release_loop.simps [code]

definition ReleaseAtLeastNPages :: "nat \<Rightarrow> pageheap \<Rightarrow> (nat \<times> pageheap) option" where
  "ReleaseAtLeastNPages num_pages h = release_loop num_pages 0 (two64 - 1) h"

definition IncrementalScavenge :: "env \<Rightarrow> nat \<Rightarrow> pageheap \<Rightarrow> pageheap option" where
  "IncrementalScavenge env n h = (
     let h = h\<lparr>scavenge_counter := scavenge_counter h - int n\<rparr> in
     if scavenge_counter h \<ge> 0 then Some h
     else if release_rate env \<le> 1 / 1000000
     then Some (h\<lparr>scavenge_counter := int kDefaultReleaseDelay\<rparr>)
     else do {
       (released_pages, h) \<leftarrow> ReleaseAtLeastNPages 1 h;
       if released_pages = 0 then Some (h\<lparr>scavenge_counter := int kDefaultReleaseDelay\<rparr>)
       else let mult = 1000 / release_rate env;
                wait = mult * of_nat released_pages;
                wait = (if wait > of_nat kMaxReleaseDelay then of_nat kMaxReleaseDelay else wait)
            in Some (h\<lparr>scavenge_counter := \<lfloor>wait\<rfloor>\<rparr>) })"

section \<open>Delete, growth and New\<close>

definition Delete :: "env \<Rightarrow> spanptr \<Rightarrow> pageheap \<Rightarrow> pageheap option" where
  "Delete env spn h = do {
     assert_Check h;
     s \<leftarrow> mem h spn;
     check (sp_location s = IN_USE);
     check (sp_length s > 0);
     check (GetDescriptor h (sp_start s) = Some spn);
     check (GetDescriptor h (sp_start s + sp_length s - 1) = Some spn);
     let n = sp_length s;
     h \<leftarrow> modify spn (\<lambda>s. s\<lparr>sp_sizeclass := 0\<rparr>) h;
     h \<leftarrow> modify spn (\<lambda>s. s\<lparr>sp_sample := False\<rparr>) h;
     h \<leftarrow> modify spn (\<lambda>s. s\<lparr>sp_location := ON_NORMAL_FREELIST\<rparr>) h;
     h \<leftarrow> MergeIntoFreeList spn h;
     h \<leftarrow> IncrementalScavenge env n h;
     assert_Check h;
     Some h }"

text \<open>\<open>TCMalloc_SystemAlloc\<close>: the next region the system can give, if it is large enough.\<close>

definition system_alloc :: "nat \<Rightarrow> pageheap \<Rightarrow> (nat \<times> nat) option \<times> pageheap" where
  "system_alloc bytes h = (case os_grants h of
       [] \<Rightarrow> (None, h)
     | g # gs \<Rightarrow> ((case g of Some (ptr, actual) \<Rightarrow> if bytes \<le> actual then g else None | None \<Rightarrow> None),
                 h\<lparr>os_grants := gs\<rparr>))"

definition RecordGrowth :: "env \<Rightarrow> nat \<Rightarrow> pageheap \<Rightarrow> pageheap option" where
  "RecordGrowth env growth h = do {
     (t, a) \<leftarrow> pha_New sizeof_StackTrace (stacktrace_allocator h);
     let pcs = take (kMaxStackDepth - 1) (stack_pcs env);
     Some (h\<lparr>stacktrace_allocator := a,
             traces := (traces h)(t \<mapsto> \<lparr>st_size = growth, st_depth = length pcs, st_stack = pcs,
                                       st_link = growth_stacks h\<rparr>),
             growth_stacks := t\<rparr>) }"

text \<open>The second half of \<open>GrowHeap\<close>: the system has returned \<open>actual_size\<close> bytes at \<open>ptr\<close>.\<close>

definition grow_with :: "env \<Rightarrow> nat \<Rightarrow> nat \<Rightarrow> pageheap \<Rightarrow> (bool \<times> pageheap) option" where
  "grow_with env ptr actual_size h = do {
     let ask = actual_size div kPageSize;
     h \<leftarrow> RecordGrowth env (span_bytes ask) h;
     let old_system_bytes = system_bytes h;
     let h = h\<lparr>system_bytes := add64 (system_bytes h) (span_bytes ask)\<rparr>;
     let p = ptr div kPageSize;
     check (p > 0);
     let h = (if old_system_bytes < kPageMapBigAllocationThreshold
                 \<and> system_bytes h \<ge> kPageMapBigAllocationThreshold
              then h\<lparr>pagemap := pm3_PreallocateMoreMemory (pagemap h)\<rparr> else h);
     let (ok, pm) = pm3_Ensure page_bits (p - 1) (ask + 2) (pagemap h);
     let h = h\<lparr>pagemap := pm\<rparr>;
     if ok then do {
       (spn, h) \<leftarrow> heap_NewSpan p ask h;
       h \<leftarrow> RecordSpan spn h;
       h \<leftarrow> Delete env spn h;
       assert_Check h;
       Some (True, h) }
     else Some (False, h) }"

definition GrowHeap :: "env \<Rightarrow> nat \<Rightarrow> pageheap \<Rightarrow> (bool \<times> pageheap) option" where
  "GrowHeap env n h = do {
     check (kMaxPages \<ge> kMinSystemAlloc);
     if n > kMaxValidPages then Some (False, h) else do {
       let ask = (if n > kMinSystemAlloc then n else kMinSystemAlloc);
       let (r, h) = system_alloc (span_bytes ask) h;
       let (r, h) = (if r = None \<and> n < ask then system_alloc (span_bytes n) h else (r, h));
       case r of
         None \<Rightarrow> Some (False, h)
       | Some (ptr, actual_size) \<Rightarrow> grow_with env ptr actual_size h } }"

definition New :: "env \<Rightarrow> nat \<Rightarrow> pageheap \<Rightarrow> (spanptr option \<times> pageheap) option" where
  "New env n h = do {
     assert_Check h;
     check (n > 0);
     (result, h) \<leftarrow> SearchFreeAndLargeLists n h;
     if result \<noteq> None then Some (result, h)
     else do {
       (grown, h) \<leftarrow> GrowHeap env n h;
       if \<not> grown then do { assert_Check h; Some (None, h) }
       else SearchFreeAndLargeLists n h } }"

section \<open>Size classes, statistics and checks\<close>

definition RegisterSizeClass :: "spanptr \<Rightarrow> nat \<Rightarrow> pageheap \<Rightarrow> pageheap option" where
  "RegisterSizeClass spn sc h = do {
     s \<leftarrow> mem h spn;
     check (sp_location s = IN_USE);
     check (GetDescriptor h (sp_start s) = Some spn);
     check (GetDescriptor h (sp_start s + sp_length s - 1) = Some spn);
     h \<leftarrow> modify spn (\<lambda>s. s\<lparr>sp_sizeclass := sc mod 256\<rparr>) h;
     ofold (\<lambda>i h. pagemap_set (sp_start s + i) spn h) [1..<sub64 (sp_length s) 1] h }"

definition GetSmallSpanStats :: "pageheap \<Rightarrow> (nat list \<times> nat list) option" where
  "GetSmallSpanStats h =
     ofold (\<lambda>s (ns, rs). do {
         n \<leftarrow> DLL_Length (FreeNormal s) (mem h);
         r \<leftarrow> DLL_Length (FreeReturned s) (mem h);
         Some (ns @ [n], rs @ [r]) }) [0..<kMaxPages] ([], [])"

text \<open>Number of large spans, pages of the normal ones, pages of the returned ones.\<close>

definition GetLargeSpanStats :: "pageheap \<Rightarrow> (nat \<times> nat \<times> nat) option" where
  "GetLargeSpanStats h = do {
     x \<leftarrow> dll_for LargeNormal (\<lambda>_ s (c, np, rp). Some (c + 1, np + sp_length s, rp)) (mem h) (0, 0, 0);
     dll_for LargeReturned (\<lambda>_ s (c, np, rp). Some (c + 1, np, rp + sp_length s)) (mem h) x }"

datatype range_type = INUSE | FREE | UNMAPPED | UNKNOWN

record malloc_range =
  mr_address :: nat
  mr_length :: nat
  mr_type :: range_type
  mr_fraction :: rat

definition GetNextRange :: "sizemap \<Rightarrow> nat \<Rightarrow> pageheap \<Rightarrow> malloc_range option option" where
  "GetNextRange sm start h = (case pm3_Next page_bits (pagemap h) start of
       None \<Rightarrow> Some None
     | Some p \<Rightarrow> do {
         s \<leftarrow> mem h p;
         let len = span_bytes (sp_length s);
         let (ty, fr) =
           (if sp_location s = IN_USE then
              (INUSE, if sp_sizeclass s > 0
                      then of_nat (class_to_size sm (sp_sizeclass s)) * of_nat (sp_refcount s) / of_nat len
                      else 1)
            else if sp_location s = ON_NORMAL_FREELIST then (FREE, 0)
            else if sp_location s = ON_RETURNED_FREELIST then (UNMAPPED, 0)
            else (UNKNOWN, 0));
         Some (Some \<lparr>mr_address = span_bytes (sp_start s), mr_length = len, mr_type = ty, mr_fraction = fr\<rparr>) })"

definition CheckList :: "spanptr \<Rightarrow> nat \<Rightarrow> nat \<Rightarrow> nat \<Rightarrow> pageheap \<Rightarrow> bool option" where
  "CheckList l min_pages max_pages freelist h =
     dll_for l (\<lambda>q s _. do {
         check (sp_location s = freelist);
         check (sp_length s \<ge> min_pages);
         check (sp_length s \<le> max_pages);
         check (GetDescriptor h (sp_start s) = Some q);
         check (GetDescriptor h (sp_start s + sp_length s - 1) = Some q);
         Some True }) (mem h) True"

definition CheckExpensive :: "pageheap \<Rightarrow> bool option" where
  "CheckExpensive h = do {
     result \<leftarrow> Check h;
     CheckList LargeNormal kMaxPages 1000000000 ON_NORMAL_FREELIST h;
     CheckList LargeReturned kMaxPages 1000000000 ON_RETURNED_FREELIST h;
     ofold (\<lambda>s _. do {
         CheckList (FreeNormal s) s s ON_NORMAL_FREELIST h;
         CheckList (FreeReturned s) s s ON_RETURNED_FREELIST h }) [1..<kMaxPages] True;
     Some result }"

section \<open>Construction\<close>

definition heads :: "spanptr set" where
  "heads = FreeNormal ` {..<kMaxPages} \<union> FreeReturned ` {..<kMaxPages} \<union> {LargeNormal, LargeReturned}"

definition PageHeap_init ::
  "bool list \<Rightarrow> allocator \<Rightarrow> allocator \<Rightarrow> (nat \<times> nat) option list \<Rightarrow> packed_cache \<Rightarrow> pageheap option" where
  "PageHeap_init al sa ta grants junk = do {
     pm \<leftarrow> pm3_new al;
     c \<leftarrow> Clear page_bits 64 0 junk;
     let m = (\<lambda>p. case p of Sp _ \<Rightarrow> None | _ \<Rightarrow> Some zero_span);
     m \<leftarrow> DLL_Init LargeNormal m;
     m \<leftarrow> DLL_Init LargeReturned m;
     m \<leftarrow> ofold (\<lambda>i m. do { m \<leftarrow> DLL_Init (FreeNormal i) m; DLL_Init (FreeReturned i) m }) [0..<kMaxPages] m;
     Some \<lparr>mem = m, span_allocator = sa, pagemap = pm, pagemap_cache = c, system_bytes = 0,
           free_bytes = 0, unmapped_bytes = 0, scavenge_counter = 0, release_index = kMaxPages,
           stacktrace_allocator = ta, traces = (\<lambda>_. None), growth_stacks = 0,
           os_grants = grants, os_released = []\<rparr> }"

end
