(* ===== verification/PageHeapInv.thy ===== *)
theory PageHeapInv
  imports PageHeap
begin

text \<open>
  The invariant of the page heap, and what each primitive step does to it.  Most operations take a
  span out of the structure, change it, and put it back, so the invariant \<open>hinv X P h L\<close> has a set
  \<open>X\<close> of spans that are in flux and about which it says nothing.  \<open>P\<close> is the set of pages the heap
  manages and \<open>L\<close> the content of every free list.
\<close>

section \<open>Descriptors\<close>

text \<open>Start, length and location of every span that is not in flux, by address.\<close>

type_synonym descs = "nat \<Rightarrow> (nat \<times> nat \<times> nat) option"

definition desc :: "nat set \<Rightarrow> span_mem \<Rightarrow> descs" where
  "desc X m a = (if a \<in> X then None
     else map_option (\<lambda>s. (sp_start s, sp_length s, sp_location s)) (m (Sp a)))"

definition cover :: "descs \<Rightarrow> nat set" where
  "cover D = {k. \<exists>a s l c. D a = Some (s, l, c) \<and> s \<le> k \<and> k < s + l}"

definition pages_at :: "nat \<Rightarrow> descs \<Rightarrow> nat" where
  "pages_at loc D = (\<Sum>a \<in> dom D. case D a of None \<Rightarrow> 0 | Some (s, l, c) \<Rightarrow> if c = loc then l else 0)"

text \<open>The free list of a span with this location and length.\<close>

definition home :: "nat \<Rightarrow> nat \<Rightarrow> spanptr option" where
  "home c l = (if c = ON_NORMAL_FREELIST then Some (normal_list l)
     else if c = ON_RETURNED_FREELIST then Some (returned_list l) else None)"

lemma home_heads: "home c l = Some k \<Longrightarrow> k \<in> heads"
  by (auto simp: home_def normal_list_def returned_list_def heads_def split: if_splits)

text \<open>Spans are disjoint runs of managed pages, and no two free spans of a kind are adjacent.\<close>

definition descs_ok :: "nat set \<Rightarrow> descs \<Rightarrow> bool" where
  "descs_ok P D \<longleftrightarrow> finite (dom D)
     \<and> (\<forall>a s l c. D a = Some (s, l, c) \<longrightarrow> 0 < l \<and> {s..<s + l} \<subseteq> P \<and> c \<le> 2)
     \<and> (\<forall>a b s l c t k d. D a = Some (s, l, c) \<longrightarrow> D b = Some (t, k, d) \<longrightarrow> a \<noteq> b
          \<longrightarrow> s + l \<le> t \<or> t + k \<le> s)"

definition coalesced :: "descs \<Rightarrow> bool" where
  "coalesced D \<longleftrightarrow> (\<forall>a b s l k c. D a = Some (s, l, c) \<longrightarrow> D b = Some (s + l, k, c) \<longrightarrow> c = IN_USE)"

definition lists_ok :: "(spanptr \<Rightarrow> spanptr list) \<Rightarrow> descs \<Rightarrow> bool" where
  "lists_ok L D \<longleftrightarrow> (\<forall>k \<in> heads. \<forall>p. p \<in> set (L k) \<longleftrightarrow>
     (\<exists>a s l c. p = Sp a \<and> D a = Some (s, l, c) \<and> home c l = Some k))"

definition map_ok :: "nat set \<Rightarrow> spanptr pagemap3 \<Rightarrow> descs \<Rightarrow> bool" where
  "map_ok P pm D \<longleftrightarrow>
     (\<forall>a s l c. D a = Some (s, l, c) \<longrightarrow>
        pm3_get page_bits pm s = Some (Sp a) \<and> pm3_get page_bits pm (s + l - 1) = Some (Sp a))
     \<and> (\<forall>k q. pm3_get page_bits pm k = Some q \<longrightarrow> k \<in> P)
     \<and> finite P
     \<and> (\<forall>k \<in> P. 0 < k \<and> pm3_ensured page_bits pm (k - 1) \<and> pm3_ensured page_bits pm k
          \<and> pm3_ensured page_bits pm (k + 1))"

text \<open>The pages of a region, and the budget: what the heap may ever hold stays below 16 TiB.\<close>

definition grant_pages :: "nat \<times> nat \<Rightarrow> nat set" where
  "grant_pages g = {fst g div kPageSize..<fst g div kPageSize + snd g div kPageSize}"

definition grant_bytes :: "(nat \<times> nat) option \<Rightarrow> nat" where
  "grant_bytes g = (case g of None \<Rightarrow> 0 | Some (p, n) \<Rightarrow> n)"

definition heap_budget :: nat where "heap_budget = 2 ^ 44"

definition os_ok :: "nat set \<Rightarrow> nat \<Rightarrow> (nat \<times> nat) option list \<Rightarrow> bool" where
  "os_ok P bytes gs \<longleftrightarrow>
     (\<forall>p n. Some (p, n) \<in> set gs \<longrightarrow>
        kPageSize \<le> p \<and> p + n + kPageSize \<le> 2 ^ 48 \<and> grant_pages (p, n) \<inter> P = {})
     \<and> sorted_wrt (\<lambda>g g'. \<forall>r r'. g = Some r \<longrightarrow> g' = Some r' \<longrightarrow> grant_pages r \<inter> grant_pages r' = {}) gs
     \<and> kPageSize * card P \<le> bytes \<and> bytes + sum_list (map grant_bytes gs) \<le> heap_budget"

text \<open>
  The pool of descriptors: besides those of the heap, objects \<open>R\<close> are in use that were taken at start-up
  (to reduce cache conflicts) and are never given back.
\<close>

definition span_pool :: "nat set \<Rightarrow> allocator \<Rightarrow> bool" where
  "span_pool A a \<longleftrightarrow> (\<exists>R. R \<inter> A = {} \<and> pool sizeof_Span (A \<union> R) a)"

lemma pool_span: "pool sizeof_Span A a \<Longrightarrow> span_pool A a"
  unfolding span_pool_def by (intro exI[of _ "{}"]) simp

lemma span_pool_finite: "span_pool A a \<Longrightarrow> finite A"
  unfolding span_pool_def using pool_finite by fastforce

lemma span_pool_New:
  assumes "span_pool A a" "0 < spare sizeof_Span a"
  obtains b a' where "pha_New sizeof_Span a = Some (b, a')" "b \<notin> A" "span_pool (insert b A) a'"
    "spare sizeof_Span a \<le> spare sizeof_Span a' + 1"
proof -
  obtain R where R: "R \<inter> A = {}" "pool sizeof_Span (A \<union> R) a" using assms(1) unfolding span_pool_def by blast
  obtain b a' where b: "pha_New sizeof_Span a = Some (b, a')" "b \<notin> A \<union> R" "pool sizeof_Span (insert b (A \<union> R)) a'"
    "spare sizeof_Span a \<le> spare sizeof_Span a' + 1" using pha.new_ok[OF R(2) assms(2)] by blast
  have "span_pool (insert b A) a'" unfolding span_pool_def using R(1) b(2,3) by (intro exI[of _ R]) auto
  then show thesis using b that by blast
qed

lemma span_pool_Delete:
  assumes "span_pool A a" "b \<in> A"
  shows "span_pool (A - {b}) (pha_Delete b a)" "spare sizeof_Span (pha_Delete b a) = spare sizeof_Span a"
proof -
  obtain R where R: "R \<inter> A = {}" "pool sizeof_Span (A \<union> R) a" using assms(1) unfolding span_pool_def by blast
  have "pool sizeof_Span (A \<union> R - {b}) (pha_Delete b a)" and s: "spare sizeof_Span (pha_Delete b a) = spare sizeof_Span a"
    using pha.delete_ok[OF R(2), of b] assms(2) by auto
  moreover have "A \<union> R - {b} = (A - {b}) \<union> R" using R(1) assms(2) by blast
  ultimately show "span_pool (A - {b}) (pha_Delete b a)" unfolding span_pool_def using R(1) by (intro exI[of _ R]) auto
  show "spare sizeof_Span (pha_Delete b a) = spare sizeof_Span a" by (rule s)
qed

definition hinv :: "nat set \<Rightarrow> nat set \<Rightarrow> pageheap \<Rightarrow> (spanptr \<Rightarrow> spanptr list) \<Rightarrow> bool" where
  "hinv X P h L \<longleftrightarrow> (let D = desc X (mem h) in
     dlls (mem h) heads L \<and> lists_ok L D \<and> descs_ok P D \<and> coalesced D \<and> map_ok P (pagemap h) D
     \<and> free_bytes h = kPageSize * pages_at ON_NORMAL_FREELIST D
     \<and> unmapped_bytes h = kPageSize * pages_at ON_RETURNED_FREELIST D
     \<and> span_pool {a. mem h (Sp a) \<noteq> None} (span_allocator h)
     \<and> pool sizeof_StackTrace (dom (traces h)) (stacktrace_allocator h)
     \<and> os_ok P (system_bytes h) (os_grants h))"

text \<open>What no free-list operation touches.\<close>

lemma hinv_other_fields [simp]:
  "hinv X P (h\<lparr>scavenge_counter := c\<rparr>) L = hinv X P h L"
  "hinv X P (h\<lparr>release_index := i\<rparr>) L = hinv X P h L"
  "hinv X P (h\<lparr>os_released := rs\<rparr>) L = hinv X P h L"
  "hinv X P (h\<lparr>pagemap_cache := ca\<rparr>) L = hinv X P h L"
  by (simp_all add: hinv_def Let_def)

lemma hinv_parts:
  assumes "hinv X P h L"
  shows "dlls (mem h) heads L" "lists_ok L (desc X (mem h))" "descs_ok P (desc X (mem h))"
    "coalesced (desc X (mem h))" "map_ok P (pagemap h) (desc X (mem h))"
    "free_bytes h = kPageSize * pages_at ON_NORMAL_FREELIST (desc X (mem h))"
    "unmapped_bytes h = kPageSize * pages_at ON_RETURNED_FREELIST (desc X (mem h))"
    "span_pool {a. mem h (Sp a) \<noteq> None} (span_allocator h)"
    "pool sizeof_StackTrace (dom (traces h)) (stacktrace_allocator h)"
    "os_ok P (system_bytes h) (os_grants h)"
  using assms by (simp_all add: hinv_def Let_def)

subsection \<open>Descriptor maps\<close>

lemma same_shape:
  fixes s t :: span
  assumes "s\<lparr>sp_next := None, sp_prev := None\<rparr> = t\<lparr>sp_next := None, sp_prev := None\<rparr>"
  shows "sp_start s = sp_start t" "sp_length s = sp_length t" "sp_objects s = sp_objects t"
    "sp_refcount s = sp_refcount t" "sp_sizeclass s = sp_sizeclass t"
    "sp_location s = sp_location t" "sp_sample s = sp_sample t"
  using assms by (cases s; cases t; simp)+

lemma shape_at:
  assumes "shape m' = shape m"
  shows "map_option (\<lambda>s. s\<lparr>sp_next := None, sp_prev := None\<rparr>) (m' p)
       = map_option (\<lambda>s. s\<lparr>sp_next := None, sp_prev := None\<rparr>) (m p)"
  using fun_cong[OF assms, of p] by (simp add: shape_def)

lemma shape_live: "shape m' = shape m \<Longrightarrow> m' p = None \<longleftrightarrow> m p = None"
  using shape_at[of m' m p] by (cases "m' p"; cases "m p") auto

lemma shape_fields:
  assumes "shape m' = shape m" "m p = Some t"
  obtains t' where "m' p = Some t'" "sp_start t' = sp_start t" "sp_length t' = sp_length t"
    "sp_location t' = sp_location t" "sp_sizeclass t' = sp_sizeclass t" "sp_objects t' = sp_objects t"
    "sp_refcount t' = sp_refcount t" "sp_sample t' = sp_sample t"
proof -
  obtain t' where t': "m' p = Some t'" using shape_live[OF assms(1)] assms(2) by fastforce
  have "t'\<lparr>sp_next := None, sp_prev := None\<rparr> = t\<lparr>sp_next := None, sp_prev := None\<rparr>"
    using shape_at[OF assms(1), of p] t' assms(2) by simp
  from that[OF t'] same_shape[OF this] show thesis by blast
qed

lemma desc_shape: "shape m' = shape m \<Longrightarrow> desc X m' = desc X m"
proof
  fix a
  assume s: "shape m' = shape m"
  show "desc X m' a = desc X m a"
  proof (cases "m (Sp a)")
    case None
    then show ?thesis using shape_live[OF s] by (simp add: desc_def)
  next
    case (Some t)
    then show ?thesis using shape_fields[OF s Some] by (metis (no_types, lifting) desc_def option.simps(9))
  qed
qed

lemma desc_insert: "desc (insert a X) m = (desc X m)(a := None)"
  by (auto simp: desc_def)

lemma desc_Some: "desc X m a = Some (s, l, c) \<longleftrightarrow>
    a \<notin> X \<and> (\<exists>t. m (Sp a) = Some t \<and> sp_start t = s \<and> sp_length t = l \<and> sp_location t = c)"
  by (auto simp: desc_def)

lemma desc_upd_flux: "a \<in> X \<Longrightarrow> desc X (m(Sp a := t)) = desc X m"
  by (auto simp: desc_def)

lemma desc_join:
  assumes "m (Sp a) = Some t" "a \<in> X"
  shows "desc (X - {a}) m = (desc X m)(a \<mapsto> (sp_start t, sp_length t, sp_location t))"
  using assms by (auto simp: desc_def)

lemma coverI: "D a = Some (s, l, c) \<Longrightarrow> s \<le> k \<Longrightarrow> k < s + l \<Longrightarrow> k \<in> cover D"
  by (auto simp: cover_def)

lemma coverE:
  assumes "k \<in> cover D"
  obtains a s l c where "D a = Some (s, l, c)" "s \<le> k" "k < s + l"
  using assms by (auto simp: cover_def)

lemma cover_upd:
  assumes "D a = None"
  shows "cover (D(a \<mapsto> (s, l, c))) = cover D \<union> {s..<s + l}"
proof (intro set_eqI iffI)
  fix k
  assume "k \<in> cover D \<union> {s..<s + l}"
  then consider "k \<in> cover D" | "s \<le> k" "k < s + l" by auto
  then show "k \<in> cover (D(a \<mapsto> (s, l, c)))"
  proof cases
    case 1
    then obtain b t n d where b: "D b = Some (t, n, d)" "t \<le> k" "k < t + n" by (rule coverE)
    then have "(D(a \<mapsto> (s, l, c))) b = Some (t, n, d)" using assms by auto
    then show ?thesis using b(2,3) by (rule coverI)
  next
    case 2
    then show ?thesis by (intro coverI[of _ a s l c]) auto
  qed
qed (auto elim!: coverE intro: coverI split: if_splits)

lemma cover_remove:
  assumes "descs_ok P D" "D a = Some (s, l, c)"
  shows "cover (D(a := None)) = cover D - {s..<s + l}"
proof (intro set_eqI iffI)
  fix k
  assume "k \<in> cover (D(a := None))"
  then obtain b t n d where b: "D b = Some (t, n, d)" "b \<noteq> a" "t \<le> k" "k < t + n"
    by (auto simp: cover_def split: if_splits)
  moreover have "s + l \<le> t \<or> t + n \<le> s" using assms b(1,2) unfolding descs_ok_def by blast
  ultimately show "k \<in> cover D - {s..<s + l}" by (auto simp: cover_def)
next
  fix k
  assume "k \<in> cover D - {s..<s + l}"
  then obtain b t n d where b: "D b = Some (t, n, d)" "t \<le> k" "k < t + n" "k \<notin> {s..<s + l}"
    by (auto simp: cover_def)
  then have "b \<noteq> a" using assms(2) by auto
  then show "k \<in> cover (D(a := None))" using b by (intro coverI[of _ b t n d]) auto
qed

lemma cover_subset: "descs_ok P D \<Longrightarrow> cover D \<subseteq> P"
  unfolding descs_ok_def cover_def by fastforce

lemma pages_at_remove:
  assumes "finite (dom D)" "D a = Some (s, l, c)"
  shows "pages_at loc D = pages_at loc (D(a := None)) + (if c = loc then l else 0)"
proof -
  let ?w = "\<lambda>D a. case D a of None \<Rightarrow> 0 | Some (s, l, c) \<Rightarrow> if c = loc then l else 0"
  have "pages_at loc D = ?w D a + sum (?w D) (dom D - {a})"
    unfolding pages_at_def using assms by (intro sum.remove) auto
  also have "sum (?w D) (dom D - {a}) = sum (?w (D(a := None))) (dom (D(a := None)))"
    by (rule sum.cong) auto
  finally show ?thesis using assms(2) by (simp add: pages_at_def)
qed

lemma pages_at_insert:
  assumes "finite (dom D)" "D a = None"
  shows "pages_at loc (D(a \<mapsto> (s, l, c))) = pages_at loc D + (if c = loc then l else 0)"
proof -
  have "(D(a \<mapsto> (s, l, c)))(a := None) = D" using assms(2) by auto
  then show ?thesis
    using pages_at_remove[of "D(a \<mapsto> (s, l, c))" a s l c loc] assms(1) by simp
qed

lemma pages_at_le:
  assumes "descs_ok P D" "finite P"
  shows "pages_at loc D \<le> card P"
proof -
  let ?r = "\<lambda>a. case D a of None \<Rightarrow> {} | Some (s, l, c) \<Rightarrow> {s..<s + l}"
  have fin: "finite (?r a)" for a by (simp split: option.split prod.split)
  have disj: "?r a \<inter> ?r b = {}" if "a \<noteq> b" for a b
  proof (cases "D a"; cases "D b")
    fix x y
    assume xy: "D a = Some x" "D b = Some y"
    obtain s l c t k d where "x = (s, l, c)" "y = (t, k, d)" by (cases x; cases y)
    moreover then have "s + l \<le> t \<or> t + k \<le> s"
      using assms(1) xy that unfolding descs_ok_def by blast
    ultimately show ?thesis using xy by auto
  qed auto
  have "pages_at loc D \<le> (\<Sum>a \<in> dom D. card (?r a))"
    unfolding pages_at_def by (rule sum_mono) (auto split: option.split)
  also have "\<dots> = card (\<Union>a \<in> dom D. ?r a)"
    using assms(1) fin disj by (intro card_UN_disjoint[symmetric]) (auto simp: descs_ok_def)
  also have "(\<Union>a \<in> dom D. ?r a) = cover D"
    by (force simp: cover_def split: option.splits)
  also have "card (cover D) \<le> card P"
    using cover_subset[OF assms(1)] assms(2) by (rule card_mono[rotated])
  finally show ?thesis .
qed

section \<open>Leaving and joining\<close>

lemma descs_ok_remove: "descs_ok P D \<Longrightarrow> descs_ok P (D(a := None))"
  unfolding descs_ok_def by (auto split: if_splits)

lemma coalesced_remove: "coalesced D \<Longrightarrow> coalesced (D(a := None))"
  unfolding coalesced_def by (auto split: if_splits)

lemma map_ok_remove: "map_ok P pm D \<Longrightarrow> map_ok P pm (D(a := None))"
  unfolding map_ok_def by (auto split: if_splits)

lemma descs_ok_entry:
  assumes "descs_ok P D" "D a = Some (s, l, c)"
  shows "0 < l" "{s..<s + l} \<subseteq> P" "c \<le> 2" "finite (dom D)"
  using assms unfolding descs_ok_def by blast+

lemma disjoint_runs:
  fixes s t :: nat
  assumes "{s..<s + l} \<inter> {t..<t + k} = {}" "0 < l" "0 < k"
  shows "s + l \<le> t \<or> t + k \<le> s"
proof (rule ccontr)
  assume "\<not> ?thesis"
  then have "max s t \<in> {s..<s + l} \<inter> {t..<t + k}" using assms(2,3) by auto
  then show False using assms(1) by blast
qed

lemma descs_ok_insert:
  assumes "descs_ok P D" "D a = None" "0 < l" "{s..<s + l} \<subseteq> P" "c \<le> 2" "{s..<s + l} \<inter> cover D = {}"
  shows "descs_ok P (D(a \<mapsto> (s, l, c)))"
proof -
  have "s + l \<le> t \<or> t + k \<le> s" if "D b = Some (t, k, d)" for b t k d
  proof (rule disjoint_runs[OF _ assms(3)])
    show "0 < k" using descs_ok_entry(1)[OF assms(1) that] .
    show "{s..<s + l} \<inter> {t..<t + k} = {}" using assms(6) coverI[of D b t k d, OF that] by fastforce
  qed
  then have "(D(a \<mapsto> (s, l, c))) b = Some (t, k, d) \<longrightarrow> (D(a \<mapsto> (s, l, c))) b' = Some (t', k', d') \<longrightarrow>
      b \<noteq> b' \<longrightarrow> t + k \<le> t' \<or> t' + k' \<le> t" for b b' t k d t' k' d'
    using assms(1) unfolding descs_ok_def by (auto split: if_splits; blast)
  then show ?thesis using assms(1,3-5) unfolding descs_ok_def by (auto split: if_splits)
qed

text \<open>No free span of this kind ends where a run begins or begins where it ends.\<close>

definition alone :: "descs \<Rightarrow> nat \<Rightarrow> nat \<Rightarrow> nat \<Rightarrow> bool" where
  "alone D s l c \<longleftrightarrow> c = IN_USE \<or>
     (\<forall>b t k. D b = Some (t, k, c) \<longrightarrow> t + k \<noteq> s \<and> t \<noteq> s + l)"

lemma coalesced_insert: "coalesced D \<Longrightarrow> alone D s l c \<Longrightarrow> 0 < l \<Longrightarrow> coalesced (D(a \<mapsto> (s, l, c)))"
  unfolding coalesced_def alone_def by (auto split: if_splits; blast)

lemma map_ok_insert:
  assumes "map_ok P pm D" "pm3_get page_bits pm s = Some (Sp a)" "pm3_get page_bits pm (s + l - 1) = Some (Sp a)"
  shows "map_ok P pm (D(a \<mapsto> (s, l, c)))"
  using assms unfolding map_ok_def by (auto split: if_splits)

text \<open>Setting a page that no span ends on.\<close>

lemma map_ok_set:
  assumes "map_ok P pm D" "descs_ok P D" "k \<in> P" "k \<notin> cover D"
  shows "\<exists>pm'. pm3_set page_bits k (Some p) pm = Some pm' \<and> map_ok P pm' D
    \<and> (\<forall>j. pm3_get page_bits pm' j = (if j = k then Some p else pm3_get page_bits pm j))"
proof -
  have "pm3_ensured page_bits pm k" using assms(1,3) by (simp add: map_ok_def)
  then obtain pm' where pm': "pm3_set page_bits k (Some p) pm = Some pm'" using pm3_set_defined by blast
  have g: "pm3_get page_bits pm' j = (if j = k then Some p else pm3_get page_bits pm j)"
    and e: "pm3_ensured page_bits pm' j = pm3_ensured page_bits pm j" for j
    using pm3_get_set[OF pm'] pm3_ensured_set[OF pm'] by auto
  have "s \<noteq> k \<and> s + l - 1 \<noteq> k" if "D a = Some (s, l, c)" for a s l c
    using assms(4) coverI[of D a s l c, OF that, of s] coverI[of D a s l c, OF that, of "s + l - 1"]
      descs_ok_entry(1)[OF assms(2) that] by auto
  then have "map_ok P pm' D" using assms(1,3) unfolding map_ok_def g e by auto
  then show ?thesis using pm' g by blast
qed

section \<open>Consequences of the invariant\<close>

lemma heap_budget_less: "heap_budget < two64"
  by (simp add: heap_budget_def two64_def)

lemma hinv_finite: "hinv X P h L \<Longrightarrow> finite P"
  by (simp add: hinv_def Let_def map_ok_def)

lemma hinv_pages:
  assumes "hinv X P h L"
  shows "kPageSize * card P \<le> heap_budget" "kPageSize * pages_at c (desc X (mem h)) \<le> heap_budget"
proof -
  show le: "kPageSize * card P \<le> heap_budget"
    using hinv_parts(10)[OF assms] unfolding os_ok_def by linarith
  have "pages_at c (desc X (mem h)) \<le> card P"
    using pages_at_le hinv_parts(3)[OF assms] hinv_finite[OF assms] by blast
  then have "kPageSize * pages_at c (desc X (mem h)) \<le> kPageSize * card P" by (rule mult_le_mono2)
  then show "kPageSize * pages_at c (desc X (mem h)) \<le> heap_budget" using le by linarith
qed

lemma run_le_card: "finite P \<Longrightarrow> {s..<s + l} \<subseteq> P \<Longrightarrow> l \<le> card P" for s l :: nat
  using card_mono[of P "{s..<s + l}"] by simp

lemma span_bytes_run:
  assumes "hinv X P h L" "{s..<s + l} \<subseteq> P"
  shows "span_bytes l = kPageSize * l" "l < 2 ^ 31 + 1"
proof -
  have "kPageSize * l \<le> kPageSize * card P"
    using run_le_card[OF hinv_finite[OF assms(1)] assms(2)] by (rule mult_le_mono2)
  then have le: "kPageSize * l \<le> heap_budget" using hinv_pages(1)[OF assms(1)] by linarith
  then show "span_bytes l = kPageSize * l" using heap_budget_less by (simp add: span_bytes_def mult.commute)
  show "l < 2 ^ 31 + 1" using le by (simp add: heap_budget_def)
qed

text \<open>The spans that are on no free list.\<close>

definition idle :: "descs \<Rightarrow> spanptr \<Rightarrow> bool" where
  "idle D u \<longleftrightarrow> u \<notin> heads \<and> (\<forall>b s l c. u = Sp b \<longrightarrow> D b = Some (s, l, c) \<longrightarrow> c = IN_USE)"

lemma idle_off_lists:
  assumes "lists_ok L D" "idle D u"
  shows "u \<notin> on_lists heads L"
  using assms unfolding lists_ok_def idle_def on_lists_def home_def by (auto split: if_splits)

lemma Sp_heads [simp]: "Sp a \<notin> heads"
  by (auto simp: heads_def)

lemma idle_flux: "D a = None \<Longrightarrow> idle D (Sp a)"
  by (simp add: idle_def)

lemma idle_remove: "idle D u \<Longrightarrow> idle (D(a := None)) u"
  by (auto simp: idle_def)

lemma hinv_frame_mem:
  assumes "hinv X P h L" "\<And>u. u \<in> on_lists heads L \<Longrightarrow> m' u = mem h u"
    and "desc X m' = desc X (mem h)" "{a. m' (Sp a) \<noteq> None} = {a. mem h (Sp a) \<noteq> None}"
  shows "hinv X P (h\<lparr>mem := m'\<rparr>) L"
proof -
  have "dlls m' heads L = dlls (mem h) heads L"
    by (rule dlls_cong) (simp add: nxt_def prv_def assms(2))
  then show ?thesis using assms(1,3,4) by (simp add: hinv_def Let_def)
qed

section \<open>The primitive steps\<close>

lemma lists_ok_remove:
  assumes "lists_ok L D" "D a = Some (s, l, c)" "home c l = Some k" "distinct (L k)"
  shows "lists_ok (L(k := remove1 (Sp a) (L k))) (D(a := None))"
  unfolding lists_ok_def
proof (intro ballI allI)
  fix k' p
  assume k': "k' \<in> heads"
  have "p \<in> set ((L(k := remove1 (Sp a) (L k))) k') \<longleftrightarrow> p \<in> set (L k') \<and> \<not> (k' = k \<and> p = Sp a)"
    using assms(4) by (auto simp: set_remove1_eq)
  also have "\<dots> \<longleftrightarrow> (\<exists>b s l c. p = Sp b \<and> D b = Some (s, l, c) \<and> home c l = Some k') \<and> \<not> (k' = k \<and> p = Sp a)"
    using assms(1) k' by (simp add: lists_ok_def)
  also have "\<dots> \<longleftrightarrow> (\<exists>b s l c. p = Sp b \<and> (D(a := None)) b = Some (s, l, c) \<and> home c l = Some k')"
    using assms(2,3) by (cases p) (auto split: if_splits)
  finally show "p \<in> set ((L(k := remove1 (Sp a) (L k))) k') \<longleftrightarrow>
      (\<exists>b s l c. p = Sp b \<and> (D(a := None)) b = Some (s, l, c) \<and> home c l = Some k')" .
qed

lemma lists_ok_insert:
  assumes "lists_ok L D" "D a = None" "home c l = Some k"
  shows "lists_ok (L(k := Sp a # L k)) (D(a \<mapsto> (s, l, c)))"
  unfolding lists_ok_def
proof (intro ballI allI)
  fix k' p
  assume k': "k' \<in> heads"
  have "p \<in> set ((L(k := Sp a # L k)) k') \<longleftrightarrow> (k' = k \<and> p = Sp a) \<or>
      (\<exists>b s l c. p = Sp b \<and> D b = Some (s, l, c) \<and> home c l = Some k')"
    using assms(1) k' by (auto simp: lists_ok_def)
  also have "\<dots> \<longleftrightarrow> (\<exists>b s' l' c'. p = Sp b \<and> (D(a \<mapsto> (s, l, c))) b = Some (s', l', c') \<and> home c' l' = Some k')"
    using assms(2,3) by (cases p) (auto split: if_splits)
  finally show "p \<in> set ((L(k := Sp a # L k)) k') \<longleftrightarrow>
      (\<exists>b s' l' c'. p = Sp b \<and> (D(a \<mapsto> (s, l, c))) b = Some (s', l', c') \<and> home c' l' = Some k')" .
qed

lemma lists_ok_idle:
  assumes "D a = None" "home c l = None"
  shows "lists_ok L (D(a \<mapsto> (s, l, c))) = lists_ok L D"
proof -
  have "(\<exists>b s' l' c'. p = Sp b \<and> (D(a \<mapsto> (s, l, c))) b = Some (s', l', c') \<and> home c' l' = Some k) \<longleftrightarrow>
      (\<exists>b s' l' c'. p = Sp b \<and> D b = Some (s', l', c') \<and> home c' l' = Some k)" for p k
    using assms by (cases p) auto
  then show ?thesis by (simp only: lists_ok_def)
qed

lemma home_free: "0 < c \<Longrightarrow> c \<le> 2 \<Longrightarrow> \<exists>k. home c l = Some k"
  by (auto simp: home_def numeral_2_eq_2 le_Suc_eq)

text \<open>Taking a free span off its list puts it in flux.\<close>

lemma RemoveFromFreeList_hinv:
  assumes "hinv X P h L" "desc X (mem h) a = Some (s, l, c)" "c \<noteq> IN_USE"
  obtains m' f u L' where
    "RemoveFromFreeList (Sp a) h = Some (h\<lparr>mem := m', free_bytes := f, unmapped_bytes := u\<rparr>)"
    "hinv (insert a X) P (h\<lparr>mem := m', free_bytes := f, unmapped_bytes := u\<rparr>) L'"
    "shape m' = shape (mem h)" "detached m' (Sp a)" "\<And>v. idle (desc X (mem h)) v \<Longrightarrow> m' v = mem h v"
proof -
  let ?D = "desc X (mem h)"
  note I = hinv_parts[OF assms(1)]
  obtain t where t: "mem h (Sp a) = Some t" "sp_start t = s" "sp_length t = l" "sp_location t = c"
    using assms(2) by (auto simp: desc_Some)
  note E = descs_ok_entry[of P ?D a s l c, OF I(3) assms(2)]
  obtain k where k: "home c l = Some k" using home_free E(3) assms(3) by auto
  then have kh: "k \<in> heads" by (rule home_heads)
  have on: "Sp a \<in> set (L k)" using I(2) assms(2) k kh unfolding lists_ok_def by blast
  obtain m' where m': "DLL_Remove (Sp a) (mem h) = Some m'" "dlls m' heads (L(k := remove1 (Sp a) (L k)))"
    "shape m' = shape (mem h)" "detached m' (Sp a)" "\<forall>u. u \<notin> on_lists heads L \<longrightarrow> m' u = mem h u"
    using span_lists.remove_law[OF I(1) kh on] by blast
  define f where "f = (if c = ON_NORMAL_FREELIST then sub64 (free_bytes h) (span_bytes l) else free_bytes h)"
  define u where "u = (if c = ON_NORMAL_FREELIST then unmapped_bytes h else sub64 (unmapped_bytes h) (span_bytes l))"
  have R: "RemoveFromFreeList (Sp a) h = Some (h\<lparr>mem := m', free_bytes := f, unmapped_bytes := u\<rparr>)"
    using t m'(1) assms(3) by (simp add: RemoveFromFreeList_def f_def u_def)
  have D': "desc (insert a X) m' = ?D(a := None)" by (simp add: desc_insert desc_shape[OF m'(3)])
  have at: "pages_at loc ?D = pages_at loc (?D(a := None)) + (if c = loc then l else 0)" for loc
    by (rule pages_at_remove[OF E(4) assms(2)])
  have bud: "kPageSize * pages_at loc ?D < two64" for loc
    using hinv_pages(2)[OF assms(1)] heap_budget_less by (meson order_le_less_trans)
  have fu: "f = kPageSize * pages_at ON_NORMAL_FREELIST (?D(a := None))"
    "u = kPageSize * pages_at ON_RETURNED_FREELIST (?D(a := None))"
    using I(6,7) at[of ON_NORMAL_FREELIST] at[of ON_RETURNED_FREELIST] bud[of 1] bud[of 2]
      span_bytes_run(1)[OF assms(1) E(2)] assms(3) E(3)
    by (auto simp: f_def u_def sub64_exact)
  have "lists_ok (L(k := remove1 (Sp a) (L k))) (?D(a := None))"
    using I(1,2) kh assms(2) k by (intro lists_ok_remove) (auto dest: dlls_dll simp: dll_def)
  then have "hinv (insert a X) P (h\<lparr>mem := m', free_bytes := f, unmapped_bytes := u\<rparr>) (L(k := remove1 (Sp a) (L k)))"
    using I m'(2) fu descs_ok_remove coalesced_remove map_ok_remove
    by (simp add: hinv_def Let_def D' shape_live[OF m'(3)])
  then show thesis
    using that[OF R _ m'(3,4)] m'(5) idle_off_lists[OF I(2)] by blast
qed

text \<open>Adding a detached span in flux to the list of its location and length.\<close>

lemma PrependToFreeList_hinv:
  assumes "hinv X P h L" "a \<in> X" "mem h (Sp a) = Some t" "detached (mem h) (Sp a)"
    and "sp_location t \<noteq> IN_USE" "sp_location t \<le> 2" "0 < sp_length t"
    and "{sp_start t..<sp_start t + sp_length t} \<subseteq> P"
    and "{sp_start t..<sp_start t + sp_length t} \<inter> cover (desc X (mem h)) = {}"
    and "alone (desc X (mem h)) (sp_start t) (sp_length t) (sp_location t)"
    and "GetDescriptor h (sp_start t) = Some (Sp a)"
    and "GetDescriptor h (sp_start t + sp_length t - 1) = Some (Sp a)"
  obtains m' f u L' where
    "PrependToFreeList (Sp a) h = Some (h\<lparr>mem := m', free_bytes := f, unmapped_bytes := u\<rparr>)"
    "hinv (X - {a}) P (h\<lparr>mem := m', free_bytes := f, unmapped_bytes := u\<rparr>) L'"
    "shape m' = shape (mem h)" "\<And>v. idle (desc X (mem h)) v \<Longrightarrow> v \<noteq> Sp a \<Longrightarrow> m' v = mem h v"
proof -
  let ?D = "desc X (mem h)" and ?s = "sp_start t" and ?l = "sp_length t" and ?c = "sp_location t"
  note I = hinv_parts[OF assms(1)]
  have Da: "?D a = None" using assms(2) by (simp add: desc_def)
  obtain k where k: "home ?c ?l = Some k" using home_free assms(5,6) by auto
  then have kh: "k \<in> heads" by (rule home_heads)
  have off: "Sp a \<notin> on_lists heads L" by (rule idle_off_lists[OF I(2)]) (rule idle_flux, rule Da)
  obtain m' where m': "DLL_Prepend k (Sp a) (mem h) = Some m'" "dlls m' heads (L(k := Sp a # L k))"
    "shape m' = shape (mem h)" "\<forall>u. u \<notin> insert (Sp a) (on_lists heads L) \<longrightarrow> m' u = mem h u"
    using span_lists.prepend_law[OF I(1) kh assms(4) off] by blast
  define f where "f = (if ?c = ON_NORMAL_FREELIST then add64 (free_bytes h) (span_bytes ?l) else free_bytes h)"
  define u where "u = (if ?c = ON_NORMAL_FREELIST then unmapped_bytes h else add64 (unmapped_bytes h) (span_bytes ?l))"
  have R: "PrependToFreeList (Sp a) h = Some (h\<lparr>mem := m', free_bytes := f, unmapped_bytes := u\<rparr>)"
    using assms(3,5,6) m'(1) k by (auto simp: PrependToFreeList_def f_def u_def home_def split: if_splits)
  obtain t' where t': "m' (Sp a) = Some t'" "sp_start t' = ?s" "sp_length t' = ?l" "sp_location t' = ?c"
    using shape_fields[OF m'(3) assms(3)] by metis
  have D': "desc (X - {a}) m' = ?D(a \<mapsto> (?s, ?l, ?c))"
    using desc_join[of m' a t' X, OF t'(1) assms(2)] t'(2-4) by (simp add: desc_shape[OF m'(3)])
  let ?D' = "?D(a \<mapsto> (?s, ?l, ?c))"
  have ok: "descs_ok P ?D'" by (rule descs_ok_insert[OF I(3) Da assms(7,8,6,9)])
  have fin: "finite (dom ?D)" using I(3) by (simp add: descs_ok_def)
  have at: "pages_at loc ?D' = pages_at loc ?D + (if ?c = loc then ?l else 0)" for loc
    by (rule pages_at_insert[OF fin Da])
  have bud: "kPageSize * pages_at loc ?D' < two64" for loc
  proof -
    have "kPageSize * pages_at loc ?D' \<le> kPageSize * card P"
      using pages_at_le[OF ok hinv_finite[OF assms(1)]] by (rule mult_le_mono2)
    then show ?thesis using hinv_pages(1)[OF assms(1)] heap_budget_less by linarith
  qed
  have fu: "f = kPageSize * pages_at ON_NORMAL_FREELIST ?D'"
    "u = kPageSize * pages_at ON_RETURNED_FREELIST ?D'"
    using I(6,7) at[of ON_NORMAL_FREELIST] at[of ON_RETURNED_FREELIST] bud[of 1] bud[of 2]
      span_bytes_run(1)[OF assms(1,8)] assms(5,6)
    by (auto simp: f_def u_def add64_exact distrib_left)
  have "hinv (X - {a}) P (h\<lparr>mem := m', free_bytes := f, unmapped_bytes := u\<rparr>) (L(k := Sp a # L k))"
    using I m'(2) fu ok lists_ok_insert[OF I(2) Da k] coalesced_insert[OF I(4) assms(10,7)]
      map_ok_insert[OF I(5)] assms(11,12)
    by (simp add: hinv_def Let_def D' shape_live[OF m'(3)] GetDescriptor_def)
  then show thesis using that[OF R _ m'(3)] m'(4) idle_off_lists[OF I(2)] by blast
qed

text \<open>The fields of a span in flux are free to change; so may the links, which lead nowhere.\<close>

lemma modify_Some: "mem h p = Some t \<Longrightarrow> modify p g h = Some (h\<lparr>mem := (mem h)(p \<mapsto> g t)\<rparr>)"
  by (simp add: modify_def upd_def)

lemma hinv_modify:
  assumes "hinv X P h L" "a \<in> X" "mem h (Sp a) = Some t"
  shows "hinv X P (h\<lparr>mem := (mem h)(Sp a \<mapsto> t')\<rparr>) L"
proof (rule hinv_frame_mem[OF assms(1)])
  have "Sp a \<notin> on_lists heads L"
    by (rule idle_off_lists[OF hinv_parts(2)[OF assms(1)]]) (simp add: idle_flux desc_def assms(2))
  then show "((mem h)(Sp a \<mapsto> t')) u = mem h u" if "u \<in> on_lists heads L" for u using that by auto
  show "desc X ((mem h)(Sp a \<mapsto> t')) = desc X (mem h)" by (rule desc_upd_flux[OF assms(2)])
  show "{b. ((mem h)(Sp a \<mapsto> t')) (Sp b) \<noteq> None} = {b. mem h (Sp b) \<noteq> None}" using assms(3) by auto
qed

lemma heap_NewSpan_hinv:
  assumes "hinv X P h L" "0 < spare sizeof_Span (span_allocator h)"
  obtains b sa where
    "heap_NewSpan s l h = Some (Sp b, h\<lparr>mem := (mem h)(Sp b \<mapsto> zero_span\<lparr>sp_start := s, sp_length := l\<rparr>),
       span_allocator := sa\<rparr>)"
    "hinv (insert b X) P (h\<lparr>mem := (mem h)(Sp b \<mapsto> zero_span\<lparr>sp_start := s, sp_length := l\<rparr>),
       span_allocator := sa\<rparr>) L"
    "mem h (Sp b) = None" "spare sizeof_Span (span_allocator h) \<le> spare sizeof_Span sa + 1"
proof -
  note I = hinv_parts[OF assms(1)]
  obtain b sa where b: "pha_New sizeof_Span (span_allocator h) = Some (b, sa)"
    "b \<notin> {a. mem h (Sp a) \<noteq> None}" "span_pool (insert b {a. mem h (Sp a) \<noteq> None}) sa"
    "spare sizeof_Span (span_allocator h) \<le> spare sizeof_Span sa + 1"
    by (rule span_pool_New[OF I(8) assms(2)]) (rule that)
  let ?m = "(mem h)(Sp b \<mapsto> zero_span\<lparr>sp_start := s, sp_length := l\<rparr>)"
  have R: "heap_NewSpan s l h = Some (Sp b, h\<lparr>mem := ?m, span_allocator := sa\<rparr>)"
    using b(1) by (simp add: heap_NewSpan_def NewSpan_def)
  have Db: "desc X (mem h) b = None" using b(2) by (simp add: desc_def)
  have D': "desc (insert b X) ?m = desc X (mem h)"
    using b(2) by (auto simp: desc_def)
  have "Sp b \<notin> on_lists heads L" by (rule idle_off_lists[OF I(2)]) (rule idle_flux, rule Db)
  then have "dlls ?m heads L = dlls (mem h) heads L"
    by (intro dlls_cong) (auto simp: nxt_def prv_def)
  moreover have "{a. ?m (Sp a) \<noteq> None} = insert b {a. mem h (Sp a) \<noteq> None}" by auto
  ultimately have "hinv (insert b X) P (h\<lparr>mem := ?m, span_allocator := sa\<rparr>) L"
    using I b(3) by (simp add: hinv_def Let_def D')
  then show thesis using that[OF R] b(2,4) by auto
qed

lemma heap_DeleteSpan_hinv:
  assumes "hinv X P h L" "a \<in> X" "mem h (Sp a) \<noteq> None"
  obtains sa where
    "heap_DeleteSpan (Sp a) h = Some (h\<lparr>mem := (mem h)(Sp a := None), span_allocator := sa\<rparr>)"
    "hinv (X - {a}) P (h\<lparr>mem := (mem h)(Sp a := None), span_allocator := sa\<rparr>) L"
    "spare sizeof_Span sa = spare sizeof_Span (span_allocator h)"
proof -
  note I = hinv_parts[OF assms(1)]
  let ?m = "(mem h)(Sp a := None)" and ?sa = "pha_Delete a (span_allocator h)"
  have R: "heap_DeleteSpan (Sp a) h = Some (h\<lparr>mem := ?m, span_allocator := ?sa\<rparr>)"
    by (simp add: heap_DeleteSpan_def DeleteSpan_def)
  have p: "span_pool ({b. mem h (Sp b) \<noteq> None} - {a}) ?sa"
    "spare sizeof_Span ?sa = spare sizeof_Span (span_allocator h)"
    using span_pool_Delete[OF I(8), of a] assms(3) by auto
  have D': "desc (X - {a}) ?m = desc X (mem h)"
    using assms(2) by (auto simp: desc_def)
  have "Sp a \<notin> on_lists heads L"
    by (rule idle_off_lists[OF I(2)]) (simp add: idle_flux desc_def assms(2))
  then have "dlls ?m heads L = dlls (mem h) heads L"
    by (intro dlls_cong) (auto simp: nxt_def prv_def)
  moreover have "{b. ?m (Sp b) \<noteq> None} = {b. mem h (Sp b) \<noteq> None} - {a}" by auto
  ultimately have "hinv (X - {a}) P (h\<lparr>mem := ?m, span_allocator := ?sa\<rparr>) L"
    using I p(1) by (simp add: hinv_def Let_def D')
  then show thesis using that[OF R] p(2) by blast
qed

lemma pagemap_set_hinv:
  assumes "hinv X P h L" "k \<in> P" "k \<notin> cover (desc X (mem h))"
  obtains pm where "pagemap_set k p h = Some (h\<lparr>pagemap := pm\<rparr>)" "hinv X P (h\<lparr>pagemap := pm\<rparr>) L"
    "\<And>j. GetDescriptor (h\<lparr>pagemap := pm\<rparr>) j = (if j = k then Some p else GetDescriptor h j)"
proof -
  note I = hinv_parts[OF assms(1)]
  obtain pm where pm: "pm3_set page_bits k (Some p) (pagemap h) = Some pm"
    "map_ok P pm (desc X (mem h))"
    "\<forall>j. pm3_get page_bits pm j = (if j = k then Some p else pm3_get page_bits (pagemap h) j)"
    using map_ok_set[OF I(5,3) assms(2,3), of p] by blast
  have "pagemap_set k p h = Some (h\<lparr>pagemap := pm\<rparr>)" using pm(1) by (simp add: pagemap_set_def)
  moreover have "hinv X P (h\<lparr>pagemap := pm\<rparr>) L" using I pm(2) by (simp add: hinv_def Let_def)
  ultimately show thesis using that[of pm] pm(3) by (simp add: GetDescriptor_def)
qed

lemma RecordSpan_hinv:
  assumes "hinv X P h L" "mem h p = Some t" "0 < sp_length t"
    and "{sp_start t..<sp_start t + sp_length t} \<subseteq> P"
    and "{sp_start t..<sp_start t + sp_length t} \<inter> cover (desc X (mem h)) = {}"
  obtains pm where "RecordSpan p h = Some (h\<lparr>pagemap := pm\<rparr>)" "hinv X P (h\<lparr>pagemap := pm\<rparr>) L"
    "\<And>j. GetDescriptor (h\<lparr>pagemap := pm\<rparr>) j =
       (if j = sp_start t \<or> j = sp_start t + sp_length t - 1 then Some p else GetDescriptor h j)"
proof -
  have ends: "sp_start t \<in> {sp_start t..<sp_start t + sp_length t}"
    "sp_start t + sp_length t - 1 \<in> {sp_start t..<sp_start t + sp_length t}" using assms(3) by auto
  then have s: "sp_start t \<in> P" "sp_start t \<notin> cover (desc X (mem h))" using assms(4,5) by blast+
  have e: "sp_start t + sp_length t - 1 \<in> P" "sp_start t + sp_length t - 1 \<notin> cover (desc X (mem h))"
    using ends(2) assms(4,5) by blast+
  obtain pm where pm: "pagemap_set (sp_start t) p h = Some (h\<lparr>pagemap := pm\<rparr>)"
    "hinv X P (h\<lparr>pagemap := pm\<rparr>) L"
    "\<And>j. GetDescriptor (h\<lparr>pagemap := pm\<rparr>) j = (if j = sp_start t then Some p else GetDescriptor h j)"
    using pagemap_set_hinv[OF assms(1) s, of p] by blast
  show thesis
  proof (cases "sp_length t > 1")
    case True
    obtain pm' where pm': "pagemap_set (sp_start t + sp_length t - 1) p (h\<lparr>pagemap := pm\<rparr>)
        = Some (h\<lparr>pagemap := pm\<rparr>\<lparr>pagemap := pm'\<rparr>)"
      "hinv X P (h\<lparr>pagemap := pm\<rparr>\<lparr>pagemap := pm'\<rparr>) L"
      "\<And>j. GetDescriptor (h\<lparr>pagemap := pm\<rparr>\<lparr>pagemap := pm'\<rparr>) j =
        (if j = sp_start t + sp_length t - 1 then Some p else GetDescriptor (h\<lparr>pagemap := pm\<rparr>) j)"
      using pagemap_set_hinv[OF pm(2) e(1), of p] e(2) by auto
    show thesis using pm(1,3) pm' assms(2) True by (intro that[of pm']) (auto simp: RecordSpan_def)
  next
    case False
    then have "sp_start t + sp_length t - 1 = sp_start t" using assms(3) by simp
    then show thesis using pm assms(2) False by (intro that[of pm]) (auto simp: RecordSpan_def)
  qed
qed

text \<open>Putting an allocated span back, and taking one out, changes nothing in the state.\<close>

lemma hinv_join:
  assumes "hinv X P h L" "a \<in> X" "mem h (Sp a) = Some t" "sp_location t = IN_USE" "0 < sp_length t"
    and "{sp_start t..<sp_start t + sp_length t} \<subseteq> P"
    and "{sp_start t..<sp_start t + sp_length t} \<inter> cover (desc X (mem h)) = {}"
    and "GetDescriptor h (sp_start t) = Some (Sp a)"
    and "GetDescriptor h (sp_start t + sp_length t - 1) = Some (Sp a)"
  shows "hinv (X - {a}) P h L"
proof -
  let ?D = "desc X (mem h)" and ?s = "sp_start t" and ?l = "sp_length t"
  note I = hinv_parts[OF assms(1)]
  have Da: "?D a = None" using assms(2) by (simp add: desc_def)
  have D': "desc (X - {a}) (mem h) = ?D(a \<mapsto> (?s, ?l, 0))"
    using desc_join[of "mem h" a t X, OF assms(3,2)] assms(4) by simp
  have ok: "descs_ok P (?D(a \<mapsto> (?s, ?l, 0)))" by (rule descs_ok_insert[OF I(3) Da assms(5,6) _ assms(7)]) simp
  have "finite (dom ?D)" using I(3) by (simp add: descs_ok_def)
  then have at: "pages_at loc (?D(a \<mapsto> (?s, ?l, 0))) = pages_at loc ?D + (if 0 = loc then ?l else 0)" for loc
    using Da by (rule pages_at_insert)
  have "lists_ok L (?D(a \<mapsto> (?s, ?l, 0)))"
    using I(2) lists_ok_idle[of ?D a 0 ?l, OF Da] by (simp add: home_def)
  then show ?thesis
    using I ok at coalesced_insert[OF I(4) _ assms(5), of ?s 0] map_ok_insert[OF I(5)] assms(8,9)
    by (simp add: hinv_def Let_def D' GetDescriptor_def alone_def)
qed

lemma hinv_leave:
  assumes "hinv X P h L" "desc X (mem h) a = Some (s, l, IN_USE)"
  shows "hinv (insert a X) P h L"
proof -
  let ?D = "desc X (mem h)"
  note I = hinv_parts[OF assms(1)]
  have at: "pages_at loc ?D = pages_at loc (?D(a := None)) + (if IN_USE = loc then l else 0)" for loc
    using I(3) assms(2) by (intro pages_at_remove) (auto simp: descs_ok_def)
  have "(?D(a := None))(a \<mapsto> (s, l, 0)) = ?D" using assms(2) by auto
  then have "lists_ok L (?D(a := None))"
    using I(2) lists_ok_idle[of "?D(a := None)" a 0 l L s] by (simp add: home_def)
  then show ?thesis
    using I at[of 1] at[of 2] descs_ok_remove coalesced_remove map_ok_remove
    by (simp add: hinv_def Let_def desc_insert)
qed

lemma assert_Check_hinv:
  assumes "hinv X P h L"
  shows "assert_Check h = Some ()"
proof -
  note I = hinv_parts[OF assms]
  have e: "L k = []" if "k = FreeNormal 0 \<or> k = FreeReturned 0" for k
  proof (rule ccontr)
    have "k \<in> heads" using that by (auto simp: heads_def)
    moreover assume "L k \<noteq> []"
    then obtain p where "p \<in> set (L k)" by (cases "L k") auto
    ultimately obtain a s l c where a: "desc X (mem h) a = Some (s, l, c)" "home c l = Some k"
      using I(2) unfolding lists_ok_def by blast
    then have "l = 0" using that by (auto simp: home_def normal_list_def returned_list_def split: if_splits)
    then show False using descs_ok_entry(1)[of P "desc X (mem h)" a, OF I(3) a(1)] by simp
  qed
  have "DLL_IsEmpty k (mem h) = Some True" if "k = FreeNormal 0 \<or> k = FreeReturned 0" for k
    using dll_IsEmpty[OF dlls_dll[OF I(1)], of k] e[OF that] that by (auto simp: heads_def)
  then show ?thesis by (simp add: assert_Check_def Check_def)
qed

end
