(* ===== verification/PageHeapOps.thy ===== *)
theory PageHeapOps
  imports PageHeapInv
begin

text \<open>
  The operations of the page heap against the invariant: each one succeeds, re-establishes
  \<open>hinv {}\<close>, and changes the descriptors in the way stated.
\<close>

section \<open>Carve and Split\<close>

text \<open>The fields that allocation and coalescing leave alone.\<close>

definition rest :: "pageheap \<Rightarrow> _" where
  "rest h = (system_bytes h, scavenge_counter h, release_index h, stacktrace_allocator h, traces h,
     growth_stacks h, os_grants h, os_released h, pagemap_cache h)"

lemma rest_simps [simp]:
  "rest (h\<lparr>mem := m\<rparr>) = rest h" "rest (h\<lparr>span_allocator := sa\<rparr>) = rest h" "rest (h\<lparr>pagemap := pm\<rparr>) = rest h"
  "rest (h\<lparr>free_bytes := f\<rparr>) = rest h" "rest (h\<lparr>unmapped_bytes := f\<rparr>) = rest h"
  by (simp_all add: rest_def)

abbreviation room :: "pageheap \<Rightarrow> nat" where
  "room h \<equiv> spare sizeof_Span (span_allocator h)"

text \<open>The ends of a span that is not in flux.\<close>

lemma hinv_ends:
  assumes "hinv X P h L" "desc X (mem h) a = Some (s, l, c)"
  shows "GetDescriptor h s = Some (Sp a)" "GetDescriptor h (s + l - 1) = Some (Sp a)"
    "0 < l" "{s..<s + l} \<subseteq> P" "c \<le> 2"
proof -
  have "pm3_get page_bits (pagemap h) s = Some (Sp a)" "pm3_get page_bits (pagemap h) (s + l - 1) = Some (Sp a)"
    using hinv_parts(5)[OF assms(1)] assms(2) unfolding map_ok_def by blast+
  then show "GetDescriptor h s = Some (Sp a)" "GetDescriptor h (s + l - 1) = Some (Sp a)"
    by (simp_all add: GetDescriptor_def)
  show "0 < l" "{s..<s + l} \<subseteq> P" "c \<le> 2"
    using descs_ok_entry[of P "desc X (mem h)" a, OF hinv_parts(3)[OF assms(1)] assms(2)] by blast+
qed

text \<open>The primitive steps again, with the resulting state as a variable.\<close>

lemma Remove_step:
  assumes "hinv X P h L" "desc X (mem h) a = Some (s, l, c)" "c \<noteq> IN_USE"
  obtains h' L' where "RemoveFromFreeList (Sp a) h = Some h'" "hinv (insert a X) P h' L'"
    "shape (mem h') = shape (mem h)" "detached (mem h') (Sp a)"
    "\<forall>v. idle (desc X (mem h)) v \<longrightarrow> mem h' v = mem h v"
    "pagemap h' = pagemap h" "rest h' = rest h" "room h' = room h"
proof (rule RemoveFromFreeList_hinv[OF assms])
  fix m' f u L'
  let ?h' = "h\<lparr>mem := m', free_bytes := f, unmapped_bytes := u\<rparr>"
  assume "RemoveFromFreeList (Sp a) h = Some ?h'" "hinv (insert a X) P ?h' L'"
    "shape m' = shape (mem h)" "detached m' (Sp a)" "\<And>v. idle (desc X (mem h)) v \<Longrightarrow> m' v = mem h v"
  then show thesis using that[of ?h' L'] by simp
qed

lemma Prepend_step:
  assumes "hinv X P h L" "a \<in> X" "mem h (Sp a) = Some t" "detached (mem h) (Sp a)"
    and "sp_location t \<noteq> IN_USE" "sp_location t \<le> 2" "0 < sp_length t"
    and "{sp_start t..<sp_start t + sp_length t} \<subseteq> P"
    and "{sp_start t..<sp_start t + sp_length t} \<inter> cover (desc X (mem h)) = {}"
    and "alone (desc X (mem h)) (sp_start t) (sp_length t) (sp_location t)"
    and "GetDescriptor h (sp_start t) = Some (Sp a)"
    and "GetDescriptor h (sp_start t + sp_length t - 1) = Some (Sp a)"
  obtains h' L' where "PrependToFreeList (Sp a) h = Some h'" "hinv (X - {a}) P h' L'"
    "shape (mem h') = shape (mem h)"
    "\<forall>v. idle (desc X (mem h)) v \<longrightarrow> v \<noteq> Sp a \<longrightarrow> mem h' v = mem h v"
    "pagemap h' = pagemap h" "rest h' = rest h" "room h' = room h"
proof (rule PrependToFreeList_hinv[OF assms])
  fix m' f u L'
  let ?h' = "h\<lparr>mem := m', free_bytes := f, unmapped_bytes := u\<rparr>"
  assume "PrependToFreeList (Sp a) h = Some ?h'" "hinv (X - {a}) P ?h' L'"
    "shape m' = shape (mem h)" "\<And>v. idle (desc X (mem h)) v \<Longrightarrow> v \<noteq> Sp a \<Longrightarrow> m' v = mem h v"
  then show thesis using that[of ?h' L'] by simp
qed

lemma NewSpan_step:
  assumes "hinv X P h L" "0 < room h"
  obtains b h' where "heap_NewSpan s l h = Some (Sp b, h')" "hinv (insert b X) P h' L"
    "mem h (Sp b) = None" "mem h' = (mem h)(Sp b \<mapsto> zero_span\<lparr>sp_start := s, sp_length := l\<rparr>)"
    "pagemap h' = pagemap h" "rest h' = rest h" "room h \<le> room h' + 1"
proof (rule heap_NewSpan_hinv[OF assms, of s l])
  fix b sa
  let ?h' = "h\<lparr>mem := (mem h)(Sp b \<mapsto> zero_span\<lparr>sp_start := s, sp_length := l\<rparr>), span_allocator := sa\<rparr>"
  assume "heap_NewSpan s l h = Some (Sp b, ?h')" "hinv (insert b X) P ?h' L"
    "mem h (Sp b) = None" "room h \<le> spare sizeof_Span sa + 1"
  then show thesis using that[of b ?h'] by simp
qed

lemma DeleteSpan_step:
  assumes "hinv X P h L" "a \<in> X" "mem h (Sp a) \<noteq> None"
  obtains h' where "heap_DeleteSpan (Sp a) h = Some h'" "hinv (X - {a}) P h' L"
    "mem h' = (mem h)(Sp a := None)" "pagemap h' = pagemap h" "rest h' = rest h" "room h' = room h"
proof (rule heap_DeleteSpan_hinv[OF assms])
  fix sa
  let ?h' = "h\<lparr>mem := (mem h)(Sp a := None), span_allocator := sa\<rparr>"
  assume "heap_DeleteSpan (Sp a) h = Some ?h'" "hinv (X - {a}) P ?h' L" "spare sizeof_Span sa = room h"
  then show thesis using that[of ?h'] by simp
qed

lemma Modify_step:
  assumes "hinv X P h L" "a \<in> X" "mem h (Sp a) = Some t"
  obtains h' where "modify (Sp a) g h = Some h'" "hinv X P h' L" "mem h' = (mem h)(Sp a \<mapsto> g t)"
    "pagemap h' = pagemap h" "rest h' = rest h" "room h' = room h"
  using that[of "h\<lparr>mem := (mem h)(Sp a \<mapsto> g t)\<rparr>"] hinv_modify[OF assms] modify_Some[of h "Sp a" t g, OF assms(3)]
  by simp

lemma Set_step:
  assumes "hinv X P h L" "k \<in> P" "k \<notin> cover (desc X (mem h))"
  obtains h' where "pagemap_set k p h = Some h'" "hinv X P h' L" "mem h' = mem h"
    "\<forall>j. GetDescriptor h' j = (if j = k then Some p else GetDescriptor h j)"
    "rest h' = rest h" "room h' = room h"
proof (rule pagemap_set_hinv[OF assms, of p])
  fix pm
  assume "pagemap_set k p h = Some (h\<lparr>pagemap := pm\<rparr>)" "hinv X P (h\<lparr>pagemap := pm\<rparr>) L"
    "\<And>j. GetDescriptor (h\<lparr>pagemap := pm\<rparr>) j = (if j = k then Some p else GetDescriptor h j)"
  then show thesis using that[of "h\<lparr>pagemap := pm\<rparr>"] by simp
qed

lemma Record_step:
  assumes "hinv X P h L" "mem h p = Some t" "0 < sp_length t"
    and "{sp_start t..<sp_start t + sp_length t} \<subseteq> P"
    and "{sp_start t..<sp_start t + sp_length t} \<inter> cover (desc X (mem h)) = {}"
  obtains h' where "RecordSpan p h = Some h'" "hinv X P h' L" "mem h' = mem h"
    "\<forall>j. GetDescriptor h' j =
       (if j = sp_start t \<or> j = sp_start t + sp_length t - 1 then Some p else GetDescriptor h j)"
    "rest h' = rest h" "room h' = room h"
proof (rule RecordSpan_hinv[OF assms])
  fix pm
  assume "RecordSpan p h = Some (h\<lparr>pagemap := pm\<rparr>)" "hinv X P (h\<lparr>pagemap := pm\<rparr>) L"
    "\<And>j. GetDescriptor (h\<lparr>pagemap := pm\<rparr>) j =
       (if j = sp_start t \<or> j = sp_start t + sp_length t - 1 then Some p else GetDescriptor h j)"
  then show thesis using that[of "h\<lparr>pagemap := pm\<rparr>"] by simp
qed

lemma GetDescriptor_cong: "pagemap h' = pagemap h \<Longrightarrow> GetDescriptor h' = GetDescriptor h"
  by (simp add: GetDescriptor_def fun_eq_iff)

lemma carve_leftover_hinv:
  assumes "hinv {a} P h L" "mem h (Sp a) = Some t" "sp_location t = IN_USE"
    and "0 < n" "0 < e" "n + e = sp_length t" "{sp_start t..<sp_start t + sp_length t} \<subseteq> P"
    and "{sp_start t..<sp_start t + sp_length t} \<inter> cover (desc {a} (mem h)) = {}"
    and "GetDescriptor h (sp_start t) = Some (Sp a)"
    and "alone (desc {a} (mem h)) (sp_start t) (sp_length t) c" "c = 1 \<or> c = 2" "0 < room h"
  obtains b h' L' where "carve_leftover (Sp a) n c e h = Some h'" "hinv {} P h' L'"
    "mem h (Sp b) = None"
    "desc {} (mem h') = (desc {a} (mem h))(a \<mapsto> (sp_start t, n, IN_USE), b \<mapsto> (sp_start t + n, e, c))"
    "mem h' (Sp a) = Some (t\<lparr>sp_length := n\<rparr>)"
    "\<forall>v. idle (desc {a} (mem h)) v \<longrightarrow> v \<noteq> Sp a \<longrightarrow> v \<noteq> Sp b \<longrightarrow> mem h' v = mem h v"
    "rest h' = rest h" "room h \<le> room h' + 1"
    "\<forall>j. j \<notin> {sp_start t..<sp_start t + sp_length t} \<longrightarrow> GetDescriptor h' j = GetDescriptor h j"
proof -
  let ?s = "sp_start t" and ?D = "desc {a} (mem h)"
  obtain b h1 where b: "heap_NewSpan (?s + n) e h = Some (Sp b, h1)" "hinv {b, a} P h1 L" "mem h (Sp b) = None"
    "mem h1 = (mem h)(Sp b \<mapsto> zero_span\<lparr>sp_start := ?s + n, sp_length := e\<rparr>)"
    "pagemap h1 = pagemap h" "rest h1 = rest h" "room h \<le> room h1 + 1"
    using NewSpan_step[OF assms(1,12)] by metis
  have ba: "b \<noteq> a" using b(3) assms(2) by auto
  define u where "u = zero_span\<lparr>sp_start := ?s + n, sp_length := e, sp_location := c\<rparr>"
  obtain h2 where h2: "modify (Sp b) (\<lambda>s. s\<lparr>sp_location := c\<rparr>) h1 = Some h2" "hinv {b, a} P h2 L"
    "mem h2 = (mem h)(Sp b \<mapsto> u)" "pagemap h2 = pagemap h" "rest h2 = rest h" "room h2 = room h1"
    using Modify_step[OF b(2), of b _ "\<lambda>s. s\<lparr>sp_location := c\<rparr>"] b(4-6) by (auto simp: u_def)
  have D2: "desc {b, a} (mem h2) = ?D" using b(3) ba by (auto simp: desc_def h2(3))
  have run: "{?s + n..<?s + n + e} \<subseteq> P" "{?s + n..<?s + n + e} \<inter> cover ?D = {}"
    using assms(6,7,8) by (auto simp: disjoint_iff)
  have u: "mem h2 (Sp b) = Some u" "sp_start u = ?s + n" "sp_length u = e" "sp_location u = c"
    "sp_next u = None" "sp_prev u = None"
    by (simp_all add: h2(3) u_def zero_span_def)
  have pre: "0 < sp_length u" "{sp_start u..<sp_start u + sp_length u} \<subseteq> P"
    "{sp_start u..<sp_start u + sp_length u} \<inter> cover (desc {b, a} (mem h2)) = {}"
    using assms(5) run by (simp_all add: u D2)
  obtain h3 where h3: "RecordSpan (Sp b) h2 = Some h3" "hinv {b, a} P h3 L" "mem h3 = mem h2"
    "\<forall>j. GetDescriptor h3 j =
       (if j = sp_start u \<or> j = sp_start u + sp_length u - 1 then Some (Sp b) else GetDescriptor h2 j)"
    "rest h3 = rest h2" "room h3 = room h2"
    by (rule Record_step[OF h2(2) u(1) pre]) (rule that)
  have g3: "GetDescriptor h3 j = (if j = ?s + n \<or> j = ?s + n + e - 1 then Some (Sp b) else GetDescriptor h j)" for j
    using h3(4) GetDescriptor_cong[OF h2(4)] by (simp add: u)
  have al: "alone ?D (?s + n) e c"
    unfolding alone_def
  proof (intro disjI2 allI impI conjI)
    fix d r k
    assume d: "?D d = Some (r, k, c)"
    have k: "0 < k" using descs_ok_entry(1)[of P ?D d, OF hinv_parts(3)[OF assms(1)] d] .
    have "c \<noteq> IN_USE" using assms(11) by auto
    then have "r \<noteq> ?s + sp_length t" using assms(10) d unfolding alone_def by blast
    then show "r \<noteq> ?s + n + e" using assms(6) by simp
    show "r + k \<noteq> ?s + n"
    proof
      assume e: "r + k = ?s + n"
      then have "r + k - 1 \<in> cover ?D" using k by (intro coverI[of ?D d r k c, OF d]) auto
      moreover have "r + k - 1 \<in> {?s..<?s + sp_length t}" using e assms(4,6) by auto
      ultimately show False using assms(8) by blast
    qed
  qed
  have det: "detached (mem h3) (Sp b)" using u by (simp add: h3(3) detached_def nxt_def prv_def)
  have u3: "mem h3 (Sp b) = Some u" by (simp add: h3(3) u(1))
  have pre3: "sp_location u \<noteq> IN_USE" "sp_location u \<le> 2"
    "{sp_start u..<sp_start u + sp_length u} \<inter> cover (desc {b, a} (mem h3)) = {}"
    "alone (desc {b, a} (mem h3)) (sp_start u) (sp_length u) (sp_location u)"
    "GetDescriptor h3 (sp_start u) = Some (Sp b)"
    "GetDescriptor h3 (sp_start u + sp_length u - 1) = Some (Sp b)"
    using assms(11) run al g3 by (auto simp: h3(3) u D2)
  obtain h4 L4 where h4: "PrependToFreeList (Sp b) h3 = Some h4" "hinv ({b, a} - {b}) P h4 L4"
    "shape (mem h4) = shape (mem h3)"
    "\<forall>v. idle (desc {b, a} (mem h3)) v \<longrightarrow> v \<noteq> Sp b \<longrightarrow> mem h4 v = mem h3 v"
    "pagemap h4 = pagemap h3" "rest h4 = rest h3" "room h4 = room h3"
    by (rule Prepend_step[OF h3(2) insertI1 u3 det pre3(1,2) pre(1,2) pre3(3-6)]) (rule that)
  have fr4: "mem h4 v = mem h2 v" if "idle ?D v" "v \<noteq> Sp b" for v
    using h4(4) that by (simp add: h3(3) D2)
  have h4i: "hinv {a} P h4 L4" using h4(2) ba by (simp add: insert_Diff_if)
  have ma: "mem h4 (Sp a) = Some t"
    using fr4[of "Sp a"] ba assms(2) by (simp add: h2(3) idle_flux desc_def)
  obtain ub where ub: "mem h4 (Sp b) = Some ub" "sp_start ub = ?s + n" "sp_length ub = e" "sp_location ub = c"
    using shape_fields[OF h4(3) u3] u by metis
  obtain h5 where h5: "modify (Sp a) (\<lambda>s. s\<lparr>sp_length := n\<rparr>) h4 = Some h5" "hinv {a} P h5 L4"
    "mem h5 = (mem h4)(Sp a \<mapsto> t\<lparr>sp_length := n\<rparr>)" "pagemap h5 = pagemap h4" "rest h5 = rest h4"
    "room h5 = room h4"
    by (rule Modify_step[OF h4i singletonI ma]) (rule that)
  have D5: "desc {a} (mem h5) = ?D(b \<mapsto> (?s + n, e, c))"
  proof -
    have "desc {a} (mem h5) = desc {a} (mem h4)" by (auto simp: h5(3) desc_def)
    also have "\<dots> = (desc {b, a} (mem h4))(b \<mapsto> (?s + n, e, c))"
      using desc_join[of "mem h4" b ub "{b, a}"] ub ba by (simp add: insert_Diff_if)
    also have "desc {b, a} (mem h4) = ?D" using desc_shape[OF h4(3)] D2 by (simp add: h3(3))
    finally show ?thesis .
  qed
  have cov5: "cover (desc {a} (mem h5)) = cover ?D \<union> {?s + n..<?s + n + e}"
    unfolding D5 by (rule cover_upd) (use b(3) in \<open>simp add: desc_def\<close>)
  have last: "?s + n - 1 \<in> {?s..<?s + sp_length t}" "?s + n - 1 \<notin> {?s + n..<?s + n + e}"
    using assms(4,6) by auto
  then have last': "?s + n - 1 \<in> P" "?s + n - 1 \<notin> cover (desc {a} (mem h5))"
    using assms(7,8) cov5 by blast+
  obtain h6 where h6: "pagemap_set (?s + n - 1) (Sp a) h5 = Some h6" "hinv {a} P h6 L4" "mem h6 = mem h5"
    "\<forall>j. GetDescriptor h6 j = (if j = ?s + n - 1 then Some (Sp a) else GetDescriptor h5 j)"
    "rest h6 = rest h5" "room h6 = room h5"
    by (rule Set_step[OF h5(2) last']) (rule that)
  have g5: "GetDescriptor h5 = GetDescriptor h3" by (rule GetDescriptor_cong) (simp add: h5(4) h4(5))
  have m6: "mem h6 (Sp a) = Some (t\<lparr>sp_length := n\<rparr>)" by (simp add: h6(3) h5(3))
  have gd: "GetDescriptor h6 ?s = Some (Sp a)" "GetDescriptor h6 (?s + n - 1) = Some (Sp a)"
    using h6(4) g3[of ?s] assms(4,5,9) by (auto simp: g5)
  have new_run: "{?s..<?s + n} \<subseteq> P" "{?s..<?s + n} \<inter> cover (desc {a} (mem h6)) = {}"
    using assms(6,7,8) cov5 by (auto simp: h6(3) disjoint_iff)
  have "hinv ({a} - {a}) P h6 L4"
    using hinv_join[OF h6(2) _ m6] assms(3,4) gd new_run by simp
  then have fin: "hinv {} P h6 L4" by simp
  have "carve_leftover (Sp a) n c e h = Some h6"
    using assms(2) b(1) h2(1) h3(1) h4(1) h5(1) h6(1) ma
    by (simp add: carve_leftover_def h5(3))
  moreover have "desc {} (mem h6) = ?D(a \<mapsto> (?s, n, IN_USE), b \<mapsto> (?s + n, e, c))"
    using desc_join[of "mem h6" a "t\<lparr>sp_length := n\<rparr>" "{a}"] D5 ba assms(3) m6
    by (simp add: h6(3) fun_upd_twist)
  moreover have fr6: "mem h6 v = mem h v" if "idle ?D v" "v \<noteq> Sp a" "v \<noteq> Sp b" for v
    using that fr4[of v] by (simp add: h6(3) h5(3) h2(3))
  moreover have "rest h6 = rest h" by (simp add: h6(5) h5(5) h4(6) h3(5) h2(5))
  moreover have "room h \<le> room h6 + 1" using b(7) unfolding h6(6) h5(6) h4(7) h3(6) h2(6) .
  moreover have "GetDescriptor h6 j = GetDescriptor h j" if "j \<notin> {?s..<?s + sp_length t}" for j
    using h6(4) g3[of j] last(1) assms(4-6) that by (auto simp: g5)
  ultimately show thesis using that[of h6 L4 b] fin b(3) m6 by blast
qed


lemma to_int32_diff: "n \<le> l \<Longrightarrow> 0 < n \<Longrightarrow> l < 2 ^ 31 + 1 \<Longrightarrow> to_int32 (int l - int n) = int (l - n)"
  by (subst to_int32_exact) auto

text \<open>
  \<open>Carve\<close> on a free span: it becomes an allocated span of exactly \<open>n\<close> pages, and what is left
  over is a free span of the same kind.
\<close>

lemma Carve_hinv:
  assumes "hinv {} P h L" "desc {} (mem h) a = Some (s, l, c)" "c \<noteq> IN_USE" "0 < n" "n \<le> l" "0 < room h"
  obtains b h' L' where "Carve (Sp a) n h = Some (Sp a, h')" "hinv {} P h' L'" "b \<noteq> a" "mem h (Sp b) = None"
    "desc {} (mem h') = (if n < l then (desc {} (mem h))(a \<mapsto> (s, n, IN_USE), b \<mapsto> (s + n, l - n, c))
        else (desc {} (mem h))(a \<mapsto> (s, l, IN_USE)))"
    "detached (mem h') (Sp a)"
    "\<forall>v. idle (desc {} (mem h)) v \<longrightarrow> v \<noteq> Sp b \<longrightarrow> mem h' v = mem h v"
    "rest h' = rest h" "room h \<le> room h' + 1"
    "\<forall>j. j \<notin> {s..<s + l} \<longrightarrow> GetDescriptor h' j = GetDescriptor h j"
proof -
  let ?D = "desc {} (mem h)"
  note E = hinv_ends[OF assms(1,2)]
  obtain t0 where t0: "mem h (Sp a) = Some t0" "sp_start t0 = s" "sp_length t0 = l" "sp_location t0 = c"
    using assms(2) by (auto simp: desc_Some)
  obtain h1 L1 where h1: "RemoveFromFreeList (Sp a) h = Some h1" "hinv {a} P h1 L1"
    "shape (mem h1) = shape (mem h)" "detached (mem h1) (Sp a)"
    "\<forall>v. idle ?D v \<longrightarrow> mem h1 v = mem h v" "pagemap h1 = pagemap h" "rest h1 = rest h" "room h1 = room h"
    by (rule Remove_step[OF assms(1-3)]) (rule that)
  obtain t1 where t1: "mem h1 (Sp a) = Some t1" "sp_start t1 = s" "sp_length t1 = l"
    using shape_fields[OF h1(3) t0(1)] t0 by metis
  define t where "t = t1\<lparr>sp_location := IN_USE\<rparr>"
  obtain h2 where h2: "modify (Sp a) (\<lambda>s. s\<lparr>sp_location := IN_USE\<rparr>) h1 = Some h2" "hinv {a} P h2 L1"
    "mem h2 = (mem h1)(Sp a \<mapsto> t1\<lparr>sp_location := IN_USE\<rparr>)" "pagemap h2 = pagemap h1" "rest h2 = rest h1"
    "room h2 = room h1"
    by (rule Modify_step[OF h1(2) singletonI t1(1)]) (rule that)
  have t: "mem h2 (Sp a) = Some t" "sp_start t = s" "sp_length t = l" "sp_location t = IN_USE"
    using t1 by (simp_all add: h2(3) t_def)
  have det: "detached (mem h2) (Sp a)"
    using h1(4) t1(1) by (simp add: detached_def nxt_def prv_def h2(3))
  have D2: "desc {a} (mem h2) = ?D(a := None)"
  proof -
    have "desc {a} (mem h2) = desc {a} (mem h1)" by (auto simp: h2(3) desc_def)
    then show ?thesis using desc_shape[OF h1(3), of "{a}"] desc_insert[of a "{}"] by simp
  qed
  have cov: "cover (desc {a} (mem h2)) = cover ?D - {s..<s + l}"
    unfolding D2 by (rule cover_remove[OF hinv_parts(3)[OF assms(1)] assms(2)])
  have gd: "GetDescriptor h2 = GetDescriptor h" by (rule GetDescriptor_cong) (simp add: h2(4) h1(6))
  have fr: "mem h2 v = mem h v" if "idle ?D v" for v
    using that h1(5) assms(2,3) by (auto simp: h2(3) idle_def)
  have x: "to_int32 (int l - int n) = int (l - n)"
    using span_bytes_run(2)[OF assms(1) E(4)] assms(4,5) by (intro to_int32_diff) auto
  have nx: "nat (int l - int n) = l - n" by simp
  have C: "Carve (Sp a) n h = (if n < l then carve_leftover (Sp a) n c (l - n) h2 else Some h2) \<bind>
      (\<lambda>h. assert_Check h \<bind> (\<lambda>_. Some (Sp a, h)))"
    using t0 h1(1) h2(1) t(1,3) assms(3,4,5) x by (simp add: Carve_def nx)
  show thesis
  proof (cases "n < l")
    case True
    have al: "alone (desc {a} (mem h2)) (sp_start t) (sp_length t) c"
      unfolding alone_def D2 t
    proof (intro disjI2 allI impI conjI)
      fix d r k
      assume "(?D(a := None)) d = Some (r, k, c)"
      then have d: "d \<noteq> a" "?D d = Some (r, k, c)" by (auto split: if_splits)
      show "r + k \<noteq> s" "r \<noteq> s + l"
        using hinv_parts(4)[OF assms(1)] d(2) assms(2,3) unfolding coalesced_def by blast+
    qed
    have pre: "n + (l - n) = sp_length t" "{sp_start t..<sp_start t + sp_length t} \<subseteq> P"
      "{sp_start t..<sp_start t + sp_length t} \<inter> cover (desc {a} (mem h2)) = {}"
      "GetDescriptor h2 (sp_start t) = Some (Sp a)" "c = 1 \<or> c = 2" "0 < room h2" "0 < l - n"
      using True E assms(3) cov gd t assms(6) h1(8) h2(6) by auto
    obtain b h' L' where h': "carve_leftover (Sp a) n c (l - n) h2 = Some h'" "hinv {} P h' L'"
      "mem h2 (Sp b) = None"
      "desc {} (mem h') = (desc {a} (mem h2))(a \<mapsto> (sp_start t, n, IN_USE), b \<mapsto> (sp_start t + n, l - n, c))"
      "mem h' (Sp a) = Some (t\<lparr>sp_length := n\<rparr>)"
      "\<forall>v. idle (desc {a} (mem h2)) v \<longrightarrow> v \<noteq> Sp a \<longrightarrow> v \<noteq> Sp b \<longrightarrow> mem h' v = mem h2 v"
      "rest h' = rest h2" "room h2 \<le> room h' + 1"
      "\<forall>j. j \<notin> {sp_start t..<sp_start t + sp_length t} \<longrightarrow> GetDescriptor h' j = GetDescriptor h2 j"
      by (rule carve_leftover_hinv[OF h2(2) t(1,4) assms(4) pre(7,1-4) al pre(5,6)]) (rule that)
    have ba: "b \<noteq> a" using h'(3) t(1) by auto
    have b: "mem h (Sp b) = None" using h'(3) h1(3) ba shape_live[OF h1(3)] by (simp add: h2(3))
    have D': "desc {} (mem h') = ?D(a \<mapsto> (s, n, IN_USE), b \<mapsto> (s + n, l - n, c))"
      using h'(4) by (simp add: D2 t)
    have "detached (mem h') (Sp a)" using det h'(5) t(1) by (simp add: detached_def nxt_def prv_def)
    moreover have "mem h' v = mem h v" if "idle ?D v" "v \<noteq> Sp b" for v
    proof -
      have "v \<noteq> Sp a" using that(1) assms(2,3) by (auto simp: idle_def)
      then show ?thesis using that h'(6) fr[of v] by (simp add: D2 idle_remove)
    qed
    moreover have "\<forall>j. j \<notin> {s..<s + l} \<longrightarrow> GetDescriptor h' j = GetDescriptor h j" using h'(9) by (simp add: gd t)
    ultimately show thesis
      using that[of h' L' b] C True h'(1,2) ba b D' assert_Check_hinv[OF h'(2)] h'(7,8) h2(5,6) h1(7,8)
      by simp
  next
    case False
    then have nl: "n = l" using assms(5) by simp
    have ends: "GetDescriptor h2 (sp_start t) = Some (Sp a)" "GetDescriptor h2 (sp_start t + sp_length t - 1) = Some (Sp a)"
      using E by (simp_all add: gd t)
    have "hinv ({a} - {a}) P h2 L1"
      by (rule hinv_join[OF h2(2) singletonI t(1,4) _ _ _ ends]) (use E cov t in auto)
    then have fin: "hinv {} P h2 L1" by simp
    have D': "desc {} (mem h2) = ?D(a \<mapsto> (s, l, IN_USE))"
      using desc_join[of "mem h2" a t "{a}"] t by (simp add: D2)
    obtain b where b: "mem h (Sp b) = None"
    proof -
      have "finite {a. mem h (Sp a) \<noteq> None}" by (rule span_pool_finite[OF hinv_parts(8)[OF assms(1)]])
      then have "{a. mem h (Sp a) \<noteq> None} \<noteq> UNIV" by (metis infinite_UNIV_nat)
      then show thesis using that by blast
    qed
    then have "b \<noteq> a" using t0(1) by auto
    then show thesis
      using that[of h2 L1 b] C False fin b D' assert_Check_hinv[OF fin] h2(5,6) h1(7,8) det fr gd
      by simp
  qed
qed


section \<open>Coalescing\<close>

text \<open>The pages with a given location.\<close>

definition pages_of :: "nat \<Rightarrow> descs \<Rightarrow> nat set" where
  "pages_of c D = {k. \<exists>a s l. D a = Some (s, l, c) \<and> s \<le> k \<and> k < s + l}"

lemma pages_of_insert:
  assumes "D a = None"
  shows "pages_of c' (D(a \<mapsto> (s, l, c))) = pages_of c' D \<union> (if c = c' then {s..<s + l} else {})"
proof (intro set_eqI iffI)
  fix k
  assume "k \<in> pages_of c' (D(a \<mapsto> (s, l, c)))"
  then obtain b r n where b: "(D(a \<mapsto> (s, l, c))) b = Some (r, n, c')" "r \<le> k" "k < r + n"
    by (auto simp: pages_of_def)
  then show "k \<in> pages_of c' D \<union> (if c = c' then {s..<s + l} else {})"
    by (cases "b = a") (auto simp: pages_of_def)
next
  fix k
  assume "k \<in> pages_of c' D \<union> (if c = c' then {s..<s + l} else {})"
  then consider b r n where "D b = Some (r, n, c')" "r \<le> k" "k < r + n" | "c = c'" "s \<le> k" "k < s + l"
    by (auto simp: pages_of_def split: if_splits)
  then show "k \<in> pages_of c' (D(a \<mapsto> (s, l, c)))"
  proof cases
    case (1 b r n)
    then have "(D(a \<mapsto> (s, l, c))) b = Some (r, n, c')" using assms by auto
    then show ?thesis using 1(2,3) unfolding pages_of_def by blast
  next
    case 2
    then have "(D(a \<mapsto> (s, l, c))) a = Some (s, l, c')" by simp
    then show ?thesis using 2 unfolding pages_of_def by blast
  qed
qed

lemma pages_of_remove:
  assumes "D a = Some (s, l, c)"
  shows "pages_of c' D = pages_of c' (D(a := None)) \<union> (if c = c' then {s..<s + l} else {})"
proof -
  have "(D(a := None))(a \<mapsto> (s, l, c)) = D" using assms by auto
  then show ?thesis using pages_of_insert[of "D(a := None)" a c' s l c] by simp
qed

lemma cover_pages_of: "cover D = (\<Union>c. pages_of c D)"
  unfolding cover_def pages_of_def by blast

text \<open>The page-map entries of the pages of allocated spans, which belong to the client.\<close>

definition pages_kept :: "descs \<Rightarrow> pageheap \<Rightarrow> pageheap \<Rightarrow> bool" where
  "pages_kept D h h' \<longleftrightarrow> (\<forall>j \<in> pages_of IN_USE D. GetDescriptor h' j = GetDescriptor h j)"

lemma pages_kept_refl [simp]: "pages_kept D h h"
  by (simp add: pages_kept_def)

lemma pages_kept_trans:
  "pages_kept D h h1 \<Longrightarrow> pages_kept D1 h1 h2 \<Longrightarrow> pages_of IN_USE D \<subseteq> pages_of IN_USE D1 \<Longrightarrow> pages_kept D h h2"
  unfolding pages_kept_def by fastforce

lemma pages_kept_map: "pagemap h' = pagemap h \<Longrightarrow> pages_kept D h h'"
  by (simp add: pages_kept_def GetDescriptor_def)

lemma pages_kept_mono: "pages_kept D h h' \<Longrightarrow> pages_of IN_USE D' \<subseteq> pages_of IN_USE D \<Longrightarrow> pages_kept D' h h'"
  unfolding pages_kept_def by blast

text \<open>A run outside the allocated pages may change.\<close>

lemma pages_kept_free:
  assumes "\<forall>j. j \<notin> R \<longrightarrow> GetDescriptor h' j = GetDescriptor h j" "R \<inter> pages_of IN_USE D = {}"
  shows "pages_kept D h h'"
  using assms unfolding pages_kept_def by blast

lemma free_run_apart:
  assumes "descs_ok P D" "D a = Some (s, l, c)" "c \<noteq> IN_USE"
  shows "{s..<s + l} \<inter> pages_of IN_USE D = {}"
proof (rule ccontr)
  assume "\<not> ?thesis"
  then obtain k b r m where k: "s \<le> k" "k < s + l" "D b = Some (r, m, IN_USE)" "r \<le> k" "k < r + m"
    unfolding pages_of_def by auto
  then have "b \<noteq> a" using assms(2,3) by auto
  then have "s + l \<le> r \<or> r + m \<le> s" using assms(1,2) k(3) unfolding descs_ok_def by blast
  then show False using k by linarith
qed

text \<open>A span \<open>a\<close> in flux, with record \<open>t\<close>, whose run fills the gap that the others leave in \<open>P\<close>.\<close>

definition in_flux :: "nat \<Rightarrow> nat set \<Rightarrow> pageheap \<Rightarrow> (spanptr \<Rightarrow> spanptr list) \<Rightarrow> span \<Rightarrow> bool" where
  "in_flux a P h L t \<longleftrightarrow> hinv {a} P h L \<and> mem h (Sp a) = Some t \<and> detached (mem h) (Sp a)
     \<and> sp_location t \<noteq> IN_USE \<and> sp_location t \<le> 2 \<and> 0 < sp_length t
     \<and> {sp_start t..<sp_start t + sp_length t} \<inter> cover (desc {a} (mem h)) = {}
     \<and> P = cover (desc {a} (mem h)) \<union> {sp_start t..<sp_start t + sp_length t}
     \<and> GetDescriptor h (sp_start t) = Some (Sp a)
     \<and> GetDescriptor h (sp_start t + sp_length t - 1) = Some (Sp a)"

lemma absorb:
  assumes "hinv {a} P h L" "mem h (Sp a) = Some t" "desc {a} (mem h) b = Some (r, k, c)" "c \<noteq> IN_USE"
  obtains h1 h2 L' where "RemoveFromFreeList (Sp b) h = Some h1" "heap_DeleteSpan (Sp b) h1 = Some h2"
    "hinv {a} P h2 L'" "desc {a} (mem h2) = (desc {a} (mem h))(b := None)" "mem h2 (Sp a) = Some t"
    "\<forall>v. idle (desc {a} (mem h)) v \<longrightarrow> mem h2 v = mem h v"
    "pagemap h2 = pagemap h" "rest h2 = rest h" "room h2 = room h"
proof -
  let ?D = "desc {a} (mem h)"
  have ba: "b \<noteq> a" using assms(3) by (auto simp: desc_def)
  obtain h1 L1 where h1: "RemoveFromFreeList (Sp b) h = Some h1" "hinv {b, a} P h1 L1"
    "shape (mem h1) = shape (mem h)" "detached (mem h1) (Sp b)"
    "\<forall>v. idle ?D v \<longrightarrow> mem h1 v = mem h v" "pagemap h1 = pagemap h" "rest h1 = rest h" "room h1 = room h"
    by (rule Remove_step[OF assms(1,3,4)]) (rule that)
  have live: "mem h1 (Sp b) \<noteq> None" using h1(4) by (simp add: detached_def)
  obtain h2 where h2: "heap_DeleteSpan (Sp b) h1 = Some h2" "hinv ({b, a} - {b}) P h2 L1"
    "mem h2 = (mem h1)(Sp b := None)" "pagemap h2 = pagemap h1" "rest h2 = rest h1" "room h2 = room h1"
    by (rule DeleteSpan_step[OF h1(2) insertI1 live]) (rule that)
  have inv: "hinv {a} P h2 L1" using h2(2) ba by (simp add: insert_Diff_if)
  have "desc {a} (mem h2) = (desc {a} (mem h1))(b := None)" using ba by (auto simp: desc_def h2(3))
  then have D2: "desc {a} (mem h2) = ?D(b := None)" by (simp add: desc_shape[OF h1(3)])
  have "idle ?D (Sp a)" by (simp add: idle_flux desc_def)
  then have ma: "mem h2 (Sp a) = Some t" using h1(5) assms(2) ba by (simp add: h2(3))
  have "mem h2 v = mem h v" if "idle ?D v" for v
    using that h1(5) assms(3,4) by (auto simp: h2(3) idle_def)
  then show thesis
    using that[OF h1(1) h2(1) inv D2 ma] h1(6-8) h2(4-6) by (simp del: sizeof_Span_def)
qed

text \<open>The spans of \<open>D'\<close> are spans of \<open>D\<close>, and every allocated span of \<open>D\<close> is still there.\<close>

definition keeps :: "descs \<Rightarrow> descs \<Rightarrow> bool" where
  "keeps D D' \<longleftrightarrow> (\<forall>b v. D' b = Some v \<longrightarrow> D b = Some v) \<and> (\<forall>b s l. D b = Some (s, l, IN_USE) \<longrightarrow> D' b = D b)"

lemma keeps_refl [simp]: "keeps D D"
  by (simp add: keeps_def)

lemma keeps_trans: "keeps D D' \<Longrightarrow> keeps D' D'' \<Longrightarrow> keeps D D''"
  unfolding keeps_def by metis

lemma keeps_remove: "D b = Some (r, k, c) \<Longrightarrow> c \<noteq> IN_USE \<Longrightarrow> keeps D (D(b := None))"
  by (auto simp: keeps_def)

lemma keeps_upd: "keeps D D' \<Longrightarrow> keeps (D(a \<mapsto> v)) (D'(a \<mapsto> v))"
proof -
  assume "keeps D D'"
  then have k: "\<And>b w. D' b = Some w \<Longrightarrow> D b = Some w" "\<And>b s l. D b = Some (s, l, IN_USE) \<Longrightarrow> D' b = D b"
    unfolding keeps_def by blast+
  show "keeps (D(a \<mapsto> v)) (D'(a \<mapsto> v))"
    unfolding keeps_def
  proof (intro conjI allI impI)
    show "(D(a \<mapsto> v)) b = Some w" if "(D'(a \<mapsto> v)) b = Some w" for b w
      using that k(1)[of b w] by (cases "b = a") simp_all
    show "(D'(a \<mapsto> v)) b = (D(a \<mapsto> v)) b" if "(D(a \<mapsto> v)) b = Some (s, l, IN_USE)" for b s l
      using that k(2)[of b s l] by (cases "b = a") simp_all
  qed
qed

lemma keeps_idle: "keeps D D' \<Longrightarrow> idle D v \<Longrightarrow> idle D' v"
  unfolding keeps_def idle_def by blast

lemma keeps_used: "keeps D D' \<Longrightarrow> pages_of IN_USE D \<subseteq> pages_of IN_USE D'"
proof
  fix k
  assume K: "keeps D D'" and k: "k \<in> pages_of IN_USE D"
  obtain b s l where b: "D b = Some (s, l, IN_USE)" "s \<le> k" "k < s + l" using k unfolding pages_of_def by blast
  have "D' b = D b" using K b(1) unfolding keeps_def by blast
  then show "k \<in> pages_of IN_USE D'" using b unfolding pages_of_def by auto
qed

text \<open>What merging with a neighbour leaves: \<open>a\<close> is longer, and one free span of its kind is gone.\<close>

definition merged :: "nat \<Rightarrow> pageheap \<Rightarrow> span \<Rightarrow> pageheap \<Rightarrow> span \<Rightarrow> bool" where
  "merged a h t h' t' \<longleftrightarrow> keeps (desc {a} (mem h)) (desc {a} (mem h'))
     \<and> sp_location t' = sp_location t
     \<and> {sp_start t..<sp_start t + sp_length t} \<subseteq> {sp_start t'..<sp_start t' + sp_length t'}
     \<and> (\<forall>c. pages_of c (desc {a} (mem h')) \<union> (if sp_location t = c then {sp_start t'..<sp_start t' + sp_length t'} else {})
           = pages_of c (desc {a} (mem h)) \<union> (if sp_location t = c then {sp_start t..<sp_start t + sp_length t} else {}))
     \<and> (\<forall>v. idle (desc {a} (mem h)) v \<longrightarrow> v \<noteq> Sp a \<longrightarrow> mem h' v = mem h v)
     \<and> rest h' = rest h \<and> room h' = room h \<and> pages_kept (desc {a} (mem h)) h h'"

lemma merged_refl [simp]: "merged a h t h t"
  by (simp add: merged_def)

lemma mergedD:
  assumes "merged a h t h' t'"
  shows "keeps (desc {a} (mem h)) (desc {a} (mem h'))" "sp_location t' = sp_location t"
    "{sp_start t..<sp_start t + sp_length t} \<subseteq> {sp_start t'..<sp_start t' + sp_length t'}"
    "pages_of c (desc {a} (mem h')) \<union> (if sp_location t = c then {sp_start t'..<sp_start t' + sp_length t'} else {})
       = pages_of c (desc {a} (mem h)) \<union> (if sp_location t = c then {sp_start t..<sp_start t + sp_length t} else {})"
    "idle (desc {a} (mem h)) v \<Longrightarrow> v \<noteq> Sp a \<Longrightarrow> mem h' v = mem h v"
    "rest h' = rest h" "room h' = room h" "pages_kept (desc {a} (mem h)) h h'"
  using assms unfolding merged_def by blast+

lemma merged_trans:
  assumes "merged a h t h1 t1" "merged a h1 t1 h2 t2"
  shows "merged a h t h2 t2"
  unfolding merged_def
proof (intro conjI allI impI)
  note M = mergedD[OF assms(1)] and N = mergedD[OF assms(2)]
  show "keeps (desc {a} (mem h)) (desc {a} (mem h2))" by (rule keeps_trans[OF M(1) N(1)])
  show "sp_location t2 = sp_location t" using M(2) N(2) by simp
  show "{sp_start t..<sp_start t + sp_length t} \<subseteq> {sp_start t2..<sp_start t2 + sp_length t2}"
    by (rule subset_trans[OF M(3) N(3)])
  show "pages_of c (desc {a} (mem h2)) \<union> (if sp_location t = c then {sp_start t2..<sp_start t2 + sp_length t2} else {})
       = pages_of c (desc {a} (mem h)) \<union> (if sp_location t = c then {sp_start t..<sp_start t + sp_length t} else {})" for c
    using M(4)[of c] N(4)[of c] unfolding M(2) by (rule trans[rotated])
  show "mem h2 v = mem h v" if "idle (desc {a} (mem h)) v" "v \<noteq> Sp a" for v
    using M(5)[OF that] N(5)[OF keeps_idle[OF M(1) that(1)] that(2)] by simp
  show "rest h2 = rest h" "room h2 = room h" using M(6,7) N(6,7) by simp_all
  show "pages_kept (desc {a} (mem h)) h h2" by (rule pages_kept_trans[OF M(8) N(8) keeps_used[OF M(1)]])
qed

lemma in_fluxD:
  assumes "in_flux a P h L t"
  shows "hinv {a} P h L" "mem h (Sp a) = Some t" "detached (mem h) (Sp a)" "sp_location t \<noteq> IN_USE"
    "sp_location t \<le> 2" "0 < sp_length t"
    "{sp_start t..<sp_start t + sp_length t} \<inter> cover (desc {a} (mem h)) = {}"
    "P = cover (desc {a} (mem h)) \<union> {sp_start t..<sp_start t + sp_length t}"
    "GetDescriptor h (sp_start t) = Some (Sp a)"
    "GetDescriptor h (sp_start t + sp_length t - 1) = Some (Sp a)"
  using assms unfolding in_flux_def by blast+

text \<open>The neighbour on either side.\<close>

lemma prev_neighbour:
  assumes "in_flux a P h L t"
  obtains (none) "GetDescriptor h (sp_start t - 1) = None"
      "\<forall>b r k c. desc {a} (mem h) b = Some (r, k, c) \<longrightarrow> r + k \<noteq> sp_start t"
  | (some) b r k d where "GetDescriptor h (sp_start t - 1) = Some (Sp b)" "desc {a} (mem h) b = Some (r, k, d)"
      "r + k = sp_start t"
      "\<forall>b' r' k' c. desc {a} (mem h) b' = Some (r', k', c) \<longrightarrow> r' + k' = sp_start t \<longrightarrow> b' = b"
proof -
  let ?D = "desc {a} (mem h)" and ?s = "sp_start t"
  have F: "hinv {a} P h L" "{?s..<?s + sp_length t} \<inter> cover ?D = {}"
    "P = cover ?D \<union> {?s..<?s + sp_length t}" "0 < sp_length t" using in_fluxD[OF assms] by blast+
  have s: "?s \<in> P" using F(3,4) by simp
  then have s0: "0 < ?s" using hinv_parts(5)[OF F(1)] by (simp add: map_ok_def)
  have end_at: "GetDescriptor h (?s - 1) = Some (Sp b)" if "?D b = Some (r, k, c)" "r + k = ?s" for b r k c
    using hinv_ends(2)[OF F(1) that(1)] that(2) by simp
  show thesis
  proof (cases "GetDescriptor h (?s - 1)")
    case None
    then show thesis using end_at by (intro none) fastforce+
  next
    case (Some q)
    then have "?s - 1 \<in> P" using hinv_parts(5)[OF F(1)] unfolding map_ok_def GetDescriptor_def by blast
    then have "?s - 1 \<in> cover ?D" using F(3) s0 by auto
    then obtain b r k d where b: "?D b = Some (r, k, d)" "r \<le> ?s - 1" "?s - 1 < r + k" by (rule coverE)
    have "?s \<in> {?s..<?s + sp_length t}" using F(4) by simp
    then have "?s \<notin> cover ?D" using F(2) by blast
    then have "\<not> ?s < r + k" using coverI[of ?D b r k d ?s, OF b(1)] b(2) by linarith
    then have "r + k = ?s" using b(3) s0 by linarith
    moreover have "b' = b" if "?D b' = Some (r', k', c)" "r' + k' = ?s" for b' r' k' c
      using end_at[OF that] end_at[OF b(1) calculation] by simp
    ultimately show thesis using end_at[OF b(1)] b(1) some[of b r k d] by blast
  qed
qed

lemma next_neighbour:
  assumes "in_flux a P h L t"
  obtains (none) "GetDescriptor h (sp_start t + sp_length t) = None"
      "\<forall>b r k c. desc {a} (mem h) b = Some (r, k, c) \<longrightarrow> r \<noteq> sp_start t + sp_length t"
  | (some) b k d where "GetDescriptor h (sp_start t + sp_length t) = Some (Sp b)"
      "desc {a} (mem h) b = Some (sp_start t + sp_length t, k, d)"
      "\<forall>b' r' k' c. desc {a} (mem h) b' = Some (r', k', c) \<longrightarrow> r' = sp_start t + sp_length t \<longrightarrow> b' = b"
proof -
  let ?D = "desc {a} (mem h)" and ?s = "sp_start t" and ?e = "sp_start t + sp_length t"
  have F: "hinv {a} P h L" "{?s..<?e} \<inter> cover ?D = {}"
    "P = cover ?D \<union> {?s..<?e}" "0 < sp_length t" using in_fluxD[OF assms] by blast+
  have start_at: "GetDescriptor h ?e = Some (Sp b)" if "?D b = Some (r, k, c)" "r = ?e" for b r k c
    using hinv_ends(1)[OF F(1) that(1)] that(2) by simp
  show thesis
  proof (cases "GetDescriptor h ?e")
    case None
    then show thesis using start_at by (intro none) fastforce+
  next
    case (Some q)
    then have "?e \<in> P" using hinv_parts(5)[OF F(1)] unfolding map_ok_def GetDescriptor_def by blast
    then have "?e \<in> cover ?D" using F(3) by auto
    then obtain b r k d where b: "?D b = Some (r, k, d)" "r \<le> ?e" "?e < r + k" by (rule coverE)
    have "?e - 1 \<in> {?s..<?e}" using F(4) by auto
    then have "?e - 1 \<notin> cover ?D" using F(2) by blast
    then have "\<not> r \<le> ?e - 1" using coverI[of ?D b r k d "?e - 1", OF b(1)] b(3) by linarith
    then have "r = ?e" using b(2) by linarith
    moreover have "b' = b" if "?D b' = Some (r', k', c)" "r' = ?e" for b' r' k' c
      using start_at[OF that] start_at[OF b(1) calculation] by simp
    ultimately show thesis using start_at[OF b(1)] b(1) some[of b k d] by blast
  qed
qed

text \<open>The extended span is again in flux.\<close>

lemma in_flux_extend:
  assumes "in_flux a P h L t" "hinv {a} P h' L'" "desc {a} (mem h') = (desc {a} (mem h))(b := None)"
    and "desc {a} (mem h) b = Some (r, k, sp_location t)"
    and "mem h' (Sp a) = Some t'" "t' = t\<lparr>sp_start := s', sp_length := l'\<rparr>"
    and "{s'..<s' + l'} = {sp_start t..<sp_start t + sp_length t} \<union> {r..<r + k}" "0 < l'"
    and "GetDescriptor h' s' = Some (Sp a)" "GetDescriptor h' (s' + l' - 1) = Some (Sp a)"
    and "\<forall>v. idle (desc {a} (mem h)) v \<longrightarrow> v \<noteq> Sp a \<longrightarrow> mem h' v = mem h v" "rest h' = rest h" "room h' = room h"
    and "\<forall>j. j \<notin> {r..<r + k} \<longrightarrow> GetDescriptor h' j = GetDescriptor h j"
  shows "in_flux a P h' L' t' \<and> merged a h t h' t'"
proof -
  note F = in_fluxD[OF assms(1)]
  let ?D = "desc {a} (mem h)"
  have cov: "cover (?D(b := None)) = cover ?D - {r..<r + k}"
    by (rule cover_remove[OF hinv_parts(3)[OF F(1)] assms(4)])
  have sub: "{r..<r + k} \<subseteq> cover ?D" using coverI[of ?D b r k, OF assms(4)] by auto
  have "detached (mem h') (Sp a)"
    using F(2,3) assms(5,6) by (simp add: detached_def nxt_def prv_def)
  then have "in_flux a P h' L' t'"
    unfolding in_flux_def assms(3) cov using assms(2,5-10) F(4,5,7,8) sub by auto
  moreover have "merged a h t h' t'"
    unfolding merged_def assms(3)
  proof (intro conjI allI)
    show "keeps ?D (?D(b := None))" using assms(4) F(4) by (rule keeps_remove)
    show "pages_of c (?D(b := None)) \<union> (if sp_location t = c then {sp_start t'..<sp_start t' + sp_length t'} else {})
       = pages_of c ?D \<union> (if sp_location t = c then {sp_start t..<sp_start t + sp_length t} else {})" for c
      using pages_of_remove[of ?D b r k "sp_location t" c, OF assms(4)] assms(6,7) by auto
    show "pages_kept ?D h h'"
      by (rule pages_kept_free[OF assms(14) free_run_apart[OF hinv_parts(3)[OF F(1)] assms(4) F(4)]])
  qed (use assms(6,7,11-13) in auto)
  ultimately show ?thesis ..
qed

lemma merge_prev_flux:
  assumes "in_flux a P h L t"
  obtains h' L' t' where "merge_prev (Sp a) (sp_start t) h = Some h'" "in_flux a P h' L' t'" "merged a h t h' t'"
    "sp_start t' + sp_length t' = sp_start t + sp_length t"
    "\<forall>b r k. desc {a} (mem h') b = Some (r, k, sp_location t') \<longrightarrow> r + k \<noteq> sp_start t'"
proof -
  note F = in_fluxD[OF assms]
  let ?D = "desc {a} (mem h)" and ?s = "sp_start t" and ?c = "sp_location t"
  show thesis
  proof (rule prev_neighbour[OF assms])
    assume 1: "GetDescriptor h (?s - 1) = None" "\<forall>b r k c. ?D b = Some (r, k, c) \<longrightarrow> r + k \<noteq> ?s"
    have "merge_prev (Sp a) ?s h = Some h" using 1(1) F(2) by (simp add: merge_prev_def)
    then show thesis using that[of h L t] assms 1(2) by (metis merged_refl)
  next
    fix b r k d
    assume 2: "GetDescriptor h (?s - 1) = Some (Sp b)" "?D b = Some (r, k, d)" "r + k = ?s"
      "\<forall>b' r' k' c. ?D b' = Some (r', k', c) \<longrightarrow> r' + k' = ?s \<longrightarrow> b' = b"
    obtain u where u: "mem h (Sp b) = Some u" "sp_start u = r" "sp_length u = k" "sp_location u = d"
      using 2(2) by (auto simp: desc_Some)
    show thesis
    proof (cases "d = ?c")
      case False
      have "merge_prev (Sp a) ?s h = Some h" using F(2) 2(1) u False by (simp add: merge_prev_def)
      moreover have "\<forall>b' r' k'. ?D b' = Some (r', k', ?c) \<longrightarrow> r' + k' \<noteq> ?s"
        using 2(2,4) False by (metis option.inject prod.inject)
      ultimately show thesis using that[of h L t] assms by simp
    next
      case True
      note D = 2(2)[unfolded True]
      obtain h1 h2 L' where h2: "RemoveFromFreeList (Sp b) h = Some h1" "heap_DeleteSpan (Sp b) h1 = Some h2"
        "hinv {a} P h2 L'" "desc {a} (mem h2) = ?D(b := None)" "mem h2 (Sp a) = Some t"
        "\<forall>v. idle ?D v \<longrightarrow> mem h2 v = mem h v" "pagemap h2 = pagemap h" "rest h2 = rest h" "room h2 = room h"
        by (rule absorb[OF F(1,2) D F(4)]) (rule that)
      define t1 where "t1 = t\<lparr>sp_start := r\<rparr>"
      have r: "?s - k = r" using 2(3) by simp
      obtain h3 where h3: "modify (Sp a) (\<lambda>s. s\<lparr>sp_start := sp_start s - k\<rparr>) h2 = Some h3" "hinv {a} P h3 L'"
        "mem h3 = (mem h2)(Sp a \<mapsto> t\<lparr>sp_start := ?s - k\<rparr>)" "pagemap h3 = pagemap h2" "rest h3 = rest h2" "room h3 = room h2"
        by (rule Modify_step[OF h2(3) singletonI h2(5)]) (rule that)
      have m3: "mem h3 (Sp a) = Some t1" by (simp add: h3(3) r t1_def)
      define t2 where "t2 = t\<lparr>sp_start := r, sp_length := sp_length t + k\<rparr>"
      obtain h4 where h4: "modify (Sp a) (\<lambda>s. s\<lparr>sp_length := sp_length s + k\<rparr>) h3 = Some h4" "hinv {a} P h4 L'"
        "mem h4 = (mem h3)(Sp a \<mapsto> t1\<lparr>sp_length := sp_length t1 + k\<rparr>)" "pagemap h4 = pagemap h3"
        "rest h4 = rest h3" "room h4 = room h3"
        by (rule Modify_step[OF h3(2) singletonI m3]) (rule that)
      have m4: "mem h4 (Sp a) = Some t2" by (simp add: h4(3) t1_def t2_def)
      have D4: "desc {a} (mem h4) = ?D(b := None)"
        unfolding h2(4)[symmetric] by (auto simp: desc_def h4(3) h3(3))
      have E: "0 < k" "{r..<r + k} \<subseteq> P" using hinv_ends[OF F(1) D] by blast+
      then have rP: "r \<in> P" "r \<notin> cover (desc {a} (mem h4))"
        using cover_remove[OF hinv_parts(3)[OF F(1)] D] by (auto simp: D4)
      obtain h5 where h5: "pagemap_set r (Sp a) h4 = Some h5" "hinv {a} P h5 L'" "mem h5 = mem h4"
        "\<forall>j. GetDescriptor h5 j = (if j = r then Some (Sp a) else GetDescriptor h4 j)" "rest h5 = rest h4" "room h5 = room h4"
        by (rule Set_step[OF h4(2) rP]) (rule that)
      have g4: "GetDescriptor h4 = GetDescriptor h" by (rule GetDescriptor_cong) (simp add: h4(4) h3(4) h2(7))
      have R: "merge_prev (Sp a) ?s h = Some h5"
        using F(2) 2(1,3) u True h2(1,2) h3(1) h4(1) m4 h5(1) by (simp add: merge_prev_def t2_def)
      have X: "in_flux a P h5 L' t2 \<and> merged a h t h5 t2"
      proof (rule in_flux_extend[OF assms h5(2) _ D])
        show "desc {a} (mem h5) = ?D(b := None)" by (simp add: h5(3) D4)
        show "mem h5 (Sp a) = Some t2" by (simp add: h5(3) m4)
        show "t2 = t\<lparr>sp_start := r, sp_length := sp_length t + k\<rparr>" by (simp add: t2_def)
        show "{r..<r + (sp_length t + k)} = {?s..<?s + sp_length t} \<union> {r..<r + k}" using 2(3) by auto
        show "GetDescriptor h5 (r + (sp_length t + k) - 1) = Some (Sp a)"
        proof -
          have "r + (sp_length t + k) - 1 = ?s + sp_length t - 1" using 2(3) by simp
          then show ?thesis using h5(4) F(10) by (simp only: g4 if_cancel split: if_split)
        qed
        show "\<forall>v. idle ?D v \<longrightarrow> v \<noteq> Sp a \<longrightarrow> mem h5 v = mem h v" using h2(6) by (simp add: h5(3) h4(3) h3(3))
        show "\<forall>j. j \<notin> {r..<r + k} \<longrightarrow> GetDescriptor h5 j = GetDescriptor h j" using h5(4) E(1) by (simp add: g4)
      qed (use F(6) h5(4) h5(5,6) h4(5,6) h3(5,6) h2(8,9) in \<open>simp_all del: sizeof_Span_def\<close>)
      have np: "\<forall>b' r' k'. desc {a} (mem h5) b' = Some (r', k', sp_location t2) \<longrightarrow> r' + k' \<noteq> sp_start t2"
      proof (intro allI impI notI)
        fix b' r' k'
        assume "desc {a} (mem h5) b' = Some (r', k', sp_location t2)" "r' + k' = sp_start t2"
        then have "?D b' = Some (r', k', ?c)" "r = r' + k'" by (auto simp: h5(3) D4 t2_def split: if_splits)
        then show False using hinv_parts(4)[OF F(1)] D F(4) unfolding coalesced_def by blast
      qed
      show thesis using that[OF R conjunct1[OF X] conjunct2[OF X] _ np] 2(3) by (simp add: t2_def)
    qed
  qed
qed

lemma merge_next_flux:
  assumes "in_flux a P h L t"
    and "\<forall>b r k. desc {a} (mem h) b = Some (r, k, sp_location t) \<longrightarrow> r + k \<noteq> sp_start t"
  obtains h' L' t' where "merge_next (Sp a) (sp_start t + sp_length t) h = Some h'" "in_flux a P h' L' t'"
    "merged a h t h' t'" "alone (desc {a} (mem h')) (sp_start t') (sp_length t') (sp_location t')"
proof -
  note F = in_fluxD[OF assms(1)]
  let ?D = "desc {a} (mem h)" and ?s = "sp_start t" and ?e = "sp_start t + sp_length t" and ?c = "sp_location t"
  show thesis
  proof (rule next_neighbour[OF assms(1)])
    assume 1: "GetDescriptor h ?e = None" "\<forall>b r k c. ?D b = Some (r, k, c) \<longrightarrow> r \<noteq> ?e"
    have "merge_next (Sp a) ?e h = Some h" using 1(1) F(2) by (simp add: merge_next_def)
    moreover have "alone ?D ?s (sp_length t) ?c" using 1(2) assms(2) unfolding alone_def by blast
    ultimately show thesis using that[of h L t] assms(1) by (metis merged_refl)
  next
    fix b k d
    assume 2: "GetDescriptor h ?e = Some (Sp b)" "?D b = Some (?e, k, d)"
      "\<forall>b' r' k' c. ?D b' = Some (r', k', c) \<longrightarrow> r' = ?e \<longrightarrow> b' = b"
    obtain u where u: "mem h (Sp b) = Some u" "sp_start u = ?e" "sp_length u = k" "sp_location u = d"
      using 2(2) by (auto simp: desc_Some)
    show thesis
    proof (cases "d = ?c")
      case False
      have "merge_next (Sp a) ?e h = Some h" using F(2) 2(1) u False by (simp add: merge_next_def)
      moreover have "r' \<noteq> ?e" if "?D b' = Some (r', k', ?c)" for b' r' k'
        using 2(2,3) False that by (metis option.inject prod.inject)
      then have "alone ?D ?s (sp_length t) ?c" using assms(2) unfolding alone_def by blast
      ultimately show thesis using that[of h L t] assms(1) by (metis merged_refl)
    next
      case True
      note D = 2(2)[unfolded True]
      obtain h1 h2 L' where h2: "RemoveFromFreeList (Sp b) h = Some h1" "heap_DeleteSpan (Sp b) h1 = Some h2"
        "hinv {a} P h2 L'" "desc {a} (mem h2) = ?D(b := None)" "mem h2 (Sp a) = Some t"
        "\<forall>v. idle ?D v \<longrightarrow> mem h2 v = mem h v" "pagemap h2 = pagemap h" "rest h2 = rest h" "room h2 = room h"
        by (rule absorb[OF F(1,2) D F(4)]) (rule that)
      define t2 where "t2 = t\<lparr>sp_start := ?s, sp_length := sp_length t + k\<rparr>"
      obtain h4 where h4: "modify (Sp a) (\<lambda>s. s\<lparr>sp_length := sp_length s + k\<rparr>) h2 = Some h4" "hinv {a} P h4 L'"
        "mem h4 = (mem h2)(Sp a \<mapsto> t\<lparr>sp_length := sp_length t + k\<rparr>)" "pagemap h4 = pagemap h2"
        "rest h4 = rest h2" "room h4 = room h2"
        by (rule Modify_step[OF h2(3) singletonI h2(5)]) (rule that)
      have m4: "mem h4 (Sp a) = Some t2" by (simp add: h4(3) t2_def)
      have D4: "desc {a} (mem h4) = ?D(b := None)"
        unfolding h2(4)[symmetric] by (auto simp: desc_def h4(3))
      have E: "0 < k" "{?e..<?e + k} \<subseteq> P" using hinv_ends[OF F(1) D] by blast+
      define j where "j = ?s + (sp_length t + k) - 1"
      have j: "j \<in> {?e..<?e + k}" using E(1) by (auto simp: j_def)
      then have jP: "j \<in> P" "j \<notin> cover (desc {a} (mem h4))"
        using E(2) cover_remove[OF hinv_parts(3)[OF F(1)] D] by (auto simp: D4)
      obtain h5 where h5: "pagemap_set j (Sp a) h4 = Some h5" "hinv {a} P h5 L'" "mem h5 = mem h4"
        "\<forall>i. GetDescriptor h5 i = (if i = j then Some (Sp a) else GetDescriptor h4 i)" "rest h5 = rest h4" "room h5 = room h4"
        by (rule Set_step[OF h4(2) jP]) (rule that)
      have g4: "GetDescriptor h4 = GetDescriptor h" by (rule GetDescriptor_cong) (simp add: h4(4) h2(7))
      have R: "merge_next (Sp a) ?e h = Some h5"
        using F(2) 2(1) u True h2(1,2) h4(1) m4 h5(1) by (simp add: merge_next_def t2_def j_def)
      have X: "in_flux a P h5 L' t2 \<and> merged a h t h5 t2"
      proof (rule in_flux_extend[OF assms(1) h5(2) _ D])
        show "desc {a} (mem h5) = ?D(b := None)" by (simp add: h5(3) D4)
        show "mem h5 (Sp a) = Some t2" by (simp add: h5(3) m4)
        show "t2 = t\<lparr>sp_start := ?s, sp_length := sp_length t + k\<rparr>" by (simp add: t2_def)
        show "{?s..<?s + (sp_length t + k)} = {?s..<?e} \<union> {?e..<?e + k}" by auto
        show "GetDescriptor h5 (?s + (sp_length t + k) - 1) = Some (Sp a)"
          using h5(4) unfolding j_def by simp
        show "GetDescriptor h5 ?s = Some (Sp a)" using h5(4) F(9) by (simp add: g4)
        show "\<forall>v. idle ?D v \<longrightarrow> v \<noteq> Sp a \<longrightarrow> mem h5 v = mem h v" using h2(6) by (simp add: h5(3) h4(3))
        show "\<forall>i. i \<notin> {?e..<?e + k} \<longrightarrow> GetDescriptor h5 i = GetDescriptor h i" using h5(4) j by (auto simp: g4)
      qed (use F(6) h5(5,6) h4(5,6) h2(8,9) in \<open>simp_all del: sizeof_Span_def\<close>)
      have "alone (desc {a} (mem h5)) (sp_start t2) (sp_length t2) (sp_location t2)"
        unfolding alone_def
      proof (intro disjI2 allI impI conjI notI)
        fix b' r' k'
        assume "desc {a} (mem h5) b' = Some (r', k', sp_location t2)"
        then have b': "?D b' = Some (r', k', ?c)" by (auto simp: h5(3) D4 t2_def split: if_splits)
        show False if "r' + k' = sp_start t2" using assms(2) b' that by (simp add: t2_def)
        show False if "r' = sp_start t2 + sp_length t2"
        proof -
          have "r' = ?e + k" using that by (simp add: t2_def)
          then show False using hinv_parts(4)[OF F(1)] D b' F(4) unfolding coalesced_def by blast
        qed
      qed
      then show thesis using that[OF R conjunct1[OF X] conjunct2[OF X]] by blast
    qed
  qed
qed

text \<open>
  \<open>MergeIntoFreeList\<close>: the span becomes free, merged with its free neighbours of the same kind.  The
  location of no other page changes.
\<close>

lemma MergeIntoFreeList_hinv:
  assumes "in_flux a P h L t"
  obtains h' L' s l where "MergeIntoFreeList (Sp a) h = Some h'" "hinv {} P h' L'" "cover (desc {} (mem h')) = P"
    "desc {} (mem h') a = Some (s, l, sp_location t)"
    "{sp_start t..<sp_start t + sp_length t} \<subseteq> {s..<s + l}"
    "keeps ((desc {a} (mem h))(a \<mapsto> (s, l, sp_location t))) (desc {} (mem h'))"
    "\<forall>c. pages_of c (desc {} (mem h')) = pages_of c (desc {a} (mem h)) \<union>
       (if sp_location t = c then {sp_start t..<sp_start t + sp_length t} else {})"
    "\<forall>v. idle (desc {a} (mem h)) v \<longrightarrow> v \<noteq> Sp a \<longrightarrow> mem h' v = mem h v"
    "rest h' = rest h" "room h' = room h" "pages_kept (desc {a} (mem h)) h h'"
proof -
  note F = in_fluxD[OF assms]
  obtain h1 L1 t1 where h1: "merge_prev (Sp a) (sp_start t) h = Some h1" "in_flux a P h1 L1 t1" "merged a h t h1 t1"
    "sp_start t1 + sp_length t1 = sp_start t + sp_length t"
    "\<forall>b r k. desc {a} (mem h1) b = Some (r, k, sp_location t1) \<longrightarrow> r + k \<noteq> sp_start t1"
    by (rule merge_prev_flux[OF assms]) (rule that)
  obtain h2 L2 t2 where h2: "merge_next (Sp a) (sp_start t1 + sp_length t1) h1 = Some h2" "in_flux a P h2 L2 t2"
    "merged a h1 t1 h2 t2" "alone (desc {a} (mem h2)) (sp_start t2) (sp_length t2) (sp_location t2)"
    by (rule merge_next_flux[OF h1(2,5)]) (rule that)
  note G = in_fluxD[OF h2(2)] and M = mergedD[OF merged_trans[OF h1(3) h2(3)]]
  let ?D2 = "desc {a} (mem h2)"
  have run: "{sp_start t2..<sp_start t2 + sp_length t2} \<subseteq> P" using G(8) by blast
  obtain h3 L3 where h3: "PrependToFreeList (Sp a) h2 = Some h3" "hinv ({a} - {a}) P h3 L3"
    "shape (mem h3) = shape (mem h2)" "\<forall>v. idle ?D2 v \<longrightarrow> v \<noteq> Sp a \<longrightarrow> mem h3 v = mem h2 v"
    "pagemap h3 = pagemap h2" "rest h3 = rest h2" "room h3 = room h2"
    by (rule Prepend_step[OF G(1) singletonI G(2-6) run G(7) h2(4) G(9,10)]) (rule that)
  obtain t3 where t3: "mem h3 (Sp a) = Some t3" "sp_start t3 = sp_start t2" "sp_length t3 = sp_length t2"
    "sp_location t3 = sp_location t2" using shape_fields[OF h3(3) G(2)] by metis
  have D3: "desc {} (mem h3) = ?D2(a \<mapsto> (sp_start t2, sp_length t2, sp_location t))"
    using desc_join[of "mem h3" a t3 "{a}"] t3 M(2) by (simp add: desc_shape[OF h3(3)])
  have Da: "?D2 a = None" by (simp add: desc_def)
  have R: "MergeIntoFreeList (Sp a) h = Some h3"
    using F(2,4) h1(1,4) h2(1) h3(1) by (simp add: MergeIntoFreeList_def)
  have cov: "cover (desc {} (mem h3)) = P" using cover_upd[of ?D2 a, OF Da] G(8) by (simp add: D3)
  have pg: "\<forall>c. pages_of c (desc {} (mem h3)) = pages_of c (desc {a} (mem h)) \<union>
       (if sp_location t = c then {sp_start t..<sp_start t + sp_length t} else {})"
    using M(4) pages_of_insert[of ?D2 a, OF Da] by (simp add: D3)
  have kp: "keeps ((desc {a} (mem h))(a \<mapsto> (sp_start t2, sp_length t2, sp_location t))) (desc {} (mem h3))"
    unfolding D3 by (rule keeps_upd[OF M(1)])
  have fr: "\<forall>v. idle (desc {a} (mem h)) v \<longrightarrow> v \<noteq> Sp a \<longrightarrow> mem h3 v = mem h v"
    using h3(4) M(5) keeps_idle[OF M(1)] by simp
  show thesis
    by (rule that[OF R _ cov _ M(3) kp pg fr _ _ pages_kept_trans[OF M(8) pages_kept_map[OF h3(5)] subset_refl]]) (use h3(2,6,7) M(6,7) in \<open>simp_all add: D3 del: sizeof_Span_def\<close>)
qed

end
