(* ===== verification/PageHeapSpec.thy ===== *)
theory PageHeapSpec
  imports PageHeapOps
begin

text \<open>
  What the page heap promises: the public operations keep the invariant, never fail an assertion,
  and do to the pages what their comments say.
\<close>

section \<open>The whole invariant\<close>

abbreviation spans :: "pageheap \<Rightarrow> descs" where
  "spans h \<equiv> desc {} (mem h)"

definition heap_at :: "nat set \<Rightarrow> pageheap \<Rightarrow> bool" where
  "heap_at P h \<longleftrightarrow> (\<exists>L. hinv {} P h L) \<and> cover (spans h) = P"

definition heap_ok :: "pageheap \<Rightarrow> bool" where
  "heap_ok h \<longleftrightarrow> heap_at (cover (spans h)) h"

lemma heap_at_ok: "heap_at P h \<Longrightarrow> heap_ok h"
  by (auto simp: heap_at_def heap_ok_def)

lemma pages_of_diff:
  assumes "descs_ok P D" "D a = Some (s, l, c)"
  shows "pages_of c' (D(a := None)) = pages_of c' D - (if c = c' then {s..<s + l} else {})"
proof -
  have "{s..<s + l} \<inter> cover (D(a := None)) = {}" using cover_remove[OF assms] by auto
  then have "{s..<s + l} \<inter> pages_of c' (D(a := None)) = {}" by (auto simp: cover_pages_of)
  then show ?thesis using pages_of_remove[of D a s l c c', OF assms(2)] by auto
qed

lemma desc_modified: "desc {a} (m(Sp a \<mapsto> t)) = desc {a} m"
  by (auto simp: desc_def)

lemma in_flux_start:
  assumes "hinv {} P h L" "cover (spans h) = P" "spans h a = Some (s, l, c)"
    and "hinv {a} P h' L'" "desc {a} (mem h') = (spans h)(a := None)" "pagemap h' = pagemap h"
    and "mem h' (Sp a) = Some t" "sp_start t = s" "sp_length t = l" "sp_location t \<noteq> IN_USE" "sp_location t \<le> 2"
    and "detached (mem h') (Sp a)"
  shows "in_flux a P h' L' t"
proof -
  note E = hinv_ends[OF assms(1,3)]
  have cov: "cover ((spans h)(a := None)) = P - {s..<s + l}"
    using cover_remove[OF hinv_parts(3)[OF assms(1)] assms(3)] assms(2) by simp
  have "GetDescriptor h' = GetDescriptor h" using assms(6) by (rule GetDescriptor_cong)
  then show ?thesis using assms(4,7-12) E cov unfolding in_flux_def assms(5) by auto
qed

text \<open>The free spans.\<close>

definition free_span :: "pageheap \<Rightarrow> nat \<Rightarrow> nat \<Rightarrow> nat \<Rightarrow> nat \<Rightarrow> bool" where
  "free_span h a s l c \<longleftrightarrow> spans h a = Some (s, l, c) \<and> c \<noteq> IN_USE"

text \<open>Because free neighbours are coalesced, a run of free pages of one kind lies in one span.\<close>

lemma run_in_one_span:
  assumes "descs_ok P D" "coalesced D" "c \<noteq> IN_USE" "0 < l" "{s..<s + l} \<subseteq> pages_of c D"
  shows "\<exists>b t k. D b = Some (t, k, c) \<and> {s..<s + l} \<subseteq> {t..<t + k}"
  using assms(4,5)
proof (induction l)
  case (Suc l)
  have "s + l \<in> pages_of c D" using Suc.prems(2) by auto
  then obtain b t k where b: "D b = Some (t, k, c)" "t \<le> s + l" "s + l < t + k" by (auto simp: pages_of_def)
  show ?case
  proof (cases "l = 0")
    case True
    then show ?thesis using b by (intro exI[of _ b] exI[of _ t] exI[of _ k]) auto
  next
    case False
    moreover have "{s..<s + l} \<subseteq> pages_of c D" using Suc.prems(2) by auto
    ultimately obtain b' t' k' where b': "D b' = Some (t', k', c)" "{s..<s + l} \<subseteq> {t'..<t' + k'}"
      using Suc.IH by auto
    have bd: "t' \<le> s" "s + l \<le> t' + k'" using b'(2) False by (simp_all add: atLeastLessThan_subset_iff)
    have "s + l \<noteq> t' + k'" if "b \<noteq> b'"
    proof
      assume e: "s + l = t' + k'"
      have "t + k \<le> t' \<or> t' + k' \<le> t" using assms(1) b(1) b'(1) that unfolding descs_ok_def by blast
      then have "t = t' + k'" using e b(2,3) bd False by linarith
      then show False using assms(2,3) b(1) b'(1) unfolding coalesced_def by blast
    qed
    moreover have "s + l < t' + k'" if "b = b'" using b(1,3) b'(1) that by simp
    ultimately have "s + Suc l \<le> t' + k'" using bd by (cases "b = b'") auto
    then have "{s..<s + Suc l} \<subseteq> {t'..<t' + k'}" using bd by auto
    then show ?thesis using b'(1) by blast
  qed
qed simp

text \<open>Every free span of \<open>h\<close> lies inside a free span of \<open>h'\<close>.\<close>

definition grows :: "pageheap \<Rightarrow> pageheap \<Rightarrow> bool" where
  "grows h h' \<longleftrightarrow> (\<forall>a s l c. free_span h a s l c \<longrightarrow>
     (\<exists>b t k d. free_span h' b t k d \<and> {s..<s + l} \<subseteq> {t..<t + k}))"

lemma grows_refl [simp]: "grows h h"
  unfolding grows_def by blast

lemma grows_trans: "grows h h1 \<Longrightarrow> grows h1 h2 \<Longrightarrow> grows h h2"
  unfolding grows_def by (meson subset_trans)

lemma grows_index [simp]:
  "grows (h\<lparr>release_index := i\<rparr>) h' = grows h h'" "grows h (h'\<lparr>release_index := i\<rparr>) = grows h h'"
  "grows h (h'\<lparr>scavenge_counter := k\<rparr>) = grows h h'" "grows (h\<lparr>scavenge_counter := k\<rparr>) h' = grows h h'"
  by (simp_all add: grows_def free_span_def)

lemma free_run_covered:
  assumes "hinv {} P h' L'" "0 < l" "{s..<s + l} \<subseteq> pages_of d (spans h')" "d \<noteq> IN_USE"
  shows "\<exists>b t k e. free_span h' b t k e \<and> {s..<s + l} \<subseteq> {t..<t + k}"
proof -
  note H = hinv_parts[OF assms(1)]
  obtain b t k where "spans h' b = Some (t, k, d)" "{s..<s + l} \<subseteq> {t..<t + k}"
    using run_in_one_span[OF H(3,4) assms(4,2,3)] by blast
  then show ?thesis using assms(4) unfolding free_span_def by blast
qed

section \<open>Releasing memory\<close>

text \<open>
  What releasing does: pages move from the normal free spans to the returned ones; allocated spans and
  everything outside the page structures stay as they are.
\<close>

definition kept :: "pageheap \<Rightarrow> _" where
  "kept h = (system_bytes h, stacktrace_allocator h, traces h, growth_stacks h, os_grants h, pagemap_cache h)"

definition released :: "pageheap \<Rightarrow> pageheap \<Rightarrow> bool" where
  "released h h' \<longleftrightarrow> pages_of IN_USE (spans h') = pages_of IN_USE (spans h)
     \<and> pages_of ON_NORMAL_FREELIST (spans h') \<subseteq> pages_of ON_NORMAL_FREELIST (spans h)
     \<and> pages_of ON_RETURNED_FREELIST (spans h') = pages_of ON_RETURNED_FREELIST (spans h)
         \<union> (pages_of ON_NORMAL_FREELIST (spans h) - pages_of ON_NORMAL_FREELIST (spans h'))
     \<and> (\<forall>v. idle (spans h) v \<longrightarrow> idle (spans h') v \<and> mem h' v = mem h v)
     \<and> kept h' = kept h \<and> room h' = room h \<and> grows h h' \<and> pages_kept (spans h) h h'"

lemma released_refl [simp]: "released h h"
  by (simp add: released_def)

lemma releasedD:
  assumes "released h h'"
  shows "pages_of IN_USE (spans h') = pages_of IN_USE (spans h)"
    "pages_of ON_NORMAL_FREELIST (spans h') \<subseteq> pages_of ON_NORMAL_FREELIST (spans h)"
    "pages_of ON_RETURNED_FREELIST (spans h') = pages_of ON_RETURNED_FREELIST (spans h)
         \<union> (pages_of ON_NORMAL_FREELIST (spans h) - pages_of ON_NORMAL_FREELIST (spans h'))"
    "idle (spans h) v \<Longrightarrow> idle (spans h') v \<and> mem h' v = mem h v"
    "kept h' = kept h" "room h' = room h" "grows h h'" "pages_kept (spans h) h h'"
  using assms unfolding released_def by blast+

lemma released_trans:
  assumes "released h h1" "released h1 h2"
  shows "released h h2"
  unfolding released_def
proof (intro conjI allI impI)
  note A = releasedD[OF assms(1)] and B = releasedD[OF assms(2)]
  show "pages_of ON_RETURNED_FREELIST (spans h2) = pages_of ON_RETURNED_FREELIST (spans h)
         \<union> (pages_of ON_NORMAL_FREELIST (spans h) - pages_of ON_NORMAL_FREELIST (spans h2))"
    unfolding B(3) A(3) using A(2) B(2) by blast
  show "grows h h2" by (rule grows_trans[OF A(7) B(7)])
  show "pages_kept (spans h) h h2" by (rule pages_kept_trans[OF A(8) B(8)]) (simp only: A(1) subset_refl)
  show "idle (spans h2) v" "mem h2 v = mem h v" if "idle (spans h) v" for v
    using A(4)[OF that] B(4) by simp_all
qed (use releasedD[OF assms(1)] releasedD[OF assms(2)] in \<open>simp_all del: sizeof_Span_def, blast?\<close>)

lemma disjoint_pages_of:
  assumes "descs_ok P D" "c \<noteq> c'"
  shows "pages_of c D \<inter> pages_of c' D = {}"
proof -
  have False if "D a = Some (s, l, c)" "s \<le> k" "k < s + l" "D b = Some (r, n, c')" "r \<le> k" "k < r + n" for a b s l r n k
  proof -
    have "a \<noteq> b" using that assms(2) by auto
    then have "s + l \<le> r \<or> r + n \<le> s" using assms(1) that unfolding descs_ok_def by blast
    then show False using that by linarith
  qed
  then show ?thesis unfolding pages_of_def by blast
qed

lemma kept_rest: "rest h' = rest h \<Longrightarrow> kept h' = kept h"
  by (simp add: rest_def kept_def)

lemma kept_simps [simp]:
  "kept (h\<lparr>os_released := r\<rparr>) = kept h" "kept (h\<lparr>release_index := i\<rparr>) = kept h"
  "kept (h\<lparr>scavenge_counter := c\<rparr>) = kept h"
  by (simp_all add: kept_def)

lemma idle_join: "idle ((D)(a := None)) v \<Longrightarrow> v \<noteq> Sp a \<Longrightarrow> idle (D(a \<mapsto> x)) v"
  by (auto simp: idle_def)

lemma keeps_idle_join:
  assumes "keeps ((D(a := None))(a \<mapsto> (s, l, c))) D'" "idle D v" "v \<noteq> Sp a"
  shows "idle D' v"
proof -
  have "idle ((D(a := None))(a \<mapsto> (s, l, c))) v" using assms(2,3) by (auto simp: idle_def)
  then show ?thesis by (rule keeps_idle[OF assms(1)])
qed

lemma ReleaseLastNormalSpan_spec:
  assumes "heap_at P h" "ll = LargeNormal \<or> (\<exists>i < kMaxPages. ll = FreeNormal i)"
    and "DLL_IsEmpty ll (mem h) = Some False"
  obtains n h' where "ReleaseLastNormalSpan ll h = Some (n, h')" "heap_at P h'" "0 < n"
    "released h h'" "card (pages_of ON_NORMAL_FREELIST (spans h)) = card (pages_of ON_NORMAL_FREELIST (spans h')) + n"
    "release_index h' = release_index h"
proof -
  let ?D = "spans h"
  obtain L where I: "hinv {} P h L" and P: "cover ?D = P" using assms(1) by (auto simp: heap_at_def)
  note H = hinv_parts[OF I]
  have ll: "ll \<in> heads" using assms(2) by (auto simp: heads_def)
  have dl: "dll (mem h) ll (L ll)" by (rule dlls_dll[OF H(1) ll])
  then have ne: "L ll \<noteq> []" using assms(3) dll_IsEmpty[OF dl] by auto
  then have lastin: "last (L ll) \<in> set (L ll)" and pl: "prv (mem h) ll = Some (last (L ll))"
    using path_heads[of "mem h" ll "L ll" ll] dl by (auto simp: dll_def)
  then obtain a s l c where a: "last (L ll) = Sp a" "?D a = Some (s, l, c)" "home c l = Some ll"
    using H(2) ll unfolding lists_ok_def by blast
  have c: "c = ON_NORMAL_FREELIST"
    using a(3) assms(2) by (auto simp: home_def returned_list_def split: if_splits)
  have cn: "c \<noteq> IN_USE" by (simp add: c)
  obtain hd where hd: "mem h ll = Some hd" "sp_prev hd = Some (Sp a)" using pl a(1) prv_live by metis
  obtain t0 where t0: "mem h (Sp a) = Some t0" "sp_start t0 = s" "sp_length t0 = l" "sp_location t0 = c"
    using a(2) by (auto simp: desc_Some)
  obtain h1 L1 where h1: "RemoveFromFreeList (Sp a) h = Some h1" "hinv {a} P h1 L1"
    "shape (mem h1) = shape (mem h)" "detached (mem h1) (Sp a)"
    "\<forall>v. idle ?D v \<longrightarrow> mem h1 v = mem h v" "pagemap h1 = pagemap h" "rest h1 = rest h" "room h1 = room h"
    by (rule Remove_step[OF I a(2) cn]) (rule that)
  obtain t1 where t1: "mem h1 (Sp a) = Some t1" "sp_start t1 = s" "sp_length t1 = l"
    using shape_fields[OF h1(3) t0(1)] t0 by metis
  define h2 where "h2 = h1\<lparr>os_released := (span_bytes s, span_bytes l) # os_released h1\<rparr>"
  have h2: "hinv {a} P h2 L1" "mem h2 (Sp a) = Some t1" using h1(2) t1 by (simp_all add: h2_def)
  obtain h3 where h3: "modify (Sp a) (\<lambda>s. s\<lparr>sp_location := ON_RETURNED_FREELIST\<rparr>) h2 = Some h3" "hinv {a} P h3 L1"
    "mem h3 = (mem h2)(Sp a \<mapsto> t1\<lparr>sp_location := ON_RETURNED_FREELIST\<rparr>)" "pagemap h3 = pagemap h2"
    "rest h3 = rest h2" "room h3 = room h2"
    by (rule Modify_step[OF h2(1) singletonI h2(2)]) (rule that)
  define t where "t = t1\<lparr>sp_location := ON_RETURNED_FREELIST\<rparr>"
  have D3: "desc {a} (mem h3) = ?D(a := None)"
    using desc_shape[OF h1(3), of "{a}"] desc_insert[of a "{}"] by (simp add: h3(3) h2_def desc_modified)
  have fl: "in_flux a P h3 L1 t"
  proof (rule in_flux_start[OF I P a(2) h3(2) D3])
    show "detached (mem h3) (Sp a)" using h1(4) t1(1) by (simp add: detached_def nxt_def prv_def h3(3) h2_def)
  qed (use h1(6) t1 in \<open>simp_all add: h3(3,4) h2_def t_def\<close>)
  obtain h' L' s' l' where h': "MergeIntoFreeList (Sp a) h3 = Some h'" "hinv {} P h' L'" "cover (spans h') = P"
    "spans h' a = Some (s', l', sp_location t)"
    "{sp_start t..<sp_start t + sp_length t} \<subseteq> {s'..<s' + l'}"
    "keeps ((desc {a} (mem h3))(a \<mapsto> (s', l', sp_location t))) (spans h')"
    "\<forall>c. pages_of c (spans h') = pages_of c (desc {a} (mem h3)) \<union>
       (if sp_location t = c then {sp_start t..<sp_start t + sp_length t} else {})"
    "\<forall>v. idle (desc {a} (mem h3)) v \<longrightarrow> v \<noteq> Sp a \<longrightarrow> mem h' v = mem h3 v"
    "rest h' = rest h3" "room h' = room h3" "pages_kept (desc {a} (mem h3)) h3 h'"
    by (rule MergeIntoFreeList_hinv[OF fl]) (rule that)
  have R: "ReleaseLastNormalSpan ll h = Some (l, h')"
    using hd t0 c h1(1) t1 h3(1) h'(1) by (simp add: ReleaseLastNormalSpan_def h2_def Let_def)
  note df = pages_of_diff[of P ?D a s l c, OF H(3) a(2)]
  have run: "{s..<s + l} \<subseteq> pages_of c ?D"
    using pages_of_remove[of ?D a s l c c, OF a(2)] by auto
  have pg: "pages_of IN_USE (spans h') = pages_of IN_USE ?D"
    "pages_of ON_NORMAL_FREELIST (spans h') = pages_of ON_NORMAL_FREELIST ?D - {s..<s + l}"
    "pages_of ON_RETURNED_FREELIST (spans h') = pages_of ON_RETURNED_FREELIST ?D \<union> {s..<s + l}"
    using h'(7) df by (simp_all add: D3 t_def t1 c)
  have idl: "idle (spans h') v \<and> mem h' v = mem h v" if v: "idle ?D v" for v
  proof -
    have va: "v \<noteq> Sp a" using v a(2) cn by (auto simp: idle_def)
    have "idle (spans h') v" using keeps_idle_join[of ?D a s' l' _ "spans h'" v] h'(6) v va by (simp add: D3)
    moreover have "idle (desc {a} (mem h3)) v" using idle_remove[OF v] by (simp only: D3)
    then have "mem h' v = mem h v" using h'(8) h1(5) v va by (simp add: h3(3) h2_def)
    ultimately show ?thesis by blast
  qed
  have kp: "kept h' = kept h" "release_index h' = release_index h" "room h' = room h"
    using h'(9,10) h3(5,6) h1(7,8) by (simp_all add: h2_def rest_def kept_def del: sizeof_Span_def)
  have "grows h h'"
    unfolding grows_def
  proof (intro allI impI)
    fix b r k d
    assume b: "free_span h b r k d"
    then have D: "?D b = Some (r, k, d)" "d \<noteq> IN_USE" by (auto simp: free_span_def)
    have "{r..<r + k} \<subseteq> pages_of (if b = a then ON_RETURNED_FREELIST else d) (spans h')"
    proof (cases "b = a")
      case True
      then show ?thesis using D(1) a(2) pg(3) by simp
    next
      case False
      have "{r..<r + k} \<subseteq> pages_of d (?D(a := None))"
        using pages_of_remove[of "?D(a := None)" b r k d d] D(1) False by auto
      then show ?thesis using h'(7) False by (auto simp: D3)
    qed
    then show "\<exists>b t k' d. free_span h' b t k' d \<and> {r..<r + k} \<subseteq> {t..<t + k'}"
      using free_run_covered[OF h'(2) hinv_ends(3)[OF I D(1)]] D(2) by (cases "b = a") auto
  qed
  moreover have "pages_kept ?D h h'"
  proof (rule pages_kept_trans[OF pages_kept_map h'(11)])
    show "pagemap h3 = pagemap h" using h1(6) h3(4) by (simp add: h2_def)
    show "pages_of IN_USE ?D \<subseteq> pages_of IN_USE (desc {a} (mem h3))" using df[of IN_USE] c by (simp add: D3)
  qed
  ultimately have rel: "released h h'"
    unfolding released_def using pg run idl kp c by (auto simp del: sizeof_Span_def)
  have "finite P" by (rule hinv_finite[OF I])
  moreover have "pages_of ON_NORMAL_FREELIST ?D \<subseteq> P" using P by (auto simp: cover_pages_of)
  ultimately have "finite (pages_of ON_NORMAL_FREELIST ?D)" by (rule rev_finite_subset)
  then have "card (pages_of ON_NORMAL_FREELIST ?D) = card (pages_of ON_NORMAL_FREELIST (spans h')) + card {s..<s + l}"
    unfolding pg(2) using run c by (metis card_Diff_subset card_mono finite_atLeastLessThan le_add_diff_inverse2)
  moreover have "0 < l" using hinv_ends(3)[OF I a(2)] .
  ultimately show thesis
    using that[OF R] h'(2,3) rel kp(2) by (auto simp: heap_at_def)
qed

text \<open>The normal list that the round-robin index selects.\<close>

definition rr_index :: "pageheap \<Rightarrow> nat" where
  "rr_index h = (if release_index h > kMaxPages then 0 else release_index h)"

definition rr_list :: "nat \<Rightarrow> spanptr" where
  "rr_list i = (if i = kMaxPages then LargeNormal else FreeNormal i)"

lemma rr_index_le: "rr_index h \<le> kMaxPages"
  by (simp add: rr_index_def)

lemma rr_list_ll: "i \<le> kMaxPages \<Longrightarrow> rr_list i = LargeNormal \<or> (\<exists>j < kMaxPages. rr_list i = FreeNormal j)"
  by (auto simp: rr_list_def)

lemma heap_at_index [simp]: "heap_at P (h\<lparr>release_index := i\<rparr>) = heap_at P h"
  "heap_at P (h\<lparr>scavenge_counter := c\<rparr>) = heap_at P h"
  by (simp_all add: heap_at_def)

lemma released_index [simp]:
  "released (h\<lparr>release_index := i\<rparr>) h' = released h h'" "released h (h'\<lparr>release_index := i\<rparr>) = released h h'"
  "released h (h'\<lparr>scavenge_counter := c\<rparr>) = released h h'" "released (h\<lparr>scavenge_counter := c\<rparr>) h' = released h h'"
  by (simp_all add: released_def pages_kept_def GetDescriptor_def)

lemma heap_at_empty:
  assumes "heap_at P h" "i \<le> kMaxPages"
  shows "\<exists>e. DLL_IsEmpty (rr_list i) (mem h) = Some e"
proof -
  obtain L where "hinv {} P h L" using assms(1) by (auto simp: heap_at_def)
  moreover have "rr_list i \<in> heads" using assms(2) by (auto simp: rr_list_def heads_def)
  ultimately show ?thesis using dll_IsEmpty[OF dlls_dll[OF hinv_parts(1)]] by blast
qed

lemma release_pass_Suc:
  "release_pass (Suc k) num r h =
     (if r < num then
        DLL_IsEmpty (rr_list (rr_index h)) (mem (h\<lparr>release_index := rr_index h\<rparr>)) \<bind> (\<lambda>e.
          (if \<not> e then ReleaseLastNormalSpan (rr_list (rr_index h)) (h\<lparr>release_index := rr_index h\<rparr>) \<bind>
              (\<lambda>(n, h). Some (r + n, h))
           else Some (r, h\<lparr>release_index := rr_index h\<rparr>)) \<bind>
          (\<lambda>(r, h). release_pass k num r (h\<lparr>release_index := release_index h + 1\<rparr>)))
      else Some (r, h))"
  by (simp only: release_pass.simps rr_index_def rr_list_def Let_def)

declare release_pass.simps(2) [simp del]

abbreviation normal_pages :: "pageheap \<Rightarrow> nat set" where
  "normal_pages h \<equiv> pages_of ON_NORMAL_FREELIST (spans h)"

lemma release_pass_spec:
  assumes "heap_at P h"
  obtains r' h' where "release_pass k num r h = Some (r', h')" "heap_at P h'" "released h h'" "r \<le> r'"
    "card (normal_pages h) + r = card (normal_pages h') + r'"
    "r < num \<Longrightarrow> r' = r \<Longrightarrow> \<forall>j < k. DLL_IsEmpty (rr_list ((rr_index h + j) mod (kMaxPages + 1))) (mem h) = Some True"
  using assms
proof (induction k arbitrary: r h thesis)
  case 0
  show ?case using "0.prems"(2) by (intro "0.prems"(1)[of r h]) simp_all
next
  case (Suc k)
  show ?case
  proof (cases "r < num")
    case False
    then show ?thesis using Suc.prems(2) by (intro Suc.prems(1)[of r h]) (simp_all add: release_pass_Suc)
  next
    case True
    let ?i = "rr_index h" and ?ll = "rr_list (rr_index h)"
    have i: "?i \<le> kMaxPages" by (rule rr_index_le)
    obtain e where e: "DLL_IsEmpty ?ll (mem h) = Some e" using heap_at_empty[OF Suc.prems(2) i] by blast
    show ?thesis
    proof (cases e)
      case empty: True
      let ?h1 = "h\<lparr>release_index := Suc ?i\<rparr>"
      have h1: "heap_at P ?h1" using Suc.prems(2) by simp
      obtain r' h' where h': "release_pass k num r ?h1 = Some (r', h')" "heap_at P h'" "released ?h1 h'" "r \<le> r'"
        "card (normal_pages ?h1) + r = card (normal_pages h') + r'"
        "r < num \<Longrightarrow> r' = r \<Longrightarrow> \<forall>j < k. DLL_IsEmpty (rr_list ((rr_index ?h1 + j) mod (kMaxPages + 1))) (mem ?h1) = Some True"
        by (rule Suc.IH[OF _ h1]) (rule that)
      have ri: "(rr_index ?h1 + j) mod (kMaxPages + 1) = (?i + Suc j) mod (kMaxPages + 1)" for j
        using i by (cases "?i = kMaxPages") (auto simp: rr_index_def mod_Suc)
      have all: "\<forall>j < Suc k. DLL_IsEmpty (rr_list ((?i + j) mod (kMaxPages + 1))) (mem h) = Some True" if "r' = r"
      proof (intro allI impI)
        fix j
        assume "j < Suc k"
        then show "DLL_IsEmpty (rr_list ((?i + j) mod (kMaxPages + 1))) (mem h) = Some True"
          using h'(6)[OF True that] e empty i ri by (cases j) auto
      qed
      have "release_pass (Suc k) num r h = Some (r', h')"
        using True e empty h'(1) by (simp add: release_pass_Suc)
      then show ?thesis using h' all by (intro Suc.prems(1)[of r' h']) simp_all
    next
      case ne: False
      have h0: "heap_at P (h\<lparr>release_index := ?i\<rparr>)" "DLL_IsEmpty ?ll (mem (h\<lparr>release_index := ?i\<rparr>)) = Some False"
        using Suc.prems(2) e ne by simp_all
      obtain n h1 where h1: "ReleaseLastNormalSpan ?ll (h\<lparr>release_index := ?i\<rparr>) = Some (n, h1)" "heap_at P h1" "0 < n"
        "released (h\<lparr>release_index := ?i\<rparr>) h1"
        "card (normal_pages (h\<lparr>release_index := ?i\<rparr>)) = card (normal_pages h1) + n"
        "release_index h1 = release_index (h\<lparr>release_index := ?i\<rparr>)"
        by (rule ReleaseLastNormalSpan_spec[OF h0(1) rr_list_ll[OF i] h0(2)]) (rule that)
      let ?h2 = "h1\<lparr>release_index := Suc (release_index h1)\<rparr>"
      have h2: "heap_at P ?h2" using h1(2) by simp
      obtain r' h' where h': "release_pass k num (r + n) ?h2 = Some (r', h')" "heap_at P h'" "released ?h2 h'" "r + n \<le> r'"
        "card (normal_pages ?h2) + (r + n) = card (normal_pages h') + r'"
        by (rule Suc.IH[OF _ h2]) (rule that)
      have "release_pass (Suc k) num r h = Some (r', h')"
        using True e ne h1(1) h'(1) by (simp add: release_pass_Suc)
      moreover have "released h h'" using released_trans[of h h1 h'] h1(4) h'(3) by simp
      ultimately show ?thesis using h'(2,4,5) h1(3,5) by (intro Suc.prems(1)[of r' h']) simp_all
    qed
  qed
qed

text \<open>A fruitless round over all lists means that no normal free span is left.\<close>

lemma all_lists_empty:
  assumes "heap_at P h"
    and "\<forall>j < kMaxPages + 1. DLL_IsEmpty (rr_list ((i + j) mod (kMaxPages + 1))) (mem h) = Some True" "i \<le> kMaxPages"
  shows "normal_pages h = {}"
proof (rule ccontr)
  obtain L where I: "hinv {} P h L" using assms(1) by (auto simp: heap_at_def)
  note H = hinv_parts[OF I]
  assume "normal_pages h \<noteq> {}"
  then obtain a s l where a: "spans h a = Some (s, l, ON_NORMAL_FREELIST)" by (auto simp: pages_of_def)
  define q where "q = (if l < kMaxPages then l else kMaxPages)"
  have q: "q \<le> kMaxPages" "home ON_NORMAL_FREELIST l = Some (rr_list q)"
    by (auto simp: q_def home_def normal_list_def rr_list_def)
  have "(i + (q + (kMaxPages + 1) - i) mod (kMaxPages + 1)) mod (kMaxPages + 1) = q"
    using q(1) assms(3) by (simp only: mod_add_right_eq) simp
  then have "DLL_IsEmpty (rr_list q) (mem h) = Some True"
    using assms(2) by (metis mod_less_divisor zero_less_Suc Suc_eq_plus1)
  moreover have "rr_list q \<in> heads" using home_heads q(2) by blast
  moreover have "Sp a \<in> set (L (rr_list q))"
    using H(2) a q(2) calculation(2) unfolding lists_ok_def by blast
  ultimately show False using dll_IsEmpty[OF dlls_dll[OF H(1)], of "rr_list q"] by auto
qed

lemma heap_at_finite:
  assumes "heap_at P h"
  shows "finite (pages_of c (spans h))" "finite P"
proof -
  obtain L where "hinv {} P h L" using assms by (auto simp: heap_at_def)
  then show "finite P" by (rule hinv_finite)
  moreover have "pages_of c (spans h) \<subseteq> P" using assms by (auto simp: heap_at_def cover_pages_of)
  ultimately show "finite (pages_of c (spans h))" by (rule rev_finite_subset)
qed

lemma release_loop_spec:
  assumes "heap_at P h" "r = prev \<Longrightarrow> r < num \<Longrightarrow> normal_pages h = {}"
  obtains r' h' where "release_loop num r prev h = Some (r', h')" "heap_at P h'" "released h h'" "r \<le> r'"
    "card (normal_pages h) + r = card (normal_pages h') + r'" "num \<le> r' \<or> normal_pages h' = {}"
  using assms
proof (induction "num - r" arbitrary: r prev h thesis rule: less_induct)
  case less
  show ?case
  proof (cases "r < num \<and> r \<noteq> prev")
    case False
    then have "release_loop num r prev h = Some (r, h)" by (subst release_loop.simps) auto
    then show ?thesis using less.prems(2,3) False by (intro less.prems(1)[of r h]) auto
  next
    case True
    obtain r1 h1 where h1: "release_pass (kMaxPages + 1) num r h = Some (r1, h1)" "heap_at P h1" "released h h1" "r \<le> r1"
      "card (normal_pages h) + r = card (normal_pages h1) + r1"
      "r < num \<Longrightarrow> r1 = r \<Longrightarrow>
        \<forall>j < kMaxPages + 1. DLL_IsEmpty (rr_list ((rr_index h + j) mod (kMaxPages + 1))) (mem h) = Some True"
      by (rule release_pass_spec[OF less.prems(2)]) (rule that)
    have unf: "release_loop num r prev h = release_loop num r1 r h1"
      using True h1(1) by (subst release_loop.simps) simp
    show ?thesis
    proof (cases "r1 = r")
      case same: True
      have "normal_pages h = {}"
        using all_lists_empty[OF less.prems(2)] h1(6) True same rr_index_le by blast
      then have e: "normal_pages h1 = {}" using h1(5) same heap_at_finite(1)[OF h1(2)] by (simp add: card_eq_0_iff)
      have "release_loop num r prev h = Some (r1, h1)" unfolding unf using same by (subst release_loop.simps) simp
      then show ?thesis using h1(2-5) e by (intro less.prems(1)[of r1 h1]) auto
    next
      case False
      then have lt: "num - r1 < num - r" "r1 = r \<Longrightarrow> r1 < num \<Longrightarrow> normal_pages h1 = {}"
        using h1(4) True by auto
      obtain r' h' where h': "release_loop num r1 r h1 = Some (r', h')" "heap_at P h'" "released h1 h'" "r1 \<le> r'"
        "card (normal_pages h1) + r1 = card (normal_pages h') + r'" "num \<le> r' \<or> normal_pages h' = {}"
        by (rule less.hyps[OF lt(1) _ h1(2) lt(2)]) (rule that)
      show ?thesis
        by (rule less.prems(1)[of r' h'])
          (use h' h1 unf released_trans[OF h1(3) h'(3)] in auto)
    qed
  qed
qed

lemma heap_at_card:
  assumes "heap_at P h"
  shows "card (pages_of c (spans h)) \<le> 2 ^ 31"
proof -
  obtain L where I: "hinv {} P h L" using assms by (auto simp: heap_at_def)
  have "card (pages_of c (spans h)) \<le> card P"
    using assms heap_at_finite(2)[OF assms] by (intro card_mono) (auto simp: heap_at_def cover_pages_of)
  moreover have "card P \<le> 2 ^ 31" using hinv_pages(1)[OF I] by (simp add: heap_budget_def)
  ultimately show ?thesis by linarith
qed

lemma ReleaseAtLeastNPages_spec:
  assumes "heap_at P h"
  obtains r h' where "ReleaseAtLeastNPages num h = Some (r, h')" "heap_at P h'" "released h h'"
    "card (normal_pages h) = card (normal_pages h') + r" "num \<le> r \<or> normal_pages h' = {}"
proof -
  have "0 \<noteq> two64 - 1" by (simp add: two64_def)
  then obtain r h' where "release_loop num 0 (two64 - 1) h = Some (r, h')" "heap_at P h'" "released h h'" "0 \<le> r"
    "card (normal_pages h) + 0 = card (normal_pages h') + r" "num \<le> r \<or> normal_pages h' = {}"
    using release_loop_spec[OF assms, of 0 "two64 - 1" num] by metis
  then show thesis using that[of r h'] by (simp add: ReleaseAtLeastNPages_def)
qed

lemma IncrementalScavenge_spec:
  assumes "heap_at P h"
  obtains h' where "IncrementalScavenge env n h = Some h'" "heap_at P h'" "released h h'" "0 \<le> scavenge_counter h'"
    "int n \<le> scavenge_counter h \<Longrightarrow> mem h' = mem h \<and> scavenge_counter h' = scavenge_counter h - int n"
proof -
  let ?h = "h\<lparr>scavenge_counter := scavenge_counter h - int n\<rparr>"
  show thesis
  proof (cases "scavenge_counter h - int n \<ge> 0")
    case True
    then show thesis using assms by (intro that[of ?h]) (simp_all add: IncrementalScavenge_def Let_def)
  next
    case neg: False
    show thesis
    proof (cases "release_rate env \<le> 1 / 1000000")
      case True
      then show thesis using assms neg
        by (intro that[of "h\<lparr>scavenge_counter := int kDefaultReleaseDelay\<rparr>"])
          (simp_all add: IncrementalScavenge_def Let_def)
    next
      case rate: False
      have h0: "heap_at P ?h" using assms by simp
      obtain r h1 where h1: "ReleaseAtLeastNPages 1 ?h = Some (r, h1)" "heap_at P h1" "released ?h h1"
        "card (normal_pages ?h) = card (normal_pages h1) + r" "1 \<le> r \<or> normal_pages h1 = {}"
        by (rule ReleaseAtLeastNPages_spec[OF h0]) (rule that)
      define w where "w = (let wait = 1000 / release_rate env * of_nat r
          in if wait > of_nat kMaxReleaseDelay then of_nat kMaxReleaseDelay else wait)"
      define c where "c = (if r = 0 then int kDefaultReleaseDelay else \<lfloor>w\<rfloor>)"
      have "0 < release_rate env" using rate by (simp add: not_le)
      then have "0 \<le> w" by (auto simp: w_def Let_def)
      then have "0 \<le> c" by (simp add: c_def)
      moreover have "IncrementalScavenge env n h = Some (h1\<lparr>scavenge_counter := c\<rparr>)"
        using neg rate h1(1) by (simp add: IncrementalScavenge_def Let_def c_def w_def)
      ultimately show thesis using h1(2,3) neg by (intro that[of "h1\<lparr>scavenge_counter := c\<rparr>"]) simp_all
    qed
  qed
qed

section \<open>Delete\<close>

abbreviation used_pages :: "pageheap \<Rightarrow> nat set" where
  "used_pages h \<equiv> pages_of IN_USE (spans h)"

abbreviation returned_pages :: "pageheap \<Rightarrow> nat set" where
  "returned_pages h \<equiv> pages_of ON_RETURNED_FREELIST (spans h)"

text \<open>A span whose three other fields have been changed and which is put on the normal list.\<close>

lemma Delete_spec:
  assumes "heap_at P h" "spans h a = Some (s, l, IN_USE)" "detached (mem h) (Sp a)"
  obtains h' where "Delete env (Sp a) h = Some h'" "heap_at P h'"
    "used_pages h' = used_pages h - {s..<s + l}"
    "normal_pages h' \<union> returned_pages h' = normal_pages h \<union> returned_pages h \<union> {s..<s + l}"
    "returned_pages h \<subseteq> returned_pages h'"
    "\<forall>v. idle (spans h) v \<longrightarrow> v \<noteq> Sp a \<longrightarrow> idle (spans h') v \<and> mem h' v = mem h v"
    "kept h' = kept h" "room h' = room h" "\<exists>b t k d. free_span h' b t k d \<and> {s..<s + l} \<subseteq> {t..<t + k}"
    "pages_kept ((spans h)(a := None)) h h'"
proof -
  let ?D = "spans h"
  obtain L where I: "hinv {} P h L" and P: "cover ?D = P" using assms(1) by (auto simp: heap_at_def)
  note H = hinv_parts[OF I] and E = hinv_ends[OF I assms(2)]
  obtain t where t: "mem h (Sp a) = Some t" "sp_start t = s" "sp_length t = l" "sp_location t = IN_USE"
    using assms(2) by (auto simp: desc_Some)
  have I0: "hinv {a} P h L" by (rule hinv_leave[OF I assms(2)])
  obtain h1 where h1: "modify (Sp a) (\<lambda>s. s\<lparr>sp_sizeclass := 0\<rparr>) h = Some h1" "hinv {a} P h1 L"
    "mem h1 = (mem h)(Sp a \<mapsto> t\<lparr>sp_sizeclass := 0\<rparr>)" "pagemap h1 = pagemap h" "rest h1 = rest h" "room h1 = room h"
    by (rule Modify_step[OF I0 singletonI t(1)]) (rule that)
  have m1: "mem h1 (Sp a) = Some (t\<lparr>sp_sizeclass := 0\<rparr>)" by (simp add: h1(3))
  obtain h2 where h2: "modify (Sp a) (\<lambda>s. s\<lparr>sp_sample := False\<rparr>) h1 = Some h2" "hinv {a} P h2 L"
    "mem h2 = (mem h1)(Sp a \<mapsto> t\<lparr>sp_sizeclass := 0\<rparr>\<lparr>sp_sample := False\<rparr>)" "pagemap h2 = pagemap h1"
    "rest h2 = rest h1" "room h2 = room h1"
    by (rule Modify_step[OF h1(2) singletonI m1]) (rule that)
  have m2: "mem h2 (Sp a) = Some (t\<lparr>sp_sizeclass := 0\<rparr>\<lparr>sp_sample := False\<rparr>)" by (simp add: h2(3))
  define u where "u = t\<lparr>sp_sizeclass := 0\<rparr>\<lparr>sp_sample := False\<rparr>\<lparr>sp_location := ON_NORMAL_FREELIST\<rparr>"
  obtain h3 where h3: "modify (Sp a) (\<lambda>s. s\<lparr>sp_location := ON_NORMAL_FREELIST\<rparr>) h2 = Some h3" "hinv {a} P h3 L"
    "mem h3 = (mem h2)(Sp a \<mapsto> t\<lparr>sp_sizeclass := 0\<rparr>\<lparr>sp_sample := False\<rparr>\<lparr>sp_location := ON_NORMAL_FREELIST\<rparr>)"
    "pagemap h3 = pagemap h2" "rest h3 = rest h2" "room h3 = room h2"
    by (rule Modify_step[OF h2(2) singletonI m2]) (rule that)
  have D3: "desc {a} (mem h3) = ?D(a := None)"
    using desc_insert[of a "{}"] by (simp add: h3(3) h2(3) h1(3) desc_modified)
  have fl: "in_flux a P h3 L u"
  proof (rule in_flux_start[OF I P assms(2) h3(2) D3])
    show "detached (mem h3) (Sp a)"
      using assms(3) t(1) by (simp add: detached_def nxt_def prv_def h3(3) h2(3) h1(3))
  qed (use t in \<open>simp_all add: h3(3,4) h2(4) h1(4) u_def\<close>)
  obtain h4 L' s' l' where h4: "MergeIntoFreeList (Sp a) h3 = Some h4" "hinv {} P h4 L'" "cover (spans h4) = P"
    "spans h4 a = Some (s', l', sp_location u)"
    "{sp_start u..<sp_start u + sp_length u} \<subseteq> {s'..<s' + l'}"
    "keeps ((desc {a} (mem h3))(a \<mapsto> (s', l', sp_location u))) (spans h4)"
    "\<forall>c. pages_of c (spans h4) = pages_of c (desc {a} (mem h3)) \<union>
       (if sp_location u = c then {sp_start u..<sp_start u + sp_length u} else {})"
    "\<forall>v. idle (desc {a} (mem h3)) v \<longrightarrow> v \<noteq> Sp a \<longrightarrow> mem h4 v = mem h3 v"
    "rest h4 = rest h3" "room h4 = room h3" "pages_kept (desc {a} (mem h3)) h3 h4"
    by (rule MergeIntoFreeList_hinv[OF fl]) (rule that)
  have at4: "heap_at P h4" using h4(2,3) by (auto simp: heap_at_def)
  obtain h' where h': "IncrementalScavenge env l h4 = Some h'" "heap_at P h'" "released h4 h'"
    using IncrementalScavenge_spec[OF at4] by metis
  have chk: "assert_Check h = Some ()" "assert_Check h' = Some ()"
    using assert_Check_hinv I h'(2) by (auto simp: heap_at_def)
  have R: "Delete env (Sp a) h = Some h'"
    using chk t E h1(1) h2(1) h3(1) h4(1) h'(1) by (simp add: Delete_def)
  note df = pages_of_diff[of P ?D a s l IN_USE, OF H(3) assms(2)]
  have pg4: "used_pages h4 = used_pages h - {s..<s + l}" "normal_pages h4 = normal_pages h \<union> {s..<s + l}"
    "returned_pages h4 = returned_pages h"
    using h4(7) df t by (auto simp: D3 u_def)
  have rel: "used_pages h' = used_pages h4" "normal_pages h' \<subseteq> normal_pages h4"
    "returned_pages h' = returned_pages h4 \<union> (normal_pages h4 - normal_pages h')"
    "\<And>v. idle (spans h4) v \<Longrightarrow> idle (spans h') v \<and> mem h' v = mem h4 v" "kept h' = kept h4" "room h' = room h4"
    "grows h4 h'" "pages_kept (spans h4) h4 h'"
    using releasedD[OF h'(3)] by blast+
  have "free_span h4 a s' l' ON_NORMAL_FREELIST" using h4(4) by (simp add: free_span_def u_def)
  then have fs: "\<exists>b t k d. free_span h' b t k d \<and> {s..<s + l} \<subseteq> {t..<t + k}"
  proof -
    have "{s..<s + l} \<subseteq> {s'..<s' + l'}" using h4(5) t(2,3) by (simp add: u_def)
    moreover have "\<exists>b t k d. free_span h' b t k d \<and> {s'..<s' + l'} \<subseteq> {t..<t + k}"
      using rel(7) \<open>free_span h4 a s' l' ON_NORMAL_FREELIST\<close> unfolding grows_def by blast
    ultimately show ?thesis by (meson subset_trans)
  qed
  have fr: "idle (spans h') v \<and> mem h' v = mem h v" if v: "idle ?D v" "v \<noteq> Sp a" for v
  proof -
    have "idle (spans h4) v" using keeps_idle_join[of ?D a s' l' _ "spans h4" v] h4(6) v by (simp add: D3)
    moreover have "idle (desc {a} (mem h3)) v" using idle_remove[OF v(1)] by (simp only: D3)
    then have "mem h4 v = mem h v" using h4(8) v by (simp add: h3(3) h2(3) h1(3))
    ultimately show ?thesis using rel(4) by simp
  qed
  have "kept h' = kept h" "room h' = room h"
    using rel(5,6) kept_rest[OF h4(9)] kept_rest[OF h3(5)] kept_rest[OF h2(5)] kept_rest[OF h1(5)]
      h4(10) h3(6) h2(6) h1(6) by (simp_all del: sizeof_Span_def)
  moreover have "used_pages h' = used_pages h - {s..<s + l}" using pg4(1) rel(1) by simp
  moreover have "normal_pages h' \<union> returned_pages h' = normal_pages h \<union> returned_pages h \<union> {s..<s + l}"
    unfolding rel(3) pg4(3) using rel(2) pg4(2) by blast
  moreover have "returned_pages h \<subseteq> returned_pages h'" unfolding rel(3) pg4(3) by blast
  moreover have "pages_kept (?D(a := None)) h h'"
  proof (rule pages_kept_trans[OF pages_kept_trans[OF pages_kept_map h4(11)[unfolded D3]] rel(8)])
    show "pagemap h3 = pagemap h" by (simp add: h3(4) h2(4) h1(4))
    show "pages_of IN_USE (?D(a := None)) \<subseteq> pages_of IN_USE (spans h4)" using h4(7) by (auto simp: D3)
  qed simp
  ultimately show thesis using that[OF R h'(2)] fr fs by blast
qed

end
