(* ===== verification/PageHeapNew.thy ===== *)
theory PageHeapNew
  imports PageHeapSpec
begin

text \<open>
  Allocation: the search for a free span, the growth of the heap, and \<open>New\<close>.
\<close>

section \<open>Carving from the whole heap\<close>

text \<open>The effect of allocating \<open>n\<close> pages from the front of the free span \<open>a\<close>.\<close>

definition takes :: "nat set \<Rightarrow> pageheap \<Rightarrow> nat \<Rightarrow> nat \<Rightarrow> pageheap \<Rightarrow> bool" where
  "takes P h a n h' \<longleftrightarrow> heap_at P h' \<and> detached (mem h') (Sp a) \<and> rest h' = rest h \<and> room h \<le> room h' + 1
     \<and> (\<exists>s l c b. spans h a = Some (s, l, c) \<and> c \<noteq> IN_USE \<and> n \<le> l \<and> b \<noteq> a \<and> mem h (Sp b) = None
         \<and> spans h' = (if n < l then (spans h)(a \<mapsto> (s, n, IN_USE), b \<mapsto> (s + n, l - n, c))
                       else (spans h)(a \<mapsto> (s, l, IN_USE)))
         \<and> (\<forall>v. idle (spans h) v \<longrightarrow> v \<noteq> Sp b \<longrightarrow> mem h' v = mem h v))
     \<and> pages_kept (spans h) h h'"

lemma Carve_takes:
  assumes "heap_at P h" "spans h a = Some (s, l, c)" "c \<noteq> IN_USE" "0 < n" "n \<le> l" "0 < room h"
  shows "\<exists>h'. Carve (Sp a) n h = Some (Sp a, h') \<and> takes P h a n h'"
proof -
  let ?D = "spans h"
  obtain L where I: "hinv {} P h L" and P: "cover ?D = P" using assms(1) by (auto simp: heap_at_def)
  obtain b h' L' where h': "Carve (Sp a) n h = Some (Sp a, h')" "hinv {} P h' L'" "b \<noteq> a" "mem h (Sp b) = None"
    "spans h' = (if n < l then ?D(a \<mapsto> (s, n, IN_USE), b \<mapsto> (s + n, l - n, c)) else ?D(a \<mapsto> (s, l, IN_USE)))"
    "detached (mem h') (Sp a)"
    "\<forall>v. idle ?D v \<longrightarrow> v \<noteq> Sp b \<longrightarrow> mem h' v = mem h v" "rest h' = rest h" "room h \<le> room h' + 1"
    "\<forall>j. j \<notin> {s..<s + l} \<longrightarrow> GetDescriptor h' j = GetDescriptor h j"
    by (rule Carve_hinv[OF I assms(2-6)]) (rule that)
  have c0: "cover (?D(a := None)) = P - {s..<s + l}"
    using cover_remove[OF hinv_parts(3)[OF I] assms(2)] P by simp
  have run: "{s..<s + l} \<subseteq> P" using hinv_ends(4)[OF I assms(2)] .
  have "?D(a \<mapsto> x) = (?D(a := None))(a \<mapsto> x)" for x by simp
  then have c1: "cover (?D(a \<mapsto> (s, k, d))) = (P - {s..<s + l}) \<union> {s..<s + k}" for k d
    using cover_upd[of "?D(a := None)" a s k d] c0 by simp
  have "(?D(a \<mapsto> (s, n, IN_USE))) b = None" using h'(3,4) by (simp add: desc_def)
  then have "cover (?D(a \<mapsto> (s, n, IN_USE), b \<mapsto> (s + n, l - n, c))) = (P - {s..<s + l}) \<union> {s..<s + n} \<union> {s + n..<s + n + (l - n)}"
    by (simp only: cover_upd c1)
  then have "cover (spans h') = P" using h'(5) c1[of l IN_USE] run assms(5) by (auto split: if_splits)
  then have "heap_at P h'" using h'(2) by (auto simp: heap_at_def)
  moreover have "pages_kept ?D h h'"
    by (rule pages_kept_free[OF h'(10) free_run_apart[OF hinv_parts(3)[OF I] assms(2,3)]])
  ultimately have "takes P h a n h'"
    unfolding takes_def using h'(3-9) assms(2,3,5) by blast
  then show ?thesis using h'(1) by blast
qed

section \<open>Best fit\<close>

definition slen :: "span_mem \<Rightarrow> spanptr \<Rightarrow> nat" where
  "slen m q = sp_length (the (m q))"

definition sstart :: "span_mem \<Rightarrow> spanptr \<Rightarrow> nat" where
  "sstart m q = sp_start (the (m q))"

text \<open>\<open>r\<close> is the shortest span of \<open>S\<close> with at least \<open>n\<close> pages, the lowest of those; if there is one.\<close>

definition fits :: "span_mem \<Rightarrow> nat \<Rightarrow> spanptr set \<Rightarrow> spanptr option \<Rightarrow> bool" where
  "fits m n S r \<longleftrightarrow> (case r of
      None \<Rightarrow> \<forall>q \<in> S. slen m q < n
    | Some b \<Rightarrow> b \<in> S \<and> m b \<noteq> None \<and> n \<le> slen m b
        \<and> (\<forall>q \<in> S. n \<le> slen m q \<longrightarrow> slen m b < slen m q \<or> (slen m b = slen m q \<and> sstart m b \<le> sstart m q)))"

lemma best_fit_step_fits:
  assumes "m q = Some t" "sp_location t = loc" "fits m n S best"
  shows "\<exists>r. best_fit_step n loc m q t best = Some r \<and> fits m n (insert q S) r"
proof -
  have q: "slen m q = sp_length t" "sstart m q = sp_start t" using assms(1) by (simp_all add: slen_def sstart_def)
  show ?thesis
  proof (cases "n \<le> sp_length t")
    case False
    then show ?thesis using assms(3) q by (cases best) (auto simp: best_fit_step_def fits_def)
  next
    case long: True
    show ?thesis
    proof (cases best)
      case None
      then show ?thesis using assms long q by (auto simp: best_fit_step_def fits_def)
    next
      case (Some b)
      obtain u where u: "m b = Some u" using assms(3) Some by (auto simp: fits_def)
      have b: "slen m b = sp_length u" "sstart m b = sp_start u" using u by (simp_all add: slen_def sstart_def)
      show ?thesis
      proof (cases "sp_length t < sp_length u \<or> sp_length t = sp_length u \<and> sp_start t < sp_start u")
        case True
        then have "best_fit_step n loc m q t best = Some (Some q)"
          using Some u long assms(2) by (simp add: best_fit_step_def)
        moreover have "fits m n (insert q S) (Some q)"
          using assms(1,3) Some True long q b unfolding fits_def by fastforce
        ultimately show ?thesis by blast
      next
        case False
        then have "best_fit_step n loc m q t best = Some best"
          using Some u long by (auto simp: best_fit_step_def)
        moreover have "fits m n (insert q S) best"
          using assms(3) Some False long q b unfolding fits_def by auto
        ultimately show ?thesis by blast
      qed
    qed
  qed
qed

lemma best_fit_fold:
  assumes "\<forall>q \<in> set xs. \<exists>t. m q = Some t \<and> sp_location t = loc" "fits m n S best"
  shows "\<exists>r. ofold (\<lambda>q. best_fit_step n loc m q (the (m q))) xs best = Some r \<and> fits m n (set xs \<union> S) r"
  using assms
proof (induction xs arbitrary: best S)
  case (Cons q xs)
  obtain t where t: "m q = Some t" "sp_location t = loc" using Cons.prems(1) by auto
  obtain r where r: "best_fit_step n loc m q t best = Some r" "fits m n (insert q S) r"
    using best_fit_step_fits[of m q t loc n S best, OF t Cons.prems(2)] by blast
  then show ?case using Cons.IH[OF _ r(2)] Cons.prems(1) t(1) by simp
qed simp

text \<open>The choice among the free spans.\<close>

definition best_fit :: "pageheap \<Rightarrow> nat \<Rightarrow> nat \<Rightarrow> bool" where
  "best_fit h n a \<longleftrightarrow> (\<exists>s l c. free_span h a s l c \<and> n \<le> l
     \<and> (\<forall>b t k d. free_span h b t k d \<longrightarrow> n \<le> k \<longrightarrow> l \<le> k \<and> (l = k \<and> kMaxPages \<le> l \<longrightarrow> s \<le> t)))"

text \<open>What the search does: best fit, or nothing when no free span is long enough.\<close>

definition searched :: "nat set \<Rightarrow> pageheap \<Rightarrow> nat \<Rightarrow> (spanptr option \<times> pageheap) option \<Rightarrow> bool" where
  "searched P h n x \<longleftrightarrow> (\<exists>r h'. x = Some (r, h') \<and> (case r of
      None \<Rightarrow> h' = h \<and> (\<forall>a s l c. free_span h a s l c \<longrightarrow> l < n)
    | Some p \<Rightarrow> \<exists>a. p = Sp a \<and> best_fit h n a \<and> takes P h a n h'))"

lemma on_large_list:
  assumes "lists_ok L D" "k = LargeNormal \<and> c = ON_NORMAL_FREELIST \<or> k = LargeReturned \<and> c = ON_RETURNED_FREELIST"
  shows "p \<in> set (L k) \<longleftrightarrow> (\<exists>a s l. p = Sp a \<and> D a = Some (s, l, c) \<and> kMaxPages \<le> l)"
proof -
  have "k \<in> heads" using assms(2) by (auto simp: heads_def)
  moreover have "home d l = Some k \<longleftrightarrow> d = c \<and> kMaxPages \<le> l" for d l
    using assms(2) by (auto simp: home_def normal_list_def returned_list_def)
  ultimately show ?thesis using assms(1) unfolding lists_ok_def by auto
qed

lemma AllocLarge_searched:
  assumes "heap_at P h" "0 < n" "0 < room h"
    and "\<forall>a s l c. free_span h a s l c \<longrightarrow> l < n \<or> kMaxPages \<le> l"
  shows "searched P h n (AllocLarge n h)"
proof -
  let ?D = "spans h"
  obtain L where I: "hinv {} P h L" using assms(1) by (auto simp: heap_at_def)
  note H = hinv_parts[OF I]
  have large: "LargeNormal \<in> heads" "LargeReturned \<in> heads" by (auto simp: heads_def)
  have N: "p \<in> set (L LargeNormal) \<longleftrightarrow> (\<exists>a s l. p = Sp a \<and> ?D a = Some (s, l, ON_NORMAL_FREELIST) \<and> kMaxPages \<le> l)"
    and R: "p \<in> set (L LargeReturned) \<longleftrightarrow> (\<exists>a s l. p = Sp a \<and> ?D a = Some (s, l, ON_RETURNED_FREELIST) \<and> kMaxPages \<le> l)" for p
    using on_large_list[OF H(2)] by blast+
  have f0: "fits (mem h) n {} None" by (simp add: fits_def)
  have locN: "\<forall>q \<in> set (L LargeNormal). \<exists>t. mem h q = Some t \<and> sp_location t = ON_NORMAL_FREELIST"
    and locR: "\<forall>q \<in> set (L LargeReturned). \<exists>t. mem h q = Some t \<and> sp_location t = ON_RETURNED_FREELIST"
    using N R by (auto simp: desc_Some)
  obtain r1 where r1: "ofold (\<lambda>q. best_fit_step n ON_NORMAL_FREELIST (mem h) q (the (mem h q))) (L LargeNormal) None = Some r1"
    "fits (mem h) n (set (L LargeNormal) \<union> {}) r1" using best_fit_fold[OF locN f0] by blast
  obtain r2 where r2: "ofold (\<lambda>q. best_fit_step n ON_RETURNED_FREELIST (mem h) q (the (mem h q))) (L LargeReturned) r1 = Some r2"
    "fits (mem h) n (set (L LargeReturned) \<union> (set (L LargeNormal) \<union> {})) r2" using best_fit_fold[OF locR r1(2)] by blast
  have A: "AllocLarge n h = (case r2 of None \<Rightarrow> Some (None, h)
      | Some b \<Rightarrow> Carve b n h \<bind> (\<lambda>(p, h). Some (Some p, h)))"
    using r1(1) r2(1)
    by (simp add: AllocLarge_def dll_for_fold[OF dlls_dll[OF H(1) large(1)]]
        dll_for_fold[OF dlls_dll[OF H(1) large(2)]] split: option.split)
  have S: "Sp a \<in> set (L LargeReturned) \<union> (set (L LargeNormal) \<union> {}) \<and> slen (mem h) (Sp a) = l \<and> sstart (mem h) (Sp a) = s"
    if "free_span h a s l c" "n \<le> l" for a s l c
  proof -
    have "c = ON_NORMAL_FREELIST \<or> c = ON_RETURNED_FREELIST"
      using that(1) descs_ok_entry(3)[of P ?D a s l c, OF H(3)] by (auto simp: free_span_def)
    moreover have "kMaxPages \<le> l" using assms(4) that by fastforce
    ultimately have "Sp a \<in> set (L LargeReturned) \<union> (set (L LargeNormal) \<union> {})"
      using that(1) N R by (auto simp: free_span_def)
    then show ?thesis using that(1) by (auto simp: free_span_def desc_Some slen_def sstart_def)
  qed
  show ?thesis
  proof (cases r2)
    case None
    have "l < n" if "free_span h a s l c" for a s l c
      using S[OF that] r2(2) None by (fastforce simp: fits_def not_le)
    then show ?thesis using A None by (auto simp: searched_def)
  next
    case (Some q)
    then obtain a s l c where a: "q = Sp a" "free_span h a s l c" "kMaxPages \<le> l"
      using r2(2) N R by (fastforce simp: fits_def free_span_def)
    then have q: "slen (mem h) q = l" "sstart (mem h) q = s" by (auto simp: free_span_def desc_Some slen_def sstart_def)
    have nl: "n \<le> l" using r2(2) Some q by (simp add: fits_def)
    have min: "l \<le> k \<and> (l = k \<and> kMaxPages \<le> l \<longrightarrow> s \<le> t)" if b: "free_span h b t k d" "n \<le> k" for b t k d
      using S[OF b] r2(2) Some q b(2) unfolding fits_def by fastforce
    then have "best_fit h n a" using a(2) nl unfolding best_fit_def by blast
    moreover obtain h' where "Carve (Sp a) n h = Some (Sp a, h')" "takes P h a n h'"
      using Carve_takes[OF assms(1) _ _ assms(2) nl assms(3)] a(2) unfolding free_span_def by blast
    ultimately show ?thesis using A Some a(1) by (simp add: searched_def)
  qed
qed

section \<open>The search\<close>

lemma on_small_list:
  assumes "lists_ok L D" "s < kMaxPages"
    and "k = FreeNormal s \<and> c = ON_NORMAL_FREELIST \<or> k = FreeReturned s \<and> c = ON_RETURNED_FREELIST"
  shows "p \<in> set (L k) \<longleftrightarrow> (\<exists>a t. p = Sp a \<and> D a = Some (t, s, c))"
proof -
  have "k \<in> heads" using assms(2,3) by (auto simp: heads_def)
  moreover have "home d l = Some k \<longleftrightarrow> d = c \<and> l = s" for d l
    using assms(2,3) by (auto simp: home_def normal_list_def returned_list_def)
  ultimately show ?thesis using assms(1) unfolding lists_ok_def by auto
qed

lemma carve_first_searched:
  assumes "heap_at P h" "hinv {} P h L" "0 < n" "0 < room h" "n \<le> s" "s < kMaxPages"
    and "k = FreeNormal s \<and> c = ON_NORMAL_FREELIST \<or> k = FreeReturned s \<and> c = ON_RETURNED_FREELIST"
    and "L k \<noteq> []" "\<forall>a t l d. free_span h a t l d \<longrightarrow> l < n \<or> s \<le> l"
  shows "searched P h n (carve_first k c n h)"
proof -
  note H = hinv_parts[OF assms(2)]
  have k: "k \<in> heads" using assms(6,7) by (auto simp: heads_def)
  have dl: "dll (mem h) k (L k)" by (rule dlls_dll[OF H(1) k])
  obtain q qs where q: "L k = q # qs" using assms(8) by (cases "L k") auto
  then have "nxt (mem h) k = Some q" using path_heads[of "mem h" k "L k" k] dl by (auto simp: dll_def)
  then obtain hd where hd: "mem h k = Some hd" "sp_next hd = Some q" using nxt_live by blast
  obtain a t where a: "q = Sp a" "spans h a = Some (t, s, c)"
    using on_small_list[OF H(2) assms(6,7), of q] q by auto
  have c: "c \<noteq> IN_USE" using assms(7) by auto
  obtain u where u: "mem h (Sp a) = Some u" "sp_location u = c" using a(2) by (auto simp: desc_Some)
  obtain h' where h': "Carve (Sp a) n h = Some (Sp a, h')" "takes P h a n h'"
    using Carve_takes[OF assms(1) a(2) c assms(3,5,4)] by blast
  have "carve_first k c n h = Some (Some (Sp a), h')"
    using hd a(1) u h'(1) by (simp add: carve_first_def)
  moreover have "best_fit h n a"
    unfolding best_fit_def
  proof (intro exI conjI allI impI)
    show "free_span h a t s c" using a(2) c by (simp add: free_span_def)
    show "n \<le> s" by fact
    fix b t' l d
    assume b: "free_span h b t' l d" "n \<le> l"
    then show "s \<le> l" using assms(9) by fastforce
    show "t \<le> t'" if "s = l \<and> kMaxPages \<le> s" using that assms(6) by simp
  qed
  ultimately show ?thesis using h'(2) by (simp add: searched_def)
qed

lemma search_lists_searched:
  assumes "heap_at P h" "0 < n" "0 < room h" "n \<le> s"
    and "\<forall>a t l c. free_span h a t l c \<longrightarrow> l < n \<or> s \<le> l"
  shows "searched P h n (search_lists s n h)"
  using assms(4,5)
proof (induction "kMaxPages - s" arbitrary: s rule: less_induct)
  case less
  obtain L where I: "hinv {} P h L" using assms(1) by (auto simp: heap_at_def)
  note H = hinv_parts[OF I]
  show ?case
  proof (cases "s < kMaxPages")
    case False
    then have "search_lists s n h = AllocLarge n h" by (subst search_lists.simps) simp
    moreover have "\<forall>a t l c. free_span h a t l c \<longrightarrow> l < n \<or> kMaxPages \<le> l"
      using less.prems(2) False by fastforce
    ultimately show ?thesis using AllocLarge_searched[OF assms(1-3)] by simp
  next
    case True
    then have hd: "FreeNormal s \<in> heads" "FreeReturned s \<in> heads" by (auto simp: heads_def)
    have e: "DLL_IsEmpty k (mem h) = Some (L k = [])" if "k \<in> heads" for k
      by (rule dll_IsEmpty[OF dlls_dll[OF H(1) that]])
    have unf: "search_lists s n h = (if L (FreeNormal s) \<noteq> [] then carve_first (FreeNormal s) ON_NORMAL_FREELIST n h
        else if L (FreeReturned s) \<noteq> [] then carve_first (FreeReturned s) ON_RETURNED_FREELIST n h
        else search_lists (s + 1) n h)"
      using True e[OF hd(1)] e[OF hd(2)] by (subst search_lists.simps) simp
    show ?thesis
    proof (cases "L (FreeNormal s) \<noteq> [] \<or> L (FreeReturned s) \<noteq> []")
      case True
      then show ?thesis
        using carve_first_searched[OF assms(1) I assms(2,3) less.prems(1) \<open>s < kMaxPages\<close> _ _ less.prems(2)]
        unfolding unf by auto
    next
      case False
      have "\<not> free_span h a t s c" for a t c
      proof
        assume f: "free_span h a t s c"
        then have "c = ON_NORMAL_FREELIST \<or> c = ON_RETURNED_FREELIST"
          using descs_ok_entry(3)[of P "spans h" a t s c, OF H(3)] by (auto simp: free_span_def)
        then show False
          using on_small_list[OF H(2) \<open>s < kMaxPages\<close>] False f by (fastforce simp: free_span_def)
      qed
      then have "\<forall>a t l c. free_span h a t l c \<longrightarrow> l < n \<or> s + 1 \<le> l"
        using less.prems(2) by (metis Suc_eq_plus1 Suc_leI le_neq_implies_less)
      then have "searched P h n (search_lists (s + 1) n h)"
        using less.hyps[of "s + 1"] True less.prems(1) by simp
      then show ?thesis unfolding unf using False by simp
    qed
  qed
qed

lemma SearchFreeAndLargeLists_searched:
  assumes "heap_at P h" "0 < n" "0 < room h"
  shows "searched P h n (SearchFreeAndLargeLists n h)"
proof -
  have "assert_Check h = Some ()" using assms(1) assert_Check_hinv by (auto simp: heap_at_def)
  then show ?thesis
    using search_lists_searched[OF assms order_refl] assms(2)
    by (simp add: SearchFreeAndLargeLists_def) (meson not_less)
qed

end
