(* ===== verification/PageHeapGrow.thy ===== *)
theory PageHeapGrow
  imports PageHeapNew
begin

text \<open>Growth of the heap and \<open>New\<close>.\<close>

section \<open>Memory from the system\<close>

abbreviation trace_room :: "pageheap \<Rightarrow> nat" where
  "trace_room h \<equiv> spare sizeof_StackTrace (stacktrace_allocator h)"

lemma os_ok_tail: "os_ok P b (g # gs) \<Longrightarrow> os_ok P b gs"
  by (auto simp: os_ok_def)

lemma hinv_grants: "hinv X P h L \<Longrightarrow> os_ok P (system_bytes h) gs \<Longrightarrow> hinv X P (h\<lparr>os_grants := gs\<rparr>) L"
  by (simp add: hinv_def Let_def)

lemma heap_at_grants: "heap_at P h \<Longrightarrow> os_ok P (system_bytes h) gs \<Longrightarrow> heap_at P (h\<lparr>os_grants := gs\<rparr>)"
  unfolding heap_at_def using hinv_grants by fastforce

lemma heap_at_os: "heap_at P h \<Longrightarrow> os_ok P (system_bytes h) (os_grants h)"
  by (auto simp: heap_at_def dest: hinv_parts(10))

text \<open>A grant that has been taken but not yet entered is still accounted for.\<close>

lemma system_alloc_ok:
  assumes "heap_at P h" "system_alloc bytes h = (r, h')"
  shows "\<exists>gs. h' = h\<lparr>os_grants := gs\<rparr> \<and> heap_at P h'
    \<and> (\<forall>p n. r = Some (p, n) \<longrightarrow> bytes \<le> n \<and> os_ok P (system_bytes h) (Some (p, n) # gs))"
proof (cases "os_grants h")
  case Nil
  then show ?thesis using assms by (intro exI[of _ "[]"]) (auto simp: system_alloc_def)
next
  case (Cons g gs)
  have os: "os_ok P (system_bytes h) (g # gs)" using heap_at_os[OF assms(1)] Cons by simp
  have h': "h' = h\<lparr>os_grants := gs\<rparr>" using assms(2) Cons by (simp add: system_alloc_def)
  moreover have "heap_at P h'" unfolding h' by (rule heap_at_grants[OF assms(1) os_ok_tail[OF os]])
  moreover have "bytes \<le> n \<and> os_ok P (system_bytes h) (Some (p, n) # gs)" if "r = Some (p, n)" for p n
    using assms(2) Cons os that by (auto simp: system_alloc_def split: option.splits if_splits prod.splits)
  ultimately show ?thesis by blast
qed

text \<open>\<open>grow_rest\<close>: what survives a growth step besides the pages.\<close>

lemma RecordGrowth_ok:
  assumes "hinv X P h L" "0 < trace_room h"
  obtains h' where "RecordGrowth env g h = Some h'" "hinv X P h' L" "mem h' = mem h" "pagemap h' = pagemap h"
    "room h' = room h" "system_bytes h' = system_bytes h" "os_grants h' = os_grants h"
    "trace_room h \<le> trace_room h' + 1" "pagemap_cache h' = pagemap_cache h"
proof -
  note H = hinv_parts[OF assms(1)]
  obtain t a where t: "pha_New sizeof_StackTrace (stacktrace_allocator h) = Some (t, a)"
    "pool sizeof_StackTrace (insert t (dom (traces h))) a" "trace_room h \<le> spare sizeof_StackTrace a + 1"
    using pha.new_ok[OF H(9) assms(2)] by metis
  define tr where "tr = \<lparr>st_size = g, st_depth = length (take (kMaxStackDepth - 1) (stack_pcs env)),
      st_stack = take (kMaxStackDepth - 1) (stack_pcs env), st_link = growth_stacks h\<rparr>"
  define h' where "h' = h\<lparr>stacktrace_allocator := a, traces := (traces h)(t \<mapsto> tr), growth_stacks := t\<rparr>"
  have R: "RecordGrowth env g h = Some h'"
    using t(1) by (simp add: RecordGrowth_def h'_def tr_def Let_def)
  have "hinv X P h' L" using H t(2) by (simp add: hinv_def Let_def h'_def)
  then show thesis using that[OF R] t(3) by (simp add: h'_def)
qed

text \<open>\<open>Ensure\<close> keeps the page map in order and prepares the new range.\<close>

lemma map_ok_Ensure:
  assumes "map_ok P pm D" "pm3_Ensure page_bits s n pm = (b, pm')"
  shows "map_ok P pm' D" "pm3_get page_bits pm' k = pm3_get page_bits pm k"
proof -
  have g: "pm3_get page_bits pm' k = pm3_get page_bits pm k" for k
    using pm3.get_ensure[OF assms(2)[unfolded page_bits_def]] unfolding page_bits_def .
  have e: "pm3_ensured page_bits pm k \<Longrightarrow> pm3_ensured page_bits pm' k" for k
    using pm3.ensured_mono[OF assms(2)[unfolded page_bits_def]] unfolding page_bits_def .
  show "map_ok P pm' D" using assms(1) unfolding map_ok_def g by (simp add: e del: page_bits_def)
  show "pm3_get page_bits pm' k = pm3_get page_bits pm k" by (rule g)
qed

lemma map_ok_grow:
  assumes "map_ok P pm D" "pm3_Ensure page_bits (p - 1) (n + 2) pm = (True, pm')" "0 < p" "p + n + 1 < two64"
  shows "map_ok (P \<union> {p..<p + n}) pm' D"
proof -
  have m: "map_ok P pm' D" by (rule map_ok_Ensure(1)[OF assms(1,2)])
  have e: "pm3_ensured page_bits pm' k" if "p - 1 \<le> k" "k \<le> p + n" for k
    using pm3.ensure_ensures[OF assms(2)[unfolded page_bits_def], of k] assms(3,4) that by simp
  show ?thesis
    unfolding map_ok_def
  proof (intro conjI ballI)
    fix k
    assume k: "k \<in> P \<union> {p..<p + n}"
    show "0 < k" "pm3_ensured page_bits pm' (k - 1)" "pm3_ensured page_bits pm' k" "pm3_ensured page_bits pm' (k + 1)"
      using k m e[of "k - 1"] e[of k] e[of "k + 1"] assms(3) unfolding map_ok_def by auto
  qed (use m in \<open>auto simp: map_ok_def\<close>)
qed

lemma descs_ok_mono: "descs_ok P D \<Longrightarrow> P \<subseteq> Q \<Longrightarrow> descs_ok Q D"
  unfolding descs_ok_def by blast

lemma os_ok_take:
  assumes "os_ok P b (Some (ptr, n) # gs)" "finite P"
  shows "os_ok P (b + kPageSize * (n div kPageSize)) gs"
    "os_ok (P \<union> grant_pages (ptr, n)) (b + kPageSize * (n div kPageSize)) gs"
    "grant_pages (ptr, n) \<inter> P = {}" "0 < ptr div kPageSize" "ptr div kPageSize + n div kPageSize + 1 < two64"
    "b + kPageSize * (n div kPageSize) < two64"
proof -
  have le: "kPageSize * (n div kPageSize) \<le> n" by (rule times_div_less_eq_dividend)
  have A: "kPageSize \<le> ptr" "ptr + n + kPageSize \<le> 2 ^ 48" "grant_pages (ptr, n) \<inter> P = {}"
    "kPageSize * card P \<le> b" "b + (n + sum_list (map grant_bytes gs)) \<le> heap_budget"
    "\<forall>q k. Some (q, k) \<in> set gs \<longrightarrow> kPageSize \<le> q \<and> q + k + kPageSize \<le> 2 ^ 48 \<and> grant_pages (q, k) \<inter> P = {}"
    "\<forall>q k. Some (q, k) \<in> set gs \<longrightarrow> grant_pages (ptr, n) \<inter> grant_pages (q, k) = {}"
    "sorted_wrt (\<lambda>g g'. \<forall>r r'. g = Some r \<longrightarrow> g' = Some r' \<longrightarrow> grant_pages r \<inter> grant_pages r' = {}) gs"
    using assms(1) unfolding os_ok_def by (simp_all add: grant_bytes_def del: kPageSize_def)
  have B: "b + kPageSize * (n div kPageSize) + sum_list (map grant_bytes gs) \<le> heap_budget"
    using A(5) le by linarith
  show "os_ok P (b + kPageSize * (n div kPageSize)) gs"
    unfolding os_ok_def using A(4,6,8) B by (simp del: kPageSize_def)
  have card: "card (P \<union> grant_pages (ptr, n)) = card P + n div kPageSize"
    using assms(2) A(3) by (subst card_Un_disjoint) (auto simp: grant_pages_def Int_commute)
  have "kPageSize * card (P \<union> grant_pages (ptr, n)) \<le> b + kPageSize * (n div kPageSize)"
    unfolding card distrib_left using A(4) by linarith
  moreover have "grant_pages (q, k) \<inter> (P \<union> grant_pages (ptr, n)) = {}" if "Some (q, k) \<in> set gs" for q k
    using A(6,7) that by blast
  ultimately show "os_ok (P \<union> grant_pages (ptr, n)) (b + kPageSize * (n div kPageSize)) gs"
    unfolding os_ok_def using A(6,8) B by (simp del: kPageSize_def)
  show "grant_pages (ptr, n) \<inter> P = {}" by (rule A(3))
  show "0 < ptr div kPageSize" using A(1) by (simp add: div_greater_zero_iff)
  have "ptr div kPageSize + n div kPageSize \<le> ptr + n" by (simp add: add_mono)
  then show "ptr div kPageSize + n div kPageSize + 1 < two64" using A(2) by (simp add: two64_def)
  show "b + kPageSize * (n div kPageSize) < two64"
    using A(5) le heap_budget_less by linarith
qed

section \<open>GrowHeap\<close>

text \<open>What growing leaves untouched; \<open>Q\<close> is the set of managed pages afterwards.\<close>

definition grown :: "nat set \<Rightarrow> nat set \<Rightarrow> pageheap \<Rightarrow> pageheap \<Rightarrow> bool" where
  "grown P Q h h' \<longleftrightarrow> heap_at Q h' \<and> P \<subseteq> Q \<and> used_pages h' = used_pages h
     \<and> (\<forall>v. idle (spans h) v \<longrightarrow> mem h v \<noteq> None \<longrightarrow> idle (spans h') v \<and> mem h' v = mem h v)
     \<and> room h \<le> room h' + 1 \<and> trace_room h \<le> trace_room h' + 1 \<and> pagemap_cache h' = pagemap_cache h
     \<and> pages_kept (spans h) h h'"

lemma kept_trace: "kept h' = kept h \<Longrightarrow> trace_room h' = trace_room h \<and> pagemap_cache h' = pagemap_cache h
    \<and> system_bytes h' = system_bytes h \<and> os_grants h' = os_grants h"
  by (simp add: kept_def)

text \<open>The new run is entered as an allocated span and deleted.\<close>

lemma enter_run:
  assumes "hinv {} Q h L" "Q = cover (spans h) \<union> {p..<p + k}" "{p..<p + k} \<inter> cover (spans h) = {}" "0 < k" "0 < room h"
  obtains b h1 h2 h3 where "heap_NewSpan p k h = Some (Sp b, h1)" "RecordSpan (Sp b) h1 = Some h2"
    "Delete env (Sp b) h2 = Some h3" "assert_Check h3 = Some ()" "heap_at Q h3" "used_pages h3 = used_pages h"
    "\<forall>v. idle (spans h) v \<longrightarrow> mem h v \<noteq> None \<longrightarrow> idle (spans h3) v \<and> mem h3 v = mem h v"
    "room h \<le> room h3 + 1" "kept h3 = kept h"
    "\<exists>b t l d. free_span h3 b t l d \<and> {p..<p + k} \<subseteq> {t..<t + l}" "pages_kept (spans h) h h3"
proof -
  let ?D = "spans h"
  obtain b h1 where h1: "heap_NewSpan p k h = Some (Sp b, h1)" "hinv {b} Q h1 L" "mem h (Sp b) = None"
    "mem h1 = (mem h)(Sp b \<mapsto> zero_span\<lparr>sp_start := p, sp_length := k\<rparr>)"
    "pagemap h1 = pagemap h" "rest h1 = rest h" "room h \<le> room h1 + 1"
    by (rule NewSpan_step[OF assms(1,5)]) (rule that)
  define t where "t = zero_span\<lparr>sp_start := p, sp_length := k\<rparr>"
  have t: "mem h1 (Sp b) = Some t" "sp_start t = p" "sp_length t = k" "sp_location t = IN_USE"
    "sp_next t = None" "sp_prev t = None"
    by (simp_all add: h1(4) t_def zero_span_def)
  have D1: "desc {b} (mem h1) = ?D" using h1(3) by (auto simp: desc_def h1(4))
  have run: "0 < sp_length t" "{sp_start t..<sp_start t + sp_length t} \<subseteq> Q"
    "{sp_start t..<sp_start t + sp_length t} \<inter> cover (desc {b} (mem h1)) = {}"
    using assms(2-4) unfolding t D1 by auto
  obtain h2 where h2: "RecordSpan (Sp b) h1 = Some h2" "hinv {b} Q h2 L" "mem h2 = mem h1"
    "\<forall>j. GetDescriptor h2 j =
       (if j = sp_start t \<or> j = sp_start t + sp_length t - 1 then Some (Sp b) else GetDescriptor h1 j)"
    "rest h2 = rest h1" "room h2 = room h1"
    by (rule Record_step[OF h1(2) t(1) run]) (rule that)
  have m2: "mem h2 (Sp b) = Some t" by (simp add: h2(3) t(1))
  have "hinv ({b} - {b}) Q h2 L"
    using hinv_join[OF h2(2) singletonI m2 t(4) run(1,2)] run(3) h2(4) by (simp add: h2(3))
  then have I2: "hinv {} Q h2 L" by simp
  have D2: "spans h2 = ?D(b \<mapsto> (p, k, IN_USE))"
    using desc_join[of "mem h2" b t "{b}"] m2 t by (simp add: h2(3) D1)
  have Db: "?D b = None" using h1(3) by (simp add: desc_def)
  have at2: "heap_at Q h2" using I2 cover_upd[of ?D b p k IN_USE, OF Db] assms(2) by (auto simp: heap_at_def D2)
  have sb: "spans h2 b = Some (p, k, IN_USE)" by (simp add: D2)
  have det: "detached (mem h2) (Sp b)" using m2 t by (simp add: detached_def nxt_def prv_def)
  obtain h3 where h3: "Delete env (Sp b) h2 = Some h3" "heap_at Q h3" "used_pages h3 = used_pages h2 - {p..<p + k}"
    "normal_pages h3 \<union> returned_pages h3 = normal_pages h2 \<union> returned_pages h2 \<union> {p..<p + k}"
    "returned_pages h2 \<subseteq> returned_pages h3"
    "\<forall>v. idle (spans h2) v \<longrightarrow> v \<noteq> Sp b \<longrightarrow> idle (spans h3) v \<and> mem h3 v = mem h2 v"
    "kept h3 = kept h2" "room h3 = room h2" "\<exists>b t l d. free_span h3 b t l d \<and> {p..<p + k} \<subseteq> {t..<t + l}"
    "pages_kept ((spans h2)(b := None)) h2 h3"
    by (rule Delete_spec[OF at2 sb det]) (rule that)
  have "used_pages h2 = used_pages h \<union> {p..<p + k}"
    using pages_of_insert[of ?D b IN_USE p k IN_USE, OF Db] by (simp add: D2)
  moreover have "{p..<p + k} \<inter> used_pages h = {}" using assms(3) by (auto simp: cover_pages_of)
  ultimately have used: "used_pages h3 = used_pages h" using h3(3) by blast
  have fr: "idle (spans h3) v \<and> mem h3 v = mem h v" if "idle ?D v" "mem h v \<noteq> None" for v
  proof -
    have vb: "v \<noteq> Sp b" using that(2) h1(3) by auto
    have "idle (spans h2) v" using that(1) vb by (auto simp: idle_def D2)
    then show ?thesis using h3(6) vb by (simp add: h2(3) h1(4))
  qed
  have "assert_Check h3 = Some ()" using h3(2) assert_Check_hinv by (auto simp: heap_at_def)
  moreover have "kept h3 = kept h" using h3(7) kept_rest[OF h2(5)] kept_rest[OF h1(6)] by simp
  moreover have "room h \<le> room h3 + 1" using h1(7) unfolding h3(8) h2(6) .
  moreover have "pages_kept ?D h h3"
  proof (rule pages_kept_trans)
    show "pages_kept ?D h h2"
    proof (rule pages_kept_free)
      show "\<forall>j. j \<notin> {p..<p + k} \<longrightarrow> GetDescriptor h2 j = GetDescriptor h j"
        using h2(4) assms(4) GetDescriptor_cong[OF h1(5)] by (auto simp: t)
      show "{p..<p + k} \<inter> used_pages h = {}" using assms(3) by (auto simp: cover_pages_of)
    qed
    show "pages_kept ?D h2 h3" using h3(10) Db by (simp add: D2 fun_upd_idem)
  qed simp
  ultimately show thesis using that[OF h1(1) h2(1) h3(1) _ h3(2) used] fr h3(9) by blast
qed

lemma grow_with_ok:
  assumes "heap_at P h" "os_ok P (system_bytes h) (Some (ptr, n) # os_grants h)" "kPageSize \<le> n"
    and "0 < room h" "0 < trace_room h"
  obtains ok h' Q where "grow_with env ptr n h = Some (ok, h')" "grown P Q h h'"
    "Q = (if ok then P \<union> grant_pages (ptr, n) else P)"
    "ok \<Longrightarrow> \<exists>b t l d. free_span h' b t l d \<and> n div kPageSize \<le> l"
    "\<not> ok \<Longrightarrow> mem h' = mem h"
proof -
  obtain L where I: "hinv {} P h L" and P: "cover (spans h) = P" using assms(1) by (auto simp: heap_at_def)
  let ?k = "n div kPageSize" and ?p = "ptr div kPageSize"
  note O = os_ok_take[OF assms(2) hinv_finite[OF I]]
  have "kPageSize * ?k < two64" using O(6) by linarith
  then have sb: "span_bytes ?k = kPageSize * ?k" by (simp add: span_bytes_def mult.commute)
  obtain h1 where h1: "RecordGrowth env (span_bytes ?k) h = Some h1" "hinv {} P h1 L" "mem h1 = mem h"
    "pagemap h1 = pagemap h" "room h1 = room h" "system_bytes h1 = system_bytes h" "os_grants h1 = os_grants h"
    "trace_room h \<le> trace_room h1 + 1" "pagemap_cache h1 = pagemap_cache h"
    by (rule RecordGrowth_ok[OF I assms(5)]) (rule that)
  have add: "add64 (system_bytes h1) (span_bytes ?k) = system_bytes h + kPageSize * ?k"
    using O(6) by (simp add: h1(6) sb add64_exact del: kPageSize_def)
  obtain ok pm where E: "pm3_Ensure page_bits (?p - 1) (?k + 2) (pagemap h) = (ok, pm)" by fastforce
  define h2 where "h2 = h1\<lparr>system_bytes := system_bytes h + kPageSize * ?k, pagemap := pm\<rparr>"
  have same: "mem h2 = mem h" "room h2 = room h" "trace_room h2 = trace_room h1" "pagemap_cache h2 = pagemap_cache h"
    using h1 by (simp_all add: h2_def del: sizeof_Span_def sizeof_StackTrace_def)
  have G: "grow_with env ptr n h =
      (if ok then heap_NewSpan ?p ?k h2 \<bind> (\<lambda>(s, h). RecordSpan s h \<bind> (\<lambda>h. Delete env s h \<bind>
         (\<lambda>h. assert_Check h \<bind> (\<lambda>_. Some (True, h))))) else Some (False, h2))"
    using h1(1) O(4) E
    by (simp add: grow_with_def Let_def add h1(4) pm3_PreallocateMoreMemory_def h2_def case_prod_beta
        del: kPageSize_def page_bits_def)
  show thesis
  proof (cases ok)
    case False
    have "map_ok P pm (spans h)" using map_ok_Ensure(1)[OF _ E] hinv_parts(5)[OF I] by blast
    then have "hinv {} P h2 L"
      using h1(2,3,7) O(1) by (simp add: hinv_def Let_def h2_def del: kPageSize_def page_bits_def)
    then have "heap_at P h2" using P by (auto simp: heap_at_def same(1))
    moreover have "pages_kept (spans h) h h2"
      using map_ok_Ensure(2)[OF _ E] hinv_parts(5)[OF I] by (simp add: pages_kept_def GetDescriptor_def h2_def)
    ultimately have "grown P P h h2"
      unfolding grown_def using h1(5,8) by (simp add: same del: sizeof_Span_def sizeof_StackTrace_def)
    then show thesis using that[of False h2 P] G False same(1) by simp
  next
    case True
    let ?Q = "P \<union> grant_pages (ptr, n)"
    have gp: "grant_pages (ptr, n) = {?p..<?p + ?k}" by (simp add: grant_pages_def)
    have "map_ok ?Q pm (spans h)"
      unfolding gp using map_ok_grow[of P "pagemap h" "spans h" ?p ?k pm] E True O(4,5) hinv_parts(5)[OF I] by simp
    then have I2: "hinv {} ?Q h2 L"
      using h1(2,3,7) O(2) descs_ok_mono[of P "spans h" ?Q] hinv_parts(3)[OF I]
      by (simp add: hinv_def Let_def h2_def del: kPageSize_def page_bits_def)
    have k0: "0 < ?k" using assms(3) by (simp add: div_greater_zero_iff)
    have pre: "?Q = cover (spans h2) \<union> {?p..<?p + ?k}" "{?p..<?p + ?k} \<inter> cover (spans h2) = {}" "0 < room h2"
      using O(3) P gp same assms(4) by auto
    obtain b h3 h4 h5 where h5: "heap_NewSpan ?p ?k h2 = Some (Sp b, h3)" "RecordSpan (Sp b) h3 = Some h4"
      "Delete env (Sp b) h4 = Some h5" "assert_Check h5 = Some ()" "heap_at ?Q h5" "used_pages h5 = used_pages h2"
      "\<forall>v. idle (spans h2) v \<longrightarrow> mem h2 v \<noteq> None \<longrightarrow> idle (spans h5) v \<and> mem h5 v = mem h2 v"
      "room h2 \<le> room h5 + 1" "kept h5 = kept h2"
      "\<exists>b t l d. free_span h5 b t l d \<and> {?p..<?p + ?k} \<subseteq> {t..<t + l}" "pages_kept (spans h2) h2 h5"
      by (rule enter_run[OF I2 pre(1,2) k0 pre(3)]) (rule that)
    have "grow_with env ptr n h = Some (True, h5)" using G True h5(1-4) by simp
    moreover have "pages_kept (spans h) h h5"
    proof -
      have "GetDescriptor h2 = GetDescriptor h"
        using map_ok_Ensure(2)[OF _ E] hinv_parts(5)[OF I] by (simp add: GetDescriptor_def fun_eq_iff h2_def)
      then show ?thesis using h5(11) by (simp only: pages_kept_def same(1))
    qed
    moreover have "grown P ?Q h h5"
      unfolding grown_def using calculation h5(5-8) kept_trace[OF h5(9)] h1(8) same
      by (simp del: sizeof_Span_def sizeof_StackTrace_def)
    moreover have "\<exists>b t l d. free_span h5 b t l d \<and> ?k \<le> l"
    proof -
      obtain b t l d where "free_span h5 b t l d" "{?p..<?p + ?k} \<subseteq> {t..<t + l}" using h5(10) by blast
      moreover have "?k \<le> l" using calculation(2) k0 card_mono[of "{t..<t + l}" "{?p..<?p + ?k}"] by simp
      ultimately show ?thesis by blast
    qed
    ultimately show thesis using that[of True h5 ?Q] by simp
  qed
qed

lemma grown_refl: "heap_at P h \<Longrightarrow> grown P P h h"
  by (auto simp: grown_def)

lemma grown_grants:
  assumes "grown P Q (h\<lparr>os_grants := gs\<rparr>) h'"
  shows "grown P Q h h'"
  using assms by (simp add: grown_def pages_kept_def GetDescriptor_def)

lemma GrowHeap_ok:
  assumes "heap_at P h" "0 < n" "0 < room h" "0 < trace_room h"
  obtains ok h' Q where "GrowHeap env n h = Some (ok, h')" "grown P Q h h'"
    "ok \<Longrightarrow> \<exists>b t l d. free_span h' b t l d \<and> n \<le> l" "\<not> ok \<Longrightarrow> mem h' = mem h \<and> Q = P"
proof (cases "n > kMaxValidPages")
  case True
  then show thesis using that[of False h P] grown_refl[OF assms(1)] by (simp add: GrowHeap_def)
next
  case False
  define ask where "ask = (if n > kMinSystemAlloc then n else kMinSystemAlloc)"
  obtain r1 h1 where s1: "system_alloc (span_bytes ask) h = (r1, h1)" by fastforce
  define again where "again = (r1 = None \<and> n < ask)"
  obtain r h2 where s2: "(if again then system_alloc (span_bytes n) h1 else (r1, h1)) = (r, h2)" by fastforce
  obtain gs1 where g1: "h1 = h\<lparr>os_grants := gs1\<rparr>" "heap_at P h1"
    "\<forall>p m. r1 = Some (p, m) \<longrightarrow> span_bytes ask \<le> m \<and> os_ok P (system_bytes h) (Some (p, m) # gs1)"
    using system_alloc_ok[OF assms(1) s1] by blast
  have ask: "n \<le> ask" "ask \<le> kMaxValidPages" using False by (auto simp: ask_def)
  have sb: "span_bytes k = kPageSize * k" if "k \<le> kMaxValidPages" for k
    using that by (simp add: span_bytes_def two64_def)
  have G: "GrowHeap env n h = (case r of None \<Rightarrow> Some (False, h2) | Some (p, m) \<Rightarrow> grow_with env p m h2)"
    using False s1 s2 by (simp add: GrowHeap_def Let_def ask_def again_def split: option.split)
  have "\<exists>gs. h2 = h\<lparr>os_grants := gs\<rparr> \<and> heap_at P h2
      \<and> (\<forall>p m. r = Some (p, m) \<longrightarrow> kPageSize * n \<le> m \<and> os_ok P (system_bytes h) (Some (p, m) # gs))"
  proof (cases again)
    case True
    then obtain gs where "h2 = h1\<lparr>os_grants := gs\<rparr>" "heap_at P h2"
      "\<forall>p m. r = Some (p, m) \<longrightarrow> span_bytes n \<le> m \<and> os_ok P (system_bytes h1) (Some (p, m) # gs)"
      using system_alloc_ok[OF g1(2), of "span_bytes n" r h2] s2 by auto
    then show ?thesis using sb[of n] False by (auto simp: g1(1))
  next
    case False
    then have "r = r1" "h2 = h1" using s2 by auto
    moreover have "kPageSize * n \<le> kPageSize * ask" using ask(1) by (rule mult_le_mono2)
    ultimately show ?thesis using g1 sb[OF ask(2)] by (metis order_trans)
  qed
  then obtain gs where g: "h2 = h\<lparr>os_grants := gs\<rparr>" "heap_at P h2"
    "\<forall>p m. r = Some (p, m) \<longrightarrow> kPageSize * n \<le> m \<and> os_ok P (system_bytes h) (Some (p, m) # gs)" by blast
  show thesis
  proof (cases r)
    case None
    then show thesis using that[of False h2 P] G grown_grants[where h = h and gs = gs and h' = h2 and P = P and Q = P] grown_refl[OF g(2)] by (simp add: g(1))
  next
    case (Some pm)
    then obtain p m where pm: "r = Some (p, m)" by (cases pm) auto
    then have m: "kPageSize * n \<le> m" "os_ok P (system_bytes h2) (Some (p, m) # os_grants h2)"
      using g(3) by (auto simp: g(1))
    have ge: "kPageSize \<le> m" using m(1) assms(2) by (cases n) auto
    have rm: "0 < room h2" "0 < trace_room h2" using assms(3,4) by (simp_all add: g(1))
    obtain ok h' Q where w: "grow_with env p m h2 = Some (ok, h')" "grown P Q h2 h'"
      "Q = (if ok then P \<union> grant_pages (p, m) else P)"
      "ok \<Longrightarrow> \<exists>b t l d. free_span h' b t l d \<and> m div kPageSize \<le> l" "\<not> ok \<Longrightarrow> mem h' = mem h2"
      by (rule grow_with_ok[OF g(2) m(2) ge rm]) (rule that)
    have "n \<le> m div kPageSize" using div_le_mono[OF m(1), of kPageSize] by simp
    then have "ok \<Longrightarrow> \<exists>b t l d. free_span h' b t l d \<and> n \<le> l" using w(4) by (meson order_trans)
    moreover have "GrowHeap env n h = Some (ok, h')" using G pm w(1) by simp
    moreover have "grown P Q h h'" using w(2) grown_grants[where h = h and gs = gs and h' = h' and P = P and Q = Q] by (simp add: g(1))
    ultimately show thesis using that[of ok h' Q] w(3,5) by (simp add: g(1))
  qed
qed

section \<open>New\<close>

text \<open>
  An allocation of \<open>n\<close> pages from \<open>h1\<close>: an allocated span of exactly \<open>n\<close> pages that were free, taken
  from the start of the best fit.
\<close>

definition allocated :: "pageheap \<Rightarrow> nat \<Rightarrow> nat \<Rightarrow> nat \<Rightarrow> pageheap \<Rightarrow> bool" where
  "allocated h n a s h' \<longleftrightarrow> spans h' a = Some (s, n, IN_USE) \<and> detached (mem h') (Sp a)
     \<and> {s..<s + n} \<inter> used_pages h = {} \<and> used_pages h' = used_pages h \<union> {s..<s + n}
     \<and> (\<forall>v. idle (spans h) v \<longrightarrow> mem h v \<noteq> None \<longrightarrow> v \<noteq> Sp a \<and> mem h' v = mem h v)
     \<and> pages_kept (spans h) h h'"

lemma takes_pages:
  assumes "heap_at P h" "takes P h a n h'" "0 < n"
  shows "\<exists>s. allocated h n a s h' \<and> cover (spans h') = P"
proof -
  let ?D = "spans h"
  obtain L where I: "hinv {} P h L" and P: "cover ?D = P" using assms(1) by (auto simp: heap_at_def)
  obtain s l c b where t: "?D a = Some (s, l, c)" "c \<noteq> IN_USE" "n \<le> l" "b \<noteq> a" "mem h (Sp b) = None"
    "spans h' = (if n < l then ?D(a \<mapsto> (s, n, IN_USE), b \<mapsto> (s + n, l - n, c)) else ?D(a \<mapsto> (s, l, IN_USE)))"
    "\<forall>v. idle ?D v \<longrightarrow> v \<noteq> Sp b \<longrightarrow> mem h' v = mem h v"
    using assms(2) unfolding takes_def by blast
  have a: "spans h' a = Some (s, n, IN_USE)" using t(3,4,6) by auto
  have p0: "pages_of IN_USE (?D(a := None)) = used_pages h"
    using pages_of_diff[of P ?D a s l c IN_USE, OF hinv_parts(3)[OF I] t(1)] t(2) by simp
  have eq: "?D(a \<mapsto> x) = (?D(a := None))(a \<mapsto> x)" for x by simp
  have p1: "pages_of IN_USE (?D(a \<mapsto> (s, n, IN_USE))) = used_pages h \<union> {s..<s + n}"
    unfolding eq by (subst pages_of_insert) (simp_all add: p0[unfolded IN_USE_def])
  have "(?D(a \<mapsto> (s, n, IN_USE))) b = None" using t(4,5) by (simp add: desc_def)
  then have "used_pages h' = used_pages h \<union> {s..<s + n}"
    using t(2,3,6) p1 pages_of_insert[of "?D(a \<mapsto> (s, n, IN_USE))" b IN_USE "s + n" "l - n" c] by (cases "n < l") auto
  moreover have "{s..<s + n} \<inter> used_pages h = {}"
  proof -
    have "{s..<s + n} \<subseteq> pages_of c ?D" using t(1,3) unfolding pages_of_def by fastforce
    then show ?thesis using disjoint_pages_of[OF hinv_parts(3)[OF I] t(2)] by blast
  qed
  moreover have "v \<noteq> Sp a \<and> mem h' v = mem h v" if "idle ?D v" "mem h v \<noteq> None" for v
    using that t(1,2,5,7) by (auto simp: idle_def)
  moreover have "cover (spans h') = P" "detached (mem h') (Sp a)"
    using assms(2) by (auto simp: takes_def heap_at_def)
  moreover have "pages_kept ?D h h'" using assms(2) by (simp add: takes_def)
  ultimately show ?thesis using a unfolding allocated_def by blast
qed

lemma New_ok:
  assumes "heap_at P h" "0 < n" "2 \<le> room h" "0 < trace_room h"
  obtains r h' where "New env n h = Some (r, h')" "heap_ok h'" "P \<subseteq> cover (spans h')"
    "\<And>p. r = Some p \<Longrightarrow> \<exists>a s. p = Sp a \<and> allocated h n a s h'"
    "\<And>a s l c. free_span h a s l c \<Longrightarrow> n \<le> l \<Longrightarrow> \<exists>b. r = Some (Sp b) \<and> best_fit h n b"
    "r = None \<Longrightarrow> mem h' = mem h" "room h \<le> room h' + 2 \<and> trace_room h \<le> trace_room h' + 1"
    "pages_kept (spans h) h h'"
proof -
  have chk: "assert_Check h = Some ()" using assms(1) assert_Check_hinv by (auto simp: heap_at_def)
  have "0 < room h" using assms(3) by linarith
  then obtain r1 h1 where s1: "SearchFreeAndLargeLists n h = Some (r1, h1)"
    "case r1 of None \<Rightarrow> h1 = h \<and> (\<forall>a s l c. free_span h a s l c \<longrightarrow> l < n)
      | Some p \<Rightarrow> \<exists>a. p = Sp a \<and> best_fit h n a \<and> takes P h a n h1"
    using SearchFreeAndLargeLists_searched[OF assms(1,2)] unfolding searched_def by blast
  show thesis
  proof (cases r1)
    case (Some p)
    then obtain a where a: "p = Sp a" "best_fit h n a" "takes P h a n h1" using s1(2) by auto
    have N: "New env n h = Some (Some (Sp a), h1)" using chk assms(2) s1(1) Some a(1) by (simp add: New_def)
    obtain s where s: "allocated h n a s h1" "cover (spans h1) = P" using takes_pages[OF assms(1) a(3) assms(2)] by blast
    have "heap_ok h1" "room h \<le> room h1 + 2 \<and> trace_room h \<le> trace_room h1 + 1"
      using a(3) heap_at_ok by (auto simp: takes_def rest_def)
    then show thesis using that[OF N] s a(2) by (auto simp: allocated_def)
  next
    case None
    then have none: "h1 = h" "\<forall>a s l c. free_span h a s l c \<longrightarrow> l < n" using s1(2) by auto
    obtain ok h2 Q where g: "GrowHeap env n h = Some (ok, h2)" "grown P Q h h2"
      "ok \<Longrightarrow> \<exists>b t l d. free_span h2 b t l d \<and> n \<le> l" "\<not> ok \<Longrightarrow> mem h2 = mem h \<and> Q = P"
      by (rule GrowHeap_ok[OF assms(1,2) \<open>0 < room h\<close> assms(4)]) (rule that)
    have at2: "heap_at Q h2" and PQ: "P \<subseteq> Q" and pk: "pages_kept (spans h) h h2" using g(2) by (auto simp: grown_def)
    have nofit: "\<not> n \<le> l" if "free_span h a s l c" for a s l c using none(2) that by (meson not_le)
    show thesis
    proof (cases ok)
      case False
      have "assert_Check h2 = Some ()" using at2 assert_Check_hinv by (auto simp: heap_at_def)
      then have N: "New env n h = Some (None, h2)"
        using chk assms(2) s1(1) None none(1) g(1) False by (simp add: New_def)
      have "room h \<le> room h2 + 2 \<and> trace_room h \<le> trace_room h2 + 1" using g(2) unfolding grown_def by linarith
      then show thesis using that[OF N heap_at_ok[OF at2]] g(4)[OF False] assms(1) nofit pk by (auto simp: heap_at_def)
    next
      case True
      have "0 < room h2" using g(2) assms(3) unfolding grown_def by linarith
      then obtain r3 h3 where s3: "SearchFreeAndLargeLists n h2 = Some (r3, h3)"
        "case r3 of None \<Rightarrow> h3 = h2 \<and> (\<forall>a s l c. free_span h2 a s l c \<longrightarrow> l < n)
          | Some p \<Rightarrow> \<exists>a. p = Sp a \<and> best_fit h2 n a \<and> takes Q h2 a n h3"
        using SearchFreeAndLargeLists_searched[OF at2 assms(2)] unfolding searched_def by blast
      have "r3 \<noteq> None"
      proof
        assume "r3 = None"
        then have "\<forall>a s l c. free_span h2 a s l c \<longrightarrow> l < n" using s3(2) by simp
        then show False using g(3)[OF True] by (meson not_le)
      qed
      then obtain a where a: "r3 = Some (Sp a)" "takes Q h2 a n h3" using s3(2) by auto
      have N: "New env n h = Some (Some (Sp a), h3)"
        using chk assms(2) s1(1) None none(1) g(1) True s3(1) a(1) by (simp add: New_def)
      obtain s where s: "allocated h2 n a s h3" "cover (spans h3) = Q" using takes_pages[OF at2 a(2) assms(2)] by blast
      have G: "used_pages h2 = used_pages h"
        "\<And>v. idle (spans h) v \<Longrightarrow> mem h v \<noteq> None \<Longrightarrow> idle (spans h2) v \<and> mem h2 v = mem h v"
        "pages_kept (spans h) h h2"
        using g(2) unfolding grown_def by blast+
      have "allocated h n a s h3"
        unfolding allocated_def
      proof (intro conjI allI impI)
        show "v \<noteq> Sp a" "mem h3 v = mem h v" if "idle (spans h) v" "mem h v \<noteq> None" for v
          using s(1) G(2)[OF that] that(2) unfolding allocated_def by metis+
        show "pages_kept (spans h) h h3"
          using s(1) G(1) by (intro pages_kept_trans[OF G(3)]) (auto simp: allocated_def)
      qed (use s(1) G(1) in \<open>auto simp: allocated_def\<close>)
      moreover have "heap_ok h3" using a(2) heap_at_ok by (auto simp: takes_def)
      moreover have "room h \<le> room h3 + 2 \<and> trace_room h \<le> trace_room h3 + 1"
      proof -
        have "room h2 \<le> room h3 + 1" "trace_room h3 = trace_room h2" using a(2) by (auto simp: takes_def rest_def)
        moreover have "room h \<le> room h2 + 1" "trace_room h \<le> trace_room h2 + 1" using g(2) unfolding grown_def by blast+
        ultimately show ?thesis by linarith
      qed
      moreover have "pages_kept (spans h) h h3" using \<open>allocated h n a s h3\<close> by (simp add: allocated_def)
      ultimately show thesis using that[OF N] PQ s(2) nofit by auto
    qed
  qed
qed

end
