(* ===== verification/PageHeapMore.thy ===== *)
theory PageHeapMore
  imports PageHeapGrow
begin

text \<open>
  The remaining operations of the page heap: splitting, registration of size classes, statistics,
  the expensive check and the constructor.
\<close>

section \<open>Split\<close>

lemma two_spans_join:
  assumes "hinv {b, a} P h L" "b \<noteq> a"
    and "mem h (Sp a) = Some t" "sp_location t = IN_USE" "0 < sp_length t"
    and "mem h (Sp b) = Some u" "sp_location u = IN_USE" "0 < sp_length u"
    and "{sp_start t..<sp_start t + sp_length t} \<subseteq> P" "{sp_start u..<sp_start u + sp_length u} \<subseteq> P"
    and "{sp_start t..<sp_start t + sp_length t} \<inter> cover (desc {b, a} (mem h)) = {}"
    and "{sp_start u..<sp_start u + sp_length u} \<inter> cover (desc {b, a} (mem h)) = {}"
    and "{sp_start t..<sp_start t + sp_length t} \<inter> {sp_start u..<sp_start u + sp_length u} = {}"
    and "GetDescriptor h (sp_start t) = Some (Sp a)" "GetDescriptor h (sp_start t + sp_length t - 1) = Some (Sp a)"
    and "GetDescriptor h (sp_start u) = Some (Sp b)" "GetDescriptor h (sp_start u + sp_length u - 1) = Some (Sp b)"
  shows "hinv {} P h L" "spans h = (desc {b, a} (mem h))(a \<mapsto> (sp_start t, sp_length t, IN_USE), b \<mapsto> (sp_start u, sp_length u, IN_USE))"
proof -
  let ?D = "desc {b, a} (mem h)"
  have ja: "hinv ({b, a} - {a}) P h L"
    by (rule hinv_join[OF assms(1) _ assms(3-5) assms(9,11,14,15)]) simp
  then have jb: "hinv {b} P h L" using assms(2) by (simp add: insert_Diff_if)
  have Db: "desc {b} (mem h) = ?D(a \<mapsto> (sp_start t, sp_length t, IN_USE))"
    using desc_join[of "mem h" a t "{b, a}"] assms(2,3,4) by (simp add: insert_Diff_if)
  have "cover (desc {b} (mem h)) = cover ?D \<union> {sp_start t..<sp_start t + sp_length t}"
    unfolding Db by (rule cover_upd) (simp add: desc_def)
  then have "{sp_start u..<sp_start u + sp_length u} \<inter> cover (desc {b} (mem h)) = {}"
    using assms(12,13) by blast
  from hinv_join[OF jb singletonI assms(6-8,10) this assms(16,17)] show "hinv {} P h L" by simp
  show "spans h = ?D(a \<mapsto> (sp_start t, sp_length t, IN_USE), b \<mapsto> (sp_start u, sp_length u, IN_USE))"
    using desc_join[of "mem h" b u "{b}"] assms(6,7) by (simp add: Db)
qed

lemma Split_ok:
  assumes "heap_at P h" "mem h (Sp a) = Some t" "sp_location t = IN_USE" "sp_sizeclass t = 0"
    and "0 < n" "n < sp_length t" "0 < room h"
  obtains b h' where "Split (Sp a) n h = Some (Sp b, h')" "heap_at P h'" "mem h (Sp b) = None"
    "spans h' = (spans h)(a \<mapsto> (sp_start t, n, IN_USE), b \<mapsto> (sp_start t + n, sp_length t - n, IN_USE))"
    "mem h' = (mem h)(Sp a \<mapsto> t\<lparr>sp_length := n\<rparr>,
       Sp b \<mapsto> zero_span\<lparr>sp_start := sp_start t + n, sp_length := sp_length t - n\<rparr>)"
    "rest h' = rest h" "room h \<le> room h' + 1"
    "\<forall>j. j \<notin> {sp_start t..<sp_start t + sp_length t} \<longrightarrow> GetDescriptor h' j = GetDescriptor h j"
proof -
  let ?D = "spans h" and ?s = "sp_start t" and ?l = "sp_length t"
  obtain L where I: "hinv {} P h L" and P: "cover ?D = P" using assms(1) by (auto simp: heap_at_def)
  have Da: "?D a = Some (?s, ?l, IN_USE)" using assms(2,3) by (simp add: desc_def)
  note E = hinv_ends[OF I Da]
  have I0: "hinv {a} P h L" by (rule hinv_leave[OF I Da])
  define u where "u = zero_span\<lparr>sp_start := ?s + n, sp_length := ?l - n\<rparr>"
  have e: "to_int32 (int ?l - int n) = int (?l - n)"
    by (rule to_int32_diff) (use assms(5,6) span_bytes_run(2)[OF I E(4)] in auto)
  have m: "nat (int (?l - n) mod 2 ^ 64) = ?l - n"
  proof -
    have "?l - n < 2 ^ 64" using span_bytes_run(2)[OF I E(4)] by simp
    then have "int (?l - n) < 2 ^ 64" by (metis of_nat_less_iff of_nat_numeral of_nat_power)
    then show ?thesis by simp
  qed
  obtain b h1 where b: "heap_NewSpan (?s + n) (?l - n) h = Some (Sp b, h1)" "hinv {b, a} P h1 L" "mem h (Sp b) = None"
    "mem h1 = (mem h)(Sp b \<mapsto> u)" "pagemap h1 = pagemap h" "rest h1 = rest h" "room h \<le> room h1 + 1"
    using NewSpan_step[OF I0 assms(7), of "?s + n" "?l - n"] unfolding u_def by metis
  have ba: "b \<noteq> a" using b(3) assms(2) by auto
  have u: "mem h1 (Sp b) = Some u" "sp_start u = ?s + n" "sp_length u = ?l - n" "sp_location u = IN_USE"
    by (simp_all add: b(4) u_def zero_span_def)
  have Dr: "desc {b, a} (mem h1) = ?D(a := None)"
    using b(3) ba by (auto simp: b(4) desc_def)
  have cov: "cover (?D(a := None)) = P - {?s..<?s + ?l}"
    using cover_remove[OF hinv_parts(3)[OF I] Da] P by simp
  have runs: "{?s..<?s + n} \<subseteq> {?s..<?s + ?l}" "{?s + n..<?s + n + (?l - n)} \<subseteq> {?s..<?s + ?l}"
    "{?s..<?s + n} \<inter> {?s + n..<?s + n + (?l - n)} = {}" using assms(6) by auto
  have pre: "0 < sp_length u" "{sp_start u..<sp_start u + sp_length u} \<subseteq> P"
    "{sp_start u..<sp_start u + sp_length u} \<inter> cover (desc {b, a} (mem h1)) = {}"
    unfolding u Dr cov using assms(6) runs(2) E(4) by (simp, blast, blast)
  obtain h2 where h2: "RecordSpan (Sp b) h1 = Some h2" "hinv {b, a} P h2 L" "mem h2 = mem h1"
    "\<forall>j. GetDescriptor h2 j =
       (if j = sp_start u \<or> j = sp_start u + sp_length u - 1 then Some (Sp b) else GetDescriptor h1 j)"
    "rest h2 = rest h1" "room h2 = room h1"
    by (rule Record_step[OF b(2) u(1) pre]) (rule that)
  have "?s + n - 1 \<in> {?s..<?s + ?l}" using assms(5,6) by auto
  then have k: "?s + n - 1 \<in> P" "?s + n - 1 \<notin> cover (desc {b, a} (mem h2))"
    unfolding h2(3) Dr cov using E(4) by blast+
  obtain h3 where h3: "pagemap_set (?s + n - 1) (Sp a) h2 = Some h3" "hinv {b, a} P h3 L" "mem h3 = mem h2"
    "\<forall>j. GetDescriptor h3 j = (if j = ?s + n - 1 then Some (Sp a) else GetDescriptor h2 j)" "rest h3 = rest h2" "room h3 = room h2"
    by (rule Set_step[OF h2(2) k]) (rule that)
  have m3: "mem h3 (Sp a) = Some t" using ba assms(2) by (simp add: h3(3) h2(3) b(4))
  obtain h4 where h4: "modify (Sp a) (\<lambda>s. s\<lparr>sp_length := n\<rparr>) h3 = Some h4" "hinv {b, a} P h4 L"
    "mem h4 = (mem h3)(Sp a \<mapsto> t\<lparr>sp_length := n\<rparr>)" "pagemap h4 = pagemap h3" "rest h4 = rest h3" "room h4 = room h3"
    using Modify_step[OF h3(2) _ m3, of "\<lambda>s. s\<lparr>sp_length := n\<rparr>"] by auto
  have g: "GetDescriptor h4 j = (if j = ?s + n - 1 then Some (Sp a)
     else if j = ?s + n \<or> j = ?s + ?l - 1 then Some (Sp b) else GetDescriptor h j)" for j
    using GetDescriptor_cong[OF h4(4)] GetDescriptor_cong[OF b(5)] h3(4) h2(4) u assms(6) by simp
  have m4: "mem h4 (Sp a) = Some (t\<lparr>sp_length := n\<rparr>)" "mem h4 (Sp b) = Some u"
    using ba by (simp_all add: h4(3) h3(3) h2(3) b(4))
  have D4: "desc {b, a} (mem h4) = ?D(a := None)"
    using Dr by (auto simp: h4(3) h3(3) h2(3) desc_def fun_eq_iff split: if_splits)
  define v where "v = t\<lparr>sp_length := n\<rparr>"
  have v: "mem h4 (Sp a) = Some v" "sp_start v = ?s" "sp_length v = n" "sp_location v = IN_USE"
    using m4(1) assms(3) by (simp_all add: v_def)
  have fin: "hinv {} P h4 L" "spans h4 = ?D(a := None, a \<mapsto> (?s, n, IN_USE), b \<mapsto> (?s + n, ?l - n, IN_USE))"
  proof -
    have ends: "GetDescriptor h4 ?s = Some (Sp a)" "GetDescriptor h4 (?s + n - 1) = Some (Sp a)"
      "GetDescriptor h4 (?s + n) = Some (Sp b)" "GetDescriptor h4 (?s + n + (?l - n) - 1) = Some (Sp b)"
      using g E(1) assms(5,6) by auto
    have sub: "{?s..<?s + n} \<subseteq> P" "{?s + n..<?s + n + (?l - n)} \<subseteq> P"
      "{?s..<?s + n} \<inter> (P - {?s..<?s + ?l}) = {}" "{?s + n..<?s + n + (?l - n)} \<inter> (P - {?s..<?s + ?l}) = {}"
      using runs(1,2) E(4) by blast+
    have len: "0 < n" "0 < ?l - n" using assms(5,6) by simp_all
    note J = two_spans_join[OF h4(2) ba v(1) v(4) _ m4(2) u(4), unfolded D4 cov v u, OF len sub runs(3) ends]
    show "hinv {} P h4 L" by (rule J(1))
    show "spans h4 = ?D(a := None, a \<mapsto> (?s, n, IN_USE), b \<mapsto> (?s + n, ?l - n, IN_USE))" by (rule J(2))
  qed
  have S: "Split (Sp a) n h = Some (Sp b, h4)"
    using assms(2-6) e m b(1) u h2(1) h3(1) h4(1) by (simp add: Split_def del: of_nat_diff)
  have "cover (?D(a := None, a \<mapsto> (?s, n, IN_USE))) = (P - {?s..<?s + ?l}) \<union> {?s..<?s + n}"
    using cover_upd[of "?D(a := None)" a ?s n IN_USE] cov by simp
  moreover have "(?D(a := None, a \<mapsto> (?s, n, IN_USE))) b = None" using b(3) ba by (simp add: desc_def)
  ultimately have "cover (spans h4) = (P - {?s..<?s + ?l}) \<union> {?s..<?s + n} \<union> {?s + n..<?s + n + (?l - n)}"
    unfolding fin(2) by (simp only: cover_upd)
  moreover have "{?s..<?s + n} \<union> {?s + n..<?s + n + (?l - n)} = {?s..<?s + ?l}" using assms(5,6) by auto
  ultimately have "cover (spans h4) = P" using E(4) by auto
  then have "heap_at P h4" using fin(1) by (auto simp: heap_at_def)
  moreover have "mem h4 = (mem h)(Sp a \<mapsto> t\<lparr>sp_length := n\<rparr>, Sp b \<mapsto> u)"
    using ba by (auto simp: h4(3) h3(3) h2(3) b(4))
  moreover have "\<forall>j. j \<notin> {?s..<?s + ?l} \<longrightarrow> GetDescriptor h4 j = GetDescriptor h j" using g assms(5,6) by auto
  ultimately show thesis using that[OF S _ b(3)] fin(2) b(6,7) h2(5,6) h3(5,6) h4(5,6) by (simp add: u_def)
qed

section \<open>Registration of size classes\<close>

lemma set_pages:
  assumes "hinv X P h L" "\<forall>i \<in> set is. s + i \<in> P \<and> s + i \<notin> cover (desc X (mem h))"
  shows "\<exists>h'. ofold (\<lambda>i h. pagemap_set (s + i) p h) is h = Some h' \<and> hinv X P h' L \<and> mem h' = mem h
    \<and> (\<forall>j. GetDescriptor h' j = (if j \<in> (\<lambda>i. s + i) ` set is then Some p else GetDescriptor h j))
    \<and> rest h' = rest h \<and> room h' = room h"
  using assms
proof (induction "is" arbitrary: h)
  case (Cons i "is")
  have i: "s + i \<in> P" "s + i \<notin> cover (desc X (mem h))" using Cons.prems(2) by auto
  obtain h1 where h1: "pagemap_set (s + i) p h = Some h1" "hinv X P h1 L" "mem h1 = mem h"
    "\<forall>j. GetDescriptor h1 j = (if j = s + i then Some p else GetDescriptor h j)"
    "rest h1 = rest h" "room h1 = room h"
    by (rule Set_step[OF Cons.prems(1) i]) (rule that)
  have "\<forall>i \<in> set is. s + i \<in> P \<and> s + i \<notin> cover (desc X (mem h1))" using Cons.prems(2) by (simp add: h1(3))
  from Cons.IH[OF h1(2) this] show ?case using h1 by auto
qed simp

lemma RegisterSizeClass_ok:
  assumes "heap_at P h" "mem h (Sp a) = Some t" "sp_location t = IN_USE"
  obtains h' where "RegisterSizeClass (Sp a) sc h = Some h'" "heap_at P h'" "spans h' = spans h"
    "mem h' = (mem h)(Sp a \<mapsto> t\<lparr>sp_sizeclass := sc mod 256\<rparr>)"
    "\<forall>j. GetDescriptor h' j = (if j \<in> {sp_start t..<sp_start t + sp_length t} then Some (Sp a) else GetDescriptor h j)"
    "rest h' = rest h" "room h' = room h"
proof -
  let ?s = "sp_start t" and ?l = "sp_length t" and ?u = "t\<lparr>sp_sizeclass := sc mod 256\<rparr>"
  obtain L where I: "hinv {} P h L" and P: "cover (spans h) = P" using assms(1) by (auto simp: heap_at_def)
  have Da: "spans h a = Some (?s, ?l, IN_USE)" using assms(2,3) by (simp add: desc_def)
  note E = hinv_ends[OF I Da]
  have I0: "hinv {a} P h L" by (rule hinv_leave[OF I Da])
  obtain h1 where h1: "modify (Sp a) (\<lambda>s. s\<lparr>sp_sizeclass := sc mod 256\<rparr>) h = Some h1" "hinv {a} P h1 L"
    "mem h1 = (mem h)(Sp a \<mapsto> ?u)" "pagemap h1 = pagemap h" "rest h1 = rest h" "room h1 = room h"
    by (rule Modify_step[OF I0 singletonI assms(2)]) (rule that)
  have D1: "desc {a} (mem h1) = (spans h)(a := None)" by (auto simp: h1(3) desc_def)
  have c1: "cover (desc {a} (mem h1)) = P - {?s..<?s + ?l}"
    unfolding D1 using cover_remove[OF hinv_parts(3)[OF I] Da] P by simp
  have inn: "\<forall>i \<in> set [1..<?l - 1]. ?s + i \<in> P \<and> ?s + i \<notin> cover (desc {a} (mem h1))"
  proof
    fix i
    assume "i \<in> set [1..<?l - 1]"
    then have "?s + i \<in> {?s..<?s + ?l}" by auto
    then show "?s + i \<in> P \<and> ?s + i \<notin> cover (desc {a} (mem h1))" unfolding c1 using E(4) by blast
  qed
  have sub: "sub64 ?l 1 = ?l - 1"
    using E(3) span_bytes_run(2)[OF I E(4)] by (intro sub64_exact) (simp_all add: two64_def)
  obtain h2 where h2: "ofold (\<lambda>i h. pagemap_set (?s + i) (Sp a) h) [1..<?l - 1] h1 = Some h2" "hinv {a} P h2 L"
    "mem h2 = mem h1"
    "\<forall>j. GetDescriptor h2 j = (if j \<in> (\<lambda>i. ?s + i) ` set [1..<?l - 1] then Some (Sp a) else GetDescriptor h1 j)"
    "rest h2 = rest h1" "room h2 = room h1"
    using set_pages[OF h1(2) inn, of "Sp a"] by blast
  have m2: "mem h2 (Sp a) = Some ?u" by (simp add: h2(3) h1(3))
  have g: "GetDescriptor h2 j = (if j \<in> {?s..<?s + ?l} then Some (Sp a) else GetDescriptor h j)" for j
  proof (cases "j \<in> (\<lambda>i. ?s + i) ` set [1..<?l - 1]")
    case True
    then show ?thesis using h2(4) by auto
  next
    case False
    have "j = ?s \<or> j = ?s + ?l - 1" if "j \<in> {?s..<?s + ?l}"
    proof (rule ccontr)
      assume "\<not> (j = ?s \<or> j = ?s + ?l - 1)"
      then have "j - ?s \<in> set [1..<?l - 1]" "j = ?s + (j - ?s)" using that by auto
      then show False using False by blast
    qed
    then show ?thesis using False h2(4) E(1,2) GetDescriptor_cong[OF h1(4)] by auto
  qed
  have ends: "GetDescriptor h2 ?s = Some (Sp a)" "GetDescriptor h2 (?s + ?l - 1) = Some (Sp a)"
    using g E(3) by auto
  have fin: "hinv {} P h2 L"
    using hinv_join[OF h2(2) singletonI m2] assms(3) E(3,4) ends c1 by (simp add: h2(3))
  have sp: "spans h2 = spans h" using Da by (auto simp: h2(3) h1(3) desc_def assms(2))
  have "RegisterSizeClass (Sp a) sc h = Some h2"
    using assms(2,3) E(1,2) h1(1) h2(1) sub by (simp add: RegisterSizeClass_def)
  moreover have "heap_at P h2" using fin P by (auto simp: heap_at_def sp)
  ultimately show thesis
    using that[of h2] sp g h1(3,5,6) h2(3,5,6) by simp
qed

section \<open>Counting spans and pages\<close>

definition run_of :: "descs \<Rightarrow> nat \<Rightarrow> nat set" where
  "run_of D a = (case D a of None \<Rightarrow> {} | Some (s, l, c) \<Rightarrow> {s..<s + l})"

definition len_of :: "descs \<Rightarrow> nat \<Rightarrow> nat" where
  "len_of D a = (case D a of None \<Rightarrow> 0 | Some (s, l, c) \<Rightarrow> l)"

lemma sum_len:
  assumes "descs_ok P D" "finite S"
  shows "sum (len_of D) S = card (\<Union>a \<in> S. run_of D a)"
proof -
  have fin: "finite (run_of D a)" for a by (simp add: run_of_def split: option.split prod.split)
  have disj: "run_of D a \<inter> run_of D b = {}" if "a \<noteq> b" for a b
  proof (cases "D a"; cases "D b")
    fix x y
    assume xy: "D a = Some x" "D b = Some y"
    obtain s l c t k d where "x = (s, l, c)" "y = (t, k, d)" by (cases x; cases y)
    moreover then have "s + l \<le> t \<or> t + k \<le> s"
      using assms(1) xy that unfolding descs_ok_def by blast
    ultimately show ?thesis using xy by (auto simp: run_of_def)
  qed (auto simp: run_of_def)
  have "sum (len_of D) S = (\<Sum>a \<in> S. card (run_of D a))"
    by (rule sum.cong) (auto simp: len_of_def run_of_def split: option.split)
  also have "\<dots> = card (\<Union>a \<in> S. run_of D a)"
    using assms(2) fin disj by (intro card_UN_disjoint[symmetric]) auto
  finally show ?thesis .
qed

lemma pages_at_card:
  assumes "descs_ok P D"
  shows "pages_at c D = card (pages_of c D)"
proof -
  let ?S = "{a. \<exists>s l. D a = Some (s, l, c)}"
  have fin: "finite (dom D)" using assms by (simp add: descs_ok_def)
  have S: "?S \<subseteq> dom D" by auto
  have "pages_at c D = sum (len_of D) ?S"
    unfolding pages_at_def by (rule sum.mono_neutral_cong_right[OF fin S]) (auto simp: len_of_def split: option.split)
  also have "\<dots> = card (\<Union>a \<in> ?S. run_of D a)"
    using sum_len[OF assms] finite_subset[OF S fin] by blast
  also have "(\<Union>a \<in> ?S. run_of D a) = pages_of c D"
    by (fastforce simp: run_of_def pages_of_def)
  finally show ?thesis .
qed

lemma heap_at_bytes:
  assumes "heap_at P h"
  shows "free_bytes h = kPageSize * card (normal_pages h)" "unmapped_bytes h = kPageSize * card (returned_pages h)"
    "kPageSize * card P \<le> system_bytes h"
proof -
  obtain L where I: "hinv {} P h L" using assms by (auto simp: heap_at_def)
  show "free_bytes h = kPageSize * card (normal_pages h)" "unmapped_bytes h = kPageSize * card (returned_pages h)"
    using hinv_parts(6,7)[OF I] pages_at_card[OF hinv_parts(3)[OF I]] by simp_all
  show "kPageSize * card P \<le> system_bytes h" using hinv_parts(10)[OF I] by (simp add: os_ok_def)
qed

text \<open>The addresses of the spans on a list.\<close>

definition span_count :: "pageheap \<Rightarrow> nat \<Rightarrow> nat \<Rightarrow> nat" where
  "span_count h c k = card {a. \<exists>s. spans h a = Some (s, k, c)}"

definition large :: "pageheap \<Rightarrow> nat \<Rightarrow> nat set" where
  "large h c = {a. \<exists>s l. spans h a = Some (s, l, c) \<and> kMaxPages \<le> l}"

definition large_pages :: "pageheap \<Rightarrow> nat \<Rightarrow> nat set" where
  "large_pages h c = (\<Union>a \<in> large h c. run_of (spans h) a)"

definition addrs_on :: "(spanptr \<Rightarrow> spanptr list) \<Rightarrow> spanptr \<Rightarrow> nat set" where
  "addrs_on L k = {a. Sp a \<in> set (L k)}"

lemma list_addrs:
  assumes "hinv {} P h L" "k \<in> heads"
  shows "set (L k) = Sp ` addrs_on L k" "distinct (L k)" "length (L k) = card (addrs_on L k)"
    "addrs_on L k = {a. \<exists>s l c. spans h a = Some (s, l, c) \<and> home c l = Some k}"
proof -
  note H = hinv_parts[OF assms(1)]
  show s: "set (L k) = Sp ` addrs_on L k"
    using H(2) assms(2) unfolding lists_ok_def addrs_on_def by blast
  show d: "distinct (L k)" using dlls_dll[OF H(1) assms(2)] by (simp add: dll_def)
  have "card (set (L k)) = card (addrs_on L k)" unfolding s by (rule card_image) (simp add: inj_on_def)
  then show "length (L k) = card (addrs_on L k)" using distinct_card[OF d] by simp
  show "addrs_on L k = {a. \<exists>s l c. spans h a = Some (s, l, c) \<and> home c l = Some k}"
    using H(2) assms(2) unfolding lists_ok_def addrs_on_def by blast
qed

lemma home_iff:
  "home c l = Some (FreeNormal k) \<longleftrightarrow> c = ON_NORMAL_FREELIST \<and> l = k \<and> k < kMaxPages"
  "home c l = Some (FreeReturned k) \<longleftrightarrow> c = ON_RETURNED_FREELIST \<and> l = k \<and> k < kMaxPages"
  "home c l = Some LargeNormal \<longleftrightarrow> c = ON_NORMAL_FREELIST \<and> kMaxPages \<le> l"
  "home c l = Some LargeReturned \<longleftrightarrow> c = ON_RETURNED_FREELIST \<and> kMaxPages \<le> l"
  by (auto simp: home_def normal_list_def returned_list_def)

lemma addrs_on_small:
  assumes "hinv {} P h L" "k < kMaxPages"
  shows "card (addrs_on L (FreeNormal k)) = span_count h ON_NORMAL_FREELIST k"
    "card (addrs_on L (FreeReturned k)) = span_count h ON_RETURNED_FREELIST k"
proof -
  have hd: "FreeNormal k \<in> heads" "FreeReturned k \<in> heads" using assms(2) by (auto simp: heads_def)
  have "addrs_on L (FreeNormal k) = {a. \<exists>s. spans h a = Some (s, k, ON_NORMAL_FREELIST)}"
    "addrs_on L (FreeReturned k) = {a. \<exists>s. spans h a = Some (s, k, ON_RETURNED_FREELIST)}"
    unfolding list_addrs(4)[OF assms(1) hd(1)] list_addrs(4)[OF assms(1) hd(2)] home_iff using assms(2) by blast+
  then show "card (addrs_on L (FreeNormal k)) = span_count h ON_NORMAL_FREELIST k"
    "card (addrs_on L (FreeReturned k)) = span_count h ON_RETURNED_FREELIST k"
    by (simp_all add: span_count_def)
qed

lemma addrs_on_large:
  assumes "hinv {} P h L"
  shows "addrs_on L LargeNormal = large h ON_NORMAL_FREELIST" "addrs_on L LargeReturned = large h ON_RETURNED_FREELIST"
proof -
  have hd: "LargeNormal \<in> heads" "LargeReturned \<in> heads" by (auto simp: heads_def)
  show "addrs_on L LargeNormal = large h ON_NORMAL_FREELIST" "addrs_on L LargeReturned = large h ON_RETURNED_FREELIST"
    unfolding list_addrs(4)[OF assms hd(1)] list_addrs(4)[OF assms hd(2)] large_def home_iff by blast+
qed

lemma ofold_snoc:
  assumes "\<forall>s \<in> set is. n s = Some (f s) \<and> r s = Some (g s)"
  shows "ofold (\<lambda>s (ns, rs). do { x \<leftarrow> n s; y \<leftarrow> r s; Some (ns @ [x], rs @ [y]) }) is (xs, ys)
    = Some (xs @ map f is, ys @ map g is)"
  using assms by (induction "is" arbitrary: xs ys) simp_all

lemma GetSmallSpanStats_ok:
  assumes "heap_ok h"
  shows "GetSmallSpanStats h = Some (map (span_count h ON_NORMAL_FREELIST) [0..<kMaxPages],
     map (span_count h ON_RETURNED_FREELIST) [0..<kMaxPages])"
proof -
  obtain P L where I: "hinv {} P h L" using assms by (auto simp: heap_ok_def heap_at_def)
  have "\<forall>s \<in> set [0..<kMaxPages]. DLL_Length (FreeNormal s) (mem h) = Some (span_count h ON_NORMAL_FREELIST s)
    \<and> DLL_Length (FreeReturned s) (mem h) = Some (span_count h ON_RETURNED_FREELIST s)"
  proof
    fix s
    assume "s \<in> set [0..<kMaxPages]"
    then have s: "s < kMaxPages" by (simp only: set_upt atLeastLessThan_iff)
    have hd: "FreeNormal s \<in> heads" "FreeReturned s \<in> heads" using s by (auto simp: heads_def)
    show "DLL_Length (FreeNormal s) (mem h) = Some (span_count h ON_NORMAL_FREELIST s)
      \<and> DLL_Length (FreeReturned s) (mem h) = Some (span_count h ON_RETURNED_FREELIST s)"
      using dll_Length[OF dlls_dll[OF hinv_parts(1)[OF I] hd(1)]] dll_Length[OF dlls_dll[OF hinv_parts(1)[OF I] hd(2)]]
        list_addrs(3)[OF I hd(1)] list_addrs(3)[OF I hd(2)] addrs_on_small[OF I s] by (simp only:)
  qed
  from ofold_snoc[OF this, of "[]" "[]"] show ?thesis
    unfolding GetSmallSpanStats_def by simp
qed

lemma ofold_large:
  "ofold (\<lambda>q. (\<lambda>s (c, np, rp). Some (c + 1, np + sp_length s, rp)) (the (m q))) xs (c, np, rp)
     = Some (c + length xs, np + (\<Sum>q \<leftarrow> xs. sp_length (the (m q))), rp)"
  "ofold (\<lambda>q. (\<lambda>s (c, np, rp). Some (c + 1, np, rp + sp_length s)) (the (m q))) xs (c, np, rp)
     = Some (c + length xs, np, rp + (\<Sum>q \<leftarrow> xs. sp_length (the (m q))))"
  by (induction xs arbitrary: c np rp) (simp_all add: case_prod_unfold)

lemma list_pages:
  assumes "hinv {} P h L" "k \<in> heads"
  shows "(\<Sum>q \<leftarrow> L k. sp_length (the (mem h q))) = card (\<Union>a \<in> addrs_on L k. run_of (spans h) a)"
proof -
  note A = list_addrs[OF assms]
  have fin: "finite (addrs_on L k)"
    using A(1) finite_imageD[of Sp "addrs_on L k"] by (metis List.finite_set inj_onI spanptr.inject(1))
  have "(\<Sum>q \<leftarrow> L k. sp_length (the (mem h q))) = (\<Sum>q \<in> set (L k). sp_length (the (mem h q)))"
    using A(2) by (rule sum_list_distinct_conv_sum_set)
  also have "\<dots> = (\<Sum>a \<in> addrs_on L k. sp_length (the (mem h (Sp a))))"
    unfolding A(1) by (simp add: sum.reindex inj_on_def)
  also have "\<dots> = sum (len_of (spans h)) (addrs_on L k)"
    by (rule sum.cong) (auto simp: A(4) len_of_def desc_def)
  also have "\<dots> = card (\<Union>a \<in> addrs_on L k. run_of (spans h) a)"
    by (rule sum_len[OF hinv_parts(3)[OF assms(1)] fin])
  finally show ?thesis .
qed

lemma GetLargeSpanStats_ok:
  assumes "heap_ok h"
  shows "GetLargeSpanStats h = Some (card (large h ON_NORMAL_FREELIST) + card (large h ON_RETURNED_FREELIST),
     card (large_pages h ON_NORMAL_FREELIST), card (large_pages h ON_RETURNED_FREELIST))"
proof -
  obtain P L where I: "hinv {} P h L" using assms by (auto simp: heap_ok_def heap_at_def)
  have hd: "LargeNormal \<in> heads" "LargeReturned \<in> heads" by (auto simp: heads_def)
  note d = dlls_dll[OF hinv_parts(1)[OF I] hd(1)] dlls_dll[OF hinv_parts(1)[OF I] hd(2)]
  show ?thesis
    unfolding GetLargeSpanStats_def dll_for_fold[OF d(1)] dll_for_fold[OF d(2)] ofold_large bind.bind_lunit
      list_pages[OF I hd(1)] list_pages[OF I hd(2)] list_addrs(3)[OF I hd(1)] list_addrs(3)[OF I hd(2)]
      addrs_on_large[OF I] large_pages_def by simp
qed

section \<open>The expensive check\<close>

lemma ofold_checks:
  assumes "\<forall>q \<in> set xs. f q = (\<lambda>_. Some True)"
  shows "ofold f xs True = Some True"
  using assms by (induction xs) simp_all

lemma CheckList_ok:
  assumes "hinv {} P h L" "k \<in> heads"
    and "\<And>a s l c. spans h a = Some (s, l, c) \<Longrightarrow> home c l = Some k \<Longrightarrow> c = fl \<and> lo \<le> l \<and> l \<le> hi"
  shows "CheckList k lo hi fl h = Some True"
proof -
  have "CheckList k lo hi fl h = ofold (\<lambda>q _. do {
         check (sp_location (the (mem h q)) = fl);
         check (sp_length (the (mem h q)) \<ge> lo);
         check (sp_length (the (mem h q)) \<le> hi);
         check (GetDescriptor h (sp_start (the (mem h q))) = Some q);
         check (GetDescriptor h (sp_start (the (mem h q)) + sp_length (the (mem h q)) - 1) = Some q);
         Some True }) (L k) True"
    unfolding CheckList_def by (rule dll_for_fold[OF dlls_dll[OF hinv_parts(1)[OF assms(1)] assms(2)]])
  also have "\<dots> = Some True"
  proof (rule ofold_checks, intro ballI ext)
    fix q x
    assume "q \<in> set (L k)"
    then obtain a s l c where a: "q = Sp a" "spans h a = Some (s, l, c)" "home c l = Some k"
      using list_addrs(1,4)[OF assms(1,2)] by blast
    then obtain t where t: "mem h q = Some t" "sp_start t = s" "sp_length t = l" "sp_location t = c"
      by (auto simp: desc_Some)
    show "do {
         check (sp_location (the (mem h q)) = fl);
         check (sp_length (the (mem h q)) \<ge> lo);
         check (sp_length (the (mem h q)) \<le> hi);
         check (GetDescriptor h (sp_start (the (mem h q))) = Some q);
         check (GetDescriptor h (sp_start (the (mem h q)) + sp_length (the (mem h q)) - 1) = Some q);
         Some True } = Some True"
      using t a assms(3)[OF a(2,3)] hinv_ends(1,2)[OF assms(1) a(2)] by simp
  qed
  finally show ?thesis .
qed

lemma CheckExpensive_ok:
  assumes "heap_ok h" "\<forall>a s l c. free_span h a s l c \<longrightarrow> l \<le> 1000000000"
  shows "CheckExpensive h = Some True"
proof -
  obtain P L where I: "hinv {} P h L" using assms(1) by (auto simp: heap_ok_def heap_at_def)
  have chk: "Check h = Some True"
    using assert_Check_hinv[OF I] by (auto simp: assert_Check_def Check_def check_def split: bind_splits if_splits)
  have short: "l \<le> 1000000000" if "spans h a = Some (s, l, c)" "c \<noteq> IN_USE" for a s l c
    using assms(2) that unfolding free_span_def by blast
  have lg: "CheckList LargeNormal kMaxPages 1000000000 ON_NORMAL_FREELIST h = Some True"
    "CheckList LargeReturned kMaxPages 1000000000 ON_RETURNED_FREELIST h = Some True"
    by (rule CheckList_ok[OF I]; use short in \<open>auto simp: heads_def home_iff\<close>)+
  have sm: "CheckList (FreeNormal s) s s ON_NORMAL_FREELIST h = Some True"
    "CheckList (FreeReturned s) s s ON_RETURNED_FREELIST h = Some True" if "s < kMaxPages" for s
    by (rule CheckList_ok[OF I]; use that in \<open>auto simp: heads_def home_iff\<close>)+
  have "ofold (\<lambda>s _. do {
         CheckList (FreeNormal s) s s ON_NORMAL_FREELIST h;
         CheckList (FreeReturned s) s s ON_RETURNED_FREELIST h }) [1..<kMaxPages] True = Some True"
  proof (rule ofold_checks, intro ballI ext)
    fix s x
    assume "s \<in> set [1..<kMaxPages]"
    then have "s < kMaxPages" by (simp only: set_upt atLeastLessThan_iff)
    then show "do { CheckList (FreeNormal s) s s ON_NORMAL_FREELIST h;
        CheckList (FreeReturned s) s s ON_RETURNED_FREELIST h } = Some True"
      by (simp only: sm bind.bind_lunit)
  qed
  then show ?thesis unfolding CheckExpensive_def chk lg bind.bind_lunit by simp
qed

section \<open>Construction\<close>

lemma dll_nil: "dll m l [] \<longleftrightarrow> nxt m l = Some l \<and> prv m l = Some l"
  by (simp add: dll_def linked_def)

lemma init_small_lists:
  assumes "\<forall>i. m (FreeNormal i) \<noteq> None \<and> m (FreeReturned i) \<noteq> None"
  shows "\<exists>m'. ofold (\<lambda>i m. do { m \<leftarrow> DLL_Init (FreeNormal i) m; DLL_Init (FreeReturned i) m }) is m = Some m'
    \<and> (\<forall>i \<in> set is. dll m' (FreeNormal i) [] \<and> dll m' (FreeReturned i) [])
    \<and> (\<forall>u. u \<notin> FreeNormal ` set is \<union> FreeReturned ` set is \<longrightarrow> m' u = m u)"
  using assms
proof (induction "is" arbitrary: m)
  case (Cons i "is")
  obtain m1 where m1: "DLL_Init (FreeNormal i) m = Some m1" "dll m1 (FreeNormal i) []" "shape m1 = shape m"
    "\<forall>u. u \<noteq> FreeNormal i \<longrightarrow> m1 u = m u" using dll_Init[of m "FreeNormal i"] Cons.prems by blast
  have "m1 (FreeReturned i) \<noteq> None" using m1(4) Cons.prems by simp
  then obtain m2 where m2: "DLL_Init (FreeReturned i) m1 = Some m2" "dll m2 (FreeReturned i) []" "shape m2 = shape m1"
    "\<forall>u. u \<noteq> FreeReturned i \<longrightarrow> m2 u = m1 u" using dll_Init[of m1 "FreeReturned i"] by blast
  have live: "\<forall>i. m2 (FreeNormal i) \<noteq> None \<and> m2 (FreeReturned i) \<noteq> None"
    using shape_live[OF m1(3)] shape_live[OF m2(3)] Cons.prems by simp
  obtain m3 where m3: "ofold (\<lambda>i m. do { m \<leftarrow> DLL_Init (FreeNormal i) m; DLL_Init (FreeReturned i) m }) is m2 = Some m3"
    "\<forall>i \<in> set is. dll m3 (FreeNormal i) [] \<and> dll m3 (FreeReturned i) []"
    "\<forall>u. u \<notin> FreeNormal ` set is \<union> FreeReturned ` set is \<longrightarrow> m3 u = m2 u"
    using Cons.IH[OF live] by blast
  have here: "dll m3 (FreeNormal i) [] \<and> dll m3 (FreeReturned i) []"
  proof (cases "i \<in> set is")
    case False
    then have "m3 (FreeNormal i) = m2 (FreeNormal i)" "m3 (FreeReturned i) = m2 (FreeReturned i)" using m3(3) by auto
    then show ?thesis using m1(2) m2(2,4) by (simp add: dll_nil nxt_def prv_def)
  qed (use m3(2) in blast)
  have "m3 u = m u" if "u \<notin> FreeNormal ` set (i # is) \<union> FreeReturned ` set (i # is)" for u
    using that m3(3) m2(4) m1(4) by auto
  then show ?case using m1(1) m2(1) m3(1,2) here by auto
qed simp

lemma PageHeap_init_ok:
  assumes "span_pool {} sa" "pool sizeof_StackTrace {} ta" "os_ok {} 0 grants"
  obtains h where "PageHeap_init (True # al) sa ta grants junk = Some h" "heap_ok h" "spans h = Map.empty"
    "span_allocator h = sa" "stacktrace_allocator h = ta" "os_grants h = grants"
    "system_bytes h = 0" "scavenge_counter h = 0" "pagemap h = \<lparr>root3 = (\<lambda>_. None), allocator3 = al\<rparr>" "\<forall>i. mem h (CflEmpty i) = Some zero_span \<and> mem h (CflNonempty i) = Some zero_span"
    "mem h SampledObjects = Some zero_span" "traces h = Map.empty" "\<forall>a. mem h (Sp a) = None"
proof -
  define m0 where "m0 = (\<lambda>p. case p of Sp _ \<Rightarrow> None | _ \<Rightarrow> Some zero_span)"
  have c0: "m0 (Sp a) = None" "m0 LargeNormal \<noteq> None" "m0 LargeReturned \<noteq> None" "m0 (FreeNormal i) \<noteq> None"
    "m0 (FreeReturned i) \<noteq> None" for a i by (simp_all add: m0_def)
  obtain m1 where m1: "DLL_Init LargeNormal m0 = Some m1" "dll m1 LargeNormal []" "shape m1 = shape m0"
    "\<forall>u. u \<noteq> LargeNormal \<longrightarrow> m1 u = m0 u" using dll_Init[of m0 LargeNormal] c0 by blast
  have "m1 LargeReturned \<noteq> None" using m1(4) c0 by simp
  then obtain m2 where m2: "DLL_Init LargeReturned m1 = Some m2" "dll m2 LargeReturned []" "shape m2 = shape m1"
    "\<forall>u. u \<noteq> LargeReturned \<longrightarrow> m2 u = m1 u" using dll_Init[of m1 LargeReturned] by blast
  have "\<forall>i. m2 (FreeNormal i) \<noteq> None \<and> m2 (FreeReturned i) \<noteq> None" using m1(4) m2(4) c0 by simp
  then obtain m3 where m3:
    "ofold (\<lambda>i m. do { m \<leftarrow> DLL_Init (FreeNormal i) m; DLL_Init (FreeReturned i) m }) [0..<kMaxPages] m2 = Some m3"
    "\<forall>i \<in> set [0..<kMaxPages]. dll m3 (FreeNormal i) [] \<and> dll m3 (FreeReturned i) []"
    "\<forall>u. u \<notin> FreeNormal ` set [0..<kMaxPages] \<union> FreeReturned ` set [0..<kMaxPages] \<longrightarrow> m3 u = m2 u"
    using init_small_lists by blast
  have "0 < (2::nat) ^ kValuebits" by simp
  then obtain c where c: "Clear page_bits 64 0 junk = Some c"
    using Clear_defined[of page_bits 64 0 junk] cache_params_inst(1) by auto
  define h where "h = \<lparr>mem = m3, span_allocator = sa, pagemap = \<lparr>root3 = (\<lambda>_. None), allocator3 = al\<rparr>,
    pagemap_cache = c, system_bytes = 0, free_bytes = 0, unmapped_bytes = 0, scavenge_counter = 0,
    release_index = kMaxPages, stacktrace_allocator = ta, traces = (\<lambda>_. None), growth_stacks = 0,
    os_grants = grants, os_released = []\<rparr>"
  have init: "PageHeap_init (True # al) sa ta grants junk = Some h"
    using m1(1) m2(1) m3(1) c unfolding PageHeap_init_def pm3_new_def m0_def h_def by (simp add: take_alloc_def)
  have Sp: "mem h (Sp a) = None" for a
    using m3(3) m2(4) m1(4) c0(1) by (auto simp: h_def)
  then have D: "spans h = Map.empty" by (auto simp: desc_def)
  have lists: "dll (mem h) k []" if "k \<in> heads" for k
  proof -
    have "dll m3 LargeNormal []" "dll m3 LargeReturned []"
      using m1(2) m2(2,4) m3(3) by (auto simp: dll_nil nxt_def prv_def)
    moreover have "dll m3 (FreeNormal i) [] \<and> dll m3 (FreeReturned i) []" if "i < kMaxPages" for i
    proof -
      have "i \<in> set [0..<kMaxPages]" using that by (simp only: set_upt atLeastLessThan_iff le0 simp_thms)
      then show ?thesis using m3(2) by blast
    qed
    ultimately show ?thesis using that unfolding heads_def h_def pageheap.select_convs by blast
  qed
  have "hinv {} {} h (\<lambda>_. [])"
    using lists assms Sp unfolding hinv_def Let_def D
    by (simp add: dlls_def lists_ok_def descs_ok_def coalesced_def map_ok_def pages_at_def pm3_get_def h_def)
  then have "heap_ok h" unfolding heap_ok_def heap_at_def D by (auto simp: cover_def)
  moreover have "\<forall>i. mem h (CflEmpty i) = Some zero_span \<and> mem h (CflNonempty i) = Some zero_span"
    using m3(3) m2(4) m1(4) by (auto simp: h_def m0_def)
  moreover have "mem h SampledObjects = Some zero_span"
    using m3(3) m2(4) m1(4) by (auto simp: h_def m0_def)
  ultimately show thesis using that[OF init] D Sp by (simp add: h_def)
qed

end
