(* ===== verification/PageHeapThms.thy ===== *)
theory PageHeapThms
  imports PageHeapMore
begin

text \<open>
  The properties of the page heap, over concrete and over arbitrary consistent heaps, and the
  clients of it: any sequence of lawful calls.
\<close>

section \<open>When growth succeeds\<close>

lemma grow_with_flag:
  assumes "grow_with env p m h = Some (ok, h')"
  shows "ok = fst (pm3_Ensure page_bits (p div kPageSize - 1) (m div kPageSize + 2) (pagemap h))"
  using assms
  by (auto simp: grow_with_def RecordGrowth_def Let_def pm3_PreallocateMoreMemory_def split: bind_splits
      prod.splits if_splits simp del: page_bits_def kPageSize_def)

text \<open>
  The region a request for \<open>n\<close> pages gets from the answers of the system: the first ask is for
  \<open>max n kMaxPages\<close> pages; when it is refused and \<open>n\<close> is smaller than that, a second one asks for
  exactly \<open>n\<close>.
\<close>

definition serves :: "nat \<Rightarrow> (nat \<times> nat) option \<Rightarrow> bool" where
  "serves n g = (case g of None \<Rightarrow> False | Some (p, m) \<Rightarrow> kPageSize * n \<le> m)"

fun region_for :: "nat \<Rightarrow> (nat \<times> nat) option list \<Rightarrow> (nat \<times> nat) option" where
  "region_for n [] = None"
| "region_for n (g # gs) =
     (if serves (max n kMaxPages) g then g
      else if n < kMaxPages \<and> gs \<noteq> [] \<and> serves n (hd gs) then hd gs else None)"

lemma serves_None [simp]: "\<not> serves n None"
  by (simp add: serves_def)

lemma serves_Some [simp]: "serves n (Some (p, m)) \<longleftrightarrow> kPageSize * n \<le> m"
  by (simp add: serves_def)

lemma serves_mono: "serves k g \<Longrightarrow> n \<le> k \<Longrightarrow> serves n g"
  unfolding serves_def by (auto split: option.splits)

lemma region_for_fits:
  assumes "region_for n gs = Some (p, m)"
  shows "Some (p, m) \<in> set gs \<and> kPageSize * n \<le> m"
proof (cases gs)
  case (Cons g gs')
  show ?thesis
  proof (cases "serves (max n kMaxPages) g")
    case True
    then show ?thesis using assms Cons serves_mono[OF True, of n] by (simp del: kPageSize_def kMaxPages_def)
  next
    case False
    then have "gs' \<noteq> []" "serves n (hd gs')" "hd gs' = Some (p, m)"
      using assms Cons by (simp_all del: kPageSize_def kMaxPages_def split: if_splits)
    then show ?thesis using Cons hd_in_set[of gs'] by (simp del: kPageSize_def)
  qed
qed (use assms in simp)

lemma GrowHeap_flag:
  assumes "GrowHeap env n h = Some (ok, h')" "\<forall>p m. Some (p, m) \<in> set (os_grants h) \<longrightarrow> m < two64"
  shows "ok \<longleftrightarrow> (\<exists>p m. region_for n (os_grants h) = Some (p, m)
    \<and> fst (pm3_Ensure page_bits (p div kPageSize - 1) (m div kPageSize + 2) (pagemap h)))"
proof (cases "n > kMaxValidPages")
  case True
  have "region_for n (os_grants h) \<noteq> Some (p, m)" for p m
  proof
    assume "region_for n (os_grants h) = Some (p, m)"
    from region_for_fits[OF this] have "m < two64" "kPageSize * n \<le> m" using assms(2) by blast+
    then show False using True by (simp add: two64_def)
  qed
  then show ?thesis using assms(1) True by (simp add: GrowHeap_def)
next
  case False
  have sb: "span_bytes k = kPageSize * k" if "k \<le> kMaxValidPages" for k
    using that by (simp add: span_bytes_def two64_def)
  have ask: "(if n > kMinSystemAlloc then n else kMinSystemAlloc) = max n kMaxPages" by simp
  have sm: "span_bytes (max n kMaxPages) = kPageSize * max n kMaxPages" "span_bytes n = kPageSize * n"
    using sb False by simp_all
  have lt: "n < max n kMaxPages \<longleftrightarrow> n < kMaxPages" by auto
  obtain r gs' where a: "(let (r, h) = system_alloc (span_bytes (max n kMaxPages)) h in
      if r = None \<and> n < max n kMaxPages then system_alloc (span_bytes n) h else (r, h)) = (r, h\<lparr>os_grants := gs'\<rparr>)"
    "r = region_for n (os_grants h)"
  proof (cases "os_grants h")
    case Nil
    then have "h\<lparr>os_grants := []\<rparr> = h" by simp
    then show thesis using Nil that[of None "[]"] by (simp add: system_alloc_def)
  next
    case (Cons g gs)
    show thesis
    proof (cases "serves (max n kMaxPages) g")
      case True
      then obtain p m where g: "g = Some (p, m)" by (cases g) auto
      then have "system_alloc (kPageSize * max n kMaxPages) h = (g, h\<lparr>os_grants := gs\<rparr>)"
        using True Cons by (simp add: system_alloc_def del: kPageSize_def kMaxPages_def)
      then show thesis using True Cons g that[of g gs] unfolding sm(1) by (simp del: kPageSize_def kMaxPages_def)
    next
      case refused: False
      have h1: "system_alloc (kPageSize * max n kMaxPages) h = (None, h\<lparr>os_grants := gs\<rparr>)"
        using refused Cons by (auto simp: system_alloc_def serves_def split: option.splits simp del: kPageSize_def kMaxPages_def)
      show thesis
      proof (cases "n < kMaxPages \<and> gs \<noteq> []")
        case True
        then obtain g' gs2 where gs: "gs = g' # gs2" by (cases gs) auto
        have "system_alloc (kPageSize * n) (h\<lparr>os_grants := gs\<rparr>)
            = (if serves n g' then g' else None, h\<lparr>os_grants := gs2\<rparr>)"
          by (auto simp: system_alloc_def serves_def gs split: option.splits simp del: kPageSize_def)
        then show thesis using that[of "if serves n g' then g' else None" gs2] refused True Cons gs
          unfolding sm lt h1 by (simp del: kPageSize_def kMaxPages_def)
      next
        case none: False
        show thesis
        proof (cases gs)
          case Nil
          then show thesis using that[of None "[]"] refused Cons unfolding sm lt h1
            by (simp add: system_alloc_def del: kPageSize_def kMaxPages_def)
        next
          case (Cons g' gs2)
          then show thesis using that[of None gs] refused none \<open>os_grants h = g # gs\<close> unfolding sm lt h1
            by (simp del: kPageSize_def kMaxPages_def)
        qed
      qed
    qed
  qed
  have "GrowHeap env n h = (case r of None \<Rightarrow> Some (False, h\<lparr>os_grants := gs'\<rparr>)
      | Some (p, m) \<Rightarrow> grow_with env p m (h\<lparr>os_grants := gs'\<rparr>))"
  proof -
    define q where "q = max n kMaxPages"
    obtain r1 h1 where s1: "system_alloc (span_bytes q) h = (r1, h1)" by fastforce
    have "(if r1 = None \<and> n < q then system_alloc (span_bytes n) h1 else (r1, h1)) = (r, h\<lparr>os_grants := gs'\<rparr>)"
      using a(1) s1 by (simp add: q_def)
    then show ?thesis using False s1 ask unfolding GrowHeap_def q_def[symmetric]
      by (simp add: Let_def split: option.split del: kPageSize_def)
  qed
  note G = this[unfolded assms(1) a(2)]
  show ?thesis
  proof (cases "region_for n (os_grants h)")
    case None
    then show ?thesis using G by simp
  next
    case (Some pm)
    then obtain p m where pm: "region_for n (os_grants h) = Some (p, m)" by (cases pm) auto
    then have "grow_with env p m (h\<lparr>os_grants := gs'\<rparr>) = Some (ok, h')" using G by simp
    from grow_with_flag[OF this] pm show ?thesis by (simp del: kPageSize_def page_bits_def)
  qed
qed

text \<open>Exactly when a request is answered.\<close>

definition New_answered :: "nat \<Rightarrow> pageheap \<Rightarrow> bool" where
  "New_answered n h \<longleftrightarrow> (\<exists>a s l c. free_span h a s l c \<and> n \<le> l)
     \<or> (\<exists>p m. region_for n (os_grants h) = Some (p, m)
          \<and> fst (pm3_Ensure page_bits (p div kPageSize - 1) (m div kPageSize + 2) (pagemap h)))"

lemma New_exact:
  assumes "heap_ok h" "0 < n" "2 \<le> room h" "0 < trace_room h"
  shows "\<exists>r h'. New env n h = Some (r, h') \<and> heap_ok h' \<and> (r \<noteq> None \<longleftrightarrow> New_answered n h)
    \<and> (\<forall>p. r = Some p \<longrightarrow> (\<exists>a s. p = Sp a \<and> allocated h n a s h'))
    \<and> room h \<le> room h' + 2 \<and> trace_room h \<le> trace_room h' + 1"
proof -
  let ?P = "cover (spans h)"
  have at: "heap_at ?P h" using assms(1) by (simp add: heap_ok_def)
  have rm: "0 < room h" using assms(3) by linarith
  have fits: "\<forall>p m. Some (p, m) \<in> set (os_grants h) \<longrightarrow> m < two64"
  proof (intro allI impI)
    fix p m
    assume "Some (p, m) \<in> set (os_grants h)"
    then have "p + m + kPageSize \<le> 2 ^ 48" using heap_at_os[OF at] unfolding os_ok_def by blast
    then show "m < two64" by (simp add: two64_def)
  qed
  obtain r h' where N: "New env n h = Some (r, h')" "heap_ok h'"
    "\<And>p. r = Some p \<Longrightarrow> \<exists>a s. p = Sp a \<and> allocated h n a s h'"
    "\<And>a s l c. free_span h a s l c \<Longrightarrow> n \<le> l \<Longrightarrow> \<exists>b. r = Some (Sp b) \<and> best_fit h n b"
    "room h \<le> room h' + 2 \<and> trace_room h \<le> trace_room h' + 1"
    by (rule New_ok[OF at assms(2-4)]) (rule that)
  have "r \<noteq> None \<longleftrightarrow> New_answered n h"
  proof (cases "\<exists>a s l c. free_span h a s l c \<and> n \<le> l")
    case True
    then show ?thesis using N(4) unfolding New_answered_def by blast
  next
    case False
    obtain r1 h1 where s1: "SearchFreeAndLargeLists n h = Some (r1, h1)"
      "case r1 of None \<Rightarrow> h1 = h \<and> (\<forall>a s l c. free_span h a s l c \<longrightarrow> l < n)
        | Some p \<Rightarrow> \<exists>a. p = Sp a \<and> best_fit h n a \<and> takes ?P h a n h1"
      using SearchFreeAndLargeLists_searched[OF at assms(2) rm] unfolding searched_def by blast
    have "r1 = None"
    proof (rule ccontr)
      assume "r1 \<noteq> None"
      then obtain a where "best_fit h n a" using s1(2) by auto
      then show False using False unfolding best_fit_def by blast
    qed
    then have h1: "h1 = h" using s1(2) by simp
    obtain ok h2 Q where g: "GrowHeap env n h = Some (ok, h2)" "grown ?P Q h h2"
      "ok \<Longrightarrow> \<exists>b t l d. free_span h2 b t l d \<and> n \<le> l"
      by (rule GrowHeap_ok[OF at assms(2) rm assms(4)]) (rule that)
    note flag = GrowHeap_flag[OF g(1) fits]
    have at2: "heap_at Q h2" and rm2: "0 < room h2" using g(2) assms(3) by (auto simp: grown_def)
    obtain r3 h3 where s3: "SearchFreeAndLargeLists n h2 = Some (r3, h3)"
      "case r3 of None \<Rightarrow> h3 = h2 \<and> (\<forall>a s l c. free_span h2 a s l c \<longrightarrow> l < n)
        | Some p \<Rightarrow> \<exists>a. p = Sp a \<and> best_fit h2 n a \<and> takes Q h2 a n h3"
      using SearchFreeAndLargeLists_searched[OF at2 assms(2) rm2] unfolding searched_def by blast
    have "r = (if ok then r3 else None)" using N(1) s1(1) \<open>r1 = None\<close> h1 g(1) s3(1)
      by (auto simp: New_def split: bind_splits if_splits)
    moreover have "r3 \<noteq> None" if ok
    proof
      assume "r3 = None"
      then have "\<forall>a s l c. free_span h2 a s l c \<longrightarrow> l < n" using s3(2) by simp
      then show False using g(3)[OF that] by (meson not_le)
    qed
    ultimately have "r \<noteq> None \<longleftrightarrow> ok" by auto
    then show ?thesis unfolding New_answered_def flag using False by blast
  qed
  with N(1-3,5) show ?thesis by (intro exI[of _ r] exI[of _ h'] conjI allI impI) simp_all
qed

lemma New_succeeds:
  assumes "heap_ok h" "0 < n" "n \<le> kMaxPages" "2 \<le> room h" "0 < trace_room h"
    and "os_grants h = Some (p, m) # gs" "kPageSize * kMaxPages \<le> m"
    and "fst (pm3_Ensure page_bits (p div kPageSize - 1) (m div kPageSize + 2) (pagemap h))"
  shows "\<exists>a s h'. New env n h = Some (Some (Sp a), h') \<and> heap_ok h' \<and> allocated h n a s h'
    \<and> room h \<le> room h' + 2 \<and> trace_room h \<le> trace_room h' + 1"
proof -
  have "region_for n (os_grants h) = Some (p, m)"
    using assms(3,6,7) by (simp add: serves_def max_def del: kPageSize_def)
  then have "New_answered n h" using assms(8) unfolding New_answered_def by blast
  then show ?thesis using New_exact[OF assms(1,2,4,5), of env] by blast
qed

section \<open>Walking over the ranges\<close>

text \<open>\<open>k\<close> is not inside a span.\<close>

definition boundary :: "pageheap \<Rightarrow> nat \<Rightarrow> bool" where
  "boundary h k \<longleftrightarrow> (\<forall>a s l c. spans h a = Some (s, l, c) \<longrightarrow> k \<le> s \<or> s + l \<le> k)"

definition span_type :: "nat \<Rightarrow> range_type" where
  "span_type c = (if c = IN_USE then INUSE else if c = ON_NORMAL_FREELIST then FREE else UNMAPPED)"

lemma Next_span:
  assumes "heap_ok h" "boundary h k"
  shows "case pm3_Next page_bits (pagemap h) k of
      None \<Rightarrow> \<forall>a s l c. spans h a = Some (s, l, c) \<longrightarrow> s + l \<le> k
    | Some q \<Rightarrow> \<exists>a s l c. q = Sp a \<and> spans h a = Some (s, l, c) \<and> k \<le> s
        \<and> (\<forall>b t m d. spans h b = Some (t, m, d) \<longrightarrow> k \<le> t \<longrightarrow> s \<le> t)"
proof -
  obtain P L where I: "hinv {} P h L" "cover (spans h) = P" using assms(1) by (auto simp: heap_ok_def heap_at_def)
  have M: "map_ok P (pagemap h) (spans h)" by (rule hinv_parts(5)[OF I(1)])
  have get: "pm3_get page_bits (pagemap h) s = Some (Sp a)" if "spans h a = Some (s, l, c)" for a s l c
    using M that unfolding map_ok_def by blast
  note F = pm3_Next_first[of page_bits "pagemap h" k]
  show ?thesis
  proof (cases "pm3_Next page_bits (pagemap h) k")
    case None
    then have none: "pm3_get page_bits (pagemap h) j = None" if "k \<le> j" for j using F that by (simp add: first_at_def)
    have "s + l \<le> k" if a: "spans h a = Some (s, l, c)" for a s l c
    proof (rule ccontr)
      assume "\<not> s + l \<le> k"
      then have "k \<le> s" using assms(2) a unfolding boundary_def by blast
      then show False using none[of s] get[OF a] by simp
    qed
    then show ?thesis using None by simp
  next
    case (Some q)
    then obtain j where j: "k \<le> j" "pm3_get page_bits (pagemap h) j = Some q"
      "\<forall>i. k \<le> i \<and> i < j \<longrightarrow> pm3_get page_bits (pagemap h) i = None"
      using F by (auto simp: first_at_def)
    then have "j \<in> cover (spans h)" using M I(2) unfolding map_ok_def by blast
    then obtain a s l c where a: "spans h a = Some (s, l, c)" "s \<le> j" "j < s + l" by (auto simp: cover_def)
    have ks: "k \<le> s" using assms(2) a j(1) unfolding boundary_def by (meson le_less_trans not_le)
    have "\<not> s < j" using j(3) ks get[OF a(1)] by auto
    then have "s = j" using a(2) by simp
    then have "q = Sp a" using j(2) get[OF a(1)] by simp
    moreover have "s \<le> t" if "spans h b = Some (t, m, d)" "k \<le> t" for b t m d
      using j(3) get[OF that(1)] that(2) \<open>s = j\<close> by (metis not_le option.distinct(1))
    ultimately show ?thesis using Some a(1) ks by auto
  qed
qed

lemma GetNextRange_ok:
  assumes "heap_ok h" "boundary h k"
  shows "(GetNextRange sm k h = Some None \<and> (\<forall>a s l c. spans h a = Some (s, l, c) \<longrightarrow> s + l \<le> k))
    \<or> (\<exists>r a s l c. GetNextRange sm k h = Some (Some r) \<and> spans h a = Some (s, l, c) \<and> k \<le> s
        \<and> (\<forall>b t m d. spans h b = Some (t, m, d) \<longrightarrow> k \<le> t \<longrightarrow> s \<le> t)
        \<and> mr_address r = kPageSize * s \<and> mr_length r = kPageSize * l \<and> mr_type r = span_type c
        \<and> (c \<noteq> IN_USE \<longrightarrow> mr_fraction r = 0) \<and> boundary h (s + l))"
proof (cases "pm3_Next page_bits (pagemap h) k")
  case None
  then show ?thesis using Next_span[OF assms] by (simp add: GetNextRange_def)
next
  case (Some q)
  then obtain a s l c where a: "q = Sp a" "spans h a = Some (s, l, c)" "k \<le> s"
    "\<forall>b t m d. spans h b = Some (t, m, d) \<longrightarrow> k \<le> t \<longrightarrow> s \<le> t"
    using Next_span[OF assms] by auto
  obtain P L where I: "hinv {} P h L" using assms(1) by (auto simp: heap_ok_def heap_at_def)
  obtain t where t: "mem h (Sp a) = Some t" "sp_start t = s" "sp_length t = l" "sp_location t = c"
    using a(2) by (auto simp: desc_Some)
  note E = hinv_ends[OF I a(2)]
  have "s \<in> P" using E(3,4) by auto
  then have "s < 2 ^ 35" using hinv_parts(5)[OF I] by (auto simp: map_ok_def pm3_ensured_def)
  then have sb: "span_bytes s = kPageSize * s" "span_bytes l = kPageSize * l"
    using span_bytes_run(1)[OF I E(4)] by (simp_all add: span_bytes_def two64_def mult.commute)
  have "s + l \<le> t \<or> t + m \<le> s + l" if b: "spans h b = Some (t, m, d)" for b t m d
  proof (cases "b = a")
    case False
    then have "s + l \<le> t \<or> t + m \<le> s" using hinv_parts(3)[OF I] a(2) b unfolding descs_ok_def by blast
    then show ?thesis by linarith
  qed (use a(2) b in simp)
  then have "boundary h (s + l)" unfolding boundary_def by blast
  moreover have "\<exists>r. GetNextRange sm k h = Some (Some r) \<and> mr_address r = kPageSize * s \<and> mr_length r = kPageSize * l
      \<and> mr_type r = span_type c \<and> (c \<noteq> IN_USE \<longrightarrow> mr_fraction r = 0)"
    using Some a(1) t sb E(5) by (auto simp: GetNextRange_def Let_def span_type_def simp del: kPageSize_def page_bits_def)
  ultimately show ?thesis using a(2-4) by blast
qed

section \<open>Lawful clients\<close>

datatype heap_op = OpNew nat | OpDelete nat | OpSplit nat nat | OpRegister nat nat | OpRelease nat

text \<open>A client keeps the addresses of the spans it owns.\<close>

fun client_step :: "env \<Rightarrow> heap_op \<Rightarrow> nat set \<times> pageheap \<Rightarrow> (nat set \<times> pageheap) option" where
  "client_step env (OpNew n) (O1, h) = do {
     (r, h) \<leftarrow> New env n h;
     Some (case r of Some (Sp a) \<Rightarrow> insert a O1 | _ \<Rightarrow> O1, h) }"
| "client_step env (OpDelete a) (O1, h) = do { h \<leftarrow> Delete env (Sp a) h; Some (O1 - {a}, h) }"
| "client_step env (OpSplit a n) (O1, h) = do {
     (q, h) \<leftarrow> Split (Sp a) n h;
     Some (case q of Sp b \<Rightarrow> insert b O1 | _ \<Rightarrow> O1, h) }"
| "client_step env (OpRegister a c) (O1, h) = do { h \<leftarrow> RegisterSizeClass (Sp a) c h; Some (O1, h) }"
| "client_step env (OpRelease k) (O1, h) = do { (r, h) \<leftarrow> ReleaseAtLeastNPages k h; Some (O1, h) }"

text \<open>The \<open>REQUIRES\<close> clauses of \<open>page_heap.h\<close>.\<close>

fun lawful :: "heap_op \<Rightarrow> nat set \<times> pageheap \<Rightarrow> bool" where
  "lawful (OpNew n) (O1, h) = (0 < n)"
| "lawful (OpDelete a) (O1, h) = (a \<in> O1)"
| "lawful (OpSplit a n) (O1, h) = (a \<in> O1 \<and> 0 < n
     \<and> (\<exists>t. mem h (Sp a) = Some t \<and> n < sp_length t \<and> sp_sizeclass t = 0))"
| "lawful (OpRegister a c) (O1, h) = (a \<in> O1)"
| "lawful (OpRelease k) (O1, h) = True"

abbreviation has_room :: "pageheap \<Rightarrow> bool" where
  "has_room h \<equiv> 2 \<le> room h \<and> 0 < trace_room h"

inductive client_reach :: "env \<Rightarrow> pageheap \<Rightarrow> nat set \<times> pageheap \<Rightarrow> bool" for env h0 where
  start: "client_reach env h0 ({}, h0)"
| step: "client_reach env h0 (O1, h) \<Longrightarrow> lawful op (O1, h) \<Longrightarrow> has_room h \<Longrightarrow>
     client_step env op (O1, h) = Some (O2, h') \<Longrightarrow> client_reach env h0 (O2, h')"

definition owns :: "nat set \<Rightarrow> pageheap \<Rightarrow> bool" where
  "owns O1 h \<longleftrightarrow> (\<forall>a \<in> O1. \<exists>t. mem h (Sp a) = Some t \<and> sp_location t = IN_USE
     \<and> sp_next t = None \<and> sp_prev t = None)"

lemma owns_idle: "owns O1 h \<Longrightarrow> a \<in> O1 \<Longrightarrow> idle (spans h) (Sp a) \<and> mem h (Sp a) \<noteq> None"
  unfolding owns_def by (fastforce simp: idle_def desc_Some)

lemma owns_frame:
  assumes "owns O1 h" "O2 \<subseteq> O1" "\<And>a. a \<in> O2 \<Longrightarrow> mem h' (Sp a) = mem h (Sp a)"
  shows "owns O2 h'"
  using assms unfolding owns_def by (metis subsetD)

lemma owns_add:
  assumes "owns O1 h" "spans h a = Some (s, l, IN_USE)" "detached (mem h) (Sp a)"
  shows "owns (insert a O1) h"
  using assms unfolding owns_def by (auto simp: desc_Some detached_def nxt_def prv_def)

lemma owned_span: "owns O1 h \<Longrightarrow> a \<in> O1 \<Longrightarrow>
   \<exists>t. mem h (Sp a) = Some t \<and> sp_location t = IN_USE \<and> spans h a = Some (sp_start t, sp_length t, IN_USE)
     \<and> detached (mem h) (Sp a)"
  unfolding owns_def by (fastforce simp: desc_Some detached_def nxt_def prv_def)

definition client_ok :: "nat set \<times> pageheap \<Rightarrow> bool" where
  "client_ok x \<longleftrightarrow> heap_ok (snd x) \<and> owns (fst x) (snd x)"

lemma client_step_ok:
  assumes "client_ok (O1, h)" "lawful op (O1, h)" "has_room h"
  shows "\<exists>O2 h'. client_step env op (O1, h) = Some (O2, h') \<and> client_ok (O2, h')"
proof (cases op)
  note at = assms(1)[unfolded client_ok_def fst_conv snd_conv]
  have H: "heap_at (cover (spans h)) h" using at by (simp add: heap_ok_def)
  have rm: "0 < room h" "2 \<le> room h" "0 < trace_room h" using assms(3) by linarith+
  {
    case (OpNew n)
    have n: "0 < n" using assms(2) OpNew by simp
    obtain r h' where N: "New env n h = Some (r, h')" "heap_ok h'"
      "\<And>p. r = Some p \<Longrightarrow> \<exists>a s. p = Sp a \<and> allocated h n a s h'" "r = None \<Longrightarrow> mem h' = mem h"
      by (rule New_ok[OF H n rm(2,3)]) (rule that)
    show ?thesis
    proof (cases r)
      case None
      then have "owns O1 h'" using owns_frame[of O1 h O1 h'] at N(4) by simp
      then show ?thesis using OpNew N(1,2) None by (simp add: client_ok_def)
    next
      case (Some p)
      then obtain a s where a: "p = Sp a" "allocated h n a s h'" using N(3) by blast
      have "owns O1 h'"
      proof (rule owns_frame[OF conjunct2[OF at] subset_refl])
        show "mem h' (Sp b) = mem h (Sp b)" if "b \<in> O1" for b
          using a(2) owns_idle[OF conjunct2[OF at] that] unfolding allocated_def by blast
      qed
      then have "owns (insert a O1) h'" using a(2) owns_add unfolding allocated_def by blast
      then show ?thesis using OpNew N(1,2) Some a(1) by (simp add: client_ok_def)
    qed
  next
    case (OpDelete a)
    then obtain t where t: "mem h (Sp a) = Some t" "spans h a = Some (sp_start t, sp_length t, IN_USE)"
      "detached (mem h) (Sp a)" using assms(2) at owned_span by fastforce
    obtain h' where h': "Delete env (Sp a) h = Some h'" "heap_at (cover (spans h)) h'"
      "\<forall>v. idle (spans h) v \<longrightarrow> v \<noteq> Sp a \<longrightarrow> idle (spans h') v \<and> mem h' v = mem h v"
      by (rule Delete_spec[OF H t(2,3)]) (rule that)
    have "owns (O1 - {a}) h'"
    proof (rule owns_frame[OF conjunct2[OF at] Diff_subset])
      show "mem h' (Sp b) = mem h (Sp b)" if "b \<in> O1 - {a}" for b
        using h'(3) owns_idle[OF conjunct2[OF at], of b] that by blast
    qed
    then show ?thesis using OpDelete h'(1) heap_at_ok[OF h'(2)] by (simp add: client_ok_def)
  next
    case (OpSplit a n)
    then obtain t where t: "mem h (Sp a) = Some t" "sp_location t = IN_USE" "n < sp_length t" "sp_sizeclass t = 0" "0 < n" "a \<in> O1"
      using assms(2) at owned_span[of O1 h a] by auto
    obtain b h' where h': "Split (Sp a) n h = Some (Sp b, h')" "heap_at (cover (spans h)) h'" "mem h (Sp b) = None"
      "mem h' = (mem h)(Sp a \<mapsto> t\<lparr>sp_length := n\<rparr>,
       Sp b \<mapsto> zero_span\<lparr>sp_start := sp_start t + n, sp_length := sp_length t - n\<rparr>)"
      by (rule Split_ok[OF H t(1,2,4,5,3) rm(1)]) (rule that)
    have "owns (insert b O1) h'"
      using at t h'(3) unfolding owns_def h'(4) by (auto simp: zero_span_def)
    then show ?thesis using OpSplit h'(1) heap_at_ok[OF h'(2)] by (simp add: client_ok_def)
  next
    case (OpRegister a c)
    then obtain t where t: "mem h (Sp a) = Some t" "sp_location t = IN_USE" "a \<in> O1"
      using assms(2) at owned_span[of O1 h a] by auto
    obtain h' where h': "RegisterSizeClass (Sp a) c h = Some h'" "heap_at (cover (spans h)) h'"
      "mem h' = (mem h)(Sp a \<mapsto> t\<lparr>sp_sizeclass := c mod 256\<rparr>)"
      by (rule RegisterSizeClass_ok[OF H t(1,2), of c]) (rule that)
    have "owns O1 h'" using at t unfolding owns_def h'(3) by auto
    then show ?thesis using OpRegister h'(1) heap_at_ok[OF h'(2)] by (simp add: client_ok_def)
  next
    case (OpRelease k)
    obtain r h' where h': "ReleaseAtLeastNPages k h = Some (r, h')" "heap_at (cover (spans h)) h'" "released h h'"
      by (rule ReleaseAtLeastNPages_spec[OF H]) (rule that)
    have "owns O1 h'"
    proof (rule owns_frame[OF conjunct2[OF at] subset_refl])
      show "mem h' (Sp b) = mem h (Sp b)" if "b \<in> O1" for b
        using releasedD(4)[OF h'(3)] owns_idle[OF conjunct2[OF at] that] by blast
    qed
    then show ?thesis using OpRelease h'(1) heap_at_ok[OF h'(2)] by (simp add: client_ok_def)
  }
qed

lemma client_reach_ok:
  assumes "client_reach env h0 x" "heap_ok h0"
  shows "client_ok x"
  using assms
proof (induction rule: client_reach.induct)
  case start
  then show ?case by (simp add: client_ok_def owns_def)
next
  case (step O1 h op O2 h')
  then show ?case using client_step_ok[of O1 h op env] by auto
qed

section \<open>A sample heap\<close>

text \<open>
  A freshly constructed heap with one chunk for spans and one for stack traces, to which the system
  will give one region of 1 MiB; and the same heap after an allocation of three pages.
\<close>

definition sample_env :: env where
  "sample_env = \<lparr>release_rate = 1, stack_pcs = []\<rparr>"

definition fresh_heap :: "pageheap \<Rightarrow> bool" where
  "fresh_heap h \<longleftrightarrow> heap_ok h \<and> spans h = Map.empty \<and> 10 \<le> room h \<and> 10 \<le> trace_room h
     \<and> os_grants h = [Some (1048576, 1048576)]
     \<and> pagemap h = \<lparr>root3 = (\<lambda>_. None), allocator3 = [True, True]\<rparr>"

lemma sample_pool:
  assumes "0 < sz" "sz \<le> 1000"
  shows "\<exists>a. pool sz {} a \<and> 10 \<le> spare sz a"
proof -
  let ?a = "\<lparr>free_area = 0, free_avail = 0, free_list = 0, inuse = 0, link = (\<lambda>_. 0), chunks = [Some 4096]\<rparr>"
  have "sz \<le> kAllocIncrement" using assms(2) by simp
  moreover have "chunks_ok (chunks ?a)" "0 < leading_chunks (chunks ?a)" by (simp_all add: chunks_ok_def)
  ultimately obtain a' where a': "pool sz {} a'" "leading_chunks (chunks ?a) * (kAllocIncrement div sz) \<le> spare sz a' + 1"
    using pha_Init_pool[OF assms(1), of ?a] by blast
  have "kAllocIncrement div 1000 \<le> kAllocIncrement div sz" by (rule div_le_mono2) (use assms in auto)
  then have "131 \<le> kAllocIncrement div sz" by simp
  then show ?thesis using a' by auto
qed

lemma built_heap_exists: "\<exists>al sa ta junk h. PageHeap_init (True # al) sa ta [Some (1048576, 1048576)] junk = Some h
   \<and> span_pool {} sa \<and> pool sizeof_StackTrace {} ta \<and> os_ok {} 0 [Some (1048576, 1048576)] \<and> fresh_heap h"
proof -
  obtain sa ta where a: "pool sizeof_Span {} sa" "10 \<le> spare sizeof_Span sa"
    "pool sizeof_StackTrace {} ta" "10 \<le> spare sizeof_StackTrace ta"
    using sample_pool[of sizeof_Span] sample_pool[of sizeof_StackTrace] by auto
  have os: "os_ok {} 0 [Some (1048576, 1048576)]"
    by (simp add: os_ok_def heap_budget_def grant_bytes_def)
  obtain h where "PageHeap_init (True # [True, True]) sa ta [Some (1048576, 1048576)] (\<lambda>_. 0) = Some h" "heap_ok h"
    "spans h = Map.empty" "span_allocator h = sa" "stacktrace_allocator h = ta"
    "os_grants h = [Some (1048576, 1048576)]" "pagemap h = \<lparr>root3 = (\<lambda>_. None), allocator3 = [True, True]\<rparr>"
    by (rule PageHeap_init_ok[OF pool_span[OF a(1)] a(3) os, of "[True, True]" "\<lambda>_. 0"]) (rule that)
  then show ?thesis using a os pool_span unfolding fresh_heap_def by blast
qed

lemma fresh_heap_exists: "\<exists>al sa ta junk h. PageHeap_init (True # al) sa ta [Some (1048576, 1048576)] junk = Some h \<and> fresh_heap h"
  using built_heap_exists by blast

lemma sample_Ensure:
  "fst (pm3_Ensure page_bits (1048576 div kPageSize - 1) (1048576 div kPageSize + 2)
     \<lparr>root3 = (\<lambda>_. None), allocator3 = [True, True]\<rparr>)"
  by (simp add: pm3_Ensure_def pm3_ensure_loop.simps ix1_def ix2_def pm3_LEAF_BITS_def INTERIOR_BITS_def
      pm3_make_node_def pm3_make_leaf_def take_alloc_def next_key_def sub64_def add64_def two64_def)

lemma sample_Ensure_more:
  "fst (pm3_Ensure page_bits (1048576 div kPageSize - 1) (1638400 div kPageSize + 2)
     \<lparr>root3 = (\<lambda>_. None), allocator3 = [True, True]\<rparr>)"
  "fst (pm3_Ensure page_bits (1048576 div kPageSize - 1) (409600 div kPageSize + 2)
     \<lparr>root3 = (\<lambda>_. None), allocator3 = [True, True]\<rparr>)"
  by (simp_all add: pm3_Ensure_def pm3_ensure_loop.simps ix1_def ix2_def pm3_LEAF_BITS_def INTERIOR_BITS_def
      pm3_make_node_def pm3_make_leaf_def take_alloc_def next_key_def sub64_def add64_def two64_def)

lemma fresh_New:
  assumes "fresh_heap h" "0 < n" "n \<le> kMaxPages"
  shows "\<exists>a s h'. New env n h = Some (Some (Sp a), h') \<and> heap_ok h' \<and> allocated h n a s h' \<and> has_room h'"
proof -
  note f = assms(1)[unfolded fresh_heap_def]
  have f': "2 \<le> room h" "0 < trace_room h" "os_grants h = Some (1048576, 1048576) # []" using f by linarith+
  have "fst (pm3_Ensure page_bits (1048576 div kPageSize - 1) (1048576 div kPageSize + 2) (pagemap h))"
    using sample_Ensure f by metis
  from New_succeeds[OF _ assms(2,3) f' _ this, of env] f show ?thesis by fastforce
qed

section \<open>The statistics of a consistent heap\<close>

lemma stats_now:
  assumes "heap_ok h"
  shows "free_bytes h = kPageSize * card (normal_pages h) \<and> unmapped_bytes h = kPageSize * card (returned_pages h)
    \<and> kPageSize * card (used_pages h) + free_bytes h + unmapped_bytes h \<le> system_bytes h"
proof -
  let ?P = "cover (spans h)"
  have H: "heap_at ?P h" using assms by (simp add: heap_ok_def)
  then obtain L where I: "hinv {} ?P h L" by (auto simp: heap_at_def)
  note b = heap_at_bytes[OF H] and d = disjoint_pages_of[OF hinv_parts(3)[OF I]]
  have fin: "finite ?P" by (rule hinv_finite[OF I])
  have sub: "used_pages h \<union> normal_pages h \<union> returned_pages h \<subseteq> ?P" by (auto simp: cover_pages_of)
  have f: "finite (used_pages h)" "finite (normal_pages h)" "finite (returned_pages h)"
    using finite_subset[OF _ fin] sub by blast+
  have dis: "used_pages h \<inter> normal_pages h = {}" "(used_pages h \<union> normal_pages h) \<inter> returned_pages h = {}"
    using d[of IN_USE ON_NORMAL_FREELIST] d[of IN_USE ON_RETURNED_FREELIST]
      d[of ON_NORMAL_FREELIST ON_RETURNED_FREELIST] by auto
  have "card (used_pages h) + card (normal_pages h) + card (returned_pages h)
      = card (used_pages h \<union> normal_pages h \<union> returned_pages h)"
    by (subst card_Un_disjoint[OF _ f(3) dis(2)], use f in blast, subst card_Un_disjoint[OF f(1,2) dis(1)], rule refl)
  also have "\<dots> \<le> card ?P" using sub by (rule card_mono[OF fin])
  finally have "kPageSize * (card (used_pages h) + card (normal_pages h) + card (returned_pages h)) \<le> kPageSize * card ?P"
    by (rule mult_le_mono2)
  then show ?thesis using b by (simp add: distrib_left)
qed

text \<open>The pages of one kind, list by list.\<close>

lemma pages_by_length:
  assumes "descs_ok P (spans h)"
  shows "pages_at c (spans h) = (\<Sum>k<kMaxPages. k * span_count h c k) + card (large_pages h c)"
proof -
  let ?D = "spans h" and ?S = "\<lambda>k. {a. \<exists>s. spans h a = Some (s, k, c)}" and ?M = "{a. \<exists>s l. spans h a = Some (s, l, c)}"
  have fin: "finite (dom ?D)" using assms by (simp add: descs_ok_def)
  have sub: "?M \<subseteq> dom ?D" by auto
  have fM: "finite ?M" by (rule finite_subset[OF sub fin])
  have fS: "finite (?S k)" for k by (rule finite_subset[OF _ fM]) auto
  have fL: "finite (large h c)" by (rule finite_subset[OF _ fM]) (auto simp: large_def)
  have "pages_at c ?D = sum (len_of ?D) ?M"
    unfolding pages_at_def by (rule sum.mono_neutral_cong_right[OF fin sub]) (auto simp: len_of_def split: option.split)
  also have "?M = (\<Union>k<kMaxPages. ?S k) \<union> large h c"
    unfolding large_def by (auto simp: not_less)
  also have "sum (len_of ?D) \<dots> = sum (len_of ?D) (\<Union>k<kMaxPages. ?S k) + sum (len_of ?D) (large h c)"
    by (rule sum.union_disjoint) (use fS fL in \<open>auto simp: large_def\<close>)
  also have "sum (len_of ?D) (\<Union>k<kMaxPages. ?S k) = (\<Sum>k<kMaxPages. sum (len_of ?D) (?S k))"
    by (rule sum.UNION_disjoint) (use fS in auto)
  also have "\<dots> = (\<Sum>k<kMaxPages. k * span_count h c k)"
  proof (rule sum.cong[OF refl])
    fix k
    have "sum (len_of ?D) (?S k) = (\<Sum>a\<in>?S k. k)" by (rule sum.cong) (auto simp: len_of_def)
    then show "sum (len_of ?D) (?S k) = k * span_count h c k" by (simp add: span_count_def)
  qed
  also have "sum (len_of ?D) (large h c) = card (large_pages h c)"
    unfolding large_pages_def by (rule sum_len[OF assms fL])
  finally show ?thesis .
qed

lemma stats_walk:
  assumes "heap_ok h"
  shows "\<exists>ns rs c np rp. GetSmallSpanStats h = Some (ns, rs) \<and> GetLargeSpanStats h = Some (c, np, rp)
    \<and> free_bytes h = kPageSize * ((\<Sum>k<kMaxPages. k * ns ! k) + np)
    \<and> unmapped_bytes h = kPageSize * ((\<Sum>k<kMaxPages. k * rs ! k) + rp)"
proof -
  obtain P L where I: "hinv {} P h L" using assms by (auto simp: heap_ok_def heap_at_def)
  note d = hinv_parts(3)[OF I]
  have nth: "(\<Sum>k<kMaxPages. k * map f [0..<kMaxPages] ! k) = (\<Sum>k<kMaxPages. k * f k)" for f :: "nat \<Rightarrow> nat"
    by (rule sum.cong[OF refl]) (simp del: kMaxPages_def)
  have "free_bytes h = kPageSize * ((\<Sum>k<kMaxPages. k * map (span_count h ON_NORMAL_FREELIST) [0..<kMaxPages] ! k)
      + card (large_pages h ON_NORMAL_FREELIST))"
    "unmapped_bytes h = kPageSize * ((\<Sum>k<kMaxPages. k * map (span_count h ON_RETURNED_FREELIST) [0..<kMaxPages] ! k)
      + card (large_pages h ON_RETURNED_FREELIST))"
    unfolding nth pages_by_length[OF d, symmetric] using hinv_parts(6,7)[OF I] by (simp_all only:)
  then show ?thesis using GetSmallSpanStats_ok[OF assms] GetLargeSpanStats_ok[OF assms] by blast
qed

section \<open>Properties\<close>

text \<open>
  C15: page allocation.  From every consistent heap \<open>New\<close> runs without a failed assertion and
  leaves a consistent heap that manages at least the pages it did.  A result is an allocated span of
  exactly \<open>n\<close> pages none of which was in use, and no other allocated span changes.  When a free span
  is long enough, the result is the best fit: the shortest such span and, among the large ones, the
  one at the lowest address.  A null result means that no free span was long enough, and then
  nothing was allocated.
\<close>

theorem PageHeap_New_best_fit:
  assumes "heap_ok h" "0 < n" "2 \<le> room h" "0 < trace_room h"
  shows "\<exists>r h'. New env n h = Some (r, h') \<and> heap_ok h' \<and> cover (spans h) \<subseteq> cover (spans h')
    \<and> (case r of
         Some p \<Rightarrow> \<exists>a s. p = Sp a \<and> allocated h n a s h'
       | None \<Rightarrow> mem h' = mem h \<and> (\<forall>a s l c. free_span h a s l c \<longrightarrow> l < n))
    \<and> ((\<exists>a s l c. free_span h a s l c \<and> n \<le> l) \<longrightarrow> (\<exists>b. r = Some (Sp b) \<and> best_fit h n b))"
proof -
  have H: "heap_at (cover (spans h)) h" using assms(1) by (simp add: heap_ok_def)
  obtain r h' where N: "New env n h = Some (r, h')" "heap_ok h'" "cover (spans h) \<subseteq> cover (spans h')"
    "\<And>p. r = Some p \<Longrightarrow> \<exists>a s. p = Sp a \<and> allocated h n a s h'"
    "\<And>a s l c. free_span h a s l c \<Longrightarrow> n \<le> l \<Longrightarrow> \<exists>b. r = Some (Sp b) \<and> best_fit h n b"
    "r = None \<Longrightarrow> mem h' = mem h"
    by (rule New_ok[OF H assms(2-4)]) (rule that)
  have "l < n" if "r = None" "free_span h a s l c" for a s l c
    using N(5)[OF that(2)] that(1) by (cases "n \<le> l") auto
  then have "case r of Some p \<Rightarrow> \<exists>a s. p = Sp a \<and> allocated h n a s h'
      | None \<Rightarrow> mem h' = mem h \<and> (\<forall>a s l c. free_span h a s l c \<longrightarrow> l < n)"
    using N(4,6) by (cases r) auto
  moreover have "(\<exists>a s l c. free_span h a s l c \<and> n \<le> l) \<longrightarrow> (\<exists>b. r = Some (Sp b) \<and> best_fit h n b)"
    using N(5) by blast
  ultimately show ?thesis using N(1,2,3) by (intro exI[of _ r] exI[of _ h'] conjI)
qed

theorem PageHeap_New_best_fit_witness:
  "\<exists>h r h'. heap_ok h \<and> New sample_env 3 h = Some (r, h') \<and> heap_ok h'"
proof -
  obtain h where "fresh_heap h" using fresh_heap_exists by blast
  then have f: "heap_ok h" "2 \<le> room h" "0 < trace_room h" unfolding fresh_heap_def by linarith+
  show ?thesis using PageHeap_New_best_fit[OF f(1) _ f(2,3), of 3 sample_env] f(1) by auto
qed

text \<open>
  C26: exactly when \<open>New\<close> succeeds, for every request.  A request for \<open>n\<close> pages gets a span if and
  only if a free span is long enough, or the system answers it and the page map can be prepared for
  the region.  The system is first asked for \<open>max n kMaxPages\<close> pages; for a smaller request that is
  refused, the second try for exactly \<open>n\<close> pages counts.  So a null result is never spurious.
\<close>

theorem PageHeap_New_succeeds:
  assumes "heap_ok h" "0 < n" "2 \<le> room h" "0 < trace_room h"
  shows "\<exists>r h'. New env n h = Some (r, h')
    \<and> (r \<noteq> None \<longleftrightarrow> (\<exists>a s l c. free_span h a s l c \<and> n \<le> l)
        \<or> (\<exists>p m. region_for n (os_grants h) = Some (p, m)
             \<and> fst (pm3_Ensure page_bits (p div kPageSize - 1) (m div kPageSize + 2) (pagemap h))))
    \<and> (\<forall>p. r = Some p \<longrightarrow> (\<exists>a s. p = Sp a \<and> allocated h n a s h'))"
  using New_exact[OF assms, of env] unfolding New_answered_def by blast

theorem PageHeap_New_succeeds_witness:
  "\<exists>h. fresh_heap h
     \<and> (\<exists>h'. New sample_env 300 h = Some (None, h'))
     \<and> (\<exists>a s h'. New sample_env 200 (h\<lparr>os_grants := [Some (1048576, 1638400)]\<rparr>) = Some (Some (Sp a), h'))
     \<and> (\<exists>a s h'. New sample_env 50 (h\<lparr>os_grants := [None, Some (1048576, 409600)]\<rparr>) = Some (Some (Sp a), h'))"
proof -
  obtain al sa ta junk h where i: "PageHeap_init (True # al) sa ta [Some (1048576, 1048576)] junk = Some h"
    "span_pool {} sa" "pool sizeof_StackTrace {} ta" "os_ok {} 0 [Some (1048576, 1048576)]" and f: "fresh_heap h"
    using built_heap_exists by blast
  have sys: "system_bytes h = 0" by (rule PageHeap_init_ok[OF i(2-4), of al junk]) (use i(1) in simp)
  note f' = f[unfolded fresh_heap_def]
  have g: "heap_ok h" "2 \<le> room h" "0 < trace_room h" "os_grants h = Some (1048576, 1048576) # []"
    "spans h = Map.empty" "pagemap h = \<lparr>root3 = (\<lambda>_. None), allocator3 = [True, True]\<rparr>" using f' by linarith+
  have no: "\<not> free_span h a s l c" for a s l c using g(5) by (simp add: free_span_def)
  have "cover (spans h) = {}" by (simp add: g(5) cover_def)
  then have at: "heap_at {} h" using g(1) by (simp add: heap_ok_def)
  have some: "\<exists>a s h'. New sample_env n (h\<lparr>os_grants := gs\<rparr>) = Some (Some (Sp a), h')"
    if q: "os_ok {} 0 gs" "0 < n" "region_for n gs = Some (1048576, m)"
      "fst (pm3_Ensure page_bits (1048576 div kPageSize - 1) (m div kPageSize + 2) (pagemap h))" for n m gs
  proof -
    have "heap_at {} (h\<lparr>os_grants := gs\<rparr>)" by (rule heap_at_grants[OF at]) (simp add: sys q(1))
    then have ok: "heap_ok (h\<lparr>os_grants := gs\<rparr>)" by (rule heap_at_ok)
    obtain r h' where r: "New sample_env n (h\<lparr>os_grants := gs\<rparr>) = Some (r, h')" "r \<noteq> None"
      "\<forall>p. r = Some p \<longrightarrow> (\<exists>a s. p = Sp a \<and> allocated (h\<lparr>os_grants := gs\<rparr>) n a s h')"
      using PageHeap_New_succeeds[OF ok q(2), of sample_env] g(2,3) q(3,4) by auto
    then show ?thesis by auto
  qed
  have huge: "\<exists>h'. New sample_env 300 h = Some (None, h')"
  proof -
    have "region_for 300 (os_grants h) = None" by (simp add: g(4))
    then show ?thesis using PageHeap_New_succeeds[OF g(1) _ g(2,3), of 300 sample_env] no by fastforce
  qed
  have os: "os_ok {} 0 [Some (1048576, 1638400)]" "os_ok {} 0 [None, Some (1048576, 409600)]"
    by (simp_all add: os_ok_def heap_budget_def grant_bytes_def)
  have e: "fst (pm3_Ensure page_bits (1048576 div kPageSize - 1) (1638400 div kPageSize + 2) (pagemap h))"
    "fst (pm3_Ensure page_bits (1048576 div kPageSize - 1) (409600 div kPageSize + 2) (pagemap h))"
    unfolding g(6) by (rule sample_Ensure_more)+
  have "\<exists>a s h'. New sample_env 200 (h\<lparr>os_grants := [Some (1048576, 1638400)]\<rparr>) = Some (Some (Sp a), h')"
    by (rule some[OF os(1) _ _ e(1)]) simp_all
  moreover have "\<exists>a s h'. New sample_env 50 (h\<lparr>os_grants := [None, Some (1048576, 409600)]\<rparr>) = Some (Some (Sp a), h')"
    by (rule some[OF os(2) _ _ e(2)]) simp_all
  ultimately have "fresh_heap h
     \<and> (\<exists>h'. New sample_env 300 h = Some (None, h'))
     \<and> (\<exists>a s h'. New sample_env 200 (h\<lparr>os_grants := [Some (1048576, 1638400)]\<rparr>) = Some (Some (Sp a), h'))
     \<and> (\<exists>a s h'. New sample_env 50 (h\<lparr>os_grants := [None, Some (1048576, 409600)]\<rparr>) = Some (Some (Sp a), h'))"
    using f huge by (intro conjI)
  then show ?thesis by (rule exI)
qed

text \<open>
  C16: freeing.  \<open>Delete\<close> of an allocated span keeps the heap consistent without a failed
  assertion; exactly its pages stop being in use, they lie in one free span afterwards together with
  any free neighbours of the same kind, memory may move from the normal to the returned lists but
  not back, and no other allocated span changes.
\<close>

theorem PageHeap_Delete_frees:
  assumes "heap_ok h" "spans h a = Some (s, l, IN_USE)" "detached (mem h) (Sp a)"
  shows "\<exists>h'. Delete env (Sp a) h = Some h' \<and> heap_ok h' \<and> cover (spans h') = cover (spans h)
    \<and> used_pages h' = used_pages h - {s..<s + l}
    \<and> normal_pages h' \<union> returned_pages h' = normal_pages h \<union> returned_pages h \<union> {s..<s + l}
    \<and> returned_pages h \<subseteq> returned_pages h'
    \<and> (\<exists>b t k d. free_span h' b t k d \<and> {s..<s + l} \<subseteq> {t..<t + k})
    \<and> (\<forall>b r k. b \<noteq> a \<longrightarrow> spans h b = Some (r, k, IN_USE) \<longrightarrow> mem h' (Sp b) = mem h (Sp b))"
proof -
  have H: "heap_at (cover (spans h)) h" using assms(1) by (simp add: heap_ok_def)
  obtain h' where h': "Delete env (Sp a) h = Some h'" "heap_at (cover (spans h)) h'"
    "used_pages h' = used_pages h - {s..<s + l}"
    "normal_pages h' \<union> returned_pages h' = normal_pages h \<union> returned_pages h \<union> {s..<s + l}"
    "returned_pages h \<subseteq> returned_pages h'"
    "\<forall>v. idle (spans h) v \<longrightarrow> v \<noteq> Sp a \<longrightarrow> idle (spans h') v \<and> mem h' v = mem h v"
    "\<exists>b t k d. free_span h' b t k d \<and> {s..<s + l} \<subseteq> {t..<t + k}"
    by (rule Delete_spec[OF H assms(2,3)]) (rule that)
  have "mem h' (Sp b) = mem h (Sp b)" if "b \<noteq> a" "spans h b = Some (r, k, IN_USE)" for b r k
    using h'(6) that by (simp add: idle_def)
  moreover have "cover (spans h') = cover (spans h)" using h'(2) by (simp add: heap_at_def)
  ultimately show ?thesis using h'(1,3-5,7) heap_at_ok[OF h'(2)] by blast
qed

theorem PageHeap_Delete_frees_witness:
  "\<exists>h a s h'. spans h a = Some (s, 3, IN_USE) \<and> Delete sample_env (Sp a) h = Some h'
     \<and> used_pages h' = used_pages h - {s..<s + 3}"
proof -
  obtain h0 where "fresh_heap h0" using fresh_heap_exists by blast
  then obtain a s h where h: "heap_ok h" "allocated h0 3 a s h" using fresh_New[of h0 3 sample_env] by auto
  then have "spans h a = Some (s, 3, IN_USE)" "detached (mem h) (Sp a)" by (auto simp: allocated_def)
  then show ?thesis using PageHeap_Delete_frees[OF h(1), of a s 3 sample_env] by blast
qed

text \<open>
  C17: lawful clients never crash the page heap.  Starting from a consistent heap, whatever sequence
  of \<open>New\<close>, \<open>Delete\<close>, \<open>Split\<close>, \<open>RegisterSizeClass\<close> and \<open>ReleaseAtLeastNPages\<close> calls a client makes
  that respects the \<open>REQUIRES\<close> clauses, and whatever the system answers: while metadata memory
  lasts, no assertion fails in the next lawful call; the heap stays consistent and coalesced, the
  spans the client owns are allocated and pairwise disjoint.
\<close>

theorem PageHeap_lawful_clients:
  assumes "heap_ok h0" "client_reach env h0 (O1, h)"
  shows "heap_ok h \<and> coalesced (spans h)
    \<and> (\<forall>a \<in> O1. \<exists>s l. spans h a = Some (s, l, IN_USE) \<and> {s..<s + l} \<subseteq> used_pages h)
    \<and> (\<forall>a \<in> O1. \<forall>b \<in> O1. a \<noteq> b \<longrightarrow> run_of (spans h) a \<inter> run_of (spans h) b = {})
    \<and> (\<forall>op. lawful op (O1, h) \<longrightarrow> has_room h \<longrightarrow> client_step env op (O1, h) \<noteq> None)"
proof -
  have ok: "client_ok (O1, h)" by (rule client_reach_ok[OF assms(2,1)])
  then have h: "heap_ok h" "owns O1 h" by (simp_all add: client_ok_def)
  obtain P L where I: "hinv {} P h L" using h(1) by (auto simp: heap_ok_def heap_at_def)
  note H = hinv_parts[OF I]
  have own: "\<exists>s l. spans h a = Some (s, l, IN_USE) \<and> {s..<s + l} \<subseteq> used_pages h" if a: "a \<in> O1" for a
  proof -
    obtain t :: span where "spans h a = Some (sp_start t, sp_length t, IN_USE)" using owned_span[OF h(2) a] by blast
    moreover then have "{sp_start t..<sp_start t + sp_length t} \<subseteq> used_pages h"
      using pages_of_remove[of "spans h" a _ _ IN_USE IN_USE] by simp
    ultimately show ?thesis by blast
  qed
  have disj: "run_of (spans h) a \<inter> run_of (spans h) b = {}" if ab: "a \<in> O1" "b \<in> O1" "a \<noteq> b" for a b
  proof -
    obtain s l t k where st: "spans h a = Some (s, l, IN_USE)" "spans h b = Some (t, k, IN_USE)"
      using own[OF ab(1)] own[OF ab(2)] by auto
    have "\<forall>a b s l c t k d. spans h a = Some (s, l, c) \<longrightarrow> spans h b = Some (t, k, d) \<longrightarrow> a \<noteq> b
        \<longrightarrow> s + l \<le> t \<or> t + k \<le> s" using H(3) unfolding descs_ok_def by (elim conjE)
    then have "s + l \<le> t \<or> t + k \<le> s" using st ab(3) by metis
    then show ?thesis using st by (auto simp: run_of_def)
  qed
  have "client_step env op (O1, h) \<noteq> None" if "lawful op (O1, h)" "has_room h" for op
    using client_step_ok[OF ok that, of env] by (elim exE conjE) simp
  then show ?thesis
    using h(1) H(4) own disj by (intro conjI ballI allI impI) simp_all
qed

theorem PageHeap_lawful_clients_witness:
  "\<exists>h0 a h. client_reach sample_env h0 ({a}, h) \<and> heap_ok h \<and> has_room h
     \<and> client_step sample_env (OpDelete a) ({a}, h) \<noteq> None"
proof -
  obtain h0 where f: "fresh_heap h0" using fresh_heap_exists by blast
  then obtain a h where h: "New sample_env 3 h0 = Some (Some (Sp a), h)" "has_room h"
    using fresh_New[of h0 3 sample_env] by auto
  have ok: "heap_ok h0" "has_room h0" using f unfolding fresh_heap_def by linarith+
  have "client_step sample_env (OpNew 3) ({}, h0) = Some ({a}, h)" using h(1) by simp
  from client_reach.step[OF client_reach.start _ ok(2) this]
  have r: "client_reach sample_env h0 ({a}, h)" by simp
  have "lawful (OpDelete a) ({a}, h)" by simp
  then show ?thesis using PageHeap_lawful_clients[OF ok(1) r] r h(2) by blast
qed

text \<open>
  C18: the accounting of the page heap.  Start from a heap the constructor built and let a client
  make any lawful sequence of \<open>New\<close>, \<open>Delete\<close>, \<open>Split\<close>, \<open>RegisterSizeClass\<close> and
  \<open>ReleaseAtLeastNPages\<close> calls.  Then \<open>free_bytes\<close> and \<open>unmapped_bytes\<close> are exactly the sizes of the
  pages on the normal and on the returned lists, and together with the pages in use they stay within
  \<open>system_bytes\<close>.  The walks \<open>GetSmallSpanStats\<close> and \<open>GetLargeSpanStats\<close> over the lists
  themselves end and give the same totals: the lengths of the small lists, weighted with their page
  counts, and the pages of the large lists add up to the two counters.
\<close>

theorem PageHeap_stats_exact:
  assumes "PageHeap_init (True # al) sa ta gs junk = Some h0"
    and "span_pool {} sa" "pool sizeof_StackTrace {} ta" "os_ok {} 0 gs"
    and "client_reach env h0 (O1, h)"
  shows "free_bytes h = kPageSize * card (normal_pages h) \<and> unmapped_bytes h = kPageSize * card (returned_pages h)
    \<and> kPageSize * card (used_pages h) + free_bytes h + unmapped_bytes h \<le> system_bytes h
    \<and> (\<exists>ns rs c np rp. GetSmallSpanStats h = Some (ns, rs) \<and> GetLargeSpanStats h = Some (c, np, rp)
        \<and> free_bytes h = kPageSize * ((\<Sum>k<kMaxPages. k * ns ! k) + np)
        \<and> unmapped_bytes h = kPageSize * ((\<Sum>k<kMaxPages. k * rs ! k) + rp))"
proof -
  have "heap_ok h0" using PageHeap_init_ok[OF assms(2-4), of al junk] assms(1) by (metis option.inject)
  with client_reach_ok[OF assms(5)] have ok: "heap_ok h" by (simp add: client_ok_def)
  show ?thesis using stats_now[OF ok] stats_walk[OF ok] by (elim conjE) (intro conjI; assumption)
qed

theorem PageHeap_stats_exact_witness:
  "\<exists>h0 a h. client_reach sample_env h0 ({a}, h) \<and> spans h a \<noteq> None
     \<and> free_bytes h = kPageSize * card (normal_pages h)
     \<and> (\<exists>ns rs c np rp. GetSmallSpanStats h = Some (ns, rs) \<and> GetLargeSpanStats h = Some (c, np, rp)
        \<and> free_bytes h = kPageSize * ((\<Sum>k<kMaxPages. k * ns ! k) + np))"
proof -
  obtain al sa ta junk h0 where i: "PageHeap_init (True # al) sa ta [Some (1048576, 1048576)] junk = Some h0"
    "span_pool {} sa" "pool sizeof_StackTrace {} ta" "os_ok {} 0 [Some (1048576, 1048576)]" and f: "fresh_heap h0"
    using built_heap_exists by blast
  obtain a s h where h: "New sample_env 3 h0 = Some (Some (Sp a), h)" "allocated h0 3 a s h"
    using fresh_New[OF f, of 3 sample_env] by auto
  have rm: "has_room h0" using f unfolding fresh_heap_def by linarith
  have "client_step sample_env (OpNew 3) ({}, h0) = Some ({a}, h)" using h(1) by simp
  from client_reach.step[OF client_reach.start _ rm this]
  have r: "client_reach sample_env h0 ({a}, h)" by simp
  have "spans h a \<noteq> None" using h(2) by (simp add: allocated_def)
  then show ?thesis using PageHeap_stats_exact[OF i r] r by blast
qed

text \<open>
  C25: releasing memory.  \<open>ReleaseAtLeastNPages num\<close> ends, keeps the heap consistent, and moves \<open>r\<close>
  pages from the normal to the returned spans, where \<open>r\<close> is its result; \<open>r\<close> is at least \<open>num\<close>
  unless every normal page has been released.  Pages in use are not touched.
\<close>

theorem ReleaseAtLeastNPages_releases:
  assumes "heap_ok h"
  shows "\<exists>r h'. ReleaseAtLeastNPages num h = Some (r, h') \<and> heap_ok h' \<and> used_pages h' = used_pages h
    \<and> normal_pages h' \<subseteq> normal_pages h \<and> card (normal_pages h) = card (normal_pages h') + r
    \<and> returned_pages h' = returned_pages h \<union> (normal_pages h - normal_pages h')
    \<and> (num \<le> r \<or> normal_pages h' = {})"
proof -
  have H: "heap_at (cover (spans h)) h" using assms by (simp add: heap_ok_def)
  obtain r h' where "ReleaseAtLeastNPages num h = Some (r, h')" "heap_at (cover (spans h)) h'" "released h h'"
    "card (normal_pages h) = card (normal_pages h') + r" "num \<le> r \<or> normal_pages h' = {}"
    by (rule ReleaseAtLeastNPages_spec[OF H]) (rule that)
  then show ?thesis using releasedD(1-3)[of h h'] heap_at_ok by blast
qed

theorem ReleaseAtLeastNPages_releases_witness:
  "\<exists>h a s r h'. allocated h 3 a s h' \<and> ReleaseAtLeastNPages 1 h' = Some r"
proof -
  obtain h0 where "fresh_heap h0" using fresh_heap_exists by blast
  then obtain a s h where "heap_ok h" "allocated h0 3 a s h" using fresh_New[of h0 3 sample_env] by auto
  then show ?thesis using ReleaseAtLeastNPages_releases[of h 1] by blast
qed

text \<open>
  Splitting.  \<open>Split\<close> cuts an allocated span without a size class into two allocated spans, of
  \<open>n\<close> pages and of the rest, at adjacent runs of pages; nothing else changes.
\<close>

theorem PageHeap_Split_splits:
  assumes "heap_ok h" "mem h (Sp a) = Some t" "sp_location t = IN_USE" "sp_sizeclass t = 0"
    and "0 < n" "n < sp_length t" "0 < room h"
  shows "\<exists>b h'. Split (Sp a) n h = Some (Sp b, h') \<and> heap_ok h' \<and> mem h (Sp b) = None
    \<and> spans h' = (spans h)(a \<mapsto> (sp_start t, n, IN_USE), b \<mapsto> (sp_start t + n, sp_length t - n, IN_USE))
    \<and> (\<forall>v. v \<noteq> Sp a \<longrightarrow> v \<noteq> Sp b \<longrightarrow> mem h' v = mem h v)
    \<and> free_bytes h' = free_bytes h \<and> unmapped_bytes h' = unmapped_bytes h"
proof -
  have H: "heap_at (cover (spans h)) h" using assms(1) by (simp add: heap_ok_def)
  obtain b h' where h': "Split (Sp a) n h = Some (Sp b, h')" "heap_at (cover (spans h)) h'" "mem h (Sp b) = None"
    "spans h' = (spans h)(a \<mapsto> (sp_start t, n, IN_USE), b \<mapsto> (sp_start t + n, sp_length t - n, IN_USE))"
    "mem h' = (mem h)(Sp a \<mapsto> t\<lparr>sp_length := n\<rparr>,
       Sp b \<mapsto> zero_span\<lparr>sp_start := sp_start t + n, sp_length := sp_length t - n\<rparr>)"
    by (rule Split_ok[OF H assms(2-7)]) (rule that)
  have b: "spans h b = None" "b \<noteq> a" using h'(3) assms(2) by (auto simp: desc_def)
  have a: "spans h a = Some (sp_start t, sp_length t, IN_USE)" using assms(2,3) by (simp add: desc_def)
  obtain L where I: "hinv {} (cover (spans h)) h L" using H by (auto simp: heap_at_def)
  have eq: "(spans h)(a \<mapsto> x) = ((spans h)(a := None))(a \<mapsto> x)" for x by simp
  have "pages_of c (spans h') = pages_of c (spans h)" if c: "c \<noteq> IN_USE" for c
  proof -
    have "pages_of c (spans h') = pages_of c ((spans h)(a \<mapsto> (sp_start t, n, IN_USE)))"
      unfolding h'(4) by (subst pages_of_insert) (use b c in auto)
    also have "\<dots> = pages_of c ((spans h)(a := None))"
      unfolding eq by (subst pages_of_insert) (use c in auto)
    also have "\<dots> = pages_of c (spans h)"
      using pages_of_diff[of _ "spans h" a _ _ IN_USE c, OF hinv_parts(3)[OF I] a] c by simp
    finally show ?thesis .
  qed
  then have "free_bytes h' = free_bytes h \<and> unmapped_bytes h' = unmapped_bytes h"
    using heap_at_bytes[OF H] heap_at_bytes[OF h'(2)] by simp
  then show ?thesis using h' heap_at_ok[OF h'(2)] by (intro exI[of _ b] exI[of _ h']) simp
qed

theorem PageHeap_Split_splits_witness:
  "\<exists>h a b t h'. mem h (Sp a) = Some t \<and> sp_length t = 3 \<and> Split (Sp a) 1 h = Some (Sp b, h') \<and> heap_ok h'"
proof -
  obtain h0 where f: "fresh_heap h0" using fresh_heap_exists by blast
  then obtain a s h where h: "New sample_env 3 h0 = Some (Some (Sp a), h)" "heap_ok h" "allocated h0 3 a s h" "has_room h"
    using fresh_New[of h0 3 sample_env] by auto
  obtain t where t: "mem h (Sp a) = Some t" "sp_length t = 3" "sp_location t = IN_USE"
    using h(3) by (auto simp: allocated_def desc_Some)
  obtain h1 where h1: "RegisterSizeClass (Sp a) 0 h = Some h1" "heap_at (cover (spans h)) h1"
    "mem h1 = (mem h)(Sp a \<mapsto> t\<lparr>sp_sizeclass := 0 mod 256\<rparr>)" "room h1 = room h"
    using RegisterSizeClass_ok[OF _ t(1,3), of "cover (spans h)" 0] h(2) unfolding heap_ok_def by metis
  have "mem h1 (Sp a) = Some (t\<lparr>sp_sizeclass := 0\<rparr>)" "0 < room h1" using h1(3,4) h(4) by simp_all
  then show ?thesis
    using PageHeap_Split_splits[OF heap_at_ok[OF h1(2)], of a "t\<lparr>sp_sizeclass := 0\<rparr>" 1] t by fastforce
qed

text \<open>
  Size classes.  \<open>RegisterSizeClass\<close> records the class in the span and makes every page of the
  span, the interior ones included, lead to it; the entries of other pages stay.
\<close>

theorem RegisterSizeClass_maps_all_pages:
  assumes "heap_ok h" "mem h (Sp a) = Some t" "sp_location t = IN_USE" "sc < 256"
  shows "\<exists>h'. RegisterSizeClass (Sp a) sc h = Some h' \<and> heap_ok h' \<and> spans h' = spans h
    \<and> mem h' = (mem h)(Sp a \<mapsto> t\<lparr>sp_sizeclass := sc\<rparr>)
    \<and> (\<forall>j. GetDescriptor h' j =
         (if j \<in> {sp_start t..<sp_start t + sp_length t} then Some (Sp a) else GetDescriptor h j))"
proof -
  have H: "heap_at (cover (spans h)) h" using assms(1) by (simp add: heap_ok_def)
  obtain h' where h': "RegisterSizeClass (Sp a) sc h = Some h'" "heap_at (cover (spans h)) h'" "spans h' = spans h"
    "mem h' = (mem h)(Sp a \<mapsto> t\<lparr>sp_sizeclass := sc mod 256\<rparr>)"
    "\<forall>j. GetDescriptor h' j = (if j \<in> {sp_start t..<sp_start t + sp_length t} then Some (Sp a) else GetDescriptor h j)"
    by (rule RegisterSizeClass_ok[OF H assms(2,3), of sc]) (rule that)
  have "sc mod 256 = sc" using assms(4) by simp
  then show ?thesis using h'(1,3-5) heap_at_ok[OF h'(2)] by (intro exI[of _ h']) simp
qed

theorem RegisterSizeClass_maps_all_pages_witness:
  "\<exists>h a (t :: span) h'. sp_length t = 3 \<and> RegisterSizeClass (Sp a) 7 h = Some h'
     \<and> GetDescriptor h' (sp_start t + 1) = Some (Sp a)"
proof -
  obtain h0 where f: "fresh_heap h0" using fresh_heap_exists by blast
  then obtain a s h where h: "heap_ok h" "allocated h0 3 a s h"
    using fresh_New[of h0 3 sample_env] by auto
  then obtain t where t: "mem h (Sp a) = Some t" "sp_length t = 3" "sp_location t = IN_USE"
    unfolding allocated_def desc_Some by auto
  obtain h' where h': "RegisterSizeClass (Sp a) 7 h = Some h'"
    "\<forall>j. GetDescriptor h' j =
         (if j \<in> {sp_start t..<sp_start t + sp_length t} then Some (Sp a) else GetDescriptor h j)"
    using RegisterSizeClass_maps_all_pages[OF h(1) t(1,3), of 7] by auto
  then have "GetDescriptor h' (sp_start t + 1) = Some (Sp a)" using t(2) by simp
  then show ?thesis using h'(1) t(2) by blast
qed

text \<open>
  The statistics of the free lists.  \<open>GetSmallSpanStats\<close> gives, per length below
  \<open>kMaxPages\<close>, the numbers of normal and of returned free spans of that length;
  \<open>GetLargeSpanStats\<close> the number of free spans of at least \<open>kMaxPages\<close> pages and the
  numbers of pages in the normal and in the returned ones.
\<close>

theorem PageHeap_span_stats:
  assumes "heap_ok h"
  shows "GetSmallSpanStats h = Some (map (span_count h ON_NORMAL_FREELIST) [0..<kMaxPages],
       map (span_count h ON_RETURNED_FREELIST) [0..<kMaxPages])
    \<and> GetLargeSpanStats h = Some (card (large h ON_NORMAL_FREELIST) + card (large h ON_RETURNED_FREELIST),
       card (large_pages h ON_NORMAL_FREELIST), card (large_pages h ON_RETURNED_FREELIST))"
  using GetSmallSpanStats_ok[OF assms] GetLargeSpanStats_ok[OF assms] by blast

theorem PageHeap_span_stats_witness:
  "\<exists>h. fresh_heap h \<and> GetLargeSpanStats h = Some (0, 0, 0)"
proof -
  obtain h where f: "fresh_heap h" using fresh_heap_exists by blast
  then have "heap_ok h" "spans h = Map.empty" by (simp_all add: fresh_heap_def)
  then show ?thesis using PageHeap_span_stats[of h] f by (auto simp: large_def large_pages_def)
qed

text \<open>
  Walking over the ranges.  From page 0 or from the end of a range, \<open>GetNextRange\<close> reports the
  next span in address order with its address, size and state, and nothing exactly when every span
  has been reported; although the page map also holds stale entries of merged spans, the walk never
  meets one.
\<close>

theorem GetNextRange_walks:
  assumes "heap_ok h" "boundary h k"
  shows "(GetNextRange sm k h = Some None \<and> (\<forall>a s l c. spans h a = Some (s, l, c) \<longrightarrow> s + l \<le> k))
    \<or> (\<exists>r a s l c. GetNextRange sm k h = Some (Some r) \<and> spans h a = Some (s, l, c) \<and> k \<le> s
        \<and> (\<forall>b t m d. spans h b = Some (t, m, d) \<longrightarrow> k \<le> t \<longrightarrow> s \<le> t)
        \<and> mr_address r = kPageSize * s \<and> mr_length r = kPageSize * l \<and> mr_type r = span_type c
        \<and> (c \<noteq> IN_USE \<longrightarrow> mr_fraction r = 0) \<and> boundary h (s + l))"
  by (rule GetNextRange_ok[OF assms])

theorem GetNextRange_walks_witness:
  "\<exists>h r sm. heap_ok h \<and> used_pages h \<noteq> {} \<and> boundary h 0 \<and> GetNextRange sm 0 h = Some (Some r)"
proof -
  obtain h0 where f: "fresh_heap h0" using fresh_heap_exists by blast
  then obtain a s h where h: "heap_ok h" "allocated h0 3 a s h"
    using fresh_New[of h0 3 sample_env] by auto
  have b: "boundary h 0" by (simp add: boundary_def)
  have a: "spans h a = Some (s, 3, IN_USE)" using h(2) by (simp add: allocated_def)
  then have "s \<in> used_pages h" using pages_of_remove[of "spans h" a s 3 IN_USE IN_USE] by simp
  moreover have "\<not> (\<forall>a s l c. spans h a = Some (s, l, c) \<longrightarrow> s + l \<le> 0)" using a by fastforce
  ultimately show ?thesis using GetNextRange_walks[OF h(1) b, of undefined] h(1) b by blast
qed

text \<open>
  The expensive check passes on every consistent heap none of whose free spans exceeds the bound
  of \<open>CheckList\<close>, one thousand million pages: lengths, locations and both page-map entries of every
  span on every list are right.
\<close>

theorem CheckExpensive_passes:
  assumes "heap_ok h" "\<forall>a s l c. free_span h a s l c \<longrightarrow> l \<le> 1000000000"
  shows "CheckExpensive h = Some True"
  by (rule CheckExpensive_ok[OF assms])

theorem CheckExpensive_passes_witness:
  "\<exists>h. fresh_heap h \<and> CheckExpensive h = Some True"
proof -
  obtain h where f: "fresh_heap h" using fresh_heap_exists by blast
  then have "heap_ok h" "\<forall>a s l c. free_span h a s l c \<longrightarrow> l \<le> 1000000000"
    by (simp_all add: fresh_heap_def free_span_def)
  then show ?thesis using CheckExpensive_passes f by blast
qed

text \<open>
  The constructor gives a consistent, empty heap whose size-class cache is empty, for every set
  of regions that the system may hand out within the address space.
\<close>

theorem PageHeap_constructor:
  assumes "pool sizeof_Span {} sa" "pool sizeof_StackTrace {} ta" "os_ok {} 0 grants"
  shows "\<exists>h. PageHeap_init (True # al) sa ta grants junk = Some h \<and> heap_ok h \<and> spans h = Map.empty
     \<and> free_bytes h = 0 \<and> unmapped_bytes h = 0 \<and> system_bytes h = 0"
proof -
  obtain h where h: "PageHeap_init (True # al) sa ta grants junk = Some h" "heap_ok h" "spans h = Map.empty"
    "system_bytes h = 0"
    by (rule PageHeap_init_ok[OF pool_span[OF assms(1)] assms(2,3), of al junk]) (rule that)
  have "heap_at (cover (spans h)) h" using h(2) by (simp add: heap_ok_def)
  then show ?thesis using h heap_at_bytes by (intro exI[of _ h]) (simp add: pages_of_def)
qed

theorem PageHeap_constructor_witness:
  "\<exists>sa ta h. PageHeap_init [True] sa ta [Some (1048576, 1048576)] (\<lambda>_. 0) = Some h \<and> heap_ok h"
proof -
  obtain sa ta where a: "pool sizeof_Span {} sa" "pool sizeof_StackTrace {} ta"
    using sample_pool[of sizeof_Span] sample_pool[of sizeof_StackTrace] by auto
  have "os_ok {} 0 [Some (1048576, 1048576)]"
    by (simp add: os_ok_def heap_budget_def grant_bytes_def)
  then show ?thesis using PageHeap_constructor[OF a, of _ "[]" "\<lambda>_. 0"] by blast
qed

end
