(* ===== verification/OpcodeMap.thy ===== *)
theory OpcodeMap
  imports Prelude "HOL-Library.Word"
begin

unbundle bit_operations_syntax

text \<open>
  The types and the opcode tables of the small IA-32 disassembler that the preamble patcher uses
  (\<open>windows/mini_disassembler_types.h\<close>, \<open>windows/ia32_opcode_map.cc\<close>).  An \<open>Opcode\<close> holds a
  \<open>SpecificOpcode\<close> and three alternatives for the prefixes F2, F3 and 66; a null mnemonic is
  \<open>None\<close>.  Operand flags are the 32-bit patterns of the enumerations.  The preprocessor symbol
  \<open>_M_X64\<close> is the parameter \<open>x64\<close>.
\<close>

section \<open>Types\<close>

datatype InstructionType =
    IT_UNUSED | IT_UNKNOWN | IT_REFERENCE | IT_PREFIX | IT_PREFIX_ADDRESS | IT_PREFIX_OPERAND
  | IT_JUMP | IT_RETURN | IT_GENERIC

definition OS_ZERO :: nat where [simp]: "OS_ZERO = 0"
definition OS_BYTE :: nat where [simp]: "OS_BYTE = 1"
definition OS_WORD :: nat where [simp]: "OS_WORD = 2"
definition OS_DOUBLE_WORD :: nat where [simp]: "OS_DOUBLE_WORD = 4"
definition OS_QUAD_WORD :: nat where [simp]: "OS_QUAD_WORD = 8"
definition OS_DOUBLE_QUAD_WORD :: nat where [simp]: "OS_DOUBLE_QUAD_WORD = 16"
definition OS_32_BIT_POINTER :: nat where [simp]: "OS_32_BIT_POINTER = 4"
definition OS_48_BIT_POINTER :: nat where [simp]: "OS_48_BIT_POINTER = 6"
definition OS_DOUBLE_PRECISION_FLOATING :: nat where [simp]: "OS_DOUBLE_PRECISION_FLOATING = 8"
definition OS_128_BIT_PACKED_SINGLE_PRECISION_FLOATING :: nat where
  [simp]: "OS_128_BIT_PACKED_SINGLE_PRECISION_FLOATING = 16"
definition OS_PSEUDO_DESCRIPTOR :: nat where [simp]: "OS_PSEUDO_DESCRIPTOR = 6"

definition AM_NOT_USED :: nat where [simp]: "AM_NOT_USED = 0"
definition AM_MASK :: nat where [simp]: "AM_MASK = 0x00FF0000"
definition AM_A :: nat where [simp]: "AM_A = 0x00010000"
definition AM_C :: nat where [simp]: "AM_C = 0x00020000"
definition AM_D :: nat where [simp]: "AM_D = 0x00030000"
definition AM_E :: nat where [simp]: "AM_E = 0x00040000"
definition AM_F :: nat where [simp]: "AM_F = 0x00050000"
definition AM_G :: nat where [simp]: "AM_G = 0x00060000"
definition AM_I :: nat where [simp]: "AM_I = 0x00070000"
definition AM_J :: nat where [simp]: "AM_J = 0x00080000"
definition AM_M :: nat where [simp]: "AM_M = 0x00090000"
definition AM_O :: nat where [simp]: "AM_O = 0x000A0000"
definition AM_P :: nat where [simp]: "AM_P = 0x000B0000"
definition AM_Q :: nat where [simp]: "AM_Q = 0x000C0000"
definition AM_R :: nat where [simp]: "AM_R = 0x000D0000"
definition AM_S :: nat where [simp]: "AM_S = 0x000E0000"
definition AM_T :: nat where [simp]: "AM_T = 0x000F0000"
definition AM_V :: nat where [simp]: "AM_V = 0x00100000"
definition AM_W :: nat where [simp]: "AM_W = 0x00110000"
definition AM_X :: nat where [simp]: "AM_X = 0x00120000"
definition AM_Y :: nat where [simp]: "AM_Y = 0x00130000"
definition AM_REGISTER :: nat where [simp]: "AM_REGISTER = 0x00140000"
definition AM_IMPLICIT :: nat where [simp]: "AM_IMPLICIT = 0x00150000"

definition OT_MASK :: nat where [simp]: "OT_MASK = 0xFF000000"
definition OT_A :: nat where [simp]: "OT_A = 0x01000000"
definition OT_B :: nat where [simp]: "OT_B = 0x02000000"
definition OT_C :: nat where [simp]: "OT_C = 0x03000000"
definition OT_D :: nat where [simp]: "OT_D = 0x04000000"
definition OT_DQ :: nat where [simp]: "OT_DQ = 0x05000000"
definition OT_P :: nat where [simp]: "OT_P = 0x06000000"
definition OT_PI :: nat where [simp]: "OT_PI = 0x07000000"
definition OT_PS :: nat where [simp]: "OT_PS = 0x08000000"
definition OT_Q :: nat where [simp]: "OT_Q = 0x09000000"
definition OT_S :: nat where [simp]: "OT_S = 0x0A000000"
definition OT_SS :: nat where [simp]: "OT_SS = 0x0B000000"
definition OT_SI :: nat where [simp]: "OT_SI = 0x0C000000"
definition OT_V :: nat where [simp]: "OT_V = 0x0D000000"
definition OT_W :: nat where [simp]: "OT_W = 0x0E000000"
definition OT_SD :: nat where [simp]: "OT_SD = 0x0F000000"
definition OT_PD :: nat where [simp]: "OT_PD = 0x10000000"
definition OT_ADDRESS_MODE_M :: nat where [simp]: "OT_ADDRESS_MODE_M = 0x80000000"

definition IOS_64 :: nat where [simp]: "IOS_64 = 0x00001000"

record specific_opcode =
  so_table_index :: nat
  so_type :: InstructionType
  so_flag_dest :: nat
  so_flag_source :: nat
  so_flag_aux :: nat
  so_mnemonic :: "string option"

record opcode =
  op_base :: specific_opcode
  op_is_prefix_dependent :: bool
  op_if_f2_prefix :: specific_opcode
  op_if_f3_prefix :: specific_opcode
  op_if_66_prefix :: specific_opcode

record opcode_table =
  ot_table :: "opcode list"
  ot_shift :: nat
  ot_mask :: nat
  ot_min_lim :: nat
  ot_max_lim :: nat

definition specific :: "nat \<Rightarrow> InstructionType \<Rightarrow> nat \<Rightarrow> nat \<Rightarrow> nat \<Rightarrow> string option \<Rightarrow> specific_opcode" where
  "specific i ty d s a m = \<lparr>so_table_index = i, so_type = ty, so_flag_dest = d, so_flag_source = s,
     so_flag_aux = a, so_mnemonic = m\<rparr>"

text \<open>\<open>{ 0 }\<close>: all fields are zero.\<close>

definition NO_OPCODE :: specific_opcode where
  "NO_OPCODE = specific 0 IT_UNUSED 0 0 0 None"

definition op_entry :: "nat \<Rightarrow> InstructionType \<Rightarrow> nat \<Rightarrow> nat \<Rightarrow> nat \<Rightarrow> string option \<Rightarrow> opcode" where
  "op_entry i ty d s a m = \<lparr>op_base = specific i ty d s a m, op_is_prefix_dependent = False,
     op_if_f2_prefix = NO_OPCODE, op_if_f3_prefix = NO_OPCODE, op_if_66_prefix = NO_OPCODE\<rparr>"

definition prefixed :: "nat \<Rightarrow> InstructionType \<Rightarrow> nat \<Rightarrow> nat \<Rightarrow> nat \<Rightarrow> string option
    \<Rightarrow> specific_opcode \<Rightarrow> specific_opcode \<Rightarrow> specific_opcode \<Rightarrow> opcode" where
  "prefixed i ty d s a m f2 f3 o66 = \<lparr>op_base = specific i ty d s a m, op_is_prefix_dependent = True,
     op_if_f2_prefix = f2, op_if_f3_prefix = f3, op_if_66_prefix = o66\<rparr>"

definition table :: "opcode list \<Rightarrow> nat \<Rightarrow> nat \<Rightarrow> nat \<Rightarrow> nat \<Rightarrow> opcode_table" where
  "table t sh mk lo hi = \<lparr>ot_table = t, ot_shift = sh, ot_mask = mk, ot_min_lim = lo, ot_max_lim = hi\<rparr>"

section \<open>The tables\<close>

definition first_00_3f :: "opcode list" where
  "first_00_3f = [
     op_entry 0 IT_GENERIC (AM_E OR OT_B) (AM_G OR OT_B) AM_NOT_USED (Some ''add''),
     op_entry 0 IT_GENERIC (AM_E OR OT_V) (AM_G OR OT_V) AM_NOT_USED (Some ''add''),
     op_entry 0 IT_GENERIC (AM_G OR OT_B) (AM_E OR OT_B) AM_NOT_USED (Some ''add''),
     op_entry 0 IT_GENERIC (AM_G OR OT_V) (AM_E OR OT_V) AM_NOT_USED (Some ''add''),
     op_entry 0 IT_GENERIC (AM_REGISTER OR OT_B) (AM_I OR OT_B) AM_NOT_USED (Some ''add''),
     op_entry 0 IT_GENERIC (AM_REGISTER OR OT_V) (AM_I OR OT_V) AM_NOT_USED (Some ''add''),
     op_entry 0 IT_GENERIC (AM_REGISTER OR OT_W) AM_NOT_USED AM_NOT_USED (Some ''push''),
     op_entry 0 IT_GENERIC (AM_REGISTER OR OT_W) AM_NOT_USED AM_NOT_USED (Some ''pop''),
     op_entry 0 IT_GENERIC (AM_E OR OT_B) (AM_G OR OT_B) AM_NOT_USED (Some ''or''),
     op_entry 0 IT_GENERIC (AM_E OR OT_V) (AM_G OR OT_V) AM_NOT_USED (Some ''or''),
     op_entry 0 IT_GENERIC (AM_G OR OT_B) (AM_E OR OT_B) AM_NOT_USED (Some ''or''),
     op_entry 0 IT_GENERIC (AM_G OR OT_V) (AM_E OR OT_V) AM_NOT_USED (Some ''or''),
     op_entry 0 IT_GENERIC (AM_REGISTER OR OT_B) (AM_I OR OT_B) AM_NOT_USED (Some ''or''),
     op_entry 0 IT_GENERIC (AM_REGISTER OR OT_V) (AM_I OR OT_V) AM_NOT_USED (Some ''or''),
     op_entry 0 IT_GENERIC (AM_REGISTER OR OT_W) AM_NOT_USED AM_NOT_USED (Some ''push''),
     op_entry 1 IT_REFERENCE AM_NOT_USED AM_NOT_USED AM_NOT_USED None,
     op_entry 0 IT_GENERIC (AM_E OR OT_B) (AM_G OR OT_B) AM_NOT_USED (Some ''adc''),
     op_entry 0 IT_GENERIC (AM_E OR OT_V) (AM_G OR OT_V) AM_NOT_USED (Some ''adc''),
     op_entry 0 IT_GENERIC (AM_G OR OT_B) (AM_E OR OT_B) AM_NOT_USED (Some ''adc''),
     op_entry 0 IT_GENERIC (AM_G OR OT_V) (AM_E OR OT_V) AM_NOT_USED (Some ''adc''),
     op_entry 0 IT_GENERIC (AM_REGISTER OR OT_B) (AM_I OR OT_B) AM_NOT_USED (Some ''adc''),
     op_entry 0 IT_GENERIC (AM_REGISTER OR OT_V) (AM_I OR OT_V) AM_NOT_USED (Some ''adc''),
     op_entry 0 IT_GENERIC (AM_REGISTER OR OT_W) AM_NOT_USED AM_NOT_USED (Some ''push''),
     op_entry 0 IT_GENERIC (AM_REGISTER OR OT_W) AM_NOT_USED AM_NOT_USED (Some ''pop''),
     op_entry 0 IT_GENERIC (AM_E OR OT_B) (AM_G OR OT_B) AM_NOT_USED (Some ''sbb''),
     op_entry 0 IT_GENERIC (AM_E OR OT_V) (AM_G OR OT_V) AM_NOT_USED (Some ''sbb''),
     op_entry 0 IT_GENERIC (AM_G OR OT_B) (AM_E OR OT_B) AM_NOT_USED (Some ''sbb''),
     op_entry 0 IT_GENERIC (AM_G OR OT_V) (AM_E OR OT_V) AM_NOT_USED (Some ''sbb''),
     op_entry 0 IT_GENERIC (AM_REGISTER OR OT_B) (AM_I OR OT_B) AM_NOT_USED (Some ''sbb''),
     op_entry 0 IT_GENERIC (AM_REGISTER OR OT_V) (AM_I OR OT_V) AM_NOT_USED (Some ''sbb''),
     op_entry 0 IT_GENERIC (AM_REGISTER OR OT_W) AM_NOT_USED AM_NOT_USED (Some ''push''),
     op_entry 0 IT_GENERIC (AM_REGISTER OR OT_W) AM_NOT_USED AM_NOT_USED (Some ''pop''),
     op_entry 0 IT_GENERIC (AM_E OR OT_B) (AM_G OR OT_B) AM_NOT_USED (Some ''and''),
     op_entry 0 IT_GENERIC (AM_E OR OT_V) (AM_G OR OT_V) AM_NOT_USED (Some ''and''),
     op_entry 0 IT_GENERIC (AM_G OR OT_B) (AM_E OR OT_B) AM_NOT_USED (Some ''and''),
     op_entry 0 IT_GENERIC (AM_G OR OT_V) (AM_E OR OT_V) AM_NOT_USED (Some ''and''),
     op_entry 0 IT_GENERIC (AM_REGISTER OR OT_B) (AM_I OR OT_B) AM_NOT_USED (Some ''and''),
     op_entry 0 IT_GENERIC (AM_REGISTER OR OT_V) (AM_I OR OT_V) AM_NOT_USED (Some ''and''),
     op_entry 0 IT_PREFIX AM_NOT_USED AM_NOT_USED AM_NOT_USED None,
     op_entry 0 IT_GENERIC AM_NOT_USED AM_NOT_USED AM_NOT_USED (Some ''daa''),
     op_entry 0 IT_GENERIC (AM_E OR OT_B) (AM_G OR OT_B) AM_NOT_USED (Some ''sub''),
     op_entry 0 IT_GENERIC (AM_E OR OT_V) (AM_G OR OT_V) AM_NOT_USED (Some ''sub''),
     op_entry 0 IT_GENERIC (AM_G OR OT_B) (AM_E OR OT_B) AM_NOT_USED (Some ''sub''),
     op_entry 0 IT_GENERIC (AM_G OR OT_V) (AM_E OR OT_V) AM_NOT_USED (Some ''sub''),
     op_entry 0 IT_GENERIC (AM_REGISTER OR OT_B) (AM_I OR OT_B) AM_NOT_USED (Some ''sub''),
     op_entry 0 IT_GENERIC (AM_REGISTER OR OT_V) (AM_I OR OT_V) AM_NOT_USED (Some ''sub''),
     op_entry 0 IT_PREFIX AM_NOT_USED AM_NOT_USED AM_NOT_USED None,
     op_entry 0 IT_GENERIC AM_NOT_USED AM_NOT_USED AM_NOT_USED (Some ''das''),
     op_entry 0 IT_GENERIC (AM_E OR OT_B) (AM_G OR OT_B) AM_NOT_USED (Some ''xor''),
     op_entry 0 IT_GENERIC (AM_E OR OT_V) (AM_G OR OT_V) AM_NOT_USED (Some ''xor''),
     op_entry 0 IT_GENERIC (AM_G OR OT_B) (AM_E OR OT_B) AM_NOT_USED (Some ''xor''),
     op_entry 0 IT_GENERIC (AM_G OR OT_V) (AM_E OR OT_V) AM_NOT_USED (Some ''xor''),
     op_entry 0 IT_GENERIC (AM_REGISTER OR OT_B) (AM_I OR OT_B) AM_NOT_USED (Some ''xor''),
     op_entry 0 IT_GENERIC (AM_REGISTER OR OT_V) (AM_I OR OT_V) AM_NOT_USED (Some ''xor''),
     op_entry 0 IT_PREFIX AM_NOT_USED AM_NOT_USED AM_NOT_USED None,
     op_entry 0 IT_GENERIC AM_NOT_USED AM_NOT_USED AM_NOT_USED (Some ''aaa''),
     op_entry 0 IT_GENERIC (AM_E OR OT_B) (AM_G OR OT_B) AM_NOT_USED (Some ''cmp''),
     op_entry 0 IT_GENERIC (AM_E OR OT_V) (AM_G OR OT_V) AM_NOT_USED (Some ''cmp''),
     op_entry 0 IT_GENERIC (AM_G OR OT_B) (AM_E OR OT_B) AM_NOT_USED (Some ''cmp''),
     op_entry 0 IT_GENERIC (AM_G OR OT_V) (AM_E OR OT_V) AM_NOT_USED (Some ''cmp''),
     op_entry 0 IT_GENERIC (AM_REGISTER OR OT_B) (AM_I OR OT_B) AM_NOT_USED (Some ''cmp''),
     op_entry 0 IT_GENERIC (AM_REGISTER OR OT_V) (AM_I OR OT_V) AM_NOT_USED (Some ''cmp''),
     op_entry 0 IT_PREFIX AM_NOT_USED AM_NOT_USED AM_NOT_USED None,
     op_entry 0 IT_GENERIC AM_NOT_USED AM_NOT_USED AM_NOT_USED (Some ''aas'')]"

definition first_40_4f_x64 :: "opcode list" where
  "first_40_4f_x64 = [
     op_entry 0 IT_PREFIX AM_NOT_USED AM_NOT_USED AM_NOT_USED None,
     op_entry 0 IT_PREFIX AM_NOT_USED AM_NOT_USED AM_NOT_USED None,
     op_entry 0 IT_PREFIX AM_NOT_USED AM_NOT_USED AM_NOT_USED None,
     op_entry 0 IT_PREFIX AM_NOT_USED AM_NOT_USED AM_NOT_USED None,
     op_entry 0 IT_PREFIX AM_NOT_USED AM_NOT_USED AM_NOT_USED None,
     op_entry 0 IT_PREFIX AM_NOT_USED AM_NOT_USED AM_NOT_USED None,
     op_entry 0 IT_PREFIX AM_NOT_USED AM_NOT_USED AM_NOT_USED None,
     op_entry 0 IT_PREFIX AM_NOT_USED AM_NOT_USED AM_NOT_USED None,
     op_entry 0 IT_PREFIX AM_NOT_USED AM_NOT_USED AM_NOT_USED None,
     op_entry 0 IT_PREFIX AM_NOT_USED AM_NOT_USED AM_NOT_USED None,
     op_entry 0 IT_PREFIX AM_NOT_USED AM_NOT_USED AM_NOT_USED None,
     op_entry 0 IT_PREFIX AM_NOT_USED AM_NOT_USED AM_NOT_USED None,
     op_entry 0 IT_PREFIX AM_NOT_USED AM_NOT_USED AM_NOT_USED None,
     op_entry 0 IT_PREFIX AM_NOT_USED AM_NOT_USED AM_NOT_USED None,
     op_entry 0 IT_PREFIX AM_NOT_USED AM_NOT_USED AM_NOT_USED None,
     op_entry 0 IT_PREFIX AM_NOT_USED AM_NOT_USED AM_NOT_USED None]"

definition first_40_4f_x86 :: "opcode list" where
  "first_40_4f_x86 = [
     op_entry 0 IT_GENERIC (AM_REGISTER OR OT_V) AM_NOT_USED AM_NOT_USED (Some ''inc''),
     op_entry 0 IT_GENERIC (AM_REGISTER OR OT_V) AM_NOT_USED AM_NOT_USED (Some ''inc''),
     op_entry 0 IT_GENERIC (AM_REGISTER OR OT_V) AM_NOT_USED AM_NOT_USED (Some ''inc''),
     op_entry 0 IT_GENERIC (AM_REGISTER OR OT_V) AM_NOT_USED AM_NOT_USED (Some ''inc''),
     op_entry 0 IT_GENERIC (AM_REGISTER OR OT_V) AM_NOT_USED AM_NOT_USED (Some ''inc''),
     op_entry 0 IT_GENERIC (AM_REGISTER OR OT_V) AM_NOT_USED AM_NOT_USED (Some ''inc''),
     op_entry 0 IT_GENERIC (AM_REGISTER OR OT_V) AM_NOT_USED AM_NOT_USED (Some ''inc''),
     op_entry 0 IT_GENERIC (AM_REGISTER OR OT_V) AM_NOT_USED AM_NOT_USED (Some ''inc''),
     op_entry 0 IT_GENERIC (AM_REGISTER OR OT_V) AM_NOT_USED AM_NOT_USED (Some ''dec''),
     op_entry 0 IT_GENERIC (AM_REGISTER OR OT_V) AM_NOT_USED AM_NOT_USED (Some ''dec''),
     op_entry 0 IT_GENERIC (AM_REGISTER OR OT_V) AM_NOT_USED AM_NOT_USED (Some ''dec''),
     op_entry 0 IT_GENERIC (AM_REGISTER OR OT_V) AM_NOT_USED AM_NOT_USED (Some ''dec''),
     op_entry 0 IT_GENERIC (AM_REGISTER OR OT_V) AM_NOT_USED AM_NOT_USED (Some ''dec''),
     op_entry 0 IT_GENERIC (AM_REGISTER OR OT_V) AM_NOT_USED AM_NOT_USED (Some ''dec''),
     op_entry 0 IT_GENERIC (AM_REGISTER OR OT_V) AM_NOT_USED AM_NOT_USED (Some ''dec''),
     op_entry 0 IT_GENERIC (AM_REGISTER OR OT_V) AM_NOT_USED AM_NOT_USED (Some ''dec'')]"

definition first_50_b7 :: "opcode list" where
  "first_50_b7 = [
     op_entry 0 IT_GENERIC (AM_REGISTER OR OT_V) AM_NOT_USED AM_NOT_USED (Some ''push''),
     op_entry 0 IT_GENERIC (AM_REGISTER OR OT_V) AM_NOT_USED AM_NOT_USED (Some ''push''),
     op_entry 0 IT_GENERIC (AM_REGISTER OR OT_V) AM_NOT_USED AM_NOT_USED (Some ''push''),
     op_entry 0 IT_GENERIC (AM_REGISTER OR OT_V) AM_NOT_USED AM_NOT_USED (Some ''push''),
     op_entry 0 IT_GENERIC (AM_REGISTER OR OT_V) AM_NOT_USED AM_NOT_USED (Some ''push''),
     op_entry 0 IT_GENERIC (AM_REGISTER OR OT_V) AM_NOT_USED AM_NOT_USED (Some ''push''),
     op_entry 0 IT_GENERIC (AM_REGISTER OR OT_V) AM_NOT_USED AM_NOT_USED (Some ''push''),
     op_entry 0 IT_GENERIC (AM_REGISTER OR OT_V) AM_NOT_USED AM_NOT_USED (Some ''push''),
     op_entry 0 IT_GENERIC (AM_REGISTER OR OT_V) AM_NOT_USED AM_NOT_USED (Some ''pop''),
     op_entry 0 IT_GENERIC (AM_REGISTER OR OT_V) AM_NOT_USED AM_NOT_USED (Some ''pop''),
     op_entry 0 IT_GENERIC (AM_REGISTER OR OT_V) AM_NOT_USED AM_NOT_USED (Some ''pop''),
     op_entry 0 IT_GENERIC (AM_REGISTER OR OT_V) AM_NOT_USED AM_NOT_USED (Some ''pop''),
     op_entry 0 IT_GENERIC (AM_REGISTER OR OT_V) AM_NOT_USED AM_NOT_USED (Some ''pop''),
     op_entry 0 IT_GENERIC (AM_REGISTER OR OT_V) AM_NOT_USED AM_NOT_USED (Some ''pop''),
     op_entry 0 IT_GENERIC (AM_REGISTER OR OT_V) AM_NOT_USED AM_NOT_USED (Some ''pop''),
     op_entry 0 IT_GENERIC (AM_REGISTER OR OT_V) AM_NOT_USED AM_NOT_USED (Some ''pop''),
     op_entry 0 IT_GENERIC AM_NOT_USED AM_NOT_USED AM_NOT_USED (Some ''pushad''),
     op_entry 0 IT_GENERIC AM_NOT_USED AM_NOT_USED AM_NOT_USED (Some ''popad''),
     op_entry 0 IT_GENERIC (AM_G OR OT_V) (AM_M OR OT_A) AM_NOT_USED (Some ''bound''),
     op_entry 0 IT_GENERIC (AM_E OR OT_W) (AM_G OR OT_W) AM_NOT_USED (Some ''arpl''),
     op_entry 0 IT_PREFIX AM_NOT_USED AM_NOT_USED AM_NOT_USED None,
     op_entry 0 IT_PREFIX AM_NOT_USED AM_NOT_USED AM_NOT_USED None,
     op_entry 0 IT_PREFIX_OPERAND AM_NOT_USED AM_NOT_USED AM_NOT_USED None,
     op_entry 0 IT_PREFIX_ADDRESS AM_NOT_USED AM_NOT_USED AM_NOT_USED None,
     op_entry 0 IT_GENERIC (AM_I OR OT_V) AM_NOT_USED AM_NOT_USED (Some ''push''),
     op_entry 0 IT_GENERIC (AM_G OR OT_V) (AM_E OR OT_V) (AM_I OR OT_V) (Some ''imul''),
     op_entry 0 IT_GENERIC (AM_I OR OT_B) AM_NOT_USED AM_NOT_USED (Some ''push''),
     op_entry 0 IT_GENERIC (AM_G OR OT_V) (AM_E OR OT_V) (AM_I OR OT_B) (Some ''imul''),
     op_entry 0 IT_GENERIC (AM_Y OR OT_B) (AM_REGISTER OR OT_B) AM_NOT_USED (Some ''insb''),
     op_entry 0 IT_GENERIC (AM_Y OR OT_V) (AM_REGISTER OR OT_V) AM_NOT_USED (Some ''insd''),
     op_entry 0 IT_GENERIC (AM_REGISTER OR OT_B) (AM_X OR OT_B) AM_NOT_USED (Some ''outsb''),
     op_entry 0 IT_GENERIC (AM_REGISTER OR OT_V) (AM_X OR OT_V) AM_NOT_USED (Some ''outsb''),
     op_entry 0 IT_JUMP (AM_J OR OT_B) AM_NOT_USED AM_NOT_USED (Some ''jo''),
     op_entry 0 IT_JUMP (AM_J OR OT_B) AM_NOT_USED AM_NOT_USED (Some ''jno''),
     op_entry 0 IT_JUMP (AM_J OR OT_B) AM_NOT_USED AM_NOT_USED (Some ''jc''),
     op_entry 0 IT_JUMP (AM_J OR OT_B) AM_NOT_USED AM_NOT_USED (Some ''jnc''),
     op_entry 0 IT_JUMP (AM_J OR OT_B) AM_NOT_USED AM_NOT_USED (Some ''jz''),
     op_entry 0 IT_JUMP (AM_J OR OT_B) AM_NOT_USED AM_NOT_USED (Some ''jnz''),
     op_entry 0 IT_JUMP (AM_J OR OT_B) AM_NOT_USED AM_NOT_USED (Some ''jbe''),
     op_entry 0 IT_JUMP (AM_J OR OT_B) AM_NOT_USED AM_NOT_USED (Some ''ja''),
     op_entry 0 IT_JUMP (AM_J OR OT_B) AM_NOT_USED AM_NOT_USED (Some ''js''),
     op_entry 0 IT_JUMP (AM_J OR OT_B) AM_NOT_USED AM_NOT_USED (Some ''jns''),
     op_entry 0 IT_JUMP (AM_J OR OT_B) AM_NOT_USED AM_NOT_USED (Some ''jpe''),
     op_entry 0 IT_JUMP (AM_J OR OT_B) AM_NOT_USED AM_NOT_USED (Some ''jpo''),
     op_entry 0 IT_JUMP (AM_J OR OT_B) AM_NOT_USED AM_NOT_USED (Some ''jl''),
     op_entry 0 IT_JUMP (AM_J OR OT_B) AM_NOT_USED AM_NOT_USED (Some ''jge''),
     op_entry 0 IT_JUMP (AM_J OR OT_B) AM_NOT_USED AM_NOT_USED (Some ''jle''),
     op_entry 0 IT_JUMP (AM_J OR OT_B) AM_NOT_USED AM_NOT_USED (Some ''jg''),
     op_entry 2 IT_REFERENCE (AM_E OR OT_B) (AM_I OR OT_B) AM_NOT_USED None,
     op_entry 3 IT_REFERENCE (AM_E OR OT_V) (AM_I OR OT_V) AM_NOT_USED None,
     op_entry 4 IT_REFERENCE (AM_E OR OT_V) (AM_I OR OT_B) AM_NOT_USED None,
     op_entry 5 IT_REFERENCE (AM_E OR OT_V) (AM_I OR OT_B) AM_NOT_USED None,
     op_entry 0 IT_GENERIC (AM_E OR OT_B) (AM_G OR OT_B) AM_NOT_USED (Some ''test''),
     op_entry 0 IT_GENERIC (AM_E OR OT_V) (AM_G OR OT_V) AM_NOT_USED (Some ''test''),
     op_entry 0 IT_GENERIC (AM_E OR OT_B) (AM_G OR OT_B) AM_NOT_USED (Some ''xchg''),
     op_entry 0 IT_GENERIC (AM_E OR OT_V) (AM_G OR OT_V) AM_NOT_USED (Some ''xchg''),
     op_entry 0 IT_GENERIC (AM_E OR OT_B) (AM_G OR OT_B) AM_NOT_USED (Some ''mov''),
     op_entry 0 IT_GENERIC (AM_E OR OT_V) (AM_G OR OT_V) AM_NOT_USED (Some ''mov''),
     op_entry 0 IT_GENERIC (AM_G OR OT_B) (AM_E OR OT_B) AM_NOT_USED (Some ''mov''),
     op_entry 0 IT_GENERIC (AM_G OR OT_V) (AM_E OR OT_V) AM_NOT_USED (Some ''mov''),
     op_entry 0 IT_GENERIC (AM_E OR OT_W) (AM_S OR OT_W) AM_NOT_USED (Some ''mov''),
     op_entry 0 IT_GENERIC (AM_G OR OT_V) (AM_M OR OT_ADDRESS_MODE_M) AM_NOT_USED (Some ''lea''),
     op_entry 0 IT_GENERIC (AM_S OR OT_W) (AM_E OR OT_W) AM_NOT_USED (Some ''mov''),
     op_entry 0 IT_GENERIC (AM_E OR OT_V) AM_NOT_USED AM_NOT_USED (Some ''pop''),
     op_entry 0 IT_GENERIC AM_NOT_USED AM_NOT_USED AM_NOT_USED (Some ''nop''),
     op_entry 0 IT_GENERIC (AM_REGISTER OR OT_V) (AM_REGISTER OR OT_V) AM_NOT_USED (Some ''xchg''),
     op_entry 0 IT_GENERIC (AM_REGISTER OR OT_V) (AM_REGISTER OR OT_V) AM_NOT_USED (Some ''xchg''),
     op_entry 0 IT_GENERIC (AM_REGISTER OR OT_V) (AM_REGISTER OR OT_V) AM_NOT_USED (Some ''xchg''),
     op_entry 0 IT_GENERIC (AM_REGISTER OR OT_V) (AM_REGISTER OR OT_V) AM_NOT_USED (Some ''xchg''),
     op_entry 0 IT_GENERIC (AM_REGISTER OR OT_V) (AM_REGISTER OR OT_V) AM_NOT_USED (Some ''xchg''),
     op_entry 0 IT_GENERIC (AM_REGISTER OR OT_V) (AM_REGISTER OR OT_V) AM_NOT_USED (Some ''xchg''),
     op_entry 0 IT_GENERIC (AM_REGISTER OR OT_V) (AM_REGISTER OR OT_V) AM_NOT_USED (Some ''xchg''),
     op_entry 0 IT_GENERIC AM_NOT_USED AM_NOT_USED AM_NOT_USED (Some ''cwde''),
     op_entry 0 IT_GENERIC AM_NOT_USED AM_NOT_USED AM_NOT_USED (Some ''cdq''),
     op_entry 0 IT_JUMP (AM_A OR OT_P) AM_NOT_USED AM_NOT_USED (Some ''callf''),
     op_entry 0 IT_GENERIC AM_NOT_USED AM_NOT_USED AM_NOT_USED (Some ''wait''),
     op_entry 0 IT_GENERIC AM_NOT_USED AM_NOT_USED AM_NOT_USED (Some ''pushfd''),
     op_entry 0 IT_GENERIC AM_NOT_USED AM_NOT_USED AM_NOT_USED (Some ''popfd''),
     op_entry 0 IT_GENERIC AM_NOT_USED AM_NOT_USED AM_NOT_USED (Some ''sahf''),
     op_entry 0 IT_GENERIC AM_NOT_USED AM_NOT_USED AM_NOT_USED (Some ''lahf''),
     op_entry 0 IT_GENERIC (AM_REGISTER OR OT_B) (AM_O OR OT_B) AM_NOT_USED (Some ''mov''),
     op_entry 0 IT_GENERIC (AM_REGISTER OR OT_V) (AM_O OR OT_V) AM_NOT_USED (Some ''mov''),
     op_entry 0 IT_GENERIC (AM_O OR OT_B) (AM_REGISTER OR OT_B) AM_NOT_USED (Some ''mov''),
     op_entry 0 IT_GENERIC (AM_O OR OT_V) (AM_REGISTER OR OT_V) AM_NOT_USED (Some ''mov''),
     op_entry 0 IT_GENERIC (AM_X OR OT_B) (AM_Y OR OT_B) AM_NOT_USED (Some ''movsb''),
     op_entry 0 IT_GENERIC (AM_X OR OT_V) (AM_Y OR OT_V) AM_NOT_USED (Some ''movsd''),
     op_entry 0 IT_GENERIC (AM_X OR OT_B) (AM_Y OR OT_B) AM_NOT_USED (Some ''cmpsb''),
     op_entry 0 IT_GENERIC (AM_X OR OT_V) (AM_Y OR OT_V) AM_NOT_USED (Some ''cmpsd''),
     op_entry 0 IT_GENERIC (AM_REGISTER OR OT_B) (AM_I OR OT_B) AM_NOT_USED (Some ''test''),
     op_entry 0 IT_GENERIC (AM_REGISTER OR OT_V) (AM_I OR OT_V) AM_NOT_USED (Some ''test''),
     op_entry 0 IT_GENERIC (AM_Y OR OT_B) (AM_REGISTER OR OT_B) AM_NOT_USED (Some ''stosb''),
     op_entry 0 IT_GENERIC (AM_Y OR OT_V) (AM_REGISTER OR OT_V) AM_NOT_USED (Some ''stosd''),
     op_entry 0 IT_GENERIC (AM_REGISTER OR OT_B) (AM_X OR OT_B) AM_NOT_USED (Some ''lodsb''),
     op_entry 0 IT_GENERIC (AM_REGISTER OR OT_V) (AM_X OR OT_V) AM_NOT_USED (Some ''lodsd''),
     op_entry 0 IT_GENERIC (AM_REGISTER OR OT_B) (AM_Y OR OT_B) AM_NOT_USED (Some ''scasb''),
     op_entry 0 IT_GENERIC (AM_REGISTER OR OT_V) (AM_Y OR OT_V) AM_NOT_USED (Some ''scasd''),
     op_entry 0 IT_GENERIC (AM_REGISTER OR OT_B) (AM_I OR OT_B) AM_NOT_USED (Some ''mov''),
     op_entry 0 IT_GENERIC (AM_REGISTER OR OT_B) (AM_I OR OT_B) AM_NOT_USED (Some ''mov''),
     op_entry 0 IT_GENERIC (AM_REGISTER OR OT_B) (AM_I OR OT_B) AM_NOT_USED (Some ''mov''),
     op_entry 0 IT_GENERIC (AM_REGISTER OR OT_B) (AM_I OR OT_B) AM_NOT_USED (Some ''mov''),
     op_entry 0 IT_GENERIC (AM_REGISTER OR OT_B) (AM_I OR OT_B) AM_NOT_USED (Some ''mov''),
     op_entry 0 IT_GENERIC (AM_REGISTER OR OT_B) (AM_I OR OT_B) AM_NOT_USED (Some ''mov''),
     op_entry 0 IT_GENERIC (AM_REGISTER OR OT_B) (AM_I OR OT_B) AM_NOT_USED (Some ''mov''),
     op_entry 0 IT_GENERIC (AM_REGISTER OR OT_B) (AM_I OR OT_B) AM_NOT_USED (Some ''mov'')]"

definition first_b8_bf_x64 :: "opcode list" where
  "first_b8_bf_x64 = [
     op_entry 0 IT_GENERIC (AM_REGISTER OR OT_V) (AM_I OR OT_V OR IOS_64) AM_NOT_USED (Some ''mov''),
     op_entry 0 IT_GENERIC (AM_REGISTER OR OT_V) (AM_I OR OT_V OR IOS_64) AM_NOT_USED (Some ''mov''),
     op_entry 0 IT_GENERIC (AM_REGISTER OR OT_V) (AM_I OR OT_V OR IOS_64) AM_NOT_USED (Some ''mov''),
     op_entry 0 IT_GENERIC (AM_REGISTER OR OT_V) (AM_I OR OT_V OR IOS_64) AM_NOT_USED (Some ''mov''),
     op_entry 0 IT_GENERIC (AM_REGISTER OR OT_V) (AM_I OR OT_V OR IOS_64) AM_NOT_USED (Some ''mov''),
     op_entry 0 IT_GENERIC (AM_REGISTER OR OT_V) (AM_I OR OT_V OR IOS_64) AM_NOT_USED (Some ''mov''),
     op_entry 0 IT_GENERIC (AM_REGISTER OR OT_V) (AM_I OR OT_V OR IOS_64) AM_NOT_USED (Some ''mov''),
     op_entry 0 IT_GENERIC (AM_REGISTER OR OT_V) (AM_I OR OT_V OR IOS_64) AM_NOT_USED (Some ''mov'')]"

definition first_b8_bf_x86 :: "opcode list" where
  "first_b8_bf_x86 = [
     op_entry 0 IT_GENERIC (AM_REGISTER OR OT_V) (AM_I OR OT_V) AM_NOT_USED (Some ''mov''),
     op_entry 0 IT_GENERIC (AM_REGISTER OR OT_V) (AM_I OR OT_V) AM_NOT_USED (Some ''mov''),
     op_entry 0 IT_GENERIC (AM_REGISTER OR OT_V) (AM_I OR OT_V) AM_NOT_USED (Some ''mov''),
     op_entry 0 IT_GENERIC (AM_REGISTER OR OT_V) (AM_I OR OT_V) AM_NOT_USED (Some ''mov''),
     op_entry 0 IT_GENERIC (AM_REGISTER OR OT_V) (AM_I OR OT_V) AM_NOT_USED (Some ''mov''),
     op_entry 0 IT_GENERIC (AM_REGISTER OR OT_V) (AM_I OR OT_V) AM_NOT_USED (Some ''mov''),
     op_entry 0 IT_GENERIC (AM_REGISTER OR OT_V) (AM_I OR OT_V) AM_NOT_USED (Some ''mov''),
     op_entry 0 IT_GENERIC (AM_REGISTER OR OT_V) (AM_I OR OT_V) AM_NOT_USED (Some ''mov'')]"

definition first_c0_ff :: "opcode list" where
  "first_c0_ff = [
     op_entry 6 IT_REFERENCE (AM_E OR OT_B) (AM_I OR OT_B) AM_NOT_USED None,
     op_entry 7 IT_REFERENCE (AM_E OR OT_V) (AM_I OR OT_B) AM_NOT_USED None,
     op_entry 0 IT_RETURN (AM_I OR OT_W) AM_NOT_USED AM_NOT_USED (Some ''ret''),
     op_entry 0 IT_RETURN AM_NOT_USED AM_NOT_USED AM_NOT_USED (Some ''ret''),
     op_entry 0 IT_GENERIC (AM_G OR OT_V) (AM_M OR OT_P) AM_NOT_USED (Some ''les''),
     op_entry 0 IT_GENERIC (AM_G OR OT_V) (AM_M OR OT_P) AM_NOT_USED (Some ''lds''),
     op_entry 0 IT_GENERIC (AM_E OR OT_B) (AM_I OR OT_B) AM_NOT_USED (Some ''mov''),
     op_entry 0 IT_GENERIC (AM_E OR OT_V) (AM_I OR OT_V) AM_NOT_USED (Some ''mov''),
     op_entry 0 IT_GENERIC (AM_I OR OT_W) (AM_I OR OT_B) AM_NOT_USED (Some ''enter''),
     op_entry 0 IT_GENERIC AM_NOT_USED AM_NOT_USED AM_NOT_USED (Some ''leave''),
     op_entry 0 IT_RETURN (AM_I OR OT_W) AM_NOT_USED AM_NOT_USED (Some ''retf''),
     op_entry 0 IT_RETURN AM_NOT_USED AM_NOT_USED AM_NOT_USED (Some ''retf''),
     op_entry 0 IT_GENERIC AM_NOT_USED AM_NOT_USED AM_NOT_USED (Some ''int3''),
     op_entry 0 IT_GENERIC (AM_I OR OT_B) AM_NOT_USED AM_NOT_USED (Some ''int''),
     op_entry 0 IT_GENERIC AM_NOT_USED AM_NOT_USED AM_NOT_USED (Some ''into''),
     op_entry 0 IT_GENERIC AM_NOT_USED AM_NOT_USED AM_NOT_USED (Some ''iret''),
     op_entry 8 IT_REFERENCE (AM_E OR OT_B) AM_NOT_USED AM_NOT_USED None,
     op_entry 9 IT_REFERENCE (AM_E OR OT_V) AM_NOT_USED AM_NOT_USED None,
     op_entry 10 IT_REFERENCE (AM_E OR OT_B) AM_NOT_USED AM_NOT_USED None,
     op_entry 11 IT_REFERENCE (AM_E OR OT_V) AM_NOT_USED AM_NOT_USED None,
     op_entry 0 IT_GENERIC (AM_I OR OT_B) AM_NOT_USED AM_NOT_USED (Some ''aam''),
     op_entry 0 IT_GENERIC (AM_I OR OT_B) AM_NOT_USED AM_NOT_USED (Some ''aad''),
     op_entry 0 IT_UNUSED AM_NOT_USED AM_NOT_USED AM_NOT_USED None,
     op_entry 0 IT_GENERIC AM_NOT_USED AM_NOT_USED AM_NOT_USED (Some ''xlat''),
     op_entry 0 IT_UNKNOWN AM_NOT_USED AM_NOT_USED AM_NOT_USED None,
     op_entry 0 IT_UNKNOWN AM_NOT_USED AM_NOT_USED AM_NOT_USED None,
     op_entry 0 IT_UNKNOWN AM_NOT_USED AM_NOT_USED AM_NOT_USED None,
     op_entry 0 IT_UNKNOWN AM_NOT_USED AM_NOT_USED AM_NOT_USED None,
     op_entry 0 IT_UNKNOWN AM_NOT_USED AM_NOT_USED AM_NOT_USED None,
     op_entry 0 IT_UNKNOWN AM_NOT_USED AM_NOT_USED AM_NOT_USED None,
     op_entry 0 IT_UNKNOWN AM_NOT_USED AM_NOT_USED AM_NOT_USED None,
     op_entry 0 IT_UNKNOWN AM_NOT_USED AM_NOT_USED AM_NOT_USED None,
     op_entry 0 IT_JUMP (AM_J OR OT_B) AM_NOT_USED AM_NOT_USED (Some ''loopnz''),
     op_entry 0 IT_JUMP (AM_J OR OT_B) AM_NOT_USED AM_NOT_USED (Some ''loopz''),
     op_entry 0 IT_JUMP (AM_J OR OT_B) AM_NOT_USED AM_NOT_USED (Some ''loop''),
     op_entry 0 IT_JUMP (AM_J OR OT_B) AM_NOT_USED AM_NOT_USED (Some ''jcxz''),
     op_entry 0 IT_GENERIC (AM_REGISTER OR OT_B) (AM_I OR OT_B) AM_NOT_USED (Some ''in''),
     op_entry 0 IT_GENERIC (AM_REGISTER OR OT_B) (AM_I OR OT_B) AM_NOT_USED (Some ''in''),
     op_entry 0 IT_GENERIC (AM_I OR OT_B) (AM_REGISTER OR OT_B) AM_NOT_USED (Some ''out''),
     op_entry 0 IT_GENERIC (AM_I OR OT_B) (AM_REGISTER OR OT_B) AM_NOT_USED (Some ''out''),
     op_entry 0 IT_JUMP (AM_J OR OT_V) AM_NOT_USED AM_NOT_USED (Some ''call''),
     op_entry 0 IT_JUMP (AM_J OR OT_V) AM_NOT_USED AM_NOT_USED (Some ''jmp''),
     op_entry 0 IT_JUMP (AM_A OR OT_P) AM_NOT_USED AM_NOT_USED (Some ''jmp''),
     op_entry 0 IT_JUMP (AM_J OR OT_B) AM_NOT_USED AM_NOT_USED (Some ''jmp''),
     op_entry 0 IT_GENERIC (AM_REGISTER OR OT_B) (AM_REGISTER OR OT_W) AM_NOT_USED (Some ''in''),
     op_entry 0 IT_GENERIC (AM_REGISTER OR OT_V) (AM_REGISTER OR OT_W) AM_NOT_USED (Some ''in''),
     op_entry 0 IT_GENERIC (AM_REGISTER OR OT_W) (AM_REGISTER OR OT_B) AM_NOT_USED (Some ''out''),
     op_entry 0 IT_GENERIC (AM_REGISTER OR OT_W) (AM_REGISTER OR OT_V) AM_NOT_USED (Some ''out''),
     op_entry 0 IT_PREFIX AM_NOT_USED AM_NOT_USED AM_NOT_USED (Some ''lock:''),
     op_entry 0 IT_UNUSED AM_NOT_USED AM_NOT_USED AM_NOT_USED None,
     op_entry 0 IT_PREFIX AM_NOT_USED AM_NOT_USED AM_NOT_USED (Some ''repne:''),
     op_entry 0 IT_PREFIX AM_NOT_USED AM_NOT_USED AM_NOT_USED (Some ''rep:''),
     op_entry 0 IT_GENERIC AM_NOT_USED AM_NOT_USED AM_NOT_USED (Some ''hlt''),
     op_entry 0 IT_GENERIC AM_NOT_USED AM_NOT_USED AM_NOT_USED (Some ''cmc''),
     op_entry 12 IT_REFERENCE (AM_E OR OT_B) AM_NOT_USED AM_NOT_USED None,
     op_entry 13 IT_REFERENCE (AM_E OR OT_V) AM_NOT_USED AM_NOT_USED None,
     op_entry 0 IT_GENERIC AM_NOT_USED AM_NOT_USED AM_NOT_USED (Some ''clc''),
     op_entry 0 IT_GENERIC AM_NOT_USED AM_NOT_USED AM_NOT_USED (Some ''stc''),
     op_entry 0 IT_GENERIC AM_NOT_USED AM_NOT_USED AM_NOT_USED (Some ''cli''),
     op_entry 0 IT_GENERIC AM_NOT_USED AM_NOT_USED AM_NOT_USED (Some ''sti''),
     op_entry 0 IT_GENERIC AM_NOT_USED AM_NOT_USED AM_NOT_USED (Some ''cld''),
     op_entry 0 IT_GENERIC AM_NOT_USED AM_NOT_USED AM_NOT_USED (Some ''std''),
     op_entry 14 IT_REFERENCE AM_NOT_USED AM_NOT_USED AM_NOT_USED None,
     op_entry 15 IT_REFERENCE AM_NOT_USED AM_NOT_USED AM_NOT_USED None]"

text \<open>\<open>_M_X64\<close> selects the rows of the 64-bit build.\<close>

definition s_first_opcode_byte :: "bool \<Rightarrow> opcode list" where
  "s_first_opcode_byte x64 = first_00_3f @ (if x64 then first_40_4f_x64 else first_40_4f_x86)
     @ first_50_b7 @ (if x64 then first_b8_bf_x64 else first_b8_bf_x86) @ first_c0_ff"

definition after_0f_00_47 :: "opcode list" where
  "after_0f_00_47 = [
     op_entry 16 IT_REFERENCE AM_NOT_USED AM_NOT_USED AM_NOT_USED None,
     op_entry 17 IT_REFERENCE AM_NOT_USED AM_NOT_USED AM_NOT_USED None,
     op_entry 0 IT_GENERIC (AM_G OR OT_V) (AM_E OR OT_W) AM_NOT_USED (Some ''lar''),
     op_entry 0 IT_GENERIC (AM_G OR OT_V) (AM_E OR OT_W) AM_NOT_USED (Some ''lsl''),
     op_entry 0 IT_UNUSED AM_NOT_USED AM_NOT_USED AM_NOT_USED None,
     op_entry 0 IT_UNUSED AM_NOT_USED AM_NOT_USED AM_NOT_USED None,
     op_entry 0 IT_GENERIC AM_NOT_USED AM_NOT_USED AM_NOT_USED (Some ''clts''),
     op_entry 0 IT_UNUSED AM_NOT_USED AM_NOT_USED AM_NOT_USED None,
     op_entry 0 IT_GENERIC AM_NOT_USED AM_NOT_USED AM_NOT_USED (Some ''invd''),
     op_entry 0 IT_GENERIC AM_NOT_USED AM_NOT_USED AM_NOT_USED (Some ''wbinvd''),
     op_entry 0 IT_UNUSED AM_NOT_USED AM_NOT_USED AM_NOT_USED None,
     op_entry 0 IT_UNUSED AM_NOT_USED AM_NOT_USED AM_NOT_USED (Some ''ud2''),
     op_entry 0 IT_UNUSED AM_NOT_USED AM_NOT_USED AM_NOT_USED None,
     op_entry 0 IT_UNUSED AM_NOT_USED AM_NOT_USED AM_NOT_USED None,
     op_entry 0 IT_UNUSED AM_NOT_USED AM_NOT_USED AM_NOT_USED None,
     op_entry 0 IT_UNUSED AM_NOT_USED AM_NOT_USED AM_NOT_USED None,
     prefixed 0 IT_GENERIC (AM_V OR OT_PS) (AM_W OR OT_PS) AM_NOT_USED (Some ''movups'') (specific 0 IT_GENERIC (AM_V OR OT_SD) (AM_W OR OT_SD) AM_NOT_USED (Some ''movsd'')) (specific 0 IT_GENERIC (AM_V OR OT_SS) (AM_W OR OT_SS) AM_NOT_USED (Some ''movss'')) (specific 0 IT_GENERIC (AM_V OR OT_PD) (AM_W OR OT_PD) AM_NOT_USED (Some ''movupd'')),
     prefixed 0 IT_GENERIC (AM_W OR OT_PS) (AM_V OR OT_PS) AM_NOT_USED (Some ''movups'') (specific 0 IT_GENERIC (AM_W OR OT_SD) (AM_V OR OT_SD) AM_NOT_USED (Some ''movsd'')) (specific 0 IT_GENERIC (AM_W OR OT_SS) (AM_V OR OT_SS) AM_NOT_USED (Some ''movss'')) (specific 0 IT_GENERIC (AM_W OR OT_PD) (AM_V OR OT_PD) AM_NOT_USED (Some ''movupd'')),
     prefixed 0 IT_GENERIC (AM_W OR OT_Q) (AM_V OR OT_Q) AM_NOT_USED (Some ''movlps'') (specific 0 IT_GENERIC (AM_V OR OT_Q) (AM_V OR OT_Q) AM_NOT_USED (Some ''movhlps'')) (specific 0 IT_GENERIC (AM_V OR OT_Q) (AM_V OR OT_Q) AM_NOT_USED (Some ''movhlps'')) (specific 0 IT_GENERIC (AM_V OR OT_Q) (AM_W OR OT_S) AM_NOT_USED (Some ''movlpd'')),
     prefixed 0 IT_GENERIC (AM_V OR OT_Q) (AM_W OR OT_Q) AM_NOT_USED (Some ''movlps'') NO_OPCODE NO_OPCODE (specific 0 IT_GENERIC (AM_V OR OT_Q) (AM_W OR OT_Q) AM_NOT_USED (Some ''movlpd'')),
     prefixed 0 IT_GENERIC (AM_V OR OT_PS) (AM_W OR OT_Q) AM_NOT_USED (Some ''unpcklps'') NO_OPCODE NO_OPCODE (specific 0 IT_GENERIC (AM_V OR OT_PD) (AM_W OR OT_Q) AM_NOT_USED (Some ''unpcklpd'')),
     prefixed 0 IT_GENERIC (AM_V OR OT_PS) (AM_W OR OT_Q) AM_NOT_USED (Some ''unpckhps'') NO_OPCODE NO_OPCODE (specific 0 IT_GENERIC (AM_V OR OT_PD) (AM_W OR OT_Q) AM_NOT_USED (Some ''unpckhpd'')),
     prefixed 0 IT_GENERIC (AM_V OR OT_Q) (AM_W OR OT_Q) AM_NOT_USED (Some ''movhps'') (specific 0 IT_GENERIC (AM_V OR OT_Q) (AM_V OR OT_Q) AM_NOT_USED (Some ''movlhps'')) (specific 0 IT_GENERIC (AM_V OR OT_Q) (AM_V OR OT_Q) AM_NOT_USED (Some ''movlhps'')) (specific 0 IT_GENERIC (AM_V OR OT_Q) (AM_W OR OT_Q) AM_NOT_USED (Some ''movhpd'')),
     prefixed 0 IT_GENERIC (AM_W OR OT_Q) (AM_V OR OT_Q) AM_NOT_USED (Some ''movhps'') NO_OPCODE NO_OPCODE (specific 0 IT_GENERIC (AM_W OR OT_Q) (AM_V OR OT_Q) AM_NOT_USED (Some ''movhpd'')),
     op_entry 18 IT_REFERENCE AM_NOT_USED AM_NOT_USED AM_NOT_USED None,
     op_entry 0 IT_UNUSED AM_NOT_USED AM_NOT_USED AM_NOT_USED None,
     op_entry 0 IT_UNUSED AM_NOT_USED AM_NOT_USED AM_NOT_USED None,
     op_entry 0 IT_UNUSED AM_NOT_USED AM_NOT_USED AM_NOT_USED None,
     op_entry 0 IT_UNUSED AM_NOT_USED AM_NOT_USED AM_NOT_USED None,
     op_entry 0 IT_UNUSED AM_NOT_USED AM_NOT_USED AM_NOT_USED None,
     op_entry 0 IT_UNUSED AM_NOT_USED AM_NOT_USED AM_NOT_USED None,
     op_entry 0 IT_UNUSED AM_NOT_USED AM_NOT_USED AM_NOT_USED None,
     op_entry 0 IT_GENERIC (AM_R OR OT_D) (AM_C OR OT_D) AM_NOT_USED (Some ''mov''),
     op_entry 0 IT_GENERIC (AM_R OR OT_D) (AM_D OR OT_D) AM_NOT_USED (Some ''mov''),
     op_entry 0 IT_GENERIC (AM_C OR OT_D) (AM_R OR OT_D) AM_NOT_USED (Some ''mov''),
     op_entry 0 IT_GENERIC (AM_D OR OT_D) (AM_R OR OT_D) AM_NOT_USED (Some ''mov''),
     op_entry 0 IT_UNUSED AM_NOT_USED AM_NOT_USED AM_NOT_USED None,
     op_entry 0 IT_UNUSED AM_NOT_USED AM_NOT_USED AM_NOT_USED None,
     op_entry 0 IT_UNUSED AM_NOT_USED AM_NOT_USED AM_NOT_USED None,
     op_entry 0 IT_UNUSED AM_NOT_USED AM_NOT_USED AM_NOT_USED None,
     prefixed 0 IT_GENERIC (AM_V OR OT_PS) (AM_W OR OT_PS) AM_NOT_USED (Some ''movaps'') NO_OPCODE NO_OPCODE (specific 0 IT_GENERIC (AM_V OR OT_PD) (AM_W OR OT_PD) AM_NOT_USED (Some ''movapd'')),
     prefixed 0 IT_GENERIC (AM_W OR OT_PS) (AM_V OR OT_PS) AM_NOT_USED (Some ''movaps'') NO_OPCODE NO_OPCODE (specific 0 IT_GENERIC (AM_W OR OT_PD) (AM_V OR OT_PD) AM_NOT_USED (Some ''movapd'')),
     prefixed 0 IT_GENERIC (AM_V OR OT_PS) (AM_Q OR OT_Q) AM_NOT_USED (Some ''cvtpi2ps'') (specific 0 IT_GENERIC (AM_V OR OT_SD) (AM_E OR OT_D) AM_NOT_USED (Some ''cvtsi2sd'')) (specific 0 IT_GENERIC (AM_V OR OT_SS) (AM_E OR OT_D) AM_NOT_USED (Some ''cvtsi2ss'')) (specific 0 IT_GENERIC (AM_V OR OT_PD) (AM_Q OR OT_DQ) AM_NOT_USED (Some ''cvtpi2pd'')),
     prefixed 0 IT_GENERIC (AM_W OR OT_PS) (AM_V OR OT_PS) AM_NOT_USED (Some ''movntps'') NO_OPCODE NO_OPCODE (specific 0 IT_GENERIC (AM_W OR OT_PD) (AM_V OR OT_PD) AM_NOT_USED (Some ''movntpd'')),
     prefixed 0 IT_GENERIC (AM_Q OR OT_Q) (AM_W OR OT_PS) AM_NOT_USED (Some ''cvttps2pi'') (specific 0 IT_GENERIC (AM_G OR OT_D) (AM_W OR OT_SD) AM_NOT_USED (Some ''cvttsd2si'')) (specific 0 IT_GENERIC (AM_G OR OT_D) (AM_W OR OT_SS) AM_NOT_USED (Some ''cvttss2si'')) (specific 0 IT_GENERIC (AM_Q OR OT_DQ) (AM_W OR OT_PD) AM_NOT_USED (Some ''cvttpd2pi'')),
     prefixed 0 IT_GENERIC (AM_Q OR OT_Q) (AM_W OR OT_PS) AM_NOT_USED (Some ''cvtps2pi'') (specific 0 IT_GENERIC (AM_G OR OT_D) (AM_W OR OT_SD) AM_NOT_USED (Some ''cvtsd2si'')) (specific 0 IT_GENERIC (AM_G OR OT_D) (AM_W OR OT_SS) AM_NOT_USED (Some ''cvtss2si'')) (specific 0 IT_GENERIC (AM_Q OR OT_DQ) (AM_W OR OT_PD) AM_NOT_USED (Some ''cvtpd2pi'')),
     prefixed 0 IT_GENERIC (AM_V OR OT_SS) (AM_W OR OT_SS) AM_NOT_USED (Some ''ucomiss'') NO_OPCODE NO_OPCODE (specific 0 IT_GENERIC (AM_V OR OT_SD) (AM_W OR OT_SD) AM_NOT_USED (Some ''ucomisd'')),
     prefixed 0 IT_GENERIC (AM_V OR OT_PS) (AM_W OR OT_SS) AM_NOT_USED (Some ''comiss'') NO_OPCODE NO_OPCODE (specific 0 IT_GENERIC (AM_V OR OT_SD) (AM_W OR OT_SD) AM_NOT_USED (Some ''comisd'')),
     op_entry 0 IT_GENERIC AM_NOT_USED AM_NOT_USED AM_NOT_USED (Some ''wrmsr''),
     op_entry 0 IT_GENERIC AM_NOT_USED AM_NOT_USED AM_NOT_USED (Some ''rdtsc''),
     op_entry 0 IT_GENERIC AM_NOT_USED AM_NOT_USED AM_NOT_USED (Some ''rdmsr''),
     op_entry 0 IT_GENERIC AM_NOT_USED AM_NOT_USED AM_NOT_USED (Some ''rdpmc''),
     op_entry 0 IT_GENERIC AM_NOT_USED AM_NOT_USED AM_NOT_USED (Some ''sysenter''),
     op_entry 0 IT_GENERIC AM_NOT_USED AM_NOT_USED AM_NOT_USED (Some ''sysexit''),
     op_entry 0 IT_UNUSED AM_NOT_USED AM_NOT_USED AM_NOT_USED None,
     op_entry 0 IT_UNUSED AM_NOT_USED AM_NOT_USED AM_NOT_USED None,
     op_entry 0 IT_UNUSED AM_NOT_USED AM_NOT_USED AM_NOT_USED None,
     op_entry 0 IT_UNUSED AM_NOT_USED AM_NOT_USED AM_NOT_USED None,
     op_entry 0 IT_UNUSED AM_NOT_USED AM_NOT_USED AM_NOT_USED None,
     op_entry 0 IT_UNUSED AM_NOT_USED AM_NOT_USED AM_NOT_USED None,
     op_entry 0 IT_GENERIC (AM_G OR OT_V) (AM_E OR OT_V) AM_NOT_USED (Some ''movnti''),
     op_entry 0 IT_UNUSED AM_NOT_USED AM_NOT_USED AM_NOT_USED None,
     op_entry 0 IT_UNUSED AM_NOT_USED AM_NOT_USED AM_NOT_USED None,
     op_entry 0 IT_UNUSED AM_NOT_USED AM_NOT_USED AM_NOT_USED None,
     op_entry 0 IT_GENERIC (AM_G OR OT_V) (AM_E OR OT_V) AM_NOT_USED (Some ''cmovo''),
     op_entry 0 IT_GENERIC (AM_G OR OT_V) (AM_E OR OT_V) AM_NOT_USED (Some ''cmovno''),
     op_entry 0 IT_GENERIC (AM_G OR OT_V) (AM_E OR OT_V) AM_NOT_USED (Some ''cmovc''),
     op_entry 0 IT_GENERIC (AM_G OR OT_V) (AM_E OR OT_V) AM_NOT_USED (Some ''cmovnc''),
     op_entry 0 IT_GENERIC (AM_G OR OT_V) (AM_E OR OT_V) AM_NOT_USED (Some ''cmovz''),
     op_entry 0 IT_GENERIC (AM_G OR OT_V) (AM_E OR OT_V) AM_NOT_USED (Some ''cmovnz''),
     op_entry 0 IT_GENERIC (AM_G OR OT_V) (AM_E OR OT_V) AM_NOT_USED (Some ''cmovbe''),
     op_entry 0 IT_GENERIC (AM_G OR OT_V) (AM_E OR OT_V) AM_NOT_USED (Some ''cmova'')]"

definition after_0f_48_6b :: "opcode list" where
  "after_0f_48_6b = [
     op_entry 0 IT_GENERIC (AM_G OR OT_V) (AM_E OR OT_V) AM_NOT_USED (Some ''cmovs''),
     op_entry 0 IT_GENERIC (AM_G OR OT_V) (AM_E OR OT_V) AM_NOT_USED (Some ''cmovns''),
     op_entry 0 IT_GENERIC (AM_G OR OT_V) (AM_E OR OT_V) AM_NOT_USED (Some ''cmovpe''),
     op_entry 0 IT_GENERIC (AM_G OR OT_V) (AM_E OR OT_V) AM_NOT_USED (Some ''cmovpo''),
     op_entry 0 IT_GENERIC (AM_G OR OT_V) (AM_E OR OT_V) AM_NOT_USED (Some ''cmovl''),
     op_entry 0 IT_GENERIC (AM_G OR OT_V) (AM_E OR OT_V) AM_NOT_USED (Some ''cmovge''),
     op_entry 0 IT_GENERIC (AM_G OR OT_V) (AM_E OR OT_V) AM_NOT_USED (Some ''cmovle''),
     op_entry 0 IT_GENERIC (AM_G OR OT_V) (AM_E OR OT_V) AM_NOT_USED (Some ''cmovg''),
     prefixed 0 IT_GENERIC (AM_E OR OT_D) (AM_V OR OT_PS) AM_NOT_USED (Some ''movmskps'') NO_OPCODE NO_OPCODE (specific 0 IT_GENERIC (AM_E OR OT_D) (AM_V OR OT_PD) AM_NOT_USED (Some ''movmskpd'')),
     prefixed 0 IT_GENERIC (AM_V OR OT_PS) (AM_W OR OT_PS) AM_NOT_USED (Some ''sqrtps'') (specific 0 IT_GENERIC (AM_V OR OT_SD) (AM_W OR OT_SD) AM_NOT_USED (Some ''sqrtsd'')) (specific 0 IT_GENERIC (AM_V OR OT_SS) (AM_W OR OT_SS) AM_NOT_USED (Some ''sqrtss'')) (specific 0 IT_GENERIC (AM_V OR OT_PD) (AM_W OR OT_PD) AM_NOT_USED (Some ''sqrtpd'')),
     prefixed 0 IT_GENERIC (AM_V OR OT_PS) (AM_W OR OT_PS) AM_NOT_USED (Some ''rsqrtps'') NO_OPCODE (specific 0 IT_GENERIC (AM_V OR OT_SS) (AM_W OR OT_SS) AM_NOT_USED (Some ''rsqrtss'')) NO_OPCODE,
     prefixed 0 IT_GENERIC (AM_V OR OT_PS) (AM_W OR OT_PS) AM_NOT_USED (Some ''rcpps'') NO_OPCODE (specific 0 IT_GENERIC (AM_V OR OT_SS) (AM_W OR OT_SS) AM_NOT_USED (Some ''rcpss'')) NO_OPCODE,
     prefixed 0 IT_GENERIC (AM_V OR OT_PS) (AM_W OR OT_PS) AM_NOT_USED (Some ''andps'') NO_OPCODE NO_OPCODE (specific 0 IT_GENERIC (AM_V OR OT_PD) (AM_W OR OT_PD) AM_NOT_USED (Some ''andpd'')),
     prefixed 0 IT_GENERIC (AM_V OR OT_PS) (AM_W OR OT_PS) AM_NOT_USED (Some ''andnps'') NO_OPCODE NO_OPCODE (specific 0 IT_GENERIC (AM_V OR OT_PD) (AM_W OR OT_PD) AM_NOT_USED (Some ''andnpd'')),
     prefixed 0 IT_GENERIC (AM_V OR OT_PS) (AM_W OR OT_PS) AM_NOT_USED (Some ''orps'') NO_OPCODE NO_OPCODE (specific 0 IT_GENERIC (AM_V OR OT_PD) (AM_W OR OT_PD) AM_NOT_USED (Some ''orpd'')),
     prefixed 0 IT_GENERIC (AM_V OR OT_PS) (AM_W OR OT_PS) AM_NOT_USED (Some ''xorps'') NO_OPCODE NO_OPCODE (specific 0 IT_GENERIC (AM_V OR OT_PD) (AM_W OR OT_PD) AM_NOT_USED (Some ''xorpd'')),
     prefixed 0 IT_GENERIC (AM_V OR OT_PS) (AM_W OR OT_PS) AM_NOT_USED (Some ''addps'') (specific 0 IT_GENERIC (AM_V OR OT_SD) (AM_W OR OT_SD) AM_NOT_USED (Some ''addsd'')) (specific 0 IT_GENERIC (AM_V OR OT_SS) (AM_W OR OT_SS) AM_NOT_USED (Some ''addss'')) (specific 0 IT_GENERIC (AM_V OR OT_PD) (AM_W OR OT_PD) AM_NOT_USED (Some ''addpd'')),
     prefixed 0 IT_GENERIC (AM_V OR OT_PS) (AM_W OR OT_PS) AM_NOT_USED (Some ''mulps'') (specific 0 IT_GENERIC (AM_V OR OT_SD) (AM_W OR OT_SD) AM_NOT_USED (Some ''mulsd'')) (specific 0 IT_GENERIC (AM_V OR OT_SS) (AM_W OR OT_SS) AM_NOT_USED (Some ''mulss'')) (specific 0 IT_GENERIC (AM_V OR OT_PD) (AM_W OR OT_PD) AM_NOT_USED (Some ''mulpd'')),
     prefixed 0 IT_GENERIC (AM_V OR OT_PD) (AM_W OR OT_PS) AM_NOT_USED (Some ''cvtps2pd'') (specific 0 IT_GENERIC (AM_V OR OT_SD) (AM_W OR OT_SD) AM_NOT_USED (Some ''cvtsd2ss'')) (specific 0 IT_GENERIC (AM_V OR OT_SS) (AM_W OR OT_SS) AM_NOT_USED (Some ''cvtss2sd'')) (specific 0 IT_GENERIC (AM_V OR OT_PS) (AM_W OR OT_PD) AM_NOT_USED (Some ''cvtpd2ps'')),
     prefixed 0 IT_GENERIC (AM_V OR OT_PS) (AM_W OR OT_DQ) AM_NOT_USED (Some ''cvtdq2ps'') NO_OPCODE (specific 0 IT_GENERIC (AM_V OR OT_DQ) (AM_W OR OT_PS) AM_NOT_USED (Some ''cvttps2dq'')) (specific 0 IT_GENERIC (AM_V OR OT_DQ) (AM_W OR OT_PS) AM_NOT_USED (Some ''cvtps2dq'')),
     prefixed 0 IT_GENERIC (AM_V OR OT_PS) (AM_W OR OT_PS) AM_NOT_USED (Some ''subps'') (specific 0 IT_GENERIC (AM_V OR OT_SD) (AM_W OR OT_SD) AM_NOT_USED (Some ''subsd'')) (specific 0 IT_GENERIC (AM_V OR OT_SS) (AM_W OR OT_SS) AM_NOT_USED (Some ''subss'')) (specific 0 IT_GENERIC (AM_V OR OT_PD) (AM_W OR OT_PD) AM_NOT_USED (Some ''subpd'')),
     prefixed 0 IT_GENERIC (AM_V OR OT_PS) (AM_W OR OT_PS) AM_NOT_USED (Some ''minps'') (specific 0 IT_GENERIC (AM_V OR OT_SD) (AM_W OR OT_SD) AM_NOT_USED (Some ''minsd'')) (specific 0 IT_GENERIC (AM_V OR OT_SS) (AM_W OR OT_SS) AM_NOT_USED (Some ''minss'')) (specific 0 IT_GENERIC (AM_V OR OT_PD) (AM_W OR OT_PD) AM_NOT_USED (Some ''minpd'')),
     prefixed 0 IT_GENERIC (AM_V OR OT_PS) (AM_W OR OT_PS) AM_NOT_USED (Some ''divps'') (specific 0 IT_GENERIC (AM_V OR OT_SD) (AM_W OR OT_SD) AM_NOT_USED (Some ''divsd'')) (specific 0 IT_GENERIC (AM_V OR OT_SS) (AM_W OR OT_SS) AM_NOT_USED (Some ''divss'')) (specific 0 IT_GENERIC (AM_V OR OT_PD) (AM_W OR OT_PD) AM_NOT_USED (Some ''divpd'')),
     prefixed 0 IT_GENERIC (AM_V OR OT_PS) (AM_W OR OT_PS) AM_NOT_USED (Some ''maxps'') (specific 0 IT_GENERIC (AM_V OR OT_SD) (AM_W OR OT_SD) AM_NOT_USED (Some ''maxsd'')) (specific 0 IT_GENERIC (AM_V OR OT_SS) (AM_W OR OT_SS) AM_NOT_USED (Some ''maxss'')) (specific 0 IT_GENERIC (AM_V OR OT_PD) (AM_W OR OT_PD) AM_NOT_USED (Some ''maxpd'')),
     prefixed 0 IT_GENERIC (AM_P OR OT_Q) (AM_Q OR OT_D) AM_NOT_USED (Some ''punpcklbw'') NO_OPCODE NO_OPCODE (specific 0 IT_GENERIC (AM_V OR OT_DQ) (AM_W OR OT_DQ) AM_NOT_USED (Some ''punpcklbw'')),
     prefixed 0 IT_GENERIC (AM_P OR OT_Q) (AM_Q OR OT_D) AM_NOT_USED (Some ''punpcklwd'') NO_OPCODE NO_OPCODE (specific 0 IT_GENERIC (AM_V OR OT_DQ) (AM_W OR OT_DQ) AM_NOT_USED (Some ''punpcklwd'')),
     prefixed 0 IT_GENERIC (AM_P OR OT_Q) (AM_Q OR OT_D) AM_NOT_USED (Some ''punpckldq'') NO_OPCODE NO_OPCODE (specific 0 IT_GENERIC (AM_V OR OT_DQ) (AM_W OR OT_DQ) AM_NOT_USED (Some ''punpckldq'')),
     prefixed 0 IT_GENERIC (AM_P OR OT_Q) (AM_Q OR OT_D) AM_NOT_USED (Some ''packsswb'') NO_OPCODE NO_OPCODE (specific 0 IT_GENERIC (AM_V OR OT_DQ) (AM_W OR OT_DQ) AM_NOT_USED (Some ''packsswb'')),
     prefixed 0 IT_GENERIC (AM_P OR OT_Q) (AM_Q OR OT_D) AM_NOT_USED (Some ''pcmpgtb'') NO_OPCODE NO_OPCODE (specific 0 IT_GENERIC (AM_V OR OT_DQ) (AM_W OR OT_DQ) AM_NOT_USED (Some ''pcmpgtb'')),
     prefixed 0 IT_GENERIC (AM_P OR OT_Q) (AM_Q OR OT_D) AM_NOT_USED (Some ''pcmpgtw'') NO_OPCODE NO_OPCODE (specific 0 IT_GENERIC (AM_V OR OT_DQ) (AM_W OR OT_DQ) AM_NOT_USED (Some ''pcmpgtw'')),
     prefixed 0 IT_GENERIC (AM_P OR OT_Q) (AM_Q OR OT_D) AM_NOT_USED (Some ''pcmpgtd'') NO_OPCODE NO_OPCODE (specific 0 IT_GENERIC (AM_V OR OT_DQ) (AM_W OR OT_DQ) AM_NOT_USED (Some ''pcmpgtd'')),
     prefixed 0 IT_GENERIC (AM_P OR OT_Q) (AM_Q OR OT_D) AM_NOT_USED (Some ''packuswb'') NO_OPCODE NO_OPCODE (specific 0 IT_GENERIC (AM_V OR OT_DQ) (AM_W OR OT_DQ) AM_NOT_USED (Some ''packuswb'')),
     prefixed 0 IT_GENERIC (AM_P OR OT_Q) (AM_Q OR OT_D) AM_NOT_USED (Some ''punpckhbw'') NO_OPCODE NO_OPCODE (specific 0 IT_GENERIC (AM_P OR OT_DQ) (AM_Q OR OT_DQ) AM_NOT_USED (Some ''punpckhbw'')),
     prefixed 0 IT_GENERIC (AM_P OR OT_Q) (AM_Q OR OT_D) AM_NOT_USED (Some ''punpckhwd'') NO_OPCODE NO_OPCODE (specific 0 IT_GENERIC (AM_P OR OT_DQ) (AM_Q OR OT_DQ) AM_NOT_USED (Some ''punpckhwd'')),
     prefixed 0 IT_GENERIC (AM_P OR OT_Q) (AM_Q OR OT_D) AM_NOT_USED (Some ''punpckhdq'') NO_OPCODE NO_OPCODE (specific 0 IT_GENERIC (AM_P OR OT_DQ) (AM_Q OR OT_DQ) AM_NOT_USED (Some ''punpckhdq'')),
     prefixed 0 IT_GENERIC (AM_P OR OT_Q) (AM_Q OR OT_D) AM_NOT_USED (Some ''packssdw'') NO_OPCODE NO_OPCODE (specific 0 IT_GENERIC (AM_P OR OT_DQ) (AM_Q OR OT_DQ) AM_NOT_USED (Some ''packssdw''))]"

definition after_0f_6c_c1 :: "opcode list" where
  "after_0f_6c_c1 = [
     prefixed 0 IT_GENERIC AM_NOT_USED AM_NOT_USED AM_NOT_USED (Some ''not used without prefix'') NO_OPCODE NO_OPCODE (specific 0 IT_GENERIC (AM_V OR OT_DQ) (AM_W OR OT_DQ) AM_NOT_USED (Some ''punpcklqdq'')),
     prefixed 0 IT_GENERIC AM_NOT_USED AM_NOT_USED AM_NOT_USED (Some ''not used without prefix'') NO_OPCODE NO_OPCODE (specific 0 IT_GENERIC (AM_V OR OT_DQ) (AM_W OR OT_DQ) AM_NOT_USED (Some ''punpcklqdq'')),
     prefixed 0 IT_GENERIC (AM_P OR OT_D) (AM_E OR OT_D) AM_NOT_USED (Some ''movd'') NO_OPCODE NO_OPCODE (specific 0 IT_GENERIC (AM_V OR OT_DQ) (AM_E OR OT_D) AM_NOT_USED (Some ''movd'')),
     prefixed 0 IT_GENERIC (AM_P OR OT_Q) (AM_Q OR OT_D) AM_NOT_USED (Some ''movq'') NO_OPCODE (specific 0 IT_GENERIC (AM_V OR OT_DQ) (AM_W OR OT_DQ) AM_NOT_USED (Some ''movdqu'')) (specific 0 IT_GENERIC (AM_V OR OT_DQ) (AM_W OR OT_DQ) AM_NOT_USED (Some ''movdqa'')),
     prefixed 0 IT_GENERIC (AM_P OR OT_Q) (AM_Q OR OT_Q) (AM_I OR OT_B) (Some ''pshuf'') (specific 0 IT_GENERIC (AM_V OR OT_DQ) (AM_W OR OT_DQ) (AM_I OR OT_B) (Some ''pshuflw'')) (specific 0 IT_GENERIC (AM_V OR OT_DQ) (AM_W OR OT_DQ) (AM_I OR OT_B) (Some ''pshufhw'')) (specific 0 IT_GENERIC (AM_V OR OT_DQ) (AM_W OR OT_DQ) (AM_I OR OT_B) (Some ''pshufd'')),
     op_entry 19 IT_REFERENCE AM_NOT_USED AM_NOT_USED AM_NOT_USED None,
     op_entry 20 IT_REFERENCE AM_NOT_USED AM_NOT_USED AM_NOT_USED None,
     op_entry 21 IT_REFERENCE AM_NOT_USED AM_NOT_USED AM_NOT_USED None,
     prefixed 0 IT_GENERIC (AM_P OR OT_Q) (AM_Q OR OT_Q) AM_NOT_USED (Some ''pcmpeqb'') NO_OPCODE NO_OPCODE (specific 0 IT_GENERIC (AM_V OR OT_DQ) (AM_W OR OT_DQ) AM_NOT_USED (Some ''pcmpeqb'')),
     prefixed 0 IT_GENERIC (AM_P OR OT_Q) (AM_Q OR OT_Q) AM_NOT_USED (Some ''pcmpeqw'') NO_OPCODE NO_OPCODE (specific 0 IT_GENERIC (AM_V OR OT_DQ) (AM_W OR OT_DQ) AM_NOT_USED (Some ''pcmpeqw'')),
     prefixed 0 IT_GENERIC (AM_P OR OT_Q) (AM_Q OR OT_Q) AM_NOT_USED (Some ''pcmpeqd'') NO_OPCODE NO_OPCODE (specific 0 IT_GENERIC (AM_V OR OT_DQ) (AM_W OR OT_DQ) AM_NOT_USED (Some ''pcmpeqd'')),
     op_entry 0 IT_GENERIC AM_NOT_USED AM_NOT_USED AM_NOT_USED (Some ''emms''),
     op_entry 0 IT_UNKNOWN AM_NOT_USED AM_NOT_USED AM_NOT_USED None,
     op_entry 0 IT_UNKNOWN AM_NOT_USED AM_NOT_USED AM_NOT_USED None,
     op_entry 0 IT_UNKNOWN AM_NOT_USED AM_NOT_USED AM_NOT_USED None,
     op_entry 0 IT_UNKNOWN AM_NOT_USED AM_NOT_USED AM_NOT_USED None,
     op_entry 0 IT_UNKNOWN AM_NOT_USED AM_NOT_USED AM_NOT_USED None,
     op_entry 0 IT_UNKNOWN AM_NOT_USED AM_NOT_USED AM_NOT_USED None,
     prefixed 0 IT_GENERIC (AM_E OR OT_D) (AM_P OR OT_D) AM_NOT_USED (Some ''movd'') NO_OPCODE (specific 0 IT_GENERIC (AM_V OR OT_Q) (AM_W OR OT_Q) AM_NOT_USED (Some ''movq'')) (specific 0 IT_GENERIC (AM_E OR OT_D) (AM_V OR OT_DQ) AM_NOT_USED (Some ''movd'')),
     prefixed 0 IT_GENERIC (AM_Q OR OT_Q) (AM_P OR OT_Q) AM_NOT_USED (Some ''movq'') NO_OPCODE (specific 0 IT_GENERIC (AM_W OR OT_DQ) (AM_V OR OT_DQ) AM_NOT_USED (Some ''movdqu'')) (specific 0 IT_GENERIC (AM_W OR OT_DQ) (AM_V OR OT_DQ) AM_NOT_USED (Some ''movdqa'')),
     op_entry 0 IT_JUMP (AM_J OR OT_V) AM_NOT_USED AM_NOT_USED (Some ''jo''),
     op_entry 0 IT_JUMP (AM_J OR OT_V) AM_NOT_USED AM_NOT_USED (Some ''jno''),
     op_entry 0 IT_JUMP (AM_J OR OT_V) AM_NOT_USED AM_NOT_USED (Some ''jc''),
     op_entry 0 IT_JUMP (AM_J OR OT_V) AM_NOT_USED AM_NOT_USED (Some ''jnc''),
     op_entry 0 IT_JUMP (AM_J OR OT_V) AM_NOT_USED AM_NOT_USED (Some ''jz''),
     op_entry 0 IT_JUMP (AM_J OR OT_V) AM_NOT_USED AM_NOT_USED (Some ''jnz''),
     op_entry 0 IT_JUMP (AM_J OR OT_V) AM_NOT_USED AM_NOT_USED (Some ''jbe''),
     op_entry 0 IT_JUMP (AM_J OR OT_V) AM_NOT_USED AM_NOT_USED (Some ''ja''),
     op_entry 0 IT_JUMP (AM_J OR OT_V) AM_NOT_USED AM_NOT_USED (Some ''js''),
     op_entry 0 IT_JUMP (AM_J OR OT_V) AM_NOT_USED AM_NOT_USED (Some ''jns''),
     op_entry 0 IT_JUMP (AM_J OR OT_V) AM_NOT_USED AM_NOT_USED (Some ''jpe''),
     op_entry 0 IT_JUMP (AM_J OR OT_V) AM_NOT_USED AM_NOT_USED (Some ''jpo''),
     op_entry 0 IT_JUMP (AM_J OR OT_V) AM_NOT_USED AM_NOT_USED (Some ''jl''),
     op_entry 0 IT_JUMP (AM_J OR OT_V) AM_NOT_USED AM_NOT_USED (Some ''jge''),
     op_entry 0 IT_JUMP (AM_J OR OT_V) AM_NOT_USED AM_NOT_USED (Some ''jle''),
     op_entry 0 IT_JUMP (AM_J OR OT_V) AM_NOT_USED AM_NOT_USED (Some ''jg''),
     op_entry 0 IT_GENERIC (AM_E OR OT_B) AM_NOT_USED AM_NOT_USED (Some ''seto''),
     op_entry 0 IT_GENERIC (AM_E OR OT_B) AM_NOT_USED AM_NOT_USED (Some ''setno''),
     op_entry 0 IT_GENERIC (AM_E OR OT_B) AM_NOT_USED AM_NOT_USED (Some ''setc''),
     op_entry 0 IT_GENERIC (AM_E OR OT_B) AM_NOT_USED AM_NOT_USED (Some ''setnc''),
     op_entry 0 IT_GENERIC (AM_E OR OT_B) AM_NOT_USED AM_NOT_USED (Some ''setz''),
     op_entry 0 IT_GENERIC (AM_E OR OT_B) AM_NOT_USED AM_NOT_USED (Some ''setnz''),
     op_entry 0 IT_GENERIC (AM_E OR OT_B) AM_NOT_USED AM_NOT_USED (Some ''setbe''),
     op_entry 0 IT_GENERIC (AM_E OR OT_B) AM_NOT_USED AM_NOT_USED (Some ''seta''),
     op_entry 0 IT_GENERIC (AM_E OR OT_B) AM_NOT_USED AM_NOT_USED (Some ''sets''),
     op_entry 0 IT_GENERIC (AM_E OR OT_B) AM_NOT_USED AM_NOT_USED (Some ''setns''),
     op_entry 0 IT_GENERIC (AM_E OR OT_B) AM_NOT_USED AM_NOT_USED (Some ''setpe''),
     op_entry 0 IT_GENERIC (AM_E OR OT_B) AM_NOT_USED AM_NOT_USED (Some ''setpo''),
     op_entry 0 IT_GENERIC (AM_E OR OT_B) AM_NOT_USED AM_NOT_USED (Some ''setl''),
     op_entry 0 IT_GENERIC (AM_E OR OT_B) AM_NOT_USED AM_NOT_USED (Some ''setge''),
     op_entry 0 IT_GENERIC (AM_E OR OT_B) AM_NOT_USED AM_NOT_USED (Some ''setle''),
     op_entry 0 IT_GENERIC (AM_E OR OT_B) AM_NOT_USED AM_NOT_USED (Some ''setg''),
     op_entry 0 IT_GENERIC (AM_REGISTER OR OT_W) AM_NOT_USED AM_NOT_USED (Some ''push''),
     op_entry 0 IT_GENERIC (AM_REGISTER OR OT_W) AM_NOT_USED AM_NOT_USED (Some ''pop''),
     op_entry 0 IT_GENERIC AM_NOT_USED AM_NOT_USED AM_NOT_USED (Some ''cpuid''),
     op_entry 0 IT_GENERIC (AM_E OR OT_V) (AM_G OR OT_V) AM_NOT_USED (Some ''bt''),
     op_entry 0 IT_GENERIC (AM_E OR OT_V) (AM_G OR OT_V) (AM_I OR OT_B) (Some ''shld''),
     op_entry 0 IT_GENERIC (AM_E OR OT_V) (AM_G OR OT_V) (AM_I OR OT_B OR AM_REGISTER) (Some ''shld''),
     op_entry 0 IT_UNKNOWN AM_NOT_USED AM_NOT_USED AM_NOT_USED None,
     op_entry 0 IT_UNKNOWN AM_NOT_USED AM_NOT_USED AM_NOT_USED None,
     op_entry 0 IT_GENERIC (AM_REGISTER OR OT_W) AM_NOT_USED AM_NOT_USED (Some ''push''),
     op_entry 0 IT_GENERIC (AM_REGISTER OR OT_W) AM_NOT_USED AM_NOT_USED (Some ''pop''),
     op_entry 0 IT_GENERIC AM_NOT_USED AM_NOT_USED AM_NOT_USED (Some ''rsm''),
     op_entry 0 IT_GENERIC (AM_E OR OT_V) (AM_G OR OT_V) AM_NOT_USED (Some ''bts''),
     op_entry 0 IT_GENERIC (AM_E OR OT_V) (AM_G OR OT_V) (AM_I OR OT_B) (Some ''shrd''),
     op_entry 0 IT_GENERIC (AM_E OR OT_V) (AM_G OR OT_V) (AM_I OR OT_B OR AM_REGISTER) (Some ''shrd''),
     op_entry 22 IT_REFERENCE AM_NOT_USED AM_NOT_USED AM_NOT_USED None,
     op_entry 0 IT_GENERIC (AM_G OR OT_V) (AM_E OR OT_V) AM_NOT_USED (Some ''imul''),
     op_entry 0 IT_GENERIC (AM_E OR OT_B) (AM_G OR OT_B) AM_NOT_USED (Some ''cmpxchg''),
     op_entry 0 IT_GENERIC (AM_E OR OT_V) (AM_G OR OT_V) AM_NOT_USED (Some ''cmpxchg''),
     op_entry 0 IT_GENERIC (AM_M OR OT_P) AM_NOT_USED AM_NOT_USED (Some ''lss''),
     op_entry 0 IT_GENERIC (AM_E OR OT_V) (AM_G OR OT_V) AM_NOT_USED (Some ''btr''),
     op_entry 0 IT_GENERIC (AM_M OR OT_P) AM_NOT_USED AM_NOT_USED (Some ''lfs''),
     op_entry 0 IT_GENERIC (AM_M OR OT_P) AM_NOT_USED AM_NOT_USED (Some ''lgs''),
     op_entry 0 IT_GENERIC (AM_G OR OT_V) (AM_E OR OT_B) AM_NOT_USED (Some ''movzx''),
     op_entry 0 IT_GENERIC (AM_G OR OT_V) (AM_E OR OT_W) AM_NOT_USED (Some ''movzx''),
     op_entry 0 IT_UNKNOWN AM_NOT_USED AM_NOT_USED AM_NOT_USED None,
     op_entry 0 IT_UNKNOWN AM_NOT_USED AM_NOT_USED AM_NOT_USED (Some ''ud1''),
     op_entry 23 IT_REFERENCE AM_NOT_USED AM_NOT_USED AM_NOT_USED None,
     op_entry 0 IT_GENERIC (AM_E OR OT_V) (AM_G OR OT_V) AM_NOT_USED (Some ''btc''),
     op_entry 0 IT_GENERIC (AM_G OR OT_V) (AM_E OR OT_V) AM_NOT_USED (Some ''bsf''),
     op_entry 0 IT_GENERIC (AM_G OR OT_V) (AM_E OR OT_V) AM_NOT_USED (Some ''bsr''),
     op_entry 0 IT_GENERIC (AM_G OR OT_V) (AM_E OR OT_B) AM_NOT_USED (Some ''movsx''),
     op_entry 0 IT_GENERIC (AM_G OR OT_V) (AM_E OR OT_W) AM_NOT_USED (Some ''movsx''),
     op_entry 0 IT_GENERIC (AM_E OR OT_B) (AM_G OR OT_B) AM_NOT_USED (Some ''xadd''),
     op_entry 0 IT_GENERIC (AM_E OR OT_V) AM_NOT_USED AM_NOT_USED (Some ''xadd'')]"

definition after_0f_c2_e7 :: "opcode list" where
  "after_0f_c2_e7 = [
     prefixed 0 IT_GENERIC (AM_V OR OT_PS) (AM_W OR OT_PS) (AM_I OR OT_B) (Some ''cmpps'') (specific 0 IT_GENERIC (AM_V OR OT_SD) (AM_W OR OT_SD) (AM_I OR OT_B) (Some ''cmpsd'')) (specific 0 IT_GENERIC (AM_V OR OT_SS) (AM_W OR OT_SS) (AM_I OR OT_B) (Some ''cmpss'')) (specific 0 IT_GENERIC (AM_V OR OT_PD) (AM_W OR OT_PD) (AM_I OR OT_B) (Some ''cmppd'')),
     op_entry 0 IT_GENERIC (AM_E OR OT_D) (AM_G OR OT_D) AM_NOT_USED (Some ''movnti''),
     prefixed 0 IT_GENERIC (AM_P OR OT_Q) (AM_E OR OT_D) (AM_I OR OT_B) (Some ''pinsrw'') NO_OPCODE NO_OPCODE (specific 0 IT_GENERIC (AM_V OR OT_DQ) (AM_E OR OT_D) (AM_I OR OT_B) (Some ''pinsrw'')),
     prefixed 0 IT_GENERIC (AM_G OR OT_D) (AM_P OR OT_Q) (AM_I OR OT_B) (Some ''pextrw'') NO_OPCODE NO_OPCODE (specific 0 IT_GENERIC (AM_G OR OT_D) (AM_V OR OT_DQ) (AM_I OR OT_B) (Some ''pextrw'')),
     prefixed 0 IT_GENERIC (AM_V OR OT_PS) (AM_W OR OT_PS) (AM_I OR OT_B) (Some ''shufps'') NO_OPCODE NO_OPCODE (specific 0 IT_GENERIC (AM_V OR OT_PD) (AM_W OR OT_PD) (AM_I OR OT_B) (Some ''shufpd'')),
     op_entry 24 IT_REFERENCE AM_NOT_USED AM_NOT_USED AM_NOT_USED None,
     op_entry 0 IT_GENERIC (AM_REGISTER OR OT_D) AM_NOT_USED AM_NOT_USED (Some ''bswap''),
     op_entry 0 IT_GENERIC (AM_REGISTER OR OT_D) AM_NOT_USED AM_NOT_USED (Some ''bswap''),
     op_entry 0 IT_GENERIC (AM_REGISTER OR OT_D) AM_NOT_USED AM_NOT_USED (Some ''bswap''),
     op_entry 0 IT_GENERIC (AM_REGISTER OR OT_D) AM_NOT_USED AM_NOT_USED (Some ''bswap''),
     op_entry 0 IT_GENERIC (AM_REGISTER OR OT_D) AM_NOT_USED AM_NOT_USED (Some ''bswap''),
     op_entry 0 IT_GENERIC (AM_REGISTER OR OT_D) AM_NOT_USED AM_NOT_USED (Some ''bswap''),
     op_entry 0 IT_GENERIC (AM_REGISTER OR OT_D) AM_NOT_USED AM_NOT_USED (Some ''bswap''),
     op_entry 0 IT_GENERIC (AM_REGISTER OR OT_D) AM_NOT_USED AM_NOT_USED (Some ''bswap''),
     op_entry 0 IT_UNUSED AM_NOT_USED AM_NOT_USED AM_NOT_USED None,
     prefixed 0 IT_GENERIC (AM_P OR OT_Q) (AM_Q OR OT_Q) AM_NOT_USED (Some ''psrlw'') NO_OPCODE NO_OPCODE (specific 0 IT_GENERIC (AM_V OR OT_DQ) (AM_W OR OT_DQ) AM_NOT_USED (Some ''psrlw'')),
     prefixed 0 IT_GENERIC (AM_P OR OT_Q) (AM_Q OR OT_Q) AM_NOT_USED (Some ''psrld'') NO_OPCODE NO_OPCODE (specific 0 IT_GENERIC (AM_V OR OT_DQ) (AM_W OR OT_DQ) AM_NOT_USED (Some ''psrld'')),
     prefixed 0 IT_GENERIC (AM_P OR OT_Q) (AM_Q OR OT_Q) AM_NOT_USED (Some ''psrlq'') NO_OPCODE NO_OPCODE (specific 0 IT_GENERIC (AM_V OR OT_DQ) (AM_W OR OT_DQ) AM_NOT_USED (Some ''psrlq'')),
     prefixed 0 IT_GENERIC (AM_P OR OT_Q) (AM_Q OR OT_Q) AM_NOT_USED (Some ''paddq'') NO_OPCODE NO_OPCODE (specific 0 IT_GENERIC (AM_V OR OT_DQ) (AM_W OR OT_DQ) AM_NOT_USED (Some ''paddq'')),
     prefixed 0 IT_GENERIC (AM_P OR OT_Q) (AM_Q OR OT_Q) AM_NOT_USED (Some ''pmullw'') NO_OPCODE NO_OPCODE (specific 0 IT_GENERIC (AM_V OR OT_DQ) (AM_W OR OT_DQ) AM_NOT_USED (Some ''pmullw'')),
     prefixed 0 IT_GENERIC AM_NOT_USED AM_NOT_USED AM_NOT_USED (Some ''unused without prefix'') (specific 0 IT_GENERIC (AM_P OR OT_Q) (AM_W OR OT_Q) AM_NOT_USED (Some ''movdq2q'')) (specific 0 IT_GENERIC (AM_V OR OT_DQ) (AM_Q OR OT_Q) AM_NOT_USED (Some ''movq2dq'')) (specific 0 IT_GENERIC (AM_W OR OT_Q) (AM_V OR OT_Q) AM_NOT_USED (Some ''movq'')),
     prefixed 0 IT_GENERIC (AM_G OR OT_D) (AM_P OR OT_Q) AM_NOT_USED (Some ''pmovmskb'') NO_OPCODE NO_OPCODE (specific 0 IT_GENERIC (AM_G OR OT_D) (AM_V OR OT_DQ) AM_NOT_USED (Some ''pmovmskb'')),
     prefixed 0 IT_GENERIC (AM_P OR OT_Q) (AM_Q OR OT_Q) AM_NOT_USED (Some ''psubusb'') NO_OPCODE NO_OPCODE (specific 0 IT_GENERIC (AM_V OR OT_DQ) (AM_W OR OT_DQ) AM_NOT_USED (Some ''psubusb'')),
     prefixed 0 IT_GENERIC (AM_P OR OT_Q) (AM_Q OR OT_Q) AM_NOT_USED (Some ''psubusw'') NO_OPCODE NO_OPCODE (specific 0 IT_GENERIC (AM_V OR OT_DQ) (AM_W OR OT_DQ) AM_NOT_USED (Some ''psubusw'')),
     prefixed 0 IT_GENERIC (AM_P OR OT_Q) (AM_Q OR OT_Q) AM_NOT_USED (Some ''pminub'') NO_OPCODE NO_OPCODE (specific 0 IT_GENERIC (AM_V OR OT_DQ) (AM_W OR OT_DQ) AM_NOT_USED (Some ''pminub'')),
     prefixed 0 IT_GENERIC (AM_P OR OT_Q) (AM_Q OR OT_Q) AM_NOT_USED (Some ''pand'') NO_OPCODE NO_OPCODE (specific 0 IT_GENERIC (AM_V OR OT_DQ) (AM_W OR OT_DQ) AM_NOT_USED (Some ''pand'')),
     prefixed 0 IT_GENERIC (AM_P OR OT_Q) (AM_Q OR OT_Q) AM_NOT_USED (Some ''paddusb'') NO_OPCODE NO_OPCODE (specific 0 IT_GENERIC (AM_V OR OT_DQ) (AM_W OR OT_DQ) AM_NOT_USED (Some ''paddusb'')),
     prefixed 0 IT_GENERIC (AM_P OR OT_Q) (AM_Q OR OT_Q) AM_NOT_USED (Some ''paddusw'') NO_OPCODE NO_OPCODE (specific 0 IT_GENERIC (AM_V OR OT_DQ) (AM_W OR OT_DQ) AM_NOT_USED (Some ''paddusw'')),
     prefixed 0 IT_GENERIC (AM_P OR OT_Q) (AM_Q OR OT_Q) AM_NOT_USED (Some ''pmaxub'') NO_OPCODE NO_OPCODE (specific 0 IT_GENERIC (AM_V OR OT_DQ) (AM_W OR OT_DQ) AM_NOT_USED (Some ''pmaxub'')),
     prefixed 0 IT_GENERIC (AM_P OR OT_Q) (AM_Q OR OT_Q) AM_NOT_USED (Some ''pandn'') NO_OPCODE NO_OPCODE (specific 0 IT_GENERIC (AM_V OR OT_DQ) (AM_W OR OT_DQ) AM_NOT_USED (Some ''pandn'')),
     prefixed 0 IT_GENERIC (AM_P OR OT_Q) (AM_Q OR OT_Q) AM_NOT_USED (Some ''pavgb'') NO_OPCODE NO_OPCODE (specific 0 IT_GENERIC (AM_V OR OT_DQ) (AM_W OR OT_DQ) AM_NOT_USED (Some ''pavgb'')),
     prefixed 0 IT_GENERIC (AM_P OR OT_Q) (AM_Q OR OT_Q) AM_NOT_USED (Some ''psraw'') NO_OPCODE NO_OPCODE (specific 0 IT_GENERIC (AM_V OR OT_DQ) (AM_W OR OT_DQ) AM_NOT_USED (Some ''psrqw'')),
     prefixed 0 IT_GENERIC (AM_P OR OT_Q) (AM_Q OR OT_Q) AM_NOT_USED (Some ''psrad'') NO_OPCODE NO_OPCODE (specific 0 IT_GENERIC (AM_V OR OT_DQ) (AM_W OR OT_DQ) AM_NOT_USED (Some ''psrad'')),
     prefixed 0 IT_GENERIC (AM_P OR OT_Q) (AM_Q OR OT_Q) AM_NOT_USED (Some ''pavgw'') NO_OPCODE NO_OPCODE (specific 0 IT_GENERIC (AM_V OR OT_DQ) (AM_W OR OT_DQ) AM_NOT_USED (Some ''pavgw'')),
     prefixed 0 IT_GENERIC (AM_P OR OT_Q) (AM_Q OR OT_Q) AM_NOT_USED (Some ''pmulhuw'') NO_OPCODE NO_OPCODE (specific 0 IT_GENERIC (AM_V OR OT_DQ) (AM_W OR OT_DQ) AM_NOT_USED (Some ''pmulhuw'')),
     prefixed 0 IT_GENERIC (AM_P OR OT_Q) (AM_Q OR OT_Q) AM_NOT_USED (Some ''pmulhuw'') NO_OPCODE NO_OPCODE (specific 0 IT_GENERIC (AM_V OR OT_DQ) (AM_W OR OT_DQ) AM_NOT_USED (Some ''pmulhw'')),
     prefixed 0 IT_GENERIC AM_NOT_USED AM_NOT_USED AM_NOT_USED (Some ''not used without prefix'') (specific 0 IT_GENERIC (AM_V OR OT_DQ) (AM_W OR OT_PD) AM_NOT_USED (Some ''cvtpd2dq'')) (specific 0 IT_GENERIC (AM_V OR OT_PD) (AM_W OR OT_DQ) AM_NOT_USED (Some ''cvtdq2pd'')) (specific 0 IT_GENERIC (AM_V OR OT_DQ) (AM_W OR OT_PD) AM_NOT_USED (Some ''cvttpd2dq'')),
     prefixed 0 IT_GENERIC (AM_W OR OT_Q) (AM_V OR OT_Q) AM_NOT_USED (Some ''movntq'') NO_OPCODE NO_OPCODE (specific 0 IT_GENERIC (AM_W OR OT_DQ) (AM_V OR OT_DQ) AM_NOT_USED (Some ''movntdq''))]"

definition after_0f_e8_ff :: "opcode list" where
  "after_0f_e8_ff = [
     prefixed 0 IT_GENERIC (AM_P OR OT_Q) (AM_Q OR OT_Q) AM_NOT_USED (Some ''psubsb'') NO_OPCODE NO_OPCODE (specific 0 IT_GENERIC (AM_V OR OT_DQ) (AM_W OR OT_DQ) AM_NOT_USED (Some ''psubsb'')),
     prefixed 0 IT_GENERIC (AM_P OR OT_Q) (AM_Q OR OT_Q) AM_NOT_USED (Some ''psubsw'') NO_OPCODE NO_OPCODE (specific 0 IT_GENERIC (AM_V OR OT_DQ) (AM_W OR OT_DQ) AM_NOT_USED (Some ''psubsw'')),
     prefixed 0 IT_GENERIC (AM_P OR OT_Q) (AM_Q OR OT_Q) AM_NOT_USED (Some ''pminsw'') NO_OPCODE NO_OPCODE (specific 0 IT_GENERIC (AM_V OR OT_DQ) (AM_W OR OT_DQ) AM_NOT_USED (Some ''pminsw'')),
     prefixed 0 IT_GENERIC (AM_P OR OT_Q) (AM_Q OR OT_Q) AM_NOT_USED (Some ''por'') NO_OPCODE NO_OPCODE (specific 0 IT_GENERIC (AM_V OR OT_DQ) (AM_W OR OT_DQ) AM_NOT_USED (Some ''por'')),
     prefixed 0 IT_GENERIC (AM_P OR OT_Q) (AM_Q OR OT_Q) AM_NOT_USED (Some ''paddsb'') NO_OPCODE NO_OPCODE (specific 0 IT_GENERIC (AM_V OR OT_DQ) (AM_W OR OT_DQ) AM_NOT_USED (Some ''paddsb'')),
     prefixed 0 IT_GENERIC (AM_P OR OT_Q) (AM_Q OR OT_Q) AM_NOT_USED (Some ''paddsw'') NO_OPCODE NO_OPCODE (specific 0 IT_GENERIC (AM_V OR OT_DQ) (AM_W OR OT_DQ) AM_NOT_USED (Some ''paddsw'')),
     prefixed 0 IT_GENERIC (AM_P OR OT_Q) (AM_Q OR OT_Q) AM_NOT_USED (Some ''pmaxsw'') NO_OPCODE NO_OPCODE (specific 0 IT_GENERIC (AM_V OR OT_DQ) (AM_W OR OT_DQ) AM_NOT_USED (Some ''pmaxsw'')),
     prefixed 0 IT_GENERIC (AM_P OR OT_Q) (AM_Q OR OT_Q) AM_NOT_USED (Some ''pxor'') NO_OPCODE NO_OPCODE (specific 0 IT_GENERIC (AM_V OR OT_DQ) (AM_W OR OT_DQ) AM_NOT_USED (Some ''pxor'')),
     op_entry 0 IT_UNUSED AM_NOT_USED AM_NOT_USED AM_NOT_USED None,
     prefixed 0 IT_GENERIC (AM_P OR OT_Q) (AM_Q OR OT_Q) AM_NOT_USED (Some ''psllw'') NO_OPCODE NO_OPCODE (specific 0 IT_GENERIC (AM_V OR OT_DQ) (AM_W OR OT_DQ) AM_NOT_USED (Some ''psllw'')),
     prefixed 0 IT_GENERIC (AM_P OR OT_Q) (AM_Q OR OT_Q) AM_NOT_USED (Some ''pslld'') NO_OPCODE NO_OPCODE (specific 0 IT_GENERIC (AM_V OR OT_DQ) (AM_W OR OT_DQ) AM_NOT_USED (Some ''pslld'')),
     prefixed 0 IT_GENERIC (AM_P OR OT_Q) (AM_Q OR OT_Q) AM_NOT_USED (Some ''psllq'') NO_OPCODE NO_OPCODE (specific 0 IT_GENERIC (AM_V OR OT_DQ) (AM_W OR OT_DQ) AM_NOT_USED (Some ''psllq'')),
     prefixed 0 IT_GENERIC (AM_P OR OT_Q) (AM_Q OR OT_Q) AM_NOT_USED (Some ''pmuludq'') NO_OPCODE NO_OPCODE (specific 0 IT_GENERIC (AM_V OR OT_DQ) (AM_W OR OT_DQ) AM_NOT_USED (Some ''pmuludq'')),
     prefixed 0 IT_GENERIC (AM_P OR OT_Q) (AM_Q OR OT_Q) AM_NOT_USED (Some ''pmaddwd'') NO_OPCODE NO_OPCODE (specific 0 IT_GENERIC (AM_V OR OT_DQ) (AM_W OR OT_DQ) AM_NOT_USED (Some ''pmaddwd'')),
     prefixed 0 IT_GENERIC (AM_P OR OT_Q) (AM_Q OR OT_Q) AM_NOT_USED (Some ''psadbw'') NO_OPCODE NO_OPCODE (specific 0 IT_GENERIC (AM_V OR OT_DQ) (AM_W OR OT_DQ) AM_NOT_USED (Some ''psadbw'')),
     prefixed 0 IT_GENERIC (AM_P OR OT_PI) (AM_Q OR OT_PI) AM_NOT_USED (Some ''maskmovq'') NO_OPCODE NO_OPCODE (specific 0 IT_GENERIC (AM_V OR OT_DQ) (AM_W OR OT_DQ) AM_NOT_USED (Some ''maskmovdqu'')),
     prefixed 0 IT_GENERIC (AM_P OR OT_Q) (AM_Q OR OT_Q) AM_NOT_USED (Some ''psubb'') NO_OPCODE NO_OPCODE (specific 0 IT_GENERIC (AM_V OR OT_DQ) (AM_W OR OT_DQ) AM_NOT_USED (Some ''psubb'')),
     prefixed 0 IT_GENERIC (AM_P OR OT_Q) (AM_Q OR OT_Q) AM_NOT_USED (Some ''psubw'') NO_OPCODE NO_OPCODE (specific 0 IT_GENERIC (AM_V OR OT_DQ) (AM_W OR OT_DQ) AM_NOT_USED (Some ''psubw'')),
     prefixed 0 IT_GENERIC (AM_P OR OT_Q) (AM_Q OR OT_Q) AM_NOT_USED (Some ''psubd'') NO_OPCODE NO_OPCODE (specific 0 IT_GENERIC (AM_V OR OT_DQ) (AM_W OR OT_DQ) AM_NOT_USED (Some ''psubd'')),
     prefixed 0 IT_GENERIC (AM_P OR OT_Q) (AM_Q OR OT_Q) AM_NOT_USED (Some ''psubq'') NO_OPCODE NO_OPCODE (specific 0 IT_GENERIC (AM_V OR OT_DQ) (AM_W OR OT_DQ) AM_NOT_USED (Some ''psubq'')),
     prefixed 0 IT_GENERIC (AM_P OR OT_Q) (AM_Q OR OT_Q) AM_NOT_USED (Some ''paddb'') NO_OPCODE NO_OPCODE (specific 0 IT_GENERIC (AM_V OR OT_DQ) (AM_W OR OT_DQ) AM_NOT_USED (Some ''paddb'')),
     prefixed 0 IT_GENERIC (AM_P OR OT_Q) (AM_Q OR OT_Q) AM_NOT_USED (Some ''paddw'') NO_OPCODE NO_OPCODE (specific 0 IT_GENERIC (AM_V OR OT_DQ) (AM_W OR OT_DQ) AM_NOT_USED (Some ''paddw'')),
     prefixed 0 IT_GENERIC (AM_P OR OT_Q) (AM_Q OR OT_Q) AM_NOT_USED (Some ''paddd'') NO_OPCODE NO_OPCODE (specific 0 IT_GENERIC (AM_V OR OT_DQ) (AM_W OR OT_DQ) AM_NOT_USED (Some ''paddd'')),
     op_entry 0 IT_UNUSED AM_NOT_USED AM_NOT_USED AM_NOT_USED None]"

definition s_opcode_byte_after_0f :: "opcode list" where
  "s_opcode_byte_after_0f = after_0f_00_47 @ after_0f_48_6b @ after_0f_6c_c1 @ after_0f_c2_e7 @ after_0f_e8_ff"

definition s_opcode_byte_after_0f00 :: "opcode list" where
  "s_opcode_byte_after_0f00 = [
     op_entry 0 IT_GENERIC (AM_E OR OT_W) AM_NOT_USED AM_NOT_USED (Some ''sldt''),
     op_entry 0 IT_GENERIC (AM_E OR OT_W) AM_NOT_USED AM_NOT_USED (Some ''str''),
     op_entry 0 IT_GENERIC (AM_E OR OT_W) AM_NOT_USED AM_NOT_USED (Some ''lldt''),
     op_entry 0 IT_GENERIC (AM_E OR OT_W) AM_NOT_USED AM_NOT_USED (Some ''ltr''),
     op_entry 0 IT_GENERIC (AM_E OR OT_W) AM_NOT_USED AM_NOT_USED (Some ''verr''),
     op_entry 0 IT_GENERIC (AM_E OR OT_W) AM_NOT_USED AM_NOT_USED (Some ''verw''),
     op_entry 0 IT_UNUSED AM_NOT_USED AM_NOT_USED AM_NOT_USED None,
     op_entry 0 IT_UNUSED AM_NOT_USED AM_NOT_USED AM_NOT_USED None]"

definition s_opcode_byte_after_0f01 :: "opcode list" where
  "s_opcode_byte_after_0f01 = [
     op_entry 0 IT_GENERIC (AM_M OR OT_S) AM_NOT_USED AM_NOT_USED (Some ''sgdt''),
     op_entry 0 IT_GENERIC (AM_M OR OT_S) AM_NOT_USED AM_NOT_USED (Some ''sidt''),
     op_entry 0 IT_GENERIC (AM_M OR OT_S) AM_NOT_USED AM_NOT_USED (Some ''lgdt''),
     op_entry 0 IT_GENERIC (AM_M OR OT_S) AM_NOT_USED AM_NOT_USED (Some ''lidt''),
     op_entry 0 IT_GENERIC (AM_E OR OT_W) AM_NOT_USED AM_NOT_USED (Some ''smsw''),
     op_entry 0 IT_UNUSED AM_NOT_USED AM_NOT_USED AM_NOT_USED None,
     op_entry 0 IT_GENERIC (AM_E OR OT_W) AM_NOT_USED AM_NOT_USED (Some ''lmsw''),
     op_entry 0 IT_GENERIC (AM_M OR OT_B) AM_NOT_USED AM_NOT_USED (Some ''invlpg'')]"

definition s_opcode_byte_after_0f18 :: "opcode list" where
  "s_opcode_byte_after_0f18 = [
     op_entry 0 IT_GENERIC (AM_M OR OT_ADDRESS_MODE_M) AM_NOT_USED AM_NOT_USED (Some ''prefetch''),
     op_entry 0 IT_GENERIC (AM_REGISTER OR OT_D) AM_NOT_USED AM_NOT_USED (Some ''prefetch''),
     op_entry 0 IT_GENERIC (AM_REGISTER OR OT_D) AM_NOT_USED AM_NOT_USED (Some ''prefetch''),
     op_entry 0 IT_GENERIC (AM_REGISTER OR OT_D) AM_NOT_USED AM_NOT_USED (Some ''prefetch''),
     op_entry 0 IT_UNUSED AM_NOT_USED AM_NOT_USED AM_NOT_USED None,
     op_entry 0 IT_UNUSED AM_NOT_USED AM_NOT_USED AM_NOT_USED None,
     op_entry 0 IT_UNUSED AM_NOT_USED AM_NOT_USED AM_NOT_USED None,
     op_entry 0 IT_UNUSED AM_NOT_USED AM_NOT_USED AM_NOT_USED None]"

definition s_opcode_byte_after_0f71 :: "opcode list" where
  "s_opcode_byte_after_0f71 = [
     op_entry 0 IT_UNUSED AM_NOT_USED AM_NOT_USED AM_NOT_USED None,
     op_entry 0 IT_UNUSED AM_NOT_USED AM_NOT_USED AM_NOT_USED None,
     prefixed 0 IT_GENERIC (AM_P OR OT_Q) (AM_I OR OT_B) AM_NOT_USED (Some ''psrlw'') NO_OPCODE NO_OPCODE (specific 0 IT_GENERIC (AM_P OR OT_DQ) (AM_I OR OT_B) AM_NOT_USED (Some ''psrlw'')),
     op_entry 0 IT_UNUSED AM_NOT_USED AM_NOT_USED AM_NOT_USED None,
     prefixed 0 IT_GENERIC (AM_P OR OT_Q) (AM_I OR OT_B) AM_NOT_USED (Some ''psraw'') NO_OPCODE NO_OPCODE (specific 0 IT_GENERIC (AM_P OR OT_DQ) (AM_I OR OT_B) AM_NOT_USED (Some ''psraw'')),
     op_entry 0 IT_UNUSED AM_NOT_USED AM_NOT_USED AM_NOT_USED None,
     prefixed 0 IT_GENERIC (AM_P OR OT_Q) (AM_I OR OT_B) AM_NOT_USED (Some ''psllw'') NO_OPCODE NO_OPCODE (specific 0 IT_GENERIC (AM_P OR OT_DQ) (AM_I OR OT_B) AM_NOT_USED (Some ''psllw'')),
     op_entry 0 IT_UNUSED AM_NOT_USED AM_NOT_USED AM_NOT_USED None]"

definition s_opcode_byte_after_0f72 :: "opcode list" where
  "s_opcode_byte_after_0f72 = [
     op_entry 0 IT_UNUSED AM_NOT_USED AM_NOT_USED AM_NOT_USED None,
     op_entry 0 IT_UNUSED AM_NOT_USED AM_NOT_USED AM_NOT_USED None,
     prefixed 0 IT_GENERIC (AM_P OR OT_Q) (AM_I OR OT_B) AM_NOT_USED (Some ''psrld'') NO_OPCODE NO_OPCODE (specific 0 IT_GENERIC (AM_W OR OT_DQ) (AM_I OR OT_B) AM_NOT_USED (Some ''psrld'')),
     op_entry 0 IT_UNUSED AM_NOT_USED AM_NOT_USED AM_NOT_USED None,
     prefixed 0 IT_GENERIC (AM_P OR OT_Q) (AM_I OR OT_B) AM_NOT_USED (Some ''psrad'') NO_OPCODE NO_OPCODE (specific 0 IT_GENERIC (AM_W OR OT_DQ) (AM_I OR OT_B) AM_NOT_USED (Some ''psrad'')),
     op_entry 0 IT_UNUSED AM_NOT_USED AM_NOT_USED AM_NOT_USED None,
     prefixed 0 IT_GENERIC (AM_P OR OT_Q) (AM_I OR OT_B) AM_NOT_USED (Some ''pslld'') NO_OPCODE NO_OPCODE (specific 0 IT_GENERIC (AM_W OR OT_DQ) (AM_I OR OT_B) AM_NOT_USED (Some ''pslld'')),
     op_entry 0 IT_UNUSED AM_NOT_USED AM_NOT_USED AM_NOT_USED None]"

definition s_opcode_byte_after_0f73 :: "opcode list" where
  "s_opcode_byte_after_0f73 = [
     op_entry 0 IT_UNUSED AM_NOT_USED AM_NOT_USED AM_NOT_USED None,
     op_entry 0 IT_UNUSED AM_NOT_USED AM_NOT_USED AM_NOT_USED None,
     prefixed 0 IT_GENERIC (AM_P OR OT_Q) (AM_I OR OT_B) AM_NOT_USED (Some ''psrlq'') NO_OPCODE NO_OPCODE (specific 0 IT_GENERIC (AM_W OR OT_DQ) (AM_I OR OT_B) AM_NOT_USED (Some ''psrlq'')),
     op_entry 0 IT_UNUSED AM_NOT_USED AM_NOT_USED AM_NOT_USED None,
     op_entry 0 IT_UNUSED AM_NOT_USED AM_NOT_USED AM_NOT_USED None,
     op_entry 0 IT_UNUSED AM_NOT_USED AM_NOT_USED AM_NOT_USED None,
     prefixed 0 IT_GENERIC (AM_P OR OT_Q) (AM_I OR OT_B) AM_NOT_USED (Some ''psllq'') NO_OPCODE NO_OPCODE (specific 0 IT_GENERIC (AM_W OR OT_DQ) (AM_I OR OT_B) AM_NOT_USED (Some ''psllq'')),
     prefixed 0 IT_GENERIC (AM_W OR OT_DQ) (AM_I OR OT_B) AM_NOT_USED (Some ''pslldq'') NO_OPCODE NO_OPCODE (specific 0 IT_GENERIC (AM_W OR OT_DQ) (AM_I OR OT_B) AM_NOT_USED (Some ''pslldq''))]"

definition s_opcode_byte_after_0fae :: "opcode list" where
  "s_opcode_byte_after_0fae = [
     op_entry 0 IT_GENERIC AM_NOT_USED AM_NOT_USED AM_NOT_USED (Some ''fxsave''),
     op_entry 0 IT_GENERIC AM_NOT_USED AM_NOT_USED AM_NOT_USED (Some ''fxrstor''),
     op_entry 0 IT_GENERIC AM_NOT_USED AM_NOT_USED AM_NOT_USED (Some ''ldmxcsr''),
     op_entry 0 IT_GENERIC AM_NOT_USED AM_NOT_USED AM_NOT_USED (Some ''stmxcsr''),
     op_entry 0 IT_UNUSED AM_NOT_USED AM_NOT_USED AM_NOT_USED None,
     op_entry 0 IT_GENERIC AM_NOT_USED AM_NOT_USED AM_NOT_USED (Some ''lfence''),
     op_entry 0 IT_GENERIC AM_NOT_USED AM_NOT_USED AM_NOT_USED (Some ''mfence''),
     op_entry 0 IT_GENERIC AM_NOT_USED AM_NOT_USED AM_NOT_USED (Some ''clflush/sfence'')]"

definition s_opcode_byte_after_0fba :: "opcode list" where
  "s_opcode_byte_after_0fba = [
     op_entry 0 IT_UNUSED AM_NOT_USED AM_NOT_USED AM_NOT_USED None,
     op_entry 0 IT_UNUSED AM_NOT_USED AM_NOT_USED AM_NOT_USED None,
     op_entry 0 IT_UNUSED AM_NOT_USED AM_NOT_USED AM_NOT_USED None,
     op_entry 0 IT_UNUSED AM_NOT_USED AM_NOT_USED AM_NOT_USED None,
     op_entry 0 IT_GENERIC (AM_E OR OT_V) (AM_I OR OT_B) AM_NOT_USED (Some ''bt''),
     op_entry 0 IT_GENERIC (AM_E OR OT_V) (AM_I OR OT_B) AM_NOT_USED (Some ''bts''),
     op_entry 0 IT_GENERIC (AM_E OR OT_V) (AM_I OR OT_B) AM_NOT_USED (Some ''btr''),
     op_entry 0 IT_GENERIC (AM_E OR OT_V) (AM_I OR OT_B) AM_NOT_USED (Some ''btc'')]"

definition s_opcode_byte_after_0fc7 :: "opcode list" where
  "s_opcode_byte_after_0fc7 = [
     op_entry 0 IT_UNUSED AM_NOT_USED AM_NOT_USED AM_NOT_USED None,
     op_entry 0 IT_GENERIC (AM_M OR OT_Q) AM_NOT_USED AM_NOT_USED (Some ''cmpxch8b'')]"

definition s_opcode_byte_after_80 :: "opcode list" where
  "s_opcode_byte_after_80 = [
     op_entry 0 IT_GENERIC (AM_E OR OT_B) (AM_I OR OT_B) AM_NOT_USED (Some ''add''),
     op_entry 0 IT_GENERIC (AM_E OR OT_B) (AM_I OR OT_B) AM_NOT_USED (Some ''or''),
     op_entry 0 IT_GENERIC (AM_E OR OT_B) (AM_I OR OT_B) AM_NOT_USED (Some ''adc''),
     op_entry 0 IT_GENERIC (AM_E OR OT_B) (AM_I OR OT_B) AM_NOT_USED (Some ''sbb''),
     op_entry 0 IT_GENERIC (AM_E OR OT_B) (AM_I OR OT_B) AM_NOT_USED (Some ''and''),
     op_entry 0 IT_GENERIC (AM_E OR OT_B) (AM_I OR OT_B) AM_NOT_USED (Some ''sub''),
     op_entry 0 IT_GENERIC (AM_E OR OT_B) (AM_I OR OT_B) AM_NOT_USED (Some ''xor''),
     op_entry 0 IT_GENERIC (AM_E OR OT_B) (AM_I OR OT_B) AM_NOT_USED (Some ''cmp'')]"

definition s_opcode_byte_after_81 :: "opcode list" where
  "s_opcode_byte_after_81 = [
     op_entry 0 IT_GENERIC (AM_E OR OT_V) (AM_I OR OT_V) AM_NOT_USED (Some ''add''),
     op_entry 0 IT_GENERIC (AM_E OR OT_V) (AM_I OR OT_V) AM_NOT_USED (Some ''or''),
     op_entry 0 IT_GENERIC (AM_E OR OT_V) (AM_I OR OT_V) AM_NOT_USED (Some ''adc''),
     op_entry 0 IT_GENERIC (AM_E OR OT_V) (AM_I OR OT_V) AM_NOT_USED (Some ''sbb''),
     op_entry 0 IT_GENERIC (AM_E OR OT_V) (AM_I OR OT_V) AM_NOT_USED (Some ''and''),
     op_entry 0 IT_GENERIC (AM_E OR OT_V) (AM_I OR OT_V) AM_NOT_USED (Some ''sub''),
     op_entry 0 IT_GENERIC (AM_E OR OT_V) (AM_I OR OT_V) AM_NOT_USED (Some ''xor''),
     op_entry 0 IT_GENERIC (AM_E OR OT_V) (AM_I OR OT_V) AM_NOT_USED (Some ''cmp'')]"

definition s_opcode_byte_after_82 :: "opcode list" where
  "s_opcode_byte_after_82 = [
     op_entry 0 IT_GENERIC (AM_E OR OT_V) (AM_I OR OT_B) AM_NOT_USED (Some ''add''),
     op_entry 0 IT_GENERIC (AM_E OR OT_V) (AM_I OR OT_B) AM_NOT_USED (Some ''or''),
     op_entry 0 IT_GENERIC (AM_E OR OT_V) (AM_I OR OT_B) AM_NOT_USED (Some ''adc''),
     op_entry 0 IT_GENERIC (AM_E OR OT_V) (AM_I OR OT_B) AM_NOT_USED (Some ''sbb''),
     op_entry 0 IT_GENERIC (AM_E OR OT_V) (AM_I OR OT_B) AM_NOT_USED (Some ''and''),
     op_entry 0 IT_GENERIC (AM_E OR OT_V) (AM_I OR OT_B) AM_NOT_USED (Some ''sub''),
     op_entry 0 IT_GENERIC (AM_E OR OT_V) (AM_I OR OT_B) AM_NOT_USED (Some ''xor''),
     op_entry 0 IT_GENERIC (AM_E OR OT_V) (AM_I OR OT_B) AM_NOT_USED (Some ''cmp'')]"

definition s_opcode_byte_after_83 :: "opcode list" where
  "s_opcode_byte_after_83 = [
     op_entry 0 IT_GENERIC (AM_E OR OT_V) (AM_I OR OT_B) AM_NOT_USED (Some ''add''),
     op_entry 0 IT_GENERIC (AM_E OR OT_V) (AM_I OR OT_B) AM_NOT_USED (Some ''or''),
     op_entry 0 IT_GENERIC (AM_E OR OT_V) (AM_I OR OT_B) AM_NOT_USED (Some ''adc''),
     op_entry 0 IT_GENERIC (AM_E OR OT_V) (AM_I OR OT_B) AM_NOT_USED (Some ''sbb''),
     op_entry 0 IT_GENERIC (AM_E OR OT_V) (AM_I OR OT_B) AM_NOT_USED (Some ''and''),
     op_entry 0 IT_GENERIC (AM_E OR OT_V) (AM_I OR OT_B) AM_NOT_USED (Some ''sub''),
     op_entry 0 IT_GENERIC (AM_E OR OT_V) (AM_I OR OT_B) AM_NOT_USED (Some ''xor''),
     op_entry 0 IT_GENERIC (AM_E OR OT_V) (AM_I OR OT_B) AM_NOT_USED (Some ''cmp'')]"

definition s_opcode_byte_after_c0 :: "opcode list" where
  "s_opcode_byte_after_c0 = [
     op_entry 0 IT_GENERIC (AM_E OR OT_B) (AM_I OR OT_B) AM_NOT_USED (Some ''rol''),
     op_entry 0 IT_GENERIC (AM_E OR OT_B) (AM_I OR OT_B) AM_NOT_USED (Some ''ror''),
     op_entry 0 IT_GENERIC (AM_E OR OT_B) (AM_I OR OT_B) AM_NOT_USED (Some ''rcl''),
     op_entry 0 IT_GENERIC (AM_E OR OT_B) (AM_I OR OT_B) AM_NOT_USED (Some ''rcr''),
     op_entry 0 IT_GENERIC (AM_E OR OT_B) (AM_I OR OT_B) AM_NOT_USED (Some ''shl''),
     op_entry 0 IT_GENERIC (AM_E OR OT_B) (AM_I OR OT_B) AM_NOT_USED (Some ''shr''),
     op_entry 0 IT_GENERIC (AM_E OR OT_B) (AM_I OR OT_B) AM_NOT_USED (Some ''sal''),
     op_entry 0 IT_GENERIC (AM_E OR OT_B) (AM_I OR OT_B) AM_NOT_USED (Some ''sar'')]"

definition s_opcode_byte_after_c1 :: "opcode list" where
  "s_opcode_byte_after_c1 = [
     op_entry 0 IT_GENERIC (AM_E OR OT_V) (AM_I OR OT_B) AM_NOT_USED (Some ''rol''),
     op_entry 0 IT_GENERIC (AM_E OR OT_V) (AM_I OR OT_B) AM_NOT_USED (Some ''ror''),
     op_entry 0 IT_GENERIC (AM_E OR OT_V) (AM_I OR OT_B) AM_NOT_USED (Some ''rcl''),
     op_entry 0 IT_GENERIC (AM_E OR OT_V) (AM_I OR OT_B) AM_NOT_USED (Some ''rcr''),
     op_entry 0 IT_GENERIC (AM_E OR OT_V) (AM_I OR OT_B) AM_NOT_USED (Some ''shl''),
     op_entry 0 IT_GENERIC (AM_E OR OT_V) (AM_I OR OT_B) AM_NOT_USED (Some ''shr''),
     op_entry 0 IT_GENERIC (AM_E OR OT_V) (AM_I OR OT_B) AM_NOT_USED (Some ''sal''),
     op_entry 0 IT_GENERIC (AM_E OR OT_V) (AM_I OR OT_B) AM_NOT_USED (Some ''sar'')]"

definition s_opcode_byte_after_d0 :: "opcode list" where
  "s_opcode_byte_after_d0 = [
     op_entry 0 IT_GENERIC (AM_E OR OT_B) AM_IMPLICIT AM_NOT_USED (Some ''rol''),
     op_entry 0 IT_GENERIC (AM_E OR OT_B) AM_IMPLICIT AM_NOT_USED (Some ''ror''),
     op_entry 0 IT_GENERIC (AM_E OR OT_B) AM_IMPLICIT AM_NOT_USED (Some ''rcl''),
     op_entry 0 IT_GENERIC (AM_E OR OT_B) AM_IMPLICIT AM_NOT_USED (Some ''rcr''),
     op_entry 0 IT_GENERIC (AM_E OR OT_B) AM_IMPLICIT AM_NOT_USED (Some ''shl''),
     op_entry 0 IT_GENERIC (AM_E OR OT_B) AM_IMPLICIT AM_NOT_USED (Some ''shr''),
     op_entry 0 IT_GENERIC (AM_E OR OT_B) AM_IMPLICIT AM_NOT_USED (Some ''sal''),
     op_entry 0 IT_GENERIC (AM_E OR OT_B) AM_IMPLICIT AM_NOT_USED (Some ''sar'')]"

definition s_opcode_byte_after_d1 :: "opcode list" where
  "s_opcode_byte_after_d1 = [
     op_entry 0 IT_GENERIC (AM_E OR OT_V) AM_IMPLICIT AM_NOT_USED (Some ''rol''),
     op_entry 0 IT_GENERIC (AM_E OR OT_V) AM_IMPLICIT AM_NOT_USED (Some ''ror''),
     op_entry 0 IT_GENERIC (AM_E OR OT_V) AM_IMPLICIT AM_NOT_USED (Some ''rcl''),
     op_entry 0 IT_GENERIC (AM_E OR OT_V) AM_IMPLICIT AM_NOT_USED (Some ''rcr''),
     op_entry 0 IT_GENERIC (AM_E OR OT_V) AM_IMPLICIT AM_NOT_USED (Some ''shl''),
     op_entry 0 IT_GENERIC (AM_E OR OT_V) AM_IMPLICIT AM_NOT_USED (Some ''shr''),
     op_entry 0 IT_GENERIC (AM_E OR OT_V) AM_IMPLICIT AM_NOT_USED (Some ''sal''),
     op_entry 0 IT_GENERIC (AM_E OR OT_V) AM_IMPLICIT AM_NOT_USED (Some ''sar'')]"

definition s_opcode_byte_after_d2 :: "opcode list" where
  "s_opcode_byte_after_d2 = [
     op_entry 0 IT_GENERIC (AM_E OR OT_B) (AM_REGISTER OR OT_B) AM_NOT_USED (Some ''rol''),
     op_entry 0 IT_GENERIC (AM_E OR OT_B) (AM_REGISTER OR OT_B) AM_NOT_USED (Some ''ror''),
     op_entry 0 IT_GENERIC (AM_E OR OT_B) (AM_REGISTER OR OT_B) AM_NOT_USED (Some ''rcl''),
     op_entry 0 IT_GENERIC (AM_E OR OT_B) (AM_REGISTER OR OT_B) AM_NOT_USED (Some ''rcr''),
     op_entry 0 IT_GENERIC (AM_E OR OT_B) (AM_REGISTER OR OT_B) AM_NOT_USED (Some ''shl''),
     op_entry 0 IT_GENERIC (AM_E OR OT_B) (AM_REGISTER OR OT_B) AM_NOT_USED (Some ''shr''),
     op_entry 0 IT_GENERIC (AM_E OR OT_B) (AM_REGISTER OR OT_B) AM_NOT_USED (Some ''sal''),
     op_entry 0 IT_GENERIC (AM_E OR OT_B) (AM_REGISTER OR OT_B) AM_NOT_USED (Some ''sar'')]"

definition s_opcode_byte_after_d3 :: "opcode list" where
  "s_opcode_byte_after_d3 = [
     op_entry 0 IT_GENERIC (AM_E OR OT_V) (AM_REGISTER OR OT_B) AM_NOT_USED (Some ''rol''),
     op_entry 0 IT_GENERIC (AM_E OR OT_V) (AM_REGISTER OR OT_B) AM_NOT_USED (Some ''ror''),
     op_entry 0 IT_GENERIC (AM_E OR OT_V) (AM_REGISTER OR OT_B) AM_NOT_USED (Some ''rcl''),
     op_entry 0 IT_GENERIC (AM_E OR OT_V) (AM_REGISTER OR OT_B) AM_NOT_USED (Some ''rcr''),
     op_entry 0 IT_GENERIC (AM_E OR OT_V) (AM_REGISTER OR OT_B) AM_NOT_USED (Some ''shl''),
     op_entry 0 IT_GENERIC (AM_E OR OT_V) (AM_REGISTER OR OT_B) AM_NOT_USED (Some ''shr''),
     op_entry 0 IT_GENERIC (AM_E OR OT_V) (AM_REGISTER OR OT_B) AM_NOT_USED (Some ''sal''),
     op_entry 0 IT_GENERIC (AM_E OR OT_V) (AM_REGISTER OR OT_B) AM_NOT_USED (Some ''sar'')]"

definition s_opcode_byte_after_f6 :: "opcode list" where
  "s_opcode_byte_after_f6 = [
     op_entry 0 IT_GENERIC (AM_E OR OT_B) (AM_I OR OT_B) AM_NOT_USED (Some ''test''),
     op_entry 0 IT_GENERIC (AM_E OR OT_B) (AM_I OR OT_B) AM_NOT_USED (Some ''test''),
     op_entry 0 IT_GENERIC (AM_E OR OT_B) AM_NOT_USED AM_NOT_USED (Some ''not''),
     op_entry 0 IT_GENERIC (AM_E OR OT_B) AM_NOT_USED AM_NOT_USED (Some ''neg''),
     op_entry 0 IT_GENERIC (OT_B OR AM_REGISTER) (AM_E OR OT_B) AM_NOT_USED (Some ''mul''),
     op_entry 0 IT_GENERIC (OT_B OR AM_REGISTER) (AM_E OR OT_B) AM_NOT_USED (Some ''imul''),
     op_entry 0 IT_GENERIC (AM_REGISTER OR OT_B) (AM_E OR OT_B) AM_NOT_USED (Some ''div''),
     op_entry 0 IT_GENERIC (AM_REGISTER OR OT_B) (AM_E OR OT_B) AM_NOT_USED (Some ''idiv'')]"

definition s_opcode_byte_after_f7 :: "opcode list" where
  "s_opcode_byte_after_f7 = [
     op_entry 0 IT_GENERIC (AM_E OR OT_V) (AM_I OR OT_V) AM_NOT_USED (Some ''test''),
     op_entry 0 IT_GENERIC (AM_E OR OT_V) (AM_I OR OT_V) AM_NOT_USED (Some ''test''),
     op_entry 0 IT_GENERIC (AM_E OR OT_V) AM_NOT_USED AM_NOT_USED (Some ''not''),
     op_entry 0 IT_GENERIC (AM_E OR OT_V) AM_NOT_USED AM_NOT_USED (Some ''neg''),
     op_entry 0 IT_GENERIC (AM_REGISTER OR OT_V) (AM_E OR OT_V) AM_NOT_USED (Some ''mul''),
     op_entry 0 IT_GENERIC (AM_REGISTER OR OT_V) (AM_E OR OT_V) AM_NOT_USED (Some ''imul''),
     op_entry 0 IT_GENERIC (AM_REGISTER OR OT_V) (AM_E OR OT_V) AM_NOT_USED (Some ''div''),
     op_entry 0 IT_GENERIC (AM_REGISTER OR OT_V) (AM_E OR OT_V) AM_NOT_USED (Some ''idiv'')]"

definition s_opcode_byte_after_fe :: "opcode list" where
  "s_opcode_byte_after_fe = [
     op_entry 0 IT_GENERIC (AM_E OR OT_B) AM_NOT_USED AM_NOT_USED (Some ''inc''),
     op_entry 0 IT_GENERIC (AM_E OR OT_B) AM_NOT_USED AM_NOT_USED (Some ''dec'')]"

definition s_opcode_byte_after_ff :: "opcode list" where
  "s_opcode_byte_after_ff = [
     op_entry 0 IT_GENERIC (AM_E OR OT_V) AM_NOT_USED AM_NOT_USED (Some ''inc''),
     op_entry 0 IT_GENERIC (AM_E OR OT_V) AM_NOT_USED AM_NOT_USED (Some ''dec''),
     op_entry 0 IT_JUMP (AM_E OR OT_V) AM_NOT_USED AM_NOT_USED (Some ''call''),
     op_entry 0 IT_JUMP (AM_E OR OT_P) AM_NOT_USED AM_NOT_USED (Some ''call''),
     op_entry 0 IT_JUMP (AM_E OR OT_V) AM_NOT_USED AM_NOT_USED (Some ''jmp''),
     op_entry 0 IT_JUMP (AM_E OR OT_P) AM_NOT_USED AM_NOT_USED (Some ''jmp''),
     op_entry 0 IT_GENERIC (AM_E OR OT_V) AM_NOT_USED AM_NOT_USED (Some ''push''),
     op_entry 0 IT_UNUSED AM_NOT_USED AM_NOT_USED AM_NOT_USED None]"

definition s_ia32_opcode_map :: "bool \<Rightarrow> opcode_table list" where
  "s_ia32_opcode_map x64 = [
     table (s_first_opcode_byte x64) 0 255 0 255,
     table s_opcode_byte_after_0f 0 255 0 255,
     table s_opcode_byte_after_80 3 7 0 7,
     table s_opcode_byte_after_81 3 7 0 7,
     table s_opcode_byte_after_82 3 7 0 7,
     table s_opcode_byte_after_83 3 7 0 7,
     table s_opcode_byte_after_c0 3 7 0 7,
     table s_opcode_byte_after_c1 3 7 0 7,
     table s_opcode_byte_after_d0 3 7 0 7,
     table s_opcode_byte_after_d1 3 7 0 7,
     table s_opcode_byte_after_d2 3 7 0 7,
     table s_opcode_byte_after_d3 3 7 0 7,
     table s_opcode_byte_after_f6 3 7 0 7,
     table s_opcode_byte_after_f7 3 7 0 7,
     table s_opcode_byte_after_fe 3 7 0 1,
     table s_opcode_byte_after_ff 3 7 0 7,
     table s_opcode_byte_after_0f00 3 7 0 7,
     table s_opcode_byte_after_0f01 3 7 0 7,
     table s_opcode_byte_after_0f18 3 7 0 7,
     table s_opcode_byte_after_0f71 3 7 0 7,
     table s_opcode_byte_after_0f72 3 7 0 7,
     table s_opcode_byte_after_0f73 3 7 0 7,
     table s_opcode_byte_after_0fae 3 7 0 7,
     table s_opcode_byte_after_0fba 3 7 0 7,
     table s_opcode_byte_after_0fc7 3 7 0 1]"

lemmas opcode_simps = specific_def op_entry_def prefixed_def NO_OPCODE_def table_def

end
