(* ===== verification/MiniDisassembler.thy ===== *)
theory MiniDisassembler
  imports OpcodeMap
begin

text \<open>
  The disassembler of the preamble patcher (\<open>windows/mini_disassembler.cc\<close>) with its ModR/M tables
  (\<open>windows/ia32_modrm_map.cc\<close>).  Code is a list of bytes from the address in question on; reading
  beyond the list, or outside a table, is \<open>None\<close>.  The caller's count, which \<open>Disassemble\<close> adds to, is
  an \<open>unsigned int\<close> and wraps around at 2 to the 32.  The sizes of the inner routines count bytes of
  the list that have been read, from zero on, so they are natural numbers; the operand bytes of one
  instruction are at most sixteen (\<open>ProcessOpcode_total\<close>).
\<close>

section \<open>ModR/M tables\<close>

record modrm_entry =
  is_encoded_in_instruction :: bool
  use_sib_byte :: bool
  operand_size :: nat

definition modrm :: "bool \<Rightarrow> bool \<Rightarrow> nat \<Rightarrow> modrm_entry" where
  "modrm e s n = \<lparr>is_encoded_in_instruction = e, use_sib_byte = s, operand_size = n\<rparr>"

definition s_ia16_modrm_map :: "modrm_entry list" where
  "s_ia16_modrm_map = [
     modrm False False OS_ZERO,
     modrm False False OS_ZERO,
     modrm False False OS_ZERO,
     modrm False False OS_ZERO,
     modrm False False OS_ZERO,
     modrm False False OS_ZERO,
     modrm True False OS_WORD,
     modrm False False OS_ZERO,
     modrm True False OS_BYTE,
     modrm True False OS_BYTE,
     modrm True False OS_BYTE,
     modrm True False OS_BYTE,
     modrm True False OS_BYTE,
     modrm True False OS_BYTE,
     modrm True False OS_BYTE,
     modrm True False OS_BYTE,
     modrm True False OS_WORD,
     modrm True False OS_WORD,
     modrm True False OS_WORD,
     modrm True False OS_WORD,
     modrm True False OS_WORD,
     modrm True False OS_WORD,
     modrm True False OS_WORD,
     modrm True False OS_WORD,
     modrm False False OS_ZERO,
     modrm False False OS_ZERO,
     modrm False False OS_ZERO,
     modrm False False OS_ZERO,
     modrm False False OS_ZERO,
     modrm False False OS_ZERO,
     modrm False False OS_ZERO,
     modrm False False OS_ZERO]"

definition s_ia32_modrm_map :: "modrm_entry list" where
  "s_ia32_modrm_map = [
     modrm False False OS_ZERO,
     modrm False False OS_ZERO,
     modrm False False OS_ZERO,
     modrm False False OS_ZERO,
     modrm False True OS_ZERO,
     modrm True False OS_DOUBLE_WORD,
     modrm False False OS_ZERO,
     modrm False False OS_ZERO,
     modrm True False OS_BYTE,
     modrm True False OS_BYTE,
     modrm True False OS_BYTE,
     modrm True False OS_BYTE,
     modrm True True OS_BYTE,
     modrm True False OS_BYTE,
     modrm True False OS_BYTE,
     modrm True False OS_BYTE,
     modrm True False OS_DOUBLE_WORD,
     modrm True False OS_DOUBLE_WORD,
     modrm True False OS_DOUBLE_WORD,
     modrm True False OS_DOUBLE_WORD,
     modrm True True OS_DOUBLE_WORD,
     modrm True False OS_DOUBLE_WORD,
     modrm True False OS_DOUBLE_WORD,
     modrm True False OS_DOUBLE_WORD,
     modrm False False OS_ZERO,
     modrm False False OS_ZERO,
     modrm False False OS_ZERO,
     modrm False False OS_ZERO,
     modrm False False OS_ZERO,
     modrm False False OS_ZERO,
     modrm False False OS_ZERO,
     modrm False False OS_ZERO]"

section \<open>State\<close>

record disassembler =
  instruction_type :: InstructionType
  operand_bytes :: nat
  have_modrm :: bool
  should_decode_modrm :: bool
  operand_is_32_bits :: bool
  operand_default_is_32_bits :: bool
  address_is_32_bits :: bool
  address_default_is_32_bits :: bool
  operand_default_support_64_bits :: bool
  operand_is_64_bits :: bool
  got_f2_prefix :: bool
  got_f3_prefix :: bool
  got_66_prefix :: bool

definition Initialize :: "bool \<Rightarrow> disassembler \<Rightarrow> disassembler" where
  "Initialize x64 d = d\<lparr>operand_is_32_bits := operand_default_is_32_bits d,
     address_is_32_bits := address_default_is_32_bits d, operand_default_support_64_bits := x64,
     operand_is_64_bits := False, operand_bytes := 0, have_modrm := False, should_decode_modrm := False,
     instruction_type := IT_UNKNOWN, got_f2_prefix := False, got_f3_prefix := False,
     got_66_prefix := False\<rparr>"

text \<open>The constructors; the fields that \<open>Initialize\<close> sets start arbitrary.\<close>

definition new_disassembler :: "bool \<Rightarrow> bool \<Rightarrow> bool \<Rightarrow> disassembler \<Rightarrow> disassembler" where
  "new_disassembler x64 o32 a32 junk =
     Initialize x64 (junk\<lparr>operand_default_is_32_bits := o32, address_default_is_32_bits := a32\<rparr>)"

section \<open>Prefixes\<close>

definition prefix_type :: "InstructionType \<Rightarrow> bool" where
  "prefix_type ty \<longleftrightarrow> ty = IT_PREFIX \<or> ty = IT_PREFIX_ADDRESS \<or> ty = IT_PREFIX_OPERAND"

text \<open>What one prefix byte does to the flags.\<close>

definition note_prefix :: "InstructionType \<Rightarrow> nat \<Rightarrow> disassembler \<Rightarrow> disassembler" where
  "note_prefix ty b d = (
     let d = (if ty = IT_PREFIX_ADDRESS then d\<lparr>address_is_32_bits := \<not> address_default_is_32_bits d\<rparr>
              else if ty = IT_PREFIX_OPERAND then d\<lparr>operand_is_32_bits := \<not> operand_default_is_32_bits d\<rparr>
              else d) in
     if b = 0xF2 then d\<lparr>got_f2_prefix := True\<rparr>
     else if b = 0xF3 then d\<lparr>got_f3_prefix := True\<rparr>
     else if b = 0x66 then d\<lparr>got_66_prefix := True\<rparr>
     else if operand_default_support_64_bits d \<and> b AND 0x48 \<noteq> 0 then d\<lparr>operand_is_64_bits := True\<rparr>
     else d)"

definition first_opcode :: "bool \<Rightarrow> nat \<Rightarrow> opcode option" where
  "first_opcode x64 b = (if b < length (s_first_opcode_byte x64) then Some (s_first_opcode_byte x64 ! b) else None)"

fun ProcessPrefixes :: "bool \<Rightarrow> nat list \<Rightarrow> nat \<Rightarrow> disassembler \<Rightarrow> (InstructionType \<times> nat \<times> disassembler) option" where
  "ProcessPrefixes x64 [] sz d = None"
| "ProcessPrefixes x64 (b # bs) sz d = do {
     opc \<leftarrow> first_opcode x64 b;
     let ty = so_type (op_base opc);
     if prefix_type ty then do {
       (_, sz, d) \<leftarrow> ProcessPrefixes x64 bs (sz + 1) (note_prefix ty b d);
       Some (ty, sz, d) }
     else Some (IT_GENERIC, sz, d) }"

section \<open>Operands\<close>

text \<open>The bytes of an immediate operand by its operand type; \<open>None\<close> for \<open>OT_SS\<close>.\<close>

definition immediate_bytes :: "nat \<Rightarrow> disassembler \<Rightarrow> nat option" where
  "immediate_bytes flag d = (let ot = flag AND OT_MASK in
     if ot = OT_B then Some OS_BYTE
     else if ot = OT_C then Some (if operand_is_32_bits d then OS_WORD else OS_BYTE)
     else if ot = OT_D then Some OS_DOUBLE_WORD
     else if ot = OT_DQ then Some OS_DOUBLE_QUAD_WORD
     else if ot = OT_P then Some (if operand_is_32_bits d then OS_48_BIT_POINTER else OS_32_BIT_POINTER)
     else if ot = OT_PS then Some OS_128_BIT_PACKED_SINGLE_PRECISION_FLOATING
     else if ot = OT_Q then Some OS_QUAD_WORD
     else if ot = OT_S then Some OS_PSEUDO_DESCRIPTOR
     else if ot = OT_SD \<or> ot = OT_PD then Some OS_DOUBLE_PRECISION_FLOATING
     else if ot = OT_SS then None
     else if ot = OT_V then
       Some (if operand_is_64_bits d \<and> flag AND AM_I \<noteq> 0 \<and> flag AND IOS_64 \<noteq> 0 then OS_QUAD_WORD
             else if operand_is_32_bits d then OS_DOUBLE_WORD else OS_WORD)
     else if ot = OT_W then Some OS_WORD
     else Some 0)"

definition ProcessOperand :: "nat \<Rightarrow> disassembler \<Rightarrow> bool \<times> disassembler" where
  "ProcessOperand flag d =
     (if flag = AM_NOT_USED then (True, d)
      else let am = flag AND AM_MASK in
        if am = AM_A \<or> am = AM_F \<or> am = AM_X \<or> am = AM_Y \<or> am = AM_IMPLICIT then (True, d)
        else if am = AM_C \<or> am = AM_D \<or> am = AM_G \<or> am = AM_P \<or> am = AM_R \<or> am = AM_S \<or> am = AM_T \<or> am = AM_V
        then (True, d\<lparr>have_modrm := True\<rparr>)
        else if am = AM_E \<or> am = AM_M \<or> am = AM_Q \<or> am = AM_W
        then (True, d\<lparr>have_modrm := True, should_decode_modrm := True\<rparr>)
        else if am = AM_I \<or> am = AM_J \<or> am = AM_O then
          (case immediate_bytes flag d of
             Some n \<Rightarrow> (True, d\<lparr>operand_bytes := operand_bytes d + n\<rparr>)
           | None \<Rightarrow> (False, d))
        else (True, d))"

section \<open>ModR/M and SIB\<close>

definition ProcessSib :: "nat list \<Rightarrow> nat \<Rightarrow> nat \<Rightarrow> disassembler \<Rightarrow> (bool \<times> nat \<times> disassembler) option" where
  "ProcessSib bs md sz d = (case bs of
       [] \<Rightarrow> None
     | b # _ \<Rightarrow>
        let sib_base = b AND 0x07;
            d = (if sib_base = 0x05 then
                   (if md = 0x00 \<or> md = 0x02 then d\<lparr>operand_bytes := operand_bytes d + OS_DOUBLE_WORD\<rparr>
                    else if md = 0x01 then d\<lparr>operand_bytes := operand_bytes d + OS_BYTE\<rparr>
                    else d)
                 else d)
        in Some (True, sz + 1, d))"

definition ProcessModrm :: "nat list \<Rightarrow> nat \<Rightarrow> disassembler \<Rightarrow> (bool \<times> nat \<times> disassembler) option" where
  "ProcessModrm bs sz d =
     (if \<not> should_decode_modrm d then Some (True, sz + 1, d)
      else case bs of
        [] \<Rightarrow> None
      | b # rest \<Rightarrow> do {
          let md = drop_bit 3 (b AND 0xC0);
          let m = md OR (b AND 0x07);
          let md = drop_bit 3 md;
          let tab = (if address_is_32_bits d then s_ia32_modrm_map else s_ia16_modrm_map);
          check (m < length tab);
          let e = tab ! m;
          let d = (if is_encoded_in_instruction e
                   then d\<lparr>operand_bytes := operand_bytes d + operand_size e\<rparr> else d);
          if use_sib_byte e then ProcessSib rest md (sz + 1) d
          else Some (True, sz + 1, d) })"

section \<open>Opcodes\<close>

text \<open>The alternative that the prefixes select.\<close>

definition select_opcode :: "opcode \<Rightarrow> disassembler \<Rightarrow> specific_opcode" where
  "select_opcode opc d =
     (if op_is_prefix_dependent opc then
        if got_f2_prefix d \<and> so_mnemonic (op_if_f2_prefix opc) \<noteq> None then op_if_f2_prefix opc
        else if got_f3_prefix d \<and> so_mnemonic (op_if_f3_prefix opc) \<noteq> None then op_if_f3_prefix opc
        else if got_66_prefix d \<and> so_mnemonic (op_if_66_prefix opc) \<noteq> None then op_if_66_prefix opc
        else op_base opc
      else op_base opc)"

definition ProcessOperands :: "specific_opcode \<Rightarrow> disassembler \<Rightarrow> disassembler" where
  "ProcessOperands sp d = snd (ProcessOperand (so_flag_aux sp)
     (snd (ProcessOperand (so_flag_source sp) (snd (ProcessOperand (so_flag_dest sp) d)))))"

text \<open>The end of \<open>ProcessOpcode\<close>: the opcode and ModR/M bytes of a known opcode.\<close>

definition finish_opcode :: "opcode_table \<Rightarrow> nat list \<Rightarrow> nat \<Rightarrow> disassembler \<Rightarrow> (InstructionType \<times> nat \<times> disassembler) option" where
  "finish_opcode t bs sz d =
     (if ot_mask t \<noteq> 0xFF then
        if have_modrm d then do { (_, sz, d) \<leftarrow> ProcessModrm bs sz d; Some (IT_GENERIC, sz, d) }
        else Some (IT_GENERIC, sz + 1, d)
      else if have_modrm d then do { (_, sz, d) \<leftarrow> ProcessModrm (tl bs) (sz + 1) d; Some (IT_GENERIC, sz, d) }
      else Some (IT_GENERIC, sz + 1, d))"

fun ProcessOpcode :: "bool \<Rightarrow> nat list \<Rightarrow> nat \<Rightarrow> nat \<Rightarrow> disassembler \<Rightarrow> (InstructionType \<times> nat \<times> disassembler) option" where
  "ProcessOpcode x64 [] table_index sz d = None"
| "ProcessOpcode x64 (b # bs) table_index sz d = do {
     check (table_index < length (s_ia32_opcode_map x64));
     let t = s_ia32_opcode_map x64 ! table_index;
     let cur = drop_bit (ot_shift t) b AND ot_mask t;
     if cur < ot_min_lim t \<or> cur > ot_max_lim t then
       Some (IT_UNKNOWN, sz, d\<lparr>instruction_type := IT_UNKNOWN\<rparr>)
     else do {
       check (cur < length (ot_table t));
       let opc = ot_table t ! cur;
       if so_type (op_base opc) = IT_UNUSED then
         Some (IT_UNUSED, sz, d\<lparr>instruction_type := IT_UNUSED\<rparr>)
       else if so_type (op_base opc) = IT_REFERENCE then do {
         (_, sz, d) \<leftarrow> ProcessOpcode x64 bs (so_table_index (op_base opc)) (sz + 1) d;
         Some (instruction_type d, sz, d) }
       else do {
         let sp = select_opcode opc d;
         let d = d\<lparr>instruction_type := so_type sp\<rparr>;
         let d = ProcessOperands sp d;
         finish_opcode t (b # bs) sz d } } }"

section \<open>Disassemble\<close>

definition Disassemble :: "bool \<Rightarrow> nat list \<Rightarrow> nat \<Rightarrow> disassembler \<Rightarrow> (InstructionType \<times> nat \<times> disassembler) option" where
  "Disassemble x64 bs instruction_bytes d = do {
     let d = Initialize x64 d;
     (ty, prefix_size, d) \<leftarrow> ProcessPrefixes x64 bs 0 d;
     if ty = IT_UNKNOWN then Some (ty, instruction_bytes, d)
     else do {
       (_, sz, d) \<leftarrow> ProcessOpcode x64 (drop prefix_size bs) 0 0 d;
       if instruction_type d = IT_UNKNOWN \<or> instruction_type d = IT_UNUSED
       then Some (IT_UNKNOWN, instruction_bytes, d)
       else Some (instruction_type d,
              (instruction_bytes + (operand_bytes d + (prefix_size + sz))) mod 2 ^ 32, d) } }"

end
