(* ===== verification/DisassemblerFacts.thy ===== *)
theory DisassemblerFacts
  imports MiniDisassembler
begin

text \<open>
  Facts about the disassembler: what its tables guarantee, and what each routine reads and counts.
\<close>

section \<open>What the tables guarantee\<close>

lemma byte_split:
  assumes "b < 256"
  shows "drop_bit 3 (b AND 192) = 8 * (b div 64)" "8 * (b div 64) OR (b AND 7) = 8 * (b div 64) + b mod 8"
    "drop_bit 3 (8 * (b div 64)) = b div (64 :: nat)"
proof -
  have l: "list_all (\<lambda>b. drop_bit 3 (b AND 192) = 8 * (b div 64) \<and> 8 * (b div 64) OR (b AND 7) = 8 * (b div 64) + b mod 8)
      [0..<256 :: nat]"
    by (simp add: upt_rec[of 0] upt_rec[of 1] upt_rec_numeral drop_bit_eq_div One_nat_def[symmetric] del: One_nat_def)
  then have "drop_bit 3 (b AND 192) = 8 * (b div 64) \<and> 8 * (b div 64) OR (b AND 7) = 8 * (b div 64) + b mod 8"
    using assms by (simp add: list_all_iff)
  then show "drop_bit 3 (b AND 192) = 8 * (b div 64)" "8 * (b div 64) OR (b AND 7) = 8 * (b div 64) + b mod 8"
    by blast+
  show "drop_bit 3 (8 * (b div 64)) = b div (64 :: nat)" by (simp add: drop_bit_eq_div)
qed

definition rank :: "nat \<Rightarrow> nat" where
  "rank i = (if i = 0 then 2 else if i = 1 then 1 else 0)"

text \<open>A reference leads to a table of lower rank, so a decoding follows at most two of them.\<close>

definition ref_below :: "nat \<Rightarrow> opcode \<Rightarrow> bool" where
  "ref_below k opc \<longleftrightarrow> (so_type (op_base opc) = IT_REFERENCE \<longrightarrow>
     so_table_index (op_base opc) < 25 \<and> rank (so_table_index (op_base opc)) < k)"

text \<open>The immediate bytes of an operand in the worst case, and of a whole instruction.\<close>

definition imm_worst :: "nat \<Rightarrow> nat" where
  "imm_worst flag = (let am = flag AND AM_MASK; ot = flag AND OT_MASK in
     if am = AM_I \<or> am = AM_J \<or> am = AM_O then
       (if ot = OT_B then 1 else if ot = OT_C \<or> ot = OT_W then 2 else if ot = OT_D then 4
        else if ot = OT_DQ \<or> ot = OT_PS then 16 else if ot = OT_P \<or> ot = OT_S then 6
        else if ot = OT_Q \<or> ot = OT_SD \<or> ot = OT_PD then 8
        else if ot = OT_V then (if flag AND IOS_64 = 0 then 4 else 8) else 0)
     else 0)"

definition spec_imm :: "specific_opcode \<Rightarrow> nat" where
  "spec_imm sp = imm_worst (so_flag_dest sp) + imm_worst (so_flag_source sp) + imm_worst (so_flag_aux sp)"

definition imm_ok :: "opcode \<Rightarrow> bool" where
  "imm_ok opc \<longleftrightarrow> spec_imm (op_base opc) \<le> 8 \<and> spec_imm (op_if_f2_prefix opc) \<le> 8
     \<and> spec_imm (op_if_f3_prefix opc) \<le> 8 \<and> spec_imm (op_if_66_prefix opc) \<le> 8"

text \<open>The types an entry can give; only one-byte opcodes can be prefixes.\<close>

definition final_types :: "InstructionType set" where
  "final_types = {IT_UNUSED, IT_UNKNOWN, IT_JUMP, IT_RETURN, IT_GENERIC}"

definition types_ok :: "nat \<Rightarrow> opcode \<Rightarrow> bool" where
  "types_ok k opc \<longleftrightarrow> so_type (op_base opc) \<in> insert IT_REFERENCE final_types \<union> (if k = 2 then Collect prefix_type else {})
     \<and> so_type (op_if_f2_prefix opc) \<in> final_types \<and> so_type (op_if_f3_prefix opc) \<in> final_types
     \<and> so_type (op_if_66_prefix opc) \<in> final_types
     \<and> (so_type (op_base opc) = IT_REFERENCE \<longrightarrow> \<not> op_is_prefix_dependent opc)"

definition entry_ok :: "nat \<Rightarrow> opcode \<Rightarrow> bool" where
  "entry_ok k opc \<longleftrightarrow> ref_below k opc \<and> imm_ok opc \<and> types_ok k opc"

lemmas entry_simps = entry_ok_def ref_below_def rank_def imm_ok_def spec_imm_def imm_worst_def Let_def
  types_ok_def final_types_def prefix_type_def opcode_simps

lemma first_00_3f_ok: "list_all (entry_ok 2) first_00_3f"
  by (simp add: first_00_3f_def entry_simps)

lemma first_40_4f_x64_ok: "list_all (entry_ok 2) first_40_4f_x64"
  by (simp add: first_40_4f_x64_def entry_simps)

lemma first_40_4f_x86_ok: "list_all (entry_ok 2) first_40_4f_x86"
  by (simp add: first_40_4f_x86_def entry_simps)

lemma first_50_b7_ok: "list_all (entry_ok 2) first_50_b7"
  by (simp add: first_50_b7_def entry_simps)

lemma first_b8_bf_x64_ok: "list_all (entry_ok 2) first_b8_bf_x64"
  by (simp add: first_b8_bf_x64_def entry_simps)

lemma first_b8_bf_x86_ok: "list_all (entry_ok 2) first_b8_bf_x86"
  by (simp add: first_b8_bf_x86_def entry_simps)

lemma first_c0_ff_ok: "list_all (entry_ok 2) first_c0_ff"
  by (simp add: first_c0_ff_def entry_simps)

lemma after_0f_00_47_ok: "list_all (entry_ok 1) after_0f_00_47"
  by (simp add: after_0f_00_47_def entry_simps)

lemma after_0f_48_6b_ok: "list_all (entry_ok 1) after_0f_48_6b"
  by (simp add: after_0f_48_6b_def entry_simps)

lemma after_0f_6c_c1_ok: "list_all (entry_ok 1) after_0f_6c_c1"
  by (simp add: after_0f_6c_c1_def entry_simps)

lemma after_0f_c2_e7_ok: "list_all (entry_ok 1) after_0f_c2_e7"
  by (simp add: after_0f_c2_e7_def entry_simps)

lemma after_0f_e8_ff_ok: "list_all (entry_ok 1) after_0f_e8_ff"
  by (simp add: after_0f_e8_ff_def entry_simps)

lemma s_opcode_byte_after_0f00_ok: "list_all (entry_ok 0) s_opcode_byte_after_0f00"
  by (simp add: s_opcode_byte_after_0f00_def entry_simps)

lemma s_opcode_byte_after_0f01_ok: "list_all (entry_ok 0) s_opcode_byte_after_0f01"
  by (simp add: s_opcode_byte_after_0f01_def entry_simps)

lemma s_opcode_byte_after_0f18_ok: "list_all (entry_ok 0) s_opcode_byte_after_0f18"
  by (simp add: s_opcode_byte_after_0f18_def entry_simps)

lemma s_opcode_byte_after_0f71_ok: "list_all (entry_ok 0) s_opcode_byte_after_0f71"
  by (simp add: s_opcode_byte_after_0f71_def entry_simps)

lemma s_opcode_byte_after_0f72_ok: "list_all (entry_ok 0) s_opcode_byte_after_0f72"
  by (simp add: s_opcode_byte_after_0f72_def entry_simps)

lemma s_opcode_byte_after_0f73_ok: "list_all (entry_ok 0) s_opcode_byte_after_0f73"
  by (simp add: s_opcode_byte_after_0f73_def entry_simps)

lemma s_opcode_byte_after_0fae_ok: "list_all (entry_ok 0) s_opcode_byte_after_0fae"
  by (simp add: s_opcode_byte_after_0fae_def entry_simps)

lemma s_opcode_byte_after_0fba_ok: "list_all (entry_ok 0) s_opcode_byte_after_0fba"
  by (simp add: s_opcode_byte_after_0fba_def entry_simps)

lemma s_opcode_byte_after_0fc7_ok: "list_all (entry_ok 0) s_opcode_byte_after_0fc7"
  by (simp add: s_opcode_byte_after_0fc7_def entry_simps)

lemma s_opcode_byte_after_80_ok: "list_all (entry_ok 0) s_opcode_byte_after_80"
  by (simp add: s_opcode_byte_after_80_def entry_simps)

lemma s_opcode_byte_after_81_ok: "list_all (entry_ok 0) s_opcode_byte_after_81"
  by (simp add: s_opcode_byte_after_81_def entry_simps)

lemma s_opcode_byte_after_82_ok: "list_all (entry_ok 0) s_opcode_byte_after_82"
  by (simp add: s_opcode_byte_after_82_def entry_simps)

lemma s_opcode_byte_after_83_ok: "list_all (entry_ok 0) s_opcode_byte_after_83"
  by (simp add: s_opcode_byte_after_83_def entry_simps)

lemma s_opcode_byte_after_c0_ok: "list_all (entry_ok 0) s_opcode_byte_after_c0"
  by (simp add: s_opcode_byte_after_c0_def entry_simps)

lemma s_opcode_byte_after_c1_ok: "list_all (entry_ok 0) s_opcode_byte_after_c1"
  by (simp add: s_opcode_byte_after_c1_def entry_simps)

lemma s_opcode_byte_after_d0_ok: "list_all (entry_ok 0) s_opcode_byte_after_d0"
  by (simp add: s_opcode_byte_after_d0_def entry_simps)

lemma s_opcode_byte_after_d1_ok: "list_all (entry_ok 0) s_opcode_byte_after_d1"
  by (simp add: s_opcode_byte_after_d1_def entry_simps)

lemma s_opcode_byte_after_d2_ok: "list_all (entry_ok 0) s_opcode_byte_after_d2"
  by (simp add: s_opcode_byte_after_d2_def entry_simps)

lemma s_opcode_byte_after_d3_ok: "list_all (entry_ok 0) s_opcode_byte_after_d3"
  by (simp add: s_opcode_byte_after_d3_def entry_simps)

lemma s_opcode_byte_after_f6_ok: "list_all (entry_ok 0) s_opcode_byte_after_f6"
  by (simp add: s_opcode_byte_after_f6_def entry_simps)

lemma s_opcode_byte_after_f7_ok: "list_all (entry_ok 0) s_opcode_byte_after_f7"
  by (simp add: s_opcode_byte_after_f7_def entry_simps)

lemma s_opcode_byte_after_fe_ok: "list_all (entry_ok 0) s_opcode_byte_after_fe"
  by (simp add: s_opcode_byte_after_fe_def entry_simps)

lemma s_opcode_byte_after_ff_ok: "list_all (entry_ok 0) s_opcode_byte_after_ff"
  by (simp add: s_opcode_byte_after_ff_def entry_simps)

lemma first_00_3f_length: "length first_00_3f = 64"
  by (simp add: first_00_3f_def)

lemma first_40_4f_x64_length: "length first_40_4f_x64 = 16"
  by (simp add: first_40_4f_x64_def)

lemma first_40_4f_x86_length: "length first_40_4f_x86 = 16"
  by (simp add: first_40_4f_x86_def)

lemma first_50_b7_length: "length first_50_b7 = 104"
  by (simp add: first_50_b7_def)

lemma first_b8_bf_x64_length: "length first_b8_bf_x64 = 8"
  by (simp add: first_b8_bf_x64_def)

lemma first_b8_bf_x86_length: "length first_b8_bf_x86 = 8"
  by (simp add: first_b8_bf_x86_def)

lemma first_c0_ff_length: "length first_c0_ff = 64"
  by (simp add: first_c0_ff_def)

lemma after_0f_00_47_length: "length after_0f_00_47 = 72"
  by (simp add: after_0f_00_47_def)

lemma after_0f_48_6b_length: "length after_0f_48_6b = 36"
  by (simp add: after_0f_48_6b_def)

lemma after_0f_6c_c1_length: "length after_0f_6c_c1 = 86"
  by (simp add: after_0f_6c_c1_def)

lemma after_0f_c2_e7_length: "length after_0f_c2_e7 = 38"
  by (simp add: after_0f_c2_e7_def)

lemma after_0f_e8_ff_length: "length after_0f_e8_ff = 24"
  by (simp add: after_0f_e8_ff_def)

lemma s_opcode_byte_after_0f00_length: "length s_opcode_byte_after_0f00 = 8"
  by (simp add: s_opcode_byte_after_0f00_def)

lemma s_opcode_byte_after_0f01_length: "length s_opcode_byte_after_0f01 = 8"
  by (simp add: s_opcode_byte_after_0f01_def)

lemma s_opcode_byte_after_0f18_length: "length s_opcode_byte_after_0f18 = 8"
  by (simp add: s_opcode_byte_after_0f18_def)

lemma s_opcode_byte_after_0f71_length: "length s_opcode_byte_after_0f71 = 8"
  by (simp add: s_opcode_byte_after_0f71_def)

lemma s_opcode_byte_after_0f72_length: "length s_opcode_byte_after_0f72 = 8"
  by (simp add: s_opcode_byte_after_0f72_def)

lemma s_opcode_byte_after_0f73_length: "length s_opcode_byte_after_0f73 = 8"
  by (simp add: s_opcode_byte_after_0f73_def)

lemma s_opcode_byte_after_0fae_length: "length s_opcode_byte_after_0fae = 8"
  by (simp add: s_opcode_byte_after_0fae_def)

lemma s_opcode_byte_after_0fba_length: "length s_opcode_byte_after_0fba = 8"
  by (simp add: s_opcode_byte_after_0fba_def)

lemma s_opcode_byte_after_0fc7_length: "length s_opcode_byte_after_0fc7 = 2"
  by (simp add: s_opcode_byte_after_0fc7_def)

lemma s_opcode_byte_after_80_length: "length s_opcode_byte_after_80 = 8"
  by (simp add: s_opcode_byte_after_80_def)

lemma s_opcode_byte_after_81_length: "length s_opcode_byte_after_81 = 8"
  by (simp add: s_opcode_byte_after_81_def)

lemma s_opcode_byte_after_82_length: "length s_opcode_byte_after_82 = 8"
  by (simp add: s_opcode_byte_after_82_def)

lemma s_opcode_byte_after_83_length: "length s_opcode_byte_after_83 = 8"
  by (simp add: s_opcode_byte_after_83_def)

lemma s_opcode_byte_after_c0_length: "length s_opcode_byte_after_c0 = 8"
  by (simp add: s_opcode_byte_after_c0_def)

lemma s_opcode_byte_after_c1_length: "length s_opcode_byte_after_c1 = 8"
  by (simp add: s_opcode_byte_after_c1_def)

lemma s_opcode_byte_after_d0_length: "length s_opcode_byte_after_d0 = 8"
  by (simp add: s_opcode_byte_after_d0_def)

lemma s_opcode_byte_after_d1_length: "length s_opcode_byte_after_d1 = 8"
  by (simp add: s_opcode_byte_after_d1_def)

lemma s_opcode_byte_after_d2_length: "length s_opcode_byte_after_d2 = 8"
  by (simp add: s_opcode_byte_after_d2_def)

lemma s_opcode_byte_after_d3_length: "length s_opcode_byte_after_d3 = 8"
  by (simp add: s_opcode_byte_after_d3_def)

lemma s_opcode_byte_after_f6_length: "length s_opcode_byte_after_f6 = 8"
  by (simp add: s_opcode_byte_after_f6_def)

lemma s_opcode_byte_after_f7_length: "length s_opcode_byte_after_f7 = 8"
  by (simp add: s_opcode_byte_after_f7_def)

lemma s_opcode_byte_after_fe_length: "length s_opcode_byte_after_fe = 2"
  by (simp add: s_opcode_byte_after_fe_def)

lemma s_opcode_byte_after_ff_length: "length s_opcode_byte_after_ff = 8"
  by (simp add: s_opcode_byte_after_ff_def)

lemmas chunks_ok = first_00_3f_ok
  first_40_4f_x64_ok
  first_40_4f_x86_ok
  first_50_b7_ok
  first_b8_bf_x64_ok
  first_b8_bf_x86_ok
  first_c0_ff_ok
  after_0f_00_47_ok
  after_0f_48_6b_ok
  after_0f_6c_c1_ok
  after_0f_c2_e7_ok
  after_0f_e8_ff_ok
  s_opcode_byte_after_0f00_ok
  s_opcode_byte_after_0f01_ok
  s_opcode_byte_after_0f18_ok
  s_opcode_byte_after_0f71_ok
  s_opcode_byte_after_0f72_ok
  s_opcode_byte_after_0f73_ok
  s_opcode_byte_after_0fae_ok
  s_opcode_byte_after_0fba_ok
  s_opcode_byte_after_0fc7_ok
  s_opcode_byte_after_80_ok
  s_opcode_byte_after_81_ok
  s_opcode_byte_after_82_ok
  s_opcode_byte_after_83_ok
  s_opcode_byte_after_c0_ok
  s_opcode_byte_after_c1_ok
  s_opcode_byte_after_d0_ok
  s_opcode_byte_after_d1_ok
  s_opcode_byte_after_d2_ok
  s_opcode_byte_after_d3_ok
  s_opcode_byte_after_f6_ok
  s_opcode_byte_after_f7_ok
  s_opcode_byte_after_fe_ok
  s_opcode_byte_after_ff_ok
lemmas chunk_lengths = first_00_3f_length
  first_40_4f_x64_length
  first_40_4f_x86_length
  first_50_b7_length
  first_b8_bf_x64_length
  first_b8_bf_x86_length
  first_c0_ff_length
  after_0f_00_47_length
  after_0f_48_6b_length
  after_0f_6c_c1_length
  after_0f_c2_e7_length
  after_0f_e8_ff_length
  s_opcode_byte_after_0f00_length
  s_opcode_byte_after_0f01_length
  s_opcode_byte_after_0f18_length
  s_opcode_byte_after_0f71_length
  s_opcode_byte_after_0f72_length
  s_opcode_byte_after_0f73_length
  s_opcode_byte_after_0fae_length
  s_opcode_byte_after_0fba_length
  s_opcode_byte_after_0fc7_length
  s_opcode_byte_after_80_length
  s_opcode_byte_after_81_length
  s_opcode_byte_after_82_length
  s_opcode_byte_after_83_length
  s_opcode_byte_after_c0_length
  s_opcode_byte_after_c1_length
  s_opcode_byte_after_d0_length
  s_opcode_byte_after_d1_length
  s_opcode_byte_after_d2_length
  s_opcode_byte_after_d3_length
  s_opcode_byte_after_f6_length
  s_opcode_byte_after_f7_length
  s_opcode_byte_after_fe_length
  s_opcode_byte_after_ff_length

lemma first_ok: "list_all (entry_ok 2) (s_first_opcode_byte x64)" "length (s_first_opcode_byte x64) = 256"
  by (simp_all add: s_first_opcode_byte_def chunks_ok chunk_lengths)

lemma after_0f_ok: "list_all (entry_ok 1) s_opcode_byte_after_0f" "length s_opcode_byte_after_0f = 256"
  by (simp_all add: s_opcode_byte_after_0f_def chunks_ok chunk_lengths del: One_nat_def)

text \<open>Every table: masks, limits within the table, entries in order.\<close>

definition table_ok :: "nat \<Rightarrow> opcode_table \<Rightarrow> bool" where
  "table_ok k t \<longleftrightarrow> list_all (entry_ok k) (ot_table t) \<and> ot_max_lim t < length (ot_table t)
     \<and> (if k = 0 then ot_mask t = 7 \<and> ot_shift t = 3 else ot_mask t = 255 \<and> ot_shift t = 0)"

lemma map_length [simp]: "length (s_ia32_opcode_map x64) = 25"
  by (simp add: s_ia32_opcode_map_def)

lemma all_tables_ok: "list_all (table_ok 0) (drop 2 (s_ia32_opcode_map x64))"
  "table_ok 2 (s_ia32_opcode_map x64 ! 0)" "table_ok 1 (s_ia32_opcode_map x64 ! 1)"
  by (simp_all add: s_ia32_opcode_map_def table_ok_def table_def chunks_ok chunk_lengths first_ok after_0f_ok
      del: One_nat_def)

lemma table_ok_at:
  assumes "i < 25"
  shows "table_ok (rank i) (s_ia32_opcode_map x64 ! i)"
proof (cases "i < 2")
  case True
  then have "i = 0 \<or> i = 1" by linarith
  then show ?thesis using all_tables_ok(2,3) by (auto simp: rank_def)
next
  case False
  then obtain j where j: "i = 2 + j" by (metis add_diff_inverse_nat)
  then have "s_ia32_opcode_map x64 ! i = drop 2 (s_ia32_opcode_map x64) ! j" "j < length (drop 2 (s_ia32_opcode_map x64))"
    using assms by simp_all
  then show ?thesis using all_tables_ok(1) False by (simp add: list_all_length rank_def)
qed

end
