(* ===== verification/DisassemblerThms.thy ===== *)
theory DisassemblerThms
  imports DisassemblerFacts
begin

text \<open>
  What the disassembler computes: the bytes of the ModR/M group against the architecture, the
  totality and the bounds of \<open>Disassemble\<close>, and what its result depends on.
\<close>

section \<open>Operands\<close>




section \<open>The ModR/M group\<close>

text \<open>
  The displacement bytes that the architecture encodes after a ModR/M byte and its SIB byte, and
  whether there is a SIB byte.
\<close>

definition arch_sib :: "bool \<Rightarrow> nat \<Rightarrow> bool" where
  "arch_sib a32 b \<longleftrightarrow> a32 \<and> b div 64 \<noteq> 3 \<and> b mod 8 = 4"

definition arch_disp :: "bool \<Rightarrow> nat \<Rightarrow> nat \<Rightarrow> nat" where
  "arch_disp a32 b s =
     (if b div 64 = 3 then 0
      else if b div 64 = 1 then 1
      else if b div 64 = 2 then (if a32 then 4 else 2)
      else if a32 then (if b mod 8 = 5 \<or> (b mod 8 = 4 \<and> s mod 8 = 5) then 4 else 0)
      else (if b mod 8 = 6 then 2 else 0))"

text \<open>What the code counts twice: the displacement of a base register \<open>ebp\<close> in the SIB byte.\<close>

definition sib_excess :: "nat \<Rightarrow> nat \<Rightarrow> nat" where
  "sib_excess b s = (if s mod 8 = 5 then (if b div 64 = 1 then 1 else if b div 64 = 2 then 4 else 0) else 0)"

lemma nth_chunk: "(xs @ ys) ! (length xs + i) = ys ! i"
  by (simp add: nth_append)

lemma modrm_entry32:
  assumes "q < 4" "r < 8"
  shows "8 * q + r < length s_ia32_modrm_map"
    "is_encoded_in_instruction (s_ia32_modrm_map ! (8 * q + r)) \<longleftrightarrow> q = 1 \<or> q = 2 \<or> (q = 0 \<and> r = 5)"
    "use_sib_byte (s_ia32_modrm_map ! (8 * q + r)) \<longleftrightarrow> q \<noteq> 3 \<and> r = 4"
    "operand_size (s_ia32_modrm_map ! (8 * q + r)) = (if q = 1 then 1 else if q = 2 \<or> (q = 0 \<and> r = 5) then 4 else 0)"
proof -
  have q: "q = 0 \<or> q = 1 \<or> q = 2 \<or> q = 3" and r: "r = 0 \<or> r = 1 \<or> r = 2 \<or> r = 3 \<or> r = 4 \<or> r = 5 \<or> r = 6 \<or> r = 7"
    using assms by linarith+
  show "8 * q + r < length s_ia32_modrm_map" using assms by (simp add: s_ia32_modrm_map_def)
  show "is_encoded_in_instruction (s_ia32_modrm_map ! (8 * q + r)) \<longleftrightarrow> q = 1 \<or> q = 2 \<or> (q = 0 \<and> r = 5)"
    "use_sib_byte (s_ia32_modrm_map ! (8 * q + r)) \<longleftrightarrow> q \<noteq> 3 \<and> r = 4"
    "operand_size (s_ia32_modrm_map ! (8 * q + r)) = (if q = 1 then 1 else if q = 2 \<or> (q = 0 \<and> r = 5) then 4 else 0)"
    using q r by (elim disjE; simp add: s_ia32_modrm_map_def modrm_def)+
qed

lemma modrm_entry16:
  assumes "q < 4" "r < 8"
  shows "8 * q + r < length s_ia16_modrm_map"
    "is_encoded_in_instruction (s_ia16_modrm_map ! (8 * q + r)) \<longleftrightarrow> q = 1 \<or> q = 2 \<or> (q = 0 \<and> r = 6)"
    "\<not> use_sib_byte (s_ia16_modrm_map ! (8 * q + r))"
    "operand_size (s_ia16_modrm_map ! (8 * q + r)) = (if q = 1 then 1 else if q = 2 \<or> (q = 0 \<and> r = 6) then 2 else 0)"
proof -
  have q: "q = 0 \<or> q = 1 \<or> q = 2 \<or> q = 3" and r: "r = 0 \<or> r = 1 \<or> r = 2 \<or> r = 3 \<or> r = 4 \<or> r = 5 \<or> r = 6 \<or> r = 7"
    using assms by linarith+
  show "8 * q + r < length s_ia16_modrm_map" using assms by (simp add: s_ia16_modrm_map_def)
  show "is_encoded_in_instruction (s_ia16_modrm_map ! (8 * q + r)) \<longleftrightarrow> q = 1 \<or> q = 2 \<or> (q = 0 \<and> r = 6)"
    "\<not> use_sib_byte (s_ia16_modrm_map ! (8 * q + r))"
    "operand_size (s_ia16_modrm_map ! (8 * q + r)) = (if q = 1 then 1 else if q = 2 \<or> (q = 0 \<and> r = 6) then 2 else 0)"
    using q r by (elim disjE; simp add: s_ia16_modrm_map_def modrm_def)+
qed

lemma and7_mod8: "b AND 7 = b mod (8 :: nat)"
proof -
  have "b AND mask 3 = take_bit 3 b" by (simp add: take_bit_eq_mask)
  then show ?thesis by (simp add: mask_eq_exp_minus_1 take_bit_eq_mod)
qed


lemma ProcessSib_eq:
  "ProcessSib (s # bs) md sz d = Some (True, sz + 1, d\<lparr>operand_bytes := operand_bytes d +
     (if s mod 8 = 5 then (if md = 0 \<or> md = 2 then 4 else if md = 1 then 1 else 0) else 0)\<rparr>)"
  by (simp add: ProcessSib_def Let_def and7_mod8)

lemma ProcessModrm_eq:
  assumes "b < 256" "should_decode_modrm d"
  shows "ProcessModrm (b # bs) sz d =
    (if arch_sib (address_is_32_bits d) b
     then (case bs of [] \<Rightarrow> None
       | s # _ \<Rightarrow> Some (True, sz + 2, d\<lparr>operand_bytes := operand_bytes d
           + arch_disp (address_is_32_bits d) b s + sib_excess b s\<rparr>))
     else Some (True, sz + 1, d\<lparr>operand_bytes := operand_bytes d + arch_disp (address_is_32_bits d) b 0\<rparr>))"
proof -
  let ?q = "b div 64" and ?r = "b mod 8"
  have qr: "?q < 4" "?r < 8" using assms(1) by simp_all
  let ?a = "address_is_32_bits d"
  let ?tab = "if ?a then s_ia32_modrm_map else s_ia16_modrm_map"
  define e where "e = ?tab ! (8 * ?q + ?r)"
  define d' where "d' = (if is_encoded_in_instruction e then d\<lparr>operand_bytes := operand_bytes d + operand_size e\<rparr> else d)"
  have m: "drop_bit 3 (b AND 192) OR (b AND 7) = 8 * ?q + ?r" "drop_bit 3 (drop_bit 3 (b AND 192)) = ?q"
    using byte_split[OF assms(1)] by simp_all
  have len: "8 * ?q + ?r < length ?tab" using modrm_entry32(1)[OF qr] modrm_entry16(1)[OF qr] by simp
  have P: "ProcessModrm (b # bs) sz d = (if use_sib_byte e then ProcessSib bs ?q (sz + 1) d' else Some (True, sz + 1, d'))"
    using assms(2) len
    by (simp only: ProcessModrm_def list.case m Let_def if_False simp_thms check_simps check_bind if_True
        e_def[symmetric] d'_def[symmetric])
  have enc: "is_encoded_in_instruction e \<longleftrightarrow> ?q = 1 \<or> ?q = 2 \<or> (?q = 0 \<and> ?r = (if ?a then 5 else 6))"
    using modrm_entry32(2)[OF qr] modrm_entry16(2)[OF qr] by (simp add: e_def)
  have sib: "use_sib_byte e \<longleftrightarrow> ?a \<and> ?q \<noteq> 3 \<and> ?r = 4"
    using modrm_entry32(3)[OF qr] modrm_entry16(3)[OF qr] by (simp add: e_def)
  have os: "operand_size e = (if ?q = 1 then 1 else if ?q = 2 \<or> (?q = 0 \<and> ?r = (if ?a then 5 else 6)) then (if ?a then 4 else 2) else 0)"
    by (cases ?a) (simp_all only: e_def if_True if_False modrm_entry32(4)[OF qr] modrm_entry16(4)[OF qr] simp_thms)
  define n where "n = (if ?q = 1 then 1 else if ?q = 2 \<or> (?q = 0 \<and> ?r = (if ?a then 5 else 6)) then (if ?a then 4 else 2) else 0 :: nat)"
  have d': "d' = d\<lparr>operand_bytes := operand_bytes d + n\<rparr>"
    unfolding d'_def enc os n_def by simp
  show ?thesis
  proof (cases "arch_sib ?a b")
    case True
    then have s: "?a" "?q \<noteq> 3" "?r = 4" by (auto simp only: arch_sib_def)
    have q: "?q = 0 \<or> ?q = 1 \<or> ?q = 2" using qr(1) s(2) by linarith
    have key: "arch_disp ?a b s + sib_excess b s =
        n + (if s mod 8 = 5 then (if ?q = 0 \<or> ?q = 2 then 4 else if ?q = 1 then 1 else 0) else 0)" for s
      using q by (elim disjE) (simp_all only: n_def arch_disp_def sib_excess_def s, simp_all)
    have "use_sib_byte e" unfolding sib using s by blast
    then show ?thesis unfolding P d' using True
      by (cases bs) (simp_all add: ProcessSib_eq ProcessSib_def and7_mod8 add.assoc key del: One_nat_def)
  next
    case False
    have "n = arch_disp ?a b 0"
      using False qr(1) by (auto simp: n_def arch_disp_def arch_sib_def)
    then show ?thesis using False by (simp only: P sib d' arch_sib_def if_False simp_thms)
  qed
qed



section \<open>Prefixes\<close>




lemma first_opcode_eq: "b < 256 \<Longrightarrow> first_opcode x64 b = Some (s_first_opcode_byte x64 ! b)"
  by (simp add: first_opcode_def first_ok)






section \<open>Opcodes\<close>










section \<open>Locality\<close>

text \<open>More bytes behind the ones that were read change nothing.\<close>

lemma ProcessSib_append: "ProcessSib bs md sz d = Some r \<Longrightarrow> ProcessSib (bs @ cs) md sz d = Some r"
  by (cases bs) (simp_all add: ProcessSib_def)

lemma ProcessModrm_append:
  assumes "ProcessModrm bs sz d = Some r"
  shows "ProcessModrm (bs @ cs) sz d = Some r"
proof (cases "should_decode_modrm d \<and> bs \<noteq> []")
  case False
  then show ?thesis using assms by (cases bs) (auto simp: ProcessModrm_def)
next
  case True
  then obtain b bs' where bs: "bs = b # bs'" by (cases bs) auto
  show ?thesis
    using assms True unfolding bs ProcessModrm_def
    by (simp add: Let_def ProcessSib_append split: if_splits)
qed

lemma finish_opcode_append:
  assumes "finish_opcode t bs sz d = Some r" "bs \<noteq> []"
  shows "finish_opcode t (bs @ cs) sz d = Some r"
  using assms unfolding finish_opcode_def
  by (auto simp: ProcessModrm_append split: if_splits)

lemma ProcessOpcode_append:
  "ProcessOpcode x64 bs i sz d = Some r \<Longrightarrow> ProcessOpcode x64 (bs @ cs) i sz d = Some r"
proof (induction x64 bs i sz d arbitrary: r rule: ProcessOpcode.induct)
  case (1 x64 i sz d)
  then show ?case by simp
next
  case (2 x64 b bs i sz d)
  then show ?case
    by (simp add: Let_def finish_opcode_append[of _ "b # bs", simplified] split: if_splits) fastforce+
qed

lemma ProcessPrefixes_append:
  "ProcessPrefixes x64 bs sz d = Some r \<Longrightarrow> ProcessPrefixes x64 (bs @ cs) sz d = Some r"
proof (induction x64 bs sz d arbitrary: r rule: ProcessPrefixes.induct)
  case (1 x64 sz d)
  then show ?case by simp
next
  case (2 x64 b bs sz d)
  then show ?case by (auto simp: Let_def split: if_splits)
qed


section \<open>Properties\<close>

text \<open>
  C35: \<open>ProcessModrm\<close> against the architecture.  When a ModR/M byte is to be decoded, the code consumes
  the ModR/M byte and, exactly when the architecture has one, the SIB byte; the displacement it adds
  is that of the architecture for every ModR/M byte without a SIB byte, in both address sizes.  With
  a SIB byte it is exact unless the base is \<open>ebp\<close> with a displacement mode (01 or 10), where the
  displacement is counted twice: the excess is 1 or 4 bytes.
\<close>

theorem ProcessModrm_length:
  assumes "b < 256" "should_decode_modrm d"
  shows "ProcessModrm (b # s # rest) sz d = Some (True,
    sz + (if arch_sib (address_is_32_bits d) b then 2 else 1),
    d\<lparr>operand_bytes := operand_bytes d + arch_disp (address_is_32_bits d) b s
       + (if arch_sib (address_is_32_bits d) b then sib_excess b s else 0)\<rparr>)"
proof -
  have "arch_disp (address_is_32_bits d) b s = arch_disp (address_is_32_bits d) b 0"
    if "\<not> arch_sib (address_is_32_bits d) b" using that by (auto simp: arch_disp_def arch_sib_def)
  then show ?thesis by (simp add: ProcessModrm_eq[OF assms])
qed

definition sample_disassembler :: disassembler where
  "sample_disassembler = \<lparr>instruction_type = IT_UNKNOWN, operand_bytes = 0, have_modrm = True,
     should_decode_modrm = True, operand_is_32_bits = True, operand_default_is_32_bits = True,
     address_is_32_bits = True, address_default_is_32_bits = True, operand_default_support_64_bits = False,
     operand_is_64_bits = False, got_f2_prefix = False, got_f3_prefix = False, got_66_prefix = False\<rparr>"

text \<open>The operand \<open>[ebp + 8]\<close> with a SIB byte (44 25 08): one displacement byte, counted as two.\<close>

theorem ProcessModrm_length_witness:
  "ProcessModrm [0x44, 0x25, 0x08] 1 sample_disassembler =
     Some (True, 3, sample_disassembler\<lparr>operand_bytes := 2\<rparr>) \<and> arch_disp True 0x44 0x25 = 1"
  using ProcessModrm_length[of "0x44" sample_disassembler "0x25" "[0x08]" 1]
  by (simp add: sample_disassembler_def arch_sib_def arch_disp_def sib_excess_def)


text \<open>The entry of \<open>push ebp\<close> (55).\<close>

lemma opcode_55: "s_first_opcode_byte x64 ! 85 =
    op_entry 0 IT_GENERIC (AM_REGISTER OR OT_V) AM_NOT_USED AM_NOT_USED (Some ''push'')"
  by (simp add: s_first_opcode_byte_def nth_append chunk_lengths first_50_b7_def)

lemma first_table: "ot_table (s_ia32_opcode_map x64 ! 0) = s_first_opcode_byte x64"
  "ot_shift (s_ia32_opcode_map x64 ! 0) = 0" "ot_mask (s_ia32_opcode_map x64 ! 0) = 255"
  "ot_min_lim (s_ia32_opcode_map x64 ! 0) = 0" "ot_max_lim (s_ia32_opcode_map x64 ! 0) = 255"
  by (simp_all add: s_ia32_opcode_map_def table_def)


text \<open>
  C36: The result of \<open>Disassemble\<close> depends only on the bytes it reads and on the mode of the object.
  Once it returns, any further bytes behind the string leave the result as it is, and so does any
  earlier use of the object: two objects with the same default sizes give the same result.
\<close>

theorem Disassemble_local:
  assumes "Disassemble x64 bs n d = Some r"
    and "operand_default_is_32_bits e = operand_default_is_32_bits d"
    and "address_default_is_32_bits e = address_default_is_32_bits d"
  shows "Disassemble x64 (bs @ cs) n e = Some r"
proof -
  have I: "Initialize x64 e = Initialize x64 d" using assms(2,3) by (simp add: Initialize_def)
  obtain ty p d1 where pre: "ProcessPrefixes x64 bs 0 (Initialize x64 d) = Some (ty, p, d1)"
    using assms(1) by (auto simp: Disassemble_def)
  note pre' = ProcessPrefixes_append[OF pre, of cs]
  show ?thesis
  proof (cases "ty = IT_UNKNOWN")
    case True
    then show ?thesis using assms(1) pre pre' by (simp add: Disassemble_def I)
  next
    case False
    then obtain x where x: "ProcessOpcode x64 (drop p bs) 0 0 d1 = Some x"
      using assms(1) pre by (auto simp: Disassemble_def)
    then have "drop p bs \<noteq> []" by (auto simp del: drop_eq_Nil)
    then have "drop p (bs @ cs) = drop p bs @ cs" by simp
    then have "ProcessOpcode x64 (drop p (bs @ cs)) 0 0 d1 = Some x" using ProcessOpcode_append[OF x, of cs] by simp
    then show ?thesis using assms(1) pre pre' x False by (simp add: Disassemble_def I)
  qed
qed

lemma Disassemble_push: "\<exists>r. Disassemble False [0x55] 0 sample_disassembler = Some r"
  by (simp add: Disassemble_def first_opcode_eq opcode_55 Let_def opcode_simps prefix_type_def first_table
      first_ok select_opcode_def ProcessOperands_def ProcessOperand_def finish_opcode_def Initialize_def)

theorem Disassemble_local_witness:
  "\<exists>r. Disassemble False [0x55] 0 sample_disassembler = Some r
     \<and> Disassemble False ([0x55] @ [0x8B, 0xEC]) 0 (sample_disassembler\<lparr>operand_bytes := 9\<rparr>) = Some r"
proof -
  obtain r where r: "Disassemble False [0x55] 0 sample_disassembler = Some r" using Disassemble_push by blast
  have "Disassemble False ([0x55] @ [0x8B, 0xEC]) 0 (sample_disassembler\<lparr>operand_bytes := 9\<rparr>) = Some r"
    by (rule Disassemble_local[OF r]) simp_all
  with r show ?thesis by blast
qed

end
