(* ===== verification/Sampler.thy ===== *)
theory Sampler
  imports Prelude
begin

unbundle bit_operations_syntax

text \<open>
  The allocation sampler (\<open>sampler.h\<close>, \<open>sampler.cc\<close>).  The generator is exact; the floating-point
  expression that turns the 26 random bits \<open>q\<close> into the next interval is the parameter \<open>interval\<close>.
\<close>

record sampler =
  bytes_until_sample :: nat
  rnd :: nat

definition NextRandom :: "nat \<Rightarrow> nat" where
  "NextRandom r = (25214903917 * r + 11) mod two64 AND mask 48"

definition PickNextSamplingPoint :: "(nat \<Rightarrow> nat) \<Rightarrow> sampler \<Rightarrow> nat \<times> sampler" where
  "PickNextSamplingPoint interval s =
     (let s = s\<lparr>rnd := NextRandom (rnd s)\<rparr>;
          q = take_bit 32 (drop_bit (48 - 26) (rnd s)) + 1
      in (interval q, s))"

text \<open>\<open>Init\<close> of the sampler at the address \<open>this\<close>.\<close>

definition Sampler_Init :: "(nat \<Rightarrow> nat) \<Rightarrow> nat \<Rightarrow> nat \<Rightarrow> sampler \<Rightarrow> sampler" where
  "Sampler_Init interval this seed s =
     (let r = (if seed \<noteq> 0 then seed else if take_bit 32 this = 0 then 1 else take_bit 32 this);
          r = (NextRandom ^^ 20) r;
          (b, s) = PickNextSamplingPoint interval (s\<lparr>rnd := r\<rparr>)
      in s\<lparr>bytes_until_sample := b\<rparr>)"

definition SampleAllocation :: "(nat \<Rightarrow> nat) \<Rightarrow> nat \<Rightarrow> sampler \<Rightarrow> bool \<times> sampler" where
  "SampleAllocation interval k s =
     (if bytes_until_sample s < k
      then let (b, s) = PickNextSamplingPoint interval s in (True, s\<lparr>bytes_until_sample := b\<rparr>)
      else (False, s\<lparr>bytes_until_sample := bytes_until_sample s - k\<rparr>))"

end
