(* ===== verification/LinkedList.thy ===== *)
theory LinkedList
  imports Prelude
begin

text \<open>
  The intrusive singly linked lists of free objects (\<open>linked_list.h\<close>).  The store gives the pointer
  held in the first word of every object; a null pointer is 0, and following one is \<open>None\<close>.  The
  \<open>void**\<close> arguments of the code are passed by value and returned.
\<close>

section \<open>Model\<close>

type_synonym words = "nat \<Rightarrow> nat"

definition SLL_Next :: "nat \<Rightarrow> words \<Rightarrow> nat option" where
  "SLL_Next t w = (if t = 0 then None else Some (w t))"

definition SLL_SetNext :: "nat \<Rightarrow> nat \<Rightarrow> words \<Rightarrow> words option" where
  "SLL_SetNext t n w = (if t = 0 then None else Some (w(t := n)))"

definition SLL_Push :: "nat \<Rightarrow> nat \<Rightarrow> words \<Rightarrow> (nat \<times> words) option" where
  "SLL_Push list element w = do { w \<leftarrow> SLL_SetNext element list w; Some (element, w) }"

definition SLL_Pop :: "nat \<Rightarrow> words \<Rightarrow> (nat \<times> nat) option" where
  "SLL_Pop list w = do { next \<leftarrow> SLL_Next list w; Some (list, next) }"

text \<open>\<open>k\<close> steps along the list.\<close>

fun walk :: "nat \<Rightarrow> nat \<Rightarrow> words \<Rightarrow> nat option" where
  "walk 0 t w = Some t"
| "walk (Suc k) t w = do { t \<leftarrow> SLL_Next t w; walk k t w }"

text \<open>The result is the new head, the start and the end of the range.\<close>

definition SLL_PopRange :: "nat \<Rightarrow> int \<Rightarrow> words \<Rightarrow> (nat \<times> nat \<times> nat \<times> words) option" where
  "SLL_PopRange head N w =
     (if N = 0 then Some (head, 0, 0, w)
      else do {
        tmp \<leftarrow> walk (nat (N - 1)) head w;
        next \<leftarrow> SLL_Next tmp w;
        w \<leftarrow> SLL_SetNext tmp 0 w;
        Some (next, head, tmp, w) })"

definition SLL_PushRange :: "nat \<Rightarrow> nat \<Rightarrow> nat \<Rightarrow> words \<Rightarrow> (nat \<times> words) option" where
  "SLL_PushRange head start tail w =
     (if start = 0 then Some (head, w)
      else do { w \<leftarrow> SLL_SetNext tail head w; Some (start, w) })"

partial_function (option) size_loop :: "nat \<Rightarrow> int \<Rightarrow> words \<Rightarrow> int option" where
  "size_loop head count w =
     (if head = 0 then Some count
      else Option.bind (SLL_Next head w) (\<lambda>next. size_loop next (count + 1) w))"

declare size_loop.simps [code]

definition SLL_Size :: "nat \<Rightarrow> words \<Rightarrow> int option" where
  "SLL_Size head w = size_loop head 0 w"

section \<open>Lists in the store\<close>

text \<open>From \<open>p\<close> along the words through \<open>xs\<close> to \<open>q\<close>.\<close>

fun seg :: "words \<Rightarrow> nat \<Rightarrow> nat list \<Rightarrow> nat \<Rightarrow> bool" where
  "seg w p [] q = (p = q)"
| "seg w p (x # xs) q = (p = x \<and> x \<noteq> 0 \<and> seg w (w x) xs q)"

abbreviation sll :: "words \<Rightarrow> nat \<Rightarrow> nat list \<Rightarrow> bool" where
  "sll w p xs \<equiv> seg w p xs 0"

lemma seg_append: "seg w p (xs @ ys) q \<longleftrightarrow> (\<exists>r. seg w p xs r \<and> seg w r ys q)"
  by (induction xs arbitrary: p) auto

lemma seg_cong: "\<forall>x \<in> set xs. w' x = w x \<Longrightarrow> seg w' p xs q = seg w p xs q"
  by (induction xs arbitrary: p) auto

lemma seg_upd [simp]: "y \<notin> set xs \<Longrightarrow> seg (w(y := v)) p xs q = seg w p xs q"
  by (rule seg_cong) auto

lemma sll_nonzero: "seg w p xs q \<Longrightarrow> 0 \<notin> set xs"
  by (induction xs arbitrary: p) auto

lemma sll_null [simp]: "sll w 0 xs \<longleftrightarrow> xs = []"
  by (cases xs) auto

lemma sll_nil: "sll w p xs \<Longrightarrow> p = 0 \<longleftrightarrow> xs = []"
  by (cases xs) auto

lemma sll_unique: "sll w p xs \<Longrightarrow> sll w p ys \<Longrightarrow> xs = ys"
proof (induction xs arbitrary: p ys)
  case (Cons x xs)
  then obtain z where "ys = x # z" "sll w (w x) z" by (cases ys) auto
  then show ?case using Cons.IH[of "w x" z] Cons.prems by simp
qed simp

lemma sll_head: "sll w p (x # xs) \<longleftrightarrow> p = x \<and> x \<noteq> 0 \<and> sll w (w x) xs"
  by simp

text \<open>A null-terminated list has no repetition.\<close>

lemma sll_distinct: "sll w p xs \<Longrightarrow> distinct xs"
proof (induction xs arbitrary: p)
  case (Cons x xs)
  have "x \<notin> set xs"
  proof
    assume "x \<in> set xs"
    then obtain ys zs where xs: "xs = ys @ x # zs" using split_list by metis
    then have "sll w x (x # zs)" using Cons.prems by (auto simp: seg_append)
    then have "x # ys @ x # zs = x # zs" using Cons.prems xs sll_unique[of w x "x # xs" "x # zs"] by simp
    then have "length (x # ys @ x # zs) = length (x # zs)" by (rule arg_cong)
    then show False by simp
  qed
  then show ?case using Cons.IH[of "w x"] Cons.prems by simp
qed simp

lemma walk_sll:
  assumes "sll w p xs" "k < length xs"
  shows "walk k p w = Some (xs ! k)"
  using assms
proof (induction k arbitrary: p xs)
  case 0
  then show ?case by (cases xs) auto
next
  case (Suc k)
  then show ?case by (cases xs) (auto simp: SLL_Next_def)
qed

lemma SLL_Push_ok:
  assumes "sll w p xs" "x \<noteq> 0" "x \<notin> set xs"
  shows "SLL_Push p x w = Some (x, w(x := p)) \<and> sll (w(x := p)) x (x # xs)"
  using assms by (simp add: SLL_Push_def SLL_SetNext_def)

lemma SLL_Pop_ok:
  assumes "sll w p (x # xs)"
  shows "SLL_Pop p w = Some (x, w x) \<and> sll w (w x) xs"
  using assms by (simp add: SLL_Pop_def SLL_Next_def)

text \<open>Setting the last word of a list splices another one behind it.\<close>

lemma splice:
  assumes "sll w p (xs @ [x])" "seg w q ys r" "x \<notin> set ys"
  shows "seg (w(x := q)) p (xs @ [x] @ ys) r"
proof -
  have "x \<notin> set xs" using sll_distinct[OF assms(1)] by simp
  then show ?thesis using assms by (auto simp: seg_append)
qed

lemma SLL_PopRange_ok:
  assumes "sll w p (xs @ ys)" "xs \<noteq> []"
  shows "SLL_PopRange p (int (length xs)) w = Some (if ys = [] then 0 else hd ys, hd xs, last xs, w(last xs := 0))
    \<and> sll (w(last xs := 0)) (hd xs) xs \<and> sll (w(last xs := 0)) (if ys = [] then 0 else hd ys) ys"
proof -
  obtain zs z where xs: "xs = zs @ [z]" using assms(2) by (metis rev_exhaust)
  have d: "distinct (xs @ ys)" by (rule sll_distinct[OF assms(1)])
  obtain r where r: "seg w p xs r" "sll w r ys" using assms(1) seg_append by blast
  then have z: "z \<noteq> 0" "w z = r" "seg w p zs z" by (auto simp: xs seg_append)
  have rh: "r = (if ys = [] then 0 else hd ys)" using r(2) by (cases ys) auto
  have "walk (length zs) p w = Some z" using walk_sll[OF assms(1), of "length zs"] by (simp add: xs nth_append)
  moreover have "nat (int (length xs) - 1) = length zs" by (simp add: xs)
  moreover have ph: "p = hd xs" using r(1) assms(2) by (cases xs) auto
  ultimately have "SLL_PopRange p (int (length xs)) w = Some (r, hd xs, z, w(z := 0))"
    using z by (simp add: SLL_PopRange_def SLL_Next_def SLL_SetNext_def xs)
  moreover have "z \<notin> set zs" "z \<notin> set ys" using d by (auto simp: xs)
  then have "sll (w(z := 0)) (hd xs) xs" "sll (w(z := 0)) r ys"
    using z r(2) ph by (auto simp: xs seg_append)
  ultimately show ?thesis using rh by (simp add: xs)
qed

lemma SLL_PushRange_ok:
  assumes "sll w p xs" "sll w s (ys @ [y])" "set (ys @ [y]) \<inter> set xs = {}"
  shows "SLL_PushRange p s y w = Some (s, w(y := p)) \<and> sll (w(y := p)) s (ys @ [y] @ xs)"
proof -
  have "s \<noteq> 0" using sll_nil[OF assms(2)] by auto
  moreover have "y \<noteq> 0" using sll_nonzero[OF assms(2)] by auto
  ultimately show ?thesis
    using splice[OF assms(2,1)] assms(3) by (simp add: SLL_PushRange_def SLL_SetNext_def)
qed

lemma size_loop_ok: "sll w p xs \<Longrightarrow> size_loop p n w = Some (n + int (length xs))"
proof (induction xs arbitrary: p n)
  case Nil
  then show ?case by (simp add: size_loop.simps)
next
  case (Cons x xs)
  then show ?case by (subst size_loop.simps) (simp add: SLL_Next_def)
qed

text \<open>
  C40: the singly linked lists of objects.  Taking the first objects off a list gives them as a list of
  their own, ending in null, with the right ends, and leaves the others; putting a range in front of
  a list gives the concatenation; pushing and popping are inverse; the size is the length.
\<close>

theorem SLL_operations:
  assumes "sll w p (xs @ ys)" "xs \<noteq> []"
  shows "\<exists>q s e w1 w2. SLL_PopRange p (int (length xs)) w = Some (q, s, e, w1) \<and> sll w1 s xs \<and> sll w1 q ys
    \<and> s = hd xs \<and> e = last xs
    \<and> SLL_PushRange q s e w1 = Some (p, w2) \<and> w2 = w
    \<and> SLL_Size p w = Some (int (length xs + length ys))
    \<and> SLL_Pop p w = Some (hd xs, w (hd xs)) \<and> SLL_Push (w (hd xs)) (hd xs) w = Some (p, w)"
proof -
  let ?q = "if ys = [] then 0 else hd ys" and ?w1 = "w(last xs := 0)"
  note P = SLL_PopRange_ok[OF assms]
  obtain zs z where xs: "xs = zs @ [z]" using assms(2) by (metis rev_exhaust)
  have h: "p = hd xs" "p \<noteq> 0" using assms by (cases xs; auto)+
  have z: "z \<noteq> 0" using sll_nonzero[OF assms(1)] by (auto simp: xs)
  have "w z = ?q"
    using assms(1) by (cases ys) (auto simp: xs seg_append)
  then have "SLL_PushRange ?q (hd xs) (last xs) ?w1 = Some (p, w)"
    using h z by (auto simp: SLL_PushRange_def SLL_SetNext_def xs)
  moreover have "SLL_Size p w = Some (int (length xs + length ys))"
    using size_loop_ok[OF assms(1), of 0] by (simp add: SLL_Size_def)
  moreover have "SLL_Pop p w = Some (hd xs, w (hd xs))" "SLL_Push (w (hd xs)) (hd xs) w = Some (p, w)"
    using h by (auto simp: SLL_Pop_def SLL_Push_def SLL_Next_def SLL_SetNext_def)
  ultimately show ?thesis using P by blast
qed

theorem SLL_operations_witness:
  "\<exists>q s e w1. SLL_PopRange 8 2 ((\<lambda>_. 0)(8 := 16, 16 := 24)) = Some (q, s, e, w1) \<and> sll w1 q [24] \<and> e = 16"
  using SLL_operations[of "(\<lambda>_. 0)(8 := 16, 16 := 24)" 8 "[8, 16]" "[24]"] by auto

end
