(* ===== verification/CentralFreeList.thy ===== *)
theory CentralFreeList
  imports LinkedList PageHeapThms
begin

text \<open>
  The central free lists (\<open>central_freelist.h\<close>, \<open>central_freelist.cc\<close>), one per size class, over the
  page heap: the state of \<open>CentralFreeList\<close> and every operation.  The calls are atomic: the locks,
  which the code drops while it works on the page heap or on another list, are not modelled.  A free
  object is the address of its first word; the words of the objects are the \<open>store\<close>.
\<close>

section \<open>State\<close>

record cfl =
  num_spans :: nat
  counter :: nat
  tc_slots :: "nat \<Rightarrow> nat \<times> nat"
  used_slots :: int
  cache_size :: int
  max_cache_size :: int

text \<open>The statics: the page heap, the size map and \<open>central_cache\<close>; and the words of the objects.\<close>

record central =
  pheap :: pageheap
  smap :: sizemap
  central_cache :: "nat \<Rightarrow> cfl"
  store :: words
  race_counter :: nat

definition kMaxNumTransferEntries :: nat where [simp]: "kMaxNumTransferEntries = 64"

definition set_cfl :: "nat \<Rightarrow> (cfl \<Rightarrow> cfl) \<Rightarrow> central \<Rightarrow> central" where
  "set_cfl cl f st = st\<lparr>central_cache := (central_cache st)(cl := f (central_cache st cl))\<rparr>"

definition on_lists_of :: "(span_mem \<Rightarrow> span_mem option) \<Rightarrow> pageheap \<Rightarrow> pageheap option" where
  "on_lists_of f h = do { m \<leftarrow> f (mem h); Some (h\<lparr>mem := m\<rparr>) }"

text \<open>\<open>DLL_Remove(span); DLL_Prepend(list, span)\<close>\<close>

definition move_to :: "spanptr \<Rightarrow> spanptr \<Rightarrow> pageheap \<Rightarrow> pageheap option" where
  "move_to l p = on_lists_of (\<lambda>m. do { m \<leftarrow> DLL_Remove p m; DLL_Prepend l p m })"

section \<open>Init\<close>

definition cfl_Init :: "nat \<Rightarrow> central \<Rightarrow> central option" where
  "cfl_Init cl st = do {
     h \<leftarrow> on_lists_of (\<lambda>m. do { m \<leftarrow> DLL_Init (CflEmpty cl) m; DLL_Init (CflNonempty cl) m }) (pheap st);
     let bytes = int (ByteSizeForClass (smap st) cl);
     let objs_to_move = int (num_objects_to_move (smap st) cl);
     check (cl > 0 \<longrightarrow> objs_to_move > 0 \<and> bytes > 0);
     let mx = (if cl > 0 then min (int kMaxNumTransferEntries) (max 1 (1048576 div (bytes * objs_to_move)))
               else int kMaxNumTransferEntries);
     let initial = (if cl > 0 then min 16 mx else 16);
     check (initial \<le> mx);
     Some (set_cfl cl (\<lambda>f. f\<lparr>num_spans := 0, counter := 0, max_cache_size := mx, cache_size := initial,
       used_slots := 0\<rparr>) (st\<lparr>pheap := h\<rparr>)) }"

section \<open>Taking objects from spans\<close>

text \<open>\<open>FetchFromSpans\<close>: an object, or null when no span has a free one.\<close>

definition FetchFromSpans :: "nat \<Rightarrow> central \<Rightarrow> (nat \<times> central) option" where
  "FetchFromSpans cl st = do {
     e \<leftarrow> DLL_IsEmpty (CflNonempty cl) (mem (pheap st));
     if e then Some (0, st)
     else do {
       l \<leftarrow> mem (pheap st) (CflNonempty cl);
       spn \<leftarrow> sp_next l;
       s \<leftarrow> mem (pheap st) spn;
       check (sp_objects s \<noteq> 0);
       h \<leftarrow> modify spn (\<lambda>s. s\<lparr>sp_refcount := (sp_refcount s + 1) mod 65536\<rparr>) (pheap st);
       let result = sp_objects s;
       next \<leftarrow> SLL_Next result (store st);
       h \<leftarrow> modify spn (\<lambda>s. s\<lparr>sp_objects := next\<rparr>) h;
       h \<leftarrow> (if next = 0 then move_to (CflEmpty cl) spn h else Some h);
       Some (result, set_cfl cl (\<lambda>f. f\<lparr>counter := sub64 (counter f) 1\<rparr>) (st\<lparr>pheap := h\<rparr>)) } }"

text \<open>The loop of \<open>Populate\<close>; \<open>tail\<close> is \<open>None\<close> for \<open>&span->objects\<close>, whose content is \<open>obj\<close>.\<close>

definition write_tail :: "nat option \<Rightarrow> nat \<Rightarrow> nat \<times> words \<Rightarrow> nat \<times> words" where
  "write_tail tail v = (\<lambda>(obj, w). case tail of None \<Rightarrow> (v, w) | Some a \<Rightarrow> (obj, w(a := v)))"

partial_function (option) carve_objects ::
  "nat \<Rightarrow> nat \<Rightarrow> nat option \<Rightarrow> nat \<Rightarrow> nat \<Rightarrow> nat \<times> words \<Rightarrow> (nat \<times> nat option \<times> nat \<times> nat \<times> words) option" where
  "carve_objects sz limit tail ptr num ow =
     (if ptr + sz \<le> limit
      then carve_objects sz limit (Some ptr) (ptr + sz) (num + 1) (write_tail tail ptr ow)
      else Some (ptr, tail, num, ow))"

declare carve_objects.simps [code]

definition Populate :: "env \<Rightarrow> nat \<Rightarrow> central \<Rightarrow> central option" where
  "Populate env cl st = do {
     let npages = class_to_pages (smap st) cl;
     (r, h) \<leftarrow> New env npages (pheap st);
     case r of
       None \<Rightarrow> Some (st\<lparr>pheap := h\<rparr>)
     | Some spn \<Rightarrow> do {
         h \<leftarrow> RegisterSizeClass spn cl h;
         s \<leftarrow> mem h spn;
         check (sp_length s = npages);
         h \<leftarrow> ofold (\<lambda>i h. CacheSizeClass (sp_start s + i) cl h) [0..<npages] h;
         let ptr = span_bytes (sp_start s);
         let limit = ptr + span_bytes npages;
         (ptr, tail, num, ow) \<leftarrow>
           carve_objects (ByteSizeForClass (smap st) cl) limit None ptr 0 (sp_objects s, store st);
         check (ptr \<le> limit);
         let (obj, w) = write_tail tail 0 ow;
         h \<leftarrow> modify spn (\<lambda>s. s\<lparr>sp_objects := obj\<rparr>) h;
         h \<leftarrow> modify spn (\<lambda>s. s\<lparr>sp_refcount := 0\<rparr>) h;
         h \<leftarrow> on_lists_of (DLL_Prepend (CflNonempty cl) spn) h;
         Some (set_cfl cl (\<lambda>f. f\<lparr>num_spans := add64 (num_spans f) 1, counter := add64 (counter f) num\<rparr>)
           (st\<lparr>pheap := h, store := w\<rparr>)) } }"

definition FetchFromSpansSafe :: "env \<Rightarrow> nat \<Rightarrow> central \<Rightarrow> (nat \<times> central) option" where
  "FetchFromSpansSafe env cl st = do {
     (t, st) \<leftarrow> FetchFromSpans cl st;
     if t = 0 then do { st \<leftarrow> Populate env cl st; FetchFromSpans cl st }
     else Some (t, st) }"

section \<open>Returning objects to spans\<close>

definition MapObjectToSpan :: "nat \<Rightarrow> pageheap \<Rightarrow> spanptr option" where
  "MapObjectToSpan object h = GetDescriptor h (drop_bit kPageShift object)"

definition ReleaseToSpans :: "env \<Rightarrow> nat \<Rightarrow> nat \<Rightarrow> central \<Rightarrow> central option" where
  "ReleaseToSpans env cl object st = do {
     spn \<leftarrow> MapObjectToSpan object (pheap st);
     s \<leftarrow> mem (pheap st) spn;
     check (sp_refcount s > 0);
     h \<leftarrow> (if sp_objects s = 0 then move_to (CflNonempty cl) spn (pheap st) else Some (pheap st));
     let st = set_cfl cl (\<lambda>f. f\<lparr>counter := add64 (counter f) 1\<rparr>) st;
     h \<leftarrow> modify spn (\<lambda>s. s\<lparr>sp_refcount := sp_refcount s - 1\<rparr>) h;
     s \<leftarrow> mem h spn;
     if sp_refcount s = 0 then do {
       check (ByteSizeForClass (smap st) (sp_sizeclass s) \<noteq> 0);
       let st = set_cfl cl (\<lambda>f. f\<lparr>counter := sub64 (counter f)
         (span_bytes (sp_length s) div ByteSizeForClass (smap st) (sp_sizeclass s))\<rparr>) st;
       h \<leftarrow> on_lists_of (DLL_Remove spn) h;
       let st = set_cfl cl (\<lambda>f. f\<lparr>num_spans := sub64 (num_spans f) 1\<rparr>) st;
       h \<leftarrow> Delete env spn h;
       Some (st\<lparr>pheap := h\<rparr>) }
     else do {
       w \<leftarrow> SLL_SetNext object (sp_objects s) (store st);
       h \<leftarrow> modify spn (\<lambda>s. s\<lparr>sp_objects := object\<rparr>) h;
       Some (st\<lparr>pheap := h, store := w\<rparr>) } }"

partial_function (option) ReleaseListToSpans :: "env \<Rightarrow> nat \<Rightarrow> nat \<Rightarrow> central \<Rightarrow> central option" where
  "ReleaseListToSpans env cl start st =
     (if start = 0 then Some st
      else Option.bind (SLL_Next start (store st)) (\<lambda>next.
        Option.bind (ReleaseToSpans env cl start st) (\<lambda>st. ReleaseListToSpans env cl next st)))"

declare ReleaseListToSpans.simps [code]

section \<open>The transfer cache\<close>

text \<open>\<open>ShrinkCache\<close> on the list of class \<open>t\<close>; \<open>locked_size_class\<close> only says which lock to drop.\<close>

definition ShrinkCache :: "env \<Rightarrow> nat \<Rightarrow> bool \<Rightarrow> central \<Rightarrow> (bool \<times> central) option" where
  "ShrinkCache env t force st = (let f = central_cache st t in
     if cache_size f = 0 then Some (False, st)
     else if \<not> force \<and> used_slots f = cache_size f then Some (False, st)
     else do {
       check (used_slots f \<le> cache_size f);
       check (0 \<le> cache_size f);
       if used_slots f = cache_size f then do {
         let st = set_cfl t (\<lambda>f. f\<lparr>cache_size := cache_size f - 1, used_slots := used_slots f - 1\<rparr>) st;
         st \<leftarrow> ReleaseListToSpans env t (fst (tc_slots f (nat (used_slots f - 1)))) st;
         Some (True, st) }
       else Some (True, set_cfl t (\<lambda>f. f\<lparr>cache_size := cache_size f - 1\<rparr>) st) })"

definition EvictRandomSizeClass :: "env \<Rightarrow> nat \<Rightarrow> bool \<Rightarrow> central \<Rightarrow> (bool \<times> central) option" where
  "EvictRandomSizeClass env locked_size_class force st = do {
     let t = race_counter st;
     let st = st\<lparr>race_counter := t + 1\<rparr>;
     let (t, st) = (if t \<ge> kNumClasses then (t mod kNumClasses, st\<lparr>race_counter := t mod kNumClasses\<rparr>) else (t, st));
     check (t < kNumClasses);
     if t = locked_size_class then Some (False, st) else ShrinkCache env t force st }"

definition MakeCacheSpace :: "env \<Rightarrow> nat \<Rightarrow> central \<Rightarrow> (bool \<times> central) option" where
  "MakeCacheSpace env cl st =
     (if used_slots (central_cache st cl) < cache_size (central_cache st cl) then Some (True, st)
      else if cache_size (central_cache st cl) = max_cache_size (central_cache st cl) then Some (False, st)
      else do {
        (b, st) \<leftarrow> EvictRandomSizeClass env cl False st;
        (b, st) \<leftarrow> (if b then Some (True, st) else EvictRandomSizeClass env cl True st);
        if b \<and> cache_size (central_cache st cl) < max_cache_size (central_cache st cl)
        then Some (True, set_cfl cl (\<lambda>f. f\<lparr>cache_size := cache_size f + 1\<rparr>) st)
        else Some (False, st) })"

section \<open>The interface\<close>

definition InsertRange :: "env \<Rightarrow> nat \<Rightarrow> nat \<Rightarrow> nat \<Rightarrow> int \<Rightarrow> central \<Rightarrow> central option" where
  "InsertRange env cl start tail N st = do {
     (space, st) \<leftarrow> (if N = int (num_objects_to_move (smap st) cl) then MakeCacheSpace env cl st
                     else Some (False, st));
     if space then do {
       let slot = used_slots (central_cache st cl);
       check (slot \<ge> 0);
       check (slot < max_cache_size (central_cache st cl));
       Some (set_cfl cl (\<lambda>f. f\<lparr>used_slots := slot + 1, tc_slots := (tc_slots f)(nat slot := (start, tail))\<rparr>) st) }
     else ReleaseListToSpans env cl start st }"

text \<open>The loop of \<open>RemoveRange\<close>: at most \<open>k\<close> more objects in front of \<open>head\<close>.\<close>

fun fetch_more :: "nat \<Rightarrow> nat \<Rightarrow> nat \<Rightarrow> int \<Rightarrow> central \<Rightarrow> (nat \<times> int \<times> central) option" where
  "fetch_more cl 0 head result st = Some (head, result, st)"
| "fetch_more cl (Suc k) head result st = do {
     (t, st) \<leftarrow> FetchFromSpans cl st;
     if t = 0 then Some (head, result, st)
     else do {
       (head, w) \<leftarrow> SLL_Push head t (store st);
       fetch_more cl k head (result + 1) (st\<lparr>store := w\<rparr>) } }"

text \<open>The result is the number of objects, the start and the end of their list.\<close>

definition RemoveRange :: "env \<Rightarrow> nat \<Rightarrow> int \<Rightarrow> central \<Rightarrow> (int \<times> nat \<times> nat \<times> central) option" where
  "RemoveRange env cl N st = do {
     check (N > 0);
     if N = int (num_objects_to_move (smap st) cl) \<and> used_slots (central_cache st cl) > 0 then do {
       let slot = used_slots (central_cache st cl) - 1;
       let st = set_cfl cl (\<lambda>f. f\<lparr>used_slots := slot\<rparr>) st;
       check (slot \<ge> 0);
       let entry = tc_slots (central_cache st cl) (nat slot);
       Some (N, fst entry, snd entry, st) }
     else do {
       (tail, st) \<leftarrow> FetchFromSpansSafe env cl st;
       if tail \<noteq> 0 then do {
         w \<leftarrow> SLL_SetNext tail 0 (store st);
         (head, result, st) \<leftarrow> fetch_more cl (nat (N - 1)) tail 1 (st\<lparr>store := w\<rparr>);
         Some (result, head, tail, st) }
       else Some (0, 0, 0, st) } }"

text \<open>The counter as an \<open>int\<close>.\<close>

definition cfl_length :: "nat \<Rightarrow> central \<Rightarrow> int" where
  "cfl_length cl st = signed_take_bit 31 (int (counter (central_cache st cl)))"

definition tc_length :: "nat \<Rightarrow> central \<Rightarrow> int" where
  "tc_length cl st = used_slots (central_cache st cl) * int (num_objects_to_move (smap st) cl)"

definition OverheadBytes :: "nat \<Rightarrow> central \<Rightarrow> nat option" where
  "OverheadBytes cl st =
     (if cl = 0 then Some 0
      else do {
        check (class_to_size (smap st) cl > 0);
        Some ((num_spans (central_cache st cl)
          * ((class_to_pages (smap st) cl * kPageSize) mod class_to_size (smap st) cl)) mod two64) })"

end
