(* ===== verification/CentralFreeListInv.thy ===== *)
theory CentralFreeListInv
  imports CentralFreeList
begin

text \<open>
  The invariant of the central free lists.  Every span of a class is on the empty or the nonempty list
  of its class, its page-map entries lead to it, its free objects form a chain, and its reference
  count is the number of the others.  Of those, some wait in the transfer cache; the rest is owned by
  the clients.  \<open>central_ok st Own\<close> says that the state is consistent and that \<open>Own cl\<close> is the set of
  objects of class \<open>cl\<close> in the hands of clients.
\<close>

section \<open>Size classes\<close>

abbreviation classes :: "nat set" where "classes \<equiv> {1..<kNumClasses}"

abbreviation osz :: "nat \<Rightarrow> nat" where "osz \<equiv> class_size_table"
abbreviation npg :: "nat \<Rightarrow> nat" where "npg \<equiv> class_pages_table"

definition per_span :: "nat \<Rightarrow> nat" where
  "per_span cl = npg cl * kPageSize div osz cl"

definition batch :: "nat \<Rightarrow> nat" where
  "batch cl = NumMoveSize (osz cl)"

lemma class_pages_small: "list_all (\<lambda>c. class_pages_table c \<le> 32) [1..<86]"
  by (simp add: class_pages_table_simps upt_rec flip: numeral_2_eq_2)

lemma class_facts:
  assumes "cl \<in> classes"
  shows "8 \<le> osz cl" "0 < npg cl" "npg cl \<le> 32" "per_span cl < 65536" "2 \<le> batch cl" "batch cl \<le> 32"
    "cl < 86" "osz cl * per_span cl \<le> npg cl * kPageSize"
proof -
  have e: "class_entry_ok cl" using class_table_entry assms by simp
  then show s: "8 \<le> osz cl" and "0 < npg cl" by (simp_all add: class_entry_ok_def Let_def)
  show n: "npg cl \<le> 32" using class_pages_small assms by (simp add: list_all_iff)
  have "per_span cl \<le> npg cl * kPageSize div 8" unfolding per_span_def by (rule div_le_mono2) (use s in auto)
  also have "\<dots> \<le> 32 * kPageSize div 8" using n by (intro div_le_mono mult_le_mono1)
  finally show "per_span cl < 65536" by simp
  show "2 \<le> batch cl" "batch cl \<le> 32" using s by (auto simp: batch_def NumMoveSize_def Let_def)
  show "cl < 86" using assms by simp
  show "osz cl * per_span cl \<le> npg cl * kPageSize" by (simp add: per_span_def)
qed

lemma sizemap_facts:
  "cl \<in> classes \<Longrightarrow> num_objects_to_move init_sizemap cl = batch cl"
  "ByteSizeForClass init_sizemap cl = osz cl" "class_to_size init_sizemap cl = osz cl" "class_to_pages init_sizemap cl = npg cl"
  "num_objects_to_move init_sizemap 0 = 0"
  by (simp_all add: init_sizemap_tables batch_def) (simp add: ByteSizeForClass_def init_sizemap_def)

section \<open>Objects\<close>

definition obj_list :: "nat \<Rightarrow> nat \<Rightarrow> nat list" where
  "obj_list cl s = map (\<lambda>i. s * kPageSize + i * osz cl) [0..<per_span cl]"

abbreviation objs :: "nat \<Rightarrow> nat \<Rightarrow> nat set" where
  "objs cl s \<equiv> set (obj_list cl s)"

lemma objs_page:
  assumes "x \<in> objs cl s" "cl \<in> classes"
  shows "x div kPageSize \<in> {s..<s + npg cl}"
proof -
  obtain i where i: "i < per_span cl" "x = s * kPageSize + i * osz cl" using assms(1) by (auto simp: obj_list_def)
  have "(i + 1) * osz cl \<le> per_span cl * osz cl" using i(1) by (intro mult_le_mono1) simp
  also have "\<dots> \<le> npg cl * kPageSize" using class_facts(8)[OF assms(2)] by (simp only: mult.commute)
  finally have "i * osz cl < npg cl * kPageSize" using class_facts(1)[OF assms(2)] by simp
  then have "i * osz cl div kPageSize < npg cl" by (simp add: less_mult_imp_div_less)
  then show ?thesis using i(2) by simp
qed

lemma obj_list_facts:
  assumes "cl \<in> classes"
  shows "distinct (obj_list cl s)" "length (obj_list cl s) = per_span cl" "card (objs cl s) = per_span cl"
proof -
  show "distinct (obj_list cl s)"
    using class_facts(1)[OF assms] by (auto simp: obj_list_def distinct_map inj_on_def)
  then show "length (obj_list cl s) = per_span cl" "card (objs cl s) = per_span cl"
    using distinct_card[of "obj_list cl s"] by (simp_all add: obj_list_def)
qed

lemma objs_disjoint:
  assumes "cl \<in> classes" "cl' \<in> classes" "s + npg cl \<le> s' \<or> s' + npg cl' \<le> s"
  shows "objs cl s \<inter> objs cl' s' = {}"
  using objs_page[OF _ assms(1), of _ s] objs_page[OF _ assms(2), of _ s'] assms(3) by fastforce

section \<open>The invariant\<close>

definition cheads :: "spanptr set" where
  "cheads = CflEmpty ` classes \<union> CflNonempty ` classes"

text \<open>A span \<open>p\<close> of class \<open>cl\<close> whose free objects are the chain \<open>xs\<close>.\<close>

definition span_ok :: "span_mem \<Rightarrow> (nat \<Rightarrow> spanptr option) \<Rightarrow> words \<Rightarrow> nat \<Rightarrow> spanptr \<Rightarrow> nat list \<Rightarrow> bool" where
  "span_ok m g w cl p xs \<longleftrightarrow> (\<exists>a t. p = Sp a \<and> m p = Some t \<and> sp_location t = IN_USE \<and> sp_length t = npg cl
     \<and> sp_sizeclass t = cl \<and> (\<forall>j \<in> {sp_start t..<sp_start t + npg cl}. g j = Some p)
     \<and> sll w (sp_objects t) xs \<and> set xs \<subseteq> objs cl (sp_start t) \<and> sp_refcount t + length xs = per_span cl)"

text \<open>The spans of a class, and their objects.\<close>

definition class_spans :: "(spanptr \<Rightarrow> spanptr list) \<Rightarrow> nat \<Rightarrow> spanptr set" where
  "class_spans L cl = set (L (CflNonempty cl)) \<union> set (L (CflEmpty cl))"

definition class_objs :: "span_mem \<Rightarrow> (spanptr \<Rightarrow> spanptr list) \<Rightarrow> nat \<Rightarrow> nat set" where
  "class_objs m L cl = (\<Union>p \<in> class_spans L cl. objs cl (sstart m p))"

definition class_free :: "(spanptr \<Rightarrow> spanptr list) \<Rightarrow> (spanptr \<Rightarrow> nat list) \<Rightarrow> nat \<Rightarrow> nat set" where
  "class_free L C cl = (\<Union>p \<in> class_spans L cl. set (C p))"

text \<open>The transfer cache of a class holds the chains \<open>T\<close>.\<close>

definition tc_ok :: "words \<Rightarrow> cfl \<Rightarrow> nat \<Rightarrow> nat list list \<Rightarrow> bool" where
  "tc_ok w f cl T \<longleftrightarrow> used_slots f = int (length T) \<and> used_slots f \<le> cache_size f
     \<and> cache_size f \<le> max_cache_size f \<and> max_cache_size f \<le> int kMaxNumTransferEntries
     \<and> (\<forall>i < length T. sll w (fst (tc_slots f i)) (T ! i) \<and> length (T ! i) = batch cl
          \<and> snd (tc_slots f i) = last (T ! i))"

abbreviation parked :: "(nat \<Rightarrow> nat list list) \<Rightarrow> nat \<Rightarrow> nat set" where
  "parked T cl \<equiv> set (concat (T cl))"

definition cinv :: "(spanptr \<Rightarrow> spanptr list) \<Rightarrow> (spanptr \<Rightarrow> nat list) \<Rightarrow> (nat \<Rightarrow> nat list list) \<Rightarrow> central \<Rightarrow> bool" where
  "cinv L C T st \<longleftrightarrow> smap st = init_sizemap \<and> heap_ok (pheap st) \<and> dlls (mem (pheap st)) cheads L
     \<and> (\<forall>cl \<in> classes. \<forall>p \<in> class_spans L cl.
          span_ok (mem (pheap st)) (GetDescriptor (pheap st)) (store st) cl p (C p)
          \<and> (p \<in> set (L (CflNonempty cl)) \<longleftrightarrow> C p \<noteq> []))
     \<and> (\<forall>cl \<in> classes. counter (central_cache st cl) = (\<Sum>p \<in> class_spans L cl. length (C p)) mod two64
          \<and> num_spans (central_cache st cl) = card (class_spans L cl) mod two64)
     \<and> (\<forall>cl < kNumClasses. tc_ok (store st) (central_cache st cl) cl (T cl)) \<and> T 0 = []
     \<and> (\<forall>cl \<in> classes. distinct (concat (T cl))
          \<and> parked T cl \<subseteq> class_objs (mem (pheap st)) L cl - class_free L C cl)"

definition owned :: "(spanptr \<Rightarrow> spanptr list) \<Rightarrow> (spanptr \<Rightarrow> nat list) \<Rightarrow> (nat \<Rightarrow> nat list list) \<Rightarrow> central \<Rightarrow> nat \<Rightarrow> nat set" where
  "owned L C T st cl = (if cl \<in> classes
     then class_objs (mem (pheap st)) L cl - class_free L C cl - parked T cl else {})"

definition central_ok :: "central \<Rightarrow> (nat \<Rightarrow> nat set) \<Rightarrow> bool" where
  "central_ok st Own \<longleftrightarrow> (\<exists>L C T. cinv L C T st \<and> Own = owned L C T st)"

lemma cinvD:
  assumes "cinv L C T st"
  shows "smap st = init_sizemap" "heap_ok (pheap st)" "dlls (mem (pheap st)) cheads L"
    "\<And>cl p. cl \<in> classes \<Longrightarrow> p \<in> class_spans L cl \<Longrightarrow>
       span_ok (mem (pheap st)) (GetDescriptor (pheap st)) (store st) cl p (C p)"
    "\<And>cl p. cl \<in> classes \<Longrightarrow> p \<in> class_spans L cl \<Longrightarrow> p \<in> set (L (CflNonempty cl)) \<longleftrightarrow> C p \<noteq> []"
    "\<And>cl. cl \<in> classes \<Longrightarrow> counter (central_cache st cl) = (\<Sum>p \<in> class_spans L cl. length (C p)) mod two64"
    "\<And>cl. cl \<in> classes \<Longrightarrow> num_spans (central_cache st cl) = card (class_spans L cl) mod two64"
    "\<And>cl. cl < kNumClasses \<Longrightarrow> tc_ok (store st) (central_cache st cl) cl (T cl)" "T 0 = []"
    "\<And>cl. cl \<in> classes \<Longrightarrow> distinct (concat (T cl))"
    "\<And>cl. cl \<in> classes \<Longrightarrow> parked T cl \<subseteq> class_objs (mem (pheap st)) L cl - class_free L C cl"
  using assms unfolding cinv_def by blast+

section \<open>What the page heap does not see\<close>

lemma cheads_idle: "u \<in> cheads \<Longrightarrow> idle D u"
  by (auto simp: cheads_def idle_def heads_def)

lemma span_okE:
  assumes "span_ok m g w cl p xs"
  obtains a t where "p = Sp a" "m p = Some t" "sp_location t = IN_USE" "sp_length t = npg cl" "sp_sizeclass t = cl"
    "\<And>j. j \<in> {sp_start t..<sp_start t + npg cl} \<Longrightarrow> g j = Some p" "sll w (sp_objects t) xs"
    "set xs \<subseteq> objs cl (sp_start t)" "sp_refcount t + length xs = per_span cl" "sstart m p = sp_start t"
    "desc {} m a = Some (sp_start t, npg cl, IN_USE)"
proof -
  obtain a t where t: "p = Sp a" "m p = Some t" "sp_location t = IN_USE" "sp_length t = npg cl" "sp_sizeclass t = cl"
    "\<forall>j \<in> {sp_start t..<sp_start t + npg cl}. g j = Some p" "sll w (sp_objects t) xs"
    "set xs \<subseteq> objs cl (sp_start t)" "sp_refcount t + length xs = per_span cl"
    using assms unfolding span_ok_def by blast
  have "desc {} m a = Some (sp_start t, npg cl, IN_USE)" using t by (simp add: desc_Some)
  moreover have "sstart m p = sp_start t" using t(2) by (simp add: sstart_def)
  ultimately show thesis using that t by blast
qed

lemma span_ok_idle: "span_ok m g w cl p xs \<Longrightarrow> idle (desc {} m) p \<and> m p \<noteq> None"
  by (erule span_okE) (auto simp: idle_def heads_def)

lemma sstart_shape: "shape m' = shape m \<Longrightarrow> sstart m' p = sstart m p"
  using shape_at[of m' m p] by (cases "m' p"; cases "m p") (auto simp: sstart_def dest: same_shape)

lemma span_ok_shape:
  assumes "shape m' = shape m" "span_ok m g w cl p xs"
  shows "span_ok m' g w cl p xs"
proof -
  obtain a t where t: "p = Sp a" "m p = Some t" "sp_location t = IN_USE" "sp_length t = npg cl" "sp_sizeclass t = cl"
    "\<forall>j \<in> {sp_start t..<sp_start t + npg cl}. g j = Some p" "sll w (sp_objects t) xs"
    "set xs \<subseteq> objs cl (sp_start t)" "sp_refcount t + length xs = per_span cl"
    using assms(2) unfolding span_ok_def by blast
  obtain t' where "m' p = Some t'" "sp_start t' = sp_start t" "sp_length t' = sp_length t"
    "sp_location t' = sp_location t" "sp_sizeclass t' = sp_sizeclass t" "sp_objects t' = sp_objects t"
    "sp_refcount t' = sp_refcount t" using shape_fields[OF assms(1) t(2)] by metis
  then show ?thesis using t unfolding span_ok_def by metis
qed

lemma span_ok_store: "\<forall>x \<in> set xs. w' x = w x \<Longrightarrow> span_ok m g w' cl p xs = span_ok m g w cl p xs"
  unfolding span_ok_def by (simp only: seg_cong[of xs w' w])

lemma span_ok_cong:
  assumes "span_ok m g w cl p xs" "m' p = m p" "\<And>j. j \<in> {sstart m p..<sstart m p + npg cl} \<Longrightarrow> g' j = g j"
  shows "span_ok m' g' w cl p xs"
  using assms unfolding span_ok_def sstart_def by auto

text \<open>Changes of the store outside the page structures leave the page heap consistent.\<close>

lemma heap_frame:
  assumes "heap_ok h" "desc {} m' = spans h" "\<And>u. \<not> idle (spans h) u \<Longrightarrow> m' u = mem h u"
  shows "heap_ok (h\<lparr>mem := m'\<rparr>)"
proof -
  obtain P L where I: "hinv {} P h L" "cover (spans h) = P" using assms(1) unfolding heap_ok_def heap_at_def by blast
  have "m' (Sp a) = None \<longleftrightarrow> mem h (Sp a) = None" for a
    using fun_cong[OF assms(2), of a] by (cases "m' (Sp a)"; cases "mem h (Sp a)") (simp_all add: desc_def)
  then have "{a. m' (Sp a) \<noteq> None} = {a. mem h (Sp a) \<noteq> None}" by simp
  moreover have "m' u = mem h u" if "u \<in> on_lists heads L" for u
  proof -
    have "\<not> idle (spans h) u" using idle_off_lists[OF hinv_parts(2)[OF I(1)]] that by blast
    then show ?thesis by (rule assms(3))
  qed
  ultimately have "hinv {} P (h\<lparr>mem := m'\<rparr>) L" using assms(2) by (intro hinv_frame_mem[OF I(1)])
  then show ?thesis using I(2) assms(2) unfolding heap_ok_def heap_at_def by auto
qed

lemma cinv_on_lists_idle:
  assumes "cinv L C T st" "u \<in> on_lists cheads L"
  shows "idle (spans (pheap st)) u \<and> mem (pheap st) u \<noteq> None"
proof (cases "u \<in> cheads")
  case True
  then have "dll (mem (pheap st)) u (L u)" using cinvD(3)[OF assms(1)] by (simp add: dlls_def)
  then have "mem (pheap st) u \<noteq> None" using path_live[of "mem (pheap st)" u "L u" u u] by (simp add: dll_def)
  then show ?thesis using cheads_idle[OF True] by simp
next
  case False
  then obtain cl where "cl \<in> classes" "u \<in> class_spans L cl"
    using assms(2) by (auto simp: on_lists_def cheads_def class_spans_def)
  then show ?thesis using cinvD(4)[OF assms(1)] span_ok_idle by blast
qed

text \<open>The list operations on the heads of the central lists, and changes of one span of a class.\<close>

lemma shape_frame:
  assumes "heap_ok h" "shape m' = shape (mem h)" "\<And>u. u \<notin> S \<Longrightarrow> m' u = mem h u" "\<And>u. u \<in> S \<Longrightarrow> idle (spans h) u"
  shows "heap_ok (h\<lparr>mem := m'\<rparr>)" "spans (h\<lparr>mem := m'\<rparr>) = spans h"
    "GetDescriptor (h\<lparr>mem := m'\<rparr>) = GetDescriptor h"
proof -
  show s: "spans (h\<lparr>mem := m'\<rparr>) = spans h" using desc_shape[OF assms(2)] by simp
  show "heap_ok (h\<lparr>mem := m'\<rparr>)"
    using s assms(3,4) by (intro heap_frame[OF assms(1)]) auto
  show "GetDescriptor (h\<lparr>mem := m'\<rparr>) = GetDescriptor h" by (rule GetDescriptor_cong) simp
qed

lemma modify_frame:
  assumes "heap_ok h" "mem h (Sp a) = Some t" "sp_location t = IN_USE" "sp_start (g t) = sp_start t"
    "sp_length (g t) = sp_length t" "sp_location (g t) = sp_location t"
  shows "modify (Sp a) g h = Some (h\<lparr>mem := (mem h)(Sp a \<mapsto> g t)\<rparr>)"
    "heap_ok (h\<lparr>mem := (mem h)(Sp a \<mapsto> g t)\<rparr>)" "spans (h\<lparr>mem := (mem h)(Sp a \<mapsto> g t)\<rparr>) = spans h"
    "GetDescriptor (h\<lparr>mem := (mem h)(Sp a \<mapsto> g t)\<rparr>) = GetDescriptor h"
proof -
  show "modify (Sp a) g h = Some (h\<lparr>mem := (mem h)(Sp a \<mapsto> g t)\<rparr>)" using assms(2) by (simp add: modify_def upd_def)
  show s: "spans (h\<lparr>mem := (mem h)(Sp a \<mapsto> g t)\<rparr>) = spans h" using assms by (auto simp: desc_def fun_eq_iff)
  have "\<not> idle (spans h) u \<Longrightarrow> u \<noteq> Sp a" for u using assms(2,3) by (auto simp: idle_def heads_def desc_Some)
  then show "heap_ok (h\<lparr>mem := (mem h)(Sp a \<mapsto> g t)\<rparr>)" using s by (intro heap_frame[OF assms(1)]) auto
  show "GetDescriptor (h\<lparr>mem := (mem h)(Sp a \<mapsto> g t)\<rparr>) = GetDescriptor h" by (rule GetDescriptor_cong) simp
qed

section \<open>Disjointness\<close>

lemma class_spans_disjoint:
  assumes "cinv L C T st" "cl \<in> classes" "cl' \<in> classes" "cl \<noteq> cl'"
  shows "class_spans L cl \<inter> class_spans L cl' = {}"
proof -
  have "span_ok (mem (pheap st)) (GetDescriptor (pheap st)) (store st) cl p (C p) \<Longrightarrow>
        span_ok (mem (pheap st)) (GetDescriptor (pheap st)) (store st) cl' p (C p) \<Longrightarrow> False" for p
    using assms(4) unfolding span_ok_def by auto
  then show ?thesis using cinvD(4)[OF assms(1)] assms(2,3) by blast
qed

lemma spans_apart:
  assumes "cinv L C T st" "cl \<in> classes" "cl' \<in> classes" "p \<in> class_spans L cl" "q \<in> class_spans L cl'" "p \<noteq> q"
  shows "objs cl (sstart (mem (pheap st)) p) \<inter> objs cl' (sstart (mem (pheap st)) q) = {}"
proof -
  note D = cinvD[OF assms(1)]
  obtain a s where a: "p = Sp a" "spans (pheap st) a = Some (s, npg cl, IN_USE)" "sstart (mem (pheap st)) p = s"
    using span_okE[OF D(4)[OF assms(2,4)]] by metis
  obtain b r where b: "q = Sp b" "spans (pheap st) b = Some (r, npg cl', IN_USE)" "sstart (mem (pheap st)) q = r"
    using span_okE[OF D(4)[OF assms(3,5)]] by metis
  obtain P M where I: "hinv {} P (pheap st) M" using D(2) unfolding heap_ok_def heap_at_def by blast
  have "a \<noteq> b" using a(1) b(1) assms(6) by auto
  then have "s + npg cl \<le> r \<or> r + npg cl' \<le> s"
    using hinv_parts(3)[OF I] a(2) b(2) unfolding descs_ok_def by blast
  then show ?thesis using objs_disjoint[OF assms(2,3)] a(3) b(3) by simp
qed

lemma class_objs_disjoint:
  assumes "cinv L C T st" "cl \<in> classes" "cl' \<in> classes" "cl \<noteq> cl'"
  shows "class_objs (mem (pheap st)) L cl \<inter> class_objs (mem (pheap st)) L cl' = {}"
proof -
  have "p \<noteq> q" if "p \<in> class_spans L cl" "q \<in> class_spans L cl'" for p q
    using class_spans_disjoint[OF assms] that by blast
  then show ?thesis unfolding class_objs_def using spans_apart[OF assms(1-3)] by blast
qed

lemma chain_subset:
  assumes "cinv L C T st" "cl \<in> classes" "p \<in> class_spans L cl"
  shows "set (C p) \<subseteq> objs cl (sstart (mem (pheap st)) p)" "objs cl (sstart (mem (pheap st)) p) \<subseteq> class_objs (mem (pheap st)) L cl"
    "class_free L C cl \<subseteq> class_objs (mem (pheap st)) L cl"
proof -
  have s: "set (C p) \<subseteq> objs cl (sstart (mem (pheap st)) p)" if "p \<in> class_spans L cl" for p
    by (rule span_okE[OF cinvD(4)[OF assms(1,2) that]]) simp
  then show "set (C p) \<subseteq> objs cl (sstart (mem (pheap st)) p)" using assms(3) by blast
  show "objs cl (sstart (mem (pheap st)) p) \<subseteq> class_objs (mem (pheap st)) L cl" using assms(3) by (auto simp: class_objs_def)
  show "class_free L C cl \<subseteq> class_objs (mem (pheap st)) L cl" using s by (auto simp: class_free_def class_objs_def)
qed

text \<open>The words that the invariant depends on: those of the objects no client owns.\<close>

lemma owned_facts:
  assumes "cinv L C T st" "x \<in> owned L C T st cl"
  shows "cl \<in> classes" "x \<in> class_objs (mem (pheap st)) L cl" "x \<notin> class_free L C cl" "x \<notin> parked T cl"
  using assms(2) by (auto simp: owned_def split: if_splits)

lemma owned_unused:
  assumes "cinv L C T st" "x \<in> owned L C T st cl" "cl' \<in> classes"
  shows "x \<notin> class_free L C cl'" "x \<notin> parked T cl'"
proof -
  note O = owned_facts[OF assms(1,2)]
  have "x \<notin> class_objs (mem (pheap st)) L cl'" if "cl' \<noteq> cl"
    using class_objs_disjoint[OF assms(1) O(1) assms(3)] that O(2) by blast
  moreover have "class_free L C cl' \<subseteq> class_objs (mem (pheap st)) L cl'"
    using chain_subset(3)[OF assms(1,3)] by (cases "class_spans L cl' = {}") (auto simp: class_free_def)
  moreover have "parked T cl' \<subseteq> class_objs (mem (pheap st)) L cl'" using cinvD(11)[OF assms(1,3)] by blast
  ultimately show "x \<notin> class_free L C cl'" "x \<notin> parked T cl'" using O(3,4) by (cases "cl' = cl"; blast)+
qed

lemma tc_ok_store:
  assumes "\<forall>x \<in> set (concat T). w' x = w x"
  shows "tc_ok w' f cl T = tc_ok w f cl T"
proof -
  have "sll w' q (T ! i) = sll w q (T ! i)" if "i < length T" for i q
    using assms that by (intro seg_cong) (auto simp: nth_mem)
  then show ?thesis unfolding tc_ok_def by auto
qed

lemma cinv_store:
  assumes "cinv L C T st" "\<And>cl x. cl \<in> classes \<Longrightarrow> x \<in> class_free L C cl \<union> parked T cl \<Longrightarrow> w' x = store st x"
  shows "cinv L C T (st\<lparr>store := w'\<rparr>)"
proof -
  note D = cinvD[OF assms(1)]
  have "span_ok (mem (pheap st)) (GetDescriptor (pheap st)) w' cl p (C p)" if "cl \<in> classes" "p \<in> class_spans L cl" for cl p
    using D(4)[OF that] assms(2)[OF that(1)] that(2) by (subst span_ok_store[where w = "store st"]) (auto simp: class_free_def)
  moreover have "tc_ok w' (central_cache st cl) cl (T cl)" if "cl < kNumClasses" for cl
  proof (cases "cl = 0")
    case True
    then show ?thesis using D(8)[OF that] D(9) by (simp add: tc_ok_def)
  next
    case False
    then show ?thesis using D(8)[OF that] assms(2)[of cl] that by (subst tc_ok_store[where w = "store st"]) auto
  qed
  ultimately show ?thesis using assms(1) unfolding cinv_def by simp
qed

section \<open>Sums over the spans of a class\<close>

lemma class_spans_finite [simp]: "finite (class_spans L cl)"
  by (simp add: class_spans_def)

lemma add64_mod: "add64 (x mod two64) y = (x + y) mod two64"
  by (simp add: add64_def mod_add_left_eq)

lemma sub64_mod:
  assumes "y \<le> x"
  shows "sub64 (x mod two64) y = (x - y) mod two64"
proof -
  have "sub64 (x mod two64) y = (x + (two64 - y mod two64)) mod two64" by (simp only: sub64_def mod_add_left_eq)
  also have "x + (two64 - y mod two64) = (x - y) + (y + (two64 - y mod two64))"
    using assms mod_less_divisor[of two64 y, OF two64_pos] by linarith
  also have "(y + (two64 - y mod two64)) = two64 * (y div two64) + two64"
  proof -
    have "y = two64 * (y div two64) + y mod two64" by simp
    moreover have "y mod two64 < two64" by simp
    ultimately show ?thesis by linarith
  qed
  also have "((x - y) + (two64 * (y div two64) + two64)) mod two64 = (x - y) mod two64"
    by (simp add: add.assoc[symmetric])
  finally show ?thesis .
qed

lemma sum_chain_upd:
  assumes "finite S" "p \<in> S"
  shows "(\<Sum>q \<in> S. length ((C(p := xs)) q)) = (\<Sum>q \<in> S. length (C q)) - length (C p) + length xs"
    "length (C p) \<le> (\<Sum>q \<in> S. length (C q))"
proof -
  have 1: "(\<Sum>q \<in> S. length (C q)) = length (C p) + (\<Sum>q \<in> S - {p}. length (C q))" using assms by (rule sum.remove)
  have "(\<Sum>q \<in> S. length ((C(p := xs)) q)) = length xs + (\<Sum>q \<in> S - {p}. length ((C(p := xs)) q))"
    using sum.remove[OF assms, of "\<lambda>q. length ((C(p := xs)) q)"] by simp
  also have "(\<Sum>q \<in> S - {p}. length ((C(p := xs)) q)) = (\<Sum>q \<in> S - {p}. length (C q))" by (rule sum.cong) auto
  finally show "(\<Sum>q \<in> S. length ((C(p := xs)) q)) = (\<Sum>q \<in> S. length (C q)) - length (C p) + length xs" using 1 by simp
  show "length (C p) \<le> (\<Sum>q \<in> S. length (C q))" using 1 by simp
qed

section \<open>Steps on the heap and the central lists\<close>

definition heap_lists :: "pageheap \<Rightarrow> (spanptr \<Rightarrow> spanptr list) \<Rightarrow> bool" where
  "heap_lists h L \<longleftrightarrow> heap_ok h \<and> dlls (mem h) cheads L \<and> (\<forall>u \<in> on_lists cheads L. idle (spans h) u)"

lemma cinv_heap_lists: "cinv L C T st \<Longrightarrow> heap_lists (pheap st) L"
  using cinvD(2,3) cinv_on_lists_idle unfolding heap_lists_def by blast

text \<open>Changing only the store of descriptors: everything else of the heap stays.\<close>

lemma heap_lists_modify:
  assumes "heap_lists h L" "mem h (Sp a) = Some t" "sp_location t = IN_USE" "sp_start (g t) = sp_start t"
    "sp_length (g t) = sp_length t" "sp_location (g t) = sp_location t" "sp_next (g t) = sp_next t" "sp_prev (g t) = sp_prev t"
  shows "modify (Sp a) g h = Some (h\<lparr>mem := (mem h)(Sp a \<mapsto> g t)\<rparr>)" "heap_lists (h\<lparr>mem := (mem h)(Sp a \<mapsto> g t)\<rparr>) L"
    "spans (h\<lparr>mem := (mem h)(Sp a \<mapsto> g t)\<rparr>) = spans h" "GetDescriptor (h\<lparr>mem := (mem h)(Sp a \<mapsto> g t)\<rparr>) = GetDescriptor h"
proof -
  note H = assms(1)[unfolded heap_lists_def]
  note M = modify_frame[of h a t g, OF conjunct1[OF H] assms(2-6)]
  show "modify (Sp a) g h = Some (h\<lparr>mem := (mem h)(Sp a \<mapsto> g t)\<rparr>)" "spans (h\<lparr>mem := (mem h)(Sp a \<mapsto> g t)\<rparr>) = spans h"
    "GetDescriptor (h\<lparr>mem := (mem h)(Sp a \<mapsto> g t)\<rparr>) = GetDescriptor h" by (rule M)+
  have "dlls ((mem h)(Sp a \<mapsto> g t)) cheads L = dlls (mem h) cheads L"
    using assms(2,7,8) by (intro dlls_cong) (simp add: nxt_def prv_def)
  then show "heap_lists (h\<lparr>mem := (mem h)(Sp a \<mapsto> g t)\<rparr>) L" using H M(2,3) by (simp add: heap_lists_def)
qed

lemma heap_lists_mod:
  assumes "heap_lists h L" "p = Sp a" "mem h p = Some t" "sp_location t = IN_USE" "g t = t'" "sp_start t' = sp_start t"
    "sp_length t' = sp_length t" "sp_location t' = sp_location t" "sp_next t' = sp_next t" "sp_prev t' = sp_prev t"
    and "h' = h\<lparr>mem := (mem h)(p \<mapsto> t')\<rparr>"
  obtains "modify p g h = Some h'" "heap_lists h' L" "GetDescriptor h' = GetDescriptor h"
  using heap_lists_modify[of h L a t g] assms by simp

lemma heap_lists_shape:
  assumes "heap_lists h L" "shape m' = shape (mem h)" "dlls m' cheads L'" "\<And>u. u \<notin> insert p (on_lists cheads L) \<Longrightarrow> m' u = mem h u"
    "idle (spans h) p" "on_lists cheads L' \<subseteq> insert p (on_lists cheads L)"
  shows "heap_lists (h\<lparr>mem := m'\<rparr>) L'" "spans (h\<lparr>mem := m'\<rparr>) = spans h" "GetDescriptor (h\<lparr>mem := m'\<rparr>) = GetDescriptor h"
proof -
  have "u \<in> insert p (on_lists cheads L) \<Longrightarrow> idle (spans h) u" for u using assms(1,5) by (auto simp: heap_lists_def)
  note F = shape_frame[of h m' "insert p (on_lists cheads L)", OF _ assms(2,4) this]
  have h: "heap_ok h" using assms(1) by (simp add: heap_lists_def)
  show s: "spans (h\<lparr>mem := m'\<rparr>) = spans h" using F(2)[OF h] .
  show "GetDescriptor (h\<lparr>mem := m'\<rparr>) = GetDescriptor h" by (rule GetDescriptor_cong) simp
  have "idle (spans h) u" if "u \<in> on_lists cheads L'" for u using assms(1,5,6) that unfolding heap_lists_def by blast
  then show "heap_lists (h\<lparr>mem := m'\<rparr>) L'" using F(1)[OF h] assms(3) s unfolding heap_lists_def by auto
qed

lemma mem_upd_inject [simp]: "h\<lparr>mem := a\<rparr> = h\<lparr>mem := b\<rparr> \<longleftrightarrow> a = b"
  by (metis pageheap.select_convs(1) pageheap.surjective pageheap.update_convs(1))

lemma heap_lists_remove:
  assumes "heap_lists h L" "l \<in> cheads" "p \<in> set (L l)"
  obtains m' where "on_lists_of (DLL_Remove p) h = Some (h\<lparr>mem := m'\<rparr>)" "heap_lists (h\<lparr>mem := m'\<rparr>) (L(l := remove1 p (L l)))"
    "shape m' = shape (mem h)" "detached m' p" "spans (h\<lparr>mem := m'\<rparr>) = spans h"
    "GetDescriptor (h\<lparr>mem := m'\<rparr>) = GetDescriptor h"
proof -
  have D: "dlls (mem h) cheads L" using assms(1) by (simp add: heap_lists_def)
  obtain m' where m': "DLL_Remove p (mem h) = Some m'" "dlls m' cheads (L(l := remove1 p (L l)))" "shape m' = shape (mem h)"
    "detached m' p" "\<forall>u. u \<notin> on_lists cheads L \<longrightarrow> m' u = mem h u"
    using span_lists.remove_law[OF D assms(2,3)] by blast
  have p: "idle (spans h) p" using assms by (auto simp: heap_lists_def on_lists_def)
  have sub: "on_lists cheads (L(l := remove1 p (L l))) \<subseteq> insert p (on_lists cheads L)"
    by (auto simp: on_lists_def dest: notin_set_remove1 split: if_splits)
  have fr: "\<And>u. u \<notin> insert p (on_lists cheads L) \<Longrightarrow> m' u = mem h u" using m'(5) by blast
  note S = heap_lists_shape[OF assms(1) m'(3,2) fr p sub]
  show thesis using that[of m'] m'(1,3,4) S by (simp add: on_lists_of_def)
qed

lemma heap_lists_prepend:
  assumes "heap_lists h L" "l \<in> cheads" "detached (mem h) p" "p \<notin> on_lists cheads L" "idle (spans h) p"
  obtains m' where "on_lists_of (DLL_Prepend l p) h = Some (h\<lparr>mem := m'\<rparr>)" "heap_lists (h\<lparr>mem := m'\<rparr>) (L(l := p # L l))"
    "shape m' = shape (mem h)" "spans (h\<lparr>mem := m'\<rparr>) = spans h" "GetDescriptor (h\<lparr>mem := m'\<rparr>) = GetDescriptor h"
proof -
  have D: "dlls (mem h) cheads L" using assms(1) by (simp add: heap_lists_def)
  obtain m' where m': "DLL_Prepend l p (mem h) = Some m'" "dlls m' cheads (L(l := p # L l))" "shape m' = shape (mem h)"
    "\<forall>u. u \<notin> insert p (on_lists cheads L) \<longrightarrow> m' u = mem h u"
    using span_lists.prepend_law[OF D assms(2-4)] by blast
  have sub: "on_lists cheads (L(l := p # L l)) \<subseteq> insert p (on_lists cheads L)"
    using assms(2) by (auto simp: on_lists_def split: if_splits)
  have fr: "\<And>u. u \<notin> insert p (on_lists cheads L) \<Longrightarrow> m' u = mem h u" using m'(4) by blast
  note S = heap_lists_shape[OF assms(1) m'(3,2) fr assms(5) sub]
  show thesis using that[of m'] m'(1,3) S by (simp add: on_lists_of_def)
qed

lemma heap_lists_move:
  assumes "heap_lists h L" "l \<in> cheads" "p \<in> set (L l)" "k \<in> cheads"
  obtains m' L' where "move_to k p h = Some (h\<lparr>mem := m'\<rparr>)" "heap_lists (h\<lparr>mem := m'\<rparr>) L'"
    "shape m' = shape (mem h)" "spans (h\<lparr>mem := m'\<rparr>) = spans h" "GetDescriptor (h\<lparr>mem := m'\<rparr>) = GetDescriptor h"
    "L' = (L(l := remove1 p (L l)))(k := p # (L(l := remove1 p (L l))) k)"
proof -
  obtain m1 where m1: "on_lists_of (DLL_Remove p) h = Some (h\<lparr>mem := m1\<rparr>)" "heap_lists (h\<lparr>mem := m1\<rparr>) (L(l := remove1 p (L l)))"
    "shape m1 = shape (mem h)" "detached m1 p" "spans (h\<lparr>mem := m1\<rparr>) = spans h" "GetDescriptor (h\<lparr>mem := m1\<rparr>) = GetDescriptor h"
    by (rule heap_lists_remove[OF assms(1-3)]) (rule that)
  have D: "dlls (mem h) cheads L" using assms(1) by (simp add: heap_lists_def)
  have off: "p \<notin> on_lists cheads (L(l := remove1 p (L l)))" by (rule span_lists.removed_off_lists[OF D assms(2,3)])
  have idl: "idle (spans (h\<lparr>mem := m1\<rparr>)) p" using assms(1-3) unfolding m1(5) by (auto simp: heap_lists_def on_lists_def)
  have det: "detached (mem (h\<lparr>mem := m1\<rparr>)) p" using m1(4) by simp
  obtain m2 where m2: "on_lists_of (DLL_Prepend k p) (h\<lparr>mem := m1\<rparr>) = Some (h\<lparr>mem := m1\<rparr>\<lparr>mem := m2\<rparr>)"
    "heap_lists (h\<lparr>mem := m1\<rparr>\<lparr>mem := m2\<rparr>) ((L(l := remove1 p (L l)))(k := p # (L(l := remove1 p (L l))) k))"
    "shape m2 = shape (mem (h\<lparr>mem := m1\<rparr>))" "spans (h\<lparr>mem := m1\<rparr>\<lparr>mem := m2\<rparr>) = spans (h\<lparr>mem := m1\<rparr>)"
    "GetDescriptor (h\<lparr>mem := m1\<rparr>\<lparr>mem := m2\<rparr>) = GetDescriptor (h\<lparr>mem := m1\<rparr>)"
    by (rule heap_lists_prepend[OF m1(2) assms(4) det off idl]) (rule that)
  have "move_to k p h = Some (h\<lparr>mem := m2\<rparr>)"
    using m1(1) m2(1) by (auto simp: move_to_def on_lists_of_def)
  then show thesis using that[of m2] m1(3,5,6) m2(2-5) by simp
qed

end
