(* ===== verification/CentralFreeListOps.thy ===== *)
theory CentralFreeListOps
  imports CentralFreeListInv
begin

text \<open>
  The operations of the central free lists against the invariant: each one succeeds, keeps the state
  consistent, and moves objects between the spans, the transfer cache and the clients as stated.
\<close>

lemma tc_ok_fields [simp]: "tc_ok w (f\<lparr>counter := n\<rparr>) cl T = tc_ok w f cl T" "tc_ok w (f\<lparr>num_spans := n\<rparr>) cl T = tc_ok w f cl T"
  by (simp_all add: tc_ok_def)

section \<open>One span changes its chain\<close>

lemma cinv_chain:
  assumes "cinv L C T st" "cl \<in> classes" "p \<in> class_spans L cl"
    and h': "heap_lists h' L'" "\<And>c. class_spans L' c = class_spans L c"
    and ne: "\<And>c q. c \<in> classes \<Longrightarrow> q \<in> class_spans L c \<Longrightarrow>
       q \<in> set (L' (CflNonempty c)) \<longleftrightarrow> (if q = p then xs \<noteq> [] else q \<in> set (L (CflNonempty c)))"
    and sp: "\<And>c q. c \<in> classes \<Longrightarrow> q \<in> class_spans L c \<Longrightarrow> q \<noteq> p \<Longrightarrow> span_ok (mem h') (GetDescriptor h') w' c q (C q)"
      "span_ok (mem h') (GetDescriptor h') w' cl p xs"
    and st: "\<And>q. sstart (mem h') q = sstart (mem (pheap st)) q"
    and w: "\<And>c x. c \<in> classes \<Longrightarrow> x \<in> parked T c \<Longrightarrow> w' x = store st x"
    and park: "set xs \<inter> parked T cl = {}"
    and cc: "central_cache st' = (central_cache st)(cl := (central_cache st cl)\<lparr>counter :=
        (\<Sum>q \<in> class_spans L cl. length ((C(p := xs)) q)) mod two64\<rparr>)"
    and st': "pheap st' = h'" "store st' = w'" "smap st' = smap st"
  shows "cinv L' (C(p := xs)) T st'"
    "owned L' (C(p := xs)) T st' c = (if c = cl then (owned L C T st cl \<union> set (C p)) - set xs else owned L C T st c)"
proof -
  note D = cinvD[OF assms(1)]
  have co: "class_objs (mem h') L' c = class_objs (mem (pheap st)) L c" for c
    by (simp add: class_objs_def h'(2) st)
  have np: "p \<notin> class_spans L c" if "c \<in> classes" "c \<noteq> cl" for c
    using class_spans_disjoint[OF assms(1,2), of c] that assms(3) by blast
  have cf: "class_free L' (C(p := xs)) c = (if c = cl then (class_free L C cl - set (C p)) \<union> set xs else class_free L C c)"
    if c: "c \<in> classes" for c
  proof (cases "c = cl")
    case False
    then show ?thesis using np[OF c] by (auto simp: class_free_def h'(2) split: if_splits)
  next
    case True
    have "set (C q) \<inter> set (C p) = {}" if "q \<in> class_spans L cl" "q \<noteq> p" for q
      using spans_apart[OF assms(1,2,2) that(1) assms(3) that(2)] chain_subset(1)[OF assms(1,2)] that(1) assms(3) by blast
    then have "(\<Union>q \<in> class_spans L cl - {p}. set (C q)) = class_free L C cl - set (C p)"
      by (auto simp: class_free_def)
    moreover have "class_free L' (C(p := xs)) cl = set xs \<union> (\<Union>q \<in> class_spans L cl - {p}. set (C q))"
      using assms(3) by (auto simp: class_free_def h'(2) split: if_splits)
    ultimately show ?thesis using True by auto
  qed
  have xs: "set xs \<subseteq> class_objs (mem (pheap st)) L cl"
  proof (rule span_okE[OF sp(2)])
    fix a t assume t: "set xs \<subseteq> objs cl (sp_start t)" "sstart (mem h') p = sp_start t"
    then show ?thesis using chain_subset(2)[OF assms(1-3)] st[of p] by simp
  qed
  have "distinct (concat (T c)) \<and> parked T c \<subseteq> class_objs (mem h') L' c - class_free L' (C(p := xs)) c"
    if c: "c \<in> classes" for c
    using D(10,11)[OF c] park unfolding co cf[OF c] by (cases "c = cl") auto
  moreover have "counter (central_cache st' c) = (\<Sum>q \<in> class_spans L' c. length ((C(p := xs)) q)) mod two64
      \<and> num_spans (central_cache st' c) = card (class_spans L' c) mod two64" if c: "c \<in> classes" for c
  proof (cases "c = cl")
    case False
    have "(\<Sum>q \<in> class_spans L c. length ((C(p := xs)) q)) = (\<Sum>q \<in> class_spans L c. length (C q))"
      using np[OF c False] by (intro sum.cong) auto
    then show ?thesis using D(6,7)[OF c] False by (simp add: cc h'(2))
  qed (use D(7)[OF c] in \<open>simp add: cc h'(2)\<close>)
  moreover have "tc_ok w' (central_cache st' c) c (T c)" if c: "c < kNumClasses" for c
  proof -
    have "tc_ok w' (central_cache st c) c (T c)"
    proof (cases "c = 0")
      case True
      then show ?thesis using D(8)[OF c] D(9) by (simp add: tc_ok_def)
    next
      case False
      then show ?thesis using D(8)[OF c] w[of c] c by (subst tc_ok_store[where w = "store st"]) auto
    qed
    then show ?thesis by (cases "c = cl") (simp_all add: cc)
  qed
  moreover have "span_ok (mem h') (GetDescriptor h') w' c q ((C(p := xs)) q) \<and> (q \<in> set (L' (CflNonempty c)) \<longleftrightarrow> (C(p := xs)) q \<noteq> [])"
    if c: "c \<in> classes" "q \<in> class_spans L' c" for c q
  proof (cases "q = p")
    case True
    then have "c = cl" using np[OF c(1)] c(2) by (auto simp: h'(2))
    then show ?thesis using True sp(2) ne[OF c(1)] c(2) by (simp add: h'(2))
  next
    case False
    then show ?thesis using sp(1)[OF c(1)] ne[OF c(1)] D(5)[OF c(1)] c(2) by (simp add: h'(2))
  qed
  ultimately show "cinv L' (C(p := xs)) T st'"
    unfolding cinv_def st' using h'(1) D(1,9) by (auto simp: heap_lists_def)
  show "owned L' (C(p := xs)) T st' c = (if c = cl then (owned L C T st cl \<union> set (C p)) - set xs else owned L C T st c)"
  proof (cases "c \<in> classes")
    case False
    then show ?thesis using assms(2) by (auto simp: owned_def)
  next
    case True
    have "set (C p) \<subseteq> class_objs (mem (pheap st)) L cl" using chain_subset(1,2)[OF assms(1-3)] by blast
    moreover have "set (C p) \<subseteq> class_free L C cl" using assms(3) by (auto simp: class_free_def)
    ultimately show ?thesis
      using True D(11)[OF assms(2)] unfolding owned_def st' co cf[OF True] by (cases "c = cl") auto
  qed
qed

section \<open>Taking objects from spans\<close>

lemma cheads_in [simp]: "cl \<in> classes \<Longrightarrow> CflNonempty cl \<in> cheads" "cl \<in> classes \<Longrightarrow> CflEmpty cl \<in> cheads"
  by (auto simp: cheads_def)

text \<open>Moving a span between the two lists of its class.\<close>

lemma class_spans_move:
  assumes "dlls m cheads L" "cl \<in> classes" "p \<in> set (L l)" "l = CflNonempty cl \<and> k = CflEmpty cl \<or> l = CflEmpty cl \<and> k = CflNonempty cl"
    and L': "L' = (L(l := remove1 p (L l)))(k := p # (L(l := remove1 p (L l))) k)"
  shows "class_spans L' c = class_spans L c" "p \<in> set (L' k)" "p \<notin> set (L' l)"
    "q \<noteq> p \<Longrightarrow> q \<in> set (L' h) \<longleftrightarrow> q \<in> set (L h)"
proof -
  have l: "l \<in> cheads" using assms(2,4) by (elim disjE) simp_all
  have lk: "l \<noteq> k" using assms(4) by (elim disjE) simp_all
  have d: "distinct (L l)" using span_lists.once[OF assms(1) l assms(3)] by (elim conjE)
  have Ll: "set (L' l) = set (L l) - {p}" using d lk by (simp add: L')
  have Lk: "set (L' k) = insert p (set (L k))" using lk by (simp add: L')
  have Lh: "L' h = L h" if "h \<noteq> l" "h \<noteq> k" for h using that by (simp add: L')
  show "p \<in> set (L' k)" "p \<notin> set (L' l)" using Ll Lk by auto
  show "q \<in> set (L' h) \<longleftrightarrow> q \<in> set (L h)" if "q \<noteq> p" using that Ll Lk Lh[of h] by (cases "h = l"; cases "h = k") auto
  show "class_spans L' c = class_spans L c"
    using Ll Lk Lh[of "CflNonempty c"] Lh[of "CflEmpty c"] assms(3,4) by (cases "c = cl") (auto simp: class_spans_def)
qed

text \<open>What the operations on spans leave alone.\<close>

definition same_room :: "central \<Rightarrow> central \<Rightarrow> bool" where
  "same_room st st' \<longleftrightarrow> room (pheap st') = room (pheap st) \<and> trace_room (pheap st') = trace_room (pheap st)
     \<and> smap st' = smap st"

lemma same_room_refl [simp]: "same_room st st"
  by (simp add: same_room_def)

lemma same_room_trans: "same_room st st1 \<Longrightarrow> same_room st1 st2 \<Longrightarrow> same_room st st2"
  by (simp add: same_room_def del: sizeof_Span_def sizeof_StackTrace_def)

lemma fetch_empty:
  assumes "cinv L C T st" "cl \<in> classes" "L (CflNonempty cl) = []"
  shows "FetchFromSpans cl st = Some (0, st)"
  using dll_IsEmpty[OF dlls_dll[OF cinvD(3)[OF assms(1)] cheads_in(1)[OF assms(2)]]] assms(3) by (simp add: FetchFromSpans_def)

lemma fetch_object:
  assumes "cinv L C T st" "cl \<in> classes" "L (CflNonempty cl) \<noteq> []"
  obtains x L' C' st' where "FetchFromSpans cl st = Some (x, st')" "x \<noteq> 0" "cinv L' C' T st'"
    "x \<notin> owned L C T st cl" "x \<in> class_free L C cl" "owned L' C' T st' = (owned L C T st)(cl := insert x (owned L C T st cl))"
    "store st' = store st" "same_room st st'"
proof -
  note D = cinvD[OF assms(1)]
  define l where "l = CflNonempty cl"
  define p where "p = hd (L l)"
  have l: "l \<in> cheads" "dll (mem (pheap st)) l (L l)" using assms(2) dlls_dll[OF D(3)] by (auto simp: l_def)
  have p: "p \<in> set (L l)" "p \<in> class_spans L cl" using assms(3) by (auto simp: p_def l_def class_spans_def)
  have "nxt (mem (pheap st)) l = Some p"
    using path_heads[of "mem (pheap st)" l "L l" l] l(2) assms(3) by (auto simp: dll_def p_def l_def)
  then obtain ll where ll: "mem (pheap st) l = Some ll" "sp_next ll = Some p" using nxt_live by blast
  have e: "DLL_IsEmpty l (mem (pheap st)) = Some False" using dll_IsEmpty[OF l(2)] assms(3) by (simp add: l_def)
  have "C p \<noteq> []" using D(5)[OF assms(2) p(2)] p(1) by (simp add: l_def)
  then obtain x xs where C: "C p = x # xs" by (cases "C p") auto
  note S = D(4)[OF assms(2) p(2), unfolded C]
  obtain a t where t: "p = Sp a" "mem (pheap st) p = Some t" "sp_location t = IN_USE" "sp_length t = npg cl" "sp_sizeclass t = cl"
    "\<And>j. j \<in> {sp_start t..<sp_start t + npg cl} \<Longrightarrow> GetDescriptor (pheap st) j = Some p" "sll (store st) (sp_objects t) (x # xs)"
    "set (x # xs) \<subseteq> objs cl (sp_start t)" "sp_refcount t + length (x # xs) = per_span cl" "sstart (mem (pheap st)) p = sp_start t"
    by (rule span_okE[OF S]) (rule that)
  have x: "sp_objects t = x" "x \<noteq> 0" "sll (store st) (store st x) xs" using t(7) by simp_all
  have rc: "(sp_refcount t + 1) mod 65536 = sp_refcount t + 1" using t(9) class_facts(4)[OF assms(2)] by simp
  define t1 where "t1 = t\<lparr>sp_refcount := sp_refcount t + 1\<rparr>"
  define t2 where "t2 = t1\<lparr>sp_objects := store st x\<rparr>"
  define h1 where "h1 = (pheap st)\<lparr>mem := (mem (pheap st))(p \<mapsto> t1)\<rparr>"
  define h2 where "h2 = (pheap st)\<lparr>mem := (mem (pheap st))(p \<mapsto> t2)\<rparr>"
  obtain M1: "modify p (\<lambda>s. s\<lparr>sp_refcount := (sp_refcount s + 1) mod 65536\<rparr>) (pheap st) = Some h1"
    "heap_lists h1 L" "GetDescriptor h1 = GetDescriptor (pheap st)"
  proof (rule heap_lists_mod[OF cinv_heap_lists[OF assms(1)] t(1-3), where t' = t1])
    show "t\<lparr>sp_refcount := (sp_refcount t + 1) mod 65536\<rparr> = t1" by (simp only: t1_def rc)
    show "h1 = (pheap st)\<lparr>mem := (mem (pheap st))(p \<mapsto> t1)\<rparr>" by (rule h1_def)
  qed (auto simp: t1_def)
  have m1: "mem h1 p = Some t1" "sp_location t1 = IN_USE" using t(3) by (simp_all add: h1_def t1_def)
  obtain M2: "modify p (\<lambda>s. s\<lparr>sp_objects := store st x\<rparr>) h1 = Some h2" "heap_lists h2 L" "GetDescriptor h2 = GetDescriptor h1"
    by (rule heap_lists_mod[OF M1(2) t(1) m1, where t' = t2]) (simp_all add: t2_def h1_def h2_def)
  have m2: "mem h2 p = Some t2" by (simp add: h2_def)
  have others: "span_ok (mem h2) (GetDescriptor h2) (store st) c q (C q)" if "c \<in> classes" "q \<in> class_spans L c" "q \<noteq> p" for c q
    unfolding M2(3) M1(3)
    using D(4)[OF that(1,2)] by (rule span_ok_cong) (use that(3) in \<open>simp_all add: h2_def\<close>)
  have self: "span_ok (mem h2) (GetDescriptor h2) (store st) cl p xs"
    unfolding span_ok_def M2(3) M1(3) using t x m2 by (auto simp: t2_def t1_def)
  have ss: "sstart (mem h2) q = sstart (mem (pheap st)) q" for q
    using t(2) by (simp add: sstart_def h2_def t2_def t1_def)
  define h3L where "h3L = (if xs = [] then (L(l := remove1 p (L l)))(CflEmpty cl := p # (L(l := remove1 p (L l))) (CflEmpty cl)) else L)"
  obtain m3 where m3: "(if store st x = 0 then move_to (CflEmpty cl) p h2 else Some h2) = Some (h2\<lparr>mem := m3\<rparr>)"
    "heap_lists (h2\<lparr>mem := m3\<rparr>) h3L" "shape m3 = shape (mem h2)" "GetDescriptor (h2\<lparr>mem := m3\<rparr>) = GetDescriptor h2"
  proof (cases "xs = []")
    case True
    obtain m' L' where m': "move_to (CflEmpty cl) p h2 = Some (h2\<lparr>mem := m'\<rparr>)" "heap_lists (h2\<lparr>mem := m'\<rparr>) L'"
      "shape m' = shape (mem h2)" "GetDescriptor (h2\<lparr>mem := m'\<rparr>) = GetDescriptor h2"
      "L' = (L(l := remove1 p (L l)))(CflEmpty cl := p # (L(l := remove1 p (L l))) (CflEmpty cl))"
      by (rule heap_lists_move[OF M2(2) l(1) p(1) cheads_in(2)[OF assms(2)]]) (rule that)
    then show thesis using that[of m'] x(3) True by (simp add: h3L_def)
  next
    case False
    then have "store st x \<noteq> 0" using x(3) by (cases xs) auto
    then show thesis using that[of "mem h2"] M2(2) False by (simp add: h3L_def)
  qed
  define h3 where "h3 = h2\<lparr>mem := m3\<rparr>"
  have cs: "class_spans h3L c = class_spans L c"
    "q \<in> class_spans L c \<Longrightarrow> c \<in> classes \<Longrightarrow> q \<in> set (h3L (CflNonempty c)) \<longleftrightarrow> (if q = p then xs \<noteq> [] else q \<in> set (L (CflNonempty c)))" for c q
  proof -
    note mv = class_spans_move[OF D(3) assms(2) p(1), of "CflEmpty cl" h3L]
    show "class_spans h3L c = class_spans L c"
      using mv(1)[of c] by (cases "xs = []") (auto simp: h3L_def l_def)
    assume q: "q \<in> class_spans L c" "c \<in> classes"
    have "c = cl" if "q = p" using class_spans_disjoint[OF assms(1) q(2) assms(2)] that q(1) p(2) by blast
    then show "q \<in> set (h3L (CflNonempty c)) \<longleftrightarrow> (if q = p then xs \<noteq> [] else q \<in> set (L (CflNonempty c)))"
      using mv(3) mv(4)[of q "CflNonempty c"] p(1) by (cases "xs = []"; cases "q = p") (auto simp: h3L_def l_def)
  qed
  define st' where "st' = set_cfl cl (\<lambda>f. f\<lparr>counter := sub64 (counter f) 1\<rparr>) (st\<lparr>pheap := h3\<rparr>)"
  have run: "FetchFromSpans cl st = Some (x, st')"
    using e ll t(2) x M1(1) M2(1) m3(1) unfolding l_def[symmetric]
    by (simp add: FetchFromSpans_def l_def[symmetric] SLL_Next_def h3_def st'_def)
  have cnt: "central_cache st' = (central_cache st)(cl := (central_cache st cl)\<lparr>counter :=
      (\<Sum>q \<in> class_spans L cl. length ((C(p := xs)) q)) mod two64\<rparr>)"
  proof -
    have "(\<Sum>q \<in> class_spans L cl. length ((C(p := xs)) q)) = (\<Sum>q \<in> class_spans L cl. length (C q)) - 1"
      "1 \<le> (\<Sum>q \<in> class_spans L cl. length (C q))"
      using sum_chain_upd(1)[OF class_spans_finite p(2), of C xs] sum_chain_upd(2)[OF class_spans_finite p(2), of C] C by simp_all
    then show ?thesis using D(6)[OF assms(2)] by (simp add: st'_def set_cfl_def sub64_mod)
  qed
  have K: "cinv h3L (C(p := xs)) T st' \<and> (\<forall>c. owned h3L (C(p := xs)) T st' c = (if c = cl then (owned L C T st cl \<union> set (C p)) - set xs else owned L C T st c))"
  proof -
    have hl: "heap_lists h3 h3L" using m3(2) by (simp add: h3_def)
    have so: "span_ok (mem h3) (GetDescriptor h3) (store st) c q (C q)" if "c \<in> classes" "q \<in> class_spans L c" "q \<noteq> p" for c q
      using span_ok_shape[OF m3(3) others[OF that]] m3(4) by (simp add: h3_def)
    have sf: "span_ok (mem h3) (GetDescriptor h3) (store st) cl p xs"
      using span_ok_shape[OF m3(3) self] m3(4) by (simp add: h3_def)
    have s3: "sstart (mem h3) q = sstart (mem (pheap st)) q" for q
      using sstart_shape[OF m3(3)] ss by (simp add: h3_def)
    have "set xs \<subseteq> class_free L C cl" using C p(2) by (auto simp: class_free_def)
    then have pk: "set xs \<inter> parked T cl = {}" using D(11)[OF assms(2)] by blast
    have sts: "pheap st' = h3" "store st' = store st" "smap st' = smap st" by (simp_all add: st'_def set_cfl_def)
    note X = cinv_chain[OF assms(1,2) p(2) hl cs(1) cs(2) so sf s3 refl pk cnt sts]
    show ?thesis using X by blast
  qed
  have d: "x \<notin> set xs" using sll_distinct[OF t(7)] by simp
  have "set (C p) \<subseteq> class_free L C cl" using p(2) by (auto simp: class_free_def)
  then have xo: "x \<notin> owned L C T st cl" "x \<in> class_free L C cl" and xsn: "set xs \<inter> owned L C T st cl = {}"
    using C by (auto simp: owned_def)
  have "owned h3L (C(p := xs)) T st' = (owned L C T st)(cl := insert x (owned L C T st cl))"
    using K d xsn C by (auto simp: fun_eq_iff)
  moreover have "same_room st st'" by (simp add: same_room_def st'_def set_cfl_def h3_def h2_def)
  ultimately show thesis using that[OF run x(2) conjunct1[OF K] xo] by (simp add: st'_def set_cfl_def)
qed

end
