(* ===== verification/CentralFreeListFlow.thy ===== *)
theory CentralFreeListFlow
  imports CentralFreeListOps
begin

text \<open>
  Spans entering and leaving the central free lists: \<open>Populate\<close>, which takes a span from the page heap
  and cuts it into objects, and \<open>ReleaseToSpans\<close>, which gives a span back when its last object
  returns.
\<close>

section \<open>Cutting a span into objects\<close>

lemma carve_tail:
  assumes "0 < sz" "a < ptr" "ptr \<le> limit" "k = (limit - ptr) div sz"
  shows "\<exists>ptr' tail' w'. carve_objects sz limit (Some a) ptr num (obj, w) = Some (ptr', Some tail', num + k, obj, w')
    \<and> ptr' \<le> limit \<and> sll (w'(tail' := 0)) ((w'(tail' := 0)) a) (map (\<lambda>i. ptr + i * sz) [0..<k])
    \<and> (\<forall>x. x \<notin> insert a (set (map (\<lambda>i. ptr + i * sz) [0..<k])) \<longrightarrow> (w'(tail' := 0)) x = w x)"
  using assms(2-)
proof (induction k arbitrary: a ptr num w)
  case 0
  then have "\<not> ptr + sz \<le> limit" using assms(1) by (auto simp: div_eq_0_iff)
  then show ?case using 0 by (subst carve_objects.simps) simp
next
  case (Suc k)
  have le: "ptr + sz \<le> limit"
  proof (rule ccontr)
    assume "\<not> ptr + sz \<le> limit"
    then have "(limit - ptr) div sz = 0" using Suc.prems(2) by (intro div_less) linarith
    then show False using Suc.prems(3) by simp
  qed
  have k: "k = (limit - (ptr + sz)) div sz"
  proof -
    have "limit - ptr = (limit - (ptr + sz)) + sz" using le by linarith
    then have "Suc k = ((limit - (ptr + sz)) + sz) div sz" using Suc.prems(3) by simp
    then show ?thesis using assms(1) by simp
  qed
  have shift: "map (\<lambda>i. ptr + i * sz) [0..<Suc k] = ptr # map (\<lambda>i. (ptr + sz) + i * sz) [0..<k]"
    by (simp add: upt_conv_Cons map_Suc_upt[symmetric] o_def add.assoc del: upt_Suc)
  have "ptr < ptr + sz" using assms(1) by simp
  from Suc.IH[where a = ptr and ptr = "ptr + sz" and w = "w(a := ptr)" and num = "num + 1", OF this le k]
  obtain ptr' tail' w' where I: "carve_objects sz limit (Some ptr) (ptr + sz) (num + 1) (obj, w(a := ptr))
      = Some (ptr', Some tail', num + 1 + k, obj, w')" "ptr' \<le> limit"
    "sll (w'(tail' := 0)) ((w'(tail' := 0)) ptr) (map (\<lambda>i. (ptr + sz) + i * sz) [0..<k])"
    "\<forall>x. x \<notin> insert ptr (set (map (\<lambda>i. (ptr + sz) + i * sz) [0..<k])) \<longrightarrow> (w'(tail' := 0)) x = (w(a := ptr)) x"
    by (elim exE conjE) (rule that)
  have "a \<notin> insert ptr (set (map (\<lambda>i. (ptr + sz) + i * sz) [0..<k]))" using Suc.prems(1) by auto
  then have wa: "(w'(tail' := 0)) a = ptr" using I(4) by simp
  have "carve_objects sz limit (Some a) ptr num (obj, w) = Some (ptr', Some tail', num + Suc k, obj, w')"
    using I(1) le by (subst carve_objects.simps) (simp add: write_tail_def)
  moreover have "sll (w'(tail' := 0)) ((w'(tail' := 0)) a) (map (\<lambda>i. ptr + i * sz) [0..<Suc k])"
    unfolding shift wa using I(3) Suc.prems(1) by simp
  moreover have "\<forall>x. x \<notin> insert a (set (map (\<lambda>i. ptr + i * sz) [0..<Suc k])) \<longrightarrow> (w'(tail' := 0)) x = w x"
    unfolding shift using I(4) by simp
  ultimately show ?case using I(2) by blast
qed

lemma per_span_pos:
  assumes "cl \<in> classes"
  shows "0 < per_span cl"
proof (rule ccontr)
  assume "\<not> 0 < per_span cl"
  then have "npg cl * kPageSize < osz cl" using class_facts(1)[OF assms] by (simp add: per_span_def div_eq_0_iff)
  then have "npg cl * kPageSize mod osz cl = npg cl * kPageSize" by simp
  then show False using class_table_entry[of cl] assms class_facts(2)[OF assms] by (simp add: class_entry_ok_def Let_def)
qed

lemma carve_span:
  assumes "cl \<in> classes" "0 < s"
  obtains ptr' tail' w' where
    "carve_objects (osz cl) (s * kPageSize + npg cl * kPageSize) None (s * kPageSize) 0 (obj, w)
       = Some (ptr', Some tail', per_span cl, s * kPageSize, w')"
    "ptr' \<le> s * kPageSize + npg cl * kPageSize" "sll (w'(tail' := 0)) (s * kPageSize) (obj_list cl s)"
    "\<And>x. x \<notin> objs cl s \<Longrightarrow> (w'(tail' := 0)) x = w x"
proof -
  let ?p = "s * kPageSize" and ?l = "s * kPageSize + npg cl * kPageSize" and ?z = "osz cl"
  have z: "0 < ?z" using class_facts(1)[OF assms(1)] by simp
  obtain k where k: "per_span cl = Suc k" using per_span_pos[OF assms(1)] by (cases "per_span cl") auto
  have "?z * Suc k \<le> npg cl * kPageSize" using class_facts(8)[OF assms(1)] by (simp only: k)
  then have le: "?p + ?z \<le> ?l" by simp
  have "npg cl * kPageSize = (?l - (?p + ?z)) + ?z" using le by linarith
  then have "Suc k = ((?l - (?p + ?z)) + ?z) div ?z" using k by (simp add: per_span_def)
  then have k': "k = (?l - (?p + ?z)) div ?z" using z by simp
  have shift: "obj_list cl s = ?p # map (\<lambda>i. (?p + ?z) + i * ?z) [0..<k]"
    by (simp add: obj_list_def k upt_conv_Cons map_Suc_upt[symmetric] o_def add.assoc del: upt_Suc)
  have "?p < ?p + ?z" using z by simp
  from carve_tail[OF z this le k', of 1 ?p w] obtain ptr' tail' w' where
    I: "carve_objects ?z ?l (Some ?p) (?p + ?z) 1 (?p, w) = Some (ptr', Some tail', 1 + k, ?p, w')" "ptr' \<le> ?l"
    "sll (w'(tail' := 0)) ((w'(tail' := 0)) ?p) (map (\<lambda>i. (?p + ?z) + i * ?z) [0..<k])"
    "\<forall>x. x \<notin> insert ?p (set (map (\<lambda>i. (?p + ?z) + i * ?z) [0..<k])) \<longrightarrow> (w'(tail' := 0)) x = w x"
    by (elim exE conjE) (rule that)
  have "carve_objects ?z ?l None ?p 0 (obj, w) = Some (ptr', Some tail', per_span cl, ?p, w')"
    using I(1) le k by (subst carve_objects.simps) (simp add: write_tail_def)
  moreover have "sll (w'(tail' := 0)) ?p (obj_list cl s)" unfolding shift using I(3) assms(2) by simp
  moreover have "(w'(tail' := 0)) x = w x" if "x \<notin> objs cl s" for x using I(4) that unfolding shift by simp
  ultimately show thesis using that I(2) by blast
qed

section \<open>A span enters a class\<close>

lemma class_objs_used:
  assumes "cinv L C T st" "cl \<in> classes" "x \<in> class_objs (mem (pheap st)) L cl"
  shows "x div kPageSize \<in> used_pages (pheap st)"
proof -
  obtain p where p: "p \<in> class_spans L cl" "x \<in> objs cl (sstart (mem (pheap st)) p)"
    using assms(3) by (auto simp: class_objs_def)
  obtain a s where a: "p = Sp a" "sstart (mem (pheap st)) p = s" "spans (pheap st) a = Some (s, npg cl, IN_USE)"
    using span_okE[OF cinvD(4)[OF assms(1,2) p(1)]] by metis
  have "x div kPageSize \<in> {s..<s + npg cl}" using objs_page[OF p(2) assms(2)] a(2) by simp
  then show ?thesis using a(3) by (auto simp: pages_of_def)
qed

lemma cinv_new_span:
  assumes "cinv L C T st" "cl \<in> classes" "\<And>c. c \<in> classes \<Longrightarrow> p \<notin> class_spans L c"
    and h': "heap_lists h' L'" "L' = L(CflNonempty cl := p # L (CflNonempty cl))"
    and sp: "\<And>c q. c \<in> classes \<Longrightarrow> q \<in> class_spans L c \<Longrightarrow> span_ok (mem h') (GetDescriptor h') w' c q (C q)"
      "span_ok (mem h') (GetDescriptor h') w' cl p (obj_list cl s)" "sstart (mem h') p = s"
    and st: "\<And>c q. c \<in> classes \<Longrightarrow> q \<in> class_spans L c \<Longrightarrow> sstart (mem h') q = sstart (mem (pheap st)) q"
    and w: "\<And>c x. c \<in> classes \<Longrightarrow> x \<in> parked T c \<Longrightarrow> w' x = store st x"
    and new: "objs cl s \<inter> class_objs (mem (pheap st)) L cl = {}"
    and cc: "central_cache st' = (central_cache st)(cl := (central_cache st cl)\<lparr>
        num_spans := add64 (num_spans (central_cache st cl)) 1, counter := add64 (counter (central_cache st cl)) (per_span cl)\<rparr>)"
    and st': "pheap st' = h'" "store st' = w'" "smap st' = smap st"
  shows "cinv L' (C(p := obj_list cl s)) T st'" "owned L' (C(p := obj_list cl s)) T st' = owned L C T st"
proof -
  note D = cinvD[OF assms(1)]
  let ?C = "C(p := obj_list cl s)"
  have cs: "class_spans L' c = (if c = cl then insert p (class_spans L cl) else class_spans L c)" for c
    by (auto simp: class_spans_def h'(2))
  have ne: "q \<noteq> p" if "c \<in> classes" "q \<in> class_spans L c" for c q using assms(3) that by blast
  have co: "class_objs (mem h') L' c = (if c = cl then objs cl s \<union> class_objs (mem (pheap st)) L cl else class_objs (mem (pheap st)) L c)"
    if "c \<in> classes" for c
    using st[OF that] st[OF assms(2)] by (auto simp: class_objs_def cs sp(3))
  have cf: "class_free L' ?C c = (if c = cl then objs cl s \<union> class_free L C cl else class_free L C c)" if "c \<in> classes" for c
    using ne[OF that] ne[OF assms(2)] by (auto simp: class_free_def cs)
  have pk: "parked T cl \<inter> objs cl s = {}" using D(11)[OF assms(2)] new by blast
  have cf0: "class_free L C cl \<subseteq> class_objs (mem (pheap st)) L cl"
    using chain_subset(3)[OF assms(1,2)] by (cases "class_spans L cl = {}") (auto simp: class_free_def)
  have dif: "class_objs (mem h') L' c - class_free L' ?C c = class_objs (mem (pheap st)) L c - class_free L C c" if "c \<in> classes" for c
    using new unfolding co[OF that] cf[OF that] by (cases "c = cl") auto
  have sums: "(\<Sum>q \<in> class_spans L' c. length (?C q)) = (\<Sum>q \<in> class_spans L c. length (C q)) + (if c = cl then per_span cl else 0)"
    "card (class_spans L' c) = card (class_spans L c) + (if c = cl then 1 else 0)" if c: "c \<in> classes" for c
  proof -
    have eq: "(\<Sum>q \<in> class_spans L c. length (?C q)) = (\<Sum>q \<in> class_spans L c. length (C q))"
      using ne[OF c] by (intro sum.cong) auto
    then show "(\<Sum>q \<in> class_spans L' c. length (?C q)) = (\<Sum>q \<in> class_spans L c. length (C q)) + (if c = cl then per_span cl else 0)"
      using assms(3)[OF c] obj_list_facts(2)[OF assms(2)] by (auto simp: cs)
    show "card (class_spans L' c) = card (class_spans L c) + (if c = cl then 1 else 0)"
      using assms(3)[OF c] by (auto simp: cs)
  qed
  have "counter (central_cache st' c) = (\<Sum>q \<in> class_spans L' c. length (?C q)) mod two64
      \<and> num_spans (central_cache st' c) = card (class_spans L' c) mod two64" if "c \<in> classes" for c
    using D(6,7)[OF that] unfolding sums[OF that] by (cases "c = cl") (simp_all add: cc add64_mod)
  moreover have "tc_ok w' (central_cache st' c) c (T c)" if c: "c < kNumClasses" for c
  proof -
    have "tc_ok w' (central_cache st c) c (T c)"
    proof (cases "c = 0")
      case True
      then show ?thesis using D(8)[OF c] D(9) by (simp add: tc_ok_def)
    next
      case False
      then show ?thesis using D(8)[OF c] w[of c] c by (subst tc_ok_store[where w = "store st"]) auto
    qed
    then show ?thesis by (cases "c = cl") (simp_all add: cc)
  qed
  moreover have "span_ok (mem h') (GetDescriptor h') w' c q (?C q) \<and> (q \<in> set (L' (CflNonempty c)) \<longleftrightarrow> ?C q \<noteq> [])"
    if c: "c \<in> classes" "q \<in> class_spans L' c" for c q
  proof (cases "q = p")
    case True
    then have "c = cl" using c assms(3)[OF c(1)] by (auto simp: cs split: if_splits)
    moreover have "obj_list cl s \<noteq> []" using obj_list_facts(2)[OF assms(2), of s] per_span_pos[OF assms(2)] by auto
    ultimately show ?thesis using True sp(2) by (simp add: h'(2))
  next
    case False
    then have "q \<in> class_spans L c" using c(2) by (auto simp: cs split: if_splits)
    then show ?thesis using False sp(1)[OF c(1)] D(5)[OF c(1)] by (auto simp: h'(2))
  qed
  moreover have "distinct (concat (T c)) \<and> parked T c \<subseteq> class_objs (mem h') L' c - class_free L' ?C c" if "c \<in> classes" for c
    using D(10,11)[OF that] unfolding dif[OF that] by simp
  ultimately show "cinv L' ?C T st'"
    unfolding cinv_def st' using h'(1) D(1,9) by (auto simp: heap_lists_def)
  show "owned L' ?C T st' = owned L C T st"
    unfolding owned_def st' using dif by (auto simp: fun_eq_iff)
qed

text \<open>The page heap may change everything but the central lists and their spans.\<close>

lemma heap_lists_frame:
  assumes "heap_lists h L" "heap_ok h'"
    and "\<And>u. u \<in> on_lists cheads L \<Longrightarrow> mem h' u = mem h u"
  shows "heap_lists h' L"
proof -
  have "dlls (mem h') cheads L = dlls (mem h) cheads L"
    using assms(3) by (intro dlls_cong) (simp add: nxt_def prv_def)
  moreover have "idle (spans h') u" if "u \<in> on_lists cheads L" for u
  proof -
    have "spans h' b = spans h b" if "u = Sp b" for b
      using assms(3)[OF \<open>u \<in> on_lists cheads L\<close>] that by (simp add: desc_def)
    moreover have "idle (spans h) u" using assms(1) that by (simp add: heap_lists_def)
    ultimately show ?thesis by (auto simp: idle_def)
  qed
  ultimately show ?thesis using assms(1,2) by (simp add: heap_lists_def)
qed

lemma class_span_on_lists: "cl \<in> classes \<Longrightarrow> p \<in> class_spans L cl \<Longrightarrow> p \<in> on_lists cheads L"
  by (auto simp: class_spans_def on_lists_def cheads_def)

text \<open>The pages of the spans of a class are allocated.\<close>

lemma class_span_pages:
  assumes "cinv L C T st" "cl \<in> classes" "p \<in> class_spans L cl" "j \<in> {sstart (mem (pheap st)) p..<sstart (mem (pheap st)) p + npg cl}"
  shows "j \<in> used_pages (pheap st)"
proof -
  obtain a s where a: "p = Sp a" "sstart (mem (pheap st)) p = s" "spans (pheap st) a = Some (s, npg cl, IN_USE)"
    using span_okE[OF cinvD(4)[OF assms(1-3)]] by metis
  then show ?thesis using assms(4) by (auto simp: pages_of_def)
qed

lemma page_small:
  assumes "heap_ok h" "j \<in> cover (spans h)"
  shows "j < 2 ^ 35" "0 < j"
proof -
  obtain L where "hinv {} (cover (spans h)) h L" using assms(1) by (auto simp: heap_ok_def heap_at_def)
  note M = hinv_parts(5)[OF this]
  show "j < 2 ^ 35" using M assms(2) by (auto simp: map_ok_def pm3_ensured_def)
  show "0 < j" using M assms(2) by (auto simp: map_ok_def)
qed

lemma CacheSizeClass_all:
  assumes "\<And>i. i \<in> set is \<Longrightarrow> s + i < 2 ^ 35" "cl < 128"
  shows "\<exists>c. ofold (\<lambda>i h. CacheSizeClass (s + i) cl h) is h = Some (h\<lparr>pagemap_cache := c\<rparr>)"
  using assms(1)
proof (induction "is" arbitrary: h)
  case Nil
  then show ?case by (intro exI[of _ "pagemap_cache h"]) simp
next
  case (Cons i "is")
  obtain c where "Put page_bits 64 (s + i) cl (pagemap_cache h) = Some c"
    using Put_defined[of page_bits 64 "s + i" cl "pagemap_cache h"] Cons.prems[of i] assms(2) by (auto simp: kValuebits_def)
  moreover obtain c' where "ofold (\<lambda>i h. CacheSizeClass (s + i) cl h) is (h\<lparr>pagemap_cache := c\<rparr>) = Some (h\<lparr>pagemap_cache := c\<rparr>\<lparr>pagemap_cache := c'\<rparr>)"
    using Cons.IH[of "h\<lparr>pagemap_cache := c\<rparr>"] Cons.prems by auto
  ultimately show ?case by (intro exI[of _ c']) (simp add: CacheSizeClass_def)
qed

lemma heap_ok_cache [simp]: "heap_ok (h\<lparr>pagemap_cache := c\<rparr>) = heap_ok h"
  by (simp add: heap_ok_def heap_at_def)

lemma objs_bytes:
  assumes "x \<in> objs cl s" "cl \<in> classes"
  shows "s * kPageSize \<le> x" "x + osz cl \<le> (s + npg cl) * kPageSize"
proof -
  obtain i where i: "i < per_span cl" "x = s * kPageSize + i * osz cl" using assms(1) by (auto simp: obj_list_def)
  have "(i + 1) * osz cl \<le> per_span cl * osz cl" using i(1) by (intro mult_le_mono1) simp
  also have "\<dots> \<le> npg cl * kPageSize" using class_facts(8)[OF assms(2)] by (simp only: mult.commute)
  finally show "x + osz cl \<le> (s + npg cl) * kPageSize" "s * kPageSize \<le> x" using i(2) by (simp_all add: algebra_simps)
qed

lemma objs_apart:
  assumes "x \<in> objs cl s" "y \<in> objs cl s" "x < y"
  shows "x + osz cl \<le> y"
proof -
  obtain i j where i: "x = s * kPageSize + i * osz cl" and j: "y = s * kPageSize + j * osz cl" using assms(1,2) by (auto simp: obj_list_def)
  then have "i * osz cl < j * osz cl" using assms(3) by linarith
  then have "i < j" by (rule mult_less_cancel2[THEN iffD1, THEN conjunct2])
  then have "(i + 1) * osz cl \<le> j * osz cl" by (intro mult_le_mono1) simp
  then show ?thesis using i j by simp
qed

lemma objects_apart:
  assumes "cinv L C T st" "c \<in> classes" "d \<in> classes" "x \<in> class_objs (mem (pheap st)) L c" "y \<in> class_objs (mem (pheap st)) L d" "x < y"
  shows "x + osz c \<le> y"
proof -
  let ?m = "mem (pheap st)"
  obtain p where p: "p \<in> class_spans L c" "x \<in> objs c (sstart ?m p)" using assms(4) by (auto simp: class_objs_def)
  obtain q where q: "q \<in> class_spans L d" "y \<in> objs d (sstart ?m q)" using assms(5) by (auto simp: class_objs_def)
  show ?thesis
  proof (cases "p = q")
    case True
    have "c = d" using class_spans_disjoint[OF assms(1) assms(2) assms(3)] p(1) q(1) True by blast
    then show ?thesis using objs_apart[OF p(2) _ assms(6)] q(2) True by simp
  next
    case False
    obtain a s where a: "p = Sp a" "spans (pheap st) a = Some (s, npg c, IN_USE)" "sstart ?m p = s"
      using span_okE[OF cinvD(4)[OF assms(1) assms(2) p(1)]] by metis
    obtain b r where b: "q = Sp b" "spans (pheap st) b = Some (r, npg d, IN_USE)" "sstart ?m q = r"
      using span_okE[OF cinvD(4)[OF assms(1) assms(3) q(1)]] by metis
    obtain P M where I: "hinv {} P (pheap st) M" using cinvD(2)[OF assms(1)] unfolding heap_ok_def heap_at_def by blast
    have "a \<noteq> b" using a(1) b(1) False by auto
    then have "s + npg c \<le> r \<or> r + npg d \<le> s" using hinv_parts(3)[OF I] a(2) b(2) unfolding descs_ok_def by blast
    then have "(s + npg c) * kPageSize \<le> r * kPageSize \<or> (r + npg d) * kPageSize \<le> s * kPageSize"
      by (metis mult_le_mono1)
    moreover have "x + osz c \<le> (s + npg c) * kPageSize" "s * kPageSize \<le> x" using objs_bytes[OF p(2) assms(2)] a(3) by simp_all
    moreover have "y + osz d \<le> (r + npg d) * kPageSize" "r * kPageSize \<le> y" using objs_bytes[OF q(2) assms(3)] b(3) by simp_all
    moreover have "0 < osz d" using class_facts(1)[OF assms(3)] by simp
    ultimately show ?thesis using assms(6) by linarith
  qed
qed

lemma object_pages:
  assumes "cinv L C T st" "c \<in> classes" "x \<in> class_objs (mem (pheap st)) L c" "b \<in> {x..<x + osz c}"
  shows "b div kPageSize \<in> used_pages (pheap st)"
proof -
  let ?m = "mem (pheap st)"
  obtain p where p: "p \<in> class_spans L c" "x \<in> objs c (sstart ?m p)" using assms(3) by (auto simp: class_objs_def)
  note B = objs_bytes[OF p(2) assms(2)]
  have "sstart ?m p * kPageSize \<le> b" "b < (sstart ?m p + npg c) * kPageSize" using B assms(4) by auto
  then have "sstart ?m p \<le> b div kPageSize" "b div kPageSize < sstart ?m p + npg c"
    by (simp_all add: less_eq_div_iff_mult_less_eq less_mult_imp_div_less)
  then show ?thesis using class_span_pages[OF assms(1) assms(2) p(1)] by simp
qed

lemma owned_apart:
  assumes "cinv L C T st" "x \<in> owned L C T st c" "y \<in> owned L C T st d" "x < y"
  shows "x + osz c \<le> y"
  using objects_apart[OF assms(1)] owned_facts(1,2)[OF assms(1)] assms(2-4) by blast

lemma owned_pages:
  assumes "cinv L C T st" "x \<in> owned L C T st c" "b \<in> {x..<x + osz c}"
  shows "b div kPageSize \<in> used_pages (pheap st)"
  using object_pages[OF assms(1)] owned_facts(1,2)[OF assms(1)] assms(2,3) by blast

text \<open>An object that starts inside another one is that one.\<close>

lemma object_inside:
  assumes "cinv L C T st" "c \<in> classes" "d \<in> classes" "x \<in> class_objs (mem (pheap st)) L c" "y \<in> class_objs (mem (pheap st)) L d"
    "y \<in> {x..<x + osz c}"
  shows "y = x \<and> d = c"
proof -
  have "\<not> x < y" using objects_apart[OF assms(1-5)] assms(6) by auto
  then have "y = x" using assms(6) by simp
  then show ?thesis using class_objs_disjoint[OF assms(1-3)] assms(4,5) by blast
qed

text \<open>No word of an object in \<open>Own\<close> changes.\<close>

definition keeps_words :: "(nat \<Rightarrow> nat set) \<Rightarrow> central \<Rightarrow> central \<Rightarrow> bool" where
  "keeps_words Own st st' \<longleftrightarrow> (\<forall>c. \<forall>x \<in> Own c. \<forall>y \<in> {x..<x + osz c}. store st' y = store st y)"

lemma keeps_words_refl [simp]: "keeps_words Own st st"
  by (simp add: keeps_words_def)

lemma keeps_words_trans: "keeps_words Own st st1 \<Longrightarrow> keeps_words Own st1 st2 \<Longrightarrow> keeps_words Own st st2"
  by (simp add: keeps_words_def)

text \<open>A page heap that keeps the central lists, their spans and page-map entries.\<close>

lemma cinv_heap:
  assumes "cinv L C T st" "heap_ok h'" "\<And>u. u \<in> on_lists cheads L \<Longrightarrow> mem h' u = mem (pheap st) u"
    "pages_kept (spans (pheap st)) (pheap st) h'"
  shows "cinv L C T (st\<lparr>pheap := h'\<rparr>)" "owned L C T (st\<lparr>pheap := h'\<rparr>) = owned L C T st"
proof -
  note D = cinvD[OF assms(1)]
  have hl: "heap_lists h' L" by (rule heap_lists_frame[OF cinv_heap_lists[OF assms(1)] assms(2,3)])
  have ss: "sstart (mem h') q = sstart (mem (pheap st)) q" if "c \<in> classes" "q \<in> class_spans L c" for c q
    using assms(3)[OF class_span_on_lists[OF that]] by (simp add: sstart_def)
  have co: "class_objs (mem h') L c = class_objs (mem (pheap st)) L c" if "c \<in> classes" for c
    using ss[OF that] by (simp add: class_objs_def)
  have "span_ok (mem h') (GetDescriptor h') (store st) c q (C q)" if c: "c \<in> classes" "q \<in> class_spans L c" for c q
  proof (rule span_ok_cong[OF D(4)[OF c]])
    show "mem h' q = mem (pheap st) q" by (rule assms(3)[OF class_span_on_lists[OF c]])
    fix j assume "j \<in> {sstart (mem (pheap st)) q..<sstart (mem (pheap st)) q + npg c}"
    then have "j \<in> used_pages (pheap st)" by (rule class_span_pages[OF assms(1) c])
    then show "GetDescriptor h' j = GetDescriptor (pheap st) j" using assms(4) by (simp add: pages_kept_def)
  qed
  then show "cinv L C T (st\<lparr>pheap := h'\<rparr>)"
    using assms(1) hl unfolding cinv_def heap_lists_def by (simp add: co)
  show "owned L C T (st\<lparr>pheap := h'\<rparr>) = owned L C T st"
    using co by (auto simp: owned_def fun_eq_iff)
qed

lemma span_bytes_small: "s < 2 ^ 35 \<Longrightarrow> span_bytes s = s * kPageSize"
  by (simp add: span_bytes_def two64_def)

lemma Populate_ok:
  assumes "cinv L C T st" "cl \<in> classes" "2 \<le> room (pheap st)" "0 < trace_room (pheap st)"
  obtains L' C' st' where "Populate env cl st = Some st'" "cinv L' C' T st'" "owned L' C' T st' = owned L C T st"
    "keeps_words (owned L C T st) st st'" "\<And>y. y div kPageSize \<in> used_pages (pheap st) \<Longrightarrow> store st' y = store st y"
    "(\<exists>h. New env (npg cl) (pheap st) = Some (None, h)) \<or> L' (CflNonempty cl) \<noteq> []"
proof -
  note D = cinvD[OF assms(1)]
  let ?h = "pheap st" and ?n = "npg cl"
  have H: "heap_at (cover (spans ?h)) ?h" using D(2) by (simp add: heap_ok_def)
  obtain r h1 where N: "New env ?n ?h = Some (r, h1)" "heap_ok h1"
    "\<And>p. r = Some p \<Longrightarrow> \<exists>a s. p = Sp a \<and> allocated ?h ?n a s h1" "r = None \<Longrightarrow> mem h1 = mem ?h" "pages_kept (spans ?h) ?h h1"
    by (rule New_ok[OF H class_facts(2)[OF assms(2)] assms(3,4)]) (rule that)
  show thesis
  proof (cases r)
    case None
    have m: "mem h1 u = mem ?h u" for u using N(4)[OF None] by simp
    have "Populate env cl st = Some (st\<lparr>pheap := h1\<rparr>)"
      using N(1) None D(1) by (simp add: Populate_def sizemap_facts)
    from that[OF this cinv_heap[OF assms(1) N(2) m N(5)]] show thesis using N(1) None by (simp add: keeps_words_def)
  next
    case (Some p)
    then obtain a s where p: "p = Sp a" "allocated ?h ?n a s h1" using N(3) by blast
    note A = p(2)[unfolded allocated_def]
    have off: "p \<notin> on_lists cheads L" and m1: "\<And>u. u \<in> on_lists cheads L \<Longrightarrow> mem h1 u = mem ?h u"
      using cinv_on_lists_idle[OF assms(1)] A p(1) by metis+
    obtain t where t: "mem h1 p = Some t" "sp_start t = s" "sp_length t = ?n" "sp_location t = IN_USE" "sp_next t = None" "sp_prev t = None"
      using A p(1) by (auto simp: desc_Some detached_def nxt_def prv_def)
    have "s \<in> cover (spans h1)" "\<And>i. i < ?n \<Longrightarrow> s + i \<in> cover (spans h1)"
      using A class_facts(2)[OF assms(2)] unfolding cover_def by fastforce+
    then have s: "s < 2 ^ 35" "0 < s" "\<And>i. i < ?n \<Longrightarrow> s + i < 2 ^ 35" using page_small[OF N(2)] by blast+
    have H1: "heap_at (cover (spans h1)) h1" using N(2) by (simp add: heap_ok_def)
    have cl: "cl mod 256 = cl" "cl < 128" using class_facts(7)[OF assms(2)] by simp_all
    obtain h2 where h2: "RegisterSizeClass p cl h1 = Some h2" "heap_at (cover (spans h1)) h2"
      "mem h2 = (mem h1)(p \<mapsto> t\<lparr>sp_sizeclass := cl\<rparr>)"
      "\<And>j. GetDescriptor h2 j = (if j \<in> {s..<s + ?n} then Some p else GetDescriptor h1 j)"
      using RegisterSizeClass_ok[OF H1 t(1)[unfolded p(1)] t(4), of cl] p(1) t(2,3) cl(1) by metis
    obtain c where c: "ofold (\<lambda>i h. CacheSizeClass (s + i) cl h) [0..<?n] h2 = Some (h2\<lparr>pagemap_cache := c\<rparr>)"
      using CacheSizeClass_all[of "[0..<?n]" s cl h2] s(3) cl(2) by auto
    define h3 where "h3 = h2\<lparr>pagemap_cache := c\<rparr>"
    obtain ptr' tail' w' where W: "carve_objects (osz cl) (s * kPageSize + ?n * kPageSize) None (s * kPageSize) 0 (sp_objects t, store st)
       = Some (ptr', Some tail', per_span cl, s * kPageSize, w')"
      "ptr' \<le> s * kPageSize + ?n * kPageSize" "sll (w'(tail' := 0)) (s * kPageSize) (obj_list cl s)"
      "\<And>x. x \<notin> objs cl s \<Longrightarrow> (w'(tail' := 0)) x = store st x"
      by (rule carve_span[OF assms(2) s(2)]) (rule that)
    define w where "w = w'(tail' := 0)"
    define t4 where "t4 = t\<lparr>sp_sizeclass := cl, sp_objects := s * kPageSize\<rparr>"
    define t5 where "t5 = t4\<lparr>sp_refcount := 0\<rparr>"
    define h4 where "h4 = h3\<lparr>mem := (mem h3)(p \<mapsto> t4)\<rparr>"
    define h5 where "h5 = h4\<lparr>mem := (mem h4)(p \<mapsto> t5)\<rparr>"
    have m3: "mem h3 p = Some (t\<lparr>sp_sizeclass := cl\<rparr>)" by (simp add: h3_def h2(3))
    have hl3: "heap_lists h3 L"
    proof (rule heap_lists_frame[OF cinv_heap_lists[OF assms(1)]])
      show "heap_ok h3" using heap_at_ok[OF h2(2)] by (simp add: h3_def)
      show "mem h3 u = mem ?h u" if "u \<in> on_lists cheads L" for u
        using that m1[OF that] off by (auto simp: h3_def h2(3))
    qed
    obtain M4: "modify p (\<lambda>s'. s'\<lparr>sp_objects := s * kPageSize\<rparr>) h3 = Some h4" "heap_lists h4 L" "GetDescriptor h4 = GetDescriptor h3"
      by (rule heap_lists_mod[OF hl3 p(1) m3, where t' = t4]) (simp_all add: t4_def t(4) h4_def)
    have m4: "mem h4 p = Some t4" by (simp add: h4_def)
    obtain M5: "modify p (\<lambda>s'. s'\<lparr>sp_refcount := 0\<rparr>) h4 = Some h5" "heap_lists h5 L" "GetDescriptor h5 = GetDescriptor h4"
      by (rule heap_lists_mod[OF M4(2) p(1) m4, where t' = t5]) (simp_all add: t4_def t5_def t(4) h5_def)
    have m5: "mem h5 p = Some t5" "\<And>u. u \<noteq> p \<Longrightarrow> mem h5 u = mem h1 u" by (simp_all add: h5_def h4_def h3_def h2(3))
    have g5: "GetDescriptor h5 j = (if j \<in> {s..<s + ?n} then Some p else GetDescriptor h1 j)" for j
    proof -
      have "GetDescriptor h3 = GetDescriptor h2" by (rule GetDescriptor_cong) (simp add: h3_def)
      then show ?thesis using h2(4) by (simp only: M5(3) M4(3))
    qed
    have det: "detached (mem h5) p" using m5(1) t(5,6) by (simp add: detached_def nxt_def prv_def t5_def t4_def)
    have idl: "idle (spans h5) p" using m5(1) t(4) p(1) by (auto simp: idle_def desc_def t5_def t4_def)
    obtain m6 where m6: "on_lists_of (DLL_Prepend (CflNonempty cl) p) h5 = Some (h5\<lparr>mem := m6\<rparr>)"
      "heap_lists (h5\<lparr>mem := m6\<rparr>) (L(CflNonempty cl := p # L (CflNonempty cl)))"
      "shape m6 = shape (mem h5)" "GetDescriptor (h5\<lparr>mem := m6\<rparr>) = GetDescriptor h5"
      by (rule heap_lists_prepend[OF M5(2) cheads_in(1)[OF assms(2)] det off idl]) (rule that)
    define st' where "st' = set_cfl cl (\<lambda>f. f\<lparr>num_spans := add64 (num_spans f) 1, counter := add64 (counter f) (per_span cl)\<rparr>)
      (st\<lparr>pheap := h5\<lparr>mem := m6\<rparr>, store := w\<rparr>)"
    have n32: "?n < 2 ^ 35" using class_facts(3)[OF assms(2)] by simp
    have run: "Populate env cl st = Some st'"
      using N(1) Some D(1) h2(1) m3 t(2,3) c M4(1) M5(1) m6(1) W(1,2) s(1) n32 unfolding h3_def[symmetric]
      by (simp add: Populate_def sizemap_facts h3_def[symmetric] span_bytes_small write_tail_def st'_def w_def h2(3))
    have fresh: "objs cl s \<inter> class_objs (mem ?h) L c = {}" if "c \<in> classes" for c
      using objs_page[OF _ assms(2), of _ s] class_objs_used[OF assms(1) that] A by blast
    have wc: "w x = store st x" if "c \<in> classes" "x \<in> class_objs (mem ?h) L c" for c x
      using fresh[OF that(1)] that(2) W(4) unfolding w_def by blast
    have old: "span_ok m6 (GetDescriptor (h5\<lparr>mem := m6\<rparr>)) w c q (C q)" "sstart m6 q = sstart (mem ?h) q"
      if c: "c \<in> classes" "q \<in> class_spans L c" for c q
    proof -
      have q: "mem h5 q = mem ?h q" using m1[OF class_span_on_lists[OF c]] m5(2) off class_span_on_lists[OF c] by metis
      then show "sstart m6 q = sstart (mem ?h) q" using sstart_shape[OF m6(3)] by (simp add: sstart_def)
      have g: "GetDescriptor h5 j = GetDescriptor ?h j" if "j \<in> {sstart (mem ?h) q..<sstart (mem ?h) q + npg c}" for j
      proof -
        have "j \<in> used_pages ?h" by (rule class_span_pages[OF assms(1) c that])
        then show ?thesis using A N(5) unfolding g5 pages_kept_def by auto
      qed
      have "\<forall>x \<in> set (C q). w x = store st x" using wc[OF c(1)] chain_subset(1,2)[OF assms(1) c] by blast
      then have sq: "span_ok (mem ?h) (GetDescriptor ?h) w c q (C q)" using span_ok_store D(4)[OF c] by metis
      have "span_ok (mem h5) (GetDescriptor h5) w c q (C q)" using q g by (rule span_ok_cong[OF sq])
      then show "span_ok m6 (GetDescriptor (h5\<lparr>mem := m6\<rparr>)) w c q (C q)"
        unfolding m6(4) by (rule span_ok_shape[OF m6(3)])
    qed
    have "span_ok (mem h5) (GetDescriptor h5) w cl p (obj_list cl s)"
      unfolding span_ok_def g5 using m5(1) p(1) t(2-4) W(3) obj_list_facts(2)[OF assms(2), of s]
      by (auto simp: t5_def t4_def w_def)
    then have new: "span_ok m6 (GetDescriptor (h5\<lparr>mem := m6\<rparr>)) w cl p (obj_list cl s)" "sstart m6 p = s"
      unfolding m6(4) using span_ok_shape[OF m6(3)] sstart_shape[OF m6(3), of p] m5(1) t(2)
      by (simp_all add: sstart_def t5_def t4_def)
    have np: "p \<notin> class_spans L c" if "c \<in> classes" for c using off class_span_on_lists[OF that] by blast
    have pw: "w x = store st x" if "c \<in> classes" "x \<in> parked T c" for c x
      using wc[OF that(1)] D(11)[OF that(1)] that(2) by blast
    have cc: "central_cache st' = (central_cache st)(cl := (central_cache st cl)\<lparr>
        num_spans := add64 (num_spans (central_cache st cl)) 1, counter := add64 (counter (central_cache st cl)) (per_span cl)\<rparr>)"
      "pheap st' = h5\<lparr>mem := m6\<rparr>" "store st' = w" "smap st' = smap st" by (simp_all add: st'_def set_cfl_def)
    have mm: "mem (h5\<lparr>mem := m6\<rparr>) = m6" by simp
    note X = cinv_new_span[OF assms(1,2) np m6(2) refl, unfolded mm, OF _ old(1) new old(2) pw fresh[OF assms(2)] cc]
    have Y: "cinv (L(CflNonempty cl := p # L (CflNonempty cl))) (C(p := obj_list cl s)) T st'"
      "owned (L(CflNonempty cl := p # L (CflNonempty cl))) (C(p := obj_list cl s)) T st' = owned L C T st"
      by (rule X; assumption)+
    have up: "store st' y = store st y" if "y div kPageSize \<in> used_pages ?h" for y
    proof -
      have "y \<notin> objs cl s" using objs_page[OF _ assms(2), of y s] that A by blast
      then show ?thesis using W(4) unfolding cc(3) w_def by blast
    qed
    then have "keeps_words (owned L C T st) st st'"
      using owned_pages[OF assms(1)] unfolding keeps_words_def by blast
    from that[OF run Y this up] show thesis by simp
  qed
qed

section \<open>A span leaves a class\<close>

lemma cinv_drop_span:
  assumes "cinv L C T st" "cl \<in> classes" "p \<in> class_spans L cl"
    and x: "objs cl (sstart (mem (pheap st)) p) = insert x (set (C p))" "x \<in> owned L C T st cl"
    and h': "heap_lists h' L'" "\<And>c. class_spans L' c = (if c = cl then class_spans L cl - {p} else class_spans L c)"
    and ne: "\<And>c q. c \<in> classes \<Longrightarrow> q \<in> class_spans L' c \<Longrightarrow> q \<in> set (L' (CflNonempty c)) \<longleftrightarrow> q \<in> set (L (CflNonempty c))"
    and sp: "\<And>c q. c \<in> classes \<Longrightarrow> q \<in> class_spans L' c \<Longrightarrow> span_ok (mem h') (GetDescriptor h') (store st) c q (C q)"
    and st: "\<And>c q. c \<in> classes \<Longrightarrow> q \<in> class_spans L' c \<Longrightarrow> sstart (mem h') q = sstart (mem (pheap st)) q"
    and cc: "central_cache st' = (central_cache st)(cl := (central_cache st cl)\<lparr>
        counter := ((\<Sum>q \<in> class_spans L cl. length (C q)) - length (C p)) mod two64, num_spans := (card (class_spans L cl) - 1) mod two64\<rparr>)"
    and st': "pheap st' = h'" "store st' = store st" "smap st' = smap st"
  shows "cinv L' C T st'" "owned L' C T st' = (owned L C T st)(cl := owned L C T st cl - {x})"
proof -
  note D = cinvD[OF assms(1)]
  let ?h = "pheap st" and ?s = "sstart (mem (pheap st)) p"
  have np: "p \<notin> class_spans L c" if "c \<in> classes" "c \<noteq> cl" for c
    using class_spans_disjoint[OF assms(1,2), of c] that assms(3) by blast
  have co: "class_objs (mem h') L' c = (if c = cl then class_objs (mem ?h) L cl - objs cl ?s else class_objs (mem ?h) L c)"
    if c: "c \<in> classes" for c
  proof (cases "c = cl")
    case False
    then show ?thesis using st[OF c] by (simp add: class_objs_def h'(2))
  next
    case True
    have "class_objs (mem h') L' cl = (\<Union>q \<in> class_spans L cl - {p}. objs cl (sstart (mem ?h) q))"
      using st[OF assms(2)] by (auto simp: class_objs_def h'(2))
    moreover have "objs cl (sstart (mem ?h) q) \<inter> objs cl ?s = {}" if "q \<in> class_spans L cl" "q \<noteq> p" for q
      using spans_apart[OF assms(1,2,2) that(1) assms(3) that(2)] .
    ultimately show ?thesis using True unfolding class_objs_def by auto
  qed
  have cf: "class_free L' C c = (if c = cl then class_free L C cl - set (C p) else class_free L C c)" if c: "c \<in> classes" for c
  proof (cases "c = cl")
    case False
    then show ?thesis by (simp add: class_free_def h'(2))
  next
    case True
    have "set (C q) \<inter> set (C p) = {}" if "q \<in> class_spans L cl" "q \<noteq> p" for q
      using spans_apart[OF assms(1,2,2) that(1) assms(3) that(2)] chain_subset(1)[OF assms(1,2)] that(1) assms(3) by blast
    then show ?thesis using True unfolding class_free_def h'(2) by auto
  qed
  note X = owned_facts[OF assms(1) x(2)]
  have dif: "class_objs (mem h') L' c - class_free L' C c
      = (if c = cl then (class_objs (mem ?h) L cl - class_free L C cl) - {x} else class_objs (mem ?h) L c - class_free L C c)"
    if "c \<in> classes" for c
  proof (cases "c = cl")
    case True
    have "set (C p) \<subseteq> class_free L C cl" using assms(3) by (auto simp: class_free_def)
    moreover have "set (C p) \<inter> class_objs (mem h') L' cl = {}" using co[OF assms(2)] x(1) by auto
    ultimately show ?thesis using True unfolding co[OF that] cf[OF that] x(1) by auto
  qed (simp add: co[OF that] cf[OF that])
  have "counter (central_cache st' c) = (\<Sum>q \<in> class_spans L' c. length (C q)) mod two64
      \<and> num_spans (central_cache st' c) = card (class_spans L' c) mod two64" if c: "c \<in> classes" for c
  proof (cases "c = cl")
    case True
    have "(\<Sum>q \<in> class_spans L cl - {p}. length (C q)) = (\<Sum>q \<in> class_spans L cl. length (C q)) - length (C p)"
      using sum.remove[OF class_spans_finite assms(3), of "\<lambda>q. length (C q)"] by simp
    moreover have "card (class_spans L cl - {p}) = card (class_spans L cl) - 1" using assms(3) by simp
    ultimately show ?thesis using True by (simp add: cc h'(2))
  qed (use D(6,7)[OF c] in \<open>simp add: cc h'(2)\<close>)
  moreover have "tc_ok (store st) (central_cache st' c) c (T c)" if c: "c < kNumClasses" for c
    using D(8)[OF c] by (cases "c = cl") (simp_all add: cc)
  moreover have "q \<in> set (L' (CflNonempty c)) \<longleftrightarrow> C q \<noteq> []" if c: "c \<in> classes" "q \<in> class_spans L' c" for c q
    using ne[OF c] D(5)[OF c(1), of q] c(2) by (auto simp: h'(2) split: if_splits)
  moreover have "distinct (concat (T c)) \<and> parked T c \<subseteq> class_objs (mem h') L' c - class_free L' C c" if "c \<in> classes" for c
    using D(10,11)[OF that] X(4) unfolding dif[OF that] by (cases "c = cl") auto
  ultimately show "cinv L' C T st'"
    unfolding cinv_def st' using h'(1) D(1,9) sp by (auto simp: heap_lists_def)
  show "owned L' C T st' = (owned L C T st)(cl := owned L C T st cl - {x})"
    unfolding owned_def st' using dif assms(2) by (auto simp: fun_eq_iff)
qed

lemma move_if:
  assumes "heap_lists h L" "cl \<in> classes" "p \<in> set (L l)"
    "l = CflNonempty cl \<and> k = CflEmpty cl \<or> l = CflEmpty cl \<and> k = CflNonempty cl"
  obtains m' L' where "(if b then move_to k p h else Some h) = Some (h\<lparr>mem := m'\<rparr>)" "heap_lists (h\<lparr>mem := m'\<rparr>) L'"
    "shape m' = shape (mem h)" "GetDescriptor (h\<lparr>mem := m'\<rparr>) = GetDescriptor h" "spans (h\<lparr>mem := m'\<rparr>) = spans h"
    "\<And>c. class_spans L' c = class_spans L c" "p \<in> set (L' (if b then k else l))"
    "\<And>q u. q \<noteq> p \<Longrightarrow> q \<in> set (L' u) \<longleftrightarrow> q \<in> set (L u)"
proof (cases b)
  case True
  have lk: "l \<in> cheads" "k \<in> cheads" using assms(2,4) by auto
  have D: "dlls (mem h) cheads L" using assms(1) by (simp add: heap_lists_def)
  obtain m' L' where m': "move_to k p h = Some (h\<lparr>mem := m'\<rparr>)" "heap_lists (h\<lparr>mem := m'\<rparr>) L'"
    "shape m' = shape (mem h)" "spans (h\<lparr>mem := m'\<rparr>) = spans h" "GetDescriptor (h\<lparr>mem := m'\<rparr>) = GetDescriptor h"
    "L' = (L(l := remove1 p (L l)))(k := p # (L(l := remove1 p (L l))) k)"
    by (rule heap_lists_move[OF assms(1) lk(1) assms(3) lk(2)]) (rule that)
  note mv = class_spans_move[OF D assms(2-4) m'(6)]
  show thesis using that[of m' L'] m'(1-5) True mv(1,2,4) by simp
next
  case False
  then show thesis using that[of "mem h" L] assms(1,3) by simp
qed

lemma owned_in_span:
  assumes "cinv L C T st" "x \<in> owned L C T st cl"
  obtains p where "p \<in> class_spans L cl" "x \<in> objs cl (sstart (mem (pheap st)) p)" "x \<notin> set (C p)"
    "MapObjectToSpan x (pheap st) = Some p"
proof -
  note X = owned_facts[OF assms]
  obtain p where p: "p \<in> class_spans L cl" "x \<in> objs cl (sstart (mem (pheap st)) p)"
    using X(2) by (auto simp: class_objs_def)
  have "x \<notin> set (C p)" using X(3) p(1) by (auto simp: class_free_def)
  moreover have "MapObjectToSpan x (pheap st) = Some p"
  proof (rule span_okE[OF cinvD(4)[OF assms(1) X(1) p(1)]])
    fix t assume t: "\<And>j. j \<in> {sp_start t..<sp_start t + npg cl} \<Longrightarrow> GetDescriptor (pheap st) j = Some p"
      "sstart (mem (pheap st)) p = sp_start t"
    have "x div kPageSize \<in> {sp_start t..<sp_start t + npg cl}" using objs_page[OF p(2) X(1)] t(2) by simp
    from t(1)[OF this] show ?thesis by (simp add: MapObjectToSpan_def drop_bit_eq_div)
  qed
  ultimately show thesis using that p by blast
qed

text \<open>The common part of the two outcomes: the span is on the nonempty list, its count is one less.\<close>

lemma ReleaseToSpans_prefix:
  assumes "cinv L C T st" "p \<in> class_spans L cl" "cl \<in> classes" "x \<in> objs cl (sstart (mem (pheap st)) p)" "x \<notin> set (C p)"
  obtains a t t2 h1 h2 L' where "p = Sp a" "mem (pheap st) p = Some t" "sp_refcount t > 0"
    "sp_refcount t + length (C p) = per_span cl" "sp_start t = sstart (mem (pheap st)) p" "sp_sizeclass t = cl"
    "(if sp_objects t = 0 then move_to (CflNonempty cl) p (pheap st) else Some (pheap st)) = Some h1"
    "modify p (\<lambda>s. s\<lparr>sp_refcount := sp_refcount s - 1\<rparr>) h1 = Some h2"
    "heap_lists h2 L'" "mem h2 p = Some t2" "sp_refcount t2 = sp_refcount t - 1" "sp_objects t2 = sp_objects t"
    "sp_start t2 = sp_start t" "sp_length t2 = npg cl" "sp_location t2 = IN_USE" "sp_sizeclass t2 = cl"
    "GetDescriptor h2 = GetDescriptor (pheap st)" "spans h2 = spans (pheap st)" "\<And>c. class_spans L' c = class_spans L c"
    "p \<in> set (L' (CflNonempty cl))" "\<And>q u. q \<noteq> p \<Longrightarrow> q \<in> set (L' u) \<longleftrightarrow> q \<in> set (L u)"
    "\<And>c q. c \<in> classes \<Longrightarrow> q \<in> class_spans L c \<Longrightarrow> q \<noteq> p \<Longrightarrow> span_ok (mem h2) (GetDescriptor (pheap st)) (store st) c q (C q)"
    "\<And>q. sstart (mem h2) q = sstart (mem (pheap st)) q"
proof -
  note D = cinvD[OF assms(1)]
  note S = D(4)[OF assms(3,2)]
  obtain a t where t: "p = Sp a" "mem (pheap st) p = Some t" "sp_location t = IN_USE" "sp_length t = npg cl" "sp_sizeclass t = cl"
    "sll (store st) (sp_objects t) (C p)" "set (C p) \<subseteq> objs cl (sp_start t)" "sp_refcount t + length (C p) = per_span cl"
    "sstart (mem (pheap st)) p = sp_start t"
    by (rule span_okE[OF S]) (rule that)
  have "insert x (set (C p)) \<subseteq> objs cl (sp_start t)" using assms(4) t(7,9) by simp
  then have "card (insert x (set (C p))) \<le> per_span cl"
    using card_mono[of "objs cl (sp_start t)"] obj_list_facts(3)[OF assms(3)] by (metis List.finite_set)
  then have rc: "sp_refcount t > 0"
    using assms(5) t(8) distinct_card[OF sll_distinct[OF t(6)]] by (simp add: card_insert_if)
  define l where "l = (if C p = [] then CflEmpty cl else CflNonempty cl)"
  have o: "sp_objects t = 0 \<longleftrightarrow> C p = []" by (rule sll_nil[OF t(6)])
  have nes: "p \<in> set (L (CflNonempty cl)) \<longleftrightarrow> C p \<noteq> []" by (rule D(5)[OF assms(3,2)])
  have pl: "p \<in> set (L l)" using nes assms(2) by (auto simp: l_def class_spans_def)
  define k where "k = (if C p = [] then CflNonempty cl else CflEmpty cl)"
  have lk: "l = CflNonempty cl \<and> k = CflEmpty cl \<or> l = CflEmpty cl \<and> k = CflNonempty cl" by (simp add: l_def k_def)
  obtain m' L' where m': "(if C p = [] then move_to k p (pheap st) else Some (pheap st)) = Some ((pheap st)\<lparr>mem := m'\<rparr>)"
    "heap_lists ((pheap st)\<lparr>mem := m'\<rparr>) L'" "shape m' = shape (mem (pheap st))"
    "GetDescriptor ((pheap st)\<lparr>mem := m'\<rparr>) = GetDescriptor (pheap st)" "spans ((pheap st)\<lparr>mem := m'\<rparr>) = spans (pheap st)"
    "\<And>c. class_spans L' c = class_spans L c" "p \<in> set (L' (if C p = [] then k else l))"
    "\<And>q u. q \<noteq> p \<Longrightarrow> q \<in> set (L' u) \<longleftrightarrow> q \<in> set (L u)"
    by (rule move_if[OF cinv_heap_lists[OF assms(1)] assms(3) pl lk, of "C p = []"]) (rule that)
  define h1 where "h1 = (pheap st)\<lparr>mem := m'\<rparr>"
  have sh: "shape (mem h1) = shape (mem (pheap st))" using m'(3) by (simp add: h1_def)
  obtain t1 where t1: "mem h1 p = Some t1" "sp_start t1 = sp_start t" "sp_length t1 = sp_length t"
    "sp_location t1 = sp_location t" "sp_sizeclass t1 = sp_sizeclass t" "sp_objects t1 = sp_objects t"
    "sp_refcount t1 = sp_refcount t" using shape_fields[OF sh t(2)] by metis
  define t2 where "t2 = t1\<lparr>sp_refcount := sp_refcount t - 1\<rparr>"
  define h2 where "h2 = h1\<lparr>mem := (mem h1)(p \<mapsto> t2)\<rparr>"
  have hl1: "heap_lists h1 L'" using m'(2) by (simp add: h1_def)
  obtain M: "modify p (\<lambda>s. s\<lparr>sp_refcount := sp_refcount s - 1\<rparr>) h1 = Some h2" "heap_lists h2 L'" "GetDescriptor h2 = GetDescriptor h1"
    by (rule heap_lists_mod[OF hl1 t(1) t1(1), where t' = t2 and g = "\<lambda>s. s\<lparr>sp_refcount := sp_refcount s - 1\<rparr>"]) (simp_all add: t2_def t1(4,7) t(3) h2_def)
  have m2: "mem h2 p = Some t2" by (simp add: h2_def)
  have mv: "(if sp_objects t = 0 then move_to (CflNonempty cl) p (pheap st) else Some (pheap st)) = Some h1"
    using m'(1) o by (simp add: h1_def k_def split: if_splits)
  have f2: "sp_refcount t2 = sp_refcount t - 1" "sp_objects t2 = sp_objects t"
    "sp_start t2 = sp_start t" "sp_length t2 = npg cl" "sp_location t2 = IN_USE" "sp_sizeclass t2 = cl"
    using t1 t(3-5) by (simp_all add: t2_def)
  have gd: "GetDescriptor h2 = GetDescriptor (pheap st)" using M(3) m'(4) by (simp add: h1_def)
  have sp: "spans h2 = spans (pheap st)"
  proof -
    have "spans h2 = spans h1" using t1(1) by (auto simp: h2_def desc_def t2_def fun_eq_iff)
    then show ?thesis using m'(5) by (simp add: h1_def)
  qed
  have pin: "p \<in> set (L' (CflNonempty cl))" using m'(7) by (simp add: l_def k_def split: if_splits)
  have others: "span_ok (mem h2) (GetDescriptor (pheap st)) (store st) c q (C q)"
    if "c \<in> classes" "q \<in> class_spans L c" "q \<noteq> p" for c q
  proof -
    have s1: "span_ok (mem h1) (GetDescriptor (pheap st)) (store st) c q (C q)" by (rule span_ok_shape[OF sh D(4)[OF that(1,2)]])
    show ?thesis by (rule span_ok_cong[OF s1]) (use that(3) in \<open>simp_all add: h2_def\<close>)
  qed
  have ss: "sstart (mem h2) q = sstart (mem (pheap st)) q" for q
  proof -
    have "sstart (mem h2) q = sstart (mem h1) q" using t1(1) by (simp add: h2_def sstart_def t2_def)
    then show ?thesis using sstart_shape[OF sh] by simp
  qed
  show thesis
    by (rule that[OF t(1,2) rc t(8) t(9)[symmetric] t(5) mv M(1,2) m2 f2 gd sp m'(6) pin m'(8) others ss])
qed

lemma ReleaseToSpans_ok:
  assumes "cinv L C T st" "x \<in> owned L C T st cl"
  obtains L' C' st' where "ReleaseToSpans env cl x st = Some st'" "cinv L' C' T st'"
    "owned L' C' T st' = (owned L C T st)(cl := owned L C T st cl - {x})" "\<And>y. y \<noteq> x \<Longrightarrow> store st' y = store st y"
proof -
  note X = owned_facts[OF assms] and D = cinvD[OF assms(1)]
  obtain p where p: "p \<in> class_spans L cl" "x \<in> objs cl (sstart (mem (pheap st)) p)" "x \<notin> set (C p)"
    "MapObjectToSpan x (pheap st) = Some p" by (rule owned_in_span[OF assms]) (rule that)
  obtain a t t2 h1 h2 L' where r: "p = Sp a" "mem (pheap st) p = Some t" "sp_refcount t > 0"
    "sp_refcount t + length (C p) = per_span cl" "sp_start t = sstart (mem (pheap st)) p" "sp_sizeclass t = cl"
    "(if sp_objects t = 0 then move_to (CflNonempty cl) p (pheap st) else Some (pheap st)) = Some h1"
    "modify p (\<lambda>s. s\<lparr>sp_refcount := sp_refcount s - 1\<rparr>) h1 = Some h2"
    "heap_lists h2 L'" "mem h2 p = Some t2" "sp_refcount t2 = sp_refcount t - 1" "sp_objects t2 = sp_objects t"
    "sp_start t2 = sp_start t" "sp_length t2 = npg cl" "sp_location t2 = IN_USE" "sp_sizeclass t2 = cl"
    "GetDescriptor h2 = GetDescriptor (pheap st)" "spans h2 = spans (pheap st)" "\<And>c. class_spans L' c = class_spans L c"
    "p \<in> set (L' (CflNonempty cl))" "\<And>q u. q \<noteq> p \<Longrightarrow> q \<in> set (L' u) \<longleftrightarrow> q \<in> set (L u)"
    "\<And>c q. c \<in> classes \<Longrightarrow> q \<in> class_spans L c \<Longrightarrow> q \<noteq> p \<Longrightarrow> span_ok (mem h2) (GetDescriptor (pheap st)) (store st) c q (C q)"
    "\<And>q. sstart (mem h2) q = sstart (mem (pheap st)) q"
    by (rule ReleaseToSpans_prefix[OF assms(1) p(1) X(1) p(2,3)]) (rule that)
  have np: "p \<notin> class_spans L c" if "c \<in> classes" "c \<noteq> cl" for c
    using class_spans_disjoint[OF assms(1) X(1), of c] that p(1) by blast
  have x0: "x \<noteq> 0"
  proof -
    have "x div kPageSize \<in> used_pages (pheap st)" by (rule class_objs_used[OF assms(1) X(1,2)])
    then have "x div kPageSize \<in> cover (spans (pheap st))" by (auto simp: pages_of_def cover_def)
    then show ?thesis using page_small(2)[OF D(2)] by (cases "x = 0") auto
  qed
  have chain: "sll (store st) (sp_objects t) (C p)" "set (C p) \<subseteq> objs cl (sp_start t)"
    using D(4)[OF X(1) p(1)] r(1,2) unfolding span_ok_def by auto
  have pages: "\<forall>j \<in> {sp_start t..<sp_start t + npg cl}. GetDescriptor (pheap st) j = Some p"
    using D(4)[OF X(1) p(1)] r(1,2) unfolding span_ok_def by auto
  show thesis
  proof (cases "sp_refcount t2 = 0")
    case False
    define t3 where "t3 = t2\<lparr>sp_objects := x\<rparr>"
    define h3 where "h3 = h2\<lparr>mem := (mem h2)(p \<mapsto> t3)\<rparr>"
    define w where "w = (store st)(x := sp_objects t)"
    obtain M: "modify p (\<lambda>s. s\<lparr>sp_objects := x\<rparr>) h2 = Some h3" "heap_lists h3 L'" "GetDescriptor h3 = GetDescriptor h2"
      by (rule heap_lists_mod[OF r(9,1,10,15), where t' = t3 and g = "\<lambda>s. s\<lparr>sp_objects := x\<rparr>"])
        (simp_all add: t3_def r(15) h3_def)
    define st' where "st' = set_cfl cl (\<lambda>f. f\<lparr>counter := add64 (counter f) 1\<rparr>) (st\<lparr>pheap := h3, store := w\<rparr>)"
    have run: "ReleaseToSpans env cl x st = Some st'"
      using p(4) r(2,3,7,8,10,12) False M(1) x0
      by (simp add: ReleaseToSpans_def SLL_SetNext_def st'_def set_cfl_def w_def)
    have others: "span_ok (mem h3) (GetDescriptor h3) w c q (C q)" if "c \<in> classes" "q \<in> class_spans L c" "q \<noteq> p" for c q
    proof -
      have "x \<notin> set (C q)" using owned_unused(1)[OF assms that(1)] that(2) by (auto simp: class_free_def)
      then have "\<forall>y \<in> set (C q). w y = store st y" by (auto simp: w_def)
      then have s: "span_ok (mem h2) (GetDescriptor (pheap st)) w c q (C q)" using span_ok_store r(22)[OF that] by metis
      show ?thesis by (rule span_ok_cong[OF s]) (use that(3) in \<open>simp_all add: M(3) r(17) h3_def[THEN arg_cong, of mem]\<close>)
    qed
    have self: "span_ok (mem h3) (GetDescriptor h3) w cl p (x # C p)"
      unfolding span_ok_def M(3) r(17) using r(1,3,4,11-16) p(2,3) chain pages x0 r(5)
      by (auto simp: h3_def t3_def w_def)
    have ss: "sstart (mem h3) q = sstart (mem (pheap st)) q" for q
      using r(10) r(23)[of q] by (auto simp: h3_def t3_def sstart_def split: if_splits)
    have ne: "q \<in> set (L' (CflNonempty c)) \<longleftrightarrow> (if q = p then x # C p \<noteq> [] else q \<in> set (L (CflNonempty c)))"
      if "c \<in> classes" "q \<in> class_spans L c" for c q
      using np[OF that(1)] that(2) r(20,21) by (cases "q = p"; cases "c = cl") auto
    have pw: "w y = store st y" if "c \<in> classes" "y \<in> parked T c" for c y
      using owned_unused(2)[OF assms that(1)] that(2) by (auto simp: w_def)
    have "set (C p) \<subseteq> class_free L C cl" using p(1) by (auto simp: class_free_def)
    then have pk: "set (x # C p) \<inter> parked T cl = {}" and co: "set (C p) \<inter> owned L C T st cl = {}"
      using D(11)[OF X(1)] X(4) by (auto simp: owned_def)
    have cnt: "central_cache st' = (central_cache st)(cl := (central_cache st cl)\<lparr>counter :=
        (\<Sum>q \<in> class_spans L cl. length ((C(p := x # C p)) q)) mod two64\<rparr>)"
    proof -
      have "(\<Sum>q \<in> class_spans L cl. length ((C(p := x # C p)) q)) = (\<Sum>q \<in> class_spans L cl. length (C q)) + 1"
        using sum_chain_upd(1)[OF class_spans_finite p(1), of C "x # C p"] sum_chain_upd(2)[OF class_spans_finite p(1), of C] by simp
      then show ?thesis using D(6)[OF X(1)] by (simp add: st'_def set_cfl_def add64_mod)
    qed
    have sts: "pheap st' = h3" "store st' = w" "smap st' = smap st" by (simp_all add: st'_def set_cfl_def)
    note K = cinv_chain[OF assms(1) X(1) p(1) M(2) r(19) ne others self ss pw pk cnt sts]
    have "owned L' (C(p := x # C p)) T st' = (owned L C T st)(cl := owned L C T st cl - {x})"
    proof
      fix c
      show "owned L' (C(p := x # C p)) T st' c = ((owned L C T st)(cl := owned L C T st cl - {x})) c"
        using K(2)[where c = c] co by auto
    qed
    from that[OF run K(1) this] show thesis by (simp add: st'_def set_cfl_def w_def)
  next
    case True
    have l: "CflNonempty cl \<in> cheads" using X(1) by simp
    obtain m3 where m3: "on_lists_of (DLL_Remove p) h2 = Some (h2\<lparr>mem := m3\<rparr>)"
      "heap_lists (h2\<lparr>mem := m3\<rparr>) (L'(CflNonempty cl := remove1 p (L' (CflNonempty cl))))"
      "shape m3 = shape (mem h2)" "detached m3 p" "spans (h2\<lparr>mem := m3\<rparr>) = spans h2"
      "GetDescriptor (h2\<lparr>mem := m3\<rparr>) = GetDescriptor h2"
      by (rule heap_lists_remove[OF r(9) l r(20)]) (rule that)
    define h3 where "h3 = h2\<lparr>mem := m3\<rparr>"
    define L3 where "L3 = L'(CflNonempty cl := remove1 p (L' (CflNonempty cl)))"
    have D2: "dlls (mem h2) cheads L'" using r(9) by (simp add: heap_lists_def)
    have hl3: "heap_lists h3 L3" using m3(2) by (simp add: h3_def L3_def)
    have off: "p \<notin> on_lists cheads L3" unfolding L3_def by (rule span_lists.removed_off_lists[OF D2 l r(20)])
    have H3: "heap_at (cover (spans h3)) h3" using hl3 by (simp add: heap_lists_def heap_ok_def)
    have sp3: "spans h3 a = Some (sp_start t, npg cl, IN_USE)"
      using m3(5) r(1,10,13-15) by (simp add: h3_def desc_def)
    have det: "detached (mem h3) (Sp a)" using m3(4) r(1) by (simp add: h3_def)
    obtain h4 where h4: "Delete env (Sp a) h3 = Some h4" "heap_at (cover (spans h3)) h4"
      "\<forall>v. idle (spans h3) v \<longrightarrow> v \<noteq> Sp a \<longrightarrow> idle (spans h4) v \<and> mem h4 v = mem h3 v"
      "pages_kept ((spans h3)(a := None)) h3 h4"
      by (rule Delete_spec[OF H3 sp3 det, of env]) (rule that)
    have same: "mem h4 u = mem h3 u" if "u \<in> on_lists cheads L3" for u
      using h4(3) hl3 off that r(1) unfolding heap_lists_def by metis
    have hl4: "heap_lists h4 L3" by (rule heap_lists_frame[OF hl3 heap_at_ok[OF h4(2)] same])
    have mb: "q \<in> set (L3 u) \<longleftrightarrow> q \<in> set (L u)" if "q \<noteq> p" for q u
      using r(21)[OF that] that by (simp add: L3_def)
    have cs: "class_spans L3 c = (if c = cl then class_spans L cl - {p} else class_spans L c)" for c
    proof (cases "c = cl")
      case False
      then have "class_spans L3 c = class_spans L' c" by (simp add: L3_def class_spans_def)
      then show ?thesis using r(19) False by simp
    next
      case True
      have "p \<notin> class_spans L3 cl" using off class_span_on_lists[OF X(1)] by blast
      moreover have "\<forall>q. q \<noteq> p \<longrightarrow> (q \<in> class_spans L3 cl \<longleftrightarrow> q \<in> class_spans L cl)"
        using mb by (simp add: class_spans_def)
      ultimately have "q \<in> class_spans L3 cl \<longleftrightarrow> q \<in> class_spans L cl - {p}" for q by (cases "q = p") simp_all
      then have "class_spans L3 cl = class_spans L cl - {p}" by (rule set_eqI)
      then show ?thesis using True by simp
    qed
    have qn: "q \<noteq> p" "q \<in> class_spans L c" if "c \<in> classes" "q \<in> class_spans L3 c" for c q
      using cs[of c] that np[OF that(1)] by (auto split: if_splits)
    have sh3: "shape (mem h3) = shape (mem h2)" using m3(3) by (simp add: h3_def)
    have sst: "sstart (mem h4) q = sstart (mem (pheap st)) q" if "c \<in> classes" "q \<in> class_spans L3 c" for c q
      using same[OF class_span_on_lists[OF that]] sstart_shape[OF sh3, of q] r(23)[of q] by (simp add: sstart_def)
    have spo: "span_ok (mem h4) (GetDescriptor h4) (store st) c q (C q)" if c: "c \<in> classes" "q \<in> class_spans L3 c" for c q
    proof -
      note q = qn[OF c]
      have s3: "span_ok (mem h3) (GetDescriptor (pheap st)) (store st) c q (C q)"
        by (rule span_ok_shape[OF sh3 r(22)[OF c(1) q(2,1)]])
      have eq: "sstart (mem h3) q = sstart (mem (pheap st)) q" using sstart_shape[OF sh3, of q] r(23)[of q] by simp
      show ?thesis
      proof (rule span_ok_cong[OF s3])
        show "mem h4 q = mem h3 q" by (rule same[OF class_span_on_lists[OF c]])
        fix j assume j: "j \<in> {sstart (mem h3) q..<sstart (mem h3) q + npg c}"
        obtain b s where b: "q = Sp b" "sstart (mem (pheap st)) q = s" "spans (pheap st) b = Some (s, npg c, IN_USE)"
          using span_okE[OF D(4)[OF c(1) q(2)]] by metis
        have "spans h3 b = Some (s, npg c, IN_USE)" using b(3) m3(5) r(18) by (simp add: h3_def)
        moreover have "b \<noteq> a" using b(1) q(1) r(1) by auto
        ultimately have "j \<in> pages_of IN_USE ((spans h3)(a := None))" using j eq b(2) by (auto simp: pages_of_def)
        then have "GetDescriptor h4 j = GetDescriptor h3 j" using h4(4) by (simp add: pages_kept_def)
        also have "GetDescriptor h3 = GetDescriptor (pheap st)" using m3(6) r(17) by (simp add: h3_def)
        finally show "GetDescriptor h4 j = GetDescriptor (pheap st) j" .
      qed
    qed
    have one: "sp_refcount t = 1" using True r(3,11) by linarith
    have full: "per_span cl = length (C p) + 1" using r(4) one by simp
    have ob: "objs cl (sstart (mem (pheap st)) p) = insert x (set (C p))"
    proof -
      have "card (insert x (set (C p))) = per_span cl"
        using p(3) full distinct_card[OF sll_distinct[OF chain(1)]] by simp
      moreover have "insert x (set (C p)) \<subseteq> objs cl (sstart (mem (pheap st)) p)" using p(2) chain(2) r(5) by simp
      ultimately show ?thesis
        using card_subset_eq[of "objs cl (sstart (mem (pheap st)) p)"] obj_list_facts(3)[OF X(1)] by (metis List.finite_set)
    qed
    define f where "f = central_cache st cl"
    define st' where "st' = (set_cfl cl (\<lambda>f. f\<lparr>counter := sub64 (add64 (counter f) 1) (per_span cl), num_spans := sub64 (num_spans f) 1\<rparr>) st)\<lparr>pheap := h4\<rparr>"
    have bytes: "span_bytes (npg cl) div osz cl = per_span cl" "0 < osz cl"
      using class_facts(1,3)[OF X(1)] by (simp_all add: span_bytes_small per_span_def)
    have dl: "Delete env p h3 = Some h4" "on_lists_of (DLL_Remove p) h2 = Some h3" using h4(1) m3(1) r(1) by (simp_all add: h3_def)
    have run: "ReleaseToSpans env cl x st = Some st'"
      unfolding ReleaseToSpans_def p(4) using r(3)
      by (simp add: r(2,7,8,10,14,16) True dl bytes D(1) st'_def set_cfl_def sizemap_facts del: One_nat_def)
    have cc: "central_cache st' = (central_cache st)(cl := (central_cache st cl)\<lparr>
        counter := ((\<Sum>q \<in> class_spans L cl. length (C q)) - length (C p)) mod two64, num_spans := (card (class_spans L cl) - 1) mod two64\<rparr>)"
    proof -
      define S where "S = (\<Sum>q \<in> class_spans L cl. length (C q))"
      have le: "length (C p) + 1 \<le> S + 1" using sum_chain_upd(2)[OF class_spans_finite p(1), of C] by (simp add: S_def)
      have "sub64 (add64 (S mod two64) 1) (per_span cl) = (S - length (C p)) mod two64"
        unfolding add64_mod full sub64_mod[OF le] by simp
      then have "sub64 (add64 (counter (central_cache st cl)) 1) (per_span cl) = (S - length (C p)) mod two64"
        unfolding D(6)[OF X(1)] S_def .
      moreover have "1 \<le> card (class_spans L cl)" using p(1) card_gt_0_iff[of "class_spans L cl"] by fastforce
      then have "sub64 (num_spans (central_cache st cl)) 1 = (card (class_spans L cl) - 1) mod two64"
        unfolding D(7)[OF X(1)] by (rule sub64_mod)
      ultimately show ?thesis unfolding S_def[symmetric] st'_def set_cfl_def by (simp del: One_nat_def)
    qed
    have sts: "pheap st' = h4" "store st' = store st" "smap st' = smap st" by (simp_all add: st'_def set_cfl_def)
    have ne: "q \<in> set (L3 (CflNonempty c)) \<longleftrightarrow> q \<in> set (L (CflNonempty c))" if "c \<in> classes" "q \<in> class_spans L3 c" for c q
      using mb[OF qn(1)[OF that]] .
    note K = cinv_drop_span[OF assms(1) X(1) p(1) ob assms(2) hl4 cs ne spo sst cc sts]
    have w: "\<And>y. y \<noteq> x \<Longrightarrow> store st' y = store st y" by (simp only: sts(2))
    show thesis by (rule that[OF run K(1,2) w])
  qed
qed

end
