(* ===== verification/PageHeapTags.thy ===== *)
theory PageHeapTags
  imports CentralFreeListFlow
begin

text \<open>
  What the page heap does with the size class and the sampling mark of descriptors, and with the
  size-class cache: it writes zero or leaves them alone.  Then, over a consistent heap, the predicate
  \<open>tagged F G h\<close>: free spans are unmarked, the cache answers for the spans of a class are right, the
  descriptors \<open>F\<close> that somebody outside the central lists holds are as \<open>F\<close> says, and the stack traces
  \<open>G\<close> are alive.
\<close>

section \<open>Quiet steps\<close>

definition blank :: "span \<Rightarrow> bool" where
  "blank t \<longleftrightarrow> sp_sizeclass t = 0 \<and> \<not> sp_sample t"

definition below :: "span \<Rightarrow> span \<Rightarrow> bool" where
  "below t' t \<longleftrightarrow> (sp_sizeclass t' = 0 \<or> sp_sizeclass t' = sp_sizeclass t) \<and> (sp_sample t' \<longrightarrow> sp_sample t)"

definition mquiet :: "span_mem \<Rightarrow> span_mem \<Rightarrow> bool" where
  "mquiet m m' \<longleftrightarrow> (\<forall>p t'. m' p = Some t' \<longrightarrow> blank t' \<or> (\<exists>t. m p = Some t \<and> below t' t))"

definition quiet :: "pageheap \<Rightarrow> pageheap \<Rightarrow> bool" where
  "quiet h h' \<longleftrightarrow> mquiet (mem h) (mem h') \<and> pagemap_cache h' = pagemap_cache h \<and> dom (traces h) \<subseteq> dom (traces h')"

lemma below_refl [simp]: "below t t"
  by (simp add: below_def)

lemma mquiet_refl [simp]: "mquiet m m"
  by (auto simp: mquiet_def)

lemma mquiet_trans:
  assumes "mquiet m m1" "mquiet m1 m2"
  shows "mquiet m m2"
  unfolding mquiet_def
proof (intro allI impI)
  fix p t'
  assume "m2 p = Some t'"
  then have "blank t' \<or> (\<exists>t. m1 p = Some t \<and> below t' t)" using assms(2) by (simp add: mquiet_def)
  then show "blank t' \<or> (\<exists>t. m p = Some t \<and> below t' t)"
  proof (elim disjE exE conjE)
    fix t1
    assume t1: "m1 p = Some t1" "below t' t1"
    then have "blank t1 \<or> (\<exists>t. m p = Some t \<and> below t1 t)" using assms(1) by (simp add: mquiet_def)
    then show ?thesis using t1(2) by (auto simp: blank_def below_def)
  qed simp
qed

lemma quiet_refl [simp]: "quiet h h"
  by (simp add: quiet_def)

lemma quiet_trans: "quiet h h1 \<Longrightarrow> quiet h1 h2 \<Longrightarrow> quiet h h2"
  unfolding quiet_def by (auto intro: mquiet_trans)

lemma quiet_source:
  assumes "quiet h h'" "mem h' p = Some t'" "\<not> blank t'"
  obtains t where "mem h p = Some t" "below t' t"
  using assms unfolding quiet_def mquiet_def by blast

text \<open>Rules of the form: the last step is quiet, so the whole run is if the rest of it is.\<close>

named_theorems quiet_steps

lemma mquiet_upd [quiet_steps]:
  assumes "upd f p m = Some m'" "\<And>t. below (f t) t" "mquiet m0 m"
  shows "mquiet m0 m'"
proof (rule mquiet_trans[OF assms(3)])
  obtain t where "m p = Some t" "m' = m(p \<mapsto> f t)" using assms(1) by (auto simp: upd_def split: option.splits)
  then show "mquiet m m'" using assms(2)[of t] by (simp add: mquiet_def)
qed

lemma DLL_Remove_quiet [quiet_steps]: "DLL_Remove p m = Some m' \<Longrightarrow> mquiet m0 m \<Longrightarrow> mquiet m0 m'"
  unfolding DLL_Remove_def by (elim bind_SomeE) (erule quiet_steps | simp add: below_def)+

lemma DLL_Prepend_quiet [quiet_steps]: "DLL_Prepend l p m = Some m' \<Longrightarrow> mquiet m0 m \<Longrightarrow> mquiet m0 m'"
  unfolding DLL_Prepend_def by (elim bind_SomeE) (erule quiet_steps | simp add: below_def)+

lemma quiet_fields [simp]:
  "quiet h0 (h\<lparr>free_bytes := n\<rparr>) = quiet h0 h" "quiet h0 (h\<lparr>unmapped_bytes := n\<rparr>) = quiet h0 h"
  "quiet h0 (h\<lparr>scavenge_counter := c\<rparr>) = quiet h0 h" "quiet h0 (h\<lparr>release_index := n\<rparr>) = quiet h0 h"
  "quiet h0 (h\<lparr>os_released := rs\<rparr>) = quiet h0 h" "quiet h0 (h\<lparr>os_grants := gs\<rparr>) = quiet h0 h"
  "quiet h0 (h\<lparr>system_bytes := n\<rparr>) = quiet h0 h" "quiet h0 (h\<lparr>pagemap := pm\<rparr>) = quiet h0 h"
  "quiet h0 (h\<lparr>span_allocator := sa\<rparr>) = quiet h0 h"
  by (simp_all add: quiet_def)

lemma quiet_mem: "mquiet (mem h) m \<Longrightarrow> quiet h0 h \<Longrightarrow> quiet h0 (h\<lparr>mem := m\<rparr>)"
  by (auto simp: quiet_def intro: mquiet_trans)

lemma modify_quiet [quiet_steps]:
  assumes "modify p f h = Some h'" "\<And>t. below (f t) t" "quiet h0 h"
  shows "quiet h0 h'"
proof -
  obtain m where "upd f p (mem h) = Some m" "h' = h\<lparr>mem := m\<rparr>" using assms(1) unfolding modify_def by auto
  then show ?thesis using quiet_mem[OF mquiet_upd[OF _ assms(2)] assms(3)] by simp
qed

lemma pagemap_set_quiet [quiet_steps]: "pagemap_set k p h = Some h' \<Longrightarrow> quiet h0 h \<Longrightarrow> quiet h0 h'"
  by (auto simp: pagemap_set_def)

lemma RecordSpan_quiet [quiet_steps]: "RecordSpan p h = Some h' \<Longrightarrow> quiet h0 h \<Longrightarrow> quiet h0 h'"
  unfolding RecordSpan_def by (elim bind_SomeE) (auto split: if_splits elim!: pagemap_set_quiet)

lemma heap_NewSpan_quiet [quiet_steps]:
  assumes "heap_NewSpan s n h = Some (p, h')" "quiet h0 h"
  shows "quiet h0 h'"
proof -
  obtain r a where h': "h' = h\<lparr>mem := (mem h)(Sp r \<mapsto> zero_span\<lparr>sp_start := s, sp_length := n\<rparr>), span_allocator := a\<rparr>"
    using assms(1) unfolding heap_NewSpan_def NewSpan_def by auto
  have "mquiet (mem h) ((mem h)(Sp r \<mapsto> zero_span\<lparr>sp_start := s, sp_length := n\<rparr>))"
    by (auto simp: mquiet_def blank_def zero_span_def)
  then show ?thesis using quiet_mem[OF _ assms(2)] unfolding h' by simp
qed

lemma heap_DeleteSpan_quiet [quiet_steps]:
  assumes "heap_DeleteSpan p h = Some h'" "quiet h0 h"
  shows "quiet h0 h'"
proof -
  obtain r a where h': "h' = h\<lparr>mem := (mem h)(Sp r := None), span_allocator := a\<rparr>"
    using assms(1) unfolding heap_DeleteSpan_def DeleteSpan_def by (auto split: spanptr.splits)
  have "mquiet (mem h) ((mem h)(Sp r := None))" by (auto simp: mquiet_def)
  then show ?thesis using quiet_mem[OF _ assms(2)] unfolding h' by simp
qed

lemma PrependToFreeList_quiet [quiet_steps]:
  assumes "PrependToFreeList p h = Some h'" "quiet h0 h"
  shows "quiet h0 h'"
  using assms unfolding PrependToFreeList_def
  by (elim bind_SomeE) (auto split: if_splits intro!: quiet_mem[where h = "h\<lparr>free_bytes := x\<rparr>" for x, simplified]
     quiet_mem[where h = "h\<lparr>unmapped_bytes := x\<rparr>" for x, simplified] elim!: DLL_Prepend_quiet)

lemma RemoveFromFreeList_quiet [quiet_steps]:
  assumes "RemoveFromFreeList p h = Some h'" "quiet h0 h"
  shows "quiet h0 h'"
  using assms unfolding RemoveFromFreeList_def Let_def
  by (elim bind_SomeE) (auto split: if_splits intro!: quiet_mem elim!: DLL_Remove_quiet)

lemma merge_quiet [quiet_steps]:
  "merge_prev p s h = Some h' \<Longrightarrow> quiet h0 h \<Longrightarrow> quiet h0 h'"
  "merge_next p s h = Some h' \<Longrightarrow> quiet h0 h \<Longrightarrow> quiet h0 h'"
  unfolding merge_prev_def merge_next_def Let_def
  by (elim bind_SomeE, auto split: option.splits if_splits, (erule quiet_steps | simp add: below_def)+)+

lemma MergeIntoFreeList_quiet [quiet_steps]: "MergeIntoFreeList p h = Some h' \<Longrightarrow> quiet h0 h \<Longrightarrow> quiet h0 h'"
  unfolding MergeIntoFreeList_def Let_def by (elim bind_SomeE) (erule quiet_steps | assumption)+

lemma carve_leftover_quiet [quiet_steps]: "carve_leftover p n loc e h = Some h' \<Longrightarrow> quiet h0 h \<Longrightarrow> quiet h0 h'"
  unfolding carve_leftover_def by (elim bind_SomeE, auto) (erule quiet_steps | simp add: below_def)+

lemma Carve_quiet [quiet_steps]: "Carve p n h = Some (q, h') \<Longrightarrow> quiet h0 h \<Longrightarrow> quiet h0 h'"
  unfolding Carve_def Let_def by (elim bind_SomeE, auto split: if_splits) (erule quiet_steps | simp add: below_def)+

lemma Split_quiet [quiet_steps]: "Split p n h = Some (q, h') \<Longrightarrow> quiet h0 h \<Longrightarrow> quiet h0 h'"
  unfolding Split_def Let_def by (elim bind_SomeE, auto) (erule quiet_steps | simp add: below_def)+

lemma AllocLarge_quiet [quiet_steps]: "AllocLarge n h = Some (r, h') \<Longrightarrow> quiet h0 h \<Longrightarrow> quiet h0 h'"
  unfolding AllocLarge_def by (elim bind_SomeE, auto split: option.splits) (erule quiet_steps | assumption)+

lemma carve_first_quiet [quiet_steps]: "carve_first l loc n h = Some (r, h') \<Longrightarrow> quiet h0 h \<Longrightarrow> quiet h0 h'"
  unfolding carve_first_def by (elim bind_SomeE, auto) (erule quiet_steps | assumption)+

lemma search_lists_quiet [quiet_steps]: "search_lists s n h = Some (r, h') \<Longrightarrow> quiet h0 h \<Longrightarrow> quiet h0 h'"
proof (induction s n h rule: search_lists.induct)
  case (1 s n h)
  note step = 1(2)[unfolded search_lists.simps[of s]]
  show ?case using step 1(1,3) by (auto split: if_splits) (erule quiet_steps | assumption)+
qed

lemma SearchFreeAndLargeLists_quiet [quiet_steps]: "SearchFreeAndLargeLists n h = Some (r, h') \<Longrightarrow> quiet h0 h \<Longrightarrow> quiet h0 h'"
  unfolding SearchFreeAndLargeLists_def by (elim bind_SomeE) (erule quiet_steps | assumption)+

lemma ReleaseLastNormalSpan_quiet [quiet_steps]: "ReleaseLastNormalSpan l h = Some (n, h') \<Longrightarrow> quiet h0 h \<Longrightarrow> quiet h0 h'"
  unfolding ReleaseLastNormalSpan_def Let_def
  by (elim bind_SomeE, auto) (erule quiet_steps | simp add: below_def | (subst quiet_fields))+

lemma release_pass_quiet [quiet_steps]: "release_pass k n r h = Some (r', h') \<Longrightarrow> quiet h0 h \<Longrightarrow> quiet h0 h'"
proof (induction k arbitrary: r h)
  case (Suc k)
  show ?case
    using Suc.prems unfolding release_pass.simps Let_def
    by (auto split: if_splits) (erule Suc.IH quiet_steps | simp)+
qed simp

lemma release_loop_quiet:
  assumes "release_loop n r p h = Some x"
  shows "quiet h0 h \<longrightarrow> quiet h0 (snd x)"
  by (rule release_loop.raw_induct[OF _ assms, where P = "\<lambda>n r p h x. quiet h0 h \<longrightarrow> quiet h0 (snd x)"])
    (auto split: if_splits elim!: bind_SomeE dest: release_pass_quiet)

lemma ReleaseAtLeastNPages_quiet [quiet_steps]: "ReleaseAtLeastNPages n h = Some (r, h') \<Longrightarrow> quiet h0 h \<Longrightarrow> quiet h0 h'"
  unfolding ReleaseAtLeastNPages_def using release_loop_quiet by fastforce

lemma IncrementalScavenge_quiet [quiet_steps]: "IncrementalScavenge env n h = Some h' \<Longrightarrow> quiet h0 h \<Longrightarrow> quiet h0 h'"
  unfolding IncrementalScavenge_def Let_def by (auto split: if_splits elim!: ReleaseAtLeastNPages_quiet)

lemma Delete_quiet [quiet_steps]: "Delete env p h = Some h' \<Longrightarrow> quiet h0 h \<Longrightarrow> quiet h0 h'"
  unfolding Delete_def Let_def by (elim bind_SomeE, auto) (erule quiet_steps | simp add: below_def)+

lemma RecordGrowth_quiet [quiet_steps]: "RecordGrowth env g h = Some h' \<Longrightarrow> quiet h0 h \<Longrightarrow> quiet h0 h'"
  unfolding RecordGrowth_def Let_def
  by (elim bind_SomeE) (auto simp: quiet_def dest: subsetD[where A = "dom (traces h0)"])

lemma grow_with_quiet [quiet_steps]: "grow_with env p n h = Some (r, h') \<Longrightarrow> quiet h0 h \<Longrightarrow> quiet h0 h'"
  unfolding grow_with_def Let_def
  by (elim bind_SomeE, auto split: if_splits prod.splits) (erule quiet_steps | simp)+

lemma GrowHeap_quiet [quiet_steps]: "GrowHeap env n h = Some (r, h') \<Longrightarrow> quiet h0 h \<Longrightarrow> quiet h0 h'"
  unfolding GrowHeap_def Let_def system_alloc_def
  by (elim bind_SomeE, auto split: if_splits prod.splits option.splits list.splits elim!: grow_with_quiet)

lemma New_quiet [quiet_steps]: "New env n h = Some (r, h') \<Longrightarrow> quiet h0 h \<Longrightarrow> quiet h0 h'"
  unfolding New_def by (elim bind_SomeE, auto split: if_splits) (erule quiet_steps | assumption)+


section \<open>The size-class cache\<close>

definition cached_as :: "pageheap \<Rightarrow> nat \<Rightarrow> nat \<Rightarrow> bool" where
  "cached_as h j c \<longleftrightarrow> GetSizeClassIfCached h j \<in> {Some 0, Some c}"

lemma cached_as_cong: "pagemap_cache h' = pagemap_cache h \<Longrightarrow> cached_as h' = cached_as h"
  unfolding cached_as_def GetSizeClassIfCached_def by presburger

lemma CacheSizeClass_lookup:
  assumes "CacheSizeClass k c h = Some h'" "j < 2 ^ 35"
  shows "j = k \<Longrightarrow> GetSizeClassIfCached h' j = Some c"
    "j \<noteq> k \<Longrightarrow> cached_as h j d \<Longrightarrow> cached_as h' j d"
proof -
  obtain ca where p: "Put 35 64 k c (pagemap_cache h) = Some ca" "h' = h\<lparr>pagemap_cache := ca\<rparr>"
    using assms(1) by (auto simp: CacheSizeClass_def)
  have g: "GetSizeClassIfCached x j = Some (case cache_map 35 64 (pagemap_cache x) j of None \<Rightarrow> 0 | Some v \<Rightarrow> v)" for x
    using GetOrDefault_cache_map[OF assms(2), of 64 0] by (simp add: GetSizeClassIfCached_def)
  note m = cache_map_Put[OF cache_params_inst(1) p(1) assms(2)]
  show "j = k \<Longrightarrow> GetSizeClassIfCached h' j = Some c" using g[of h'] m p(2) by simp
  show "j \<noteq> k \<Longrightarrow> cached_as h j d \<Longrightarrow> cached_as h' j d"
    using g[of h] g[of h'] m p(2) by (auto simp: cached_as_def split: if_splits)
qed

lemma CacheSizeClass_defined: "k < 2 ^ 35 \<Longrightarrow> c < 128 \<Longrightarrow> \<exists>ca. CacheSizeClass k c h = Some (h\<lparr>pagemap_cache := ca\<rparr>)"
  using Put_defined[of 35 64 k c "pagemap_cache h"] by (auto simp: CacheSizeClass_def kValuebits_def)

section \<open>Marks of the descriptors\<close>

definition outside :: "spanptr \<Rightarrow> span \<Rightarrow> bool" where
  "outside p t \<longleftrightarrow> p \<notin> heads \<and> p \<notin> cheads \<and> (\<forall>a. p = Sp a \<longrightarrow> sp_location t = IN_USE \<and> sp_sizeclass t = 0)"

definition tagged :: "span_mem \<Rightarrow> nat set \<Rightarrow> pageheap \<Rightarrow> bool" where
  "tagged F G h \<longleftrightarrow>
     (\<forall>a t. mem h (Sp a) = Some t \<longrightarrow> sp_location t \<noteq> IN_USE \<longrightarrow> blank t)
     \<and> (\<forall>a t j. mem h (Sp a) = Some t \<longrightarrow> sp_location t = IN_USE \<longrightarrow> sp_sizeclass t \<noteq> 0 \<longrightarrow>
          j \<in> {sp_start t..<sp_start t + sp_length t} \<longrightarrow> cached_as h j (sp_sizeclass t))
     \<and> (\<forall>p t. F p = Some t \<longrightarrow> mem h p = Some t \<and> outside p t \<and> (\<forall>a. p = Sp a \<longrightarrow> cached_as h (sp_start t) 0))
     \<and> G \<subseteq> dom (traces h)
     \<and> (\<forall>a t. mem h (Sp a) = Some t \<longrightarrow> sp_sizeclass t \<noteq> 0 \<longrightarrow> \<not> sp_sample t)"

lemma taggedD:
  assumes "tagged F G h"
  shows "mem h (Sp a) = Some t \<Longrightarrow> sp_location t \<noteq> IN_USE \<Longrightarrow> blank t"
    "mem h (Sp a) = Some t \<Longrightarrow> sp_location t = IN_USE \<Longrightarrow> sp_sizeclass t \<noteq> 0 \<Longrightarrow>
       j \<in> {sp_start t..<sp_start t + sp_length t} \<Longrightarrow> cached_as h j (sp_sizeclass t)"
    "F p = Some t \<Longrightarrow> mem h p = Some t" "F p = Some t \<Longrightarrow> outside p t" "F (Sp a) = Some t \<Longrightarrow> cached_as h (sp_start t) 0"
    "G \<subseteq> dom (traces h)" "mem h (Sp a) = Some t \<Longrightarrow> sp_sizeclass t \<noteq> 0 \<Longrightarrow> \<not> sp_sample t"
  using assms unfolding tagged_def by blast+

lemma tagged_unsampled:
  assumes "tagged F G h" "quiet h h'" "mem h' (Sp a) = Some t" "sp_sizeclass t \<noteq> 0"
  shows "\<not> sp_sample t"
proof -
  have "\<not> blank t" using assms(4) by (simp add: blank_def)
  from quiet_source[OF assms(2,3) this] show ?thesis
    using taggedD(7)[OF assms(1), of a] assms(4) unfolding below_def by metis
qed

lemma outside_idle: "tagged F G h \<Longrightarrow> F p = Some t \<Longrightarrow> idle (spans h) p"
  using taggedD(3,4)[of F G h p t] by (auto simp: outside_def idle_def desc_def)

text \<open>An allocated span that covers a page of a span which has stayed as it was is that span.\<close>

lemma in_use_back:
  assumes "heap_ok h'" "spans h' c = Some (s, l, IN_USE)" "s \<in> used_pages h"
    "\<And>b t k. spans h b = Some (t, k, IN_USE) \<Longrightarrow> s \<in> {t..<t + k} \<Longrightarrow> mem h' (Sp b) = mem h (Sp b)"
  shows "mem h' (Sp c) = mem h (Sp c) \<and> spans h c = Some (s, l, IN_USE)"
proof -
  obtain P L where I: "hinv {} P h' L" using assms(1) by (auto simp: heap_ok_def heap_at_def)
  obtain b t k where b: "spans h b = Some (t, k, IN_USE)" "s \<in> {t..<t + k}" using assms(3) by (auto simp: pages_of_def)
  have m: "mem h' (Sp b) = mem h (Sp b)" by (rule assms(4)[OF b])
  then have b': "spans h' b = Some (t, k, IN_USE)" using b(1) by (simp add: desc_def)
  have "b = c"
  proof (rule ccontr)
    assume "b \<noteq> c"
    then have "t + k \<le> s \<or> s + l \<le> t" "0 < l" using hinv_parts(3)[OF I] b' assms(2) unfolding descs_ok_def by blast+
    then show False using b(2) by auto
  qed
  then show ?thesis using m b' b(1) assms(2) by simp
qed

lemma span_start_used: "heap_ok h \<Longrightarrow> spans h c = Some (s, l, IN_USE) \<Longrightarrow> s \<in> used_pages h \<and> 0 < l"
  unfolding heap_ok_def heap_at_def using hinv_parts(3) by (fastforce simp: descs_ok_def pages_of_def)

lemma in_use_desc: "mem h (Sp a) = Some t \<Longrightarrow> sp_location t = IN_USE \<Longrightarrow> spans h a = Some (sp_start t, sp_length t, IN_USE)"
  by (simp add: desc_Some)

text \<open>
  The spans in use without a size class: those that the central lists do not own.  The page heap adds
  only the span it hands out, and takes away the one it is given back.
\<close>

definition unclassed :: "pageheap \<Rightarrow> nat set" where
  "unclassed h = {a. \<exists>t. mem h (Sp a) = Some t \<and> sp_location t = IN_USE \<and> sp_sizeclass t = 0}"

lemma unclassedI: "mem h (Sp a) = Some t \<Longrightarrow> sp_location t = IN_USE \<Longrightarrow> sp_sizeclass t = 0 \<Longrightarrow> a \<in> unclassed h"
  by (auto simp: unclassed_def)

lemma unclassed_cong: "mem h' = mem h \<Longrightarrow> unclassed h' = unclassed h"
  by (simp add: unclassed_def)

lemma unclassed_mono:
  assumes "\<And>a t. mem h' (Sp a) = Some t \<Longrightarrow> sp_location t = IN_USE \<Longrightarrow> sp_sizeclass t = 0 \<Longrightarrow> a \<noteq> b
    \<Longrightarrow> \<exists>u. mem h (Sp a) = Some u \<and> sp_location u = IN_USE \<and> sp_sizeclass u = 0"
  shows "unclassed h' \<subseteq> insert b (unclassed h)"
  using assms unfolding unclassed_def by blast

lemma New_in_use:
  assumes "heap_ok h" "0 < n" "2 \<le> room h" "0 < trace_room h" "New env n h = Some (r, h')"
    "mem h' (Sp b) = Some t" "sp_location t = IN_USE" "r \<noteq> Some (Sp b)"
  shows "mem h (Sp b) = Some t"
proof -
  have H: "heap_at (cover (spans h)) h" using assms(1) by (simp add: heap_ok_def)
  have N: "heap_ok h'" "\<And>p. r = Some p \<Longrightarrow> \<exists>a s. p = Sp a \<and> allocated h n a s h'" "r = None \<Longrightarrow> mem h' = mem h"
    by (rule New_ok[OF H assms(2-4), of env]; use assms(5) in auto)+
  have fr: "mem h' v = mem h v" if "idle (spans h) v" "mem h v \<noteq> None" for v
    using N(2,3) that by (cases r) (auto simp: allocated_def)
  show ?thesis
  proof (cases r)
    case None
    then show ?thesis using N(3) assms(6) by simp
  next
    case (Some p)
    then obtain a s where a: "p = Sp a" "allocated h n a s h'" using N(2) by blast
    note A = a(2)[unfolded allocated_def]
    have ba: "b \<noteq> a" using assms(8) Some a(1) by blast
    note d = in_use_desc[OF assms(6,7)]
    obtain P L where I: "hinv {} P h' L" using N(1) by (auto simp: heap_ok_def heap_at_def)
    have "sp_start t + sp_length t \<le> s \<or> s + n \<le> sp_start t" "0 < sp_length t"
      using hinv_parts(3)[OF I] d A ba unfolding descs_ok_def by blast+
    then have "sp_start t \<in> used_pages h" using span_start_used[OF N(1) d] A by auto
    moreover have "mem h' (Sp c) = mem h (Sp c)" if "spans h c = Some (t', k, IN_USE)" for c t' k
      using that by (intro fr) (auto simp: idle_def heads_def desc_def)
    ultimately show ?thesis using in_use_back[OF N(1) d] assms(6) by metis
  qed
qed

lemma New_unclassed:
  assumes "heap_ok h" "0 < n" "2 \<le> room h" "0 < trace_room h" "New env n h = Some (r, h')"
  shows "unclassed h' \<subseteq> unclassed h \<union> {a. r = Some (Sp a)}"
  using New_in_use[OF assms] unfolding unclassed_def by blast

lemma New_tagged:
  assumes "heap_ok h" "0 < n" "2 \<le> room h" "0 < trace_room h" "New env n h = Some (r, h')" "tagged F G h"
  shows "tagged F G h'" "r = Some (Sp a) \<Longrightarrow> mem h' (Sp a) = Some t \<Longrightarrow> blank t" "pagemap_cache h' = pagemap_cache h"
proof -
  have H: "heap_at (cover (spans h)) h" using assms(1) by (simp add: heap_ok_def)
  have N: "heap_ok h'" "\<And>p. r = Some p \<Longrightarrow> \<exists>a s. p = Sp a \<and> allocated h n a s h'" "r = None \<Longrightarrow> mem h' = mem h"
    by (rule New_ok[OF H assms(2-4), of env]; use assms(5) in auto)+
  have Q: "quiet h h'" by (rule New_quiet[OF assms(5) quiet_refl])
  then show c: "pagemap_cache h' = pagemap_cache h" by (simp add: quiet_def)
  note T = taggedD[OF assms(6)] and K = cached_as_cong[OF c]
  have fr: "mem h' v = mem h v" if "idle (spans h) v" "mem h v \<noteq> None" for v
    using N(2,3) that by (cases r) (auto simp: allocated_def)
  have blk: "blank t" if "mem h' (Sp b) = Some t" "r = Some (Sp b) \<or> sp_location t \<noteq> IN_USE" for b t
  proof (rule ccontr)
    assume nb: "\<not> blank t"
    note m = that(1)
    obtain t0 where t0: "mem h (Sp b) = Some t0" "below t t0" by (rule quiet_source[OF Q m nb])
    then have "\<not> blank t0" using nb by (auto simp: blank_def below_def)
    then have u: "sp_location t0 = IN_USE" using T(1)[OF t0(1)] by blast
    then have i: "idle (spans h) (Sp b)" using t0(1) by (auto simp: idle_def desc_def heads_def)
    have "r \<noteq> Some (Sp b)" using N(2)[of "Sp b"] i t0(1) by (auto simp: allocated_def)
    then show False using fr[OF i] t0(1) that u by auto
  qed
  then show "r = Some (Sp a) \<Longrightarrow> mem h' (Sp a) = Some t \<Longrightarrow> blank t" by blast
  have prior: "mem h (Sp b) = Some t" if t: "mem h' (Sp b) = Some t" "sp_location t = IN_USE" "sp_sizeclass t \<noteq> 0" for b t
    using New_in_use[OF assms(1-5) t(1,2)] blk[OF t(1)] t(3) by (auto simp: blank_def)
  show "tagged F G h'"
    unfolding tagged_def
  proof (intro conjI allI impI)
    show "\<And>a t. mem h' (Sp a) = Some t \<Longrightarrow> sp_location t \<noteq> IN_USE \<Longrightarrow> blank t" using blk by blast
    show "cached_as h' j (sp_sizeclass t)" if "mem h' (Sp a) = Some t" "sp_location t = IN_USE" "sp_sizeclass t \<noteq> 0"
      "j \<in> {sp_start t..<sp_start t + sp_length t}" for a t j
      using T(2)[OF prior[OF that(1-3)] that(2-4)] K by simp
    show "mem h' p = Some t" if "F p = Some t" for p t using fr[OF outside_idle[OF assms(6) that]] T(3)[OF that] by simp
    show "G \<subseteq> dom (traces h')" using T(6) Q by (auto simp: quiet_def)
    show "\<not> sp_sample t" if "mem h' (Sp a) = Some t" "sp_sizeclass t \<noteq> 0" for a t by (rule tagged_unsampled[OF assms(6) Q that])
  qed (use T(4,5) K in auto)
qed

lemma modifyE:
  assumes "modify p f h = Some h'"
  obtains t where "mem h p = Some t" "h' = h\<lparr>mem := (mem h)(p \<mapsto> f t)\<rparr>"
  using assms by (auto simp: modify_def upd_def split: option.splits)

lemma Delete_in_use:
  assumes "heap_ok h" "spans h a = Some (s, l, IN_USE)" "detached (mem h) (Sp a)" "Delete env (Sp a) h = Some h'"
    "mem h' (Sp b) = Some t" "sp_location t = IN_USE"
  shows "mem h (Sp b) = Some t" "b \<noteq> a"
proof -
  have H: "heap_at (cover (spans h)) h" using assms(1) by (simp add: heap_ok_def)
  have N: "heap_ok h'" "used_pages h' = used_pages h - {s..<s + l}"
    "\<forall>v. idle (spans h) v \<longrightarrow> v \<noteq> Sp a \<longrightarrow> idle (spans h') v \<and> mem h' v = mem h v"
    by (rule Delete_spec[OF H assms(2,3), of env]; use assms(4) heap_at_ok in auto)+
  note d = in_use_desc[OF assms(5,6)]
  have u: "sp_start t \<in> used_pages h" "sp_start t \<notin> {s..<s + l}" using span_start_used[OF N(1) d] N(2) by auto
  have m: "mem h' (Sp c) = mem h (Sp c)" if "spans h c = Some (t', k, IN_USE)" "sp_start t \<in> {t'..<t' + k}" for c t' k
  proof -
    have "idle (spans h) (Sp c)" using that(1) by (auto simp: idle_def heads_def)
    moreover have "c \<noteq> a" using that u(2) assms(2) by auto
    ultimately show ?thesis using N(3) by simp
  qed
  have b: "mem h' (Sp b) = mem h (Sp b) \<and> spans h b = Some (sp_start t, sp_length t, IN_USE)"
    by (rule in_use_back[OF N(1) d u(1)]) (rule m)
  then show "mem h (Sp b) = Some t" using assms(5) by simp
  have "0 < sp_length t" using span_start_used[OF N(1) d] by blast
  then show "b \<noteq> a" using b assms(2) u(2) by auto
qed

lemma Delete_unclassed:
  assumes "heap_ok h" "spans h a = Some (s, l, IN_USE)" "detached (mem h) (Sp a)" "Delete env (Sp a) h = Some h'"
  shows "unclassed h' \<subseteq> unclassed h - {a}"
  using Delete_in_use[OF assms] unfolding unclassed_def by blast

lemma Delete_tagged:
  assumes "heap_ok h" "spans h a = Some (s, l, IN_USE)" "detached (mem h) (Sp a)" "Delete env (Sp a) h = Some h'" "tagged F G h" "F (Sp a) = None"
  shows "tagged F G h'"
proof -
  have H: "heap_at (cover (spans h)) h" using assms(1) by (simp add: heap_ok_def)
  have N: "heap_ok h'" "used_pages h' = used_pages h - {s..<s + l}"
    "\<forall>v. idle (spans h) v \<longrightarrow> v \<noteq> Sp a \<longrightarrow> idle (spans h') v \<and> mem h' v = mem h v"
    by (rule Delete_spec[OF H assms(2,3), of env]; use assms(4) heap_at_ok in auto)+
  obtain h1 h2 h3 h4 where D: "modify (Sp a) (\<lambda>s. s\<lparr>sp_sizeclass := 0\<rparr>) h = Some h1" "modify (Sp a) (\<lambda>s. s\<lparr>sp_sample := False\<rparr>) h1 = Some h2"
    "modify (Sp a) (\<lambda>s. s\<lparr>sp_location := ON_NORMAL_FREELIST\<rparr>) h2 = Some h3" "MergeIntoFreeList (Sp a) h3 = Some h4"
    "\<exists>n. IncrementalScavenge env n h4 = Some h'"
    using assms(4) unfolding Delete_def Let_def by (elim bind_SomeE) (rule that, assumption+, blast)
  then obtain n where n: "IncrementalScavenge env n h4 = Some h'" by blast
  have Q3: "quiet h3 h'" by (rule IncrementalScavenge_quiet[OF n MergeIntoFreeList_quiet[OF D(4) quiet_refl]])
  obtain t where t: "h3 = h\<lparr>mem := (mem h)(Sp a \<mapsto> t)\<rparr>" "blank t"
    by (rule modifyE[OF D(1)], rule modifyE[OF D(2)], rule modifyE[OF D(3)]) (auto simp: blank_def)
  have c: "pagemap_cache h' = pagemap_cache h" using Q3 t(1) by (simp add: quiet_def)
  note T = taggedD[OF assms(5)] and K = cached_as_cong[OF c]
  have blk: "blank t'" if "mem h' (Sp b) = Some t'" "sp_location t' \<noteq> IN_USE" for b t'
  proof (rule ccontr)
    assume nb: "\<not> blank t'"
    note m = that(1)
    obtain t0 where t0: "mem h3 (Sp b) = Some t0" "below t' t0" by (rule quiet_source[OF Q3 m nb])
    then have "\<not> blank t0" using nb by (auto simp: blank_def below_def)
    then have b: "b \<noteq> a" "mem h (Sp b) = Some t0" using t0(1) t by (auto split: if_splits)
    then have u: "sp_location t0 = IN_USE" using T(1) \<open>\<not> blank t0\<close> by blast
    then have "idle (spans h) (Sp b)" using b(2) by (auto simp: idle_def desc_def heads_def)
    then show False using N(3) b that u by auto
  qed
  have prior: "mem h (Sp b) = Some t" if t: "mem h' (Sp b) = Some t" "sp_location t = IN_USE" for b t
    by (rule Delete_in_use(1)[OF assms(1-4) t])
  show ?thesis
    unfolding tagged_def
  proof (intro conjI allI impI)
    show "\<And>a t. mem h' (Sp a) = Some t \<Longrightarrow> sp_location t \<noteq> IN_USE \<Longrightarrow> blank t" using blk by blast
    show "cached_as h' j (sp_sizeclass t)" if "mem h' (Sp a) = Some t" "sp_location t = IN_USE" "sp_sizeclass t \<noteq> 0"
      "j \<in> {sp_start t..<sp_start t + sp_length t}" for a t j
      using T(2)[OF prior[OF that(1,2)] that(2-4)] K by simp
    show "mem h' p = Some t" if "F p = Some t" for p t
    proof -
      have "p \<noteq> Sp a" using that assms(6) by auto
      then show ?thesis using N(3) outside_idle[OF assms(5) that] T(3)[OF that] by simp
    qed
    show "G \<subseteq> dom (traces h')" using T(6) Q3 t(1) by (auto simp: quiet_def)
    show "\<not> sp_sample t" if "mem h' (Sp a) = Some t" "sp_sizeclass t \<noteq> 0" for a t
      by (rule tagged_unsampled[OF assms(5) Delete_quiet[OF assms(4) quiet_refl] that])
  qed (use T(4,5) K in auto)
qed

text \<open>Steps on descriptors that keep start, length, location and marks, and do not touch \<open>F\<close>.\<close>

definition core :: "span \<Rightarrow> nat \<times> nat \<times> nat \<times> nat \<times> bool" where
  "core t = (sp_start t, sp_length t, sp_location t, sp_sizeclass t, sp_sample t)"

lemma tagged_core:
  assumes "tagged F G h" "\<And>p. map_option core (mem h' p) = map_option core (mem h p)" "\<And>p. F p \<noteq> None \<Longrightarrow> mem h' p = mem h p"
    "pagemap_cache h' = pagemap_cache h" "dom (traces h) \<subseteq> dom (traces h')"
  shows "tagged F G h'"
proof -
  note T = taggedD[OF assms(1)] and K = cached_as_cong[OF assms(4)]
  have c: "\<exists>t0. mem h p = Some t0 \<and> core t0 = core t" if "mem h' p = Some t" for p t
    using assms(2)[of p] that by (cases "mem h p") auto
  show ?thesis
    unfolding tagged_def
  proof (intro conjI allI impI)
    show "blank t" if "mem h' (Sp a) = Some t" "sp_location t \<noteq> IN_USE" for a t
      using c[OF that(1)] T(1)[of a] that(2) by (auto simp: core_def blank_def)
    show "cached_as h' j (sp_sizeclass t)" if "mem h' (Sp a) = Some t" "sp_location t = IN_USE" "sp_sizeclass t \<noteq> 0"
      "j \<in> {sp_start t..<sp_start t + sp_length t}" for a t j
      using c[OF that(1)] T(2)[of a _ j] that(2-4) K by (auto simp: core_def)
    show "mem h' p = Some t" if "F p = Some t" for p t using assms(3)[of p] T(3)[OF that] that by simp
    show "G \<subseteq> dom (traces h')" using T(6) assms(5) by blast
    show "\<not> sp_sample t" if "mem h' (Sp a) = Some t" "sp_sizeclass t \<noteq> 0" for a t
      using c[OF that(1)] T(7)[of a] that(2) by (auto simp: core_def)
  qed (use T(4,5) K in auto)
qed

lemma tagged_upd:
  assumes "tagged F G h" "F (Sp a) = None" "mem h' = (mem h)(Sp a \<mapsto> t)" "pagemap_cache h' = pagemap_cache h" "traces h' = traces h"
    "sp_location t = IN_USE" "\<And>j. sp_sizeclass t \<noteq> 0 \<Longrightarrow> j \<in> {sp_start t..<sp_start t + sp_length t} \<Longrightarrow> cached_as h j (sp_sizeclass t)" "sp_sizeclass t \<noteq> 0 \<Longrightarrow> \<not> sp_sample t"
  shows "tagged F G h'"
proof -
  note T = taggedD[OF assms(1)]
  show ?thesis
    unfolding tagged_def assms(3,5) cached_as_cong[OF assms(4)]
  proof (intro conjI allI impI)
    show "blank u" if "((mem h)(Sp a \<mapsto> t)) (Sp b) = Some u" "sp_location u \<noteq> IN_USE" for b u
      using that T(1)[of b u] assms(6) by (auto split: if_splits)
    show "cached_as h j (sp_sizeclass u)" if "((mem h)(Sp a \<mapsto> t)) (Sp b) = Some u" "sp_location u = IN_USE" "sp_sizeclass u \<noteq> 0"
      "j \<in> {sp_start u..<sp_start u + sp_length u}" for b u j
      using that assms(7)[of j] T(2)[of b u j] by (cases "b = a") auto
    show "((mem h)(Sp a \<mapsto> t)) p = Some u" if "F p = Some u" for p u using T(3)[OF that] assms(2) that by auto
    show "\<not> sp_sample u" if "((mem h)(Sp a \<mapsto> t)) (Sp b) = Some u" "sp_sizeclass u \<noteq> 0" for b u
      using that assms(8) T(7)[of b u] by (auto split: if_splits)
  qed (use T(4-6) in auto)
qed

lemma CacheSizeClass_tagged:
  assumes "tagged F G h" "heap_ok h" "CacheSizeClass k c h = Some h'"
    "\<And>a t. mem h (Sp a) = Some t \<Longrightarrow> sp_location t = IN_USE \<Longrightarrow> k \<in> {sp_start t..<sp_start t + sp_length t} \<Longrightarrow> sp_sizeclass t \<noteq> 0
       \<Longrightarrow> c \<in> {0, sp_sizeclass t}"
    "\<And>a t. F (Sp a) = Some t \<Longrightarrow> k = sp_start t \<Longrightarrow> c = 0"
  shows "tagged F G h'"
proof -
  note T = taggedD[OF assms(1)]
  obtain ca where h': "h' = h\<lparr>pagemap_cache := ca\<rparr>" using assms(3) by (auto simp: CacheSizeClass_def)
  have small: "j < 2 ^ 35" if "mem h (Sp a) = Some t" "sp_location t = IN_USE" "j \<in> {sp_start t..<sp_start t + sp_length t}" for a t j
  proof (rule page_small(1)[OF assms(2)])
    show "j \<in> cover (spans h)" using in_use_desc[OF that(1,2)] that(3) by (auto simp: cover_def)
  qed
  have keep: "cached_as h' j d" if "cached_as h j d" "j < 2 ^ 35" "j = k \<Longrightarrow> c \<in> {0, d}" for j d
    using CacheSizeClass_lookup(1)[OF assms(3) that(2)] CacheSizeClass_lookup(2)[OF assms(3) that(2), of d] that(1,3) by (cases "j = k") (auto simp: cached_as_def)
  show ?thesis
    unfolding tagged_def
  proof (intro conjI allI impI)
    show "cached_as h' j (sp_sizeclass t)" if "mem h' (Sp a) = Some t" "sp_location t = IN_USE" "sp_sizeclass t \<noteq> 0"
      "j \<in> {sp_start t..<sp_start t + sp_length t}" for a t j
      using that T(2)[of a t j] small[of a t j] assms(4)[of a t] h' by (intro keep) auto
    show "cached_as h' (sp_start t) 0" if "F p = Some t" "p = Sp a" for p t a
    proof (rule keep)
      have f: "F (Sp a) = Some t" "mem h (Sp a) = Some t" "sp_location t = IN_USE" using that T(3,4)[OF that(1)] by (auto simp: outside_def)
      then show "cached_as h (sp_start t) 0" "sp_start t = k \<Longrightarrow> c \<in> {0, 0}" using T(5) assms(5) by auto
      have "0 < sp_length t" using span_start_used[OF assms(2) in_use_desc[OF f(2,3)]] by simp
      then show "sp_start t < 2 ^ 35" using small[OF f(2,3)] by simp
    qed
  qed (use T h' in auto)
qed

text \<open>A span gets a class: the class is recorded in the cache for all its pages, and in the descriptor.\<close>

lemma RegisterSizeClass_rest:
  assumes "RegisterSizeClass p c h = Some h'"
  shows "pagemap_cache h' = pagemap_cache h" "traces h' = traces h" "room h' = room h"
proof -
  have l: "ofold (\<lambda>i h. pagemap_set (s + i) p h) is h1 = Some h2 \<Longrightarrow> pagemap_cache h2 = pagemap_cache h1 \<and> traces h2 = traces h1 \<and> room h2 = room h1"
    for s "is" h1 h2
    by (induction "is" arbitrary: h1) (auto simp: pagemap_set_def)
  show "pagemap_cache h' = pagemap_cache h" "traces h' = traces h" "room h' = room h"
    using assms unfolding RegisterSizeClass_def by (auto elim!: modifyE dest!: l)
qed

lemma CacheSizeClass_loop:
  assumes "ofold (\<lambda>i h. CacheSizeClass (s + i) c h) is h = Some h'" "tagged F G h" "heap_ok h"
    "\<And>i a t. i \<in> set is \<Longrightarrow> mem h (Sp a) = Some t \<Longrightarrow> sp_location t = IN_USE \<Longrightarrow> s + i \<in> {sp_start t..<sp_start t + sp_length t} \<Longrightarrow> sp_sizeclass t = 0"
    "\<And>i a t. i \<in> set is \<Longrightarrow> F (Sp a) = Some t \<Longrightarrow> s + i \<noteq> sp_start t"
  shows "\<exists>ca. h' = h\<lparr>pagemap_cache := ca\<rparr>" "tagged F G h'" "i \<in> set is \<or> cached_as h (s + i) c \<Longrightarrow> s + i < 2 ^ 35 \<Longrightarrow> cached_as h' (s + i) c"
proof -
  have "(\<exists>ca. h' = h\<lparr>pagemap_cache := ca\<rparr>) \<and> tagged F G h'
     \<and> (\<forall>i. (i \<in> set is \<or> cached_as h (s + i) c) \<longrightarrow> s + i < 2 ^ 35 \<longrightarrow> cached_as h' (s + i) c)"
    using assms
  proof (induction "is" arbitrary: h)
    case Nil
    then show ?case by (auto intro: exI[of _ "pagemap_cache h"])
  next
    case (Cons i "is")
    obtain h1 where h1: "CacheSizeClass (s + i) c h = Some h1" "ofold (\<lambda>i h. CacheSizeClass (s + i) c h) is h1 = Some h'"
      using Cons.prems(1) by auto
    have z: "sp_sizeclass t = 0" if "mem h (Sp a) = Some t" "sp_location t = IN_USE" "s + i \<in> {sp_start t..<sp_start t + sp_length t}" for a t
      using Cons.prems(4)[of i a t] that by simp
    have t1: "tagged F G h1"
      by (rule CacheSizeClass_tagged[OF Cons.prems(2,3) h1(1)]) (use z Cons.prems(5)[of i] in auto)
    obtain ca where ca: "h1 = h\<lparr>pagemap_cache := ca\<rparr>" using h1(1) by (auto simp: CacheSizeClass_def)
    have I: "(\<exists>ca. h' = h1\<lparr>pagemap_cache := ca\<rparr>) \<and> tagged F G h'
     \<and> (\<forall>i. (i \<in> set is \<or> cached_as h1 (s + i) c) \<longrightarrow> s + i < 2 ^ 35 \<longrightarrow> cached_as h' (s + i) c)"
      by (rule Cons.IH[OF h1(2) t1]) (use Cons.prems(3-5) ca in auto)
    have "cached_as h1 (s + j) c" if "j = i \<or> cached_as h (s + j) c" "s + j < 2 ^ 35" for j
      using CacheSizeClass_lookup(1)[OF h1(1) that(2)] CacheSizeClass_lookup(2)[OF h1(1) that(2), of c] that(1) by (cases "j = i") (auto simp: cached_as_def)
    then show ?case using I ca by auto
  qed
  then show "\<exists>ca. h' = h\<lparr>pagemap_cache := ca\<rparr>" "tagged F G h'" "i \<in> set is \<or> cached_as h (s + i) c \<Longrightarrow> s + i < 2 ^ 35 \<Longrightarrow> cached_as h' (s + i) c"
    by blast+
qed

end
