(* ===== verification/CentralFreeListTags.thy ===== *)
theory CentralFreeListTags
  imports PageHeapTags
begin

text \<open>
  The central free lists respect the marks: every operation keeps \<open>tagged F G\<close>, whatever spans \<open>F\<close> and
  stack traces \<open>G\<close> others hold.  So large objects and sampled objects live beside the central lists.
\<close>

section \<open>Steps in place\<close>

text \<open>Only descriptors in \<open>U\<close> change, and of those neither the bounds nor the marks.\<close>

definition gentle :: "spanptr set \<Rightarrow> pageheap \<Rightarrow> pageheap \<Rightarrow> bool" where
  "gentle U h h' \<longleftrightarrow> (\<forall>p. map_option core (mem h' p) = map_option core (mem h p)) \<and> (\<forall>p. p \<notin> U \<longrightarrow> mem h' p = mem h p)
     \<and> pagemap_cache h' = pagemap_cache h \<and> traces h' = traces h"

lemma gentle_refl [simp]: "gentle U h h"
  by (simp add: gentle_def)

lemma gentle_trans: "gentle U h h1 \<Longrightarrow> gentle U h1 h2 \<Longrightarrow> gentle U h h2"
  by (simp add: gentle_def)

lemma gentle_modify:
  assumes "modify p f h = Some h'" "\<And>t. core (f t) = core t" "p \<in> U"
  shows "gentle U h h'"
  by (rule modifyE[OF assms(1)]) (use assms(2,3) in \<open>auto simp: gentle_def\<close>)

lemma gentle_shape:
  assumes "shape m' = shape (mem h)" "\<And>u. u \<notin> U \<Longrightarrow> m' u = mem h u"
  shows "gentle U h (h\<lparr>mem := m'\<rparr>)"
proof -
  have "map_option core (m' p) = map_option core (mem h p)" for p
    using shape_at[OF assms(1), of p] by (cases "m' p"; cases "mem h p") (auto simp: core_def dest: same_shape)
  then show ?thesis using assms(2) by (simp add: gentle_def)
qed

lemma tagged_gentle:
  assumes "tagged F G h" "gentle U h h'" "\<And>p. F p \<noteq> None \<Longrightarrow> p \<notin> U"
  shows "tagged F G h'"
  using assms(2,3) by (intro tagged_core[OF assms(1)]) (auto simp: gentle_def)

lemma gentle_unclassed:
  assumes "gentle U h h'"
  shows "unclassed h' = unclassed h"
proof -
  have "\<exists>u. mem h2 (Sp a) = Some u \<and> sp_location u = IN_USE \<and> sp_sizeclass u = 0"
    if "map_option core (mem h1 (Sp a)) = map_option core (mem h2 (Sp a))" "mem h1 (Sp a) = Some t" "sp_location t = IN_USE" "sp_sizeclass t = 0"
    for h1 h2 :: pageheap and a t
    using that by (cases "mem h2 (Sp a)") (auto simp: core_def)
  moreover have "map_option core (mem h' p) = map_option core (mem h p)" for p using assms by (simp add: gentle_def)
  ultimately show ?thesis unfolding unclassed_def by (metis (no_types, lifting))
qed

lemma move_to_gentle:
  assumes "dlls (mem h) cheads L" "l \<in> cheads" "p \<in> set (L l)" "k \<in> cheads" "move_to k p h = Some h'"
  shows "gentle (on_lists cheads L) h h'"
proof -
  obtain m' where "h' = h\<lparr>mem := m'\<rparr>" "shape m' = shape (mem h)" "\<forall>u. u \<notin> on_lists cheads L \<longrightarrow> m' u = mem h u"
    using span_lists.move_law[OF assms(1-4)] assms(5) by (auto simp: move_to_def on_lists_of_def)
  then show ?thesis using gentle_shape by blast
qed

lemma remove_gentle:
  assumes "dlls (mem h) cheads L" "l \<in> cheads" "p \<in> set (L l)" "on_lists_of (DLL_Remove p) h = Some h'"
  shows "gentle (on_lists cheads L) h h'"
proof -
  obtain m' where "h' = h\<lparr>mem := m'\<rparr>" "shape m' = shape (mem h)" "\<forall>u. u \<notin> on_lists cheads L \<longrightarrow> m' u = mem h u"
    using span_lists.remove_law[OF assms(1-3)] assms(4) by (auto simp: on_lists_of_def)
  then show ?thesis using gentle_shape by blast
qed

lemma prepend_gentle:
  assumes "dlls (mem h) cheads L" "l \<in> cheads" "detached (mem h) p" "p \<notin> on_lists cheads L" "on_lists_of (DLL_Prepend l p) h = Some h'"
  shows "gentle (insert p (on_lists cheads L)) h h'"
proof -
  obtain m' where "h' = h\<lparr>mem := m'\<rparr>" "shape m' = shape (mem h)" "\<forall>u. u \<notin> insert p (on_lists cheads L) \<longrightarrow> m' u = mem h u"
    using span_lists.prepend_law[OF assms(1-4)] assms(5) by (auto simp: on_lists_of_def)
  then show ?thesis using gentle_shape by blast
qed

section \<open>The operations\<close>

lemma off_lists:
  assumes "cinv L C T st" "tagged F G (pheap st)" "F p \<noteq> None"
  shows "p \<notin> on_lists cheads L"
proof
  assume on: "p \<in> on_lists cheads L"
  obtain t where t: "F p = Some t" "mem (pheap st) p = Some t" "outside p t" using assms(3) taggedD(3,4)[OF assms(2)] by blast
  then have "p \<notin> cheads" by (simp add: outside_def)
  then obtain cl where cl: "cl \<in> classes" "p \<in> class_spans L cl" using on by (auto simp: on_lists_def class_spans_def cheads_def)
  obtain a u where "p = Sp a" "mem (pheap st) p = Some u" "sp_sizeclass u = cl"
    by (rule span_okE[OF cinvD(4)[OF assms(1) cl]]) (rule that)
  then show False using t(2,3) cl(1) by (auto simp: outside_def)
qed

lemma FetchFromSpans_tagged:
  assumes "cinv L C T st" "cl \<in> classes" "FetchFromSpans cl st = Some (x, st')" "tagged F G (pheap st)"
  shows "tagged F G (pheap st') \<and> unclassed (pheap st') \<subseteq> unclassed (pheap st)"
proof (cases "L (CflNonempty cl) = []")
  case True
  then show ?thesis using fetch_empty[OF assms(1,2)] assms(3,4) by simp
next
  case False
  note D = cinvD[OF assms(1)]
  let ?l = "CflNonempty cl" and ?U = "on_lists cheads L"
  define p where "p = hd (L ?l)"
  have l: "?l \<in> cheads" "dll (mem (pheap st)) ?l (L ?l)" using assms(2) dlls_dll[OF D(3)] by auto
  have "p \<in> set (L ?l)" unfolding p_def by (rule hd_in_set[OF False])
  then have p: "p \<in> set (L ?l)" "p \<in> ?U" using l(1) unfolding on_lists_def by blast+
  have "nxt (mem (pheap st)) ?l = Some p"
    using path_heads[of "mem (pheap st)" ?l "L ?l" ?l] l(2) False by (auto simp: dll_def p_def)
  then obtain ll where ll: "mem (pheap st) ?l = Some ll" "sp_next ll = Some p" using nxt_live by blast
  have e: "DLL_IsEmpty ?l (mem (pheap st)) = Some False" using dll_IsEmpty[OF l(2)] False by simp
  obtain h1 n h2 h3 where s: "modify p (\<lambda>s. s\<lparr>sp_refcount := (sp_refcount s + 1) mod 65536\<rparr>) (pheap st) = Some h1"
    "modify p (\<lambda>s. s\<lparr>sp_objects := n\<rparr>) h1 = Some h2" "(if n = 0 then move_to (CflEmpty cl) p h2 else Some h2) = Some h3" "pheap st' = h3"
    using assms(3) unfolding FetchFromSpans_def e ll Option.bind.simps if_False Let_def
    by (elim bind_SomeE) (rule that, assumption+, clarsimp simp: set_cfl_def)
  have g1: "gentle ?U (pheap st) h1" by (rule gentle_modify[OF s(1) _ p(2)]) (simp add: core_def)
  have g2: "gentle ?U h1 h2" by (rule gentle_modify[OF s(2) _ p(2)]) (simp add: core_def)
  have "dlls (mem h2) cheads L = dlls (mem (pheap st)) cheads L"
    by (rule modifyE[OF s(1)], rule modifyE[OF s(2)]) (auto intro!: dlls_cong simp: nxt_def prv_def)
  then have d: "dlls (mem h2) cheads L" using D(3) by simp
  have "gentle ?U h2 h3"
    using s(3) move_to_gentle[OF d l(1) p(1) cheads_in(2)[OF assms(2)]] by (auto split: if_splits)
  then have "gentle ?U (pheap st) h3" using g1 g2 gentle_trans by blast
  then show ?thesis using tagged_gentle[OF assms(4)] off_lists[OF assms(1,4)] gentle_unclassed s(4) by blast
qed


lemma CacheSizeClass_loop_cong:
  assumes "ofold (\<lambda>i h. CacheSizeClass (s + i) c h) is h = Some h'" "pagemap_cache h0 = pagemap_cache h"
  shows "ofold (\<lambda>i h. CacheSizeClass (s + i) c h) is h0 = Some (h0\<lparr>pagemap_cache := pagemap_cache h'\<rparr>)
    \<and> h' = h\<lparr>pagemap_cache := pagemap_cache h'\<rparr>"
  using assms
proof (induction "is" arbitrary: h h0)
  case (Cons i "is")
  obtain ca where ca: "Put page_bits 64 (s + i) c (pagemap_cache h) = Some ca"
    "ofold (\<lambda>i h. CacheSizeClass (s + i) c h) is (h\<lparr>pagemap_cache := ca\<rparr>) = Some h'"
    using Cons.prems(1) by (auto simp: CacheSizeClass_def)
  have "CacheSizeClass (s + i) c h0 = Some (h0\<lparr>pagemap_cache := ca\<rparr>)" using ca(1) Cons.prems(2) by (simp add: CacheSizeClass_def)
  then show ?case using Cons.IH[OF ca(2), of "h0\<lparr>pagemap_cache := ca\<rparr>"] by simp
qed simp

lemma same_page_span:
  assumes "heap_ok h" "mem h (Sp a) = Some t" "sp_location t = IN_USE" "mem h (Sp b) = Some u" "sp_location u = IN_USE"
    "j \<in> {sp_start t..<sp_start t + sp_length t}" "j \<in> {sp_start u..<sp_start u + sp_length u}"
  shows "a = b"
proof (rule ccontr)
  assume "a \<noteq> b"
  moreover obtain P L where I: "hinv {} P h L" using assms(1) by (auto simp: heap_ok_def heap_at_def)
  ultimately have "sp_start t + sp_length t \<le> sp_start u \<or> sp_start u + sp_length u \<le> sp_start t"
    using hinv_parts(3)[OF I] in_use_desc[OF assms(2,3)] in_use_desc[OF assms(4,5)] unfolding descs_ok_def by blast
  then show False using assms(6,7) by auto
qed

lemma Populate_tagged:
  assumes "cinv L C T st" "cl \<in> classes" "2 \<le> room (pheap st)" "0 < trace_room (pheap st)" "Populate env cl st = Some st'" "tagged F G (pheap st)"
  shows "tagged F G (pheap st') \<and> unclassed (pheap st') \<subseteq> unclassed (pheap st)"
proof -
  note D = cinvD[OF assms(1)]
  let ?h = "pheap st" and ?n = "npg cl"
  have H: "heap_at (cover (spans ?h)) ?h" using D(2) by (simp add: heap_ok_def)
  obtain r h1 where N: "New env ?n ?h = Some (r, h1)" "heap_ok h1"
    "\<And>p. r = Some p \<Longrightarrow> \<exists>a s. p = Sp a \<and> allocated ?h ?n a s h1"
    by (rule New_ok[OF H class_facts(2)[OF assms(2)] assms(3,4)]) (rule that)
  note un = New_unclassed[OF D(2) class_facts(2)[OF assms(2)] assms(3,4) N(1)]
  note T1 = New_tagged[OF D(2) class_facts(2)[OF assms(2)] assms(3,4) N(1) assms(6)]
  show ?thesis
  proof (cases r)
    case None
    then show ?thesis using assms(5) N(1) D(1) T1(1) un by (auto simp: Populate_def sizemap_facts)
  next
    case (Some p)
    then obtain a s where p: "p = Sp a" "allocated ?h ?n a s h1" using N(3) by blast
    note A = p(2)[unfolded allocated_def]
    have off: "p \<notin> on_lists cheads L" and m1: "\<And>u. u \<in> on_lists cheads L \<Longrightarrow> mem h1 u = mem ?h u"
      using cinv_on_lists_idle[OF assms(1)] A p(1) by metis+
    obtain t where t: "mem h1 (Sp a) = Some t" "sp_start t = s" "sp_length t = ?n" "sp_location t = IN_USE" "sp_next t = None" "sp_prev t = None"
      using A p(1) by (auto simp: desc_Some detached_def nxt_def prv_def)
    have b: "sp_sizeclass t = 0" and bs: "\<not> sp_sample t" using T1(2)[of a t] Some p(1) t(1) by (simp_all add: blank_def)
    have Fa: "F (Sp a) = None"
    proof (rule ccontr)
      assume "F (Sp a) \<noteq> None"
      then obtain u where u: "F (Sp a) = Some u" by blast
      then have "idle (spans ?h) (Sp a)" "mem ?h (Sp a) \<noteq> None" using outside_idle[OF assms(6) u] taggedD(3)[OF assms(6) u] by simp_all
      then show False using A by blast
    qed
    have H1: "heap_at (cover (spans h1)) h1" using N(2) by (simp add: heap_ok_def)
    have cl: "cl mod 256 = cl" "cl < 128" using class_facts(7)[OF assms(2)] by simp_all
    have cov: "{s..<s + ?n} \<subseteq> cover (spans h1)" using A unfolding cover_def by fastforce
    have small: "s + i < 2 ^ 35" if "i < ?n" for i by (rule page_small(1)[OF N(2) subsetD[OF cov]]) (use that in simp)
    obtain h2 where h2: "RegisterSizeClass p cl h1 = Some h2" "mem h2 = (mem h1)(p \<mapsto> t\<lparr>sp_sizeclass := cl\<rparr>)"
      using RegisterSizeClass_ok[OF H1 t(1) t(4), of cl] p(1) cl(1) by metis
    obtain h3 obj h4 h5 h6 where s: "ofold (\<lambda>i h. CacheSizeClass (s + i) cl h) [0..<?n] h2 = Some h3"
      "modify p (\<lambda>s. s\<lparr>sp_objects := obj\<rparr>) h3 = Some h4" "modify p (\<lambda>s. s\<lparr>sp_refcount := 0\<rparr>) h4 = Some h5"
      "on_lists_of (DLL_Prepend (CflNonempty cl) p) h5 = Some h6" "pheap st' = h6"
    proof -
      have "Populate env cl st = Some st' \<Longrightarrow> \<exists>h3 obj h4 h5 h6. ofold (\<lambda>i h. CacheSizeClass (s + i) cl h) [0..<?n] h2 = Some h3
        \<and> modify p (\<lambda>s. s\<lparr>sp_objects := obj\<rparr>) h3 = Some h4 \<and> modify p (\<lambda>s. s\<lparr>sp_refcount := 0\<rparr>) h4 = Some h5
        \<and> on_lists_of (DLL_Prepend (CflNonempty cl) p) h5 = Some h6 \<and> pheap st' = h6"
        unfolding Populate_def using t(2,3) by (auto simp: N(1) Some h2 D(1) sizemap_facts Let_def set_cfl_def split: prod.splits) blast
      then show thesis using assms(5) that by blast
    qed
    define hg where "hg = h1\<lparr>pagemap_cache := pagemap_cache h3\<rparr>"
    have R: "pagemap_cache h2 = pagemap_cache h1" "traces h2 = traces h1" using RegisterSizeClass_rest[OF h2(1)] by simp_all
    have g: "ofold (\<lambda>i h. CacheSizeClass (s + i) cl h) [0..<?n] h1 = Some hg" "h3 = h2\<lparr>pagemap_cache := pagemap_cache h3\<rparr>"
      using CacheSizeClass_loop_cong[OF s(1) R(1)[symmetric]] by (simp_all add: hg_def)
    have only: "c = a" if "mem h1 (Sp c) = Some u" "sp_location u = IN_USE" "s + i \<in> {sp_start u..<sp_start u + sp_length u}" "i < ?n" for c u i
      using same_page_span[OF N(2) that(1,2) t(1,4) that(3)] t(2,3) that(4) by simp
    have z: "sp_sizeclass u = 0" if "i \<in> set [0..<?n]" "mem h1 (Sp c) = Some u" "sp_location u = IN_USE" "s + i \<in> {sp_start u..<sp_start u + sp_length u}" for i c u
      using only[OF that(2-4)] that(1,2) t(1) b by auto
    have f: "s + i \<noteq> sp_start u" if "i \<in> set [0..<?n]" "F (Sp c) = Some u" for i c u
    proof
      assume e: "s + i = sp_start u"
      have u: "mem h1 (Sp c) = Some u" "sp_location u = IN_USE" using taggedD(3,4)[OF T1(1) that(2)] by (auto simp: outside_def)
      have "0 < sp_length u" using span_start_used[OF N(2) in_use_desc[OF u]] by simp
      then have "c = a" using only[OF u, of i] e that(1) by simp
      then show False using that(2) Fa by simp
    qed
    have Tg: "tagged F G hg"
      by (rule CacheSizeClass_loop(2)[OF g(1) T1(1) N(2)]) ((rule z; assumption), (rule f; assumption))
    have ca: "cached_as hg j cl" if "j \<in> {s..<s + ?n}" for j
    proof -
      obtain i where i: "j = s + i" "i < ?n" using \<open>j \<in> {s..<s + ?n}\<close> le_Suc_ex[of s j] by auto
      have "cached_as hg (s + i) cl"
        by (rule CacheSizeClass_loop(3)[OF g(1) T1(1) N(2)]) ((rule z; assumption), (rule f; assumption), (use i(2) small in simp_all))
      then show ?thesis using i(1) by simp
    qed
    let ?U = "insert p (on_lists cheads L)"
    have m3: "mem h3 = (mem h1)(p \<mapsto> t\<lparr>sp_sizeclass := cl\<rparr>)" "traces h3 = traces h1"
      using arg_cong[OF g(2), of mem] arg_cong[OF g(2), of traces] h2(2) R(2) by simp_all
    have "tagged F G h3"
      by (rule tagged_upd[OF Tg Fa, where t = "t\<lparr>sp_sizeclass := cl\<rparr>"]) (use m3 t(2-4) p(1) ca bs in \<open>simp_all add: hg_def\<close>)
    moreover have "gentle ?U h3 h4" by (rule gentle_modify[OF s(2)]) (simp_all add: core_def)
    moreover have "gentle ?U h4 h5" by (rule gentle_modify[OF s(3)]) (simp_all add: core_def)
    moreover have "gentle ?U h5 h6"
    proof (rule prepend_gentle[OF _ cheads_in(1)[OF assms(2)] _ off s(4)])
      have m5: "mem h5 = (mem h1)(p \<mapsto> t\<lparr>sp_sizeclass := cl, sp_objects := obj, sp_refcount := 0\<rparr>)"
        by (rule modifyE[OF s(2)], rule modifyE[OF s(3)]) (simp add: m3(1))
      have "mem h5 u = mem ?h u" if "u \<in> on_lists cheads L" for u using m1[OF that] off that by (auto simp: m5)
      then have "dlls (mem h5) cheads L = dlls (mem ?h) cheads L" by (intro dlls_cong) (simp add: nxt_def prv_def)
      then show "dlls (mem h5) cheads L" using D(3) by simp
      show "detached (mem h5) p" using t(5,6) by (simp add: detached_def nxt_def prv_def m5)
    qed
    ultimately have g36: "gentle ?U h3 h6" "tagged F G h3" using gentle_trans by blast+
    have "unclassed h3 \<subseteq> unclassed h1 - {a}"
      using m3(1) p(1) class_facts(7)[OF assms(2)] assms(2) unfolding unclassed_def by (auto split: if_splits)
    then have "unclassed h6 \<subseteq> unclassed ?h" using un Some p(1) gentle_unclassed[OF g36(1)] by auto
    moreover have "q \<notin> ?U" if "F q \<noteq> None" for q using off_lists[OF assms(1,6) that] that Fa p(1) by auto
    ultimately show ?thesis unfolding s(5) using tagged_gentle g36 by blast
  qed
qed

lemma ReleaseToSpans_tagged:
  assumes "cinv L C T st" "x \<in> owned L C T st cl" "ReleaseToSpans env cl x st = Some st'" "tagged F G (pheap st)"
  shows "tagged F G (pheap st') \<and> unclassed (pheap st') \<subseteq> unclassed (pheap st)"
proof -
  note X = owned_facts[OF assms(1,2)] and D = cinvD[OF assms(1)]
  let ?h = "pheap st" and ?U = "on_lists cheads L"
  obtain p where p: "p \<in> class_spans L cl" "x \<in> objs cl (sstart (mem ?h) p)" "x \<notin> set (C p)" "MapObjectToSpan x ?h = Some p"
    by (rule owned_in_span[OF assms(1,2)]) (rule that)
  obtain a t t2 h1 h2 L' where r: "p = Sp a" "mem ?h p = Some t" "sp_refcount t > 0"
    "sp_refcount t + length (C p) = per_span cl" "sp_start t = sstart (mem ?h) p" "sp_sizeclass t = cl"
    "(if sp_objects t = 0 then move_to (CflNonempty cl) p ?h else Some ?h) = Some h1"
    "modify p (\<lambda>s. s\<lparr>sp_refcount := sp_refcount s - 1\<rparr>) h1 = Some h2"
    "heap_lists h2 L'" "mem h2 p = Some t2" "sp_refcount t2 = sp_refcount t - 1" "sp_objects t2 = sp_objects t"
    "sp_start t2 = sp_start t" "sp_length t2 = npg cl" "sp_location t2 = IN_USE" "sp_sizeclass t2 = cl"
    "GetDescriptor h2 = GetDescriptor ?h" "spans h2 = spans ?h" "\<And>c. class_spans L' c = class_spans L c"
    "p \<in> set (L' (CflNonempty cl))" "\<And>q u. q \<noteq> p \<Longrightarrow> q \<in> set (L' u) \<longleftrightarrow> q \<in> set (L u)"
    "\<And>c q. c \<in> classes \<Longrightarrow> q \<in> class_spans L c \<Longrightarrow> q \<noteq> p \<Longrightarrow> span_ok (mem h2) (GetDescriptor ?h) (store st) c q (C q)"
    "\<And>q. sstart (mem h2) q = sstart (mem ?h) q"
    by (rule ReleaseToSpans_prefix[OF assms(1) p(1) X(1) p(2,3)]) (rule that)
  have l: "CflNonempty cl \<in> cheads" "CflEmpty cl \<in> cheads" using X(1) by simp_all
  have pU: "p \<in> ?U" by (rule class_span_on_lists[OF X(1) p(1)])
  have off: "q \<notin> ?U" if "F q \<noteq> None" for q by (rule off_lists[OF assms(1,4) that])
  have off': "q \<notin> on_lists cheads L'" if "F q \<noteq> None" for q
    using off[OF that] pU r(21)[of q] by (auto simp: on_lists_def)
  have "gentle ?U ?h h1"
  proof (cases "sp_objects t = 0")
    case True
    then have "C p = []" using D(4)[OF X(1) p(1)] r(1,2) sll_nil unfolding span_ok_def by auto
    then have "p \<in> set (L (CflEmpty cl))" using D(5)[OF X(1) p(1)] p(1) by (auto simp: class_spans_def)
    then show ?thesis using move_to_gentle[OF D(3) l(2) _ l(1)] r(7) True by simp
  qed (use r(7) in simp)
  moreover have "gentle ?U h1 h2" by (rule gentle_modify[OF r(8) _ pU]) (simp add: core_def)
  ultimately have g2: "gentle ?U ?h h2" by (rule gentle_trans)
  then have T2: "tagged F G h2" "unclassed h2 = unclassed ?h" using tagged_gentle[OF assms(4)] off gentle_unclassed by blast+
  show ?thesis
  proof (cases "sp_refcount t2 = 0")
    case False
    obtain h3 where h3: "modify p (\<lambda>s. s\<lparr>sp_objects := x\<rparr>) h2 = Some h3" "pheap st' = h3"
      using assms(3) False unfolding ReleaseToSpans_def by (auto simp: p(4) r(2,7,8,10) set_cfl_def Let_def simp del: One_nat_def split: if_splits)
    have "gentle ?U h2 h3" by (rule gentle_modify[OF h3(1) _ pU]) (simp add: core_def)
    then show ?thesis using tagged_gentle[OF T2(1)] off h3(2) gentle_unclassed T2(2) by blast
  next
    case True
    obtain h3 h4 where h: "on_lists_of (DLL_Remove p) h2 = Some h3" "Delete env p h3 = Some h4" "pheap st' = h4"
      using assms(3) True unfolding ReleaseToSpans_def by (auto simp: p(4) r(2,7,8,10) set_cfl_def Let_def simp del: One_nat_def split: if_splits)
    have D2: "dlls (mem h2) cheads L'" using r(9) by (simp add: heap_lists_def)
    have "gentle (on_lists cheads L') h2 h3" by (rule remove_gentle[OF D2 l(1) r(20) h(1)])
    then have T3: "tagged F G h3" "unclassed h3 = unclassed ?h" using tagged_gentle[OF T2(1)] off' gentle_unclassed T2(2) by blast+
    obtain m3 where m3: "h3 = h2\<lparr>mem := m3\<rparr>" "heap_lists (h2\<lparr>mem := m3\<rparr>) (L'(CflNonempty cl := remove1 p (L' (CflNonempty cl))))"
      "detached m3 p" "spans (h2\<lparr>mem := m3\<rparr>) = spans h2"
      by (rule heap_lists_remove[OF r(9) l(1) r(20)]) (use h(1) that in auto)
    have ok: "heap_ok h3" "detached (mem h3) (Sp a)" using m3(1-3) r(1) by (simp_all add: heap_lists_def)
    have d: "spans h3 a = Some (sp_start t2, sp_length t2, IN_USE)" using m3(1,4) r(1,10,15) by (simp add: desc_def)
    from Delete_tagged[OF ok(1) d ok(2) _ T3(1), of env h4] Delete_unclassed[OF ok(1) d ok(2), of env h4]
    show ?thesis using h(2,3) r(1) off[of p] pU T3(2) by blast
  qed
qed

text \<open>What \<open>tagged\<close> says of others survives, whoever they are, and so do the words in their pages.\<close>

definition marks_kept :: "central \<Rightarrow> central \<Rightarrow> bool" where
  "marks_kept st st' \<longleftrightarrow> (\<forall>F G. tagged F G (pheap st) \<longrightarrow> tagged F G (pheap st')
     \<and> (\<forall>a t y. F (Sp a) = Some t \<longrightarrow> y div kPageSize \<in> {sp_start t..<sp_start t + sp_length t} \<longrightarrow> store st' y = store st y)
     \<and> unclassed (pheap st') \<subseteq> unclassed (pheap st))"

lemma marks_kept_refl [simp]: "marks_kept st st"
  by (simp add: marks_kept_def)

lemma marks_keptD:
  assumes "marks_kept st st'" "tagged F G (pheap st)"
  shows "tagged F G (pheap st')"
    "F (Sp a) = Some t \<Longrightarrow> y div kPageSize \<in> {sp_start t..<sp_start t + sp_length t} \<Longrightarrow> store st' y = store st y"
    "unclassed (pheap st') \<subseteq> unclassed (pheap st)"
  using assms unfolding marks_kept_def by blast+

lemma marks_keptI:
  assumes "\<And>F G. tagged F G (pheap st) \<Longrightarrow> tagged F G (pheap st') \<and> unclassed (pheap st') \<subseteq> unclassed (pheap st)"
    "\<And>F G a t y. tagged F G (pheap st) \<Longrightarrow> F (Sp a) = Some t \<Longrightarrow> y div kPageSize \<in> {sp_start t..<sp_start t + sp_length t} \<Longrightarrow> store st' y = store st y"
  shows "marks_kept st st'"
  unfolding marks_kept_def using assms by blast

lemma marks_kept_trans:
  assumes "marks_kept st st1" "marks_kept st1 st2"
  shows "marks_kept st st2"
proof (rule marks_keptI)
  fix F G a t y assume t: "tagged F G (pheap st)" "F (Sp a) = Some t" "y div kPageSize \<in> {sp_start t..<sp_start t + sp_length t}"
  have "store st2 y = store st1 y" by (rule marks_keptD(2)[OF assms(2) marks_keptD(1)[OF assms(1) t(1)] t(2,3)])
  then show "store st2 y = store st y" using marks_keptD(2)[OF assms(1) t] by simp
next
  fix F G assume t: "tagged F G (pheap st)"
  note t1 = marks_keptD(1)[OF assms(1) t]
  show "tagged F G (pheap st2) \<and> unclassed (pheap st2) \<subseteq> unclassed (pheap st)"
    using marks_keptD(1)[OF assms(2) t1] marks_keptD(3)[OF assms(1) t] marks_keptD(3)[OF assms(2) t1] by blast
qed

lemma marks_kept_fields [simp]:
  "marks_kept (st\<lparr>central_cache := c\<rparr>) st' = marks_kept st st'" "marks_kept st (st'\<lparr>central_cache := c\<rparr>) = marks_kept st st'"
  "marks_kept (st\<lparr>race_counter := n\<rparr>) st' = marks_kept st st'" "marks_kept st (st'\<lparr>race_counter := n\<rparr>) = marks_kept st st'"
  by (simp_all add: marks_kept_def)

text \<open>The pages of others are in use, and hold no objects of a class.\<close>

lemma tagged_pages:
  assumes "heap_ok (pheap st)" "tagged F G (pheap st)" "F (Sp a) = Some t" "j \<in> {sp_start t..<sp_start t + sp_length t}"
  shows "j \<in> used_pages (pheap st)" "mem (pheap st) (Sp a) = Some t" "sp_location t = IN_USE" "sp_sizeclass t = 0"
proof -
  show m: "mem (pheap st) (Sp a) = Some t" "sp_location t = IN_USE" "sp_sizeclass t = 0"
    using taggedD(3,4)[OF assms(2,3)] by (simp_all add: outside_def)
  then show "j \<in> used_pages (pheap st)" using in_use_desc[OF m(1,2)] assms(4) by (auto simp: pages_of_def)
qed

lemma tagged_no_object:
  assumes "cinv L C T st" "tagged F G (pheap st)" "F (Sp a) = Some t" "cl \<in> classes" "x \<in> class_objs (mem (pheap st)) L cl"
    "y \<in> {x..<x + osz cl}" "y div kPageSize \<in> {sp_start t..<sp_start t + sp_length t}"
  shows False
proof -
  note P = tagged_pages[OF cinvD(2)[OF assms(1)] assms(2,3,7)]
  obtain p where p: "p \<in> class_spans L cl" "x \<in> objs cl (sstart (mem (pheap st)) p)" using assms(5) by (auto simp: class_objs_def)
  obtain b u where u: "p = Sp b" "mem (pheap st) p = Some u" "sp_location u = IN_USE" "sp_length u = npg cl" "sp_sizeclass u = cl"
    "sstart (mem (pheap st)) p = sp_start u"
    by (rule span_okE[OF cinvD(4)[OF assms(1,4) p(1)]]) (rule that)
  have "y div kPageSize \<in> {sp_start u..<sp_start u + sp_length u}"
  proof -
    have "sp_start u * kPageSize \<le> y" "y < (sp_start u + npg cl) * kPageSize" using objs_bytes[OF p(2) assms(4)] assms(6) u(6) by auto
    then show ?thesis using u(4) by (simp add: less_eq_div_iff_mult_less_eq less_mult_imp_div_less)
  qed
  then have "a = b" using same_page_span[OF cinvD(2)[OF assms(1)] P(2,3) _ u(3) assms(7)] u(1,2) by simp
  then show False using P(2,4) u(1,2,5) assms(4) by auto
qed

lemma marks_kept_write:
  assumes "cinv L C T st" "x \<in> owned L C T st cl"
  shows "marks_kept st (st\<lparr>store := (store st)(x := v)\<rparr>)"
proof -
  note X = owned_facts[OF assms]
  have x: "x \<in> {x..<x + osz cl}" using class_facts(1)[OF X(1)] by simp
  show ?thesis unfolding marks_kept_def using tagged_no_object[OF assms(1) _ _ X(1,2) x] by auto
qed

lemma FetchFromSpans_marks:
  assumes "cinv L C T st" "cl \<in> classes" "FetchFromSpans cl st = Some (x, st')"
  shows "marks_kept st st'"
proof -
  have "store st' = store st"
  proof (cases "L (CflNonempty cl) = []")
    case True
    then show ?thesis using fetch_empty[OF assms(1,2)] assms(3) by simp
  next
    case False
    show ?thesis by (rule fetch_object[OF assms(1,2) False]) (use assms(3) in auto)
  qed
  then show ?thesis using FetchFromSpans_tagged[OF assms] unfolding marks_kept_def by simp
qed

lemma Populate_marks:
  assumes "cinv L C T st" "cl \<in> classes" "2 \<le> room (pheap st)" "0 < trace_room (pheap st)" "Populate env cl st = Some st'"
  shows "marks_kept st st'"
proof -
  have "store st' y = store st y" if "y div kPageSize \<in> used_pages (pheap st)" for y
    by (rule Populate_ok[OF assms(1-4), of env]) (use assms(5) that in auto)
  then show ?thesis
    unfolding marks_kept_def using Populate_tagged[OF assms] tagged_pages(1)[OF cinvD(2)[OF assms(1)]] by blast
qed

lemma ReleaseToSpans_marks:
  assumes "cinv L C T st" "x \<in> owned L C T st cl" "ReleaseToSpans env cl x st = Some st'"
  shows "marks_kept st st'"
proof -
  note X = owned_facts[OF assms(1,2)]
  have x: "x \<in> {x..<x + osz cl}" using class_facts(1)[OF X(1)] by simp
  have w: "store st' y = store st y" if "y \<noteq> x" for y
    by (rule ReleaseToSpans_ok[OF assms(1,2), of env]) (use assms(3) that in auto)
  show ?thesis
  proof (rule marks_keptI)
    fix F G a t y assume t: "tagged F G (pheap st)" "F (Sp a) = Some t" "y div kPageSize \<in> {sp_start t..<sp_start t + sp_length t}"
    then have "y \<noteq> x" using tagged_no_object[OF assms(1) t(1,2) X(1,2) x] by blast
    then show "store st' y = store st y" by (rule w)
  qed (rule ReleaseToSpans_tagged[OF assms])
qed

end
