(* ===== verification/CentralFreeListRanges.thy ===== *)
theory CentralFreeListRanges
  imports CentralFreeListTags
begin

text \<open>
  The interface of the central free lists: \<open>RemoveRange\<close> and \<open>InsertRange\<close> with the transfer caches,
  \<open>Init\<close> and the counters, as properties of the objects that clients own.
\<close>

section \<open>Fetching\<close>

lemma counter_zero:
  assumes "cinv L C T st" "cl \<in> classes" "L (CflNonempty cl) = []"
  shows "counter (central_cache st cl) = 0"
proof -
  have "(\<Sum>p \<in> class_spans L cl. length (C p)) = 0" using cinvD(5)[OF assms(1,2)] assms(3) by simp
  then show ?thesis using cinvD(6)[OF assms(1,2)] by simp
qed

lemma FetchFromSpansSafe_ok:
  assumes "cinv L C T st" "cl \<in> classes" "2 \<le> room (pheap st)" "0 < trace_room (pheap st)"
  obtains x L' C' st' where "FetchFromSpansSafe env cl st = Some (x, st')" "cinv L' C' T st'"
    "keeps_words (owned L C T st) st st'" "x = 0 \<Longrightarrow> owned L' C' T st' = owned L C T st"
    "x \<noteq> 0 \<Longrightarrow> x \<notin> owned L C T st cl \<and> owned L' C' T st' = (owned L C T st)(cl := insert x (owned L C T st cl))"
    "x = 0 \<Longrightarrow> (\<exists>h. New env (npg cl) (pheap st) = Some (None, h)) \<and> counter (central_cache st' cl) = 0" "marks_kept st st'"
proof (cases "L (CflNonempty cl) = []")
  case False
  obtain x L' C' st' where f: "FetchFromSpans cl st = Some (x, st')" "x \<noteq> 0" "cinv L' C' T st'"
    "x \<notin> owned L C T st cl" "owned L' C' T st' = (owned L C T st)(cl := insert x (owned L C T st cl))"
    "store st' = store st" by (rule fetch_object[OF assms(1,2) False]) (rule that)
  then show thesis using that[of x st' L' C'] FetchFromSpans_marks[OF assms(1,2) f(1)] by (simp add: FetchFromSpansSafe_def keeps_words_def)
next
  case True
  have e: "FetchFromSpans cl st = Some (0, st)" by (rule fetch_empty[OF assms(1,2) True])
  obtain L1 C1 st1 where p: "Populate env cl st = Some st1" "cinv L1 C1 T st1" "owned L1 C1 T st1 = owned L C T st"
    "keeps_words (owned L C T st) st st1" "(\<exists>h. New env (npg cl) (pheap st) = Some (None, h)) \<or> L1 (CflNonempty cl) \<noteq> []"
    by (rule Populate_ok[OF assms]) (rule that)
  note pm = Populate_marks[OF assms p(1)]
  show thesis
  proof (cases "L1 (CflNonempty cl) = []")
    case True
    have "FetchFromSpans cl st1 = Some (0, st1)" by (rule fetch_empty[OF p(2) assms(2) True])
    then show thesis using that[of 0 st1 L1 C1] e p pm True counter_zero[OF p(2) assms(2) True] by (simp add: FetchFromSpansSafe_def)
  next
    case False
    obtain x L' C' st' where f: "FetchFromSpans cl st1 = Some (x, st')" "x \<noteq> 0" "cinv L' C' T st'"
      "x \<notin> owned L1 C1 T st1 cl" "owned L' C' T st' = (owned L1 C1 T st1)(cl := insert x (owned L1 C1 T st1 cl))"
      "store st' = store st1" by (rule fetch_object[OF p(2) assms(2) False]) (rule that)
    then show thesis using that[of x st' L' C'] e p marks_kept_trans[OF pm FetchFromSpans_marks[OF p(2) assms(2) f(1)]]
      by (simp add: FetchFromSpansSafe_def keeps_words_def)
  qed
qed

text \<open>Clients may write to the objects they own.\<close>

lemma cinv_client_store:
  assumes "cinv L C T st" "\<And>y. (\<forall>c. \<forall>x \<in> owned L C T st c. y \<notin> {x..<x + osz c}) \<Longrightarrow> w' y = store st y"
  shows "cinv L C T (st\<lparr>store := w'\<rparr>)" "owned L C T (st\<lparr>store := w'\<rparr>) = owned L C T st"
proof -
  show "cinv L C T (st\<lparr>store := w'\<rparr>)"
  proof (rule cinv_store[OF assms(1)])
    fix c x
    assume c: "c \<in> classes" "x \<in> class_free L C c \<union> parked T c"
    have "class_free L C c \<subseteq> class_objs (mem (pheap st)) L c"
      unfolding class_free_def using chain_subset(1,2)[OF assms(1) c(1)] by blast
    then have co: "x \<in> class_objs (mem (pheap st)) L c" using cinvD(11)[OF assms(1) c(1)] c(2) by blast
    have "x \<notin> {z..<z + osz d}" if z: "z \<in> owned L C T st d" for d z
    proof
      assume i: "x \<in> {z..<z + osz d}"
      note Z = owned_facts[OF assms(1) z]
      have "x = z \<and> c = d" by (rule object_inside[OF assms(1) Z(1) c(1) Z(2) co i])
      then show False using owned_unused[OF assms(1) z c(1)] c(2) by blast
    qed
    then show "w' x = store st x" by (intro assms(2)) blast
  qed
  show "owned L C T (st\<lparr>store := w'\<rparr>) = owned L C T st" by (simp add: owned_def fun_eq_iff)
qed

lemma fetch_more_ok:
  assumes "cinv L C T st" "cl \<in> classes" "sll (store st) head hs" "set hs \<subseteq> owned L C T st cl"
  shows "\<exists>ys head' L' C' st'. fetch_more cl k head n st = Some (head', n + int (length ys), st') \<and> length ys \<le> k
    \<and> cinv L' C' T st' \<and> sll (store st') head' (ys @ hs) \<and> set ys \<inter> owned L C T st cl = {}
    \<and> owned L' C' T st' = (owned L C T st)(cl := owned L C T st cl \<union> set ys)
    \<and> (\<forall>y. y \<notin> set ys \<longrightarrow> store st' y = store st y) \<and> (length ys < k \<longrightarrow> counter (central_cache st' cl) = 0)
    \<and> marks_kept st st'"
  using assms
proof (induction k arbitrary: L C st head hs n)
  case 0
  then show ?case by (intro exI[of _ "[]"] exI[of _ head] exI[of _ L] exI[of _ C] exI[of _ st]) auto
next
  case (Suc k)
  note pre = Suc.prems
  show ?case
  proof (cases "L (CflNonempty cl) = []")
    case True
    then show ?thesis using fetch_empty[OF pre(1,2) True] counter_zero[OF pre(1,2) True] pre
      by (intro exI[of _ "[]"] exI[of _ head] exI[of _ L] exI[of _ C] exI[of _ st]) auto
  next
    case False
    obtain x L1 C1 st1 where f: "FetchFromSpans cl st = Some (x, st1)" "x \<noteq> 0" "cinv L1 C1 T st1"
      "x \<notin> owned L C T st cl" "owned L1 C1 T st1 = (owned L C T st)(cl := insert x (owned L C T st cl))"
      "store st1 = store st" by (rule fetch_object[OF pre(1,2) False]) (rule that)
    have x: "x \<notin> set hs" using f(4) pre(4) by blast
    define st2 where "st2 = st1\<lparr>store := (store st)(x := head)\<rparr>"
    have push: "SLL_Push head x (store st1) = Some (x, store st2)" "sll (store st2) x (x # hs)"
      using SLL_Push_ok[OF pre(3) f(2) x] f(6) by (simp_all add: st2_def)
    have wr: "((store st)(x := head)) y = store st1 y" if "\<forall>c. \<forall>z \<in> owned L1 C1 T st1 c. y \<notin> {z..<z + osz c}" for y
      using bspec[OF spec[OF that, of cl], of x] f(5,6) class_facts(1)[OF pre(2)] by auto
    have c2: "cinv L1 C1 T st2" "owned L1 C1 T st2 = owned L1 C1 T st1"
      unfolding st2_def by (rule cinv_client_store[OF f(3) wr]; assumption)+
    have o2: "owned L1 C1 T st2 = (owned L C T st)(cl := insert x (owned L C T st cl))" using c2(2) f(5) by simp
    have "set (x # hs) \<subseteq> owned L1 C1 T st2 cl" using pre(4) by (auto simp: o2)
    from Suc.IH[OF c2(1) pre(2) push(2) this, of "n + 1"]
    obtain ys head' L' C' st' where I: "fetch_more cl k x (n + 1) st2 = Some (head', n + 1 + int (length ys), st')" "length ys \<le> k"
      "cinv L' C' T st'" "sll (store st') head' (ys @ x # hs)" "set ys \<inter> owned L1 C1 T st2 cl = {}"
      "owned L' C' T st' = (owned L1 C1 T st2)(cl := owned L1 C1 T st2 cl \<union> set ys)"
      "\<forall>y. y \<notin> set ys \<longrightarrow> store st' y = store st2 y" "length ys < k \<longrightarrow> counter (central_cache st' cl) = 0"
      "marks_kept st2 st'" by (elim exE conjE) (rule that)
    have "x \<in> owned L1 C1 T st1 cl" using f(5) by simp
    then have "marks_kept st1 st2" using marks_kept_write[OF f(3)] f(6) by (simp add: st2_def)
    then have "marks_kept st1 st'" using I(9) by (rule marks_kept_trans)
    then have mk: "marks_kept st st'" by (rule marks_kept_trans[OF FetchFromSpans_marks[OF pre(1,2) f(1)]])
    show ?thesis
    proof (intro exI conjI)
      have "st1\<lparr>store := store st2\<rparr> = st2" by (simp add: st2_def)
      then show "fetch_more cl (Suc k) head n st = Some (head', n + int (length (ys @ [x])), st')"
        using f(1,2) push(1) I(1) by (simp add: algebra_simps)
      show "owned L' C' T st' = (owned L C T st)(cl := owned L C T st cl \<union> set (ys @ [x]))"
        using I(6) o2 by (auto simp: fun_eq_iff)
    qed (use I o2 f(4) mk in \<open>auto simp: st2_def\<close>)
  qed
qed

section \<open>The transfer cache\<close>

lemma cinv_transfer:
  assumes "cinv L C T st" "t < kNumClasses" "tc_ok (store st) f t Ts" "t = 0 \<longrightarrow> Ts = []"
    and "distinct (concat Ts)" "set (concat Ts) \<subseteq> owned L C T st t \<union> parked T t"
    and "counter f = counter (central_cache st t)" "num_spans f = num_spans (central_cache st t)"
    and st': "st' = st\<lparr>central_cache := (central_cache st)(t := f)\<rparr>"
  shows "cinv L C (T(t := Ts)) st'"
    "owned L C (T(t := Ts)) st' = (owned L C T st)(t := (owned L C T st t \<union> parked T t) - set (concat Ts))"
proof -
  note D = cinvD[OF assms(1)]
  have all: "owned L C T st t \<union> parked T t = class_objs (mem (pheap st)) L t - class_free L C t" if "t \<in> classes"
    using D(11)[OF that] that by (auto simp: owned_def)
  have "distinct (concat ((T(t := Ts)) c)) \<and> parked (T(t := Ts)) c \<subseteq> class_objs (mem (pheap st)) L c - class_free L C c"
    if "c \<in> classes" for c
    using D(10,11)[OF that] assms(5,6) all that by (cases "c = t") auto
  moreover have "tc_ok (store st) (central_cache st' c) c ((T(t := Ts)) c)" if "c < kNumClasses" for c
    using D(8)[OF that] assms(3) by (cases "c = t") (auto simp: st')
  moreover have "counter (central_cache st' c) = (\<Sum>p \<in> class_spans L c. length (C p)) mod two64
      \<and> num_spans (central_cache st' c) = card (class_spans L c) mod two64" if "c \<in> classes" for c
    using D(6,7)[OF that] assms(7,8) by (cases "c = t") (auto simp: st')
  ultimately show "cinv L C (T(t := Ts)) st'"
    using assms(1,4) D(9) unfolding cinv_def by (simp add: st')
  show "owned L C (T(t := Ts)) st' = (owned L C T st)(t := (owned L C T st t \<union> parked T t) - set (concat Ts))"
  proof
    fix c
    show "owned L C (T(t := Ts)) st' c = ((owned L C T st)(t := (owned L C T st t \<union> parked T t) - set (concat Ts))) c"
    proof (cases "c = t")
      case False
      then show ?thesis by (simp add: owned_def st')
    next
      case True
      show ?thesis
      proof (cases "t \<in> classes")
        case True
        then show ?thesis using all[OF True] \<open>c = t\<close> by (simp add: owned_def st')
      next
        case False
        then have "t = 0" using assms(2) by simp
        then show ?thesis using \<open>c = t\<close> D(9) by (simp add: owned_def)
      qed
    qed
  qed
qed

lemma tc_ok_last:
  assumes "tc_ok w f cl Ts" "0 < used_slots f"
  obtains xs where "Ts = butlast Ts @ [xs]" "nat (used_slots f - 1) = length (butlast Ts)"
    "sll w (fst (tc_slots f (nat (used_slots f - 1)))) xs" "snd (tc_slots f (nat (used_slots f - 1))) = last xs"
    "length xs = batch cl"
    "\<And>n. used_slots f - 1 \<le> n \<Longrightarrow> n \<le> cache_size f \<Longrightarrow>
       tc_ok w (f\<lparr>cache_size := n, used_slots := used_slots f - 1\<rparr>) cl (butlast Ts)"
proof -
  note K = assms(1)[unfolded tc_ok_def]
  have ne: "Ts \<noteq> []" using K assms(2) by auto
  define xs where "xs = last Ts"
  have l: "nat (used_slots f - 1) = length Ts - 1" "length Ts - 1 < length Ts" using K ne by auto
  have x: "Ts ! (length Ts - 1) = xs" using ne by (simp add: xs_def last_conv_nth)
  have e: "sll w (fst (tc_slots f (length Ts - 1))) xs" "length xs = batch cl" "snd (tc_slots f (length Ts - 1)) = last xs"
    using K l(2) x by auto
  have li: "int (length Ts - Suc 0) = int (length Ts) - 1" using ne by (cases Ts) auto
  have "tc_ok w (f\<lparr>cache_size := n, used_slots := used_slots f - 1\<rparr>) cl (butlast Ts)"
    if "used_slots f - 1 \<le> n" "n \<le> cache_size f" for n
    unfolding tc_ok_def using K that ne by (auto simp: nth_butlast li)
  then show thesis using that[of xs] ne e l(1) by (simp add: xs_def)
qed

lemma RemoveRange_ok:
  assumes "cinv L C T st" "cl \<in> classes" "0 < N" "2 \<le> room (pheap st)" "0 < trace_room (pheap st)"
  obtains xs s e L' C' T' st' where "RemoveRange env cl N st = Some (int (length xs), s, e, st')" "int (length xs) \<le> N"
    "cinv L' C' T' st'" "sll (store st') s xs" "xs \<noteq> [] \<Longrightarrow> e = last xs" "set xs \<inter> owned L C T st cl = {}"
    "owned L' C' T' st' = (owned L C T st)(cl := owned L C T st cl \<union> set xs)" "keeps_words (owned L C T st) st st'"
    "int (length xs) < N \<Longrightarrow> counter (central_cache st' cl) = 0"
    "xs = [] \<Longrightarrow> \<exists>h. New env (npg cl) (pheap st) = Some (None, h)" "marks_kept st st'"
proof (cases "N = int (num_objects_to_move (smap st) cl) \<and> used_slots (central_cache st cl) > 0")
  case True
  note D = cinvD[OF assms(1)]
  define f where "f = central_cache st cl"
  have k: "cl < kNumClasses" "cl \<noteq> 0" using assms(2) by auto
  have tc: "tc_ok (store st) f cl (T cl)" "0 < used_slots f" using D(8)[OF k(1)] True by (simp_all add: f_def)
  obtain xs where x: "T cl = butlast (T cl) @ [xs]" "nat (used_slots f - 1) = length (butlast (T cl))"
    "sll (store st) (fst (tc_slots f (nat (used_slots f - 1)))) xs" "snd (tc_slots f (nat (used_slots f - 1))) = last xs"
    "length xs = batch cl"
    "\<And>n. used_slots f - 1 \<le> n \<Longrightarrow> n \<le> cache_size f \<Longrightarrow>
       tc_ok (store st) (f\<lparr>cache_size := n, used_slots := used_slots f - 1\<rparr>) cl (butlast (T cl))"
    by (rule tc_ok_last[OF tc]) (rule that)
  define f' where "f' = f\<lparr>used_slots := used_slots f - 1\<rparr>"
  define st' where "st' = st\<lparr>central_cache := (central_cache st)(cl := f')\<rparr>"
  have "tc_ok (store st) (f\<lparr>cache_size := cache_size f, used_slots := used_slots f - 1\<rparr>) cl (butlast (T cl))"
  proof (rule x(6))
    show "used_slots f - 1 \<le> cache_size f" using tc(1) unfolding tc_ok_def by linarith
  qed (rule order_refl)
  then have tc': "tc_ok (store st) f' cl (butlast (T cl))" by (simp add: f'_def)
  have cc: "concat (T cl) = concat (butlast (T cl)) @ xs" by (rule trans[OF arg_cong[OF x(1), of concat]]) simp
  then have d: "distinct (concat (butlast (T cl)))" "set xs \<inter> set (concat (butlast (T cl))) = {}"
    "set (concat (butlast (T cl))) \<subseteq> owned L C T st cl \<union> parked T cl"
    using D(10)[OF assms(2)] by auto
  have f': "counter f' = counter (central_cache st cl)" "num_spans f' = num_spans (central_cache st cl)" by (simp_all add: f'_def f_def)
  have z: "cl = 0 \<longrightarrow> butlast (T cl) = []" using k(2) by blast
  note K = cinv_transfer[OF assms(1) k(1) tc' z d(1,3) f' st'_def]
  have run: "RemoveRange env cl N st = Some (int (length xs), fst (tc_slots f (nat (used_slots f - 1))), last xs, st')"
    using True assms(3) x(4,5) D(1) assms(2) sizemap_facts(1)[OF assms(2)]
    by (simp add: RemoveRange_def Let_def f_def set_cfl_def st'_def f'_def)
  have off: "set xs \<inter> owned L C T st cl = {}" "set (concat (butlast (T cl))) \<inter> owned L C T st cl = {}"
    using assms(2) cc by (auto simp: owned_def)
  have "(owned L C T st cl \<union> parked T cl) - set (concat (butlast (T cl))) = owned L C T st cl \<union> set xs"
    using d(2) off(2) unfolding cc by auto
  then have ow: "owned L C (T(cl := butlast (T cl))) st' = (owned L C T st)(cl := owned L C T st cl \<union> set xs)" using K(2) by simp
  have n: "int (length xs) = N" "xs \<noteq> []" using True x(5) D(1) sizemap_facts(1)[OF assms(2)] class_facts(5)[OF assms(2)] by auto
  show thesis by (rule that[OF run _ K(1) _ _ off(1) ow]) (use x(3) n in \<open>simp_all add: st'_def keeps_words_def\<close>)
next
  case False
  obtain x L1 C1 st1 where s: "FetchFromSpansSafe env cl st = Some (x, st1)" "cinv L1 C1 T st1"
    "keeps_words (owned L C T st) st st1" "x = 0 \<Longrightarrow> owned L1 C1 T st1 = owned L C T st"
    "x \<noteq> 0 \<Longrightarrow> x \<notin> owned L C T st cl \<and> owned L1 C1 T st1 = (owned L C T st)(cl := insert x (owned L C T st cl))"
    "x = 0 \<Longrightarrow> (\<exists>h. New env (npg cl) (pheap st) = Some (None, h)) \<and> counter (central_cache st1 cl) = 0" "marks_kept st st1"
    by (rule FetchFromSpansSafe_ok[OF assms(1,2,4,5)]) (rule that)
  show thesis
  proof (cases "x = 0")
    case True
    have "RemoveRange env cl N st = Some (int (length []), 0, 0, st1)"
      unfolding RemoveRange_def if_not_P[OF False] using assms(3) s(1) True by simp
    then show thesis using that[of "[]" 0 0 st1 L1 C1 T] assms(3) s(2,3,7) s(4,6)[OF True] by simp
  next
    case x: False
    note o1 = s(5)[OF x]
    define st2 where "st2 = st1\<lparr>store := (store st1)(x := 0)\<rparr>"
    have wr: "((store st1)(x := 0)) y = store st1 y" if "\<forall>c. \<forall>z \<in> owned L1 C1 T st1 c. y \<notin> {z..<z + osz c}" for y
      using bspec[OF spec[OF that, of cl], of x] o1 class_facts(1)[OF assms(2)] by auto
    have c2: "cinv L1 C1 T st2" "owned L1 C1 T st2 = owned L1 C1 T st1"
      unfolding st2_def by (rule cinv_client_store[OF s(2) wr]; assumption)+
    have l: "sll (store st2) x [x]" "set [x] \<subseteq> owned L1 C1 T st2 cl" using x o1 c2(2) by (simp_all add: st2_def)
    obtain ys head' L' C' st' where I: "fetch_more cl (nat (N - 1)) x 1 st2 = Some (head', 1 + int (length ys), st')"
      "length ys \<le> nat (N - 1)" "cinv L' C' T st'" "sll (store st') head' (ys @ [x])" "set ys \<inter> owned L1 C1 T st2 cl = {}"
      "owned L' C' T st' = (owned L1 C1 T st2)(cl := owned L1 C1 T st2 cl \<union> set ys)"
      "\<forall>y. y \<notin> set ys \<longrightarrow> store st' y = store st2 y" "length ys < nat (N - 1) \<longrightarrow> counter (central_cache st' cl) = 0"
      "marks_kept st2 st'" using fetch_more_ok[OF c2(1) assms(2) l, of "nat (N - 1)" 1] by (elim exE conjE) (rule that)
    have run: "RemoveRange env cl N st = Some (int (length (ys @ [x])), head', x, st')"
      unfolding RemoveRange_def if_not_P[OF False] using assms(3) s(1) x I(1)
      by (simp add: SLL_SetNext_def st2_def algebra_simps)
    have n: "int (length (ys @ [x])) \<le> N" using I(2) assms(3) by simp
    have off: "set (ys @ [x]) \<inter> owned L C T st cl = {}" using I(5) o1 c2(2) by auto
    have ow: "owned L' C' T st' = (owned L C T st)(cl := owned L C T st cl \<union> set (ys @ [x]))"
      using I(6) o1 c2(2) by (auto simp: fun_eq_iff)
    have "store st' y = store st y" if "x0 \<in> owned L C T st c" "y \<in> {x0..<x0 + osz c}" for c x0 y
    proof -
      have c: "c \<in> classes" by (rule owned_facts(1)[OF assms(1) that(1)])
      have o: "x0 \<in> owned L' C' T st' c" using that(1) unfolding ow by (cases "c = cl") simp_all
      have "y \<notin> set (ys @ [x])"
      proof
        assume y: "y \<in> set (ys @ [x])"
        then have "y \<in> owned L' C' T st' cl" unfolding ow by auto
        then have "y = x0 \<and> cl = c"
          using object_inside[OF I(3) c assms(2) owned_facts(2)[OF I(3) o] owned_facts(2)[OF I(3)] that(2)] by blast
        then show False using y off that(1) by blast
      qed
      then show ?thesis using I(7) s(3) that by (simp add: st2_def keeps_words_def)
    qed
    then have kw: "keeps_words (owned L C T st) st st'" by (simp add: keeps_words_def)
    have "x \<in> owned L1 C1 T st1 cl" using o1 by simp
    then have "marks_kept st1 st2" using marks_kept_write[OF s(2)] by (simp add: st2_def)
    then have "marks_kept st1 st'" using I(9) by (rule marks_kept_trans)
    then have mk: "marks_kept st st'" by (rule marks_kept_trans[OF s(7)])
    show thesis by (rule that[OF run n I(3,4) _ off ow kw _ _ mk]) (use I(8) in auto)
  qed
qed

section \<open>Returning\<close>

lemma ReleaseListToSpans_ok:
  assumes "cinv L C T st" "sll (store st) s xs" "set xs \<subseteq> owned L C T st cl"
  shows "\<exists>L' C' st'. ReleaseListToSpans env cl s st = Some st' \<and> cinv L' C' T st'
    \<and> owned L' C' T st' = (owned L C T st)(cl := owned L C T st cl - set xs) \<and> (\<forall>y. y \<notin> set xs \<longrightarrow> store st' y = store st y)
    \<and> marks_kept st st'"
  using assms
proof (induction xs arbitrary: L C st s)
  case Nil
  then show ?case by (intro exI[of _ L] exI[of _ C] exI[of _ st]) (simp add: ReleaseListToSpans.simps)
next
  case (Cons x xs)
  have s: "s = x" "x \<noteq> 0" "sll (store st) (store st x) xs" using Cons.prems(2) by simp_all
  have d: "x \<notin> set xs" using sll_distinct[OF Cons.prems(2)] by simp
  have o: "x \<in> owned L C T st cl" using Cons.prems(3) by simp
  obtain L1 C1 st1 where r: "ReleaseToSpans env cl x st = Some st1" "cinv L1 C1 T st1"
    "owned L1 C1 T st1 = (owned L C T st)(cl := owned L C T st cl - {x})" "\<And>y. y \<noteq> x \<Longrightarrow> store st1 y = store st y"
    by (rule ReleaseToSpans_ok[OF Cons.prems(1) o]) (rule that)
  have "\<forall>y \<in> set xs. store st1 y = store st y"
  proof
    show "store st1 y = store st y" if "y \<in> set xs" for y by (rule r(4)) (use that d in blast)
  qed
  then have l: "sll (store st1) (store st x) xs" using s(3) seg_cong by metis
  have "set xs \<subseteq> owned L1 C1 T st1 cl" using Cons.prems(3) r(3) d by auto
  from Cons.IH[OF r(2) l this]
  obtain L' C' st' where I: "ReleaseListToSpans env cl (store st x) st1 = Some st'" "cinv L' C' T st'"
    "owned L' C' T st' = (owned L1 C1 T st1)(cl := owned L1 C1 T st1 cl - set xs)" "\<forall>y. y \<notin> set xs \<longrightarrow> store st' y = store st1 y"
    "marks_kept st1 st'" by (elim exE conjE) (rule that)
  have "marks_kept st st'" by (rule marks_kept_trans[OF ReleaseToSpans_marks[OF Cons.prems(1) o r(1)] I(5)])
  moreover have "ReleaseListToSpans env cl s st = Some st'"
    using s(1,2) r(1) I(1) by (subst ReleaseListToSpans.simps) (simp add: SLL_Next_def)
  moreover have "owned L' C' T st' = (owned L C T st)(cl := owned L C T st cl - set (x # xs))"
  proof -
    have "owned L C T st cl - {x} - set xs = owned L C T st cl - set (x # xs)" by auto
    then show ?thesis using I(3) r(3) by (simp only: fun_upd_same fun_upd_upd)
  qed
  moreover have "\<forall>y. y \<notin> set (x # xs) \<longrightarrow> store st' y = store st y" using I(4) r(4) by simp
  ultimately show ?case using I(2) by blast
qed

lemma ShrinkCache_ok:
  assumes "cinv L C T st" "t < kNumClasses"
  obtains b L' C' T' st' where "ShrinkCache env t force st = Some (b, st')" "cinv L' C' T' st'"
    "owned L' C' T' st' = owned L C T st" "keeps_words (owned L C T st) st st'" "\<And>c. c \<noteq> t \<Longrightarrow> T' c = T c" "marks_kept st st'"
proof -
  note D = cinvD[OF assms(1)]
  define f where "f = central_cache st t"
  have tc: "tc_ok (store st) f t (T t)" using D(8)[OF assms(2)] by (simp add: f_def)
  have bd: "0 \<le> used_slots f" "used_slots f \<le> cache_size f" using tc by (simp_all add: tc_ok_def)
  consider "cache_size f = 0 \<or> \<not> force \<and> used_slots f = cache_size f" | "cache_size f \<noteq> 0" "used_slots f < cache_size f"
    | "cache_size f \<noteq> 0" "force" "used_slots f = cache_size f" using bd by linarith
  then show thesis
  proof cases
    case 1
    then have "ShrinkCache env t force st = Some (False, st)" by (auto simp: ShrinkCache_def Let_def f_def)
    then show thesis using that[of False st L C T] assms(1) by simp
  next
    case 2
    define f' where "f' = f\<lparr>cache_size := cache_size f - 1\<rparr>"
    define st' where "st' = st\<lparr>central_cache := (central_cache st)(t := f')\<rparr>"
    have tc': "tc_ok (store st) f' t (T t)" using tc 2(2) by (auto simp: tc_ok_def f'_def)
    have z: "t = 0 \<longrightarrow> T t = []" using D(9) by simp
    have d: "distinct (concat (T t))"
      using D(10)[of t] D(9) assms(2) by (cases "t = 0") auto
    have f': "counter f' = counter (central_cache st t)" "num_spans f' = num_spans (central_cache st t)" by (simp_all add: f'_def f_def)
    note K = cinv_transfer[OF assms(1,2) tc' z d _ f' st'_def]
    have "ShrinkCache env t force st = Some (True, st')"
      using 2 bd by (auto simp: ShrinkCache_def Let_def f_def set_cfl_def st'_def f'_def)
    moreover have "parked T t \<inter> owned L C T st t = {}" by (auto simp: owned_def)
    then have "(owned L C T st t \<union> parked T t) - set (concat (T t)) = owned L C T st t" by auto
    then have "cinv L C T st'" "owned L C T st' = owned L C T st" using K by simp_all
    ultimately show thesis using that[of True st' L C T] by (simp add: st'_def keeps_words_def)
  next
    case 3
    have tc1: "0 < used_slots f" using 3 bd by linarith
    obtain xs where x: "T t = butlast (T t) @ [xs]" "nat (used_slots f - 1) = length (butlast (T t))"
      "sll (store st) (fst (tc_slots f (nat (used_slots f - 1)))) xs"
      "\<And>n. used_slots f - 1 \<le> n \<Longrightarrow> n \<le> cache_size f \<Longrightarrow>
         tc_ok (store st) (f\<lparr>cache_size := n, used_slots := used_slots f - 1\<rparr>) t (butlast (T t))"
      by (rule tc_ok_last[OF tc tc1]) (rule that)
    have "T t \<noteq> []" by (subst x(1)) simp
    then have t0: "t \<noteq> 0" using D(9) by metis
    then have cl: "t \<in> classes" using assms(2) by simp
    define f' where "f' = f\<lparr>cache_size := cache_size f - 1, used_slots := used_slots f - 1\<rparr>"
    define st1 where "st1 = st\<lparr>central_cache := (central_cache st)(t := f')\<rparr>"
    have tc': "tc_ok (store st) f' t (butlast (T t))"
      unfolding f'_def by (rule x(4)) (use 3(3) in linarith)+
    have cc: "concat (T t) = concat (butlast (T t)) @ xs" by (rule trans[OF arg_cong[OF x(1), of concat]]) simp
    then have d: "distinct (concat (butlast (T t)))" "set xs \<inter> set (concat (butlast (T t))) = {}"
      "set (concat (butlast (T t))) \<subseteq> owned L C T st t \<union> parked T t"
      using D(10)[OF cl] by auto
    have f': "counter f' = counter (central_cache st t)" "num_spans f' = num_spans (central_cache st t)" by (simp_all add: f'_def f_def)
    have z: "t = 0 \<longrightarrow> butlast (T t) = []" using t0 by blast
    note K = cinv_transfer[OF assms(1,2) tc' z d(1,3) f' st1_def]
    have off: "set xs \<inter> owned L C T st t = {}" "set (concat (butlast (T t))) \<inter> owned L C T st t = {}"
      using cl cc by (auto simp: owned_def)
    have "(owned L C T st t \<union> parked T t) - set (concat (butlast (T t))) = owned L C T st t \<union> set xs"
      using d(2) off(2) unfolding cc by auto
    then have ow: "owned L C (T(t := butlast (T t))) st1 = (owned L C T st)(t := owned L C T st t \<union> set xs)" using K(2) by simp
    have l1: "sll (store st1) (fst (tc_slots f (nat (used_slots f - 1)))) xs" using x(3) by (simp add: st1_def)
    have sub: "set xs \<subseteq> owned L C (T(t := butlast (T t))) st1 t" using ow by auto
    obtain L' C' st' where r: "ReleaseListToSpans env t (fst (tc_slots f (nat (used_slots f - 1)))) st1 = Some st'"
      "cinv L' C' (T(t := butlast (T t))) st'"
      "owned L' C' (T(t := butlast (T t))) st' = (owned L C (T(t := butlast (T t))) st1)(t := owned L C (T(t := butlast (T t))) st1 t - set xs)"
      "\<forall>y. y \<notin> set xs \<longrightarrow> store st' y = store st1 y" "marks_kept st1 st'"
      using ReleaseListToSpans_ok[OF K(1) l1 sub, of env] by (elim exE conjE) (rule that)
    have mk: "marks_kept st st'" using r(5) by (simp add: st1_def)
    have run: "ShrinkCache env t force st = Some (True, st')"
      using 3 bd r(1) by (simp add: ShrinkCache_def Let_def f_def[symmetric] set_cfl_def st1_def f'_def)
    have ow': "owned L' C' (T(t := butlast (T t))) st' = owned L C T st" using r(3) ow off(1) by (auto simp: fun_eq_iff)
    have "y \<notin> set xs" if "x0 \<in> owned L C T st c" "y \<in> {x0..<x0 + osz c}" for c x0 y
    proof
      assume "y \<in> set xs"
      then have y: "y \<in> parked T t" "y \<in> class_objs (mem (pheap st)) L t" using cc D(11)[OF cl] by auto
      note X = owned_facts[OF assms(1) that(1)]
      have "y = x0 \<and> t = c" by (rule object_inside[OF assms(1) X(1) cl X(2) y(2) that(2)])
      then show False using owned_unused(2)[OF assms(1) that(1) cl] y(1) by simp
    qed
    then have "keeps_words (owned L C T st) st st'" using r(4) by (auto simp: keeps_words_def st1_def)
    then show thesis using that[OF run r(2) ow'] mk by simp
  qed
qed

lemma cinv_race [simp]: "cinv L C T (st\<lparr>race_counter := n\<rparr>) = cinv L C T st" "owned L C T (st\<lparr>race_counter := n\<rparr>) = owned L C T st"
  by (simp_all add: cinv_def owned_def fun_eq_iff)

lemma keeps_words_race [simp]: "keeps_words O1 (st\<lparr>race_counter := n\<rparr>) st' = keeps_words O1 st st'"
  by (simp add: keeps_words_def)

lemma EvictRandomSizeClass_ok:
  assumes "cinv L C T st"
  obtains b L' C' T' st' where "EvictRandomSizeClass env cl force st = Some (b, st')" "cinv L' C' T' st'"
    "owned L' C' T' st' = owned L C T st" "keeps_words (owned L C T st) st st'" "T' cl = T cl" "marks_kept st st'"
proof -
  define t where "t = race_counter st mod kNumClasses"
  define st1 where "st1 = st\<lparr>race_counter := (if race_counter st \<ge> kNumClasses then t else race_counter st + 1)\<rparr>"
  have c1: "cinv L C T st1" "owned L C T st1 = owned L C T st" "store st1 = store st" using assms by (simp_all add: st1_def)
  have tk: "t < kNumClasses" by (simp add: t_def)
  have e: "EvictRandomSizeClass env cl force st = (if t = cl then Some (False, st1) else ShrinkCache env t force st1)"
    by (auto simp: EvictRandomSizeClass_def Let_def t_def st1_def)
  show thesis
  proof (cases "t = cl")
    case True
    show thesis by (rule that[of False st1 L C T]) (use True e c1 in \<open>simp_all add: keeps_words_def st1_def\<close>)
  next
    case False
    obtain b L' C' T' st' where s: "ShrinkCache env t force st1 = Some (b, st')" "cinv L' C' T' st'"
      "owned L' C' T' st' = owned L C T st1" "keeps_words (owned L C T st1) st1 st'" "\<And>c. c \<noteq> t \<Longrightarrow> T' c = T c"
      "marks_kept st1 st'" by (rule ShrinkCache_ok[OF c1(1) tk]) (rule that)
    have "marks_kept st st'" using s(6) by (simp add: st1_def)
    then show thesis by (rule that[of b st' L' C' T', rotated -1]) (use False e s c1 in \<open>simp_all add: keeps_words_def\<close>)
  qed
qed

lemma MakeCacheSpace_ok:
  assumes "cinv L C T st" "cl \<in> classes"
  obtains b L' C' T' st' where "MakeCacheSpace env cl st = Some (b, st')" "cinv L' C' T' st'"
    "owned L' C' T' st' = owned L C T st" "keeps_words (owned L C T st) st st'" "T' cl = T cl"
    "b \<Longrightarrow> used_slots (central_cache st' cl) < cache_size (central_cache st' cl)" "marks_kept st st'"
proof -
  let ?f = "central_cache st cl"
  consider "used_slots ?f < cache_size ?f" | "\<not> used_slots ?f < cache_size ?f" "cache_size ?f = max_cache_size ?f"
    | "\<not> used_slots ?f < cache_size ?f" "cache_size ?f \<noteq> max_cache_size ?f" by blast
  then show thesis
  proof cases
    case 1
    show thesis by (rule that[of True st L C T]) (use 1 assms in \<open>simp_all add: MakeCacheSpace_def\<close>)
  next
    case 2
    show thesis by (rule that[of False st L C T]) (use 2 assms in \<open>simp_all add: MakeCacheSpace_def\<close>)
  next
    case 3
    obtain b1 L1 C1 T1 st1 where e1: "EvictRandomSizeClass env cl False st = Some (b1, st1)" "cinv L1 C1 T1 st1"
      "owned L1 C1 T1 st1 = owned L C T st" "keeps_words (owned L C T st) st st1" "T1 cl = T cl" "marks_kept st st1"
      by (rule EvictRandomSizeClass_ok[OF assms(1)]) (rule that)
    obtain b2 L2 C2 T2 st2 where e2: "(if b1 then Some (True, st1) else EvictRandomSizeClass env cl True st1) = Some (b2, st2)"
      "cinv L2 C2 T2 st2" "owned L2 C2 T2 st2 = owned L C T st" "keeps_words (owned L C T st) st st2" "T2 cl = T cl"
      "marks_kept st st2"
    proof (cases b1)
      case True
      show thesis by (rule that[of True st1 L1 C1 T1]) (use True e1 in simp_all)
    next
      case False
      obtain b2 L2 C2 T2 st2 where x: "EvictRandomSizeClass env cl True st1 = Some (b2, st2)" "cinv L2 C2 T2 st2"
        "owned L2 C2 T2 st2 = owned L1 C1 T1 st1" "keeps_words (owned L1 C1 T1 st1) st1 st2" "T2 cl = T1 cl"
        "marks_kept st1 st2" by (rule EvictRandomSizeClass_ok[OF e1(2)]) (rule that)
      show thesis by (rule that[of b2 st2 L2 C2 T2]) (use False x e1 keeps_words_trans marks_kept_trans in auto)
    qed
    have m: "MakeCacheSpace env cl st = (if b2 \<and> cache_size (central_cache st2 cl) < max_cache_size (central_cache st2 cl)
        then Some (True, set_cfl cl (\<lambda>f. f\<lparr>cache_size := cache_size f + 1\<rparr>) st2) else Some (False, st2))"
      using 3 e1(1) e2(1) unfolding MakeCacheSpace_def by simp
    show thesis
    proof (cases "b2 \<and> cache_size (central_cache st2 cl) < max_cache_size (central_cache st2 cl)")
      case False
      show thesis by (rule that[of False st2 L2 C2 T2]) (use m False e2 in auto)
    next
      case True
      have k: "cl < kNumClasses" "cl \<noteq> 0" using assms(2) by auto
      define f' where "f' = (central_cache st2 cl)\<lparr>cache_size := cache_size (central_cache st2 cl) + 1\<rparr>"
      define st' where "st' = st2\<lparr>central_cache := (central_cache st2)(cl := f')\<rparr>"
      note tc = cinvD(8)[OF e2(2) k(1)]
      have tc': "tc_ok (store st2) f' cl (T2 cl)" using tc True by (auto simp: tc_ok_def f'_def)
      have f': "counter f' = counter (central_cache st2 cl)" "num_spans f' = num_spans (central_cache st2 cl)" by (simp_all add: f'_def)
      have z: "cl = 0 \<longrightarrow> T2 cl = []" using k(2) by simp
      note K = cinv_transfer[OF e2(2) k(1) tc' z cinvD(10)[OF e2(2) assms(2)] Un_upper2 f' st'_def]
      have "parked T2 cl \<inter> owned L2 C2 T2 st2 cl = {}" by (auto simp: owned_def)
      then have "owned L2 C2 T2 st2 cl \<union> parked T2 cl - set (concat (T2 cl)) = owned L2 C2 T2 st2 cl" by auto
      then have c': "cinv L2 C2 T2 st'" "owned L2 C2 T2 st' = owned L C T st" using K e2(3) by simp_all
      show thesis
      proof (rule that[OF _ c'])
        show "MakeCacheSpace env cl st = Some (True, st')" using m True by (simp add: set_cfl_def st'_def f'_def)
        show "used_slots (central_cache st' cl) < cache_size (central_cache st' cl)"
          using tc by (simp add: st'_def f'_def tc_ok_def)
      qed (use e2 in \<open>simp_all add: st'_def keeps_words_def\<close>)
    qed
  qed
qed

lemma InsertRange_ok:
  assumes "cinv L C T st" "cl \<in> classes" "sll (store st) s xs" "e = last xs" "set xs \<subseteq> owned L C T st cl"
  shows "\<exists>L' C' T' st'. InsertRange env cl s e (int (length xs)) st = Some st' \<and> cinv L' C' T' st'
    \<and> owned L' C' T' st' = (owned L C T st)(cl := owned L C T st cl - set xs)
    \<and> keeps_words ((owned L C T st)(cl := owned L C T st cl - set xs)) st st' \<and> marks_kept st st'"
proof -
  let ?N = "int (length xs)"
  have k: "cl < kNumClasses" "cl \<noteq> 0" using assms(2) by auto
  obtain b L1 C1 T1 st1 where s: "(if ?N = int (num_objects_to_move (smap st) cl) then MakeCacheSpace env cl st else Some (False, st)) = Some (b, st1)"
    "cinv L1 C1 T1 st1" "owned L1 C1 T1 st1 = owned L C T st" "keeps_words (owned L C T st) st st1"
    "b \<Longrightarrow> used_slots (central_cache st1 cl) < cache_size (central_cache st1 cl) \<and> length xs = batch cl" "marks_kept st st1"
  proof (cases "?N = int (num_objects_to_move (smap st) cl)")
    case False
    show thesis by (rule that[of False st L C T]) (use False assms(1) in simp_all)
  next
    case True
    have n: "length xs = batch cl" using True cinvD(1)[OF assms(1)] sizemap_facts(1)[OF assms(2)] by simp
    obtain b L1 C1 T1 st1 where m: "MakeCacheSpace env cl st = Some (b, st1)" "cinv L1 C1 T1 st1"
      "owned L1 C1 T1 st1 = owned L C T st" "keeps_words (owned L C T st) st st1"
      "b \<Longrightarrow> used_slots (central_cache st1 cl) < cache_size (central_cache st1 cl)" "marks_kept st st1"
      by (rule MakeCacheSpace_ok[OF assms(1,2)]) (rule that)
    show thesis by (rule that[of b st1 L1 C1 T1]) (use True m n in simp_all)
  qed
  have "store st1 x = store st x" if "x \<in> set xs" for x
    using s(4) assms(5) that class_facts(1)[OF assms(2)] unfolding keeps_words_def by (elim allE[of _ cl] ballE[of _ _ x] ballE[of _ _ x]) auto
  then have l: "sll (store st1) s xs" using assms(3) seg_cong[of xs "store st1" "store st"] by blast
  have sub: "set xs \<subseteq> owned L1 C1 T1 st1 cl" using assms(5) s(3) by simp
  show ?thesis
  proof (cases b)
    case False
    obtain L' C' st' where r: "ReleaseListToSpans env cl s st1 = Some st'" "cinv L' C' T1 st'"
      "owned L' C' T1 st' = (owned L1 C1 T1 st1)(cl := owned L1 C1 T1 st1 cl - set xs)" "\<forall>y. y \<notin> set xs \<longrightarrow> store st' y = store st1 y"
      "marks_kept st1 st'" using ReleaseListToSpans_ok[OF s(2) l sub, of env] by (elim exE conjE) (rule that)
    show ?thesis
    proof (intro exI conjI)
      show "InsertRange env cl s e ?N st = Some st'" using s(1) False r(1) unfolding InsertRange_def by simp
      have "y \<notin> set xs" if "x \<in> ((owned L C T st)(cl := owned L C T st cl - set xs)) c" "y \<in> {x..<x + osz c}" for c x y
      proof
        assume y: "y \<in> set xs"
        have x: "x \<in> owned L C T st c" using that(1) by (auto split: if_splits)
        have "y = x \<and> cl = c"
          using object_inside[OF assms(1) owned_facts(1)[OF assms(1) x] assms(2) owned_facts(2)[OF assms(1) x] owned_facts(2)[OF assms(1)] that(2)]
            y assms(5) by blast
        then show False using y that(1) by simp
      qed
      then show "keeps_words ((owned L C T st)(cl := owned L C T st cl - set xs)) st st'"
        using r(4) s(4) unfolding keeps_words_def by (auto split: if_splits)
      show "marks_kept st st'" by (rule marks_kept_trans[OF s(6) r(5)])
    qed (use r(2,3) s(3) in simp_all)
  next
    case True
    define f where "f = central_cache st1 cl"
    define f' where "f' = f\<lparr>used_slots := used_slots f + 1, tc_slots := (tc_slots f)(nat (used_slots f) := (s, e))\<rparr>"
    define st' where "st' = st1\<lparr>central_cache := (central_cache st1)(cl := f')\<rparr>"
    have tc: "tc_ok (store st1) f cl (T1 cl)" using cinvD(8)[OF s(2) k(1)] by (simp add: f_def)
    have u: "used_slots f < cache_size f" "length xs = batch cl" using s(5)[OF True] by (simp_all add: f_def)
    have lt: "nat (used_slots f) = length (T1 cl)" using tc by (simp add: tc_ok_def)
    have tc': "tc_ok (store st1) f' cl (T1 cl @ [xs])"
      using tc u l assms(4) unfolding tc_ok_def f'_def lt by (auto simp: nth_append less_Suc_eq)
    have f': "counter f' = counter (central_cache st1 cl)" "num_spans f' = num_spans (central_cache st1 cl)" by (simp_all add: f'_def f_def)
    have z: "cl = 0 \<longrightarrow> T1 cl @ [xs] = []" using k(2) by simp
    have dj: "set xs \<inter> parked T1 cl = {}" using owned_facts(4)[OF s(2)] sub by blast
    have d: "distinct (concat (T1 cl @ [xs]))" "set (concat (T1 cl @ [xs])) \<subseteq> owned L1 C1 T1 st1 cl \<union> parked T1 cl"
      using cinvD(10)[OF s(2) assms(2)] sll_distinct[OF l] dj sub by auto
    note K = cinv_transfer[OF s(2) k(1) tc' z d f' st'_def]
    have "parked T1 cl \<inter> owned L1 C1 T1 st1 cl = {}" by (auto simp: owned_def)
    then have ow: "(owned L1 C1 T1 st1 cl \<union> parked T1 cl) - set (concat (T1 cl @ [xs])) = owned L1 C1 T1 st1 cl - set xs" by auto
    show ?thesis
    proof (intro exI conjI)
      have "0 \<le> used_slots f" "used_slots f < max_cache_size f" using tc u(1) by (simp_all add: tc_ok_def)
      then show "InsertRange env cl s e ?N st = Some st'"
        using s(1) True unfolding InsertRange_def by (simp add: f_def set_cfl_def st'_def f'_def Let_def)
      show "cinv L1 C1 (T1(cl := T1 cl @ [xs])) st'" by (rule K(1))
      show "owned L1 C1 (T1(cl := T1 cl @ [xs])) st' = (owned L C T st)(cl := owned L C T st cl - set xs)"
        using K(2) ow s(3) by simp
      show "keeps_words ((owned L C T st)(cl := owned L C T st cl - set xs)) st st'"
        using s(4) unfolding keeps_words_def st'_def by (auto split: if_splits)
      show "marks_kept st st'" using s(6) by (simp add: st'_def)
    qed
  qed
qed

section \<open>Initialisation\<close>

text \<open>
  The loop of \<open>Static::InitStaticVars\<close> over the classes.  The code runs it before it constructs the page
  heap; the two touch different objects, and the heads of the central lists are zero until then.
\<close>

definition init_central :: "central \<Rightarrow> central option" where
  "init_central st = ofold cfl_Init [0..<kNumClasses] st"

lemma cfl_Init_ok:
  assumes "smap st = init_sizemap" "heap_ok (pheap st)" "cl < kNumClasses"
    "mem (pheap st) (CflEmpty cl) \<noteq> None" "mem (pheap st) (CflNonempty cl) \<noteq> None"
  obtains st' where "cfl_Init cl st = Some st'" "smap st' = smap st" "heap_ok (pheap st')" "spans (pheap st') = spans (pheap st)"
    "dll (mem (pheap st')) (CflEmpty cl) []" "dll (mem (pheap st')) (CflNonempty cl) []"
    "\<And>u. u \<noteq> CflEmpty cl \<Longrightarrow> u \<noteq> CflNonempty cl \<Longrightarrow> mem (pheap st') u = mem (pheap st) u"
    "counter (central_cache st' cl) = 0" "num_spans (central_cache st' cl) = 0"
    "tc_ok w (central_cache st' cl) cl []" "\<And>c. c \<noteq> cl \<Longrightarrow> central_cache st' c = central_cache st c"
    "\<exists>m. pheap st' = (pheap st)\<lparr>mem := m\<rparr>"
proof -
  let ?h = "pheap st"
  obtain m1 where m1: "DLL_Init (CflEmpty cl) (mem ?h) = Some m1" "dll m1 (CflEmpty cl) []" "shape m1 = shape (mem ?h)"
    "\<forall>u. u \<noteq> CflEmpty cl \<longrightarrow> m1 u = mem ?h u" using dll_Init[of "mem ?h" "CflEmpty cl"] assms(4) by blast
  have "m1 (CflNonempty cl) \<noteq> None" using m1(4) assms(5) by simp
  then obtain m2 where m2: "DLL_Init (CflNonempty cl) m1 = Some m2" "dll m2 (CflNonempty cl) []" "shape m2 = shape m1"
    "\<forall>u. u \<noteq> CflNonempty cl \<longrightarrow> m2 u = m1 u" using dll_Init[of m1 "CflNonempty cl"] by blast
  have d: "dll m2 (CflEmpty cl) []" using m1(2) m2(4) by (subst dll_cong[where m = m1]) (simp_all add: nxt_def prv_def)
  have sh: "shape m2 = shape (mem ?h)" using m1(3) m2(3) by simp
  have fr: "m2 u = mem ?h u" if "u \<notin> {CflEmpty cl, CflNonempty cl}" for u using that m1(4) m2(4) by simp
  note F = shape_frame[OF assms(2) sh fr, of "{CflEmpty cl, CflNonempty cl}"]
  have idl: "idle (spans ?h) u" if "u \<in> {CflEmpty cl, CflNonempty cl}" for u using that by (auto simp: idle_def heads_def)
  define bytes where "bytes = int (osz cl)"
  define n where "n = int (num_objects_to_move (smap st) cl)"
  define mx where "mx = (if cl > 0 then min 64 (max 1 (1048576 div (bytes * n))) else 64)"
  define ini where "ini = (if cl > 0 then min 16 mx else 16)"
  have pos: "n > 0 \<and> bytes > 0" if "cl > 0"
    using class_facts(1,5)[of cl] that assms(1,3) sizemap_facts(1)[of cl] by (simp add: n_def bytes_def)
  have b: "0 \<le> ini" "ini \<le> mx" "mx \<le> 64" by (auto simp: mx_def ini_def)
  define f where "f = (central_cache st cl)\<lparr>num_spans := 0, counter := 0, max_cache_size := mx, cache_size := ini, used_slots := 0\<rparr>"
  define st' where "st' = st\<lparr>pheap := ?h\<lparr>mem := m2\<rparr>, central_cache := (central_cache st)(cl := f)\<rparr>"
  have run: "cfl_Init cl st = Some st'"
  proof -
    have "on_lists_of (\<lambda>m. do { m \<leftarrow> DLL_Init (CflEmpty cl) m; DLL_Init (CflNonempty cl) m }) ?h = Some (?h\<lparr>mem := m2\<rparr>)"
      using m1(1) m2(1) by (simp add: on_lists_of_def)
    moreover have "min 16 (min 64 y) \<le> 64" "min 16 (min 64 y) \<le> y" for y :: int by auto
    ultimately show ?thesis
      using pos unfolding cfl_Init_def assms(1) sizemap_facts
      by (cases "cl = 0") (simp_all add: assms(1) bytes_def[symmetric] n_def[symmetric, unfolded assms(1)] Let_def mx_def ini_def
        set_cfl_def st'_def f_def)
  qed
  show thesis
  proof (rule that[OF run])
    show "heap_ok (pheap st')" using F(1) idl by (simp add: st'_def)
    show "spans (pheap st') = spans ?h" using F(2) idl by (simp add: st'_def)
    show "tc_ok w (central_cache st' cl) cl []" using b by (simp add: st'_def f_def tc_ok_def)
  qed (use d m2(2) fr in \<open>simp_all add: st'_def f_def\<close>)
qed

lemma ofold_append: "ofold f (xs @ ys) x = Option.bind (ofold f xs x) (ofold f ys)"
proof (induction xs arbitrary: x)
  case (Cons a xs)
  then show ?case by (cases "f a x") simp_all
qed simp

lemma init_central_ok:
  assumes "smap st = init_sizemap" "heap_ok (pheap st)" "\<forall>c. mem (pheap st) (CflEmpty c) \<noteq> None \<and> mem (pheap st) (CflNonempty c) \<noteq> None"
  shows "\<exists>st'. init_central st = Some st' \<and> central_ok st' (\<lambda>_. {}) \<and> spans (pheap st') = spans (pheap st)
    \<and> (\<exists>m. pheap st' = (pheap st)\<lparr>mem := m\<rparr>) \<and> smap st' = init_sizemap
    \<and> mem (pheap st') SampledObjects = mem (pheap st) SampledObjects"
proof -
  have loop: "\<exists>st'. ofold cfl_Init [0..<n] st = Some st' \<and> smap st' = init_sizemap \<and> heap_ok (pheap st') \<and> spans (pheap st') = spans (pheap st)
    \<and> (\<forall>c. mem (pheap st') (CflEmpty c) \<noteq> None \<and> mem (pheap st') (CflNonempty c) \<noteq> None)
    \<and> (\<forall>c < n. dll (mem (pheap st')) (CflEmpty c) [] \<and> dll (mem (pheap st')) (CflNonempty c) []
        \<and> counter (central_cache st' c) = 0 \<and> num_spans (central_cache st' c) = 0 \<and> tc_ok w (central_cache st' c) c [])
    \<and> (\<exists>m. pheap st' = (pheap st)\<lparr>mem := m\<rparr>) \<and> mem (pheap st') SampledObjects = mem (pheap st) SampledObjects" if "n \<le> kNumClasses" for n w
    using that
  proof (induction n)
    case 0
    have "\<exists>m. pheap st = (pheap st)\<lparr>mem := m\<rparr>" by (intro exI[of _ "mem (pheap st)"]) simp
    then show ?case using assms by simp
  next
    case (Suc n)
    then obtain st1 where s: "ofold cfl_Init [0..<n] st = Some st1" "smap st1 = init_sizemap" "heap_ok (pheap st1)" "spans (pheap st1) = spans (pheap st)"
      "\<forall>c. mem (pheap st1) (CflEmpty c) \<noteq> None \<and> mem (pheap st1) (CflNonempty c) \<noteq> None"
      "\<forall>c < n. dll (mem (pheap st1)) (CflEmpty c) [] \<and> dll (mem (pheap st1)) (CflNonempty c) []
        \<and> counter (central_cache st1 c) = 0 \<and> num_spans (central_cache st1 c) = 0 \<and> tc_ok w (central_cache st1 c) c []"
      "\<exists>m. pheap st1 = (pheap st)\<lparr>mem := m\<rparr>" "mem (pheap st1) SampledObjects = mem (pheap st) SampledObjects" by auto
    have n: "n < kNumClasses" using Suc.prems by simp
    obtain st' where r: "cfl_Init n st1 = Some st'" "smap st' = smap st1" "heap_ok (pheap st')" "spans (pheap st') = spans (pheap st1)"
      "dll (mem (pheap st')) (CflEmpty n) []" "dll (mem (pheap st')) (CflNonempty n) []"
      "\<And>u. u \<noteq> CflEmpty n \<Longrightarrow> u \<noteq> CflNonempty n \<Longrightarrow> mem (pheap st') u = mem (pheap st1) u"
      "counter (central_cache st' n) = 0" "num_spans (central_cache st' n) = 0"
      "tc_ok w (central_cache st' n) n []" "\<And>c. c \<noteq> n \<Longrightarrow> central_cache st' c = central_cache st1 c"
      "\<exists>m. pheap st' = (pheap st1)\<lparr>mem := m\<rparr>"
      using cfl_Init_ok[OF s(2,3) n, of w] s(5) by metis
    have old: "dll (mem (pheap st')) (CflEmpty c) [] \<and> dll (mem (pheap st')) (CflNonempty c) []" if "c < n" for c
    proof -
      have "mem (pheap st') (CflEmpty c) = mem (pheap st1) (CflEmpty c)" "mem (pheap st') (CflNonempty c) = mem (pheap st1) (CflNonempty c)"
        using r(7) that by auto
      then show ?thesis using s(6) that by (simp add: dll_def linked_def nxt_def prv_def)
    qed
    have "ofold cfl_Init [0..<Suc n] st = Some st'"
      using s(1) r(1) by (simp add: ofold_append)
    moreover have "mem (pheap st') (CflEmpty c) \<noteq> None \<and> mem (pheap st') (CflNonempty c) \<noteq> None" for c
      using r(5,6,7) s(5) by (cases "c = n") (auto simp: dll_def linked_def nxt_def)
    moreover have "\<exists>m. pheap st' = (pheap st)\<lparr>mem := m\<rparr>" using r(12) s(7) by auto
    moreover have "mem (pheap st') SampledObjects = mem (pheap st) SampledObjects" using r(7) s(8) by simp
    ultimately show ?case using r(2-6,8-11) s(2,4,6) old by (auto simp: less_Suc_eq)
  qed
  have nil: "tc_ok w f c [] = tc_ok w' f c []" for w w' f c by (simp add: tc_ok_def)
  obtain st' where s: "init_central st = Some st'" "smap st' = init_sizemap" "heap_ok (pheap st')" "spans (pheap st') = spans (pheap st)"
    "\<forall>c < kNumClasses. dll (mem (pheap st')) (CflEmpty c) [] \<and> dll (mem (pheap st')) (CflNonempty c) []
        \<and> counter (central_cache st' c) = 0 \<and> num_spans (central_cache st' c) = 0 \<and> tc_ok (store st') (central_cache st' c) c []"
    "\<exists>m. pheap st' = (pheap st)\<lparr>mem := m\<rparr>" "mem (pheap st') SampledObjects = mem (pheap st) SampledObjects"
    using loop[OF order_refl, of "store st"] nil[of "store st"] unfolding init_central_def by metis
  have "dlls (mem (pheap st')) cheads (\<lambda>_. [])" using s(5) by (auto simp: dlls_def cheads_def)
  then have "cinv (\<lambda>_. []) (\<lambda>_. []) (\<lambda>_. []) st'"
    using s(2,3,5) by (simp add: cinv_def class_spans_def)
  moreover have "owned (\<lambda>_. []) (\<lambda>_. []) (\<lambda>_. []) st' = (\<lambda>_. {})"
    by (simp add: owned_def fun_eq_iff class_objs_def class_spans_def)
  ultimately show ?thesis using s(1,2,4,6,7) unfolding central_ok_def by metis
qed

end
