(* ===== verification/CentralFreeListThms.thy ===== *)
theory CentralFreeListThms
  imports CentralFreeListRanges
begin

text \<open>
  The properties of the central free lists, stated over \<open>central_ok st Own\<close>: the state is consistent
  and \<open>Own cl\<close> is the set of objects of class \<open>cl\<close> that clients hold.
\<close>

section \<open>A sample state\<close>

text \<open>
  The states at start-up: the constructor of the page heap has run on its allocators and on what the
  system will answer, \<open>SizeMap::Init\<close> has filled the tables, and \<open>init_central\<close> has initialised the
  86 lists over whatever their memory held.
\<close>

definition central_start :: "central \<Rightarrow> bool" where
  "central_start st \<longleftrightarrow> (\<exists>al sa ta gs junk h m raw words.
     PageHeap_init (True # al) sa ta gs junk = Some h
     \<and> span_pool {} sa \<and> pool sizeof_StackTrace {} ta \<and> os_ok {} 0 gs \<and> SizeMap_Init = Some m
     \<and> init_central \<lparr>pheap = h, smap = m, central_cache = raw, store = words, race_counter = 0\<rparr> = Some st)"

lemma central_start_ok:
  assumes "central_start st"
  shows "central_ok st (\<lambda>_. {})"
proof -
  obtain al sa ta gs junk h m raw words where s: "PageHeap_init (True # al) sa ta gs junk = Some h"
    "span_pool {} sa" "pool sizeof_StackTrace {} ta" "os_ok {} 0 gs" "SizeMap_Init = Some m"
    "init_central \<lparr>pheap = h, smap = m, central_cache = raw, store = words, race_counter = 0\<rparr> = Some st"
    using assms unfolding central_start_def by (elim exE conjE) (rule that)
  obtain h' where h: "PageHeap_init (True # al) sa ta gs junk = Some h'" "heap_ok h'"
    "\<forall>i. mem h' (CflEmpty i) = Some zero_span \<and> mem h' (CflNonempty i) = Some zero_span"
    by (rule PageHeap_init_ok[OF s(2-4), of al junk]) (rule that)
  have "h' = h" using h(1) s(1) by simp
  moreover have "m = init_sizemap" using s(5) by (simp only: SizeMap_Init_iff)
  ultimately show ?thesis
    using init_central_ok[of "\<lparr>pheap = h, smap = m, central_cache = raw, store = words, race_counter = 0\<rparr>"] h(2,3) s(6) by auto
qed

lemma fresh_central_exists: "\<exists>st. central_start st \<and> central_ok st (\<lambda>_. {}) \<and> fresh_heap (pheap st)"
proof -
  obtain sa ta where a: "pool sizeof_Span {} sa" "10 \<le> spare sizeof_Span sa"
    "pool sizeof_StackTrace {} ta" "10 \<le> spare sizeof_StackTrace ta"
    using sample_pool[of sizeof_Span] sample_pool[of sizeof_StackTrace] by auto
  have os: "os_ok {} 0 [Some (1048576, 1048576)]"
    by (simp add: os_ok_def heap_budget_def grant_bytes_def)
  obtain h where h: "PageHeap_init (True # [True, True]) sa ta [Some (1048576, 1048576)] (\<lambda>_. 0) = Some h"
    "heap_ok h" "spans h = Map.empty" "span_allocator h = sa" "stacktrace_allocator h = ta"
    "os_grants h = [Some (1048576, 1048576)]" "pagemap h = \<lparr>root3 = (\<lambda>_. None), allocator3 = [True, True]\<rparr>"
    "\<forall>i. mem h (CflEmpty i) = Some zero_span \<and> mem h (CflNonempty i) = Some zero_span"
    by (rule PageHeap_init_ok[OF pool_span[OF a(1)] a(3) os, of "[True, True]" "\<lambda>_. 0"]) (rule that)
  define st where "st = \<lparr>pheap = h, smap = init_sizemap, central_cache = undefined, store = (\<lambda>_. 0), race_counter = 0\<rparr>"
  obtain st' m where s: "init_central st = Some st'" "central_ok st' (\<lambda>_. {})" "pheap st' = h\<lparr>mem := m\<rparr>" "spans (pheap st') = spans h"
    using init_central_ok[of st] h(2,8) by (auto simp: st_def)
  have "heap_ok (pheap st')" using s(2) cinvD(2) unfolding central_ok_def by blast
  moreover have "10 \<le> room (pheap st')" "10 \<le> trace_room (pheap st')" using h(4,5) a(2,4) s(3) by simp_all
  ultimately have "fresh_heap (pheap st')" using s(3,4) h(3,6,7) unfolding fresh_heap_def by simp
  moreover have "SizeMap_Init = Some init_sizemap" by (simp only: SizeMap_Init_iff)
  then have "central_start st'"
    unfolding central_start_def using h(1) pool_span[OF a(1)] a(3) os s(1)[unfolded st_def] by blast
  ultimately show ?thesis using s(2) by blast
qed

text \<open>A client that holds two objects of the first class.\<close>

lemma sample_client:
  obtains st xs s e st' where "central_ok st (\<lambda>_. {})" "2 \<le> room (pheap st)" "0 < trace_room (pheap st)"
    "RemoveRange sample_env 1 2 st = Some (int (length xs), s, e, st')" "sll (store st') s xs" "xs \<noteq> []"
    "central_ok st' ((\<lambda>_. {})(1 := set xs))" "central_start st"
proof -
  obtain st where s: "central_ok st (\<lambda>_. {})" "fresh_heap (pheap st)" and start: "central_start st" using fresh_central_exists by blast
  then have rm: "2 \<le> room (pheap st)" "0 < trace_room (pheap st)" unfolding fresh_heap_def by linarith+
  have 1: "(1 :: nat) \<in> classes" by simp
  obtain L C T where c: "cinv L C T st" "(\<lambda>_. {}) = owned L C T st" using s(1) unfolding central_ok_def by blast
  have "(0 :: int) < 2" by simp
  then obtain xs p e L' C' T' st1 where r: "RemoveRange sample_env 1 2 st = Some (int (length xs), p, e, st1)"
    "cinv L' C' T' st1" "sll (store st1) p xs" "owned L' C' T' st1 = (owned L C T st)(1 := owned L C T st 1 \<union> set xs)"
    "xs = [] \<Longrightarrow> \<exists>h. New sample_env (npg 1) (pheap st) = Some (None, h)"
    by (rule RemoveRange_ok[OF c(1) 1 _ rm, of 2 sample_env]) (rule that)
  have o: "owned L' C' T' st1 = (\<lambda>_. {})(1 := set xs)" unfolding r(4) c(2)[symmetric] by (simp del: One_nat_def)
  have "central_ok st1 ((\<lambda>_. {})(1 := set xs))" unfolding central_ok_def using r(2) o[symmetric] by blast
  moreover have "npg 1 \<le> kMaxPages" using class_facts(3)[OF 1] by simp
  then have "xs \<noteq> []" using fresh_New[OF s(2) class_facts(2)[OF 1], of sample_env] r(5) by fastforce
  ultimately show thesis using that[OF s(1) rm r(1,3)] start by blast
qed

section \<open>Properties\<close>

text \<open>
  Start-up.  On a consistent page heap the initialisation of the 86 central lists succeeds and
  gives a consistent state in which clients own nothing.
\<close>

theorem init_central_consistent:
  assumes "smap st = init_sizemap" "heap_ok (pheap st)" "\<forall>c. mem (pheap st) (CflEmpty c) \<noteq> None \<and> mem (pheap st) (CflNonempty c) \<noteq> None"
  shows "\<exists>st'. init_central st = Some st' \<and> central_ok st' (\<lambda>_. {}) \<and> spans (pheap st') = spans (pheap st)"
  using init_central_ok[OF assms] by blast

theorem init_central_consistent_witness:
  "\<exists>st st'. init_central st = Some st' \<and> central_ok st' (\<lambda>_. {})"
proof -
  obtain sa ta where a: "pool sizeof_Span {} sa" "pool sizeof_StackTrace {} ta"
    using sample_pool[of sizeof_Span] sample_pool[of sizeof_StackTrace] by auto
  have os: "os_ok {} 0 [Some (1048576, 1048576)]"
    by (simp add: os_ok_def heap_budget_def grant_bytes_def)
  obtain h where h: "heap_ok h" "\<forall>i. mem h (CflEmpty i) = Some zero_span \<and> mem h (CflNonempty i) = Some zero_span"
    by (rule PageHeap_init_ok[OF pool_span[OF a(1)] a(2) os, of "[True, True]" "\<lambda>_. 0"]) (rule that)
  define st where "st = \<lparr>pheap = h, smap = init_sizemap, central_cache = undefined, store = (\<lambda>_. 0), race_counter = 0\<rparr>"
  show ?thesis using init_central_consistent[of st] h by (auto simp: st_def)
qed

text \<open>
  C19: \<open>RemoveRange\<close>.  From every consistent state, while metadata memory lasts, the call returns, without
  a failed assertion, at most \<open>N\<close> distinct objects as a null-terminated list with the right ends.  No
  client owned any of them, exactly they become owned, and no word of an owned object, over its full size,
  has changed.
  Fewer than \<open>N\<close> objects mean that the list of the class has run dry, and none at all that the page
  heap could not provide a span.
\<close>

theorem RemoveRange_hands_out:
  assumes "central_ok st Own" "cl \<in> classes" "0 < N" "2 \<le> room (pheap st)" "0 < trace_room (pheap st)"
  shows "\<exists>xs s e st'. RemoveRange env cl N st = Some (int (length xs), s, e, st') \<and> int (length xs) \<le> N
    \<and> sll (store st') s xs \<and> distinct xs \<and> (xs \<noteq> [] \<longrightarrow> e = last xs)
    \<and> set xs \<inter> Own cl = {} \<and> central_ok st' (Own(cl := Own cl \<union> set xs))
    \<and> (\<forall>c. \<forall>x \<in> Own c. \<forall>y \<in> {x..<x + class_to_size (smap st) c}. store st' y = store st y)
    \<and> (int (length xs) < N \<longrightarrow> cfl_length cl st' = 0)
    \<and> (xs = [] \<longrightarrow> (\<exists>h. New env (class_to_pages (smap st) cl) (pheap st) = Some (None, h)))"
proof -
  obtain L C T where c: "cinv L C T st" "Own = owned L C T st" using assms(1) unfolding central_ok_def by blast
  obtain xs s e L' C' T' st' where r: "RemoveRange env cl N st = Some (int (length xs), s, e, st')" "int (length xs) \<le> N"
    "cinv L' C' T' st'" "sll (store st') s xs" "xs \<noteq> [] \<Longrightarrow> e = last xs" "set xs \<inter> owned L C T st cl = {}"
    "owned L' C' T' st' = (owned L C T st)(cl := owned L C T st cl \<union> set xs)" "keeps_words (owned L C T st) st st'"
    "int (length xs) < N \<Longrightarrow> counter (central_cache st' cl) = 0"
    "xs = [] \<Longrightarrow> \<exists>h. New env (npg cl) (pheap st) = Some (None, h)"
    by (rule RemoveRange_ok[OF c(1) assms(2-5), of env]) (rule that)
  have "central_ok st' (Own(cl := Own cl \<union> set xs))" unfolding central_ok_def using r(3,7) c(2) by metis
  moreover have "distinct xs" by (rule sll_distinct[OF r(4)])
  moreover have "cfl_length cl st' = 0" if "int (length xs) < N" using r(9)[OF that] by (simp add: cfl_length_def)
  moreover have "\<exists>h. New env (class_to_pages (smap st) cl) (pheap st) = Some (None, h)" if "xs = []"
    using r(10)[OF that] cinvD(1)[OF c(1)] by (simp add: sizemap_facts)
  ultimately show ?thesis
    using r(1,2,4,5,6,8) c(2) cinvD(1)[OF c(1)] unfolding keeps_words_def
    by (intro exI[of _ xs] exI[of _ s] exI[of _ e] exI[of _ st']) (auto simp: sizemap_facts)
qed

theorem RemoveRange_hands_out_witness:
  "\<exists>st xs s e st'. RemoveRange sample_env 1 2 st = Some (int (length xs), s, e, st') \<and> sll (store st') s xs
    \<and> central_ok st' ((\<lambda>_. {})(1 := set xs))"
proof -
  obtain st where s: "central_ok st (\<lambda>_. {})" "2 \<le> room (pheap st)" "0 < trace_room (pheap st)"
    by (rule sample_client) (rule that)
  have "(1 :: nat) \<in> classes" "(0 :: int) < 2" by simp_all
  from RemoveRange_hands_out[OF s(1) this s(2,3), of sample_env]
  obtain xs p e st' where r: "RemoveRange sample_env 1 2 st = Some (int (length xs), p, e, st')" "sll (store st') p xs"
    "central_ok st' ((\<lambda>_. {})(1 := {} \<union> set xs))" by (elim exE conjE) (rule that)
  show ?thesis using r by (intro exI[of _ st] exI[of _ xs] exI[of _ p] exI[of _ e] exI[of _ st']) (simp del: One_nat_def)
qed

text \<open>
  C20: \<open>InsertRange\<close>.  A client returns a list of objects it owns, with its last element: the call
  succeeds, exactly these objects stop being owned, whether they go to the transfer cache or to their
  spans (and a span whose objects are all back to the page heap), and no word of another owned
  object, over its full size, changes, although room for the range may have been made at the cost of another class.
\<close>

theorem InsertRange_takes_back:
  assumes "central_ok st Own" "cl \<in> classes" "sll (store st) s xs" "e = last xs" "set xs \<subseteq> Own cl"
  shows "\<exists>st'. InsertRange env cl s e (int (length xs)) st = Some st' \<and> central_ok st' (Own(cl := Own cl - set xs))
    \<and> (\<forall>c. \<forall>x \<in> (Own(cl := Own cl - set xs)) c. \<forall>y \<in> {x..<x + class_to_size (smap st) c}. store st' y = store st y)"
proof -
  obtain L C T where c: "cinv L C T st" "Own = owned L C T st" using assms(1) unfolding central_ok_def by blast
  obtain L' C' T' st' where r: "InsertRange env cl s e (int (length xs)) st = Some st'" "cinv L' C' T' st'"
    "owned L' C' T' st' = (owned L C T st)(cl := owned L C T st cl - set xs)"
    "keeps_words ((owned L C T st)(cl := owned L C T st cl - set xs)) st st'"
    using InsertRange_ok[OF c(1) assms(2-4) assms(5)[unfolded c(2)], of env] by (elim exE conjE) (rule that)
  have "central_ok st' (Own(cl := Own cl - set xs))" unfolding central_ok_def using r(2,3) c(2) by metis
  moreover have "class_to_size (smap st) c = osz c" for c using cinvD(1)[OF c(1)] by (simp add: sizemap_facts)
  ultimately show ?thesis using r(1,4) c(2) unfolding keeps_words_def by (intro exI[of _ st'] conjI) simp_all
qed

theorem InsertRange_takes_back_witness:
  "\<exists>st xs s st'. xs \<noteq> [] \<and> central_ok st ((\<lambda>_. {})(1 := set xs))
    \<and> InsertRange sample_env 1 s (last xs) (int (length xs)) st = Some st' \<and> central_ok st' (\<lambda>_. {})"
proof -
  obtain xs s st where r: "sll (store st) s xs" "xs \<noteq> []" "central_ok st ((\<lambda>_. {})(1 := set xs))"
    by (rule sample_client) (rule that)
  have 1: "(1 :: nat) \<in> classes" and sub: "set xs \<subseteq> ((\<lambda>_. {})(1 := set xs)) 1" by simp_all
  have e: "((\<lambda>_. {})(1 := set xs))(1 := ((\<lambda>_. {})(1 := set xs)) 1 - set xs) = (\<lambda>_ :: nat. {})" by (simp add: fun_eq_iff)
  obtain st' where "InsertRange sample_env 1 s (last xs) (int (length xs)) st = Some st'" "central_ok st' (\<lambda>_. {})"
    using InsertRange_takes_back[OF r(3) 1 r(1) refl sub, of sample_env] unfolding e by blast
  then show ?thesis using r(2,3) by blast
qed

text \<open>Objects clients hold are apart, in every consistent state.\<close>

lemma owned_apart_now:
  assumes "central_ok st Own" "x \<in> Own c" "y \<in> Own d"
  shows "(x \<noteq> y \<longrightarrow> {x..<x + class_to_size (smap st) c} \<inter> {y..<y + class_to_size (smap st) d} = {}) \<and> (x = y \<longrightarrow> c = d)
    \<and> (\<forall>b \<in> {x..<x + class_to_size (smap st) c}. b div kPageSize \<in> used_pages (pheap st)) \<and> x \<noteq> 0"
proof -
  obtain L C T where I: "cinv L C T st" "Own = owned L C T st" using assms(1) unfolding central_ok_def by blast
  note X = owned_facts[OF I(1)]
  have sz: "class_to_size (smap st) k = osz k" for k using cinvD(1)[OF I(1)] by (simp add: sizemap_facts)
  have o: "x \<in> owned L C T st c" "y \<in> owned L C T st d" using assms(2,3) I(2) by simp_all
  have "x = y \<longrightarrow> c = d" using class_objs_disjoint[OF I(1) X(1)[OF o(1)] X(1)[OF o(2)]] X(2)[OF o(1)] X(2)[OF o(2)] by blast
  moreover have "x \<noteq> y \<longrightarrow> {x..<x + osz c} \<inter> {y..<y + osz d} = {}"
    using owned_apart[OF I(1) o] owned_apart[OF I(1) o(2,1)] by (cases x y rule: linorder_cases) auto
  moreover have pg: "\<forall>b \<in> {x..<x + osz c}. b div kPageSize \<in> used_pages (pheap st)" using owned_pages[OF I(1) o(1)] by blast
  moreover have "x \<noteq> 0"
  proof -
    have "x div kPageSize \<in> used_pages (pheap st)" using pg class_facts(1)[OF X(1)[OF o(1)]] by simp
    then have "x div kPageSize \<in> cover (spans (pheap st))" by (auto simp: pages_of_def cover_def)
    then show ?thesis using page_small(2)[OF cinvD(2)[OF I(1)]] by (cases "x = 0") auto
  qed
  ultimately show ?thesis unfolding sz by blast
qed

lemma class_counts:
  assumes "cinv L C T st" "cl \<in> classes"
  shows "card (class_objs (mem (pheap st)) L cl) = card (class_spans L cl) * per_span cl" "finite (class_objs (mem (pheap st)) L cl)"
    "card (class_free L C cl) = (\<Sum>p \<in> class_spans L cl. length (C p))" "card (class_spans L cl) \<le> 2 ^ 35"
proof -
  note D = cinvD[OF assms(1)]
  let ?m = "mem (pheap st)" and ?S = "class_spans L cl"
  have ap: "objs cl (sstart ?m p) \<inter> objs cl (sstart ?m q) = {}" if "p \<in> ?S" "q \<in> ?S" "p \<noteq> q" for p q
    using spans_apart[OF assms(1,2,2) that] .
  have "card (\<Union>p \<in> ?S. objs cl (sstart ?m p)) = (\<Sum>p \<in> ?S. card (objs cl (sstart ?m p)))"
    using ap by (intro card_UN_disjoint) auto
  then show "card (class_objs ?m L cl) = card ?S * per_span cl" using obj_list_facts(3)[OF assms(2)] by (simp add: class_objs_def)
  show "finite (class_objs ?m L cl)" by (simp add: class_objs_def)
  have "set (C p) \<inter> set (C q) = {}" if "p \<in> ?S" "q \<in> ?S" "p \<noteq> q" for p q
    using ap[OF that] chain_subset(1)[OF assms that(1)] chain_subset(1)[OF assms that(2)] by blast
  then have "card (class_free L C cl) = (\<Sum>p \<in> ?S. card (set (C p)))" unfolding class_free_def by (intro card_UN_disjoint) auto
  moreover have "card (set (C p)) = length (C p)" if p: "p \<in> ?S" for p
  proof (rule distinct_card)
    show "distinct (C p)" by (rule span_okE[OF D(4)[OF assms(2) p]]) (rule sll_distinct)
  qed
  ultimately show "card (class_free L C cl) = (\<Sum>p \<in> ?S. length (C p))" by simp
  have "inj_on (sstart ?m) ?S"
  proof (rule inj_onI, rule ccontr)
    fix p q assume a: "p \<in> ?S" "q \<in> ?S" "sstart ?m p = sstart ?m q" "p \<noteq> q"
    have "objs cl (sstart ?m q) = {}" using ap[OF a(1,2,4)] a(3) by simp
    then have "per_span cl = 0" using obj_list_facts(3)[OF assms(2), of "sstart ?m q"] by simp
    then show False using per_span_pos[OF assms(2)] by simp
  qed
  moreover have "sstart ?m ` ?S \<subseteq> {..<2 ^ 35}"
  proof
    fix s assume "s \<in> sstart ?m ` ?S"
    then obtain p where p: "p \<in> ?S" "s = sstart ?m p" by blast
    have "s \<in> used_pages (pheap st)" using class_span_pages[OF assms p(1), of s] p(2) class_facts(2)[OF assms(2)] by simp
    then have "s \<in> cover (spans (pheap st))" by (auto simp: pages_of_def cover_def)
    then show "s \<in> {..<2 ^ 35}" using page_small(1)[OF D(2)] by simp
  qed
  ultimately show "card ?S \<le> 2 ^ 35" using card_inj_on_le[of "sstart ?m" ?S "{..<2 ^ 35}"] by simp
qed

text \<open>The counters, in every consistent state.\<close>

lemma central_accounting_now:
  assumes "central_ok st Own" "cl \<in> classes"
  shows "finite (Own cl) \<and> int (card (Own cl)) + tc_length cl st + int (counter (central_cache st cl))
      = int (num_spans (central_cache st cl) * (class_to_pages (smap st) cl * kPageSize div class_to_size (smap st) cl))
    \<and> OverheadBytes cl st = Some (num_spans (central_cache st cl)
        * ((class_to_pages (smap st) cl * kPageSize) mod class_to_size (smap st) cl))"
proof -
  obtain L C T where I: "cinv L C T st" "Own = owned L C T st" using assms(1) unfolding central_ok_def by blast
  note D = cinvD[OF I(1)] and K = class_counts[OF I(1) assms(2)]
  let ?n = "card (class_spans L cl)" and ?f = "\<Sum>p \<in> class_spans L cl. length (C p)"
  let ?O = "class_objs (mem (pheap st)) L cl"
  have k: "cl < kNumClasses" using assms(2) by simp
  have fr: "class_free L C cl \<subseteq> ?O"
    using chain_subset(3)[OF I(1) assms(2)] by (cases "class_spans L cl = {}") (auto simp: class_free_def)
  have "Own cl = ?O - class_free L C cl - parked T cl" using assms(2) I(2) by (simp add: owned_def)
  then have o: "finite (Own cl)" "card (Own cl) = card ?O - card (class_free L C cl) - card (parked T cl)"
    using K(2) fr D(11)[OF assms(2)] by (simp_all add: card_Diff_subset finite_subset)
  have pc: "card (parked T cl) = length (concat (T cl))" by (rule distinct_card[OF D(10)[OF assms(2)]])
  have "length (T cl ! i) = batch cl" if "i < length (T cl)" for i using D(8)[OF k] that by (simp add: tc_ok_def)
  then have "\<forall>ys \<in> set (T cl). length ys = batch cl" by (auto simp: in_set_conv_nth)
  then have "length (concat (T cl)) = length (T cl) * batch cl"
    by (induction "T cl" rule: rev_induct) (auto simp: length_concat sum_list_triv[of "batch cl" "T cl"] cong: map_cong)
  then have tl: "tc_length cl st = int (card (parked T cl))"
    using D(1) D(8)[OF k] sizemap_facts(1)[OF assms(2)] pc by (simp add: tc_length_def tc_ok_def)
  have le: "card (class_free L C cl) \<le> card ?O" "card (parked T cl) \<le> card ?O - card (class_free L C cl)"
    using card_mono[OF K(2) fr] card_mono[of "?O - class_free L C cl" "parked T cl"] K(2) D(11)[OF assms(2)]
    by (simp_all add: card_Diff_subset finite_subset[OF fr] fr)
  have "?n * per_span cl \<le> 2 ^ 35 * 65536" using K(4) class_facts(4)[OF assms(2)] by (intro mult_le_mono) simp_all
  then have small: "?n * per_span cl < two64" by (simp add: two64_def)
  have f: "?f < two64" using K(1,3) le(1) small by simp
  have n: "?n < two64" using K(4) by (simp add: two64_def)
  have c: "counter (central_cache st cl) = ?f" "num_spans (central_cache st cl) = ?n"
    using D(6,7)[OF assms(2)] f n by simp_all
  have "card (Own cl) + card (parked T cl) + ?f = ?n * per_span cl" using o(2) le K(1,3) by simp
  then have e: "int (card (Own cl)) + tc_length cl st + int ?f = int (?n * per_span cl)" unfolding tl by (metis of_nat_add)
  have s: "class_to_pages (smap st) cl = npg cl" "class_to_size (smap st) cl = osz cl" using D(1) by (simp_all add: sizemap_facts)
  have pos: "0 < osz cl" "cl \<noteq> 0" using class_facts(1)[OF assms(2)] assms(2) by auto
  have "npg cl * kPageSize mod osz cl \<le> 32 * kPageSize" using mod_le_divisor[of "npg cl * kPageSize"] class_facts(3)[OF assms(2)]
    by (metis mod_less_eq_dividend mult_le_mono1 order_trans)
  then have "?n * (npg cl * kPageSize mod osz cl) \<le> 2 ^ 35 * (32 * kPageSize)" using K(4) by (intro mult_le_mono) simp_all
  then have "?n * (npg cl * kPageSize mod osz cl) < two64" by (simp add: two64_def)
  then have "OverheadBytes cl st = Some (?n * (npg cl * kPageSize mod osz cl))" using pos by (simp add: OverheadBytes_def s c(2))
  then show ?thesis using o(1) e unfolding s c per_span_def by blast
qed

section \<open>Sequences of calls\<close>

text \<open>
  What clients may do: ask for objects while metadata memory lasts, return lists of objects they own,
  and write to the objects they own.
\<close>

inductive central_run :: "env \<Rightarrow> central \<times> (nat \<Rightarrow> nat set) \<Rightarrow> central \<times> (nat \<Rightarrow> nat set) \<Rightarrow> bool" for env s0 where
  Start: "central_run env s0 s0"
| Remove: "central_run env s0 (st, Own) \<Longrightarrow> cl \<in> classes \<Longrightarrow> 0 < N \<Longrightarrow> 2 \<le> room (pheap st) \<Longrightarrow> 0 < trace_room (pheap st)
    \<Longrightarrow> RemoveRange env cl N st = Some (n, s, e, st') \<Longrightarrow> sll (store st') s xs
    \<Longrightarrow> central_run env s0 (st', Own(cl := Own cl \<union> set xs))"
| Insert: "central_run env s0 (st, Own) \<Longrightarrow> cl \<in> classes \<Longrightarrow> sll (store st) s xs \<Longrightarrow> e = last xs \<Longrightarrow> set xs \<subseteq> Own cl
    \<Longrightarrow> InsertRange env cl s e (int (length xs)) st = Some st' \<Longrightarrow> central_run env s0 (st', Own(cl := Own cl - set xs))"
| Write: "central_run env s0 (st, Own)
    \<Longrightarrow> (\<forall>y. (\<forall>c. \<forall>x \<in> Own c. y \<notin> {x..<x + class_to_size (smap st) c}) \<longrightarrow> w y = store st y)
    \<Longrightarrow> central_run env s0 (st\<lparr>store := w\<rparr>, Own)"

lemma central_ok_write:
  assumes "central_ok st Own" "\<forall>y. (\<forall>c. \<forall>x \<in> Own c. y \<notin> {x..<x + osz c}) \<longrightarrow> w y = store st y"
  shows "central_ok (st\<lparr>store := w\<rparr>) Own"
proof -
  obtain L C T where c: "cinv L C T st" "Own = owned L C T st" using assms(1) unfolding central_ok_def by blast
  have "cinv L C T (st\<lparr>store := w\<rparr>)" "owned L C T (st\<lparr>store := w\<rparr>) = owned L C T st"
    using cinv_client_store[OF c(1), of w] assms(2) c(2) by blast+
  then show ?thesis unfolding central_ok_def using c(2) by metis
qed

lemma RemoveRange_central_ok:
  assumes "central_ok st Own" "cl \<in> classes" "0 < N" "2 \<le> room (pheap st)" "0 < trace_room (pheap st)"
  obtains xs s e st' where "RemoveRange env cl N st = Some (int (length xs), s, e, st')" "sll (store st') s xs"
    "central_ok st' (Own(cl := Own cl \<union> set xs))"
proof -
  obtain L C T where c: "cinv L C T st" "Own = owned L C T st" using assms(1) unfolding central_ok_def by blast
  obtain xs s e L' C' T' st' where r: "RemoveRange env cl N st = Some (int (length xs), s, e, st')"
    "cinv L' C' T' st'" "sll (store st') s xs" "owned L' C' T' st' = (owned L C T st)(cl := owned L C T st cl \<union> set xs)"
    by (rule RemoveRange_ok[OF c(1) assms(2-5), of env]) (rule that)
  have "central_ok st' (Own(cl := Own cl \<union> set xs))" unfolding central_ok_def using r(2,4) c(2) by metis
  then show thesis using that r(1,3) by blast
qed

lemma InsertRange_central_ok:
  assumes "central_ok st Own" "cl \<in> classes" "sll (store st) s xs" "e = last xs" "set xs \<subseteq> Own cl"
  obtains st' where "InsertRange env cl s e (int (length xs)) st = Some st'" "central_ok st' (Own(cl := Own cl - set xs))"
proof -
  obtain L C T where c: "cinv L C T st" "Own = owned L C T st" using assms(1) unfolding central_ok_def by blast
  obtain L' C' T' st' where r: "InsertRange env cl s e (int (length xs)) st = Some st'" "cinv L' C' T' st'"
    "owned L' C' T' st' = (owned L C T st)(cl := owned L C T st cl - set xs)"
    using InsertRange_ok[OF c(1) assms(2-4) assms(5)[unfolded c(2)], of env] by (elim exE conjE) (rule that)
  have "central_ok st' (Own(cl := Own cl - set xs))" unfolding central_ok_def using r(2,3) c(2) by metis
  then show thesis using that r(1) by blast
qed

lemma central_run_ok:
  assumes "central_run env s0 s" "central_ok (fst s0) (snd s0)"
  shows "central_ok (fst s) (snd s)"
  using assms
proof (induction rule: central_run.induct)
  case (Remove st Own cl N n s e st' xs)
  have ok: "central_ok st Own" using Remove.IH Remove.prems by simp
  obtain xs' s' e' st'' where r: "RemoveRange env cl N st = Some (int (length xs'), s', e', st'')" "sll (store st'') s' xs'"
    "central_ok st'' (Own(cl := Own cl \<union> set xs'))"
    by (rule RemoveRange_central_ok[OF ok Remove.hyps(2-5)]) (rule that)
  then have "s' = s" "st'' = st'" using Remove.hyps(6) by auto
  then have "xs' = xs" using sll_unique r(2) Remove.hyps(7) by blast
  then show ?case using r(3) \<open>st'' = st'\<close> by (simp only: fst_conv snd_conv)
next
  case (Insert st Own cl s xs e st')
  have ok: "central_ok st Own" using Insert.IH Insert.prems by simp
  obtain st'' where "InsertRange env cl s e (int (length xs)) st = Some st''" "central_ok st'' (Own(cl := Own cl - set xs))"
    by (rule InsertRange_central_ok[OF ok Insert.hyps(2-5)]) (rule that)
  then show ?case using Insert.hyps(6) by (simp only: fst_conv snd_conv option.inject)
next
  case (Write st Own w)
  then have "central_ok st Own" by simp
  moreover have "smap st = init_sizemap" using \<open>central_ok st Own\<close> cinvD(1) unfolding central_ok_def by blast
  ultimately show ?case using central_ok_write[of st Own w] Write.hyps(2) by (simp add: sizemap_facts)
qed simp

text \<open>
  C21: lawful clients never break the central lists.  Whatever sequence of \<open>RemoveRange\<close> and \<open>InsertRange\<close>
  calls and of writes to their own objects the clients make, and whatever the system answers: the
  state stays consistent, and no assertion fails in the next call: another \<open>RemoveRange\<close> returns
  while metadata memory lasts, and every list of owned objects can be returned.
\<close>

theorem central_lawful_clients:
  assumes "central_run env (st0, Own0) (st, Own)" "central_ok st0 Own0"
  shows "central_ok st Own
    \<and> (\<forall>cl \<in> classes. \<forall>N > 0. 2 \<le> room (pheap st) \<and> 0 < trace_room (pheap st) \<longrightarrow> RemoveRange env cl N st \<noteq> None)
    \<and> (\<forall>cl \<in> classes. \<forall>s xs. sll (store st) s xs \<and> set xs \<subseteq> Own cl
         \<longrightarrow> InsertRange env cl s (last xs) (int (length xs)) st \<noteq> None)"
proof -
  have ok: "central_ok st Own" using central_run_ok[OF assms(1)] assms(2) by simp
  have "RemoveRange env cl N st \<noteq> None" if "cl \<in> classes" "0 < N" "2 \<le> room (pheap st)" "0 < trace_room (pheap st)" for cl N
    by (rule RemoveRange_central_ok[OF ok that, of env]) simp
  moreover have "InsertRange env cl s (last xs) (int (length xs)) st \<noteq> None"
    if "cl \<in> classes" "sll (store st) s xs" "set xs \<subseteq> Own cl" for cl s xs
    by (rule InsertRange_central_ok[OF ok that(1,2) refl that(3), of env]) simp
  ultimately show ?thesis using ok by blast
qed

theorem central_lawful_clients_witness:
  "\<exists>st0 st xs. xs \<noteq> [] \<and> central_run sample_env (st0, \<lambda>_. {}) (st, (\<lambda>_. {})(1 := set xs)) \<and> central_ok st ((\<lambda>_. {})(1 := set xs))"
proof -
  obtain st0 xs s e st where r: "central_ok st0 (\<lambda>_. {})" "2 \<le> room (pheap st0)" "0 < trace_room (pheap st0)"
    "RemoveRange sample_env 1 2 st0 = Some (int (length xs), s, e, st)" "sll (store st) s xs" "xs \<noteq> []"
    by (rule sample_client) (rule that)
  have "central_run sample_env (st0, \<lambda>_. {}) (st, (\<lambda>_. {})(1 := (\<lambda>_. {}) 1 \<union> set xs))"
    by (rule central_run.Remove[OF central_run.Start _ _ r(2-5)]) simp_all
  then have run: "central_run sample_env (st0, \<lambda>_. {}) (st, (\<lambda>_. {})(1 := set xs))" by (simp del: One_nat_def)
  show ?thesis using central_lawful_clients[OF run r(1)] run r(6) by blast
qed

text \<open>A run in which a client gets objects of the first class.\<close>

lemma sample_run:
  obtains st0 st xs where "central_start st0" "central_run sample_env (st0, \<lambda>_. {}) (st, (\<lambda>_. {})(1 := set xs))" "xs \<noteq> []"
proof -
  obtain st0 xs s e st where r: "central_start st0" "2 \<le> room (pheap st0)" "0 < trace_room (pheap st0)"
    "RemoveRange sample_env 1 2 st0 = Some (int (length xs), s, e, st)" "sll (store st) s xs" "xs \<noteq> []"
    by (rule sample_client) (rule that)
  have "central_run sample_env (st0, \<lambda>_. {}) (st, (\<lambda>_. {})(1 := (\<lambda>_. {}) 1 \<union> set xs))"
    by (rule central_run.Remove[OF central_run.Start _ _ r(2-5)]) simp_all
  then show thesis using that r(1,6) by (simp del: One_nat_def)
qed

text \<open>
  C22: objects never overlap.  Start from the initialised lists and let clients call \<open>RemoveRange\<close> and
  \<open>InsertRange\<close> and write to their objects in any order.  Two different objects that \<open>RemoveRange\<close>
  has handed out and that have not been returned, of the same class or of different ones, have
  disjoint bytes for the full size of their classes, one address is never an object of two classes,
  and all their bytes lie in pages that the page heap has allocated.
\<close>

theorem owned_objects_apart:
  assumes "central_start st0" "central_run env (st0, \<lambda>_. {}) (st, Own)" "x \<in> Own c" "y \<in> Own d"
  shows "(x \<noteq> y \<longrightarrow> {x..<x + class_to_size (smap st) c} \<inter> {y..<y + class_to_size (smap st) d} = {}) \<and> (x = y \<longrightarrow> c = d)
    \<and> (\<forall>b \<in> {x..<x + class_to_size (smap st) c}. b div kPageSize \<in> used_pages (pheap st)) \<and> x \<noteq> 0"
proof -
  have "central_ok st Own" using central_run_ok[OF assms(2)] central_start_ok[OF assms(1)] by simp
  then show ?thesis by (rule owned_apart_now[OF _ assms(3,4)])
qed

theorem owned_objects_apart_witness:
  "\<exists>st0 st xs. central_start st0 \<and> central_run sample_env (st0, \<lambda>_. {}) (st, (\<lambda>_. {})(1 := set xs))
     \<and> xs \<noteq> [] \<and> hd xs div kPageSize \<in> used_pages (pheap st)"
proof -
  obtain st0 st xs where r: "central_start st0" "central_run sample_env (st0, \<lambda>_. {}) (st, (\<lambda>_. {})(1 := set xs))" "xs \<noteq> []"
    by (rule sample_run) (rule that)
  then have h: "hd xs \<in> ((\<lambda>_. {})(1 := set xs)) 1" by simp
  have "central_ok st ((\<lambda>_. {})(1 := set xs))" using central_run_ok[OF r(2)] central_start_ok[OF r(1)] by simp
  then have "smap st = init_sizemap" using cinvD(1) unfolding central_ok_def by blast
  then have "0 < class_to_size (smap st) 1" using class_facts(1)[of 1] by (simp add: sizemap_facts)
  then show ?thesis using owned_objects_apart[OF r(1,2) h h] r by (intro exI[of _ st0] exI[of _ st] exI[of _ xs]) (simp del: One_nat_def)
qed

text \<open>
  C27: the counters stay exact.  After any sequence of \<open>RemoveRange\<close> and \<open>InsertRange\<close> calls and client
  writes from the initialised lists, for every class: the objects handed out, those in the transfer
  cache and the free ones counted by \<open>length()\<close> are together the objects of the \<open>num_spans\<close> spans, none
  of the 64-bit counters has wrapped around, and \<open>OverheadBytes\<close> is what these spans leave over.
\<close>

theorem central_accounting:
  assumes "central_start st0" "central_run env (st0, \<lambda>_. {}) (st, Own)" "cl \<in> classes"
  shows "finite (Own cl) \<and> int (card (Own cl)) + tc_length cl st + int (counter (central_cache st cl))
      = int (num_spans (central_cache st cl) * (class_to_pages (smap st) cl * kPageSize div class_to_size (smap st) cl))
    \<and> OverheadBytes cl st = Some (num_spans (central_cache st cl)
        * ((class_to_pages (smap st) cl * kPageSize) mod class_to_size (smap st) cl))"
proof -
  have "central_ok st Own" using central_run_ok[OF assms(2)] central_start_ok[OF assms(1)] by simp
  then show ?thesis by (rule central_accounting_now[OF _ assms(3)])
qed

theorem central_accounting_witness:
  "\<exists>st0 st xs. central_start st0 \<and> central_run sample_env (st0, \<lambda>_. {}) (st, (\<lambda>_. {})(1 := set xs)) \<and> xs \<noteq> []
    \<and> int (card (set xs)) + tc_length 1 st + int (counter (central_cache st 1)) = int (num_spans (central_cache st 1) * 1024)"
proof -
  obtain st0 st xs where r: "central_start st0" "central_run sample_env (st0, \<lambda>_. {}) (st, (\<lambda>_. {})(1 := set xs))" "xs \<noteq> []"
    by (rule sample_run) (rule that)
  have "central_ok st ((\<lambda>_. {})(1 := set xs))" using central_run_ok[OF r(2)] central_start_ok[OF r(1)] by simp
  then have "smap st = init_sizemap" using cinvD(1) unfolding central_ok_def by blast
  then have "class_to_pages (smap st) 1 * kPageSize div class_to_size (smap st) 1 = 1024"
    by (simp add: sizemap_facts class_pages_table_simps class_size_table_simps)
  then show ?thesis using central_accounting[OF r(1,2), of 1] r
    by (intro exI[of _ st0] exI[of _ st] exI[of _ xs]) (simp del: One_nat_def)
qed

section \<open>The slots of the transfer caches\<close>

definition same_slots :: "central \<Rightarrow> central \<Rightarrow> bool" where
  "same_slots st st' \<longleftrightarrow> (\<forall>c. cache_size (central_cache st' c) = cache_size (central_cache st c)
     \<and> max_cache_size (central_cache st' c) = max_cache_size (central_cache st c))"

lemma same_slots_refl [simp]: "same_slots st st" by (simp add: same_slots_def)

lemma same_slots_trans: "same_slots st st1 \<Longrightarrow> same_slots st1 st2 \<Longrightarrow> same_slots st st2"
  by (simp add: same_slots_def)

lemma ReleaseToSpans_slots: "ReleaseToSpans env cl x st = Some st' \<Longrightarrow> same_slots st st'"
  by (auto simp: ReleaseToSpans_def same_slots_def set_cfl_def Let_def split: Option.bind_splits if_splits)

lemma ReleaseListToSpans_slots:
  assumes "ReleaseListToSpans env cl s st = Some st'"
  shows "same_slots st st'"
proof (rule ReleaseListToSpans.raw_induct[OF _ assms, where P = "\<lambda>env cl s st st'. same_slots st st'"])
  fix rec :: "env \<Rightarrow> nat \<Rightarrow> nat \<Rightarrow> central \<Rightarrow> central option" and env cl s st st'
  assume IH: "\<And>env cl s st st'. rec env cl s st = Some st' \<Longrightarrow> same_slots st st'"
    and run: "(if s = 0 then Some st else Option.bind (SLL_Next s (store st))
      (\<lambda>next. Option.bind (ReleaseToSpans env cl s st) (\<lambda>st. rec env cl next st))) = Some st'"
  show "same_slots st st'"
  proof (cases "s = 0")
    case False
    then obtain q st1 where r: "ReleaseToSpans env cl s st = Some st1" "rec env cl q st1 = Some st'"
      using run by (auto split: Option.bind_splits)
    show ?thesis by (rule same_slots_trans[OF ReleaseToSpans_slots[OF r(1)] IH[OF r(2)]])
  qed (use run in simp)
qed

lemma ShrinkCache_slots:
  assumes "ShrinkCache env t force st = Some (b, st')"
  shows "cache_size (central_cache st' c) = cache_size (central_cache st c) - (if b \<and> c = t then 1 else 0)
    \<and> max_cache_size (central_cache st' c) = max_cache_size (central_cache st c)"
proof (cases "cache_size (central_cache st t) \<noteq> 0 \<and> force \<and> used_slots (central_cache st t) = cache_size (central_cache st t)")
  case True
  then obtain st1 s where s: "ReleaseListToSpans env t s st1 = Some st'" b
    "st1 = set_cfl t (\<lambda>f. f\<lparr>cache_size := cache_size f - 1, used_slots := used_slots f - 1\<rparr>) st"
    using assms by (auto simp: ShrinkCache_def Let_def split: if_splits Option.bind_splits)
  show ?thesis using ReleaseListToSpans_slots[OF s(1)] s(2) unfolding s(3) same_slots_def by (auto simp: set_cfl_def)
next
  case False
  then show ?thesis using assms by (auto simp: ShrinkCache_def Let_def set_cfl_def split: if_splits)
qed

definition slot_total :: "central \<Rightarrow> int" where
  "slot_total st = (\<Sum>c < kNumClasses. cache_size (central_cache st c))"

lemma slot_total_upd:
  assumes "t < kNumClasses" "\<And>c. cache_size (central_cache st' c) = cache_size (central_cache st c) + (if c = t then d else 0)"
  shows "slot_total st' = slot_total st + d"
  using assms(1) by (simp add: slot_total_def assms(2) sum.distrib sum.delta del: sum.lessThan_Suc)

lemma slot_total_same: "same_slots st st' \<Longrightarrow> slot_total st' = slot_total st"
  by (simp add: slot_total_def same_slots_def)

lemma EvictRandomSizeClass_slots:
  assumes "EvictRandomSizeClass env cl force st = Some (b, st')"
  shows "slot_total st' = slot_total st - (if b then 1 else 0)
    \<and> cache_size (central_cache st' cl) = cache_size (central_cache st cl) \<and> max_cache_size (central_cache st' cl) = max_cache_size (central_cache st cl)"
proof -
  define t where "t = race_counter st mod kNumClasses"
  define st1 where "st1 = st\<lparr>race_counter := (if race_counter st \<ge> kNumClasses then t else race_counter st + 1)\<rparr>"
  have tk: "t < kNumClasses" by (simp add: t_def)
  have c1: "central_cache st1 = central_cache st" by (simp add: st1_def)
  have e: "(if t = cl then Some (False, st1) else ShrinkCache env t force st1) = Some (b, st')"
    using assms by (auto simp: EvictRandomSizeClass_def Let_def t_def st1_def split: if_splits)
  show ?thesis
  proof (cases "t = cl")
    case True
    then have "\<not> b" "st' = st1" using e by simp_all
    then show ?thesis using c1 by (simp add: slot_total_def)
  next
    case False
    then have s: "ShrinkCache env t force st1 = Some (b, st')" using e by simp
    have "slot_total st' = slot_total st + (if b then - 1 else 0)"
      by (rule slot_total_upd[OF tk]) (use ShrinkCache_slots[OF s] c1 in simp)
    then show ?thesis using ShrinkCache_slots[OF s, of cl] False c1 by simp
  qed
qed

lemma MakeCacheSpace_slots:
  assumes "MakeCacheSpace env cl st = Some (b, st')" "cl < kNumClasses" "cache_size (central_cache st cl) \<le> max_cache_size (central_cache st cl)"
  shows "slot_total st' = slot_total st"
proof -
  let ?f = "central_cache st cl"
  consider "used_slots ?f < cache_size ?f \<or> cache_size ?f = max_cache_size ?f" | "\<not> used_slots ?f < cache_size ?f" "cache_size ?f < max_cache_size ?f"
    using assms(3) by linarith
  then show ?thesis
  proof cases
    case 1
    then show ?thesis using assms(1) by (auto simp: MakeCacheSpace_def split: if_splits)
  next
    case 2
    obtain b1 st1 where e1: "EvictRandomSizeClass env cl False st = Some (b1, st1)"
      using assms(1) 2 by (auto simp: MakeCacheSpace_def split: Option.bind_splits)
    note E1 = EvictRandomSizeClass_slots[OF e1]
    obtain b2 st2 where e2: "(if b1 then Some (True, st1) else EvictRandomSizeClass env cl True st1) = Some (b2, st2)"
      "(if b2 \<and> cache_size (central_cache st2 cl) < max_cache_size (central_cache st2 cl)
        then Some (True, set_cfl cl (\<lambda>f. f\<lparr>cache_size := cache_size f + 1\<rparr>) st2) else Some (False, st2)) = Some (b, st')"
      using assms(1) 2 e1 unfolding MakeCacheSpace_def by (auto split: Option.bind_splits)
    have E2: "slot_total st2 = slot_total st - (if b2 then 1 else 0)" "cache_size (central_cache st2 cl) < max_cache_size (central_cache st2 cl)"
      using E1 e2(1) EvictRandomSizeClass_slots[of env cl True st1 b2 st2] 2(2) by (auto split: if_splits)
    show ?thesis
    proof (cases b2)
      case True
      then have "st' = set_cfl cl (\<lambda>f. f\<lparr>cache_size := cache_size f + 1\<rparr>) st2" using e2(2) E2(2) by simp
      then have "slot_total st' = slot_total st2 + 1" by (intro slot_total_upd[OF assms(2)]) (simp add: set_cfl_def)
      then show ?thesis using E2(1) True by simp
    qed (use e2(2) E2 in simp)
  qed
qed

text \<open>
  Slots are only moved between the transfer caches.  Making room for a range takes the slot from
  another class: no \<open>InsertRange\<close> or \<open>RemoveRange\<close> changes the total of the cache sizes, and each
  class stays within its own maximum of at most 64.
\<close>

theorem transfer_slots_conserved:
  assumes "central_ok st Own" "cl \<in> classes"
  shows "(\<forall>s xs st'. sll (store st) s xs \<and> set xs \<subseteq> Own cl \<and> InsertRange env cl s (last xs) (int (length xs)) st = Some st'
      \<longrightarrow> slot_total st' = slot_total st)
    \<and> used_slots (central_cache st cl) \<le> cache_size (central_cache st cl)
    \<and> cache_size (central_cache st cl) \<le> max_cache_size (central_cache st cl) \<and> max_cache_size (central_cache st cl) \<le> 64
    \<and> 0 \<le> used_slots (central_cache st cl)"
proof -
  obtain L C T where c: "cinv L C T st" using assms(1) unfolding central_ok_def by blast
  have k: "cl < kNumClasses" using assms(2) by simp
  note tc = cinvD(8)[OF c k, unfolded tc_ok_def]
  have "slot_total st' = slot_total st" if I: "InsertRange env cl s e N st = Some st'" for s e N st'
  proof -
    obtain b st1 where m: "(if N = int (num_objects_to_move (smap st) cl) then MakeCacheSpace env cl st else Some (False, st)) = Some (b, st1)"
      "b \<Longrightarrow> \<forall>c. cache_size (central_cache st' c) = cache_size (central_cache st1 c)" "\<not> b \<Longrightarrow> ReleaseListToSpans env cl s st1 = Some st'"
      using I unfolding InsertRange_def by (auto simp: Let_def set_cfl_def split: Option.bind_splits if_splits)
    have "slot_total st1 = slot_total st"
      using m(1) MakeCacheSpace_slots[of env cl st b st1] k tc by (auto split: if_splits)
    moreover have "slot_total st' = slot_total st1"
    proof (cases b)
      case True
      then show ?thesis using m(2) by (simp add: slot_total_def)
    qed (use m(3) ReleaseListToSpans_slots slot_total_same in blast)
    ultimately show ?thesis by simp
  qed
  then show ?thesis using tc by auto
qed

theorem transfer_slots_conserved_witness:
  "\<exists>st xs s st'. xs \<noteq> [] \<and> InsertRange sample_env 1 s (last xs) (int (length xs)) st = Some st' \<and> slot_total st' = slot_total st"
proof -
  obtain xs s st where r: "sll (store st) s xs" "xs \<noteq> []" "central_ok st ((\<lambda>_. {})(1 := set xs))"
    by (rule sample_client) (rule that)
  have 1: "(1 :: nat) \<in> classes" and sub: "set xs \<subseteq> ((\<lambda>_. {})(1 := set xs)) 1" by simp_all
  obtain st' where i: "InsertRange sample_env 1 s (last xs) (int (length xs)) st = Some st'"
    by (rule InsertRange_central_ok[OF r(3) 1 r(1) refl sub, of sample_env]) (rule that)
  then show ?thesis using transfer_slots_conserved[OF r(3) 1, of sample_env] r(1,2) sub by blast
qed

end
