(* ===== verification/ThreadCache.thy ===== *)
theory ThreadCache
  imports Sampler CentralFreeListThms "HOL-Library.Signed_Division"
begin

text \<open>
  The thread caches (\<open>thread_cache.h\<close>, \<open>thread_cache.cc\<close>): the free lists of a thread, their exchange
  with the central lists, and the budget that the caches share.  A cache is an object in \<open>heaps\<close>,
  by its address; the lists run through the \<open>store\<close> of the central state.  Thread-specific data is a
  map from thread ids to caches.  Calls are atomic, and \<open>pthread_setspecific\<close> does not call back.
\<close>

section \<open>The free list of a class\<close>

definition two32 :: nat where "two32 = 2 ^ 32"

record freelist =
  fl_list :: nat
  fl_length :: nat
  fl_lowater :: nat
  fl_max_length :: nat
  fl_length_overages :: nat

definition fl_Init :: freelist where
  "fl_Init = \<lparr>fl_list = 0, fl_length = 0, fl_lowater = 0, fl_max_length = 1, fl_length_overages = 0\<rparr>"

definition fl_empty :: "freelist \<Rightarrow> bool" where
  "fl_empty f \<longleftrightarrow> fl_list f = 0"

definition clear_lowwatermark :: "freelist \<Rightarrow> freelist" where
  "clear_lowwatermark f = f\<lparr>fl_lowater := fl_length f\<rparr>"

definition fl_Push :: "nat \<Rightarrow> freelist \<Rightarrow> words \<Rightarrow> (freelist \<times> words) option" where
  "fl_Push p f w = do {
     (l, w) \<leftarrow> SLL_Push (fl_list f) p w;
     Some (f\<lparr>fl_list := l, fl_length := (fl_length f + 1) mod two32\<rparr>, w) }"

text \<open>\<open>length_ -= n\<close> on 32 bits, and the low-water mark.\<close>

definition shorten :: "nat \<Rightarrow> freelist \<Rightarrow> freelist" where
  "shorten n f = (let l = (fl_length f + (two32 - n mod two32)) mod two32
     in f\<lparr>fl_length := l, fl_lowater := (if l < fl_lowater f then l else fl_lowater f)\<rparr>)"

definition fl_Pop :: "freelist \<Rightarrow> words \<Rightarrow> (nat \<times> freelist) option" where
  "fl_Pop f w = do {
     check (fl_list f \<noteq> 0);
     let f = shorten 1 f;
     (r, l) \<leftarrow> SLL_Pop (fl_list f) w;
     Some (r, f\<lparr>fl_list := l\<rparr>) }"

text \<open>\<open>Next()\<close> reads through the address of \<open>list_\<close>: it is the head of the list.\<close>

definition fl_Next :: "freelist \<Rightarrow> nat" where
  "fl_Next f = fl_list f"

definition fl_PushRange :: "int \<Rightarrow> nat \<Rightarrow> nat \<Rightarrow> freelist \<Rightarrow> words \<Rightarrow> (freelist \<times> words) option" where
  "fl_PushRange N start e f w = do {
     (l, w) \<leftarrow> SLL_PushRange (fl_list f) start e w;
     Some (f\<lparr>fl_list := l, fl_length := nat ((int (fl_length f) + N) mod int two32)\<rparr>, w) }"

definition fl_PopRange :: "int \<Rightarrow> freelist \<Rightarrow> words \<Rightarrow> (freelist \<times> nat \<times> nat \<times> words) option" where
  "fl_PopRange N f w = do {
     (l, start, e, w) \<leftarrow> SLL_PopRange (fl_list f) N w;
     let n = nat (N mod int two32);
     check (n \<le> fl_length f);
     Some ((shorten n f)\<lparr>fl_list := l\<rparr>, start, e, w) }"

section \<open>A cache and the central lists\<close>

record thread_cache =
  tc_next :: nat
  tc_prev :: nat
  tc_size :: nat
  tc_max_size :: nat
  tc_sampler :: sampler
  tc_list :: "nat \<Rightarrow> freelist"
  tc_tid :: nat
  tc_in_setspecific :: bool

definition set_list :: "nat \<Rightarrow> freelist \<Rightarrow> thread_cache \<Rightarrow> thread_cache" where
  "set_list cl f tc = tc\<lparr>tc_list := (tc_list tc)(cl := f)\<rparr>"

text \<open>The growth of \<open>max_length\<close> at the end of \<open>FetchFromCentralCache\<close>.\<close>

definition grow_max_length :: "int \<Rightarrow> freelist \<Rightarrow> freelist option" where
  "grow_max_length batch_size f =
     (if int (fl_max_length f) < batch_size then Some (f\<lparr>fl_max_length := fl_max_length f + 1\<rparr>)
      else do {
        let new_length = min (to_int32 (int (fl_max_length f) + batch_size)) (int kMaxDynamicFreeListLength);
        check (batch_size \<noteq> 0);
        let new_length = new_length - new_length smod batch_size;
        check (new_length smod batch_size = 0);
        Some (f\<lparr>fl_max_length := nat (new_length mod int two32)\<rparr>) })"

definition FetchFromCentralCache ::
  "env \<Rightarrow> nat \<Rightarrow> nat \<Rightarrow> thread_cache \<Rightarrow> central \<Rightarrow> (nat \<times> thread_cache \<times> central) option" where
  "FetchFromCentralCache env cl byte_size tc st = do {
     let list = tc_list tc cl;
     check (fl_empty list);
     let batch_size = int (num_objects_to_move (smap st) cl);
     let num_to_move = min (to_int32 (int (fl_max_length list))) batch_size;
     (fetch_count, start, e, st) \<leftarrow> RemoveRange env cl num_to_move st;
     check ((start = 0) = (fetch_count = 0));
     let fetch_count = fetch_count - 1;
     (tc, list, w) \<leftarrow>
       (if fetch_count \<ge> 0 then do {
          next \<leftarrow> SLL_Next start (store st);
          (list, w) \<leftarrow> fl_PushRange fetch_count next e list (store st);
          Some (tc\<lparr>tc_size := add64 (tc_size tc) (byte_size * nat fetch_count)\<rparr>, list, w) }
        else Some (tc, list, store st));
     list \<leftarrow> grow_max_length batch_size list;
     Some (start, set_list cl list tc, st\<lparr>store := w\<rparr>) }"

definition Allocate ::
  "env \<Rightarrow> nat \<Rightarrow> nat \<Rightarrow> thread_cache \<Rightarrow> central \<Rightarrow> (nat \<times> thread_cache \<times> central) option" where
  "Allocate env sz cl tc st = do {
     check (sz \<le> kMaxSize);
     check (sz = ByteSizeForClass (smap st) cl);
     if fl_empty (tc_list tc cl) then FetchFromCentralCache env cl sz tc st
     else do {
       let tc = tc\<lparr>tc_size := sub64 (tc_size tc) sz\<rparr>;
       (r, f) \<leftarrow> fl_Pop (tc_list tc cl) (store st);
       Some (r, set_list cl f tc, st) } }"

text \<open>The loop of \<open>ReleaseToCentralCache\<close>.\<close>

partial_function (option) release_chunks ::
  "env \<Rightarrow> nat \<Rightarrow> int \<Rightarrow> int \<Rightarrow> freelist \<Rightarrow> central \<Rightarrow> (int \<times> freelist \<times> central) option" where
  "release_chunks env cl batch_size N src st =
     (if N > batch_size
      then Option.bind (fl_PopRange batch_size src (store st)) (\<lambda>(src, head, tail, w).
        Option.bind (InsertRange env cl head tail batch_size (st\<lparr>store := w\<rparr>)) (\<lambda>st.
          release_chunks env cl batch_size (N - batch_size) src st))
      else Some (N, src, st))"

declare release_chunks.simps [code]

definition ReleaseToCentralCache ::
  "env \<Rightarrow> nat \<Rightarrow> int \<Rightarrow> thread_cache \<Rightarrow> central \<Rightarrow> (thread_cache \<times> central) option" where
  "ReleaseToCentralCache env cl N tc st = do {
     let src = tc_list tc cl;
     let N = (if N < 0 \<or> N > int (fl_length src) then to_int32 (int (fl_length src)) else N);
     let delta_bytes = nat ((N * int (ByteSizeForClass (smap st) cl)) mod int two64);
     (N, src, st) \<leftarrow> release_chunks env cl (int (num_objects_to_move (smap st) cl)) N src st;
     (src, head, tail, w) \<leftarrow> fl_PopRange N src (store st);
     st \<leftarrow> InsertRange env cl head tail N (st\<lparr>store := w\<rparr>);
     Some ((set_list cl src tc)\<lparr>tc_size := sub64 (tc_size tc) delta_bytes\<rparr>, st) }"

definition ListTooLong :: "env \<Rightarrow> nat \<Rightarrow> thread_cache \<Rightarrow> central \<Rightarrow> (thread_cache \<times> central) option" where
  "ListTooLong env cl tc st = do {
     let batch_size = num_objects_to_move (smap st) cl;
     (tc, st) \<leftarrow> ReleaseToCentralCache env cl (int batch_size) tc st;
     let f = tc_list tc cl;
     f \<leftarrow> (if fl_max_length f < batch_size then Some (f\<lparr>fl_max_length := fl_max_length f + 1\<rparr>)
       else if fl_max_length f > batch_size then do {
         let f = f\<lparr>fl_length_overages := (fl_length_overages f + 1) mod two32\<rparr>;
         if fl_length_overages f > kMaxOverages then do {
           check (fl_max_length f > batch_size);
           Some (f\<lparr>fl_max_length := fl_max_length f - batch_size, fl_length_overages := 0\<rparr>) }
         else Some f }
       else Some f);
     Some (set_list cl f tc, st) }"

text \<open>The body of the loop of \<open>Scavenge\<close>.\<close>

definition scavenge_class :: "env \<Rightarrow> nat \<Rightarrow> thread_cache \<times> central \<Rightarrow> (thread_cache \<times> central) option" where
  "scavenge_class env cl = (\<lambda>(tc, st). do {
     let lowmark = to_int32 (int (fl_lowater (tc_list tc cl)));
     (tc, st) \<leftarrow>
       (if lowmark > 0 then do {
          let drop = (if lowmark > 1 then lowmark div 2 else 1);
          (tc, st) \<leftarrow> ReleaseToCentralCache env cl drop tc st;
          let f = tc_list tc cl;
          let batch_size = num_objects_to_move (smap st) cl;
          let f = (if fl_max_length f > batch_size
            then f\<lparr>fl_max_length := nat (max (to_int32 (int (fl_max_length f) - int batch_size)) (int batch_size))\<rparr>
            else f);
          Some (set_list cl f tc, st) }
        else Some (tc, st));
     Some (set_list cl (clear_lowwatermark (tc_list tc cl)) tc, st) })"

definition Cleanup :: "env \<Rightarrow> thread_cache \<Rightarrow> central \<Rightarrow> (thread_cache \<times> central) option" where
  "Cleanup env tc st = ofold (\<lambda>cl (tc, st).
     if fl_length (tc_list tc cl) > 0
     then ReleaseToCentralCache env cl (to_int32 (int (fl_length (tc_list tc cl)))) tc st
     else Some (tc, st)) [0..<kNumClasses] (tc, st)"

section \<open>All caches\<close>

definition sizeof_ThreadCache :: nat where [simp]: "sizeof_ThreadCache = 2176"

text \<open>\<open>tls\<close> is the thread-specific pointer of each thread, \<open>None\<close> in \<open>heaps\<close> no live object.\<close>

record threads =
  cent :: central
  heaps :: "nat \<Rightarrow> thread_cache option"
  threadcache_allocator :: allocator
  thread_heaps :: nat
  thread_heap_count :: int
  next_memory_steal :: nat
  overall_thread_cache_size :: nat
  per_thread_cache_size :: nat
  unclaimed_cache_space :: int
  tsd_inited :: bool
  tls :: "nat \<Rightarrow> nat"

definition on_heap :: "nat \<Rightarrow> (thread_cache \<Rightarrow> thread_cache) \<Rightarrow> threads \<Rightarrow> threads option" where
  "on_heap h f S = do { tc \<leftarrow> heaps S h; Some (S\<lparr>heaps := (heaps S)(h \<mapsto> f tc)\<rparr>) }"

text \<open>The loop of \<open>IncreaseCacheLimitLocked\<close>, with the iterations that are left.\<close>

fun steal_loop :: "nat \<Rightarrow> nat \<Rightarrow> threads \<Rightarrow> threads option" where
  "steal_loop 0 this S = Some S"
| "steal_loop (Suc k) this S = do {
     p \<leftarrow> (if next_memory_steal S = 0 then do { check (thread_heaps S \<noteq> 0); Some (thread_heaps S) }
       else Some (next_memory_steal S));
     v \<leftarrow> heaps S p;
     if p = this \<or> tc_max_size v \<le> kMinThreadCacheSize
     then steal_loop k this (S\<lparr>next_memory_steal := tc_next v\<rparr>)
     else do {
       S \<leftarrow> on_heap p (\<lambda>v. v\<lparr>tc_max_size := sub64 (tc_max_size v) kStealAmount\<rparr>) S;
       S \<leftarrow> on_heap this (\<lambda>t. t\<lparr>tc_max_size := add64 (tc_max_size t) kStealAmount\<rparr>) S;
       Some (S\<lparr>next_memory_steal := tc_next v\<rparr>) } }"

definition IncreaseCacheLimitLocked :: "nat \<Rightarrow> threads \<Rightarrow> threads option" where
  "IncreaseCacheLimitLocked this S =
     (if unclaimed_cache_space S > 0
      then on_heap this (\<lambda>t. t\<lparr>tc_max_size := add64 (tc_max_size t) kStealAmount\<rparr>)
        (S\<lparr>unclaimed_cache_space := unclaimed_cache_space S - int kStealAmount\<rparr>)
      else steal_loop 10 this S)"

definition Scavenge :: "env \<Rightarrow> nat \<Rightarrow> threads \<Rightarrow> threads option" where
  "Scavenge env this S = do {
     tc \<leftarrow> heaps S this;
     (tc, st) \<leftarrow> ofold (scavenge_class env) [0..<kNumClasses] (tc, cent S);
     IncreaseCacheLimitLocked this (S\<lparr>heaps := (heaps S)(this \<mapsto> tc), cent := st\<rparr>) }"

text \<open>A 64-bit value as \<open>ssize_t\<close>.\<close>

definition ssize :: "nat \<Rightarrow> int" where
  "ssize x = signed_take_bit 63 (int x)"

definition Deallocate :: "env \<Rightarrow> nat \<Rightarrow> nat \<Rightarrow> nat \<Rightarrow> threads \<Rightarrow> threads option" where
  "Deallocate env this ptr cl S = do {
     tc \<leftarrow> heaps S this;
     let st = cent S;
     let sz = add64 (tc_size tc) (ByteSizeForClass (smap st) cl);
     let size_headroom = ssize (sub64 (sub64 (tc_max_size tc) sz) 1);
     check (ptr \<noteq> fl_Next (tc_list tc cl));
     (f, w) \<leftarrow> fl_Push ptr (tc_list tc cl) (store st);
     let tc = (set_list cl f tc)\<lparr>tc_size := sz\<rparr>;
     let st = st\<lparr>store := w\<rparr>;
     let list_headroom = int (fl_max_length f) - int (fl_length f);
     if list_headroom < 0 \<or> size_headroom < 0 then do {
       (tc, st) \<leftarrow> (if list_headroom < 0 then ListTooLong env cl tc st else Some (tc, st));
       let S = S\<lparr>heaps := (heaps S)(this \<mapsto> tc), cent := st\<rparr>;
       if tc_size tc \<ge> tc_max_size tc then Scavenge env this S else Some S }
     else Some (S\<lparr>heaps := (heaps S)(this \<mapsto> tc), cent := st\<rparr>) }"

section \<open>Creation and deletion\<close>

text \<open>\<open>Init\<close> of the cache at \<open>this\<close>; the low 32 bits of the thread id seed the sampler.\<close>

definition tc_Init :: "(nat \<Rightarrow> nat) \<Rightarrow> nat \<Rightarrow> nat \<Rightarrow> threads \<Rightarrow> threads option" where
  "tc_Init interval this tid S = do {
     S \<leftarrow> on_heap this (\<lambda>t. t\<lparr>tc_size := 0, tc_max_size := 0\<rparr>) S;
     S \<leftarrow> IncreaseCacheLimitLocked this S;
     t \<leftarrow> heaps S this;
     S \<leftarrow> (if tc_max_size t = 0 then do {
         S \<leftarrow> on_heap this (\<lambda>t. t\<lparr>tc_max_size := kMinThreadCacheSize\<rparr>) S;
         let S = S\<lparr>unclaimed_cache_space := unclaimed_cache_space S - int kMinThreadCacheSize\<rparr>;
         check (unclaimed_cache_space S < 0);
         Some S }
       else Some S);
     on_heap this (\<lambda>t. t\<lparr>tc_next := 0, tc_prev := 0, tc_tid := tid, tc_in_setspecific := False,
       tc_list := (\<lambda>cl. if cl < kNumClasses then fl_Init else tc_list t cl),
       tc_sampler := Sampler_Init interval this (take_bit 32 tid) (tc_sampler t)\<rparr>) S }"

text \<open>\<open>NewHeap\<close>; \<open>raw\<close> is what the fresh memory holds.\<close>

definition NewHeap :: "(nat \<Rightarrow> nat) \<Rightarrow> thread_cache \<Rightarrow> nat \<Rightarrow> threads \<Rightarrow> (nat \<times> threads) option" where
  "NewHeap interval raw tid S = do {
     (heap, a) \<leftarrow> pha_New sizeof_ThreadCache (threadcache_allocator S);
     S \<leftarrow> tc_Init interval heap tid (S\<lparr>threadcache_allocator := a, heaps := (heaps S)(heap \<mapsto> raw)\<rparr>);
     S \<leftarrow> on_heap heap (\<lambda>t. t\<lparr>tc_next := thread_heaps S, tc_prev := 0\<rparr>) S;
     S \<leftarrow> (if thread_heaps S \<noteq> 0 then on_heap (thread_heaps S) (\<lambda>t. t\<lparr>tc_prev := heap\<rparr>) S
       else do { check (next_memory_steal S = 0); Some (S\<lparr>next_memory_steal := heap\<rparr>) });
     Some (heap, S\<lparr>thread_heaps := heap, thread_heap_count := thread_heap_count S + 1\<rparr>) }"

definition DeleteCache :: "env \<Rightarrow> nat \<Rightarrow> threads \<Rightarrow> threads option" where
  "DeleteCache env heap S = do {
     tc \<leftarrow> heaps S heap;
     (tc, st) \<leftarrow> Cleanup env tc (cent S);
     let S = S\<lparr>heaps := (heaps S)(heap \<mapsto> tc), cent := st\<rparr>;
     S \<leftarrow> (if tc_next tc \<noteq> 0 then on_heap (tc_next tc) (\<lambda>t. t\<lparr>tc_prev := tc_prev tc\<rparr>) S else Some S);
     S \<leftarrow> (if tc_prev tc \<noteq> 0 then on_heap (tc_prev tc) (\<lambda>t. t\<lparr>tc_next := tc_next tc\<rparr>) S else Some S);
     let S = (if thread_heaps S = heap then S\<lparr>thread_heaps := tc_next tc\<rparr> else S);
     let S = S\<lparr>thread_heap_count := thread_heap_count S - 1\<rparr>;
     let S = (if next_memory_steal S = heap then S\<lparr>next_memory_steal := tc_next tc\<rparr> else S);
     let S = (if next_memory_steal S = 0 then S\<lparr>next_memory_steal := thread_heaps S\<rparr> else S);
     Some (S\<lparr>unclaimed_cache_space := unclaimed_cache_space S + int (tc_max_size tc),
       threadcache_allocator := pha_Delete heap (threadcache_allocator S), heaps := (heaps S)(heap := None)\<rparr>) }"

text \<open>The search of \<open>CreateCacheIfNecessary\<close> through the list of caches.\<close>

partial_function (option) find_heap :: "nat \<Rightarrow> nat \<Rightarrow> threads \<Rightarrow> nat option" where
  "find_heap me h S =
     (if h = 0 then Some 0
      else Option.bind (heaps S h) (\<lambda>t. if tc_tid t = me then Some h else find_heap me (tc_next t) S))"

declare find_heap.simps [code]

definition CreateCacheIfNecessary ::
  "(nat \<Rightarrow> nat) \<Rightarrow> thread_cache \<Rightarrow> nat \<Rightarrow> threads \<Rightarrow> (nat \<times> threads) option" where
  "CreateCacheIfNecessary interval raw me S = do {
     heap \<leftarrow> find_heap me (thread_heaps S) S;
     (heap, S) \<leftarrow> (if heap = 0 then NewHeap interval raw me S else Some (heap, S));
     t \<leftarrow> heaps S heap;
     if \<not> tc_in_setspecific t \<and> tsd_inited S then Some (heap, S\<lparr>tls := (tls S)(me := heap)\<rparr>)
     else Some (heap, S) }"

text \<open>\<open>GetThreadHeap\<close> is \<open>tls\<close>; the module is initialised.\<close>

definition GetCache :: "(nat \<Rightarrow> nat) \<Rightarrow> thread_cache \<Rightarrow> nat \<Rightarrow> threads \<Rightarrow> (nat \<times> threads) option" where
  "GetCache interval raw me S =
     (let ptr = (if tsd_inited S then tls S me else 0)
      in if ptr = 0 then CreateCacheIfNecessary interval raw me S else Some (ptr, S))"

definition GetCacheIfPresent :: "nat \<Rightarrow> threads \<Rightarrow> nat" where
  "GetCacheIfPresent me S = (if tsd_inited S then tls S me else 0)"

definition InitTSD :: "threads \<Rightarrow> threads option" where
  "InitTSD S = do { check (\<not> tsd_inited S); Some (S\<lparr>tsd_inited := True\<rparr>) }"

definition BecomeIdle :: "env \<Rightarrow> nat \<Rightarrow> threads \<Rightarrow> threads option" where
  "BecomeIdle env me S =
     (if \<not> tsd_inited S then Some S
      else if tls S me = 0 then Some S
      else do {
        t \<leftarrow> heaps S (tls S me);
        if tc_in_setspecific t then Some S
        else DeleteCache env (tls S me) (S\<lparr>tls := (tls S)(me := 0)\<rparr>) })"

text \<open>The destructor of the thread \<open>me\<close>, called with its pointer.\<close>

definition DestroyThreadCache :: "env \<Rightarrow> nat \<Rightarrow> nat \<Rightarrow> threads \<Rightarrow> threads option" where
  "DestroyThreadCache env me ptr S =
     (if ptr = 0 then Some S else DeleteCache env ptr (S\<lparr>tls := (tls S)(me := 0)\<rparr>))"

section \<open>The shared budget\<close>

text \<open>
  The caches along the list, with \<open>f\<close> applied to each; \<open>scaled\<close> is the floating-point product
  \<open>max_size_ * ratio\<close>, and the ratio is below 1 exactly when \<open>space\<close> is below the divisor.
\<close>

partial_function (option) each_heap :: "(thread_cache \<Rightarrow> thread_cache) \<Rightarrow> nat \<Rightarrow> nat \<Rightarrow> threads \<Rightarrow> (nat \<times> threads) option" where
  "each_heap f h claimed S =
     (if h = 0 then Some (claimed, S)
      else Option.bind (heaps S h) (\<lambda>t.
        each_heap f (tc_next t) (add64 claimed (tc_max_size (f t))) (S\<lparr>heaps := (heaps S)(h \<mapsto> f t)\<rparr>)))"

declare each_heap.simps [code]

definition RecomputePerThreadCacheSize :: "(nat \<Rightarrow> nat \<Rightarrow> nat \<Rightarrow> nat) \<Rightarrow> threads \<Rightarrow> threads option" where
  "RecomputePerThreadCacheSize scaled S = do {
     let n = (if thread_heap_count S > 0 then nat (thread_heap_count S) else 1);
     let space = overall_thread_cache_size S div n;
     let space = (if space < kMinThreadCacheSize then kMinThreadCacheSize else space);
     let space = (if space > kMaxThreadCacheSize then kMaxThreadCacheSize else space);
     let divisor = max 1 (per_thread_cache_size S);
     (claimed, S) \<leftarrow> each_heap (\<lambda>t. if space < divisor then t\<lparr>tc_max_size := scaled space divisor (tc_max_size t)\<rparr> else t)
       (thread_heaps S) 0 S;
     Some (S\<lparr>unclaimed_cache_space := ssize (sub64 (overall_thread_cache_size S) claimed),
       per_thread_cache_size := space\<rparr>) }"

definition set_overall_thread_cache_size :: "(nat \<Rightarrow> nat \<Rightarrow> nat \<Rightarrow> nat) \<Rightarrow> nat \<Rightarrow> threads \<Rightarrow> threads option" where
  "set_overall_thread_cache_size scaled new_size S =
     (let new_size = (if new_size < kMinThreadCacheSize then kMinThreadCacheSize else new_size);
          new_size = (if new_size > 2 ^ 30 then 2 ^ 30 else new_size)
      in RecomputePerThreadCacheSize scaled (S\<lparr>overall_thread_cache_size := new_size\<rparr>))"

text \<open>The total size and, per class, the number of objects, added to the given values.\<close>

partial_function (option) GetThreadStats :: "nat \<Rightarrow> nat \<Rightarrow> (nat \<Rightarrow> nat) \<Rightarrow> threads \<Rightarrow> (nat \<times> (nat \<Rightarrow> nat)) option" where
  "GetThreadStats h total_bytes class_count S =
     (if h = 0 then Some (total_bytes, class_count)
      else Option.bind (heaps S h) (\<lambda>t.
        GetThreadStats (tc_next t) (add64 total_bytes (tc_size t))
          (\<lambda>cl. if cl < kNumClasses then add64 (class_count cl) (fl_length (tc_list t cl)) else class_count cl) S))"

declare GetThreadStats.simps [code]

text \<open>\<open>Allocate\<close> of the cache at \<open>this\<close>.\<close>

definition cache_Allocate :: "env \<Rightarrow> nat \<Rightarrow> nat \<Rightarrow> nat \<Rightarrow> threads \<Rightarrow> (nat \<times> threads) option" where
  "cache_Allocate env this sz cl S = do {
     tc \<leftarrow> heaps S this;
     (r, tc, st) \<leftarrow> Allocate env sz cl tc (cent S);
     Some (r, S\<lparr>heaps := (heaps S)(this \<mapsto> tc), cent := st\<rparr>) }"

definition HeapsInUse :: "threads \<Rightarrow> int" where
  "HeapsInUse S = inuse (threadcache_allocator S)"

text \<open>The static variables at start-up, over the central lists \<open>st\<close>; \<open>a\<close> is the pool after its \<open>Init\<close>.\<close>

definition initial_threads :: "central \<Rightarrow> allocator \<Rightarrow> threads" where
  "initial_threads st a = \<lparr>cent = st, heaps = Map.empty, threadcache_allocator = a, thread_heaps = 0, thread_heap_count = 0,
     next_memory_steal = 0, overall_thread_cache_size = kDefaultOverallThreadCacheSize,
     per_thread_cache_size = kMaxThreadCacheSize, unclaimed_cache_space = int kDefaultOverallThreadCacheSize,
     tsd_inited = False, tls = (\<lambda>_. 0)\<rparr>"

end
