(* ===== verification/ThreadCacheLists.thy ===== *)
theory ThreadCacheLists
  imports ThreadCache
begin

text \<open>
  One thread cache against the central lists.  The contract that the cache relies on is the locale
  \<open>object_source\<close>; the facts about its free lists, from \<open>Push\<close> to \<open>Cleanup\<close>, are proved inside it.
\<close>

section \<open>A free list\<close>

definition fl_ok :: "words \<Rightarrow> freelist \<Rightarrow> nat list \<Rightarrow> bool" where
  "fl_ok w f xs \<longleftrightarrow> sll w (fl_list f) xs \<and> fl_length f = length xs \<and> fl_lowater f \<le> length xs \<and> length xs < 2 ^ 31"

text \<open>\<open>max_length\<close> grows by one up to the batch size, and stays a multiple of it from there on.\<close>

definition max_ok :: "nat \<Rightarrow> freelist \<Rightarrow> bool" where
  "max_ok cl f \<longleftrightarrow> 1 \<le> fl_max_length f \<and> fl_max_length f \<le> kMaxDynamicFreeListLength
     \<and> (fl_max_length f < batch cl \<or> batch cl dvd fl_max_length f) \<and> fl_length_overages f \<le> kMaxOverages"

definition same_max :: "freelist \<Rightarrow> freelist \<Rightarrow> bool" where
  "same_max f g \<longleftrightarrow> fl_max_length g = fl_max_length f \<and> fl_length_overages g = fl_length_overages f"

lemma max_ok_same: "max_ok cl f \<Longrightarrow> same_max f g \<Longrightarrow> max_ok cl g"
  by (simp add: max_ok_def same_max_def)

lemma same_max_refl [simp]: "same_max f f" by (simp add: same_max_def)

lemma same_max_trans: "same_max f g \<Longrightarrow> same_max g h \<Longrightarrow> same_max f h"
  by (simp add: same_max_def)

lemma fl_ok_cong: "\<forall>x \<in> set xs. w' x = w x \<Longrightarrow> fl_ok w' f xs = fl_ok w f xs"
  by (simp add: fl_ok_def seg_cong[of xs w' w])

lemma fl_okD: "fl_ok w f xs \<Longrightarrow> distinct xs \<and> fl_length f = length xs \<and> (fl_empty f \<longleftrightarrow> xs = []) \<and> length xs < 2 ^ 31 \<and> fl_lowater f \<le> length xs"
  using sll_distinct sll_nil unfolding fl_ok_def fl_empty_def by blast

lemma fl_ok_max [simp]:
  "fl_ok w (f\<lparr>fl_max_length := n\<rparr>) xs = fl_ok w f xs" "fl_ok w (f\<lparr>fl_length_overages := n\<rparr>) xs = fl_ok w f xs"
  by (simp_all add: fl_ok_def)

lemma fl_ok_Nil [simp]: "fl_ok w f [] \<longleftrightarrow> fl_list f = 0 \<and> fl_length f = 0 \<and> fl_lowater f = 0"
  by (auto simp: fl_ok_def)

lemma fl_ok_clear [simp]: "fl_ok w f xs \<Longrightarrow> fl_ok w (clear_lowwatermark f) xs" "same_max f (clear_lowwatermark f)"
  by (simp_all add: fl_ok_def clear_lowwatermark_def same_max_def)

lemma shorten_ok:
  assumes "fl_length f = n + m" "n + m < 2 ^ 31"
  shows "fl_length (shorten n f) = m" "fl_lowater (shorten n f) \<le> m" "same_max f (shorten n f)" "fl_list (shorten n f) = fl_list f"
proof -
  have "n mod two32 = n" using assms(2) by (simp add: two32_def)
  then have "(fl_length f + (two32 - n mod two32)) mod two32 = m"
    using assms by (simp add: two32_def)
  then show "fl_length (shorten n f) = m" "fl_lowater (shorten n f) \<le> m" "same_max f (shorten n f)" "fl_list (shorten n f) = fl_list f"
    by (simp_all add: shorten_def Let_def same_max_def)
qed

lemma fl_Push_ok:
  assumes "fl_ok w f xs" "x \<noteq> 0" "x \<notin> set xs" "length xs + 1 < 2 ^ 31"
  obtains f' where "fl_Push x f w = Some (f', w(x := fl_list f))" "fl_ok (w(x := fl_list f)) f' (x # xs)" "same_max f f'"
proof -
  have s: "sll w (fl_list f) xs" "fl_length f = length xs" using assms(1) by (simp_all add: fl_ok_def)
  have "(fl_length f + 1) mod two32 = length xs + 1" using assms(4) s(2) by (simp add: two32_def)
  then show thesis using SLL_Push_ok[OF s(1) assms(2,3)] assms(1,4)
    by (intro that[of "f\<lparr>fl_list := x, fl_length := length xs + 1\<rparr>"]) (auto simp: fl_Push_def fl_ok_def same_max_def)
qed

lemma fl_Pop_ok:
  assumes "fl_ok w f (x # xs)"
  obtains f' where "fl_Pop f w = Some (x, f')" "fl_ok w f' xs" "same_max f f'"
proof -
  have s: "sll w (fl_list f) (x # xs)" "fl_length f = 1 + length xs" "1 + length xs < 2 ^ 31" using assms by (simp_all add: fl_ok_def)
  note S = shorten_ok[OF s(2,3)] and P = SLL_Pop_ok[OF s(1)]
  show thesis
    by (rule that[of "(shorten 1 f)\<lparr>fl_list := w x\<rparr>"])
      (use s S P in \<open>auto simp: fl_Pop_def fl_ok_def same_max_def\<close>)
qed

lemma fl_PopRange_ok:
  assumes "fl_ok w f (xs @ ys)" "xs \<noteq> []"
  obtains f' s e w' where "fl_PopRange (int (length xs)) f w = Some (f', s, e, w')" "fl_ok w' f' ys" "sll w' s xs" "e = last xs"
    "\<forall>y. y \<notin> set xs \<longrightarrow> w' y = w y" "same_max f f'"
proof -
  have s: "sll w (fl_list f) (xs @ ys)" "fl_length f = length xs + length ys" "length xs + length ys < 2 ^ 31"
    using assms(1) by (simp_all add: fl_ok_def)
  note S = shorten_ok[OF s(2,3)] and P = SLL_PopRange_ok[OF s(1) assms(2)]
  have n: "nat (int (length xs) mod int two32) = length xs" using s(3) by (simp add: two32_def nat_mod_distrib)
  show thesis
  proof (rule that)
    show "fl_PopRange (int (length xs)) f w = Some ((shorten (length xs) f)\<lparr>fl_list := if ys = [] then 0 else hd ys\<rparr>,
        hd xs, last xs, w(last xs := 0))"
      using P n s(2) by (simp add: fl_PopRange_def)
    show "fl_ok (w(last xs := 0)) ((shorten (length xs) f)\<lparr>fl_list := if ys = [] then 0 else hd ys\<rparr>) ys"
      using P S s(3) by (simp add: fl_ok_def)
    show "sll (w(last xs := 0)) (hd xs) xs" using P by blast
    show "same_max f ((shorten (length xs) f)\<lparr>fl_list := if ys = [] then 0 else hd ys\<rparr>)" using S(3) by (simp add: same_max_def)
  qed (use assms(2) in auto)
qed

text \<open>A range pushed on an empty list.\<close>

lemma fl_PushRange_ok:
  assumes "fl_ok w f []" "sll w s ys" "ys \<noteq> [] \<longrightarrow> e = last ys" "length ys < 2 ^ 31"
  obtains f' where "fl_PushRange (int (length ys)) s e f w = Some (f', w)" "fl_ok w f' ys" "same_max f f'"
proof -
  have n: "nat ((int (fl_length f) + int (length ys)) mod int two32) = length ys"
    using assms(1,4) by (simp add: two32_def nat_mod_distrib)
  have "SLL_PushRange (fl_list f) s e w = Some (s, w)"
  proof (cases "ys = []")
    case True
    then show ?thesis using assms(1,2) by (simp add: SLL_PushRange_def)
  next
    case False
    then obtain zs z where z: "ys = zs @ [z]" by (metis rev_exhaust)
    then have "sll w s (zs @ [z])" "e = z" using assms(2,3) False by simp_all
    then have "SLL_PushRange 0 s e w = Some (s, w(z := 0))" and "w z = 0" "z \<noteq> 0"
      using SLL_PushRange_ok[of w 0 "[]" s zs z] by (auto simp: seg_append)
    then show ?thesis using assms(1) by (simp add: fun_upd_idem)
  qed
  then show thesis using assms n
    by (intro that[of "f\<lparr>fl_list := s, fl_length := length ys\<rparr>"]) (auto simp: fl_PushRange_def fl_ok_def same_max_def)
qed

lemma batch_facts:
  assumes "cl \<in> classes"
  shows "2 \<le> batch cl" "batch cl \<le> 32" "osz cl \<le> kMaxSize"
proof -
  show "2 \<le> batch cl" "batch cl \<le> 32" using class_facts[OF assms] by simp_all
  have "mono_on classes osz" by (rule strict_mono_on_imp_mono_on[OF class_size_strict_mono])
  then have "osz cl \<le> osz 85" using assms by (elim mono_onD) simp_all
  then show "osz cl \<le> kMaxSize" unfolding class_size_last .
qed

lemma smod_nat: "int a smod int b = int (a mod b)"
  by (cases "a = 0") (simp_all add: signed_modulo_int_def zmod_int)

lemma grow_max_length_ok:
  assumes "max_ok cl f" "cl \<in> classes"
  obtains f' where "grow_max_length (int (batch cl)) f = Some f'" "max_ok cl f'" "\<And>w xs. fl_ok w f' xs = fl_ok w f xs"
proof -
  let ?b = "batch cl" and ?m = "fl_max_length f"
  note b = batch_facts[OF assms(2)]
  show thesis
  proof (cases "?m < ?b")
    case True
    then have "max_ok cl (f\<lparr>fl_max_length := ?m + 1\<rparr>)"
      using assms b unfolding max_ok_def by (cases "?m + 1 = ?b") auto
    then show thesis using True by (intro that[of "f\<lparr>fl_max_length := ?m + 1\<rparr>"]) (simp_all add: grow_max_length_def)
  next
    case False
    then have d: "?b dvd ?m" "?m \<le> 8192" using assms(1) by (auto simp: max_ok_def)
    define n where "n = min (?m + ?b) 8192"
    have i: "min (to_int32 (int ?m + int ?b)) (int kMaxDynamicFreeListLength) = int n"
      using d(2) b(2) by (simp add: to_int32_exact n_def)
    have sm: "int n smod int ?b = int (n mod ?b)" by (rule smod_nat)
    have e: "int n - int (n mod ?b) = int (n - n mod ?b)" by (simp add: of_nat_diff)
    have dv: "?b dvd n - n mod ?b" by (rule dvd_minus_mod)
    then have sm0: "int (n - n mod ?b) smod int ?b = 0" unfolding smod_nat by simp
    have nn: "n - n mod ?b \<le> 8192" by (simp add: n_def)
    have "?b * (?m div ?b) = ?m" "?m div ?b \<le> n div ?b" using d by (simp_all add: n_def div_le_mono)
    then have ge: "?m \<le> n - n mod ?b" by (metis minus_mod_eq_mult_div mult_le_mono2)
    have g: "grow_max_length (int ?b) f = Some (f\<lparr>fl_max_length := n - n mod ?b\<rparr>)"
      unfolding grow_max_length_def Let_def i sm e sm0 using False b(1) nn by (simp add: two32_def nat_mod_distrib)
    have "max_ok cl (f\<lparr>fl_max_length := n - n mod ?b\<rparr>)" using assms(1) ge nn dv by (simp add: max_ok_def)
    then show thesis using g by (intro that[of "f\<lparr>fl_max_length := n - n mod ?b\<rparr>"]) simp_all
  qed
qed

section \<open>The lists of a cache\<close>

text \<open>\<open>X cl\<close> are the objects on the list of class \<open>cl\<close>; class 0 has none.\<close>

definition cache_bytes :: "(nat \<Rightarrow> nat list) \<Rightarrow> nat" where
  "cache_bytes X = (\<Sum>cl \<in> classes. length (X cl) * osz cl)"

definition cache_ok :: "words \<Rightarrow> thread_cache \<Rightarrow> (nat \<Rightarrow> nat list) \<Rightarrow> bool" where
  "cache_ok w tc X \<longleftrightarrow> (\<forall>cl < kNumClasses. fl_ok w (tc_list tc cl) (X cl))
     \<and> (\<forall>cl \<in> classes. max_ok cl (tc_list tc cl)) \<and> (\<forall>cl. cl \<notin> classes \<longrightarrow> X cl = []) \<and> tc_size tc = cache_bytes X"

definition short :: "(nat \<Rightarrow> nat list) \<Rightarrow> bool" where
  "short X \<longleftrightarrow> (\<forall>cl. length (X cl) \<le> kMaxDynamicFreeListLength)"

lemma cache_okD:
  assumes "cache_ok w tc X"
  shows "\<And>cl. cl < kNumClasses \<Longrightarrow> fl_ok w (tc_list tc cl) (X cl)" "\<And>cl. cl \<in> classes \<Longrightarrow> max_ok cl (tc_list tc cl)"
    "\<And>cl. cl \<notin> classes \<Longrightarrow> X cl = []" "tc_size tc = cache_bytes X"
  using assms unfolding cache_ok_def by blast+

lemma cache_bytes_upd:
  assumes "cl \<in> classes"
  shows "cache_bytes (X(cl := ys)) + length (X cl) * osz cl = cache_bytes X + length ys * osz cl"
proof -
  have "(\<Sum>c \<in> classes - {cl}. length ((X(cl := ys)) c) * osz c) = (\<Sum>c \<in> classes - {cl}. length (X c) * osz c)"
    by (intro sum.cong) auto
  then show ?thesis using sum.remove[OF _ assms, of "\<lambda>c. length ((X(cl := ys)) c) * osz c"]
      sum.remove[OF _ assms, of "\<lambda>c. length (X c) * osz c"] by (simp add: cache_bytes_def)
qed

lemma cache_bytes_small:
  assumes "\<And>cl. cl \<in> classes \<Longrightarrow> length (X cl) < 2 ^ 31"
  shows "cache_bytes X < 2 ^ 56"
proof -
  have "length (X cl) * osz cl \<le> 2 ^ 31 * 2 ^ 18" if "cl \<in> classes" for cl
    using assms[OF that] batch_facts(3)[OF that] by (intro mult_le_mono) simp_all
  then have "cache_bytes X \<le> (\<Sum>cl \<in> classes. 2 ^ 31 * 2 ^ 18)" unfolding cache_bytes_def by (rule sum_mono)
  then show ?thesis by simp
qed

lemma cache_size_small:
  assumes "cache_ok w tc X"
  shows "cache_bytes X < 2 ^ 56"
  by (rule cache_bytes_small) (use cache_okD(1)[OF assms] fl_okD in fastforce)

lemma cache_ok_cong:
  assumes "\<forall>cl. \<forall>x \<in> set (X cl). w' x = w x"
  shows "cache_ok w' tc X = cache_ok w tc X"
proof -
  have "fl_ok w' f (X cl) = fl_ok w f (X cl)" for f cl using fl_ok_cong[of "X cl" w' w] assms by blast
  then show ?thesis unfolding cache_ok_def by simp
qed

text \<open>A change of one list, with the size.\<close>

lemma cache_ok_set:
  assumes "cache_ok w tc X" "cl \<in> classes" "fl_ok w' f ys" "max_ok cl f" "\<forall>c. c \<noteq> cl \<longrightarrow> (\<forall>x \<in> set (X c). w' x = w x)"
    "tc_size tc' = cache_bytes (X(cl := ys))" "tc_list tc' = (tc_list tc)(cl := f)"
  shows "cache_ok w' tc' (X(cl := ys))"
proof -
  have "fl_ok w' (tc_list tc' c) ((X(cl := ys)) c)" if "c < kNumClasses" for c
    using cache_okD(1)[OF assms(1) that] assms(3,5,7) fl_ok_cong[of "X c" w' w] by auto
  then show ?thesis unfolding cache_ok_def using cache_okD(2,3)[OF assms(1)] assms(2,4,6,7) by auto
qed

section \<open>What a cache asks of the central lists\<close>

text \<open>The bytes of the objects in the hands of any client, each over its full size.\<close>

definition held :: "(nat \<Rightarrow> nat set) \<Rightarrow> nat set" where
  "held Own = (\<Union>c. \<Union>x \<in> Own c. {x..<x + osz c})"

lemma held_mono: "(\<And>c. A c \<subseteq> B c) \<Longrightarrow> held A \<subseteq> held B"
  unfolding held_def by blast

lemma held_in: "x \<in> Own c \<Longrightarrow> c \<in> classes \<Longrightarrow> x \<in> held Own"
  using class_facts(1)[of c] unfolding held_def by (intro UN_I[of c] UN_I[of x]) simp_all

definition undisturbed :: "nat set \<Rightarrow> central \<Rightarrow> central \<Rightarrow> bool" where
  "undisturbed A st st' \<longleftrightarrow> (\<forall>y \<in> A. store st' y = store st y)"

lemma undisturbed_refl [simp]: "undisturbed A st st" by (simp add: undisturbed_def)

lemma undisturbed_trans: "undisturbed A st st1 \<Longrightarrow> undisturbed B st1 st2 \<Longrightarrow> C \<subseteq> A \<Longrightarrow> C \<subseteq> B \<Longrightarrow> undisturbed C st st2"
  unfolding undisturbed_def by (metis subsetD)

lemma undisturbed_mono: "undisturbed A st st' \<Longrightarrow> B \<subseteq> A \<Longrightarrow> undisturbed B st st'"
  unfolding undisturbed_def by blast

text \<open>
  \<open>ok st Own\<close>: the source is consistent and \<open>Own cl\<close> are the objects of class \<open>cl\<close> that clients hold;
  \<open>ready st\<close>: it has the memory to answer; \<open>dry cl st\<close>: there are no more objects of class \<open>cl\<close>.
\<close>

locale object_source =
  fixes remove :: "nat \<Rightarrow> int \<Rightarrow> central \<Rightarrow> (int \<times> nat \<times> nat \<times> central) option"
    and put_back :: "nat \<Rightarrow> nat \<Rightarrow> nat \<Rightarrow> int \<Rightarrow> central \<Rightarrow> central option"
    and ok :: "central \<Rightarrow> (nat \<Rightarrow> nat set) \<Rightarrow> bool"
    and ready :: "central \<Rightarrow> bool"
    and dry :: "nat \<Rightarrow> central \<Rightarrow> bool"
  assumes remove_law: "ok st Own \<Longrightarrow> cl \<in> classes \<Longrightarrow> 0 < N \<Longrightarrow> ready st \<Longrightarrow>
      \<exists>xs s e st'. remove cl N st = Some (int (length xs), s, e, st') \<and> int (length xs) \<le> N \<and> sll (store st') s xs
        \<and> (xs \<noteq> [] \<longrightarrow> e = last xs) \<and> set xs \<inter> Own cl = {} \<and> ok st' (Own(cl := Own cl \<union> set xs)) \<and> undisturbed (held Own) st st'
        \<and> (xs = [] \<longrightarrow> dry cl st)"
    and put_law: "ok st Own \<Longrightarrow> cl \<in> classes \<Longrightarrow> sll (store st) s xs \<Longrightarrow> xs \<noteq> [] \<Longrightarrow> e = last xs \<Longrightarrow> set xs \<subseteq> Own cl \<Longrightarrow>
      \<exists>st'. put_back cl s e (int (length xs)) st = Some st' \<and> ok st' (Own(cl := Own cl - set xs))
        \<and> undisturbed (held (Own(cl := Own cl - set xs))) st st'"
    and write_law: "ok st Own \<Longrightarrow> \<forall>y. y \<notin> held Own \<longrightarrow> w y = store st y \<Longrightarrow> ok (st\<lparr>store := w\<rparr>) Own"
    and inside_law: "ok st Own \<Longrightarrow> x \<in> Own c \<Longrightarrow> z \<in> Own d \<Longrightarrow> y \<in> {x..<x + osz c} \<Longrightarrow> y \<in> {z..<z + osz d} \<Longrightarrow> x = z \<and> c = d"
    and object_law: "ok st Own \<Longrightarrow> x \<in> Own c \<Longrightarrow> x \<noteq> 0 \<and> c \<in> classes"
    and map_law: "ok st Own \<Longrightarrow> smap st = init_sizemap"

definition same_rest :: "thread_cache \<Rightarrow> thread_cache \<Rightarrow> bool" where
  "same_rest tc tc' \<longleftrightarrow> tc'\<lparr>tc_size := tc_size tc, tc_list := tc_list tc\<rparr> = tc"

text \<open>A consistent source with a cache \<open>tc\<close> whose lists \<open>X\<close> are among the objects of the clients.\<close>

definition caching :: "(central \<Rightarrow> (nat \<Rightarrow> nat set) \<Rightarrow> bool) \<Rightarrow> (nat \<Rightarrow> nat set) \<Rightarrow> (nat \<Rightarrow> nat list) \<Rightarrow> thread_cache \<times> central \<Rightarrow> bool" where
  "caching ok Own X = (\<lambda>(tc, st). ok st Own \<and> cache_ok (store st) tc X \<and> (\<forall>c. set (X c) \<subseteq> Own c))"

text \<open>What is left of \<open>Own\<close> when the lists \<open>X\<close> have shrunk to \<open>Y\<close>.\<close>

definition less_own :: "(nat \<Rightarrow> nat set) \<Rightarrow> (nat \<Rightarrow> nat list) \<Rightarrow> (nat \<Rightarrow> nat list) \<Rightarrow> nat \<Rightarrow> nat set" where
  "less_own Own X Y c = Own c - (set (X c) - set (Y c))"

text \<open>From \<open>s\<close> to \<open>t\<close> the cache has returned all of \<open>X\<close> but \<open>Y\<close>, and nothing else of it or of the clients has changed.\<close>

definition gave_back :: "(central \<Rightarrow> (nat \<Rightarrow> nat set) \<Rightarrow> bool) \<Rightarrow> (nat \<Rightarrow> nat set) \<Rightarrow> (nat \<Rightarrow> nat list)
    \<Rightarrow> thread_cache \<times> central \<Rightarrow> (nat \<Rightarrow> nat list) \<Rightarrow> thread_cache \<times> central \<Rightarrow> bool" where
  "gave_back ok Own X s Y t \<longleftrightarrow> caching ok (less_own Own X Y) Y t \<and> (\<forall>c. \<exists>n. Y c = drop n (X c))
     \<and> undisturbed (held (\<lambda>c. Own c - set (X c))) (snd s) (snd t) \<and> same_rest (fst s) (fst t)"

lemma same_rest_trans: "same_rest a b \<Longrightarrow> same_rest b c \<Longrightarrow> same_rest a c"
  unfolding same_rest_def by (cases a; cases b; cases c) simp

lemma less_own_same [simp]: "less_own Own X X = Own"
  by (simp add: less_own_def fun_eq_iff)

lemma gave_back_refl: "caching ok Own X s \<Longrightarrow> gave_back ok Own X s X s"
  unfolding gave_back_def by (auto simp: same_rest_def intro: exI[of _ 0])

lemma gave_back_shrinks: "gave_back ok Own X s Y t \<Longrightarrow> set (Y c) \<subseteq> set (X c) \<and> length (Y c) \<le> length (X c)"
  unfolding gave_back_def by (metis diff_le_self length_drop set_drop_subset)

lemma gave_back_trans:
  assumes "gave_back ok Own X s Y t" "gave_back ok (less_own Own X Y) Y t Z u"
  shows "gave_back ok Own X s Z u"
proof -
  have s: "set (Y c) \<subseteq> set (X c)" "set (Z c) \<subseteq> set (Y c)" for c
    using gave_back_shrinks[OF assms(1)] gave_back_shrinks[OF assms(2)] by blast+
  have e: "less_own (less_own Own X Y) Y Z = less_own Own X Z"
    using s by (auto simp: less_own_def fun_eq_iff)
  have "held (\<lambda>c. Own c - set (X c)) \<subseteq> held (\<lambda>c. less_own Own X Y c - set (Y c))"
    using s(1) by (intro held_mono) (auto simp: less_own_def)
  then have "undisturbed (held (\<lambda>c. Own c - set (X c))) (snd s) (snd u)"
    using assms unfolding gave_back_def by (blast intro: undisturbed_trans)
  moreover have "\<exists>n. Z c = drop n (X c)" for c
    using assms unfolding gave_back_def by (metis drop_drop)
  moreover have "same_rest (fst s) (fst u)" using assms same_rest_trans unfolding gave_back_def by blast
  ultimately show ?thesis using assms(2) unfolding gave_back_def e by blast
qed

text \<open>A list changed only in its limits.\<close>

lemma caching_set_list:
  assumes "caching ok Own X (tc, st)" "cl \<in> classes" "fl_ok (store st) f (X cl)" "max_ok cl f"
  shows "caching ok Own X (set_list cl f tc, st)"
proof -
  have "cache_ok (store st) (set_list cl f tc) (X(cl := X cl))"
    using assms cache_okD(4)[of "store st" tc X] unfolding caching_def
    by (intro cache_ok_set[where w = "store st" and tc = tc]) (simp_all add: set_list_def)
  then show ?thesis using assms(1) unfolding caching_def by simp
qed

lemma gave_back_set_list:
  assumes "gave_back ok Own X s Y (tc, st)" "cl \<in> classes" "fl_ok (store st) f (Y cl)" "max_ok cl f"
  shows "gave_back ok Own X s Y (set_list cl f tc, st)"
  using assms caching_set_list[where X = Y and cl = cl and st = st and f = f and tc = tc]
  unfolding gave_back_def by (auto simp: same_rest_def set_list_def)

locale cached_source = object_source "RemoveRange env" "InsertRange env" ok ready dry
  for env :: env and ok :: "central \<Rightarrow> (nat \<Rightarrow> nat set) \<Rightarrow> bool" and ready :: "central \<Rightarrow> bool" and dry :: "nat \<Rightarrow> central \<Rightarrow> bool"

context object_source
begin

lemma in_held: "ok st Own \<Longrightarrow> x \<in> Own c \<Longrightarrow> x \<in> held Own"
  using held_in object_law by blast

lemma apart_law:
  assumes "ok st Own" "x \<in> Own c" "x \<in> Own d"
  shows "c = d"
proof -
  have "8 \<le> osz c" "8 \<le> osz d"
    by (rule class_facts(1)[OF object_law[OF assms(1,2), THEN conjunct2]], rule class_facts(1)[OF object_law[OF assms(1,3), THEN conjunct2]])
  then have "x \<in> {x..<x + osz c}" "x \<in> {x..<x + osz d}" by simp_all
  with inside_law[OF assms this] show ?thesis by (elim conjE)
qed

text \<open>Two families of objects of the clients without a common object have no common byte.\<close>

lemma held_apart:
  assumes "ok st Own" "\<And>c. A c \<subseteq> Own c" "\<And>c. B c \<subseteq> Own c" "\<And>c. A c \<inter> B c = {}"
  shows "held A \<inter> held B = {}"
proof -
  have False if "x \<in> A c" "y \<in> {x..<x + osz c}" "z \<in> B d" "y \<in> {z..<z + osz d}" for x c y z d
  proof -
    have "x = z \<and> c = d" by (rule inside_law[OF assms(1) _ _ that(2,4)]) (use assms(2,3) that(1,3) in blast)+
    then show False using assms(4) that(1,3) by blast
  qed
  then show ?thesis unfolding held_def by blast
qed

lemma apart_from:
  assumes "ok st Own" "\<And>c. A c \<subseteq> Own c" "x \<in> Own c" "x \<notin> A c"
  shows "x \<notin> held A"
proof -
  have c: "c \<in> classes" using object_law[OF assms(1,3)] by blast
  have "held A \<inter> held ((\<lambda>_. {})(c := {x})) = {}"
    by (rule held_apart[OF assms(1)]) (use assms(2-4) in auto)
  then show ?thesis using held_in[of x "(\<lambda>_. {})(c := {x})" c] c by auto
qed

end

context cached_source
begin

lemma num_to_move: "ok st Own \<Longrightarrow> cl \<in> classes \<Longrightarrow> num_objects_to_move (smap st) cl = batch cl"
  using map_law sizemap_facts(1) by metis

lemma byte_size: "ok st Own \<Longrightarrow> ByteSizeForClass (smap st) cl = osz cl"
  using map_law sizemap_facts(2) by metis

section \<open>Releasing\<close>

text \<open>One chain leaves the list.\<close>

lemma release_chain:
  assumes "ok st Own" "cl \<in> classes" "fl_ok (store st) f (xs @ ys)" "xs \<noteq> []" "set (xs @ ys) \<subseteq> Own cl"
  obtains f' h t w st' where "fl_PopRange (int (length xs)) f (store st) = Some (f', h, t, w)"
    "InsertRange env cl h t (int (length xs)) (st\<lparr>store := w\<rparr>) = Some st'" "fl_ok (store st') f' ys"
    "ok st' (Own(cl := Own cl - set xs))" "undisturbed (held (Own(cl := Own cl - set xs))) st st'" "same_max f f'"
proof -
  obtain f' h t w where p: "fl_PopRange (int (length xs)) f (store st) = Some (f', h, t, w)" "fl_ok w f' ys" "sll w h xs"
    "t = last xs" "\<forall>y. y \<notin> set xs \<longrightarrow> w y = store st y" "same_max f f'"
    by (rule fl_PopRange_ok[OF assms(3,4)]) (rule that)
  have xs: "set xs \<subseteq> Own cl" "set ys \<subseteq> Own cl" "set xs \<inter> set ys = {}"
    using assms(5) fl_okD[OF assms(3)] by auto
  have "y \<notin> set xs" if "y \<notin> held Own" for y using that xs(1) in_held[OF assms(1)] by blast
  then have ok1: "ok (st\<lparr>store := w\<rparr>) Own" using p(5) by (intro write_law[OF assms(1)]) blast
  have s1: "sll (store (st\<lparr>store := w\<rparr>)) h xs" using p(3) by simp
  obtain st' where i: "InsertRange env cl h t (int (length xs)) (st\<lparr>store := w\<rparr>) = Some st'"
    "ok st' (Own(cl := Own cl - set xs))" "undisturbed (held (Own(cl := Own cl - set xs))) (st\<lparr>store := w\<rparr>) st'"
    using put_law[OF ok1 assms(2) s1 assms(4) p(4) xs(1)] by (elim exE conjE) (rule that)
  have "y \<in> held (Own(cl := Own cl - set xs))" if "y \<in> set ys" for y
    by (rule held_in[OF _ assms(2)]) (use xs that in auto)
  then have "\<forall>y \<in> set ys. store st' y = w y" using i(3) unfolding undisturbed_def by force
  then have "fl_ok (store st') f' ys" using p(2) fl_ok_cong by blast
  moreover have "y \<notin> held (Own(cl := Own cl - set xs))" if "y \<in> set xs" for y
    by (rule apart_from[OF assms(1) _ subsetD[OF xs(1) that]]) (use that in auto)
  then have "undisturbed (held (Own(cl := Own cl - set xs))) st st'" using i(3) p(5) unfolding undisturbed_def by fastforce
  ultimately show thesis using that[OF p(1) i(1) _ i(2) _ p(6)] by blast
qed

lemma release_chunks_ok:
  assumes "ok st Own" "cl \<in> classes" "fl_ok (store st) f xs" "0 < n" "n \<le> length xs" "set xs \<subseteq> Own cl"
  shows "\<exists>m f' st'. release_chunks env cl (int (batch cl)) (int n) f st = Some (int m, f', st') \<and> 0 < m \<and> m \<le> n
    \<and> fl_ok (store st') f' (drop (n - m) xs) \<and> ok st' (Own(cl := Own cl - set (take (n - m) xs)))
    \<and> undisturbed (held (Own(cl := Own cl - set (take (n - m) xs)))) st st' \<and> same_max f f'"
  using assms
proof (induction n arbitrary: f xs st Own rule: less_induct)
  case (less n)
  let ?b = "batch cl"
  show ?case
  proof (cases "?b < n")
    case False
    then have "release_chunks env cl (int ?b) (int n) f st = Some (int n, f, st)" by (subst release_chunks.simps) simp
    then show ?thesis using less.prems by (intro exI[of _ n] exI[of _ f] exI[of _ st]) simp
  next
    case True
    have b: "0 < ?b" using batch_facts(1)[OF less.prems(2)] by simp
    define us where "us = take ?b xs"
    define vs where "vs = drop ?b xs"
    have xs: "xs = us @ vs" "length us = ?b" using True less.prems(5) by (simp_all add: us_def vs_def)
    have ne: "us \<noteq> []" using xs(2) b by auto
    obtain f1 h t w st1 where c: "fl_PopRange (int (length us)) f (store st) = Some (f1, h, t, w)"
      "InsertRange env cl h t (int (length us)) (st\<lparr>store := w\<rparr>) = Some st1" "fl_ok (store st1) f1 vs"
      "ok st1 (Own(cl := Own cl - set us))" "undisturbed (held (Own(cl := Own cl - set us))) st st1" "same_max f f1"
      by (rule release_chain[OF less.prems(1,2) less.prems(3)[unfolded xs(1)] ne less.prems(6)[unfolded xs(1)]]) (rule that)
    have d: "distinct (us @ vs)" using fl_okD[OF less.prems(3)] xs(1) by simp
    have vs: "set vs \<subseteq> (Own(cl := Own cl - set us)) cl" "n - ?b \<le> length vs" "0 < n - ?b" "n - ?b < n"
      using less.prems(5,6) d True b xs by auto
    obtain m f' st' where i: "release_chunks env cl (int ?b) (int (n - ?b)) f1 st1 = Some (int m, f', st')" "0 < m" "m \<le> n - ?b"
      "fl_ok (store st') f' (drop (n - ?b - m) vs)"
      "ok st' ((Own(cl := Own cl - set us))(cl := (Own(cl := Own cl - set us)) cl - set (take (n - ?b - m) vs)))"
      "undisturbed (held ((Own(cl := Own cl - set us))(cl := (Own(cl := Own cl - set us)) cl - set (take (n - ?b - m) vs)))) st1 st'"
      "same_max f1 f'"
      using less.IH[OF vs(4) c(4) less.prems(2) c(3) vs(3,2,1)] by (elim exE conjE) (rule that)
    have k: "n - m = length us + (n - ?b - m)" using i(3) True xs(2) by simp
    have dt: "drop (n - m) xs = drop (n - ?b - m) vs" "set (take (n - m) xs) = set us \<union> set (take (n - ?b - m) vs)"
      unfolding k xs(1) by simp_all
    have "release_chunks env cl (int ?b) (int n) f st = Some (int m, f', st')"
      using True c(1,2) i(1) xs(2) by (subst release_chunks.simps) (simp add: of_nat_diff)
    moreover have e: "(Own(cl := Own cl - set us))(cl := (Own(cl := Own cl - set us)) cl - set (take (n - ?b - m) vs))
        = Own(cl := Own cl - set (take (n - m) xs))" unfolding dt(2) by (auto simp: fun_eq_iff)
    have "ok st' (Own(cl := Own cl - set (take (n - m) xs)))" using i(5) e by (simp only:)
    moreover have "held (Own(cl := Own cl - set (take (n - m) xs))) \<subseteq> held (Own(cl := Own cl - set us))"
      using dt(2) by (intro held_mono) auto
    then have "undisturbed (held (Own(cl := Own cl - set (take (n - m) xs)))) st st'"
      by (rule undisturbed_trans[OF c(5) i(6)[unfolded e]]) simp
    moreover have "fl_ok (store st') f' (drop (n - m) xs)" using i(4) unfolding dt(1) .
    moreover have "m \<le> n" using i(3) by simp
    ultimately show ?thesis using i(2) same_max_trans[OF c(6) i(7)] by blast
  qed
qed

lemma keeps_lists:
  assumes "ok st Own" "\<forall>c. set (X c) \<subseteq> Own c" "undisturbed (held (Own(cl := Own cl - A))) st st'" "c \<noteq> cl" "x \<in> set (X c)"
  shows "store st' x = store st x"
proof -
  have x: "x \<in> Own c" using assms(2,5) by blast
  then have "x \<in> held (Own(cl := Own cl - A))" using object_law[OF assms(1) x] assms(4) by (intro held_in) auto
  then show ?thesis using assms(3) by (simp add: undisturbed_def)
qed

text \<open>\<open>ReleaseToCentralCache\<close> takes the first objects off a list.\<close>

lemma ReleaseToCentralCache_ok:
  assumes "caching ok Own X (tc, st)" "cl \<in> classes" "0 < N" "X cl \<noteq> []"
  obtains tc' st' n where "ReleaseToCentralCache env cl N tc st = Some (tc', st')" "n = min (nat N) (length (X cl))"
    "gave_back ok Own X (tc, st) (X(cl := drop n (X cl))) (tc', st')" "same_max (tc_list tc cl) (tc_list tc' cl)"
proof -
  have A: "ok st Own" "cache_ok (store st) tc X" "\<forall>c. set (X c) \<subseteq> Own c" using assms(1) by (simp_all add: caching_def)
  define n where "n = min (nat N) (length (X cl))"
  let ?xs = "X cl" and ?f = "tc_list tc cl" and ?b = "batch cl"
  have k: "cl < kNumClasses" using assms(2) by simp
  have f: "fl_ok (store st) ?f ?xs" "max_ok cl ?f" using cache_okD(1)[OF A(2) k] cache_okD(2)[OF A(2) assms(2)] by simp_all
  note fd = fl_okD[OF f(1)]
  have n: "0 < n" "n \<le> length ?xs" using assms(3,4) by (auto simp: n_def)
  have own: "set ?xs \<subseteq> Own cl" using A(3) by blast
  have "to_int32 (int (length ?xs)) = int (length ?xs)" using fd by (intro to_int32_exact) auto
  then have N: "(if N < 0 \<or> N > int (fl_length ?f) then to_int32 (int (fl_length ?f)) else N) = int n"
    using fd assms(3) by (auto simp: n_def)
  obtain m f1 st1 where r: "release_chunks env cl (int ?b) (int n) ?f st = Some (int m, f1, st1)" "0 < m" "m \<le> n"
    "fl_ok (store st1) f1 (drop (n - m) ?xs)" "ok st1 (Own(cl := Own cl - set (take (n - m) ?xs)))"
    "undisturbed (held (Own(cl := Own cl - set (take (n - m) ?xs)))) st st1" "same_max ?f f1"
    using release_chunks_ok[OF A(1) assms(2) f(1) n own] by (elim exE conjE) (rule that)
  define us where "us = take m (drop (n - m) ?xs)"
  have "drop m (drop (n - m) ?xs) = drop n ?xs" using r(3) by simp
  then have us: "drop (n - m) ?xs = us @ drop n ?xs" "length us = m"
    using r(3) n(2) append_take_drop_id[of m "drop (n - m) ?xs"] by (simp_all add: us_def)
  then have "us \<noteq> []" using r(2) by auto
  note us = us this
  have tk: "take n ?xs = take (n - m) ?xs @ us"
    using r(3) unfolding us_def by (metis le_add_diff_inverse2 take_add)
  have d: "distinct ?xs" using fd by blast
  have dd: "set (take (n - m) ?xs) \<inter> set (us @ drop n ?xs) = {}"
    using d us(1) by (metis append_take_drop_id distinct_append)
  have sub: "set (us @ drop n ?xs) \<subseteq> (Own(cl := Own cl - set (take (n - m) ?xs))) cl"
    using own dd us(1) set_drop_subset[of "n - m" ?xs] by auto
  obtain f2 h t w st2 where c: "fl_PopRange (int (length us)) f1 (store st1) = Some (f2, h, t, w)"
    "InsertRange env cl h t (int (length us)) (st1\<lparr>store := w\<rparr>) = Some st2" "fl_ok (store st2) f2 (drop n ?xs)"
    "ok st2 ((Own(cl := Own cl - set (take (n - m) ?xs)))(cl := (Own(cl := Own cl - set (take (n - m) ?xs))) cl - set us))"
    "undisturbed (held ((Own(cl := Own cl - set (take (n - m) ?xs)))(cl := (Own(cl := Own cl - set (take (n - m) ?xs))) cl - set us))) st1 st2"
    "same_max f1 f2"
    by (rule release_chain[OF r(5) assms(2) r(4)[unfolded us(1)] us(3) sub]) (rule that)
  have e: "(Own(cl := Own cl - set (take (n - m) ?xs)))(cl := (Own(cl := Own cl - set (take (n - m) ?xs))) cl - set us)
      = Own(cl := Own cl - set (take n ?xs))" unfolding tk by (auto simp: fun_eq_iff)
  have ok2: "ok st2 (Own(cl := Own cl - set (take n ?xs)))" using c(4) e by (simp only:)
  have "held (Own(cl := Own cl - set (take n ?xs))) \<subseteq> held (Own(cl := Own cl - set (take (n - m) ?xs)))"
    using tk by (intro held_mono) auto
  then have k2: "undisturbed (held (Own(cl := Own cl - set (take n ?xs)))) st st2"
    by (rule undisturbed_trans[OF r(6) c(5)[unfolded e]]) simp
  have sz: "ByteSizeForClass (smap st) cl = osz cl" by (rule byte_size[OF A(1)])
  define dl where "dl = nat ((int n * int (osz cl)) mod int two64)"
  let ?tc = "(set_list cl f2 tc)\<lparr>tc_size := sub64 (tc_size tc) dl\<rparr>"
  have res: "ReleaseToCentralCache env cl N tc st = Some (?tc, st2)"
    using r(1) c(1,2) us(2) num_to_move[OF A(1) assms(2)]
    unfolding ReleaseToCentralCache_def Let_def N sz dl_def by simp
  have sm: "cache_bytes X < two64" using cache_size_small[OF A(2)] by (simp add: two64_def)
  have up: "cache_bytes (X(cl := drop n ?xs)) + length ?xs * osz cl = cache_bytes X + (length ?xs - n) * osz cl"
    using cache_bytes_upd[OF assms(2), of X "drop n ?xs"] by simp
  have "(length ?xs - n) * osz cl + n * osz cl = length ?xs * osz cl" using n(2) by (simp flip: add_mult_distrib)
  then have up: "cache_bytes (X(cl := drop n ?xs)) + n * osz cl = cache_bytes X" using up by linarith
  then have "n * osz cl < two64" using sm by linarith
  then have "dl = n * osz cl" by (simp add: dl_def nat_mod_distrib flip: of_nat_mult)
  then have sz2: "sub64 (tc_size tc) dl = cache_bytes (X(cl := drop n ?xs))"
    using up sm cache_okD(4)[OF A(2)] sub64_exact[of "n * osz cl" "cache_bytes X"] by simp
  have mx: "max_ok cl f2" by (rule max_ok_same[OF f(2) same_max_trans[OF r(7) c(6)]])
  have "\<forall>c. c \<noteq> cl \<longrightarrow> (\<forall>x \<in> set (X c). store st2 x = store st x)"
    using keeps_lists[OF A(1,3) k2] by blast
  then have C: "cache_ok (store st2) ?tc (X(cl := drop n ?xs))"
    by (intro cache_ok_set[OF A(2) assms(2) c(3) mx]) (simp_all add: sz2 set_list_def)
  have st: "set ?xs - set (drop n ?xs) = set (take n ?xs)" "set (drop n ?xs) \<subseteq> set ?xs"
    using d append_take_drop_id[of n ?xs] by (metis Diff_cancel Un_Diff Int_commute Diff_triv distinct_append set_append sup_bot.right_neutral)
      (rule set_drop_subset)
  have lo: "less_own Own X (X(cl := drop n ?xs)) = Own(cl := Own cl - set (take n ?xs))"
    using st(1) by (auto simp: less_own_def fun_eq_iff)
  have "caching ok (less_own Own X (X(cl := drop n ?xs))) (X(cl := drop n ?xs)) (?tc, st2)"
    unfolding caching_def lo using ok2 C A(3) st by auto
  moreover have "undisturbed (held (\<lambda>c. Own c - set (X c))) st st2"
    by (rule undisturbed_mono[OF k2], rule held_mono) (use set_take_subset[of n ?xs] in auto)
  ultimately have "gave_back ok Own X (tc, st) (X(cl := drop n ?xs)) (?tc, st2)"
    unfolding gave_back_def by (auto simp: same_rest_def set_list_def intro: exI[of _ 0])
  then show thesis by (rule that[OF res n_def]) (use same_max_trans[OF r(7) c(6)] in \<open>simp add: set_list_def\<close>)
qed

lemma gave_back_map: "gave_back ok Own X s Y (tc', st') \<Longrightarrow> cl \<in> classes \<Longrightarrow> num_objects_to_move (smap st') cl = batch cl"
  using num_to_move unfolding gave_back_def caching_def by blast

lemma gave_back_list:
  assumes "gave_back ok Own X s Y (tc', st')" "cl < kNumClasses"
  shows "fl_ok (store st') (tc_list tc' cl) (Y cl)" "cl \<in> classes \<Longrightarrow> max_ok cl (tc_list tc' cl)"
  using assms cache_okD unfolding gave_back_def caching_def by blast+

lemma ListTooLong_ok:
  assumes "caching ok Own X (tc, st)" "cl \<in> classes" "X cl \<noteq> []"
  obtains tc' st' where "ListTooLong env cl tc st = Some (tc', st')"
    "gave_back ok Own X (tc, st) (X(cl := drop (min (batch cl) (length (X cl))) (X cl))) (tc', st')"
proof -
  let ?b = "batch cl"
  have b: "0 < int ?b" "2 \<le> ?b" using batch_facts[OF assms(2)] by simp_all
  obtain tc1 st1 n where r: "ReleaseToCentralCache env cl (int ?b) tc st = Some (tc1, st1)" "n = min (nat (int ?b)) (length (X cl))"
    "gave_back ok Own X (tc, st) (X(cl := drop n (X cl))) (tc1, st1)"
    by (rule ReleaseToCentralCache_ok[OF assms(1,2) b(1) assms(3)]) (rule that)
  let ?Y = "X(cl := drop n (X cl))" and ?f = "tc_list tc1 cl"
  have k: "cl < kNumClasses" using assms(2) by simp
  note f = gave_back_list[OF r(3) k]
  have mv: "num_objects_to_move (smap st) cl = ?b" using assms(1) num_to_move assms(2) unfolding caching_def by blast
  have m: "max_ok cl ?f" by (rule f(2)[OF assms(2)])
  obtain g where g: "(if fl_max_length ?f < ?b then Some (?f\<lparr>fl_max_length := fl_max_length ?f + 1\<rparr>)
       else if fl_max_length ?f > ?b then do {
         let f = ?f\<lparr>fl_length_overages := (fl_length_overages ?f + 1) mod two32\<rparr>;
         if fl_length_overages f > kMaxOverages then do {
           check (fl_max_length f > ?b);
           Some (f\<lparr>fl_max_length := fl_max_length f - ?b, fl_length_overages := 0\<rparr>) }
         else Some f }
       else Some ?f) = Some g" "fl_ok (store st1) g (?Y cl)" "max_ok cl g"
  proof (cases rule: linorder_cases[of "fl_max_length ?f" ?b])
    case less
    have "max_ok cl (?f\<lparr>fl_max_length := fl_max_length ?f + 1\<rparr>)"
      using less m batch_facts(2)[OF assms(2)] unfolding max_ok_def by (cases "fl_max_length ?f + 1 = ?b") auto
    then show ?thesis using less f(1) by (intro that[of "?f\<lparr>fl_max_length := fl_max_length ?f + 1\<rparr>"]) simp_all
  next
    case equal
    then show ?thesis using f(1) m by (intro that[of ?f]) simp_all
  next
    case greater
    have o: "(fl_length_overages ?f + 1) mod two32 = fl_length_overages ?f + 1" using m by (simp add: max_ok_def two32_def)
    have d: "?b dvd fl_max_length ?f" using greater m by (simp add: max_ok_def)
    then have d2: "?b dvd fl_max_length ?f - ?b" by (simp add: dvd_diff_nat)
    show ?thesis
    proof (cases "fl_length_overages ?f + 1 > kMaxOverages")
      case True
      have "max_ok cl (?f\<lparr>fl_max_length := fl_max_length ?f - ?b, fl_length_overages := 0\<rparr>)"
        using m greater d2 b unfolding max_ok_def by auto
      then show ?thesis using True greater o f(1)
        by (intro that[of "?f\<lparr>fl_max_length := fl_max_length ?f - ?b, fl_length_overages := 0\<rparr>"]) (simp_all add: Let_def)
    next
      case False
      then have "max_ok cl (?f\<lparr>fl_length_overages := fl_length_overages ?f + 1\<rparr>)" using m unfolding max_ok_def by simp
      then show ?thesis using False greater o f(1)
        by (intro that[of "?f\<lparr>fl_length_overages := fl_length_overages ?f + 1\<rparr>"]) (simp_all add: Let_def)
    qed
  qed
  have "ListTooLong env cl tc st = Some (set_list cl g tc1, st1)"
    by (simp only: ListTooLong_def mv Let_def r(1) Option.bind.simps case_prod_conv g(1)[unfolded Let_def])
  moreover have "gave_back ok Own X (tc, st) ?Y (set_list cl g tc1, st1)"
    by (rule gave_back_set_list[OF r(3) assms(2) g(2,3)])
  ultimately show thesis using that r(2) by simp
qed

text \<open>One class in \<open>Scavenge\<close>; the list keeps what was above the low-water mark, and half of the rest.\<close>

lemma scavenge_class_ok:
  assumes "caching ok Own X (tc, st)" "cl < kNumClasses"
  shows "\<exists>t Y. scavenge_class env cl (tc, st) = Some t \<and> gave_back ok Own X (tc, st) Y t"
proof (cases "fl_lowater (tc_list tc cl) = 0")
  case True
  let ?f = "clear_lowwatermark (tc_list tc cl)"
  have e: "scavenge_class env cl (tc, st) = Some (set_list cl ?f tc, st)"
    using True by (simp add: scavenge_class_def to_int32_exact)
  have c: "cache_ok (store st) tc X" using assms(1) by (simp add: caching_def)
  show ?thesis
  proof (cases "cl \<in> classes")
    case True
    have "fl_ok (store st) ?f (X cl)" "max_ok cl ?f"
      using cache_okD(1)[OF c assms(2)] max_ok_same[OF cache_okD(2)[OF c True]] by simp_all
    then have "gave_back ok Own X (tc, st) X (set_list cl ?f tc, st)"
      by (intro gave_back_set_list[OF gave_back_refl[OF assms(1)] True])
    then show ?thesis using e by blast
  next
    case False
    then have "X cl = []" using cache_okD(3)[OF c] by blast
    then have "?f = tc_list tc cl" using cache_okD(1)[OF c assms(2)] by (cases "tc_list tc cl") (simp add: clear_lowwatermark_def)
    then have "set_list cl ?f tc = tc" by (simp add: set_list_def)
    then show ?thesis using e gave_back_refl[OF assms(1)] by auto
  qed
next
  case False
  let ?f = "tc_list tc cl" and ?b = "batch cl"
  have c: "cache_ok (store st) tc X" using assms(1) by (simp add: caching_def)
  have f: "fl_ok (store st) ?f (X cl)" by (rule cache_okD(1)[OF c assms(2)])
  note fd = fl_okD[OF f]
  have lo: "to_int32 (int (fl_lowater ?f)) = int (fl_lowater ?f)" using fd by (intro to_int32_exact) auto
  define d where "d = (if int (fl_lowater ?f) > 1 then int (fl_lowater ?f) div 2 else 1)"
  have d: "0 < d" by (auto simp: d_def)
  have ne: "X cl \<noteq> []" using False fd by auto
  then have cl: "cl \<in> classes" using cache_okD(3)[OF c] by blast
  obtain tc1 st1 n where r: "ReleaseToCentralCache env cl d tc st = Some (tc1, st1)"
    "gave_back ok Own X (tc, st) (X(cl := drop n (X cl))) (tc1, st1)"
    by (rule ReleaseToCentralCache_ok[OF assms(1) cl d ne]) (rule that)
  let ?Y = "X(cl := drop n (X cl))" and ?g = "tc_list tc1 cl"
  note g = gave_back_list[OF r(2) assms(2)]
  have m: "max_ok cl ?g" by (rule g(2)[OF cl])
  have mv: "num_objects_to_move (smap st1) cl = ?b" by (rule gave_back_map[OF r(2) cl])
  define h where "h = (if fl_max_length ?g > ?b
    then ?g\<lparr>fl_max_length := nat (max (to_int32 (int (fl_max_length ?g) - int ?b)) (int ?b))\<rparr> else ?g)"
  have h: "fl_ok (store st1) h (?Y cl)" "max_ok cl h"
  proof -
    show "fl_ok (store st1) h (?Y cl)" using g(1) by (simp add: h_def)
    show "max_ok cl h"
    proof (cases "fl_max_length ?g > ?b")
      case True
      have dv: "?b dvd fl_max_length ?g" using True m by (simp add: max_ok_def)
      then obtain q where q: "fl_max_length ?g = ?b * q" by (rule dvdE)
      then have "2 \<le> q" using True by (cases q) (auto simp: Suc_le_eq)
      then have ge: "?b \<le> fl_max_length ?g - ?b" using q by (cases q) auto
      have "to_int32 (int (fl_max_length ?g) - int ?b) = int (fl_max_length ?g - ?b)"
        using True m by (subst to_int32_exact) (auto simp: max_ok_def of_nat_diff)
      then have "h = ?g\<lparr>fl_max_length := fl_max_length ?g - ?b\<rparr>" using True ge by (simp add: h_def max_def)
      then show ?thesis using m dv ge batch_facts(1)[OF cl] by (auto simp: max_ok_def dvd_diff_nat)
    qed (use m in \<open>simp add: h_def\<close>)
  qed
  have e: "scavenge_class env cl (tc, st) = Some (set_list cl (clear_lowwatermark (tc_list (set_list cl h tc1) cl)) (set_list cl h tc1), st1)"
    using False r(1) mv unfolding scavenge_class_def Let_def case_prod_conv lo d_def[symmetric] h_def by simp
  have "gave_back ok Own X (tc, st) ?Y (set_list cl h tc1, st1)" by (rule gave_back_set_list[OF r(2) cl h])
  then have "gave_back ok Own X (tc, st) ?Y (set_list cl (clear_lowwatermark h) (set_list cl h tc1), st1)"
    by (rule gave_back_set_list[OF _ cl]) (use h max_ok_same[OF h(2)] in simp_all)
  then show ?thesis using e by (auto simp: set_list_def)
qed

lemma scavenge_all_ok:
  assumes "caching ok Own X s" "\<forall>cl \<in> set cs. cl < kNumClasses"
  shows "\<exists>t Y. ofold (scavenge_class env) cs s = Some t \<and> gave_back ok Own X s Y t"
  using assms
proof (induction cs arbitrary: Own X s)
  case Nil
  then show ?case using gave_back_refl[OF Nil.prems(1)] by auto
next
  case (Cons c cs)
  obtain tc st where s: "s = (tc, st)" by (cases s)
  obtain t Y where 1: "scavenge_class env c s = Some t" "gave_back ok Own X s Y t"
    using scavenge_class_ok[of Own X tc st c] Cons.prems s by auto
  then obtain u Z where 2: "ofold (scavenge_class env) cs t = Some u" "gave_back ok (less_own Own X Y) Y t Z u"
    using Cons.IH[of "less_own Own X Y" Y t] Cons.prems unfolding gave_back_def by auto
  show ?case using 1(1) 2(1) gave_back_trans[OF 1(2) 2(2)] by auto
qed

text \<open>\<open>Cleanup\<close> empties every list.\<close>

lemma Cleanup_ok:
  assumes "caching ok Own X (tc, st)"
  obtains tc' st' where "Cleanup env tc st = Some (tc', st')" "gave_back ok Own X (tc, st) (\<lambda>_. []) (tc', st')"
proof -
  let ?F = "\<lambda>cl (tc, st). if fl_length (tc_list tc cl) > 0
     then ReleaseToCentralCache env cl (to_int32 (int (fl_length (tc_list tc cl)))) tc st else Some (tc, st)"
  have step: "\<exists>t Y. ?F c s = Some t \<and> gave_back ok Own X s Y t \<and> Y c = []" if C: "caching ok Own X s" and k: "c < kNumClasses" for Own X s c
  proof -
    obtain tc st where s: "s = (tc, st)" by (cases s)
    have co: "cache_ok (store st) tc X" using C s by (simp add: caching_def)
    note fd = fl_okD[OF cache_okD(1)[OF co k]]
    show ?thesis
    proof (cases "X c = []")
      case True
      then show ?thesis using fd s gave_back_refl[OF C] by auto
    next
      case False
      then have cl: "c \<in> classes" using cache_okD(3)[OF co] by blast
      have e: "to_int32 (int (fl_length (tc_list tc c))) = int (length (X c))" "0 < int (length (X c))"
        using fd False by (auto intro: to_int32_exact)
      obtain tc1 st1 n where "ReleaseToCentralCache env c (int (length (X c))) tc st = Some (tc1, st1)"
        "n = min (nat (int (length (X c)))) (length (X c))" "gave_back ok Own X (tc, st) (X(c := drop n (X c))) (tc1, st1)"
        by (rule ReleaseToCentralCache_ok[OF C[unfolded s] cl e(2) False]) (rule that)
      then show ?thesis using fd False e(1) s by (intro exI[of _ "(tc1, st1)"] exI[of _ "X(c := drop n (X c))"]) simp
    qed
  qed
  have "\<exists>t Y. ofold ?F cs s = Some t \<and> gave_back ok Own X s Y t \<and> (\<forall>c \<in> set cs. Y c = [])"
    if "caching ok Own X s" "\<forall>c \<in> set cs. c < kNumClasses" for cs Own X s
    using that
  proof (induction cs arbitrary: Own X s)
    case Nil
    then show ?case using gave_back_refl[OF Nil.prems(1)] by auto
  next
    case (Cons c cs)
    obtain t Y where 1: "?F c s = Some t" "gave_back ok Own X s Y t" "Y c = []"
      using step[OF Cons.prems(1), of c] Cons.prems(2) by auto
    then obtain u Z where 2: "ofold ?F cs t = Some u" "gave_back ok (less_own Own X Y) Y t Z u" "\<forall>c \<in> set cs. Z c = []"
      using Cons.IH[of "less_own Own X Y" Y t] Cons.prems unfolding gave_back_def by auto
    have "Z c = []" using gave_back_shrinks[OF 2(2), of c] 1(3) by simp
    then show ?case using 1(1) 2(1,3) gave_back_trans[OF 1(2) 2(2)] by auto
  qed
  from this[OF assms, of "[0..<kNumClasses]"] obtain tc' st' Y where
    Y: "ofold ?F [0..<kNumClasses] (tc, st) = Some (tc', st')" "gave_back ok Own X (tc, st) Y (tc', st')" "\<forall>c < kNumClasses. Y c = []"
    by auto
  have "cache_ok (store st') tc' Y" using Y(2) by (simp add: gave_back_def caching_def)
  then have "Y = (\<lambda>_. [])" using Y(3) cache_okD(3)[of "store st'" tc' Y] by fastforce
  then show thesis using that Y(1,2) unfolding Cleanup_def by blast
qed

end

end
