(* ===== verification/ThreadCacheFlow.thy ===== *)
theory ThreadCacheFlow
  imports ThreadCacheLists
begin

text \<open>
  The operations of a thread cache: \<open>FetchFromCentralCache\<close>, \<open>Allocate\<close>, and the part of \<open>Deallocate\<close>
  that concerns the cache alone; and the central lists as the source.
\<close>

section \<open>The central lists are such a source\<close>

definition memory_ready :: "central \<Rightarrow> bool" where
  "memory_ready st \<longleftrightarrow> 2 \<le> room (pheap st) \<and> 0 < trace_room (pheap st)"

definition no_span :: "env \<Rightarrow> nat \<Rightarrow> central \<Rightarrow> bool" where
  "no_span env cl st \<longleftrightarrow> (\<exists>h. New env (class_to_pages (smap st) cl) (pheap st) = Some (None, h))"

lemma keeps_undisturbed: "keeps_words Own st st' = undisturbed (held Own) st st'"
  unfolding keeps_words_def undisturbed_def held_def by blast

lemma central_inside:
  assumes "central_ok st Own" "x \<in> Own c" "z \<in> Own d" "y \<in> {x..<x + osz c}" "y \<in> {z..<z + osz d}"
  shows "x = z \<and> c = d"
proof -
  obtain L C T where I: "cinv L C T st" "Own = owned L C T st" using assms(1) unfolding central_ok_def by blast
  have o: "x \<in> owned L C T st c" "z \<in> owned L C T st d" using assms(2,3) I(2) by simp_all
  have "x = z" using owned_apart[OF I(1) o] owned_apart[OF I(1) o(2,1)] assms(4,5) by (cases x z rule: linorder_cases) auto
  moreover have "x \<in> owned L C T st d" using o(2) \<open>x = z\<close> by simp
  note X = owned_facts[OF I(1)]
  have "c = d" using class_objs_disjoint[OF I(1) X(1)[OF o(1)] X(1)[OF o(2)]] X(2)[OF o(1)] X(2)[OF \<open>x \<in> owned L C T st d\<close>] by blast
  ultimately show ?thesis by blast
qed

lemma central_owned_object:
  assumes "central_ok st Own" "x \<in> Own c"
  shows "x \<noteq> 0 \<and> c \<in> classes"
proof -
  obtain L C T where I: "cinv L C T st" "Own = owned L C T st" using assms(1) unfolding central_ok_def by blast
  have o: "x \<in> owned L C T st c" using assms(2) I(2) by simp
  have c: "c \<in> classes" by (rule owned_facts(1)[OF I(1) o])
  have "x div kPageSize \<in> used_pages (pheap st)" using owned_pages[OF I(1) o] class_facts(1)[OF c] by simp
  then have "x div kPageSize \<in> cover (spans (pheap st))" by (auto simp: pages_of_def cover_def)
  then show ?thesis using page_small(2)[OF cinvD(2)[OF I(1)]] c by (cases "x = 0") auto
qed

lemma central_remove:
  assumes "central_ok st Own" "cl \<in> classes" "(0 :: int) < N" "memory_ready st"
  shows "\<exists>xs s e st'. RemoveRange env cl N st = Some (int (length xs), s, e, st') \<and> int (length xs) \<le> N
    \<and> sll (store st') s xs \<and> (xs \<noteq> [] \<longrightarrow> e = last xs) \<and> set xs \<inter> Own cl = {} \<and> central_ok st' (Own(cl := Own cl \<union> set xs))
    \<and> undisturbed (held Own) st st' \<and> (xs = [] \<longrightarrow> no_span env cl st) \<and> marks_kept st st'"
proof -
  have r: "2 \<le> room (pheap st)" "0 < trace_room (pheap st)" using assms(4) by (simp_all add: memory_ready_def)
  obtain L C T where c: "cinv L C T st" "Own = owned L C T st" using assms(1) unfolding central_ok_def by blast
  obtain xs s e L' C' T' st' where R: "RemoveRange env cl N st = Some (int (length xs), s, e, st')" "int (length xs) \<le> N"
    "cinv L' C' T' st'" "sll (store st') s xs" "xs \<noteq> [] \<Longrightarrow> e = last xs" "set xs \<inter> owned L C T st cl = {}"
    "owned L' C' T' st' = (owned L C T st)(cl := owned L C T st cl \<union> set xs)" "keeps_words (owned L C T st) st st'"
    "xs = [] \<Longrightarrow> \<exists>h. New env (npg cl) (pheap st) = Some (None, h)" "marks_kept st st'"
    by (rule RemoveRange_ok[OF c(1) assms(2,3) r, of env]) (rule that)
  have "central_ok st' (Own(cl := Own cl \<union> set xs))" unfolding central_ok_def using R(3,7) c(2) by metis
  moreover have "undisturbed (held Own) st st'" using R(8) c(2) by (simp add: keeps_undisturbed)
  moreover have "xs = [] \<longrightarrow> no_span env cl st" using R(9) cinvD(1)[OF c(1)] by (simp add: no_span_def sizemap_facts)
  ultimately show ?thesis using R(1,2,4,5,6,10) c(2) by blast
qed

lemma central_put:
  assumes "central_ok st Own" "cl \<in> classes" "sll (store st) s xs" "e = last xs" "set xs \<subseteq> Own cl"
  shows "\<exists>st'. InsertRange env cl s e (int (length xs)) st = Some st' \<and> central_ok st' (Own(cl := Own cl - set xs))
    \<and> undisturbed (held (Own(cl := Own cl - set xs))) st st' \<and> marks_kept st st'"
proof -
  obtain L C T where c: "cinv L C T st" "Own = owned L C T st" using assms(1) unfolding central_ok_def by blast
  obtain L' C' T' st' where r: "InsertRange env cl s e (int (length xs)) st = Some st'" "cinv L' C' T' st'"
    "owned L' C' T' st' = (owned L C T st)(cl := owned L C T st cl - set xs)"
    "keeps_words ((owned L C T st)(cl := owned L C T st cl - set xs)) st st'" "marks_kept st st'"
    using InsertRange_ok[OF c(1) assms(2-4) assms(5)[unfolded c(2)], of env] by (elim exE conjE) (rule that)
  have "central_ok st' (Own(cl := Own cl - set xs))" unfolding central_ok_def using r(2,3) c(2) by metis
  moreover have "undisturbed (held (Own(cl := Own cl - set xs))) st st'" using r(4) c(2) by (simp add: keeps_undisturbed)
  ultimately show ?thesis using r(1,5) by blast
qed

lemma central_map: "central_ok st Own \<Longrightarrow> smap st = init_sizemap"
  using cinvD(1) unfolding central_ok_def by blast

lemma central_write: "central_ok st Own \<Longrightarrow> \<forall>y. y \<notin> held Own \<longrightarrow> w y = store st y \<Longrightarrow> central_ok (st\<lparr>store := w\<rparr>) Own"
  by (intro central_ok_write) (simp_all add: held_def)

interpretation central: cached_source env central_ok memory_ready "no_span env" for env
proof
  fix st Own cl N
  assume "central_ok st Own" "cl \<in> classes" "(0 :: int) < N" "memory_ready st"
  from central_remove[OF this, of env] show "\<exists>xs s e st'. RemoveRange env cl N st = Some (int (length xs), s, e, st') \<and> int (length xs) \<le> N
      \<and> sll (store st') s xs \<and> (xs \<noteq> [] \<longrightarrow> e = last xs) \<and> set xs \<inter> Own cl = {} \<and> central_ok st' (Own(cl := Own cl \<union> set xs))
      \<and> undisturbed (held Own) st st' \<and> (xs = [] \<longrightarrow> no_span env cl st)" by blast
next
  fix st Own cl s xs e
  assume a: "central_ok st Own" "cl \<in> classes" "sll (store st) s xs" "xs \<noteq> []" "e = last xs" "set xs \<subseteq> Own cl"
  from central_put[OF a(1-3,5,6), of env] show "\<exists>st'. InsertRange env cl s e (int (length xs)) st = Some st'
      \<and> central_ok st' (Own(cl := Own cl - set xs)) \<and> undisturbed (held (Own(cl := Own cl - set xs))) st st'" by blast
qed (fact central_write central_inside central_owned_object central_map)+

text \<open>
  The same when others hold spans of the page heap: \<open>F\<close> are their descriptors and list heads, \<open>G\<close> their
  stack traces, and \<open>W\<close> the words in their pages, none of which the central lists touch.
\<close>

definition central_with :: "span_mem \<Rightarrow> nat set \<Rightarrow> words \<Rightarrow> central \<Rightarrow> (nat \<Rightarrow> nat set) \<Rightarrow> bool" where
  "central_with F G W st Own \<longleftrightarrow> central_ok st Own \<and> tagged F G (pheap st)
     \<and> (\<forall>a t y. F (Sp a) = Some t \<longrightarrow> y div kPageSize \<in> {sp_start t..<sp_start t + sp_length t} \<longrightarrow> store st y = W y)"

lemma central_withD:
  assumes "central_with F G W st Own"
  shows "central_ok st Own" "tagged F G (pheap st)"
    "F (Sp a) = Some t \<Longrightarrow> y div kPageSize \<in> {sp_start t..<sp_start t + sp_length t} \<Longrightarrow> store st y = W y"
  using assms unfolding central_with_def by blast+

lemma central_with_kept: "central_with F G W st Own \<Longrightarrow> central_ok st' Own' \<Longrightarrow> marks_kept st st' \<Longrightarrow> central_with F G W st' Own'"
  unfolding central_with_def using marks_keptD by metis

text \<open>The pages of the others hold no byte of an object.\<close>

lemma others_apart:
  assumes "central_ok st Own" "tagged F G (pheap st)" "F (Sp a) = Some t" "y div kPageSize \<in> {sp_start t..<sp_start t + sp_length t}"
  shows "y \<notin> held Own"
proof
  assume "y \<in> held Own"
  then obtain c x where x: "x \<in> Own c" "y \<in> {x..<x + osz c}" unfolding held_def by blast
  obtain L C T where I: "cinv L C T st" "Own = owned L C T st" using assms(1) unfolding central_ok_def by blast
  have o: "x \<in> owned L C T st c" using x(1) I(2) by simp
  note X = owned_facts[OF I(1) o]
  show False by (rule tagged_no_object[OF I(1) assms(2,3) X(1,2) x(2) assms(4)])
qed

lemma central_with_write:
  assumes "central_with F G W st Own" "\<forall>y. y \<notin> held Own \<longrightarrow> w y = store st y"
  shows "central_with F G W (st\<lparr>store := w\<rparr>) Own"
  unfolding central_with_def
proof (intro conjI allI impI)
  note D = central_withD[OF assms(1)]
  show "central_ok (st\<lparr>store := w\<rparr>) Own" by (rule central_write[OF D(1) assms(2)])
  show "tagged F G (pheap (st\<lparr>store := w\<rparr>))" using D(2) by simp
  fix a t y assume a: "F (Sp a) = Some t" "y div kPageSize \<in> {sp_start t..<sp_start t + sp_length t}"
  have "y \<notin> held Own" by (rule others_apart[OF D(1,2) a])
  then show "store (st\<lparr>store := w\<rparr>) y = W y" using assms(2) D(3)[OF a] by simp
qed

text \<open>The same, and every span in use that the central lists do not own is one of \<open>F\<close>: none is lost.\<close>

definition exactly :: "span_mem \<Rightarrow> nat set \<Rightarrow> words \<Rightarrow> central \<Rightarrow> (nat \<Rightarrow> nat set) \<Rightarrow> bool" where
  "exactly F G W st Own \<longleftrightarrow> central_with F G W st Own \<and> unclassed (pheap st) \<subseteq> {a. F (Sp a) \<noteq> None}"

lemma exactlyD:
  assumes "exactly F G W st Own"
  shows "central_with F G W st Own" "unclassed (pheap st) \<subseteq> {a. F (Sp a) \<noteq> None}"
  using assms by (simp_all add: exactly_def)

lemma exactly_kept: "exactly F G W st Own \<Longrightarrow> central_ok st' Own' \<Longrightarrow> marks_kept st st' \<Longrightarrow> exactly F G W st' Own'"
  unfolding exactly_def using central_with_kept marks_keptD(3) central_withD(2) by blast

lemma exactly_write: "exactly F G W st Own \<Longrightarrow> \<forall>y. y \<notin> held Own \<longrightarrow> w y = store st y \<Longrightarrow> exactly F G W (st\<lparr>store := w\<rparr>) Own"
  unfolding exactly_def using central_with_write by simp

interpretation guarded: cached_source env "exactly F G W" memory_ready "no_span env" for env F G W
proof
  fix st Own cl N
  assume a: "exactly F G W st Own" "cl \<in> classes" "(0 :: int) < N" "memory_ready st"
  from central_remove[OF central_withD(1)[OF exactlyD(1)[OF a(1)]] a(2-4), of env] exactly_kept[OF a(1)]
  show "\<exists>xs s e st'. RemoveRange env cl N st = Some (int (length xs), s, e, st') \<and> int (length xs) \<le> N
      \<and> sll (store st') s xs \<and> (xs \<noteq> [] \<longrightarrow> e = last xs) \<and> set xs \<inter> Own cl = {} \<and> exactly F G W st' (Own(cl := Own cl \<union> set xs))
      \<and> undisturbed (held Own) st st' \<and> (xs = [] \<longrightarrow> no_span env cl st)" by blast
next
  fix st Own cl s xs e
  assume a: "exactly F G W st Own" "cl \<in> classes" "sll (store st) s xs" "xs \<noteq> []" "e = last xs" "set xs \<subseteq> Own cl"
  from central_put[OF central_withD(1)[OF exactlyD(1)[OF a(1)]] a(2,3,5,6), of env] exactly_kept[OF a(1)]
  show "\<exists>st'. InsertRange env cl s e (int (length xs)) st = Some st' \<and> exactly F G W st' (Own(cl := Own cl - set xs))
      \<and> undisturbed (held (Own(cl := Own cl - set xs))) st st'" by blast
qed (fact exactly_write | rule central_inside[OF central_withD(1)[OF exactlyD(1)]], assumption+ | rule central_owned_object[OF central_withD(1)[OF exactlyD(1)]], assumption+
  | rule central_map[OF central_withD(1)[OF exactlyD(1)]], assumption)+

section \<open>Allocating\<close>

lemma lists_upd: "\<forall>c. set (X c) \<subseteq> Own c \<Longrightarrow> set ys \<subseteq> Own cl \<Longrightarrow> \<forall>c. set ((X(cl := ys)) c) \<subseteq> Own c"
  by simp

context cached_source
begin

lemma FetchFromCentralCache_ok:
  assumes "caching ok Own X (tc, st)" "cl \<in> classes" "X cl = []" "ready st"
  obtains r tc' st' N Y where "FetchFromCentralCache env cl (osz cl) tc st = Some (r, tc', st')"
    "caching ok (Own(cl := Own cl \<union> N)) (X(cl := Y)) (tc', st')" "N \<inter> Own cl = {}" "undisturbed (held Own) st st'" "same_rest tc tc'"
    "length Y \<le> 32" "r = 0 \<longrightarrow> N = {} \<and> Y = [] \<and> dry cl st" "r \<noteq> 0 \<longrightarrow> N = insert r (set Y) \<and> r \<notin> set Y"
proof -
  let ?b = "batch cl" and ?f = "tc_list tc cl"
  have A: "ok st Own" "cache_ok (store st) tc X" "\<forall>c. set (X c) \<subseteq> Own c" using assms(1) by (simp_all add: caching_def)
  have k: "cl < kNumClasses" using assms(2) by simp
  have f: "fl_ok (store st) ?f []" "max_ok cl ?f"
    using cache_okD(1)[OF A(2) k] cache_okD(2)[OF A(2) assms(2)] assms(3) by simp_all
  have b: "2 \<le> ?b" "?b \<le> 32" using batch_facts[OF assms(2)] by simp_all
  define m where "m = min (to_int32 (int (fl_max_length ?f))) (int ?b)"
  have m: "0 < m" "m \<le> 32" using f(2) b by (auto simp: m_def max_ok_def to_int32_exact)
  obtain xs s e st1 where r: "RemoveRange env cl m st = Some (int (length xs), s, e, st1)" "int (length xs) \<le> m" "sll (store st1) s xs"
    "xs \<noteq> [] \<longrightarrow> e = last xs" "set xs \<inter> Own cl = {}" "ok st1 (Own(cl := Own cl \<union> set xs))" "undisturbed (held Own) st st1"
    "xs = [] \<longrightarrow> dry cl st"
    using remove_law[OF A(1) assms(2) m(1) assms(4)] by (elim exE conjE) (rule that)
  have mv: "num_objects_to_move (smap st) cl = ?b" by (rule num_to_move[OF A(1) assms(2)])
  have lst: "\<forall>c. \<forall>x \<in> set (X c). store st1 x = store st x" using r(7) A(3) in_held[OF A(1)] unfolding undisturbed_def by blast
  have f1: "fl_ok (store st1) ?f []" using f(1) by simp
  have own: "\<forall>c. set (X c) \<subseteq> (Own(cl := Own cl \<union> set xs)) c" using A(3) by auto
  have sz: "cache_bytes X < 2 ^ 56" by (rule cache_size_small[OF A(2)])
  show thesis
  proof (cases xs)
    case Nil
    obtain g where g: "grow_max_length (int ?b) ?f = Some g" "max_ok cl g" "\<And>w xs. fl_ok w g xs = fl_ok w ?f xs"
      by (rule grow_max_length_ok[OF f(2) assms(2)]) (rule that)
    have s0: "s = 0" using r(3) Nil by simp
    have "FetchFromCentralCache env cl (osz cl) tc st = Some (0, set_list cl g tc, st1\<lparr>store := store st1\<rparr>)"
      unfolding FetchFromCentralCache_def Let_def mv m_def[symmetric] using f(1) r(1) g(1) Nil s0 by (simp add: fl_empty_def)
    moreover have "cache_ok (store st1) tc X" using cache_ok_cong[OF lst] A(2) by blast
    then have "caching ok (Own(cl := Own cl \<union> set xs)) X (tc, st1)" using r(6) own by (simp add: caching_def)
    then have "caching ok (Own(cl := Own cl \<union> set xs)) X (set_list cl g tc, st1)"
      using g(2) g(3)[THEN iffD2, OF f1] assms(3) by (intro caching_set_list[OF _ assms(2)]) simp_all
    moreover have "X(cl := []) = X" using assms(3) by auto
    ultimately show thesis using Nil r(5,7,8)
      by (intro that[of 0 "set_list cl g tc" st1 "{}" "[]"]) (simp_all add: same_rest_def set_list_def)
  next
    case (Cons x ys)
    have x: "s = x" "x \<noteq> 0" "sll (store st1) (store st1 x) ys" "x \<notin> set ys" using r(3) sll_distinct[OF r(3)] Cons by simp_all
    have ly: "int (length xs) - 1 = int (length ys)" "length ys < 32" "length ys < 2 ^ 31" using Cons r(2) m(2) by simp_all
    have e: "ys \<noteq> [] \<longrightarrow> e = last ys" using r(4) Cons by simp
    obtain f2 where p: "fl_PushRange (int (length ys)) (store st1 x) e ?f (store st1) = Some (f2, store st1)"
      "fl_ok (store st1) f2 ys" "same_max ?f f2"
      by (rule fl_PushRange_ok[OF f1 x(3) e ly(3)]) (rule that)
    obtain g where g: "grow_max_length (int ?b) f2 = Some g" "max_ok cl g" "\<And>w xs. fl_ok w g xs = fl_ok w f2 xs"
      by (rule grow_max_length_ok[OF max_ok_same[OF f(2) p(3)] assms(2)]) (rule that)
    define tc1 where "tc1 = tc\<lparr>tc_size := add64 (tc_size tc) (osz cl * length ys)\<rparr>"
    have res: "FetchFromCentralCache env cl (osz cl) tc st = Some (x, set_list cl g tc1, st1)"
      unfolding FetchFromCentralCache_def Let_def mv m_def[symmetric]
      using f(1) r(1) g(1) p(1) Cons x(1,2) ly(1) by (simp add: fl_empty_def SLL_Next_def tc1_def)
    have up: "cache_bytes (X(cl := ys)) = cache_bytes X + length ys * osz cl"
      using cache_bytes_upd[OF assms(2), of X ys] assms(3) by simp
    have "length ys * osz cl \<le> 32 * 2 ^ 18" using ly(2) batch_facts(3)[OF assms(2)] by (intro mult_le_mono) simp_all
    then have "add64 (tc_size tc) (osz cl * length ys) = cache_bytes (X(cl := ys))"
      using sz up cache_okD(4)[OF A(2)] by (simp add: add64_exact two64_def mult.commute)
    then have "cache_ok (store st1) (set_list cl g tc1) (X(cl := ys))"
      using g(2,3) p(2) lst by (intro cache_ok_set[OF A(2) assms(2)]) (simp_all add: set_list_def tc1_def)
    moreover have oys: "set ys \<subseteq> (Own(cl := Own cl \<union> set xs)) cl" using Cons by auto
    ultimately have "caching ok (Own(cl := Own cl \<union> set xs)) (X(cl := ys)) (set_list cl g tc1, st1)"
      using r(6) lists_upd[OF own oys] unfolding caching_def by simp
    then show thesis using res r(5,7) Cons x(2,4) ly(2)
      by (intro that[of x "set_list cl g tc1" st1 "set xs" ys]) (simp_all add: same_rest_def set_list_def tc1_def)
  qed
qed

lemma Allocate_ok:
  assumes "caching ok Own X (tc, st)" "cl \<in> classes" "ready st"
  obtains r tc' st' N Y where "Allocate env (osz cl) cl tc st = Some (r, tc', st')"
    "caching ok (Own(cl := Own cl \<union> N)) (X(cl := Y)) (tc', st')" "N \<inter> Own cl = {}" "undisturbed (held Own) st st'" "same_rest tc tc'"
    "length Y \<le> max 32 (length (X cl))" "r = 0 \<longrightarrow> N = {} \<and> Y = X cl \<and> dry cl st"
    "r \<noteq> 0 \<longrightarrow> set (X cl) \<union> N = insert r (set Y) \<and> r \<notin> set Y"
proof -
  have A: "ok st Own" "cache_ok (store st) tc X" "\<forall>c. set (X c) \<subseteq> Own c" using assms(1) by (simp_all add: caching_def)
  have k: "cl < kNumClasses" using assms(2) by simp
  have f: "fl_ok (store st) (tc_list tc cl) (X cl)" "max_ok cl (tc_list tc cl)"
    using cache_okD(1)[OF A(2) k] cache_okD(2)[OF A(2) assms(2)] by simp_all
  have a: "osz cl \<le> kMaxSize" "osz cl = ByteSizeForClass (smap st) cl"
    using batch_facts(3)[OF assms(2)] byte_size[OF A(1)] by simp_all
  show thesis
  proof (cases "X cl")
    case Nil
    obtain r tc' st' N Y where F: "FetchFromCentralCache env cl (osz cl) tc st = Some (r, tc', st')"
      "caching ok (Own(cl := Own cl \<union> N)) (X(cl := Y)) (tc', st')" "N \<inter> Own cl = {}" "undisturbed (held Own) st st'" "same_rest tc tc'"
      "length Y \<le> 32" "r = 0 \<longrightarrow> N = {} \<and> Y = [] \<and> dry cl st" "r \<noteq> 0 \<longrightarrow> N = insert r (set Y) \<and> r \<notin> set Y"
      by (rule FetchFromCentralCache_ok[OF assms(1,2) Nil assms(3)]) (rule that)
    have "Allocate env (osz cl) cl tc st = Some (r, tc', st')"
      using a F(1) fl_okD[OF f(1)] Nil unfolding Allocate_def by simp
    then show thesis by (rule that) (use F Nil in simp_all)
  next
    case (Cons x xs)
    obtain g where p: "fl_Pop (tc_list tc cl) (store st) = Some (x, g)" "fl_ok (store st) g xs" "same_max (tc_list tc cl) g"
      by (rule fl_Pop_ok[OF f(1)[unfolded Cons]]) (rule that)
    let ?tc = "set_list cl g (tc\<lparr>tc_size := sub64 (tc_size tc) (osz cl)\<rparr>)"
    have res: "Allocate env (osz cl) cl tc st = Some (x, ?tc, st)"
      using a p(1) fl_okD[OF f(1)] Cons unfolding Allocate_def by simp
    have "cache_bytes (X(cl := xs)) + osz cl = cache_bytes X" using cache_bytes_upd[OF assms(2), of X xs] Cons by simp
    then have "sub64 (tc_size tc) (osz cl) = cache_bytes (X(cl := xs))"
      using cache_size_small[OF A(2)] cache_okD(4)[OF A(2)] by (simp add: sub64_exact two64_def)
    then have "cache_ok (store st) ?tc (X(cl := xs))"
      using p(2) max_ok_same[OF f(2) p(3)] by (intro cache_ok_set[OF A(2) assms(2)]) (simp_all add: set_list_def)
    moreover have "set xs \<subseteq> set (X cl)" using Cons by auto
    then have "\<forall>c. set ((X(cl := xs)) c) \<subseteq> Own c" using A(3) by (intro lists_upd) blast+
    ultimately have "caching ok (Own(cl := Own cl \<union> {})) (X(cl := xs)) (?tc, st)" using A(1) unfolding caching_def by simp
    moreover have "x \<noteq> 0" "x \<notin> set xs" using f(1) fl_okD[OF f(1)] Cons by (auto simp: fl_ok_def)
    ultimately show thesis using Cons
      by (intro that[OF res, of "{}" xs]) (simp_all add: same_rest_def set_list_def)
  qed
qed

section \<open>Deallocating\<close>

lemma push_ok:
  assumes "caching ok Own X (tc, st)" "cl \<in> classes" "p \<in> Own cl" "p \<notin> set (X cl)" "length (X cl) + 1 < 2 ^ 31"
  obtains f w where "fl_Push p (tc_list tc cl) (store st) = Some (f, w)" "\<forall>y. y \<noteq> p \<longrightarrow> w y = store st y"
    "caching ok Own (X(cl := p # X cl)) ((set_list cl f tc)\<lparr>tc_size := add64 (tc_size tc) (osz cl)\<rparr>, st\<lparr>store := w\<rparr>)"
    "p \<noteq> fl_Next (tc_list tc cl)"
proof -
  have A: "ok st Own" "cache_ok (store st) tc X" "\<forall>c. set (X c) \<subseteq> Own c" using assms(1) by (simp_all add: caching_def)
  have k: "cl < kNumClasses" using assms(2) by simp
  have f: "fl_ok (store st) (tc_list tc cl) (X cl)" "max_ok cl (tc_list tc cl)"
    using cache_okD(1)[OF A(2) k] cache_okD(2)[OF A(2) assms(2)] by simp_all
  have p0: "p \<noteq> 0" using object_law[OF A(1) assms(3)] by simp
  obtain g where g: "fl_Push p (tc_list tc cl) (store st) = Some (g, (store st)(p := fl_list (tc_list tc cl)))"
    "fl_ok ((store st)(p := fl_list (tc_list tc cl))) g (p # X cl)" "same_max (tc_list tc cl) g"
    by (rule fl_Push_ok[OF f(1) p0 assms(4,5)]) (rule that)
  let ?w = "(store st)(p := fl_list (tc_list tc cl))" and ?tc = "(set_list cl g tc)\<lparr>tc_size := add64 (tc_size tc) (osz cl)\<rparr>"
  have "\<forall>y. y \<notin> held Own \<longrightarrow> ?w y = store st y" using in_held[OF A(1) assms(3)] by auto
  then have ok1: "ok (st\<lparr>store := ?w\<rparr>) Own" by (rule write_law[OF A(1)])
  have "p \<notin> set (X c)" if "c \<noteq> cl" for c using apart_law[OF A(1) assms(3)] A(3) that by blast
  then have w: "\<forall>c. c \<noteq> cl \<longrightarrow> (\<forall>x \<in> set (X c). ?w x = store st x)" by auto
  have "cache_bytes (X(cl := p # X cl)) = cache_bytes X + osz cl" using cache_bytes_upd[OF assms(2), of X "p # X cl"] by simp
  moreover have "cache_bytes X + osz cl < two64"
    using cache_size_small[OF A(2)] batch_facts(3)[OF assms(2)] by (simp add: two64_def)
  ultimately have "add64 (tc_size tc) (osz cl) = cache_bytes (X(cl := p # X cl))"
    using cache_okD(4)[OF A(2)] by (simp add: add64_exact)
  then have "cache_ok ?w ?tc (X(cl := p # X cl))"
    using max_ok_same[OF f(2) g(3)] by (intro cache_ok_set[OF A(2) assms(2) g(2) _ w]) (simp_all add: set_list_def)
  moreover have "\<forall>c. set ((X(cl := p # X cl)) c) \<subseteq> Own c" using A(3) assms(3) by (intro lists_upd) auto
  ultimately have c: "caching ok Own (X(cl := p # X cl)) (?tc, st\<lparr>store := ?w\<rparr>)" using ok1 by (simp add: caching_def)
  have n: "p \<noteq> fl_Next (tc_list tc cl)" using f(1) p0 assms(4) by (cases "X cl") (auto simp: fl_Next_def fl_ok_def)
  show thesis by (rule that[OF g(1) _ c n]) simp
qed

lemma short_gave_back: "gave_back ok Own X s Y t \<Longrightarrow> short X \<Longrightarrow> short Y"
  using gave_back_shrinks[of ok Own X s Y t] unfolding short_def by (meson order_trans)

lemma Deallocate_ok:
  assumes "caching ok Own X (tc, cent S)" "heaps S this = Some tc" "cl \<in> classes" "p \<in> Own cl" "p \<notin> set (X cl)" "short X"
  obtains tc' st' Y where "Deallocate env this p cl S = Some (S\<lparr>heaps := (heaps S)(this \<mapsto> tc'), cent := st'\<rparr>)
      \<or> Deallocate env this p cl S = IncreaseCacheLimitLocked this (S\<lparr>heaps := (heaps S)(this \<mapsto> tc'), cent := st'\<rparr>)"
    "caching ok (less_own Own (X(cl := p # X cl)) Y) Y (tc', st')" "\<forall>c. set (Y c) \<subseteq> set ((X(cl := p # X cl)) c)" "short Y"
    "undisturbed (held (\<lambda>c. Own c - set ((X(cl := p # X cl)) c))) (cent S) st'" "same_rest tc tc'"
proof -
  let ?X = "X(cl := p # X cl)" and ?st = "cent S"
  have A: "ok ?st Own" using assms(1) by (simp add: caching_def)
  have sz: "ByteSizeForClass (smap ?st) cl = osz cl" by (rule byte_size[OF A])
  have len: "length (X cl) \<le> 8192" using assms(6) by (simp add: short_def)
  then have l31: "length (X cl) + 1 < 2 ^ 31" by simp
  obtain f w where P: "fl_Push p (tc_list tc cl) (store ?st) = Some (f, w)" "\<forall>y. y \<noteq> p \<longrightarrow> w y = store ?st y"
    "caching ok Own ?X ((set_list cl f tc)\<lparr>tc_size := add64 (tc_size tc) (osz cl)\<rparr>, ?st\<lparr>store := w\<rparr>)"
    "p \<noteq> fl_Next (tc_list tc cl)"
    by (rule push_ok[OF assms(1,3-5) l31]) (rule that)
  define tc1 where "tc1 = (set_list cl f tc)\<lparr>tc_size := add64 (tc_size tc) (osz cl)\<rparr>"
  define st1 where "st1 = ?st\<lparr>store := w\<rparr>"
  have C1: "caching ok Own ?X (tc1, st1)" using P(3) by (simp add: tc1_def st1_def)
  have k: "cl < kNumClasses" using assms(3) by simp
  have co: "cache_ok (store st1) tc1 ?X" using C1 by (simp add: caching_def)
  have fo: "fl_ok (store st1) f (p # X cl)" "max_ok cl f"
    using cache_okD(1)[OF co k] cache_okD(2)[OF co assms(3)] by (simp_all add: tc1_def set_list_def)
  define lh where "lh = int (fl_max_length f) - int (fl_length f)"
  have "p \<notin> held (\<lambda>c. Own c - set (?X c))" by (rule apart_from[OF A _ assms(4)]) auto
  then have "\<forall>y \<in> held (\<lambda>c. Own c - set (?X c)). y \<noteq> p" by blast
  then have K0: "undisturbed (held (\<lambda>c. Own c - set (?X c))) ?st st1" using P(2) by (simp add: undisturbed_def st1_def)
  have r0: "same_rest tc tc1" by (simp add: same_rest_def tc1_def set_list_def)
  obtain tc2 st2 Z where L: "(if lh < 0 then ListTooLong env cl tc1 st1 else Some (tc1, st1)) = Some (tc2, st2)"
    "gave_back ok Own ?X (tc1, st1) Z (tc2, st2)" "short Z"
  proof (cases "lh < 0")
    case True
    have ne: "?X cl \<noteq> []" by simp
    obtain tc2 st2 where t: "ListTooLong env cl tc1 st1 = Some (tc2, st2)"
      "gave_back ok Own ?X (tc1, st1) (?X(cl := drop (min (batch cl) (length (?X cl))) (?X cl))) (tc2, st2)"
      by (rule ListTooLong_ok[OF C1 assms(3) ne]) (rule that)
    have "length (drop (min (batch cl) (length (?X cl))) (?X cl)) \<le> 8192" using len batch_facts(1)[OF assms(3)] by simp
    then have "short (?X(cl := drop (min (batch cl) (length (?X cl))) (?X cl)))" using assms(6) by (simp add: short_def)
    then show thesis using True t by (intro that[OF _ t(2)]) simp_all
  next
    case False
    then have "length (p # X cl) \<le> 8192" using fo fl_okD[OF fo(1)] by (simp add: lh_def max_ok_def)
    then have "short ?X" using assms(6) by (simp add: short_def)
    then show thesis using False gave_back_refl[OF C1] by (intro that) simp_all
  qed
  have C2: "caching ok (less_own Own ?X Z) Z (tc2, st2)" using L(2) by (simp add: gave_back_def)
  obtain tc3 st3 Y where V: "ofold (scavenge_class env) [0..<kNumClasses] (tc2, st2) = Some (tc3, st3)"
    "gave_back ok (less_own Own ?X Z) Z (tc2, st2) Y (tc3, st3)"
    using scavenge_all_ok[OF C2, of "[0..<kNumClasses]"] by auto
  note done1 = that
  have all: thesis if "Deallocate env this p cl S = Some (S\<lparr>heaps := (heaps S)(this \<mapsto> tc'), cent := st'\<rparr>)
      \<or> Deallocate env this p cl S = IncreaseCacheLimitLocked this (S\<lparr>heaps := (heaps S)(this \<mapsto> tc'), cent := st'\<rparr>)"
    "gave_back ok Own ?X (tc1, st1) Y (tc', st')" "short Y" for tc' st' Y
  proof (rule done1[OF that(1)])
    show "caching ok (less_own Own ?X Y) Y (tc', st')" using that(2) by (simp add: gave_back_def)
    show "\<forall>c. set (Y c) \<subseteq> set (?X c)" using gave_back_shrinks[OF that(2)] by blast
    have "undisturbed (held (\<lambda>c. Own c - set (?X c))) st1 st'" using that(2) by (simp add: gave_back_def)
    then show "undisturbed (held (\<lambda>c. Own c - set (?X c))) ?st st'" by (rule undisturbed_trans[OF K0]) blast+
    show "same_rest tc tc'" using that(2) same_rest_trans[OF r0] by (simp add: gave_back_def)
  qed (rule that(3))
  define sh where "sh = ssize (sub64 (sub64 (tc_max_size tc) (add64 (tc_size tc) (osz cl))) 1)"
  show thesis
  proof (cases "lh < 0 \<or> sh < 0")
    case False
    then have "Deallocate env this p cl S = Some (S\<lparr>heaps := (heaps S)(this \<mapsto> tc1), cent := st1\<rparr>)"
      unfolding Deallocate_def Let_def using assms(2) sz P(1,4) by (simp add: tc1_def st1_def lh_def sh_def set_list_def)
    moreover have "(tc2, st2) = (tc1, st1)" using L(1) False by simp
    ultimately show thesis using all[OF _ L(2,3)] by simp
  next
    case True
    have d: "Deallocate env this p cl S = (if tc_size tc2 \<ge> tc_max_size tc2
        then Scavenge env this (S\<lparr>heaps := (heaps S)(this \<mapsto> tc2), cent := st2\<rparr>)
        else Some (S\<lparr>heaps := (heaps S)(this \<mapsto> tc2), cent := st2\<rparr>))"
      by (simp only: Deallocate_def Let_def assms(2) sz P(1) Option.bind.simps check_bind if_P[OF P(4)] case_prod_conv
        tc1_def[symmetric] st1_def[symmetric] lh_def[symmetric] sh_def[symmetric] if_P[OF True] L(1))
    show thesis
    proof (cases "tc_size tc2 \<ge> tc_max_size tc2")
      case True
      have "Deallocate env this p cl S = IncreaseCacheLimitLocked this (S\<lparr>heaps := (heaps S)(this \<mapsto> tc3), cent := st3\<rparr>)"
        using d True V(1) by (simp add: Scavenge_def)
      then show thesis using all[OF _ gave_back_trans[OF L(2) V(2)] short_gave_back[OF V(2) L(3)]] by blast
    next
      case False
      then show thesis using all[OF _ L(2,3)] d by simp
    qed
  qed
qed

end

end
