(* ===== verification/ThreadCacheBudget.thy ===== *)
theory ThreadCacheBudget
  imports ThreadCacheFlow
begin

text \<open>
  The list of all caches and the budget they share: no operation creates or loses budget, and stealing
  follows the list without leaving it.
\<close>

section \<open>The doubly linked list of caches\<close>

text \<open>From \<open>p\<close>, whose predecessor is \<open>q\<close>, through \<open>hs\<close> to \<open>p'\<close>, whose predecessor is \<open>q'\<close>.\<close>

type_synonym caches = "nat \<Rightarrow> thread_cache option"

fun hseg :: "caches \<Rightarrow> nat \<Rightarrow> nat \<Rightarrow> nat list \<Rightarrow> nat \<Rightarrow> nat \<Rightarrow> bool" where
  "hseg H q p [] q' p' = (q = q' \<and> p = p')"
| "hseg H q p (h # hs) q' p' = (p = h \<and> h \<noteq> 0 \<and> (\<exists>t. H h = Some t \<and> tc_prev t = q \<and> hseg H h (tc_next t) hs q' p'))"

lemma hseg_append: "hseg H q p (xs @ ys) q'' p'' \<longleftrightarrow> (\<exists>q' p'. hseg H q p xs q' p' \<and> hseg H q' p' ys q'' p'')"
  by (induction xs arbitrary: q p) auto

text \<open>Only the links matter.\<close>

definition links :: "thread_cache \<Rightarrow> nat \<times> nat" where
  "links t = (tc_next t, tc_prev t)"

lemma hseg_links:
  assumes "\<forall>h \<in> set hs. map_option links (H' h) = map_option links (H h)"
  shows "hseg H' q p hs q' p' = hseg H q p hs q' p'"
  using assms
proof (induction hs arbitrary: q p)
  case (Cons h hs)
  have "map_option links (H' h) = map_option links (H h)" using Cons.prems by simp
  then have e: "(\<exists>t. H' h = Some t \<and> tc_prev t = q \<and> P (tc_next t)) = (\<exists>t. H h = Some t \<and> tc_prev t = q \<and> P (tc_next t))" for P
    by (cases "H' h"; cases "H h") (auto simp: links_def)
  show ?case using Cons e[of "\<lambda>n. hseg H h n hs q' p'"] by simp
qed simp

lemma hseg_ext: "\<forall>h \<in> set hs. H' h = H h \<Longrightarrow> hseg H' q p hs q' p' = hseg H q p hs q' p'"
  by (rule hseg_links) simp

lemma hseg_in: "hseg H q p hs q' p' \<Longrightarrow> h \<in> set hs \<Longrightarrow> h \<noteq> 0 \<and> (\<exists>t. H h = Some t)"
  by (induction hs arbitrary: q p) auto

lemma hseg_head: "hseg H q p hs q' 0 \<Longrightarrow> (p = 0 \<longleftrightarrow> hs = []) \<and> (p \<noteq> 0 \<longrightarrow> p \<in> set hs)"
  by (cases hs) auto

lemma hseg_next:
  assumes "hseg H q p hs q' 0" "h \<in> set hs" "H h = Some t"
  shows "tc_next t = 0 \<or> tc_next t \<in> set hs"
  using assms
proof (induction hs arbitrary: q p)
  case (Cons x xs)
  then obtain u where u: "H x = Some u" "hseg H x (tc_next u) xs q' 0" by auto
  show ?case
  proof (cases "h = x")
    case True
    then show ?thesis using u Cons.prems(3) hseg_head[OF u(2)] by auto
  next
    case False
    then show ?thesis using Cons.IH[OF u(2)] Cons.prems by auto
  qed
qed simp

text \<open>The predecessor at the end is the last cache.\<close>

lemma hseg_end:
  assumes "hseg H q p hs q' p'"
  shows "q' = (if hs = [] then q else last hs) \<and> (hs = [] \<longrightarrow> p' = p)"
  using assms by (induction hs arbitrary: q p) auto

definition on_list :: "caches \<Rightarrow> nat \<Rightarrow> nat list \<Rightarrow> bool" where
  "on_list H p hs \<longleftrightarrow> (\<exists>e. hseg H 0 p hs e 0)"

lemma on_listD:
  assumes "on_list H p hs"
  shows "\<And>h. h \<in> set hs \<Longrightarrow> h \<noteq> 0 \<and> (\<exists>t. H h = Some t)" "p = 0 \<longleftrightarrow> hs = []" "p \<noteq> 0 \<Longrightarrow> p \<in> set hs"
    "\<And>h t. h \<in> set hs \<Longrightarrow> H h = Some t \<Longrightarrow> tc_next t = 0 \<or> tc_next t \<in> set hs"
  using assms hseg_in hseg_head hseg_next unfolding on_list_def by blast+

lemma on_list_links: "\<forall>h \<in> set hs. map_option links (H' h) = map_option links (H h) \<Longrightarrow> on_list H' p hs = on_list H p hs"
  using hseg_links[of hs H' H] by (simp add: on_list_def)

text \<open>A new cache in front.\<close>

lemma on_list_push:
  assumes "on_list H p hs" "h \<noteq> 0" "h \<notin> set hs" "tc_next t = p" "tc_prev t = 0" "distinct hs"
  shows "on_list (if p = 0 then H(h \<mapsto> t) else H(h \<mapsto> t, p \<mapsto> (the (H p))\<lparr>tc_prev := h\<rparr>)) h (h # hs)"
proof -
  obtain e where e: "hseg H 0 p hs e 0" using assms(1) by (auto simp: on_list_def)
  show ?thesis
  proof (cases hs)
    case Nil
    then show ?thesis using e assms by (auto simp: on_list_def)
  next
    case (Cons x xs)
    then obtain u where u: "p = x" "x \<noteq> 0" "H x = Some u" "hseg H x (tc_next u) xs e 0" using e by auto
    let ?H = "H(h \<mapsto> t, x \<mapsto> u\<lparr>tc_prev := h\<rparr>)"
    have "\<forall>y \<in> set xs. ?H y = H y" using assms(3,6) Cons by auto
    then have "hseg ?H x (tc_next u) xs e 0" using u(4) hseg_ext[of xs ?H H] by blast
    then have "hseg ?H 0 h (h # hs) e 0" using assms Cons u by auto
    then show ?thesis using u unfolding on_list_def by auto
  qed
qed

text \<open>Taking a cache out: its neighbours are linked to each other.\<close>

lemma hseg_succ:
  assumes "hseg H q p hs e 0" "distinct hs"
  shows "hseg (if p = 0 then H else H(p \<mapsto> (the (H p))\<lparr>tc_prev := q'\<rparr>)) q' p hs (if hs = [] then q' else e) 0"
proof (cases hs)
  case (Cons x xs)
  then obtain t where t: "p = x" "x \<noteq> 0" "H x = Some t" "hseg H x (tc_next t) xs e 0" using assms(1) by auto
  let ?H = "H(x \<mapsto> t\<lparr>tc_prev := q'\<rparr>)"
  have "\<forall>y \<in> set xs. ?H y = H y" using assms(2) Cons by auto
  then have "hseg ?H x (tc_next t) xs e 0" using t(4) hseg_ext[of xs ?H H] by blast
  then show ?thesis using t Cons by simp
qed (use assms(1) in auto)

lemma hseg_pred:
  assumes "hseg H q p xs q' p'" "distinct xs" "q = 0" "0 \<notin> set xs"
  shows "hseg (if q' = 0 then H else H(q' \<mapsto> (the (H q'))\<lparr>tc_next := n\<rparr>)) q (if q' = 0 then n else p) xs q' n"
proof (cases xs rule: rev_cases)
  case (snoc zs z)
  obtain t where t: "hseg H q p zs (tc_prev t) z" "z \<noteq> 0" "H z = Some t" "q' = z" "p' = tc_next t"
    using assms(1) snoc by (auto simp: hseg_append)
  let ?H = "H(z \<mapsto> t\<lparr>tc_next := n\<rparr>)"
  have "\<forall>y \<in> set zs. ?H y = H y" using assms(2) snoc by auto
  then have "hseg ?H q p zs (tc_prev t) z" using t(1) hseg_ext[of zs ?H H] by blast
  then show ?thesis using t snoc by (auto simp: hseg_append)
qed (use assms in auto)

lemma on_list_unlink:
  assumes "on_list H p (xs @ h # ys)" "distinct (xs @ h # ys)" "H h = Some t"
  defines "H1 \<equiv> (if tc_next t = 0 then H else H(tc_next t \<mapsto> (the (H (tc_next t)))\<lparr>tc_prev := tc_prev t\<rparr>))"
  defines "H2 \<equiv> (if tc_prev t = 0 then H1 else H1(tc_prev t \<mapsto> (the (H1 (tc_prev t)))\<lparr>tc_next := tc_next t\<rparr>))"
  shows "on_list (H2(h := None)) (if p = h then tc_next t else p) (xs @ ys)"
    and "tc_next t \<noteq> 0 \<longrightarrow> tc_next t \<in> set ys" "tc_prev t \<noteq> 0 \<longrightarrow> tc_prev t \<in> set xs" "p = h \<longleftrightarrow> xs = []"
proof -
  obtain e where e: "hseg H 0 p xs (tc_prev t) h" "h \<noteq> 0" "hseg H h (tc_next t) ys e 0"
    using assms(1,3) by (auto simp: on_list_def hseg_append)
  have d: "distinct xs" "distinct ys" "h \<notin> set xs" "h \<notin> set ys" "set xs \<inter> set ys = {}" using assms(2) by auto
  have z: "0 \<notin> set xs" using hseg_in[OF e(1)] by auto
  show n: "tc_next t \<noteq> 0 \<longrightarrow> tc_next t \<in> set ys" using hseg_head[OF e(3)] by blast
  have q: "tc_prev t = (if xs = [] then 0 else last xs)" using hseg_end[OF e(1)] by blast
  then show pr: "tc_prev t \<noteq> 0 \<longrightarrow> tc_prev t \<in> set xs" by (cases "xs = []") auto
  show ph: "p = h \<longleftrightarrow> xs = []" using e(1) d(3) by (cases xs) auto
  have s1: "hseg H1 (tc_prev t) (tc_next t) ys (if ys = [] then tc_prev t else e) 0"
    using hseg_succ[OF e(3) d(2), of "tc_prev t"] by (simp add: H1_def)
  have "\<forall>x \<in> set xs. H1 x = H x" using n d(5) by (auto simp: H1_def)
  then have "hseg H1 0 p xs (tc_prev t) h" using e(1) hseg_ext[of xs H1 H] by blast
  from hseg_pred[OF this d(1) refl z, of "tc_next t"]
  have p2: "hseg H2 0 (if tc_prev t = 0 then tc_next t else p) xs (tc_prev t) (tc_next t)" by (simp add: H2_def)
  have "\<forall>y \<in> set ys. H2 y = H1 y" using pr d(5) by (auto simp: H2_def)
  then have "hseg H2 (tc_prev t) (tc_next t) ys (if ys = [] then tc_prev t else e) 0" using s1 hseg_ext[of ys H2 H1] by blast
  then have "hseg H2 0 (if tc_prev t = 0 then tc_next t else p) (xs @ ys) (if ys = [] then tc_prev t else e) 0"
    using p2 unfolding hseg_append by blast
  then have "hseg (H2(h := None)) 0 (if tc_prev t = 0 then tc_next t else p) (xs @ ys) (if ys = [] then tc_prev t else e) 0"
    using hseg_ext[of "xs @ ys" "H2(h := None)" H2] d by auto
  moreover have "(if tc_prev t = 0 then tc_next t else p) = (if p = h then tc_next t else p)"
  proof (cases "xs = []")
    case False
    then have "tc_prev t \<noteq> 0" using q last_in_set[OF False] z by metis
    then show ?thesis using False ph by simp
  qed (use q ph in simp)
  ultimately have "hseg (H2(h := None)) 0 (if p = h then tc_next t else p) (xs @ ys) (if ys = [] then tc_prev t else e) 0"
    by (simp only:)
  then show "on_list (H2(h := None)) (if p = h then tc_next t else p) (xs @ ys)" unfolding on_list_def by blast
qed

section \<open>The budget\<close>

definition claims :: "caches \<Rightarrow> nat" where
  "claims H = (\<Sum>h \<in> dom H. tc_max_size (the (H h)))"

definition budget_ok :: "threads \<Rightarrow> bool" where
  "budget_ok S \<longleftrightarrow> finite (dom (heaps S))
     \<and> unclaimed_cache_space S + int (claims (heaps S)) = int (overall_thread_cache_size S)
     \<and> claims (heaps S) < 2 ^ 63 \<and> kMinThreadCacheSize \<le> overall_thread_cache_size S \<and> overall_thread_cache_size S \<le> 2 ^ 30"

text \<open>The same caches but for their limits.\<close>

definition unlimited :: "thread_cache \<Rightarrow> thread_cache" where
  "unlimited t = t\<lparr>tc_max_size := 0\<rparr>"

definition only_limits :: "caches \<Rightarrow> caches \<Rightarrow> bool" where
  "only_limits H H' \<longleftrightarrow> (\<forall>h. map_option unlimited (H' h) = map_option unlimited (H h))"

lemma only_limits_refl [simp]: "only_limits H H"
  by (simp add: only_limits_def)

lemma only_limits_trans: "only_limits H H1 \<Longrightarrow> only_limits H1 H2 \<Longrightarrow> only_limits H H2"
  by (simp add: only_limits_def)

lemma only_limits_upd: "H h = Some t \<Longrightarrow> only_limits H (H(h \<mapsto> t\<lparr>tc_max_size := m\<rparr>))"
  by (simp add: only_limits_def unlimited_def)

lemma unlimited_eq: "unlimited t' = unlimited t \<Longrightarrow> t' = t\<lparr>tc_max_size := tc_max_size t'\<rparr>"
  by (cases t'; cases t) (simp add: unlimited_def)

lemma only_limits_some:
  assumes "only_limits H H'" "H h = Some t"
  shows "\<exists>m. H' h = Some (t\<lparr>tc_max_size := m\<rparr>)"
proof -
  have "map_option unlimited (H' h) = Some (unlimited t)" using assms by (simp add: only_limits_def)
  then obtain t' where "H' h = Some t'" "unlimited t' = unlimited t" by auto
  then show ?thesis using unlimited_eq by metis
qed

lemma only_limits_dom:
  assumes "only_limits H H'"
  shows "dom H' = dom H"
proof -
  have "H' h = None \<longleftrightarrow> H h = None" for h using assms unfolding only_limits_def by (metis map_option_is_None)
  then show ?thesis by (auto simp: dom_def)
qed

lemma only_limits_links:
  assumes "only_limits H H'"
  shows "map_option links (H' h) = map_option links (H h)"
proof (cases "H h")
  case None
  then show ?thesis using only_limits_dom[OF assms] by (metis domIff map_option_is_None)
next
  case (Some t)
  then show ?thesis using only_limits_some[OF assms Some] by (auto simp: links_def)
qed

lemma claims_upd:
  assumes "finite (dom H)" "H h = Some t"
  shows "claims (H(h \<mapsto> t')) + tc_max_size t = claims H + tc_max_size t'"
proof -
  have d: "dom (H(h \<mapsto> t')) = dom H" "h \<in> dom H" using assms(2) by auto
  have "(\<Sum>x \<in> dom H - {h}. tc_max_size (the ((H(h \<mapsto> t')) x))) = (\<Sum>x \<in> dom H - {h}. tc_max_size (the (H x)))"
    by (intro sum.cong) auto
  then show ?thesis using sum.remove[OF assms(1) d(2), of "\<lambda>x. tc_max_size (the ((H(h \<mapsto> t')) x))"]
      sum.remove[OF assms(1) d(2), of "\<lambda>x. tc_max_size (the (H x))"] assms(2) unfolding claims_def d(1) by simp
qed

lemma claims_new:
  assumes "finite (dom H)" "H h = None"
  shows "claims (H(h \<mapsto> t)) = claims H + tc_max_size t"
proof -
  have "(\<Sum>x \<in> dom H. tc_max_size (the ((H(h \<mapsto> t)) x))) = (\<Sum>x \<in> dom H. tc_max_size (the (H x)))"
    using assms(2) by (intro sum.cong) auto
  then show ?thesis using assms by (simp add: claims_def domIff)
qed

lemma claims_remove:
  assumes "finite (dom H)" "H h = Some t"
  shows "claims (H(h := None)) + tc_max_size t = claims H"
  using claims_new[of "H(h := None)" h t] assms by (simp add: fun_upd_idem)

lemma claims_same: "dom H' = dom H \<Longrightarrow> (\<And>h. h \<in> dom H \<Longrightarrow> tc_max_size (the (H' h)) = tc_max_size (the (H h))) \<Longrightarrow> claims H' = claims H"
  by (simp add: claims_def)

lemma claims_ge:
  assumes "finite (dom H)" "H h = Some t"
  shows "tc_max_size t \<le> claims H"
  using claims_upd[OF assms, of "t\<lparr>tc_max_size := 0\<rparr>"] by simp

lemma on_heap_some: "heaps S h = Some t \<Longrightarrow> on_heap h f S = Some (S\<lparr>heaps := (heaps S)(h \<mapsto> f t)\<rparr>)"
  by (simp add: on_heap_def)

text \<open>Stealing moves budget between two caches.\<close>

lemma steal_claims:
  assumes "finite (dom H)" "H p = Some v" "H h = Some t" "p \<noteq> h" "k \<le> tc_max_size v" "claims H < 2 ^ 63"
  defines "H' \<equiv> H(p \<mapsto> v\<lparr>tc_max_size := sub64 (tc_max_size v) k\<rparr>, h \<mapsto> t\<lparr>tc_max_size := add64 (tc_max_size t) k\<rparr>)"
  shows "claims H' = claims H" "only_limits H H'" "tc_max_size t \<le> tc_max_size (the (H' h))"
proof -
  let ?H1 = "H(p \<mapsto> v\<lparr>tc_max_size := sub64 (tc_max_size v) k\<rparr>)"
  have c: "tc_max_size v < two64" using claims_ge[OF assms(1,2)] assms(6) by (simp add: two64_def)
  have s: "sub64 (tc_max_size v) k = tc_max_size v - k" by (rule sub64_exact[OF assms(5) c])
  have 1: "claims ?H1 + k = claims H" using claims_upd[OF assms(1,2), of "v\<lparr>tc_max_size := sub64 (tc_max_size v) k\<rparr>"] s assms(5) by simp
  have f1: "finite (dom ?H1)" and t1: "?H1 h = Some t" using assms(1,3,4) by simp_all
  have "tc_max_size t + k \<le> claims H" using claims_ge[OF f1 t1] 1 by linarith
  then have a: "add64 (tc_max_size t) k = tc_max_size t + k" using assms(6) by (intro add64_exact) (simp add: two64_def)
  show "claims H' = claims H" using claims_upd[OF f1 t1, of "t\<lparr>tc_max_size := add64 (tc_max_size t) k\<rparr>"] 1 a unfolding H'_def by (simp del: fun_upd_apply)
  have "only_limits H ?H1" "only_limits ?H1 H'" unfolding H'_def by (rule only_limits_upd, fact)+
  then show "only_limits H H'" by (rule only_limits_trans)
  show "tc_max_size t \<le> tc_max_size (the (H' h))" by (simp add: H'_def a)
qed

lemma steal_loop_ok:
  assumes "budget_ok S" "heaps S this = Some t" "on_list (heaps S) (thread_heaps S) hs" "hs \<noteq> []"
    "next_memory_steal S \<in> insert 0 (set hs)"
  shows "\<exists>H n. steal_loop k this S = Some (S\<lparr>heaps := H, next_memory_steal := n\<rparr>) \<and> only_limits (heaps S) H
    \<and> budget_ok (S\<lparr>heaps := H, next_memory_steal := n\<rparr>) \<and> n \<in> insert 0 (set hs) \<and> tc_max_size t \<le> tc_max_size (the (H this))"
  using assms(1,2,3,5)
proof (induction k arbitrary: S)
  case 0
  then show ?case by (intro exI[of _ "heaps S"] exI[of _ "next_memory_steal S"]) simp
next
  case (Suc k)
  note L = on_listD[OF Suc.prems(3)]
  define p where "p = (if next_memory_steal S = 0 then thread_heaps S else next_memory_steal S)"
  have th: "thread_heaps S \<noteq> 0" using L(2) assms(4) by blast
  have p: "p \<in> set hs" using L(3)[OF th] Suc.prems(4) by (auto simp: p_def)
  then obtain v where v: "heaps S p = Some v" using L(1) by blast
  have nx: "tc_next v \<in> insert 0 (set hs)" using L(4)[OF p v] by auto
  have pe: "(if next_memory_steal S = 0 then do { check (thread_heaps S \<noteq> 0); Some (thread_heaps S) }
       else Some (next_memory_steal S)) = Some p" using th by (simp add: p_def)
  show ?case
  proof (cases "p = this \<or> tc_max_size v \<le> kMinThreadCacheSize")
    case True
    let ?S = "S\<lparr>next_memory_steal := tc_next v\<rparr>"
    have e: "steal_loop (Suc k) this S = steal_loop k this ?S"
      by (simp only: steal_loop.simps pe v Option.bind.simps if_P[OF True])
    have "budget_ok ?S" "heaps ?S this = Some t" "on_list (heaps ?S) (thread_heaps ?S) hs" "next_memory_steal ?S \<in> insert 0 (set hs)"
      using Suc.prems nx by (simp_all add: budget_ok_def)
    from Suc.IH[OF this] show ?thesis unfolding e by simp
  next
    case False
    let ?H1 = "(heaps S)(p \<mapsto> v\<lparr>tc_max_size := sub64 (tc_max_size v) kStealAmount\<rparr>)"
    let ?H = "?H1(this \<mapsto> t\<lparr>tc_max_size := add64 (tc_max_size t) kStealAmount\<rparr>)"
    have b: "finite (dom (heaps S))" "claims (heaps S) < 2 ^ 63" using Suc.prems(1) by (simp_all add: budget_ok_def)
    have k: "kStealAmount \<le> tc_max_size v" using False by simp
    have n: "p \<noteq> this" using False by blast
    note C = steal_claims[OF b(1) v Suc.prems(2) n k b(2)]
    have h: "on_heap p (\<lambda>v. v\<lparr>tc_max_size := sub64 (tc_max_size v) kStealAmount\<rparr>) S = Some (S\<lparr>heaps := ?H1\<rparr>)"
      "on_heap this (\<lambda>t. t\<lparr>tc_max_size := add64 (tc_max_size t) kStealAmount\<rparr>) (S\<lparr>heaps := ?H1\<rparr>) = Some (S\<lparr>heaps := ?H\<rparr>)"
      using v Suc.prems(2) n by (simp_all add: on_heap_def)
    have "steal_loop (Suc k) this S = Some (S\<lparr>heaps := ?H, next_memory_steal := tc_next v\<rparr>)"
      by (simp only: steal_loop.simps pe v Option.bind.simps if_not_P[OF False] h)
    moreover have "budget_ok (S\<lparr>heaps := ?H, next_memory_steal := tc_next v\<rparr>)"
      using Suc.prems(1) C(1) unfolding budget_ok_def by simp
    ultimately show ?thesis using C(2,3) nx by blast
  qed
qed

lemma IncreaseCacheLimitLocked_ok:
  assumes "budget_ok S" "heaps S this = Some t" "on_list (heaps S) (thread_heaps S) hs" "unclaimed_cache_space S > 0 \<or> hs \<noteq> []"
    "next_memory_steal S \<in> insert 0 (set hs)"
  obtains H u n where "IncreaseCacheLimitLocked this S = Some (S\<lparr>heaps := H, next_memory_steal := n, unclaimed_cache_space := u\<rparr>)"
    "only_limits (heaps S) H" "budget_ok (S\<lparr>heaps := H, next_memory_steal := n, unclaimed_cache_space := u\<rparr>)"
    "n \<in> insert 0 (set hs)" "tc_max_size t \<le> tc_max_size (the (H this))"
    "unclaimed_cache_space S > 0 \<longrightarrow> tc_max_size (the (H this)) = tc_max_size t + kStealAmount"
    "unclaimed_cache_space S \<le> 0 \<longrightarrow> u = unclaimed_cache_space S"
proof (cases "unclaimed_cache_space S > 0")
  case True
  let ?H = "(heaps S)(this \<mapsto> t\<lparr>tc_max_size := add64 (tc_max_size t) kStealAmount\<rparr>)"
  let ?u = "unclaimed_cache_space S - int kStealAmount"
  have b: "finite (dom (heaps S))" "unclaimed_cache_space S + int (claims (heaps S)) = int (overall_thread_cache_size S)"
    "overall_thread_cache_size S \<le> 2 ^ 30" "kMinThreadCacheSize \<le> overall_thread_cache_size S"
    using assms(1) by (simp_all add: budget_ok_def)
  then have c: "claims (heaps S) < 2 ^ 30" using True by linarith
  have a: "add64 (tc_max_size t) kStealAmount = tc_max_size t + kStealAmount"
    using claims_ge[OF b(1) assms(2)] c by (intro add64_exact) (simp add: two64_def)
  have "claims ?H = claims (heaps S) + kStealAmount"
    using claims_upd[OF b(1) assms(2), of "t\<lparr>tc_max_size := add64 (tc_max_size t) kStealAmount\<rparr>"] a by simp
  then have "budget_ok (S\<lparr>heaps := ?H, next_memory_steal := next_memory_steal S, unclaimed_cache_space := ?u\<rparr>)"
    using b c by (simp add: budget_ok_def)
  moreover have "IncreaseCacheLimitLocked this S = Some (S\<lparr>heaps := ?H, next_memory_steal := next_memory_steal S, unclaimed_cache_space := ?u\<rparr>)"
    using True assms(2) by (simp add: IncreaseCacheLimitLocked_def on_heap_def)
  moreover have "only_limits (heaps S) ?H" by (rule only_limits_upd, rule assms(2))
  ultimately show thesis using a True assms(5)
    by (intro that[where H = "?H" and n = "next_memory_steal S" and u = "?u"]) simp_all
next
  case False
  then have ne: "hs \<noteq> []" using assms(4) by blast
  obtain H n where s: "steal_loop 10 this S = Some (S\<lparr>heaps := H, next_memory_steal := n\<rparr>)" "only_limits (heaps S) H"
    "budget_ok (S\<lparr>heaps := H, next_memory_steal := n\<rparr>)" "n \<in> insert 0 (set hs)" "tc_max_size t \<le> tc_max_size (the (H this))"
    using steal_loop_ok[OF assms(1-3) ne assms(5), of 10] by blast
  then show thesis using False
    by (intro that[where H = H and n = n and u = "unclaimed_cache_space S"]) (simp_all add: IncreaseCacheLimitLocked_def del: steal_loop.simps)
qed

end
