(* ===== verification/ThreadCaches.thy ===== *)
theory ThreadCaches
  imports ThreadCacheBudget
begin

text \<open>
  All thread caches together.  \<open>threads_ok ok S App\<close>: the central lists, the caches, their list, the
  thread-specific pointers and the budget are consistent, and \<open>App cl\<close> is the set of objects of class
  \<open>cl\<close> in the hands of the application.
\<close>

section \<open>The invariant\<close>

definition contents :: "(central \<Rightarrow> (nat \<Rightarrow> nat set) \<Rightarrow> bool) \<Rightarrow> threads \<Rightarrow> (nat \<Rightarrow> nat set) \<Rightarrow> (nat \<Rightarrow> nat \<Rightarrow> nat list) \<Rightarrow> bool" where
  "contents ok S Own X \<longleftrightarrow> ok (cent S) Own
     \<and> (\<forall>h t. heaps S h = Some t \<longrightarrow> cache_ok (store (cent S)) t (X h) \<and> short (X h))
     \<and> (\<forall>h c. set (X h c) \<subseteq> Own c) \<and> (\<forall>h. heaps S h = None \<longrightarrow> X h = (\<lambda>_. []))
     \<and> (\<forall>g h c. g \<noteq> h \<longrightarrow> set (X g c) \<inter> set (X h c) = {})"

definition registry :: "threads \<Rightarrow> nat list \<Rightarrow> bool" where
  "registry S hs \<longleftrightarrow> on_list (heaps S) (thread_heaps S) hs \<and> distinct hs \<and> dom (heaps S) = set hs
     \<and> pool sizeof_ThreadCache (set hs) (threadcache_allocator S) \<and> thread_heap_count S = int (length hs)
     \<and> next_memory_steal S \<in> insert 0 (set hs)
     \<and> (\<forall>g h s t. heaps S g = Some s \<longrightarrow> heaps S h = Some t \<longrightarrow> tc_tid s = tc_tid t \<longrightarrow> g = h)
     \<and> (\<forall>h t. heaps S h = Some t \<longrightarrow> \<not> tc_in_setspecific t)
     \<and> (\<forall>me. tls S me \<noteq> 0 \<longrightarrow> tsd_inited S \<and> (\<exists>t. heaps S (tls S me) = Some t \<and> tc_tid t = me))"

text \<open>What the application holds: the objects that the clients of the central lists hold, and no cache has.\<close>

definition app :: "(nat \<Rightarrow> nat set) \<Rightarrow> (nat \<Rightarrow> nat \<Rightarrow> nat list) \<Rightarrow> nat \<Rightarrow> nat set" where
  "app Own X c = Own c - (\<Union>h. set (X h c))"

definition threads_ok :: "(central \<Rightarrow> (nat \<Rightarrow> nat set) \<Rightarrow> bool) \<Rightarrow> threads \<Rightarrow> (nat \<Rightarrow> nat set) \<Rightarrow> bool" where
  "threads_ok ok S App \<longleftrightarrow> (\<exists>Own X hs. contents ok S Own X \<and> registry S hs \<and> budget_ok S \<and> App = app Own X)"

lemma contentsD:
  assumes "contents ok S Own X"
  shows "ok (cent S) Own" "\<And>h t. heaps S h = Some t \<Longrightarrow> cache_ok (store (cent S)) t (X h) \<and> short (X h)"
    "\<And>h c. set (X h c) \<subseteq> Own c" "\<And>h. heaps S h = None \<Longrightarrow> X h = (\<lambda>_. [])" "\<And>g h c. g \<noteq> h \<Longrightarrow> set (X g c) \<inter> set (X h c) = {}"
  using assms unfolding contents_def by blast+

lemma registryD:
  assumes "registry S hs"
  shows "on_list (heaps S) (thread_heaps S) hs" "distinct hs" "dom (heaps S) = set hs"
    "pool sizeof_ThreadCache (set hs) (threadcache_allocator S)" "thread_heap_count S = int (length hs)"
    "next_memory_steal S \<in> insert 0 (set hs)"
    "\<And>g h s t. heaps S g = Some s \<Longrightarrow> heaps S h = Some t \<Longrightarrow> tc_tid s = tc_tid t \<Longrightarrow> g = h"
    "\<And>h t. heaps S h = Some t \<Longrightarrow> \<not> tc_in_setspecific t"
    "\<And>me. tls S me \<noteq> 0 \<Longrightarrow> tsd_inited S \<and> (\<exists>t. heaps S (tls S me) = Some t \<and> tc_tid t = me)"
  using assms unfolding registry_def by blast+

text \<open>The registry depends on the identity of the caches alone.\<close>

definition ident :: "thread_cache \<Rightarrow> (nat \<times> nat) \<times> nat \<times> bool" where
  "ident t = (links t, tc_tid t, tc_in_setspecific t)"

lemma ident_links: "\<forall>h. map_option ident (H' h) = map_option ident (H h) \<Longrightarrow> map_option links (H' h) = map_option links (H h)"
  by (drule spec[of _ h]) (cases "H' h"; cases "H h"; simp add: ident_def)

lemma ident_some:
  assumes "\<forall>h. map_option ident (H' h) = map_option ident (H h)" "H' h = Some t'"
  obtains t where "H h = Some t" "tc_tid t = tc_tid t'" "tc_in_setspecific t = tc_in_setspecific t'"
proof -
  have "map_option ident (H h) = Some (ident t')" using assms by (metis option.simps(9))
  then show thesis using that by (auto simp: ident_def)
qed

lemma registry_cong:
  assumes "registry S hs" "\<forall>h. map_option ident (heaps S' h) = map_option ident (heaps S h)" "thread_heaps S' = thread_heaps S"
    "threadcache_allocator S' = threadcache_allocator S" "thread_heap_count S' = thread_heap_count S"
    "next_memory_steal S' \<in> insert 0 (set hs)" "tsd_inited S' = tsd_inited S" "tls S' = tls S"
  shows "registry S' hs"
proof -
  note R = registryD[OF assms(1)]
  have l: "on_list (heaps S') (thread_heaps S') hs"
    using R(1) on_list_links[of hs "heaps S'" "heaps S"] ident_links[OF assms(2)] assms(3) by simp
  have "heaps S' h = None \<longleftrightarrow> heaps S h = None" for h using assms(2) by (metis map_option_is_None)
  then have d: "dom (heaps S') = set hs" using R(3) by (auto simp: dom_def)
  have t: "g = h" if "heaps S' g = Some s" "heaps S' h = Some t" "tc_tid s = tc_tid t" for g h s t
    using ident_some[OF assms(2) that(1)] ident_some[OF assms(2) that(2)] R(7) that(3) by metis
  have s: "\<not> tc_in_setspecific t" if "heaps S' h = Some t" for h t
    using ident_some[OF assms(2) that] R(8) by metis
  have i: "\<forall>h. map_option ident (heaps S h) = map_option ident (heaps S' h)" using assms(2) by simp
  have "tsd_inited S' \<and> (\<exists>t. heaps S' (tls S' me) = Some t \<and> tc_tid t = me)" if n: "tls S' me \<noteq> 0" for me
  proof -
    obtain t where "tsd_inited S" "heaps S (tls S' me) = Some t" "tc_tid t = me" using R(9)[of me] n assms(8) by auto
    then show ?thesis using ident_some[OF i] assms(7) by metis
  qed
  then show ?thesis using l R(2,4,5) d t s assms(6) unfolding registry_def assms(4,5) by blast
qed

lemma registry_limits:
  assumes "registry S hs" "only_limits (heaps S) H" "n \<in> insert 0 (set hs)"
  shows "registry (S\<lparr>heaps := H, next_memory_steal := n, unclaimed_cache_space := u\<rparr>) hs"
proof -
  have "map_option ident (H h) = map_option ident (heaps S h)" for h
  proof (cases "heaps S h")
    case None
    then show ?thesis using only_limits_dom[OF assms(2)] by (metis domIff map_option_is_None)
  next
    case (Some t)
    then show ?thesis using only_limits_some[OF assms(2) Some] by (auto simp: ident_def links_def)
  qed
  then show ?thesis by (intro registry_cong[OF assms(1)]) (use assms(3) in simp_all)
qed

lemma cache_ok_limit [simp]: "cache_ok w (t\<lparr>tc_max_size := m\<rparr>) X = cache_ok w t X"
  by (simp add: cache_ok_def)

lemma contents_limits:
  assumes "contents ok S Own X" "only_limits (heaps S) H"
  shows "contents ok (S\<lparr>heaps := H, next_memory_steal := n, unclaimed_cache_space := u\<rparr>) Own X"
proof -
  note C = contentsD[OF assms(1)]
  have d: "H h = None \<longleftrightarrow> heaps S h = None" for h using only_limits_dom[OF assms(2)] by (metis domIff)
  have "cache_ok (store (cent S)) t (X h) \<and> short (X h)" if t: "H h = Some t" for h t
  proof -
    obtain s where s: "heaps S h = Some s" using d[of h] t by (cases "heaps S h") auto
    then obtain m where "t = s\<lparr>tc_max_size := m\<rparr>" using only_limits_some[OF assms(2) s] t by auto
    then show ?thesis using C(2)[OF s] by simp
  qed
  then show ?thesis using C d unfolding contents_def by simp
qed

text \<open>One cache and the central lists change.\<close>

lemma contents_step:
  assumes "contents ok S Own X" "heaps S this = Some t" "caching ok Own' Y (t', st')" "short Y"
    "\<And>h c. h \<noteq> this \<Longrightarrow> set (X h c) \<subseteq> Own' c \<and> set (X h c) \<inter> set (Y c) = {}"
    "\<And>h c x. h \<noteq> this \<Longrightarrow> x \<in> set (X h c) \<Longrightarrow> store st' x = store (cent S) x"
  shows "contents ok (S\<lparr>heaps := (heaps S)(this \<mapsto> t'), cent := st'\<rparr>) Own' (X(this := Y))"
proof -
  note C = contentsD[OF assms(1)]
  have K: "ok st' Own'" "cache_ok (store st') t' Y" "\<forall>c. set (Y c) \<subseteq> Own' c" using assms(3) by (simp_all add: caching_def)
  have o: "cache_ok (store st') s (X h)" if "h \<noteq> this" "heaps S h = Some s" for h s
    using C(2)[OF that(2)] cache_ok_cong[of "X h" "store st'" "store (cent S)" s] assms(6)[OF that(1)] by blast
  have "cache_ok (store st') s ((X(this := Y)) h) \<and> short ((X(this := Y)) h)"
    if "((heaps S)(this \<mapsto> t')) h = Some s" for h s
    using that o C(2) K(2) assms(4) by (cases "h = this") auto
  moreover have "set ((X(this := Y)) h c) \<subseteq> Own' c" for h c using assms(5) K(3) by (cases "h = this") simp_all
  moreover have "(X(this := Y)) h = (\<lambda>_. [])" if "((heaps S)(this \<mapsto> t')) h = None" for h
    using that C(4) by (cases "h = this") simp_all
  moreover have "set ((X(this := Y)) g c) \<inter> set ((X(this := Y)) h c) = {}" if "g \<noteq> h" for g h c
    using that C(5)[OF that] assms(5)[of g c] assms(5)[of h c] by (cases "g = this"; cases "h = this") auto
  ultimately show ?thesis using K(1) unfolding contents_def by simp
qed

text \<open>The registry and the budget do not see a change of the lists of a cache.\<close>

lemma same_rest_ident: "same_rest t t' \<Longrightarrow> ident t' = ident t \<and> tc_max_size t' = tc_max_size t"
  unfolding same_rest_def by (cases t; cases t') (simp add: ident_def links_def)

lemma registry_step:
  assumes "registry S hs" "heaps S this = Some t" "same_rest t t'"
  shows "registry (S\<lparr>heaps := (heaps S)(this \<mapsto> t'), cent := st'\<rparr>) hs"
  using registryD(6)[OF assms(1)] same_rest_ident[OF assms(3)] assms(2) by (intro registry_cong[OF assms(1)]) simp_all

lemma budget_step:
  assumes "budget_ok S" "heaps S this = Some t" "same_rest t t'"
  shows "budget_ok (S\<lparr>heaps := (heaps S)(this \<mapsto> t'), cent := st'\<rparr>)"
proof -
  have "finite (dom (heaps S))" using assms(1) by (simp add: budget_ok_def)
  from claims_upd[OF this assms(2), of t'] have "claims ((heaps S)(this \<mapsto> t')) = claims (heaps S)"
    using same_rest_ident[OF assms(3)] by simp
  then show ?thesis using assms(1) by (simp add: budget_ok_def)
qed

end
