(* ===== verification/ThreadCachesOps.thy ===== *)
theory ThreadCachesOps
  imports ThreadCaches
begin

text \<open>
  The operations on all caches: allocation and deallocation through the cache of a thread, and the
  return of its objects; each from consistent states to consistent states.
\<close>

lemma contents_caching: "contents ok S Own X \<Longrightarrow> heaps S this = Some t \<Longrightarrow> caching ok Own (X this) (t, cent S)"
  using contentsD unfolding caching_def by blast

lemma others_app: "X' = X(this := Y) \<Longrightarrow> app Own X' c = Own c - set (Y c) - (\<Union>h \<in> - {this}. set (X h c))"
  unfolding app_def by (auto split: if_splits)

context cached_source
begin

lemma cache_Allocate_ok:
  assumes "threads_ok ok S App" "heaps S this = Some t" "cl \<in> classes" "ready (cent S)"
  obtains r S' where "cache_Allocate env this (osz cl) cl S = Some (r, S')" "r = 0 \<longrightarrow> dry cl (cent S) \<and> threads_ok ok S' App"
    "r \<noteq> 0 \<longrightarrow> (\<forall>c. r \<notin> App c) \<and> threads_ok ok S' (App(cl := insert r (App cl)))" "undisturbed (held App) (cent S) (cent S')"
    "\<exists>t' st'. S' = S\<lparr>heaps := (heaps S)(this \<mapsto> t'), cent := st'\<rparr> \<and> same_rest t t'"
proof -
  obtain Own X hs where I: "contents ok S Own X" "registry S hs" "budget_ok S" "App = app Own X"
    using assms(1) unfolding threads_ok_def by blast
  note C = contentsD[OF I(1)]
  have ca: "caching ok Own (X this) (t, cent S)" by (rule contents_caching[OF I(1) assms(2)])
  obtain r t' st' N Y where A: "Allocate env (osz cl) cl t (cent S) = Some (r, t', st')"
    "caching ok (Own(cl := Own cl \<union> N)) ((X this)(cl := Y)) (t', st')" "N \<inter> Own cl = {}" "undisturbed (held Own) (cent S) st'" "same_rest t t'"
    "length Y \<le> max 32 (length (X this cl))" "r = 0 \<longrightarrow> N = {} \<and> Y = X this cl \<and> dry cl (cent S)"
    "r \<noteq> 0 \<longrightarrow> set (X this cl) \<union> N = insert r (set Y) \<and> r \<notin> set Y"
    by (rule Allocate_ok[OF ca assms(3,4)]) (rule that)
  let ?S = "S\<lparr>heaps := (heaps S)(this \<mapsto> t'), cent := st'\<rparr>" and ?Own = "Own(cl := Own cl \<union> N)" and ?Y = "(X this)(cl := Y)"
  have sh: "short (X this)" using C(2)[OF assms(2)] by blast
  then have "length (X this cl) \<le> 8192" by (simp add: short_def)
  then have "length Y \<le> 8192" using A(6) by simp
  then have "short ?Y" using sh by (simp add: short_def)
  moreover have Ys: "set Y \<subseteq> set (X this cl) \<union> N" using A(7,8) by (cases "r = 0") auto
  have "set (X h c) \<subseteq> ?Own c \<and> set (X h c) \<inter> set (?Y c) = {}" if h: "h \<noteq> this" for h c
  proof -
    have "set (X h c) \<inter> set (X this c) = {}" "set (X h c) \<subseteq> Own c" using C(3,5) h by blast+
    then show ?thesis using Ys A(3) by (cases "c = cl") auto
  qed
  moreover have "store st' x = store (cent S) x" if "h \<noteq> this" "x \<in> set (X h c)" for h c x
    using A(4) C(3) that(2) in_held[OF C(1)] unfolding undisturbed_def by blast
  ultimately have 1: "contents ok ?S ?Own (X(this := ?Y))" by (intro contents_step[OF I(1) assms(2) A(2)])
  have 2: "registry ?S hs" "budget_ok ?S" by (rule registry_step[OF I(2) assms(2) A(5)], rule budget_step[OF I(3) assms(2) A(5)])
  have o: "set (X h c) \<inter> set (X this c) = {}" if "h \<noteq> this" for h c using C(5)[OF that] .
  have ap: "App c = Own c - set (X this c) - (\<Union>h \<in> - {this}. set (X h c))" for c
    unfolding I(4) app_def by auto
  have ap': "app ?Own (X(this := ?Y)) c = ?Own c - set (?Y c) - (\<Union>h \<in> - {this}. set (X h c))" for c
    by (rule others_app) (rule refl)
  show thesis
  proof (rule that)
    show "cache_Allocate env this (osz cl) cl S = Some (r, ?S)" using assms(2) A(1) by (simp add: cache_Allocate_def)
    have "app ?Own (X(this := ?Y)) = App" if "r = 0"
      using A(7) that ap ap' by (auto simp: fun_eq_iff)
    then show "r = 0 \<longrightarrow> dry cl (cent S) \<and> threads_ok ok ?S App" using 1 2 A(7) unfolding threads_ok_def by metis
    show "r \<noteq> 0 \<longrightarrow> (\<forall>c. r \<notin> App c) \<and> threads_ok ok ?S (App(cl := insert r (App cl)))"
    proof
      assume r: "r \<noteq> 0"
      have e: "set (X this cl) \<union> N = insert r (set Y)" "r \<notin> set Y" using A(8) r by simp_all
      then have ro: "r \<in> set (X this cl) \<or> r \<in> N" by blast
      have rn: "r \<notin> set (X h cl)" if "h \<noteq> this" for h using ro o[OF that, of cl] C(3)[of h cl] A(3) by blast
      have sub: "set (X h cl) \<subseteq> Own cl" for h by (rule C(3))
      have "app ?Own (X(this := ?Y)) cl = insert r (App cl)"
        unfolding ap ap' using e rn sub A(3) by auto
      moreover have "app ?Own (X(this := ?Y)) c = App c" if "c \<noteq> cl" for c unfolding ap ap' using that by simp
      ultimately have "app ?Own (X(this := ?Y)) = App(cl := insert r (App cl))" by (auto simp: fun_eq_iff)
      moreover have "r \<notin> App c" for c
      proof (cases "c = cl")
        case True
        then show ?thesis using ro A(3) unfolding ap by blast
      next
        case False
        have "r \<in> ?Own cl" using ro sub by auto
        moreover have "ok st' ?Own" using A(2) by (simp add: caching_def)
        ultimately have "r \<notin> ?Own c" using apart_law[of st' ?Own r cl c] False by blast
        then show ?thesis using False unfolding ap by simp
      qed
      ultimately show "(\<forall>c. r \<notin> App c) \<and> threads_ok ok ?S (App(cl := insert r (App cl)))"
        using 1 2 unfolding threads_ok_def by metis
    qed
    have "held App \<subseteq> held Own" unfolding I(4) by (intro held_mono) (auto simp: app_def)
    then show "undisturbed (held App) (cent S) (cent ?S)" using undisturbed_mono[OF A(4)] by simp
    show "\<exists>t' st'. ?S = S\<lparr>heaps := (heaps S)(this \<mapsto> t'), cent := st'\<rparr> \<and> same_rest t t'" using A(5) by blast
  qed
qed

text \<open>A cache that has taken \<open>p\<close> from the application and given some of its objects back.\<close>

lemma give_back_step:
  assumes "contents ok S Own X" "registry S hs" "budget_ok S" "heaps S this = Some t" "same_rest t t'" "short Y"
    "caching ok (less_own Own Z Y) Y (t', st')" "\<forall>c. set (Y c) \<subseteq> set (Z c)" "undisturbed (held (\<lambda>c. Own c - set (Z c))) (cent S) st'"
    "\<forall>c. set (Z c) = set (X this c) \<union> P c" "\<forall>c. P c \<subseteq> app Own X c"
  shows "contents ok (S\<lparr>heaps := (heaps S)(this \<mapsto> t'), cent := st'\<rparr>) (less_own Own Z Y) (X(this := Y))"
    "registry (S\<lparr>heaps := (heaps S)(this \<mapsto> t'), cent := st'\<rparr>) hs" "budget_ok (S\<lparr>heaps := (heaps S)(this \<mapsto> t'), cent := st'\<rparr>)"
    "app (less_own Own Z Y) (X(this := Y)) = (\<lambda>c. app Own X c - P c)"
    "undisturbed (held (\<lambda>c. app Own X c - P c)) (cent S) st'"
proof -
  note C = contentsD[OF assms(1)]
  have o: "set (X h c) \<inter> set (Z c) = {}" if "h \<noteq> this" for h c
    using C(5)[OF that, of c] assms(10,11) unfolding app_def by blast
  show "contents ok (S\<lparr>heaps := (heaps S)(this \<mapsto> t'), cent := st'\<rparr>) (less_own Own Z Y) (X(this := Y))"
  proof (rule contents_step[OF assms(1,4,7,6)])
    fix h c assume h: "h \<noteq> this"
    show "set (X h c) \<subseteq> less_own Own Z Y c \<and> set (X h c) \<inter> set (Y c) = {}"
      using o[OF h, of c] C(3)[of h c] assms(8) unfolding less_own_def by blast
    fix x assume x: "x \<in> set (X h c)"
    have "x \<in> Own c" "x \<notin> set (Z c)" using x o[OF h, of c] C(3)[of h c] by blast+
    then have "x \<in> held (\<lambda>c. Own c - set (Z c))" using object_law[OF C(1)] by (intro held_in[of x _ c]) blast+
    then show "store st' x = store (cent S) x" using assms(9) unfolding undisturbed_def by blast
  qed
  show "registry (S\<lparr>heaps := (heaps S)(this \<mapsto> t'), cent := st'\<rparr>) hs" "budget_ok (S\<lparr>heaps := (heaps S)(this \<mapsto> t'), cent := st'\<rparr>)"
    by (rule registry_step[OF assms(2,4,5)], rule budget_step[OF assms(3,4,5)])
  have "app (less_own Own Z Y) (X(this := Y)) c = app Own X c - P c" for c
  proof -
    have "app (less_own Own Z Y) (X(this := Y)) c = less_own Own Z Y c - set (Y c) - (\<Union>h \<in> - {this}. set (X h c))"
      by (rule others_app) (rule refl)
    also have "\<dots> = Own c - set (Z c) - (\<Union>h \<in> - {this}. set (X h c))" using assms(8) unfolding less_own_def by blast
    also have "\<dots> = app Own X c - P c" unfolding app_def using assms(10) by auto
    finally show ?thesis .
  qed
  then show "app (less_own Own Z Y) (X(this := Y)) = (\<lambda>c. app Own X c - P c)" by blast
  have "held (\<lambda>c. app Own X c - P c) \<subseteq> held (\<lambda>c. Own c - set (Z c))"
    using assms(10) by (intro held_mono) (auto simp: app_def)
  then show "undisturbed (held (\<lambda>c. app Own X c - P c)) (cent S) st'" by (rule undisturbed_mono[OF assms(9)])
qed

lemma threads_ok_limits:
  assumes "contents ok S Own X" "registry S hs" "only_limits (heaps S) H" "n \<in> insert 0 (set hs)"
    "budget_ok (S\<lparr>heaps := H, next_memory_steal := n, unclaimed_cache_space := u\<rparr>)"
  shows "threads_ok ok (S\<lparr>heaps := H, next_memory_steal := n, unclaimed_cache_space := u\<rparr>) (app Own X)"
  unfolding threads_ok_def
  by (intro exI[of _ Own] exI[of _ X] exI[of _ hs] conjI contents_limits[OF assms(1,3)] registry_limits[OF assms(2-4)] assms(5) refl)

lemma cache_Deallocate_ok:
  assumes "threads_ok ok S App" "heaps S this = Some t" "p \<in> App cl"
  obtains S' where "Deallocate env this p cl S = Some S'" "threads_ok ok S' (App(cl := App cl - {p}))"
    "undisturbed (held (App(cl := App cl - {p}))) (cent S) (cent S')"
proof -
  obtain Own X hs where I: "contents ok S Own X" "registry S hs" "budget_ok S" "App = app Own X"
    using assms(1) unfolding threads_ok_def by blast
  note C = contentsD[OF I(1)]
  have ca: "caching ok Own (X this) (t, cent S)" by (rule contents_caching[OF I(1) assms(2)])
  have p: "p \<in> Own cl" "p \<notin> set (X this cl)" using assms(3) I(4) by (auto simp: app_def)
  have cl: "cl \<in> classes" using object_law[OF C(1) p(1)] by blast
  have sh: "short (X this)" using C(2)[OF assms(2)] by blast
  let ?Z = "(X this)(cl := p # X this cl)"
  obtain t' st' Y where D: "Deallocate env this p cl S = Some (S\<lparr>heaps := (heaps S)(this \<mapsto> t'), cent := st'\<rparr>)
      \<or> Deallocate env this p cl S = IncreaseCacheLimitLocked this (S\<lparr>heaps := (heaps S)(this \<mapsto> t'), cent := st'\<rparr>)"
    "caching ok (less_own Own ?Z Y) Y (t', st')" "\<forall>c. set (Y c) \<subseteq> set (?Z c)" "short Y"
    "undisturbed (held (\<lambda>c. Own c - set (?Z c))) (cent S) st'" "same_rest t t'"
    by (rule Deallocate_ok[OF ca assms(2) cl p sh]) (rule that)
  let ?S = "S\<lparr>heaps := (heaps S)(this \<mapsto> t'), cent := st'\<rparr>" and ?P = "\<lambda>c. if c = cl then {p} else {}"
  have P: "\<forall>c. set (?Z c) = set (X this c) \<union> ?P c" "\<forall>c. ?P c \<subseteq> app Own X c" using assms(3) I(4) by auto
  note G = give_back_step[OF I(1-3) assms(2) D(6,4,2,3,5) P]
  have e: "(\<lambda>c. app Own X c - ?P c) = App(cl := App cl - {p})" using I(4) by (auto simp: fun_eq_iff)
  have ok1: "threads_ok ok ?S (App(cl := App cl - {p}))" unfolding threads_ok_def using G(1-4) unfolding e by metis
  have k: "undisturbed (held (App(cl := App cl - {p}))) (cent S) st'" using G(5) unfolding e .
  from D(1) show thesis
  proof
    assume "Deallocate env this p cl S = Some ?S"
    then show thesis using ok1 k by (intro that[of ?S]) simp_all
  next
    assume d: "Deallocate env this p cl S = IncreaseCacheLimitLocked this ?S"
    have h: "heaps ?S this = Some t'" by simp
    have "hs \<noteq> []" using registryD(3)[OF G(2)] by auto
    then have ne: "unclaimed_cache_space ?S > 0 \<or> hs \<noteq> []" by blast
    obtain H u n where i: "IncreaseCacheLimitLocked this ?S = Some (?S\<lparr>heaps := H, next_memory_steal := n, unclaimed_cache_space := u\<rparr>)"
      "only_limits (heaps ?S) H" "budget_ok (?S\<lparr>heaps := H, next_memory_steal := n, unclaimed_cache_space := u\<rparr>)" "n \<in> insert 0 (set hs)"
      by (rule IncreaseCacheLimitLocked_ok[OF G(3) h registryD(1)[OF G(2)] ne registryD(6)[OF G(2)]]) (rule that)
    have "threads_ok ok (?S\<lparr>heaps := H, next_memory_steal := n, unclaimed_cache_space := u\<rparr>) (App(cl := App cl - {p}))"
      using threads_ok_limits[OF G(1,2) i(2,4,3)] unfolding G(4) e .
    then show thesis using d i(1) k
      by (intro that[of "?S\<lparr>heaps := H, next_memory_steal := n, unclaimed_cache_space := u\<rparr>"]) simp_all
  qed
qed

end

end
