(* ===== verification/ThreadCachesLife.thy ===== *)
theory ThreadCachesLife
  imports ThreadCachesOps
begin

text \<open>
  The life of a cache: \<open>NewHeap\<close>, \<open>DeleteCache\<close>, and the way of a thread to its cache; and the
  division of the budget among all caches.
\<close>

section \<open>What does not concern the lists\<close>

text \<open>Two caches that differ in links, limit, thread and sampler have the same lists.\<close>

definition same_lists :: "thread_cache \<Rightarrow> thread_cache \<Rightarrow> bool" where
  "same_lists t t' \<longleftrightarrow> tc_list t' = tc_list t \<and> tc_size t' = tc_size t"

lemma same_lists_ok: "same_lists t t' \<Longrightarrow> cache_ok w t' X = cache_ok w t X"
  by (simp add: same_lists_def cache_ok_def)

lemma contents_cong:
  assumes "contents ok S Own X" "cent S' = cent S"
    "\<And>h t'. heaps S' h = Some t' \<Longrightarrow> (\<exists>t. heaps S h = Some t \<and> same_lists t t') \<or> heaps S h = None \<and> cache_ok (store (cent S)) t' (\<lambda>_. [])"
    "\<And>h. heaps S' h = None \<Longrightarrow> X h = (\<lambda>_. [])"
  shows "contents ok S' Own X"
proof -
  note C = contentsD[OF assms(1)]
  have "cache_ok (store (cent S)) t' (X h) \<and> short (X h)" if "heaps S' h = Some t'" for h t'
    using assms(3)[OF that]
  proof
    assume "\<exists>t. heaps S h = Some t \<and> same_lists t t'"
    then show ?thesis using C(2) same_lists_ok by blast
  next
    assume "heaps S h = None \<and> cache_ok (store (cent S)) t' (\<lambda>_. [])"
    then show ?thesis using C(4)[of h] by (simp add: short_def)
  qed
  then show ?thesis using C assms(2,4) unfolding contents_def by simp
qed

text \<open>The same caches but for their links.\<close>

definition unlinked :: "thread_cache \<Rightarrow> thread_cache" where
  "unlinked t = t\<lparr>tc_next := 0, tc_prev := 0\<rparr>"

definition only_links :: "caches \<Rightarrow> caches \<Rightarrow> bool" where
  "only_links H H' \<longleftrightarrow> (\<forall>h. map_option unlinked (H' h) = map_option unlinked (H h))"

lemma only_links_refl [simp]: "only_links H H"
  by (simp add: only_links_def)

lemma only_links_trans: "only_links H H1 \<Longrightarrow> only_links H1 H2 \<Longrightarrow> only_links H H2"
  by (simp add: only_links_def)

lemma only_links_upd: "H h = Some t \<Longrightarrow> unlinked t' = unlinked t \<Longrightarrow> only_links H (H(h \<mapsto> t'))"
  by (simp add: only_links_def)

lemma only_links_dom: "only_links H H' \<Longrightarrow> dom H' = dom H"
  unfolding only_links_def dom_def by (metis map_option_is_None)

lemma only_links_some:
  assumes "only_links H H'" "H' h = Some t'"
  obtains t where "H h = Some t" "same_lists t t'" "tc_tid t' = tc_tid t" "tc_max_size t' = tc_max_size t"
    "tc_in_setspecific t' = tc_in_setspecific t"
proof -
  have "map_option unlinked (H h) = Some (unlinked t')" using assms unfolding only_links_def by (metis option.simps(9))
  then obtain t where t: "H h = Some t" "unlinked t = unlinked t'" by auto
  then show thesis using that[OF t(1)] by (cases t; cases t') (simp add: unlinked_def same_lists_def)
qed

lemma only_links_claims:
  assumes "only_links H H'"
  shows "claims H' = claims H"
proof (rule claims_same[OF only_links_dom[OF assms]])
  fix h assume "h \<in> dom H"
  then obtain t' where "H' h = Some t'" using only_links_dom[OF assms] by blast
  then show "tc_max_size (the (H' h)) = tc_max_size (the (H h))" using only_links_some[OF assms] by (metis option.sel)
qed

section \<open>Deleting a cache\<close>

context cached_source
begin

lemma DeleteCache_ok:
  assumes "threads_ok ok S App" "heaps S h = Some t" "\<forall>me. tls S me \<noteq> h"
  obtains S' where "DeleteCache env h S = Some S'" "threads_ok ok S' App" "undisturbed (held App) (cent S) (cent S')"
    "dom (heaps S') = dom (heaps S) - {h}" "tls S' = tls S" "unclaimed_cache_space S' = unclaimed_cache_space S + int (tc_max_size t)"
    "HeapsInUse S' = HeapsInUse S - 1"
proof -
  obtain Own X hs where I: "contents ok S Own X" "registry S hs" "budget_ok S" "App = app Own X"
    using assms(1) unfolding threads_ok_def by blast
  have ca: "caching ok Own (X h) (t, cent S)" by (rule contents_caching[OF I(1) assms(2)])
  obtain t' st' where D: "Cleanup env t (cent S) = Some (t', st')" "gave_back ok Own (X h) (t, cent S) (\<lambda>_. []) (t', st')"
    by (rule Cleanup_ok[OF ca]) (rule that)
  then have G0: "same_rest t t'" "caching ok (less_own Own (X h) (\<lambda>_. [])) (\<lambda>_. []) (t', st')"
    "undisturbed (held (\<lambda>c. Own c - set (X h c))) (cent S) st'" by (simp_all add: gave_back_def)
  have sh: "short (\<lambda>_. [])" by (simp add: short_def)
  have "\<forall>c. set ((\<lambda>_. []) c) \<subseteq> set (X h c)" "\<forall>c. set (X h c) = set (X h c) \<union> {}" "\<forall>c. {} \<subseteq> app Own X c" by simp_all
  note G = give_back_step[OF I(1-3) assms(2) G0(1) sh G0(2) this(1) G0(3) this(2,3)]
  let ?S1 = "S\<lparr>heaps := (heaps S)(h \<mapsto> t'), cent := st'\<rparr>" and ?H = "(heaps S)(h \<mapsto> t')"
  note R = registryD[OF G(2)]
  have h: "?H h = Some t'" by simp
  have hin: "h \<in> set hs" using R(3) by auto
  then obtain xs ys where hs: "hs = xs @ h # ys" using split_list by metis
  have ol: "on_list ?H (thread_heaps S) (xs @ h # ys)" using R(1) hs by simp
  have ds: "distinct (xs @ h # ys)" using R(2) hs by simp
  note U = on_list_unlink[OF ol ds h]
  define H1 where "H1 = (if tc_next t' = 0 then ?H else ?H(tc_next t' \<mapsto> (the (?H (tc_next t')))\<lparr>tc_prev := tc_prev t'\<rparr>))"
  define H2 where "H2 = (if tc_prev t' = 0 then H1 else H1(tc_prev t' \<mapsto> (the (H1 (tc_prev t')))\<lparr>tc_next := tc_next t'\<rparr>))"
  define th where "th = (if thread_heaps S = h then tc_next t' else thread_heaps S)"
  have U1: "on_list (H2(h := None)) th (xs @ ys)" using U(1) unfolding H2_def H1_def th_def .
  have n0: "tc_next t' \<noteq> 0 \<longrightarrow> tc_next t' \<in> set ys" and p0: "tc_prev t' \<noteq> 0 \<longrightarrow> tc_prev t' \<in> set xs" and q0: "thread_heaps S = h \<longleftrightarrow> xs = []"
    using U(2-4) by blast+
  have dm: "set hs = dom ?H" using R(3) by simp
  have nn: "tc_next t' \<noteq> 0 \<longrightarrow> ?H (tc_next t') = Some (the (?H (tc_next t')))" using n0 dm hs by force
  have l1: "only_links ?H H1" unfolding H1_def using nn by (auto intro!: only_links_upd simp: unlinked_def)
  have pp: "tc_prev t' \<noteq> 0 \<longrightarrow> H1 (tc_prev t') = Some (the (H1 (tc_prev t')))"
    using p0 only_links_dom[OF l1] dm hs by (metis Un_iff domD option.sel set_append)
  have l2: "only_links H1 H2" unfolding H2_def using pp by (auto intro!: only_links_upd simp: unlinked_def)
  have l: "only_links ?H H2" by (rule only_links_trans[OF l1 l2])
  have nh: "tc_next t' \<noteq> h" "tc_prev t' \<noteq> h" using n0 p0 ds on_listD(1)[OF ol, of h] by auto
  have H2h: "H2 h = Some t'" using nh by (simp add: H2_def H1_def)
  define nm where "nm = (let m = (if next_memory_steal S = h then tc_next t' else next_memory_steal S) in if m = 0 then th else m)"
  define S' where "S' = ?S1\<lparr>heaps := H2(h := None), thread_heaps := th, thread_heap_count := thread_heap_count S - 1,
    next_memory_steal := nm, unclaimed_cache_space := unclaimed_cache_space S + int (tc_max_size t'),
    threadcache_allocator := pha_Delete h (threadcache_allocator S)\<rparr>"
  have o1: "(if tc_next t' \<noteq> 0 then on_heap (tc_next t') (\<lambda>u. u\<lparr>tc_prev := tc_prev t'\<rparr>) ?S1 else Some ?S1) = Some (?S1\<lparr>heaps := H1\<rparr>)"
    using nn by (cases "?H (tc_next t')") (auto simp: on_heap_def H1_def)
  have o2: "(if tc_prev t' \<noteq> 0 then on_heap (tc_prev t') (\<lambda>u. u\<lparr>tc_next := tc_next t'\<rparr>) (?S1\<lparr>heaps := H1\<rparr>) else Some (?S1\<lparr>heaps := H1\<rparr>))
      = Some (?S1\<lparr>heaps := H2\<rparr>)"
    using pp by (cases "H1 (tc_prev t')") (auto simp: on_heap_def H2_def)
  have res: "DeleteCache env h S = Some S'"
    by (simp only: DeleteCache_def assms(2) D(1) Option.bind.simps case_prod_conv Let_def o1 o2)
      (simp add: S'_def th_def nm_def Let_def)
  have c': "contents ok S' (less_own Own (X h) (\<lambda>_. [])) (X(h := \<lambda>_. []))"
  proof (rule contents_cong[OF G(1)])
    fix x u assume "heaps S' x = Some u"
    then have x: "x \<noteq> h" "H2 x = Some u" by (auto simp: S'_def split: if_splits)
    obtain s where "?H x = Some s" "same_lists s u" by (rule only_links_some[OF l x(2)]) (rule that)
    then show "(\<exists>t. heaps ?S1 x = Some t \<and> same_lists t u) \<or> heaps ?S1 x = None \<and> cache_ok (store (cent ?S1)) u (\<lambda>_. [])" by auto
  next
    fix x assume "heaps S' x = None"
    then have "x = h \<or> H2 x = None" by (auto simp: S'_def split: if_splits)
    then have "x = h \<or> heaps S x = None" using only_links_dom[OF l] by (auto simp: dom_def split: if_splits)
    then show "(X(h := \<lambda>_. [])) x = (\<lambda>_. [])" using contentsD(4)[OF I(1)] by auto
  qed (simp add: S'_def)
  have d': "dom (heaps S') = set (xs @ ys)"
    using only_links_dom[OF l] dm ds hs by (auto simp: S'_def)
  have r': "registry S' (xs @ ys)"
    unfolding registry_def
  proof (intro conjI allI impI)
    show "on_list (heaps S') (thread_heaps S') (xs @ ys)" using U1 by (simp add: S'_def)
    show "distinct (xs @ ys)" using ds by simp
    show "dom (heaps S') = set (xs @ ys)" by (rule d')
    have "set hs - {h} = set (xs @ ys)" using ds hs by auto
    then show "pool sizeof_ThreadCache (set (xs @ ys)) (threadcache_allocator S')"
      using pha_Delete_pool[OF R(4) hin] by (simp add: S'_def)
    show "thread_heap_count S' = int (length (xs @ ys))" using R(5) hs by (simp add: S'_def)
    have "th \<in> insert 0 (set (xs @ ys))"
      using n0 q0 on_listD(2,3)[OF ol] by (cases "thread_heaps S = 0") (auto simp: th_def)
    moreover have "next_memory_steal S \<in> insert 0 (set hs)" using R(6) by simp
    ultimately show "next_memory_steal S' \<in> insert 0 (set (xs @ ys))"
      using n0 hs by (auto simp: S'_def nm_def Let_def)
  next
    fix g k s u assume a: "heaps S' g = Some s" "heaps S' k = Some u" "tc_tid s = tc_tid u"
    have g: "H2 g = Some s" "H2 k = Some u" using a(1,2) by (auto simp: S'_def split: if_splits)
    obtain s0 where s0: "?H g = Some s0" "tc_tid s = tc_tid s0" by (rule only_links_some[OF l g(1)]) (rule that)
    obtain u0 where u0: "?H k = Some u0" "tc_tid u = tc_tid u0" by (rule only_links_some[OF l g(2)]) (rule that)
    show "g = k" by (rule R(7)[of g s0 k u0]) (use s0 u0 a(3) in simp_all)
  next
    fix g s assume "heaps S' g = Some s"
    then have "H2 g = Some s" by (auto simp: S'_def split: if_splits)
    then obtain u where "?H g = Some u" "tc_in_setspecific s = tc_in_setspecific u" by (rule only_links_some[OF l]) (rule that)
    then show "\<not> tc_in_setspecific s" using R(8)[of g u] by simp
  next
    fix me assume m: "tls S' me \<noteq> 0"
    show "tsd_inited S'" using R(9)[of me] m by (simp add: S'_def)
    obtain u where u: "?H (tls S me) = Some u" "tc_tid u = me" using R(9)[of me] m by (auto simp: S'_def)
    have nh: "tls S me \<noteq> h" using assms(3) by blast
    have "tls S me \<in> dom H2" using u(1) only_links_dom[OF l] by blast
    then obtain v where v: "H2 (tls S me) = Some v" by blast
    then have "tc_tid v = tc_tid u" using only_links_some[OF l v] u(1) by (metis option.inject)
    then show "\<exists>t. heaps S' (tls S' me) = Some t \<and> tc_tid t = me" using v u(2) nh by (simp add: S'_def)
  qed
  have fin: "finite (dom H2)" using only_links_dom[OF l] dm by (metis List.finite_set)
  have cl: "claims (H2(h := None)) + tc_max_size t' = claims ?H" using claims_remove[OF fin H2h] only_links_claims[OF l] by simp
  have b': "budget_ok S'" using G(3) cl fin unfolding budget_ok_def by (auto simp: S'_def)
  have mx: "tc_max_size t' = tc_max_size t" using same_rest_ident[OF G0(1)] by simp
  have a': "app (less_own Own (X h) (\<lambda>_. [])) (X(h := \<lambda>_. [])) = App" using G(4) I(4) by simp
  have ok': "threads_ok ok S' App" unfolding threads_ok_def using c' r' b' a' by metis
  have "undisturbed (held App) (cent S) (cent S')" using G(5) I(4) by (simp add: S'_def)
  moreover have "dom (heaps S') = dom (heaps S) - {h}" using d' R(3) ds hs assms(2) registryD(3)[OF I(2)] by auto
  moreover have "HeapsInUse S' = HeapsInUse S - 1" by (simp add: HeapsInUse_def S'_def pha_Delete_def)
  ultimately show thesis using res ok' mx by (intro that[of S']) (simp_all add: S'_def)
qed

end

section \<open>Creating a cache\<close>

lemma fresh_cache_ok:
  assumes "tc_size t = 0" "\<And>cl. cl < kNumClasses \<Longrightarrow> tc_list t cl = fl_Init"
  shows "cache_ok w t (\<lambda>_. [])"
proof -
  have "fl_ok w (tc_list t cl) []" if "cl < kNumClasses" for cl using assms(2)[OF that] by (simp add: fl_Init_def)
  moreover have "max_ok cl (tc_list t cl)" if "cl \<in> classes" for cl
    using assms(2)[of cl] that batch_facts(1)[OF that] by (simp add: max_ok_def fl_Init_def)
  ultimately show ?thesis using assms(1) by (simp add: cache_ok_def cache_bytes_def)
qed

text \<open>\<open>Init\<close> takes the first share of the budget for the cache, or overdraws it.\<close>

lemma tc_Init_ok:
  assumes "budget_ok S" "registry S hs" "heaps S h = None"
    "claims (heaps S) + kMinThreadCacheSize < 2 ^ 63" "S1 = S\<lparr>threadcache_allocator := a, heaps := (heaps S)(h \<mapsto> raw)\<rparr>"
  obtains H u n t where "tc_Init interval h me S1 = Some (S1\<lparr>heaps := H(h \<mapsto> t), next_memory_steal := n, unclaimed_cache_space := u\<rparr>)"
    "only_limits (heaps S) (H(h := None))" "n \<in> insert 0 (set hs)" "H h \<noteq> None"
    "budget_ok (S1\<lparr>heaps := H(h \<mapsto> t), next_memory_steal := n, unclaimed_cache_space := u\<rparr>)"
    "tc_size t = 0" "\<forall>cl < kNumClasses. tc_list t cl = fl_Init" "tc_tid t = me" "\<not> tc_in_setspecific t"
    "tc_next t = 0" "tc_prev t = 0"
proof -
  note R = registryD[OF assms(2)]
  let ?r = "raw\<lparr>tc_size := 0, tc_max_size := 0\<rparr>" and ?H = "(heaps S)(h \<mapsto> raw\<lparr>tc_size := 0, tc_max_size := 0\<rparr>)"
  define S2 where "S2 = S1\<lparr>heaps := ?H\<rparr>"
  have hh: "h \<notin> set hs" using assms(3) R(3) by blast
  have fin: "finite (dom (heaps S))" using assms(1) by (simp add: budget_ok_def)
  have cl: "claims ?H = claims (heaps S)" using claims_new[OF fin assms(3), of ?r] by simp
  have b2: "budget_ok S2" using assms(1,5) cl by (simp add: budget_ok_def S2_def)
  have h2: "heaps S2 h = Some ?r" by (simp add: S2_def)
  have "\<forall>x \<in> set hs. map_option links (heaps S2 x) = map_option links (heaps S x)" using hh by (auto simp: S2_def)
  from on_list_links[OF this] have "on_list (heaps S2) (thread_heaps S) hs" using R(1) by blast
  then have ol: "on_list (heaps S2) (thread_heaps S2) hs" using assms(5) by (simp add: S2_def)
  have nm: "next_memory_steal S2 \<in> insert 0 (set hs)" using R(6) assms(5) by (simp add: S2_def)
  have ne: "unclaimed_cache_space S2 > 0 \<or> hs \<noteq> []"
  proof (cases "hs = []")
    case True
    then have "claims (heaps S) = 0" using R(3) by (simp add: claims_def)
    then show ?thesis using assms(1,5) by (simp add: budget_ok_def S2_def)
  qed simp
  obtain H u n where i: "IncreaseCacheLimitLocked h S2 = Some (S2\<lparr>heaps := H, next_memory_steal := n, unclaimed_cache_space := u\<rparr>)"
    "only_limits (heaps S2) H" "budget_ok (S2\<lparr>heaps := H, next_memory_steal := n, unclaimed_cache_space := u\<rparr>)"
    "n \<in> insert 0 (set hs)" "unclaimed_cache_space S2 > 0 \<longrightarrow> tc_max_size (the (H h)) = tc_max_size ?r + kStealAmount"
    "unclaimed_cache_space S2 \<le> 0 \<longrightarrow> u = unclaimed_cache_space S2"
    by (rule IncreaseCacheLimitLocked_ok[OF b2 h2 ol ne nm]) (rule that)
  obtain m where m: "H h = Some (?r\<lparr>tc_max_size := m\<rparr>)" using only_limits_some[OF i(2) h2] by blast
  have lim: "only_limits (heaps S) (H(h := None))"
  proof -
    have "(heaps S2)(h := None) = heaps S" using assms(3) by (auto simp: S2_def)
    then show ?thesis using i(2) unfolding only_limits_def by (metis fun_upd_apply)
  qed
  define m' where "m' = (if m = 0 then kMinThreadCacheSize else m)"
  define u' where "u' = (if m = 0 then u - int kMinThreadCacheSize else u)"
  define t where "t = ?r\<lparr>tc_max_size := m', tc_next := 0, tc_prev := 0, tc_tid := me, tc_in_setspecific := False,
    tc_list := (\<lambda>cl. if cl < kNumClasses then fl_Init else tc_list raw cl), tc_sampler := Sampler_Init interval h (take_bit 32 me) (tc_sampler raw)\<rparr>"
  have u0: "u \<le> 0" if "m = 0" using i(5,6) m that by (cases "unclaimed_cache_space S2 > 0") auto
  have fo: "on_heap h (\<lambda>t. t\<lparr>tc_size := 0, tc_max_size := 0\<rparr>) S1 = Some S2"
    using assms(5) by (simp add: on_heap_def S2_def)
  have res: "tc_Init interval h me S1 = Some (S1\<lparr>heaps := H(h \<mapsto> t), next_memory_steal := n, unclaimed_cache_space := u'\<rparr>)"
  proof (cases "m = 0")
    case True
    then show ?thesis using m u0 
      by (simp only: tc_Init_def fo i(1) Option.bind.simps) (simp add: on_heap_def t_def u'_def m'_def S2_def cong: if_cong)
  next
    case False
    then show ?thesis using m 
      by (simp only: tc_Init_def fo i(1) Option.bind.simps) (simp add: on_heap_def t_def u'_def m'_def S2_def cong: if_cong)
  qed
  have fH: "finite (dom H)" using i(3) by (simp add: budget_ok_def)
  have "claims (H(h \<mapsto> t)) + m = claims H + m'" using claims_upd[OF fH m, of t] by (simp add: t_def)
  moreover have "claims H = claims (heaps S)" if "m = 0"
  proof -
    have "u = unclaimed_cache_space S" using i(5,6) m that assms(5) by (cases "unclaimed_cache_space S2 > 0") (auto simp: S2_def)
    then show ?thesis using i(3) assms(1,5) by (simp add: budget_ok_def S2_def)
  qed
  ultimately have "budget_ok (S1\<lparr>heaps := H(h \<mapsto> t), next_memory_steal := n, unclaimed_cache_space := u'\<rparr>)"
    using i(3) assms(4,5) m unfolding budget_ok_def by (cases "m = 0") (auto simp: S2_def m'_def u'_def insert_absorb domI)
  then show thesis by (intro that[OF res lim i(4)]) (simp_all add: m t_def)
qed

context cached_source
begin

lemma NewHeap_ok:
  assumes "threads_ok ok S App" "0 < spare sizeof_ThreadCache (threadcache_allocator S)"
    "claims (heaps S) + kMinThreadCacheSize < 2 ^ 63" "\<forall>g t. heaps S g = Some t \<longrightarrow> tc_tid t \<noteq> me"
  obtains h S' t where "NewHeap interval raw me S = Some (h, S')" "threads_ok ok S' App" "heaps S h = None" "h \<noteq> 0"
    "heaps S' h = Some t" "tc_tid t = me" "tc_size t = 0" "cent S' = cent S" "dom (heaps S') = insert h (dom (heaps S))"
    "tls S' = tls S" "tsd_inited S' = tsd_inited S" "HeapsInUse S' = HeapsInUse S + 1"
proof -
  obtain Own X hs where I: "contents ok S Own X" "registry S hs" "budget_ok S" "App = app Own X"
    using assms(1) unfolding threads_ok_def by blast
  note R = registryD[OF I(2)]
  obtain h a where a: "pha_New sizeof_ThreadCache (threadcache_allocator S) = Some (h, a)" "h \<notin> set hs" "0 < h"
    "pool sizeof_ThreadCache (insert h (set hs)) a"
    by (rule pha.new_ok[OF R(4) assms(2)]) (rule that)
  have hN: "heaps S h = None" using a(2) R(3) by blast
  define S1 where "S1 = S\<lparr>threadcache_allocator := a, heaps := (heaps S)(h \<mapsto> raw)\<rparr>"
  obtain H u n t where i: "tc_Init interval h me S1 = Some (S1\<lparr>heaps := H(h \<mapsto> t), next_memory_steal := n, unclaimed_cache_space := u\<rparr>)"
    "only_limits (heaps S) (H(h := None))" "n \<in> insert 0 (set hs)" "H h \<noteq> None"
    "budget_ok (S1\<lparr>heaps := H(h \<mapsto> t), next_memory_steal := n, unclaimed_cache_space := u\<rparr>)"
    "tc_size t = 0" "\<forall>cl < kNumClasses. tc_list t cl = fl_Init" "tc_tid t = me" "\<not> tc_in_setspecific t"
    "tc_next t = 0" "tc_prev t = 0"
    by (rule tc_Init_ok[OF I(3,2) hN assms(3) S1_def, of interval me]) (rule that)
  define p where "p = thread_heaps S"
  define t2 where "t2 = t\<lparr>tc_next := p, tc_prev := 0\<rparr>"
  define H2 where "H2 = (if p = 0 then H(h \<mapsto> t2) else H(h \<mapsto> t2, p \<mapsto> (the (H p))\<lparr>tc_prev := h\<rparr>))"
  define n2 where "n2 = (if p = 0 then h else n)"
  define S' where "S' = S1\<lparr>heaps := H2, next_memory_steal := n2, unclaimed_cache_space := u, thread_heaps := h,
    thread_heap_count := thread_heap_count S + 1\<rparr>"
  note L = on_listD[OF R(1)]
  have ph: "p \<noteq> 0 \<Longrightarrow> p \<noteq> h" "p \<noteq> 0 \<Longrightarrow> p \<in> set hs" "p = 0 \<longleftrightarrow> hs = []" using L(2,3) a(2) p_def by auto
  have same: "\<exists>s m. heaps S x = Some s \<and> t' = s\<lparr>tc_max_size := m\<rparr>" if "H x = Some t'" "x \<noteq> h" for x t'
  proof -
    have "x \<in> dom (heaps S)" using only_limits_dom[OF i(2)] that by (metis domI fun_upd_apply)
    then obtain s where s: "heaps S x = Some s" by blast
    then show ?thesis using only_limits_some[OF i(2) s] that by auto
  qed
  have Hd: "H x = None \<longleftrightarrow> heaps S x = None" if "x \<noteq> h" for x
    using only_limits_dom[OF i(2)] that by (metis domIff fun_upd_apply)
  have pS: "p \<noteq> 0 \<Longrightarrow> H p = Some (the (H p))" using ph L(1)[of p] Hd[of p] by (cases "H p") auto
  have res: "NewHeap interval raw me S = Some (h, S')"
  proof (cases "p = 0")
    case True
    then have "n = 0" using i(3) ph(3) by simp
    then show ?thesis using True
      by (simp only: NewHeap_def a(1) Option.bind.simps case_prod_conv S1_def[symmetric] i(1))
        (simp add: on_heap_def S'_def S1_def p_def t2_def H2_def n2_def)
  next
    case False
    then obtain v where "H p = Some v" using pS by blast
    then show ?thesis using False ph(1)
      by (simp only: NewHeap_def a(1) Option.bind.simps case_prod_conv S1_def[symmetric] i(1))
        (simp add: on_heap_def S'_def S1_def p_def t2_def H2_def n2_def)
  qed
  have ol: "on_list H2 h (h # hs)"
    unfolding H2_def
  proof (rule on_list_push)
    have "\<forall>x \<in> set hs. map_option links (H x) = map_option links (heaps S x)"
      using only_limits_links[OF i(2)] a(2) by (metis fun_upd_apply)
    then show "on_list H p hs" using R(1) on_list_links unfolding p_def by blast
  qed (use a(2,3) R(2) in \<open>simp_all add: t2_def\<close>)
  have H2s: "\<exists>s. (x = h \<and> s = t \<or> x \<noteq> h \<and> H x = Some s) \<and> unlinked t' = unlinked s" if "H2 x = Some t'" for x t'
    using that pS ph(1) by (auto simp: H2_def unlinked_def t2_def split: if_splits)
  have lists: "same_lists s t' \<and> tc_tid t' = tc_tid s \<and> tc_in_setspecific t' = tc_in_setspecific s" if "unlinked t' = unlinked s" for s t'
    using that by (cases s; cases t') (simp add: unlinked_def same_lists_def)
  have sl: "(x = h \<and> tc_tid t' = me \<and> \<not> tc_in_setspecific t' \<and> cache_ok w t' (\<lambda>_. []))
      \<or> (x \<noteq> h \<and> (\<exists>s. heaps S x = Some s \<and> same_lists s t' \<and> tc_tid t' = tc_tid s \<and> tc_in_setspecific t' = tc_in_setspecific s))"
    if x: "H2 x = Some t'" for x t' w
  proof -
    obtain s where s: "x = h \<and> s = t \<or> x \<noteq> h \<and> H x = Some s" "unlinked t' = unlinked s" using H2s[OF x] by blast
    note l = lists[OF s(2)]
    from s(1) show ?thesis
    proof
      assume xh: "x = h \<and> s = t"
      have "cache_ok w t (\<lambda>_. [])" by (rule fresh_cache_ok) (use i(6,7) in blast)+
      then show ?thesis using xh l i(8,9) same_lists_ok by blast
    next
      assume xh: "x \<noteq> h \<and> H x = Some s"
      then obtain s0 m where "heaps S x = Some s0" "s = s0\<lparr>tc_max_size := m\<rparr>" using same by blast
      then show ?thesis using xh l by (auto simp: same_lists_def)
    qed
  qed
  have c': "contents ok S' Own X"
  proof (rule contents_cong[OF I(1)])
    fix x t' assume "heaps S' x = Some t'"
    then have "H2 x = Some t'" by (simp add: S'_def)
    from sl[OF this, of "store (cent S)"]
    show "(\<exists>t. heaps S x = Some t \<and> same_lists t t') \<or> heaps S x = None \<and> cache_ok (store (cent S)) t' (\<lambda>_. [])" using hN by blast
  next
    fix x assume "heaps S' x = None"
    then have "H2 x = None" by (simp add: S'_def)
    then have "x \<noteq> h" "H x = None" using pS by (auto simp: H2_def split: if_splits)
    then show "X x = (\<lambda>_. [])" using Hd contentsD(4)[OF I(1)] by blast
  qed (simp add: S'_def S1_def)
  have d2: "dom H2 = insert h (set hs)"
  proof -
    have "x \<in> dom H \<longleftrightarrow> x \<in> insert h (set hs)" for x
      using Hd[of x] i(4) by (cases "x = h") (simp_all add: domIff flip: R(3))
    then have "dom H = insert h (set hs)" by blast
    then show ?thesis using ph(2) by (auto simp: H2_def)
  qed
  have r': "registry S' (h # hs)"
    unfolding registry_def
  proof (intro conjI allI impI)
    show "on_list (heaps S') (thread_heaps S') (h # hs)" using ol by (simp add: S'_def)
    show "distinct (h # hs)" using R(2) a(2) by simp
    show "dom (heaps S') = set (h # hs)" using d2 by (simp add: S'_def)
    show "pool sizeof_ThreadCache (set (h # hs)) (threadcache_allocator S')" using a(4) by (simp add: S'_def S1_def)
    show "thread_heap_count S' = int (length (h # hs))" using R(5) by (simp add: S'_def)
    show "next_memory_steal S' \<in> insert 0 (set (h # hs))" using i(3) by (auto simp: S'_def n2_def)
  next
    fix g k s v assume e: "heaps S' g = Some s" "heaps S' k = Some v" "tc_tid s = tc_tid v"
    have gk: "H2 g = Some s" "H2 k = Some v" using e(1,2) by (simp_all add: S'_def)
    show "g = k" using sl[OF gk(1)] sl[OF gk(2)] e(3) assms(4) R(7) by metis
  next
    fix g s assume "heaps S' g = Some s"
    then have g: "H2 g = Some s" by (simp add: S'_def)
    show "\<not> tc_in_setspecific s" using sl[OF g] R(8) by metis
  next
    fix me' assume m: "tls S' me' \<noteq> 0"
    then have m0: "tls S me' \<noteq> 0" by (simp add: S'_def S1_def)
    note T = R(9)[OF m0]
    show "tsd_inited S'" using T by (simp add: S'_def S1_def)
    obtain v where v: "heaps S (tls S me') = Some v" "tc_tid v = me'" using T by blast
    then have "tls S me' \<in> dom H2" using d2 R(3) by auto
    then obtain v' where v': "H2 (tls S me') = Some v'" by blast
    have "tls S me' \<noteq> h" using v(1) hN by auto
    then have "tc_tid v' = me'" using sl[OF v', of "store (cent S)"] v by auto
    then show "\<exists>t. heaps S' (tls S' me') = Some t \<and> tc_tid t = me'" using v' by (simp add: S'_def S1_def)
  qed
  have "only_links (H(h \<mapsto> t)) H2"
  proof (cases "p = 0")
    case False
    then obtain v where "H p = Some v" using pS by blast
    then show ?thesis using False ph(1) unfolding only_links_def H2_def by (simp add: unlinked_def t2_def)
  qed (simp add: only_links_def H2_def unlinked_def t2_def)
  then have "claims H2 = claims (H(h \<mapsto> t))" by (rule only_links_claims)
  then have b': "budget_ok S'" using i(5) d2 unfolding budget_ok_def by (simp add: S'_def S1_def)
  have ok': "threads_ok ok S' App" unfolding threads_ok_def using c' r' b' I(4) by blast
  have "inuse a = int (card (insert h (set hs)))" "inuse (threadcache_allocator S) = int (card (set hs))"
    using a(4) R(4) unfolding pool_def by blast+
  then have "inuse a = inuse (threadcache_allocator S) + 1" using a(2) by simp
  moreover have "H2 h = Some t2" using ph(1) by (auto simp: H2_def)
  ultimately show thesis using res ok' hN a(3) i(6,8) d2 R(3)
    by (intro that[of h S' t2]) (simp_all add: S'_def S1_def t2_def HeapsInUse_def)
qed

end

end
