(* ===== verification/ThreadCachesRun.thy ===== *)
theory ThreadCachesRun
  imports ThreadCachesLife
begin

text \<open>
  From a thread to its cache and back; the walks over all caches; and what threads can do in
  sequence.
\<close>

section \<open>The cache of a thread\<close>

lemma find_heap_seg:
  assumes "hseg (heaps S) q p hs e 0"
  shows "\<exists>h. find_heap me p S = Some h \<and> (h = 0 \<longrightarrow> (\<forall>g \<in> set hs. tc_tid (the (heaps S g)) \<noteq> me))
    \<and> (h \<noteq> 0 \<longrightarrow> (\<exists>t. heaps S h = Some t \<and> tc_tid t = me))"
  using assms
proof (induction hs arbitrary: q p)
  case Nil
  then show ?case by (subst find_heap.simps) simp
next
  case (Cons x xs)
  then obtain t where t: "p = x" "x \<noteq> 0" "heaps S x = Some t" "hseg (heaps S) x (tc_next t) xs e 0" by auto
  show ?case
  proof (cases "tc_tid t = me")
    case True
    then have "find_heap me p S = Some x" using t by (subst find_heap.simps) simp
    then show ?thesis using t True by simp
  next
    case False
    then have "find_heap me p S = find_heap me (tc_next t) S" using t by (subst find_heap.simps) simp
    then show ?thesis using Cons.IH[OF t(4)] t False by simp
  qed
qed

lemma find_heap_ok:
  assumes "registry S hs"
  obtains h where "find_heap me (thread_heaps S) S = Some h" "h = 0 \<Longrightarrow> \<forall>g t. heaps S g = Some t \<longrightarrow> tc_tid t \<noteq> me"
    "h \<noteq> 0 \<Longrightarrow> \<exists>t. heaps S h = Some t \<and> tc_tid t = me"
proof -
  note R = registryD[OF assms]
  obtain e where "hseg (heaps S) 0 (thread_heaps S) hs e 0" using R(1) by (auto simp: on_list_def)
  from find_heap_seg[OF this, of me] obtain h where h: "find_heap me (thread_heaps S) S = Some h"
    "h = 0 \<longrightarrow> (\<forall>g \<in> set hs. tc_tid (the (heaps S g)) \<noteq> me)" "h \<noteq> 0 \<longrightarrow> (\<exists>t. heaps S h = Some t \<and> tc_tid t = me)" by blast
  have "\<forall>g t. heaps S g = Some t \<longrightarrow> tc_tid t \<noteq> me" if "h = 0" using h(2) that R(3) by (metis domI option.sel)
  then show thesis using that h by blast
qed

lemma registry_tls:
  assumes "registry S hs" "v \<noteq> 0 \<longrightarrow> tsd_inited S \<and> (\<exists>t. heaps S v = Some t \<and> tc_tid t = me)"
  shows "registry (S\<lparr>tls := (tls S)(me := v)\<rparr>) hs"
  using registryD[OF assms(1)] assms(2) unfolding registry_def by simp

lemma threads_ok_tls:
  assumes "threads_ok ok S App" "v \<noteq> 0 \<longrightarrow> tsd_inited S \<and> (\<exists>t. heaps S v = Some t \<and> tc_tid t = me)"
  shows "threads_ok ok (S\<lparr>tls := (tls S)(me := v)\<rparr>) App"
proof -
  obtain Own X hs where I: "contents ok S Own X" "registry S hs" "budget_ok S" "App = app Own X"
    using assms(1) unfolding threads_ok_def by blast
  have "contents ok (S\<lparr>tls := (tls S)(me := v)\<rparr>) Own X" using I(1) by (simp add: contents_def)
  moreover have "budget_ok (S\<lparr>tls := (tls S)(me := v)\<rparr>)" using I(3) by (simp add: budget_ok_def)
  ultimately show ?thesis using registry_tls[OF I(2) assms(2)] I(4) unfolding threads_ok_def by blast
qed

text \<open>What \<open>GetCache\<close> needs when the thread has no cache yet.\<close>

definition cache_room :: "threads \<Rightarrow> bool" where
  "cache_room S \<longleftrightarrow> 0 < spare sizeof_ThreadCache (threadcache_allocator S) \<and> claims (heaps S) + kMinThreadCacheSize < 2 ^ 63"

context cached_source
begin

lemma CreateCacheIfNecessary_ok:
  assumes "threads_ok ok S App" "cache_room S"
  obtains h S' t where "CreateCacheIfNecessary interval raw me S = Some (h, S')" "threads_ok ok S' App" "heaps S' h = Some t" "tc_tid t = me"
    "cent S' = cent S" "tsd_inited S' = tsd_inited S" "tsd_inited S \<longrightarrow> tls S' me = h"
    "dom (heaps S') = insert h (dom (heaps S))" "\<forall>g t. heaps S g = Some t \<longrightarrow> tc_tid t = me \<longrightarrow> heaps S' = heaps S"
proof -
  obtain hs where R: "registry S hs" using assms(1) unfolding threads_ok_def by blast
  obtain h0 where f: "find_heap me (thread_heaps S) S = Some h0" "h0 = 0 \<Longrightarrow> \<forall>g t. heaps S g = Some t \<longrightarrow> tc_tid t \<noteq> me"
    "h0 \<noteq> 0 \<Longrightarrow> \<exists>t. heaps S h0 = Some t \<and> tc_tid t = me"
    by (rule find_heap_ok[OF R]) (rule that)
  have cr: "0 < spare sizeof_ThreadCache (threadcache_allocator S)" "claims (heaps S) + kMinThreadCacheSize < 2 ^ 63"
    using assms(2) by (simp_all add: cache_room_def)
  obtain h S1 t where h: "(if h0 = 0 then NewHeap interval raw me S else Some (h0, S)) = Some (h, S1)" "threads_ok ok S1 App"
    "heaps S1 h = Some t" "tc_tid t = me" "cent S1 = cent S" "tsd_inited S1 = tsd_inited S" "tls S1 = tls S"
    "dom (heaps S1) = insert h (dom (heaps S))" "h0 \<noteq> 0 \<longrightarrow> heaps S1 = heaps S" "h \<noteq> 0"
  proof (cases "h0 = 0")
    case True
    obtain h S1 t where n: "NewHeap interval raw me S = Some (h, S1)" "threads_ok ok S1 App" "heaps S h = None" "h \<noteq> 0"
      "heaps S1 h = Some t" "tc_tid t = me" "tc_size t = 0" "cent S1 = cent S" "dom (heaps S1) = insert h (dom (heaps S))"
      "tls S1 = tls S" "tsd_inited S1 = tsd_inited S" "HeapsInUse S1 = HeapsInUse S + 1"
      by (rule NewHeap_ok[OF assms(1) cr f(2)[OF True], of interval raw]) (rule that)
    then show thesis using True by (intro that[of h S1 t]) simp_all
  next
    case False
    then obtain t where "heaps S h0 = Some t" "tc_tid t = me" using f(3) by blast
    then show thesis using False assms(1) by (intro that[of h0 S t]) (auto simp: insert_absorb domI)
  qed
  have ns: "\<not> tc_in_setspecific t" using h(2,3) registryD(8) unfolding threads_ok_def by blast
  define S' where "S' = (if tsd_inited S then S1\<lparr>tls := (tls S1)(me := h)\<rparr> else S1)"
  have res: "CreateCacheIfNecessary interval raw me S = Some (h, S')"
    by (simp only: CreateCacheIfNecessary_def f(1) h(1,3) Option.bind.simps case_prod_conv) (use ns h(6) in \<open>simp add: S'_def\<close>)
  have "threads_ok ok S' App" using h(2) threads_ok_tls[OF h(2), of h me] h(3,4,6) by (simp add: S'_def)
  then show thesis using res h f(2) by (intro that[of h S' t]) (auto simp: S'_def)
qed

lemma GetCache_ok:
  assumes "threads_ok ok S App" "cache_room S"
  obtains h S' t where "GetCache interval raw me S = Some (h, S')" "threads_ok ok S' App" "heaps S' h = Some t" "tc_tid t = me"
    "cent S' = cent S" "tsd_inited S' = tsd_inited S" "tsd_inited S \<longrightarrow> tls S' me = h"
    "dom (heaps S') = insert h (dom (heaps S))" "\<forall>g t. heaps S g = Some t \<longrightarrow> tc_tid t = me \<longrightarrow> heaps S' = heaps S"
proof (cases "tsd_inited S \<and> tls S me \<noteq> 0")
  case True
  obtain hs where R: "registry S hs" using assms(1) unfolding threads_ok_def by blast
  obtain t where "heaps S (tls S me) = Some t" "tc_tid t = me" using registryD(9)[OF R] True by blast
  then show thesis using True assms(1) by (intro that[of "tls S me" S t]) (auto simp: GetCache_def insert_absorb domI)
next
  case False
  then have "GetCache interval raw me S = CreateCacheIfNecessary interval raw me S" by (auto simp: GetCache_def)
  then show thesis using CreateCacheIfNecessary_ok[OF assms, of interval raw me] that by metis
qed

lemma delete_own_ok:
  assumes "threads_ok ok S App" "tls S me \<noteq> 0"
  obtains S' where "DeleteCache env (tls S me) (S\<lparr>tls := (tls S)(me := 0)\<rparr>) = Some S'" "threads_ok ok S' App"
    "undisturbed (held App) (cent S) (cent S')" "dom (heaps S') = dom (heaps S) - {tls S me}" "tls S' = (tls S)(me := 0)"
    "HeapsInUse S' = HeapsInUse S - 1" "tls S me \<in> dom (heaps S)"
proof -
  obtain hs where R: "registry S hs" using assms(1) unfolding threads_ok_def by blast
  obtain t where t: "heaps S (tls S me) = Some t" "tc_tid t = me" using registryD(9)[OF R assms(2)] by blast
  let ?S = "S\<lparr>tls := (tls S)(me := 0)\<rparr>"
  have ok1: "threads_ok ok ?S App" by (rule threads_ok_tls[OF assms(1)]) simp
  have h: "heaps ?S (tls S me) = Some t" using t by simp
  have "tls S x \<noteq> tls S me" if "x \<noteq> me" for x
    using registryD(9)[OF R, of x] t that assms(2) by (cases "tls S x = tls S me") auto
  then have n: "\<forall>x. tls ?S x \<noteq> tls S me" using assms(2) by auto
  obtain S' where "DeleteCache env (tls S me) ?S = Some S'" "threads_ok ok S' App" "undisturbed (held App) (cent ?S) (cent S')"
    "dom (heaps S') = dom (heaps ?S) - {tls S me}" "tls S' = tls ?S" "HeapsInUse S' = HeapsInUse ?S - 1"
    by (rule DeleteCache_ok[OF ok1 h n]) (rule that)
  then show thesis using t by (intro that[of S']) (auto simp: HeapsInUse_def)
qed

lemma BecomeIdle_ok:
  assumes "threads_ok ok S App"
  obtains S' where "BecomeIdle env me S = Some S'" "threads_ok ok S' App" "undisturbed (held App) (cent S) (cent S')"
    "dom (heaps S') = dom (heaps S) - {tls S me}" "tls S' = (tls S)(me := 0)"
    "HeapsInUse S' = HeapsInUse S - (if tls S me = 0 then 0 else 1)"
proof (cases "tls S me = 0")
  case True
  obtain hs where R: "registry S hs" using assms(1) unfolding threads_ok_def by blast
  have "heaps S 0 = None" using registryD(1,3)[OF R] on_listD(1) by (metis domIff)
  then have "dom (heaps S) - {tls S me} = dom (heaps S)" using True by auto
  then show thesis using True assms(1) by (intro that[of S]) (auto simp: BecomeIdle_def)
next
  case False
  obtain hs where R: "registry S hs" using assms(1) unfolding threads_ok_def by blast
  obtain t where t: "tsd_inited S" "heaps S (tls S me) = Some t" using registryD(9)[OF R False] by blast
  obtain S' where d: "DeleteCache env (tls S me) (S\<lparr>tls := (tls S)(me := 0)\<rparr>) = Some S'" "threads_ok ok S' App"
    "undisturbed (held App) (cent S) (cent S')" "dom (heaps S') = dom (heaps S) - {tls S me}" "tls S' = (tls S)(me := 0)"
    "HeapsInUse S' = HeapsInUse S - 1"
    by (rule delete_own_ok[OF assms False]) (rule that)
  have "BecomeIdle env me S = Some S'"
    using False t registryD(8)[OF R t(2)] d(1) by (simp add: BecomeIdle_def)
  then show thesis using d False by (intro that[of S']) simp_all
qed

lemma write_ok:
  assumes "threads_ok ok S App" "\<forall>y. y \<notin> held App \<longrightarrow> w y = store (cent S) y"
  shows "threads_ok ok (S\<lparr>cent := (cent S)\<lparr>store := w\<rparr>\<rparr>) App"
proof -
  obtain Own X hs where I: "contents ok S Own X" "registry S hs" "budget_ok S" "App = app Own X"
    using assms(1) unfolding threads_ok_def by blast
  note C = contentsD[OF I(1)]
  let ?S = "S\<lparr>cent := (cent S)\<lparr>store := w\<rparr>\<rparr>"
  have "held App \<subseteq> held Own" unfolding I(4) by (intro held_mono) (auto simp: app_def)
  then have o: "ok (cent ?S) Own" using write_law[OF C(1), of w] assms(2) by auto
  have "x \<notin> held App" if "x \<in> set (X h c)" for x h c
    by (rule apart_from[OF C(1) _ subsetD[OF C(3) that]]) (use I(4) that in \<open>auto simp: app_def\<close>)
  then have "\<forall>c. \<forall>x \<in> set (X h c). w x = store (cent S) x" for h using assms(2) by blast
  then have "cache_ok w t (X h) = cache_ok (store (cent S)) t (X h)" for t h by (rule cache_ok_cong)
  then have "contents ok ?S Own X" using I(1) o unfolding contents_def by simp
  moreover have "registry ?S hs" using registryD(6)[OF I(2)] by (intro registry_cong[OF I(2)]) simp_all
  moreover have "budget_ok ?S" using I(3) by (simp add: budget_ok_def)
  ultimately show ?thesis using I(4) unfolding threads_ok_def by blast
qed

end

section \<open>Walks over all caches\<close>

text \<open>\<open>each_heap\<close> applies a function to every cache and adds up the limits.\<close>

lemma each_heap_seg:
  assumes "hseg (heaps S) q p hs e 0" "distinct hs" "\<And>t. tc_next (f t) = tc_next t"
    "n + (\<Sum>h \<leftarrow> hs. tc_max_size (f (the (heaps S h)))) < two64"
  shows "each_heap f p n S = Some (n + (\<Sum>h \<leftarrow> hs. tc_max_size (f (the (heaps S h)))),
    S\<lparr>heaps := (\<lambda>h. if h \<in> set hs then map_option f (heaps S h) else heaps S h)\<rparr>)"
  using assms(1,2,4)
proof (induction hs arbitrary: q p n S)
  case Nil
  then show ?case by (subst each_heap.simps) simp
next
  case (Cons x xs)
  then obtain t where t: "p = x" "x \<noteq> 0" "heaps S x = Some t" "hseg (heaps S) x (tc_next t) xs e 0" by auto
  let ?S = "S\<lparr>heaps := (heaps S)(x \<mapsto> f t)\<rparr>"
  have ext: "\<forall>y \<in> set xs. heaps ?S y = heaps S y" using Cons.prems(2) by auto
  then have s: "hseg (heaps ?S) x (tc_next t) xs e 0" using t(4) hseg_ext by blast
  have sm: "(\<Sum>h \<leftarrow> xs. tc_max_size (f (the (heaps ?S h)))) = (\<Sum>h \<leftarrow> xs. tc_max_size (f (the (heaps S h))))"
    by (intro arg_cong[of _ _ sum_list] map_cong refl) (use ext in auto)
  have le: "n + tc_max_size (f t) < two64" "(n + tc_max_size (f t)) + (\<Sum>h \<leftarrow> xs. tc_max_size (f (the (heaps ?S h)))) < two64"
    using Cons.prems(3) t(3) sm by simp_all
  have a: "add64 n (tc_max_size (f t)) = n + tc_max_size (f t)" by (rule add64_exact[OF le(1)])
  have "each_heap f p n S = each_heap f (tc_next t) (n + tc_max_size (f t)) ?S"
    using t a by (subst each_heap.simps) simp
  also have "\<dots> = Some ((n + tc_max_size (f t)) + (\<Sum>h \<leftarrow> xs. tc_max_size (f (the (heaps ?S h)))),
      ?S\<lparr>heaps := (\<lambda>h. if h \<in> set xs then map_option f (heaps ?S h) else heaps ?S h)\<rparr>)"
    using Cons.IH[OF s _ le(2)] Cons.prems(2) by simp
  also have "(\<lambda>h. if h \<in> set xs then map_option f (heaps ?S h) else heaps ?S h)
      = (\<lambda>h. if h \<in> set (x # xs) then map_option f (heaps S h) else heaps S h)"
    using Cons.prems(2) t(3) by (auto simp: fun_eq_iff)
  finally show ?case using sm t(3) by (simp add: add.assoc)
qed

lemma claims_list: "distinct hs \<Longrightarrow> dom H = set hs \<Longrightarrow> claims H = (\<Sum>h \<leftarrow> hs. tc_max_size (the (H h)))"
  by (simp add: claims_def sum_list_distinct_conv_sum_set)

lemma ssize_sub64:
  fixes c v :: nat
  assumes "c < 2 ^ 63" "v \<le> 2 ^ 30"
  shows "ssize (sub64 v c) = int v - int c"
proof -
  have s: "int (sub64 v c) = (int v - int c) mod 2 ^ 64"
  proof -
    have "c mod two64 = c" using assms(1) by (simp add: two64_def)
    then have "int (sub64 v c) = (int v + (2 ^ 64 - int c)) mod 2 ^ 64"
      using assms(1) by (simp add: sub64_def two64_def zmod_int of_nat_diff add_diff_eq)
    also have "\<dots> = (int v - int c + 2 ^ 64) mod 2 ^ 64" by (simp add: algebra_simps)
    also have "\<dots> = (int v - int c) mod 2 ^ 64" by (rule mod_add_self2)
    finally show ?thesis .
  qed
  have "ssize (sub64 v c) = (int v - int c + 2 ^ 63) mod 2 ^ 64 - 2 ^ 63"
    unfolding ssize_def s by (simp add: signed_take_bit_eq_take_bit_shift take_bit_eq_mod mod_simps)
  then show ?thesis using assms by simp
qed

text \<open>Scaling never raises a limit; then the budget stays exact.\<close>

lemma RecomputePerThreadCacheSize_ok:
  assumes "threads_ok ok S App" "\<forall>sp d m. sp < d \<longrightarrow> scaled sp d m \<le> m" "kMinThreadCacheSize \<le> v" "v \<le> 2 ^ 30"
  obtains S' where "RecomputePerThreadCacheSize scaled (S\<lparr>overall_thread_cache_size := v\<rparr>) = Some S'" "threads_ok ok S' App"
    "overall_thread_cache_size S' = v" "cent S' = cent S" "claims (heaps S') \<le> claims (heaps S)"
    "kMinThreadCacheSize \<le> per_thread_cache_size S'" "per_thread_cache_size S' \<le> kMaxThreadCacheSize"
proof -
  obtain Own X hs where I: "contents ok S Own X" "registry S hs" "budget_ok S" "App = app Own X"
    using assms(1) unfolding threads_ok_def by blast
  note R = registryD[OF I(2)]
  define n where "n = (if thread_heap_count S > 0 then nat (thread_heap_count S) else 1)"
  define sp1 where "sp1 = (if v div n < kMinThreadCacheSize then kMinThreadCacheSize else v div n)"
  define sp where "sp = (if sp1 > kMaxThreadCacheSize then kMaxThreadCacheSize else sp1)"
  define d where "d = max 1 (per_thread_cache_size S)"
  define f where "f = (\<lambda>t :: thread_cache. if sp < d then t\<lparr>tc_max_size := scaled sp d (tc_max_size t)\<rparr> else t)"
  have fm: "tc_max_size (f t) \<le> tc_max_size t" "tc_next (f t) = tc_next t" "ident (f t) = ident t" "same_lists t (f t)" for t :: thread_cache
    using assms(2) by (simp_all add: f_def ident_def links_def same_lists_def)
  obtain e where e: "hseg (heaps S) 0 (thread_heaps S) hs e 0" using R(1) by (auto simp: on_list_def)
  let ?c = "\<Sum>h \<leftarrow> hs. tc_max_size (f (the (heaps S h)))"
  have "?c \<le> (\<Sum>h \<leftarrow> hs. tc_max_size (the (heaps S h)))" by (rule sum_list_mono) (rule fm(1))
  then have c: "?c \<le> claims (heaps S)" using claims_list[OF R(2,3)] by simp
  have c63: "claims (heaps S) < 2 ^ 63" using I(3) by (simp add: budget_ok_def)
  define H where "H = (\<lambda>h. if h \<in> set hs then map_option f (heaps S h) else heaps S h)"
  let ?S0 = "S\<lparr>overall_thread_cache_size := v\<rparr>"
  have eh: "each_heap f (thread_heaps ?S0) 0 ?S0 = Some (?c, ?S0\<lparr>heaps := H\<rparr>)"
  proof -
    have "hseg (heaps ?S0) 0 (thread_heaps ?S0) hs e 0" using e by simp
    moreover have "0 + (\<Sum>h \<leftarrow> hs. tc_max_size (f (the (heaps ?S0 h)))) < two64" using c c63 by (simp add: two64_def)
    ultimately show ?thesis using each_heap_seg[of ?S0 0 "thread_heaps ?S0" hs e f 0] R(2) fm(2) by (simp add: H_def cong: if_cong)
  qed
  define u where "u = ssize (sub64 v ?c)"
  have u: "u = int v - int ?c" unfolding u_def by (rule ssize_sub64) (use c c63 assms(4) in linarith)+
  define S' where "S' = ?S0\<lparr>heaps := H, unclaimed_cache_space := u, per_thread_cache_size := sp\<rparr>"
  have fields: "thread_heap_count ?S0 = thread_heap_count S" "overall_thread_cache_size ?S0 = v"
    "per_thread_cache_size ?S0 = per_thread_cache_size S" "overall_thread_cache_size (?S0\<lparr>heaps := H\<rparr>) = v" by simp_all
  have res: "RecomputePerThreadCacheSize scaled ?S0 = Some S'"
    by (simp only: RecomputePerThreadCacheSize_def Let_def fields n_def[symmetric] sp1_def[symmetric] sp_def[symmetric] d_def[symmetric]
      f_def[symmetric] eh Option.bind.simps case_prod_conv S'_def u_def)
  have Hs: "H h = map_option f (heaps S h)" for h
  proof (cases "h \<in> set hs")
    case False
    then have "heaps S h = None" using R(3) by (metis domIff)
    then show ?thesis using False by (simp add: H_def)
  qed (simp add: H_def)
  have dH: "dom H = dom (heaps S)" by (auto simp: Hs)
  have "claims H = ?c"
    using claims_list[of hs H] R(2,3) dH by (simp add: Hs) (intro arg_cong[of _ _ sum_list] map_cong refl, metis domD option.map(2) option.sel)
  then have cH: "claims (heaps S') = ?c" by (simp add: S'_def)
  have c': "contents ok S' Own X"
    by (rule contents_cong[OF I(1)]) (use fm(4) contentsD(4)[OF I(1)] in \<open>auto simp: S'_def Hs\<close>)
  have "map_option ident (heaps S' h) = map_option ident (heaps S h)" for h
    using fm(3) by (cases "heaps S h") (simp_all add: S'_def Hs)
  then have r': "registry S' hs" by (intro registry_cong[OF I(2)]) (use R(6) in \<open>simp_all add: S'_def\<close>)
  have b': "budget_ok S'"
    using I(3) cH c c63 u assms(3,4) dH unfolding budget_ok_def by (simp add: S'_def)
  have "threads_ok ok S' App" unfolding threads_ok_def using c' r' b' I(4) by blast
  then show thesis using res cH c by (intro that[of S']) (simp_all add: S'_def sp_def sp1_def)
qed

text \<open>\<open>GetThreadStats\<close> adds up the sizes and the lengths.\<close>

lemma stats_seg:
  assumes "hseg (heaps S) q p hs e 0" "n + (\<Sum>h \<leftarrow> hs. tc_size (the (heaps S h))) < two64"
    "\<forall>cl < kNumClasses. k cl + (\<Sum>h \<leftarrow> hs. fl_length (tc_list (the (heaps S h)) cl)) < two64"
  shows "GetThreadStats p n k S = Some (n + (\<Sum>h \<leftarrow> hs. tc_size (the (heaps S h))),
    \<lambda>cl. if cl < kNumClasses then k cl + (\<Sum>h \<leftarrow> hs. fl_length (tc_list (the (heaps S h)) cl)) else k cl)"
  using assms
proof (induction hs arbitrary: q p n k)
  case Nil
  then show ?case by (subst GetThreadStats.simps) (simp cong: if_cong)
next
  case (Cons x xs)
  then obtain t where t: "p = x" "x \<noteq> 0" "heaps S x = Some t" "hseg (heaps S) x (tc_next t) xs e 0" by auto
  have a: "add64 n (tc_size t) = n + tc_size t" using Cons.prems(2) t(3) by (intro add64_exact) simp
  have b: "add64 (k cl) (fl_length (tc_list t cl)) = k cl + fl_length (tc_list t cl)" if "cl < kNumClasses" for cl
  proof (rule add64_exact)
    have "k cl + (\<Sum>h \<leftarrow> x # xs. fl_length (tc_list (the (heaps S h)) cl)) < two64" using Cons.prems(3) that by blast
    then show "k cl + fl_length (tc_list t cl) < two64" using t(3) by simp
  qed
  let ?k = "\<lambda>cl. if cl < kNumClasses then k cl + fl_length (tc_list t cl) else k cl"
  have "(\<lambda>cl. if cl < kNumClasses then add64 (k cl) (fl_length (tc_list t cl)) else k cl) = ?k" using b by (auto simp: fun_eq_iff)
  then have e: "GetThreadStats p n k S = GetThreadStats (tc_next t) (n + tc_size t) ?k S"
    using t a by (subst GetThreadStats.simps) simp
  have "(n + tc_size t) + (\<Sum>h \<leftarrow> xs. tc_size (the (heaps S h))) < two64" using Cons.prems(2) t(3) by simp
  moreover have "\<forall>cl < kNumClasses. ?k cl + (\<Sum>h \<leftarrow> xs. fl_length (tc_list (the (heaps S h)) cl)) < two64"
    using Cons.prems(3) t(3) by (simp add: add.assoc)
  ultimately show ?case unfolding e using Cons.IH[OF t(4)] t(3) by (auto simp: add.assoc fun_eq_iff)
qed

end
