(* ===== verification/ThreadCacheThms.thy ===== *)
theory ThreadCacheThms
  imports ThreadCachesRun
begin

text \<open>
  The properties of the thread caches, over \<open>threads_ok central_ok S App\<close>: all is consistent, and \<open>App cl\<close>
  are the objects of class \<open>cl\<close> that the application holds.
\<close>

section \<open>Sample states\<close>

lemma InitTSD_ok:
  assumes "threads_ok ok S App" "InitTSD S = Some S'"
  shows "threads_ok ok S' App"
proof -
  have e: "S' = S\<lparr>tsd_inited := True\<rparr>" using assms(2) by (auto simp: InitTSD_def split: if_splits)
  obtain Own X hs where I: "contents ok S Own X" "registry S hs" "budget_ok S" "App = app Own X"
    using assms(1) unfolding threads_ok_def by blast
  have "contents ok S' Own X" using I(1) by (simp add: contents_def e)
  moreover have "registry S' hs" using registryD[OF I(2)] by (simp add: registry_def e)
  moreover have "budget_ok S'" using I(3) by (simp add: budget_ok_def e)
  ultimately show ?thesis using I(4) unfolding threads_ok_def by blast
qed

lemma initial_threads_ok:
  assumes "central_ok st (\<lambda>_. {})" "pool sizeof_ThreadCache {} a"
  shows "threads_ok central_ok (initial_threads st a) (\<lambda>_. {})"
proof -
  let ?S = "initial_threads st a"
  have "contents central_ok ?S (\<lambda>_. {}) (\<lambda>_ _. [])" using assms(1) by (simp add: contents_def initial_threads_def)
  moreover have "registry ?S []" using assms(2) by (simp add: registry_def initial_threads_def on_list_def)
  moreover have "budget_ok ?S" by (simp add: budget_ok_def initial_threads_def claims_def)
  moreover have "app (\<lambda>_. {}) (\<lambda>_ _. []) = (\<lambda>_. {})" by (simp add: app_def fun_eq_iff)
  ultimately show ?thesis unfolding threads_ok_def by metis
qed

lemma sample_start:
  obtains S where "threads_ok central_ok S (\<lambda>_. {})" "cache_room S" "tsd_inited S" "heaps S = Map.empty" "fresh_heap (pheap (cent S))"
proof -
  obtain st where st: "central_ok st (\<lambda>_. {})" "fresh_heap (pheap st)" using fresh_central_exists by blast
  let ?a = "\<lparr>free_area = 0, free_avail = 0, free_list = 0, inuse = 0, link = (\<lambda>_. 0), chunks = [Some 4096]\<rparr>"
  have "chunks_ok (chunks ?a)" "0 < leading_chunks (chunks ?a)" "0 < sizeof_ThreadCache" "sizeof_ThreadCache \<le> kAllocIncrement"
    by (simp_all add: chunks_ok_def)
  from pha_Init_pool[OF this(3,4,1,2)] obtain a where a: "pool sizeof_ThreadCache {} a" "0 < spare sizeof_ThreadCache a"
    by (auto simp del: sizeof_ThreadCache_def) (simp add: Suc_le_eq)
  let ?S = "(initial_threads st a)\<lparr>tsd_inited := True\<rparr>"
  have "InitTSD (initial_threads st a) = Some ?S" by (simp add: InitTSD_def initial_threads_def)
  then have "threads_ok central_ok ?S (\<lambda>_. {})" by (rule InitTSD_ok[OF initial_threads_ok[OF st(1) a(1)]])
  moreover have "cache_room ?S" using a(2) by (simp add: cache_room_def initial_threads_def claims_def)
  ultimately show thesis using st(2) by (intro that[of ?S]) (simp_all add: initial_threads_def)
qed

text \<open>A state in which thread 5 has a cache.\<close>

lemma sample_threads:
  obtains S h t where "threads_ok central_ok S (\<lambda>_. {})" "heaps S h = Some t" "tls S 5 = h" "tsd_inited S" "fresh_heap (pheap (cent S))"
    "h \<noteq> 0" "dom (heaps S) = {h}"
proof -
  obtain S0 where S0: "threads_ok central_ok S0 (\<lambda>_. {})" "cache_room S0" "tsd_inited S0" "heaps S0 = Map.empty" "fresh_heap (pheap (cent S0))"
    by (rule sample_start)
  obtain h S t where g: "threads_ok central_ok S (\<lambda>_. {})" "heaps S h = Some t"
    "cent S = cent S0" "tsd_inited S = tsd_inited S0" "tsd_inited S0 \<longrightarrow> tls S 5 = h" "dom (heaps S) = insert h (dom (heaps S0))"
    by (rule central.GetCache_ok[OF S0(1,2), of "\<lambda>_. 0" undefined 5]) (rule that)
  obtain hs where R: "registry S hs" using g(1) unfolding threads_ok_def by blast
  have "h \<noteq> 0" using registryD(1,3)[OF R] g(2) on_listD(1) by (metis domI)
  then show thesis using g S0(3-5) by (intro that[of S h t]) simp_all
qed

lemma fresh_ready: "fresh_heap (pheap st) \<Longrightarrow> memory_ready st"
  unfolding fresh_heap_def memory_ready_def by linarith

text \<open>The same after one allocation: the application holds \<open>p\<close>.\<close>

lemma sample_object:
  obtains S h t p where "threads_ok central_ok S ((\<lambda>_. {})(1 := {p}))" "heaps S h = Some t" "tls S 5 = h" "h \<noteq> 0" "p \<noteq> 0"
proof -
  obtain S h t where s: "threads_ok central_ok S (\<lambda>_. {})" "heaps S h = Some t" "tls S 5 = h" "tsd_inited S" "fresh_heap (pheap (cent S))"
    "h \<noteq> 0" "dom (heaps S) = {h}" by (rule sample_threads)
  have 1: "(1 :: nat) \<in> classes" by simp
  obtain r S' where a: "r = 0 \<longrightarrow> no_span sample_env 1 (cent S) \<and> threads_ok central_ok S' (\<lambda>_. {})"
    "r \<noteq> 0 \<longrightarrow> (\<forall>c :: nat. r \<notin> {}) \<and> threads_ok central_ok S' ((\<lambda>_. {})(1 := {r}))"
    "\<exists>t' st'. S' = S\<lparr>heaps := (heaps S)(h \<mapsto> t'), cent := st'\<rparr> \<and> same_rest t t'"
    by (rule central.cache_Allocate_ok[OF s(1,2) 1 fresh_ready[OF s(5)], of sample_env]) (rule that)
  have "smap (cent S) = init_sizemap" using s(1) central.map_law unfolding threads_ok_def contents_def by blast
  moreover have "npg 1 \<le> kMaxPages" using class_facts(3)[OF 1] by simp
  ultimately have "\<not> no_span sample_env 1 (cent S)"
    using fresh_New[OF s(5) class_facts(2)[OF 1], of sample_env] unfolding no_span_def by (auto simp: sizemap_facts)
  then have "r \<noteq> 0" using a(1) by blast
  moreover obtain t' st' where "S' = S\<lparr>heaps := (heaps S)(h \<mapsto> t'), cent := st'\<rparr>" using a(3) by blast
  ultimately show thesis using a(2) s(3,6) by (intro that[of S' r h t']) (simp_all del: One_nat_def)
qed

lemma threads_sizes:
  assumes "threads_ok central_ok S App"
  shows "class_to_size (smap (cent S)) c = osz c" "ByteSizeForClass (smap (cent S)) c = osz c"
proof -
  have "smap (cent S) = init_sizemap" using assms central.map_law unfolding threads_ok_def contents_def by blast
  then show "class_to_size (smap (cent S)) c = osz c" "ByteSizeForClass (smap (cent S)) c = osz c"
    by (simp_all add: sizemap_facts)
qed

lemma undisturbed_words:
  assumes "threads_ok central_ok S App"
  shows "undisturbed (held Own) (cent S) st' \<longleftrightarrow>
    (\<forall>c. \<forall>x \<in> Own c. \<forall>y \<in> {x..<x + class_to_size (smap (cent S)) c}. store st' y = store (cent S) y)"
  unfolding threads_sizes(1)[OF assms] undisturbed_def held_def by blast

section \<open>Properties\<close>

text \<open>
  C12: \<open>Allocate\<close>.  From every consistent state, a thread with a cache that asks for an object of a
  class gets one that the application does not hold, or null when the page heap has no span for the
  class; no assertion fails while metadata memory lasts, the state stays consistent, and no word of an
  object of the application, over its full size, changes, although the cache may have fetched a batch
  from the central list.
\<close>

theorem Allocate_hands_out:
  assumes "threads_ok central_ok S App" "heaps S this = Some t" "cl \<in> classes" "memory_ready (cent S)"
  shows "\<exists>r S'. cache_Allocate env this (ByteSizeForClass (smap (cent S)) cl) cl S = Some (r, S')
    \<and> (r = 0 \<longrightarrow> no_span env cl (cent S) \<and> threads_ok central_ok S' App)
    \<and> (r \<noteq> 0 \<longrightarrow> (\<forall>c. r \<notin> App c) \<and> threads_ok central_ok S' (App(cl := insert r (App cl))))
    \<and> (\<forall>c. \<forall>x \<in> App c. \<forall>y \<in> {x..<x + class_to_size (smap (cent S)) c}. store (cent S') y = store (cent S) y)"
proof -
  obtain r S' where a: "cache_Allocate env this (osz cl) cl S = Some (r, S')"
    "r = 0 \<longrightarrow> no_span env cl (cent S) \<and> threads_ok central_ok S' App"
    "r \<noteq> 0 \<longrightarrow> (\<forall>c. r \<notin> App c) \<and> threads_ok central_ok S' (App(cl := insert r (App cl)))" "undisturbed (held App) (cent S) (cent S')"
    by (rule central.cache_Allocate_ok[OF assms, of env]) (rule that)
  have "ByteSizeForClass (smap (cent S)) cl = osz cl" by (rule threads_sizes(2)[OF assms(1)])
  moreover have "\<forall>c. \<forall>x \<in> App c. \<forall>y \<in> {x..<x + class_to_size (smap (cent S)) c}. store (cent S') y = store (cent S) y"
    using a(4) undisturbed_words[OF assms(1)] by blast
  ultimately show ?thesis using a(1-3) by metis
qed

theorem Allocate_hands_out_witness:
  "\<exists>S h r S'. cache_Allocate sample_env h (ByteSizeForClass (smap (cent S)) 1) 1 S = Some (r, S')
    \<and> (r \<noteq> 0 \<longrightarrow> threads_ok central_ok S' ((\<lambda>_. {})(1 := {r})))"
proof -
  obtain S h t where s: "threads_ok central_ok S (\<lambda>_. {})" "heaps S h = Some t" "fresh_heap (pheap (cent S))"
    by (rule sample_threads)
  have 1: "(1 :: nat) \<in> classes" by simp
  show ?thesis using Allocate_hands_out[OF s(1,2) 1 fresh_ready[OF s(3)], of sample_env] by (simp del: One_nat_def) blast
qed

text \<open>
  C13: \<open>Deallocate\<close>.  The application returns an object it holds through any cache: the call always
  returns, on every path (the plain push, the list that got too long, the cache over its size with the
  release of idle objects and the search for more budget), the object is no longer held, the state is
  consistent and no word of the other objects of the application, over their full sizes, changes.
\<close>

theorem Deallocate_takes_back:
  assumes "threads_ok central_ok S App" "heaps S this = Some t" "p \<in> App cl"
  shows "\<exists>S'. Deallocate env this p cl S = Some S' \<and> threads_ok central_ok S' (App(cl := App cl - {p}))
    \<and> (\<forall>c. \<forall>x \<in> App c - {p}. \<forall>y \<in> {x..<x + class_to_size (smap (cent S)) c}. store (cent S') y = store (cent S) y)"
proof -
  obtain S' where a: "Deallocate env this p cl S = Some S'" "threads_ok central_ok S' (App(cl := App cl - {p}))"
    "undisturbed (held (App(cl := App cl - {p}))) (cent S) (cent S')"
    by (rule central.cache_Deallocate_ok[OF assms, of env]) (rule that)
  have "\<forall>x \<in> App c - {p}. \<forall>y \<in> {x..<x + class_to_size (smap (cent S)) c}. store (cent S') y = store (cent S) y" for c
    using undisturbed_words[OF assms(1), THEN iffD1, OF a(3), rule_format, of _ c] by (cases "c = cl") auto
  then show ?thesis using a(1,2) by blast
qed

theorem Deallocate_takes_back_witness:
  "\<exists>S h p S'. threads_ok central_ok S ((\<lambda>_. {})(1 := {p})) \<and> Deallocate sample_env h p 1 S = Some S' \<and> threads_ok central_ok S' (\<lambda>_. {})"
proof -
  obtain S h t p where s: "threads_ok central_ok S ((\<lambda>_. {})(1 := {p}))" "heaps S h = Some t" by (rule sample_object)
  have p: "p \<in> ((\<lambda>_. {})(1 := {p})) 1" by simp
  have e: "((\<lambda>_. {})(1 := {p}))(1 := ((\<lambda>_. {})(1 := {p})) 1 - {p}) = (\<lambda>_ :: nat. {})" by (simp add: fun_eq_iff)
  show ?thesis using Deallocate_takes_back[OF s p, of sample_env] s(1) unfolding e by blast
qed

section \<open>Sequences of calls\<close>

text \<open>
  What threads do, in any order: look up their cache, allocate and deallocate through any cache while
  metadata memory lasts, write to their objects, become idle, end, and change the common budget.
\<close>

inductive thread_run :: "threads \<times> (nat \<Rightarrow> nat set) \<Rightarrow> threads \<times> (nat \<Rightarrow> nat set) \<Rightarrow> bool" for s0 where
  Begin: "thread_run s0 s0"
| Get: "thread_run s0 (S, App) \<Longrightarrow> cache_room S \<Longrightarrow> GetCache interval raw me S = Some (h, S') \<Longrightarrow> thread_run s0 (S', App)"
| Tsd: "thread_run s0 (S, App) \<Longrightarrow> InitTSD S = Some S' \<Longrightarrow> thread_run s0 (S', App)"
| Alloc: "thread_run s0 (S, App) \<Longrightarrow> heaps S this = Some t \<Longrightarrow> cl \<in> classes \<Longrightarrow> memory_ready (cent S)
    \<Longrightarrow> cache_Allocate env this (ByteSizeForClass (smap (cent S)) cl) cl S = Some (r, S')
    \<Longrightarrow> thread_run s0 (S', if r = 0 then App else App(cl := insert r (App cl)))"
| Dealloc: "thread_run s0 (S, App) \<Longrightarrow> heaps S this = Some t \<Longrightarrow> p \<in> App cl \<Longrightarrow> Deallocate env this p cl S = Some S'
    \<Longrightarrow> thread_run s0 (S', App(cl := App cl - {p}))"
| Store: "thread_run s0 (S, App)
    \<Longrightarrow> (\<forall>y. (\<forall>c. \<forall>x \<in> App c. y \<notin> {x..<x + class_to_size (smap (cent S)) c}) \<longrightarrow> w y = store (cent S) y)
    \<Longrightarrow> thread_run s0 (S\<lparr>cent := (cent S)\<lparr>store := w\<rparr>\<rparr>, App)"
| Idle: "thread_run s0 (S, App) \<Longrightarrow> BecomeIdle env me S = Some S' \<Longrightarrow> thread_run s0 (S', App)"
| Exit: "thread_run s0 (S, App) \<Longrightarrow> DestroyThreadCache env me (tls S me) S = Some S' \<Longrightarrow> thread_run s0 (S', App)"
| Resize: "thread_run s0 (S, App) \<Longrightarrow> (\<forall>sp d m. sp < d \<longrightarrow> scaled sp d m \<le> m)
    \<Longrightarrow> set_overall_thread_cache_size scaled v S = Some S' \<Longrightarrow> thread_run s0 (S', App)"

lemma Resize_ok:
  assumes "threads_ok central_ok S App" "\<forall>sp d m. sp < d \<longrightarrow> scaled sp d m \<le> m"
  obtains S' where "set_overall_thread_cache_size scaled v S = Some S'" "threads_ok central_ok S' App"
    "overall_thread_cache_size S' = min (max v kMinThreadCacheSize) (2 ^ 30)" "cent S' = cent S" "claims (heaps S') \<le> claims (heaps S)"
    "kMinThreadCacheSize \<le> per_thread_cache_size S'" "per_thread_cache_size S' \<le> kMaxThreadCacheSize"
proof -
  define u where "u = (let v = (if v < kMinThreadCacheSize then kMinThreadCacheSize else v) in if v > 2 ^ 30 then 2 ^ 30 else v)"
  have e: "u = min (max v kMinThreadCacheSize) (2 ^ 30)" by (simp add: u_def Let_def)
  have u: "kMinThreadCacheSize \<le> u" "u \<le> 2 ^ 30" by (simp_all add: e)
  have s: "set_overall_thread_cache_size scaled v S = RecomputePerThreadCacheSize scaled (S\<lparr>overall_thread_cache_size := u\<rparr>)"
    by (simp add: set_overall_thread_cache_size_def Let_def u_def)
  obtain S' where "RecomputePerThreadCacheSize scaled (S\<lparr>overall_thread_cache_size := u\<rparr>) = Some S'" "threads_ok central_ok S' App"
    "overall_thread_cache_size S' = u" "cent S' = cent S" "claims (heaps S') \<le> claims (heaps S)"
    "kMinThreadCacheSize \<le> per_thread_cache_size S'" "per_thread_cache_size S' \<le> kMaxThreadCacheSize"
    by (rule RecomputePerThreadCacheSize_ok[OF assms u]) (rule that)
  then show thesis using s e by (intro that[of S']) simp_all
qed

lemma Exit_ok:
  assumes "threads_ok central_ok S App"
  obtains S' where "DestroyThreadCache env me (tls S me) S = Some S'" "threads_ok central_ok S' App"
proof (cases "tls S me = 0")
  case True
  then show thesis using assms that by (simp add: DestroyThreadCache_def)
next
  case False
  obtain S' where "DeleteCache env (tls S me) (S\<lparr>tls := (tls S)(me := 0)\<rparr>) = Some S'" "threads_ok central_ok S' App"
    by (rule central.delete_own_ok[OF assms False]) (rule that)
  then show thesis using False that by (simp add: DestroyThreadCache_def)
qed

lemma thread_run_ok:
  assumes "thread_run s0 s" "threads_ok central_ok (fst s0) (snd s0)"
  shows "threads_ok central_ok (fst s) (snd s)"
  using assms
proof (induction rule: thread_run.induct)
  case (Get S App interval raw me h S')
  have ok: "threads_ok central_ok S App" using Get.IH Get.prems by simp
  obtain S'' where "GetCache interval raw me S = Some (h, S'')" "threads_ok central_ok S'' App"
    by (rule central.GetCache_ok[OF ok Get.hyps(2), of interval raw me]) (use Get.hyps(3) that in auto)
  then show ?case using Get.hyps(3) by simp
next
  case (Tsd S App S')
  then show ?case using InitTSD_ok by simp
next
  case (Alloc S App this t cl env r S')
  have ok: "threads_ok central_ok S App" using Alloc.IH Alloc.prems by simp
  have "ByteSizeForClass (smap (cent S)) cl = osz cl"
    by (rule threads_sizes(2)[OF ok])
  then have a: "cache_Allocate env this (osz cl) cl S = Some (r, S')" using Alloc.hyps(5) by simp
  obtain r' S'' where "cache_Allocate env this (osz cl) cl S = Some (r', S'')"
    "r' = 0 \<longrightarrow> no_span env cl (cent S) \<and> threads_ok central_ok S'' App"
    "r' \<noteq> 0 \<longrightarrow> (\<forall>c. r' \<notin> App c) \<and> threads_ok central_ok S'' (App(cl := insert r' (App cl)))"
    by (rule central.cache_Allocate_ok[OF ok Alloc.hyps(2-4), of env]) (rule that)
  then show ?case using a by (simp del: fun_upd_apply)
next
  case (Dealloc S App this t p cl env S')
  have ok: "threads_ok central_ok S App" using Dealloc.IH Dealloc.prems by simp
  obtain S'' where "Deallocate env this p cl S = Some S''" "threads_ok central_ok S'' (App(cl := App cl - {p}))"
    by (rule central.cache_Deallocate_ok[OF ok Dealloc.hyps(2,3), of env]) (rule that)
  then show ?case using Dealloc.hyps(4) by (simp del: fun_upd_apply)
next
  case (Store S App w)
  have ok: "threads_ok central_ok S App" using Store.IH Store.prems by simp
  have "\<forall>y. y \<notin> held App \<longrightarrow> w y = store (cent S) y"
    using Store.hyps(2) unfolding threads_sizes(1)[OF ok] held_def by blast
  then show ?case using central.write_ok[OF ok, of w] by simp
next
  case (Idle S App env me S')
  have ok: "threads_ok central_ok S App" using Idle.IH Idle.prems by simp
  obtain S'' where "BecomeIdle env me S = Some S''" "threads_ok central_ok S'' App"
    by (rule central.BecomeIdle_ok[OF ok, of env me]) (rule that)
  then show ?case using Idle.hyps(2) by simp
next
  case (Exit S App env me S')
  have ok: "threads_ok central_ok S App" using Exit.IH Exit.prems by simp
  obtain S'' where "DestroyThreadCache env me (tls S me) S = Some S''" "threads_ok central_ok S'' App"
    by (rule Exit_ok[OF ok, of env me]) (rule that)
  then show ?case using Exit.hyps(2) by simp
next
  case (Resize S App scaled v S')
  have ok: "threads_ok central_ok S App" using Resize.IH Resize.prems by simp
  obtain S'' where "set_overall_thread_cache_size scaled v S = Some S''" "threads_ok central_ok S'' App"
    by (rule Resize_ok[OF ok Resize.hyps(2), of v]) (rule that)
  then show ?case using Resize.hyps(3) by simp
qed simp

text \<open>
  C11: lawful threads never break the allocator.  Whatever the threads do and whatever the system answers,
  the state stays consistent and no assertion fails in the next call: a thread gets a cache while there is
  memory for one, every object of the application can be deallocated through every cache, every thread
  can become idle or end, and the budget can be changed.
\<close>

theorem lawful_threads:
  assumes "thread_run (S0, App0) (S, App)" "threads_ok central_ok S0 App0"
  shows "threads_ok central_ok S App
    \<and> (cache_room S \<longrightarrow> (\<forall>interval raw me. GetCache interval raw me S \<noteq> None))
    \<and> (\<forall>this cl env. heaps S this \<noteq> None \<and> cl \<in> classes \<and> memory_ready (cent S)
         \<longrightarrow> cache_Allocate env this (ByteSizeForClass (smap (cent S)) cl) cl S \<noteq> None)
    \<and> (\<forall>this cl env. \<forall>p \<in> App cl. heaps S this \<noteq> None \<longrightarrow> Deallocate env this p cl S \<noteq> None)
    \<and> (\<forall>env me. BecomeIdle env me S \<noteq> None \<and> DestroyThreadCache env me (tls S me) S \<noteq> None)"
proof -
  have ok: "threads_ok central_ok S App" using thread_run_ok[OF assms(1)] assms(2) by simp
  have sz: "ByteSizeForClass (smap (cent S)) cl = osz cl" for cl
    by (rule threads_sizes(2)[OF ok])
  have "GetCache interval raw me S \<noteq> None" if "cache_room S" for interval raw me
    by (rule central.GetCache_ok[OF ok that, of interval raw me]) simp
  moreover have "cache_Allocate env this (ByteSizeForClass (smap (cent S)) cl) cl S \<noteq> None"
    if "heaps S this = Some t" "cl \<in> classes" "memory_ready (cent S)" for this t cl env
    unfolding sz by (rule central.cache_Allocate_ok[OF ok that, of env]) simp
  moreover have "Deallocate env this p cl S \<noteq> None" if "heaps S this = Some t" "p \<in> App cl" for this t p cl env
    by (rule central.cache_Deallocate_ok[OF ok that, of env]) simp
  moreover have "BecomeIdle env me S \<noteq> None" for env me by (rule central.BecomeIdle_ok[OF ok, of env me]) simp
  moreover have "DestroyThreadCache env me (tls S me) S \<noteq> None" for env me by (rule Exit_ok[OF ok, of env me]) simp
  ultimately show ?thesis using ok by blast
qed

theorem lawful_threads_witness:
  "\<exists>S h p S'. thread_run (S, (\<lambda>_. {})(1 := {p})) (S', \<lambda>_. {}) \<and> threads_ok central_ok S' (\<lambda>_. {}) \<and> heaps S h \<noteq> None"
proof -
  obtain S h t p where s: "threads_ok central_ok S ((\<lambda>_. {})(1 := {p}))" "heaps S h = Some t" by (rule sample_object)
  have p: "p \<in> ((\<lambda>_. {})(1 := {p})) 1" by simp
  have e: "((\<lambda>_. {})(1 := {p}))(1 := ((\<lambda>_. {})(1 := {p})) 1 - {p}) = (\<lambda>_ :: nat. {})" by (simp add: fun_eq_iff)
  obtain S' where d: "Deallocate sample_env h p 1 S = Some S'"
    by (rule central.cache_Deallocate_ok[OF s p, of sample_env]) (rule that)
  have run: "thread_run (S, (\<lambda>_. {})(1 := {p})) (S', \<lambda>_. {})"
    using thread_run.Dealloc[where S = S and App = "(\<lambda>_. {})(1 := {p})" and cl = 1 and this = h and p = p and env = sample_env
      and t = t and S' = S', OF thread_run.Begin s(2) p d] unfolding e .
  show ?thesis using lawful_threads[OF run s(1)] run s(2) by blast
qed

section \<open>The budget and the bounds\<close>

text \<open>
  C14: the budget is conserved.  After any run, the unclaimed space and the limits of the caches add up to
  the overall size, exactly: creation, deletion, stealing in 64-bit words, and the recomputation, which
  casts to a signed value, neither lose nor create budget.  Changing the overall size takes effect within
  512 KB and 1 GB, raises no limit, and leaves the per-thread size between its bounds.
\<close>

theorem cache_budget_conserved:
  assumes "thread_run (S0, App0) (S, App)" "threads_ok central_ok S0 App0" "\<forall>sp d m. sp < d \<longrightarrow> scaled sp d m \<le> m"
  shows "unclaimed_cache_space S + int (\<Sum>h \<in> dom (heaps S). tc_max_size (the (heaps S h))) = int (overall_thread_cache_size S)
    \<and> (\<exists>S'. set_overall_thread_cache_size scaled v S = Some S'
         \<and> overall_thread_cache_size S' = min (max v kMinThreadCacheSize) (2 ^ 30)
         \<and> (\<Sum>h \<in> dom (heaps S'). tc_max_size (the (heaps S' h))) \<le> (\<Sum>h \<in> dom (heaps S). tc_max_size (the (heaps S h)))
         \<and> unclaimed_cache_space S' + int (\<Sum>h \<in> dom (heaps S'). tc_max_size (the (heaps S' h))) = int (overall_thread_cache_size S')
         \<and> kMinThreadCacheSize \<le> per_thread_cache_size S' \<and> per_thread_cache_size S' \<le> kMaxThreadCacheSize)"
proof -
  have ok: "threads_ok central_ok S App" using thread_run_ok[OF assms(1)] assms(2) by simp
  have b: "unclaimed_cache_space T + int (claims (heaps T)) = int (overall_thread_cache_size T)" if "threads_ok central_ok T A" for T A
    using that unfolding threads_ok_def budget_ok_def by blast
  obtain S' where r: "set_overall_thread_cache_size scaled v S = Some S'" "threads_ok central_ok S' App"
    "overall_thread_cache_size S' = min (max v kMinThreadCacheSize) (2 ^ 30)" "cent S' = cent S" "claims (heaps S') \<le> claims (heaps S)"
    "kMinThreadCacheSize \<le> per_thread_cache_size S'" "per_thread_cache_size S' \<le> kMaxThreadCacheSize"
    by (rule Resize_ok[OF ok assms(3), of v]) (rule that)
  show ?thesis using b[OF ok] b[OF r(2)] r(1,3,5,6,7) unfolding claims_def by blast
qed

theorem cache_budget_conserved_witness:
  "\<exists>(S :: threads) h. heaps S h \<noteq> None
    \<and> unclaimed_cache_space S + int (\<Sum>h \<in> dom (heaps S). tc_max_size (the (heaps S h))) = int (overall_thread_cache_size S)"
proof -
  obtain S h t where s: "threads_ok central_ok S (\<lambda>_. {})" "heaps S h = Some t" by (rule sample_threads)
  have "m * sp div d \<le> m" if "sp < d" for sp d m :: nat
  proof -
    have "m * sp div d \<le> m * d div d" using that by (intro div_le_mono mult_le_mono2) simp
    then show ?thesis using that by simp
  qed
  then have "\<forall>sp d m :: nat. sp < d \<longrightarrow> m * sp div d \<le> m" by blast
  from cache_budget_conserved[OF thread_run.Begin s(1) this, THEN conjunct1] show ?thesis
    using s(2) by - (rule exI[of _ S], rule exI[of _ h], intro conjI, simp_all only: option.distinct not_False_eq_True)
qed






text \<open>
  C24: the life of a cache.  A thread gets a cache of its own: \<open>GetCache\<close> returns a live cache with the id of
  the thread, the only one with that id, creates one only when there is none, and leaves the central lists
  and the objects of the application alone; once thread-specific data is set up, the pointer of the thread leads
  to it.  A thread that becomes idle loses its cache, all cached objects go back to the central lists,
  no word of an object of the application changes; and when no cache is left, the central
  lists say that the application is the only client.
\<close>

theorem cache_life:
  assumes "threads_ok central_ok S App" "cache_room S"
  shows "\<exists>h S1 t. GetCache interval raw me S = Some (h, S1) \<and> threads_ok central_ok S1 App \<and> cent S1 = cent S
    \<and> heaps S1 h = Some t \<and> tc_tid t = me \<and> (\<forall>g s. heaps S1 g = Some s \<and> tc_tid s = me \<longrightarrow> g = h)
    \<and> dom (heaps S1) = insert h (dom (heaps S)) \<and> (tsd_inited S \<longrightarrow> tls S1 me = h)
    \<and> (\<exists>S2. BecomeIdle env me S1 = Some S2 \<and> threads_ok central_ok S2 App \<and> tls S2 me = 0
         \<and> dom (heaps S2) = dom (heaps S1) - {tls S1 me} \<and> (\<forall>c. \<forall>x \<in> App c. \<forall>y \<in> {x..<x + class_to_size (smap (cent S)) c}. store (cent S2) y = store (cent S1) y)
         \<and> HeapsInUse S2 = HeapsInUse S1 - (if tls S1 me = 0 then 0 else 1)
         \<and> (dom (heaps S2) = {} \<longrightarrow> central_ok (cent S2) App))"
proof -
  obtain h S1 t where g: "GetCache interval raw me S = Some (h, S1)" "threads_ok central_ok S1 App" "heaps S1 h = Some t" "tc_tid t = me"
    "cent S1 = cent S" "tsd_inited S1 = tsd_inited S" "tsd_inited S \<longrightarrow> tls S1 me = h" "dom (heaps S1) = insert h (dom (heaps S))"
    by (rule central.GetCache_ok[OF assms, of interval raw me]) (rule that)
  obtain hs where R: "registry S1 hs" using g(2) unfolding threads_ok_def by blast
  have u: "\<forall>g s. heaps S1 g = Some s \<and> tc_tid s = me \<longrightarrow> g = h" using registryD(7)[OF R _ g(3)] g(4) by auto
  obtain S2 where i: "BecomeIdle env me S1 = Some S2" "threads_ok central_ok S2 App" "undisturbed (held App) (cent S1) (cent S2)"
    "dom (heaps S2) = dom (heaps S1) - {tls S1 me}" "tls S2 = (tls S1)(me := 0)"
    "HeapsInUse S2 = HeapsInUse S1 - (if tls S1 me = 0 then 0 else 1)"
    by (rule central.BecomeIdle_ok[OF g(2), of env me]) (rule that)
  have "central_ok (cent S2) App" if "dom (heaps S2) = {}"
  proof -
    obtain Own X where O: "contents central_ok S2 Own X" "App = app Own X" using i(2) unfolding threads_ok_def by blast
    have "X h = (\<lambda>_. [])" for h using contentsD(4)[OF O(1)] that by auto
    then have "App = Own" using O(2) by (simp add: app_def fun_eq_iff)
    then show ?thesis using contentsD(1)[OF O(1)] by simp
  qed
  moreover have "\<forall>c. \<forall>x \<in> App c. \<forall>y \<in> {x..<x + class_to_size (smap (cent S)) c}. store (cent S2) y = store (cent S1) y"
    using i(3) undisturbed_words[OF g(2)] unfolding g(5) by blast
  ultimately have "\<exists>S2. BecomeIdle env me S1 = Some S2 \<and> threads_ok central_ok S2 App \<and> tls S2 me = 0
         \<and> dom (heaps S2) = dom (heaps S1) - {tls S1 me} \<and> (\<forall>c. \<forall>x \<in> App c. \<forall>y \<in> {x..<x + class_to_size (smap (cent S)) c}. store (cent S2) y = store (cent S1) y)
         \<and> HeapsInUse S2 = HeapsInUse S1 - (if tls S1 me = 0 then 0 else 1)
         \<and> (dom (heaps S2) = {} \<longrightarrow> central_ok (cent S2) App)"
    using i(1,2,4,5,6) by (intro exI[of _ S2]) simp
  with g(1-5,7,8) u show ?thesis by - (rule exI[of _ h], rule exI[of _ S1], rule exI[of _ t], intro conjI)
qed

theorem cache_life_witness:
  "\<exists>S h S1 S2. GetCache (\<lambda>_. 0) undefined 5 S = Some (h, S1) \<and> BecomeIdle sample_env 5 S1 = Some S2 \<and> HeapsInUse S1 - HeapsInUse S2 = 1
    \<and> tls S1 5 = h \<and> tls S2 5 = 0 \<and> central_ok (cent S2) (\<lambda>_. {})"
proof -
  obtain S where S: "threads_ok central_ok S (\<lambda>_. {})" "cache_room S" "tsd_inited S" "heaps S = Map.empty"
    by (rule sample_start)
  from cache_life[OF S(1,2), of "\<lambda>_. 0" undefined 5 sample_env] obtain h S1 t S2 where l: "GetCache (\<lambda>_. 0) undefined 5 S = Some (h, S1)"
    "threads_ok central_ok S1 (\<lambda>_. {})" "heaps S1 h = Some t" "dom (heaps S1) = insert h (dom (heaps S))" "tsd_inited S \<longrightarrow> tls S1 5 = h"
    "BecomeIdle sample_env 5 S1 = Some S2" "tls S2 5 = 0" "dom (heaps S2) = dom (heaps S1) - {tls S1 5}"
    "HeapsInUse S2 = HeapsInUse S1 - (if tls S1 5 = 0 then 0 else 1)" "dom (heaps S2) = {} \<longrightarrow> central_ok (cent S2) (\<lambda>_. {})"
    by (elim exE conjE) (rule that)
  obtain hs where R: "registry S1 hs" using l(2) unfolding threads_ok_def by blast
  have "h \<noteq> 0" using registryD(1,3)[OF R] l(3) on_listD(1) by (metis domI)
  then have "tls S1 5 = h" "HeapsInUse S1 - HeapsInUse S2 = 1" "central_ok (cent S2) (\<lambda>_. {})" using l S(3,4) by auto
  then show ?thesis using l(1,6,7) by (intro exI[of _ S] exI[of _ h] exI[of _ S1] exI[of _ S2] conjI)
qed

end
