(* ===== verification/StaticVars.thy ===== *)
theory StaticVars
  imports ThreadCache
begin

text \<open>
  Start-up: \<open>Static::InitStaticVars\<close> (\<open>static_vars.cc\<close>) and \<open>ThreadCache::InitModule\<close>.  The sentinels of
  all span lists live in one store of descriptors, which the constructor of the page heap sets up, so
  that it runs here before the central lists are initialised.  The sampler's own statics and the pool
  of the stack trace table are not part of the state.
\<close>

text \<open>
  What the start-up finds: the pools with the chunks that \<open>MetaDataAlloc\<close> will return, the outcomes of
  the page map's allocations, the grants of the system, and uninitialised memory.
\<close>

record static_memory =
  span_space :: allocator
  trace_space :: allocator
  cache_space :: allocator
  node_allocs :: "bool list"
  system_grants :: "(nat \<times> nat) option list"
  raw_packed :: packed_cache
  raw_central :: "nat \<Rightarrow> cfl"
  raw_words :: words

definition InitStaticVars :: "static_memory \<Rightarrow> central option" where
  "InitStaticVars s = do {
     sizes \<leftarrow> SizeMap_Init;
     sa \<leftarrow> pha_Init sizeof_Span (span_space s);
     (x, sa) \<leftarrow> pha_New sizeof_Span sa;
     (y, sa) \<leftarrow> pha_New sizeof_Span sa;
     ta \<leftarrow> pha_Init sizeof_StackTrace (trace_space s);
     h \<leftarrow> PageHeap_init (node_allocs s) sa ta (system_grants s) (raw_packed s);
     st \<leftarrow> init_central \<lparr>pheap = h, smap = sizes, central_cache = raw_central s, store = raw_words s, race_counter = 0\<rparr>;
     h \<leftarrow> on_lists_of (DLL_Init SampledObjects) (pheap st);
     Some (st\<lparr>pheap := h\<rparr>) }"

text \<open>The part of \<open>ThreadCache::InitModule\<close> that runs once, under \<open>phinited\<close>.\<close>

definition InitThreadCaches :: "static_memory \<Rightarrow> threads option" where
  "InitThreadCaches s = do {
     st \<leftarrow> InitStaticVars s;
     a \<leftarrow> pha_Init sizeof_ThreadCache (cache_space s);
     Some (initial_threads st a) }"

end
