(* ===== verification/Tcmalloc.thy ===== *)
theory Tcmalloc
  imports StaticVars
begin

text \<open>
  The malloc entry points (\<open>tcmalloc.cc\<close>): \<open>do_malloc\<close> and its relatives over the thread caches, the
  central lists and the page heap, and the exported routines.  A result is \<open>None\<close> when an assertion
  fails, the process is aborted or a loop does not end.  Reports of large allocations, calls of the
  malloc hooks and \<open>errno\<close> are kept in the state.  \<open>module_up\<close> says that the static data are initialised.
\<close>

unbundle bit_operations_syntax

section \<open>State\<close>

datatype hook_call = NewHook nat nat | DeleteHook nat

record malloc_state =
  thr :: threads
  module_up :: bool
  large_alloc_threshold :: int
  large_reports :: "(nat \<times> nat) list"
  errno :: "nat \<Rightarrow> nat"
  tc_new_mode :: int
  new_handler :: nat
  hooks :: "hook_call list"
  pagesize :: nat
  extra_bytes_released :: nat

text \<open>How a new-handler ends, besides not at all.\<close>

datatype handled = Returns malloc_state | Throws_bad_alloc malloc_state | Throws_other malloc_state

text \<open>
  What the code does not define: the page heap's parameters, the sampling interval, the contents of
  fresh memory, the memory at start-up, the flag of the sampler, \<open>getpagesize()\<close>, and what the new-handler number \<open>n\<close> does.
\<close>

record menv =
  penv :: env
  sample_interval :: "nat \<Rightarrow> nat"
  raw_cache :: thread_cache
  sample_parameter :: int
  getpagesize :: nat
  statics :: static_memory
  run_handler :: "nat \<Rightarrow> malloc_state \<Rightarrow> handled option"

datatype outcome = Returned nat | Bad_alloc | Other_exception

definition ENOMEM :: nat where [simp]: "ENOMEM = 12"
definition EINVAL :: nat where [simp]: "EINVAL = 22"

abbreviation the_heap :: "malloc_state \<Rightarrow> pageheap" where
  "the_heap M \<equiv> pheap (cent (thr M))"

abbreviation the_sizes :: "malloc_state \<Rightarrow> sizemap" where
  "the_sizes M \<equiv> smap (cent (thr M))"

definition with_heap :: "pageheap \<Rightarrow> malloc_state \<Rightarrow> malloc_state" where
  "with_heap h M = M\<lparr>thr := (thr M)\<lparr>cent := (cent (thr M))\<lparr>pheap := h\<rparr>\<rparr>\<rparr>"

definition with_store :: "words \<Rightarrow> malloc_state \<Rightarrow> malloc_state" where
  "with_store w M = M\<lparr>thr := (thr M)\<lparr>cent := (cent (thr M))\<lparr>store := w\<rparr>\<rparr>\<rparr>"

section \<open>Bytes of the store\<close>

text \<open>Byte \<open>x\<close> is in the aligned word around it, the low byte first.\<close>

definition byte :: "words \<Rightarrow> nat \<Rightarrow> nat" where
  "byte w x = w (x - x mod 8) div 256 ^ (x mod 8) mod 256"

definition write_byte :: "nat \<Rightarrow> nat \<Rightarrow> words \<Rightarrow> words" where
  "write_byte x b w = (let v = w (x - x mod 8); k = 256 ^ (x mod 8)
     in w(x - x mod 8 := v div (256 * k) * (256 * k) + b mod 256 * k + v mod k))"

fun memset :: "nat \<Rightarrow> nat \<Rightarrow> nat \<Rightarrow> words \<Rightarrow> words" where
  "memset p b 0 w = w"
| "memset p b (Suc n) w = memset (p + 1) b n (write_byte p b w)"

fun memcpy :: "nat \<Rightarrow> nat \<Rightarrow> nat \<Rightarrow> words \<Rightarrow> words" where
  "memcpy p q 0 w = w"
| "memcpy p q (Suc n) w = memcpy (p + 1) (q + 1) n (write_byte p (byte w q) w)"

section \<open>Helpers\<close>

definition CheckCachedSizeClass :: "nat \<Rightarrow> pageheap \<Rightarrow> bool option" where
  "CheckCachedSizeClass ptr h = do {
     let p = ptr div kPageSize;
     cached_value \<leftarrow> GetSizeClassIfCached h p;
     if cached_value = 0 then Some True
     else do { d \<leftarrow> GetDescriptor h p; s \<leftarrow> mem h d; Some (cached_value = sp_sizeclass s) } }"

definition CheckedMallocResult :: "nat \<Rightarrow> pageheap \<Rightarrow> nat option" where
  "CheckedMallocResult result h = do {
     b \<leftarrow> (if result = 0 then Some True else CheckCachedSizeClass result h);
     check b;
     Some result }"

definition SpanToMallocResult :: "spanptr \<Rightarrow> pageheap \<Rightarrow> (nat \<times> pageheap) option" where
  "SpanToMallocResult p h = do {
     s \<leftarrow> mem h p;
     h \<leftarrow> CacheSizeClass (sp_start s) 0 h;
     r \<leftarrow> CheckedMallocResult (span_bytes (sp_start s)) h;
     Some (r, h) }"

text \<open>The trace is taken by \<open>GetStackTrace\<close>; the pool of traces crashes where the code expects null.\<close>

definition DoSampledAllocation :: "env \<Rightarrow> nat \<Rightarrow> pageheap \<Rightarrow> (nat \<times> pageheap) option" where
  "DoSampledAllocation env sz h = do {
     let pcs = take kMaxStackDepth (stack_pcs env);
     let tmp = \<lparr>st_size = sz, st_depth = length pcs, st_stack = pcs,
       st_link = (if length pcs = kMaxStackDepth then last pcs else 0)\<rparr>;
     (sp, h) \<leftarrow> New env (pages (if sz = 0 then 1 else sz)) h;
     case sp of None \<Rightarrow> Some (0, h)
     | Some p \<Rightarrow> do {
         (stack, a) \<leftarrow> pha_New sizeof_StackTrace (stacktrace_allocator h);
         let h = h\<lparr>stacktrace_allocator := a, traces := (traces h)(stack \<mapsto> tmp)\<rparr>;
         h \<leftarrow> modify p (\<lambda>s. s\<lparr>sp_sample := True\<rparr>) h;
         h \<leftarrow> modify p (\<lambda>s. s\<lparr>sp_objects := stack\<rparr>) h;
         h \<leftarrow> on_lists_of (DLL_Prepend SampledObjects p) h;
         SpanToMallocResult p h } }"

text \<open>The decision whether to report, with the next threshold.\<close>

definition should_report_large :: "nat \<Rightarrow> int \<Rightarrow> bool \<times> int" where
  "should_report_large num_pages threshold =
     (if threshold > 0 \<and> int num_pages \<ge> threshold div 2 ^ kPageShift
      then (True, if threshold + threshold div 8 < 8 * 2 ^ 30 then threshold + threshold div 8 else 8 * 2 ^ 30)
      else (False, threshold))"

definition ReportLargeAlloc :: "nat \<Rightarrow> nat \<Rightarrow> malloc_state \<Rightarrow> malloc_state" where
  "ReportLargeAlloc num_pages result M = M\<lparr>large_reports := (span_bytes num_pages, result) # large_reports M\<rparr>"

text \<open>\<open>FLAGS_tcmalloc_sample_parameter > 0 && heap->SampleAllocation(size)\<close>\<close>

definition sample_now :: "menv \<Rightarrow> nat \<Rightarrow> nat \<Rightarrow> malloc_state \<Rightarrow> (bool \<times> malloc_state) option" where
  "sample_now env heap sz M =
     (if sample_parameter env > 0
      then do {
        t \<leftarrow> heaps (thr M) heap;
        let (b, s) = SampleAllocation (sample_interval env) sz (tc_sampler t);
        S \<leftarrow> on_heap heap (\<lambda>t. t\<lparr>tc_sampler := s\<rparr>) (thr M);
        Some (b, M\<lparr>thr := S\<rparr>) }
      else Some (False, M))"

section \<open>Allocation\<close>

definition do_malloc_pages :: "menv \<Rightarrow> nat \<Rightarrow> nat \<Rightarrow> malloc_state \<Rightarrow> (nat \<times> malloc_state) option" where
  "do_malloc_pages env heap sz M = do {
     let num_pages = pages sz;
     let sz = span_bytes num_pages;
     (b, M) \<leftarrow> sample_now env heap sz M;
     (result, h) \<leftarrow>
       (if b then DoSampledAllocation (penv env) sz (the_heap M)
        else do {
          (sp, h) \<leftarrow> New (penv env) num_pages (the_heap M);
          case sp of None \<Rightarrow> Some (0, h) | Some p \<Rightarrow> SpanToMallocResult p h });
     let M = with_heap h M;
     let (report_large, t) = should_report_large num_pages (large_alloc_threshold M);
     let M = M\<lparr>large_alloc_threshold := t\<rparr>;
     Some (result, if report_large then ReportLargeAlloc num_pages result M else M) }"

text \<open>\<open>phinited\<close> is the flag \<open>module_up\<close>.\<close>

definition InitModule :: "menv \<Rightarrow> malloc_state \<Rightarrow> malloc_state option" where
  "InitModule env M =
     (if module_up M then Some M
      else do { S \<leftarrow> InitThreadCaches (statics env); Some (M\<lparr>thr := S, module_up := True\<rparr>) })"

definition do_malloc :: "menv \<Rightarrow> nat \<Rightarrow> nat \<Rightarrow> malloc_state \<Rightarrow> (nat \<times> malloc_state) option" where
  "do_malloc env me sz M = do {
     M \<leftarrow> (if tsd_inited (thr M) then Some M else InitModule env M);
     (heap, S) \<leftarrow> GetCache (sample_interval env) (raw_cache env) me (thr M);
     let M = M\<lparr>thr := S\<rparr>;
     (ret, M) \<leftarrow>
       (if sz \<le> kMaxSize then do {
          let cl = SizeClass (the_sizes M) sz;
          let sz = class_to_size (the_sizes M) cl;
          (b, M) \<leftarrow> sample_now env heap sz M;
          if b then do {
            (r, h) \<leftarrow> DoSampledAllocation (penv env) sz (the_heap M);
            Some (r, with_heap h M) }
          else do {
            (r, S) \<leftarrow> cache_Allocate (penv env) heap sz cl (thr M);
            r \<leftarrow> CheckedMallocResult r (pheap (cent S));
            Some (r, M\<lparr>thr := S\<rparr>) } }
        else do_malloc_pages env heap sz M);
     Some (ret, if ret = 0 then M\<lparr>errno := (errno M)(me := ENOMEM)\<rparr> else M) }"

text \<open>The loop of \<open>cpp_alloc\<close> and of \<open>cpp_memalign\<close> around an allocator \<open>f\<close>.\<close>

partial_function (option) new_loop ::
  "menv \<Rightarrow> (malloc_state \<Rightarrow> (nat \<times> malloc_state) option) \<Rightarrow> bool \<Rightarrow> malloc_state \<Rightarrow> (outcome \<times> malloc_state) option" where
  "new_loop env f nothrow M = Option.bind (f M) (\<lambda>(p, M).
     if p \<noteq> 0 then Some (Returned p, M)
     else if new_handler M = 0 then Some (if nothrow then Returned 0 else Bad_alloc, M)
     else Option.bind (run_handler env (new_handler M) M) (\<lambda>r.
       case r of
         Returns M \<Rightarrow> new_loop env f nothrow M
       | Throws_bad_alloc M \<Rightarrow> Some (if nothrow then Returned p else Bad_alloc, M)
       | Throws_other M \<Rightarrow> Some (Other_exception, M)))"

declare new_loop.simps [code]

definition cpp_alloc :: "menv \<Rightarrow> nat \<Rightarrow> nat \<Rightarrow> bool \<Rightarrow> malloc_state \<Rightarrow> (outcome \<times> malloc_state) option" where
  "cpp_alloc env me sz nothrow = new_loop env (do_malloc env me sz) nothrow"

definition do_malloc_or_cpp_alloc :: "menv \<Rightarrow> nat \<Rightarrow> nat \<Rightarrow> malloc_state \<Rightarrow> (outcome \<times> malloc_state) option" where
  "do_malloc_or_cpp_alloc env me sz M =
     (if tc_new_mode M \<noteq> 0 then cpp_alloc env me sz True M
      else do { (p, M) \<leftarrow> do_malloc env me sz M; Some (Returned p, M) })"

definition do_calloc :: "menv \<Rightarrow> nat \<Rightarrow> nat \<Rightarrow> nat \<Rightarrow> malloc_state \<Rightarrow> (outcome \<times> malloc_state) option" where
  "do_calloc env me n elem_size M =
     (let sz = n * elem_size mod two64
      in if elem_size \<noteq> 0 \<and> sz div elem_size \<noteq> n then Some (Returned 0, M)
         else do {
           (result, M) \<leftarrow> do_malloc_or_cpp_alloc env me sz M;
           Some (result, case result of
             Returned p \<Rightarrow> if p \<noteq> 0 then with_store (memset p 0 sz (store (cent (thr M)))) M else M
           | _ \<Rightarrow> M) })"

section \<open>Deallocation\<close>

definition do_free_with_callback ::
  "menv \<Rightarrow> nat \<Rightarrow> nat \<Rightarrow> (nat \<Rightarrow> malloc_state \<Rightarrow> malloc_state option) \<Rightarrow> malloc_state \<Rightarrow> malloc_state option" where
  "do_free_with_callback env me ptr invalid_free_fn M =
     (if ptr = 0 then Some M
      else if \<not> module_up M then invalid_free_fn ptr M
      else do {
        let p = ptr div kPageSize;
        cached \<leftarrow> GetSizeClassIfCached (the_heap M) p;
        r \<leftarrow> (if cached = 0
              then (case GetDescriptor (the_heap M) p of
                  None \<Rightarrow> Some None
                | Some sp \<Rightarrow> do {
                    s \<leftarrow> mem (the_heap M) sp;
                    h \<leftarrow> CacheSizeClass p (sp_sizeclass s) (the_heap M);
                    Some (Some (Some sp, sp_sizeclass s, with_heap h M)) })
              else Some (Some (None, cached, M)));
        case r of
          None \<Rightarrow> invalid_free_fn ptr M
        | Some (sp, cl, M) \<Rightarrow>
            (if cl \<noteq> 0 then do {
               d \<leftarrow> GetDescriptor (the_heap M) p;
               s \<leftarrow> mem (the_heap M) d;
               check (\<not> sp_sample s);
               let heap = GetCacheIfPresent me (thr M);
               if heap \<noteq> 0 then do {
                 S \<leftarrow> Deallocate (penv env) heap ptr cl (thr M);
                 Some (M\<lparr>thr := S\<rparr>) }
               else do {
                 w \<leftarrow> SLL_SetNext ptr 0 (store (cent (thr M)));
                 st \<leftarrow> InsertRange (penv env) cl ptr ptr 1 ((cent (thr M))\<lparr>store := w\<rparr>);
                 Some (M\<lparr>thr := (thr M)\<lparr>cent := st\<rparr>\<rparr>) } }
             else do {
               check (ptr mod kPageSize = 0);
               sp \<leftarrow> sp;
               s \<leftarrow> mem (the_heap M) sp;
               check (sp_start s = p);
               h \<leftarrow> (if sp_sample s then do {
                   let st = sp_objects s;
                   h \<leftarrow> on_lists_of (DLL_Remove sp) (the_heap M);
                   let h = h\<lparr>stacktrace_allocator := pha_Delete st (stacktrace_allocator h), traces := (traces h)(st := None)\<rparr>;
                   modify sp (\<lambda>s. s\<lparr>sp_objects := 0\<rparr>) h }
                 else Some (the_heap M));
               h \<leftarrow> Delete (penv env) sp h;
               Some (with_heap h M) }) })"

text \<open>\<open>InvalidFree\<close> ends the process.\<close>

definition InvalidFree :: "nat \<Rightarrow> malloc_state \<Rightarrow> malloc_state option" where
  "InvalidFree ptr M = None"

definition do_free :: "menv \<Rightarrow> nat \<Rightarrow> nat \<Rightarrow> malloc_state \<Rightarrow> malloc_state option" where
  "do_free env me ptr M = do_free_with_callback env me ptr InvalidFree M"

section \<open>The size of a block, and changing it\<close>

definition GetSizeWithCallback :: "nat \<Rightarrow> (nat \<Rightarrow> malloc_state \<Rightarrow> (nat \<times> malloc_state) option) \<Rightarrow> malloc_state \<Rightarrow> (nat \<times> malloc_state) option" where
  "GetSizeWithCallback ptr invalid_getsize_fn M =
     (if ptr = 0 then Some (0, M)
      else do {
        let p = ptr div kPageSize;
        cl \<leftarrow> GetSizeClassIfCached (the_heap M) p;
        if cl \<noteq> 0 then Some (ByteSizeForClass (the_sizes M) cl, M)
        else (case GetDescriptor (the_heap M) p of
            None \<Rightarrow> invalid_getsize_fn ptr M
          | Some sp \<Rightarrow> do {
              s \<leftarrow> mem (the_heap M) sp;
              if sp_sizeclass s \<noteq> 0 then do {
                h \<leftarrow> CacheSizeClass p (sp_sizeclass s) (the_heap M);
                Some (ByteSizeForClass (the_sizes M) (sp_sizeclass s), with_heap h M) }
              else Some (span_bytes (sp_length s), M) }) })"

definition InvalidGetSizeForRealloc :: "nat \<Rightarrow> malloc_state \<Rightarrow> (nat \<times> malloc_state) option" where
  "InvalidGetSizeForRealloc old_ptr M = None"

definition InvalidGetAllocatedSize :: "nat \<Rightarrow> malloc_state \<Rightarrow> (nat \<times> malloc_state) option" where
  "InvalidGetAllocatedSize ptr M = None"

definition InvokeNewHook :: "nat \<Rightarrow> nat \<Rightarrow> malloc_state \<Rightarrow> malloc_state" where
  "InvokeNewHook p sz M = M\<lparr>hooks := NewHook p sz # hooks M\<rparr>"

definition InvokeDeleteHook :: "nat \<Rightarrow> malloc_state \<Rightarrow> malloc_state" where
  "InvokeDeleteHook p M = M\<lparr>hooks := DeleteHook p # hooks M\<rparr>"

text \<open>An \<open>int\<close> converted to \<open>size_t\<close>.\<close>

definition int_to_size :: "int \<Rightarrow> nat" where
  "int_to_size i = nat (i mod int two64)"

definition do_realloc_with_callback ::
  "menv \<Rightarrow> nat \<Rightarrow> nat \<Rightarrow> nat \<Rightarrow> (nat \<Rightarrow> malloc_state \<Rightarrow> malloc_state option)
     \<Rightarrow> (nat \<Rightarrow> malloc_state \<Rightarrow> (nat \<times> malloc_state) option) \<Rightarrow> malloc_state \<Rightarrow> (outcome \<times> malloc_state) option" where
  "do_realloc_with_callback env me old_ptr new_size invalid_free_fn invalid_get_size_fn M = do {
     (old_size, M) \<leftarrow> GetSizeWithCallback old_ptr invalid_get_size_fn M;
     let lower_bound_to_grow = to_int32 (int (add64 old_size (old_size div 4)));
     let upper_bound_to_shrink = to_int32 (int (old_size div 2));
     if new_size > old_size \<or> new_size < int_to_size upper_bound_to_shrink
     then do {
       (r, M) \<leftarrow> (if new_size > old_size \<and> new_size < int_to_size lower_bound_to_grow
         then do_malloc_or_cpp_alloc env me (int_to_size lower_bound_to_grow) M else Some (Returned 0, M));
       (r, M) \<leftarrow> (if r = Returned 0 then do_malloc_or_cpp_alloc env me new_size M else Some (r, M));
       case r of
         Returned new_ptr \<Rightarrow>
           (if new_ptr = 0 then Some (Returned 0, M)
            else do {
              let M = InvokeNewHook new_ptr new_size M;
              let n = (if old_size < new_size then old_size else new_size);
              let M = with_store (memcpy new_ptr old_ptr n (store (cent (thr M)))) M;
              let M = InvokeDeleteHook old_ptr M;
              M \<leftarrow> do_free_with_callback env me old_ptr invalid_free_fn M;
              Some (Returned new_ptr, M) })
       | _ \<Rightarrow> Some (r, M) }
     else Some (Returned old_ptr, InvokeNewHook old_ptr new_size (InvokeDeleteHook old_ptr M)) }"

definition do_realloc :: "menv \<Rightarrow> nat \<Rightarrow> nat \<Rightarrow> nat \<Rightarrow> malloc_state \<Rightarrow> (outcome \<times> malloc_state) option" where
  "do_realloc env me old_ptr new_size M =
     do_realloc_with_callback env me old_ptr new_size InvalidFree InvalidGetSizeForRealloc M"

end
