(* ===== verification/TcmallocExports.thy ===== *)
theory TcmallocExports
  imports Tcmalloc
begin

text \<open>
  Aligned allocation and the exported routines (\<open>tcmalloc.cc\<close>).
\<close>

section \<open>Aligned allocation\<close>

text \<open>The first class from \<open>cl\<close> on whose size is a multiple of \<open>align\<close>.\<close>

function aligned_class :: "sizemap \<Rightarrow> nat \<Rightarrow> nat \<Rightarrow> nat" where
  "aligned_class m align cl =
     (if cl < kNumClasses \<and> class_to_size m cl AND (align - 1) \<noteq> 0 then aligned_class m align (cl + 1) else cl)"
  by auto
termination by (relation "measure (\<lambda>(m, align, cl). kNumClasses - cl)") auto

declare aligned_class.simps [simp del]

partial_function (option) skip_pages :: "nat \<Rightarrow> nat \<Rightarrow> nat \<Rightarrow> nat option" where
  "skip_pages start align skip =
     (if span_bytes (start + skip) AND (align - 1) \<noteq> 0 then skip_pages start align (skip + 1) else Some skip)"

declare skip_pages.simps [code]

text \<open>The end of \<open>do_memalign\<close>, for alignments above a page: an aligned part is cut out of a larger span.\<close>

definition carve_aligned :: "env \<Rightarrow> nat \<Rightarrow> nat \<Rightarrow> pageheap \<Rightarrow> (nat \<times> pageheap) option" where
  "carve_aligned env align sz h = do {
     let alloc = pages (add64 sz align);
     (sp, h) \<leftarrow> New env alloc h;
     case sp of None \<Rightarrow> Some (0, h)
     | Some sp \<Rightarrow> do {
         s \<leftarrow> mem h sp;
         skip \<leftarrow> skip_pages (sp_start s) align 0;
         check (skip < alloc);
         (sp, h) \<leftarrow> (if skip > 0 then do {
             (rest, h) \<leftarrow> Split sp skip h;
             h \<leftarrow> Delete env sp h;
             Some (rest, h) }
           else Some (sp, h));
         let needed = pages sz;
         s \<leftarrow> mem h sp;
         check (sp_length s \<ge> needed);
         h \<leftarrow> (if sp_length s > needed then do {
             (trailer, h) \<leftarrow> Split sp needed h;
             Delete env trailer h }
           else Some h);
         SpanToMallocResult sp h } }"

definition do_memalign :: "menv \<Rightarrow> nat \<Rightarrow> nat \<Rightarrow> nat \<Rightarrow> malloc_state \<Rightarrow> (nat \<times> malloc_state) option" where
  "do_memalign env me align sz M = do {
     check (align AND (align - 1) = 0);
     check (align > 0);
     if add64 sz align < sz then Some (0, M)
     else do {
       a \<leftarrow> AlignmentForSize sz;
       if align \<le> a then do {
         (p, M) \<leftarrow> do_malloc env me sz M;
         check (p mod align = 0);
         Some (p, M) }
       else do {
         M \<leftarrow> (if module_up M then Some M else InitModule env M);
         let sz = (if sz = 0 then 1 else sz);
         let cl = (if sz \<le> kMaxSize \<and> align < kPageSize then aligned_class (the_sizes M) align (SizeClass (the_sizes M) sz)
           else kNumClasses);
         if cl < kNumClasses then do {
           M \<leftarrow> (if tsd_inited (thr M) then Some M else InitModule env M);
           (heap, S) \<leftarrow> GetCache (sample_interval env) (raw_cache env) me (thr M);
           let sz = class_to_size (the_sizes M) cl;
           (r, S) \<leftarrow> cache_Allocate (penv env) heap sz cl S;
           r \<leftarrow> CheckedMallocResult r (pheap (cent S));
           Some (r, M\<lparr>thr := S\<rparr>) }
         else if align \<le> kPageSize then do {
           (sp, h) \<leftarrow> New (penv env) (pages sz) (the_heap M);
           (r, h) \<leftarrow> (case sp of None \<Rightarrow> Some (0, h) | Some p \<Rightarrow> SpanToMallocResult p h);
           Some (r, with_heap h M) }
         else do {
           (r, h) \<leftarrow> carve_aligned (penv env) align sz (the_heap M);
           Some (r, with_heap h M) } } } }"

definition cpp_memalign :: "menv \<Rightarrow> nat \<Rightarrow> nat \<Rightarrow> nat \<Rightarrow> malloc_state \<Rightarrow> (outcome \<times> malloc_state) option" where
  "cpp_memalign env me align sz = new_loop env (do_memalign env me align sz) True"

definition do_memalign_or_cpp_memalign :: "menv \<Rightarrow> nat \<Rightarrow> nat \<Rightarrow> nat \<Rightarrow> malloc_state \<Rightarrow> (outcome \<times> malloc_state) option" where
  "do_memalign_or_cpp_memalign env me align sz M =
     (if tc_new_mode M \<noteq> 0 then cpp_memalign env me align sz M
      else do { (p, M) \<leftarrow> do_memalign env me align sz M; Some (Returned p, M) })"

section \<open>Exported routines\<close>

definition tc_set_new_mode :: "int \<Rightarrow> malloc_state \<Rightarrow> int \<times> malloc_state" where
  "tc_set_new_mode flag M = (tc_new_mode M, M\<lparr>tc_new_mode := flag\<rparr>)"

text \<open>The new-hooks run after a routine that returned.\<close>

definition hooked :: "nat \<Rightarrow> (outcome \<times> malloc_state) option \<Rightarrow> (outcome \<times> malloc_state) option" where
  "hooked sz x = do {
     (r, M) \<leftarrow> x;
     Some (r, case r of Returned p \<Rightarrow> InvokeNewHook p sz M | _ \<Rightarrow> M) }"

definition tc_malloc :: "menv \<Rightarrow> nat \<Rightarrow> nat \<Rightarrow> malloc_state \<Rightarrow> (outcome \<times> malloc_state) option" where
  "tc_malloc env me sz M = hooked sz (do_malloc_or_cpp_alloc env me sz M)"

definition tc_free :: "menv \<Rightarrow> nat \<Rightarrow> nat \<Rightarrow> malloc_state \<Rightarrow> malloc_state option" where
  "tc_free env me ptr M = do_free env me ptr (InvokeDeleteHook ptr M)"

definition tc_calloc :: "menv \<Rightarrow> nat \<Rightarrow> nat \<Rightarrow> nat \<Rightarrow> malloc_state \<Rightarrow> (outcome \<times> malloc_state) option" where
  "tc_calloc env me n elem_size M = hooked (n * elem_size mod two64) (do_calloc env me n elem_size M)"

definition tc_cfree :: "menv \<Rightarrow> nat \<Rightarrow> nat \<Rightarrow> malloc_state \<Rightarrow> malloc_state option" where
  "tc_cfree env me ptr M = do_free env me ptr (InvokeDeleteHook ptr M)"

definition tc_realloc :: "menv \<Rightarrow> nat \<Rightarrow> nat \<Rightarrow> nat \<Rightarrow> malloc_state \<Rightarrow> (outcome \<times> malloc_state) option" where
  "tc_realloc env me old_ptr new_size M =
     (if old_ptr = 0 then hooked new_size (do_malloc_or_cpp_alloc env me new_size M)
      else if new_size = 0 then do {
        M \<leftarrow> do_free env me old_ptr (InvokeDeleteHook old_ptr M);
        Some (Returned 0, M) }
      else do_realloc env me old_ptr new_size M)"

definition tc_new :: "menv \<Rightarrow> nat \<Rightarrow> nat \<Rightarrow> malloc_state \<Rightarrow> (outcome \<times> malloc_state) option" where
  "tc_new env me sz M = hooked sz (cpp_alloc env me sz False M)"

definition tc_new_nothrow :: "menv \<Rightarrow> nat \<Rightarrow> nat \<Rightarrow> malloc_state \<Rightarrow> (outcome \<times> malloc_state) option" where
  "tc_new_nothrow env me sz M = hooked sz (cpp_alloc env me sz True M)"

definition tc_delete :: "menv \<Rightarrow> nat \<Rightarrow> nat \<Rightarrow> malloc_state \<Rightarrow> malloc_state option" where
  "tc_delete env me p M = do_free env me p (InvokeDeleteHook p M)"

definition tc_delete_nothrow :: "menv \<Rightarrow> nat \<Rightarrow> nat \<Rightarrow> malloc_state \<Rightarrow> malloc_state option" where
  "tc_delete_nothrow env me p M = do_free env me p (InvokeDeleteHook p M)"

definition tc_newarray :: "menv \<Rightarrow> nat \<Rightarrow> nat \<Rightarrow> malloc_state \<Rightarrow> (outcome \<times> malloc_state) option" where
  "tc_newarray env me sz M = hooked sz (cpp_alloc env me sz False M)"

definition tc_newarray_nothrow :: "menv \<Rightarrow> nat \<Rightarrow> nat \<Rightarrow> malloc_state \<Rightarrow> (outcome \<times> malloc_state) option" where
  "tc_newarray_nothrow env me sz M = hooked sz (cpp_alloc env me sz True M)"

definition tc_deletearray :: "menv \<Rightarrow> nat \<Rightarrow> nat \<Rightarrow> malloc_state \<Rightarrow> malloc_state option" where
  "tc_deletearray env me p M = do_free env me p (InvokeDeleteHook p M)"

definition tc_deletearray_nothrow :: "menv \<Rightarrow> nat \<Rightarrow> nat \<Rightarrow> malloc_state \<Rightarrow> malloc_state option" where
  "tc_deletearray_nothrow env me p M = do_free env me p (InvokeDeleteHook p M)"

definition tc_memalign :: "menv \<Rightarrow> nat \<Rightarrow> nat \<Rightarrow> nat \<Rightarrow> malloc_state \<Rightarrow> (outcome \<times> malloc_state) option" where
  "tc_memalign env me align sz M = hooked sz (do_memalign_or_cpp_memalign env me align sz M)"

text \<open>The returned code, and the pointer written through \<open>result_ptr\<close> when there is one.\<close>

datatype posix_result = Code nat "nat option" | Exception outcome

definition tc_posix_memalign :: "menv \<Rightarrow> nat \<Rightarrow> nat \<Rightarrow> nat \<Rightarrow> malloc_state \<Rightarrow> (posix_result \<times> malloc_state) option" where
  "tc_posix_memalign env me align sz M =
     (if align mod 8 \<noteq> 0 \<or> align AND (align - 1) \<noteq> 0 \<or> align = 0 then Some (Code EINVAL None, M)
      else do {
        (r, M) \<leftarrow> hooked sz (do_memalign_or_cpp_memalign env me align sz M);
        Some (case r of Returned p \<Rightarrow> if p = 0 then Code ENOMEM None else Code 0 (Some p) | x \<Rightarrow> Exception x, M) })"

definition set_pagesize :: "menv \<Rightarrow> malloc_state \<Rightarrow> malloc_state" where
  "set_pagesize env M = (if pagesize M = 0 then M\<lparr>pagesize := getpagesize env\<rparr> else M)"

definition tc_valloc :: "menv \<Rightarrow> nat \<Rightarrow> nat \<Rightarrow> malloc_state \<Rightarrow> (outcome \<times> malloc_state) option" where
  "tc_valloc env me sz M = (let M = set_pagesize env M
     in hooked sz (do_memalign_or_cpp_memalign env me (pagesize M) sz M))"

text \<open>\<open>(size + pagesize - 1) & ~(pagesize - 1)\<close> on 64 bits.\<close>

definition round_to :: "nat \<Rightarrow> nat \<Rightarrow> nat" where
  "round_to sz pg = sub64 (add64 sz pg) 1 AND (two64 - 1 - (pg - 1))"

definition tc_pvalloc :: "menv \<Rightarrow> nat \<Rightarrow> nat \<Rightarrow> malloc_state \<Rightarrow> (outcome \<times> malloc_state) option" where
  "tc_pvalloc env me sz M = (let M = set_pagesize env M;
       sz = (if sz = 0 then pagesize M else sz);
       sz = round_to sz (pagesize M)
     in hooked sz (do_memalign_or_cpp_memalign env me (pagesize M) sz M))"

definition do_mallopt :: "int \<Rightarrow> int \<Rightarrow> int" where
  "do_mallopt cmd v = 1"

section \<open>The extension interface\<close>

datatype ownership = Unknown | Owned | NotOwned

text \<open>The mask keeps pointers with more than \<open>kAddressBits\<close> = 48 bits from the page map.\<close>

definition GetOwnership :: "nat \<Rightarrow> malloc_state \<Rightarrow> ownership option" where
  "GetOwnership ptr M = do {
     let p = ptr div kPageSize;
     if p div 2 ^ (48 - kPageShift) > 0 then Some NotOwned
     else do {
       cl \<leftarrow> GetSizeClassIfCached (the_heap M) p;
       if cl \<noteq> 0 then Some Owned
       else Some (if GetDescriptor (the_heap M) p \<noteq> None then Owned else NotOwned) } }"

definition GetAllocatedSize :: "nat \<Rightarrow> malloc_state \<Rightarrow> (nat \<times> malloc_state) option" where
  "GetAllocatedSize ptr M = do {
     o1 \<leftarrow> GetOwnership ptr M;
     check (o1 \<noteq> NotOwned);
     GetSizeWithCallback ptr InvalidGetAllocatedSize M }"

definition tc_malloc_size :: "nat \<Rightarrow> malloc_state \<Rightarrow> (nat \<times> malloc_state) option" where
  "tc_malloc_size ptr M = GetAllocatedSize ptr M"

definition GetEstimatedAllocatedSize :: "nat \<Rightarrow> malloc_state \<Rightarrow> nat" where
  "GetEstimatedAllocatedSize sz M =
     (if sz \<le> kMaxSize then ByteSizeForClass (the_sizes M) (SizeClass (the_sizes M) sz)
      else span_bytes (pages sz))"

definition MarkThreadBusy :: "menv \<Rightarrow> nat \<Rightarrow> malloc_state \<Rightarrow> malloc_state option" where
  "MarkThreadBusy env me M = do { (p, M) \<leftarrow> do_malloc env me 0 M; do_free env me p M }"

definition MarkThreadIdle :: "menv \<Rightarrow> nat \<Rightarrow> malloc_state \<Rightarrow> malloc_state option" where
  "MarkThreadIdle env me M = do { S \<leftarrow> BecomeIdle (penv env) me (thr M); Some (M\<lparr>thr := S\<rparr>) }"

definition ReleaseToSystem :: "nat \<Rightarrow> malloc_state \<Rightarrow> malloc_state option" where
  "ReleaseToSystem num_bytes M =
     (if num_bytes \<le> extra_bytes_released M
      then Some (M\<lparr>extra_bytes_released := extra_bytes_released M - num_bytes\<rparr>)
      else do {
        let num_bytes = num_bytes - extra_bytes_released M;
        let num_pages = max (num_bytes div 2 ^ kPageShift) 1;
        (n, h) \<leftarrow> ReleaseAtLeastNPages num_pages (the_heap M);
        let bytes_released = span_bytes n;
        let M = with_heap h M;
        Some (M\<lparr>extra_bytes_released := (if bytes_released > num_bytes then bytes_released - num_bytes else 0)\<rparr>) })"

end
