(* ===== verification/TcmallocSpans.thy ===== *)
theory TcmallocSpans
  imports ThreadCacheThms TcmallocExports
begin

text \<open>
  Spans that the malloc entry points hold for large and for sampled allocations: how they are taken
  from the page heap, marked, cut and given back beside the central lists.
\<close>

section \<open>What others may do to the page heap\<close>

lemma central_with_now: "central_with F G W st Own \<Longrightarrow> central_with F G (store st) st Own"
  unfolding central_with_def by simp

lemma tagged_mono: "tagged F G h \<Longrightarrow> F' \<subseteq>\<^sub>m F \<Longrightarrow> G' \<subseteq> G \<Longrightarrow> tagged F' G' h"
  unfolding tagged_def map_le_def dom_def by (elim conjE) (intro conjI, blast, blast, force, blast, blast)

lemma outside_Sp [simp]: "outside (Sp a) t \<longleftrightarrow> sp_location t = IN_USE \<and> sp_sizeclass t = 0"
  by (auto simp: outside_def heads_def cheads_def)

lemma tagged_adopt:
  assumes "tagged F G h" "mem h (Sp a) = Some t" "sp_location t = IN_USE" "sp_sizeclass t = 0" "cached_as h (sp_start t) 0"
  shows "tagged (F(Sp a \<mapsto> t)) G h"
proof -
  have "Sp a \<notin> heads" "Sp a \<notin> cheads" by (auto simp: heads_def cheads_def)
  then show ?thesis using assms unfolding tagged_def outside_def by simp
qed

text \<open>A list element or the span of a class is not among the spans \<open>E\<close> outside the central lists.\<close>

lemma off_lists_outside:
  assumes "cinv L C T st" "mem (pheap st) p = Some t" "outside p t"
  shows "p \<notin> on_lists cheads L"
proof
  assume on: "p \<in> on_lists cheads L"
  have "p \<notin> cheads" using assms(3) by (simp add: outside_def)
  then obtain cl where cl: "cl \<in> classes" "p \<in> class_spans L cl" using on by (auto simp: on_lists_def class_spans_def cheads_def)
  obtain a u where "p = Sp a" "mem (pheap st) p = Some u" "sp_sizeclass u = cl"
    by (rule span_okE[OF cinvD(4)[OF assms(1) cl]]) (rule that)
  then show False using assms(2,3) cl(1) by (auto simp: outside_def)
qed

lemma cinv_swap:
  assumes "cinv L C T st" "heap_ok h'" "\<And>u. u \<in> on_lists cheads L \<Longrightarrow> mem h' u = mem (pheap st) u"
    "\<And>c q j. c \<in> classes \<Longrightarrow> q \<in> class_spans L c \<Longrightarrow> j \<in> {sstart (mem (pheap st)) q..<sstart (mem (pheap st)) q + npg c}
      \<Longrightarrow> GetDescriptor h' j = GetDescriptor (pheap st) j"
  shows "cinv L C T (st\<lparr>pheap := h'\<rparr>)" "owned L C T (st\<lparr>pheap := h'\<rparr>) = owned L C T st"
proof -
  note D = cinvD[OF assms(1)]
  have hl: "heap_lists h' L" by (rule heap_lists_frame[OF cinv_heap_lists[OF assms(1)] assms(2,3)])
  have ss: "sstart (mem h') q = sstart (mem (pheap st)) q" if "c \<in> classes" "q \<in> class_spans L c" for c q
    using assms(3)[OF class_span_on_lists[OF that]] by (simp add: sstart_def)
  have co: "class_objs (mem h') L c = class_objs (mem (pheap st)) L c" if "c \<in> classes" for c
    using ss[OF that] by (simp add: class_objs_def)
  have "span_ok (mem h') (GetDescriptor h') (store st) c q (C q)" if c: "c \<in> classes" "q \<in> class_spans L c" for c q
  proof (rule span_ok_cong[where m = "mem (pheap st)" and g = "GetDescriptor (pheap st)"])
    show "span_ok (mem (pheap st)) (GetDescriptor (pheap st)) (store st) c q (C q)" by (rule D(4)[OF c])
    show "mem h' q = mem (pheap st) q" by (rule assms(3)[OF class_span_on_lists[OF c]])
    show "GetDescriptor h' j = GetDescriptor (pheap st) j"
      if "j \<in> {sstart (mem (pheap st)) q..<sstart (mem (pheap st)) q + npg c}" for j
      using assms(4)[OF c that] .
  qed
  then show "cinv L C T (st\<lparr>pheap := h'\<rparr>)"
    using assms(1) hl unfolding cinv_def heap_lists_def by (simp add: co)
  show "owned L C T (st\<lparr>pheap := h'\<rparr>) = owned L C T st"
    using co by (auto simp: owned_def fun_eq_iff)
qed

lemma central_swap:
  assumes "central_with F G W st Own" "\<And>p t. p \<in> E \<Longrightarrow> mem (pheap st) p = Some t \<Longrightarrow> outside p t" "heap_ok h'"
    "\<And>u. idle (spans (pheap st)) u \<Longrightarrow> mem (pheap st) u \<noteq> None \<Longrightarrow> u \<notin> E \<Longrightarrow> mem h' u = mem (pheap st) u"
    "\<And>j. j \<in> used_pages (pheap st) \<Longrightarrow> (\<And>a t. Sp a \<in> E \<Longrightarrow> mem (pheap st) (Sp a) = Some t \<Longrightarrow> j \<notin> {sp_start t..<sp_start t + sp_length t})
      \<Longrightarrow> GetDescriptor h' j = GetDescriptor (pheap st) j"
    "tagged F' G' h'"
  shows "central_with F' G' (store st) (st\<lparr>pheap := h'\<rparr>) Own"
proof -
  let ?h = "pheap st"
  obtain L C T where I: "cinv L C T st" "Own = owned L C T st"
    using central_withD(1)[OF assms(1)] unfolding central_ok_def by blast
  have off: "u \<notin> E" if u: "u \<in> on_lists cheads L" for u
    using off_lists_outside[OF I(1), of u] assms(2)[of u] cinv_on_lists_idle[OF I(1) u] u by blast
  have m: "mem h' u = mem ?h u" if u: "u \<in> on_lists cheads L" for u
    using assms(4)[of u] off[OF u] cinv_on_lists_idle[OF I(1) u] by blast
  have g: "GetDescriptor h' j = GetDescriptor ?h j"
    if c: "c \<in> classes" "q \<in> class_spans L c" "j \<in> {sstart (mem ?h) q..<sstart (mem ?h) q + npg c}" for c q j
  proof (rule assms(5)[OF class_span_pages[OF I(1) c]])
    fix a t assume a: "Sp a \<in> E" "mem ?h (Sp a) = Some t"
    obtain b u where u: "q = Sp b" "mem ?h q = Some u" "sp_location u = IN_USE" "sp_length u = npg c" "sp_sizeclass u = c" "sstart (mem ?h) q = sp_start u"
      by (rule span_okE[OF cinvD(4)[OF I(1) c(1,2)]]) (rule that)
    have o: "sp_location t = IN_USE" "sp_sizeclass t = 0" using assms(2)[OF a] by (simp_all add: outside_def)
    show "j \<notin> {sp_start t..<sp_start t + sp_length t}"
    proof
      assume "j \<in> {sp_start t..<sp_start t + sp_length t}"
      then have "a = b" using same_page_span[OF cinvD(2)[OF I(1)] a(2) o(1) _ u(3), of b j] u c(3) by auto
      then show False using a(2) u o(2) c(1) by auto
    qed
  qed
  have K: "cinv L C T (st\<lparr>pheap := h'\<rparr>)" "owned L C T (st\<lparr>pheap := h'\<rparr>) = owned L C T st"
    by (rule cinv_swap[OF I(1) assms(3)]; use m g in blast)+
  have "central_ok (st\<lparr>pheap := h'\<rparr>) Own"
    unfolding central_ok_def by (rule exI[of _ L], rule exI[of _ C], rule exI[of _ T]) (use K I(2) in simp)
  then show ?thesis using assms(6) unfolding central_with_def by simp
qed

section \<open>Taking a span\<close>

definition fresh_span :: "nat \<Rightarrow> pageheap \<Rightarrow> nat \<Rightarrow> span \<Rightarrow> pageheap \<Rightarrow> bool" where
  "fresh_span n h a t h' \<longleftrightarrow> mem h' (Sp a) = Some t \<and> sp_length t = n \<and> sp_location t = IN_USE \<and> blank t \<and> detached (mem h') (Sp a)
     \<and> {sp_start t..<sp_start t + n} \<inter> used_pages h = {}"

lemma New_with:
  assumes "central_with F G W st Own" "memory_ready st" "0 < n"
  obtains r h' where "New env n (pheap st) = Some (r, h')" "central_with F G (store st) (st\<lparr>pheap := h'\<rparr>) Own"
    "\<And>p. r = Some p \<Longrightarrow> \<exists>a t. p = Sp a \<and> F p = None \<and> fresh_span n (pheap st) a t h'"
    "room (pheap st) \<le> room h' + 2" "trace_room (pheap st) \<le> trace_room h' + 1" "heap_ok h'"
    "unclassed h' \<subseteq> unclassed (pheap st) \<union> {a. r = Some (Sp a)}"
proof -
  let ?h = "pheap st"
  have rm: "2 \<le> room ?h" "0 < trace_room ?h" using assms(2) by (simp_all add: memory_ready_def)
  obtain L C T where I: "cinv L C T st" using central_withD(1)[OF assms(1)] unfolding central_ok_def by blast
  note hok = cinvD(2)[OF I] and tg = central_withD(2)[OF assms(1)]
  have H: "heap_at (cover (spans ?h)) ?h" using hok by (simp add: heap_ok_def)
  obtain r h' where N: "New env n ?h = Some (r, h')" "heap_ok h'" "\<And>p. r = Some p \<Longrightarrow> \<exists>a s. p = Sp a \<and> allocated ?h n a s h'"
    "r = None \<Longrightarrow> mem h' = mem ?h" "room ?h \<le> room h' + 2 \<and> trace_room ?h \<le> trace_room h' + 1" "pages_kept (spans ?h) ?h h'"
    by (rule New_ok[OF H assms(3) rm, of env]) (rule that)
  note T = New_tagged[OF hok assms(3) rm N(1) tg]
  have fr: "mem h' v = mem ?h v" if "idle (spans ?h) v" "mem ?h v \<noteq> None" for v
    using N(3,4) that by (cases r) (auto simp: allocated_def)
  show thesis
  proof (rule that[OF N(1)])
    show "central_with F G (store st) (st\<lparr>pheap := h'\<rparr>) Own"
      by (rule central_swap[OF assms(1) _ N(2) _ _ T(1), of "{}"]) (use fr N(6) in \<open>auto simp: pages_kept_def\<close>)
    show "\<exists>a t. p = Sp a \<and> F p = None \<and> fresh_span n ?h a t h'" if p: "r = Some p" for p
    proof -
      obtain a s where a: "p = Sp a" "allocated ?h n a s h'" using N(3)[OF p] by blast
      note A = a(2)[unfolded allocated_def]
      obtain t where t: "mem h' (Sp a) = Some t" "sp_start t = s" "sp_length t = n" "sp_location t = IN_USE"
        using A by (auto simp: desc_Some)
      have "F p = None"
      proof (rule ccontr)
        assume "F p \<noteq> None"
        then obtain u where u: "F p = Some u" by blast
        then show False using outside_idle[OF tg u] taggedD(3)[OF tg u] A a(1) by auto
      qed
      moreover have "blank t" by (rule T(2)[OF _ t(1)]) (use p a(1) in simp)
      ultimately show ?thesis using a(1) t A unfolding fresh_span_def by blast
    qed
    show "unclassed h' \<subseteq> unclassed ?h \<union> {a. r = Some (Sp a)}" by (rule New_unclassed[OF hok assms(3) rm N(1)])
  qed (use N(2,5) in simp_all)
qed

section \<open>The spans that are lent out\<close>

text \<open>
  \<open>F\<close> holds the descriptors of the large and sampled allocations and the head of the list of sampled
  ones, \<open>S\<close> that list, and \<open>G\<close> the stack traces of its elements.
\<close>

definition sampled_ok :: "span_mem \<Rightarrow> spanptr list \<Rightarrow> nat set \<Rightarrow> bool" where
  "sampled_ok F S G \<longleftrightarrow> dlls F {SampledObjects} (\<lambda>_. S) \<and> (\<forall>p. F p \<noteq> None \<longrightarrow> p = SampledObjects \<or> (\<exists>a. p = Sp a))
     \<and> (\<forall>a t. F (Sp a) = Some t \<longrightarrow> (sp_sample t \<longleftrightarrow> Sp a \<in> set S) \<and> (\<not> sp_sample t \<longrightarrow> detached F (Sp a))
          \<and> (sp_sample t \<longrightarrow> sp_objects t \<in> G))
     \<and> (\<forall>a b t u. F (Sp a) = Some t \<longrightarrow> F (Sp b) = Some u \<longrightarrow> sp_sample t \<longrightarrow> sp_sample u \<longrightarrow> sp_objects t = sp_objects u \<longrightarrow> a = b)"

definition lent :: "span_mem \<Rightarrow> spanptr list \<Rightarrow> nat set \<Rightarrow> central \<Rightarrow> (nat \<Rightarrow> nat set) \<Rightarrow> bool" where
  "lent F S G st Own \<longleftrightarrow> exactly F G (store st) st Own \<and> sampled_ok F S G"

lemma lentD:
  assumes "lent F S G st Own"
  shows "central_with F G (store st) st Own" "sampled_ok F S G" "unclassed (pheap st) \<subseteq> {a. F (Sp a) \<noteq> None}"
  using assms by (simp_all add: lent_def exactly_def)

lemma lentI: "central_with F G (store st) st Own \<Longrightarrow> sampled_ok F S G \<Longrightarrow> unclassed (pheap st) \<subseteq> {a. F (Sp a) \<noteq> None} \<Longrightarrow> lent F S G st Own"
  by (simp add: lent_def exactly_def)

lemma exactly_now: "exactly F G W st Own \<Longrightarrow> exactly F G (store st) st Own"
  unfolding exactly_def using central_with_now by blast

definition runs :: "span_mem \<Rightarrow> (nat \<times> nat) set" where
  "runs F = {(sp_start t * kPageSize, sp_length t * kPageSize) |a t. F (Sp a) = Some t}"

lemma sampled_okD:
  assumes "sampled_ok F S G"
  shows "dlls F {SampledObjects} (\<lambda>_. S)" "F p \<noteq> None \<Longrightarrow> p = SampledObjects \<or> (\<exists>a. p = Sp a)"
    "F (Sp a) = Some t \<Longrightarrow> sp_sample t \<longleftrightarrow> Sp a \<in> set S" "F (Sp a) = Some t \<Longrightarrow> \<not> sp_sample t \<Longrightarrow> detached F (Sp a)"
    "F (Sp a) = Some t \<Longrightarrow> sp_sample t \<Longrightarrow> sp_objects t \<in> G"
    "F (Sp a) = Some t \<Longrightarrow> F (Sp b) = Some u \<Longrightarrow> sp_sample t \<Longrightarrow> sp_sample u \<Longrightarrow> sp_objects t = sp_objects u \<Longrightarrow> a = b"
  using assms unfolding sampled_ok_def by blast+

lemma dlls_live:
  assumes "dlls F {SampledObjects} (\<lambda>_. S)" "u \<in> on_lists {SampledObjects} (\<lambda>_. S)"
  shows "F u \<noteq> None"
proof -
  have "path F SampledObjects S SampledObjects" using assms(1) by (simp add: dlls_def dll_def)
  moreover have "u \<in> insert SampledObjects (insert SampledObjects (set S))" using assms(2) by (auto simp: on_lists_def)
  ultimately show ?thesis by (rule path_live)
qed

lemma dlls_part:
  assumes "\<And>u. u \<in> on_lists {SampledObjects} (\<lambda>_. S) \<Longrightarrow> F u = F' u"
  shows "dlls F {SampledObjects} (\<lambda>_. S) = dlls F' {SampledObjects} (\<lambda>_. S)"
  by (rule dlls_cong) (simp add: nxt_def prv_def assms)

text \<open>Adding a span that is on no list, and dropping one.\<close>

lemma sampled_add:
  assumes "sampled_ok F S G" "F (Sp a) = None" "\<not> sp_sample t" "detached (F(Sp a \<mapsto> t)) (Sp a)"
  shows "sampled_ok (F(Sp a \<mapsto> t)) S G"
proof -
  note D = sampled_okD[OF assms(1)]
  have off: "Sp a \<notin> on_lists {SampledObjects} (\<lambda>_. S)" using dlls_live[OF D(1)] assms(2) by blast
  then have "dlls (F(Sp a \<mapsto> t)) {SampledObjects} (\<lambda>_. S)" using D(1) by (subst dlls_part[of S _ F]) auto
  moreover have "detached (F(Sp a \<mapsto> t)) (Sp b)" if "F (Sp b) = Some u" "\<not> sp_sample u" for b u
    using D(4)[OF that] that(1) assms(2) by (cases "b = a") (auto simp: detached_def nxt_def prv_def)
  ultimately show ?thesis
    using D(2,3,5,6) off assms(3,4) unfolding sampled_ok_def by (auto simp: on_lists_def)
qed

lemma sampled_drop:
  assumes "sampled_ok F S G" "Sp a \<notin> set S"
  shows "sampled_ok (F(Sp a := None)) S G"
proof -
  note D = sampled_okD[OF assms(1)]
  have "dlls (F(Sp a := None)) {SampledObjects} (\<lambda>_. S)"
    using D(1) assms(2) by (subst dlls_part[of S _ F]) (auto simp: on_lists_def)
  moreover have "detached (F(Sp a := None)) (Sp b)" if "F (Sp b) = Some u" "\<not> sp_sample u" "b \<noteq> a" for b u
    using D(4)[OF that(1,2)] that(3) by (auto simp: detached_def nxt_def prv_def)
  ultimately show ?thesis using D(2,3,5,6) unfolding sampled_ok_def by (auto split: if_splits)
qed

lemma tagged_readopt:
  assumes "tagged F G h" "\<And>p t. F' p = Some t \<Longrightarrow> mem h p = Some t \<and> outside p t \<and> (\<forall>a. p = Sp a \<longrightarrow> cached_as h (sp_start t) 0)"
  shows "tagged F' G h"
  using assms unfolding tagged_def by blast

text \<open>The result for a span: page zero of its run is cached as no class.\<close>

lemma SpanToMallocResult_ok:
  assumes "heap_ok h" "tagged F G h" "mem h (Sp a) = Some t" "sp_location t = IN_USE" "sp_sizeclass t = 0"
  obtains h' ca where "SpanToMallocResult (Sp a) h = Some (sp_start t * kPageSize, h')" "h' = h\<lparr>pagemap_cache := ca\<rparr>"
    "tagged F G h'" "cached_as h' (sp_start t) 0" "0 < sp_start t" "span_bytes (sp_start t) = sp_start t * kPageSize" "heap_ok h'"
    "\<And>j. j < 2 ^ 35 \<Longrightarrow> cached_as h j 0 \<Longrightarrow> cached_as h' j 0"
proof -
  note d = in_use_desc[OF assms(3,4)]
  have "0 < sp_length t" using span_start_used[OF assms(1) d] by blast
  then have "sp_start t \<in> cover (spans h)" by (intro coverI[of _ a "sp_start t" "sp_length t" IN_USE]) (simp_all add: d[unfolded IN_USE_def])
  note s = page_small[OF assms(1) this]
  obtain ca where ca: "CacheSizeClass (sp_start t) 0 h = Some (h\<lparr>pagemap_cache := ca\<rparr>)"
    using CacheSizeClass_defined[OF s(1), of 0] by auto
  let ?h = "h\<lparr>pagemap_cache := ca\<rparr>"
  have T: "tagged F G ?h" by (rule CacheSizeClass_tagged[OF assms(2,1) ca]) simp_all
  have g: "GetSizeClassIfCached ?h (sp_start t) = Some 0" by (rule CacheSizeClass_lookup(1)[OF ca s(1)]) simp
  have "sp_start t * kPageSize < two64" using s(1) by (simp add: two64_def)
  then have b: "span_bytes (sp_start t) = sp_start t * kPageSize" by (simp add: span_bytes_def)
  have "CheckedMallocResult (sp_start t * kPageSize) ?h = Some (sp_start t * kPageSize)"
    using g by (simp add: CheckedMallocResult_def CheckCachedSizeClass_def)
  then have "SpanToMallocResult (Sp a) h = Some (sp_start t * kPageSize, ?h)"
    using assms(3) ca b by (simp add: SpanToMallocResult_def)
  moreover have "heap_ok ?h" using assms(1) by (simp add: heap_ok_def heap_at_def)
  moreover have "cached_as ?h j 0" if "j < 2 ^ 35" "cached_as h j 0" for j
    using CacheSizeClass_lookup[OF ca that(1)] that(2) by (cases "j = sp_start t") (auto simp: cached_as_def)
  ultimately show thesis using that[of ?h ca] T g s(2) b by (simp add: cached_as_def)
qed

lemma runs_cong:
  assumes "\<And>a. map_option (\<lambda>t. (sp_start t, sp_length t)) (F' (Sp a)) = map_option (\<lambda>t. (sp_start t, sp_length t)) (F (Sp a))"
  shows "runs F' = runs F"
proof -
  have "(\<exists>t. F (Sp a) = Some t \<and> sp_start t = s \<and> sp_length t = l) \<longleftrightarrow> map_option (\<lambda>t. (sp_start t, sp_length t)) (F (Sp a)) = Some (s, l)" for F :: span_mem and a s l
    by (cases "F (Sp a)") auto
  then have "runs F = {(s * kPageSize, l * kPageSize) |s l. \<exists>a. map_option (\<lambda>t. (sp_start t, sp_length t)) (F (Sp a)) = Some (s, l)}" for F
    unfolding runs_def by blast
  then show ?thesis by (simp only: assms)
qed

lemma runs_add: "F (Sp a) = None \<Longrightarrow> runs (F(Sp a \<mapsto> t)) = insert (sp_start t * kPageSize, sp_length t * kPageSize) (runs F)"
  unfolding runs_def by (auto split: if_splits) (metis option.distinct(1))

lemma adopt_span:
  assumes "central_with F G W st Own" "sampled_ok F S G" "mem (pheap st) (Sp a) = Some t" "sp_location t = IN_USE" "blank t"
    "detached (mem (pheap st)) (Sp a)" "F (Sp a) = None" "unclassed (pheap st) \<subseteq> insert a {a. F (Sp a) \<noteq> None}"
  obtains h' where "SpanToMallocResult (Sp a) (pheap st) = Some (sp_start t * kPageSize, h')"
    "lent (F(Sp a \<mapsto> t)) S G (st\<lparr>pheap := h'\<rparr>) Own" "0 < sp_start t" "mem h' = mem (pheap st)"
proof -
  have hok: "heap_ok (pheap st)" using central_withD(1)[OF assms(1)] cinvD(2) unfolding central_ok_def by blast
  note T = central_withD(2)[OF assms(1)]
  have c: "sp_sizeclass t = 0" "\<not> sp_sample t" using assms(5) by (simp_all add: blank_def)
  obtain h' ca where h': "SpanToMallocResult (Sp a) (pheap st) = Some (sp_start t * kPageSize, h')" "h' = (pheap st)\<lparr>pagemap_cache := ca\<rparr>"
    "tagged F G h'" "cached_as h' (sp_start t) 0" "0 < sp_start t" "heap_ok h'"
    by (rule SpanToMallocResult_ok[OF hok T assms(3,4) c(1)]) (rule that)
  have m: "mem h' (Sp a) = Some t" using assms(3) h'(2) by simp
  have g: "GetDescriptor h' = GetDescriptor (pheap st)" by (rule GetDescriptor_cong) (simp add: h'(2))
  have "central_with (F(Sp a \<mapsto> t)) G (store st) (st\<lparr>pheap := h'\<rparr>) Own"
  proof (rule central_swap[OF assms(1) _ h'(6), of "{}"])
    show "tagged (F(Sp a \<mapsto> t)) G h'" by (rule tagged_adopt[OF h'(3) m assms(4) c(1) h'(4)])
  qed (use h'(2) g in simp_all)
  moreover have "sampled_ok (F(Sp a \<mapsto> t)) S G"
    using assms(3,6) by (intro sampled_add[OF assms(2,7) c(2)]) (simp add: detached_def nxt_def prv_def)
  moreover have mm: "mem h' = mem (pheap st)" by (simp add: h'(2))
  moreover have "unclassed (pheap (st\<lparr>pheap := h'\<rparr>)) \<subseteq> {b. (F(Sp a \<mapsto> t)) (Sp b) \<noteq> None}"
    using assms(8) unclassed_cong[OF mm] by auto
  ultimately show thesis by (intro that[OF h'(1) _ h'(5)] lentI) simp_all
qed

text \<open>A span that is sampled: its trace, its mark and its place on the list.\<close>

lemma dlls_one: "dlls m {l} L = dlls m {l} (\<lambda>_. L l)"
  by (simp add: dlls_def)

lemma trace_pool:
  assumes "heap_ok h" "0 < trace_room h"
  obtains p al where "pha_New sizeof_StackTrace (stacktrace_allocator h) = Some (p, al)" "p \<notin> dom (traces h)"
    "\<And>tr. heap_ok (h\<lparr>stacktrace_allocator := al, traces := (traces h)(p \<mapsto> tr)\<rparr>)"
proof -
  obtain P L where I: "hinv {} P h L" "cover (spans h) = P" using assms(1) unfolding heap_ok_def heap_at_def by blast
  note H = hinv_parts[OF I(1)]
  obtain p al where p: "pha_New sizeof_StackTrace (stacktrace_allocator h) = Some (p, al)" "p \<notin> dom (traces h)"
    "pool sizeof_StackTrace (insert p (dom (traces h))) al"
    using pha.new_ok[OF H(9) assms(2)] by metis
  have "hinv {} P (h\<lparr>stacktrace_allocator := al, traces := (traces h)(p \<mapsto> tr)\<rparr>) L" for tr
    using H p(3) by (simp add: hinv_def Let_def)
  then have "heap_ok (h\<lparr>stacktrace_allocator := al, traces := (traces h)(p \<mapsto> tr)\<rparr>)" for tr
    using I(2) unfolding heap_ok_def heap_at_def by auto
  then show thesis using that[OF p(1,2)] by blast
qed

lemma trace_dropped:
  assumes "heap_ok h" "p \<in> dom (traces h)"
  shows "heap_ok (h\<lparr>stacktrace_allocator := pha_Delete p (stacktrace_allocator h), traces := (traces h)(p := None)\<rparr>)"
proof -
  obtain P L where I: "hinv {} P h L" "cover (spans h) = P" using assms(1) unfolding heap_ok_def heap_at_def by blast
  note H = hinv_parts[OF I(1)]
  have "pool sizeof_StackTrace (dom (traces h) - {p}) (pha_Delete p (stacktrace_allocator h))" using pha_Delete_pool[OF H(9) assms(2)] by blast
  moreover have "dom ((traces h)(p := None)) = dom (traces h) - {p}" by auto
  ultimately have "hinv {} P (h\<lparr>stacktrace_allocator := pha_Delete p (stacktrace_allocator h), traces := (traces h)(p := None)\<rparr>) L"
    using H by (simp add: hinv_def Let_def)
  then show ?thesis using I(2) unfolding heap_ok_def heap_at_def by auto
qed

lemma tagged_trace:
  assumes "tagged F G h"
  shows "tagged F (insert p G) (h\<lparr>stacktrace_allocator := al, traces := (traces h)(p \<mapsto> tr)\<rparr>)"
  using assms cached_as_cong[of "h\<lparr>stacktrace_allocator := al, traces := (traces h)(p \<mapsto> tr)\<rparr>" h] unfolding tagged_def by auto

lemma outside_shape:
  assumes "shape m' = shape m" "m p = Some u" "m' p = Some t" "outside p u"
  shows "outside p t"
proof -
  obtain t' where "m' p = Some t'" "sp_location t' = sp_location u" "sp_sizeclass t' = sp_sizeclass u" by (rule shape_fields[OF assms(1,2)])
  then show ?thesis using assms(3,4) by (simp add: outside_def)
qed

text \<open>
  A list operation that may touch the listed spans and \<open>Sp a\<close>, from \<open>m\<close> to \<open>m'\<close>: what becomes of the
  other spans.
\<close>

definition relisted :: "span_mem \<Rightarrow> nat \<Rightarrow> span_mem \<Rightarrow> span_mem" where
  "relisted F a m' = (\<lambda>u. if F u \<noteq> None \<and> u \<noteq> Sp a then m' u else None)"

definition kin :: "span \<Rightarrow> span \<Rightarrow> bool" where
  "kin t v \<longleftrightarrow> core t = core v \<and> sp_objects t = sp_objects v"

lemma kinD: "kin t v \<Longrightarrow> sp_start t = sp_start v \<and> sp_length t = sp_length v \<and> sp_location t = sp_location v \<and> sp_sizeclass t = sp_sizeclass v
    \<and> sp_sample t = sp_sample v \<and> sp_objects t = sp_objects v"
  by (simp add: kin_def core_def)

lemma kin_shape: "shape m' = shape m \<Longrightarrow> m u = Some v \<Longrightarrow> m' u = Some t \<Longrightarrow> kin t v"
  by (erule (1) shape_fields) (simp add: kin_def core_def)

definition list_step :: "span_mem \<Rightarrow> spanptr list \<Rightarrow> nat set \<Rightarrow> nat \<Rightarrow> span_mem \<Rightarrow> span_mem \<Rightarrow> bool" where
  "list_step F S G a m m' \<longleftrightarrow> sampled_ok F S G \<and> shape m' = shape m \<and> (\<forall>u. F u \<noteq> None \<longrightarrow> u \<noteq> Sp a \<longrightarrow> m u = F u)
     \<and> (\<forall>u. u \<notin> insert (Sp a) (on_lists {SampledObjects} (\<lambda>_. S)) \<longrightarrow> m' u = m u)"

lemma list_stepD:
  assumes "list_step F S G a m m'"
  shows "sampled_ok F S G" "shape m' = shape m" "F u \<noteq> None \<Longrightarrow> u \<noteq> Sp a \<Longrightarrow> m u = F u"
    "u \<notin> insert (Sp a) (on_lists {SampledObjects} (\<lambda>_. S)) \<Longrightarrow> m' u = m u"
  using assms unfolding list_step_def by blast+

lemma relisted_source:
  assumes step: "list_step F S G a m m'" and "relisted F a m' u = Some t"
  obtains v where "F u = Some v" "u \<noteq> Sp a" "m u = Some v" "m' u = Some t" "kin t v"
proof -
  have u: "F u \<noteq> None" "u \<noteq> Sp a" "m' u = Some t" using assms(2) by (auto simp: relisted_def split: if_splits)
  then obtain v where v: "F u = Some v" by blast
  then have "m u = Some v" using list_stepD(3)[OF step u(1,2)] by simp
  then show thesis using v u kin_shape[OF list_stepD(2)[OF step] _ u(3)] by (intro that)
qed

lemma relisted_live: "list_step F S G a m m' \<Longrightarrow> F u \<noteq> None \<Longrightarrow> u \<noteq> Sp a \<Longrightarrow> relisted F a m' u = m' u \<and> m' u \<noteq> None"
  using list_stepD(3)[of F S G a m m' u] shape_live[OF list_stepD(2), of F S G a m m' u] by (simp add: relisted_def)

lemma relisted_detached:
  assumes step: "list_step F S G a m m'" and "relisted F a m' (Sp b) = Some t" "\<not> sp_sample t"
  shows "detached (relisted F a m') (Sp b)"
proof -
  obtain v where v: "F (Sp b) = Some v" "Sp b \<noteq> Sp a" "m (Sp b) = Some v" "m' (Sp b) = Some t" "kin t v"
    by (rule relisted_source[OF assms(1,2)]) (rule that)
  have ns: "\<not> sp_sample v" using kinD[OF v(5)] assms(3) by simp
  have dt: "detached F (Sp b)" by (rule sampled_okD(4)[OF list_stepD(1)[OF step] v(1) ns])
  have "Sp b \<notin> set S" using sampled_okD(3)[OF list_stepD(1)[OF step] v(1)] ns by blast
  then have "m' (Sp b) = m (Sp b)" using v(2) by (intro list_stepD(4)[OF step]) (auto simp: on_lists_def)
  then show ?thesis using dt v(1,3) assms(2) v(4) by (simp add: detached_def nxt_def prv_def)
qed

lemma relisted_runs: "list_step F S G a m m' \<Longrightarrow> b \<noteq> a \<Longrightarrow> map_option (\<lambda>t. (sp_start t, sp_length t)) (relisted F a m' (Sp b)) = map_option (\<lambda>t. (sp_start t, sp_length t)) (F (Sp b))"
proof (cases "F (Sp b)")
  case (Some v)
  assume step: "list_step F S G a m m'" and "b \<noteq> a"
  then have r: "relisted F a m' (Sp b) = m' (Sp b)" "m' (Sp b) \<noteq> None" using relisted_live[OF step, of "Sp b"] Some by simp_all
  then obtain t where t: "relisted F a m' (Sp b) = Some t" by auto
  obtain w where "F (Sp b) = Some w" "kin t w" by (rule relisted_source[OF step t]) (rule that)
  then show ?thesis using t kinD by auto
qed (simp add: relisted_def)

lemma relisted_tagged:
  assumes step: "list_step F S G a m m'" and "tagged F G1 h" "heap_ok h" "mem h = m" "tagged Map.empty G' h'" "\<And>j. j < 2 ^ 35 \<Longrightarrow> cached_as h j 0 \<Longrightarrow> cached_as h' j 0"
    "\<And>u. u \<noteq> Sp a \<Longrightarrow> mem h' u = m' u"
  shows "tagged (relisted F a m') G' h'"
proof (rule tagged_readopt[OF assms(5)])
  fix u t assume u: "relisted F a m' u = Some t"
  obtain v where v: "F u = Some v" "u \<noteq> Sp a" "m u = Some v" "m' u = Some t" "kin t v"
    by (rule relisted_source[OF step u]) (rule that)
  have o: "outside u v" by (rule taggedD(4)[OF assms(2) v(1)])
  then have "outside u t" using kinD[OF v(5)] by (simp add: outside_def)
  moreover have "cached_as h' (sp_start t) 0" if b: "u = Sp b" for b
  proof (rule assms(6))
    show "cached_as h (sp_start t) 0" using taggedD(5)[OF assms(2)] v(1) b kinD[OF v(5)] by metis
    have d: "spans h b = Some (sp_start v, sp_length v, IN_USE)" using o v(3) b assms(4) in_use_desc[of h b v] by simp
    note e = span_start_used[OF assms(3) d]
    have "sp_start v \<in> cover (spans h)" by (rule coverI[of _ b "sp_start v" "sp_length v" IN_USE]) (use d e in simp_all)
    then show "sp_start t < 2 ^ 35" using page_small(1)[OF assms(3)] kinD[OF v(5)] by simp
  qed
  moreover have "mem h' u = Some t" using assms(7)[OF v(2)] v(4) by simp
  ultimately show "mem h' u = Some t \<and> outside u t \<and> (\<forall>b. u = Sp b \<longrightarrow> cached_as h' (sp_start t) 0)" by blast
qed

lemma sample_span:
  assumes "central_with F G W st Own" "sampled_ok F S G" "mem (pheap st) (Sp a) = Some t" "sp_location t = IN_USE" "sp_sizeclass t = 0"
    "detached (mem (pheap st)) (Sp a)" "F (Sp a) = None" "0 < trace_room (pheap st)"
    "unclassed (pheap st) \<subseteq> insert a {a. F (Sp a) \<noteq> None}"
  obtains p al h' F' where "pha_New sizeof_StackTrace (stacktrace_allocator (pheap st)) = Some (p, al)"
    "do { h \<leftarrow> modify (Sp a) (\<lambda>s. s\<lparr>sp_sample := True\<rparr>) ((pheap st)\<lparr>stacktrace_allocator := al, traces := (traces (pheap st))(p \<mapsto> tr)\<rparr>);
          h \<leftarrow> modify (Sp a) (\<lambda>s. s\<lparr>sp_objects := p\<rparr>) h;
          h \<leftarrow> on_lists_of (DLL_Prepend SampledObjects (Sp a)) h;
          SpanToMallocResult (Sp a) h } = Some (sp_start t * kPageSize, h')"
    "lent F' (Sp a # S) (insert p G) (st\<lparr>pheap := h'\<rparr>) Own" "runs F' = insert (sp_start t * kPageSize, sp_length t * kPageSize) (runs F)"
    "0 < sp_start t"
proof -
  let ?h = "pheap st"
  have hok: "heap_ok ?h" using central_withD(1)[OF assms(1)] cinvD(2) unfolding central_ok_def by blast
  note T = central_withD(2)[OF assms(1)] and D = sampled_okD[OF assms(2)]
  have live: "u \<in> on_lists {SampledObjects} (\<lambda>_. S) \<Longrightarrow> F u \<noteq> None" for u by (rule dlls_live[OF D(1)])
  obtain p al where p: "pha_New sizeof_StackTrace (stacktrace_allocator ?h) = Some (p, al)" "p \<notin> dom (traces ?h)"
    "heap_ok (?h\<lparr>stacktrace_allocator := al, traces := (traces ?h)(p \<mapsto> tr)\<rparr>)"
    by (rule trace_pool[OF hok assms(8)]) (rule that)
  define h1 where "h1 = ?h\<lparr>stacktrace_allocator := al, traces := (traces ?h)(p \<mapsto> tr)\<rparr>"
  have pG: "p \<notin> G" using p(2) taggedD(6)[OF T] by blast
  define t1 where "t1 = t\<lparr>sp_sample := True\<rparr>\<lparr>sp_objects := p\<rparr>"
  have t1: "sp_start t1 = sp_start t" "sp_length t1 = sp_length t" "sp_location t1 = IN_USE" "sp_sizeclass t1 = 0" "sp_sample t1" "sp_objects t1 = p"
    "sp_next t1 = sp_next t" "sp_prev t1 = sp_prev t"
    using assms(4,5) by (simp_all add: t1_def)
  have h1: "mem h1 = mem ?h" "pagemap_cache h1 = pagemap_cache ?h" "GetDescriptor h1 = GetDescriptor ?h" "heap_ok h1"
    using p(3) by (simp_all add: h1_def GetDescriptor_def fun_eq_iff)
  have T1: "tagged F (insert p G) h1" unfolding h1_def by (rule tagged_trace[OF T])
  have m1: "mem h1 (Sp a) = Some t" using assms(3) h1(1) by simp
  define h2 where "h2 = h1\<lparr>mem := (mem h1)(Sp a \<mapsto> t1)\<rparr>"
  have mod: "modify (Sp a) (\<lambda>s. s\<lparr>sp_sample := True\<rparr>) h1 = Some (h1\<lparr>mem := (mem h1)(Sp a \<mapsto> t\<lparr>sp_sample := True\<rparr>)\<rparr>)"
    "modify (Sp a) (\<lambda>s. s\<lparr>sp_objects := p\<rparr>) (h1\<lparr>mem := (mem h1)(Sp a \<mapsto> t\<lparr>sp_sample := True\<rparr>)\<rparr>) = Some h2"
    using m1 by (simp_all add: modify_def upd_def h2_def t1_def)
  have h2: "heap_ok h2" "spans h2 = spans h1" "GetDescriptor h2 = GetDescriptor h1"
    using modify_frame(2-4)[OF h1(4) m1 assms(4), of "\<lambda>_. t1"] t1(1-3) assms(4) unfolding h2_def by simp_all
  have T2: "tagged F (insert p G) h2"
    by (rule tagged_upd[OF T1 assms(7), of h2 t1]) (use t1 in \<open>simp_all add: h2_def\<close>)
  have mF: "mem h2 u = F u" if "F u \<noteq> None" "u \<noteq> Sp a" for u using that taggedD(3)[OF T2, of u] by fastforce
  have off: "Sp a \<notin> on_lists {SampledObjects} (\<lambda>_. S)" using live assms(7) by blast
  then have d2: "dlls (mem h2) {SampledObjects} (\<lambda>_. S)" using D(1) live mF by (subst dlls_part[of S _ F]) blast+
  have l2: "detached (mem h2) (Sp a)" using assms(3,6) t1(7,8) by (simp add: h2_def detached_def nxt_def prv_def)
  obtain m3 where m3: "DLL_Prepend SampledObjects (Sp a) (mem h2) = Some m3" "dlls m3 {SampledObjects} (\<lambda>_. Sp a # S)" "shape m3 = shape (mem h2)"
    "\<forall>u. u \<notin> insert (Sp a) (on_lists {SampledObjects} (\<lambda>_. S)) \<longrightarrow> m3 u = mem h2 u"
    using span_lists.prepend_law[OF d2 _ l2 off, of SampledObjects] dlls_one[of _ SampledObjects "(\<lambda>_. S)(SampledObjects := Sp a # S)"] by auto
  define h3 where "h3 = h2\<lparr>mem := m3\<rparr>"
  have id2: "idle (spans h2) u" if "u \<in> insert (Sp a) (on_lists {SampledObjects} (\<lambda>_. S))" for u
  proof (cases "u = Sp a")
    case True
    then show ?thesis using t1(3) by (auto simp: idle_def desc_def h2_def heads_def)
  next
    case False
    then have "F u \<noteq> None" using that live by blast
    then show ?thesis using outside_idle[OF T2] by blast
  qed
  have h3: "heap_ok h3" "spans h3 = spans h2" "GetDescriptor h3 = GetDescriptor h2"
    unfolding h3_def by (rule shape_frame[OF h2(1) m3(3) m3(4)[rule_format] id2]; assumption)+
  have T3: "tagged Map.empty (insert p G) h3"
  proof (rule tagged_gentle)
    show "tagged Map.empty (insert p G) h2" by (rule tagged_mono[OF T2]) simp_all
    show "gentle (insert (Sp a) (on_lists {SampledObjects} (\<lambda>_. S))) h2 h3"
      unfolding h3_def by (rule gentle_shape[OF m3(3) m3(4)[rule_format]])
  qed simp
  obtain t3 where t3: "m3 (Sp a) = Some t3" "sp_start t3 = sp_start t" "sp_length t3 = sp_length t" "sp_location t3 = IN_USE" "sp_sizeclass t3 = 0"
    "sp_sample t3" "sp_objects t3 = p"
    using shape_fields[OF m3(3), of "Sp a" t1] t1 by (auto simp: h2_def)
  obtain h4 ca where h4: "SpanToMallocResult (Sp a) h3 = Some (sp_start t3 * kPageSize, h4)" "h4 = h3\<lparr>pagemap_cache := ca\<rparr>"
    "tagged Map.empty (insert p G) h4" "cached_as h4 (sp_start t3) 0" "0 < sp_start t3" "heap_ok h4" "\<And>j. j < 2 ^ 35 \<Longrightarrow> cached_as h3 j 0 \<Longrightarrow> cached_as h4 j 0"
    by (rule SpanToMallocResult_ok[OF h3(1) T3 _ t3(4,5)]) (use t3(1) in \<open>simp add: h3_def\<close>, rule that)
  define F1 where "F1 = relisted F a m3"
  define F' where "F' = F1(Sp a \<mapsto> t3)"
  have off': "m3 u = mem h2 u" if "u \<notin> insert (Sp a) (on_lists {SampledObjects} (\<lambda>_. S))" for u using m3(4) that by blast
  have R: "list_step F S G a (mem h2) m3" unfolding list_step_def using assms(2) m3(3) mF off' by blast
  have src: "\<exists>v. F u = Some v \<and> u \<noteq> Sp a \<and> kin t v" if "F1 u = Some t" for u t
    by (rule relisted_source[OF R that[unfolded F1_def]]) blast
  have c24: "cached_as h4 j 0" if "j < 2 ^ 35" "cached_as h2 j 0" for j
    using h4(7)[OF that(1)] that(2) cached_as_cong[of h3 h2] by (simp add: h3_def)
  have T4: "tagged F1 (insert p G) h4"
    unfolding F1_def by (rule relisted_tagged[OF R T2 h2(1) refl h4(3) c24]) (simp_all add: h4(2) h3_def)
  have T5: "tagged F' (insert p G) h4"
    unfolding F'_def by (rule tagged_adopt[OF T4 _ t3(4,5) h4(4)]) (simp add: h4(2) h3_def t3(1))
  have "central_with F' (insert p G) (store st) (st\<lparr>pheap := h4\<rparr>) Own"
  proof (rule central_swap[OF assms(1) _ h4(6) _ _ T5, of "insert (Sp a) (dom F)"])
    show "outside u v" if "u \<in> insert (Sp a) (dom F)" "mem ?h u = Some v" for u v
      using that assms(3-5) taggedD(3,4)[OF T, of u] by (cases "u = Sp a") auto
    show "mem h4 u = mem ?h u" if "u \<notin> insert (Sp a) (dom F)" for u
      using that m3(4)[rule_format, of u] live[of u] by (auto simp: h4(2) h3_def h2_def h1(1))
    have "GetDescriptor h4 = GetDescriptor h3" by (rule GetDescriptor_cong) (simp add: h4(2))
    then show "GetDescriptor h4 j = GetDescriptor ?h j" for j using h3(3) h2(3) h1(3) by simp
  qed
  moreover have "sampled_ok F' (Sp a # S) (insert p G)"
    unfolding sampled_ok_def
  proof (intro conjI allI impI)
    have "F' u = m3 u" if "u \<in> on_lists {SampledObjects} (\<lambda>_. Sp a # S)" for u
      using that live[of u] relisted_live[OF R, of u] t3(1) by (auto simp: F'_def F1_def on_lists_def)
    then show "dlls F' {SampledObjects} (\<lambda>_. Sp a # S)" using m3(2) by (subst dlls_part[of _ _ m3])
    show "u = SampledObjects \<or> (\<exists>a. u = Sp a)" if "F' u \<noteq> None" for u
      using that D(2)[of u] src[of u] by (auto simp: F'_def split: if_splits)
    have cs: "b = a \<and> u = t3 \<or> b \<noteq> a \<and> (\<exists>v. F (Sp b) = Some v \<and> sp_sample u = sp_sample v \<and> sp_objects u = sp_objects v)"
      if "F' (Sp b) = Some u" for b u
      using that src[of "Sp b" u] kinD[of u] by (cases "b = a") (auto simp: F'_def)
    fix b u assume u: "F' (Sp b) = Some u"
    note cb = cs[OF u]
    show "sp_sample u = (Sp b \<in> set (Sp a # S))" using cb t3(6) D(3)[of b] by auto
    show "detached F' (Sp b)" if "\<not> sp_sample u"
    proof -
      have b: "b \<noteq> a" "F1 (Sp b) = Some u" using u cb t3(6) \<open>\<not> sp_sample u\<close> by (auto simp: F'_def split: if_splits)
      have "detached F1 (Sp b)" unfolding F1_def by (rule relisted_detached[OF R b(2)[unfolded F1_def] that])
      then show ?thesis using b(1) by (simp add: detached_def nxt_def prv_def F'_def)
    qed
    show "sp_objects u \<in> insert p G" if "sp_sample u" using cb t3(7) D(5)[of b] that by auto
    fix c w assume w: "F' (Sp c) = Some w" "sp_sample u" "sp_sample w" "sp_objects u = sp_objects w"
    show "b = c" using cb cs[OF w(1)] w(2-4) t3(7) D(5)[of b] D(5)[of c] D(6)[of b _ c] pG by auto
  qed
  moreover have "runs F' = runs (F(Sp a \<mapsto> t))"
  proof (rule runs_cong)
    show "map_option (\<lambda>t. (sp_start t, sp_length t)) (F' (Sp b)) = map_option (\<lambda>t. (sp_start t, sp_length t)) ((F(Sp a \<mapsto> t)) (Sp b))" for b
      using relisted_runs[OF R, of b] t3(2,3) by (cases "b = a") (simp_all add: F'_def F1_def)
  qed
  moreover have "unclassed (pheap (st\<lparr>pheap := h4\<rparr>)) \<subseteq> {b. F' (Sp b) \<noteq> None}"
  proof
    fix b assume b: "b \<in> unclassed (pheap (st\<lparr>pheap := h4\<rparr>))"
    have "mem h4 = m3" by (simp add: h4(2) h3_def)
    then obtain u where u: "m3 (Sp b) = Some u" "sp_location u = IN_USE" "sp_sizeclass u = 0" using b unfolding unclassed_def by auto
    show "b \<in> {b. F' (Sp b) \<noteq> None}"
    proof (cases "b = a")
      case False
      have "mem h2 (Sp b) \<noteq> None" using shape_live[OF m3(3), of "Sp b"] u(1) by simp
      then obtain v where v: "mem h2 (Sp b) = Some v" by blast
      have "kin u v" by (rule kin_shape[OF m3(3) v u(1)])
      then have "mem ?h (Sp b) = Some v" "sp_location v = IN_USE" "sp_sizeclass v = 0"
        using v u(2,3) False h1(1) kinD[of u v] by (simp_all add: h2_def)
      then have "b \<in> unclassed ?h" by (rule unclassedI)
      then have "F (Sp b) \<noteq> None" using assms(9) False by blast
      then show ?thesis using relisted_live[OF R, of "Sp b"] False by (simp add: F'_def F1_def)
    qed (simp add: F'_def)
  qed
  ultimately show thesis
    using that[OF p(1), of h4 F'] mod m3(1) h4(1,5) t3(2) runs_add[of F a t] assms(7)
    by (simp add: h1_def h3_def on_lists_of_def lentI)
qed

section \<open>Large and sampled allocations\<close>

lemma start_page: "0 < s \<Longrightarrow> s * kPageSize \<noteq> 0 \<and> s * kPageSize mod kPageSize = 0 \<and> s * kPageSize div kPageSize = s"
  by simp

text \<open>The result \<open>r\<close> is null and nothing is lent, or a block of \<open>n\<close> pages on pages that were not in use.\<close>

definition lends :: "env \<Rightarrow> central \<Rightarrow> span_mem \<Rightarrow> nat \<Rightarrow> nat \<Rightarrow> span_mem \<Rightarrow> bool" where
  "lends env st F n r F' \<longleftrightarrow> (if r = 0 then runs F' = runs F \<and> (\<exists>h. New env n (pheap st) = Some (None, h))
     else runs F' = insert (r, n * kPageSize) (runs F) \<and> r mod kPageSize = 0 \<and> r div kPageSize \<notin> used_pages (pheap st))"

lemma lends_fresh:
  assumes "fresh_span n h a t h'" "0 < n" "0 < sp_start t" "runs F' = insert (sp_start t * kPageSize, sp_length t * kPageSize) (runs F)" "pheap st = h"
  shows "lends env st F n (sp_start t * kPageSize) F'"
proof -
  note f = assms(1)[unfolded fresh_span_def]
  have "sp_start t \<in> {sp_start t..<sp_start t + n}" using assms(2) by simp
  then have "sp_start t \<notin> used_pages h" using f by blast
  then show ?thesis using f assms(3-5) start_page[OF assms(3)] by (simp add: lends_def)
qed

lemma New_lent:
  assumes "lent F S G st Own" "memory_ready st" "0 < n"
  obtains r h' F' where "do { (sp, h) \<leftarrow> New env n (pheap st); case sp of None \<Rightarrow> Some (0, h) | Some p \<Rightarrow> SpanToMallocResult p h } = Some (r, h')"
    "lent F' S G (st\<lparr>pheap := h'\<rparr>) Own" "lends env st F n r F'"
proof -
  have I: "central_with F G (store st) st Own" "sampled_ok F S G" "unclassed (pheap st) \<subseteq> {a. F (Sp a) \<noteq> None}" using lentD[OF assms(1)] by blast+
  obtain x h where N: "New env n (pheap st) = Some (x, h)" "central_with F G (store st) (st\<lparr>pheap := h\<rparr>) Own"
    "\<And>p. x = Some p \<Longrightarrow> \<exists>a t. p = Sp a \<and> F p = None \<and> fresh_span n (pheap st) a t h"
    "unclassed h \<subseteq> unclassed (pheap st) \<union> {a. x = Some (Sp a)}"
    by (rule New_with[OF I(1) assms(2,3), of env]) (rule that)
  show thesis
  proof (cases x)
    case None
    then have "unclassed (pheap (st\<lparr>pheap := h\<rparr>)) \<subseteq> {a. F (Sp a) \<noteq> None}" using N(4) I(3) by auto
    then show thesis using None N(1,2) I(2) by (intro that[of 0 h F] lentI) (simp_all add: lends_def)
  next
    case (Some p)
    then obtain a t where a: "p = Sp a" "F (Sp a) = None" "fresh_span n (pheap st) a t h" using N(3) by blast
    note f = a(3)[unfolded fresh_span_def]
    have f': "mem (pheap (st\<lparr>pheap := h\<rparr>)) (Sp a) = Some t" "sp_location t = IN_USE" "blank t" "detached (mem (pheap (st\<lparr>pheap := h\<rparr>))) (Sp a)" using f by simp_all
    have un: "unclassed (pheap (st\<lparr>pheap := h\<rparr>)) \<subseteq> insert a {a. F (Sp a) \<noteq> None}" using N(4) I(3) Some a(1) by auto
    obtain h' where h': "SpanToMallocResult (Sp a) (pheap (st\<lparr>pheap := h\<rparr>)) = Some (sp_start t * kPageSize, h')"
      "lent (F(Sp a \<mapsto> t)) S G (st\<lparr>pheap := h\<rparr>\<lparr>pheap := h'\<rparr>) Own" "0 < sp_start t"
      by (rule adopt_span[OF N(2) I(2) f' a(2) un]) (rule that)
    show thesis
    proof (rule that)
      show "do { (sp, h) \<leftarrow> New env n (pheap st); case sp of None \<Rightarrow> Some (0, h) | Some p \<Rightarrow> SpanToMallocResult p h } = Some (sp_start t * kPageSize, h')"
        using N(1) Some a(1) h'(1) by simp
      show "lent (F(Sp a \<mapsto> t)) S G (st\<lparr>pheap := h'\<rparr>) Own" using h'(2) by simp
      show "lends env st F n (sp_start t * kPageSize) (F(Sp a \<mapsto> t))"
        by (rule lends_fresh[OF a(3) assms(3) h'(3) _ refl]) (rule runs_add, rule a(2))
    qed
  qed
qed

lemma DoSampledAllocation_lent:
  assumes "lent F S G st Own" "memory_ready st" "2 \<le> trace_room (pheap st)" "0 < pages (if sz = 0 then 1 else sz)"
  obtains r h' F' S' G' where "DoSampledAllocation env sz (pheap st) = Some (r, h')"
    "lent F' S' G' (st\<lparr>pheap := h'\<rparr>) Own" "lends env st F (pages (if sz = 0 then 1 else sz)) r F'"
proof -
  let ?n = "pages (if sz = 0 then 1 else sz)"
  have I: "central_with F G (store st) st Own" "sampled_ok F S G" "unclassed (pheap st) \<subseteq> {a. F (Sp a) \<noteq> None}" using lentD[OF assms(1)] by blast+
  obtain x h where N: "New env ?n (pheap st) = Some (x, h)" "central_with F G (store st) (st\<lparr>pheap := h\<rparr>) Own"
    "\<And>p. x = Some p \<Longrightarrow> \<exists>a t. p = Sp a \<and> F p = None \<and> fresh_span ?n (pheap st) a t h" "trace_room (pheap st) \<le> trace_room h + 1"
    "unclassed h \<subseteq> unclassed (pheap st) \<union> {a. x = Some (Sp a)}"
    by (rule New_with[OF I(1) assms(2,4), of env]) (rule that)
  show thesis
  proof (cases x)
    case None
    then have "unclassed (pheap (st\<lparr>pheap := h\<rparr>)) \<subseteq> {a. F (Sp a) \<noteq> None}" using N(5) I(3) by auto
    then show thesis using None N(1,2) I(2) by (intro that[of 0 h F S G] lentI) (simp_all add: lends_def DoSampledAllocation_def Let_def)
  next
    case (Some p)
    then obtain a t where a: "p = Sp a" "F (Sp a) = None" "fresh_span ?n (pheap st) a t h" using N(3) by blast
    note f = a(3)[unfolded fresh_span_def]
    define pcs where "pcs = take kMaxStackDepth (stack_pcs env)"
    define tr where "tr = \<lparr>st_size = sz, st_depth = length pcs, st_stack = pcs, st_link = (if length pcs = kMaxStackDepth then last pcs else 0)\<rparr>"
    have f': "mem (pheap (st\<lparr>pheap := h\<rparr>)) (Sp a) = Some t" "sp_location t = IN_USE" "sp_sizeclass t = 0" "detached (mem (pheap (st\<lparr>pheap := h\<rparr>))) (Sp a)"
      using f by (simp_all add: blank_def)
    have un: "unclassed (pheap (st\<lparr>pheap := h\<rparr>)) \<subseteq> insert a {a. F (Sp a) \<noteq> None}" using N(5) I(3) Some a(1) by auto
    have tr0: "0 < trace_room (pheap (st\<lparr>pheap := h\<rparr>))" using N(4) assms(3) by simp
    obtain q al h' F' where h': "pha_New sizeof_StackTrace (stacktrace_allocator (pheap (st\<lparr>pheap := h\<rparr>))) = Some (q, al)"
      "do { h \<leftarrow> modify (Sp a) (\<lambda>s. s\<lparr>sp_sample := True\<rparr>) ((pheap (st\<lparr>pheap := h\<rparr>))\<lparr>stacktrace_allocator := al, traces := (traces (pheap (st\<lparr>pheap := h\<rparr>)))(q \<mapsto> tr)\<rparr>);
          h \<leftarrow> modify (Sp a) (\<lambda>s. s\<lparr>sp_objects := q\<rparr>) h;
          h \<leftarrow> on_lists_of (DLL_Prepend SampledObjects (Sp a)) h;
          SpanToMallocResult (Sp a) h } = Some (sp_start t * kPageSize, h')"
      "lent F' (Sp a # S) (insert q G) (st\<lparr>pheap := h\<rparr>\<lparr>pheap := h'\<rparr>) Own"
      "runs F' = insert (sp_start t * kPageSize, sp_length t * kPageSize) (runs F)" "0 < sp_start t"
      by (rule sample_span[OF N(2) I(2) f' a(2) tr0 un, of tr]) (rule that)
    have "DoSampledAllocation env sz (pheap st) = Some (sp_start t * kPageSize, h')"
      using N(1) Some a(1) h'(1,2) unfolding DoSampledAllocation_def Let_def pcs_def[symmetric] tr_def[symmetric] by simp
    moreover have "lent F' (Sp a # S) (insert q G) (st\<lparr>pheap := h'\<rparr>) Own" using h'(3) by simp
    moreover have "lends env st F ?n (sp_start t * kPageSize) F'" by (rule lends_fresh[OF a(3) assms(4) h'(5,4) refl])
    ultimately show thesis by (rule that)
  qed
qed

section \<open>Giving a span back\<close>

lemma Delete_with:
  assumes "central_with F G W st Own" "mem (pheap st) (Sp a) = Some t" "sp_location t = IN_USE" "sp_sizeclass t = 0"
    "detached (mem (pheap st)) (Sp a)" "F (Sp a) = None"
  obtains h' where "Delete env (Sp a) (pheap st) = Some h'" "central_with F G (store st) (st\<lparr>pheap := h'\<rparr>) Own"
    "room h' = room (pheap st)" "trace_room h' = trace_room (pheap st)"
    "\<And>v. idle (spans (pheap st)) v \<Longrightarrow> v \<noteq> Sp a \<Longrightarrow> mem h' v = mem (pheap st) v"
    "unclassed h' \<subseteq> unclassed (pheap st) - {a}"
proof -
  let ?h = "pheap st"
  have hok: "heap_ok ?h" using central_withD(1)[OF assms(1)] cinvD(2) unfolding central_ok_def by blast
  then have H: "heap_at (cover (spans ?h)) ?h" by (simp add: heap_ok_def)
  note d = in_use_desc[OF assms(2,3)]
  obtain h' where D: "Delete env (Sp a) ?h = Some h'" "heap_at (cover (spans ?h)) h'"
    "\<forall>v. idle (spans ?h) v \<longrightarrow> v \<noteq> Sp a \<longrightarrow> idle (spans h') v \<and> mem h' v = mem ?h v"
    "kept h' = kept ?h" "room h' = room ?h" "pages_kept ((spans ?h)(a := None)) ?h h'"
    by (rule Delete_spec[OF H d assms(5), of env]) (rule that)
  have hok': "heap_ok h'" by (rule heap_at_ok[OF D(2)])
  have T: "tagged F G h'" by (rule Delete_tagged[OF hok d assms(5) D(1) central_withD(2)[OF assms(1)] assms(6)])
  have "central_with F G (store st) (st\<lparr>pheap := h'\<rparr>) Own"
  proof (rule central_swap[OF assms(1) _ hok' _ _ T, of "{Sp a}"])
    show "GetDescriptor h' j = GetDescriptor ?h j"
      if "j \<in> used_pages ?h" "\<And>b u. Sp b \<in> {Sp a} \<Longrightarrow> mem ?h (Sp b) = Some u \<Longrightarrow> j \<notin> {sp_start u..<sp_start u + sp_length u}" for j
    proof -
      note j = that(1)
      have "j \<notin> {sp_start t..<sp_start t + sp_length t}" using that(2)[of a t] assms(2) by simp
      moreover obtain b s l where b: "spans ?h b = Some (s, l, IN_USE)" "s \<le> j" "j < s + l" using j unfolding pages_of_def by blast
      ultimately have "b \<noteq> a" using d by auto
      then have "((spans ?h)(a := None)) b = Some (s, l, IN_USE)" using b(1) by simp
      then have "j \<in> pages_of IN_USE ((spans ?h)(a := None))" using b(2,3) unfolding pages_of_def by blast
      then show ?thesis using D(6) by (simp add: pages_kept_def)
    qed
  qed (use assms(2-4) D(3) in auto)
  moreover have "trace_room h' = trace_room ?h" using D(4) by (simp add: kept_def)
  ultimately show thesis using that[OF D(1)] D(3,5) Delete_unclassed[OF hok d assms(5) D(1)] by blast
qed

text \<open>The runs determine the spans.\<close>

lemma run_unique:
  assumes "central_with F G W st Own" "F (Sp a) = Some t" "F (Sp b) = Some u" "sp_start t = sp_start u"
  shows "a = b"
proof -
  have hok: "heap_ok (pheap st)" using central_withD(1)[OF assms(1)] cinvD(2) unfolding central_ok_def by blast
  note T = taggedD(3,4)[OF central_withD(2)[OF assms(1)]]
  have l: "mem (pheap st) (Sp a) = Some t" "sp_location t = IN_USE" "mem (pheap st) (Sp b) = Some u" "sp_location u = IN_USE"
    using T[OF assms(2)] T[OF assms(3)] by simp_all
  have "0 < sp_length t" "0 < sp_length u"
    using span_start_used[OF hok in_use_desc[OF l(1,2)]] span_start_used[OF hok in_use_desc[OF l(3,4)]] by simp_all
  then show ?thesis using same_page_span[OF hok l, of "sp_start t"] assms(4) by simp
qed

lemma runs_drop:
  assumes "central_with F G W st Own" "F (Sp a) = Some t"
  shows "runs (F(Sp a := None)) = runs F - {(sp_start t * kPageSize, sp_length t * kPageSize)}"
proof -
  let ?F = "F(Sp a := None)" and ?r = "(sp_start t * kPageSize, sp_length t * kPageSize)"
  have "?F(Sp a \<mapsto> t) = F" using assms(2) by auto
  then have "runs F = insert ?r (runs ?F)" using runs_add[of ?F a t] by simp
  moreover have "?r \<notin> runs ?F"
  proof
    assume "?r \<in> runs ?F"
    then obtain b u where u: "?F (Sp b) = Some u" "sp_start t * kPageSize = sp_start u * kPageSize" unfolding runs_def by blast
    have "b \<noteq> a" "F (Sp b) = Some u" "sp_start u = sp_start t" using u by (simp_all split: if_splits)
    then show False using run_unique[OF assms(1) _ assms(2), of b u] by blast
  qed
  ultimately show ?thesis by blast
qed

text \<open>Taking a span off the list of sampled ones, with its trace, when it is sampled.\<close>

lemma unsample:
  assumes "lent F S G st Own" "F (Sp a) = Some t"
  obtains h1 F1 S1 G1 t1 where
    "(if sp_sample t then do {
        let st' = sp_objects t;
        h \<leftarrow> on_lists_of (DLL_Remove (Sp a)) (pheap st);
        let h = h\<lparr>stacktrace_allocator := pha_Delete st' (stacktrace_allocator h), traces := (traces h)(st' := None)\<rparr>;
        modify (Sp a) (\<lambda>s. s\<lparr>sp_objects := 0\<rparr>) h } else Some (pheap st)) = Some h1"
    "central_with F1 G1 (store st) (st\<lparr>pheap := h1\<rparr>) Own" "sampled_ok F1 S1 G1" "F1 (Sp a) = None" "mem h1 (Sp a) = Some t1"
    "sp_location t1 = IN_USE" "sp_sizeclass t1 = 0" "detached (mem h1) (Sp a)"
    "runs F1 = runs F - {(sp_start t * kPageSize, sp_length t * kPageSize)}" "unclassed h1 \<subseteq> insert a {a. F1 (Sp a) \<noteq> None}"
proof -
  let ?h = "pheap st"
  have I: "central_with F G (store st) st Own" "sampled_ok F S G" "unclassed (pheap st) \<subseteq> {a. F (Sp a) \<noteq> None}" using lentD[OF assms(1)] by blast+
  have hok: "heap_ok ?h" using central_withD(1)[OF I(1)] cinvD(2) unfolding central_ok_def by blast
  note T = central_withD(2)[OF I(1)] and D = sampled_okD[OF I(2)]
  have ta: "mem ?h (Sp a) = Some t" "sp_location t = IN_USE" "sp_sizeclass t = 0" using taggedD(3,4)[OF T assms(2)] by simp_all
  show thesis
  proof (cases "sp_sample t")
    case False
    have off: "Sp a \<notin> set S" using D(3)[OF assms(2)] False by blast
    have "tagged (F(Sp a := None)) G ?h" by (rule tagged_mono[OF T]) (simp_all add: map_le_def)
    then have "central_with (F(Sp a := None)) G (store st) st Own"
      using central_withD(1)[OF I(1)] unfolding central_with_def by blast
    moreover have "detached (mem ?h) (Sp a)" using D(4)[OF assms(2) False] assms(2) ta(1) by (simp add: detached_def nxt_def prv_def)
    moreover have "unclassed ?h \<subseteq> insert a {b. (F(Sp a := None)) (Sp b) \<noteq> None}" using I(3) by auto
    ultimately show thesis
      using False ta runs_drop[OF I(1) assms(2)] sampled_drop[OF I(2) off] by (intro that[of ?h "F(Sp a := None)" G S t]) simp_all
  next
    case True
    let ?p = "sp_objects t"
    have live: "u \<in> on_lists {SampledObjects} (\<lambda>_. S) \<Longrightarrow> F u \<noteq> None" for u by (rule dlls_live[OF D(1)])
    have mF: "mem ?h u = F u" if "F u \<noteq> None" for u using that taggedD(3)[OF T, of u] by fastforce
    have d: "dlls (mem ?h) {SampledObjects} (\<lambda>_. S)" using D(1) live mF by (subst dlls_part[of S _ F]) blast+
    have on: "Sp a \<in> set S" using D(3)[OF assms(2)] True by blast
    have dist: "distinct S" using d by (simp add: dlls_def dll_def)
    obtain m1 where m1: "DLL_Remove (Sp a) (mem ?h) = Some m1" "dlls m1 {SampledObjects} (\<lambda>_. remove1 (Sp a) S)" "shape m1 = shape (mem ?h)"
      "detached m1 (Sp a)" "\<forall>u. u \<notin> on_lists {SampledObjects} (\<lambda>_. S) \<longrightarrow> m1 u = mem ?h u"
      using span_lists.remove_law[OF d _ on] dlls_one[of _ SampledObjects "(\<lambda>_. S)(SampledObjects := remove1 (Sp a) S)"] by auto
    define h1 where "h1 = ?h\<lparr>mem := m1\<rparr>"
    have idl: "idle (spans ?h) u" if "u \<in> on_lists {SampledObjects} (\<lambda>_. S)" for u using live[OF that] outside_idle[OF T] by blast
    have h1: "heap_ok h1" "GetDescriptor h1 = GetDescriptor ?h"
      unfolding h1_def by (rule shape_frame[OF hok m1(3) m1(5)[rule_format] idl]; assumption)+
    have T1: "tagged Map.empty G h1"
    proof (rule tagged_gentle)
      show "tagged Map.empty G ?h" by (rule tagged_mono[OF T]) simp_all
      show "gentle (on_lists {SampledObjects} (\<lambda>_. S)) ?h h1" unfolding h1_def by (rule gentle_shape[OF m1(3) m1(5)[rule_format]])
    qed simp
    obtain t1 where t1: "m1 (Sp a) = Some t1" "sp_start t1 = sp_start t" "sp_length t1 = sp_length t" "sp_location t1 = IN_USE" "sp_sizeclass t1 = 0"
      using shape_fields[OF m1(3) ta(1)] ta(2,3) by metis
    define h2 where "h2 = h1\<lparr>stacktrace_allocator := pha_Delete ?p (stacktrace_allocator h1), traces := (traces h1)(?p := None)\<rparr>"
    have pG: "?p \<in> G" using D(5)[OF assms(2) True] .
    have "?p \<in> dom (traces h1)" using pG taggedD(6)[OF T1] by blast
    then have h2: "heap_ok h2" unfolding h2_def by (rule trace_dropped[OF h1(1)])
    have T2: "tagged Map.empty (G - {?p}) h2"
      using T1 cached_as_cong[of h2 h1] unfolding tagged_def by (auto simp: h2_def)
    define t2 where "t2 = t1\<lparr>sp_objects := 0\<rparr>"
    have t2: "sp_start t2 = sp_start t" "sp_length t2 = sp_length t" "sp_location t2 = IN_USE" "sp_sizeclass t2 = 0" "sp_next t2 = sp_next t1" "sp_prev t2 = sp_prev t1"
      using t1 by (simp_all add: t2_def)
    define h3 where "h3 = h2\<lparr>mem := (mem h2)(Sp a \<mapsto> t2)\<rparr>"
    have m2: "mem h2 (Sp a) = Some t1" using t1(1) by (simp add: h2_def h1_def)
    have mod: "modify (Sp a) (\<lambda>s. s\<lparr>sp_objects := 0\<rparr>) h2 = Some h3" using m2 by (simp add: modify_def upd_def h3_def t2_def)
    have h3: "heap_ok h3" "GetDescriptor h3 = GetDescriptor h2"
      using modify_frame(2,4)[OF h2 m2 t1(4), of "\<lambda>_. t2"] t2(1-3) t1(2-4) unfolding h3_def by simp_all
    have T3: "tagged Map.empty (G - {?p}) h3"
      by (rule tagged_upd[OF T2, where a = a and t = t2]) (use t2 in \<open>simp_all add: h3_def\<close>)
    define F1 where "F1 = relisted F a m1"
    have R: "list_step F S G a (mem ?h) m1" unfolding list_step_def using I(2) m1(3,5) mF by blast
    have src: "\<exists>v. F u = Some v \<and> u \<noteq> Sp a \<and> kin t v" if "F1 u = Some t" for u t
      by (rule relisted_source[OF R that[unfolded F1_def]]) blast
    have cc: "cached_as h3 = cached_as ?h" by (rule cached_as_cong) (simp add: h3_def h2_def h1_def)
    have T4: "tagged F1 (G - {?p}) h3"
      unfolding F1_def by (rule relisted_tagged[OF R T hok refl T3]) (simp_all add: cc, simp add: h3_def h2_def h1_def)
    have "central_with F1 (G - {?p}) (store st) (st\<lparr>pheap := h3\<rparr>) Own"
    proof (rule central_swap[OF I(1) _ h3(1) _ _ T4, of "dom F"])
      show "outside u v" if "u \<in> dom F" "mem ?h u = Some v" for u v
        using that taggedD(3,4)[OF T, of u] by auto
      show "mem h3 u = mem ?h u" if "u \<notin> dom F" for u
        using that m1(5)[rule_format, of u] live[of u] assms(2) by (auto simp: h3_def h2_def h1_def)
      have "GetDescriptor h2 = GetDescriptor h1" by (rule GetDescriptor_cong) (simp add: h2_def)
      then show "GetDescriptor h3 j = GetDescriptor ?h j" for j using h3(2) h1(2) by simp
    qed
    moreover have "sampled_ok F1 (remove1 (Sp a) S) (G - {?p})"
      unfolding sampled_ok_def
    proof (intro conjI allI impI)
      have "F1 u = m1 u" if "u \<in> on_lists {SampledObjects} (\<lambda>_. remove1 (Sp a) S)" for u
        using that live[of u] relisted_live[OF R, of u] dist by (auto simp: F1_def on_lists_def)
      then show "dlls F1 {SampledObjects} (\<lambda>_. remove1 (Sp a) S)" using m1(2) by (subst dlls_part[of _ _ m1])
      show "u = SampledObjects \<or> (\<exists>a. u = Sp a)" if "F1 u \<noteq> None" for u using that D(2)[of u] src[of u] by auto
      have cs: "b \<noteq> a \<and> (\<exists>v. F (Sp b) = Some v \<and> sp_sample u = sp_sample v \<and> sp_objects u = sp_objects v)" if "F1 (Sp b) = Some u" for b u
        using src[OF that] kinD[of u] by auto
      fix b u assume u: "F1 (Sp b) = Some u"
      note cb = cs[OF u]
      show "sp_sample u = (Sp b \<in> set (remove1 (Sp a) S))" using cb D(3)[of b] dist by auto
      show "detached F1 (Sp b)" if "\<not> sp_sample u" unfolding F1_def by (rule relisted_detached[OF R u[unfolded F1_def] that])
      show "sp_objects u \<in> G - {?p}" if "sp_sample u" using cb D(5)[of b] D(6)[OF _ assms(2), of b] True that by auto
      fix c w assume w: "F1 (Sp c) = Some w" "sp_sample u" "sp_sample w" "sp_objects u = sp_objects w"
      show "b = c" using cb cs[OF w(1)] w(2-4) D(6)[of b _ c] by auto
    qed
    moreover have "runs F1 = runs (F(Sp a := None))"
    proof (rule runs_cong)
      show "map_option (\<lambda>t. (sp_start t, sp_length t)) (F1 (Sp b)) = map_option (\<lambda>t. (sp_start t, sp_length t)) ((F(Sp a := None)) (Sp b))" for b
        using relisted_runs[OF R, of b] by (cases "b = a") (simp_all add: F1_def relisted_def)
    qed
    moreover have "detached (mem h3) (Sp a)" using m1(4) t1(1) t2(5,6) by (simp add: h3_def detached_def nxt_def prv_def)
    moreover have "F1 (Sp a) = None" by (simp add: F1_def relisted_def)
    moreover have "unclassed h3 \<subseteq> insert a {b. F1 (Sp b) \<noteq> None}"
    proof
      fix b assume b: "b \<in> unclassed h3"
      show "b \<in> insert a {b. F1 (Sp b) \<noteq> None}"
      proof (cases "b = a")
        case False
        then obtain u where u: "m1 (Sp b) = Some u" "sp_location u = IN_USE" "sp_sizeclass u = 0"
          using b unfolding unclassed_def by (auto simp: h3_def h2_def h1_def)
        have "mem ?h (Sp b) \<noteq> None" using shape_live[OF m1(3), of "Sp b"] u(1) by simp
        then obtain v where v: "mem ?h (Sp b) = Some v" by blast
        have "kin u v" by (rule kin_shape[OF m1(3) v u(1)])
        then have "b \<in> unclassed ?h" using kinD[of u v] u(2,3) by (intro unclassedI[OF v]) simp_all
        then have "F (Sp b) \<noteq> None" using I(3) by blast
        then show ?thesis using relisted_live[OF R, of "Sp b"] False by (simp add: F1_def)
      qed simp
    qed
    ultimately show thesis
      using that[of h3 F1 "G - {?p}" "remove1 (Sp a) S" t2] True m1(1) mod t2 runs_drop[OF I(1) assms(2)]
      by (simp add: on_lists_of_def Let_def h1_def[symmetric] h2_def[symmetric]) (simp add: h3_def)
  qed
qed

lemma give_back:
  assumes "lent F S G st Own" "F (Sp a) = Some t"
  obtains h' F1 S1 G1 where
    "do {
       h \<leftarrow> (if sp_sample t then do {
           let st' = sp_objects t;
           h \<leftarrow> on_lists_of (DLL_Remove (Sp a)) (pheap st);
           let h = h\<lparr>stacktrace_allocator := pha_Delete st' (stacktrace_allocator h), traces := (traces h)(st' := None)\<rparr>;
           modify (Sp a) (\<lambda>s. s\<lparr>sp_objects := 0\<rparr>) h } else Some (pheap st));
       Delete env (Sp a) h } = Some h'"
    "lent F1 S1 G1 (st\<lparr>pheap := h'\<rparr>) Own" "runs F1 = runs F - {(sp_start t * kPageSize, sp_length t * kPageSize)}"
proof -
  obtain h1 F1 S1 G1 t1 where U: "(if sp_sample t then do {
        let st' = sp_objects t;
        h \<leftarrow> on_lists_of (DLL_Remove (Sp a)) (pheap st);
        let h = h\<lparr>stacktrace_allocator := pha_Delete st' (stacktrace_allocator h), traces := (traces h)(st' := None)\<rparr>;
        modify (Sp a) (\<lambda>s. s\<lparr>sp_objects := 0\<rparr>) h } else Some (pheap st)) = Some h1"
    "central_with F1 G1 (store st) (st\<lparr>pheap := h1\<rparr>) Own" "sampled_ok F1 S1 G1" "F1 (Sp a) = None" "mem h1 (Sp a) = Some t1"
    "sp_location t1 = IN_USE" "sp_sizeclass t1 = 0" "detached (mem h1) (Sp a)"
    "runs F1 = runs F - {(sp_start t * kPageSize, sp_length t * kPageSize)}" "unclassed h1 \<subseteq> insert a {a. F1 (Sp a) \<noteq> None}"
    by (rule unsample[OF assms]) (rule that)
  have m: "mem (pheap (st\<lparr>pheap := h1\<rparr>)) (Sp a) = Some t1" "detached (mem (pheap (st\<lparr>pheap := h1\<rparr>))) (Sp a)" using U(5,8) by simp_all
  obtain h' where D: "Delete env (Sp a) (pheap (st\<lparr>pheap := h1\<rparr>)) = Some h'" "central_with F1 G1 (store (st\<lparr>pheap := h1\<rparr>)) (st\<lparr>pheap := h1\<rparr>\<lparr>pheap := h'\<rparr>) Own"
    "unclassed h' \<subseteq> unclassed (pheap (st\<lparr>pheap := h1\<rparr>)) - {a}"
    by (rule Delete_with[OF U(2) m(1) U(6,7) m(2) U(4)]) (rule that)
  have "unclassed h' \<subseteq> {a. F1 (Sp a) \<noteq> None}" using D(3) U(10) by auto
  then have "lent F1 S1 G1 (st\<lparr>pheap := h'\<rparr>) Own" using D(2) U(3) by (intro lentI) simp_all
  then show thesis
    by (intro that[of h' F1 S1 G1]) (unfold U(1), use D(1) U(9) in simp_all)
qed

section \<open>Cutting a span\<close>

lemma tagged_new_span:
  assumes "tagged F G h" "mem h' = (mem h)(Sp b \<mapsto> u)" "mem h (Sp b) = None" "blank u" "pagemap_cache h' = pagemap_cache h" "traces h' = traces h"
  shows "tagged F G h'"
proof -
  note T = taggedD[OF assms(1)]
  show ?thesis
    unfolding tagged_def assms(2,6) cached_as_cong[OF assms(5)]
  proof (intro conjI allI impI)
    show "((mem h)(Sp b \<mapsto> u)) p = Some t" if "F p = Some t" for p t using T(3)[OF that] assms(3) by auto
    show "blank t" if "((mem h)(Sp b \<mapsto> u)) (Sp c) = Some t" "sp_location t \<noteq> IN_USE" for c t
      using that T(1)[of c t] assms(4) by (auto split: if_splits)
    show "cached_as h j (sp_sizeclass t)" if "((mem h)(Sp b \<mapsto> u)) (Sp c) = Some t" "sp_location t = IN_USE" "sp_sizeclass t \<noteq> 0"
      "j \<in> {sp_start t..<sp_start t + sp_length t}" for c t j
      using that T(2)[of c t j] assms(4) by (cases "c = b") (auto simp: blank_def)
    show "\<not> sp_sample t" if "((mem h)(Sp b \<mapsto> u)) (Sp c) = Some t" "sp_sizeclass t \<noteq> 0" for c t
      using that T(7)[of c t] assms(4) by (auto simp: blank_def split: if_splits)
  qed (use T(4-6) in auto)
qed

text \<open>Both parts are spans in nobody's hands.\<close>

definition spare_span :: "span_mem \<Rightarrow> central \<Rightarrow> nat \<Rightarrow> span \<Rightarrow> bool" where
  "spare_span F st a t \<longleftrightarrow> mem (pheap st) (Sp a) = Some t \<and> sp_location t = IN_USE \<and> blank t \<and> detached (mem (pheap st)) (Sp a) \<and> F (Sp a) = None"

lemma spare_spanD: "spare_span F st a t \<Longrightarrow> mem (pheap st) (Sp a) = Some t \<and> sp_location t = IN_USE \<and> sp_sizeclass t = 0 \<and> \<not> sp_sample t
    \<and> blank t \<and> detached (mem (pheap st)) (Sp a) \<and> F (Sp a) = None"
  by (simp add: spare_span_def blank_def)

lemma Split_with:
  assumes "central_with F G W st Own" "spare_span F st a t" "0 < n" "n < sp_length t" "0 < room (pheap st)"
  obtains b h' where "Split (Sp a) n (pheap st) = Some (Sp b, h')" "central_with F G (store st) (st\<lparr>pheap := h'\<rparr>) Own" "b \<noteq> a"
    "spare_span F (st\<lparr>pheap := h'\<rparr>) a (t\<lparr>sp_length := n\<rparr>)"
    "spare_span F (st\<lparr>pheap := h'\<rparr>) b (zero_span\<lparr>sp_start := sp_start t + n, sp_length := sp_length t - n\<rparr>)"
    "room (pheap st) \<le> room h' + 1" "unclassed h' \<subseteq> insert b (unclassed (pheap st))"
proof -
  let ?h = "pheap st" and ?u = "zero_span\<lparr>sp_start := sp_start t + n, sp_length := sp_length t - n\<rparr>" and ?t = "t\<lparr>sp_length := n\<rparr>"
  have hok: "heap_ok ?h" using central_withD(1)[OF assms(1)] cinvD(2) unfolding central_ok_def by blast
  then have H: "heap_at (cover (spans ?h)) ?h" by (simp add: heap_ok_def)
  have s: "mem ?h (Sp a) = Some t" "sp_location t = IN_USE" "sp_sizeclass t = 0" "\<not> sp_sample t" "detached (mem ?h) (Sp a)" "F (Sp a) = None"
    using spare_spanD[OF assms(2)] by simp_all
  obtain b h' where B: "Split (Sp a) n ?h = Some (Sp b, h')" "heap_at (cover (spans ?h)) h'" "mem ?h (Sp b) = None"
    "mem h' = (mem ?h)(Sp a \<mapsto> ?t, Sp b \<mapsto> ?u)" "rest h' = rest ?h"
    "room ?h \<le> room h' + 1" "\<forall>j. j \<notin> {sp_start t..<sp_start t + sp_length t} \<longrightarrow> GetDescriptor h' j = GetDescriptor ?h j"
    by (rule Split_ok[OF H s(1-3) assms(3-5)]) (rule that)
  have ba: "b \<noteq> a" using B(3) s(1) by auto
  have hok': "heap_ok h'" by (rule heap_at_ok[OF B(2)])
  note T = central_withD(2)[OF assms(1)]
  have Fb: "F (Sp b) = None" using taggedD(3)[OF T, of "Sp b"] B(3) by (cases "F (Sp b)") auto
  have r: "pagemap_cache h' = pagemap_cache ?h" "traces h' = traces ?h" using B(5) by (simp_all add: rest_def)
  let ?h1 = "?h\<lparr>mem := (mem ?h)(Sp a \<mapsto> ?t)\<rparr>"
  have "tagged F G ?h1" by (rule tagged_upd[OF T s(6), of _ ?t]) (use s in simp_all)
  then have T': "tagged F G h'"
    by (rule tagged_new_span[of F G ?h1 h' b ?u]) (use B(3,4) ba r in \<open>simp_all add: blank_def zero_span_def\<close>)
  have "central_with F G (store st) (st\<lparr>pheap := h'\<rparr>) Own"
  proof (rule central_swap[OF assms(1) _ hok' _ _ T', of "{Sp a}"])
    show "mem h' u = mem ?h u" if "mem ?h u \<noteq> None" "u \<notin> {Sp a}" for u using that B(3,4) by auto
    show "GetDescriptor h' j = GetDescriptor ?h j"
      if "\<And>b u. Sp b \<in> {Sp a} \<Longrightarrow> mem ?h (Sp b) = Some u \<Longrightarrow> j \<notin> {sp_start u..<sp_start u + sp_length u}" for j
      using that[of a t] s(1) B(7) by simp
  qed (use s in auto)
  moreover have "spare_span F (st\<lparr>pheap := h'\<rparr>) a ?t"
    using s B(4) ba by (simp add: spare_span_def detached_def nxt_def prv_def blank_def)
  moreover have "spare_span F (st\<lparr>pheap := h'\<rparr>) b ?u"
    using B(4) ba Fb by (simp add: spare_span_def detached_def nxt_def prv_def blank_def zero_span_def)
  moreover have "unclassed h' \<subseteq> insert b (unclassed ?h)"
    using s(1-3) unfolding unclassed_def B(4) by auto
  ultimately show thesis using that[OF B(1) _ ba] B(6) by blast
qed

lemma spare_span_Delete:
  assumes "central_with F G W st Own" "spare_span F st a t" "spare_span F st b u" "b \<noteq> a"
  obtains h' where "Delete env (Sp a) (pheap st) = Some h'" "central_with F G (store st) (st\<lparr>pheap := h'\<rparr>) Own" "room h' = room (pheap st)"
    "spare_span F (st\<lparr>pheap := h'\<rparr>) b u" "unclassed h' \<subseteq> unclassed (pheap st) - {a}"
proof -
  note s = spare_spanD[OF assms(2)] and s' = spare_spanD[OF assms(3)]
  obtain h' where h': "Delete env (Sp a) (pheap st) = Some h'" "central_with F G (store st) (st\<lparr>pheap := h'\<rparr>) Own" "room h' = room (pheap st)"
    "\<And>v. idle (spans (pheap st)) v \<Longrightarrow> v \<noteq> Sp a \<Longrightarrow> mem h' v = mem (pheap st) v" "unclassed h' \<subseteq> unclassed (pheap st) - {a}"
    by (rule Delete_with[of F G W st Own a t env]) (use assms(1) s in auto)
  have "idle (spans (pheap st)) (Sp b)" using s' by (auto simp: idle_def desc_def)
  then have "mem h' (Sp b) = mem (pheap st) (Sp b)" using h'(4) assms(4) by simp
  then have "spare_span F (st\<lparr>pheap := h'\<rparr>) b u" using assms(3) conjunct1[OF s'] by (simp add: spare_span_def detached_def nxt_def prv_def)
  then show thesis using h'(5) by (rule that[OF h'(1-3)])
qed

text \<open>The first \<open>skip\<close> pages of a span are given back, or what is above \<open>n\<close> pages.\<close>

lemma trim_front:
  assumes "central_with F G (store st) st Own" "spare_span F st a t" "skip < sp_length t" "0 < room (pheap st)"
  obtains c u h' where "(if skip > 0 then do { (rest, h) \<leftarrow> Split (Sp a) skip (pheap st); h \<leftarrow> Delete env (Sp a) h; Some (rest, h) }
      else Some (Sp a, pheap st)) = Some (Sp c, h')"
    "central_with F G (store st) (st\<lparr>pheap := h'\<rparr>) Own" "spare_span F (st\<lparr>pheap := h'\<rparr>) c u" "sp_start u = sp_start t + skip"
    "sp_length u = sp_length t - skip" "room (pheap st) \<le> room h' + 1"
    "unclassed h' \<subseteq> insert c (unclassed (pheap st) - {a})"
proof (cases "skip = 0")
  case True
  then show thesis using assms(1,2) by (intro that[of a "pheap st" t]) auto
next
  case False
  let ?u = "zero_span\<lparr>sp_start := sp_start t + skip, sp_length := sp_length t - skip\<rparr>"
  have s0: "0 < skip" using False by simp
  obtain b h1 where S: "Split (Sp a) skip (pheap st) = Some (Sp b, h1)" "central_with F G (store st) (st\<lparr>pheap := h1\<rparr>) Own" "b \<noteq> a"
    "spare_span F (st\<lparr>pheap := h1\<rparr>) a (t\<lparr>sp_length := skip\<rparr>)" "spare_span F (st\<lparr>pheap := h1\<rparr>) b ?u" "room (pheap st) \<le> room h1 + 1"
    "unclassed h1 \<subseteq> insert b (unclassed (pheap st))"
    by (rule Split_with[OF assms(1,2) s0 assms(3,4)]) (rule that)
  obtain h' where D: "Delete env (Sp a) (pheap (st\<lparr>pheap := h1\<rparr>)) = Some h'"
    "central_with F G (store (st\<lparr>pheap := h1\<rparr>)) (st\<lparr>pheap := h1\<rparr>\<lparr>pheap := h'\<rparr>) Own" "room h' = room (pheap (st\<lparr>pheap := h1\<rparr>))"
    "spare_span F (st\<lparr>pheap := h1\<rparr>\<lparr>pheap := h'\<rparr>) b ?u" "unclassed h' \<subseteq> unclassed (pheap (st\<lparr>pheap := h1\<rparr>)) - {a}"
    by (rule spare_span_Delete[OF S(2,4,5,3)]) (rule that)
  have "unclassed h' \<subseteq> insert b (unclassed (pheap st) - {a})" using D(5) S(7) by auto
  then show thesis
    by (intro that[of b h' ?u]) (use False S(1,6) D(1-4) in simp_all)
qed

lemma trim_back:
  assumes "central_with F G (store st) st Own" "spare_span F st a t" "0 < n" "n \<le> sp_length t" "0 < room (pheap st)"
  obtains u h' where "(if sp_length t > n then do { (trailer, h) \<leftarrow> Split (Sp a) n (pheap st); Delete env trailer h } else Some (pheap st)) = Some h'"
    "central_with F G (store st) (st\<lparr>pheap := h'\<rparr>) Own" "spare_span F (st\<lparr>pheap := h'\<rparr>) a u" "sp_start u = sp_start t" "sp_length u = n"
    "unclassed h' \<subseteq> unclassed (pheap st)"
proof (cases "sp_length t > n")
  case False
  then show thesis using assms(1,2,4) by (intro that[of "pheap st" t]) simp_all
next
  case True
  let ?u = "t\<lparr>sp_length := n\<rparr>"
  obtain b h1 where S: "Split (Sp a) n (pheap st) = Some (Sp b, h1)" "central_with F G (store st) (st\<lparr>pheap := h1\<rparr>) Own" "b \<noteq> a"
    "spare_span F (st\<lparr>pheap := h1\<rparr>) a ?u" "spare_span F (st\<lparr>pheap := h1\<rparr>) b (zero_span\<lparr>sp_start := sp_start t + n, sp_length := sp_length t - n\<rparr>)"
    "unclassed h1 \<subseteq> insert b (unclassed (pheap st))"
    by (rule Split_with[OF assms(1-3) True assms(5)]) (rule that)
  obtain h' where D: "Delete env (Sp b) (pheap (st\<lparr>pheap := h1\<rparr>)) = Some h'"
    "central_with F G (store (st\<lparr>pheap := h1\<rparr>)) (st\<lparr>pheap := h1\<rparr>\<lparr>pheap := h'\<rparr>) Own"
    "spare_span F (st\<lparr>pheap := h1\<rparr>\<lparr>pheap := h'\<rparr>) a ?u" "unclassed h' \<subseteq> unclassed (pheap (st\<lparr>pheap := h1\<rparr>)) - {b}"
    by (rule spare_span_Delete[OF S(2,5,4) S(3)[symmetric]]) (rule that)
  have "unclassed h' \<subseteq> unclassed (pheap st)" using D(4) S(6) by auto
  then show thesis
    by (intro that[of h' ?u]) (use True S(1) D(1-3) in simp_all)
qed

text \<open>Looking for the first aligned page.\<close>

lemma AND_mask_zero: "(x :: nat) AND (2 ^ k - 1) = 0 \<longleftrightarrow> 2 ^ k dvd x"
proof -
  have "x AND (2 ^ k - 1) = x mod 2 ^ k" by (simp add: take_bit_eq_mod[symmetric] take_bit_eq_mask mask_eq_exp_minus_1)
  then show ?thesis by (simp add: dvd_eq_mod_eq_0)
qed

lemma skip_pages_least:
  assumes "\<forall>j < m. \<not> 2 ^ k dvd span_bytes (s + j)" "2 ^ k dvd span_bytes (s + m)" "i \<le> m"
  shows "skip_pages s (2 ^ k) i = Some m"
  using assms(3)
proof (induction "m - i" arbitrary: i)
  case 0
  then show ?case using assms(2) by (subst skip_pages.simps) (simp add: AND_mask_zero[unfolded One_nat_def])
next
  case (Suc d)
  then have "skip_pages s (2 ^ k) (i + 1) = Some m" by (intro Suc.hyps(1)) simp_all
  moreover have "\<not> 2 ^ k dvd span_bytes (s + i)" using assms(1) Suc.hyps(2) by simp
  ultimately show ?case by (subst skip_pages.simps) (simp add: AND_mask_zero[unfolded One_nat_def])
qed

lemma skip_pages_ok:
  assumes "13 \<le> k" "s + 2 ^ (k - 13) \<le> 2 ^ 35"
  obtains m where "skip_pages s (2 ^ k) 0 = Some m" "m < 2 ^ (k - 13)" "2 ^ k dvd (s + m) * kPageSize"
proof -
  let ?q = "2 ^ (k - 13) :: nat"
  have "k = (k - 13) + 13" using assms(1) by simp
  then have "(2 :: nat) ^ k = ?q * 2 ^ 13" by (metis power_add)
  then have k: "(2 :: nat) ^ k = ?q * kPageSize" by simp
  have d: "2 ^ k dvd j * kPageSize \<longleftrightarrow> ?q dvd j" for j :: nat unfolding k by simp
  define m where "m = (LEAST m. ?q dvd s + m)"
  have "\<exists>j < ?q. ?q dvd s + j"
  proof (cases "s mod ?q = 0")
    case True
    then show ?thesis by (intro exI[of _ 0]) auto
  next
    case False
    have "s mod ?q < ?q" by simp
    then have "s + (?q - s mod ?q) = (s div ?q + 1) * ?q" by (simp add: algebra_simps flip: minus_mod_eq_mult_div) 
    then have "?q dvd s + (?q - s mod ?q)" by simp
    moreover have "?q - s mod ?q < ?q" using False by simp
    ultimately show ?thesis by blast
  qed
  then obtain j where j: "j < ?q" "?q dvd s + j" by blast
  have m: "?q dvd s + m" unfolding m_def by (rule LeastI[of _ j]) (rule j(2))
  have mj: "m \<le> j" unfolding m_def by (rule Least_le) (rule j(2))
  have b: "span_bytes (s + i) = (s + i) * kPageSize" if "i \<le> m" for i
  proof -
    have "s + i < 2 ^ 35" using that mj j(1) assms(2) by simp
    then show ?thesis by (simp add: span_bytes_def two64_def)
  qed
  show thesis
  proof (rule that)
    show "skip_pages s (2 ^ k) 0 = Some m"
    proof (rule skip_pages_least)
      show "\<forall>i < m. \<not> 2 ^ k dvd span_bytes (s + i)"
      proof (intro allI impI)
        fix i assume i: "i < m"
        then have "\<not> ?q dvd s + i" unfolding m_def by (rule not_less_Least)
        then show "\<not> 2 ^ k dvd span_bytes (s + i)" using d[of "s + i"] b[of i] i by simp
      qed
    next
      show "2 ^ k dvd span_bytes (s + m)" using d[of "s + m"] b[of m] m by simp
    qed simp
    show "m < ?q" using mj j(1) by simp
    show "2 ^ k dvd (s + m) * kPageSize" using d m by blast
  qed
qed

lemma carve_lent:
  assumes "lent F S G st Own" "4 \<le> room (pheap st)" "0 < trace_room (pheap st)" "13 < k" "0 < sz" "sz + 2 ^ k < two64"
  obtains r h' F' where "carve_aligned env (2 ^ k) sz (pheap st) = Some (r, h')" "lent F' S G (st\<lparr>pheap := h'\<rparr>) Own"
    "if r = 0 then runs F' = runs F else runs F' = insert (r, pages sz * kPageSize) (runs F) \<and> 2 ^ k dvd r \<and> r div kPageSize \<notin> used_pages (pheap st)"
    "r = 0 \<Longrightarrow> \<exists>h. New env (pages (sz + 2 ^ k)) (pheap st) = Some (None, h)"
proof -
  let ?q = "2 ^ (k - 13) :: nat" and ?n = "pages (add64 sz (2 ^ k))"
  have I: "central_with F G (store st) st Own" "sampled_ok F S G" "unclassed (pheap st) \<subseteq> {a. F (Sp a) \<noteq> None}" using lentD[OF assms(1)] by blast+
  have "k = (k - 13) + 13" using assms(4) by simp
  then have "(2 :: nat) ^ k = ?q * 2 ^ 13" by (metis power_add)
  then have k: "(2 :: nat) ^ k = ?q * kPageSize" by simp
  have a: "add64 sz (2 ^ k) = sz + ?q * kPageSize" using assms(6) unfolding k by (simp add: add64_def)
  have n: "?n = ?q + pages sz" unfolding a by (simp add: pages_def)
  have p0: "0 < pages sz" using assms(5) by (auto simp: pages_def)
  have rdy: "memory_ready st" using assms(2,3) by (simp add: memory_ready_def)
  have n0: "0 < ?n" using n p0 by simp
  obtain x h where N: "New env ?n (pheap st) = Some (x, h)" "central_with F G (store st) (st\<lparr>pheap := h\<rparr>) Own"
    "\<And>p. x = Some p \<Longrightarrow> \<exists>a t. p = Sp a \<and> F p = None \<and> fresh_span ?n (pheap st) a t h" "room (pheap st) \<le> room h + 2"
    "unclassed h \<subseteq> unclassed (pheap st) \<union> {a. x = Some (Sp a)}"
    by (rule New_with[OF I(1) rdy n0, of env]) (rule that)
  show thesis
  proof (cases x)
    case None
    then have "unclassed (pheap (st\<lparr>pheap := h\<rparr>)) \<subseteq> {a. F (Sp a) \<noteq> None}" using N(5) I(3) by auto
    moreover have "add64 sz (2 ^ k) = sz + 2 ^ k" using assms(6) by (simp add: add64_def)
    ultimately show thesis using None N(1,2) I(2) by (intro that[of 0 h F] lentI) (simp_all add: carve_aligned_def Let_def)
  next
    case (Some p)
    then obtain a t where a: "p = Sp a" "F (Sp a) = None" "fresh_span ?n (pheap st) a t h" using N(3) by blast
    note f = a(3)[unfolded fresh_span_def]
    let ?st1 = "st\<lparr>pheap := h\<rparr>"
    have s1: "spare_span F ?st1 a t" using f a(2) by (simp add: spare_span_def)
    have hok: "heap_ok h" using central_withD(1)[OF N(2)] cinvD(2) unfolding central_ok_def by fastforce
    have d: "spans h a = Some (sp_start t, ?n, IN_USE)" using f by (simp add: desc_Some)
    have "sp_start t + ?q \<in> cover (spans h)" by (rule coverI[of _ a "sp_start t" ?n IN_USE]) (use d n p0 in simp_all)
    then have "sp_start t + ?q \<le> 2 ^ 35" using page_small(1)[OF hok] by fastforce
    then obtain m where m: "skip_pages (sp_start t) (2 ^ k) 0 = Some m" "m < ?q" "2 ^ k dvd (sp_start t + m) * kPageSize"
      using skip_pages_ok[of k "sp_start t"] assms(4) by auto
    have mn: "m < ?n" "pages sz \<le> ?n - m" using m(2) n p0 by linarith+
    have N': "central_with F G (store ?st1) ?st1 Own" using N(2) by simp
    have ml: "m < sp_length t" "0 < room (pheap ?st1)" using mn(1) f N(4) assms(2) by simp_all
    obtain c u h1 where T1: "(if m > 0 then do { (rest, h) \<leftarrow> Split (Sp a) m (pheap ?st1); h \<leftarrow> Delete env (Sp a) h; Some (rest, h) }
      else Some (Sp a, pheap ?st1)) = Some (Sp c, h1)"
      "central_with F G (store ?st1) (?st1\<lparr>pheap := h1\<rparr>) Own" "spare_span F (?st1\<lparr>pheap := h1\<rparr>) c u" "sp_start u = sp_start t + m"
      "sp_length u = sp_length t - m" "room (pheap ?st1) \<le> room h1 + 1" "unclassed h1 \<subseteq> insert c (unclassed (pheap ?st1) - {a})"
      by (rule trim_front[OF N' s1 ml]) (rule that)
    let ?st2 = "?st1\<lparr>pheap := h1\<rparr>"
    have T1': "central_with F G (store ?st2) ?st2 Own" using T1(2) by simp
    have ul: "pages sz \<le> sp_length u" "0 < room (pheap ?st2)" using mn(2) f T1(5,6) N(4) assms(2) by simp_all
    obtain v h2 where T2: "(if sp_length u > pages sz then do { (trailer, h) \<leftarrow> Split (Sp c) (pages sz) (pheap ?st2); Delete env trailer h } else Some (pheap ?st2)) = Some h2"
      "central_with F G (store ?st2) (?st2\<lparr>pheap := h2\<rparr>) Own" "spare_span F (?st2\<lparr>pheap := h2\<rparr>) c v" "sp_start v = sp_start u" "sp_length v = pages sz"
      "unclassed h2 \<subseteq> unclassed (pheap ?st2)"
      by (rule trim_back[OF T1' T1(3) p0 ul]) (rule that)
    note v = spare_spanD[OF T2(3)] and u = spare_spanD[OF T1(3)]
    obtain h3 where A: "SpanToMallocResult (Sp c) (pheap (?st2\<lparr>pheap := h2\<rparr>)) = Some (sp_start v * kPageSize, h3)"
      "lent (F(Sp c \<mapsto> v)) S G (?st2\<lparr>pheap := h2\<rparr>\<lparr>pheap := h3\<rparr>) Own" "0 < sp_start v"
    proof (rule adopt_span[OF T2(2) I(2), of c v])
      show "unclassed (pheap (?st2\<lparr>pheap := h2\<rparr>)) \<subseteq> insert c {a. F (Sp a) \<noteq> None}"
        using T2(6) T1(7) N(5) I(3) Some a(1) by auto blast
    qed (use v that in auto)
    have st: "sp_start v = sp_start t + m" using T1(4) T2(4) by simp
    have "carve_aligned env (2 ^ k) sz (pheap st) = Some (sp_start v * kPageSize, h3)"
    proof -
      have e: "mem h (Sp a) = Some t" "mem h1 (Sp c) = Some u" "check (m < ?n) = Some ()" "check (pages sz \<le> sp_length u) = Some ()"
        using f u mn(1) ul(1) by simp_all
      have ph: "pheap ?st1 = h" "pheap ?st2 = h1" by simp_all
      have e1: "(if m > 0 then do { (rest, h) \<leftarrow> Split (Sp a) m h; h \<leftarrow> Delete env (Sp a) h; Some (rest, h) } else Some (Sp a, h)) = Some (Sp c, h1)"
        using T1(1) unfolding ph(1) .
      have e2: "(if sp_length u > pages sz then do { (trailer, h) \<leftarrow> Split (Sp c) (pages sz) h1; Delete env trailer h } else Some h1) = Some h2"
        using T2(1) unfolding ph(2) .
      have e3: "SpanToMallocResult (Sp c) h2 = Some (sp_start v * kPageSize, h3)" using A(1) by simp
      show ?thesis
        unfolding carve_aligned_def Let_def N(1) Some a(1) Option.bind.simps prod.case option.case e m(1) e1 e2 e3 by (rule refl)
    qed
    moreover have "lent (F(Sp c \<mapsto> v)) S G (st\<lparr>pheap := h3\<rparr>) Own" using A(2) by simp
    moreover have "runs (F(Sp c \<mapsto> v)) = insert (sp_start v * kPageSize, pages sz * kPageSize) (runs F)"
      using runs_add[of F c v] v T2(5) by simp
    moreover have "sp_start v \<notin> used_pages (pheap st)"
    proof -
      have "sp_start v \<in> {sp_start t..<sp_start t + ?n}" using st mn(1) by simp
      then show ?thesis using f by blast
    qed
    moreover have "2 ^ k dvd sp_start v * kPageSize" unfolding st by (rule m(3))
    moreover note start_page[OF A(3)]
    ultimately show thesis by (intro that[of "sp_start v * kPageSize" h3 "F(Sp c \<mapsto> v)"]) simp_all
  qed
qed

end
