(* ===== verification/TcmallocInv.thy ===== *)
theory TcmallocInv
  imports TcmallocSpans
begin

text \<open>
  The invariant of the malloc layer, and the blocks that the application holds: the objects it took
  from the thread caches and the spans that were lent to it.
\<close>

section \<open>Caches and lent spans together\<close>

definition mstate :: "threads \<Rightarrow> (nat \<Rightarrow> nat set) \<Rightarrow> span_mem \<Rightarrow> spanptr list \<Rightarrow> nat set \<Rightarrow> bool" where
  "mstate T App F S G \<longleftrightarrow> threads_ok (exactly F G (store (cent T))) T App \<and> sampled_ok F S G"

lemma contents_now: "contents (exactly F G W) T Own X \<Longrightarrow> contents (exactly F G (store (cent T))) T Own X"
  unfolding contents_def using exactly_now by blast

lemma threads_now: "threads_ok (exactly F G W) T App \<Longrightarrow> threads_ok (exactly F G (store (cent T))) T App"
  unfolding threads_ok_def using contents_now by blast

lemma mstateI: "threads_ok (exactly F G W) T App \<Longrightarrow> sampled_ok F S G \<Longrightarrow> mstate T App F S G"
  unfolding mstate_def using threads_now by blast

text \<open>A step of the page heap.\<close>

lemma mstate_heap:
  assumes "mstate T App F S G"
  obtains Own where "lent F S G (cent T) Own" "\<And>c. App c \<subseteq> Own c"
    "\<And>F' S' G' h'. lent F' S' G' ((cent T)\<lparr>pheap := h'\<rparr>) Own \<Longrightarrow> mstate (T\<lparr>cent := (cent T)\<lparr>pheap := h'\<rparr>\<rparr>) App F' S' G'"
proof -
  let ?W = "store (cent T)"
  obtain Own X hs where I: "contents (exactly F G ?W) T Own X" "registry T hs" "budget_ok T" "App = app Own X"
    using assms unfolding mstate_def threads_ok_def by blast
  note C = contentsD[OF I(1)]
  show thesis
  proof (rule that)
    show "lent F S G (cent T) Own" using C(1) assms by (simp add: lent_def mstate_def)
    show "App c \<subseteq> Own c" for c unfolding I(4) app_def by blast
    fix F' S' G' h'
    let ?T = "T\<lparr>cent := (cent T)\<lparr>pheap := h'\<rparr>\<rparr>"
    assume L: "lent F' S' G' ((cent T)\<lparr>pheap := h'\<rparr>) Own"
    have "contents (exactly F' G' ?W) ?T Own X" using I(1) L unfolding contents_def lent_def by simp
    moreover have "registry ?T hs" using registryD(6)[OF I(2)] by (intro registry_cong[OF I(2)]) simp_all
    moreover have "budget_ok ?T" using I(3) by (simp add: budget_ok_def)
    ultimately have "threads_ok (exactly F' G' ?W) ?T App" using I(4) unfolding threads_ok_def by blast
    then show "mstate ?T App F' S' G'" using L by (intro mstateI) (simp_all add: lent_def)
  qed
qed

text \<open>A write to objects and lent spans.\<close>

definition lent_page :: "span_mem \<Rightarrow> nat \<Rightarrow> bool" where
  "lent_page F j \<longleftrightarrow> (\<exists>a t. F (Sp a) = Some t \<and> j \<in> {sp_start t..<sp_start t + sp_length t})"

lemma central_with_writes:
  assumes "central_with F G W st Own" "\<And>y. y \<notin> held Own \<Longrightarrow> \<not> lent_page F (y div kPageSize) \<Longrightarrow> w y = store st y"
  shows "central_with F G w (st\<lparr>store := w\<rparr>) Own"
proof -
  note O = central_withD[OF assms(1)]
  obtain L C T where I: "cinv L C T st" "Own = owned L C T st" using O(1) unfolding central_ok_def by blast
  define w1 where "w1 = (\<lambda>y. if y \<in> held Own then w y else store st y)"
  let ?st1 = "st\<lparr>store := w1\<rparr>"
  have "w1 y = store st y" if "\<forall>c. \<forall>x \<in> owned L C T st c. y \<notin> {x..<x + osz c}" for y
    using that I(2) unfolding w1_def held_def by auto
  note J = cinv_client_store[OF I(1) this]
  have J1: "cinv L C T ?st1" by (rule J(1))
  have K: "cinv L C T (?st1\<lparr>store := w\<rparr>)"
  proof (rule cinv_store[OF J1])
    fix c x assume c: "c \<in> classes" "x \<in> class_free L C c \<union> parked T c"
    have "class_free L C c \<subseteq> class_objs (mem (pheap ?st1)) L c"
      unfolding class_free_def using chain_subset(1,2)[OF J1 c(1)] by blast
    then have co: "x \<in> class_objs (mem (pheap ?st1)) L c" using cinvD(11)[OF J1 c(1)] c(2) by blast
    have x: "x \<in> {x..<x + osz c}" using class_facts(1)[OF c(1)] by simp
    have tg: "tagged F G (pheap ?st1)" using O(2) by simp
    have "\<not> lent_page F (x div kPageSize)" using tagged_no_object[OF J1 tg _ c(1) co x] unfolding lent_page_def by blast
    then show "w x = store ?st1 x" using assms(2) by (simp add: w1_def)
  qed
  have "owned L C T (?st1\<lparr>store := w\<rparr>) = owned L C T st" by (simp add: owned_def fun_eq_iff)
  then have "central_ok (st\<lparr>store := w\<rparr>) Own"
    unfolding central_ok_def using K I(2) by (intro exI[of _ L] exI[of _ C] exI[of _ T]) simp
  then show ?thesis using O(2) unfolding central_with_def by simp
qed

lemma exactly_writes:
  assumes "exactly F G W st Own" "\<And>y. y \<notin> held Own \<Longrightarrow> \<not> lent_page F (y div kPageSize) \<Longrightarrow> w y = store st y"
  shows "exactly F G w (st\<lparr>store := w\<rparr>) Own"
  using central_with_writes[OF exactlyD(1)[OF assms(1)] assms(2)] exactlyD(2)[OF assms(1)] by (simp add: exactly_def)

lemma lent_not_held:
  assumes "central_with F G W st Own" "lent_page F (y div kPageSize)"
  shows "y \<notin> held Own"
  using others_apart[OF central_withD(1,2)[OF assms(1)]] assms(2) unfolding lent_page_def by blast

lemma held_app: "App = app Own X \<Longrightarrow> held App \<subseteq> held Own"
  by (intro held_mono) (auto simp: app_def)

lemma mstate_write:
  assumes "mstate T App F S G" "\<And>y. y \<notin> held App \<Longrightarrow> \<not> lent_page F (y div kPageSize) \<Longrightarrow> w y = store (cent T) y"
  shows "mstate (T\<lparr>cent := (cent T)\<lparr>store := w\<rparr>\<rparr>) App F S G"
proof -
  let ?W = "store (cent T)" and ?T = "T\<lparr>cent := (cent T)\<lparr>store := w\<rparr>\<rparr>"
  obtain Own X hs where I: "contents (exactly F G ?W) T Own X" "registry T hs" "budget_ok T" "App = app Own X"
    using assms(1) unfolding mstate_def threads_ok_def by blast
  note C = contentsD[OF I(1)]
  have o: "exactly F G w (cent ?T) Own"
    using exactly_writes[OF C(1), of w] assms(2) held_app[OF I(4)] by auto
  have "w x = ?W x" if x: "x \<in> set (X h c)" for x h c
  proof (rule assms(2))
    have "x \<in> Own c" "c \<in> classes" using C(3) x central_owned_object[OF central_withD(1)[OF exactlyD(1)[OF C(1)]], of x c] by blast+
    then have h: "x \<in> held Own" by (rule held_in)
    then show "\<not> lent_page F (x div kPageSize)" using lent_not_held[OF exactlyD(1)[OF C(1)]] by blast
    show "x \<notin> held App"
      by (rule guarded.apart_from[OF C(1) _ subsetD[OF C(3) x]]) (use I(4) x in \<open>auto simp: app_def\<close>)
  qed
  then have "cache_ok w t (X h) = cache_ok ?W t (X h)" for t h by (intro cache_ok_cong) blast
  then have "contents (exactly F G w) ?T Own X" using I(1) o unfolding contents_def by simp
  moreover have "registry ?T hs" using registryD(6)[OF I(2)] by (intro registry_cong[OF I(2)]) simp_all
  moreover have "budget_ok ?T" using I(3) by (simp add: budget_ok_def)
  ultimately have "threads_ok (exactly F G w) ?T App" using I(4) unfolding threads_ok_def by blast
  then show ?thesis using assms(1) by (intro mstateI) (simp_all add: mstate_def)
qed

text \<open>An object given back to the central list directly.\<close>

lemma mstate_insert:
  assumes "mstate T App F S G" "x \<in> App c"
  obtains w st' where "SLL_SetNext x 0 (store (cent T)) = Some w" "InsertRange env c x x 1 ((cent T)\<lparr>store := w\<rparr>) = Some st'"
    "mstate (T\<lparr>cent := st'\<rparr>) (App(c := App c - {x})) F S G"
    "\<And>y. y \<in> held (App(c := App c - {x})) \<or> lent_page F (y div kPageSize) \<Longrightarrow> store st' y = store (cent T) y"
proof -
  let ?W = "store (cent T)" and ?App = "App(c := App c - {x})"
  define w where "w = ?W(x := 0)"
  let ?st = "(cent T)\<lparr>store := w\<rparr>"
  obtain Own X hs where I: "contents (exactly F G ?W) T Own X" "registry T hs" "budget_ok T" "App = app Own X"
    using assms(1) unfolding mstate_def threads_ok_def by blast
  note C = contentsD[OF I(1)]
  have x: "x \<in> Own c" using assms(2) unfolding I(4) app_def by blast
  note xo = guarded.object_law[OF C(1) x]
  have hx: "x \<in> held Own" using x xo held_in by blast
  have s: "SLL_SetNext x 0 ?W = Some w" using xo by (simp add: SLL_SetNext_def w_def)
  have ok1: "exactly F G ?W ?st Own" by (rule guarded.write_law[OF C(1)]) (use hx in \<open>auto simp: w_def\<close>)
  have ch: "sll (store ?st) x [x]" using xo by (simp add: w_def)
  obtain st' where p: "InsertRange env c x x 1 ?st = Some st'" "exactly F G ?W st' (Own(c := Own c - {x}))"
    "undisturbed (held (Own(c := Own c - {x}))) ?st st'"
    using guarded.put_law[OF ok1 conjunct2[OF xo] ch, of x env] x by auto
  let ?T = "T\<lparr>cent := st'\<rparr>" and ?Own = "Own(c := Own c - {x})"
  have xX: "x \<notin> set (X h c)" for h using assms(2) unfolding I(4) app_def by blast
  have keep: "store st' z = ?W z" if zh: "z \<in> held ?Own" for z
  proof -
    have "z \<noteq> x"
    proof
      assume "z = x"
      then obtain d y where y: "y \<in> ?Own d" "x \<in> {y..<y + osz d}" using zh unfolding held_def by blast
      have "x \<in> {x..<x + osz c}" using class_facts(1)[of c] xo by simp
      then have "y = x \<and> d = c" using guarded.inside_law[OF C(1), of y d x c x] y x by (auto split: if_splits)
      then show False using y(1) by simp
    qed
    then show ?thesis using p(3) zh by (simp add: undisturbed_def w_def)
  qed
  have sub: "set (X h d) \<subseteq> ?Own d" for h d using C(3)[of h d] xX[of h] by auto
  have "store st' z = ?W z" if "z \<in> set (X h d)" for z h d
  proof (rule keep)
    show "z \<in> held ?Own" using sub that guarded.object_law[OF p(2)] by (intro held_in[of z ?Own d]) blast+
  qed
  then have "cache_ok (store st') t (X h) = cache_ok ?W t (X h)" for t h by (intro cache_ok_cong) blast
  then have "contents (exactly F G ?W) ?T ?Own X" using I(1) p(2) sub unfolding contents_def by simp
  moreover have "registry ?T hs" using registryD(6)[OF I(2)] by (intro registry_cong[OF I(2)]) simp_all
  moreover have "budget_ok ?T" using I(3) by (simp add: budget_ok_def)
  moreover have "?App = app ?Own X" unfolding I(4) by (auto simp: app_def fun_eq_iff)
  ultimately have t: "threads_ok (exactly F G ?W) ?T ?App" unfolding threads_ok_def by blast
  show thesis
  proof (rule that[OF s p(1)])
    show "mstate ?T ?App F S G" by (rule mstateI[OF t]) (use assms(1) in \<open>simp add: mstate_def\<close>)
    fix y assume y: "y \<in> held ?App \<or> lent_page F (y div kPageSize)"
    show "store st' y = ?W y"
    proof (cases "lent_page F (y div kPageSize)")
      case True
      then show ?thesis using central_withD(3)[OF exactlyD(1)[OF p(2)]] unfolding lent_page_def by blast
    next
      case False
      moreover have "held ?App \<subseteq> held ?Own" using \<open>?App = app ?Own X\<close> by (rule held_app)
      ultimately show ?thesis using keep y by blast
    qed
  qed
qed

section \<open>Blocks\<close>

definition blocks :: "(nat \<Rightarrow> nat set) \<Rightarrow> span_mem \<Rightarrow> (nat \<times> nat) set" where
  "blocks App F = {(x, osz c) |x c. x \<in> App c} \<union> runs F"

definition malloc_ok :: "malloc_state \<Rightarrow> (nat \<times> nat) set \<Rightarrow> bool" where
  "malloc_ok M B \<longleftrightarrow> module_up M \<and> (\<exists>App F S G. mstate (thr M) App F S G \<and> B = blocks App F)"

definition bytes_of :: "(nat \<times> nat) set \<Rightarrow> nat set" where
  "bytes_of B = (\<Union>(p, n) \<in> B. {p..<p + n})"

lemma bytes_of_runs: "y \<in> bytes_of (runs F) \<longleftrightarrow> lent_page F (y div kPageSize)"
proof -
  have "y \<in> {s * kPageSize..<s * kPageSize + l * kPageSize} \<longleftrightarrow> y div kPageSize \<in> {s..<s + l}" for s l
  proof -
    have "y < (s + l) * kPageSize \<longleftrightarrow> y div kPageSize < s + l" by (rule div_less_iff_less_mult[symmetric]) simp
    moreover have "s * kPageSize \<le> y \<longleftrightarrow> s \<le> y div kPageSize" by (rule less_eq_div_iff_mult_less_eq[symmetric]) simp
    ultimately show ?thesis by (simp add: algebra_simps)
  qed
  then show ?thesis unfolding bytes_of_def runs_def lent_page_def by fastforce
qed

lemma bytes_of_blocks: "y \<in> bytes_of (blocks App F) \<longleftrightarrow> y \<in> held App \<or> lent_page F (y div kPageSize)"
proof -
  have "bytes_of (blocks App F) = held App \<union> bytes_of (runs F)" unfolding blocks_def bytes_of_def held_def by auto
  then show ?thesis using bytes_of_runs by blast
qed

text \<open>An object and its page.\<close>

lemma object_page:
  assumes "central_with F G W st Own" "x \<in> Own c"
  obtains a t where "GetDescriptor (pheap st) (x div kPageSize) = Some (Sp a)" "mem (pheap st) (Sp a) = Some t" "sp_sizeclass t = c"
    "sp_location t = IN_USE" "x div kPageSize \<in> {sp_start t..<sp_start t + sp_length t}" "c \<in> classes" "x \<noteq> 0"
    "x div kPageSize < 2 ^ 35" "osz c dvd x - sp_start t * kPageSize" "sp_start t * kPageSize \<le> x" "F (Sp a) = None"
proof -
  note O = central_withD[OF assms(1)]
  obtain L C T where I: "cinv L C T st" "Own = owned L C T st" using O(1) unfolding central_ok_def by blast
  have x: "x \<in> owned L C T st c" using assms(2) I(2) by simp
  note X = owned_facts[OF I(1) x]
  obtain p where p: "p \<in> class_spans L c" "x \<in> objs c (sstart (mem (pheap st)) p)" using X(2) by (auto simp: class_objs_def)
  obtain a t where t: "p = Sp a" "mem (pheap st) p = Some t" "sp_location t = IN_USE" "sp_length t = npg c" "sp_sizeclass t = c"
    "\<And>j. j \<in> {sp_start t..<sp_start t + npg c} \<Longrightarrow> GetDescriptor (pheap st) j = Some p" "sstart (mem (pheap st)) p = sp_start t"
    by (rule span_okE[OF cinvD(4)[OF I(1) X(1) p(1)]]) (rule that)
  have j: "x div kPageSize \<in> {sp_start t..<sp_start t + npg c}" using objs_page[OF p(2) X(1)] t(7) by simp
  have "x div kPageSize \<in> used_pages (pheap st)" using owned_pages[OF I(1) x, of x] class_facts(1)[OF X(1)] by simp
  then have "x div kPageSize \<in> cover (spans (pheap st))" by (auto simp: pages_of_def cover_def)
  then have s: "x div kPageSize < 2 ^ 35" "0 < x div kPageSize" using page_small[OF cinvD(2)[OF I(1)]] by blast+
  obtain i where i: "x = sp_start t * kPageSize + i * osz c" using p(2) t(7) by (auto simp: obj_list_def)
  have "F (Sp a) = None" using taggedD(3,4)[OF O(2), of "Sp a"] t(1,2,5) X(1) by (cases "F (Sp a)") auto
  moreover have "x \<noteq> 0" using s(2) by (cases "x = 0") simp_all
  ultimately show thesis using t(1-5) t(6)[OF j] j X(1) s(1) i by (intro that[of a t]) simp_all
qed

lemma object_cached:
  assumes "central_with F G W st Own" "x \<in> Own c"
  shows "cached_as (pheap st) (x div kPageSize) c"
proof -
  obtain a t where t: "mem (pheap st) (Sp a) = Some t" "sp_sizeclass t = c" "sp_location t = IN_USE"
    "x div kPageSize \<in> {sp_start t..<sp_start t + sp_length t}" "c \<in> classes" by (rule object_page[OF assms]) (rule that)
  then show ?thesis using taggedD(2)[OF central_withD(2)[OF assms(1)] t(1)] by auto
qed

text \<open>A lent span and its pages.\<close>

lemma lent_span:
  assumes "central_with F G W st Own" "F (Sp a) = Some t"
  shows "mem (pheap st) (Sp a) = Some t" "sp_location t = IN_USE" "sp_sizeclass t = 0" "GetDescriptor (pheap st) (sp_start t) = Some (Sp a)"
    "GetSizeClassIfCached (pheap st) (sp_start t) = Some 0" "0 < sp_length t" "0 < sp_start t" "sp_start t < 2 ^ 35"
    "\<And>j. j \<in> {sp_start t..<sp_start t + sp_length t} \<Longrightarrow> j \<in> used_pages (pheap st)" "span_bytes (sp_length t) = sp_length t * kPageSize"
proof -
  note O = central_withD[OF assms(1)]
  obtain L C T where I: "cinv L C T st" "Own = owned L C T st" using O(1) unfolding central_ok_def by blast
  note hok = cinvD(2)[OF I(1)]
  obtain P Lh where H: "hinv {} P (pheap st) Lh" "cover (spans (pheap st)) = P" using hok unfolding heap_ok_def heap_at_def by blast
  show m: "mem (pheap st) (Sp a) = Some t" "sp_location t = IN_USE" "sp_sizeclass t = 0"
    using taggedD(3,4)[OF O(2) assms(2)] by simp_all
  note d = in_use_desc[OF m(1,2)]
  show "GetDescriptor (pheap st) (sp_start t) = Some (Sp a)" by (rule hinv_ends(1)[OF H(1) d])
  show "GetSizeClassIfCached (pheap st) (sp_start t) = Some 0" using taggedD(5)[OF O(2) assms(2)] by (simp add: cached_as_def)
  show l: "0 < sp_length t" using span_start_used[OF hok d] by blast
  have "sp_start t \<in> cover (spans (pheap st))" by (rule coverI[of _ a "sp_start t" "sp_length t" IN_USE]) (use d l in simp_all)
  then show "0 < sp_start t" "sp_start t < 2 ^ 35" using page_small[OF hok] by blast+
  show "j \<in> used_pages (pheap st)" if "j \<in> {sp_start t..<sp_start t + sp_length t}" for j
    by (rule tagged_pages(1)[OF hok O(2) assms(2) that])
  show "span_bytes (sp_length t) = sp_length t * kPageSize"
    using span_bytes_run(1)[OF H(1) hinv_ends(4)[OF H(1) d]] by simp
qed

text \<open>Blocks lie apart, on used pages.\<close>

lemma blocks_cases:
  assumes "(p, n) \<in> blocks App F"
  obtains (object) c where "p \<in> App c" "n = osz c" | (run) a t where "F (Sp a) = Some t" "p = sp_start t * kPageSize" "n = sp_length t * kPageSize"
  using assms unfolding blocks_def runs_def by blast

lemma in_bytes: "(p, n) \<in> B \<Longrightarrow> y \<in> {p..<p + n} \<Longrightarrow> y \<in> bytes_of B"
  unfolding bytes_of_def by blast

lemma run_page: "y \<in> {s * kPageSize..<s * kPageSize + l * kPageSize} \<Longrightarrow> y div kPageSize \<in> {s..<s + l}"
proof -
  assume y: "y \<in> {s * kPageSize..<s * kPageSize + l * kPageSize}"
  have "y < (s + l) * kPageSize \<longleftrightarrow> y div kPageSize < s + l" by (rule div_less_iff_less_mult[symmetric]) simp
  moreover have "s * kPageSize \<le> y \<longleftrightarrow> s \<le> y div kPageSize" by (rule less_eq_div_iff_mult_less_eq[symmetric]) simp
  ultimately show ?thesis using y by (simp add: algebra_simps)
qed

lemma blocks_apart:
  assumes "mstate T App F S G" "(p, n) \<in> blocks App F" "(q, k) \<in> blocks App F" "y \<in> {p..<p + n}" "y \<in> {q..<q + k}"
  shows "p = q \<and> n = k"
proof -
  obtain Own where O: "lent F S G (cent T) Own" "\<And>c. App c \<subseteq> Own c" by (rule mstate_heap[OF assms(1)]) (rule that)
  have W: "central_with F G (store (cent T)) (cent T) Own" using O(1) by (rule lentD(1))
  have hd: "y \<in> held Own" if "x \<in> App c" "y \<in> {x..<x + osz c}" for x c using that O(2)[of c] unfolding held_def by blast
  have no: False if "x \<in> App c" "y \<in> {x..<x + osz c}" "F (Sp a) = Some t" "y \<in> {sp_start t * kPageSize..<sp_start t * kPageSize + sp_length t * kPageSize}" for x c a t
    using lent_not_held[OF W, of y] run_page[OF that(4)] that(3) hd[OF that(1,2)] unfolding lent_page_def by blast
  show ?thesis
    using assms(2)
  proof (cases rule: blocks_cases)
    case (object c)
    note P = this
    show ?thesis
      using assms(3)
    proof (cases rule: blocks_cases)
      case (object d)
      then show ?thesis using central_inside[OF central_withD(1)[OF W], of p c q d y] O(2) P assms(4,5) by blast
    next
      case (run a t)
      then show ?thesis using no[of p c a t] P assms(4,5) by blast
    qed
  next
    case (run a t)
    note P = this
    show ?thesis
      using assms(3)
    proof (cases rule: blocks_cases)
      case (object d)
      then show ?thesis using no[of q d a t] P assms(4,5) by blast
    next
      case (run b u)
      have "y div kPageSize \<in> {sp_start t..<sp_start t + sp_length t}" "y div kPageSize \<in> {sp_start u..<sp_start u + sp_length u}"
        using run_page assms(4,5) P(2,3) run(2,3) by blast+
      moreover have "heap_ok (pheap (cent T))" using central_withD(1)[OF W] cinvD(2) unfolding central_ok_def by blast
      ultimately have "a = b" using same_page_span lent_span(1,2)[OF W P(1)] lent_span(1,2)[OF W run(1)] by blast
      then show ?thesis using P run by simp
    qed
  qed
qed

lemma block_facts:
  assumes "mstate T App F S G" "(p, n) \<in> blocks App F"
  shows "0 < n" "p \<noteq> 0" "8 dvd p" "8 dvd n" "p div kPageSize \<in> used_pages (pheap (cent T))"
proof -
  obtain Own where O: "lent F S G (cent T) Own" "\<And>c. App c \<subseteq> Own c" by (rule mstate_heap[OF assms(1)]) (rule that)
  have W: "central_with F G (store (cent T)) (cent T) Own" using O(1) by (rule lentD(1))
  have "0 < n \<and> p \<noteq> 0 \<and> 8 dvd p \<and> 8 dvd n \<and> p div kPageSize \<in> used_pages (pheap (cent T))"
    using assms(2)
  proof (cases rule: blocks_cases)
    case (object c)
    obtain a t where t: "c \<in> classes" "p \<noteq> 0" "osz c dvd p - sp_start t * kPageSize" "sp_start t * kPageSize \<le> p"
      "mem (pheap (cent T)) (Sp a) = Some t" "sp_location t = IN_USE" "p div kPageSize \<in> {sp_start t..<sp_start t + sp_length t}"
      by (rule object_page[OF W, of p c]) (use object(1) O(2) that in blast)+
    have e: "8 dvd osz c" using class_size_aligned[of c] t(1) by (simp add: aligned_class_size_def)
    have d: "8 dvd p - sp_start t * kPageSize" using e t(3) by (rule dvd_trans)
    have s8: "8 dvd sp_start t * kPageSize" by simp
    have "8 dvd (p - sp_start t * kPageSize) + sp_start t * kPageSize" using d s8 by (rule dvd_add)
    moreover have "(p - sp_start t * kPageSize) + sp_start t * kPageSize = p" using t(4) by (rule le_add_diff_inverse2)
    ultimately have "8 dvd p" by metis
    moreover have "p div kPageSize \<in> used_pages (pheap (cent T))" using in_use_desc[OF t(5,6)] t(7) by (auto simp: pages_of_def)
    ultimately show ?thesis using t(2) e object(2) class_facts(1)[OF t(1)] by simp
  next
    case (run a t)
    note L = lent_span[OF W run(1)]
    have "p div kPageSize = sp_start t" using run(2) by simp
    then show ?thesis using L(6,7) L(9)[of "sp_start t"] run(2,3) by simp
  qed
  then show "0 < n" "p \<noteq> 0" "8 dvd p" "8 dvd n" "p div kPageSize \<in> used_pages (pheap (cent T))" by blast+
qed

lemma blocks_object:
  assumes "mstate T App F S G" "x \<in> App c"
  shows "blocks (App(c := App c - {x})) F = blocks App F - {(x, osz c)}"
proof -
  have x: "(x, osz c) \<in> blocks App F" using assms(2) unfolding blocks_def by blast
  obtain Own where O: "lent F S G (cent T) Own" "\<And>c. App c \<subseteq> Own c" by (rule mstate_heap[OF assms(1)]) (rule that)
  have W: "central_with F G (store (cent T)) (cent T) Own" using O(1) by (rule lentD(1))
  have xc: "x \<in> {x..<x + osz c}" using block_facts(1)[OF assms(1) x] by simp
  have u: "d = c" if "x \<in> App d" for d
  proof -
    have "(x, osz d) \<in> blocks App F" using that unfolding blocks_def by blast
    then have "x \<in> {x..<x + osz d}" using block_facts(1)[OF assms(1)] by simp
    then show ?thesis using central_inside[OF central_withD(1)[OF W], of x d x c x] O(2) that assms(2) xc by blast
  qed
  have nr: "(x, osz c) \<notin> runs F"
  proof
    assume "(x, osz c) \<in> runs F"
    then have "x \<in> bytes_of (runs F)" using xc by (rule in_bytes)
    then have "lent_page F (x div kPageSize)" using bytes_of_runs by blast
    then have "x \<notin> held Own" by (rule lent_not_held[OF W])
    moreover have "x \<in> held Own" using O(2)[of c] assms(2) xc unfolding held_def by blast
    ultimately show False by blast
  qed
  have e: "z \<in> (App(c := App c - {x})) d \<longleftrightarrow> z \<in> App d \<and> z \<noteq> x" for z d using u by auto
  have "{(z, osz d) |z d. z \<in> (App(c := App c - {x})) d} = {(z, osz d) |z d. z \<in> App d} - {(x, osz c)}"
    unfolding e using u by blast
  then show ?thesis unfolding blocks_def using nr by blast
qed

lemma blocks_run:
  assumes "mstate T App F S G" "F (Sp a) = Some t" "runs F1 = runs F - {(sp_start t * kPageSize, sp_length t * kPageSize)}"
  shows "blocks App F1 = blocks App F - {(sp_start t * kPageSize, sp_length t * kPageSize)}"
proof -
  let ?p = "sp_start t * kPageSize"
  have r: "(?p, sp_length t * kPageSize) \<in> blocks App F" "(?p, sp_length t * kPageSize) \<in> runs F" using assms(2) unfolding blocks_def runs_def by blast+
  obtain Own where O: "lent F S G (cent T) Own" "\<And>c. App c \<subseteq> Own c" by (rule mstate_heap[OF assms(1)]) (rule that)
  have W: "central_with F G (store (cent T)) (cent T) Own" using O(1) by (rule lentD(1))
  have "?p \<in> bytes_of (runs F)" by (rule in_bytes[OF r(2)]) (use block_facts(1)[OF assms(1) r(1)] in simp)
  then have nh: "?p \<notin> held Own" using lent_not_held[OF W] bytes_of_runs by blast
  have "?p \<notin> App c" for c
  proof
    assume c: "?p \<in> App c"
    then have "(?p, osz c) \<in> blocks App F" unfolding blocks_def by blast
    then have "?p \<in> {?p..<?p + osz c}" using block_facts(1)[OF assms(1)] by simp
    then show False using nh O(2)[of c] c unfolding held_def by blast
  qed
  then show ?thesis using assms(3) unfolding blocks_def by auto
qed

end
