(* ===== verification/TcmallocOps.thy ===== *)
theory TcmallocOps
  imports TcmallocInv
begin

text \<open>
  Allocation: \<open>do_malloc\<close> and the routines over it, from consistent states to consistent states.
\<close>

section \<open>Steps of the thread's cache\<close>

definition thread_ready :: "nat \<Rightarrow> threads \<Rightarrow> bool" where
  "thread_ready me T \<longleftrightarrow> tsd_inited T \<and> tls T me \<noteq> 0 \<or> cache_room T"

lemma GetCache_m:
  assumes "mstate T App F S G" "thread_ready me T"
  obtains h T' t where "GetCache interval raw me T = Some (h, T')" "mstate T' App F S G" "heaps T' h = Some t" "cent T' = cent T"
proof (cases "tsd_inited T \<and> tls T me \<noteq> 0")
  case True
  obtain hs where R: "registry T hs" using assms(1) unfolding mstate_def threads_ok_def by blast
  obtain t where "heaps T (tls T me) = Some t" using registryD(9)[OF R] True by blast
  then show thesis using True assms(1) by (intro that[of "tls T me" T t]) (simp_all add: GetCache_def)
next
  case False
  then have cr: "cache_room T" using assms(2) by (auto simp: thread_ready_def)
  have I: "threads_ok (exactly F G (store (cent T))) T App" "sampled_ok F S G" using assms(1) by (simp_all add: mstate_def)
  obtain h T' t where g: "GetCache interval raw me T = Some (h, T')" "threads_ok (exactly F G (store (cent T))) T' App" "heaps T' h = Some t"
    "cent T' = cent T"
    by (rule guarded.GetCache_ok[OF I(1) cr, of interval raw me]) (rule that)
  then show thesis using mstateI[OF g(2) I(2)] that by blast
qed

lemma threads_sampler:
  assumes "threads_ok ok T App" "heaps T h = Some t"
  shows "threads_ok ok (T\<lparr>heaps := (heaps T)(h \<mapsto> t\<lparr>tc_sampler := s\<rparr>)\<rparr>) App"
proof -
  let ?T = "T\<lparr>heaps := (heaps T)(h \<mapsto> t\<lparr>tc_sampler := s\<rparr>)\<rparr>"
  obtain Own X hs where I: "contents ok T Own X" "registry T hs" "budget_ok T" "App = app Own X"
    using assms(1) unfolding threads_ok_def by blast
  have "contents ok ?T Own X"
    by (rule contents_cong[OF I(1)]) (use assms(2) contentsD(4)[OF I(1)] in \<open>auto simp: same_lists_def split: if_splits\<close>)
  moreover have "registry ?T hs"
    using registryD(6)[OF I(2)] assms(2) by (intro registry_cong[OF I(2)]) (auto simp: ident_def links_def)
  moreover have "budget_ok ?T"
  proof -
    have "dom (heaps ?T) = dom (heaps T)" using assms(2) by auto
    moreover have "claims (heaps ?T) = claims (heaps T)"
      unfolding claims_def calculation using assms(2) by (intro sum.cong) auto
    ultimately show ?thesis using I(3) by (simp add: budget_ok_def)
  qed
  ultimately show ?thesis using I(4) unfolding threads_ok_def by blast
qed

lemma sample_now_ok:
  assumes "mstate (thr M) App F S G" "heaps (thr M) h = Some t"
  obtains b T' t' where "sample_now env h sz M = Some (b, M\<lparr>thr := T'\<rparr>)" "mstate T' App F S G" "heaps T' h = Some t'" "cent T' = cent (thr M)"
    "b \<longrightarrow> 0 < sz"
proof (cases "sample_parameter env > 0")
  case False
  then show thesis using assms by (intro that[of False "thr M" t]) (simp_all add: sample_now_def)
next
  case True
  obtain b s where b: "SampleAllocation (sample_interval env) sz (tc_sampler t) = (b, s)" by fastforce
  let ?T = "(thr M)\<lparr>heaps := (heaps (thr M))(h \<mapsto> t\<lparr>tc_sampler := s\<rparr>)\<rparr>"
  have I: "threads_ok (exactly F G (store (cent (thr M)))) (thr M) App" "sampled_ok F S G" using assms(1) by (simp_all add: mstate_def)
  have "mstate ?T App F S G" by (rule mstateI[OF threads_sampler[OF I(1) assms(2)] I(2)])
  moreover have "b \<longrightarrow> 0 < sz" using b by (auto simp: SampleAllocation_def split: if_splits prod.splits)
  ultimately show thesis
    using True b assms(2) by (intro that[of b ?T "t\<lparr>tc_sampler := s\<rparr>"]) (simp_all add: sample_now_def on_heap_def)
qed

section \<open>What a call hands out\<close>

definition memory_left :: "nat \<Rightarrow> malloc_state \<Rightarrow> bool" where
  "memory_left me M \<longleftrightarrow> thread_ready me (thr M) \<and> 4 \<le> room (the_heap M) \<and> 2 \<le> trace_room (the_heap M)"

definition same_words :: "(nat \<times> nat) set \<Rightarrow> malloc_state \<Rightarrow> malloc_state \<Rightarrow> bool" where
  "same_words B M M' \<longleftrightarrow> (\<forall>y \<in> bytes_of B. store (cent (thr M')) y = store (cent (thr M)) y)"

definition handed :: "(nat \<times> nat) set \<Rightarrow> nat \<Rightarrow> malloc_state \<Rightarrow> nat \<Rightarrow> malloc_state \<Rightarrow> bool" where
  "handed B sz M r M' \<longleftrightarrow> (if r = 0 then malloc_ok M' B else \<exists>n \<ge> sz. (\<forall>k. (r, k) \<notin> B) \<and> malloc_ok M' (insert (r, n) B))
     \<and> same_words B M M'"

definition same_mode :: "malloc_state \<Rightarrow> malloc_state \<Rightarrow> bool" where
  "same_mode M M' \<longleftrightarrow> tc_new_mode M' = tc_new_mode M \<and> new_handler M' = new_handler M \<and> hooks M' = hooks M \<and> pagesize M' = pagesize M"

lemma same_mode_refl [simp]: "same_mode M M"
  by (simp add: same_mode_def)

lemma same_mode_trans: "same_mode M M1 \<Longrightarrow> same_mode M1 M2 \<Longrightarrow> same_mode M M2"
  by (simp add: same_mode_def)

lemma malloc_okI: "module_up M \<Longrightarrow> mstate (thr M) App F S G \<Longrightarrow> malloc_ok M (blocks App F)"
  unfolding malloc_ok_def by blast

lemma handed_run:
  assumes "mstate (thr M) App F S G" "module_up M'" "mstate (thr M') App F' S' G'" "lends env st F n r F'" "pheap st = the_heap M"
    "sz \<le> n * kPageSize" "store (cent (thr M')) = store (cent (thr M))"
  shows "handed (blocks App F) sz M r M'"
proof -
  have w: "same_words (blocks App F) M M'" using assms(7) by (simp add: same_words_def)
  have ok: "malloc_ok M' (blocks App F')" by (rule malloc_okI[OF assms(2,3)])
  show ?thesis
  proof (cases "r = 0")
    case True
    then have "blocks App F' = blocks App F" using assms(4) by (simp add: lends_def blocks_def)
    then show ?thesis using True w ok by (simp add: handed_def)
  next
    case False
    then have l: "runs F' = insert (r, n * kPageSize) (runs F)" "r div kPageSize \<notin> used_pages (the_heap M)"
      using assms(4,5) by (simp_all add: lends_def)
    then have b: "blocks App F' = insert (r, n * kPageSize) (blocks App F)" by (auto simp: blocks_def)
    have "(r, k) \<notin> blocks App F" for k using block_facts(5)[OF assms(1), of r k] l(2) by blast
    then show ?thesis using False w ok assms(6) unfolding handed_def b by auto
  qed
qed

lemma New_m:
  assumes "mstate T App F S G" "memory_ready (cent T)" "0 < n"
  obtains r h' F' where "do { (sp, h) \<leftarrow> New env n (pheap (cent T)); case sp of None \<Rightarrow> Some (0, h) | Some p \<Rightarrow> SpanToMallocResult p h } = Some (r, h')"
    "mstate (T\<lparr>cent := (cent T)\<lparr>pheap := h'\<rparr>\<rparr>) App F' S G" "lends env (cent T) F n r F'"
proof (rule mstate_heap[OF assms(1)])
  fix Own
  assume O: "lent F S G (cent T) Own"
    and step: "\<And>F' S' G' h'. lent F' S' G' ((cent T)\<lparr>pheap := h'\<rparr>) Own \<Longrightarrow> mstate (T\<lparr>cent := (cent T)\<lparr>pheap := h'\<rparr>\<rparr>) App F' S' G'"
  obtain r h' F' where N: "do { (sp, h) \<leftarrow> New env n (pheap (cent T)); case sp of None \<Rightarrow> Some (0, h) | Some p \<Rightarrow> SpanToMallocResult p h } = Some (r, h')"
    "lent F' S G ((cent T)\<lparr>pheap := h'\<rparr>) Own" "lends env (cent T) F n r F'"
    by (rule New_lent[OF O assms(2,3), of env]) (rule that)
  show thesis by (rule that[OF N(1) step[OF N(2)] N(3)])
qed

lemma DoSampledAllocation_m:
  assumes "mstate T App F S G" "memory_ready (cent T)" "2 \<le> trace_room (pheap (cent T))" "0 < sz"
  obtains r h' F' S' G' where "DoSampledAllocation env sz (pheap (cent T)) = Some (r, h')"
    "mstate (T\<lparr>cent := (cent T)\<lparr>pheap := h'\<rparr>\<rparr>) App F' S' G'" "lends env (cent T) F (pages sz) r F'"
proof (rule mstate_heap[OF assms(1)])
  fix Own
  assume O: "lent F S G (cent T) Own"
    and step: "\<And>F' S' G' h'. lent F' S' G' ((cent T)\<lparr>pheap := h'\<rparr>) Own \<Longrightarrow> mstate (T\<lparr>cent := (cent T)\<lparr>pheap := h'\<rparr>\<rparr>) App F' S' G'"
  have s: "(if sz = 0 then 1 else sz) = sz" "0 < pages sz" using assms(4) by (auto simp: pages_def)
  obtain r h' F' S' G' where N: "DoSampledAllocation env sz (pheap (cent T)) = Some (r, h')"
    "lent F' S' G' ((cent T)\<lparr>pheap := h'\<rparr>) Own" "lends env (cent T) F (pages sz) r F'"
    by (rule DoSampledAllocation_lent[OF O assms(2,3), of sz env, unfolded s(1), OF s(2)]) (rule that)
  show thesis by (rule that[OF N(1) step[OF N(2)] N(3)])
qed

lemma CheckedMallocResult_object:
  assumes "central_with F G W st Own" "x \<in> Own c"
  shows "CheckedMallocResult x (pheap st) = Some x"
proof -
  obtain a t where t: "GetDescriptor (pheap st) (x div kPageSize) = Some (Sp a)" "mem (pheap st) (Sp a) = Some t" "sp_sizeclass t = c" "x \<noteq> 0"
    by (rule object_page[OF assms]) (rule that)
  have "GetSizeClassIfCached (pheap st) (x div kPageSize) \<in> {Some 0, Some c}" using object_cached[OF assms] by (simp add: cached_as_def)
  then show ?thesis using t by (auto simp: CheckedMallocResult_def CheckCachedSizeClass_def)
qed

text \<open>An object from the cache.\<close>

lemma cache_Allocate_m:
  assumes "mstate (thr M) App F S G" "heaps (thr M) h = Some t" "c \<in> classes" "memory_ready (cent (thr M))" "module_up M" "sz \<le> osz c"
  obtains r T' where "cache_Allocate env h (osz c) c (thr M) = Some (r, T')" "CheckedMallocResult r (pheap (cent T')) = Some r"
    "handed (blocks App F) sz M r (M\<lparr>thr := T'\<rparr>)" "\<And>d. d dvd osz c \<Longrightarrow> d dvd kPageSize \<Longrightarrow> d dvd r"
    "r = 0 \<longrightarrow> no_span env c (cent (thr M))"
proof -
  let ?T = "thr M"
  have I: "threads_ok (exactly F G (store (cent ?T))) ?T App" "sampled_ok F S G" using assms(1) by (simp_all add: mstate_def)
  obtain r T' where A: "cache_Allocate env h (osz c) c ?T = Some (r, T')"
    "r = 0 \<longrightarrow> no_span env c (cent ?T) \<and> threads_ok (exactly F G (store (cent ?T))) T' App"
    "r \<noteq> 0 \<longrightarrow> (\<forall>d. r \<notin> App d) \<and> threads_ok (exactly F G (store (cent ?T))) T' (App(c := insert r (App c)))"
    "undisturbed (held App) (cent ?T) (cent T')"
    by (rule guarded.cache_Allocate_ok[OF I(1) assms(2-4), of env]) (rule that)
  let ?M = "M\<lparr>thr := T'\<rparr>"
  obtain App' where App': "threads_ok (exactly F G (store (cent ?T))) T' App'" using A(2,3) by blast
  then obtain Own' where O': "exactly F G (store (cent ?T)) (cent T') Own'" unfolding threads_ok_def contents_def by blast
  have w: "same_words (blocks App F) M ?M"
    unfolding same_words_def
  proof
    fix y assume "y \<in> bytes_of (blocks App F)"
    then consider "y \<in> held App" | "lent_page F (y div kPageSize)" using bytes_of_blocks by blast
    then show "store (cent (thr ?M)) y = store (cent ?T) y"
    proof cases
      case 1
      then show ?thesis using A(4) by (simp add: undisturbed_def)
    next
      case 2
      then show ?thesis using central_withD(3)[OF exactlyD(1)[OF O']] unfolding lent_page_def by auto
    qed
  qed
  show thesis
  proof (cases "r = 0")
    case True
    then have "mstate T' App F S G" using A(2) I(2) by (intro mstateI) blast+
    then have "malloc_ok ?M (blocks App F)" using assms(5) by (intro malloc_okI) simp_all
    then show thesis using True A(1,2) w by (intro that[of 0 T']) (simp_all add: handed_def CheckedMallocResult_def)
  next
    case False
    let ?App = "App(c := insert r (App c))"
    have fr: "\<forall>d. r \<notin> App d" and t': "threads_ok (exactly F G (store (cent ?T))) T' ?App" using A(3) False by blast+
    have m': "mstate T' ?App F S G" by (rule mstateI[OF t' I(2)])
    obtain Own where O: "lent F S G (cent T') Own" "\<And>c. ?App c \<subseteq> Own c" by (rule mstate_heap[OF m']) (rule that)
    have W: "central_with F G (store (cent T')) (cent T') Own" using O(1) by (rule lentD(1))
    have r: "r \<in> Own c" using O(2)[of c] by auto
    have b: "blocks ?App F = insert (r, osz c) (blocks App F)" unfolding blocks_def by auto
    have "(r, k) \<notin> blocks App F" for k
    proof
      assume k: "(r, k) \<in> blocks App F"
      then have rr: "(r, k) \<in> runs F" using fr unfolding blocks_def by blast
      have "r \<in> bytes_of (runs F)" by (rule in_bytes[OF rr]) (use block_facts(1)[OF assms(1) k] in simp)
      then have "r \<notin> held Own" using bytes_of_runs lent_not_held[OF W] by blast
      then show False using held_in[of r Own c] r assms(3) by blast
    qed
    moreover have "malloc_ok ?M (insert (r, osz c) (blocks App F))" unfolding b[symmetric] using assms(5) m' by (intro malloc_okI) simp_all
    ultimately have hd: "handed (blocks App F) sz M r ?M" using False w assms(6) unfolding handed_def by auto
    have "d dvd r" if "d dvd osz c" "d dvd kPageSize" for d
    proof -
      obtain a t where t: "osz c dvd r - sp_start t * kPageSize" "sp_start t * kPageSize \<le> r" "mem (pheap (cent T')) (Sp a) = Some t"
        by (rule object_page[OF W r]) (rule that)
      have "d dvd (r - sp_start t * kPageSize) + sp_start t * kPageSize"
        by (rule dvd_add) (use dvd_trans[OF that(1) t(1)] dvd_mult[OF that(2), of "sp_start t"] in blast)+
      moreover have "(r - sp_start t * kPageSize) + sp_start t * kPageSize = r" using t(2) by (rule le_add_diff_inverse2)
      ultimately show ?thesis by metis
    qed
    then show thesis using False by (intro that[OF A(1) CheckedMallocResult_object[OF W r] hd]) simp_all
  qed
qed

text \<open>The alignment that a size promises.\<close>

lemma class_alignment_ok: "list_all (\<lambda>c. list_all (\<lambda>k. 8 * 2 ^ k \<le> osz c \<longrightarrow> 2 ^ k dvd osz c) [3..<14]) [1..<86]"
  by (simp add: class_size_table_simps upt_rec flip: numeral_2_eq_2)

lemma AlignmentForSize_form:
  assumes "AlignmentForSize sz = Some a"
  shows "\<exists>k. a = 2 ^ k \<and> 2 ^ k dvd kPageSize \<and> 3 \<le> k \<and> (128 \<le> sz \<and> sz \<le> kMaxSize \<longrightarrow> 8 * 2 ^ k \<le> sz)"
proof (cases "sz = 0")
  case True
  then have "a = 2 ^ 3" using assms by (auto simp: AlignmentForSize_def split: if_splits)
  then show ?thesis using True by (intro exI[of _ 3]) simp
next
  case False
  then have "0 < sz" by simp
  from AlignmentForSize_correct[OF this] show ?thesis using assms by auto
qed

lemma AlignmentForSize_dvd:
  assumes "AlignmentForSize sz = Some a"
  shows "a dvd kPageSize" "c \<in> classes \<Longrightarrow> sz \<le> osz c \<Longrightarrow> sz \<le> kMaxSize \<Longrightarrow> a dvd osz c"
proof -
  obtain k where k: "a = 2 ^ k" "2 ^ k dvd kPageSize" "3 \<le> k" "128 \<le> sz \<and> sz \<le> kMaxSize \<longrightarrow> 8 * 2 ^ k \<le> sz"
    using AlignmentForSize_form[OF assms] by blast
  then show "a dvd kPageSize" by simp
  assume c: "c \<in> classes" "sz \<le> osz c" "sz \<le> kMaxSize"
  have e: "class_entry_ok c" using class_table_entry c(1) by simp
  show "a dvd osz c"
  proof (cases "128 \<le> sz")
    case True
    then have le: "8 * 2 ^ k \<le> osz c" using k(4) c(2,3) by linarith
    have "(2 :: nat) ^ k \<le> 2 ^ 13" using dvd_imp_le[OF k(2)] by simp
    then have "k < 14" using power_le_imp_le_exp[of "2 :: nat" k 13] by simp
    then have "k \<in> set [3..<14]" "c \<in> set [1..<86]" using k(3) c(1) by (simp_all only: set_upt atLeastLessThan_iff kNumClasses_def)
    then show ?thesis using class_alignment_ok k(1) le unfolding list_all_iff by blast
  next
    case False
    then have "a = (if sz \<ge> 16 then 16 else 8)" using assms by (auto simp: AlignmentForSize_def split: if_splits)
    then show ?thesis using e c(2) by (auto simp: class_entry_ok_def Let_def)
  qed
qed

text \<open>The class of a size.\<close>

lemma SizeClass_ok:
  assumes "sz \<le> kMaxSize"
  shows "SizeClass init_sizemap sz \<in> classes" "sz \<le> osz (SizeClass init_sizemap sz)"
proof -
  obtain k where k: "1 \<le> k" "k < kNumClasses" "sz \<le> class_size_table k" "\<And>i. 1 \<le> i \<Longrightarrow> i < k \<Longrightarrow> class_size_table i < sz"
    using least_class_exists[OF assms] by blast
  have "SizeClass init_sizemap sz = k" using SizeClass_least[OF k, of init_sizemap] by (simp add: init_sizemap_def)
  then show "SizeClass init_sizemap sz \<in> classes" "sz \<le> osz (SizeClass init_sizemap sz)" using k(1-3) by simp_all
qed

lemma mstate_sizes: "mstate T App F S G \<Longrightarrow> smap (cent T) = init_sizemap"
  unfolding mstate_def threads_ok_def contents_def using guarded.map_law by blast

section \<open>do_malloc\<close>

text \<open>A large or sampled allocation by the thread with cache \<open>h\<close>.\<close>

lemma handed_heap:
  assumes "mstate (thr M) App F S G" "module_up M" "mstate T App F S G" "cent T = cent (thr M)" "mstate (T\<lparr>cent := (cent T)\<lparr>pheap := h'\<rparr>\<rparr>) App F' S' G'"
    "lends env (cent T) F n r F'" "sz \<le> n * kPageSize" "module_up M'" "thr M' = T\<lparr>cent := (cent T)\<lparr>pheap := h'\<rparr>\<rparr>"
  shows "handed (blocks App F) sz M r M'"
  by (rule handed_run[OF assms(1,8) _ assms(6) _ assms(7)]) (use assms(4,5,9) in simp_all)

lemma lends_aligned: "lends env st F n r F' \<Longrightarrow> a dvd kPageSize \<Longrightarrow> a dvd r"
  by (auto simp: lends_def split: if_splits intro: dvd_trans)

lemma pages_span_bytes:
  assumes "0 < span_bytes (pages sz)" "sz < two64"
  shows "pages (span_bytes (pages sz)) = pages sz"
proof -
  have "pages sz \<le> 2 ^ 51"
  proof -
    have "sz \<le> 2 ^ 51 * kPageSize" using assms(2) by (simp add: two64_def)
    then show ?thesis using pages_least[of sz] by blast
  qed
  moreover have "pages sz \<noteq> 2 ^ 51" using assms(1) by (auto simp: span_bytes_def two64_def)
  ultimately have "pages sz < 2 ^ 51" by simp
  then have "span_bytes (pages sz) = pages sz * kPageSize" by (simp add: span_bytes_def two64_def)
  then show ?thesis by (simp add: pages_def)
qed

lemma osz_mono: "c \<in> classes \<Longrightarrow> d \<in> classes \<Longrightarrow> c \<le> d \<Longrightarrow> osz c \<le> osz d"
  using class_size_strict_mono by (cases "c = d") (auto simp: strict_mono_on_def intro: less_imp_le)

lemma osz_pages:
  assumes "c \<in> classes"
  shows "0 < pages (osz c)" "pages (osz c) \<le> 32"
proof -
  have "osz c \<le> kMaxSize" using osz_mono[of c "kNumClasses - 1"] assms class_size_last by simp
  then have "osz c \<le> 32 * kPageSize" by simp
  then show "pages (osz c) \<le> 32" using pages_least[of "osz c"] by blast
  show "0 < pages (osz c)" using class_facts(1)[OF assms] by (auto simp: pages_def)
qed

text \<open>The page heap cannot give as many pages as a request for \<open>sz\<close> bytes may need.\<close>

definition short_of :: "env \<Rightarrow> nat \<Rightarrow> pageheap \<Rightarrow> bool" where
  "short_of env sz h \<longleftrightarrow> (\<exists>k h'. 0 < k \<and> k \<le> max 32 (pages sz) \<and> New env k h = Some (None, h'))"

lemma short_ofI: "New env k h = Some (None, h') \<Longrightarrow> 0 < k \<Longrightarrow> k \<le> max 32 (pages sz) \<Longrightarrow> short_of env sz h"
  unfolding short_of_def by blast

lemma lends_short:
  assumes "lends env st F n 0 F'" "0 < n" "n \<le> max 32 (pages sz)"
  shows "short_of env sz (pheap st)"
  using assms by (auto simp: lends_def intro: short_ofI)

lemma no_span_short:
  assumes "no_span env c st" "c \<in> classes" "smap st = init_sizemap"
  shows "short_of env sz (pheap st)"
  using assms class_facts(2,3)[OF assms(2)] by (auto simp: no_span_def sizemap_facts intro!: short_ofI)

lemma do_malloc_pages_ok:
  assumes "mstate (thr M) App F S G" "heaps (thr M) h = Some t" "memory_ready (cent (thr M))" "2 \<le> trace_room (the_heap M)" "module_up M" "0 < sz" "sz < two64"
  obtains r M' where "do_malloc_pages env h sz M = Some (r, M')" "handed (blocks App F) sz M r M'" "same_mode M M'" "kPageSize dvd r"
    "r = 0 \<Longrightarrow> short_of (penv env) sz (the_heap M)"
proof -
  let ?n = "pages sz"
  have n: "0 < ?n" "sz \<le> ?n * kPageSize" using assms(6) pages_least[of sz] by (auto simp: pages_def)
  obtain b T where b: "sample_now env h (span_bytes ?n) M = Some (b, M\<lparr>thr := T\<rparr>)" "mstate T App F S G" "cent T = cent (thr M)"
    "b \<longrightarrow> 0 < span_bytes ?n"
    by (rule sample_now_ok[OF assms(1,2), of env "span_bytes ?n"]) (rule that)
  have rd: "memory_ready (cent T)" "2 \<le> trace_room (pheap (cent T))" using assms(3,4) b(3) by simp_all
  obtain r h' F' S' G' where R: "(if b then DoSampledAllocation (penv env) (span_bytes ?n) (pheap (cent T))
        else do { (sp, h) \<leftarrow> New (penv env) ?n (pheap (cent T)); case sp of None \<Rightarrow> Some (0, h) | Some p \<Rightarrow> SpanToMallocResult p h }) = Some (r, h')"
    "mstate (T\<lparr>cent := (cent T)\<lparr>pheap := h'\<rparr>\<rparr>) App F' S' G'" "lends (penv env) (cent T) F ?n r F'"
  proof (cases b)
    case False
    obtain r h' F' where "do { (sp, h) \<leftarrow> New (penv env) ?n (pheap (cent T)); case sp of None \<Rightarrow> Some (0, h) | Some p \<Rightarrow> SpanToMallocResult p h } = Some (r, h')"
      "mstate (T\<lparr>cent := (cent T)\<lparr>pheap := h'\<rparr>\<rparr>) App F' S G" "lends (penv env) (cent T) F ?n r F'"
      by (rule New_m[OF b(2) rd(1) n(1), of "penv env"]) (rule that)
    then show thesis using False that by simp
  next
    case True
    have z: "0 < span_bytes ?n" using b(4) True by blast
    have pg: "pages (span_bytes ?n) = ?n" by (rule pages_span_bytes[OF z assms(7)])
    obtain r h' F' S' G' where "DoSampledAllocation (penv env) (span_bytes ?n) (pheap (cent T)) = Some (r, h')"
      "mstate (T\<lparr>cent := (cent T)\<lparr>pheap := h'\<rparr>\<rparr>) App F' S' G'" "lends (penv env) (cent T) F ?n r F'"
      by (rule DoSampledAllocation_m[OF b(2) rd z, of "penv env", unfolded pg]) (rule that)
    then show thesis using True that by simp
  qed
  let ?T = "T\<lparr>cent := (cent T)\<lparr>pheap := h'\<rparr>\<rparr>" and ?t = "should_report_large ?n (large_alloc_threshold M)"
  define M' where "M' = (if fst ?t then ReportLargeAlloc ?n r (M\<lparr>thr := ?T, large_alloc_threshold := snd ?t\<rparr>) else M\<lparr>thr := ?T, large_alloc_threshold := snd ?t\<rparr>)"
  have M': "thr M' = ?T" "module_up M'" "same_mode M M'" using assms(5) by (simp_all add: M'_def ReportLargeAlloc_def same_mode_def)
  have e: "the_heap (M\<lparr>thr := T\<rparr>) = pheap (cent T)" "with_heap h' (M\<lparr>thr := T\<rparr>) = M\<lparr>thr := ?T\<rparr>" by (simp_all add: with_heap_def)
  have "do_malloc_pages env h sz M = Some (r, M')"
    unfolding do_malloc_pages_def Let_def b(1) Option.bind.simps prod.case e R(1) by (simp add: M'_def split: prod.split)
  moreover have so: "short_of (penv env) sz (the_heap M)" if "r = 0"
    using lends_short[OF R(3)[unfolded that] n(1), of sz] b(3) by simp
  moreover have "handed (blocks App F) sz M r M'" by (rule handed_heap[OF assms(1,5) b(2,3) R(2,3) n(2) M'(2,1)])
  ultimately show thesis using that[of r M'] M'(3) lends_aligned[OF R(3), of kPageSize] by simp
qed

lemma malloc_ok_cong: "thr M' = thr M \<Longrightarrow> module_up M' = module_up M \<Longrightarrow> malloc_ok M' B = malloc_ok M B"
  by (simp add: malloc_ok_def)

lemma handed_cong: "thr M'' = thr M' \<Longrightarrow> module_up M'' = module_up M' \<Longrightarrow> handed B sz M r M'' = handed B sz M r M'"
  unfolding handed_def same_words_def by (simp add: malloc_ok_cong[of M'' M'])

lemma handed_trans:
  assumes "handed B sz M1 r M'" "store (cent (thr M1)) = store (cent (thr M))"
  shows "handed B sz M r M'"
  using assms unfolding handed_def same_words_def by simp

lemma do_malloc_ok:
  assumes "malloc_ok M B" "memory_left me M" "sz < two64"
  obtains r M' where "do_malloc env me sz M = Some (r, M')" "handed B sz M r M'" "same_mode M M'" "r = 0 \<longrightarrow> errno M' me = ENOMEM"
    "\<And>a. AlignmentForSize sz = Some a \<Longrightarrow> a dvd r" "r = 0 \<Longrightarrow> short_of (penv env) sz (the_heap M)"
proof -
  obtain App F S G where I: "module_up M" "mstate (thr M) App F S G" "B = blocks App F" using assms(1) unfolding malloc_ok_def by blast
  have tr: "thread_ready me (thr M)" "memory_ready (cent (thr M))" "2 \<le> trace_room (the_heap M)"
    using assms(2) by (simp_all add: memory_left_def memory_ready_def)
  obtain h T t where g: "GetCache (sample_interval env) (raw_cache env) me (thr M) = Some (h, T)" "mstate T App F S G" "heaps T h = Some t" "cent T = cent (thr M)"
    by (rule GetCache_m[OF I(2) tr(1), of "sample_interval env" "raw_cache env"]) (rule that)
  have up: "(if tsd_inited (thr M) then Some M else InitModule env M) = Some M" using I(1) by (simp add: InitModule_def)
  let ?M1 = "M\<lparr>thr := T\<rparr>"
  have m1: "mstate (thr ?M1) App F S G" "heaps (thr ?M1) h = Some t" "module_up ?M1" "memory_ready (cent (thr ?M1))" "2 \<le> trace_room (the_heap ?M1)"
    using g tr I(1) by simp_all
  have sz: "smap (cent T) = init_sizemap" using mstate_sizes[OF g(2)] .
  obtain r M2 where R: "(if sz \<le> kMaxSize then do {
          let cl = SizeClass (the_sizes ?M1) sz;
          let sz = class_to_size (the_sizes ?M1) cl;
          (b, M) \<leftarrow> sample_now env h sz ?M1;
          if b then do {
            (r, h) \<leftarrow> DoSampledAllocation (penv env) sz (the_heap M);
            Some (r, with_heap h M) }
          else do {
            (r, S) \<leftarrow> cache_Allocate (penv env) h sz cl (thr M);
            r \<leftarrow> CheckedMallocResult r (pheap (cent S));
            Some (r, M\<lparr>thr := S\<rparr>) } }
        else do_malloc_pages env h sz ?M1) = Some (r, M2)"
    "handed B sz ?M1 r M2" "same_mode ?M1 M2" "\<And>a. AlignmentForSize sz = Some a \<Longrightarrow> a dvd r"
    "r = 0 \<Longrightarrow> short_of (penv env) sz (the_heap ?M1)"
  proof (cases "sz \<le> kMaxSize")
    case False
    have s0: "0 < sz" using False by simp
    obtain r M2 where "do_malloc_pages env h sz ?M1 = Some (r, M2)" "handed (blocks App F) sz ?M1 r M2" "same_mode ?M1 M2" "kPageSize dvd r"
      "r = 0 \<Longrightarrow> short_of (penv env) sz (the_heap ?M1)"
      by (rule do_malloc_pages_ok[OF m1(1,2,4,5,3) s0 assms(3), of env]) (rule that)
    then show thesis using False I(3) dvd_trans[OF AlignmentForSize_dvd(1)] that by simp
  next
    case True
    define c where "c = SizeClass init_sizemap sz"
    note c = SizeClass_ok[OF True, folded c_def]
    obtain b T2 t2 where b: "sample_now env h (osz c) ?M1 = Some (b, ?M1\<lparr>thr := T2\<rparr>)" "mstate T2 App F S G" "heaps T2 h = Some t2" "cent T2 = cent (thr ?M1)"
      by (rule sample_now_ok[OF m1(1,2), of env "osz c"]) (rule that)
    let ?M2 = "M\<lparr>thr := T2\<rparr>"
    show thesis
    proof (cases b)
      case True
      have o: "0 < osz c" using class_facts(1)[OF c(1)] by simp
      have m2: "memory_ready (cent T2)" "2 \<le> trace_room (pheap (cent T2))" using m1(4,5) b(4) by simp_all
      obtain r h' F' S' G' where D: "DoSampledAllocation (penv env) (osz c) (pheap (cent T2)) = Some (r, h')"
        "mstate (T2\<lparr>cent := (cent T2)\<lparr>pheap := h'\<rparr>\<rparr>) App F' S' G'" "lends (penv env) (cent T2) F (pages (osz c)) r F'"
        by (rule DoSampledAllocation_m[OF b(2) m2 o, of "penv env"]) (rule that)
      have le: "sz \<le> pages (osz c) * kPageSize" using pages_least[of "osz c"] c(2) by linarith
      let ?M3 = "with_heap h' ?M2"
      have M3: "module_up ?M3" "thr ?M3 = T2\<lparr>cent := (cent T2)\<lparr>pheap := h'\<rparr>\<rparr>" using I(1) by (simp_all add: with_heap_def)
      have "handed B sz ?M1 r ?M3" unfolding I(3) by (rule handed_heap[OF m1(1,3) b(2) b(4) D(2,3) le M3])
      moreover have "short_of (penv env) sz (the_heap ?M1)" if "r = 0"
        using lends_short[OF D(3)[unfolded that] osz_pages(1)[OF c(1)], of sz] osz_pages(2)[OF c(1)] b(4) by simp
      moreover have "same_mode ?M1 ?M3" by (simp add: same_mode_def with_heap_def)
      ultimately show thesis
        using that[of r ?M3] \<open>sz \<le> kMaxSize\<close> True b(1) D(1) lends_aligned[OF D(3)] AlignmentForSize_dvd(1)
        by (simp add: sz sizemap_facts(3) Let_def c_def)
    next
      case False
      have m2: "mstate (thr ?M2) App F S G" "heaps (thr ?M2) h = Some t2" "memory_ready (cent (thr ?M2))" "module_up ?M2" using m1(3,4) b by simp_all
      obtain r T3 where A: "cache_Allocate (penv env) h (osz c) c (thr ?M2) = Some (r, T3)" "CheckedMallocResult r (pheap (cent T3)) = Some r"
        "handed (blocks App F) sz ?M2 r (?M2\<lparr>thr := T3\<rparr>)" "\<And>d. d dvd osz c \<Longrightarrow> d dvd kPageSize \<Longrightarrow> d dvd r"
        "r = 0 \<longrightarrow> no_span (penv env) c (cent (thr ?M2))"
        by (rule cache_Allocate_m[OF m2(1,2) c(1) m2(3,4) c(2), of "penv env"]) (rule that)
      have "handed B sz ?M1 r (M\<lparr>thr := T3\<rparr>)" unfolding I(3) by (rule handed_trans[where ?M1.0 = ?M2]) (use A(3) b(4) in simp_all)
      moreover have "short_of (penv env) sz (the_heap ?M1)" if "r = 0"
        using no_span_short[of "penv env" c "cent T2" sz] A(5) that c(1) b(4) sz by simp
      moreover have "same_mode ?M1 (M\<lparr>thr := T3\<rparr>)" by (simp add: same_mode_def)
      moreover have "a dvd r" if "AlignmentForSize sz = Some a" for a
        by (rule A(4)[OF AlignmentForSize_dvd(2)[OF that c \<open>sz \<le> kMaxSize\<close>] AlignmentForSize_dvd(1)[OF that]])
      ultimately show thesis
        using that[of r "M\<lparr>thr := T3\<rparr>"] \<open>sz \<le> kMaxSize\<close> False b(1) A(1,2)
        by (simp add: sz sizemap_facts(3) Let_def c_def)
    qed
  qed
  let ?M' = "if r = 0 then M2\<lparr>errno := (errno M2)(me := ENOMEM)\<rparr> else M2"
  have D: "do_malloc env me sz M = Some (r, ?M')"
    unfolding do_malloc_def up Option.bind.simps g(1) prod.case Let_def[of "M\<lparr>thr := T\<rparr>"] R(1) by (rule refl)
  have "handed B sz M r M2" by (rule handed_trans[OF R(2)]) (simp add: g(4))
  then have "handed B sz M r ?M'" by (subst handed_cong[of _ M2]) simp_all
  moreover have "same_mode M ?M'" using R(3) by (simp add: same_mode_def)
  ultimately show thesis using that[OF D] R(4,5) g(4) by simp
qed

end
