(* ===== verification/TcmallocFree.thy ===== *)
theory TcmallocFree
  imports TcmallocOps
begin

text \<open>
  Deallocation, the size of a block, and \<open>realloc\<close>.
\<close>

section \<open>Looking a block up\<close>

lemma cache_class_lent:
  assumes "lent F S G st Own" "CacheSizeClass k c (pheap st) = Some h'"
    "\<And>a t. mem (pheap st) (Sp a) = Some t \<Longrightarrow> sp_location t = IN_USE \<Longrightarrow> k \<in> {sp_start t..<sp_start t + sp_length t} \<Longrightarrow> sp_sizeclass t \<noteq> 0
       \<Longrightarrow> c \<in> {0, sp_sizeclass t}"
    "\<And>a t. F (Sp a) = Some t \<Longrightarrow> k = sp_start t \<Longrightarrow> c = 0"
  shows "lent F S G (st\<lparr>pheap := h'\<rparr>) Own"
proof -
  have I: "central_with F G (store st) st Own" "sampled_ok F S G" "unclassed (pheap st) \<subseteq> {a. F (Sp a) \<noteq> None}" using lentD[OF assms(1)] by blast+
  have hok: "heap_ok (pheap st)" using central_withD(1)[OF I(1)] cinvD(2) unfolding central_ok_def by blast
  obtain ca where h': "h' = (pheap st)\<lparr>pagemap_cache := ca\<rparr>" using assms(2) by (auto simp: CacheSizeClass_def)
  have T: "tagged F G h'" by (rule CacheSizeClass_tagged[OF central_withD(2)[OF I(1)] hok assms(2-4)])
  have ok': "heap_ok h'" using hok by (simp add: h' heap_ok_def heap_at_def)
  have g: "GetDescriptor h' = GetDescriptor (pheap st)" by (rule GetDescriptor_cong) (simp add: h')
  have "central_with F G (store st) (st\<lparr>pheap := h'\<rparr>) Own"
    by (rule central_swap[OF I(1) _ ok' _ _ T, of "{}"]) (simp_all add: g, simp add: h')
  moreover have "unclassed h' = unclassed (pheap st)" by (rule unclassed_cong) (simp add: h')
  ultimately show ?thesis using I(2,3) by (intro lentI) simp_all
qed

text \<open>The size class of an object, from the cache or from the descriptor.\<close>

lemma object_lookup:
  assumes "lent F S G st Own" "x \<in> Own c"
  obtains a t where "GetDescriptor (pheap st) (x div kPageSize) = Some (Sp a)" "mem (pheap st) (Sp a) = Some t" "sp_sizeclass t = c" "\<not> sp_sample t"
    "c \<in> classes" "x \<noteq> 0" "GetSizeClassIfCached (pheap st) (x div kPageSize) \<in> {Some 0, Some c}"
    "\<exists>h'. CacheSizeClass (x div kPageSize) c (pheap st) = Some h' \<and> lent F S G (st\<lparr>pheap := h'\<rparr>) Own"
proof -
  have I: "central_with F G (store st) st Own" using assms(1) by (rule lentD(1))
  have hok: "heap_ok (pheap st)" using central_withD(1)[OF I] cinvD(2) unfolding central_ok_def by blast
  note T = central_withD(2)[OF I]
  obtain a t where t: "GetDescriptor (pheap st) (x div kPageSize) = Some (Sp a)" "mem (pheap st) (Sp a) = Some t" "sp_sizeclass t = c"
    "sp_location t = IN_USE" "x div kPageSize \<in> {sp_start t..<sp_start t + sp_length t}" "c \<in> classes" "x \<noteq> 0" "x div kPageSize < 2 ^ 35" "F (Sp a) = None"
    by (rule object_page[OF I assms(2)]) (rule that)
  have c: "c < 128" using t(6) by simp
  obtain ca where ca: "CacheSizeClass (x div kPageSize) c (pheap st) = Some ((pheap st)\<lparr>pagemap_cache := ca\<rparr>)"
    using CacheSizeClass_defined[OF t(8) c] by blast
  have "lent F S G (st\<lparr>pheap := (pheap st)\<lparr>pagemap_cache := ca\<rparr>\<rparr>) Own"
  proof (rule cache_class_lent[OF assms(1) ca])
    show "c \<in> {0, sp_sizeclass u}" if "mem (pheap st) (Sp b) = Some u" "sp_location u = IN_USE" "x div kPageSize \<in> {sp_start u..<sp_start u + sp_length u}" for b u
      using same_page_span[OF hok t(2,4) that(1,2) t(5) that(3)] that(1) t(2,3) by simp
    show "c = 0" if "F (Sp b) = Some u" "x div kPageSize = sp_start u" for b u
    proof -
      note L = lent_span[OF I that(1)]
      have "x div kPageSize \<in> {sp_start u..<sp_start u + sp_length u}" using that(2) L(6) by simp
      then have "a = b" by (rule same_page_span[OF hok t(2,4) L(1,2) t(5)])
      then show ?thesis using t(9) that(1) by simp
    qed
  qed
  moreover have "\<not> sp_sample t" using taggedD(7)[OF T t(2)] t(3,6) by simp
  ultimately show thesis using t object_cached[OF I assms(2)] ca unfolding cached_as_def by (intro that[of a t]) blast+
qed

section \<open>do_free\<close>

lemma mstate_Deallocate:
  assumes "mstate T App F S G" "x \<in> App c" "heaps T h = Some t"
  obtains T' where "Deallocate env h x c T = Some T'" "mstate T' (App(c := App c - {x})) F S G"
    "\<And>y. y \<in> held (App(c := App c - {x})) \<or> lent_page F (y div kPageSize) \<Longrightarrow> store (cent T') y = store (cent T) y"
proof -
  have I: "threads_ok (exactly F G (store (cent T))) T App" "sampled_ok F S G" using assms(1) by (simp_all add: mstate_def)
  obtain T' where D: "Deallocate env h x c T = Some T'" "threads_ok (exactly F G (store (cent T))) T' (App(c := App c - {x}))"
    "undisturbed (held (App(c := App c - {x}))) (cent T) (cent T')"
    by (rule guarded.cache_Deallocate_ok[OF I(1) assms(3,2), of env]) (rule that)
  obtain Own where O: "exactly F G (store (cent T)) (cent T') Own" using D(2) unfolding threads_ok_def contents_def by blast
  show thesis
  proof (rule that[OF D(1) mstateI[OF D(2) I(2)]])
    fix y assume "y \<in> held (App(c := App c - {x})) \<or> lent_page F (y div kPageSize)"
    then show "store (cent T') y = store (cent T) y"
      using D(3) central_withD(3)[OF exactlyD(1)[OF O]] unfolding undisturbed_def lent_page_def by blast
  qed
qed

lemma free_object:
  assumes "mstate (thr M) App F S G" "x \<in> App c" "module_up M"
  obtains M' where "do_free_with_callback env me x f M = Some M'" "mstate (thr M') (App(c := App c - {x})) F S G" "same_mode M M'" "module_up M'"
    "\<And>y. y \<in> held (App(c := App c - {x})) \<or> lent_page F (y div kPageSize) \<Longrightarrow> store (cent (thr M')) y = store (cent (thr M)) y"
proof -
  let ?p = "x div kPageSize"
  obtain Own where O: "lent F S G (cent (thr M)) Own" "\<And>d. App d \<subseteq> Own d"
    and step: "\<And>F' S' G' h'. lent F' S' G' ((cent (thr M))\<lparr>pheap := h'\<rparr>) Own \<Longrightarrow> mstate ((thr M)\<lparr>cent := (cent (thr M))\<lparr>pheap := h'\<rparr>\<rparr>) App F' S' G'"
    by (rule mstate_heap[OF assms(1)]) (rule that)
  have xo: "x \<in> Own c" using assms(2) O(2) by blast
  obtain a t where t: "GetDescriptor (the_heap M) ?p = Some (Sp a)" "mem (the_heap M) (Sp a) = Some t" "sp_sizeclass t = c" "\<not> sp_sample t"
    "c \<in> classes" "x \<noteq> 0" "GetSizeClassIfCached (the_heap M) ?p \<in> {Some 0, Some c}"
    "\<exists>h'. CacheSizeClass ?p c (the_heap M) = Some h' \<and> lent F S G ((cent (thr M))\<lparr>pheap := h'\<rparr>) Own"
    by (rule object_lookup[OF O(1) xo]) (rule that)
  have c0: "c \<noteq> 0" using t(5) by simp
  obtain cached spo M1 where L: "GetSizeClassIfCached (the_heap M) ?p = Some cached"
    "(if cached = 0 then (case GetDescriptor (the_heap M) ?p of None \<Rightarrow> Some None
          | Some sp \<Rightarrow> do { s \<leftarrow> mem (the_heap M) sp; h \<leftarrow> CacheSizeClass ?p (sp_sizeclass s) (the_heap M);
                Some (Some (Some sp, sp_sizeclass s, with_heap h M)) })
        else Some (Some (None, cached, M))) = Some (Some (spo, c, M1))"
    "mstate (thr M1) App F S G" "same_mode M M1" "module_up M1" "store (cent (thr M1)) = store (cent (thr M))"
  proof (cases "GetSizeClassIfCached (the_heap M) ?p = Some c")
    case True
    then show thesis using assms(1,3) c0 by (intro that[of c None M]) simp_all
  next
    case False
    then have z: "GetSizeClassIfCached (the_heap M) ?p = Some 0" using t(7) by simp
    obtain h' where h': "CacheSizeClass ?p c (the_heap M) = Some h'" "lent F S G ((cent (thr M))\<lparr>pheap := h'\<rparr>) Own" using t(8) by blast
    show thesis
      by (rule that[OF z, of "Some (Sp a)" "with_heap h' M"])
        (use t(1-3) h'(1) step[OF h'(2)] assms(3) in \<open>simp_all add: with_heap_def same_mode_def\<close>)
  qed
  obtain Own1 where O1: "lent F S G (cent (thr M1)) Own1" "\<And>d. App d \<subseteq> Own1 d" by (rule mstate_heap[OF L(3)]) (rule that)
  have xo1: "x \<in> Own1 c" using assms(2) O1(2) by blast
  obtain b u where u: "GetDescriptor (the_heap M1) ?p = Some (Sp b)" "mem (the_heap M1) (Sp b) = Some u" "\<not> sp_sample u"
    by (rule object_lookup[OF O1(1) xo1]) (rule that)
  let ?App = "App(c := App c - {x})"
  obtain M' where R: "(if GetCacheIfPresent me (thr M1) \<noteq> 0 then do {
                 S \<leftarrow> Deallocate (penv env) (GetCacheIfPresent me (thr M1)) x c (thr M1);
                 Some (M1\<lparr>thr := S\<rparr>) }
               else do {
                 w \<leftarrow> SLL_SetNext x 0 (store (cent (thr M1)));
                 st \<leftarrow> InsertRange (penv env) c x x 1 ((cent (thr M1))\<lparr>store := w\<rparr>);
                 Some (M1\<lparr>thr := (thr M1)\<lparr>cent := st\<rparr>\<rparr>) }) = Some M'"
    "mstate (thr M') ?App F S G" "same_mode M1 M'" "module_up M'"
    "\<And>y. y \<in> held ?App \<or> lent_page F (y div kPageSize) \<Longrightarrow> store (cent (thr M')) y = store (cent (thr M1)) y"
  proof (cases "GetCacheIfPresent me (thr M1) \<noteq> 0")
    case True
    obtain hs where Rg: "registry (thr M1) hs" using L(3) unfolding mstate_def threads_ok_def by blast
    obtain v where v: "heaps (thr M1) (GetCacheIfPresent me (thr M1)) = Some v"
      using True registryD(9)[OF Rg, of me] by (auto simp: GetCacheIfPresent_def split: if_splits)
    obtain T' where D: "Deallocate (penv env) (GetCacheIfPresent me (thr M1)) x c (thr M1) = Some T'" "mstate T' ?App F S G"
      "\<And>y. y \<in> held ?App \<or> lent_page F (y div kPageSize) \<Longrightarrow> store (cent T') y = store (cent (thr M1)) y"
      by (rule mstate_Deallocate[OF L(3) assms(2) v, of "penv env"]) (rule that)
    show thesis by (rule that[of "M1\<lparr>thr := T'\<rparr>"]) (use True D L(5) in \<open>simp_all add: same_mode_def\<close>)
  next
    case False
    obtain w st' where D: "SLL_SetNext x 0 (store (cent (thr M1))) = Some w" "InsertRange (penv env) c x x 1 ((cent (thr M1))\<lparr>store := w\<rparr>) = Some st'"
      "mstate ((thr M1)\<lparr>cent := st'\<rparr>) ?App F S G"
      "\<And>y. y \<in> held ?App \<or> lent_page F (y div kPageSize) \<Longrightarrow> store st' y = store (cent (thr M1)) y"
      by (rule mstate_insert[OF L(3) assms(2), of "penv env"]) (rule that)
    show thesis by (rule that[of "M1\<lparr>thr := (thr M1)\<lparr>cent := st'\<rparr>\<rparr>"]) (use False D L(5) in \<open>simp_all add: same_mode_def\<close>)
  qed
  have up: "(\<not> module_up M) = False" "(x = 0) = False" "(c \<noteq> 0) = True" using assms(3) t(6) c0 by simp_all
  have ck: "check (\<not> sp_sample u) = Some ()" using u(3) by simp
  have "do_free_with_callback env me x f M = Some M'"
    unfolding do_free_with_callback_def Let_def up if_False if_True L(1,2) Option.bind.simps option.case prod.case u(1,2) ck R(1) by (rule refl)
  then show thesis by (rule that) (use R L(4,6) same_mode_trans in auto)
qed

lemma free_run:
  assumes "mstate (thr M) App F S G" "F (Sp a) = Some t" "module_up M"
  obtains M' F' S' G' where "do_free_with_callback env me (sp_start t * kPageSize) f M = Some M'" "mstate (thr M') App F' S' G'" "same_mode M M'"
    "module_up M'" "store (cent (thr M')) = store (cent (thr M))" "runs F' = runs F - {(sp_start t * kPageSize, sp_length t * kPageSize)}"
proof -
  let ?p = "sp_start t" and ?st = "cent (thr M)"
  obtain Own where O: "lent F S G ?st Own"
    and step: "\<And>F' S' G' h'. lent F' S' G' (?st\<lparr>pheap := h'\<rparr>) Own \<Longrightarrow> mstate ((thr M)\<lparr>cent := ?st\<lparr>pheap := h'\<rparr>\<rparr>) App F' S' G'"
    by (rule mstate_heap[OF assms(1)]) (rule that)
  have I: "central_with F G (store ?st) ?st Own" using O by (rule lentD(1))
  note L = lent_span[OF I assms(2)]
  obtain ca where ca: "CacheSizeClass ?p 0 (the_heap M) = Some ((the_heap M)\<lparr>pagemap_cache := ca\<rparr>)"
    using CacheSizeClass_defined[OF L(8), of 0] by auto
  let ?h = "(the_heap M)\<lparr>pagemap_cache := ca\<rparr>"
  let ?st1 = "?st\<lparr>pheap := ?h\<rparr>" and ?M1 = "with_heap ?h M"
  have O1: "lent F S G ?st1 Own" by (rule cache_class_lent[OF O ca]) simp_all
  obtain h' F1 S1 G1 where B: "do {
       h \<leftarrow> (if sp_sample t then do {
           let st' = sp_objects t;
           h \<leftarrow> on_lists_of (DLL_Remove (Sp a)) (pheap ?st1);
           let h = h\<lparr>stacktrace_allocator := pha_Delete st' (stacktrace_allocator h), traces := (traces h)(st' := None)\<rparr>;
           modify (Sp a) (\<lambda>s. s\<lparr>sp_objects := 0\<rparr>) h } else Some (pheap ?st1));
       Delete (penv env) (Sp a) h } = Some h'"
    "lent F1 S1 G1 (?st1\<lparr>pheap := h'\<rparr>) Own" "runs F1 = runs F - {(sp_start t * kPageSize, sp_length t * kPageSize)}"
    by (rule give_back[OF O1 assms(2), of "penv env"]) (rule that)
  have m: "mstate (thr (with_heap h' ?M1)) App F1 S1 G1" using step[of F1 S1 G1 h'] B(2) by (simp add: with_heap_def)
  have f: "(?p * kPageSize = 0) = False" "?p * kPageSize div kPageSize = ?p" "(\<not> module_up M) = False" "check (?p * kPageSize mod kPageSize = 0) = Some ()"
    "check (sp_start t = ?p) = Some ()" "((0 :: nat) \<noteq> 0) = False" "((0 :: nat) = 0) = True" "sp_sizeclass t = 0"
    using start_page[OF L(7)] assms(3) L(3) by simp_all
  have e1: "the_heap ?M1 = ?h" "pheap ?st1 = ?h" "mem ?h (Sp a) = Some t" using L(1) by (simp_all add: with_heap_def)
  have "do_free_with_callback env me (?p * kPageSize) f M = Some (with_heap h' ?M1)"
    unfolding do_free_with_callback_def Let_def f if_False if_True L(1,4,5) ca Option.bind.simps option.case prod.case e1
    using B(1)[unfolded Let_def e1] by (cases "sp_sample t") (auto simp: bind_eq_Some_conv split: option.splits)
  then show thesis by (rule that) (use m B(3) assms(3) in \<open>simp_all add: with_heap_def same_mode_def\<close>)
qed

lemma do_free_ok:
  assumes "malloc_ok M B" "(p, n) \<in> B"
  obtains M' where "do_free_with_callback env me p f M = Some M'" "malloc_ok M' (B - {(p, n)})" "same_words (B - {(p, n)}) M M'" "same_mode M M'"
proof -
  obtain App F S G where I: "module_up M" "mstate (thr M) App F S G" "B = blocks App F" using assms(1) unfolding malloc_ok_def by blast
  have pn: "(p, n) \<in> blocks App F" using assms(2) I(3) by simp
  show thesis
    using pn
  proof (cases rule: blocks_cases)
    case (object c)
    let ?App = "App(c := App c - {p})"
    obtain M' where D: "do_free_with_callback env me p f M = Some M'" "mstate (thr M') ?App F S G" "same_mode M M'" "module_up M'"
      "\<And>y. y \<in> held ?App \<or> lent_page F (y div kPageSize) \<Longrightarrow> store (cent (thr M')) y = store (cent (thr M)) y"
      by (rule free_object[OF I(2) object(1) I(1), of env me f]) (rule that)
    have b: "blocks ?App F = B - {(p, n)}" unfolding I(3) object(2) by (rule blocks_object[OF I(2) object(1)])
    have "malloc_ok M' (B - {(p, n)})" unfolding b[symmetric] by (rule malloc_okI[OF D(4,2)])
    moreover have "same_words (B - {(p, n)}) M M'" unfolding b[symmetric] same_words_def using D(5) bytes_of_blocks by blast
    ultimately show thesis using that[OF D(1)] D(3) by blast
  next
    case (run a t)
    obtain M' F' S' G' where D: "do_free_with_callback env me (sp_start t * kPageSize) f M = Some M'" "mstate (thr M') App F' S' G'" "same_mode M M'"
      "module_up M'" "store (cent (thr M')) = store (cent (thr M))" "runs F' = runs F - {(sp_start t * kPageSize, sp_length t * kPageSize)}"
      by (rule free_run[OF I(2) run(1) I(1), of env me f]) (rule that)
    have b: "blocks App F' = B - {(p, n)}" unfolding I(3) run(2,3) by (rule blocks_run[OF I(2) run(1) D(6)])
    have "malloc_ok M' (B - {(p, n)})" unfolding b[symmetric] by (rule malloc_okI[OF D(4,2)])
    moreover have "same_words (B - {(p, n)}) M M'" using D(5) by (simp add: same_words_def)
    ultimately show thesis using that D(1,3) run(2) by blast
  qed
qed

section \<open>The size of a block\<close>

lemma GetSize_ok:
  assumes "malloc_ok M B" "(p, n) \<in> B"
  obtains M' where "GetSizeWithCallback p f M = Some (n, M')" "malloc_ok M' B" "store (cent (thr M')) = store (cent (thr M))" "same_mode M M'"
    "room (the_heap M') = room (the_heap M)" "trace_room (the_heap M') = trace_room (the_heap M)" "\<And>me. thread_ready me (thr M') = thread_ready me (thr M)"
proof -
  obtain App F S G where I: "module_up M" "mstate (thr M) App F S G" "B = blocks App F" using assms(1) unfolding malloc_ok_def by blast
  have pn: "(p, n) \<in> blocks App F" using assms(2) I(3) by simp
  have p0: "p \<noteq> 0" by (rule block_facts(2)[OF I(2) pn])
  obtain Own where O: "lent F S G (cent (thr M)) Own" "\<And>d. App d \<subseteq> Own d"
    and step: "\<And>F' S' G' h'. lent F' S' G' ((cent (thr M))\<lparr>pheap := h'\<rparr>) Own \<Longrightarrow> mstate ((thr M)\<lparr>cent := (cent (thr M))\<lparr>pheap := h'\<rparr>\<rparr>) App F' S' G'"
    by (rule mstate_heap[OF I(2)]) (rule that)
  have W: "central_with F G (store (cent (thr M))) (cent (thr M)) Own" using O(1) by (rule lentD(1))
  note sm = mstate_sizes[OF I(2)]
  show thesis
    using pn
  proof (cases rule: blocks_cases)
    case (object c)
    have po: "p \<in> Own c" using object(1) O(2) by blast
    obtain a t where t: "GetDescriptor (the_heap M) (p div kPageSize) = Some (Sp a)" "mem (the_heap M) (Sp a) = Some t" "sp_sizeclass t = c" "c \<in> classes"
      "GetSizeClassIfCached (the_heap M) (p div kPageSize) \<in> {Some 0, Some c}"
      "\<exists>h'. CacheSizeClass (p div kPageSize) c (the_heap M) = Some h' \<and> lent F S G ((cent (thr M))\<lparr>pheap := h'\<rparr>) Own"
      by (rule object_lookup[OF O(1) po]) (rule that)
    show thesis
    proof (cases "GetSizeClassIfCached (the_heap M) (p div kPageSize) = Some c")
      case True
      then show thesis using p0 t(4) object(2) sm assms(1) by (intro that[of M]) (simp_all add: GetSizeWithCallback_def sizemap_facts)
    next
      case False
      then have z: "GetSizeClassIfCached (the_heap M) (p div kPageSize) = Some 0" using t(5) by simp
      obtain h' where h': "CacheSizeClass (p div kPageSize) c (the_heap M) = Some h'" "lent F S G ((cent (thr M))\<lparr>pheap := h'\<rparr>) Own" using t(6) by blast
      have rm: "room h' = room (the_heap M)" "trace_room h' = trace_room (the_heap M)" using h'(1) by (auto simp: CacheSizeClass_def)
      show thesis
      proof (rule that[of "with_heap h' M"])
        show "GetSizeWithCallback p f M = Some (n, with_heap h' M)"
          using p0 z t(1-4) h'(1) object(2) sm by (simp add: GetSizeWithCallback_def sizemap_facts)
        show "malloc_ok (with_heap h' M) B"
          unfolding I(3) by (rule malloc_okI) (use I(1) step[OF h'(2)] in \<open>simp_all add: with_heap_def\<close>)
      qed (use rm in \<open>simp_all add: with_heap_def same_mode_def thread_ready_def cache_room_def\<close>)
    qed
  next
    case (run a t)
    note L = lent_span[OF W run(1)]
    have "p div kPageSize = sp_start t" using run(2) by simp
    then show thesis
      using p0 L run(3) assms(1) by (intro that[of M]) (simp_all add: GetSizeWithCallback_def)
  qed
qed

end
