(* ===== verification/TcmallocBytes.thy ===== *)
theory TcmallocBytes
  imports TcmallocFree
begin

text \<open>
  Bytes of the store, \<open>memset\<close> and \<open>memcpy\<close>, and the routines that use them: \<open>calloc\<close> and \<open>realloc\<close>.
\<close>

section \<open>Bytes\<close>

lemma digit_low: "(v :: nat) div 256 ^ j mod 256 = v mod 256 ^ Suc j div 256 ^ j"
  by (simp add: mod_mult2_eq mult.commute[of 256])

definition set_digit :: "nat \<Rightarrow> nat \<Rightarrow> nat \<Rightarrow> nat" where
  "set_digit i b v = v div (256 * 256 ^ i) * (256 * 256 ^ i) + b mod 256 * 256 ^ i + v mod 256 ^ i"

lemma set_digit_mod: "set_digit i b v mod 256 ^ i = v mod 256 ^ i"
proof -
  have "set_digit i b v = v mod 256 ^ i + 256 ^ i * (v div (256 * 256 ^ i) * 256 + b mod 256)"
    by (simp add: set_digit_def algebra_simps)
  then show ?thesis by simp
qed

lemma set_digit_rest:
  "b mod 256 * 256 ^ i + v mod 256 ^ i < 256 ^ Suc i" for v b :: nat
proof -
  have "v mod 256 ^ i < 256 ^ i" by simp
  moreover have "b mod 256 * 256 ^ i \<le> 255 * 256 ^ i" by (intro mult_le_mono1) (simp add: less_Suc_eq_le[symmetric])
  ultimately have "b mod 256 * 256 ^ i + v mod 256 ^ i < 255 * 256 ^ i + 256 ^ i" by linarith
  then show ?thesis by simp
qed

lemma set_digit_same: "set_digit i b v div 256 ^ i mod 256 = b mod 256"
proof -
  have "set_digit i b v = v mod 256 ^ i + 256 ^ i * (v div (256 * 256 ^ i) * 256 + b mod 256)"
    by (simp add: set_digit_def algebra_simps)
  then have "set_digit i b v div 256 ^ i = v div (256 * 256 ^ i) * 256 + b mod 256" by simp
  then show ?thesis by simp
qed

lemma set_digit_high: "set_digit i b v div 256 ^ Suc i = v div 256 ^ Suc i"
proof -
  have "set_digit i b v = (b mod 256 * 256 ^ i + v mod 256 ^ i) + 256 ^ Suc i * (v div 256 ^ Suc i)"
    by (simp add: set_digit_def algebra_simps)
  then show ?thesis using set_digit_rest[of b i v] by simp
qed

lemma set_digit_other:
  assumes "j \<noteq> i"
  shows "set_digit i b v div 256 ^ j mod 256 = v div 256 ^ j mod 256"
proof (cases "j < i")
  case True
  then have "(256 :: nat) ^ Suc j dvd 256 ^ i" by (intro le_imp_power_dvd) simp
  then have "set_digit i b v mod 256 ^ Suc j = v mod 256 ^ Suc j" using set_digit_mod[of i b v] by (metis mod_mod_cancel)
  then show ?thesis by (simp only: digit_low)
next
  case False
  then obtain d where j: "j = Suc i + d" using assms by (metis add_Suc less_imp_Suc_add not_less_iff_gr_or_eq)
  have "x div 256 ^ j = x div 256 ^ Suc i div 256 ^ d" for x :: nat unfolding j power_add by (rule div_mult2_eq)
  then show ?thesis by (simp only: set_digit_high)
qed

lemma write_byte_digit: "write_byte x b w = w(x - x mod 8 := set_digit (x mod 8) b (w (x - x mod 8)))"
  by (simp add: write_byte_def set_digit_def Let_def)

lemma byte_write: "byte (write_byte x b w) y = (if y = x then b mod 256 else byte w y)"
proof (cases "y - y mod 8 = x - x mod 8")
  case True
  have w0: "write_byte x b w (y - y mod 8) = set_digit (x mod 8) b (w (y - y mod 8))" unfolding write_byte_digit True by simp
  show ?thesis
  proof (cases "y = x")
    case True
    then show ?thesis using w0 by (simp only: byte_def set_digit_same if_True simp_thms)
  next
    case False
    have "y mod 8 \<noteq> x mod 8"
    proof
      assume "y mod 8 = x mod 8"
      moreover have "(y - y mod 8) + y mod 8 = y" "(x - x mod 8) + x mod 8 = x" by simp_all
      ultimately show False using True False by metis
    qed
    then show ?thesis using w0 set_digit_other False by (simp only: byte_def if_False simp_thms)
  qed
next
  case False
  then show ?thesis unfolding byte_def write_byte_digit by auto
qed

lemma write_byte_words: "y \<noteq> x - x mod 8 \<Longrightarrow> write_byte x b w y = w y"
  by (simp add: write_byte_digit)

lemma byte_memset: "byte (memset p b n w) y = (if y \<in> {p..<p + n} then b mod 256 else byte w y)"
  by (induction n arbitrary: p w) (auto simp: byte_write)

lemma memset_words: "\<forall>x \<in> {p..<p + n}. y \<noteq> x - x mod 8 \<Longrightarrow> memset p b n w y = w y"
  by (induction n arbitrary: p w) (simp_all add: write_byte_words)

lemma byte_memcpy:
  assumes "{p..<p + n} \<inter> {q..<q + n} = {}"
  shows "byte (memcpy p q n w) y = (if y \<in> {p..<p + n} then byte w (q + (y - p)) else byte w y)"
  using assms
proof (induction n arbitrary: p q w)
  case (Suc n)
  have d: "{p + 1..<p + 1 + n} \<inter> {q + 1..<q + 1 + n} = {}" using Suc.prems by auto
  have "p \<notin> {q..<q + Suc n}" using Suc.prems by auto
  then have e: "byte (write_byte p (byte w q) w) z = byte w z" if "z \<in> {q..<q + Suc n}" for z using that by (auto simp: byte_write)
  consider "y = p" | "y \<in> {p + 1..<p + 1 + n}" | "y \<notin> {p..<p + Suc n}" by fastforce
  then show ?case
  proof cases
    case 1
    then have "y \<notin> {p + 1..<p + 1 + n}" "y \<in> {p..<p + Suc n}" "q + (y - p) = q" by simp_all
    moreover have "byte w q mod 256 = byte w q" by (simp add: byte_def)
    ultimately show ?thesis unfolding memcpy.simps Suc.IH[OF d] byte_write using 1 by simp
  next
    case 2
    then have "y \<in> {p..<p + Suc n}" "q + 1 + (y - (p + 1)) = q + (y - p)" "q + (y - p) \<in> {q..<q + Suc n}" by auto
    then show ?thesis unfolding memcpy.simps Suc.IH[OF d] using 2 e by simp
  next
    case 3
    then have "y \<notin> {p + 1..<p + 1 + n}" "y \<noteq> p" by auto
    then show ?thesis unfolding memcpy.simps Suc.IH[OF d] byte_write using 3 by (simp only: if_False simp_thms)
  qed
qed simp

lemma memcpy_words: "\<forall>x \<in> {p..<p + n}. y \<noteq> x - x mod 8 \<Longrightarrow> memcpy p q n w y = w y"
  by (induction n arbitrary: p q w) (simp_all add: write_byte_words)

text \<open>A block contains the words of its bytes.\<close>

lemma block_words: "8 dvd p \<Longrightarrow> x \<in> {p..<p + n} \<Longrightarrow> x - x mod 8 \<in> {p..<p + n}" for p :: nat
proof -
  assume a: "8 dvd p" "x \<in> {p..<p + n}"
  obtain q where q: "p = 8 * q" using a(1) by blast
  have "q \<le> x div 8" using a(2) unfolding q by (simp add: less_eq_div_iff_mult_less_eq mult.commute)
  then have "p \<le> x - x mod 8" unfolding q minus_mod_eq_mult_div by simp
  moreover have "x - x mod 8 \<le> x" by simp
  ultimately show ?thesis using a(2) unfolding atLeastLessThan_iff by linarith
qed

text \<open>Bytes of blocks whose words are the same.\<close>

lemma same_bytes:
  assumes "\<forall>y \<in> {p..<p + n}. w' y = w y" "8 dvd p" "x \<in> {p..<p + n}"
  shows "byte w' x = byte w x"
  using assms(1) block_words[OF assms(2,3)] unfolding byte_def by metis

section \<open>Blocks of a consistent state\<close>

lemma malloc_apart:
  assumes "malloc_ok M B" "(p, n) \<in> B" "(q, k) \<in> B" "(p, n) \<noteq> (q, k)"
  shows "{p..<p + n} \<inter> {q..<q + k} = {}"
  using assms blocks_apart unfolding malloc_ok_def by blast

lemma malloc_block:
  assumes "malloc_ok M B" "(p, n) \<in> B"
  shows "0 < n" "p \<noteq> 0" "8 dvd p"
proof -
  obtain App F S G where I: "mstate (thr M) App F S G" "(p, n) \<in> blocks App F" using assms unfolding malloc_ok_def by blast
  show "0 < n" "p \<noteq> 0" "8 dvd p" by (rule block_facts(1-3)[OF I])+
qed

lemma malloc_write:
  assumes "malloc_ok M B" "\<And>y. y \<notin> bytes_of B \<Longrightarrow> w y = store (cent (thr M)) y"
  shows "malloc_ok (with_store w M) B"
proof -
  obtain App F S G where I: "module_up M" "mstate (thr M) App F S G" "B = blocks App F" using assms(1) unfolding malloc_ok_def by blast
  have "mstate ((thr M)\<lparr>cent := (cent (thr M))\<lparr>store := w\<rparr>\<rparr>) App F S G"
    by (rule mstate_write[OF I(2)]) (use assms(2) bytes_of_blocks I(3) in blast)
  then show ?thesis unfolding I(3) by (intro malloc_okI) (use I(1) in \<open>simp_all add: with_store_def\<close>)
qed

text \<open>A write inside one block.\<close>

lemma malloc_fill:
  assumes "malloc_ok M (insert (r, k) B)" "\<forall>n. (r, n) \<notin> B" "m \<le> k" "\<And>y. \<forall>x \<in> {r..<r + m}. y \<noteq> x - x mod 8 \<Longrightarrow> w y = store (cent (thr M)) y"
  shows "malloc_ok (with_store w M) (insert (r, k) B)" "same_words B M (with_store w M)"
proof -
  have rk: "(r, k) \<in> insert (r, k) B" by simp
  note r = malloc_block[OF assms(1) rk]
  have same: "w y = store (cent (thr M)) y" if y: "y \<notin> {r..<r + k}" for y
  proof (rule assms(4), intro ballI)
    fix x assume "x \<in> {r..<r + m}"
    then have "x \<in> {r..<r + k}" using assms(3) by simp
    then show "y \<noteq> x - x mod 8" using block_words[OF r(3)] y by blast
  qed
  show "malloc_ok (with_store w M) (insert (r, k) B)"
    by (rule malloc_write[OF assms(1)]) (use same in \<open>auto simp: bytes_of_def\<close>)
  have "y \<notin> {r..<r + k}" if y: "y \<in> bytes_of B" for y
  proof -
    obtain q n where q: "(q, n) \<in> B" "y \<in> {q..<q + n}" using y unfolding bytes_of_def by blast
    then have "{r..<r + k} \<inter> {q..<q + n} = {}" using malloc_apart[OF assms(1) rk, of q n] assms(2) by blast
    then show ?thesis using q(2) by blast
  qed
  then show "same_words B M (with_store w M)" using same unfolding same_words_def with_store_def by simp
qed

lemma same_words_trans: "same_words B M M1 \<Longrightarrow> same_words B' M1 M2 \<Longrightarrow> C \<subseteq> B \<Longrightarrow> C \<subseteq> B' \<Longrightarrow> same_words C M M2"
  unfolding same_words_def bytes_of_def by fastforce

lemma same_mode_store [simp]: "same_mode M (with_store w M')= same_mode M M'"
  by (simp add: same_mode_def with_store_def)

section \<open>calloc\<close>

lemma do_malloc_or_cpp_alloc_plain:
  assumes "tc_new_mode M = 0" "do_malloc env me sz M = Some (r, M')"
  shows "do_malloc_or_cpp_alloc env me sz M = Some (Returned r, M')"
  using assms by (simp add: do_malloc_or_cpp_alloc_def)

lemma calloc_overflow:
  assumes "n < two64" "e < two64"
  shows "(e \<noteq> 0 \<and> n * e mod two64 div e \<noteq> n) \<longleftrightarrow> two64 \<le> n * e"
proof (cases "two64 \<le> n * e")
  case True
  have "e \<noteq> 0" using True by (cases "e = 0") (simp_all add: two64_def)
  have "n * e mod two64 < two64" by (simp add: two64_def)
  have "n * e mod two64 < n * e" using \<open>n * e mod two64 < two64\<close> True by linarith
  then have "n * e mod two64 div e < n" by (simp add: less_mult_imp_div_less)
  then show ?thesis using True \<open>e \<noteq> 0\<close> by simp
qed simp

lemma do_calloc_ok:
  assumes "malloc_ok M B" "memory_left me M" "tc_new_mode M = 0" "n * e < two64"
  obtains r M' where "do_calloc env me n e M = Some (Returned r, M')" "handed B (n * e) M r M'" "same_mode M M'"
    "r \<noteq> 0 \<Longrightarrow> \<forall>i < n * e. byte (store (cent (thr M'))) (r + i) = 0"
    "r = 0 \<Longrightarrow> errno M' me = ENOMEM \<and> short_of (penv env) (n * e) (the_heap M)"
proof -
  obtain r M1 where A: "do_malloc env me (n * e) M = Some (r, M1)" "handed B (n * e) M r M1" "same_mode M M1"
    "r = 0 \<longrightarrow> errno M1 me = ENOMEM" "r = 0 \<Longrightarrow> short_of (penv env) (n * e) (the_heap M)"
    by (rule do_malloc_ok[OF assms(1,2,4), of env]) (rule that)
  have ov: "(e \<noteq> 0 \<and> n * e mod two64 div e \<noteq> n) = False" using assms(4) by simp
  have sz: "n * e mod two64 = n * e" using assms(4) by simp
  show thesis
  proof (cases "r = 0")
    case True
    have "do_calloc env me n e M = Some (Returned 0, M1)"
      using do_malloc_or_cpp_alloc_plain[OF assms(3) A(1)] ov sz True by (simp add: do_calloc_def Let_def)
    then show thesis using A True that[of 0 M1] by blast
  next
    case False
    let ?w = "memset r 0 (n * e) (store (cent (thr M1)))"
    obtain k where k: "n * e \<le> k" "\<forall>j. (r, j) \<notin> B" "malloc_ok M1 (insert (r, k) B)" "same_words B M M1"
      using A(2) False unfolding handed_def by auto
    note F = malloc_fill[OF k(3,2,1), of ?w, OF memset_words]
    have "do_calloc env me n e M = Some (Returned r, with_store ?w M1)"
      using do_malloc_or_cpp_alloc_plain[OF assms(3) A(1)] ov sz False by (simp add: do_calloc_def Let_def)
    moreover have "handed B (n * e) M r (with_store ?w M1)"
      using F k(1,2) False same_words_trans[OF k(4) F(2)] unfolding handed_def by auto
    moreover have "\<forall>i < n * e. byte (store (cent (thr (with_store ?w M1)))) (r + i) = 0"
      by (simp add: with_store_def byte_memset)
    ultimately show thesis using A(3) False by (intro that[of r "with_store ?w M1"]) simp_all
  qed
qed

section \<open>realloc\<close>

lemma handed_mono: "handed B s M r M' \<Longrightarrow> s' \<le> s \<Longrightarrow> handed B s' M r M'"
  unfolding handed_def by (auto split: if_splits intro: order_trans)

lemma handed_after:
  assumes "handed B s0 M 0 M1" "handed B s M1 r M2"
  shows "handed B s M r M2"
  using assms same_words_trans[of B M M1 B M2 B] unfolding handed_def by auto

lemma handed_null: "handed B s M 0 M1 \<longleftrightarrow> malloc_ok M1 B \<and> same_words B M M1"
  by (simp add: handed_def)

lemma malloc_ok_hooks [simp]: "malloc_ok (InvokeNewHook p s M) B = malloc_ok M B" "malloc_ok (InvokeDeleteHook p M) B = malloc_ok M B"
  by (simp_all add: malloc_ok_def InvokeNewHook_def InvokeDeleteHook_def)

lemma hook_fields [simp]:
  "thr (InvokeNewHook p s M) = thr M" "thr (InvokeDeleteHook p M) = thr M"
  "tc_new_mode (InvokeNewHook p s M) = tc_new_mode M" "tc_new_mode (InvokeDeleteHook p M) = tc_new_mode M"
  by (simp_all add: InvokeNewHook_def InvokeDeleteHook_def)

lemma int_to_size_small: "int_to_size i < two64"
  by (simp add: int_to_size_def two64_def nat_less_iff)

text \<open>The one or two attempts to allocate.\<close>

lemma realloc_attempts:
  assumes "malloc_ok M B" "memory_left me M" "tc_new_mode M = 0" "s < two64" "g < two64" "grow \<longrightarrow> s \<le> g"
    "\<And>M1. grow \<Longrightarrow> do_malloc env me g M = Some (0, M1) \<Longrightarrow> memory_left me M1"
  obtains r M' where "do { (r, M) \<leftarrow> (if grow then do_malloc_or_cpp_alloc env me g M else Some (Returned 0, M));
      if r = Returned 0 then do_malloc_or_cpp_alloc env me s M else Some (r, M) } = Some (Returned r, M')"
    "handed B s M r M'" "tc_new_mode M' = 0"
proof (cases grow)
  case False
  obtain r M' where "do_malloc env me s M = Some (r, M')" "handed B s M r M'" "same_mode M M'"
    by (rule do_malloc_ok[OF assms(1,2,4), of env]) (rule that)
  then show thesis using False assms(3) do_malloc_or_cpp_alloc_plain[OF assms(3)] by (intro that[of r M']) (simp_all add: same_mode_def)
next
  case True
  obtain r1 M1 where A: "do_malloc env me g M = Some (r1, M1)" "handed B g M r1 M1" "same_mode M M1"
    by (rule do_malloc_ok[OF assms(1,2,5), of env]) (rule that)
  note a = do_malloc_or_cpp_alloc_plain[OF assms(3) A(1)]
  have t1: "tc_new_mode M1 = 0" using A(3) assms(3) by (simp add: same_mode_def)
  show thesis
  proof (cases "r1 = 0")
    case False
    have "handed B s M r1 M1" by (rule handed_mono[OF A(2)]) (use True assms(6) in simp)
    then show thesis using True False a t1 by (intro that[of r1 M1]) simp_all
  next
    case r1: True
    have h1: "handed B g M 0 M1" "do_malloc env me g M = Some (0, M1)" using A(1,2) r1 by simp_all
    have ok1: "malloc_ok M1 B" using h1(1) by (simp add: handed_null)
    have l1: "memory_left me M1" by (rule assms(7)[OF True h1(2)])
    obtain r M' where B: "do_malloc env me s M1 = Some (r, M')" "handed B s M1 r M'" "same_mode M1 M'"
      by (rule do_malloc_ok[OF ok1 l1 assms(4), of env]) (rule that)
    show thesis
      using True r1 a t1 B(3) do_malloc_or_cpp_alloc_plain[OF t1 B(1)] handed_after[OF h1(1) B(2)]
      by (intro that[of r M']) (simp_all add: same_mode_def)
  qed
qed

lemma realloc_moves:
  assumes "malloc_ok M (insert (r, k) B)" "\<forall>j. (r, j) \<notin> B" "(p, n) \<in> B" "m \<le> k" "m \<le> n"
  obtains M' where
    "do { let M = InvokeNewHook r s M;
          let M = with_store (memcpy r p m (store (cent (thr M)))) M;
          let M = InvokeDeleteHook p M;
          M \<leftarrow> do_free_with_callback env me p f M;
          Some (Returned r, M) } = Some (Returned r, M')"
    "malloc_ok M' (insert (r, k) (B - {(p, n)}))" "same_words (B - {(p, n)}) M M'"
    "\<forall>i < m. byte (store (cent (thr M'))) (r + i) = byte (store (cent (thr M))) (p + i)" "tc_new_mode M' = tc_new_mode M"
proof -
  let ?w = "memcpy r p m (store (cent (thr M)))"
  have rk: "(r, k) \<in> insert (r, k) B" "(p, n) \<in> insert (r, k) B" using assms(3) by simp_all
  have rp: "(r, k) \<noteq> (p, n)" using assms(2,3) by blast
  have ok1: "malloc_ok (InvokeNewHook r s M) (insert (r, k) B)" using assms(1) by simp
  have w: "?w y = store (cent (thr (InvokeNewHook r s M))) y" if "\<forall>x \<in> {r..<r + m}. y \<noteq> x - x mod 8" for y using memcpy_words[OF that] by simp
  note F = malloc_fill[OF ok1 assms(2,4) w]
  define M2 where "M2 = InvokeDeleteHook p (with_store ?w (InvokeNewHook r s M))"
  have M2: "malloc_ok M2 (insert (r, k) B)" "store (cent (thr M2)) = ?w" "same_words B M M2" "tc_new_mode M2 = tc_new_mode M"
    using F by (simp_all add: M2_def same_words_def) (simp_all add: with_store_def)
  obtain M' where D: "do_free_with_callback env me p f M2 = Some M'" "malloc_ok M' (insert (r, k) B - {(p, n)})"
    "same_words (insert (r, k) B - {(p, n)}) M2 M'" "same_mode M2 M'"
    by (rule do_free_ok[OF M2(1) rk(2), of env me f]) (rule that)
  have e: "insert (r, k) B - {(p, n)} = insert (r, k) (B - {(p, n)})" using rp by blast
  show thesis
  proof (rule that)
    show "do { let M = InvokeNewHook r s M;
          let M = with_store (memcpy r p m (store (cent (thr M)))) M;
          let M = InvokeDeleteHook p M;
          M \<leftarrow> do_free_with_callback env me p f M;
          Some (Returned r, M) } = Some (Returned r, M')"
      using D(1) by (simp add: Let_def M2_def)
    show "malloc_ok M' (insert (r, k) (B - {(p, n)}))" using D(2) e by simp
    show "same_words (B - {(p, n)}) M M'" by (rule same_words_trans[OF M2(3) D(3)]) (use e in blast)+
    show "tc_new_mode M' = tc_new_mode M" using D(4) M2(4) by (simp add: same_mode_def)
    have ap: "{r..<r + k} \<inter> {p..<p + n} = {}" by (rule malloc_apart[OF assms(1) rk rp])
    have "{r..<r + m} \<subseteq> {r..<r + k}" "{p..<p + m} \<subseteq> {p..<p + n}" using assms(4,5) by auto
    then have d: "{r..<r + m} \<inter> {p..<p + m} = {}" using ap by blast
    show "\<forall>i < m. byte (store (cent (thr M'))) (r + i) = byte (store (cent (thr M))) (p + i)"
    proof (intro allI impI)
      fix i assume i: "i < m"
      have "\<forall>y \<in> {r..<r + k}. store (cent (thr M')) y = store (cent (thr M2)) y"
        using D(3) unfolding e same_words_def bytes_of_def by blast
      then have "byte (store (cent (thr M'))) (r + i) = byte (store (cent (thr M2))) (r + i)"
        by (rule same_bytes) (use malloc_block(3)[OF assms(1) rk(1)] i assms(4) in auto)
      also have "\<dots> = byte (store (cent (thr M))) (p + i)" unfolding M2(2) byte_memcpy[OF d] using i by simp
      finally show "byte (store (cent (thr M'))) (r + i) = byte (store (cent (thr M))) (p + i)" .
    qed
  qed
qed

end
