(* ===== verification/TcmallocRealloc.thy ===== *)
theory TcmallocRealloc
  imports TcmallocBytes
begin

text \<open>
  \<open>realloc\<close>: the size that is asked for first, and the whole routine.
\<close>

definition realloc_growth :: "nat \<Rightarrow> nat" where
  "realloc_growth n = int_to_size (to_int32 (int (add64 n (n div 4))))"

lemma min_smaller: "(if n < s then n else s) = min n (s :: nat)"
  by simp

lemma bind_pair_assoc:
  "Option.bind x (\<lambda>(r, M). Option.bind (f r M) g) = Option.bind (Option.bind x (\<lambda>(r, M). f r M)) g"
  by (cases x) auto

lemma realloc_copied:
  assumes "malloc_ok M B" "(p, n) \<in> B" "same_words B M M1" "i < n"
  shows "byte (store (cent (thr M1))) (p + i) = byte (store (cent (thr M))) (p + i)"
proof (rule same_bytes[of p n])
  show "\<forall>y \<in> {p..<p + n}. store (cent (thr M1)) y = store (cent (thr M)) y"
    using assms(2,3) unfolding same_words_def bytes_of_def by blast
qed (use malloc_block(3)[OF assms(1,2)] assms(4) in auto)

lemma do_realloc_ok:
  assumes "malloc_ok M B" "(p, n) \<in> B" "memory_left me M" "tc_new_mode M = 0" "s < two64"
    "\<And>M0 M1. n < s \<Longrightarrow> s < realloc_growth n \<Longrightarrow> GetSizeWithCallback p InvalidGetSizeForRealloc M = Some (n, M0) \<Longrightarrow>
      do_malloc env me (realloc_growth n) M0 = Some (0, M1) \<Longrightarrow> memory_left me M1"
  obtains r M' where "do_realloc env me p s M = Some (Returned r, M')"
    "r = 0 \<Longrightarrow> malloc_ok M' B \<and> same_words B M M'"
    "r \<noteq> 0 \<Longrightarrow> \<exists>k \<ge> s. malloc_ok M' (insert (r, k) (B - {(p, n)})) \<and> same_words (B - {(p, n)}) M M'
        \<and> (\<forall>i < min n s. byte (store (cent (thr M'))) (r + i) = byte (store (cent (thr M))) (p + i))"
    "tc_new_mode M' = 0"
proof -
  obtain M0 where Z: "GetSizeWithCallback p InvalidGetSizeForRealloc M = Some (n, M0)" "malloc_ok M0 B"
    "store (cent (thr M0)) = store (cent (thr M))" "same_mode M M0" "room (the_heap M0) = room (the_heap M)"
    "trace_room (the_heap M0) = trace_room (the_heap M)" "thread_ready me (thr M0) = thread_ready me (thr M)"
    by (rule GetSize_ok[OF assms(1,2), of InvalidGetSizeForRealloc]) (rule that)
  have l0: "memory_left me M0" using assms(3) Z(5-7) by (simp add: memory_left_def)
  have t0: "tc_new_mode M0 = 0" using Z(4) assms(4) by (simp add: same_mode_def)
  have w0: "same_words C M M0" for C using Z(3) by (simp add: same_words_def)
  let ?g = "realloc_growth n" and ?u = "int_to_size (to_int32 (int (n div 2)))"
  have D: "do_realloc env me p s M = (if s > n \<or> s < ?u
     then do {
       (r, M) \<leftarrow> do { (r, M) \<leftarrow> (if s > n \<and> s < ?g then do_malloc_or_cpp_alloc env me ?g M0 else Some (Returned 0, M0));
         if r = Returned 0 then do_malloc_or_cpp_alloc env me s M else Some (r, M) };
       case r of
         Returned new_ptr \<Rightarrow>
           (if new_ptr = 0 then Some (Returned 0, M)
            else do {
              let M = InvokeNewHook new_ptr s M;
              let M = with_store (memcpy new_ptr p (min n s) (store (cent (thr M)))) M;
              let M = InvokeDeleteHook p M;
              M \<leftarrow> do_free_with_callback env me p InvalidFree M;
              Some (Returned new_ptr, M) })
       | _ \<Rightarrow> Some (r, M) }
     else Some (Returned p, InvokeNewHook p s (InvokeDeleteHook p M0)))"
    unfolding do_realloc_def do_realloc_with_callback_def Z(1) realloc_growth_def
    by (simp only: Option.bind.simps prod.case Let_def min_smaller bind_pair_assoc)
  show thesis
  proof (cases "s > n \<or> s < ?u")
    case False
    have p0: "p \<noteq> 0" using malloc_block(2)[OF assms(1,2)] by simp
    have "insert (p, n) (B - {(p, n)}) = B" using assms(2) by blast
    then have k: "\<exists>k \<ge> s. malloc_ok M0 (insert (p, k) (B - {(p, n)}))" using Z(2) False by (intro exI[of _ n]) simp
    then show thesis using False D Z(2,3) t0 p0 by (intro that[of p "InvokeNewHook p s (InvokeDeleteHook p M0)"]) (auto simp: same_words_def)
  next
    case True
    have g: "?g < two64" by (simp add: realloc_growth_def int_to_size_small)
    have gs: "(s > n \<and> s < ?g) \<longrightarrow> s \<le> ?g" by simp
    obtain r M1 where A: "do { (r, M) \<leftarrow> (if s > n \<and> s < ?g then do_malloc_or_cpp_alloc env me ?g M0 else Some (Returned 0, M0));
         if r = Returned 0 then do_malloc_or_cpp_alloc env me s M else Some (r, M) } = Some (Returned r, M1)"
      "handed B s M0 r M1" "tc_new_mode M1 = 0"
      by (rule realloc_attempts[OF Z(2) l0 t0 assms(5) g gs, of env]) (use assms(6) Z(1) in blast, rule that)
    note D1 = D[unfolded A(1) Option.bind.simps prod.case outcome.case if_P[OF True]]
    have w1: "same_words B M0 M1" using A(2) by (simp add: handed_def)
    show thesis
    proof (cases "r = 0")
      case True
      have d: "do_realloc env me p s M = Some (Returned 0, M1)" using D1 True by simp
      have "malloc_ok M1 B" using A(2) True by (simp add: handed_def)
      moreover have "same_words B M M1" using w1 Z(3) by (simp add: same_words_def)
      ultimately show thesis using A(3) by (intro that[OF d]) simp_all
    next
      case False
      obtain k where k: "s \<le> k" "\<forall>j. (r, j) \<notin> B" "malloc_ok M1 (insert (r, k) B)" using A(2) False unfolding handed_def by auto
      have m: "min n s \<le> k" "min n s \<le> n" using k(1) by simp_all
      obtain M' where M': "do { let M = InvokeNewHook r s M1;
          let M = with_store (memcpy r p (min n s) (store (cent (thr M)))) M;
          let M = InvokeDeleteHook p M;
          M \<leftarrow> do_free_with_callback env me p InvalidFree M;
          Some (Returned r, M) } = Some (Returned r, M')"
        "malloc_ok M' (insert (r, k) (B - {(p, n)}))" "same_words (B - {(p, n)}) M1 M'"
        "\<forall>i < min n s. byte (store (cent (thr M'))) (r + i) = byte (store (cent (thr M1))) (p + i)" "tc_new_mode M' = tc_new_mode M1"
        by (rule realloc_moves[OF k(3,2) assms(2) m, of s env me InvalidFree]) (rule that)
      have d: "do_realloc env me p s M = Some (Returned r, M')" using D1 False M'(1) by simp
      have wb: "same_words B M M1" using w1 Z(3) by (simp add: same_words_def)
      have "same_words (B - {(p, n)}) M M'" by (rule same_words_trans[OF wb M'(3)]) blast+
      moreover have "\<forall>i < min n s. byte (store (cent (thr M'))) (r + i) = byte (store (cent (thr M))) (p + i)"
        using M'(4) realloc_copied[OF assms(1,2) wb] by simp
      ultimately show thesis using k(1) M'(2,5) A(3) False by (intro that[OF d]) auto
    qed
  qed
qed

end
