(* ===== verification/TcmallocMemalign.thy ===== *)
theory TcmallocMemalign
  imports TcmallocRealloc
begin

text \<open>
  Aligned allocation: an object of an aligned class, a whole span, or a part cut out of a larger span.
\<close>

lemma aligned_class_spec:
  assumes "c \<le> kNumClasses"
  shows "aligned_class m (2 ^ k) c \<le> kNumClasses" "c \<le> aligned_class m (2 ^ k) c"
    "aligned_class m (2 ^ k) c < kNumClasses \<Longrightarrow> 2 ^ k dvd class_to_size m (aligned_class m (2 ^ k) c)"
proof -
  have "aligned_class m (2 ^ k) c \<le> kNumClasses \<and> c \<le> aligned_class m (2 ^ k) c
    \<and> (aligned_class m (2 ^ k) c < kNumClasses \<longrightarrow> 2 ^ k dvd class_to_size m (aligned_class m (2 ^ k) c))"
    using assms
  proof (induction "kNumClasses - c" arbitrary: c)
    case 0
    then show ?case by (subst (1 2 3 4) aligned_class.simps) simp
  next
    case (Suc d)
    show ?case
    proof (cases "class_to_size m c AND (2 ^ k - 1) \<noteq> 0")
      case True
      have "c < kNumClasses" using Suc.hyps(2) by linarith
      then have "aligned_class m (2 ^ k) c = aligned_class m (2 ^ k) (c + 1)"
        using True by (subst aligned_class.simps) simp
      moreover have "d = kNumClasses - (c + 1)" "c + 1 \<le> kNumClasses" using Suc.hyps(2) by simp_all
      note Suc.hyps(1)[OF this]
      ultimately show ?thesis by simp
    next
      case False
      have "aligned_class m (2 ^ k) c = c" using False by (subst aligned_class.simps) simp
      then show ?thesis using False Suc.prems AND_mask_zero by simp
    qed
  qed
  then show "aligned_class m (2 ^ k) c \<le> kNumClasses" "c \<le> aligned_class m (2 ^ k) c"
    "aligned_class m (2 ^ k) c < kNumClasses \<Longrightarrow> 2 ^ k dvd class_to_size m (aligned_class m (2 ^ k) c)" by blast+
qed

text \<open>The three ways, each from a consistent state.\<close>

lemma memalign_object:
  assumes "malloc_ok M B" "memory_left me M" "c \<in> classes" "sz \<le> osz c" "d dvd osz c" "d dvd kPageSize"
  obtains r M' where "do {
      M \<leftarrow> (if tsd_inited (thr M) then Some M else InitModule env M);
      (heap, S) \<leftarrow> GetCache (sample_interval env) (raw_cache env) me (thr M);
      let sz = class_to_size (the_sizes M) c;
      (r, S) \<leftarrow> cache_Allocate (penv env) heap sz c S;
      r \<leftarrow> CheckedMallocResult r (pheap (cent S));
      Some (r, M\<lparr>thr := S\<rparr>) } = Some (r, M')" "handed B sz M r M'" "same_mode M M'" "d dvd r"
    "r = 0 \<Longrightarrow> short_of (penv env) x (the_heap M)"
proof -
  obtain App F S G where I: "module_up M" "mstate (thr M) App F S G" "B = blocks App F" using assms(1) unfolding malloc_ok_def by blast
  have tr: "thread_ready me (thr M)" "memory_ready (cent (thr M))"
    using assms(2) by (simp_all add: memory_left_def memory_ready_def)
  obtain h T t where g: "GetCache (sample_interval env) (raw_cache env) me (thr M) = Some (h, T)" "mstate T App F S G" "heaps T h = Some t" "cent T = cent (thr M)"
    by (rule GetCache_m[OF I(2) tr(1), of "sample_interval env" "raw_cache env"]) (rule that)
  have up: "(if tsd_inited (thr M) then Some M else InitModule env M) = Some M" using I(1) by (simp add: InitModule_def)
  let ?M1 = "M\<lparr>thr := T\<rparr>"
  have m1: "mstate (thr ?M1) App F S G" "heaps (thr ?M1) h = Some t" "memory_ready (cent (thr ?M1))" "module_up ?M1"
    using g tr I(1) by simp_all
  obtain r T' where A: "cache_Allocate (penv env) h (osz c) c (thr ?M1) = Some (r, T')" "CheckedMallocResult r (pheap (cent T')) = Some r"
    "handed (blocks App F) sz ?M1 r (?M1\<lparr>thr := T'\<rparr>)" "\<And>d. d dvd osz c \<Longrightarrow> d dvd kPageSize \<Longrightarrow> d dvd r"
    "r = 0 \<longrightarrow> no_span (penv env) c (cent (thr ?M1))"
    by (rule cache_Allocate_m[OF m1(1,2) assms(3) m1(3,4) assms(4), of "penv env"]) (rule that)
  have a: "cache_Allocate (penv env) h (osz c) c T = Some (r, T')" using A(1) by simp
  have z: "class_to_size (the_sizes M) c = osz c" by (simp add: mstate_sizes[OF I(2)] sizemap_facts(3))
  show thesis
  proof (rule that)
    show "do {
      M \<leftarrow> (if tsd_inited (thr M) then Some M else InitModule env M);
      (heap, S) \<leftarrow> GetCache (sample_interval env) (raw_cache env) me (thr M);
      let sz = class_to_size (the_sizes M) c;
      (r, S) \<leftarrow> cache_Allocate (penv env) heap sz c S;
      r \<leftarrow> CheckedMallocResult r (pheap (cent S));
      Some (r, M\<lparr>thr := S\<rparr>) } = Some (r, M\<lparr>thr := T'\<rparr>)"
      unfolding up Option.bind.simps g(1) prod.case Let_def z a A(2) by (rule refl)
    show "handed B sz M r (M\<lparr>thr := T'\<rparr>)" unfolding I(3) by (rule handed_trans[where ?M1.0 = ?M1]) (use A(3) g(4) in simp_all)
    show "same_mode M (M\<lparr>thr := T'\<rparr>)" by (simp add: same_mode_def)
    show "d dvd r" using A(4) assms(5,6) .
    show "short_of (penv env) x (the_heap M)" if "r = 0"
      using no_span_short[of "penv env" c "cent T" x] A(5) that assms(3) g(4) mstate_sizes[OF g(2)] by simp
  qed
qed

lemma memalign_span:
  assumes "malloc_ok M B" "memory_left me M" "0 < sz" "d dvd kPageSize"
  obtains r M' where "do {
      (sp, h) \<leftarrow> New (penv env) (pages sz) (the_heap M);
      (r, h) \<leftarrow> (case sp of None \<Rightarrow> Some (0, h) | Some p \<Rightarrow> SpanToMallocResult p h);
      Some (r, with_heap h M) } = Some (r, M')" "handed B sz M r M'" "same_mode M M'" "d dvd r"
    "r = 0 \<Longrightarrow> \<exists>h. New (penv env) (pages sz) (the_heap M) = Some (None, h)"
proof -
  obtain App F S G where I: "module_up M" "mstate (thr M) App F S G" "B = blocks App F" using assms(1) unfolding malloc_ok_def by blast
  have tr: "memory_ready (cent (thr M))" using assms(2) by (simp add: memory_left_def memory_ready_def)
  have n: "0 < pages sz" "sz \<le> pages sz * kPageSize" using assms(3) pages_least[of sz] by (auto simp: pages_def)
  obtain r h' F' where N: "do { (sp, h) \<leftarrow> New (penv env) (pages sz) (the_heap M); case sp of None \<Rightarrow> Some (0, h) | Some p \<Rightarrow> SpanToMallocResult p h } = Some (r, h')"
      "mstate ((thr M)\<lparr>cent := (cent (thr M))\<lparr>pheap := h'\<rparr>\<rparr>) App F' S G" "lends (penv env) (cent (thr M)) F (pages sz) r F'"
    by (rule New_m[OF I(2) tr n(1), of "penv env"]) (rule that)
  have M3: "module_up (with_heap h' M)" "thr (with_heap h' M) = (thr M)\<lparr>cent := (cent (thr M))\<lparr>pheap := h'\<rparr>\<rparr>"
    using I(1) by (simp_all add: with_heap_def)
  show thesis
  proof (rule that)
    show "do {
      (sp, h) \<leftarrow> New (penv env) (pages sz) (the_heap M);
      (r, h) \<leftarrow> (case sp of None \<Rightarrow> Some (0, h) | Some p \<Rightarrow> SpanToMallocResult p h);
      Some (r, with_heap h M) } = Some (r, with_heap h' M)"
      using arg_cong[where f = "\<lambda>x. Option.bind x (\<lambda>(r, h). Some (r, with_heap h M))", OF N(1)]
      unfolding bind_pair_assoc[symmetric] by simp
    show "handed B sz M r (with_heap h' M)" unfolding I(3)
      by (rule handed_heap[OF I(2,1,2) refl N(2,3) n(2) M3])
    show "same_mode M (with_heap h' M)" by (simp add: same_mode_def with_heap_def)
    show "d dvd r" by (rule lends_aligned[OF N(3) assms(4)])
    show "\<exists>h. New (penv env) (pages sz) (the_heap M) = Some (None, h)" if "r = 0" using N(3) that by (simp add: lends_def)
  qed
qed

lemma memalign_carve:
  assumes "malloc_ok M B" "memory_left me M" "0 < sz" "13 < k" "sz + 2 ^ k < two64"
  obtains r M' where "do { (r, h) \<leftarrow> carve_aligned (penv env) (2 ^ k) sz (the_heap M); Some (r, with_heap h M) } = Some (r, M')"
    "handed B sz M r M'" "same_mode M M'" "2 ^ k dvd r"
    "r = 0 \<Longrightarrow> \<exists>h. New (penv env) (pages (sz + 2 ^ k)) (the_heap M) = Some (None, h)"
proof -
  obtain App F S G where I: "module_up M" "mstate (thr M) App F S G" "B = blocks App F" using assms(1) unfolding malloc_ok_def by blast
  obtain Own where O: "lent F S G (cent (thr M)) Own" "\<And>d. App d \<subseteq> Own d"
    and step: "\<And>F' S' G' h'. lent F' S' G' ((cent (thr M))\<lparr>pheap := h'\<rparr>) Own \<Longrightarrow> mstate ((thr M)\<lparr>cent := (cent (thr M))\<lparr>pheap := h'\<rparr>\<rparr>) App F' S' G'"
    by (rule mstate_heap[OF I(2)]) (rule that)
  have rm: "4 \<le> room (the_heap M)" "0 < trace_room (the_heap M)" using assms(2) by (simp_all add: memory_left_def)
  obtain r h' F' where C: "carve_aligned (penv env) (2 ^ k) sz (the_heap M) = Some (r, h')" "lent F' S G ((cent (thr M))\<lparr>pheap := h'\<rparr>) Own"
    "if r = 0 then runs F' = runs F else runs F' = insert (r, pages sz * kPageSize) (runs F) \<and> 2 ^ k dvd r \<and> r div kPageSize \<notin> used_pages (the_heap M)"
    "r = 0 \<Longrightarrow> \<exists>h. New (penv env) (pages (sz + 2 ^ k)) (the_heap M) = Some (None, h)"
    by (rule carve_lent[OF O(1) rm assms(4,3,5), of "penv env"]) (rule that)
  let ?M' = "with_heap h' M"
  have M': "module_up ?M'" "thr ?M' = (thr M)\<lparr>cent := (cent (thr M))\<lparr>pheap := h'\<rparr>\<rparr>" using I(1) by (simp_all add: with_heap_def)
  have ok: "malloc_ok ?M' (blocks App F')" by (rule malloc_okI[OF M'(1), unfolded M'(2), OF step[OF C(2)]])
  have "handed B sz M r ?M'"
  proof (cases "r = 0")
    case True
    then show ?thesis using ok C(3) I(3) M'(2) by (simp add: handed_def blocks_def same_words_def)
  next
    case False
    have "(r, j) \<notin> B" for j
    proof
      assume "(r, j) \<in> B"
      then have "(r, j) \<in> blocks App F" using I(3) by simp
      then show False using block_facts(5)[OF I(2)] False C(3) by auto
    qed
    moreover have "sz \<le> pages sz * kPageSize" using pages_least[of sz] by blast
    ultimately show ?thesis using ok C(3) I(3) M'(2) False
      by (auto simp: handed_def blocks_def same_words_def intro!: exI[of _ "pages sz * kPageSize"])
  qed
  then show thesis using C(1,3,4) by (intro that[of r ?M']) (auto simp: same_mode_def with_heap_def split: if_splits)
qed

text \<open>\<open>do_memalign\<close> for a power of two.\<close>

lemma pow2_mask: "(2 :: nat) ^ k AND (2 ^ k - 1) = 0"
  by (simp only: AND_mask_zero dvd_refl)

lemma AlignmentForSize_total:
  obtains j where "AlignmentForSize sz = Some (2 ^ j)" "2 ^ j dvd kPageSize"
proof (cases "sz = 0")
  case True
  have "AlignmentForSize 0 = Some (2 ^ 3)" using pow2_mask[of 3] by (simp add: AlignmentForSize_def)
  then show thesis using True by (intro that[of 3]) simp_all
qed (use AlignmentForSize_correct[of sz] that in blast)

lemma pow2_dvd: "(2 :: nat) ^ k \<le> 2 ^ j \<Longrightarrow> (2 :: nat) ^ k dvd 2 ^ j"
  by (simp add: le_imp_power_dvd)

text \<open>When no aligned block can be had: the size and the alignment overflow together, or the page heap is short.\<close>

definition short_aligned :: "env \<Rightarrow> nat \<Rightarrow> nat \<Rightarrow> pageheap \<Rightarrow> bool" where
  "short_aligned env align sz h \<longleftrightarrow> two64 \<le> sz + align \<or> short_of env (max 1 sz + align) h"

lemma short_of_mono:
  assumes "short_of env s h" "s \<le> s'"
  shows "short_of env s' h"
proof -
  have "s \<le> pages s' * kPageSize" using pages_least[of s'] assms(2) by (meson order_trans)
  then have "pages s \<le> pages s'" using pages_least[of s] by blast
  then show ?thesis using assms(1) unfolding short_of_def by (meson max.mono order_refl order_trans)
qed

lemma short_ofI':
  assumes "New env (pages s) h = Some (None, h')" "0 < s" "s \<le> s'"
  shows "short_of env s' h"
proof (rule short_of_mono[OF short_ofI[OF assms(1)] assms(3)])
  show "0 < pages s" using assms(2) by (auto simp: pages_def)
qed simp

lemma do_memalign_ok:
  assumes "malloc_ok M B" "memory_left me M" "sz < two64" "k < 64"
  obtains r M' where "do_memalign env me (2 ^ k) sz M = Some (r, M')" "handed B sz M r M'" "same_mode M M'" "2 ^ k dvd r"
    "r = 0 \<Longrightarrow> short_aligned (penv env) (2 ^ k) sz (the_heap M)" "two64 \<le> sz + 2 ^ k \<Longrightarrow> r = 0 \<and> M' = M"
proof -
  let ?a = "2 ^ k :: nat"
  have "?a < 2 ^ 64" using assms(4) by (intro power_strict_increasing) simp_all
  then have a: "0 < ?a" "?a < two64" by (simp_all add: two64_def)
  have up: "module_up M" using assms(1) by (simp add: malloc_ok_def)
  obtain j where j: "AlignmentForSize sz = Some (2 ^ j)" "2 ^ j dvd kPageSize" by (rule AlignmentForSize_total)
  define s where "s = (if sz = 0 then 1 else sz)"
  have s: "0 < s" "sz \<le> s" by (simp_all add: s_def)
  define c where "c = (if s \<le> kMaxSize \<and> ?a < kPageSize then aligned_class (the_sizes M) ?a (SizeClass (the_sizes M) s) else kNumClasses)"
  have D: "do_memalign env me ?a sz M = (if add64 sz ?a < sz then Some (0, M)
     else if ?a \<le> 2 ^ j then do { (p, M) \<leftarrow> do_malloc env me sz M; check (p mod ?a = 0); Some (p, M) }
     else if c < kNumClasses then do {
          M \<leftarrow> (if tsd_inited (thr M) then Some M else InitModule env M);
          (heap, S) \<leftarrow> GetCache (sample_interval env) (raw_cache env) me (thr M);
          let sz = class_to_size (the_sizes M) c;
          (r, S) \<leftarrow> cache_Allocate (penv env) heap sz c S;
          r \<leftarrow> CheckedMallocResult r (pheap (cent S));
          Some (r, M\<lparr>thr := S\<rparr>) }
     else if ?a \<le> kPageSize then do {
          (sp, h) \<leftarrow> New (penv env) (pages s) (the_heap M);
          (r, h) \<leftarrow> (case sp of None \<Rightarrow> Some (0, h) | Some p \<Rightarrow> SpanToMallocResult p h);
          Some (r, with_heap h M) }
     else do {
          (r, h) \<leftarrow> carve_aligned (penv env) ?a s (the_heap M);
          Some (r, with_heap h M) })"
    by (simp only: do_memalign_def pow2_mask a(1) up j(1) check_simps Option.bind.simps Let_def s_def c_def if_True simp_thms)
  have ov: "add64 sz ?a < sz \<longleftrightarrow> two64 \<le> sz + ?a"
  proof (cases "two64 \<le> sz + ?a")
    case True
    have "(sz + ?a) mod two64 = sz + ?a - two64" using True assms(3) a(2) by (subst le_mod_geq) simp_all
    then show ?thesis using True a(2) unfolding add64_def by linarith
  qed (simp add: add64_def)
  have le1: "sz \<le> max 1 sz + ?a" "s \<le> max 1 sz + ?a" "s + ?a = max 1 sz + ?a" by (simp_all add: s_def)
  have sh: "short_aligned (penv env) ?a sz (the_heap M)" if "New (penv env) (pages s) (the_heap M) = Some (None, h) \<or> New (penv env) (pages (s + ?a)) (the_heap M) = Some (None, h)" for h
    unfolding short_aligned_def le1(3)[symmetric] using that s(1) short_ofI'[of "penv env" s "the_heap M" h "s + ?a"] short_ofI'[of "penv env" "s + ?a" "the_heap M" h "s + ?a"] by auto
  consider "add64 sz ?a < sz" | "\<not> add64 sz ?a < sz" "?a \<le> 2 ^ j"
    | "\<not> add64 sz ?a < sz" "\<not> ?a \<le> 2 ^ j" "c < kNumClasses"
    | "\<not> add64 sz ?a < sz" "\<not> ?a \<le> 2 ^ j" "\<not> c < kNumClasses" "?a \<le> kPageSize"
    | "\<not> add64 sz ?a < sz" "\<not> ?a \<le> 2 ^ j" "\<not> c < kNumClasses" "\<not> ?a \<le> kPageSize" by blast
  then show thesis
  proof cases
    case 1
    then show thesis using D assms(1) ov by (intro that[of 0 M]) (simp_all add: handed_def same_words_def short_aligned_def)
  next
    case 2
    obtain r M' where A: "do_malloc env me sz M = Some (r, M')" "handed B sz M r M'" "same_mode M M'"
      "\<And>a. AlignmentForSize sz = Some a \<Longrightarrow> a dvd r" "r = 0 \<Longrightarrow> short_of (penv env) sz (the_heap M)"
      by (rule do_malloc_ok[OF assms(1-3), of env]) (rule that)
    have d: "?a dvd r" by (rule dvd_trans[OF pow2_dvd[OF 2(2)] A(4)[OF j(1)]])
    show thesis
    proof (rule that[OF _ A(2,3) d])
      show "do_memalign env me ?a sz M = Some (r, M')" using D 2 A(1) d by (simp add: dvd_eq_mod_eq_0)
      show "short_aligned (penv env) ?a sz (the_heap M)" if "r = 0"
        using short_of_mono[OF A(5)[OF that] le1(1)] by (simp add: short_aligned_def)
    qed (use 2(1) ov in blast)
  next
    case 3
    then have z: "s \<le> kMaxSize" "?a < kPageSize" by (auto simp: c_def split: if_splits)
    obtain App F S G where I: "mstate (thr M) App F S G" using assms(1) unfolding malloc_ok_def by blast
    have m: "the_sizes M = init_sizemap" by (rule mstate_sizes[OF I])
    let ?d = "SizeClass init_sizemap s"
    note dc = SizeClass_ok[OF z(1)]
    have c: "c = aligned_class init_sizemap ?a ?d" unfolding c_def m using z by simp
    have le: "?d \<le> kNumClasses" using dc(1) by simp
    note K = aligned_class_spec[OF le, of init_sizemap k, folded c]
    have lt: "c < kNumClasses" using 3(3) .
    then have cc: "c \<in> classes" using K(2) dc(1) by simp
    have o: "sz \<le> osz c" using osz_mono[OF dc(1) cc K(2)] dc(2) s(2) by linarith
    have dv: "?a dvd osz c" using K(3)[OF lt] by (simp only: sizemap_facts(3))
    have "?a \<le> 2 ^ 13" using z(2) by simp
    then have dp: "?a dvd kPageSize" using pow2_dvd[of k 13] by simp
    show thesis
      by (rule memalign_object[OF assms(1,2) cc o dv dp, of env "max 1 sz + ?a"])
        (rule that, use D 3 ov in \<open>simp_all add: short_aligned_def\<close>)
  next
    case 4
    have "?a \<le> 2 ^ 13" using 4(4) by simp
    then have dp: "?a dvd kPageSize" using pow2_dvd[of k 13] by simp
    obtain r M' where A: "do {
          (sp, h) \<leftarrow> New (penv env) (pages s) (the_heap M);
          (r, h) \<leftarrow> (case sp of None \<Rightarrow> Some (0, h) | Some p \<Rightarrow> SpanToMallocResult p h);
          Some (r, with_heap h M) } = Some (r, M')" "handed B s M r M'" "same_mode M M'" "?a dvd r"
      "r = 0 \<Longrightarrow> \<exists>h. New (penv env) (pages s) (the_heap M) = Some (None, h)"
      by (rule memalign_span[OF assms(1,2) s(1) dp, of env]) (rule that)
    show thesis
    proof (rule that[OF _ handed_mono[OF A(2) s(2)] A(3,4)])
      show "do_memalign env me ?a sz M = Some (r, M')" using D 4 A(1) by simp
    qed (use A(5) sh 4(1) ov in blast)+
  next
    case 5
    have "(2 :: nat) ^ 13 < 2 ^ k" using 5(4) by simp
    then have k: "13 < k" by (rule power_less_imp_less_exp[rotated]) simp
    have "?a \<le> 2 ^ 63" using assms(4) by (intro power_increasing) simp_all
    then have "1 + ?a < two64" by (simp add: two64_def)
    moreover have "sz + ?a < two64"
    proof (rule ccontr)
      assume n: "\<not> sz + ?a < two64"
      have "(sz + ?a) mod two64 = sz + ?a - two64" using n assms(3) a(2) by (subst le_mod_geq) simp_all
      then show False using n 5(1) a(2) unfolding add64_def by linarith
    qed
    ultimately have le: "s + ?a < two64" by (simp add: s_def)
    obtain r M' where A: "do { (r, h) \<leftarrow> carve_aligned (penv env) ?a s (the_heap M); Some (r, with_heap h M) } = Some (r, M')"
      "handed B s M r M'" "same_mode M M'" "?a dvd r"
      "r = 0 \<Longrightarrow> \<exists>h. New (penv env) (pages (s + ?a)) (the_heap M) = Some (None, h)"
      by (rule memalign_carve[OF assms(1,2) s(1) k le, of env]) (rule that)
    show thesis
    proof (rule that[OF _ handed_mono[OF A(2) s(2)] A(3,4)])
      show "do_memalign env me ?a sz M = Some (r, M')" using D 5 A(1) by simp
    qed (use A(5) sh 5(1) ov in blast)+
  qed
qed

end
