(* ===== verification/TcmallocStart.thy ===== *)
theory TcmallocStart
  imports TcmallocMemalign
begin

text \<open>
  Start-up: the static data as \<open>InitModule\<close> leaves them satisfy the invariant of the malloc layer, with
  no block in the hands of the application.
\<close>

definition can_start :: "static_memory \<Rightarrow> bool" where
  "can_start s \<longleftrightarrow> (\<forall>a \<in> {span_space s, trace_space s, cache_space s}. chunks_ok (chunks a) \<and> 0 < leading_chunks (chunks a))
     \<and> (\<exists>al. node_allocs s = True # al) \<and> os_ok {} 0 (system_grants s)"

lemma pool_start:
  assumes "chunks_ok (chunks a)" "0 < leading_chunks (chunks a)" "0 < sz" "sz \<le> kAllocIncrement"
  obtains a' where "pha_Init sz a = Some a'" "pool sz {} a'" "kAllocIncrement div sz \<le> spare sz a' + 1"
proof -
  obtain a' where a: "pha_Init sz a = Some a'" "pool sz {} a'" "leading_chunks (chunks a) * (kAllocIncrement div sz) \<le> spare sz a' + 1"
    using pha_Init_pool[OF assms(3,4,1,2)] by blast
  have "1 * (kAllocIncrement div sz) \<le> leading_chunks (chunks a) * (kAllocIncrement div sz)"
    by (rule mult_le_mono1) (use assms(2) in simp)
  then have "kAllocIncrement div sz \<le> spare sz a' + 1" using a(3) by linarith
  then show thesis using a by (intro that)
qed

lemma start_pools:
  assumes "can_start s"
  obtains sa0 x sa1 y sa ta ca where "pha_Init sizeof_Span (span_space s) = Some sa0" "pha_New sizeof_Span sa0 = Some (x, sa1)"
    "pha_New sizeof_Span sa1 = Some (y, sa)" "pha_Init sizeof_StackTrace (trace_space s) = Some ta"
    "pha_Init sizeof_ThreadCache (cache_space s) = Some ca" "span_pool {} sa" "pool sizeof_StackTrace {} ta"
    "pool sizeof_ThreadCache {} ca" "100 \<le> spare sizeof_Span sa" "100 \<le> spare sizeof_StackTrace ta" "10 \<le> spare sizeof_ThreadCache ca"
proof -
  note A = assms[unfolded can_start_def]
  obtain sa0 where s0: "pha_Init sizeof_Span (span_space s) = Some sa0" "pool sizeof_Span {} sa0" "kAllocIncrement div sizeof_Span \<le> spare sizeof_Span sa0 + 1"
    using pool_start[of "span_space s" sizeof_Span] A by auto
  obtain ta where ta: "pha_Init sizeof_StackTrace (trace_space s) = Some ta" "pool sizeof_StackTrace {} ta" "kAllocIncrement div sizeof_StackTrace \<le> spare sizeof_StackTrace ta + 1"
    using pool_start[of "trace_space s" sizeof_StackTrace] A by auto
  obtain ca where ca: "pha_Init sizeof_ThreadCache (cache_space s) = Some ca" "pool sizeof_ThreadCache {} ca" "kAllocIncrement div sizeof_ThreadCache \<le> spare sizeof_ThreadCache ca + 1"
    using pool_start[of "cache_space s" sizeof_ThreadCache] A by auto
  have "0 < spare sizeof_Span sa0" using s0(3) by simp
  then obtain x sa1 where s1: "pha_New sizeof_Span sa0 = Some (x, sa1)" "pool sizeof_Span {x} sa1" "spare sizeof_Span sa0 \<le> spare sizeof_Span sa1 + 1"
    using pha.new_ok[OF s0(2)] by blast
  have "0 < spare sizeof_Span sa1" using s0(3) s1(3) by simp
  then obtain y sa where s2: "pha_New sizeof_Span sa1 = Some (y, sa)" "pool sizeof_Span {y, x} sa" "spare sizeof_Span sa1 \<le> spare sizeof_Span sa + 1"
    using pha.new_ok[OF s1(2)] by blast
  have "span_pool {} sa" unfolding span_pool_def using s2(2) by (intro exI[of _ "{y, x}"]) simp
  then show thesis using s0 s1 s2 ta ca by (intro that[of sa0 x sa1 y sa ta ca]) simp_all
qed

lemma InitStaticVars_ok:
  assumes "can_start s"
  obtains st t where "InitStaticVars s = Some st" "exactly [SampledObjects \<mapsto> t] {} (store st) st (\<lambda>_. {})"
    "sampled_ok [SampledObjects \<mapsto> t] [] {}" "100 \<le> room (pheap st)" "100 \<le> trace_room (pheap st)" "spans (pheap st) = Map.empty"
    "os_grants (pheap st) = system_grants s" "pagemap (pheap st) = \<lparr>root3 = (\<lambda>_. None), allocator3 = tl (node_allocs s)\<rparr>"
proof -
  note A = assms[unfolded can_start_def]
  obtain sa0 x sa1 y sa ta ca where P: "pha_Init sizeof_Span (span_space s) = Some sa0" "pha_New sizeof_Span sa0 = Some (x, sa1)"
    "pha_New sizeof_Span sa1 = Some (y, sa)" "pha_Init sizeof_StackTrace (trace_space s) = Some ta"
    "pha_Init sizeof_ThreadCache (cache_space s) = Some ca" "span_pool {} sa" "pool sizeof_StackTrace {} ta"
    "pool sizeof_ThreadCache {} ca" "100 \<le> spare sizeof_Span sa" "100 \<le> spare sizeof_StackTrace ta" "10 \<le> spare sizeof_ThreadCache ca"
    by (rule start_pools[OF assms]) (rule that)
  obtain al where al: "node_allocs s = True # al" using A by blast
  have os: "os_ok {} 0 (system_grants s)" using A by blast
  obtain h where h: "PageHeap_init (True # al) sa ta (system_grants s) (raw_packed s) = Some h" "heap_ok h" "spans h = Map.empty"
    "span_allocator h = sa" "stacktrace_allocator h = ta" "os_grants h = system_grants s"
    "pagemap h = \<lparr>root3 = (\<lambda>_. None), allocator3 = al\<rparr>" "\<forall>i. mem h (CflEmpty i) = Some zero_span \<and> mem h (CflNonempty i) = Some zero_span"
    "mem h SampledObjects = Some zero_span" "traces h = Map.empty" "\<forall>a. mem h (Sp a) = None"
    by (rule PageHeap_init_ok[OF P(6,7) os, of al "raw_packed s"]) (rule that)
  let ?st0 = "\<lparr>pheap = h, smap = init_sizemap, central_cache = raw_central s, store = raw_words s, race_counter = 0\<rparr>"
  obtain st m where st: "init_central ?st0 = Some st" "central_ok st (\<lambda>_. {})" "spans (pheap st) = spans h" "pheap st = h\<lparr>mem := m\<rparr>"
    "mem (pheap st) SampledObjects = mem h SampledObjects"
    using init_central_ok[of ?st0] h(2,8) by auto
  have Sp: "mem (pheap st) (Sp a) = None" for a
  proof -
    have "spans (pheap st) a = None" using st(3) h(3) by simp
    then show ?thesis by (simp add: desc_def)
  qed
  have hok: "heap_ok (pheap st)" using st(2) cinvD(2) unfolding central_ok_def by blast
  have "mem (pheap st) SampledObjects \<noteq> None" using st(5) h(9) by simp
  then obtain m' where m': "DLL_Init SampledObjects (mem (pheap st)) = Some m'" "dll m' SampledObjects []" "shape m' = shape (mem (pheap st))"
    "\<forall>u. u \<noteq> SampledObjects \<longrightarrow> m' u = mem (pheap st) u" using dll_Init[of "mem (pheap st)" SampledObjects] by blast
  have fr: "m' u = mem (pheap st) u" if "u \<notin> {SampledObjects}" for u using that m'(4) by simp
  note K = shape_frame[OF hok m'(3) fr, of "{SampledObjects}"]
  have idl: "idle (spans (pheap st)) u" if "u \<in> {SampledObjects}" for u using that by (auto simp: idle_def heads_def)
  let ?h' = "(pheap st)\<lparr>mem := m'\<rparr>"
  have h': "heap_ok ?h'" "spans ?h' = spans (pheap st)" using K idl by blast+
  obtain t where t: "m' SampledObjects = Some t" using m'(2) by (auto simp: dll_def linked_def nxt_def)
  have o: "outside SampledObjects u" for u by (auto simp: outside_def heads_def cheads_def)
  have tr: "traces ?h' = Map.empty" using st(4) h(10) by simp
  have tg: "tagged [SampledObjects \<mapsto> t] {} ?h'"
    unfolding tagged_def using Sp t o m'(4) by auto
  have cw: "central_with (\<lambda>_. None) {} (store st) st (\<lambda>_. {})"
    unfolding central_with_def tagged_def using st(2) Sp by auto
  have C: "central_with [SampledObjects \<mapsto> t] {} (store st) (st\<lparr>pheap := ?h'\<rparr>) (\<lambda>_. {})"
  proof (rule central_swap[OF cw, where E = "{SampledObjects}"])
    show "GetDescriptor ?h' j = GetDescriptor (pheap st) j" for j by (simp add: GetDescriptor_def)
  qed (use o h'(1) tg m'(4) in auto)
  moreover have "unclassed ?h' = {}" using Sp m'(4) by (auto simp: unclassed_def)
  ultimately have CE: "exactly [SampledObjects \<mapsto> t] {} (store st) (st\<lparr>pheap := ?h'\<rparr>) (\<lambda>_. {})" by (simp add: exactly_def)
  have S: "sampled_ok [SampledObjects \<mapsto> t] [] {}"
  proof -
    have "dll [SampledObjects \<mapsto> t] SampledObjects []" using m'(2) t by (simp add: dll_def linked_def nxt_def prv_def)
    then show ?thesis by (auto simp: sampled_ok_def dlls_def)
  qed
  have "on_lists_of (DLL_Init SampledObjects) (pheap st) = Some ?h'" using m'(1) by (simp add: on_lists_of_def)
  then have run: "InitStaticVars s = Some (st\<lparr>pheap := ?h'\<rparr>)"
    unfolding InitStaticVars_def SizeMap_Init_eq P(1-4) al h(1) st(1) Option.bind.simps prod.case by simp
  show thesis
    by (rule that[OF run]) (use CE S P(9,10) st(4) h(3-7) h'(2) st(3) al in simp_all)
qed

lemma InitThreadCaches_ok:
  assumes "can_start s"
  obtains T t where "InitThreadCaches s = Some T" "mstate T (\<lambda>_. {}) [SampledObjects \<mapsto> t] [] {}" "\<not> tsd_inited T" "cache_room T"
    "100 \<le> room (pheap (cent T))" "100 \<le> trace_room (pheap (cent T))" "spans (pheap (cent T)) = Map.empty" "heaps T = Map.empty"
    "os_grants (pheap (cent T)) = system_grants s" "pagemap (pheap (cent T)) = \<lparr>root3 = (\<lambda>_. None), allocator3 = tl (node_allocs s)\<rparr>"
proof -
  obtain st t where S: "InitStaticVars s = Some st" "exactly [SampledObjects \<mapsto> t] {} (store st) st (\<lambda>_. {})"
    "sampled_ok [SampledObjects \<mapsto> t] [] {}" "100 \<le> room (pheap st)" "100 \<le> trace_room (pheap st)" "spans (pheap st) = Map.empty"
    "os_grants (pheap st) = system_grants s" "pagemap (pheap st) = \<lparr>root3 = (\<lambda>_. None), allocator3 = tl (node_allocs s)\<rparr>"
    by (rule InitStaticVars_ok[OF assms]) (rule that)
  obtain ca where ca: "pha_Init sizeof_ThreadCache (cache_space s) = Some ca" "pool sizeof_ThreadCache {} ca" "10 \<le> spare sizeof_ThreadCache ca"
    by (rule start_pools[OF assms]) (rule that)
  let ?T = "initial_threads st ca"
  have c: "cent ?T = st" by (simp add: initial_threads_def)
  let ?ok = "exactly [SampledObjects \<mapsto> t] {} (store st)"
  have "contents ?ok ?T (\<lambda>_. {}) (\<lambda>_ _. [])" using S(2) by (simp add: contents_def initial_threads_def)
  moreover have "registry ?T []" using ca(2) by (simp add: registry_def initial_threads_def on_list_def)
  moreover have "budget_ok ?T" by (simp add: budget_ok_def initial_threads_def claims_def)
  moreover have "app (\<lambda>_. {}) (\<lambda>_ _. []) = (\<lambda>_. {})" by (simp add: app_def fun_eq_iff)
  ultimately have "threads_ok ?ok ?T (\<lambda>_. {})" unfolding threads_ok_def by metis
  then have m: "mstate ?T (\<lambda>_. {}) [SampledObjects \<mapsto> t] [] {}" using S(3) by (rule mstateI)
  have run: "InitThreadCaches s = Some ?T" unfolding InitThreadCaches_def S(1) ca(1) by simp
  have "cache_room ?T" using ca(3) by (simp add: cache_room_def initial_threads_def claims_def)
  then show thesis by (intro that[OF run m]) (use S(4-8) in \<open>simp_all add: initial_threads_def\<close>)
qed

text \<open>Nothing is handed out when the module has just been initialised.\<close>

lemma InitModule_ok:
  assumes "can_start (statics env)" "\<not> module_up M"
  obtains M' where "InitModule env M = Some M'" "malloc_ok M' {}" "memory_left me M'" "heaps (thr M') = Map.empty" "\<not> tsd_inited (thr M')"
    "spans (the_heap M') = Map.empty" "os_grants (the_heap M') = system_grants (statics env)"
    "pagemap (the_heap M') = \<lparr>root3 = (\<lambda>_. None), allocator3 = tl (node_allocs (statics env))\<rparr>" "same_mode M M'" "100 \<le> room (the_heap M')" "100 \<le> trace_room (the_heap M')"
proof -
  obtain T t where T: "InitThreadCaches (statics env) = Some T" "mstate T (\<lambda>_. {}) [SampledObjects \<mapsto> t] [] {}" "\<not> tsd_inited T" "cache_room T"
    "100 \<le> room (pheap (cent T))" "100 \<le> trace_room (pheap (cent T))" "spans (pheap (cent T)) = Map.empty" "heaps T = Map.empty"
    "os_grants (pheap (cent T)) = system_grants (statics env)"
    "pagemap (pheap (cent T)) = \<lparr>root3 = (\<lambda>_. None), allocator3 = tl (node_allocs (statics env))\<rparr>"
    by (rule InitThreadCaches_ok[OF assms(1)]) (rule that)
  let ?M = "M\<lparr>thr := T, module_up := True\<rparr>"
  have run: "InitModule env M = Some ?M" using assms(2) T(1) by (simp add: InitModule_def)
  have "blocks (\<lambda>_. {}) [SampledObjects \<mapsto> t] = {}" by (simp add: blocks_def runs_def)
  then have ok: "malloc_ok ?M {}" using malloc_okI[of ?M "\<lambda>_. {}" "[SampledObjects \<mapsto> t]" "[]" "{}"] T(2) by simp
  show thesis
    by (rule that[OF run ok]) (use T(3-10) in \<open>simp_all add: memory_left_def thread_ready_def same_mode_def\<close>)
qed

end
