(* ===== verification/TcmallocCalls.thy ===== *)
theory TcmallocCalls
  imports TcmallocStart
begin

text \<open>
  The exported calls: ownership, the loop around the new-handler, the error codes of
  \<open>posix_memalign\<close>, and a sample state in which the application holds a block.
\<close>

section \<open>Ownership\<close>

lemma GetOwnership_block:
  assumes "malloc_ok M B" "(p, n) \<in> B"
  shows "GetOwnership p M = Some Owned"
proof -
  obtain App F S G where I: "mstate (thr M) App F S G" "B = blocks App F" using assms(1) unfolding malloc_ok_def by blast
  obtain Own where O: "lent F S G (cent (thr M)) Own" "\<And>c. App c \<subseteq> Own c" by (rule mstate_heap[OF I(1)]) (rule that)
  have W: "central_with F G (store (cent (thr M))) (cent (thr M)) Own" using O(1) by (rule lentD(1))
  have "\<exists>cl d. GetSizeClassIfCached (the_heap M) (p div kPageSize) = Some cl \<and> GetDescriptor (the_heap M) (p div kPageSize) = Some d
    \<and> p div kPageSize < 2 ^ 35"
    using assms(2)[unfolded I(2)]
  proof (cases rule: blocks_cases)
    case (object c)
    have o: "p \<in> Own c" using object(1) O(2) by blast
    obtain a where "GetDescriptor (pheap (cent (thr M))) (p div kPageSize) = Some (Sp a)" "p div kPageSize < 2 ^ 35"
      by (rule object_page[OF W o]) (rule that)
    then show ?thesis using object_cached[OF W o] by (auto simp: cached_as_def)
  next
    case (run a t)
    then show ?thesis using lent_span[OF W run(1)] by simp
  qed
  then show ?thesis by (auto simp: GetOwnership_def)
qed

lemma GetAllocatedSize_block:
  assumes "malloc_ok M B" "(p, n) \<in> B"
  obtains M' where "GetAllocatedSize p M = Some (n, M')" "malloc_ok M' B" "store (cent (thr M')) = store (cent (thr M))"
proof (rule GetSize_ok[OF assms, of InvalidGetAllocatedSize])
  fix M'
  assume "GetSizeWithCallback p InvalidGetAllocatedSize M = Some (n, M')" "malloc_ok M' B" "store (cent (thr M')) = store (cent (thr M))"
  then show thesis using GetOwnership_block[OF assms] by (intro that[of M']) (simp_all add: GetAllocatedSize_def)
qed

section \<open>operator new\<close>

lemma new_loop_not_null:
  assumes "new_loop env f nothrow M = Some (r, M')"
  shows "nothrow \<or> r \<noteq> Returned 0" "nothrow \<longrightarrow> r \<noteq> Bad_alloc"
proof -
  have "(nothrow \<or> fst (r, M') \<noteq> Returned 0) \<and> (nothrow \<longrightarrow> fst (r, M') \<noteq> Bad_alloc)"
    using assms
  proof (rule new_loop.raw_induct[where P = "\<lambda>env f nothrow M x. (nothrow \<or> fst x \<noteq> Returned 0) \<and> (nothrow \<longrightarrow> fst x \<noteq> Bad_alloc)", rotated])
    fix loop and env :: menv and f :: "malloc_state \<Rightarrow> (nat \<times> malloc_state) option" and nothrow M and x :: "outcome \<times> malloc_state"
    assume IH: "\<And>env f nothrow M x. loop env f nothrow M = Some x \<Longrightarrow> (nothrow \<or> fst x \<noteq> Returned 0) \<and> (nothrow \<longrightarrow> fst x \<noteq> Bad_alloc)"
      and run: "Option.bind (f M) (\<lambda>(p, M). if p \<noteq> 0 then Some (Returned p, M)
        else if new_handler M = 0 then Some (if nothrow then Returned 0 else Bad_alloc, M)
        else Option.bind (run_handler env (new_handler M) M) (\<lambda>r. case r of Returns M \<Rightarrow> loop env f nothrow M
          | Throws_bad_alloc M \<Rightarrow> Some (if nothrow then Returned p else Bad_alloc, M) | Throws_other M \<Rightarrow> Some (Other_exception, M))) = Some x"
    show "(nothrow \<or> fst x \<noteq> Returned 0) \<and> (nothrow \<longrightarrow> fst x \<noteq> Bad_alloc)"
    proof -
      obtain p M1 where p: "f M = Some (p, M1)" using run by (cases "f M") auto
      show ?thesis
      proof (cases "p = 0 \<and> new_handler M1 \<noteq> 0")
        case False
        then show ?thesis using run p by (cases nothrow) (auto split: if_splits)
      next
        case True
        then obtain r where r: "run_handler env (new_handler M1) M1 = Some r" using run p by (cases "run_handler env (new_handler M1) M1") auto
        show ?thesis
        proof (cases r)
          case (Returns M2)
          then have "loop env f nothrow M2 = Some x" using run p r True by simp
          then show ?thesis by (rule IH)
        qed (use run p r True in \<open>auto split: if_splits\<close>)
      qed
    qed
  qed
  then show "nothrow \<or> r \<noteq> Returned 0" "nothrow \<longrightarrow> r \<noteq> Bad_alloc" by simp_all
qed

lemma new_loop_first:
  assumes "f M = Some (p, M1)" "p \<noteq> 0 \<or> new_handler M1 = 0"
  shows "new_loop env f nothrow M = Some (if p \<noteq> 0 \<or> nothrow then Returned p else Bad_alloc, M1)"
  using assms by (subst new_loop.simps) auto

section \<open>Powers of two\<close>

lemma pow2_test:
  assumes "0 < (x :: nat)" "x AND (x - 1) = 0"
  shows "\<exists>k. x = 2 ^ k"
  using assms
proof (induction x rule: less_induct)
  case (less x)
  show ?case
  proof (cases "x = 1")
    case True
    then show ?thesis by (intro exI[of _ 0]) simp
  next
    case False
    then have g: "1 < x" using less.prems(1) by simp
    have half: "x div 2 AND (x - 1) div 2 = 0"
    proof -
      have "(x AND (x - 1)) div 2 = x div 2 AND (x - 1) div 2" by (subst and_rec) simp
      then show ?thesis using less.prems(2) by simp
    qed
    show ?thesis
    proof (cases "even x")
      case True
      then have h: "(x - 1) div 2 = x div 2 - 1" using g by presburger
      have "\<exists>k. x div 2 = 2 ^ k" by (rule less.IH) (use g half h in simp_all)
      then show ?thesis using True by (metis dvd_mult_div_cancel power_Suc)
    next
      case False
      then have "(x - 1) div 2 = x div 2" using g by presburger
      then have "x div 2 = 0" using half by simp
      then show ?thesis using g by simp
    qed
  qed
qed

lemma posix_alignment:
  "(align :: nat) mod 8 \<noteq> 0 \<or> align AND (align - 1) \<noteq> 0 \<or> align = 0 \<longleftrightarrow> (\<nexists>k. 3 \<le> k \<and> align = 2 ^ k)"
proof
  assume "align mod 8 \<noteq> 0 \<or> align AND (align - 1) \<noteq> 0 \<or> align = 0"
  moreover have "(8 :: nat) dvd 2 ^ k" if "3 \<le> k" for k using le_imp_power_dvd[OF that, of "2 :: nat"] by simp
  ultimately show "\<nexists>k. 3 \<le> k \<and> align = 2 ^ k" using pow2_mask[unfolded One_nat_def] by auto
next
  assume n: "\<nexists>k. 3 \<le> k \<and> align = 2 ^ k"
  show "align mod 8 \<noteq> 0 \<or> align AND (align - 1) \<noteq> 0 \<or> align = 0"
  proof (rule ccontr)
    assume c: "\<not> ?thesis"
    then obtain k where k: "align = 2 ^ k" using pow2_test[of align] by auto
    have "(2 :: nat) ^ 3 dvd 2 ^ k" using c k by (simp add: mod_eq_0_iff_dvd)
    then have "3 \<le> k" by (rule power_dvd_imp_le) simp
    then show False using n k by blast
  qed
qed

end
