(* ===== verification/TcmallocThms.thy ===== *)
theory TcmallocThms
  imports TcmallocCalls
begin

text \<open>
  The properties of the malloc layer, stated over \<open>malloc_ok M B\<close>: the state is consistent and \<open>B\<close> is
  the set of blocks (address and usable size) that the application holds.
\<close>

section \<open>A sample state\<close>

definition sample_statics :: static_memory where
  "sample_statics = (let a = \<lambda>c. \<lparr>free_area = 0, free_avail = 0, free_list = 0, inuse = 0, link = (\<lambda>_. 0), chunks = [Some c]\<rparr>
     in \<lparr>span_space = a 262144, trace_space = a 524288, cache_space = a 786432, node_allocs = [True, True, True],
         system_grants = [Some (1048576, 1048576)], raw_packed = (\<lambda>_. 0), raw_central = (\<lambda>_. undefined), raw_words = (\<lambda>_. 0)\<rparr>)"

definition sample_menv :: menv where
  "sample_menv = \<lparr>penv = sample_env, sample_interval = (\<lambda>_. 1), raw_cache = undefined, sample_parameter = 0, getpagesize = 4096,
     statics = sample_statics, run_handler = (\<lambda>_ _. None)\<rparr>"

text \<open>The state of a process that has not allocated yet; \<open>thr\<close> is set by the initialisation.\<close>

definition cold :: malloc_state where
  "cold = \<lparr>thr = undefined, module_up = False, large_alloc_threshold = 2 ^ 30, large_reports = [], errno = (\<lambda>_. 0), tc_new_mode = 0,
     new_handler = 0, hooks = [], pagesize = 0, extra_bytes_released = 0\<rparr>"

lemma sample_can_start: "can_start (statics sample_menv)"
  by (auto simp: sample_menv_def sample_statics_def can_start_def chunks_ok_def Let_def os_ok_def heap_budget_def grant_bytes_def)

lemma malloc_heap_ok: "malloc_ok M B \<Longrightarrow> heap_ok (the_heap M)"
  unfolding malloc_ok_def mstate_def threads_ok_def contents_def exactly_def central_with_def central_ok_def using cinvD(2) by blast

lemma sample_up:
  obtains M where "InitModule sample_menv cold = Some M" "malloc_ok M {}" "memory_left me M" "fresh_heap (the_heap M)"
    "tc_new_mode M = 0" "new_handler M = 0" "\<not> tsd_inited (thr M)" "heaps (thr M) = Map.empty"
proof -
  have c: "\<not> module_up cold" by (simp add: cold_def)
  obtain M where M: "InitModule sample_menv cold = Some M" "malloc_ok M {}" "memory_left me M" "heaps (thr M) = Map.empty" "\<not> tsd_inited (thr M)"
    "spans (the_heap M) = Map.empty" "os_grants (the_heap M) = system_grants (statics sample_menv)"
    "pagemap (the_heap M) = \<lparr>root3 = (\<lambda>_. None), allocator3 = tl (node_allocs (statics sample_menv))\<rparr>" "same_mode cold M"
    "100 \<le> room (the_heap M)" "100 \<le> trace_room (the_heap M)"
    by (rule InitModule_ok[OF sample_can_start c, of me]) (rule that)
  have "fresh_heap (the_heap M)"
    using M(6-8,10,11) malloc_heap_ok[OF M(2)] by (simp add: fresh_heap_def sample_menv_def sample_statics_def Let_def)
  then show thesis using M(1-5,9) by (intro that[of M]) (simp_all add: same_mode_def cold_def)
qed

lemma SpanToMallocResult_pools:
  assumes "SpanToMallocResult p h = Some (r, h')"
  shows "span_allocator h' = span_allocator h" "stacktrace_allocator h' = stacktrace_allocator h"
  using assms by (auto simp: SpanToMallocResult_def CacheSizeClass_def bind_eq_Some_conv)

text \<open>The application holds a block of three pages.\<close>

lemma sample_block:
  obtains M p where "malloc_ok M {(p, 24576)}" "memory_left me M" "tc_new_mode M = 0" "new_handler M = 0"
proof -
  obtain M where M: "malloc_ok M {}" "memory_left me M" "fresh_heap (the_heap M)" "tc_new_mode M = 0" "new_handler M = 0"
    "\<not> tsd_inited (thr M)" "heaps (thr M) = Map.empty" "InitModule sample_menv cold = Some M"
    by (rule sample_up[of me]) (rule that)
  obtain App F S G where I: "module_up M" "mstate (thr M) App F S G" "{} = blocks App F" using M(1) unfolding malloc_ok_def by blast
  note f = M(3)[unfolded fresh_heap_def]
  have fr: "10 \<le> room (the_heap M)" "10 \<le> trace_room (the_heap M)" "heap_ok (the_heap M)" using f by blast+
  obtain a h1 where N: "New sample_env 3 (the_heap M) = Some (Some (Sp a), h1)" using fresh_New[OF M(3), of 3 sample_env] by auto
  have H: "heap_at (cover (spans (the_heap M))) (the_heap M)" using fr(3) by (simp add: heap_ok_def)
  have rm: "2 \<le> room (the_heap M)" "0 < trace_room (the_heap M)" "(0 :: nat) < 3" using fr by linarith+
  have r1: "room (the_heap M) \<le> room h1 + 2 \<and> trace_room (the_heap M) \<le> trace_room h1 + 1"
  proof -
    obtain r h' where "New sample_env 3 (the_heap M) = Some (r, h')" "room (the_heap M) \<le> room h' + 2 \<and> trace_room (the_heap M) \<le> trace_room h' + 1"
      by (rule New_ok[OF H rm(3,1,2), of sample_env]) (rule that)
    then show ?thesis using N by simp
  qed
  have mr: "memory_ready (cent (thr M))" using rm by (simp add: memory_ready_def)
  obtain r h' F' where L: "do { (sp, h) \<leftarrow> New sample_env 3 (the_heap M); case sp of None \<Rightarrow> Some (0, h) | Some p \<Rightarrow> SpanToMallocResult p h } = Some (r, h')"
    "mstate ((thr M)\<lparr>cent := (cent (thr M))\<lparr>pheap := h'\<rparr>\<rparr>) App F' S G" "lends sample_env (cent (thr M)) F 3 r F'"
    by (rule New_m[OF I(2) mr rm(3), of sample_env]) (rule that)
  have r: "SpanToMallocResult (Sp a) h1 = Some (r, h')" using L(1) N by simp
  have "r \<noteq> 0" using L(3) N by (cases "r = 0") (simp_all add: lends_def)
  then have rn: "runs F' = insert (r, 3 * kPageSize) (runs F)" using L(3) by (simp add: lends_def)
  have e: "runs F = {}" "{(x, osz c) |x c. x \<in> App c} = {}" using I(3) unfolding blocks_def by blast+
  have b: "blocks App F' = {(r, 24576)}" unfolding blocks_def rn e by simp
  let ?M = "with_heap h' M"
  have "malloc_ok ?M (blocks App F')" by (rule malloc_okI) (use I(1) L(2) in \<open>simp_all add: with_heap_def\<close>)
  then have ok: "malloc_ok ?M {(r, 24576)}" unfolding b .
  have "cache_room (thr M)" using M(2,6) by (simp add: memory_left_def thread_ready_def)
  then have "memory_left me ?M"
    using r1 fr SpanToMallocResult_pools[OF r] by (simp add: memory_left_def thread_ready_def with_heap_def cache_room_def)
  then show thesis using ok M(4,5) by (intro that[of ?M r]) (simp_all add: with_heap_def)
qed

section \<open>Allocating and freeing\<close>

definition disjoint_from :: "(nat \<times> nat) set \<Rightarrow> nat \<Rightarrow> nat \<Rightarrow> bool" where
  "disjoint_from B r n \<longleftrightarrow> (\<forall>(q, k) \<in> B. {r..<r + n} \<inter> {q..<q + k} = {})"

text \<open>A heap that has not handed out anything is not short of up to 128 pages.\<close>

lemma fresh_not_short:
  assumes "fresh_heap h" "pages sz \<le> kMaxPages"
  shows "\<not> short_of sample_env sz h"
proof
  assume "short_of sample_env sz h"
  then obtain k h' where k: "0 < k" "k \<le> max 32 (pages sz)" "New sample_env k h = Some (None, h')"
    unfolding short_of_def by blast
  have "k \<le> kMaxPages" using k(2) assms(2) by simp
  then show False using fresh_New[OF assms(1) k(1), of sample_env] k(3) by auto
qed

lemma sample_penv [simp]: "penv sample_menv = sample_env"
  by (simp add: sample_menv_def)

lemma malloc_disjoint:
  assumes "malloc_ok M (insert (r, n) B)" "\<forall>k. (r, k) \<notin> B"
  shows "disjoint_from B r n"
proof -
  have "{r..<r + n} \<inter> {q..<q + k} = {}" if "(q, k) \<in> B" for q k
    by (rule malloc_apart[OF assms(1)]) (use that assms(2) in auto)
  then show ?thesis unfolding disjoint_from_def by blast
qed

lemma handed_block:
  assumes "handed B sz M r M'" "r \<noteq> 0"
  shows "\<exists>n \<ge> sz. malloc_ok M' (insert (r, n) B) \<and> disjoint_from B r n"
proof -
  obtain n where n: "sz \<le> n" "\<forall>k. (r, k) \<notin> B" "malloc_ok M' (insert (r, n) B)" using assms unfolding handed_def by auto
  then show ?thesis using malloc_disjoint[OF n(3,2)] by blast
qed

lemma hooked_Some: "x = Some (Returned p, M) \<Longrightarrow> hooked sz x = Some (Returned p, InvokeNewHook p sz M)"
  by (simp add: hooked_def)

lemma same_words_hook [simp]: "same_words B M (InvokeNewHook p s M') = same_words B M M'" "same_words B (InvokeDeleteHook p M) M' = same_words B M M'"
  by (simp_all add: same_words_def)

lemma handed_hook [simp]: "handed B sz M r (InvokeNewHook p s M') = handed B sz M r M'"
  by (simp add: handed_def)

lemma hooks_hook [simp]: "hooks (InvokeNewHook p s M) = NewHook p s # hooks M" "hooks (InvokeDeleteHook p M) = DeleteHook p # hooks M"
  "errno (InvokeNewHook p s M) = errno M"
  by (simp_all add: InvokeNewHook_def InvokeDeleteHook_def)

text \<open>
  C2: malloc returns a block that does not touch any block the application holds, at least as large
  and as aligned as asked for, and leaves the contents of all blocks alone; it returns null, with
  ENOMEM, only when the page heap cannot supply the pages that it asks for.
\<close>

theorem tc_malloc_allocates:
  assumes "malloc_ok M B" "memory_left me M" "tc_new_mode M = 0" "sz < two64"
  shows "\<exists>r M'. tc_malloc env me sz M = Some (Returned r, M') \<and> same_words B M M' \<and> hooks M' = NewHook r sz # hooks M
     \<and> (if r = 0 then malloc_ok M' B \<and> errno M' me = ENOMEM \<and> short_of (penv env) sz (the_heap M)
        else (\<exists>n \<ge> sz. malloc_ok M' (insert (r, n) B) \<and> disjoint_from B r n)
          \<and> (\<forall>a. AlignmentForSize sz = Some a \<longrightarrow> a dvd r))"
proof -
  obtain r M1 where A: "do_malloc env me sz M = Some (r, M1)" "handed B sz M r M1" "same_mode M M1" "r = 0 \<longrightarrow> errno M1 me = ENOMEM"
    "\<And>a. AlignmentForSize sz = Some a \<Longrightarrow> a dvd r" "r = 0 \<Longrightarrow> short_of (penv env) sz (the_heap M)"
    by (rule do_malloc_ok[OF assms(1,2,4), of env]) (rule that)
  have run: "tc_malloc env me sz M = Some (Returned r, InvokeNewHook r sz M1)"
    unfolding tc_malloc_def by (rule hooked_Some[OF do_malloc_or_cpp_alloc_plain[OF assms(3) A(1)]])
  show ?thesis
  proof (intro exI conjI)
    show "tc_malloc env me sz M = Some (Returned r, InvokeNewHook r sz M1)" by (rule run)
    show "if r = 0 then malloc_ok (InvokeNewHook r sz M1) B \<and> errno (InvokeNewHook r sz M1) me = ENOMEM \<and> short_of (penv env) sz (the_heap M)
        else (\<exists>n \<ge> sz. malloc_ok (InvokeNewHook r sz M1) (insert (r, n) B) \<and> disjoint_from B r n)
          \<and> (\<forall>a. AlignmentForSize sz = Some a \<longrightarrow> a dvd r)"
      using A(2,4-6) handed_block[OF A(2)] by (auto simp: handed_null)
  qed (use A(2,3) in \<open>simp_all add: handed_def same_mode_def\<close>)
qed

theorem tc_malloc_allocates_witness:
  "\<exists>M r n M'. tc_malloc sample_menv 1 100 M = Some (Returned r, M') \<and> r \<noteq> 0 \<and> 100 \<le> n \<and> malloc_ok M' {(r, n)} \<and> 8 dvd r"
proof -
  obtain M where M: "malloc_ok M {}" "memory_left 1 M" "fresh_heap (the_heap M)" "tc_new_mode M = 0"
    by (rule sample_up[of 1]) (rule that)
  have "\<not> short_of (penv sample_menv) 100 (the_heap M)"
    using fresh_not_short[OF M(3), of 100] by (simp add: pages_def)
  moreover have "(100 :: nat) < two64" by (simp add: two64_def)
  ultimately obtain r n M' where r: "tc_malloc sample_menv 1 100 M = Some (Returned r, M')" "r \<noteq> 0" "100 \<le> n" "malloc_ok M' {(r, n)}"
    using tc_malloc_allocates[OF M(1,2,4), of 100 sample_menv] by (auto split: if_splits)
  then show ?thesis using malloc_block(3)[OF r(4), of r n] by blast
qed

text \<open>
  C3: free takes back a block that the application holds: it ends, the other blocks remain, with their
  contents, and free of null only runs the hooks.
\<close>

theorem tc_free_takes_back:
  assumes "malloc_ok M B" "(p, n) \<in> B"
  shows "(\<exists>M'. tc_free env me p M = Some M' \<and> malloc_ok M' (B - {(p, n)}) \<and> same_words (B - {(p, n)}) M M' \<and> hooks M' = DeleteHook p # hooks M)
    \<and> tc_free env me 0 M = Some (InvokeDeleteHook 0 M)"
proof
  let ?M = "InvokeDeleteHook p M"
  have ok: "malloc_ok ?M B" using assms(1) by simp
  obtain M' where D: "do_free_with_callback env me p InvalidFree ?M = Some M'" "malloc_ok M' (B - {(p, n)})"
    "same_words (B - {(p, n)}) ?M M'" "same_mode ?M M'"
    by (rule do_free_ok[OF ok assms(2), of env me InvalidFree]) (rule that)
  then show "\<exists>M'. tc_free env me p M = Some M' \<and> malloc_ok M' (B - {(p, n)}) \<and> same_words (B - {(p, n)}) M M' \<and> hooks M' = DeleteHook p # hooks M"
    by (intro exI[of _ M']) (simp add: tc_free_def do_free_def same_mode_def)
  show "tc_free env me 0 M = Some (InvokeDeleteHook 0 M)" by (simp add: tc_free_def do_free_def do_free_with_callback_def)
qed

theorem tc_free_takes_back_witness:
  "\<exists>M p M'. malloc_ok M {(p, 24576)} \<and> tc_free sample_menv 1 p M = Some M' \<and> malloc_ok M' {}"
proof -
  obtain M p where M: "malloc_ok M {(p, 24576)}" by (rule sample_block[of 1]) (rule that)
  show ?thesis using conjunct1[OF tc_free_takes_back[OF M insertI1, of sample_menv 1]] M by auto
qed

section \<open>calloc and realloc\<close>

text \<open>
  C5: for \<open>n\<close> elements of \<open>e\<close> bytes calloc returns null, without touching the heap, when the product does
  not fit in a \<open>size_t\<close>.  When it fits, calloc returns a zeroed block of that size which does not touch any
  other block, and null, with ENOMEM, only when the page heap cannot supply the pages that it asks for.
\<close>

theorem tc_calloc_zeroes:
  assumes "malloc_ok M B" "memory_left me M" "tc_new_mode M = 0" "n < two64" "e < two64"
  shows "\<exists>r M'. tc_calloc env me n e M = Some (Returned r, M') \<and> same_words B M M'
     \<and> (if two64 \<le> n * e then r = 0 \<and> thr M' = thr M
        else if r = 0 then malloc_ok M' B \<and> errno M' me = ENOMEM \<and> short_of (penv env) (n * e) (the_heap M)
        else (\<exists>k \<ge> n * e. malloc_ok M' (insert (r, k) B) \<and> disjoint_from B r k)
          \<and> (\<forall>i < n * e. byte (store (cent (thr M'))) (r + i) = 0))"
proof (cases "two64 \<le> n * e")
  case True
  have "do_calloc env me n e M = Some (Returned 0, M)"
    using calloc_overflow[OF assms(4,5)] True by (auto simp: do_calloc_def Let_def)
  then have "tc_calloc env me n e M = Some (Returned 0, InvokeNewHook 0 (n * e mod two64) M)"
    unfolding tc_calloc_def by (rule hooked_Some)
  then show ?thesis using True by (auto simp: same_words_def)
next
  case False
  then have l: "n * e < two64" by simp
  obtain r M1 where C: "do_calloc env me n e M = Some (Returned r, M1)" "handed B (n * e) M r M1"
    "r \<noteq> 0 \<Longrightarrow> \<forall>i < n * e. byte (store (cent (thr M1))) (r + i) = 0"
    "r = 0 \<Longrightarrow> errno M1 me = ENOMEM \<and> short_of (penv env) (n * e) (the_heap M)"
    by (rule do_calloc_ok[OF assms(1-3) l, of env]) (rule that)
  let ?M = "InvokeNewHook r (n * e mod two64) M1"
  have run: "tc_calloc env me n e M = Some (Returned r, ?M)" unfolding tc_calloc_def by (rule hooked_Some[OF C(1)])
  have w: "same_words B M ?M" using C(2) by (simp add: handed_def)
  have "if r = 0 then malloc_ok ?M B \<and> errno ?M me = ENOMEM \<and> short_of (penv env) (n * e) (the_heap M) else (\<exists>k \<ge> n * e. malloc_ok ?M (insert (r, k) B) \<and> disjoint_from B r k)
          \<and> (\<forall>i < n * e. byte (store (cent (thr ?M))) (r + i) = 0)"
    using C(2-4) handed_block[OF C(2)] by (auto simp: handed_null)
  then show ?thesis using run w False by (intro exI[of _ r] exI[of _ ?M]) simp
qed

theorem tc_calloc_zeroes_witness:
  "\<exists>M r k M' M''. malloc_ok M {} \<and> tc_calloc sample_menv 1 3 100 M = Some (Returned r, M') \<and> r \<noteq> 0 \<and> 300 \<le> k \<and> malloc_ok M' {(r, k)}
     \<and> (\<forall>i < 300. byte (store (cent (thr M'))) (r + i) = 0)
     \<and> tc_calloc sample_menv 1 (2 ^ 60) 16 M = Some (Returned 0, M'')"
proof -
  obtain M where M: "malloc_ok M {}" "memory_left 1 M" "fresh_heap (the_heap M)" "tc_new_mode M = 0" by (rule sample_up[of 1]) (rule that)
  have l: "(3 :: nat) < two64" "(100 :: nat) < two64" "\<not> two64 \<le> (3 :: nat) * 100" by (simp_all add: two64_def)
  have o: "(2 :: nat) ^ 60 < two64" "(16 :: nat) < two64" "two64 \<le> (2 :: nat) ^ 60 * 16" by (simp_all add: two64_def)
  have "\<not> short_of (penv sample_menv) (3 * 100) (the_heap M)" using fresh_not_short[OF M(3), of "3 * 100"] by (simp add: pages_def)
  then obtain r k M' where r: "tc_calloc sample_menv 1 3 100 M = Some (Returned r, M')" "r \<noteq> 0" "300 \<le> k" "malloc_ok M' {(r, k)}"
    "\<forall>i < 300. byte (store (cent (thr M'))) (r + i) = 0"
    using tc_calloc_zeroes[OF M(1,2,4) l(1,2), of sample_menv] l(3) by (auto split: if_splits)
  obtain M'' where "tc_calloc sample_menv 1 (2 ^ 60) 16 M = Some (Returned 0, M'')"
    using tc_calloc_zeroes[OF M(1,2,4) o(1,2), of sample_menv] unfolding if_P[OF o(3)] by blast
  then show ?thesis using r M(1) by blast
qed

text \<open>
  C4: realloc of a block to \<open>s > 0\<close> bytes either fails, and the block and its contents stay, or returns
  a block of at least \<open>s\<close> bytes that starts with the old contents; the old block is gone, and the other
  blocks and their contents are not touched.  The last hypothesis says that the memory for metadata is
  not exhausted by the attempt to allocate a quarter more than the old size.
\<close>

theorem tc_realloc_keeps_contents:
  assumes "malloc_ok M B" "(p, n) \<in> B" "memory_left me M" "tc_new_mode M = 0" "0 < s" "s < two64"
    "\<And>M0 M1. n < s \<Longrightarrow> s < realloc_growth n \<Longrightarrow> GetSizeWithCallback p InvalidGetSizeForRealloc M = Some (n, M0) \<Longrightarrow>
      do_malloc env me (realloc_growth n) M0 = Some (0, M1) \<Longrightarrow> memory_left me M1"
  shows "\<exists>r M'. tc_realloc env me p s M = Some (Returned r, M')
     \<and> (if r = 0 then malloc_ok M' B \<and> same_words B M M'
        else (\<exists>k \<ge> s. malloc_ok M' (insert (r, k) (B - {(p, n)})) \<and> same_words (B - {(p, n)}) M M'
          \<and> (\<forall>i < min n s. byte (store (cent (thr M'))) (r + i) = byte (store (cent (thr M))) (p + i))))"
proof -
  have p0: "p \<noteq> 0" by (rule malloc_block(2)[OF assms(1,2)])
  obtain r M' where D: "do_realloc env me p s M = Some (Returned r, M')"
    "r = 0 \<Longrightarrow> malloc_ok M' B \<and> same_words B M M'"
    "r \<noteq> 0 \<Longrightarrow> \<exists>k \<ge> s. malloc_ok M' (insert (r, k) (B - {(p, n)})) \<and> same_words (B - {(p, n)}) M M'
        \<and> (\<forall>i < min n s. byte (store (cent (thr M'))) (r + i) = byte (store (cent (thr M))) (p + i))"
    by (rule do_realloc_ok[OF assms(1-4,6), of env]) (use assms(7) in blast, rule that)
  have "tc_realloc env me p s M = Some (Returned r, M')" using D(1) p0 assms(5) by (simp add: tc_realloc_def)
  then show ?thesis using D(2,3) by (intro exI[of _ r] exI[of _ M'], cases "r = 0") simp_all
qed

theorem tc_realloc_keeps_contents_witness:
  "\<exists>M p r M'. malloc_ok M {(p, 24576)} \<and> tc_realloc sample_menv 1 p 50000 M = Some (Returned r, M')
     \<and> (r = 0 \<or> (\<forall>i < 24576. byte (store (cent (thr M'))) (r + i) = byte (store (cent (thr M))) (p + i)))"
proof -
  obtain M p where M: "malloc_ok M {(p, 24576)}" "memory_left 1 M" "tc_new_mode M = 0" by (rule sample_block[of 1]) (rule that)
  have "realloc_growth 24576 = 30720" by (simp add: realloc_growth_def int_to_size_def to_int32_def add64_def two64_def)
  then have big: "\<not> 50000 < realloc_growth 24576" by simp
  have l: "(0 :: nat) < 50000" "(50000 :: nat) < two64" by (simp_all add: two64_def)
  show ?thesis
    using tc_realloc_keeps_contents[OF M(1) insertI1 M(2,3) l, of sample_menv] big M(1) by (auto split: if_splits)
qed

section \<open>Aligned allocation\<close>

text \<open>
  C6: memalign with a power of two returns a block at a multiple of it, which is large enough and does
  not touch any block the application holds.  It returns null, and nothing is lost, only when the size
  and the alignment together overflow (then always, and nothing changes) or when the page heap cannot
  supply the pages for both.
\<close>

theorem tc_memalign_aligns:
  assumes "malloc_ok M B" "memory_left me M" "tc_new_mode M = 0" "sz < two64" "k < 64"
  shows "\<exists>r M'. tc_memalign env me (2 ^ k) sz M = Some (Returned r, M') \<and> same_words B M M' \<and> 2 ^ k dvd r
     \<and> (if two64 \<le> sz + 2 ^ k then r = 0 \<and> thr M' = thr M
        else if r = 0 then malloc_ok M' B \<and> short_of (penv env) (max 1 sz + 2 ^ k) (the_heap M)
        else \<exists>n \<ge> sz. malloc_ok M' (insert (r, n) B) \<and> disjoint_from B r n)"
proof -
  obtain r M1 where A: "do_memalign env me (2 ^ k) sz M = Some (r, M1)" "handed B sz M r M1" "2 ^ k dvd r"
    "r = 0 \<Longrightarrow> short_aligned (penv env) (2 ^ k) sz (the_heap M)" "two64 \<le> sz + 2 ^ k \<Longrightarrow> r = 0 \<and> M1 = M"
    by (rule do_memalign_ok[OF assms(1,2,4,5), of env]) (rule that)
  have "do_memalign_or_cpp_memalign env me (2 ^ k) sz M = Some (Returned r, M1)"
    using A(1) assms(3) by (simp add: do_memalign_or_cpp_memalign_def)
  then have "tc_memalign env me (2 ^ k) sz M = Some (Returned r, InvokeNewHook r sz M1)" unfolding tc_memalign_def by (rule hooked_Some)
  then show ?thesis
    using A(2-5) handed_block[OF A(2)] unfolding short_aligned_def
    by (intro exI[of _ r] exI[of _ "InvokeNewHook r sz M1"]) (auto simp: handed_def)
qed

theorem tc_memalign_aligns_witness:
  "\<exists>M r n M'. malloc_ok M {} \<and> tc_memalign sample_menv 1 (2 ^ 19) 100 M = Some (Returned r, M') \<and> r \<noteq> 0 \<and> 2 ^ 19 dvd r
     \<and> 100 \<le> n \<and> malloc_ok M' {(r, n)}"
proof -
  obtain M where M: "malloc_ok M {}" "memory_left 1 M" "fresh_heap (the_heap M)" "tc_new_mode M = 0" by (rule sample_up[of 1]) (rule that)
  have l: "(100 :: nat) < two64" "(19 :: nat) < 64" "\<not> two64 \<le> (100 :: nat) + 2 ^ 19" by (simp_all add: two64_def)
  have "\<not> short_of (penv sample_menv) (max 1 100 + 2 ^ 19) (the_heap M)"
    using fresh_not_short[OF M(3), of "max 1 100 + 2 ^ 19"] by (simp add: pages_def)
  then show ?thesis using tc_memalign_aligns[OF M(1,2,4) l(1,2), of sample_menv] M(1) unfolding if_not_P[OF l(3)] by (auto split: if_splits)
qed

text \<open>
  C7: posix\_memalign returns EINVAL, and does nothing, unless the alignment is a power of two that is
  a multiple of the size of a pointer.  Otherwise it returns 0 with an aligned block, or ENOMEM, with
  nothing taken, and that only when the size and the alignment together overflow (then always) or when
  the page heap cannot supply the pages for both.
\<close>

theorem tc_posix_memalign_codes:
  assumes "malloc_ok M B" "memory_left me M" "tc_new_mode M = 0" "sz < two64" "align < two64"
  shows "\<exists>c M'. tc_posix_memalign env me align sz M = Some (c, M') \<and> same_words B M M'
     \<and> (if \<exists>k \<ge> 3. align = 2 ^ k
        then (c = Code ENOMEM None \<and> malloc_ok M' B \<and> (two64 \<le> sz + align \<or> short_of (penv env) (max 1 sz + align) (the_heap M))
            \<or> sz + align < two64 \<and> (\<exists>r n. c = Code 0 (Some r) \<and> r \<noteq> 0 \<and> align dvd r \<and> sz \<le> n \<and> malloc_ok M' (insert (r, n) B) \<and> disjoint_from B r n))
        else c = Code EINVAL None \<and> M' = M)"
proof (cases "\<exists>k \<ge> 3. align = 2 ^ k")
  case False
  then have "tc_posix_memalign env me align sz M = Some (Code EINVAL None, M)"
    using posix_alignment[of align] unfolding tc_posix_memalign_def by (subst if_P) auto
  then show ?thesis using False by (intro exI[of _ "Code EINVAL None"] exI[of _ M]) (simp add: same_words_def)
next
  case True
  then obtain k where k: "align = 2 ^ k" by blast
  have "(2 :: nat) ^ k < 2 ^ 64" using assms(5) k by (simp add: two64_def)
  then have k64: "k < 64" by (rule power_less_imp_less_exp[rotated]) simp
  obtain r M1 where A: "do_memalign env me align sz M = Some (r, M1)" "handed B sz M r M1" "align dvd r"
    "r = 0 \<Longrightarrow> short_aligned (penv env) align sz (the_heap M)" "two64 \<le> sz + align \<Longrightarrow> r = 0 \<and> M1 = M"
    by (rule do_memalign_ok[OF assms(1,2,4) k64, of env, folded k]) (rule that)
  have m: "do_memalign_or_cpp_memalign env me align sz M = Some (Returned r, M1)"
    using A(1) assms(3) by (simp add: do_memalign_or_cpp_memalign_def)
  have v: "(align mod 8 \<noteq> 0 \<or> align AND (align - 1) \<noteq> 0 \<or> align = 0) = False" using True posix_alignment[of align] by blast
  have run: "tc_posix_memalign env me align sz M = Some (if r = 0 then Code ENOMEM None else Code 0 (Some r), InvokeNewHook r sz M1)"
    unfolding tc_posix_memalign_def v if_False hooked_Some[OF m] Option.bind.simps prod.case outcome.case by (rule refl)
  have w: "same_words B M (InvokeNewHook r sz M1)" using A(2) by (simp add: handed_def)
  show ?thesis
  proof (cases "r = 0")
    case True
    then show ?thesis using run w A(2) A(4)[unfolded short_aligned_def] \<open>\<exists>k \<ge> 3. align = 2 ^ k\<close>
      by (intro exI[of _ "Code ENOMEM None"] exI[of _ "InvokeNewHook r sz M1"]) (auto simp: handed_null)
  next
    case False
    then obtain n where "sz \<le> n" "malloc_ok M1 (insert (r, n) B)" "disjoint_from B r n" using handed_block[OF A(2)] by blast
    moreover have "sz + align < two64" using A(5) False by (cases "two64 \<le> sz + align") simp_all
    ultimately show ?thesis using run w A(3) False \<open>\<exists>k \<ge> 3. align = 2 ^ k\<close>
      by (intro exI[of _ "Code 0 (Some r)"] exI[of _ "InvokeNewHook r sz M1"]) auto
  qed
qed

theorem tc_posix_memalign_codes_witness:
  "\<exists>M r n M' M'' M3. malloc_ok M {} \<and> tc_posix_memalign sample_menv 1 4096 100 M = Some (Code 0 (Some r), M') \<and> 4096 dvd r
     \<and> 100 \<le> n \<and> malloc_ok M' {(r, n)} \<and> tc_posix_memalign sample_menv 1 24 100 M = Some (Code EINVAL None, M'')
     \<and> tc_posix_memalign sample_menv 1 4096 (2 ^ 64 - 1) M = Some (Code ENOMEM None, M3)"
proof -
  obtain M where M: "malloc_ok M {}" "memory_left 1 M" "fresh_heap (the_heap M)" "tc_new_mode M = 0" by (rule sample_up[of 1]) (rule that)
  have l: "(100 :: nat) < two64" "(4096 :: nat) < two64" "(24 :: nat) < two64" "(2 :: nat) ^ 64 - 1 < two64"
    "\<not> two64 \<le> (100 :: nat) + 4096" "\<not> (2 :: nat) ^ 64 - 1 + 4096 < two64" by (simp_all add: two64_def)
  have "(4096 :: nat) = 2 ^ 12" by simp
  then have y: "\<exists>k \<ge> 3. (4096 :: nat) = 2 ^ k" by (intro exI[of _ 12]) simp
  have "\<not> (24 :: nat) AND (24 - 1) = 0" by simp
  then have n: "\<not> (\<exists>k \<ge> 3. (24 :: nat) = 2 ^ k)" using posix_alignment[of 24] by blast
  have s: "\<not> short_of (penv sample_menv) (max 1 100 + 4096) (the_heap M)"
    using fresh_not_short[OF M(3), of "max 1 100 + 4096"] by (simp add: pages_def)
  have a: "\<exists>r n M'. tc_posix_memalign sample_menv 1 4096 100 M = Some (Code 0 (Some r), M') \<and> 4096 dvd r \<and> 100 \<le> n \<and> malloc_ok M' {(r, n)}"
    using tc_posix_memalign_codes[OF M(1,2,4) l(1,2), of sample_menv] s l(5) unfolding if_P[OF y] by blast
  have b: "\<exists>M'. tc_posix_memalign sample_menv 1 24 100 M = Some (Code EINVAL None, M')"
    using tc_posix_memalign_codes[OF M(1,2,4) l(1,3), of sample_menv] unfolding if_not_P[OF n] by blast
  have "\<exists>M'. tc_posix_memalign sample_menv 1 4096 (2 ^ 64 - 1) M = Some (Code ENOMEM None, M')"
    using tc_posix_memalign_codes[OF M(1,2,4) l(4,2), of sample_menv] l(6) unfolding if_P[OF y] by blast
  then show ?thesis using a b M(1) by blast
qed

section \<open>operator new\<close>

text \<open>
  C8: whatever the new-handler does, operator new never returns null, and the nothrow form never throws
  bad\_alloc.  Without a handler, operator new returns the block that malloc finds, or throws.
\<close>

theorem tc_new_never_null:
  "tc_new env me sz M \<noteq> Some (Returned 0, M') \<and> tc_new_nothrow env me sz M \<noteq> Some (Bad_alloc, M')
    \<and> (do_malloc env me sz M = Some (p, M1) \<and> (p \<noteq> 0 \<or> new_handler M1 = 0) \<longrightarrow>
      tc_new env me sz M = Some (if p = 0 then (Bad_alloc, M1) else (Returned p, InvokeNewHook p sz M1))
      \<and> tc_new_nothrow env me sz M = Some (Returned p, InvokeNewHook p sz M1))"
proof (intro conjI impI)
  have hk: "\<exists>M1. x = Some (r, M1)" if "hooked sz x = Some (r, M')" for x r
    using that by (auto simp: hooked_def bind_eq_Some_conv)
  show "tc_new env me sz M \<noteq> Some (Returned 0, M')"
    unfolding tc_new_def cpp_alloc_def using hk new_loop_not_null(1)[of env "do_malloc env me sz" False M] by blast
  show "tc_new_nothrow env me sz M \<noteq> Some (Bad_alloc, M')"
    unfolding tc_new_nothrow_def cpp_alloc_def using hk new_loop_not_null(2)[of env "do_malloc env me sz" True M] by blast
  assume a: "do_malloc env me sz M = Some (p, M1) \<and> (p \<noteq> 0 \<or> new_handler M1 = 0)"
  note first = new_loop_first[where f = "do_malloc env me sz", OF conjunct1[OF a] conjunct2[OF a], of env]
  show "tc_new env me sz M = Some (if p = 0 then (Bad_alloc, M1) else (Returned p, InvokeNewHook p sz M1))"
    "tc_new_nothrow env me sz M = Some (Returned p, InvokeNewHook p sz M1)"
    by (simp_all add: tc_new_def tc_new_nothrow_def cpp_alloc_def first hooked_def)
qed

theorem tc_new_never_null_witness:
  "\<exists>M p M1 M'. malloc_ok M {} \<and> do_malloc sample_menv 1 100 M = Some (p, M1) \<and> tc_new_nothrow sample_menv 1 100 M = Some (Returned p, M')"
proof -
  obtain M where M: "malloc_ok M {}" "memory_left 1 M" "new_handler M = 0" by (rule sample_up[of 1]) (rule that)
  have l: "(100 :: nat) < two64" by (simp add: two64_def)
  obtain p M1 where d: "do_malloc sample_menv 1 100 M = Some (p, M1)" "same_mode M M1"
    by (rule do_malloc_ok[OF M(1,2) l, of sample_menv]) (rule that)
  then have "p \<noteq> 0 \<or> new_handler M1 = 0" using M(3) by (simp add: same_mode_def)
  then show ?thesis using tc_new_never_null[of sample_menv 1 100 M M1 p M1] d(1) M(1) by blast
qed

section \<open>The size of a block\<close>

text \<open>
  C9: a block that the application holds is reported as owned, and its usable size is its whole size;
  asking does not change the blocks or their contents.
\<close>

theorem tc_malloc_size_exact:
  assumes "malloc_ok M B" "(p, n) \<in> B"
  shows "GetOwnership p M = Some Owned
    \<and> (\<exists>M'. tc_malloc_size p M = Some (n, M') \<and> malloc_ok M' B \<and> store (cent (thr M')) = store (cent (thr M)))"
proof
  show "GetOwnership p M = Some Owned" by (rule GetOwnership_block[OF assms])
  obtain M' where "GetAllocatedSize p M = Some (n, M')" "malloc_ok M' B" "store (cent (thr M')) = store (cent (thr M))"
    by (rule GetAllocatedSize_block[OF assms]) (rule that)
  then show "\<exists>M'. tc_malloc_size p M = Some (n, M') \<and> malloc_ok M' B \<and> store (cent (thr M')) = store (cent (thr M))"
    by (auto simp: tc_malloc_size_def)
qed

theorem tc_malloc_size_exact_witness:
  "\<exists>M p M'. malloc_ok M {(p, 24576)} \<and> tc_malloc_size p M = Some (24576, M') \<and> GetOwnership p M = Some Owned"
proof -
  obtain M p where M: "malloc_ok M {(p, 24576)}" by (rule sample_block[of 1]) (rule that)
  show ?thesis using tc_malloc_size_exact[OF M insertI1] M by blast
qed

section \<open>Start-up and lawful use\<close>

text \<open>
  C10: the initialisation of the static data succeeds and leaves a consistent state in which the
  application holds nothing and every thread can allocate.
\<close>

theorem InitModule_starts:
  assumes "can_start (statics env)" "\<not> module_up M"
  shows "\<exists>M'. InitModule env M = Some M' \<and> malloc_ok M' {} \<and> (\<forall>me. memory_left me M') \<and> spans (the_heap M') = Map.empty"
proof -
  obtain M' where M': "InitModule env M = Some M'" "malloc_ok M' {}" "spans (the_heap M') = Map.empty"
    by (rule InitModule_ok[OF assms, of 0]) (rule that)
  have "memory_left me M'" for me by (rule InitModule_ok[OF assms, of me]) (use M'(1) in simp)
  then show ?thesis using M' by blast
qed

theorem InitModule_starts_witness:
  "\<exists>M'. InitModule sample_menv cold = Some M' \<and> malloc_ok M' {}"
proof -
  have "\<not> module_up cold" by (simp add: cold_def)
  then show ?thesis using InitModule_starts[OF sample_can_start] by blast
qed

text \<open>The lawful uses: the calls of any thread, on blocks that it holds, and writes to such blocks.\<close>

definition usable :: "nat \<Rightarrow> malloc_state \<Rightarrow> nat" where
  "usable p M = (case GetAllocatedSize p M of Some (n, M') \<Rightarrow> n | None \<Rightarrow> 0)"

definition taken :: "nat \<Rightarrow> malloc_state \<Rightarrow> (nat \<times> nat) set \<Rightarrow> (nat \<times> nat) set" where
  "taken r M B = (if r = 0 then B else insert (r, usable r M) B)"

definition retry_left :: "menv \<Rightarrow> nat \<Rightarrow> nat \<Rightarrow> nat \<Rightarrow> nat \<Rightarrow> malloc_state \<Rightarrow> bool" where
  "retry_left env me p n s M \<longleftrightarrow> (n < s \<longrightarrow> s < realloc_growth n \<longrightarrow> (\<forall>M0 M1. GetSizeWithCallback p InvalidGetSizeForRealloc M = Some (n, M0) \<longrightarrow>
      do_malloc env me (realloc_growth n) M0 = Some (0, M1) \<longrightarrow> memory_left me M1))"

inductive malloc_run :: "menv \<Rightarrow> malloc_state \<times> (nat \<times> nat) set \<Rightarrow> malloc_state \<times> (nat \<times> nat) set \<Rightarrow> bool" for env s where
  start: "malloc_run env s s"
| malloc: "malloc_run env s (M, B) \<Longrightarrow> memory_left me M \<Longrightarrow> tc_new_mode M = 0 \<Longrightarrow> sz < two64 \<Longrightarrow>
    tc_malloc env me sz M = Some (Returned r, M') \<Longrightarrow> malloc_run env s (M', taken r M' B)"
| calloc: "malloc_run env s (M, B) \<Longrightarrow> memory_left me M \<Longrightarrow> tc_new_mode M = 0 \<Longrightarrow> n < two64 \<Longrightarrow> e < two64 \<Longrightarrow>
    tc_calloc env me n e M = Some (Returned r, M') \<Longrightarrow> malloc_run env s (M', taken r M' B)"
| memalign: "malloc_run env s (M, B) \<Longrightarrow> memory_left me M \<Longrightarrow> tc_new_mode M = 0 \<Longrightarrow> sz < two64 \<Longrightarrow> k < 64 \<Longrightarrow>
    tc_memalign env me (2 ^ k) sz M = Some (Returned r, M') \<Longrightarrow> malloc_run env s (M', taken r M' B)"
| realloc: "malloc_run env s (M, B) \<Longrightarrow> (p, n) \<in> B \<Longrightarrow> memory_left me M \<Longrightarrow> tc_new_mode M = 0 \<Longrightarrow> 0 < z \<Longrightarrow> z < two64 \<Longrightarrow>
    retry_left env me p n z M \<Longrightarrow> tc_realloc env me p z M = Some (Returned r, M') \<Longrightarrow>
    malloc_run env s (M', if r = 0 then B else taken r M' (B - {(p, n)}))"
| free: "malloc_run env s (M, B) \<Longrightarrow> (p, n) \<in> B \<Longrightarrow> tc_free env me p M = Some M' \<Longrightarrow> malloc_run env s (M', B - {(p, n)})"
| app_write: "malloc_run env s (M, B) \<Longrightarrow> (\<And>y. y \<notin> bytes_of B \<Longrightarrow> w y = store (cent (thr M)) y) \<Longrightarrow> malloc_run env s (with_store w M, B)"

lemma handed_taken:
  assumes "handed B sz M r M'"
  shows "malloc_ok M' (taken r M' B)"
proof (cases "r = 0")
  case True
  then show ?thesis using assms by (simp add: handed_def taken_def)
next
  case False
  then obtain n where n: "malloc_ok M' (insert (r, n) B)" using assms unfolding handed_def by auto
  have "(r, n) \<in> insert (r, n) B" by simp
  then obtain M2 where "GetAllocatedSize r M' = Some (n, M2)" by (rule GetAllocatedSize_block[OF n])
  then show ?thesis using n False by (simp add: taken_def usable_def)
qed

text \<open>Every step keeps the invariant.\<close>

lemma run_malloc:
  assumes "malloc_ok M B" "memory_left me M" "tc_new_mode M = 0" "sz < two64" "tc_malloc env me sz M = Some (Returned r, M')"
  shows "malloc_ok M' (taken r M' B)"
proof -
  obtain q M1 where A: "do_malloc env me sz M = Some (q, M1)" "handed B sz M q M1" by (rule do_malloc_ok[OF assms(1,2,4), of env]) (rule that)
  have "tc_malloc env me sz M = Some (Returned q, InvokeNewHook q sz M1)"
    unfolding tc_malloc_def by (rule hooked_Some[OF do_malloc_or_cpp_alloc_plain[OF assms(3) A(1)]])
  then show ?thesis using assms(5) A(2) handed_taken[of B sz M r M'] by simp
qed

lemma run_calloc:
  assumes "malloc_ok M B" "memory_left me M" "tc_new_mode M = 0" "n < two64" "e < two64" "tc_calloc env me n e M = Some (Returned r, M')"
  shows "malloc_ok M' (taken r M' B)"
proof (cases "two64 \<le> n * e")
  case True
  have "do_calloc env me n e M = Some (Returned 0, M)" using calloc_overflow[OF assms(4,5)] True by (auto simp: do_calloc_def Let_def)
  then have "tc_calloc env me n e M = Some (Returned 0, InvokeNewHook 0 (n * e mod two64) M)" unfolding tc_calloc_def by (rule hooked_Some)
  then show ?thesis using assms(1,6) by (auto simp: taken_def)
next
  case False
  then have l: "n * e < two64" by simp
  obtain q M1 where A: "do_calloc env me n e M = Some (Returned q, M1)" "handed B (n * e) M q M1"
    by (rule do_calloc_ok[OF assms(1-3) l, of env]) (rule that)
  have "tc_calloc env me n e M = Some (Returned q, InvokeNewHook q (n * e mod two64) M1)" unfolding tc_calloc_def by (rule hooked_Some[OF A(1)])
  then show ?thesis using assms(6) A(2) handed_taken[of B "n * e" M r M'] by simp
qed

lemma run_memalign:
  assumes "malloc_ok M B" "memory_left me M" "tc_new_mode M = 0" "sz < two64" "k < 64" "tc_memalign env me (2 ^ k) sz M = Some (Returned r, M')"
  shows "malloc_ok M' (taken r M' B)"
proof -
  obtain q M1 where A: "do_memalign env me (2 ^ k) sz M = Some (q, M1)" "handed B sz M q M1"
    by (rule do_memalign_ok[OF assms(1,2,4,5), of env]) (rule that)
  have "do_memalign_or_cpp_memalign env me (2 ^ k) sz M = Some (Returned q, M1)" using A(1) assms(3) by (simp add: do_memalign_or_cpp_memalign_def)
  then have "tc_memalign env me (2 ^ k) sz M = Some (Returned q, InvokeNewHook q sz M1)" unfolding tc_memalign_def by (rule hooked_Some)
  then show ?thesis using assms(6) A(2) handed_taken[of B sz M r M'] by simp
qed

lemma run_realloc:
  assumes "malloc_ok M B" "(p, n) \<in> B" "memory_left me M" "tc_new_mode M = 0" "0 < z" "z < two64" "retry_left env me p n z M"
    "tc_realloc env me p z M = Some (Returned r, M')"
  shows "malloc_ok M' (if r = 0 then B else taken r M' (B - {(p, n)}))"
proof -
  have p0: "p \<noteq> 0" by (rule malloc_block(2)[OF assms(1,2)])
  obtain q M1 where D: "do_realloc env me p z M = Some (Returned q, M1)" "q = 0 \<Longrightarrow> malloc_ok M1 B"
    "q \<noteq> 0 \<Longrightarrow> \<exists>k \<ge> z. malloc_ok M1 (insert (q, k) (B - {(p, n)}))"
    by (rule do_realloc_ok[OF assms(1-4,6), of env]) (use assms(7) in \<open>unfold retry_left_def, blast\<close>, rule that, blast+)
  have q: "q = r" "M1 = M'" using D(1) assms(5,8) p0 by (simp_all add: tc_realloc_def)
  show ?thesis
  proof (cases "r = 0")
    case True
    then show ?thesis using D(2) q by simp
  next
    case False
    then obtain k where k: "malloc_ok M' (insert (r, k) (B - {(p, n)}))" using D(3) q by blast
    have "(r, k) \<in> insert (r, k) (B - {(p, n)})" by simp
    then obtain M2 where "GetAllocatedSize r M' = Some (k, M2)" by (rule GetAllocatedSize_block[OF k])
    then show ?thesis using k False by (simp add: taken_def usable_def)
  qed
qed

lemma run_free:
  assumes "malloc_ok M B" "(p, n) \<in> B"
  shows "\<exists>M'. tc_free env me p M = Some M' \<and> malloc_ok M' (B - {(p, n)})"
proof -
  have ok: "malloc_ok (InvokeDeleteHook p M) B" using assms(1) by simp
  show ?thesis by (rule do_free_ok[OF ok assms(2), of env me InvalidFree]) (auto simp: tc_free_def do_free_def)
qed

text \<open>
  C1: every lawful run keeps the state consistent, whatever the threads and the order of the calls: the
  blocks that the application holds are aligned to 8 bytes, never overlap, are recognised as owned, and
  can all be freed.
\<close>

theorem lawful_malloc:
  assumes "malloc_run env (M0, B0) (M, B)" "malloc_ok M0 B0"
  shows "malloc_ok M B \<and> (\<forall>(p, n) \<in> B. p \<noteq> 0 \<and> 8 dvd p \<and> 0 < n \<and> disjoint_from (B - {(p, n)}) p n
       \<and> GetOwnership p M = Some Owned \<and> (\<exists>M'. tc_free env me p M = Some M'))"
proof -
  have ok: "malloc_ok (fst x) (snd x)" if "malloc_run env (M0, B0) x" for x
    using that
  proof induction
    case start
    then show ?case using assms(2) by simp
  next
    case malloc
    then show ?case by (auto intro: run_malloc)
  next
    case calloc
    then show ?case by (auto intro: run_calloc)
  next
    case memalign
    then show ?case by (auto intro: run_memalign)
  next
    case (realloc M B p n me z r M')
    have "malloc_ok M B" using realloc.IH by simp
    from run_realloc[OF this realloc.hyps(2-8)] show ?case by simp
  next
    case (free M B p n me M')
    have "malloc_ok M B" using free.IH by simp
    from run_free[OF this free.hyps(2), of env me] free.hyps(3) show ?case by simp
  next
    case (app_write M B w)
    then show ?case using malloc_write[of M B w] by simp
  qed
  have M: "malloc_ok M B" using ok[OF assms(1)] by simp
  have "p \<noteq> 0 \<and> 8 dvd p \<and> 0 < n \<and> disjoint_from (B - {(p, n)}) p n \<and> GetOwnership p M = Some Owned \<and> (\<exists>M'. tc_free env me p M = Some M')"
    if pn: "(p, n) \<in> B" for p n
  proof -
    have "{p..<p + n} \<inter> {q..<q + k} = {}" if "(q, k) \<in> B - {(p, n)}" for q k
      by (rule malloc_apart[OF M pn]) (use that in auto)
    then have b: "disjoint_from (B - {(p, n)}) p n" unfolding disjoint_from_def by blast
    show ?thesis using malloc_block[OF M pn] b GetOwnership_block[OF M pn] run_free[OF M pn, of env me] by blast
  qed
  then show ?thesis using M by blast
qed

theorem lawful_malloc_witness:
  "\<exists>M p M'. malloc_run sample_menv (M, {(p, 24576)}) (M', {}) \<and> malloc_ok M' {} \<and> 8 dvd p"
proof -
  obtain M p where M: "malloc_ok M {(p, 24576)}" by (rule sample_block[of 1]) (rule that)
  note s = malloc_run.start[of sample_menv "(M, {(p, 24576)})"]
  obtain M' where "tc_free sample_menv 1 p M = Some M'" using run_free[OF M insertI1, of sample_menv 1] by blast
  from malloc_run.free[OF s insertI1 this] have r: "malloc_run sample_menv (M, {(p, 24576)}) (M', {})" by simp
  have "malloc_ok M' {}" by (rule conjunct1[OF lawful_malloc[OF r M, of 1]])
  moreover have "8 dvd p" using bspec[OF conjunct2[OF lawful_malloc[OF s M, of 1]] insertI1] by simp
  ultimately show ?thesis using r by blast
qed

end
