(* ===== verification/StackTraceTable.thy ===== *)
theory StackTraceTable
  imports PageHeap
begin

text \<open>
  The table of stack traces (\<open>stack_trace_table.h\<close>, \<open>stack_trace_table.cc\<close>): a hash table that counts
  traces with the same stack and adds up their sizes.  Buckets come from a metadata pool and are kept in
  an explicit store; a trace has its \<open>st_depth\<close> return addresses at the front of \<open>st_stack\<close>.
\<close>

unbundle bit_operations_syntax

section \<open>Model\<close>

definition kHashTableSize :: nat where [simp]: "kHashTableSize = 16384"
definition sizeof_Bucket :: nat where [simp]: "sizeof_Bucket = 288"

record bucket =
  bk_hash :: "64 word"
  bk_trace :: stack_trace
  bk_count :: nat
  bk_next :: nat

record trace_table =
  tt_error :: bool
  depth_total :: nat
  bucket_total :: nat
  tt_table :: "nat \<Rightarrow> nat"
  buckets :: "nat \<Rightarrow> bucket option"
  bucket_pool :: allocator

text \<open>The key of a trace.\<close>

definition pcs_of :: "stack_trace \<Rightarrow> nat list" where
  "pcs_of t = take (st_depth t) (st_stack t)"

definition KeyEqual :: "64 word \<Rightarrow> stack_trace \<Rightarrow> bucket \<Rightarrow> bool" where
  "KeyEqual h t b \<longleftrightarrow> bk_hash b = h \<and> st_depth (bk_trace b) = st_depth t \<and> take (st_depth t) (st_stack (bk_trace b)) = pcs_of t"

definition hash_step :: "64 word \<Rightarrow> nat \<Rightarrow> 64 word" where
  "hash_step h pc = (let h = h + of_nat pc; h = h + push_bit 10 h in h XOR drop_bit 6 h)"

definition trace_hash :: "stack_trace \<Rightarrow> 64 word" where
  "trace_hash t = (let h = foldl hash_step 0 (pcs_of t); h = h + push_bit 3 h in h XOR drop_bit 11 h)"

definition StackTraceTable :: "allocator \<Rightarrow> trace_table" where
  "StackTraceTable a = \<lparr>tt_error = False, depth_total = 0, bucket_total = 0, tt_table = (\<lambda>_. 0), buckets = Map.empty, bucket_pool = a\<rparr>"

partial_function (option) find_bucket :: "64 word \<Rightarrow> stack_trace \<Rightarrow> (nat \<Rightarrow> bucket option) \<Rightarrow> nat \<Rightarrow> nat option" where
  "find_bucket h t B b =
     (if b = 0 then Some 0
      else Option.bind (B b) (\<lambda>k. if KeyEqual h t k then Some b else find_bucket h t B (bk_next k)))"

declare find_bucket.simps [code]

text \<open>The pool ends the process where the code expects null, so that \<open>error_\<close> is never set.\<close>

definition AddTrace :: "stack_trace \<Rightarrow> trace_table \<Rightarrow> trace_table option" where
  "AddTrace t T =
     (if tt_error T then Some T
      else do {
        let h = trace_hash t;
        let idx = unat h mod kHashTableSize;
        b \<leftarrow> find_bucket h t (buckets T) (tt_table T idx);
        if b \<noteq> 0
        then do {
          k \<leftarrow> buckets T b;
          Some (T\<lparr>buckets := (buckets T)(b \<mapsto> k\<lparr>bk_count := bk_count k + 1,
            bk_trace := (bk_trace k)\<lparr>st_size := add64 (st_size (bk_trace k)) (st_size t)\<rparr>\<rparr>)\<rparr>) }
        else do {
          let T = T\<lparr>depth_total := depth_total T + st_depth t, bucket_total := bucket_total T + 1\<rparr>;
          (b, a) \<leftarrow> pha_New sizeof_Bucket (bucket_pool T);
          Some (T\<lparr>bucket_pool := a,
            buckets := (buckets T)(b \<mapsto> \<lparr>bk_hash = h, bk_trace = t, bk_count = 1, bk_next = tt_table T idx\<rparr>),
            tt_table := (tt_table T)(idx := b)\<rparr>) } })"

partial_function (option) read_chain :: "(nat \<Rightarrow> bucket option) \<Rightarrow> nat \<Rightarrow> nat list \<Rightarrow> nat list option" where
  "read_chain B b out =
     (if b = 0 then Some out
      else Option.bind (B b) (\<lambda>k. read_chain B (bk_next k)
        (out @ [bk_count k, st_size (bk_trace k), st_depth (bk_trace k)] @ pcs_of (bk_trace k))))"

declare read_chain.simps [code]

partial_function (option) clear_chain :: "nat \<Rightarrow> (nat \<Rightarrow> bucket option) \<times> allocator \<Rightarrow> ((nat \<Rightarrow> bucket option) \<times> allocator) option" where
  "clear_chain b s =
     (if b = 0 then Some s
      else Option.bind (fst s b) (\<lambda>k. clear_chain (bk_next k) ((fst s)(b := None), pha_Delete b (snd s))))"

declare clear_chain.simps [code]

text \<open>The array is the result; \<open>out_len\<close> is an \<open>int\<close>, and its overflow a failure.\<close>

definition ReadStackTracesAndClear :: "trace_table \<Rightarrow> (nat list option \<times> trace_table) option" where
  "ReadStackTracesAndClear T =
     (if tt_error T then Some (None, T)
      else do {
        let out_len = bucket_total T * 3 + depth_total T + 1;
        check (out_len < 2 ^ 31);
        out \<leftarrow> ofold (\<lambda>i out. read_chain (buckets T) (tt_table T i) out) [0..<kHashTableSize] [];
        let out = out @ [0];
        check (length out = out_len);
        (B, a) \<leftarrow> ofold (\<lambda>i s. clear_chain (tt_table T i) s) [0..<kHashTableSize] (buckets T, bucket_pool T);
        Some (Some out, T\<lparr>tt_error := False, depth_total := 0, bucket_total := 0, buckets := B, bucket_pool := a,
          tt_table := (\<lambda>i. if i < kHashTableSize then 0 else tt_table T i)\<rparr>) })"

end
