(* ===== verification/StackTraceThms.thy ===== *)
theory StackTraceThms
  imports StackTraceTable PageHeapThms
begin

text \<open>
  The table of stack traces: its invariant, and what it returns after any sequence of traces.
\<close>

section \<open>Chains of buckets\<close>

fun chained :: "(nat \<Rightarrow> bucket option) \<Rightarrow> nat \<Rightarrow> nat list \<Rightarrow> bool" where
  "chained B p [] \<longleftrightarrow> p = 0"
| "chained B p (x # xs) \<longleftrightarrow> p = x \<and> x \<noteq> 0 \<and> (\<exists>k. B x = Some k \<and> chained B (bk_next k) xs)"

lemma chained_cong:
  assumes "chained B p xs" "\<And>x. x \<in> set xs \<Longrightarrow> map_option bk_next (B' x) = map_option bk_next (B x)"
  shows "chained B' p xs"
  using assms
proof (induction xs arbitrary: p)
  case (Cons x xs)
  then obtain k where k: "B x = Some k" "chained B (bk_next k) xs" "p = x" "x \<noteq> 0" by auto
  moreover obtain k' where "B' x = Some k'" "bk_next k' = bk_next k" using Cons.prems(2)[of x] k(1) by auto
  ultimately show ?case using Cons.IH[of "bk_next k"] Cons.prems(2) by auto
qed simp

lemma chained_live: "chained B p xs \<Longrightarrow> x \<in> set xs \<Longrightarrow> x \<noteq> 0 \<and> B x \<noteq> None"
  by (induction xs arbitrary: p) auto

text \<open>What a bucket stands for: its stack, how often it was seen, the bytes, in the form that is returned.\<close>

definition entry :: "(nat \<Rightarrow> bucket option) \<Rightarrow> nat \<Rightarrow> nat list" where
  "entry B x = (case B x of None \<Rightarrow> []
     | Some k \<Rightarrow> [bk_count k, st_size (bk_trace k), st_depth (bk_trace k)] @ pcs_of (bk_trace k))"

definition stack_at :: "(nat \<Rightarrow> bucket option) \<Rightarrow> nat \<Rightarrow> nat list" where
  "stack_at B x = pcs_of (bk_trace (the (B x)))"

lemma find_bucket_chained:
  assumes "chained B p xs"
  shows "find_bucket h t B p = Some (case find (\<lambda>x. KeyEqual h t (the (B x))) xs of None \<Rightarrow> 0 | Some x \<Rightarrow> x)"
  using assms
proof (induction xs arbitrary: p)
  case Nil
  then show ?case by (subst find_bucket.simps) simp
next
  case (Cons x xs)
  then show ?case by (subst find_bucket.simps) auto
qed

lemma read_chain_chained:
  "chained B p xs \<Longrightarrow> read_chain B p out = Some (out @ concat (map (entry B) xs))"
proof (induction xs arbitrary: p out)
  case Nil
  then show ?case by (subst read_chain.simps) simp
next
  case (Cons x xs)
  then obtain k where k: "B x = Some k" "chained B (bk_next k) xs" "p = x" "x \<noteq> 0" by auto
  have "read_chain B p out = read_chain B (bk_next k) (out @ entry B x)"
    using k by (subst read_chain.simps) (simp add: entry_def)
  then show ?case using Cons.IH[OF k(2)] by simp
qed

lemma clear_chain_chained:
  assumes "chained B p xs" "distinct xs" "pool sizeof_Bucket Lv a" "set xs \<subseteq> Lv"
  shows "\<exists>a'. clear_chain p (B, a) = Some ((\<lambda>x. if x \<in> set xs then None else B x), a') \<and> pool sizeof_Bucket (Lv - set xs) a'"
  using assms
proof (induction xs arbitrary: p B a Lv)
  case Nil
  then show ?case by (subst clear_chain.simps) simp
next
  case (Cons x xs)
  then obtain k where k: "B x = Some k" "chained B (bk_next k) xs" "p = x" "x \<noteq> 0" by auto
  have d: "x \<notin> set xs" using Cons.prems(2) by simp
  have "chained (B(x := None)) (bk_next k) xs" by (rule chained_cong[OF k(2)]) (use d in auto)
  moreover have "pool sizeof_Bucket (Lv - {x}) (pha_Delete x a)" using pha_Delete_pool[OF Cons.prems(3)] Cons.prems(4) by simp
  moreover have "distinct xs" "set xs \<subseteq> Lv - {x}" using Cons.prems(2,4) d by auto
  ultimately obtain a' where a: "clear_chain (bk_next k) (B(x := None), pha_Delete x a) = Some ((\<lambda>y. if y \<in> set xs then None else (B(x := None)) y), a')"
    "pool sizeof_Bucket (Lv - {x} - set xs) a'" using Cons.IH by blast
  have "clear_chain p (B, a) = clear_chain (bk_next k) (B(x := None), pha_Delete x a)"
    using k by (subst clear_chain.simps) simp
  moreover have "(\<lambda>y. if y \<in> set xs then None else (B(x := None)) y) = (\<lambda>y. if y \<in> set (x # xs) then None else B y)" by auto
  moreover have "Lv - {x} - set xs = Lv - set (x # xs)" by auto
  ultimately show ?case using a by metis
qed

section \<open>All chains together\<close>

definition all_in :: "(nat \<Rightarrow> nat list) \<Rightarrow> nat list" where
  "all_in P = concat (map P [0..<kHashTableSize])"

lemma all_in_split:
  assumes "i < kHashTableSize"
  obtains us vs where "\<And>ys. all_in (P(i := ys)) = us @ ys @ vs" "all_in P = us @ P i @ vs"
proof -
  have e: "[0..<kHashTableSize] = [0..<i] @ i # [Suc i..<kHashTableSize]"
    using assms by (metis upt_eq_Cons_conv upt_add_eq_append le_add_diff_inverse less_imp_le_nat zero_le upt_conv_Cons)
  let ?us = "concat (map P [0..<i])" and ?vs = "concat (map P [Suc i..<kHashTableSize])"
  have "map (P(i := ys)) [0..<i] = map P [0..<i]" "map (P(i := ys)) [Suc i..<kHashTableSize] = map P [Suc i..<kHashTableSize]" for ys by auto
  then have "all_in (P(i := ys)) = ?us @ ys @ ?vs" for ys unfolding all_in_def e by simp
  moreover have "all_in P = ?us @ P i @ ?vs" unfolding all_in_def e by simp
  ultimately show thesis by (rule that)
qed

lemma in_all: "x \<in> set (all_in P) \<longleftrightarrow> (\<exists>i < kHashTableSize. x \<in> set (P i))"
  by (auto simp: all_in_def)

text \<open>
  The invariant: \<open>P\<close> are the chains; \<open>ts\<close> are the traces added since the table was empty.
\<close>

definition seen :: "stack_trace list \<Rightarrow> nat list \<Rightarrow> nat" where
  "seen ts pcs = length (filter (\<lambda>t. pcs_of t = pcs) ts)"

definition bytes_seen :: "stack_trace list \<Rightarrow> nat list \<Rightarrow> nat" where
  "bytes_seen ts pcs = (\<Sum>t \<leftarrow> filter (\<lambda>t. pcs_of t = pcs) ts. st_size t) mod two64"

definition bucket_ok :: "stack_trace list \<Rightarrow> nat \<Rightarrow> bucket \<Rightarrow> bool" where
  "bucket_ok ts i k \<longleftrightarrow> bk_hash k = trace_hash (bk_trace k) \<and> i = unat (bk_hash k) mod kHashTableSize
     \<and> st_depth (bk_trace k) = length (pcs_of (bk_trace k))
     \<and> bk_count k = seen ts (pcs_of (bk_trace k)) \<and> st_size (bk_trace k) = bytes_seen ts (pcs_of (bk_trace k))"

definition table_ok :: "trace_table \<Rightarrow> (nat \<Rightarrow> nat list) \<Rightarrow> stack_trace list \<Rightarrow> bool" where
  "table_ok T P ts \<longleftrightarrow> \<not> tt_error T \<and> (\<forall>i < kHashTableSize. chained (buckets T) (tt_table T i) (P i))
     \<and> distinct (all_in P) \<and> pool sizeof_Bucket (set (all_in P)) (bucket_pool T) \<and> dom (buckets T) = set (all_in P)
     \<and> (\<forall>i < kHashTableSize. \<forall>x \<in> set (P i). bucket_ok ts i (the (buckets T x)))
     \<and> distinct (map (stack_at (buckets T)) (all_in P)) \<and> stack_at (buckets T) ` set (all_in P) = pcs_of ` set ts
     \<and> bucket_total T = length (all_in P) \<and> depth_total T = (\<Sum>x \<leftarrow> all_in P. length (stack_at (buckets T) x))"

definition whole :: "stack_trace \<Rightarrow> bool" where
  "whole t \<longleftrightarrow> st_depth t \<le> length (st_stack t) \<and> st_size t < two64"

lemma whole_depth: "whole t \<Longrightarrow> length (pcs_of t) = st_depth t"
  by (simp add: whole_def pcs_of_def)

lemma trace_hash_cong: "pcs_of t = pcs_of u \<Longrightarrow> trace_hash t = trace_hash u"
  by (simp add: trace_hash_def)

lemma KeyEqual_iff:
  assumes "bucket_ok ts i k" "whole t"
  shows "KeyEqual (trace_hash t) t k \<longleftrightarrow> pcs_of (bk_trace k) = pcs_of t"
proof
  assume "KeyEqual (trace_hash t) t k"
  then show "pcs_of (bk_trace k) = pcs_of t" by (simp add: KeyEqual_def pcs_of_def)
next
  assume e: "pcs_of (bk_trace k) = pcs_of t"
  then have "st_depth (bk_trace k) = st_depth t" using assms by (simp add: bucket_ok_def whole_depth)
  then show "KeyEqual (trace_hash t) t k"
    using e assms(1) trace_hash_cong[OF e] by (simp add: KeyEqual_def bucket_ok_def pcs_of_def)
qed

lemma seen_snoc: "seen (ts @ [t]) pcs = (if pcs_of t = pcs then seen ts pcs + 1 else seen ts pcs)"
  by (simp add: seen_def)

lemma bytes_seen_snoc: "bytes_seen (ts @ [t]) pcs = (if pcs_of t = pcs then add64 (bytes_seen ts pcs) (st_size t) else bytes_seen ts pcs)"
  by (simp add: bytes_seen_def add64_def mod_simps)

lemma seen_none: "pcs \<notin> pcs_of ` set ts \<Longrightarrow> seen ts pcs = 0 \<and> bytes_seen ts pcs = 0"
  by (induction ts) (auto simp: seen_def bytes_seen_def)

lemma all_in_none: "all_in (\<lambda>_. []) = []"
  unfolding all_in_def by (simp only: concat_eq_Nil_conv list.set_map) simp

lemma table_okD:
  assumes "table_ok T P ts"
  shows "\<not> tt_error T" "i < kHashTableSize \<Longrightarrow> chained (buckets T) (tt_table T i) (P i)" "distinct (all_in P)"
    "pool sizeof_Bucket (set (all_in P)) (bucket_pool T)" "dom (buckets T) = set (all_in P)"
    "i < kHashTableSize \<Longrightarrow> x \<in> set (P i) \<Longrightarrow> bucket_ok ts i (the (buckets T x))"
    "distinct (map (stack_at (buckets T)) (all_in P))" "stack_at (buckets T) ` set (all_in P) = pcs_of ` set ts"
    "bucket_total T = length (all_in P)" "depth_total T = (\<Sum>x \<leftarrow> all_in P. length (stack_at (buckets T) x))"
  using assms unfolding table_ok_def by blast+

lemma AddTrace_known:
  assumes I: "table_ok T P ts" and "whole t" and i: "i = unat (trace_hash t) mod kHashTableSize"
    and x: "x \<in> set (P i)" "KeyEqual (trace_hash t) t (the (buckets T x))" and k: "buckets T x = Some k"
  shows "table_ok (T\<lparr>buckets := (buckets T)(x \<mapsto> k\<lparr>bk_count := bk_count k + 1,
    bk_trace := (bk_trace k)\<lparr>st_size := add64 (st_size (bk_trace k)) (st_size t)\<rparr>\<rparr>)\<rparr>) P (ts @ [t])" (is "table_ok (T\<lparr>buckets := ?B\<rparr>) P _")
proof -
  note D = table_okD[OF I]
  have il: "i < kHashTableSize" using i by simp
  have xa: "x \<in> set (all_in P)" using x(1) il in_all by blast
  have sx: "stack_at (buckets T) x = pcs_of t" using KeyEqual_iff[OF D(6)[OF il x(1)] assms(2)] x(2) by (simp add: stack_at_def)
  have st: "stack_at ?B = stack_at (buckets T)" using k by (auto simp: stack_at_def fun_eq_iff pcs_of_def)
  have other: "stack_at (buckets T) y \<noteq> pcs_of t" if "y \<in> set (all_in P)" "y \<noteq> x" for y
    using D(7) that xa sx by (auto simp: distinct_map inj_on_def)
  have ok: "bucket_ok (ts @ [t]) j (the (?B y))" if j: "j < kHashTableSize" "y \<in> set (P j)" for j y
  proof (cases "y = x")
    case True
    have b: "bucket_ok ts j k" using D(6)[OF j] True k by simp
    have e: "pcs_of (bk_trace k) = pcs_of t" using sx k by (simp add: stack_at_def)
    define u where "u = (bk_trace k)\<lparr>st_size := add64 (st_size (bk_trace k)) (st_size t)\<rparr>"
    have u: "pcs_of u = pcs_of t" "trace_hash u = trace_hash (bk_trace k)" "st_depth u = st_depth (bk_trace k)"
      "st_size u = add64 (st_size (bk_trace k)) (st_size t)"
      using e by (simp_all add: u_def pcs_of_def trace_hash_def)
    have "bucket_ok (ts @ [t]) j (k\<lparr>bk_count := bk_count k + 1, bk_trace := u\<rparr>)"
      using b e by (simp add: bucket_ok_def u seen_snoc bytes_seen_snoc)
    then show ?thesis using True by (simp add: u_def)
  next
    case False
    have "y \<in> set (all_in P)" using j in_all by blast
    then have "pcs_of (bk_trace (the (buckets T y))) \<noteq> pcs_of t" using other[of y] False by (simp add: stack_at_def)
    then show ?thesis using D(6)[OF j] False by (simp add: bucket_ok_def seen_snoc bytes_seen_snoc)
  qed
  have ch: "chained ?B (tt_table T j) (P j)" if "j < kHashTableSize" for j
    by (rule chained_cong[OF D(2)[OF that]]) (use k in auto)
  have "pcs_of t \<in> stack_at (buckets T) ` set (all_in P)" using xa sx by (metis imageI)
  then have "stack_at (buckets T) ` set (all_in P) = pcs_of ` set (ts @ [t])" using D(8) by auto
  moreover have "dom ?B = set (all_in P)" using D(5) xa by auto
  moreover define B where "B = ?B"
  ultimately show ?thesis
    unfolding B_def[symmetric] using D(1,3,4,7,9,10) ch[folded B_def] ok[folded B_def] st[folded B_def] by (simp add: table_ok_def)
qed

lemma AddTrace_fresh:
  assumes I: "table_ok T P ts" and "whole t" and i: "i = unat (trace_hash t) mod kHashTableSize"
    and none: "\<And>x. x \<in> set (P i) \<Longrightarrow> \<not> KeyEqual (trace_hash t) t (the (buckets T x))"
    and b: "b \<notin> set (all_in P)" "0 < b" "pool sizeof_Bucket (insert b (set (all_in P))) a"
  shows "table_ok (T\<lparr>depth_total := depth_total T + st_depth t, bucket_total := bucket_total T + 1, bucket_pool := a,
      buckets := (buckets T)(b \<mapsto> \<lparr>bk_hash = trace_hash t, bk_trace = t, bk_count = 1, bk_next = tt_table T i\<rparr>),
      tt_table := (tt_table T)(i := b)\<rparr>) (P(i := b # P i)) (ts @ [t])"
    (is "table_ok ?T ?P _")
proof -
  note D = table_okD[OF I]
  define B where "B = (buckets T)(b \<mapsto> \<lparr>bk_hash = trace_hash t, bk_trace = t, bk_count = 1, bk_next = tt_table T i\<rparr>)"
  have il: "i < kHashTableSize" using i by simp
  obtain us vs where al: "\<And>ys. all_in (P(i := ys)) = us @ ys @ vs" "all_in P = us @ P i @ vs" by (rule all_in_split[OF il]) (rule that)
  have al': "all_in ?P = us @ b # P i @ vs" using al(1)[of "b # P i"] by simp
  have st: "stack_at B y = stack_at (buckets T) y" if "y \<in> set (all_in P)" for y using that b(1) by (auto simp: stack_at_def B_def)
  have sb: "stack_at B b = pcs_of t" by (simp add: stack_at_def B_def)
  have new: "pcs_of t \<notin> stack_at (buckets T) ` set (all_in P)"
  proof
    assume "pcs_of t \<in> stack_at (buckets T) ` set (all_in P)"
    then obtain y where "y \<in> set (all_in P)" and e: "stack_at (buckets T) y = pcs_of t" by auto
    then obtain j where y: "j < kHashTableSize" "y \<in> set (P j)" unfolding in_all by blast
    note o = D(6)[OF y(1,2)]
    have e: "pcs_of (bk_trace (the (buckets T y))) = pcs_of t" using e by (simp add: stack_at_def)
    have "j = i" using o i trace_hash_cong[OF e] by (simp add: bucket_ok_def)
    then show False using none[of y] y(2) KeyEqual_iff[OF o assms(2)] e by simp
  qed
  have ns: "pcs_of t \<notin> pcs_of ` set ts" using new D(8) by simp
  have ch: "chained B (((tt_table T)(i := b)) j) (?P j)" if j: "j < kHashTableSize" for j
  proof -
    have c: "chained B (tt_table T j) (P j)"
      by (rule chained_cong[OF D(2)[OF j]]) (use b(1) in_all j in \<open>auto simp: B_def\<close>)
    then show ?thesis using b(2) by (cases "j = i") (auto simp: B_def)
  qed
  have ok: "bucket_ok (ts @ [t]) j (the (B y))" if j: "j < kHashTableSize" "y \<in> set (?P j)" for j y
  proof (cases "y = b")
    case True
    have "j = i" using j(2) True b(1) in_all[of b P] j(1) by (auto split: if_splits)
    moreover have "bytes_seen (ts @ [t]) (pcs_of t) = st_size t" using seen_none[OF ns] assms(2) by (simp add: bytes_seen_snoc add64_exact whole_def)
    ultimately show ?thesis using True i assms(2) seen_none[OF ns] by (simp add: bucket_ok_def seen_snoc whole_depth B_def)
  next
    case False
    then have y: "y \<in> set (P j)" using j(2) by (auto split: if_splits)
    then have "y \<in> set (all_in P)" using j(1) in_all by blast
    then have "pcs_of (bk_trace (the (buckets T y))) \<noteq> pcs_of t" using new by (metis imageI stack_at_def)
    then show ?thesis using D(6)[OF j(1) y] False by (simp add: bucket_ok_def seen_snoc bytes_seen_snoc B_def)
  qed
  have sal: "set (all_in ?P) = insert b (set (all_in P))" unfolding al' al(2) by auto
  have dist: "distinct (all_in ?P)" using D(3) b(1) unfolding al' al(2) by auto
  have m: "map (stack_at B) us = map (stack_at (buckets T)) us" "map (stack_at B) (P i) = map (stack_at (buckets T)) (P i)"
    "map (stack_at B) vs = map (stack_at (buckets T)) vs" using st unfolding al(2) by auto
  let ?us = "map (stack_at (buckets T)) us" and ?ps = "map (stack_at (buckets T)) (P i)" and ?vs = "map (stack_at (buckets T)) vs"
  have mB: "map (stack_at B) (all_in ?P) = ?us @ pcs_of t # ?ps @ ?vs" unfolding al' map_append list.map m sb by (rule refl)
  have mT: "map (stack_at (buckets T)) (all_in P) = ?us @ ?ps @ ?vs" unfolding al(2) by simp
  have "pcs_of t \<notin> set (?us @ ?ps @ ?vs)" using new unfolding mT[symmetric] by simp
  then have dm: "distinct (map (stack_at B) (all_in ?P))" using D(7) unfolding mB mT by auto
  have "stack_at B ` set (all_in ?P) = insert (pcs_of t) (stack_at B ` set (all_in P))" unfolding sal by (simp add: sb)
  also have "stack_at B ` set (all_in P) = stack_at (buckets T) ` set (all_in P)" using st by (intro image_cong) auto
  also have "insert (pcs_of t) (stack_at (buckets T) ` set (all_in P)) = pcs_of ` set (ts @ [t])" unfolding D(8) by simp
  finally have im: "stack_at B ` set (all_in ?P) = pcs_of ` set (ts @ [t])" .
  have ml: "(\<Sum>x \<leftarrow> xs. length (f x)) = sum_list (map length (map f xs))" for f :: "nat \<Rightarrow> nat list" and xs by (simp add: o_def)
  have sum: "(\<Sum>x \<leftarrow> all_in ?P. length (stack_at B x)) = depth_total T + st_depth t"
    unfolding D(10) ml mB mT using whole_depth[OF assms(2)] by simp
  have dm2: "dom B = set (all_in ?P)" using D(5) sal by (auto simp: B_def)
  show ?thesis
    unfolding B_def[symmetric] using D(1) ch ok dist dm im sum dm2 b(3) D(9) sal al' al(2) by (simp add: table_ok_def)
qed

lemma AddTrace_ok:
  assumes I: "table_ok T P ts" and "whole t" "0 < spare sizeof_Bucket (bucket_pool T)"
  obtains T' P' where "AddTrace t T = Some T'" "table_ok T' P' (ts @ [t])"
    "spare sizeof_Bucket (bucket_pool T) \<le> spare sizeof_Bucket (bucket_pool T') + 1"
proof -
  note D = table_okD[OF I]
  define i where "i = unat (trace_hash t) mod kHashTableSize"
  have il: "i < kHashTableSize" by (simp add: i_def)
  note find = find_bucket_chained[OF D(2)[OF il], of "trace_hash t" t]
  show thesis
  proof (cases "find (\<lambda>x. KeyEqual (trace_hash t) t (the (buckets T x))) (P i)")
    case (Some x)
    then have x: "x \<in> set (P i)" "KeyEqual (trace_hash t) t (the (buckets T x))" by (auto simp: find_Some_iff)
    obtain k where k: "buckets T x = Some k" "x \<noteq> 0" using chained_live[OF D(2)[OF il] x(1)] by auto
    let ?T = "T\<lparr>buckets := (buckets T)(x \<mapsto> k\<lparr>bk_count := bk_count k + 1,
      bk_trace := (bk_trace k)\<lparr>st_size := add64 (st_size (bk_trace k)) (st_size t)\<rparr>\<rparr>)\<rparr>"
    have "AddTrace t T = Some ?T" using D(1) find Some k by (simp add: AddTrace_def Let_def i_def)
    moreover have "table_ok ?T P (ts @ [t])" by (rule AddTrace_known[OF I assms(2) i_def x k(1)])
    ultimately show thesis by (rule that) simp
  next
    case None
    then have none: "\<not> KeyEqual (trace_hash t) t (the (buckets T x))" if "x \<in> set (P i)" for x
      using that by (simp add: find_None_iff)
    obtain b a where b: "pha_New sizeof_Bucket (bucket_pool T) = Some (b, a)" "b \<notin> set (all_in P)" "0 < b"
      "pool sizeof_Bucket (insert b (set (all_in P))) a" "spare sizeof_Bucket (bucket_pool T) \<le> spare sizeof_Bucket a + 1"
      using pha.new_ok[OF D(4) assms(3)] by blast
    let ?T = "T\<lparr>depth_total := depth_total T + st_depth t, bucket_total := bucket_total T + 1, bucket_pool := a,
      buckets := (buckets T)(b \<mapsto> \<lparr>bk_hash = trace_hash t, bk_trace = t, bk_count = 1, bk_next = tt_table T i\<rparr>),
      tt_table := (tt_table T)(i := b)\<rparr>"
    have "AddTrace t T = Some ?T" using D(1) find None b(1) by (simp add: AddTrace_def Let_def i_def)
    moreover have "table_ok ?T (P(i := b # P i)) (ts @ [t])" by (rule AddTrace_fresh[OF I assms(2) i_def none b(2-4)])
    ultimately show thesis by (rule that) (use b(5) in simp)
  qed
qed

lemma AddTraces_ok:
  assumes "table_ok T P us" "\<forall>t \<in> set ts. whole t" "length ts \<le> spare sizeof_Bucket (bucket_pool T)"
  obtains T' P' where "ofold AddTrace ts T = Some T'" "table_ok T' P' (us @ ts)"
  using assms
proof (induction ts arbitrary: T P us thesis)
  case (Cons t ts)
  obtain T1 P1 where A: "AddTrace t T = Some T1" "table_ok T1 P1 (us @ [t])"
    "spare sizeof_Bucket (bucket_pool T) \<le> spare sizeof_Bucket (bucket_pool T1) + 1"
    by (rule AddTrace_ok[OF Cons.prems(2), of t]) (use Cons.prems(3,4) in auto)
  have sp: "length ts \<le> spare sizeof_Bucket (bucket_pool T1)" "\<forall>t \<in> set ts. whole t" using A(3) Cons.prems(3,4) by simp_all
  obtain T' P' where "ofold AddTrace ts T1 = Some T'" "table_ok T' P' ((us @ [t]) @ ts)"
    by (rule Cons.IH[OF _ A(2) sp(2,1)])
  then show ?case using A(1) by (intro Cons.prems(1)[of T' P']) simp_all
next
  case Nil
  show ?case using Nil.prems(1)[of T P] Nil.prems(2) by simp
qed

section \<open>Reading\<close>

lemma read_all:
  assumes "\<And>i. i \<in> set is \<Longrightarrow> chained B (f i) (P i)"
  shows "ofold (\<lambda>i out. read_chain B (f i) out) is out = Some (out @ concat (map (entry B) (concat (map P is))))"
  using assms
proof (induction "is" arbitrary: out)
  case (Cons i "is")
  have "read_chain B (f i) out = Some (out @ concat (map (entry B) (P i)))" by (rule read_chain_chained) (use Cons.prems in simp)
  then show ?case using Cons by simp
qed simp

lemma clear_all:
  assumes "\<And>i. i \<in> set is \<Longrightarrow> chained B (f i) (P i)" "distinct (concat (map P is))" "pool sizeof_Bucket Lv a" "set (concat (map P is)) \<subseteq> Lv"
  shows "\<exists>a'. ofold (\<lambda>i s. clear_chain (f i) s) is (B, a) = Some ((\<lambda>x. if x \<in> set (concat (map P is)) then None else B x), a')
    \<and> pool sizeof_Bucket (Lv - set (concat (map P is))) a'"
  using assms
proof (induction "is" arbitrary: B Lv a)
  case (Cons i "is")
  let ?B = "\<lambda>x. if x \<in> set (P i) then None else B x" and ?r = "concat (map P is)"
  have "chained B (f i) (P i)" "distinct (P i)" "set (P i) \<subseteq> Lv" using Cons.prems by auto
  then obtain a1 where a1: "clear_chain (f i) (B, a) = Some (?B, a1)" "pool sizeof_Bucket (Lv - set (P i)) a1"
    using clear_chain_chained[of B "f i" "P i" Lv a] Cons.prems(3) by blast
  have disj: "set (P i) \<inter> set ?r = {}" using Cons.prems(2) by auto
  have "chained ?B (f j) (P j)" if j: "j \<in> set is" for j
  proof (rule chained_cong)
    show "chained B (f j) (P j)" using Cons.prems(1) j by simp
    show "map_option bk_next (?B x) = map_option bk_next (B x)" if "x \<in> set (P j)" for x using disj j that by auto
  qed
  moreover have "distinct ?r" "set ?r \<subseteq> Lv - set (P i)" using Cons.prems(2,4) disj by auto
  ultimately obtain a' where a': "ofold (\<lambda>i s. clear_chain (f i) s) is (?B, a1) = Some ((\<lambda>x. if x \<in> set ?r then None else ?B x), a')"
    "pool sizeof_Bucket (Lv - set (P i) - set ?r) a'" using Cons.IH[of ?B "Lv - set (P i)" a1] a1(2) by blast
  moreover have "(\<lambda>x. if x \<in> set ?r then None else ?B x) = (\<lambda>x. if x \<in> set (concat (map P (i # is))) then None else B x)" by auto
  moreover have "Lv - set (P i) - set ?r = Lv - set (concat (map P (i # is)))" by auto
  ultimately show ?case using a1(1) by simp
qed simp

text \<open>The record of a stack in the returned array.\<close>

definition record_of :: "stack_trace list \<Rightarrow> nat list \<Rightarrow> nat list" where
  "record_of ts pcs = [seen ts pcs, bytes_seen ts pcs, length pcs] @ pcs"

lemma entry_record:
  assumes I: "table_ok T P ts" and x: "x \<in> set (all_in P)"
  shows "entry (buckets T) x = record_of ts (stack_at (buckets T) x)"
proof -
  note D = table_okD[OF I]
  obtain i where i: "i < kHashTableSize" "x \<in> set (P i)" using x in_all by blast
  obtain k where k: "buckets T x = Some k" using chained_live[OF D(2)[OF i(1)] i(2)] by auto
  have "bucket_ok ts i k" using D(6)[OF i] k by simp
  then show ?thesis using k by (simp add: entry_def record_of_def stack_at_def bucket_ok_def)
qed

lemma Read_ok:
  assumes I: "table_ok T P ts" and "bucket_total T * 3 + depth_total T + 1 < 2 ^ 31"
  obtains ks T' where "ReadStackTracesAndClear T = Some (Some (concat (map (record_of ts) ks) @ [0]), T')" "table_ok T' (\<lambda>_. []) []"
    "distinct ks" "set ks = pcs_of ` set ts"
proof -
  note D = table_okD[OF I]
  let ?ks = "map (stack_at (buckets T)) (all_in P)"
  have ch: "chained (buckets T) (tt_table T i) (P i)" if "i \<in> set [0..<kHashTableSize]" for i using D(2) that by simp
  have "ofold (\<lambda>i out. read_chain (buckets T) (tt_table T i) out) [0..<kHashTableSize] [] = Some ([] @ concat (map (entry (buckets T)) (all_in P)))"
    unfolding all_in_def by (rule read_all[OF ch])
  moreover have "map (entry (buckets T)) (all_in P) = map (record_of ts) ?ks" using entry_record[OF I] by simp
  ultimately have r: "ofold (\<lambda>i out. read_chain (buckets T) (tt_table T i) out) [0..<kHashTableSize] [] = Some (concat (map (record_of ts) ?ks))"
    by (simp only: append_Nil)
  have len: "length (concat (map (record_of ts) ks)) = length ks * 3 + sum_list (map length ks)" for ks
    by (induction ks) (simp_all add: record_of_def)
  have "depth_total T = sum_list (map length ?ks)" unfolding D(10) by (simp add: o_def)
  then have l: "length (concat (map (record_of ts) ?ks) @ [0]) = bucket_total T * 3 + depth_total T + 1"
    unfolding length_append len D(9) by simp
  obtain B a where c: "ofold (\<lambda>i s. clear_chain (tt_table T i) s) [0..<kHashTableSize] (buckets T, bucket_pool T) = Some (B, a)"
    "pool sizeof_Bucket (set (all_in P) - set (all_in P)) a" "B = (\<lambda>x. if x \<in> set (all_in P) then None else buckets T x)"
    using clear_all[where Lv = "set (all_in P)" and a = "bucket_pool T" and P = P, OF ch] D(3,4) unfolding all_in_def by blast
  have B: "B = Map.empty" using c(3) D(5) by (auto simp: fun_eq_iff dom_def)
  let ?T = "T\<lparr>tt_error := False, depth_total := 0, bucket_total := 0, buckets := B, bucket_pool := a,
          tt_table := (\<lambda>i. if i < kHashTableSize then 0 else tt_table T i)\<rparr>"
  have run: "ReadStackTracesAndClear T = Some (Some (concat (map (record_of ts) ?ks) @ [0]), ?T)"
    unfolding ReadStackTracesAndClear_def Let_def r c(1) Option.bind.simps prod.case l using D(1) assms(2) by (simp only: if_False check_simps Option.bind.simps simp_thms)
  have "table_ok ?T (\<lambda>_. []) []" unfolding table_ok_def all_in_none using c(2) B by simp
  then show thesis using run D(7,8) by (intro that[of ?ks ?T]) simp_all
qed

lemma StackTraceTable_ok: "pool sizeof_Bucket {} a \<Longrightarrow> table_ok (StackTraceTable a) (\<lambda>_. []) []"
  unfolding table_ok_def all_in_none by (simp add: StackTraceTable_def)

lemma stacks_small:
  assumes "table_ok T P ts" "\<forall>t \<in> set ts. st_depth t \<le> kMaxStackDepth"
  shows "bucket_total T \<le> length ts" "depth_total T \<le> kMaxStackDepth * length ts"
proof -
  note D = table_okD[OF assms(1)]
  have "length (all_in P) = card (stack_at (buckets T) ` set (all_in P))" using D(7) distinct_card by fastforce
  also have "\<dots> \<le> length ts" unfolding D(8) by (rule order_trans[OF card_image_le]) (simp_all add: card_length)
  finally show b: "bucket_total T \<le> length ts" using D(9) by simp
  have "length (stack_at (buckets T) x) \<le> kMaxStackDepth" if "x \<in> set (all_in P)" for x
  proof -
    have "stack_at (buckets T) x \<in> pcs_of ` set ts" using that D(8) by blast
    then obtain t where t: "t \<in> set ts" "stack_at (buckets T) x = pcs_of t" by blast
    have "length (pcs_of t) \<le> st_depth t" by (simp add: pcs_of_def)
    then show ?thesis using assms(2) t by fastforce
  qed
  then have "depth_total T \<le> (\<Sum>x \<leftarrow> all_in P. kMaxStackDepth)" unfolding D(10) by (intro sum_list_mono)
  also have "\<dots> = kMaxStackDepth * bucket_total T" using D(9) by (simp add: sum_list_triv)
  also have "\<dots> \<le> kMaxStackDepth * length ts" using b by simp
  finally show "depth_total T \<le> kMaxStackDepth * length ts" .
qed

text \<open>
  C28: reading the table returns one record for every stack that was added, with the number of its
  traces and the sum of their sizes modulo 2 to the 64, and a final 0; nothing else is returned, the
  array has exactly the length that was allocated, and afterwards the table is empty and usable again.
\<close>

theorem stack_traces_counted:
  assumes "pool sizeof_Bucket {} a" "length ts \<le> spare sizeof_Bucket a"
    "\<forall>t \<in> set ts. st_depth t \<le> length (st_stack t) \<and> st_depth t \<le> kMaxStackDepth \<and> st_size t < two64" "34 * length ts + 1 < 2 ^ 31"
  shows "\<exists>T ks T'. ofold AddTrace ts (StackTraceTable a) = Some T
     \<and> ReadStackTracesAndClear T = Some (Some (concat (map (record_of ts) ks) @ [0]), T')
     \<and> distinct ks \<and> set ks = pcs_of ` set ts
     \<and> buckets T' = Map.empty \<and> bucket_total T' = 0 \<and> depth_total T' = 0 \<and> (\<forall>i < kHashTableSize. tt_table T' i = 0)
     \<and> pool sizeof_Bucket {} (bucket_pool T')"
proof -
  have w: "\<forall>t \<in> set ts. whole t" "\<forall>t \<in> set ts. st_depth t \<le> kMaxStackDepth" using assms(3) by (auto simp: whole_def)
  have sp: "length ts \<le> spare sizeof_Bucket (bucket_pool (StackTraceTable a))" using assms(2) by (simp add: StackTraceTable_def)
  obtain T P where T: "ofold AddTrace ts (StackTraceTable a) = Some T" "table_ok T P ts"
    using AddTraces_ok[OF StackTraceTable_ok[OF assms(1)] w(1) sp] by auto
  have "bucket_total T * 3 + depth_total T + 1 < 2 ^ 31" using stacks_small[OF T(2) w(2)] assms(4) by simp
  then obtain ks T' where R: "ReadStackTracesAndClear T = Some (Some (concat (map (record_of ts) ks) @ [0]), T')"
    "table_ok T' (\<lambda>_. []) []" "distinct ks" "set ks = pcs_of ` set ts" by (rule Read_ok[OF T(2)]) (rule that)
  note E = table_okD[OF R(2)]
  show ?thesis using T(1) R(1,3,4) E(2,4,5,9,10)[unfolded all_in_none] by auto
qed

theorem stack_traces_counted_witness:
  "\<exists>a T ks T'. let t = \<lparr>st_size = 64, st_depth = 2, st_stack = [4096, 8192], st_link = 0\<rparr>; u = \<lparr>st_size = 8, st_depth = 1, st_stack = [4096], st_link = 0\<rparr> in
     ofold AddTrace [t, u, t] (StackTraceTable a) = Some T \<and> ReadStackTracesAndClear T = Some (Some (concat (map (record_of [t, u, t]) ks) @ [0]), T')
     \<and> set ks = {[4096, 8192], [4096]} \<and> record_of [t, u, t] [4096, 8192] = [2, 128, 2, 4096, 8192]"
proof -
  obtain a where a: "pool sizeof_Bucket {} a" "10 \<le> spare sizeof_Bucket a" using sample_pool[of sizeof_Bucket] by auto
  let ?t = "\<lparr>st_size = 64, st_depth = 2, st_stack = [4096, 8192], st_link = 0\<rparr>" and ?u = "\<lparr>st_size = 8, st_depth = 1, st_stack = [4096], st_link = 0\<rparr>"
  have "record_of [?t, ?u, ?t] [4096, 8192] = [2, 128, 2, 4096, 8192]"
    by (simp add: record_of_def seen_def bytes_seen_def pcs_of_def two64_def)
  moreover have "pcs_of ` set [?t, ?u, ?t] = {[4096, 8192], [4096]}" by (auto simp: pcs_of_def)
  ultimately show ?thesis
    using stack_traces_counted[OF a(1), of "[?t, ?u, ?t]"] a(2) by (auto simp: two64_def Let_def)
qed

end
