(* ===== verification/TcmallocStats.thy ===== *)
theory TcmallocStats
  imports TcmallocExports StackTraceTable
begin

text \<open>
  Statistics and the rest of the extension interface (\<open>tcmalloc.cc\<close>): byte counts over all layers,
  numeric properties, the sizes of the free lists, the walk over the ranges of the heap, and the
  stack traces of samples and of heap growth.  Formatting of text is not modelled.
\<close>

section \<open>Byte counts\<close>

record tcmalloc_stats =
  thread_bytes :: nat
  central_bytes :: nat
  transfer_bytes :: nat
  metadata_bytes :: nat
  ph_system_bytes :: nat
  ph_free_bytes :: nat
  ph_unmapped_bytes :: nat

text \<open>The counts of one class, added to those before.\<close>

definition central_stats :: "central \<Rightarrow> nat \<Rightarrow> nat \<times> nat \<times> (nat \<Rightarrow> nat) \<Rightarrow> (nat \<times> nat \<times> (nat \<Rightarrow> nat)) option" where
  "central_stats st cl = (\<lambda>(central_b, transfer_b, class_count). do {
     let len = cfl_length cl st;
     let tc_len = tc_length cl st;
     cache_overhead \<leftarrow> OverheadBytes cl st;
     let sz = ByteSizeForClass (smap st) cl;
     Some (add64 central_b (add64 (int_to_size (int sz * len)) cache_overhead),
           add64 transfer_b (int_to_size (int sz * tc_len)),
           class_count(cl := int_to_size (len + tc_len))) })"

text \<open>
  The statistics and the object counts per class; \<open>metadata\<close> is \<open>metadata_system_bytes()\<close>.  The span
  statistics that the code fills in on demand are \<open>GetSmallSpanStats\<close> and \<open>GetLargeSpanStats\<close>.
\<close>

definition ExtractStats :: "nat \<Rightarrow> malloc_state \<Rightarrow> (tcmalloc_stats \<times> (nat \<Rightarrow> nat)) option" where
  "ExtractStats metadata M = do {
     let T = thr M;
     (central_b, transfer_b, class_count) \<leftarrow> ofold (central_stats (cent T)) [0..<kNumClasses] (0, 0, \<lambda>_. 0);
     (thread_b, class_count) \<leftarrow> GetThreadStats (thread_heaps T) 0 class_count T;
     let h = the_heap M;
     Some (\<lparr>thread_bytes = thread_b, central_bytes = central_b, transfer_bytes = transfer_b, metadata_bytes = metadata,
       ph_system_bytes = system_bytes h, ph_free_bytes = free_bytes h, ph_unmapped_bytes = unmapped_bytes h\<rparr>, class_count) }"

text \<open>What is in use: the bytes from the system less those that are cached or free, on 64 bits.\<close>

definition bytes_in_use :: "tcmalloc_stats \<Rightarrow> nat" where
  "bytes_in_use r = sub64 (sub64 (sub64 (sub64 (sub64 (ph_system_bytes r) (thread_bytes r)) (central_bytes r)) (transfer_bytes r))
     (ph_free_bytes r)) (ph_unmapped_bytes r)"

record mallinfo =
  mi_arena :: int
  mi_fsmblks :: int
  mi_fordblks :: int
  mi_uordblks :: int

definition do_mallinfo :: "nat \<Rightarrow> malloc_state \<Rightarrow> mallinfo option" where
  "do_mallinfo metadata M = do {
     (r, counts) \<leftarrow> ExtractStats metadata M;
     Some \<lparr>mi_arena = to_int32 (int (ph_system_bytes r)),
       mi_fsmblks = to_int32 (int (add64 (add64 (thread_bytes r) (central_bytes r)) (transfer_bytes r))),
       mi_fordblks = to_int32 (int (add64 (ph_free_bytes r) (ph_unmapped_bytes r))),
       mi_uordblks = to_int32 (int (bytes_in_use r))\<rparr> }"

section \<open>Numeric properties\<close>

text \<open>The value of the property, or \<open>None\<close> (the result \<open>false\<close>) when there is none of that name.\<close>

definition GetNumericProperty :: "nat \<Rightarrow> string \<Rightarrow> malloc_state \<Rightarrow> nat option option" where
  "GetNumericProperty metadata name M =
     (if name = ''generic.current_allocated_bytes'' then do { (r, counts) \<leftarrow> ExtractStats metadata M; Some (Some (bytes_in_use r)) }
      else if name = ''generic.heap_size'' then do { (r, counts) \<leftarrow> ExtractStats metadata M; Some (Some (ph_system_bytes r)) }
      else if name = ''tcmalloc.slack_bytes'' then Some (Some (add64 (free_bytes (the_heap M)) (unmapped_bytes (the_heap M))))
      else if name = ''tcmalloc.pageheap_free_bytes'' then Some (Some (free_bytes (the_heap M)))
      else if name = ''tcmalloc.pageheap_unmapped_bytes'' then Some (Some (unmapped_bytes (the_heap M)))
      else if name = ''tcmalloc.max_total_thread_cache_bytes'' then Some (Some (overall_thread_cache_size (thr M)))
      else if name = ''tcmalloc.current_total_thread_cache_bytes'' then do { (r, counts) \<leftarrow> ExtractStats metadata M; Some (Some (thread_bytes r)) }
      else Some None)"

definition SetNumericProperty :: "(nat \<Rightarrow> nat \<Rightarrow> nat \<Rightarrow> nat) \<Rightarrow> string \<Rightarrow> nat \<Rightarrow> malloc_state \<Rightarrow> (bool \<times> malloc_state) option" where
  "SetNumericProperty scaled name v M =
     (if name = ''tcmalloc.max_total_thread_cache_bytes''
      then do { S \<leftarrow> set_overall_thread_cache_size scaled v (thr M); Some (True, M\<lparr>thr := S\<rparr>) }
      else Some (False, M))"

section \<open>Free lists\<close>

record free_list_info =
  min_object_size :: nat
  max_object_size :: nat
  total_bytes_free :: nat
  info_type :: string

definition central_infos :: "central \<Rightarrow> nat \<Rightarrow> free_list_info list" where
  "central_infos st cl = (let sz = ByteSizeForClass (smap st) cl;
       prev_class_size = (if cl = 1 then 0 else ByteSizeForClass (smap st) (cl - 1));
       i = \<lparr>min_object_size = prev_class_size + 1, max_object_size = sz,
            total_bytes_free = int_to_size (cfl_length cl st * int sz), info_type = ''tcmalloc.central''\<rparr>
     in [i, i\<lparr>total_bytes_free := int_to_size (tc_length cl st * int sz), info_type := ''tcmalloc.transfer''\<rparr>])"

text \<open>Here the code does not advance \<open>prev_class_size\<close>.\<close>

definition thread_info :: "sizemap \<Rightarrow> (nat \<Rightarrow> nat) \<Rightarrow> nat \<Rightarrow> free_list_info" where
  "thread_info m class_count cl = \<lparr>min_object_size = 0 + 1, max_object_size = ByteSizeForClass m cl,
     total_bytes_free = class_count cl * ByteSizeForClass m cl mod two64, info_type = ''tcmalloc.thread''\<rparr>"

definition span_infos :: "nat list \<Rightarrow> nat list \<Rightarrow> nat \<Rightarrow> free_list_info list" where
  "span_infos ns rs s = (let i = \<lparr>min_object_size = span_bytes (s - 1), max_object_size = span_bytes s,
       total_bytes_free = span_bytes s * ns ! s mod two64, info_type = ''tcmalloc.page''\<rparr>
     in [i, i\<lparr>total_bytes_free := span_bytes s * rs ! s mod two64, info_type := ''tcmalloc.page_unmapped''\<rparr>])"

definition GetFreeListSizes :: "malloc_state \<Rightarrow> free_list_info list option" where
  "GetFreeListSizes M = do {
     let T = thr M;
     let central_v = concat (map (central_infos (cent T)) [1..<kNumClasses]);
     (thread_b, class_count) \<leftarrow> GetThreadStats (thread_heaps T) 0 (\<lambda>_. 0) T;
     let thread_v = map (thread_info (the_sizes M) class_count) [1..<kNumClasses];
     (ns, rs) \<leftarrow> GetSmallSpanStats (the_heap M);
     (spans_n, normal, returned) \<leftarrow> GetLargeSpanStats (the_heap M);
     let i = \<lparr>min_object_size = span_bytes kMaxPages, max_object_size = two64 - 1, total_bytes_free = span_bytes normal,
              info_type = ''tcmalloc.large''\<rparr>;
     Some (central_v @ thread_v @ [i, i\<lparr>total_bytes_free := span_bytes returned, info_type := ''tcmalloc.large_unmapped''\<rparr>]
       @ concat (map (span_infos ns rs) [1..<kMaxPages])) }"

section \<open>Ranges\<close>

text \<open>
  One buffer of at most \<open>n\<close> ranges from \<open>page\<close> on, the page to go on with, and whether the walk is done.
  The callback does not change the heap; the result is the list of the ranges it is called with.
\<close>

fun fill_ranges :: "sizemap \<Rightarrow> pageheap \<Rightarrow> nat \<Rightarrow> nat \<Rightarrow> (malloc_range list \<times> nat \<times> bool) option" where
  "fill_ranges sm h page 0 = Some ([], page, False)"
| "fill_ranges sm h page (Suc n) = do {
     r \<leftarrow> GetNextRange sm page h;
     case r of None \<Rightarrow> Some ([], page, True)
     | Some r \<Rightarrow> do {
         let limit = add64 (mr_address r) (mr_length r);
         (rs, page, over) \<leftarrow> fill_ranges sm h (sub64 (add64 limit kPageSize) 1 div 2 ^ kPageShift) n;
         Some (r # rs, page, over) } }"

definition kNumRanges :: nat where [simp]: "kNumRanges = 16"

partial_function (option) iterate_ranges :: "sizemap \<Rightarrow> pageheap \<Rightarrow> nat \<Rightarrow> malloc_range list \<Rightarrow> malloc_range list option" where
  "iterate_ranges sm h page out = Option.bind (fill_ranges sm h page kNumRanges) (\<lambda>(rs, page, over).
     if over then Some (out @ rs) else iterate_ranges sm h page (out @ rs))"

declare iterate_ranges.simps [code]

definition IterateOverRanges :: "malloc_state \<Rightarrow> malloc_range list option" where
  "IterateOverRanges M = iterate_ranges (the_sizes M) (the_heap M) 1 []"

section \<open>Stack traces\<close>

text \<open>
  The samples, through a table of their stacks with the bucket pool \<open>a\<close>; with them the sampling period
  that the cache of the calling thread reports.
\<close>

definition GetSamplePeriod :: "menv \<Rightarrow> int" where
  "GetSamplePeriod env = to_int32 (sample_parameter env)"

definition ReadStackTraces :: "menv \<Rightarrow> nat \<Rightarrow> allocator \<Rightarrow> malloc_state \<Rightarrow> (nat list option \<times> int \<times> trace_table \<times> malloc_state) option" where
  "ReadStackTraces env me a M = do {
     T \<leftarrow> dll_for SampledObjects (\<lambda>_ s T. do {
         t \<leftarrow> traces (the_heap M) (sp_objects s);
         AddTrace t T }) (mem (the_heap M)) (StackTraceTable a);
     M \<leftarrow> (if tsd_inited (thr M) then Some M else InitModule env M);
     (heap, S) \<leftarrow> GetCache (sample_interval env) (raw_cache env) me (thr M);
     let sample_period = GetSamplePeriod env;
     (out, T) \<leftarrow> ReadStackTracesAndClear T;
     Some (out, sample_period, T, M\<lparr>thr := S\<rparr>) }"

partial_function (option) growth_slots :: "(nat \<Rightarrow> stack_trace option) \<Rightarrow> nat \<Rightarrow> nat \<Rightarrow> nat option" where
  "growth_slots tr t n =
     (if t = 0 then Some n else Option.bind (tr t) (\<lambda>s. growth_slots tr (st_link s) (n + 3 + st_depth s)))"

declare growth_slots.simps [code]

partial_function (option) growth_fill :: "(nat \<Rightarrow> stack_trace option) \<Rightarrow> nat \<Rightarrow> nat \<Rightarrow> nat list \<Rightarrow> nat list option" where
  "growth_fill tr needed t out =
     (if t = 0 then Some (out @ [0])
      else Option.bind (tr t) (\<lambda>s. Option.bind (check (length out < needed)) (\<lambda>_.
        if length out + 3 + st_depth s \<ge> needed then Some (out @ [0])
        else growth_fill tr needed (st_link s) (out @ [1, st_size s, st_depth s] @ take (st_depth s) (st_stack s)))))"

declare growth_fill.simps [code]

text \<open>
  The address of the array and its contents.  The array is allocated between the two walks, so that the
  list may have grown at the second.
\<close>

definition DumpHeapGrowthStackTraces :: "menv \<Rightarrow> nat \<Rightarrow> malloc_state \<Rightarrow> (outcome \<times> nat list \<times> malloc_state) option" where
  "DumpHeapGrowthStackTraces env me M = do {
     n \<leftarrow> growth_slots (traces (the_heap M)) (growth_stacks (the_heap M)) 0;
     let needed_slots = n + 100;
     let needed_slots = needed_slots + needed_slots div 8;
     (r, M) \<leftarrow> tc_newarray env me (8 * needed_slots) M;
     if r = Returned 0 then Some (r, [], M)
     else case r of
       Returned p \<Rightarrow> do {
         out \<leftarrow> growth_fill (traces (the_heap M)) needed_slots (growth_stacks (the_heap M)) [];
         Some (r, out, M) }
     | _ \<Rightarrow> Some (r, [], M) }"

section \<open>Start-up object\<close>

text \<open>
  The constructor of \<open>TCMallocGuard\<close>: the first one brings the module and the thread-specific key up with
  two allocations, and registers a new extension object unless the program runs under Valgrind.  The
  replacement of the system's malloc and the registry of extensions are outside the state.
\<close>

definition sizeof_TCMallocImplementation :: nat where [simp]: "sizeof_TCMallocImplementation = 16"

definition alloc_and_free :: "menv \<Rightarrow> nat \<Rightarrow> malloc_state \<Rightarrow> malloc_state option" where
  "alloc_and_free env me M = do {
     (r, M) \<leftarrow> tc_malloc env me 1 M;
     case r of Returned p \<Rightarrow> tc_free env me p M | _ \<Rightarrow> None }"

definition register_extension :: "menv \<Rightarrow> nat \<Rightarrow> malloc_state \<Rightarrow> malloc_state option" where
  "register_extension env me M = do {
     (r, M) \<leftarrow> tc_new env me sizeof_TCMallocImplementation M;
     case r of Returned p \<Rightarrow> Some (M\<lparr>extra_bytes_released := 0\<rparr>) | _ \<Rightarrow> None }"

definition TCMallocGuard :: "bool \<Rightarrow> menv \<Rightarrow> nat \<Rightarrow> nat \<Rightarrow> malloc_state \<Rightarrow> (nat \<times> malloc_state) option" where
  "TCMallocGuard valgrind env me refcount M =
     (if refcount = 0
      then do {
        M \<leftarrow> alloc_and_free env me M;
        S \<leftarrow> InitTSD (thr M);
        M \<leftarrow> alloc_and_free env me (M\<lparr>thr := S\<rparr>);
        M \<leftarrow> (if valgrind then Some M else register_extension env me M);
        Some (refcount + 1, M) }
      else Some (refcount + 1, M))"

end
