(* ===== verification/TcmallocWalk.thy ===== *)
theory TcmallocWalk
  imports TcmallocStats TcmallocThms
begin

text \<open>
  The extension interface on consistent states: the walk of \<open>IterateOverRanges\<close> reports every span of
  the heap exactly once, and the budget of the thread caches is set and read back.
\<close>

section \<open>The walk over the ranges\<close>

definition ahead :: "pageheap \<Rightarrow> nat \<Rightarrow> nat set" where
  "ahead h k = {a. \<exists>s l c. spans h a = Some (s, l, c) \<and> k \<le> s}"

definition view :: "malloc_range \<Rightarrow> nat \<times> nat \<times> range_type" where
  "view r = (mr_address r, mr_length r, mr_type r)"

definition span_views :: "pageheap \<Rightarrow> nat \<Rightarrow> nat \<Rightarrow> (nat \<times> nat \<times> range_type) set" where
  "span_views h k m = {(kPageSize * s, kPageSize * l, span_type c) | a s l c. spans h a = Some (s, l, c) \<and> k \<le> s \<and> s + l \<le> m}"

definition walked :: "pageheap \<Rightarrow> nat \<Rightarrow> malloc_range list \<Rightarrow> nat \<Rightarrow> bool" where
  "walked h k rs m \<longleftrightarrow> k \<le> m \<and> view ` set rs = span_views h k m
     \<and> sorted_wrt (\<lambda>r q. mr_address r + mr_length r \<le> mr_address q) rs"

lemma span_bounds:
  assumes "heap_ok h" "spans h a = Some (s, l, c)"
  shows "0 < s" "0 < l" "s + l \<le> 2 ^ 35"
proof -
  obtain P L where I: "hinv {} P h L" using assms(1) by (auto simp: heap_ok_def heap_at_def)
  note E = hinv_ends[OF I assms(2)]
  have "s \<in> P" "s + l - 1 \<in> P" using E(3,4) by auto
  then have "0 < s" "s + l - 1 < 2 ^ 35" using hinv_parts(5)[OF I] by (auto simp: map_ok_def pm3_ensured_def)
  then show "0 < s" "0 < l" "s + l \<le> 2 ^ 35" using E(3) by simp_all
qed

lemma finite_ahead: "heap_ok h \<Longrightarrow> finite (ahead h k)"
proof -
  assume "heap_ok h"
  then obtain P L where I: "hinv {} P h L" by (auto simp: heap_ok_def heap_at_def)
  have "ahead h k \<subseteq> dom (spans h)" by (auto simp: ahead_def)
  moreover have "finite (dom (spans h))" using hinv_parts(3)[OF I] by (simp add: descs_ok_def)
  ultimately show "finite (ahead h k)" by (rule finite_subset)
qed

lemma walked_Nil: "heap_ok h \<Longrightarrow> walked h k [] k"
  using span_bounds(2) by (fastforce simp: walked_def span_views_def)

lemma walked_append:
  assumes "heap_ok h" "walked h k rs m" "walked h m qs n" "boundary h m"
  shows "walked h k (rs @ qs) n"
proof -
  have km: "k \<le> m" "m \<le> n" using assms(2,3) by (auto simp: walked_def)
  have "span_views h k n = span_views h k m \<union> span_views h m n"
  proof
    show "span_views h k n \<subseteq> span_views h k m \<union> span_views h m n"
      using assms(4) unfolding span_views_def boundary_def by blast
    show "span_views h k m \<union> span_views h m n \<subseteq> span_views h k n"
      using km unfolding span_views_def by (fastforce intro: order_trans)
  qed
  moreover have "mr_address r + mr_length r \<le> mr_address q" if "r \<in> set rs" "q \<in> set qs" for r q
  proof -
    have "view r \<in> span_views h k m" "view q \<in> span_views h m n" using assms(2,3) that by (auto simp: walked_def)
    then obtain s l t where *: "mr_address r = kPageSize * s" "mr_length r = kPageSize * l" "s + l \<le> m" "mr_address q = kPageSize * t" "m \<le> t"
      unfolding span_views_def view_def by blast
    then have "kPageSize * (s + l) \<le> kPageSize * t" by (intro mult_le_mono2) linarith
    then show ?thesis by (simp add: * distrib_left)
  qed
  ultimately show ?thesis using assms(2,3) km by (auto simp: walked_def sorted_wrt_append image_Un)
qed

lemma next_range:
  assumes "heap_ok h" "boundary h k"
  obtains "GetNextRange sm k h = Some None" "ahead h k = {}"
  | r m where "GetNextRange sm k h = Some (Some r)" "walked h k [r] m" "boundary h m"
      "sub64 (add64 (add64 (mr_address r) (mr_length r)) kPageSize) 1 div 2 ^ kPageShift = m"
  using GetNextRange_ok[OF assms, of sm]
proof (elim disjE exE conjE)
  assume n: "GetNextRange sm k h = Some None" and all: "\<forall>a s l c. spans h a = Some (s, l, c) \<longrightarrow> s + l \<le> k"
  have "ahead h k = {}" using all span_bounds(2)[OF assms(1)] by (fastforce simp: ahead_def)
  then show ?thesis by (rule that(1)[OF n])
next
  fix r a s l c
  assume r: "GetNextRange sm k h = Some (Some r)" and a: "spans h a = Some (s, l, c)" and ks: "k \<le> s"
    and first: "\<forall>b t m d. spans h b = Some (t, m, d) \<longrightarrow> k \<le> t \<longrightarrow> s \<le> t"
    and v: "mr_address r = kPageSize * s" "mr_length r = kPageSize * l" "mr_type r = span_type c"
    and b: "boundary h (s + l)"
  note B = span_bounds[OF assms(1) a]
  obtain P L where I: "hinv {} P h L" using assms(1) by (auto simp: heap_ok_def heap_at_def)
  have "b = a" if "spans h b = Some (t, m, d)" "k \<le> t" "t + m \<le> s + l" for b t m d
  proof (rule ccontr)
    assume "b \<noteq> a"
    moreover have "0 < m" by (rule span_bounds(2)[OF assms(1) that(1)])
    moreover have "s \<le> t" using first that by blast
    moreover have "t + m \<le> s \<or> s + l \<le> t"
      using hinv_parts(3)[OF I] that(1) a \<open>b \<noteq> a\<close> unfolding descs_ok_def by blast
    ultimately show False using that(3) by linarith
  qed
  then have "span_views h k (s + l) = {view r}"
    using a ks unfolding span_views_def view_def v by (auto simp del: kPageSize_def)
  then have "walked h k [r] (s + l)" using ks by (simp add: walked_def)
  moreover have "sub64 (add64 (add64 (mr_address r) (mr_length r)) kPageSize) 1 div 2 ^ kPageShift = s + l"
  proof -
    have "sub64 (add64 (add64 (mr_address r) (mr_length r)) kPageSize) 1 = (8192 * (s + l) + 8191 + 2 ^ 64) mod 2 ^ 64"
      using B(3) by (simp add: v add64_def sub64_def two64_def)
    also have "\<dots> = 8192 * (s + l) + 8191" using B(3) by (subst mod_add_self2) simp
    finally show ?thesis by simp
  qed
  ultimately show ?thesis using that(2)[OF r] b by blast
qed

lemma fill_ranges_ok:
  assumes "heap_ok h" "boundary h k"
  obtains rs m over where "fill_ranges sm h k n = Some (rs, m, over)" "walked h k rs m" "boundary h m"
    "over \<Longrightarrow> ahead h m = {}" "\<not> over \<Longrightarrow> length rs = n"
proof -
  have "\<exists>rs m over. fill_ranges sm h k n = Some (rs, m, over) \<and> walked h k rs m \<and> boundary h m
      \<and> (over \<longrightarrow> ahead h m = {}) \<and> (\<not> over \<longrightarrow> length rs = n)"
    using assms(2)
  proof (induction n arbitrary: k)
    case 0
    then show ?case using walked_Nil[OF assms(1), of k] by (intro exI[of _ "[]"] exI[of _ k] exI[of _ False]) simp
  next
    case (Suc n)
    show ?case
    proof (rule next_range[OF assms(1) Suc.prems, of sm])
      assume "GetNextRange sm k h = Some None" "ahead h k = {}"
      then show ?thesis using walked_Nil[OF assms(1), of k] Suc.prems by (intro exI[of _ "[]"] exI[of _ k] exI[of _ True]) simp
    next
      fix r m
      assume r: "GetNextRange sm k h = Some (Some r)" "walked h k [r] m" "boundary h m"
        "sub64 (add64 (add64 (mr_address r) (mr_length r)) kPageSize) 1 div 2 ^ kPageShift = m"
      obtain rs m' over where f: "fill_ranges sm h m n = Some (rs, m', over)" "walked h m rs m'" "boundary h m'"
        "over \<longrightarrow> ahead h m' = {}" "\<not> over \<longrightarrow> length rs = n"
        using Suc.IH[OF r(3)] by blast
      have "walked h k (r # rs) m'" using walked_append[OF assms(1) r(2) f(2) r(3)] by simp
      moreover have "fill_ranges sm h k (Suc n) = Some (r # rs, m', over)"
        using r(1) f(1) unfolding fill_ranges.simps Let_def r(4)[symmetric] by (simp add: r(4))
      ultimately show ?thesis using f(3-5) by auto
    qed
  qed
  then show thesis using that by blast
qed

lemma iterate_ranges_ok:
  assumes "heap_ok h"
  shows "boundary h k \<Longrightarrow> \<exists>rs m. iterate_ranges sm h k out = Some (out @ rs) \<and> walked h k rs m \<and> boundary h m \<and> ahead h m = {}"
proof (induction "card (ahead h k)" arbitrary: k out rule: less_induct)
  case less
  obtain rs m over where f: "fill_ranges sm h k kNumRanges = Some (rs, m, over)" "walked h k rs m" "boundary h m"
    "over \<Longrightarrow> ahead h m = {}" "\<not> over \<Longrightarrow> length rs = kNumRanges"
    by (rule fill_ranges_ok[OF assms less.prems, where sm = sm and n = kNumRanges]) (rule that)
  show ?case
  proof (cases over)
    case True
    then show ?thesis using f by (subst iterate_ranges.simps) auto
  next
    case False
    then have "rs \<noteq> []" using f(5) by auto
    then have "span_views h k m \<noteq> {}" using f(2) unfolding walked_def by (metis image_is_empty set_empty)
    then obtain a s l c where a: "spans h a = Some (s, l, c)" "k \<le> s" "s + l \<le> m" by (auto simp: span_views_def)
    then have "a \<in> ahead h k" "a \<notin> ahead h m" using span_bounds(2)[OF assms a(1)] by (auto simp: ahead_def)
    moreover have "k \<le> m" using f(2) by (simp add: walked_def)
    then have "ahead h m \<subseteq> ahead h k" by (auto simp: ahead_def)
    ultimately have "card (ahead h m) < card (ahead h k)" by (intro psubset_card_mono finite_ahead[OF assms]) blast
    from less.hyps[OF this f(3)] obtain qs n where
      q: "iterate_ranges sm h m (out @ rs) = Some ((out @ rs) @ qs)" "walked h m qs n" "boundary h n" "ahead h n = {}" by blast
    have "iterate_ranges sm h k out = Some (out @ rs @ qs)" using f(1) False q(1) by (subst iterate_ranges.simps) simp
    then show ?thesis using walked_append[OF assms f(2) q(2) f(3)] q(3,4) by blast
  qed
qed

text \<open>
  C39: iterating over the ranges of the heap ends, and reports every span of the heap, used, free or
  unmapped, exactly once with its address, size and state, in address order and without overlaps; the
  buffer of 16 ranges and the start at page 1 lose none.
\<close>

theorem IterateOverRanges_all:
  assumes "heap_ok (the_heap M)"
  shows "\<exists>rs. IterateOverRanges M = Some rs \<and> sorted_wrt (\<lambda>r q. mr_address r + mr_length r \<le> mr_address q) rs
    \<and> (\<lambda>r. (mr_address r, mr_length r, mr_type r)) ` set rs
       = {(kPageSize * s, kPageSize * l, span_type c) | a s l c. spans (the_heap M) a = Some (s, l, c)}"
proof -
  have B: "1 \<le> s" if "spans (the_heap M) a = Some (s, l, c)" for a s l c using span_bounds(1)[OF assms that] by simp
  then have b: "boundary (the_heap M) 1" unfolding boundary_def by blast
  obtain rs m where rs: "iterate_ranges (the_sizes M) (the_heap M) 1 [] = Some rs" "walked (the_heap M) 1 rs m"
    "boundary (the_heap M) m" "ahead (the_heap M) m = {}"
    using iterate_ranges_ok[OF assms b, of "the_sizes M" "[]"] by auto
  have "s + l \<le> m" if "spans (the_heap M) a = Some (s, l, c)" for a s l c
    using rs(3,4) that unfolding boundary_def ahead_def by blast
  then have "span_views (the_heap M) 1 m = {(kPageSize * s, kPageSize * l, span_type c) | a s l c. spans (the_heap M) a = Some (s, l, c)}"
    using B unfolding span_views_def by blast
  then show ?thesis using rs(1,2) unfolding IterateOverRanges_def walked_def view_def by simp
qed

theorem IterateOverRanges_all_witness:
  "\<exists>M r rs. heap_ok (the_heap M) \<and> IterateOverRanges M = Some (r # rs)"
proof -
  obtain h0 where f: "fresh_heap h0" using fresh_heap_exists by blast
  then obtain a s h where h: "heap_ok h" "allocated h0 3 a s h"
    using fresh_New[of h0 3 sample_env] by auto
  define M where "M = cold\<lparr>thr := (undefined :: threads)\<lparr>cent := (undefined :: central)\<lparr>pheap := h\<rparr>\<rparr>\<rparr>"
  have M: "the_heap M = h" by (simp add: M_def)
  have a: "spans (the_heap M) a = Some (s, 3, IN_USE)" using h(2) by (simp add: allocated_def M)
  have ok: "heap_ok (the_heap M)" using h(1) by (simp add: M)
  obtain rs where rs: "IterateOverRanges M = Some rs"
    "(\<lambda>r. (mr_address r, mr_length r, mr_type r)) ` set rs
       = {(kPageSize * s, kPageSize * l, span_type c) | a s l c. spans (the_heap M) a = Some (s, l, c)}"
    using IterateOverRanges_all[OF ok] by blast
  have "rs \<noteq> []" using rs(2) a by auto
  then show ?thesis using rs(1) ok by (metis neq_Nil_conv)
qed

section \<open>The budget of the thread caches\<close>

text \<open>
  Setting the total size of the thread caches succeeds, the value is clamped and read back, no block of
  the application is touched, and no other property can be set.
\<close>

theorem SetNumericProperty_reads_back:
  assumes "malloc_ok M B" "\<forall>sp d m. sp < d \<longrightarrow> scaled sp d m \<le> m"
  shows "(\<exists>M'. SetNumericProperty scaled ''tcmalloc.max_total_thread_cache_bytes'' v M = Some (True, M') \<and> malloc_ok M' B
      \<and> same_words B M M'
      \<and> GetNumericProperty metadata ''tcmalloc.max_total_thread_cache_bytes'' M' = Some (Some (min (max v kMinThreadCacheSize) (2 ^ 30))))
    \<and> (name \<noteq> ''tcmalloc.max_total_thread_cache_bytes'' \<longrightarrow> SetNumericProperty scaled name v M = Some (False, M))"
proof -
  obtain App F S G where I: "module_up M" "mstate (thr M) App F S G" "B = blocks App F" using assms(1) unfolding malloc_ok_def by blast
  define u where "u = min (max v kMinThreadCacheSize) (2 ^ 30)"
  have u: "kMinThreadCacheSize \<le> u" "u \<le> 2 ^ 30" by (simp_all add: u_def)
  have t: "threads_ok (exactly F G (store (cent (thr M)))) (thr M) App" and sp: "sampled_ok F S G"
    using I(2) by (simp_all add: mstate_def)
  obtain T where T: "RecomputePerThreadCacheSize scaled ((thr M)\<lparr>overall_thread_cache_size := u\<rparr>) = Some T"
    "threads_ok (exactly F G (store (cent (thr M)))) T App" "overall_thread_cache_size T = u" "cent T = cent (thr M)"
    by (rule RecomputePerThreadCacheSize_ok[OF t assms(2) u]) (rule that)
  have "set_overall_thread_cache_size scaled v (thr M) = Some T"
    using T(1) by (simp add: set_overall_thread_cache_size_def Let_def u_def min_def max_def not_less split: if_splits)
  then have "SetNumericProperty scaled ''tcmalloc.max_total_thread_cache_bytes'' v M = Some (True, M\<lparr>thr := T\<rparr>)"
    by (simp add: SetNumericProperty_def)
  moreover have "malloc_ok (M\<lparr>thr := T\<rparr>) B"
    unfolding I(3) by (rule malloc_okI) (use I(1) mstateI[OF T(2) sp] in simp_all)
  moreover have "same_words B M (M\<lparr>thr := T\<rparr>)" by (simp add: same_words_def T(4))
  ultimately show ?thesis using T(3) by (auto simp: SetNumericProperty_def GetNumericProperty_def u_def)
qed

theorem SetNumericProperty_reads_back_witness:
  "\<exists>M p. malloc_ok M {(p, 24576)} \<and> SetNumericProperty (\<lambda>_ _ m. m div 2) ''tcmalloc.slack_bytes'' 5 M = Some (False, M)
     \<and> (\<exists>M'. SetNumericProperty (\<lambda>_ _ m. m div 2) ''tcmalloc.max_total_thread_cache_bytes'' 5 M = Some (True, M'))"
proof -
  obtain M p where M: "malloc_ok M {(p, 24576)}" by (rule sample_block[of 1]) (rule that)
  show ?thesis using SetNumericProperty_reads_back[OF M, of "\<lambda>_ _ m. m div 2" 5 0 "''tcmalloc.slack_bytes''"] M by auto
qed

end
