(* ===== verification/Spec2Isabelle.thy ===== *)
theory Spec2Isabelle
  imports Prelude SizeMap PageMap PackedCache PageHeapThms DisassemblerThms ThreadCacheThms
    TcmallocThms StackTraceThms TcmallocWalk
begin

text \<open>
  A verification development for the allocator of the profiler's thread-caching malloc, the C++ sources
  under \<open>tprofiler-src/src\<close>, and for the instruction disassembler beside it.  File names below are
  relative to that directory.

  The program.  A request is rounded up to one of 86 size classes (\<open>common.h\<close>, \<open>common.cc\<close>).  A thread
  takes objects from the lists of its own cache (\<open>thread_cache.*\<close>), which exchanges batches with the
  central lists and competes with the caches of the other threads for a common budget.  Objects of a
  class come from central lists (\<open>central_freelist.*\<close>), one per class, that cut spans of pages into
  objects and keep ranges of them in a transfer cache.  Spans (\<open>span.*\<close>) come from the page heap
  (\<open>page_heap.*\<close>), which keeps free spans on lists by length, merges neighbours, and gets memory from the
  system.  The page map (\<open>pagemap.h\<close>), a radix tree, leads from a page to its span; a small packed cache
  (\<open>packed-cache-inl.h\<close>) remembers the class of recent pages; descriptors and stack traces live in
  pools (\<open>page_heap_allocator.h\<close>).  The malloc entry points (\<open>tcmalloc.cc\<close>) take small blocks from the
  caches and large or sampled blocks, as whole spans, from the page heap.  The disassembler (\<open>windows/mini_disassembler.*\<close> with its opcode
  tables) measures the instructions that the Windows build patches.

  The theories, in the order of the code:
  \<^item> \<open>Prelude\<close>: 64-bit arithmetic with its wrap-around (\<open>add64\<close>, \<open>sub64\<close>), \<open>check\<close>, which is \<open>ASSERT\<close> and
    \<open>CHECK_CONDITION\<close> as the failure branch of the option monad, and shared lemmas.
  \<^item> \<open>SizeMap\<close>: the constants of the default build and \<open>SizeMap\<close>: \<open>Init\<close> runs to its end, and the
    table it builds answers every request with the least sufficient class.
  \<^item> \<open>PageMap\<close>: the flat array and the two- and three-level trees, generic in the number of bits; the
    trees refine the flat map and \<open>Next\<close> agrees on all of them.
  \<^item> \<open>PackedCache\<close>: the cache, generic in its widths: what it answers after any sequence of operations.
  \<^item> \<open>PageHeapAllocator\<close>: the metadata pools; the chunks they get are a stream of answers, so that
    \<open>room\<close> and \<open>trace_room\<close> below say how many more objects are certain to be available.
  \<^item> \<open>Span\<close>: descriptors in an explicit store, and the circular doubly linked lists; the locale
    \<open>list_family\<close> states what removal and insertion promise and is interpreted on \<open>DLL_Remove\<close> and
    \<open>DLL_Prepend\<close>.
  \<^item> \<open>PageHeap\<close>: every operation of the page heap.  \<open>PageHeapInv\<close> is its invariant (\<open>heap_ok\<close>: the spans
    tile the managed pages, free neighbours are merged, lists, page map and counters agree),
    \<open>PageHeapOps\<close>, \<open>PageHeapSpec\<close>, \<open>PageHeapNew\<close>, \<open>PageHeapGrow\<close> and \<open>PageHeapMore\<close> the lemmas on its
    operations, \<open>PageHeapThms\<close> its properties.
  \<^item> \<open>LinkedList\<close>: the singly linked lists through the first words of free objects; \<open>sll w p xs\<close> says
    that the list at \<open>p\<close> in the store \<open>w\<close> is \<open>xs\<close>.
  \<^item> \<open>CentralFreeList\<close>: every operation of the central lists over the page heap, the size map and the
    store.  \<open>CentralFreeListInv\<close> is the invariant: \<open>central_ok st Own\<close> says that the state is consistent
    and that \<open>Own\<close> are the objects clients hold, the abstract state of the contract.
    \<open>CentralFreeListOps\<close> and \<open>CentralFreeListFlow\<close> follow objects and spans through the operations,
    \<open>CentralFreeListRanges\<close> the ranges and transfer caches, \<open>CentralFreeListThms\<close> states the properties.
  \<^item> \<open>Sampler\<close>: the allocation sampler of a thread (\<open>sampler.*\<close>).
  \<^item> \<open>ThreadCache\<close>: the free lists of a thread, every operation of a cache, and the static state of all
    caches.  \<open>ThreadCacheLists\<close> states what a cache asks of the central lists as the locale
    \<open>object_source\<close> and proves the operations on the lists of one cache inside \<open>cached_source\<close>;
    \<open>ThreadCacheFlow\<close> interprets it on the central lists and adds \<open>Allocate\<close> and \<open>Deallocate\<close>.
    \<open>ThreadCacheBudget\<close> is the list of caches and the budget, \<open>ThreadCaches\<close> the invariant
    \<open>threads_ok ok S App\<close>, where \<open>App\<close> are the objects the application holds, \<open>ThreadCachesOps\<close>,
    \<open>ThreadCachesLife\<close> and \<open>ThreadCachesRun\<close> the operations on it, \<open>ThreadCacheThms\<close> the properties.
  \<^item> \<open>StaticVars\<close>, \<open>Tcmalloc\<close>, \<open>TcmallocExports\<close>: the start-up of the static data, the malloc entry points and
    the exported routines.  \<open>PageHeapTags\<close> and \<open>CentralFreeListTags\<close> extend the invariants below by what
    others keep in the page heap: the classes and sample marks of spans (\<open>tagged F G h\<close>, where \<open>F\<close> are
    descriptors in the hands of others and \<open>G\<close> the traces that they use), and the locale of the thread
    caches is interpreted a second time on central lists with such spans (\<open>central_with\<close>).
    \<open>TcmallocSpans\<close> takes spans out of the page heap, marks, cuts and returns them; \<open>TcmallocInv\<close> is the
    invariant \<open>malloc_ok M B\<close>, where \<open>B\<close> are the blocks (address and usable size) that the application
    holds; \<open>TcmallocOps\<close> is malloc, \<open>TcmallocFree\<close> free and the size of a block, \<open>TcmallocBytes\<close> the
    contents of blocks and calloc, \<open>TcmallocRealloc\<close>, \<open>TcmallocMemalign\<close> and \<open>TcmallocStart\<close> the
    routines they are named after, \<open>TcmallocCalls\<close> ownership, operator new and alignments, and
    \<open>TcmallocThms\<close> the properties, up to lawful runs of calls by any threads.
  \<^item> \<open>TcmallocStats\<close>: byte counts over all layers, numeric properties, the sizes of the free lists, the walk
    over the ranges of the heap, the stack traces of samples and of growth, and the constructor of
    \<open>TCMallocGuard\<close>; \<open>TcmallocWalk\<close> shows that the walk reports every span once and that the budget of the
    thread caches is read back as it was set.
  \<^item> \<open>StackTraceTable\<close>: the hash table that counts sampled stacks; \<open>StackTraceThms\<close> shows what it returns.
  \<^item> \<open>OpcodeMap\<close>, \<open>MiniDisassembler\<close>: the complete opcode and ModR/M tables and every routine of the
    disassembler, with the 64-bit build as a parameter; \<open>DisassemblerFacts\<close> and \<open>DisassemblerThms\<close>
    show that it is total, bounded and local.

  Conventions.  Addresses, pages and sizes are natural numbers; where the code computes on 64 bits and
  the result could wrap, the wrap is written out.  A failed assertion, a null dereference and a read
  outside the given code are \<open>None\<close>, so that a property that an operation returns \<open>Some\<close> includes
  that none of these happens.  Loops that need not end for every input are \<open>partial_function (option)\<close>
  and their termination is part of the properties.  The answers of the system (memory regions,
  released pages, metadata chunks, stack traces) are streams in the state or parameters; \<open>os_ok\<close>
  states what is assumed of regions: they are page-aligned, do not overlap, and stay below the
  address limit \<open>heap_budget\<close> = 2 to the 44 bytes, which also bounds every byte count below the point
  of overflow.  The hypotheses \<open>2 \<le> room\<close> and \<open>0 < trace_room\<close> say that metadata memory is left:
  the code dereferences a null result of the pools otherwise; \<open>memory_ready\<close> is the two together, and
  \<open>cache_room\<close> the same for a new thread cache, with a total of limits below 2 to the 63; \<open>memory_left\<close>
  is what a call of malloc needs of all of them.

  Not modelled.  Locks and interleavings of threads: every call is atomic, although the central lists
  drop their lock around calls of the page heap and other lists.  The debugging builds
  (\<open>SPAN_HISTORY\<close>), logging and statistics text.  In the thread caches the recursion of
  \<open>pthread_setspecific\<close> into the allocator, and the floating-point formulas of the sampling interval and
  of the scaling of limits, which are parameters.  Of \<open>tcmalloc.cc\<close> the formatting of the statistics, the
  overriding of symbols, the registry of extensions and the exchange of the system allocator.  Profiles,
  the heap checker, and everything that talks to the operating system; the manifest lists each with its
  reason.
\<close>

end
